(* ===== verification/Prelude.thy ===== *)
theory Prelude
  imports Main "HOL-Library.Word" "HOL-Library.Sublist"
begin

text \<open>
  Shared vocabulary of the development: machine words, the error values of the C code, C
  strings (a \<open>char list\<close> without its terminating NUL), the fragment of the C standard library
  the sources use on strings, and the generic list lemmas and fact collections that the
  component theories share.
\<close>

unbundle bit_operations_syntax

section \<open>Fact collections\<close>

named_theorems path_simps \<open>unfolding rules of the path operations\<close>
named_theorems reg_simps \<open>reading and writing the register file\<close>

section \<open>Machine types\<close>

type_synonym word_t = "64 word"
type_synonym u32 = "32 word"
type_synonym byte = "8 word"

section \<open>Errors\<close>

text \<open>
  The sources report an error as \<open>-errno\<close>. Here an operation that may fail returns
  \<open>errno + 'a\<close>. \<open>Crash\<close> is not a value of \<open>errno\<close>: it is the branch on which the C program
  does not return at all (a failed \<open>assert\<close>, or a NULL pointer that is dereferenced).
\<close>

datatype errno =
  EPERM | ENOENT | ESRCH | EINTR | EIO | E2BIG | ENOEXEC | EBADF | EAGAIN | ENOMEM | EACCES
| EFAULT | EEXIST | EXDEV | ENOTDIR | EINVAL | EFBIG | ENOSPC | EROFS | ERANGE | ENAMETOOLONG
| ENOSYS | ELOOP | ENOMSG | EIDRM | ENOTSUP | EPROTONOSUPPORT | ECHILD | EBUSY | ENODEV | ENOTEMPTY | EMLINK
| ESPIPE | EPIPE | EMFILE | EISDIR | ENOTSOCK | EADDRINUSE | EAFNOSUPPORT | Crash

fun errno_num :: "errno \<Rightarrow> int" where
  "errno_num EPERM = 1" | "errno_num ENOENT = 2" | "errno_num ESRCH = 3"
| "errno_num EINTR = 4" | "errno_num EIO = 5" | "errno_num E2BIG = 7"
| "errno_num ENOEXEC = 8" | "errno_num EBADF = 9" | "errno_num EAGAIN = 11"
| "errno_num ENOMEM = 12" | "errno_num EACCES = 13" | "errno_num EFAULT = 14"
| "errno_num EEXIST = 17" | "errno_num EXDEV = 18" | "errno_num ENOTDIR = 20"
| "errno_num EINVAL = 22" | "errno_num EFBIG = 27" | "errno_num ENOSPC = 28"
| "errno_num EROFS = 30" | "errno_num ERANGE = 34" | "errno_num ENAMETOOLONG = 36"
| "errno_num ENOSYS = 38" | "errno_num ELOOP = 40" | "errno_num ENOMSG = 42"
| "errno_num EIDRM = 43" | "errno_num EPROTONOSUPPORT = 93" | "errno_num ENOTSUP = 95"
| "errno_num ECHILD = 10" | "errno_num EBUSY = 16" | "errno_num ENODEV = 19" | "errno_num EISDIR = 21"
| "errno_num EMFILE = 24" | "errno_num ESPIPE = 29" | "errno_num EMLINK = 31" | "errno_num EPIPE = 32"
| "errno_num ENOTEMPTY = 39" | "errno_num ENOTSOCK = 88" | "errno_num EAFNOSUPPORT = 97" | "errno_num EADDRINUSE = 98"
| "errno_num Crash = 0"

type_synonym 'a res = "errno + 'a"

section \<open>C strings\<close>

abbreviation "NUL \<equiv> CHR 0x00"
abbreviation "slash \<equiv> CHR ''/''"

text \<open>\<open>s[i]\<close> of a C string: the terminator is read at index \<open>strlen(s)\<close>.\<close>

definition c_at :: "string \<Rightarrow> nat \<Rightarrow> char" where
  "c_at s i = (if i < length s then s ! i else NUL)"

lemma c_at_less [simp]: "i < length s \<Longrightarrow> c_at s i = s ! i"
  by (simp add: c_at_def)

lemma c_at_end [simp]: "length s \<le> i \<Longrightarrow> c_at s i = NUL"
  by (simp add: c_at_def)

text \<open>The string that a \<open>char\<close> array holds: up to its first NUL.\<close>

definition c_str :: "string \<Rightarrow> string" where
  "c_str s = takeWhile (\<lambda>c. c \<noteq> NUL) s"

lemma NUL_notin_c_str [simp]: "NUL \<notin> set (c_str s)"
  by (auto simp: c_str_def dest: set_takeWhileD)

lemma c_str_id [simp]: "NUL \<notin> set s \<Longrightarrow> c_str s = s"
  unfolding c_str_def by (subst takeWhile_eq_all_conv) auto

text \<open>\<open>is_digit c\<close> and \<open>digit_val c\<close>: the decimal digits, as \<open>strtol(3)\<close> reads them.\<close>

definition is_digit :: "char \<Rightarrow> bool" where
  "is_digit c \<longleftrightarrow> 48 \<le> (of_char c :: nat) \<and> (of_char c :: nat) \<le> 57"

definition digit_val :: "char \<Rightarrow> nat" where
  "digit_val c = of_char c - 48"

definition is_space :: "char \<Rightarrow> bool" where
  "is_space c \<longleftrightarrow> c \<in> {CHR '' '', CHR 0x09, CHR 0x0A, CHR 0x0B, CHR 0x0C, CHR 0x0D}"

fun nat_of_digits :: "nat \<Rightarrow> string \<Rightarrow> nat" where
  "nat_of_digits acc [] = acc"
| "nat_of_digits acc (c # cs) = nat_of_digits (10 * acc + digit_val c) cs"

section \<open>Numbers in strings\<close>

text \<open>\<open>printf("%d")\<close>.\<close>

function decimal :: "nat \<Rightarrow> string" where
  "decimal n = (if n < 10 then [char_of (48 + n)] else decimal (n div 10) @ [char_of (48 + n mod 10)])"
  by pat_completeness auto
termination by (relation "measure id") auto

declare decimal.simps [simp del]

definition decimal_int :: "int \<Rightarrow> string" where
  "decimal_int i = (if i < 0 then CHR ''-'' # decimal (nat (- i)) else decimal (nat i))"

text \<open>\<open>strtol(s, &end, 10)\<close>: the value, what is left at \<open>end\<close>, and whether it was out of range.
  Without digits \<open>end\<close> is the start of the string.\<close>

definition LONG_MAX :: int where "LONG_MAX = 2 ^ 63 - 1"

definition strtol10 :: "string \<Rightarrow> int \<times> string \<times> bool" where
  "strtol10 s =
     (let r = dropWhile is_space s;
          neg = (c_at r 0 = CHR ''-'');
          r = (if c_at r 0 = CHR ''-'' \<or> c_at r 0 = CHR ''+'' then tl r else r);
          ds = takeWhile is_digit r;
          v = (if neg then - int (nat_of_digits 0 ds) else int (nat_of_digits 0 ds))
      in if ds = [] then (0, s, False)
         else if v > LONG_MAX then (LONG_MAX, dropWhile is_digit r, True)
         else if v < - LONG_MAX - 1 then (- LONG_MAX - 1, dropWhile is_digit r, True)
         else (v, dropWhile is_digit r, False))"

text \<open>\<open>atoi\<close>: the low 32 bits of \<open>strtol\<close>, signed.\<close>

definition atoi :: "string \<Rightarrow> int" where
  "atoi s = (case strtol10 s of (v, _, _) \<Rightarrow> sint (word_of_int v :: 32 word))"

section \<open>Chains of conditionals\<close>

text \<open>A chain \<open>if b then Some a else \<dots>\<close> that gave a result gave it in one of its branches.\<close>

lemma if_SomeE: "(if b then Some a else r) = Some x \<Longrightarrow> (a = x \<Longrightarrow> P) \<Longrightarrow> (r = Some x \<Longrightarrow> P) \<Longrightarrow> P"
  by (auto split: if_split_asm)

section \<open>Lists\<close>

lemma butlast_snoc_conv: "xs \<noteq> [] \<Longrightarrow> \<exists>ys y. xs = ys @ [y]"
  by (metis append_butlast_last_id)

lemma take_eq_iff_nth:
  "n \<le> length xs \<Longrightarrow> n \<le> length ys \<Longrightarrow>
    (take n xs = take n ys) = (\<forall>i<n. xs ! i = ys ! i)"
  by (auto simp: list_eq_iff_nth_eq)

lemma prefix_take: "prefix p s = (take (length p) s = p)"
  by (metis append_eq_conv_conj append_take_drop_id prefix_def)

lemma takeWhile_append_stop: "\<forall>x\<in>set xs. P x \<Longrightarrow> \<not> P y \<Longrightarrow> takeWhile P (xs @ y # ys) = xs"
  by (induction xs) auto

lemma dropWhile_append_stop: "\<forall>x\<in>set xs. P x \<Longrightarrow> \<not> P y \<Longrightarrow> dropWhile P (xs @ y # ys) = y # ys"
  by (induction xs) auto

end
