(* ===== verification/Path_Spec.thy ===== *)
theory Path_Spec
  imports Paths
begin

text \<open>
  The abstract specification of the path operations. A canonical guest path is a list of
  components, none of them empty, \<^verbatim>\<open>.\<close>, \<^verbatim>\<open>..\<close> or with a slash in it; \<open>render\<close> is the string
  the C code keeps for it. Each operation of \<open>Paths\<close> is related to the list operation it
  implements.
\<close>

section \<open>Canonical paths\<close>

definition comp_ok :: "string \<Rightarrow> bool" where
  "comp_ok c \<longleftrightarrow> c \<noteq> [] \<and> slash \<notin> set c \<and> NUL \<notin> set c"

definition good_comp :: "string \<Rightarrow> bool" where
  "good_comp c \<longleftrightarrow> comp_ok c \<and> c \<noteq> ''.'' \<and> c \<noteq> ''..''"

fun body :: "string list \<Rightarrow> string" where
  "body [] = []"
| "body (c # cs) = slash # c @ body cs"

definition render :: "string list \<Rightarrow> string" where
  "render cs = (if cs = [] then ''/'' else body cs)"

definition canonical :: "string \<Rightarrow> bool" where
  "canonical p \<longleftrightarrow> (\<exists>cs. list_all good_comp cs \<and> p = render cs)"

lemma body_append [simp]: "body (xs @ ys) = body xs @ body ys"
  by (induction xs) auto

lemma body_eq_Nil [simp]: "body xs = [] \<longleftrightarrow> xs = []"
  by (cases xs) auto

lemma render_Nil [simp]: "render [] = ''/''"
  by (simp add: render_def)

lemma render_Cons [simp]: "render (c # cs) = slash # c @ body cs"
  by (simp add: render_def)

lemma render_snoc: "render (cs @ [c]) = body cs @ slash # c"
  by (simp add: render_def)

lemma render_nonempty [simp]: "render cs \<noteq> []"
  by (simp add: render_def)

lemma hd_render [simp]: "hd (render cs) = slash"
  by (cases cs) auto

lemma render_first [simp]: "render cs ! 0 = slash"
  by (cases cs) auto

lemma c_at_render_0 [simp]: "c_at (render cs) 0 = slash"
  by (simp add: c_at_def)

lemma good_comp_ok: "good_comp c \<Longrightarrow> comp_ok c"
  by (simp add: good_comp_def)

lemma list_all_good_ok: "list_all good_comp cs \<Longrightarrow> list_all comp_ok cs"
  by (auto simp: list_all_iff good_comp_def)

lemma last_body: "xs \<noteq> [] \<Longrightarrow> list_all comp_ok xs \<Longrightarrow> last (body xs) \<noteq> slash"
proof (induction xs)
  case (Cons c cs)
  then show ?case
    by (cases "cs = []") (auto simp: comp_ok_def last_append dest: last_in_set)
qed simp

lemma NUL_notin_body: "list_all comp_ok xs \<Longrightarrow> NUL \<notin> set (body xs)"
  by (induction xs) (auto simp: comp_ok_def)

lemma slash_boundary: "rest = [] \<or> hd rest = slash \<Longrightarrow> takeWhile (\<lambda>c. c \<noteq> slash) rest = []"
  by (cases rest) auto

lemma body_boundary: "body xs = [] \<or> hd (body xs) = slash"
  by (cases xs) auto

text \<open>A string prefix of a rendered path that ends at a boundary is a prefix of the list.\<close>

lemma body_split:
  assumes "list_all comp_ok xs" "list_all comp_ok ys"
    and "body xs @ rest = body ys" "rest = [] \<or> hd rest = slash"
  shows "\<exists>zs. ys = xs @ zs \<and> rest = body zs"
  using assms
proof (induction xs arbitrary: ys)
  case Nil
  then show ?case by auto
next
  case (Cons x xs)
  from Cons.prems(3) obtain y ys' where ys: "ys = y # ys'"
    by (cases ys) auto
  from Cons.prems ys have eq: "x @ (body xs @ rest) = y @ body ys'" by simp
  have b: "body xs @ rest = [] \<or> hd (body xs @ rest) = slash"
    using body_boundary [of xs] Cons.prems(4) by (cases "body xs") auto
  have x: "\<forall>c\<in>set x. c \<noteq> slash" and y: "\<forall>c\<in>set y. c \<noteq> slash"
    using Cons.prems(1,2) ys by (auto simp: comp_ok_def)
  have "takeWhile (\<lambda>c. c \<noteq> slash) (x @ (body xs @ rest)) = x"
    using x slash_boundary [OF b] by (simp add: takeWhile_append)
  moreover have "takeWhile (\<lambda>c. c \<noteq> slash) (y @ body ys') = y"
    using y slash_boundary [OF body_boundary [of ys']] by (simp add: takeWhile_append)
  ultimately have xy: "x = y" using eq by simp
  with eq have "body xs @ rest = body ys'" by simp
  with Cons.IH [of ys'] Cons.prems ys xy show ?case by auto
qed

lemma body_inject:
  "list_all comp_ok xs \<Longrightarrow> list_all comp_ok ys \<Longrightarrow> body xs = body ys \<Longrightarrow> xs = ys"
  using body_split [of xs ys "[]"] by (metis append_Nil2 body_eq_Nil)

lemma render_body: "xs \<noteq> [] \<Longrightarrow> render xs = body xs"
  by (simp add: render_def)

lemma render_inject:
  assumes "list_all comp_ok xs" "list_all comp_ok ys" "render xs = render ys"
  shows "xs = ys"
proof (cases "xs = [] \<or> ys = []")
  case True
  have no: "zs = []" if "render zs = ''/''" "list_all comp_ok zs" for zs
    using that by (cases zs) (auto simp: comp_ok_def)
  from True show ?thesis using no assms by (metis render_Nil)
next
  case False
  then show ?thesis using assms body_inject by (simp add: render_def)
qed

section \<open>The components of a path\<close>

text \<open>The list a canonical path renders: what lies between runs of slashes.\<close>

function comps :: "string \<Rightarrow> string list" where
  "comps p = (let s = dropWhile (\<lambda>c. c = slash) p in
     if s = [] then [] else takeWhile (\<lambda>c. c \<noteq> slash) s # comps (dropWhile (\<lambda>c. c \<noteq> slash) s))"
  by pat_completeness auto
termination
proof (relation "measure length", goal_cases)
  case (2 p s)
  then have "s \<noteq> []" "hd s \<noteq> slash" using hd_dropWhile [of "\<lambda>c. c = slash" p] by auto
  then obtain x xs where "s = x # xs" "x \<noteq> slash" by (cases s) auto
  then have "length (dropWhile (\<lambda>c. c \<noteq> slash) s) < length s"
    by (simp add: le_imp_less_Suc length_dropWhile_le)
  also have "length s \<le> length p" using 2(1) by (simp add: length_dropWhile_le)
  finally show ?case by simp
qed simp

declare comps.simps [simp del]

lemma comps_body: "list_all comp_ok cs \<Longrightarrow> comps (body cs) = cs"
proof (induction cs)
  case Nil
  show ?case by (subst comps.simps) simp
next
  case (Cons c cs)
  then obtain c0 c' where c: "c = c0 # c'" "c0 \<noteq> slash" "\<forall>x\<in>set c. x \<noteq> slash"
    by (cases c) (auto simp: comp_ok_def)
  have s: "dropWhile (\<lambda>c. c = slash) (body (c # cs)) = c @ body cs" using c by simp
  have t: "takeWhile (\<lambda>c. c \<noteq> slash) (c @ body cs) = c"
    using c(3) slash_boundary [OF body_boundary [of cs]] by (simp add: takeWhile_append)
  have d: "dropWhile (\<lambda>c. c \<noteq> slash) (c @ body cs) = body cs"
    using c(3) by (cases cs) (simp_all add: dropWhile_append)
  have "c @ body cs \<noteq> []" using c by simp
  moreover have "comps (body cs) = cs" using Cons by simp
  ultimately show ?case by (subst comps.simps) (simp only: Let_def s t d if_False)
qed

lemma comps_render [simp]: "list_all comp_ok cs \<Longrightarrow> comps (render cs) = cs"
proof (cases "cs = []")
  case True
  then show ?thesis by (subst comps.simps) simp
qed (simp add: render_body comps_body)

lemma canonical_iff: "canonical p \<longleftrightarrow> list_all good_comp (comps p) \<and> p = render (comps p)"
  unfolding canonical_def by (metis comps_render list_all_good_ok)

lemma canonical_ok: "canonical p \<Longrightarrow> list_all comp_ok (comps p) \<and> p = render (comps p)"
  by (simp add: canonical_iff list_all_good_ok)

text \<open>A path that renders its components, which may include dots.\<close>

definition plain :: "string \<Rightarrow> bool" where
  "plain p \<longleftrightarrow> list_all comp_ok (comps p) \<and> p = render (comps p)"

lemma canonical_plain: "canonical p \<Longrightarrow> plain p"
  by (simp add: plain_def canonical_ok)

lemma plain_render: "list_all comp_ok cs \<Longrightarrow> plain (render cs)"
  by (simp add: plain_def)

lemma canonical_render [simp]: "list_all good_comp cs \<Longrightarrow> canonical (render cs)"
  unfolding canonical_def by blast

section \<open>The vector compare is a plain compare\<close>

lemma lanes_equal_iff: "lanes_equal p1 p2 i \<longleftrightarrow> (\<forall>k<16. c_at p1 (i + k) = c_at p2 (i + k))"
  by (auto simp: lanes_equal_def list_all_iff)

lemma cmp_bytes_iff:
  "i \<le> m \<Longrightarrow> cmp_bytes p1 p2 m i \<longleftrightarrow> (\<forall>k. i \<le> k \<and> k < m \<longrightarrow> c_at p1 k = c_at p2 k)"
proof (induction p1 p2 m i rule: cmp_bytes.induct)
  case (1 p1 p2 m i)
  show ?case
  proof (cases "i < m")
    case True
    then show ?thesis
      using "1.IH" by (subst cmp_bytes.simps) (auto simp: Suc_le_eq nat_less_le)
  next
    case False
    with "1.prems" show ?thesis by (subst cmp_bytes.simps) auto
  qed
qed

lemma cmp_chunks_spec:
  "i \<le> m \<Longrightarrow>
    (case cmp_chunks p1 p2 m i of
       None \<Rightarrow> (\<exists>k. i \<le> k \<and> k < m \<and> c_at p1 k \<noteq> c_at p2 k)
     | Some j \<Rightarrow> i \<le> j \<and> j \<le> m \<and> (\<forall>k. i \<le> k \<and> k < j \<longrightarrow> c_at p1 k = c_at p2 k))"
proof (induction p1 p2 m i rule: cmp_chunks.induct)
  case (1 p1 p2 m i)
  consider (stop) "\<not> i + 16 \<le> m" | (diff) "i + 16 \<le> m" "\<not> lanes_equal p1 p2 i"
    | (same) "i + 16 \<le> m" "lanes_equal p1 p2 i" by blast
  then show ?case
  proof cases
    case stop
    with "1.prems" show ?thesis by (subst cmp_chunks.simps) auto
  next
    case diff
    then obtain k where "k < 16" "c_at p1 (i + k) \<noteq> c_at p2 (i + k)"
      by (auto simp: lanes_equal_iff)
    with diff have "\<exists>j. i \<le> j \<and> j < m \<and> c_at p1 j \<noteq> c_at p2 j"
      by (intro exI [of _ "i + k"]) auto
    with diff show ?thesis by (subst cmp_chunks.simps) simp
  next
    case same
    have low: "c_at p1 k = c_at p2 k" if "i \<le> k" "k < i + 16" for k
      using same(2) that lanes_equal_iff [of p1 p2 i] by (auto dest: spec [of _ "k - i"])
    have step: "cmp_chunks p1 p2 m i = cmp_chunks p1 p2 m (i + 16)"
      using same by (subst cmp_chunks.simps) simp
    show ?thesis
    proof (cases "cmp_chunks p1 p2 m (i + 16)")
      case None
      with "1.IH" [OF same same(1)] obtain k
        where "i + 16 \<le> k" "k < m" "c_at p1 k \<noteq> c_at p2 k" by auto
      then have "\<exists>k. i \<le> k \<and> k < m \<and> c_at p1 k \<noteq> c_at p2 k"
        by (intro exI [of _ k]) auto
      with None step show ?thesis by simp
    next
      case (Some j)
      with "1.IH" [OF same same(1)] have "i + 16 \<le> j" "j \<le> m"
        and high: "\<And>k. i + 16 \<le> k \<Longrightarrow> k < j \<Longrightarrow> c_at p1 k = c_at p2 k" by auto
      moreover have "c_at p1 k = c_at p2 k" if "i \<le> k" "k < j" for k
        using low [of k] high [of k] that by (cases "k < i + 16") auto
      ultimately show ?thesis using Some step by simp
    qed
  qed
qed

text \<open>Both loops together decide equality of the first \<open>m\<close> characters.\<close>

lemma cmp_loops:
  "(case cmp_chunks p1 p2 m 0 of None \<Rightarrow> False | Some i \<Rightarrow> cmp_bytes p1 p2 m i)
     = (\<forall>k<m. c_at p1 k = c_at p2 k)"
proof (cases "cmp_chunks p1 p2 m 0")
  case None
  with cmp_chunks_spec [of 0 m p1 p2] show ?thesis by auto
next
  case (Some j)
  with cmp_chunks_spec [of 0 m p1 p2] have "j \<le> m" "\<forall>k<j. c_at p1 k = c_at p2 k" by auto
  with Some cmp_bytes_iff [of j m p1 p2] show ?thesis
    by (auto, metis linorder_not_less)
qed

text \<open>The reference definition: no vectors, no loops.\<close>

definition compare_ref :: "string \<Rightarrow> nat \<Rightarrow> string \<Rightarrow> nat \<Rightarrow> comparison" where
  "compare_ref p1 n1 p2 n2 =
     (let m = min n1 n2; end = (if n1 < n2 then c_at p2 m else c_at p1 m) in
      if (end = slash \<or> end = NUL) \<and> (\<forall>k<m. c_at p1 k = c_at p2 k)
      then (if n1 = n2 then PATHS_ARE_EQUAL else if n1 < n2 then PATH1_IS_PREFIX else PATH2_IS_PREFIX)
      else PATHS_ARE_NOT_COMPARABLE)"

lemma compare_paths2_ref:
  assumes "len1 \<noteq> 0" "len2 \<noteq> 0"
  shows "compare_paths2 p1 len1 p2 len2 =
    compare_ref p1 (if c_at p1 (len1 - 1) = slash then len1 - 1 else len1)
                p2 (if c_at p2 (len2 - 1) = slash then len2 - 1 else len2)"
proof -
  define n1 where "n1 = (if c_at p1 (len1 - 1) = slash then len1 - 1 else len1)"
  define n2 where "n2 = (if c_at p2 (len2 - 1) = slash then len2 - 1 else len2)"
  have m: "(if n1 < n2 then n1 else n2) = min n1 n2" by simp
  show ?thesis
    unfolding compare_paths2_def compare_ref_def n1_def [symmetric] n2_def [symmetric] Let_def
    using assms cmp_loops [of p1 p2 "min n1 n2"] unfolding m
    by (cases "cmp_chunks p1 p2 (min n1 n2) 0") auto
qed

section \<open>Comparison is comparison of component lists\<close>

lemma stripped_length:
  assumes "list_all comp_ok xs"
  shows "(if c_at (render xs) (length (render xs) - 1) = slash then length (render xs) - 1
          else length (render xs)) = length (body xs)"
proof (cases "xs = []")
  case True
  then show ?thesis by (simp add: c_at_def)
next
  case False
  then have "render xs ! (length (render xs) - 1) = last (body xs)"
    by (simp add: render_def last_conv_nth)
  with False assms last_body [of xs] show ?thesis by (simp add: c_at_def render_body)
qed

lemma c_at_render: "k < length (body xs) \<Longrightarrow> c_at (render xs) k = body xs ! k"
  by (cases xs) (auto simp: c_at_def)

lemma body_prefix_iff:
  assumes "list_all comp_ok xs" "list_all comp_ok ys" "length (body xs) \<le> length (body ys)"
  shows "((\<forall>k<length (body xs). body xs ! k = body ys ! k) \<and>
          (length (body xs) < length (body ys) \<longrightarrow> body ys ! length (body xs) = slash))
         = prefix xs ys" (is "?L = _")
proof
  assume L: ?L
  have "body xs = take (length (body xs)) (body ys)"
    using L assms(3) by (auto simp: list_eq_iff_nth_eq)
  then have eq: "body xs @ drop (length (body xs)) (body ys) = body ys"
    by (metis append_take_drop_id)
  have "drop (length (body xs)) (body ys) = [] \<or> hd (drop (length (body xs)) (body ys)) = slash"
    using L by (cases "length (body xs) < length (body ys)") (auto simp: hd_drop_conv_nth)
  from body_split [OF assms(1,2) eq this] show "prefix xs ys" by (auto simp: prefix_def)
next
  assume "prefix xs ys"
  then obtain zs where ys: "ys = xs @ zs" by (auto simp: prefix_def)
  then show ?L by (cases zs) (auto simp: nth_append)
qed

lemma compare_ref_sym_not:
  "compare_ref p1 n1 p2 n2 = PATHS_ARE_NOT_COMPARABLE \<longleftrightarrow>
   \<not> ((if n1 < n2 then c_at p2 n1 else c_at p1 n2) \<in> {slash, NUL} \<and>
      (\<forall>k<min n1 n2. c_at p1 k = c_at p2 k))"
  by (auto simp: compare_ref_def Let_def min_def)

lemma compare_ref_render:
  assumes xs: "list_all comp_ok xs" and ys: "list_all comp_ok ys"
  shows "compare_ref (render xs) (length (body xs)) (render ys) (length (body ys)) =
    (if xs = ys then PATHS_ARE_EQUAL else if prefix xs ys then PATH1_IS_PREFIX
     else if prefix ys xs then PATH2_IS_PREFIX else PATHS_ARE_NOT_COMPARABLE)"
proof -
  have noN: "c_at (render zs) k \<noteq> NUL" if "list_all comp_ok zs" "k < length (body zs)" for zs k
    using that NUL_notin_body [of zs] by (auto simp: c_at_render dest: nth_mem)
  consider (lt) "length (body xs) < length (body ys)" | (eq) "length (body xs) = length (body ys)"
    | (gt) "length (body ys) < length (body xs)" by linarith
  then show ?thesis
  proof cases
    case lt
    then have ne: "xs \<noteq> ys" "\<not> prefix ys xs"
      by (auto simp: prefix_def)
    have "prefix xs ys \<longleftrightarrow> (\<forall>k<length (body xs). c_at (render xs) k = c_at (render ys) k) \<and>
        c_at (render ys) (length (body xs)) = slash"
      using body_prefix_iff [OF xs ys] lt by (auto simp: c_at_render)
    with lt ne noN [OF ys] show ?thesis by (auto simp: compare_ref_def Let_def)
  next
    case eq
    have "prefix xs ys \<longleftrightarrow> xs = ys"
      using eq by (auto simp: prefix_def)
    moreover have "prefix ys xs \<longleftrightarrow> xs = ys"
      using eq by (auto simp: prefix_def)
    moreover have "prefix xs ys \<longleftrightarrow> (\<forall>k<length (body xs). c_at (render xs) k = c_at (render ys) k)"
      using body_prefix_iff [OF xs ys] eq by (auto simp: c_at_render)
    moreover have "c_at (render xs) (length (body ys)) \<in> {slash, NUL}"
      using eq by (cases "xs = []") (auto simp: c_at_def render_body)
    ultimately show ?thesis using eq by (auto simp: compare_ref_def Let_def)
  next
    case gt
    then have ne: "xs \<noteq> ys" "\<not> prefix xs ys"
      by (auto simp: prefix_def)
    have "prefix ys xs \<longleftrightarrow> (\<forall>k<length (body ys). c_at (render xs) k = c_at (render ys) k) \<and>
        c_at (render xs) (length (body ys)) = slash"
      using body_prefix_iff [OF ys xs] gt by (auto simp: c_at_render)
    with gt ne noN [OF xs] show ?thesis by (auto simp: compare_ref_def Let_def)
  qed
qed

lemma compare_paths2_render:
  assumes "list_all comp_ok xs" "list_all comp_ok ys"
  shows "compare_paths2 (render xs) (length (render xs)) (render ys) (length (render ys)) =
    (if xs = ys then PATHS_ARE_EQUAL else if prefix xs ys then PATH1_IS_PREFIX
     else if prefix ys xs then PATH2_IS_PREFIX else PATHS_ARE_NOT_COMPARABLE)"
  using assms
  by (subst compare_paths2_ref)
     (simp_all only: stripped_length compare_ref_render length_0_conv render_nonempty not_False_eq_True)

lemma compare_paths_render [path_simps]:
  assumes "list_all comp_ok xs" "list_all comp_ok ys"
  shows "compare_paths (render xs) (render ys) =
    (if xs = ys then PATHS_ARE_EQUAL else if prefix xs ys then PATH1_IS_PREFIX
     else if prefix ys xs then PATH2_IS_PREFIX else PATHS_ARE_NOT_COMPARABLE)"
  unfolding compare_paths_def by (rule compare_paths2_render [OF assms])

section \<open>Joining\<close>

lemma last_render:
  "list_all comp_ok cs \<Longrightarrow> last (render cs) = slash \<longleftrightarrow> cs = []"
  using last_body [of cs] by (cases "cs = []") (auto simp: render_body)

lemma join_step_first:
  "p \<noteq> [] \<Longrightarrow> length p + 1 < PATH_MAX \<Longrightarrow> join_step [] (Some p) = Inr p"
  by (cases p) (auto simp: join_step_def)

lemma join_step_render:
  assumes "list_all comp_ok cs" "comp_ok c"
  shows "join_step (render cs) (Some c) =
    (if length (render cs) + length c + (if cs = [] then 0 else 1) + 1 \<ge> PATH_MAX
     then Inl ENAMETOOLONG else Inr (render (cs @ [c])))"
proof -
  from assms(2) obtain c0 c' where c: "c = c0 # c'" "c0 \<noteq> slash"
    by (cases c) (auto simp: comp_ok_def)
  show ?thesis
    using last_render [OF assms(1)] c
    by (cases "cs = []") (simp_all add: join_step_def Let_def render_body)
qed

lemma join2_render_comp:
  assumes "list_all comp_ok cs" "comp_ok c"
  shows "join2 (render cs) c =
    (if length (render cs) + 1 \<ge> PATH_MAX then Inl ENAMETOOLONG
     else if length (render cs) + length c + (if cs = [] then 0 else 1) + 1 \<ge> PATH_MAX
     then Inl ENAMETOOLONG else Inr (render (cs @ [c])))"
proof (cases "length (render cs) + 1 \<ge> PATH_MAX")
  case True
  then have "join_step [] (Some (render cs)) = Inl ENAMETOOLONG"
    by (cases "render cs") (auto simp: join_step_def Let_def)
  with True show ?thesis by (simp add: join_paths_def)
next
  case False
  then have "join_step [] (Some (render cs)) = Inr (render cs)"
    by (intro join_step_first) auto
  with False join_step_render [OF assms] show ?thesis by (simp add: join_paths_def)
qed

lemma join2_render_comp_Inr:
  "list_all comp_ok cs \<Longrightarrow> comp_ok c \<Longrightarrow> join2 (render cs) c = Inr p \<Longrightarrow> p = render (cs @ [c])"
  by (auto simp: join2_render_comp split: if_splits)

lemma join_step_length:
  "join_step r p = Inr r' \<Longrightarrow> length r + 1 < PATH_MAX \<Longrightarrow> length r' + 1 < PATH_MAX"
  by (auto simp: join_step_def Let_def split: option.splits list.splits if_splits)

lemma join_from_length:
  "join_from r ps = Inr r' \<Longrightarrow> length r + 1 < PATH_MAX \<Longrightarrow> length r' + 1 < PATH_MAX"
  by (induction r ps rule: join_from.induct)
     (auto split: sum.splits dest: join_step_length)

lemma join_paths_length: "join_paths ps = Inr r \<Longrightarrow> length r + 1 < PATH_MAX"
  unfolding join_paths_def by (drule join_from_length) (auto simp: PATH_MAX_def)

section \<open>Replacing a prefix\<close>

lemma length_render_1: "list_all comp_ok zs \<Longrightarrow> length (render zs) = 1 \<longleftrightarrow> zs = []"
  by (cases zs) (auto simp: comp_ok_def)

lemma substitute_render:
  assumes "os \<noteq> [] \<or> ns \<noteq> []" "list_all comp_ok (os @ cs)" "list_all comp_ok ns"
  shows "substitute_path_prefix (render (os @ cs)) (length (render os)) (render ns) (length (render ns))
     = (if length (render (ns @ cs)) \<ge> PATH_MAX \<and> ns \<noteq> [] then Inl ENAMETOOLONG
        else Inr (length (render (ns @ cs)), render (ns @ cs)))"
proof (cases "ns = []")
  case True
  with assms show ?thesis
    by (auto simp: substitute_path_prefix_def Let_def render_body render_def)
next
  case ns: False
  then have n1: "length (render ns) \<noteq> 1" using assms(3) length_render_1 by blast
  show ?thesis
  proof (cases "os = []")
    case True
    have "length (render cs) = 1 \<longleftrightarrow> cs = []"
      using assms(2) True by (intro length_render_1) simp
    with True ns n1 show ?thesis
      by (auto simp: substitute_path_prefix_def Let_def render_body)
  next
    case False
    moreover have "list_all comp_ok os" using assms(2) by simp
    ultimately have o1: "length (render os) \<noteq> 1"
      using length_render_1 by blast
    with False ns n1 show ?thesis
      by (auto simp: substitute_path_prefix_def Let_def render_body)
  qed
qed

section \<open>Popping and reading a component\<close>

lemma skip_back_at: "\<not> P (path ! n) \<Longrightarrow> skip_back P path n = n"
  by (cases n) auto

lemma skip_back_run:
  assumes "\<forall>k. m < k \<and> k \<le> n \<longrightarrow> P (path ! k)" "m \<le> n" "0 < m" "\<not> P (path ! m) \<or> m = 1"
  shows "skip_back P path n = m"
  using assms
proof (induction n)
  case (Suc n)
  then show ?case
    by (cases "m = Suc n") auto
qed simp

lemma pop_component_snoc:
  assumes "list_all comp_ok (cs @ [c])"
  shows "pop_component (render (cs @ [c])) = render cs"
proof -
  let ?p = "body cs @ slash # c"
  have c: "c \<noteq> []" "slash \<notin> set c" using assms by (auto simp: comp_ok_def)
  have "?p ! (length ?p - 1) = last ?p" by (simp add: last_conv_nth)
  with c have lst: "?p ! (length ?p - 1) \<noteq> slash"
    by (metis append_is_Nil_conv last.simps last_append last_in_set list.distinct(1))
  have s1: "skip_back (\<lambda>c. c = slash) ?p (length ?p - 1) = length ?p - 1"
    using lst by (intro skip_back_at) simp
  have run: "\<forall>k. max 1 (length (body cs)) < k \<and> k \<le> length ?p - 1 \<longrightarrow> ?p ! k \<noteq> slash"
  proof (intro allI impI)
    fix k assume k: "max 1 (length (body cs)) < k \<and> k \<le> length ?p - 1"
    then have "?p ! k = c ! (k - length (body cs) - 1)" "k - length (body cs) - 1 < length c"
      by (auto simp: nth_append nth_Cons')
    with c(2) show "?p ! k \<noteq> slash" by (metis nth_mem)
  qed
  have s2: "skip_back (\<lambda>c. c \<noteq> slash) ?p (length ?p - 1) = max 1 (length (body cs))"
  proof (rule skip_back_run [OF run])
    show "max 1 (length (body cs)) \<le> length ?p - 1" using c(1) by (cases c) auto
    show "\<not> ?p ! max 1 (length (body cs)) \<noteq> slash \<or> max 1 (length (body cs)) = 1"
      by (auto simp: max_def nth_append)
  qed simp
  have hd: "c_at ?p 0 = slash" by (cases cs) (auto simp: c_at_def)
  have len: "\<not> length ?p \<le> 1" using c(1) by (cases c) auto
  have "pop_component ?p = take (max 1 (length (body cs))) ?p"
    unfolding pop_component_def Let_def s1 s2 using hd len by simp
  also have "\<dots> = render cs"
    by (cases "cs = []") (auto simp: render_body max_def neq_Nil_conv Suc_le_eq)
  finally show ?thesis by (simp add: render_snoc)
qed

lemma pop_component_render [path_simps]:
  assumes "list_all comp_ok cs"
  shows "pop_component (render cs) = render (butlast cs)"
proof (cases cs rule: rev_cases)
  case Nil
  then show ?thesis by (simp add: pop_component_def)
next
  case (snoc ys y)
  with assms pop_component_snoc show ?thesis by simp
qed

lemma next_component_eq:
  assumes "next_component cursor = Inr (c, fin, rest)"
  defines "start \<equiv> dropWhile (\<lambda>c. c = slash) cursor"
  shows "c = takeWhile (\<lambda>c. c \<noteq> slash) start \<and> length c < NAME_MAX \<and>
    rest = dropWhile (\<lambda>c. c = slash) (dropWhile (\<lambda>c. c \<noteq> slash) start) \<and>
    (fin = NOT_FINAL \<longleftrightarrow> rest \<noteq> []) \<and>
    fin \<noteq> FINAL_DOT"
proof -
  have gen: "(if NAME_MAX \<le> length t then Inl ENAMETOOLONG
      else if r2 = [] then Inr (t, if w then FINAL_SLASH else FINAL_NORMAL, r2)
      else Inr (t, NOT_FINAL, r2)) = (Inr (c, fin, rest) :: (string \<times> finality \<times> string) res) \<Longrightarrow>
    c = t \<and> length c < NAME_MAX \<and> rest = r2 \<and> (fin = NOT_FINAL \<longleftrightarrow> rest \<noteq> []) \<and> fin \<noteq> FINAL_DOT"
    for t r2 w
    by (cases "NAME_MAX \<le> length t"; cases "r2 = []"; cases w) auto
  show ?thesis
    using assms(1) unfolding next_component_def Let_def start_def by (rule gen)
qed

lemma next_component_decreases:
  assumes "next_component cursor = Inr (c, NOT_FINAL, rest)"
  shows "length rest < length cursor"
proof -
  define start where "start = dropWhile (\<lambda>c. c = slash) cursor"
  define r where "r = dropWhile (\<lambda>c. c \<noteq> slash) start"
  from next_component_eq [OF assms] have rest: "rest = dropWhile (\<lambda>c. c = slash) r" "rest \<noteq> []"
    unfolding r_def start_def by blast+
  then have "r \<noteq> []" by auto
  then obtain x xs where r: "r = x # xs" by (cases r) auto
  have "hd r = slash" using \<open>r \<noteq> []\<close> hd_dropWhile [of "\<lambda>c. c \<noteq> slash" start]
    unfolding r_def by blast
  with r have "rest = dropWhile (\<lambda>c. c = slash) xs" using rest by simp
  then have "length rest \<le> length xs" by (simp add: length_dropWhile_le)
  with r have "length rest < length r" by simp
  also have "\<dots> \<le> length start" unfolding r_def by (rule length_dropWhile_le)
  also have "\<dots> \<le> length cursor" unfolding start_def by (rule length_dropWhile_le)
  finally show ?thesis .
qed

lemma set_dropWhile_subset: "set (dropWhile P xs) \<subseteq> set xs"
  by (auto dest: set_dropWhileD)

lemma next_component_comp:
  assumes "next_component cursor = Inr (c, fin, rest)" "NUL \<notin> set cursor"
  shows "slash \<notin> set c" "NUL \<notin> set c" "NUL \<notin> set rest" "length c < NAME_MAX"
proof -
  note eq = next_component_eq [OF assms(1)]
  show "slash \<notin> set c" using eq by (metis set_takeWhileD)
  show "NUL \<notin> set c" using eq assms(2) by (metis set_dropWhileD set_takeWhileD)
  show "NUL \<notin> set rest" using eq assms(2) by (metis set_dropWhileD)
  show "length c < NAME_MAX" using eq by blast
qed

lemma next_component_nonempty:
  assumes "next_component cursor = Inr (c, fin, rest)" "c = []"
  shows "rest = []" "dropWhile (\<lambda>c. c = slash) cursor = []"
proof -
  note eq = next_component_eq [OF assms(1)]
  show "dropWhile (\<lambda>c. c = slash) cursor = []"
    using eq assms(2) hd_dropWhile [of "\<lambda>c. c = slash" cursor]
    by (cases "dropWhile (\<lambda>c. c = slash) cursor") auto
  with eq show "rest = []" by simp
qed

section \<open>Properties\<close>

text \<open>
  on canonical paths \<open>compare_paths\<close>, with its sixteen-byte vector loop, decides the relation
  of the two component lists: equal, one a prefix of the other, or neither. No partial component
  match (\<^verbatim>\<open>/foo\<close> against \<^verbatim>\<open>/foobar\<close>) is ever reported as a prefix.
\<close>

theorem compare_paths_lists:
  assumes "list_all comp_ok xs" "list_all comp_ok ys"
  shows "compare_paths (render xs) (render ys) =
    (if xs = ys then PATHS_ARE_EQUAL else if prefix xs ys then PATH1_IS_PREFIX
     else if prefix ys xs then PATH2_IS_PREFIX else PATHS_ARE_NOT_COMPARABLE)"
  by (rule compare_paths_render [OF assms])

theorem compare_paths_lists_witness:
  "compare_paths ''/home/user/dir/very-long-component'' ''/home/user/dir/very-long-component-2''
     = PATHS_ARE_NOT_COMPARABLE"
  using compare_paths_lists [of "[''home'', ''user'', ''dir'', ''very-long-component'']"
      "[''home'', ''user'', ''dir'', ''very-long-component-2'']"]
  by (simp add: comp_ok_def)

text \<open>
  C24: \<open>compare_paths2\<close> on any two strings and any two non-zero lengths equals the reference
  definition \<open>compare_ref\<close> that has neither the vector loop nor the byte loop, once a trailing
  slash of each path has been dropped.
\<close>

theorem compare_paths2_reference:
  assumes "len1 \<noteq> 0" "len2 \<noteq> 0"
  shows "compare_paths2 p1 len1 p2 len2 =
    compare_ref p1 (if c_at p1 (len1 - 1) = slash then len1 - 1 else len1)
                p2 (if c_at p2 (len2 - 1) = slash then len2 - 1 else len2)"
  by (rule compare_paths2_ref [OF assms])

theorem compare_paths2_reference_witness:
  "compare_paths2 ''/bin/'' 5 ''/bin'' 4 = compare_ref ''/bin/'' 4 ''/bin'' 4"
  using compare_paths2_reference [of 5 4 "''/bin/''" "''/bin''"] by (simp add: c_at_def)

text \<open>
  Joining a component to a canonical path and popping it again gives the path back, whenever
  the join does not report \<open>ENAMETOOLONG\<close>; and the joined path is the rendering of the list with
  the component at its end, shorter than \<open>PATH_MAX\<close>.
\<close>

theorem join_pop_roundtrip:
  assumes "list_all comp_ok cs" "comp_ok c" "join2 (render cs) c = Inr p"
  shows "p = render (cs @ [c]) \<and> length p + 1 < PATH_MAX \<and> pop_component p = render cs"
  using join2_render_comp_Inr [OF assms] join_paths_length [OF assms(3)] assms
  by (simp add: pop_component_snoc)

theorem join_pop_roundtrip_witness:
  "pop_component ''/usr/lib'' = ''/usr''"
  using join_pop_roundtrip [of "[''usr'']" "''lib''" "''/usr/lib''"]
  by (simp add: comp_ok_def join_paths_def join_step_def PATH_MAX_def)

text \<open>
  C25: replacing the prefix of a canonical path below a binding moves the rest of its components
  under the other side of the binding: the result is exactly the rendering of the new prefix's
  list followed by the remaining components, or \<open>ENAMETOOLONG\<close> when that does not fit.
\<close>

theorem substitute_path_prefix_lists:
  assumes "os \<noteq> [] \<or> ns \<noteq> []" "list_all comp_ok (os @ cs)" "list_all comp_ok ns"
  shows "substitute_path_prefix (render (os @ cs)) (length (render os)) (render ns) (length (render ns))
     = (if length (render (ns @ cs)) \<ge> PATH_MAX \<and> ns \<noteq> [] then Inl ENAMETOOLONG
        else Inr (length (render (ns @ cs)), render (ns @ cs)))"
  by (rule substitute_render [OF assms])

theorem substitute_path_prefix_lists_witness:
  "substitute_path_prefix ''/mnt/a/b'' 4 ''/data/x'' 7 = Inr (11, ''/data/x/a/b'')"
  using substitute_path_prefix_lists [of "[''mnt'']" "[''data'', ''x'']" "[''a'', ''b'']"]
  by (simp add: comp_ok_def PATH_MAX_def eval_nat_numeral)

end
