(* ===== verification/Dirfd.thy ===== *)
theory Dirfd
  imports Paths
begin

text \<open>
  The directory descriptor cache of \<^verbatim>\<open>src/path/path.c\<close>: sixty-four slots that remember, for a
  pair (process, descriptor), where the descriptor points on the host, the guest spelling of that
  directory, and a descriptor of the tracer itself (\<open>host_fd\<close>, opened with \<open>O_PATH\<close>) on the same
  directory. The tracer's own descriptor table is part of the state, as the list \<open>fds\<close> of the
  identities (device, inode) open at each number, because the cache owns the descriptors it opens:
  \<open>open(2)\<close> and \<open>dup(2)\<close> give the lowest free number, or fail when \<open>nofile\<close> is reached.
  The messages printed under \<open>NEOPROOT_TEST_*\<close> are left out.
\<close>

section \<open>The tracer's descriptor table\<close>

type_synonym ident = "nat \<times> nat"

fun first_free :: "ident option list \<Rightarrow> nat" where
  "first_free [] = 0"
| "first_free (None # fs) = 0"
| "first_free (Some _ # fs) = Suc (first_free fs)"

definition fd_ident :: "ident option list \<Rightarrow> int \<Rightarrow> ident option" where
  "fd_ident fds fd = (if 0 \<le> fd \<and> nat fd < length fds then fds ! nat fd else None)"

definition fd_alloc :: "nat \<Rightarrow> ident \<Rightarrow> ident option list \<Rightarrow> int \<times> ident option list" where
  "fd_alloc nofile i fds =
     (let k = first_free fds in
      if nofile \<le> k then (-1, fds)
      else (int k, if k < length fds then fds[k := Some i] else fds @ [Some i]))"

definition fd_close :: "int \<Rightarrow> ident option list \<Rightarrow> ident option list" where
  "fd_close fd fds = (if 0 \<le> fd \<and> nat fd < length fds then fds[nat fd := None] else fds)"

section \<open>Slots\<close>

definition DIRFD_CACHE_SIZE :: nat where "DIRFD_CACHE_SIZE = 64"

record dirfd_slot =
  s_pid :: int
  s_fd :: int
  s_host_fd :: int
  s_host_ident :: ident
  s_identity_valid :: bool
  s_proc_path :: string
  s_guest_dir :: string

record dirfds =
  slots :: "dirfd_slot list"
  dnext :: nat
  inited :: bool
  dlast :: int
  kcmp_unsupported :: bool
  fds :: "ident option list"
  nofile :: nat

text \<open>Static storage starts zeroed, except \<open>dirfd_cache_last\<close>.\<close>

definition zero_slot :: dirfd_slot where
  "zero_slot = \<lparr>s_pid = 0, s_fd = 0, s_host_fd = 0, s_host_ident = (0, 0),
     s_identity_valid = False, s_proc_path = [], s_guest_dir = []\<rparr>"

definition dirfds_start :: "ident option list \<Rightarrow> nat \<Rightarrow> dirfds" where
  "dirfds_start opened lim = \<lparr>slots = replicate DIRFD_CACHE_SIZE zero_slot, dnext = 0,
     inited = False, dlast = -1, kcmp_unsupported = False, fds = opened, nofile = lim\<rparr>"

definition upd_slot :: "nat \<Rightarrow> (dirfd_slot \<Rightarrow> dirfd_slot) \<Rightarrow> dirfds \<Rightarrow> dirfds" where
  "upd_slot i f d = d\<lparr>slots := (slots d)[i := f (slots d ! i)]\<rparr>"

definition dirfd_cache_init :: "dirfds \<Rightarrow> dirfds" where
  "dirfd_cache_init d =
     (if inited d then d
      else d\<lparr>slots := map (\<lambda>s. s\<lparr>s_fd := -1, s_host_fd := -1\<rparr>) (slots d), inited := True\<rparr>)"

definition close_host_dirfd_slot :: "nat \<Rightarrow> dirfds \<Rightarrow> dirfds" where
  "close_host_dirfd_slot i d =
     (let d = (if s_host_fd (slots d ! i) \<ge> 0
               then upd_slot i (\<lambda>s. s\<lparr>s_host_fd := -1\<rparr>)
                      (d\<lparr>fds := fd_close (s_host_fd (slots d ! i)) (fds d)\<rparr>)
               else d)
      in upd_slot i (\<lambda>s. s\<lparr>s_identity_valid := False\<rparr>) d)"

definition dup_cloexec :: "int \<Rightarrow> dirfds \<Rightarrow> int \<times> dirfds" where
  "dup_cloexec fd d =
     (if fd < 0 then (-1, d)
      else case fd_ident (fds d) fd of
             None \<Rightarrow> (-1, d)
           | Some i \<Rightarrow> (case fd_alloc (nofile d) i (fds d) of (k, f) \<Rightarrow> (k, d\<lparr>fds := f\<rparr>)))"

section \<open>Lookup\<close>

definition slot_matches :: "int \<Rightarrow> int \<Rightarrow> dirfd_slot \<Rightarrow> bool" where
  "slot_matches pid fd s \<longleftrightarrow> s_pid s = pid \<and> s_fd s = fd"

fun first_slot :: "int \<Rightarrow> int \<Rightarrow> dirfd_slot list \<Rightarrow> nat \<Rightarrow> nat option" where
  "first_slot pid fd [] i = None"
| "first_slot pid fd (s # ss) i =
     (if slot_matches pid fd s then Some i else first_slot pid fd ss (Suc i))"

definition dirfd_cache_slot :: "int \<Rightarrow> int \<Rightarrow> dirfds \<Rightarrow> nat option \<times> dirfds" where
  "dirfd_cache_slot pid fd d =
     (let d = dirfd_cache_init d in
      if fd < 0 then (None, d)
      else if 0 \<le> dlast d \<and> slot_matches pid fd (slots d ! nat (dlast d))
      then (Some (nat (dlast d)), d)
      else case first_slot pid fd (slots d) 0 of
             Some i \<Rightarrow> (Some i, d\<lparr>dlast := int i\<rparr>)
           | None \<Rightarrow> (None, d))"

section \<open>Forgetting\<close>

definition forget_translated_dirfd :: "int \<Rightarrow> int \<Rightarrow> dirfds \<Rightarrow> dirfds" where
  "forget_translated_dirfd pid fd d =
     (case dirfd_cache_slot pid fd d of
        (None, d) \<Rightarrow> d
      | (Some i, d) \<Rightarrow>
          let d = close_host_dirfd_slot i d;
              d = (if dlast d = int i then d\<lparr>dlast := -1\<rparr> else d)
          in upd_slot i (\<lambda>s. s\<lparr>s_pid := 0, s_fd := -1, s_proc_path := [], s_guest_dir := []\<rparr>) d)"

definition forget_range_at :: "int \<Rightarrow> nat \<Rightarrow> nat \<Rightarrow> nat \<Rightarrow> dirfds \<Rightarrow> dirfds" where
  "forget_range_at pid first lst i d =
     (let s = slots d ! i in
      if s_pid s = pid \<and> 0 \<le> s_fd s \<and> first \<le> nat (s_fd s) \<and> nat (s_fd s) \<le> lst
      then forget_translated_dirfd pid (s_fd s) d else d)"

definition forget_translated_dirfds_range :: "int \<Rightarrow> nat \<Rightarrow> nat \<Rightarrow> dirfds \<Rightarrow> dirfds" where
  "forget_translated_dirfds_range pid first lst d =
     fold (forget_range_at pid first lst) [0..<DIRFD_CACHE_SIZE] d"

definition clear_at :: "int \<Rightarrow> nat \<Rightarrow> dirfds \<Rightarrow> dirfds" where
  "clear_at pid i d =
     (if s_pid (slots d ! i) = pid then forget_translated_dirfd pid (s_fd (slots d ! i)) d else d)"

definition clear_translated_dirfds :: "int \<Rightarrow> dirfds \<Rightarrow> dirfds" where
  "clear_translated_dirfds pid d = fold (clear_at pid) [0..<DIRFD_CACHE_SIZE] d"

section \<open>Remembering\<close>

definition set_slot :: "int \<Rightarrow> int \<Rightarrow> string \<Rightarrow> string \<Rightarrow> nat \<Rightarrow> dirfds \<Rightarrow> dirfds" where
  "set_slot pid fd proc_path guest_dir i d =
     upd_slot i (\<lambda>s. s\<lparr>s_pid := pid, s_fd := fd, s_host_fd := -1, s_identity_valid := False,
       s_proc_path := take (PATH_MAX - 1) proc_path,
       s_guest_dir := take (PATH_MAX - 1) guest_dir\<rparr>) d"

text \<open>A path is \<open>None\<close> for NULL.\<close>

definition remember_translated_dirfd ::
  "int \<Rightarrow> int \<Rightarrow> string \<Rightarrow> string \<Rightarrow> dirfds \<Rightarrow> dirfds" where
  "remember_translated_dirfd pid fd proc_path guest_dir d =
     (if fd < 0 \<or> c_at proc_path 0 \<noteq> slash \<or> c_at guest_dir 0 \<noteq> slash then d
      else case dirfd_cache_slot pid fd d of
        (Some i, d) \<Rightarrow>
          (if s_proc_path (slots d ! i) = proc_path \<and> s_guest_dir (slots d ! i) = guest_dir then d
           else set_slot pid fd proc_path guest_dir i (close_host_dirfd_slot i d))
      | (None, d) \<Rightarrow>
          let i = dnext d;
              d = close_host_dirfd_slot i (d\<lparr>dnext := (dnext d + 1) mod DIRFD_CACHE_SIZE\<rparr>)
          in set_slot pid fd proc_path guest_dir i d)"

definition attach_host_dirfd :: "int \<Rightarrow> int \<Rightarrow> int \<Rightarrow> dirfds \<Rightarrow> dirfds" where
  "attach_host_dirfd pid fd host_fd d =
     (if host_fd < 0 then d
      else case fd_ident (fds d) host_fd of
        None \<Rightarrow> d\<lparr>fds := fd_close host_fd (fds d)\<rparr>
      | Some ident \<Rightarrow>
          (case dirfd_cache_slot pid fd d of
             (None, d) \<Rightarrow> d\<lparr>fds := fd_close host_fd (fds d)\<rparr>
           | (Some i, d) \<Rightarrow>
               upd_slot i (\<lambda>s. s\<lparr>s_host_fd := host_fd, s_host_ident := ident,
                                 s_identity_valid := True\<rparr>)
                 (close_host_dirfd_slot i d)))"

definition copy_translated_dirfd :: "int \<Rightarrow> int \<Rightarrow> int \<Rightarrow> dirfds \<Rightarrow> dirfds" where
  "copy_translated_dirfd pid source_fd target_fd d =
     (case dirfd_cache_slot pid source_fd d of
        (None, d) \<Rightarrow> forget_translated_dirfd pid target_fd d
      | (Some i, d) \<Rightarrow>
          let s = slots d ! i in
          case dup_cloexec (s_host_fd s) d of
            (host_dup, d) \<Rightarrow>
              attach_host_dirfd pid target_fd host_dup
                (remember_translated_dirfd pid target_fd (s_proc_path s) (s_guest_dir s) d))"

definition inherit_at :: "int \<Rightarrow> int \<Rightarrow> nat \<Rightarrow> dirfds \<Rightarrow> dirfds" where
  "inherit_at parent_pid child_pid i d =
     (let s = slots d ! i in
      if s_pid s \<noteq> parent_pid then d
      else case dup_cloexec (s_host_fd s) d of
            (host_dup, d) \<Rightarrow>
              attach_host_dirfd child_pid (s_fd s) host_dup
                (remember_translated_dirfd child_pid (s_fd s) (s_proc_path s) (s_guest_dir s) d))"

definition inherit_translated_dirfds :: "int \<Rightarrow> int \<Rightarrow> dirfds \<Rightarrow> dirfds" where
  "inherit_translated_dirfds parent_pid child_pid d =
     fold (inherit_at parent_pid child_pid) [0..<DIRFD_CACHE_SIZE]
       (clear_translated_dirfds child_pid (dirfd_cache_init d))"

section \<open>The host descriptor\<close>

text \<open>
  What the kernel answers about descriptor \<open>fd\<close> of process \<open>pid\<close>: the directory opened through
  \<^verbatim>\<open>/proc/<pid>/fd/<fd>\<close>, its \<open>stat(2)\<close>, and \<open>kcmp(2)\<close> against a descriptor of the tracer.
\<close>

datatype kcmp_result = KCMP_SAME | KCMP_DIFFERENT | KCMP_ENOSYS | KCMP_ERROR

record fd_kernel =
  k_open_dir :: "int \<Rightarrow> int \<Rightarrow> ident option"
  k_stat_fd :: "int \<Rightarrow> int \<Rightarrow> ident option"
  k_kcmp :: "int \<Rightarrow> int \<Rightarrow> int \<Rightarrow> kcmp_result"

definition ensure_host_dirfd :: "fd_kernel \<Rightarrow> nat \<Rightarrow> int \<Rightarrow> int \<Rightarrow> dirfds \<Rightarrow> int \<times> dirfds" where
  "ensure_host_dirfd k i pid guest_fd d =
     (if s_host_fd (slots d ! i) \<ge> 0 then (s_host_fd (slots d ! i), d)
      else case k_open_dir k pid guest_fd of
             None \<Rightarrow> (-1, d)
           | Some ident \<Rightarrow>
               (case fd_alloc (nofile d) ident (fds d) of
                  (fd, f) \<Rightarrow>
                    if fd < 0 then (-1, d)
                    else let d = attach_host_dirfd pid guest_fd fd (d\<lparr>fds := f\<rparr>)
                         in (s_host_fd (slots d ! i), d)))"

definition host_dirfd_still_valid :: "fd_kernel \<Rightarrow> nat \<Rightarrow> int \<Rightarrow> int \<Rightarrow> dirfds \<Rightarrow> bool \<times> dirfds" where
  "host_dirfd_still_valid k i pid guest_fd d =
     (let s = slots d ! i in
      if s_host_fd s < 0 then (False, d)
      else
        let res = (if kcmp_unsupported d then KCMP_ENOSYS else k_kcmp k pid guest_fd (s_host_fd s));
            d = (if res = KCMP_ENOSYS then d\<lparr>kcmp_unsupported := True\<rparr> else d)
        in if res = KCMP_SAME then (True, d)
           else if \<not> s_identity_valid s then (False, d)
           else (k_stat_fd k pid guest_fd = Some (s_host_ident s), d))"

end
