(* ===== verification/Dirfd_Spec.thy ===== *)
theory Dirfd_Spec
  imports Dirfd
begin

text \<open>
  Correctness of the directory descriptor cache. \<open>dok B d\<close> is the invariant: the slots form a
  table (a pair of process and descriptor has one slot at most), and the cache owns exactly the
  open descriptors of the tracer outside \<open>B\<close>, each of them once. With \<open>B\<close> fixed, every operation
  preserves it, so none leaks a descriptor, closes one twice or closes one it does not own.
\<close>

section \<open>The descriptor table\<close>

lemma fd_ident_close [simp]:
  "fd_ident (fd_close fd f) x = (if x = fd then None else fd_ident f x)"
  by (auto simp: fd_ident_def fd_close_def nth_list_update)

lemma first_free_free: "first_free f < length f \<Longrightarrow> f ! first_free f = None"
  by (induction f rule: first_free.induct) auto

lemma first_free_le: "first_free f \<le> length f"
  by (induction f rule: first_free.induct) auto

lemma fd_ident_negative [simp]: "fd < 0 \<Longrightarrow> fd_ident f fd = None"
  by (simp add: fd_ident_def)

lemma fd_alloc_cases:
  assumes "fd_alloc n i f = (k, f')"
  obtains "k = -1" "f' = f"
  | "0 \<le> k" "fd_ident f k = None" "\<And>x. fd_ident f' x = (if x = k then Some i else fd_ident f x)"
proof (cases "n \<le> first_free f")
  case True
  with assms that(1) show ?thesis by (simp add: fd_alloc_def)
next
  case False
  let ?k = "first_free f"
  from False assms have k: "k = int ?k"
    and f': "f' = (if ?k < length f then f[?k := Some i] else f @ [Some i])"
    by (auto simp: fd_alloc_def Let_def split: if_splits)
  have "?k = length f" if "\<not> ?k < length f" using first_free_le [of f] that by simp
  with k f' first_free_free [of f] show ?thesis
    by (intro that(2)) (auto simp: fd_ident_def nth_list_update nth_append)
qed

section \<open>The invariant\<close>

definition unique_keys :: "dirfd_slot list \<Rightarrow> bool" where
  "unique_keys ss \<longleftrightarrow> (\<forall>i<length ss. \<forall>j<length ss.
     0 \<le> s_fd (ss ! i) \<and> s_fd (ss ! i) = s_fd (ss ! j) \<and> s_pid (ss ! i) = s_pid (ss ! j) \<longrightarrow> i = j)"

definition owned_once :: "dirfd_slot list \<Rightarrow> bool" where
  "owned_once ss \<longleftrightarrow> (\<forall>i<length ss. \<forall>j<length ss.
     0 \<le> s_host_fd (ss ! i) \<and> s_host_fd (ss ! i) = s_host_fd (ss ! j) \<longrightarrow> i = j)"

definition owned :: "dirfd_slot list \<Rightarrow> int set" where
  "owned ss = {s_host_fd s | s. s \<in> set ss \<and> 0 \<le> s_host_fd s}"

definition dok :: "int set \<Rightarrow> dirfds \<Rightarrow> bool" where
  "dok B d \<longleftrightarrow> inited d \<and> length (slots d) = DIRFD_CACHE_SIZE \<and> dnext d < DIRFD_CACHE_SIZE \<and>
     -1 \<le> dlast d \<and> dlast d < int DIRFD_CACHE_SIZE \<and>
     unique_keys (slots d) \<and> owned_once (slots d) \<and> owned (slots d) \<inter> B = {} \<and>
     (\<forall>fd. fd_ident (fds d) fd \<noteq> None \<longleftrightarrow> fd \<in> B \<or> fd \<in> owned (slots d))"

lemma owned_nth: "i < length ss \<Longrightarrow> 0 \<le> s_host_fd (ss ! i) \<Longrightarrow> s_host_fd (ss ! i) \<in> owned ss"
  by (auto simp: owned_def)

lemma owned_update:
  assumes "owned_once ss" "i < length ss"
  shows "owned (ss[i := s]) = owned ss - (if 0 \<le> s_host_fd (ss ! i) then {s_host_fd (ss ! i)} else {})
     \<union> (if 0 \<le> s_host_fd s then {s_host_fd s} else {})"
  using assms
  by (auto simp: owned_def set_conv_nth nth_list_update owned_once_def split: if_splits)

lemma owned_update_same: "i < length ss \<Longrightarrow> s_host_fd s = s_host_fd (ss ! i) \<Longrightarrow> owned (ss[i := s]) = owned ss"
  by (auto simp: owned_def set_conv_nth nth_list_update) metis+

lemma owned_once_update:
  assumes "owned_once ss" "i < length ss"
    and "s_host_fd s < 0 \<or> s_host_fd s = s_host_fd (ss ! i) \<or> s_host_fd s \<notin> owned ss"
  shows "owned_once (ss[i := s])"
  unfolding owned_once_def length_list_update
proof (intro allI impI)
  fix j k
  assume jk: "j < length ss" "k < length ss"
    and h: "0 \<le> s_host_fd (ss[i := s] ! j) \<and> s_host_fd (ss[i := s] ! j) = s_host_fd (ss[i := s] ! k)"
  have nth: "\<And>n. n < length ss \<Longrightarrow> ss[i := s] ! n = (if i = n then s else ss ! n)"
    by (simp add: nth_list_update)
  show "j = k"
  proof (rule ccontr)
    assume ne: "j \<noteq> k"
    have out: "s_host_fd s \<noteq> s_host_fd (ss ! n)" if "n < length ss" "n \<noteq> i" "0 \<le> s_host_fd s" for n
      using assms that owned_nth [OF that(1)] unfolding owned_once_def
      by (metis linorder_not_less)
    from h jk ne nth [of j] nth [of k] assms(1) out show False
      unfolding owned_once_def by (metis (full_types))
  qed
qed

lemma unique_keys_update:
  assumes "unique_keys ss"
    and "\<forall>j<length ss. j \<noteq> i \<and> 0 \<le> s_fd s \<longrightarrow> \<not> slot_matches (s_pid s) (s_fd s) (ss ! j)"
  shows "unique_keys (ss[i := s])"
  unfolding unique_keys_def length_list_update
proof (intro allI impI)
  fix j k
  assume jk: "j < length ss" "k < length ss"
    and h: "0 \<le> s_fd (ss[i := s] ! j) \<and> s_fd (ss[i := s] ! j) = s_fd (ss[i := s] ! k) \<and>
      s_pid (ss[i := s] ! j) = s_pid (ss[i := s] ! k)"
  have nth: "\<And>n. n < length ss \<Longrightarrow> ss[i := s] ! n = (if i = n then s else ss ! n)"
    by (simp add: nth_list_update)
  from h jk nth [of j] nth [of k] assms show "j = k"
    unfolding unique_keys_def slot_matches_def by (metis (full_types))
qed

lemma unique_keys_update_same:
  assumes "unique_keys ss" "i < length ss" "s_pid s = s_pid (ss ! i)" "s_fd s = s_fd (ss ! i)"
  shows "unique_keys (ss[i := s])"
proof (rule unique_keys_update [OF assms(1)], intro allI impI)
  fix j assume "j < length ss" "j \<noteq> i \<and> 0 \<le> s_fd s"
  then show "\<not> slot_matches (s_pid s) (s_fd s) (ss ! j)"
    using assms unfolding unique_keys_def slot_matches_def by metis
qed

section \<open>Lookup\<close>

lemma first_slot_Some:
  "first_slot pid fd ss n = Some i \<Longrightarrow>
   n \<le> i \<and> i - n < length ss \<and> slot_matches pid fd (ss ! (i - n))"
proof (induction pid fd ss n rule: first_slot.induct)
  case (2 pid fd s ss n)
  then show ?case
    by (cases "slot_matches pid fd s") (auto simp: nth_Cons' Suc_le_eq split: if_splits)
qed simp

lemma first_slot_None: "first_slot pid fd ss n = None \<longleftrightarrow> (\<forall>s\<in>set ss. \<not> slot_matches pid fd s)"
  by (induction pid fd ss n rule: first_slot.induct) auto

lemma init_ok [simp]: "inited d \<Longrightarrow> dirfd_cache_init d = d"
  by (simp add: dirfd_cache_init_def)

text \<open>The lookup finds the one slot of the pair; the hint \<open>dlast\<close> is all it changes.\<close>

lemma slot_lookup:
  assumes "dok B d" "dirfd_cache_slot pid fd d = (r, d')"
  shows "\<exists>l. d' = d\<lparr>dlast := l\<rparr> \<and> -1 \<le> l \<and> l < int DIRFD_CACHE_SIZE"
    and "r = Some i \<Longrightarrow> i < DIRFD_CACHE_SIZE \<and> 0 \<le> fd \<and> slot_matches pid fd (slots d ! i)"
    and "r = None \<Longrightarrow> 0 \<le> fd \<Longrightarrow> \<forall>s\<in>set (slots d). \<not> slot_matches pid fd s"
proof -
  have d: "d = d\<lparr>dlast := dlast d\<rparr>" by simp
  note defs = dirfd_cache_slot_def Let_def
  consider "fd < 0" | (hint) "0 \<le> fd" "0 \<le> dlast d" "slot_matches pid fd (slots d ! nat (dlast d))"
    | (scan) "0 \<le> fd" "\<not> (0 \<le> dlast d \<and> slot_matches pid fd (slots d ! nat (dlast d)))"
    by linarith
  then have "(\<exists>l. d' = d\<lparr>dlast := l\<rparr> \<and> -1 \<le> l \<and> l < int DIRFD_CACHE_SIZE) \<and>
    (\<forall>i. r = Some i \<longrightarrow> i < DIRFD_CACHE_SIZE \<and> 0 \<le> fd \<and> slot_matches pid fd (slots d ! i)) \<and>
    (r = None \<longrightarrow> 0 \<le> fd \<longrightarrow> (\<forall>s\<in>set (slots d). \<not> slot_matches pid fd s))"
  proof cases
    case 1
    with assms show ?thesis by (auto simp: defs dok_def intro!: exI [of _ "dlast d"])
  next
    case hint
    with assms show ?thesis by (auto simp: defs dok_def intro!: exI [of _ "dlast d"])
  next
    case scan
    show ?thesis
    proof (cases "first_slot pid fd (slots d) 0")
      case None
      with assms scan have "r = None" "d' = d" by (auto simp: defs dok_def)
      moreover from None have "\<forall>s\<in>set (slots d). \<not> slot_matches pid fd s"
        by (simp add: first_slot_None)
      ultimately show ?thesis using assms(1) by (auto simp: dok_def intro!: exI [of _ "dlast d"])
    next
      case (Some i)
      with assms scan have "r = Some i" "d' = d\<lparr>dlast := int i\<rparr>" by (auto simp: defs dok_def)
      moreover from first_slot_Some [OF Some] have "i < length (slots d)" "slot_matches pid fd (slots d ! i)"
        by auto
      ultimately show ?thesis using assms(1) scan by (auto simp: dok_def intro!: exI [of _ "int i"])
    qed
  qed
  then show "\<exists>l. d' = d\<lparr>dlast := l\<rparr> \<and> -1 \<le> l \<and> l < int DIRFD_CACHE_SIZE"
    and "r = Some i \<Longrightarrow> i < DIRFD_CACHE_SIZE \<and> 0 \<le> fd \<and> slot_matches pid fd (slots d ! i)"
    and "r = None \<Longrightarrow> 0 \<le> fd \<Longrightarrow> \<forall>s\<in>set (slots d). \<not> slot_matches pid fd s" by blast+
qed

lemma dok_dlast: "dok B d \<Longrightarrow> -1 \<le> l \<Longrightarrow> l < int DIRFD_CACHE_SIZE \<Longrightarrow> dok B (d\<lparr>dlast := l\<rparr>)"
  by (simp add: dok_def)

lemma dok_slot:
  "dok B d \<Longrightarrow> dirfd_cache_slot pid fd d = (r, d') \<Longrightarrow> dok B d'"
  using slot_lookup(1) dok_dlast by blast

lemma dok_unique:
  assumes "dok B d" "i < DIRFD_CACHE_SIZE" "j < DIRFD_CACHE_SIZE" "0 \<le> fd"
    and "slot_matches pid fd (slots d ! i)" "slot_matches pid fd (slots d ! j)"
  shows "i = j"
proof -
  have "unique_keys (slots d)" "length (slots d) = DIRFD_CACHE_SIZE"
    using assms(1) by (simp_all add: dok_def)
  with assms(2-) show ?thesis unfolding unique_keys_def slot_matches_def by auto
qed

section \<open>Preservation\<close>

lemma close_slot_fields [simp]:
  "dlast (close_host_dirfd_slot i d) = dlast d" "dnext (close_host_dirfd_slot i d) = dnext d"
  "inited (close_host_dirfd_slot i d) = inited d" "nofile (close_host_dirfd_slot i d) = nofile d"
  "length (slots (close_host_dirfd_slot i d)) = length (slots d)"
  by (simp_all add: close_host_dirfd_slot_def upd_slot_def)

lemma close_slot_slots:
  "i < length (slots d) \<Longrightarrow> slots (close_host_dirfd_slot i d) =
    (slots d)[i := (slots d ! i)\<lparr>s_host_fd := (if 0 \<le> s_host_fd (slots d ! i) then -1
       else s_host_fd (slots d ! i)), s_identity_valid := False\<rparr>]"
  by (simp add: close_host_dirfd_slot_def upd_slot_def Let_def)

lemma close_slot_fds:
  "fds (close_host_dirfd_slot i d) =
    (if 0 \<le> s_host_fd (slots d ! i) then fd_close (s_host_fd (slots d ! i)) (fds d) else fds d)"
  by (simp add: close_host_dirfd_slot_def upd_slot_def Let_def)

lemma dok_close_slot:
  assumes "dok B d" "i < DIRFD_CACHE_SIZE"
  shows "dok B (close_host_dirfd_slot i d)" "s_host_fd (slots (close_host_dirfd_slot i d) ! i) < 0"
proof -
  have i: "i < length (slots d)" using assms by (simp add: dok_def)
  let ?s = "(slots d ! i)\<lparr>s_host_fd := (if 0 \<le> s_host_fd (slots d ! i) then -1
       else s_host_fd (slots d ! i)), s_identity_valid := False\<rparr>"
  have o: "owned ((slots d)[i := ?s]) =
      owned (slots d) - (if 0 \<le> s_host_fd (slots d ! i) then {s_host_fd (slots d ! i)} else {})"
    using assms i by (subst owned_update) (auto simp: dok_def)
  have "unique_keys ((slots d)[i := ?s])"
    using assms i by (intro unique_keys_update_same) (auto simp: dok_def)
  moreover have "owned_once ((slots d)[i := ?s])"
    using assms i by (intro owned_once_update) (auto simp: dok_def)
  ultimately show "dok B (close_host_dirfd_slot i d)"
    using assms owned_nth [OF i] unfolding dok_def close_slot_slots [OF i] o close_slot_fds by auto
  show "s_host_fd (slots (close_host_dirfd_slot i d) ! i) < 0"
    using i by (simp add: close_slot_slots)
qed

text \<open>Replacing a slot that holds no host descriptor.\<close>

lemma dok_upd_slot:
  assumes "dok B d" "i < DIRFD_CACHE_SIZE" "s_host_fd (slots d ! i) < 0" "s_host_fd (f (slots d ! i)) < 0"
    and "\<forall>j<DIRFD_CACHE_SIZE. j \<noteq> i \<and> 0 \<le> s_fd (f (slots d ! i)) \<longrightarrow>
      \<not> slot_matches (s_pid (f (slots d ! i))) (s_fd (f (slots d ! i))) (slots d ! j)"
  shows "dok B (upd_slot i f d)"
proof -
  have i: "i < length (slots d)" using assms by (simp add: dok_def)
  let ?ss = "(slots d)[i := f (slots d ! i)]"
  have "owned ?ss = owned (slots d)"
    using assms i by (subst owned_update) (auto simp: dok_def)
  moreover have "owned_once ?ss"
    using assms i by (intro owned_once_update) (auto simp: dok_def)
  moreover have "unique_keys ?ss"
    using assms i by (intro unique_keys_update) (auto simp: dok_def)
  ultimately show ?thesis using assms(1) by (simp add: dok_def upd_slot_def)
qed

lemma dok_forget:
  assumes "dok B d" shows "dok B (forget_translated_dirfd pid fd d)"
proof (cases "dirfd_cache_slot pid fd d")
  case (Pair r d1)
  have d1: "dok B d1" using dok_slot [OF assms Pair] .
  show ?thesis
  proof (cases r)
    case None
    with Pair d1 show ?thesis by (simp add: forget_translated_dirfd_def)
  next
    case (Some i)
    then have i: "i < DIRFD_CACHE_SIZE" using slot_lookup(2) [OF assms Pair] by blast
    let ?c = "close_host_dirfd_slot i d1"
    let ?e = "if dlast ?c = int i then ?c\<lparr>dlast := -1\<rparr> else ?c"
    have "dok B ?e" using dok_close_slot(1) [OF d1 i] by (auto intro: dok_dlast)
    moreover have "s_host_fd (slots ?e ! i) < 0" using dok_close_slot(2) [OF d1 i] by simp
    ultimately have "dok B (upd_slot i (\<lambda>s. s\<lparr>s_pid := 0, s_fd := -1, s_proc_path := [],
        s_guest_dir := []\<rparr>) ?e)"
      using i by (intro dok_upd_slot) auto
    with Pair Some show ?thesis by (simp add: forget_translated_dirfd_def Let_def)
  qed
qed

lemma dok_fold: "(\<And>i d. dok B d \<Longrightarrow> i < n \<Longrightarrow> dok B (f i d)) \<Longrightarrow> dok B d \<Longrightarrow> dok B (fold f [0..<n] d)"
  by (induction n) auto

lemma dok_clear: "dok B d \<Longrightarrow> dok B (clear_translated_dirfds pid d)"
  unfolding clear_translated_dirfds_def
  by (rule dok_fold) (auto simp: clear_at_def dok_forget)

lemma dok_forget_range: "dok B d \<Longrightarrow> dok B (forget_translated_dirfds_range pid first lst d)"
  unfolding forget_translated_dirfds_range_def
  by (rule dok_fold) (auto simp: forget_range_at_def Let_def dok_forget)

lemma dok_set_slot:
  assumes "dok B d" "i < DIRFD_CACHE_SIZE" "s_host_fd (slots d ! i) < 0"
    and "\<forall>j<DIRFD_CACHE_SIZE. j \<noteq> i \<and> 0 \<le> fd \<longrightarrow> \<not> slot_matches pid fd (slots d ! j)"
  shows "dok B (set_slot pid fd p g i d)"
  unfolding set_slot_def using assms by (intro dok_upd_slot) auto

lemma dok_remember:
  assumes "dok B d" shows "dok B (remember_translated_dirfd pid fd p g d)"
proof (cases "dirfd_cache_slot pid fd d")
  case (Pair r d1)
  have d1: "dok B d1" using dok_slot [OF assms Pair] .
  obtain l where l: "d1 = d\<lparr>dlast := l\<rparr>" using slot_lookup(1) [OF assms Pair] by blast
  have len: "length (slots d) = DIRFD_CACHE_SIZE" using assms by (simp add: dok_def)
  show ?thesis
  proof (cases "fd < 0 \<or> c_at p 0 \<noteq> slash \<or> c_at g 0 \<noteq> slash")
    case True
    with assms show ?thesis by (auto simp: remember_translated_dirfd_def)
  next
    case False
    show ?thesis
    proof (cases r)
      case (Some i)
      then have i: "i < DIRFD_CACHE_SIZE" "slot_matches pid fd (slots d ! i)"
        using slot_lookup(2) [OF assms Pair] by blast+
      have "\<not> slot_matches pid fd (slots d ! j)" if "j < DIRFD_CACHE_SIZE" "j \<noteq> i" for j
        using dok_unique [OF assms i(1) that(1) _ i(2)] that(2) False by auto
      then have "\<forall>j<DIRFD_CACHE_SIZE. j \<noteq> i \<and> 0 \<le> fd \<longrightarrow>
          \<not> slot_matches pid fd (slots (close_host_dirfd_slot i d1) ! j)"
        using i len l by (simp add: close_slot_slots)
      then have "dok B (set_slot pid fd p g i (close_host_dirfd_slot i d1))"
        by (rule dok_set_slot [OF dok_close_slot(1) [OF d1 i(1)] i(1) dok_close_slot(2) [OF d1 i(1)]])
      with False Pair Some d1 show ?thesis by (simp add: remember_translated_dirfd_def)
    next
      case None
      let ?i = "dnext d1" and ?d = "d1\<lparr>dnext := (dnext d1 + 1) mod DIRFD_CACHE_SIZE\<rparr>"
      have i: "?i < DIRFD_CACHE_SIZE" using d1 by (simp add: dok_def)
      have d2: "dok B ?d" using d1 by (simp add: dok_def DIRFD_CACHE_SIZE_def)
      have "\<forall>s\<in>set (slots d). \<not> slot_matches pid fd s"
        using None False slot_lookup(3) [OF assms Pair] by simp
      then have "\<forall>j<DIRFD_CACHE_SIZE. j \<noteq> ?i \<and> 0 \<le> fd \<longrightarrow>
          \<not> slot_matches pid fd (slots (close_host_dirfd_slot ?i ?d) ! j)"
        using i len l by (auto simp: close_slot_slots)
      then have "dok B (set_slot pid fd p g ?i (close_host_dirfd_slot ?i ?d))"
        by (rule dok_set_slot [OF dok_close_slot(1) [OF d2 i] i dok_close_slot(2) [OF d2 i]])
      with False Pair None show ?thesis by (simp add: remember_translated_dirfd_def Let_def)
    qed
  qed
qed

text \<open>Ownership moves: \<open>dup_cloexec\<close> opens a descriptor nobody owns yet, \<open>attach_host_dirfd\<close>
  takes it over or closes it.\<close>

lemma dok_open: "dok B d \<Longrightarrow> fd_ident (fds d) x \<noteq> None \<longleftrightarrow> x \<in> B \<or> x \<in> owned (slots d)"
  unfolding dok_def by blast

lemma dok_alloc:
  assumes "dok B d" "fd_alloc (nofile d) i (fds d) = (k, f)" "0 \<le> k"
  shows "dok (insert k B) (d\<lparr>fds := f\<rparr>)" "k \<notin> B"
proof -
  from assms(2,3) have f: "fd_ident (fds d) k = None"
    "\<And>x. fd_ident f x = (if x = k then Some i else fd_ident (fds d) x)"
    by (auto elim!: fd_alloc_cases)
  with dok_open [OF assms(1), of k] show "k \<notin> B" by simp
  show "dok (insert k B) (d\<lparr>fds := f\<rparr>)"
    using assms(1) f dok_open [OF assms(1), of k] unfolding dok_def by simp
qed

lemma dok_dup:
  assumes "dok B d" "dup_cloexec fd d = (k, d')"
  shows "if 0 \<le> k then dok (insert k B) d' \<and> k \<notin> B else d' = d"
    "slots d' = slots d" "dlast d' = dlast d"
proof -
  consider "k = -1" "d' = d" | i f where "fd_alloc (nofile d) i (fds d) = (k, f)" "d' = d\<lparr>fds := f\<rparr>"
  proof (cases "fd < 0 \<or> fd_ident (fds d) fd = None")
    case True
    with assms(2) that(1) show ?thesis
      by (cases "fd < 0") (simp_all add: dup_cloexec_def)
  next
    case False
    then obtain i where i: "fd_ident (fds d) fd = Some i" by blast
    obtain h f where hf: "fd_alloc (nofile d) i (fds d) = (h, f)" by fastforce
    with False i assms(2) that(2) [of i f] show ?thesis by (simp add: dup_cloexec_def)
  qed
  then have "(if 0 \<le> k then dok (insert k B) d' \<and> k \<notin> B else d' = d) \<and>
      slots d' = slots d \<and> dlast d' = dlast d"
  proof cases
    case 2
    then show ?thesis
      using dok_alloc [OF assms(1) 2(1)] by (auto elim!: fd_alloc_cases)
  qed auto
  then show "if 0 \<le> k then dok (insert k B) d' \<and> k \<notin> B else d' = d"
    "slots d' = slots d" "dlast d' = dlast d" by auto
qed

lemma dok_attach:
  assumes "0 \<le> h \<Longrightarrow> dok (insert h B) d \<and> h \<notin> B" "h < 0 \<Longrightarrow> dok B d"
  shows "dok B (attach_host_dirfd pid fd h d)"
proof (cases "h < 0")
  case True
  with assms show ?thesis by (simp add: attach_host_dirfd_def)
next
  case False
  with assms have d: "dok (insert h B) d" and hB: "h \<notin> B" by auto
  have drop: "dok B (e\<lparr>fds := fd_close h (fds e)\<rparr>)" if "dok (insert h B) e" for e
    using that hB by (auto simp: dok_def)
  obtain ident where id: "fd_ident (fds d) h = Some ident"
    using dok_open [OF d, of h] by blast
  obtain r d1 where look: "dirfd_cache_slot pid fd d = (r, d1)" by fastforce
  have d1: "dok (insert h B) d1" using dok_slot [OF d look] .
  show ?thesis
  proof (cases r)
    case None
    with False id look drop [OF d1] show ?thesis by (simp add: attach_host_dirfd_def)
  next
    case (Some i)
    have i: "i < DIRFD_CACHE_SIZE" using slot_lookup(2) [OF d look Some] by blast
    let ?c = "close_host_dirfd_slot i d1"
    let ?f = "\<lambda>s. s\<lparr>s_host_fd := h, s_host_ident := ident, s_identity_valid := True\<rparr>"
    have c: "dok (insert h B) ?c" "s_host_fd (slots ?c ! i) < 0" using dok_close_slot [OF d1 i] .
    then have l: "i < length (slots ?c)" and h: "h \<notin> owned (slots ?c)" using i by (auto simp: dok_def)
    have "owned ((slots ?c)[i := ?f (slots ?c ! i)]) = insert h (owned (slots ?c))"
      using c l False by (subst owned_update) (auto simp: dok_def)
    moreover have "owned_once ((slots ?c)[i := ?f (slots ?c ! i)])"
      using c l h by (intro owned_once_update) (auto simp: dok_def)
    moreover have "unique_keys ((slots ?c)[i := ?f (slots ?c ! i)])"
      using c l by (intro unique_keys_update_same) (auto simp: dok_def)
    ultimately have "dok B (upd_slot i ?f ?c)"
      using c(1) hB False unfolding dok_def upd_slot_def by auto
    with False id look Some show ?thesis by (simp add: attach_host_dirfd_def)
  qed
qed

lemma dok_copy_entry:
  assumes "dok B d"
  shows "dok B (case dup_cloexec fd d of (h, d) \<Rightarrow>
    attach_host_dirfd pid gfd h (remember_translated_dirfd pid gfd p g d))"
proof (cases "dup_cloexec fd d")
  case (Pair h d1)
  from dok_dup(1) [OF assms Pair] have "0 \<le> h \<Longrightarrow> dok (insert h B) d1 \<and> h \<notin> B" "h < 0 \<Longrightarrow> dok B d1"
    using assms by (auto split: if_splits)
  then show ?thesis unfolding Pair prod.case
    by (intro dok_attach) (auto simp: dok_remember)
qed

lemma dok_copy:
  assumes "dok B d" shows "dok B (copy_translated_dirfd pid s t d)"
proof (cases "dirfd_cache_slot pid s d")
  case (Pair r d1)
  have "dok B d1" using dok_slot [OF assms Pair] .
  then show ?thesis
    using Pair dok_copy_entry dok_forget by (cases r) (simp_all add: copy_translated_dirfd_def Let_def)
qed

lemma dok_inherit_at: "dok B d \<Longrightarrow> dok B (inherit_at p c i d)"
  unfolding inherit_at_def Let_def by (simp only: dok_copy_entry split: if_split) simp

lemma dok_inherit:
  assumes "dok B d" shows "dok B (inherit_translated_dirfds p c d)"
proof -
  have "inited d" using assms by (simp add: dok_def)
  then show ?thesis unfolding inherit_translated_dirfds_def
    using dok_clear [OF assms, of c] by (intro dok_fold) (simp_all add: dok_inherit_at)
qed

lemma dok_ensure:
  assumes "dok B d" "ensure_host_dirfd k i pid fd d = (r, d')"
  shows "dok B d'"
proof -
  consider "d' = d" | ident h f where "fd_alloc (nofile d) ident (fds d) = (h, f)" "\<not> h < 0"
      "d' = attach_host_dirfd pid fd h (d\<lparr>fds := f\<rparr>)"
  proof (cases "0 \<le> s_host_fd (slots d ! i) \<or> k_open_dir k pid fd = None")
    case True
    then have "snd (ensure_host_dirfd k i pid fd d) = d"
      by (cases "0 \<le> s_host_fd (slots d ! i)") (auto simp: ensure_host_dirfd_def)
    with assms(2) that(1) show ?thesis by simp
  next
    case False
    then obtain ident where id: "k_open_dir k pid fd = Some ident" by blast
    obtain h f where hf: "fd_alloc (nofile d) ident (fds d) = (h, f)" by fastforce
    with False id have "snd (ensure_host_dirfd k i pid fd d) =
        (if h < 0 then d else attach_host_dirfd pid fd h (d\<lparr>fds := f\<rparr>))"
      by (auto simp: ensure_host_dirfd_def Let_def)
    with assms(2) hf that(1) that(2) [of ident h f] show ?thesis by (cases "h < 0") simp_all
  qed
  then show ?thesis
  proof cases
    case 2
    then show ?thesis unfolding 2(3) using dok_alloc [OF assms(1) 2(1)] by (intro dok_attach) auto
  qed (use assms in simp)
qed

lemma dok_start:
  assumes "\<forall>fd. fd_ident opened fd \<noteq> None \<longleftrightarrow> fd \<in> B"
  shows "dok B (dirfd_cache_init (dirfds_start opened lim))"
proof -
  let ?z = "zero_slot\<lparr>s_fd := -1, s_host_fd := -1\<rparr>"
  have "0 < DIRFD_CACHE_SIZE" by (simp add: DIRFD_CACHE_SIZE_def)
  moreover have "unique_keys (replicate n ?z)" "owned_once (replicate n ?z)" "owned (replicate n ?z) = {}" for n
    by (auto simp: unique_keys_def owned_once_def owned_def)
  ultimately show ?thesis
    using assms by (simp add: dok_def dirfd_cache_init_def dirfds_start_def)
qed

section \<open>What the table holds\<close>

text \<open>The contents as a set, and the lookup as a function of the pair.\<close>

definition entries :: "dirfds \<Rightarrow> (int \<times> int \<times> string \<times> string) set" where
  "entries d = {(s_pid s, s_fd s, s_proc_path s, s_guest_dir s) | s. s \<in> set (slots d) \<and> 0 \<le> s_fd s}"

definition dlookup :: "dirfds \<Rightarrow> int \<Rightarrow> int \<Rightarrow> (string \<times> string) option" where
  "dlookup d pid fd =
     (case dirfd_cache_slot pid fd d of
        (None, d) \<Rightarrow> None
      | (Some i, d) \<Rightarrow> Some (s_proc_path (slots d ! i), s_guest_dir (slots d ! i)))"

lemma entries_iff:
  "(pid, fd, p, g) \<in> entries d \<longleftrightarrow> (\<exists>i<length (slots d). 0 \<le> fd \<and> slot_matches pid fd (slots d ! i) \<and>
     s_proc_path (slots d ! i) = p \<and> s_guest_dir (slots d ! i) = g)"
  by (auto simp: entries_def slot_matches_def in_set_conv_nth)

lemma dlookup_entries:
  assumes "dok B d"
  shows "dlookup d pid fd = Some (p, g) \<longleftrightarrow> (pid, fd, p, g) \<in> entries d"
proof (cases "dirfd_cache_slot pid fd d")
  case (Pair r d1)
  obtain l where l: "d1 = d\<lparr>dlast := l\<rparr>" using slot_lookup(1) [OF assms Pair] by blast
  have len: "length (slots d) = DIRFD_CACHE_SIZE" using assms by (simp add: dok_def)
  show ?thesis
  proof (cases r)
    case None
    then have "dlookup d pid fd = None" using Pair by (simp add: dlookup_def)
    moreover have "\<not> (0 \<le> fd \<and> slot_matches pid fd (slots d ! i))" if "i < DIRFD_CACHE_SIZE" for i
      using slot_lookup(3) [OF assms Pair None] that len by auto
    ultimately show ?thesis using len by (auto simp: entries_iff)
  next
    case (Some i)
    then have i: "i < DIRFD_CACHE_SIZE" "0 \<le> fd" "slot_matches pid fd (slots d ! i)"
      using slot_lookup(2) [OF assms Pair] by blast+
    have u: "j = i" if "j < DIRFD_CACHE_SIZE" "slot_matches pid fd (slots d ! j)" for j
      using dok_unique [OF assms that(1) i(1) i(2) that(2) i(3)] .
    have "dlookup d pid fd = Some (s_proc_path (slots d ! i), s_guest_dir (slots d ! i))"
      using Pair Some l by (simp add: dlookup_def)
    moreover have "(pid, fd, p, g) \<in> entries d \<longleftrightarrow>
        s_proc_path (slots d ! i) = p \<and> s_guest_dir (slots d ! i) = g"
      unfolding entries_iff len using i u by blast
    ultimately show ?thesis by simp
  qed
qed

lemma entries_dlast [simp]: "entries (d\<lparr>dlast := l\<rparr>) = entries d"
  "entries (d\<lparr>dnext := n\<rparr>) = entries d" "entries (d\<lparr>fds := f\<rparr>) = entries d"
  by (simp_all add: entries_def)

lemma entries_slot:
  "dok B d \<Longrightarrow> dirfd_cache_slot pid fd d = (r, d') \<Longrightarrow> entries d' = entries d"
  using slot_lookup(1) by fastforce

lemma entries_upd_same:
  assumes "i < length (slots d)" "s_pid (f (slots d ! i)) = s_pid (slots d ! i)"
    "s_fd (f (slots d ! i)) = s_fd (slots d ! i)"
    "s_proc_path (f (slots d ! i)) = s_proc_path (slots d ! i)"
    "s_guest_dir (f (slots d ! i)) = s_guest_dir (slots d ! i)"
  shows "entries (upd_slot i f d) = entries d"
proof -
  have "slots (upd_slot i f d) ! j = (if j = i then f (slots d ! i) else slots d ! j)" for j
    using assms(1) by (simp add: upd_slot_def)
  moreover have "length (slots (upd_slot i f d)) = length (slots d)" by (simp add: upd_slot_def)
  ultimately have "(pid, fd, p, g) \<in> entries (upd_slot i f d) \<longleftrightarrow> (pid, fd, p, g) \<in> entries d"
    for pid fd p g
    using assms(2-) unfolding entries_iff slot_matches_def by (metis (no_types, lifting))
  then show ?thesis by auto
qed

lemma entries_close [simp]: "i < length (slots d) \<Longrightarrow> entries (close_host_dirfd_slot i d) = entries d"
proof -
  assume i: "i < length (slots d)"
  have "entries (close_host_dirfd_slot i d) =
      entries (upd_slot i (\<lambda>s. s\<lparr>s_host_fd := (if 0 \<le> s_host_fd s then -1 else s_host_fd s),
         s_identity_valid := False\<rparr>) d)"
    using i by (simp add: entries_def close_slot_slots upd_slot_def)
  also have "\<dots> = entries d" using i by (intro entries_upd_same) auto
  finally show ?thesis .
qed

lemma entries_attach:
  assumes "dok B d" shows "entries (attach_host_dirfd pid fd h d) = entries d"
proof (cases "h < 0 \<or> fd_ident (fds d) h = None")
  case True
  then show ?thesis by (auto simp: attach_host_dirfd_def)
next
  case False
  then obtain ident where id: "fd_ident (fds d) h = Some ident" by blast
  obtain r d1 where look: "dirfd_cache_slot pid fd d = (r, d1)" by fastforce
  note e = entries_slot [OF assms look]
  show ?thesis
  proof (cases r)
    case None
    with False id look e show ?thesis by (simp add: attach_host_dirfd_def)
  next
    case (Some i)
    have "i < length (slots d1)"
      using slot_lookup(2) [OF assms look Some] dok_slot [OF assms look] by (auto simp: dok_def)
    with False id look e Some show ?thesis
      by (simp add: attach_host_dirfd_def entries_upd_same)
  qed
qed

text \<open>Writing a slot drops what it held and adds the new contents.\<close>

lemma entries_write:
  assumes "dok B (upd_slot i f d)" "dok B d" "i < DIRFD_CACHE_SIZE"
  shows "entries (upd_slot i f d) =
    {(pid, fd, p, g) \<in> entries d. \<not> slot_matches pid fd (slots d ! i)} \<union>
    (let s = f (slots d ! i) in if 0 \<le> s_fd s then {(s_pid s, s_fd s, s_proc_path s, s_guest_dir s)} else {})"
    (is "_ = ?R")
proof -
  let ?d = "upd_slot i f d"
  have len: "length (slots d) = DIRFD_CACHE_SIZE" "length (slots ?d) = DIRFD_CACHE_SIZE"
    using assms by (simp_all add: dok_def)
  have nth: "slots ?d ! j = (if j = i then f (slots d ! i) else slots d ! j)" for j
    using assms(3) len by (simp add: upd_slot_def)
  have "x \<in> entries ?d \<longleftrightarrow> x \<in> ?R" for x
  proof -
    obtain pid fd p g where x: "x = (pid, fd, p, g)" by (cases x) auto
    have other: "\<not> slot_matches pid fd (slots d ! i)"
      if "j < DIRFD_CACHE_SIZE" "j \<noteq> i" "0 \<le> fd" "slot_matches pid fd (slots d ! j)" for j
      using dok_unique [OF assms(2) that(1) assms(3) that(3,4)] that(2) by blast
    show ?thesis
    proof
      assume "x \<in> entries ?d"
      then obtain j where j: "j < DIRFD_CACHE_SIZE" "0 \<le> fd" "slot_matches pid fd (slots ?d ! j)"
          "s_proc_path (slots ?d ! j) = p" "s_guest_dir (slots ?d ! j) = g"
        unfolding x entries_iff len by blast
      show "x \<in> ?R"
      proof (cases "j = i")
        case True
        with j show ?thesis unfolding x nth by (simp add: slot_matches_def)
      next
        case False
        with j other [of j] have "x \<in> {(pid, fd, p, g) \<in> entries d. \<not> slot_matches pid fd (slots d ! i)}"
          unfolding x nth by (auto simp: entries_iff len)
        then show ?thesis by blast
      qed
    next
      assume "x \<in> ?R"
      then consider "x \<in> entries d" "\<not> slot_matches pid fd (slots d ! i)"
        | "0 \<le> s_fd (f (slots d ! i))" "x = (s_pid (f (slots d ! i)), s_fd (f (slots d ! i)),
            s_proc_path (f (slots d ! i)), s_guest_dir (f (slots d ! i)))"
        unfolding x by (auto simp: Let_def split: if_splits)
      then show "x \<in> entries ?d"
      proof cases
        case 1
        then obtain j where "j < DIRFD_CACHE_SIZE" "0 \<le> fd" "slot_matches pid fd (slots d ! j)"
            "s_proc_path (slots d ! j) = p" "s_guest_dir (slots d ! j) = g" "j \<noteq> i"
          unfolding x entries_iff len by blast
        then show ?thesis unfolding x entries_iff nth len by (intro exI [of _ j]) simp
      next
        case 2
        then show ?thesis unfolding x entries_iff nth len
          using assms(3) by (intro exI [of _ i]) (simp add: slot_matches_def)
      qed
    qed
  qed
  then show ?thesis by blast
qed

lemma entries_forget:
  assumes "dok B d" "0 \<le> fd"
  shows "entries (forget_translated_dirfd pid fd d) = {(q, n, p, g) \<in> entries d. \<not> (q = pid \<and> n = fd)}"
proof (cases "dirfd_cache_slot pid fd d")
  case (Pair r d1)
  note e = entries_slot [OF assms(1) Pair] and d1 = dok_slot [OF assms(1) Pair]
  obtain l where l: "d1 = d\<lparr>dlast := l\<rparr>" using slot_lookup(1) [OF assms(1) Pair] by blast
  show ?thesis
  proof (cases r)
    case None
    with slot_lookup(3) [OF assms(1) Pair None assms(2)]
    have "(pid, fd, p, g) \<notin> entries d" for p g by (auto simp: entries_iff)
    with Pair None e show ?thesis by (auto simp: forget_translated_dirfd_def)
  next
    case (Some i)
    then have i: "i < DIRFD_CACHE_SIZE" "slot_matches pid fd (slots d1 ! i)"
      using slot_lookup(2) [OF assms(1) Pair] l by simp_all
    then have il: "i < length (slots d1)" using d1 by (simp add: dok_def)
    let ?c = "close_host_dirfd_slot i d1"
    let ?e = "if dlast ?c = int i then ?c\<lparr>dlast := -1\<rparr> else ?c"
    let ?f = "\<lambda>s. s\<lparr>s_pid := 0, s_fd := -1, s_proc_path := [], s_guest_dir := []\<rparr>"
    have de: "dok B ?e" using dok_close_slot(1) [OF d1 i(1)] by (auto intro: dok_dlast)
    have df: "forget_translated_dirfd pid fd d = upd_slot i ?f ?e"
      using Pair Some by (simp add: forget_translated_dirfd_def Let_def)
    have m: "slots ?e ! i = slots ?c ! i" by simp
    have "s_pid (slots ?c ! i) = pid" "s_fd (slots ?c ! i) = fd"
      using i il by (simp_all add: close_slot_slots slot_matches_def)
    moreover have "entries ?e = entries d" using il e by simp
    ultimately show ?thesis
      using entries_write [OF _ de i(1), of ?f] dok_forget [OF assms(1), of pid fd]
      unfolding df by (auto simp: slot_matches_def)
  qed
qed

lemma entries_set_slot:
  assumes "dok B (set_slot pid fd p g i d)" "dok B d" "i < DIRFD_CACHE_SIZE" "0 \<le> fd"
  shows "entries (set_slot pid fd p g i d) =
    {(q, n, p, g) \<in> entries d. \<not> slot_matches q n (slots d ! i)} \<union>
    {(pid, fd, take (PATH_MAX - 1) p, take (PATH_MAX - 1) g)}"
  using assms unfolding set_slot_def
  by (subst entries_write [OF _ assms(2,3)]) (simp_all add: Let_def)

text \<open>What a call of \<open>remember_translated_dirfd\<close> with usable arguments leaves in the table:
  the new entry, and nothing that was not there before.\<close>

lemma entries_remember:
  assumes "dok B d" "0 \<le> fd" "c_at p 0 = slash" "c_at g 0 = slash"
    "length p < PATH_MAX" "length g < PATH_MAX"
  shows "(pid, fd, p, g) \<in> entries (remember_translated_dirfd pid fd p g d)"
    "entries (remember_translated_dirfd pid fd p g d) \<subseteq> insert (pid, fd, p, g) (entries d)"
proof -
  obtain r d1 where look: "dirfd_cache_slot pid fd d = (r, d1)" by fastforce
  note e = entries_slot [OF assms(1) look] and d1 = dok_slot [OF assms(1) look]
  have tk: "take (PATH_MAX - 1) p = p" "take (PATH_MAX - 1) g = g" using assms(5,6) by simp_all
  obtain l where l: "d1 = d\<lparr>dlast := l\<rparr>" using slot_lookup(1) [OF assms(1) look] by blast
  have k: "dok B (remember_translated_dirfd pid fd p g d)" using assms(1) by (rule dok_remember)
  consider (same) i where "r = Some i" "s_proc_path (slots d1 ! i) = p" "s_guest_dir (slots d1 ! i) = g"
    | (fresh) i d2 where "i < DIRFD_CACHE_SIZE" "dok B d2" "entries d2 = entries d"
        "remember_translated_dirfd pid fd p g d = set_slot pid fd p g i d2"
  proof (cases r)
    case None
    let ?d = "d1\<lparr>dnext := (dnext d1 + 1) mod DIRFD_CACHE_SIZE\<rparr>"
    have i: "dnext d1 < DIRFD_CACHE_SIZE" "dnext d1 < length (slots d1)" using d1 by (simp_all add: dok_def)
    have "dok B ?d" using d1 by (simp add: dok_def DIRFD_CACHE_SIZE_def)
    from dok_close_slot(1) [OF this i(1)] fresh i e assms look None show ?thesis
      by (simp add: remember_translated_dirfd_def Let_def)
  next
    case (Some i)
    have i: "i < DIRFD_CACHE_SIZE" using slot_lookup(2) [OF assms(1) look Some] by blast
    then have il: "i < length (slots d1)" using d1 by (simp add: dok_def)
    show ?thesis
    proof (cases "s_proc_path (slots d1 ! i) = p \<and> s_guest_dir (slots d1 ! i) = g")
      case True
      with Some same show ?thesis by blast
    next
      case False
      have "entries (close_host_dirfd_slot i d1) = entries d" using il e by simp
      moreover have "remember_translated_dirfd pid fd p g d = set_slot pid fd p g i (close_host_dirfd_slot i d1)"
        using False assms look Some by (auto simp: remember_translated_dirfd_def)
      ultimately show ?thesis using fresh [OF i dok_close_slot(1) [OF d1 i]] by blast
    qed
  qed
  then have "(pid, fd, p, g) \<in> entries (remember_translated_dirfd pid fd p g d) \<and>
    entries (remember_translated_dirfd pid fd p g d) \<subseteq> insert (pid, fd, p, g) (entries d)"
  proof cases
    case same
    then have i: "i < DIRFD_CACHE_SIZE" "slot_matches pid fd (slots d ! i)"
      using slot_lookup(2) [OF assms(1) look] by blast+
    then have "(pid, fd, p, g) \<in> entries d"
      using same l assms(1,2) by (auto simp: entries_iff dok_def)
    moreover have "remember_translated_dirfd pid fd p g d = d1"
      using same assms look by (simp add: remember_translated_dirfd_def)
    ultimately show ?thesis using e by auto
  next
    case fresh
    show ?thesis
      using entries_set_slot [OF _ fresh(2,1) assms(2), of pid p g] k unfolding fresh(3,4) tk by auto
  qed
  then show "(pid, fd, p, g) \<in> entries (remember_translated_dirfd pid fd p g d)"
    "entries (remember_translated_dirfd pid fd p g d) \<subseteq> insert (pid, fd, p, g) (entries d)" by blast+
qed

lemma forget_slot:
  assumes "dok B d" "j < DIRFD_CACHE_SIZE"
  shows "slots (forget_translated_dirfd pid fd d) ! j = slots d ! j \<or>
    s_fd (slots (forget_translated_dirfd pid fd d) ! j) < 0"
proof -
  obtain r d1 where look: "dirfd_cache_slot pid fd d = (r, d1)" by fastforce
  obtain l where l: "d1 = d\<lparr>dlast := l\<rparr>" using slot_lookup(1) [OF assms(1) look] by blast
  have len: "length (slots d) = DIRFD_CACHE_SIZE" using assms by (simp add: dok_def)
  show ?thesis
  proof (cases r)
    case None
    with look l show ?thesis by (simp add: forget_translated_dirfd_def)
  next
    case (Some i)
    have "i < DIRFD_CACHE_SIZE" using slot_lookup(2) [OF assms(1) look Some] by blast
    with look l Some len assms(2) show ?thesis
      by (cases "i = j")
        (simp_all add: forget_translated_dirfd_def Let_def upd_slot_def close_slot_slots)
  qed
qed

lemma entries_forget_any:
  assumes "dok B d"
  shows "entries (forget_translated_dirfd pid fd d) = {(q, n, p, g) \<in> entries d. \<not> (q = pid \<and> n = fd)}"
proof (cases "0 \<le> fd")
  case True
  with assms show ?thesis by (rule entries_forget)
next
  case False
  moreover have "inited d" using assms by (simp add: dok_def)
  ultimately have "forget_translated_dirfd pid fd d = d"
    by (simp add: forget_translated_dirfd_def dirfd_cache_slot_def)
  with False show ?thesis by (auto simp: entries_def)
qed

text \<open>Clearing a process, one slot at a time: entries of others stay, its own go.\<close>

lemma clear_loop:
  assumes "dok B d" "n \<le> DIRFD_CACHE_SIZE" "pid \<noteq> 0"
  defines "d' \<equiv> fold (clear_at pid) [0..<n] d"
  shows "dok B d' \<and> (\<forall>x. fst x \<noteq> pid \<longrightarrow> (x \<in> entries d' \<longleftrightarrow> x \<in> entries d)) \<and>
    entries d' \<subseteq> entries d \<and> (\<forall>i<n. s_pid (slots d' ! i) \<noteq> pid \<or> s_fd (slots d' ! i) < 0)"
  using assms(2) unfolding d'_def
proof (induction n)
  case 0
  with assms(1) show ?case by simp
next
  case (Suc n)
  let ?e = "fold (clear_at pid) [0..<n] d"
  have e: "dok B ?e" "\<forall>x. fst x \<noteq> pid \<longrightarrow> (x \<in> entries ?e \<longleftrightarrow> x \<in> entries d)"
    "entries ?e \<subseteq> entries d" "\<forall>i<n. s_pid (slots ?e ! i) \<noteq> pid \<or> s_fd (slots ?e ! i) < 0"
    using Suc by auto
  show ?case
  proof (cases "s_pid (slots ?e ! n) = pid")
    case False
    then have "clear_at pid n ?e = ?e" by (simp add: clear_at_def)
    with e False show ?thesis by (simp add: less_Suc_eq)
  next
    case True
    let ?fd = "s_fd (slots ?e ! n)"
    let ?f = "forget_translated_dirfd pid ?fd ?e"
    have c: "clear_at pid n ?e = ?f" using True by (simp add: clear_at_def)
    have f: "entries ?f = {(q, m, p, g) \<in> entries ?e. \<not> (q = pid \<and> m = ?fd)}"
      by (rule entries_forget_any [OF e(1)])
    have df: "dok B ?f" by (rule dok_forget [OF e(1)])
    have len: "length (slots ?f) = DIRFD_CACHE_SIZE" "length (slots ?e) = DIRFD_CACHE_SIZE"
      using df e(1) by (simp_all add: dok_def)
    have gone: "s_pid (slots ?f ! i) \<noteq> pid \<or> s_fd (slots ?f ! i) < 0" if "i < Suc n" for i
    proof (rule ccontr)
      assume "\<not> ?thesis"
      then have i: "s_pid (slots ?f ! i) = pid" "0 \<le> s_fd (slots ?f ! i)" by auto
      have il: "i < DIRFD_CACHE_SIZE" using that Suc.prems by simp
      have "slots ?f ! i = slots ?e ! i \<or> s_fd (slots ?f ! i) < 0"
        by (rule forget_slot [OF e(1) il])
      with i have eq: "slots ?f ! i = slots ?e ! i" by auto
      have "(pid, s_fd (slots ?f ! i), s_proc_path (slots ?f ! i), s_guest_dir (slots ?f ! i)) \<in> entries ?f"
        using i il len unfolding entries_iff slot_matches_def by (intro exI [of _ i]) simp
      then have "s_fd (slots ?f ! i) \<noteq> ?fd" unfolding f by auto
      with eq have "i \<noteq> n" by auto
      with that e(4) have "s_pid (slots ?e ! i) \<noteq> pid \<or> s_fd (slots ?e ! i) < 0" by auto
      with i eq show False by auto
    qed
    have "\<forall>x. fst x \<noteq> pid \<longrightarrow> (x \<in> entries ?f \<longleftrightarrow> x \<in> entries d)" "entries ?f \<subseteq> entries d"
      using e(2,3) unfolding f by auto
    with df gone show ?thesis by (simp add: c)
  qed
qed

lemma entries_clear:
  assumes "dok B d" "pid \<noteq> 0"
  shows "x \<in> entries (clear_translated_dirfds pid d) \<longleftrightarrow> x \<in> entries d \<and> fst x \<noteq> pid"
proof -
  have l: "length (slots (clear_translated_dirfds pid d)) = DIRFD_CACHE_SIZE"
    using dok_clear [OF assms(1)] by (simp add: dok_def)
  note c = clear_loop [OF assms(1) order_refl assms(2)]
  have "(pid, n, p, g) \<notin> entries (clear_translated_dirfds pid d)" for n p g
    using c l unfolding clear_translated_dirfds_def entries_iff slot_matches_def by auto
  then have "fst x = pid \<Longrightarrow> x \<notin> entries (clear_translated_dirfds pid d)"
    by (cases x) auto
  with c show ?thesis unfolding clear_translated_dirfds_def by blast
qed

section \<open>Inheritance\<close>

lemma entries_dup: "dok B d \<Longrightarrow> dup_cloexec fd d = (k, d') \<Longrightarrow> entries d' = entries d"
  using dok_dup(2) by (simp add: entries_def)

lemma entries_remember_sub:
  assumes "dok B d" "length p < PATH_MAX" "length g < PATH_MAX"
  shows "entries (remember_translated_dirfd pid fd p g d) \<subseteq> insert (pid, fd, p, g) (entries d)"
proof (cases "fd < 0 \<or> c_at p 0 \<noteq> slash \<or> c_at g 0 \<noteq> slash")
  case True
  then show ?thesis by (auto simp: remember_translated_dirfd_def)
next
  case False
  with assms entries_remember(2) [of B d fd p g pid] show ?thesis by auto
qed

lemma entries_copy_entry:
  assumes "dok B d" "length p < PATH_MAX" "length g < PATH_MAX"
  shows "entries (case dup_cloexec fd d of (h, d) \<Rightarrow>
      attach_host_dirfd pid gfd h (remember_translated_dirfd pid gfd p g d))
    \<subseteq> insert (pid, gfd, p, g) (entries d)"
proof (cases "dup_cloexec fd d")
  case (Pair h d1)
  obtain B1 where d1: "dok B1 d1"
    using dok_dup(1) [OF assms(1) Pair] assms(1) by (cases "0 \<le> h") auto
  have "entries (attach_host_dirfd pid gfd h (remember_translated_dirfd pid gfd p g d1)) =
      entries (remember_translated_dirfd pid gfd p g d1)"
    by (rule entries_attach [OF dok_remember [OF d1]])
  also have "\<dots> \<subseteq> insert (pid, gfd, p, g) (entries d1)"
    by (rule entries_remember_sub [OF d1 assms(2,3)])
  finally show ?thesis using Pair entries_dup [OF assms(1) Pair] by simp
qed

text \<open>What an entry of the child may be: a copy of an entry of the parent.\<close>

definition inherited :: "int \<Rightarrow> int \<Rightarrow> dirfds \<Rightarrow> dirfds \<Rightarrow> bool" where
  "inherited parent child d e \<longleftrightarrow> (\<forall>(q, n, p, g) \<in> entries e.
     if q = child then (parent, n, p, g) \<in> entries d else (q, n, p, g) \<in> entries d)"

lemma inherited_at:
  assumes "dok B e" "inherited parent child d e" "i < DIRFD_CACHE_SIZE" "parent \<noteq> child"
    and "\<forall>(q, n, p, g) \<in> entries d. length p < PATH_MAX \<and> length g < PATH_MAX"
  shows "inherited parent child d (inherit_at parent child i e)"
proof -
  let ?s = "slots e ! i"
  let ?c = "case dup_cloexec (s_host_fd ?s) e of (h, e) \<Rightarrow>
      attach_host_dirfd child (s_fd ?s) h
        (remember_translated_dirfd child (s_fd ?s) (s_proc_path ?s) (s_guest_dir ?s) e)"
  consider "s_pid ?s \<noteq> parent" | (neg) "s_fd ?s < 0" "s_pid ?s = parent"
    | (pos) "0 \<le> s_fd ?s" "s_pid ?s = parent" by linarith
  then show ?thesis
  proof cases
    case 1
    with assms(2) show ?thesis by (simp add: inherit_at_def Let_def)
  next
    case neg
    obtain h e1 where dup: "dup_cloexec (s_host_fd ?s) e = (h, e1)" by fastforce
    obtain B1 where e1: "dok B1 e1"
      using dok_dup(1) [OF assms(1) dup] assms(1) by (cases "0 \<le> h") auto
    have r: "remember_translated_dirfd child (s_fd ?s) (s_proc_path ?s) (s_guest_dir ?s) e1 = e1"
      using neg by (simp add: remember_translated_dirfd_def)
    have "entries (inherit_at parent child i e) = entries e"
      using neg(2) dup r entries_attach [OF e1] entries_dup [OF assms(1) dup]
      by (simp add: inherit_at_def Let_def)
    with assms(2) show ?thesis by (simp add: inherited_def)
  next
    case pos
    have len: "length (slots e) = DIRFD_CACHE_SIZE" using assms(1) by (simp add: dok_def)
    have "(parent, s_fd ?s, s_proc_path ?s, s_guest_dir ?s) \<in> entries e"
      using pos assms(3) len unfolding entries_iff slot_matches_def by (intro exI [of _ i]) simp
    with assms(2,4) have src: "(parent, s_fd ?s, s_proc_path ?s, s_guest_dir ?s) \<in> entries d"
      by (auto simp: inherited_def)
    with assms(5) have "length (s_proc_path ?s) < PATH_MAX" "length (s_guest_dir ?s) < PATH_MAX" by auto
    from entries_copy_entry [OF assms(1) this]
    have "entries ?c \<subseteq> insert (child, s_fd ?s, s_proc_path ?s, s_guest_dir ?s) (entries e)" .
    moreover have "inherit_at parent child i e = ?c"
      using pos by (simp add: inherit_at_def Let_def)
    ultimately have sub: "entries (inherit_at parent child i e) \<subseteq>
        insert (child, s_fd ?s, s_proc_path ?s, s_guest_dir ?s) (entries e)" by simp
    show ?thesis unfolding inherited_def
    proof
      fix x assume "x \<in> entries (inherit_at parent child i e)"
      with sub have "x = (child, s_fd ?s, s_proc_path ?s, s_guest_dir ?s) \<or> x \<in> entries e" by blast
      with assms(2) src show "case x of (q, n, p, g) \<Rightarrow>
          if q = child then (parent, n, p, g) \<in> entries d else (q, n, p, g) \<in> entries d"
        unfolding inherited_def by auto
    qed
  qed
qed

lemma inherited_all:
  assumes "dok B d" "parent \<noteq> child" "child \<noteq> 0"
    and "\<forall>(q, n, p, g) \<in> entries d. length p < PATH_MAX \<and> length g < PATH_MAX"
  shows "inherited parent child d (inherit_translated_dirfds parent child d)"
proof -
  let ?s = "clear_translated_dirfds child d"
  have "dok B (fold (inherit_at parent child) [0..<n] ?s) \<and>
      inherited parent child d (fold (inherit_at parent child) [0..<n] ?s)"
    if "n \<le> DIRFD_CACHE_SIZE" for n
    using that
  proof (induction n)
    case 0
    then show ?case
      using entries_clear [OF assms(1,3)] dok_clear [OF assms(1)] by (auto simp: inherited_def)
  next
    case (Suc n)
    let ?e = "fold (inherit_at parent child) [0..<n] ?s"
    have "dok B (inherit_at parent child n ?e)"
      using Suc by (simp add: dok_inherit_at)
    with Suc inherited_at [of B ?e parent child d n] assms show ?case by simp
  qed
  moreover have "inited d" using assms(1) by (simp add: dok_def)
  ultimately show ?thesis unfolding inherit_translated_dirfds_def by simp
qed

section \<open>The table as an interface\<close>

text \<open>What any table of names for the descriptors of processes promises; \<open>Procfd_Spec\<close> has another one.\<close>

locale fd_table =
  fixes tinv :: "'t \<Rightarrow> bool"
    and get :: "'t \<Rightarrow> int \<Rightarrow> int \<Rightarrow> 'v option"
    and forget :: "int \<Rightarrow> int \<Rightarrow> 't \<Rightarrow> 't"
    and remember :: "int \<Rightarrow> int \<Rightarrow> 'v \<Rightarrow> 't \<Rightarrow> 't"
  assumes inv_forget: "tinv t \<Longrightarrow> tinv (forget pid fd t)"
    and inv_remember: "tinv t \<Longrightarrow> tinv (remember pid fd v t)"
    and get_forget: "tinv t \<Longrightarrow>
      get (forget pid fd t) q n = (if q = pid \<and> n = fd then None else get t q n)"
    and get_remember_other: "tinv t \<Longrightarrow> q \<noteq> pid \<or> n \<noteq> fd \<Longrightarrow>
      get (remember pid fd v t) q n = Some x \<Longrightarrow> get t q n = Some x"
begin

lemma inv_remembers:
  "tinv t \<Longrightarrow> tinv (fold (\<lambda>(q, n, v). remember q n v) es t)"
  by (induction es arbitrary: t) (auto simp: inv_remember)

lemma absent_stays:
  "tinv t \<Longrightarrow> get t pid fd = None \<Longrightarrow> \<forall>(q, n, v) \<in> set es. q \<noteq> pid \<or> n \<noteq> fd \<Longrightarrow>
    get (fold (\<lambda>(q, n, v). remember q n v) es t) pid fd = None"
proof (induction es arbitrary: t)
  case (Cons e es)
  obtain q n v where e: "e = (q, n, v)" by (cases e) auto
  have "get (remember q n v t) pid fd = None"
    using Cons.prems e get_remember_other [of t pid q fd n v] by (cases "get (remember q n v t) pid fd") auto
  with Cons e show ?case by (auto simp: inv_remember)
qed simp

lemma closed_not_found:
  assumes "tinv t" "\<forall>(q, n, v) \<in> set es. q \<noteq> pid \<or> n \<noteq> fd"
  shows "get (fold (\<lambda>(q, n, v). remember q n v) es (forget pid fd t)) pid fd = None"
  using assms by (intro absent_stays) (auto simp: inv_forget get_forget)

end

lemma dlookup_set_eq:
  assumes "dok B d" "dok C e"
    and "\<And>p g. (pid, fd, p, g) \<in> entries d \<longleftrightarrow> (qid, n, p, g) \<in> entries e"
  shows "dlookup d pid fd = dlookup e qid n"
proof -
  have "dlookup d pid fd = Some (p, g) \<longleftrightarrow> dlookup e qid n = Some (p, g)" for p g
    unfolding dlookup_entries [OF assms(1)] dlookup_entries [OF assms(2)] by (rule assms(3))
  then show ?thesis by (metis not_Some_eq surj_pair)
qed

lemma dlookup_forget:
  assumes "dok B d"
  shows "dlookup (forget_translated_dirfd pid fd d) q n =
    (if q = pid \<and> n = fd then None else dlookup d q n)"
proof (cases "q = pid \<and> n = fd")
  case True
  then have "(q, n, p, g) \<notin> entries (forget_translated_dirfd pid fd d)" for p g
    by (simp add: entries_forget_any [OF assms])
  with True dlookup_entries [OF dok_forget [OF assms]] show ?thesis
    by (cases "dlookup (forget_translated_dirfd pid fd d) q n") auto
next
  case False
  have "dlookup (forget_translated_dirfd pid fd d) q n = dlookup d q n"
    using False by (intro dlookup_set_eq [OF dok_forget [OF assms] assms])
      (simp add: entries_forget_any [OF assms])
  with False show ?thesis by auto
qed

lemma entries_remember_other:
  assumes "dok B d" "q \<noteq> pid \<or> n \<noteq> fd" "(q, n, x, y) \<in> entries (remember_translated_dirfd pid fd p g d)"
  shows "(q, n, x, y) \<in> entries d"
proof (cases "fd < 0 \<or> c_at p 0 \<noteq> slash \<or> c_at g 0 \<noteq> slash")
  case True
  with assms show ?thesis by (auto simp: remember_translated_dirfd_def)
next
  case False
  obtain r d1 where look: "dirfd_cache_slot pid fd d = (r, d1)" by fastforce
  note e = entries_slot [OF assms(1) look] and d1 = dok_slot [OF assms(1) look]
  obtain i d2 where "remember_translated_dirfd pid fd p g d = d1 \<or>
     remember_translated_dirfd pid fd p g d = set_slot pid fd p g i d2 \<and>
     dok B d2 \<and> entries d2 = entries d \<and> i < DIRFD_CACHE_SIZE"
  proof (cases r)
    case None
    let ?d = "d1\<lparr>dnext := (dnext d1 + 1) mod DIRFD_CACHE_SIZE\<rparr>"
    have i: "dnext d1 < DIRFD_CACHE_SIZE" "dnext d1 < length (slots d1)" using d1 by (simp_all add: dok_def)
    have "dok B ?d" using d1 by (simp add: dok_def DIRFD_CACHE_SIZE_def)
    from dok_close_slot(1) [OF this i(1)] that [of "dnext d1" "close_host_dirfd_slot (dnext d1) ?d"]
      i e False look None show ?thesis
      by (simp add: remember_translated_dirfd_def Let_def)
  next
    case (Some i)
    have i: "i < DIRFD_CACHE_SIZE" using slot_lookup(2) [OF assms(1) look Some] by blast
    then have il: "i < length (slots d1)" using d1 by (simp add: dok_def)
    have "entries (close_host_dirfd_slot i d1) = entries d" using il e by simp
    with that [of i "close_host_dirfd_slot i d1"] dok_close_slot(1) [OF d1 i] i False look Some
    show ?thesis by (simp add: remember_translated_dirfd_def)
  qed
  then show ?thesis
  proof
    assume "remember_translated_dirfd pid fd p g d = d1"
    with e assms(3) show ?thesis by simp
  next
    assume w: "remember_translated_dirfd pid fd p g d = set_slot pid fd p g i d2 \<and>
      dok B d2 \<and> entries d2 = entries d \<and> i < DIRFD_CACHE_SIZE"
    then have "dok B (set_slot pid fd p g i d2)"
      using dok_remember [OF assms(1), of pid fd p g] by simp
    from entries_set_slot [OF this] w False
    have "(q, n, x, y) \<in> {(q, n, p, g) \<in> entries d. \<not> slot_matches q n (slots d2 ! i)} \<union>
        {(pid, fd, take (PATH_MAX - 1) p, take (PATH_MAX - 1) g)}"
      using assms(3) by simp
    with assms(2) show ?thesis by blast
  qed
qed

interpretation dirfd: fd_table "dok B" dlookup forget_translated_dirfd
  "\<lambda>pid fd v. remember_translated_dirfd pid fd (fst v) (snd v)" for B
proof
  fix t pid fd q n and v x :: "string \<times> string"
  assume t: "dok B t"
  show "dok B (forget_translated_dirfd pid fd t)" by (rule dok_forget [OF t])
  show "dok B (remember_translated_dirfd pid fd (fst v) (snd v) t)" by (rule dok_remember [OF t])
  show "dlookup (forget_translated_dirfd pid fd t) q n =
      (if q = pid \<and> n = fd then None else dlookup t q n)" by (rule dlookup_forget [OF t])
  assume ne: "q \<noteq> pid \<or> n \<noteq> fd" and s: "dlookup (remember_translated_dirfd pid fd (fst v) (snd v) t) q n = Some x"
  obtain a b where x: "x = (a, b)" by (cases x)
  show "dlookup t q n = Some x"
    using entries_remember_other [OF t ne] s dlookup_entries [OF t]
      dlookup_entries [OF dok_remember [OF t]] unfolding x by blast
qed

section \<open>Properties\<close>

text \<open>The operations of the cache that the rest of the tracer calls.\<close>

datatype dirfd_op =
  Forget int int | Forget_range int nat nat | Clear int | Remember int int string string
| Attach_new int int ident | Copy int int int | Inherit int int

text \<open>\<open>Attach_new\<close> stands for \<open>ensure_host_dirfd\<close> on a slot without a descriptor: open, attach.\<close>

definition run_dirfd_op :: "dirfd_op \<Rightarrow> dirfds \<Rightarrow> dirfds" where
  "run_dirfd_op op d =
     (case op of
        Forget pid fd \<Rightarrow> forget_translated_dirfd pid fd d
      | Forget_range pid a b \<Rightarrow> forget_translated_dirfds_range pid a b d
      | Clear pid \<Rightarrow> clear_translated_dirfds pid d
      | Remember pid fd p g \<Rightarrow> remember_translated_dirfd pid fd p g d
      | Attach_new pid fd ident \<Rightarrow>
          (case dirfd_cache_slot pid fd d of
             (None, d) \<Rightarrow> d
           | (Some i, d) \<Rightarrow>
               snd (ensure_host_dirfd \<lparr>k_open_dir = (\<lambda>_ _. Some ident), k_stat_fd = (\<lambda>_ _. None),
                      k_kcmp = (\<lambda>_ _ _. KCMP_ENOSYS)\<rparr> i pid fd d))
      | Copy pid s t \<Rightarrow> copy_translated_dirfd pid s t d
      | Inherit p c \<Rightarrow> inherit_translated_dirfds p c d)"

lemma dok_run_op: "dok B d \<Longrightarrow> dok B (run_dirfd_op op d)"
proof (cases op)
  case (Attach_new pid fd ident)
  assume d: "dok B d"
  obtain r d1 where look: "dirfd_cache_slot pid fd d = (r, d1)" by fastforce
  have "dok B d1" using dok_slot [OF d look] .
  then have "dok B (snd (ensure_host_dirfd k i pid fd d1))" for k i
    using dok_ensure by (metis surjective_pairing)
  with Attach_new look \<open>dok B d1\<close> show ?thesis by (cases r) (simp_all add: run_dirfd_op_def)
qed (simp_all add: run_dirfd_op_def dok_forget dok_forget_range dok_clear dok_remember dok_copy dok_inherit)

text \<open>The descriptors that are open in the tracer.\<close>

definition opened_fds :: "ident option list \<Rightarrow> int set" where
  "opened_fds f = {fd. fd_ident f fd \<noteq> None}"

lemma dok_run_ops: "dok B d \<Longrightarrow> dok B (fold run_dirfd_op ops d)"
  by (induction ops arbitrary: d) (simp_all add: dok_run_op)

text \<open>
  C8: descriptor ownership. Whatever descriptors are open in the tracer at first, after any
  sequence of cache operations the open descriptors are exactly those and the ones held in the
  slots, no descriptor is held by two slots and none of the first ones is held by a slot: nothing
  leaks, nothing is closed twice, and no descriptor of somebody else is closed. A pair (process,
  descriptor) has at most one slot.
\<close>

theorem dirfd_ownership:
  "let d = fold run_dirfd_op ops (dirfd_cache_init (dirfds_start opened lim)) in
     unique_keys (slots d) \<and> owned_once (slots d) \<and> owned (slots d) \<inter> opened_fds opened = {} \<and>
     opened_fds (fds d) = opened_fds opened \<union> owned (slots d)"
proof -
  have "dok (opened_fds opened) (dirfd_cache_init (dirfds_start opened lim))"
    by (rule dok_start) (simp add: opened_fds_def)
  from dok_run_ops [OF this, of ops] show ?thesis
    by (auto simp: Let_def dok_def opened_fds_def)
qed

text \<open>
  A descriptor that was closed is never found again through the cache, however many other
  descriptors are remembered afterwards, until its own number is remembered anew.
\<close>

theorem dirfd_closed_not_found:
  assumes "dok B d" "\<forall>(q, n, p, g) \<in> set es. q \<noteq> pid \<or> n \<noteq> fd"
  shows "dlookup (fold (\<lambda>(q, n, p, g). remember_translated_dirfd q n p g) es
           (forget_translated_dirfd pid fd d)) pid fd = None"
  using dirfd.closed_not_found [OF assms(1), of es] assms(2) by (simp add: split_def)

definition demo_cache :: dirfds where
  "demo_cache = remember_translated_dirfd 7 3 ''/r/a'' ''/a'' (dirfd_cache_init (dirfds_start [] 16))"

lemma demo_cache_ok: "dok {} demo_cache"
  unfolding demo_cache_def by (intro dok_remember dok_start) (simp add: fd_ident_def)

theorem dirfd_closed_not_found_witness:
  "dlookup (remember_translated_dirfd 7 4 ''/r/b'' ''/b'' (forget_translated_dirfd 7 3 demo_cache)) 7 3 = None"
  using dirfd_closed_not_found [OF demo_cache_ok, of "[(7, 4, ''/r/b'', ''/b'')]" 7 3] by simp

text \<open>
  What \<open>remember_translated_dirfd\<close> stores is what the next lookup of the same pair returns,
  and it leaves no entry that was not there before.
\<close>

theorem dirfd_remember_lookup:
  assumes "dok B d" "0 \<le> fd" "c_at p 0 = slash" "c_at g 0 = slash"
    "length p < PATH_MAX" "length g < PATH_MAX"
  shows "dlookup (remember_translated_dirfd pid fd p g d) pid fd = Some (p, g) \<and>
    entries (remember_translated_dirfd pid fd p g d) \<subseteq> insert (pid, fd, p, g) (entries d)"
  using entries_remember [OF assms] dlookup_entries [OF dok_remember [OF assms(1)]] by blast

theorem dirfd_remember_lookup_witness:
  "dlookup (remember_translated_dirfd 7 4 ''/r/b'' ''/b'' demo_cache) 7 4 = Some (''/r/b'', ''/b'')"
  using dirfd_remember_lookup [OF demo_cache_ok, of 4 "''/r/b''" "''/b''" 7]
  by (simp add: PATH_MAX_def)

text \<open>
  After a fork every entry of the child is a copy of the entry of the parent for the same
  descriptor, and the entries of all other processes were there before: the loop that reads and
  writes the table at the same time never mixes two directories up.
\<close>

theorem dirfd_inherit_sound:
  assumes "dok B d" "parent \<noteq> child" "child \<noteq> 0"
    and "\<forall>(q, n, p, g) \<in> entries d. length p < PATH_MAX \<and> length g < PATH_MAX"
  shows "\<forall>(q, n, p, g) \<in> entries (inherit_translated_dirfds parent child d).
     if q = child then (parent, n, p, g) \<in> entries d else (q, n, p, g) \<in> entries d"
  using inherited_all [OF assms] unfolding inherited_def .

theorem dirfd_inherit_sound_witness:
  "(8, 3, ''/r/b'', ''/b'') \<notin> entries (inherit_translated_dirfds 7 8 demo_cache)"
proof
  assume b: "(8, 3, ''/r/b'', ''/b'') \<in> entries (inherit_translated_dirfds 7 8 demo_cache)"
  have "entries (dirfd_cache_init (dirfds_start [] 16)) = {}"
    by (auto simp: entries_def dirfd_cache_init_def dirfds_start_def)
  then have sub: "entries demo_cache \<subseteq> {(7, 3, ''/r/a'', ''/a'')}"
    using entries_remember(2) [OF dok_start [of "[]" "{}" 16], of 3 "''/r/a''" "''/a''" 7]
    unfolding demo_cache_def by (simp add: fd_ident_def PATH_MAX_def)
  have "\<forall>(q, n, p, g) \<in> entries demo_cache. length p < PATH_MAX \<and> length g < PATH_MAX"
  proof
    fix x assume "x \<in> entries demo_cache"
    from subsetD [OF sub this] have "x = (7, 3, ''/r/a'', ''/a'')" by (rule singletonD)
    then show "case x of (q, n, p, g) \<Rightarrow> length p < PATH_MAX \<and> length g < PATH_MAX"
      by (simp add: PATH_MAX_def)
  qed
  from dirfd_inherit_sound [OF demo_cache_ok _ _ this, of 7 8] b
  have "(7, 3, ''/r/b'', ''/b'') \<in> entries demo_cache" by fastforce
  from subsetD [OF sub this] show False by simp
qed

end
