(* ===== verification/Bindings.thy ===== *)
theory Bindings
  imports Path_Spec Dirfd
begin

text \<open>
  The binding table of \<^verbatim>\<open>src/path/binding.c\<close>. A \<open>Binding\<close> object is reached by its address in C;
  here it is a record in the store \<open>heap\<close>, and a list of bindings is a list of its addresses
  (natural numbers), so that one object may be in the guest, the host and the pending list, be
  covered by another one, and be changed while it is linked. \<open>Path.length\<close> is always the length
  of \<open>Path.path\<close> when a binding is linked and is read as such. A list head that is still NULL
  holds no binding. Allocations succeed; warnings are not modelled.
\<close>

section \<open>State\<close>

datatype mount_kind = BINDING_MOUNT_NONE | BINDING_MOUNT_TMPFS | BINDING_MOUNT_INTERNAL

record binding =
  host_path :: string
  guest_path :: string
  readonly :: bool
  source_readonly :: bool
  need_substitution :: bool
  mount_flags :: word_t
  source_mount_flags :: word_t
  mount_kind :: mount_kind
  covered :: "nat option"

text \<open>The file type bits of a \<open>mode_t\<close>; no type at all is the value 0.\<close>

datatype file_type = S_IFREG | S_IFDIR | S_IFLNK | S_IFBLK | S_IFCHR | S_IFIFO | S_IFSOCK

text \<open>The part of \<open>Tracee\<close> and of its \<open>FileSystemNameSpace\<close> that path translation uses.\<close>

record tracee =
  t_pid :: int
  exe :: "string option"
  cwd :: string
  cwd_alias_prefix :: "string option"
  proc_uid_map :: "string option"
  proc_gid_map :: "string option"
  proc_setgroups :: "string option"
  heap :: "nat \<Rightarrow> binding"
  next_addr :: nat
  guest :: "nat list option"
  host :: "nat list option"
  pending :: "nat list option"
  has_cache :: bool
  cache_entries :: "nat list option"
  cached_root :: "nat option"
  dircache :: dirfds
  glue :: "string option"
  glue_type :: "file_type option"
  placeholders :: "string list"
  openat2_resolve :: word_t
  openat2_oflags :: word_t

definition zero_binding :: binding where
  "zero_binding = \<lparr>host_path = [], guest_path = [], readonly = False, source_readonly = False,
     need_substitution = False, mount_flags = 0, source_mount_flags = 0,
     mount_kind = BINDING_MOUNT_NONE, covered = None\<rparr>"

definition blist :: "tracee \<Rightarrow> side \<Rightarrow> nat list" where
  "blist t s = (case (case s of GUEST \<Rightarrow> guest t | HOST \<Rightarrow> host t | PENDING \<Rightarrow> pending t) of
     None \<Rightarrow> [] | Some l \<Rightarrow> l)"

definition set_blist :: "side \<Rightarrow> nat list \<Rightarrow> tracee \<Rightarrow> tracee" where
  "set_blist s l t =
     (case s of GUEST \<Rightarrow> t\<lparr>guest := Some l\<rparr> | HOST \<Rightarrow> t\<lparr>host := Some l\<rparr> | PENDING \<Rightarrow> t\<lparr>pending := Some l\<rparr>)"

abbreviation gpath :: "tracee \<Rightarrow> nat \<Rightarrow> string" where
  "gpath t b \<equiv> guest_path (heap t b)"

abbreviation hpath :: "tracee \<Rightarrow> nat \<Rightarrow> string" where
  "hpath t b \<equiv> host_path (heap t b)"

section \<open>The cache of guest bindings\<close>

definition get_binding_cache :: "tracee \<Rightarrow> bool \<times> tracee" where
  "get_binding_cache t =
     (if guest t = None then (False, t) else (True, t\<lparr>has_cache := True\<rparr>))"

definition invalidate_binding_cache :: "tracee \<Rightarrow> tracee" where
  "invalidate_binding_cache t =
     (if guest t = None \<or> \<not> has_cache t then t
      else t\<lparr>cache_entries := None, cached_root := None,
             dircache := (if t_pid t > 0 then clear_translated_dirfds (t_pid t) (dircache t)
                          else dircache t)\<rparr>)"

text \<open>\<open>qsort(3)\<close> with \<open>compare_by_desc_length\<close>: longest guest path first.\<close>

definition sort_by_desc_length :: "tracee \<Rightarrow> nat list \<Rightarrow> nat list" where
  "sort_by_desc_length t l = sort_key (\<lambda>b. - int (length (gpath t b))) l"

definition build_guest_binding_cache :: "tracee \<Rightarrow> tracee" where
  "build_guest_binding_cache t =
     (case get_binding_cache t of (cache, t) \<Rightarrow>
        if \<not> cache \<or> cache_entries t \<noteq> None then t
        else if blist t GUEST = [] then t
        else t\<lparr>cache_entries := Some (sort_by_desc_length t (blist t GUEST))\<rparr>)"

definition guest_prefix_test :: "string \<Rightarrow> string \<Rightarrow> bool" where
  "guest_prefix_test g path \<longleftrightarrow>
     \<not> length g > length path \<and> c_at g 0 = c_at path 0 \<and>
     \<not> (length g > 1 \<and> length g < length path \<and> c_at path (length g) \<noteq> slash) \<and>
     take (length g) path = g"

definition find_best_prefix :: "tracee \<Rightarrow> string \<Rightarrow> nat option \<times> tracee" where
  "find_best_prefix t path =
     (case get_binding_cache t of (cache, t) \<Rightarrow>
        let t = (if cache \<and> cache_entries t = None then build_guest_binding_cache t else t) in
        if \<not> cache then (None, t)
        else case cache_entries t of
               None \<Rightarrow> (None, t)
             | Some es \<Rightarrow> (List.find (\<lambda>b. guest_prefix_test (gpath t b) path) es, t))"

section \<open>Lookup\<close>

definition side_path :: "side \<Rightarrow> binding \<Rightarrow> string" where
  "side_path s b = (if s = GUEST then guest_path b else host_path b)"

definition scan_bindings :: "tracee \<Rightarrow> side \<Rightarrow> string \<Rightarrow> nat option" where
  "scan_bindings t s path =
     List.find (\<lambda>b. let ref = side_path s (heap t b);
                        cmp = compare_paths2 ref (length ref) path (length path)
                    in cmp = PATHS_ARE_EQUAL \<or> cmp = PATH1_IS_PREFIX) (blist t s)"

definition get_binding :: "tracee \<Rightarrow> side \<Rightarrow> string \<Rightarrow> nat option \<times> tracee" where
  "get_binding t s path =
     (if c_at path 0 \<noteq> slash then (None, t)
      else if s = GUEST then
        (case find_best_prefix t path of
           (Some b, t) \<Rightarrow> (Some b, t)
         | (None, t) \<Rightarrow> (scan_bindings t GUEST path, t))
      else (scan_bindings t s path, t))"

definition get_path_binding :: "tracee \<Rightarrow> side \<Rightarrow> string \<Rightarrow> string option \<times> tracee" where
  "get_path_binding t s path =
     (case get_binding t s path of
        (None, t) \<Rightarrow> (None, t)
      | (Some b, t) \<Rightarrow> (Some (if s = GUEST then gpath t b else hpath t b), t))"

definition root_candidate :: "tracee \<Rightarrow> nat option" where
  "root_candidate t =
     (if blist t GUEST \<noteq> [] then Some (last (blist t GUEST))
      else if blist t PENDING \<noteq> [] then Some (last (blist t PENDING)) else None)"

definition get_root :: "tracee \<Rightarrow> string option \<times> tracee" where
  "get_root t =
     (case get_binding_cache t of (cache, t) \<Rightarrow>
        if cache \<and> cached_root t \<noteq> None then (Some (hpath t (the (cached_root t))), t)
        else case root_candidate t of
               None \<Rightarrow> (None, t)
             | Some b \<Rightarrow>
                 if compare_paths (gpath t b) ''/'' \<noteq> PATHS_ARE_EQUAL then (None, t)
                 else (Some (hpath t b), if cache then t\<lparr>cached_root := Some b\<rparr> else t))"

text \<open>
  The value of \<open>substitute_path_prefix\<close> is not looked at: when it reports \<open>ENAMETOOLONG\<close> the
  path is left as it was and the result is still 1.
\<close>

definition substitute_binding :: "tracee \<Rightarrow> side \<Rightarrow> string \<Rightarrow> nat res \<times> string \<times> tracee" where
  "substitute_binding t s path =
     (case get_binding t s path of
        (None, t) \<Rightarrow> (Inl ENOENT, path, t)
      | (Some b, t) \<Rightarrow>
          if \<not> need_substitution (heap t b) then (Inr 0, path, t)
          else
            let orig = (if s = GUEST then gpath t b else hpath t b);
                repl = (if s = GUEST then hpath t b else gpath t b)
            in case substitute_path_prefix path (length orig) repl (length repl) of
                 Inl Crash \<Rightarrow> (Inl Crash, path, t)
               | Inl _ \<Rightarrow> (Inr 1, path, t)
               | Inr (_, new) \<Rightarrow> (Inr 1, new, t))"

section \<open>Insertion and removal\<close>

definition unlink_from :: "side \<Rightarrow> nat \<Rightarrow> tracee \<Rightarrow> tracee" where
  "unlink_from s b t = (if b \<in> set (blist t s) then set_blist s (remove1 b (blist t s)) t else t)"

definition remove_binding_from_all_lists :: "nat \<Rightarrow> tracee \<Rightarrow> tracee" where
  "remove_binding_from_all_lists b t =
     unlink_from HOST b (unlink_from GUEST b (unlink_from PENDING b (invalidate_binding_cache t)))"

fun insert_after :: "nat \<Rightarrow> nat \<Rightarrow> nat list \<Rightarrow> nat list" where
  "insert_after p b [] = []"
| "insert_after p b (x # xs) = (if x = p then x # b # xs else x # insert_after p b xs)"

fun insert_before :: "nat \<Rightarrow> nat \<Rightarrow> nat list \<Rightarrow> nat list" where
  "insert_before n b [] = []"
| "insert_before n b (x # xs) = (if x = n then b # x # xs else x # insert_before n b xs)"

datatype insort_place = Duplicate_of nat | Place "nat option" "nat option"

definition order_path :: "side \<Rightarrow> binding \<Rightarrow> string" where
  "order_path s b = (if s = GUEST \<or> s = PENDING then guest_path b else host_path b)"

definition order_cmp :: "tracee \<Rightarrow> side \<Rightarrow> nat \<Rightarrow> nat \<Rightarrow> comparison" where
  "order_cmp t s b it =
     compare_paths2 (order_path s (heap t b)) (length (order_path s (heap t b)))
                    (order_path s (heap t it)) (length (order_path s (heap t it)))"

text \<open>The loop of \<open>insort_binding\<close>, with its \<open>prev\<close>, \<open>next\<close> and the first element \<open>f\<close>.\<close>

fun insort_scan :: "tracee \<Rightarrow> side \<Rightarrow> nat \<Rightarrow> nat option \<Rightarrow> nat option \<Rightarrow> nat option \<Rightarrow> nat list \<Rightarrow> insort_place" where
  "insort_scan t s b f prev nxt [] = Place prev nxt"
| "insort_scan t s b f prev nxt (it # its) =
     (let cmp = order_cmp t s b it in
      if cmp = PATHS_ARE_EQUAL then
        (if s = HOST then Place (Some it) nxt else Duplicate_of it)
      else insort_scan t s b f
             (if cmp = PATH1_IS_PREFIX then Some it else prev)
             (if cmp = PATH2_IS_PREFIX \<and> nxt = f then Some it else nxt) its)"

definition list_first :: "nat list \<Rightarrow> nat option" where
  "list_first l = (if l = [] then None else Some (hd l))"

definition insort_binding :: "side \<Rightarrow> nat \<Rightarrow> tracee \<Rightarrow> tracee" where
  "insort_binding s b t =
     (let t = (if s = GUEST then invalidate_binding_cache t else t);
          l = blist t s;
          f = list_first l
      in case insort_scan t s b f None f l of
           Duplicate_of it \<Rightarrow>
             let t = t\<lparr>heap := (heap t)(b := (heap t b)\<lparr>covered := Some it\<rparr>)\<rparr>
             in remove_binding_from_all_lists it (set_blist s (insert_after it b l) t)
         | Place (Some p) _ \<Rightarrow> set_blist s (insert_after p b l) t
         | Place None n \<Rightarrow>
             (if n \<noteq> f then set_blist s (insert_before (the n) b l) t
              else set_blist s (b # l) t))"

definition insort_binding2 :: "nat \<Rightarrow> tracee \<Rightarrow> tracee" where
  "insort_binding2 b t =
     (let t = t\<lparr>heap := (heap t)(b := (heap t b)\<lparr>need_substitution :=
                (compare_paths (hpath t b) (gpath t b) \<noteq> PATHS_ARE_EQUAL)\<rparr>)\<rparr>
      in insort_binding HOST b (insort_binding GUEST b t))"

definition remove_binding_and_restore_covered :: "nat \<Rightarrow> tracee \<Rightarrow> tracee" where
  "remove_binding_and_restore_covered b t =
     (let c = covered (heap t b);
          t = remove_binding_from_all_lists b t
      in case c of None \<Rightarrow> t | Some c \<Rightarrow> insort_binding2 c t)"

definition alloc_binding :: "binding \<Rightarrow> tracee \<Rightarrow> nat \<times> tracee" where
  "alloc_binding x t = (next_addr t, t\<lparr>heap := (heap t)(next_addr t := x), next_addr := next_addr t + 1\<rparr>)"

definition insort_binding4 :: "string \<Rightarrow> string \<Rightarrow> mount_kind \<Rightarrow> tracee \<Rightarrow> nat \<times> tracee" where
  "insort_binding4 hostp guestp kind t =
     (case alloc_binding (zero_binding\<lparr>host_path := hostp, guest_path := guestp, mount_kind := kind\<rparr>) t of
        (b, t) \<Rightarrow> (b, insort_binding2 b t))"

definition insort_binding3 :: "string \<Rightarrow> string \<Rightarrow> tracee \<Rightarrow> nat \<times> tracee" where
  "insort_binding3 hostp guestp t = insort_binding4 hostp guestp BINDING_MOUNT_NONE t"

definition copy_binding :: "nat \<Rightarrow> string \<Rightarrow> tracee \<Rightarrow> nat \<times> tracee" where
  "copy_binding b guestp t =
     (let x = heap t b in
      case insort_binding4 (host_path x) guestp (mount_kind x) t of
        (c, t) \<Rightarrow>
          (c, t\<lparr>heap := (heap t)(c := (heap t c)\<lparr>readonly := readonly x,
                 source_readonly := source_readonly x, mount_flags := mount_flags x,
                 source_mount_flags := source_mount_flags x\<rparr>)\<rparr>))"

text \<open>The destructor of a list head: it unlinks every binding and zeroes the head, its cache
  pointer included.\<close>

definition remove_bindings :: "side \<Rightarrow> tracee \<Rightarrow> tracee" where
  "remove_bindings s t =
     (let t = fold (unlink_from s) (blist t s) t in
      if s = GUEST then t\<lparr>has_cache := False, cache_entries := None, cached_root := None\<rparr> else t)"

text \<open>
  \<open>new_binding\<close> puts a binding of the command line in the pending list. What lies outside are
  the arguments \<open>resolve\<close> (\<open>realpath2\<close> in the configuration tracee: the status and the buffer it
  leaves), \<open>base\<close> (\<open>getcwd2\<close> there) and \<open>ignore_missing\<close> (the environment variable).
\<close>

definition is_proc_self :: "string \<Rightarrow> bool" where
  "is_proc_self p \<longleftrightarrow> prefix ''/proc/self'' p \<and> (c_at p 10 = slash \<or> c_at p 10 = NUL)"

definition new_binding ::
  "(string \<Rightarrow> bool \<times> string) \<Rightarrow> string res \<Rightarrow> bool \<Rightarrow> string \<Rightarrow> string option \<Rightarrow> bool \<Rightarrow> tracee
     \<Rightarrow> nat option \<times> tracee" where
  "new_binding resolve base ignore_missing hostp guestp must_exist t =
     (let t = (if pending t = None then t\<lparr>pending := Some []\<rparr> else t);
          hp = (if is_proc_self hostp
                then (if length hostp \<ge> PATH_MAX then Inl ENAMETOOLONG else Inr hostp)
                else case resolve hostp of (ok, buf) \<Rightarrow>
                  if \<not> ok \<and> must_exist \<and> \<not> ignore_missing then Inl ENOENT else Inr buf)
      in case hp of
           Inl _ \<Rightarrow> (None, t)
         | Inr hp \<Rightarrow>
             let g = (case guestp of None \<Rightarrow> hostp | Some g \<Rightarrow> g);
                 b = (if c_at g 0 \<noteq> slash then base else Inr ''/'')
             in case b of
                  Inl _ \<Rightarrow> (None, t)
                | Inr b \<Rightarrow>
                    (case join2 b g of
                       Inl _ \<Rightarrow> (None, t)
                     | Inr gp \<Rightarrow>
                         (case alloc_binding (zero_binding\<lparr>host_path := hp, guest_path := gp\<rparr>) t of
                            (a, t) \<Rightarrow> (Some a, insort_binding PENDING a t))))"

end
