(* ===== verification/Binding_Spec.thy ===== *)
theory Binding_Spec
  imports Bindings "HOL-Library.Multiset"
begin

text \<open>
  Correctness of the binding table: the cache is coherent with the guest list (\<open>bind_inv\<close>, kept
  by every operation), a guest lookup is a longest-prefix lookup whatever the order of the list,
  the order of the host list decides what a host lookup finds, and removing a replacement binding
  brings the covered one back.
\<close>

section \<open>Projections of the updates\<close>

lemma blist_set [simp]: "blist (set_blist s l t) s' = (if s' = s then l else blist t s')"
  by (cases s; cases s') (simp_all add: blist_def set_blist_def)

lemma blist_heap [simp]: "blist (t\<lparr>heap := h\<rparr>) s = blist t s"
  by (cases s) (simp_all add: blist_def)

lemma blist_next [simp]: "blist (t\<lparr>next_addr := n\<rparr>) s = blist t s"
  by (cases s) (simp_all add: blist_def)

lemma blist_cache [simp]:
  "blist (t\<lparr>has_cache := b\<rparr>) s = blist t s" "blist (t\<lparr>cache_entries := e\<rparr>) s = blist t s"
  "blist (t\<lparr>cached_root := r\<rparr>) s = blist t s" "blist (t\<lparr>dircache := d\<rparr>) s = blist t s"
  by (cases s; simp add: blist_def)+

lemma set_blist_fields [simp]:
  "heap (set_blist s l t) = heap t" "next_addr (set_blist s l t) = next_addr t"
  "cache_entries (set_blist s l t) = cache_entries t" "cached_root (set_blist s l t) = cached_root t"
  "has_cache (set_blist s l t) = has_cache t"
  by (cases s; simp add: set_blist_def)+

lemma guest_None_set [simp]: "guest (set_blist s l t) = None \<longleftrightarrow> guest t = None \<and> s \<noteq> GUEST"
  by (cases s) (simp_all add: set_blist_def)

lemma invalidate_simps [simp]:
  "blist (invalidate_binding_cache t) s = blist t s" "heap (invalidate_binding_cache t) = heap t"
  "next_addr (invalidate_binding_cache t) = next_addr t"
  "guest (invalidate_binding_cache t) = guest t" "host (invalidate_binding_cache t) = host t"
  "has_cache (invalidate_binding_cache t) = has_cache t"
  by (simp_all add: invalidate_binding_cache_def)

lemma insort_key_agree:
  "f x = g x \<Longrightarrow> (\<And>y. y \<in> set l \<Longrightarrow> f y = g y) \<Longrightarrow> insort_key f x l = insort_key g x l"
  by (induction l) auto

lemma sort_key_agree: "(\<And>y. y \<in> set l \<Longrightarrow> f y = g y) \<Longrightarrow> sort_key f l = sort_key g l"
  by (induction l) (auto intro!: insort_key_agree)

lemma sort_by_desc_length_cong:
  "(\<And>b. b \<in> set l \<Longrightarrow> gpath t b = gpath t' b) \<Longrightarrow> sort_by_desc_length t l = sort_by_desc_length t' l"
  unfolding sort_by_desc_length_def by (rule sort_key_agree) simp

section \<open>The invariant\<close>

definition linked :: "tracee \<Rightarrow> nat set" where
  "linked t = set (blist t GUEST) \<union> set (blist t HOST) \<union> set (blist t PENDING)"

definition bind_inv :: "tracee \<Rightarrow> bool" where
  "bind_inv t \<longleftrightarrow>
     (\<forall>s. distinct (blist t s)) \<and> (\<forall>b\<in>linked t. b < next_addr t) \<and>
     (\<not> has_cache t \<longrightarrow> cache_entries t = None \<and> cached_root t = None) \<and>
     (guest t = None \<longrightarrow> \<not> has_cache t) \<and>
     (\<forall>es. cache_entries t = Some es \<longrightarrow> es = sort_by_desc_length t (blist t GUEST)) \<and>
     (\<forall>b. cached_root t = Some b \<longrightarrow> blist t GUEST \<noteq> [] \<longrightarrow>
        b = last (blist t GUEST) \<and> compare_paths (gpath t b) ''/'' = PATHS_ARE_EQUAL)"

text \<open>The part of the invariant that does not speak of the cache, and the state of the cache
  after an invalidation.\<close>

definition lists_ok :: "tracee \<Rightarrow> bool" where
  "lists_ok t \<longleftrightarrow> (\<forall>s. distinct (blist t s)) \<and> (\<forall>b\<in>linked t. b < next_addr t) \<and>
     (guest t = None \<longrightarrow> \<not> has_cache t)"

definition cache_empty :: "tracee \<Rightarrow> bool" where
  "cache_empty t \<longleftrightarrow> cache_entries t = None \<and> cached_root t = None"

lemma bind_inv_lists: "bind_inv t \<Longrightarrow> lists_ok t"
  by (simp add: bind_inv_def lists_ok_def)

lemma bind_inv_empty: "lists_ok t \<Longrightarrow> cache_empty t \<Longrightarrow> bind_inv t"
  by (simp add: bind_inv_def lists_ok_def cache_empty_def)

lemma cache_empty_simps [simp]:
  "cache_empty (set_blist s l t) = cache_empty t" "cache_empty (t\<lparr>heap := h\<rparr>) = cache_empty t"
  "cache_empty (t\<lparr>next_addr := n\<rparr>) = cache_empty t"
  by (simp_all add: cache_empty_def)

lemma cache_empty_invalidate:
  "bind_inv t \<Longrightarrow> cache_empty (invalidate_binding_cache t)"
  by (auto simp: bind_inv_def cache_empty_def invalidate_binding_cache_def)

lemma bind_inv_invalidate: "bind_inv t \<Longrightarrow> bind_inv (invalidate_binding_cache t)"
  by (rule bind_inv_empty) (auto simp: cache_empty_invalidate lists_ok_def linked_def bind_inv_def)

lemma get_cache_cases:
  "get_binding_cache t = (c, t') \<Longrightarrow> bind_inv t \<Longrightarrow>
     bind_inv t' \<and> heap t' = heap t \<and> (\<forall>s. blist t' s = blist t s) \<and> cache_entries t' = cache_entries t \<and>
     cached_root t' = cached_root t \<and> guest t' = guest t \<and> next_addr t' = next_addr t \<and>
     glue_type t' = glue_type t \<and> cwd_alias_prefix t' = cwd_alias_prefix t \<and> t_pid t' = t_pid t \<and>
     cwd t' = cwd t \<and> (c \<longleftrightarrow> guest t \<noteq> None)"
  by (auto simp: get_binding_cache_def bind_inv_def linked_def sort_by_desc_length_def split: if_splits)

lemma bind_inv_build: "bind_inv t \<Longrightarrow> bind_inv (build_guest_binding_cache t)"
  by (auto simp: build_guest_binding_cache_def get_binding_cache_def bind_inv_def linked_def
      sort_by_desc_length_def)

lemma build_same:
  "heap (build_guest_binding_cache t) = heap t" "blist (build_guest_binding_cache t) s = blist t s"
  "next_addr (build_guest_binding_cache t) = next_addr t"
  "guest (build_guest_binding_cache t) = guest t"
  "glue_type (build_guest_binding_cache t) = glue_type t"
  "cwd_alias_prefix (build_guest_binding_cache t) = cwd_alias_prefix t"
  "t_pid (build_guest_binding_cache t) = t_pid t" "cwd (build_guest_binding_cache t) = cwd t"
  by (simp_all add: build_guest_binding_cache_def get_binding_cache_def)

text \<open>A lookup changes nothing but the cache.\<close>

definition same_table :: "tracee \<Rightarrow> tracee \<Rightarrow> bool" where
  "same_table t t' \<longleftrightarrow> heap t' = heap t \<and> (\<forall>s. blist t' s = blist t s) \<and> next_addr t' = next_addr t \<and>
     guest t' = guest t \<and> glue_type t' = glue_type t \<and> cwd_alias_prefix t' = cwd_alias_prefix t \<and>
     t_pid t' = t_pid t \<and> cwd t' = cwd t"

lemma find_best_prefix_spec:
  assumes "bind_inv t" "find_best_prefix t path = (r, t')"
  shows "bind_inv t'" "same_table t t'"
    "r = (if guest t = None \<or> blist t GUEST = [] then None
          else List.find (\<lambda>b. guest_prefix_test (gpath t b) path)
                 (sort_by_desc_length t (blist t GUEST)))"
proof -
  obtain c t1 where g: "get_binding_cache t = (c, t1)" by fastforce
  define t2 where "t2 = (if c \<and> cache_entries t1 = None then build_guest_binding_cache t1 else t1)"
  note t1 = get_cache_cases [OF g assms(1)]
  have t2: "bind_inv t2" "same_table t t2"
    using t1 by (auto simp: t2_def bind_inv_build build_same same_table_def)
  have f: "find_best_prefix t path = (if \<not> c then (None, t2) else case cache_entries t2 of
      None \<Rightarrow> (None, t2) | Some es \<Rightarrow> (List.find (\<lambda>b. guest_prefix_test (gpath t2 b) path) es, t2))"
    by (simp only: find_best_prefix_def g prod.case t2_def [symmetric] Let_def)
  have es: "cache_entries t2 =
      (if blist t GUEST = [] then cache_entries t2 else Some (sort_by_desc_length t (blist t GUEST)))" if c
  proof (cases "cache_entries t2")
    case None
    with that t1 have "blist t GUEST = []"
      by (auto simp: t2_def build_guest_binding_cache_def get_binding_cache_def split: if_splits)
    then show ?thesis by simp
  next
    case (Some es)
    with t2 show ?thesis by (auto simp: bind_inv_def same_table_def sort_by_desc_length_def)
  qed
  have em: "cache_entries t2 = None \<or> cache_entries t2 = Some []" if "blist t GUEST = []"
    using t2 that by (cases "cache_entries t2")
      (auto simp: bind_inv_def same_table_def sort_by_desc_length_def)
  have "t' = t2" using assms(2) f by (auto split: if_splits option.splits)
  with t2 show "bind_inv t'" "same_table t t'" by simp_all
  have h: "gpath t2 b = gpath t b" for b using t2 by (simp add: same_table_def)
  show "r = (if guest t = None \<or> blist t GUEST = [] then None
          else List.find (\<lambda>b. guest_prefix_test (gpath t b) path)
                 (sort_by_desc_length t (blist t GUEST)))"
  proof (cases "blist t GUEST = []")
    case True
    with em assms(2) f show ?thesis by (auto split: if_splits)
  next
    case False
    with es assms(2) f t1 show ?thesis unfolding h by (cases c) auto
  qed
qed

lemma scan_same: "same_table t t' \<Longrightarrow> scan_bindings t' s path = scan_bindings t s path"
  by (simp add: scan_bindings_def same_table_def)

lemma get_binding_spec:
  assumes "bind_inv t" "get_binding t s path = (r, t')"
  shows "bind_inv t'" "same_table t t'"
proof -
  have "bind_inv t' \<and> same_table t t'"
  proof (cases "c_at path 0 = slash \<and> s = GUEST")
    case True
    obtain r1 t1 where f: "find_best_prefix t path = (r1, t1)" by fastforce
    from True assms(2) f have "t' = t1" by (cases r1) (auto simp: get_binding_def)
    with find_best_prefix_spec [OF assms(1) f] show ?thesis by simp
  next
    case False
    with assms show ?thesis by (auto simp: get_binding_def same_table_def split: if_splits)
  qed
  then show "bind_inv t'" "same_table t t'" by auto
qed

lemma root_candidate_same: "same_table t t' \<Longrightarrow> root_candidate t' = root_candidate t"
  by (simp add: root_candidate_def same_table_def)

lemma get_root_spec:
  assumes "bind_inv t" "get_root t = (r, t')"
  shows "bind_inv t'" "same_table t t'"
    "blist t GUEST \<noteq> [] \<Longrightarrow> r = (if compare_paths (gpath t (last (blist t GUEST))) ''/'' = PATHS_ARE_EQUAL
       then Some (hpath t (last (blist t GUEST))) else None)"
proof -
  obtain c t1 where g: "get_binding_cache t = (c, t1)" by fastforce
  note t1 = get_cache_cases [OF g assms(1)]
  have st: "same_table t t1" using t1 by (simp add: same_table_def)
  have "bind_inv t' \<and> same_table t t' \<and> (blist t GUEST \<noteq> [] \<longrightarrow>
      r = (if compare_paths (gpath t (last (blist t GUEST))) ''/'' = PATHS_ARE_EQUAL
       then Some (hpath t (last (blist t GUEST))) else None))"
  proof (cases "c \<and> cached_root t1 \<noteq> None")
    case True
    then obtain b where b: "cached_root t1 = Some b" "c" by auto
    with assms(2) g have "r = Some (hpath t1 b)" "t' = t1" by (auto simp: get_root_def)
    with b t1 st assms(1) show ?thesis by (auto simp: bind_inv_def)
  next
    case False
    then have gr: "get_root t = (case root_candidate t1 of None \<Rightarrow> (None, t1)
      | Some b \<Rightarrow> if compare_paths (gpath t1 b) ''/'' \<noteq> PATHS_ARE_EQUAL then (None, t1)
                 else (Some (hpath t1 b), if c then t1\<lparr>cached_root := Some b\<rparr> else t1))"
      by (auto simp: get_root_def g)
    show ?thesis
    proof (cases "root_candidate t1")
      case None
      with gr assms(2) t1 st show ?thesis by (auto simp: root_candidate_def split: if_splits)
    next
      case (Some b)
      have last: "blist t GUEST \<noteq> [] \<Longrightarrow> b = last (blist t GUEST)"
        using Some t1 by (auto simp: root_candidate_def split: if_splits)
      have inv: "bind_inv (t1\<lparr>cached_root := Some b\<rparr>)"
        if c "compare_paths (gpath t1 b) ''/'' = PATHS_ARE_EQUAL"
        using t1 that last g unfolding bind_inv_def
        by (auto simp: linked_def sort_by_desc_length_def get_binding_cache_def split: if_splits)
      have "same_table t (t1\<lparr>cached_root := Some b\<rparr>)" using st by (simp add: same_table_def)
      with gr assms(2) Some t1 st last inv show ?thesis
        by (auto split: if_splits)
    qed
  qed
  then show "bind_inv t'" "same_table t t'"
    "blist t GUEST \<noteq> [] \<Longrightarrow> r = (if compare_paths (gpath t (last (blist t GUEST))) ''/'' = PATHS_ARE_EQUAL
       then Some (hpath t (last (blist t GUEST))) else None)" by blast+
qed

lemma substitute_binding_spec:
  assumes "bind_inv t" "substitute_binding t s path = (r, p, t')"
  shows "bind_inv t'" "same_table t t'"
proof -
  obtain b t1 where g: "get_binding t s path = (b, t1)" by fastforce
  from assms(2) g have "t' = t1"
    by (auto simp: substitute_binding_def Let_def split: option.splits if_splits sum.splits errno.splits)
  with get_binding_spec [OF assms(1) g] show "bind_inv t'" "same_table t t'" by simp_all
qed

section \<open>Insertion and removal keep the invariant\<close>

lemma set_insert_after: "p \<in> set l \<Longrightarrow> set (insert_after p b l) = insert b (set l)"
  by (induction p b l rule: insert_after.induct) auto

lemma insert_after_none: "p \<notin> set l \<Longrightarrow> insert_after p b l = l"
  by (induction p b l rule: insert_after.induct) auto

lemma insert_before_none: "p \<notin> set l \<Longrightarrow> insert_before p b l = l"
  by (induction p b l rule: insert_before.induct) auto

lemma distinct_insert_after: "distinct l \<Longrightarrow> b \<notin> set l \<Longrightarrow> distinct (insert_after p b l)"
proof (induction p b l rule: insert_after.induct)
  case (2 p b x xs)
  then show ?case
    by (cases "p \<in> set xs") (auto simp: set_insert_after insert_after_none)
qed simp

lemma set_insert_before: "p \<in> set l \<Longrightarrow> set (insert_before p b l) = insert b (set l)"
  by (induction p b l rule: insert_before.induct) auto

lemma distinct_insert_before: "distinct l \<Longrightarrow> b \<notin> set l \<Longrightarrow> distinct (insert_before p b l)"
proof (induction p b l rule: insert_before.induct)
  case (2 p b x xs)
  then show ?case
    by (cases "p \<in> set xs") (auto simp: set_insert_before insert_before_none)
qed simp

lemma insort_scan_cases:
  "insort_scan t s b f prev nxt l = r \<Longrightarrow>
    (case r of
       Duplicate_of it \<Rightarrow> it \<in> set l \<and> order_cmp t s b it = PATHS_ARE_EQUAL \<and> s \<noteq> HOST
     | Place p n \<Rightarrow> (p = prev \<or> (\<exists>it\<in>set l. p = Some it)) \<and> (n = nxt \<or> (\<exists>it\<in>set l. n = Some it)) \<and>
         (s \<noteq> HOST \<longrightarrow> (\<forall>it\<in>set l. order_cmp t s b it \<noteq> PATHS_ARE_EQUAL)))"
proof (induction t s b f prev nxt l arbitrary: r rule: insort_scan.induct)
  case (2 t s b f prev nxt it its)
  show ?case
  proof (cases "order_cmp t s b it = PATHS_ARE_EQUAL")
    case True
    with "2.prems" show ?thesis by (auto split: if_splits)
  next
    case False
    let ?p = "if order_cmp t s b it = PATH1_IS_PREFIX then Some it else prev"
    let ?n = "if order_cmp t s b it = PATH2_IS_PREFIX \<and> nxt = f then Some it else nxt"
    from False "2.prems" have "insort_scan t s b f ?p ?n its = r" by (simp add: Let_def)
    from "2.IH" [OF refl False this] False show ?thesis
      by (cases r) (auto split: if_splits)
  qed
qed auto

lemma unlink_blist [simp]:
  "blist (unlink_from s b t) s' = (if s' = s then remove1 b (blist t s) else blist t s')"
  by (simp add: unlink_from_def remove1_idem)

lemma unlink_fields [simp]:
  "heap (unlink_from s b t) = heap t" "next_addr (unlink_from s b t) = next_addr t"
  "cache_empty (unlink_from s b t) = cache_empty t"
  "has_cache (unlink_from s b t) = has_cache t"
  by (simp_all add: unlink_from_def)

lemma unlink_guest_None [simp]: "guest (unlink_from s b t) = None \<longleftrightarrow> guest t = None"
  by (auto simp: unlink_from_def blist_def split: option.splits)

lemma remove_all_blist [simp]:
  "blist (remove_binding_from_all_lists b t) s = remove1 b (blist t s)"
  by (cases s) (simp_all add: remove_binding_from_all_lists_def)

lemma remove_all_heap [simp]: "heap (remove_binding_from_all_lists b t) = heap t"
  "next_addr (remove_binding_from_all_lists b t) = next_addr t"
  by (simp_all add: remove_binding_from_all_lists_def)

lemma bind_inv_remove:
  assumes "bind_inv t" shows "bind_inv (remove_binding_from_all_lists b t)"
proof (rule bind_inv_empty)
  show "cache_empty (remove_binding_from_all_lists b t)"
    using cache_empty_invalidate [OF assms] by (simp add: remove_binding_from_all_lists_def)
  show "lists_ok (remove_binding_from_all_lists b t)"
    using assms unfolding lists_ok_def linked_def bind_inv_def
    by (auto simp: remove_binding_from_all_lists_def dest: notin_set_remove1)
qed

lemma insort_cases:
  assumes "b \<notin> set (blist t s)" "distinct (blist t s)"
  obtains (dup) it where "it \<in> set (blist t s)" "order_cmp t s b it = PATHS_ARE_EQUAL" "s \<noteq> HOST"
      "insort_binding s b t = remove_binding_from_all_lists it
         (set_blist s (insert_after it b (blist t s))
           ((if s = GUEST then invalidate_binding_cache t else t)
              \<lparr>heap := (heap t)(b := (heap t b)\<lparr>covered := Some it\<rparr>)\<rparr>))"
  | (placed) l where "set l = insert b (set (blist t s))" "distinct l"
      "insort_binding s b t = set_blist s l (if s = GUEST then invalidate_binding_cache t else t)"
      "s \<noteq> HOST \<Longrightarrow> \<forall>it\<in>set (blist t s). order_cmp t s b it \<noteq> PATHS_ARE_EQUAL"
proof -
  define t0 where "t0 = (if s = GUEST then invalidate_binding_cache t else t)"
  let ?l = "blist t s"
  have b: "blist t0 s = ?l" and h: "heap t0 = heap t" by (simp_all add: t0_def)
  have o: "order_cmp t0 s b it = order_cmp t s b it" for it by (simp add: order_cmp_def h)
  have ib: "insort_binding s b t =
     (case insort_scan t0 s b (list_first ?l) None (list_first ?l) ?l of
           Duplicate_of it \<Rightarrow> remove_binding_from_all_lists it
             (set_blist s (insert_after it b ?l) (t0\<lparr>heap := (heap t)(b := (heap t b)\<lparr>covered := Some it\<rparr>)\<rparr>))
         | Place (Some p) _ \<Rightarrow> set_blist s (insert_after p b ?l) t0
         | Place None n \<Rightarrow> if n \<noteq> list_first ?l then set_blist s (insert_before (the n) b ?l) t0
              else set_blist s (b # ?l) t0)"
    unfolding insort_binding_def Let_def t0_def [symmetric] b h ..
  note dup = dup [folded t0_def] and placed = placed [folded t0_def]
  show ?thesis
  proof (cases "insort_scan t0 s b (list_first ?l) None (list_first ?l) ?l")
    case (Duplicate_of it)
    from insort_scan_cases [OF Duplicate_of] o show ?thesis
      using Duplicate_of by (intro dup [of it]) (simp_all add: ib)
  next
    case (Place p n)
    note c = insort_scan_cases [OF Place]
    show ?thesis
    proof (cases p)
      case (Some q)
      then have "q \<in> set ?l" using c by auto
      with Some Place c o assms show ?thesis
        by (intro placed [of "insert_after q b ?l"])
          (simp_all add: ib set_insert_after distinct_insert_after)
    next
      case None
      show ?thesis
      proof (cases "n = list_first ?l")
        case True
        with None Place c o assms show ?thesis
          by (intro placed [of "b # ?l"]) (simp_all add: ib)
      next
        case False
        with c obtain q where q: "n = Some q" "q \<in> set ?l" by auto
        with None False Place c o assms show ?thesis
          by (intro placed [of "insert_before q b ?l"])
            (simp_all add: ib set_insert_before distinct_insert_before)
      qed
    qed
  qed
qed

lemma lists_ok_set:
  "lists_ok t \<Longrightarrow> distinct l \<Longrightarrow> (\<forall>x\<in>set l. x < next_addr t) \<Longrightarrow> lists_ok (set_blist s l t)"
  by (auto simp: lists_ok_def linked_def split: if_splits)

lemma lists_ok_heap: "lists_ok (t\<lparr>heap := h\<rparr>) = lists_ok t"
  by (simp add: lists_ok_def linked_def)

lemma lists_ok_invalidate: "lists_ok (invalidate_binding_cache t) = lists_ok t"
  by (simp add: lists_ok_def linked_def)

lemma lists_ok_remove: "lists_ok t \<Longrightarrow> lists_ok (remove_binding_from_all_lists b t)"
  by (auto simp: lists_ok_def linked_def remove_binding_from_all_lists_def dest: notin_set_remove1)

lemma insort_heap_gpath [simp]:
  "gpath (insort_binding s b t) x = gpath t x" "hpath (insort_binding s b t) x = hpath t x"
  "need_substitution (heap (insort_binding s b t) x) = need_substitution (heap t x)"
  "next_addr (insort_binding s b t) = next_addr t"
  by (simp_all add: insort_binding_def Let_def split: insort_place.split option.split)

lemma bind_inv_set_other:
  assumes "bind_inv t" "s \<noteq> GUEST" "distinct l" "\<forall>x\<in>set l. x < next_addr t"
  shows "bind_inv (set_blist s l t)"
proof -
  have "lists_ok (set_blist s l t)"
    using assms by (intro lists_ok_set) (simp_all add: bind_inv_lists)
  with assms(1,2) show ?thesis
    unfolding bind_inv_def lists_ok_def by (simp add: sort_by_desc_length_def)
qed

text \<open>An insertion keeps the invariant; with the cache, which only the guest list feeds.\<close>

lemma bind_inv_insort:
  assumes "bind_inv t" "b \<notin> set (blist t s)" "b < next_addr t" "s \<noteq> PENDING"
  shows "bind_inv (insort_binding s b t)"
proof -
  have l: "lists_ok t" using assms(1) by (rule bind_inv_lists)
  then have d: "distinct (blist t s)" and n: "\<forall>x\<in>set (blist t s). x < next_addr t"
    by (cases s; auto simp: lists_ok_def linked_def)+
  note ce = cache_empty_invalidate [OF assms(1)]
  from assms(2) d show ?thesis
  proof (cases rule: insort_cases)
    case (dup it)
    let ?t = "set_blist s (insert_after it b (blist t s))
      (invalidate_binding_cache t\<lparr>heap := (heap t)(b := (heap t b)\<lparr>covered := Some it\<rparr>)\<rparr>)"
    have s: "s = GUEST" using dup(3) assms(4) by (cases s) auto
    have "lists_ok ?t"
      using l d n assms(2,3) dup(1)
      by (intro lists_ok_set) (auto simp: lists_ok_heap lists_ok_invalidate distinct_insert_after set_insert_after)
    moreover have "cache_empty ?t" using ce by simp
    ultimately have "bind_inv ?t" by (rule bind_inv_empty)
    with dup(4) s show ?thesis by (simp add: bind_inv_remove)
  next
    case (placed l')
    then have n': "\<forall>x\<in>set l'. x < next_addr t" using n assms(3) by auto
    show ?thesis
    proof (cases "s = GUEST")
      case True
      then show ?thesis
        using placed l n' ce by (intro bind_inv_empty) (auto simp: lists_ok_set lists_ok_invalidate)
    next
      case False
      with placed n' assms(1) show ?thesis by (simp add: bind_inv_set_other)
    qed
  qed
qed

lemma bind_inv_heap:
  assumes "bind_inv t" "\<And>x. x \<in> linked t \<union> set_option (cached_root t) \<Longrightarrow> guest_path (h x) = gpath t x"
  shows "bind_inv (t\<lparr>heap := h\<rparr>)"
proof -
  have "sort_by_desc_length (t\<lparr>heap := h\<rparr>) (blist t GUEST) = sort_by_desc_length t (blist t GUEST)"
    using assms(2) by (intro sort_by_desc_length_cong) (simp add: linked_def)
  with assms show ?thesis unfolding bind_inv_def linked_def by simp
qed

lemma insort_blist:
  assumes "b \<notin> set (blist t s)" "distinct (blist t s)"
  shows "set (blist (insort_binding s b t) s') \<subseteq> (if s' = s then insert b (set (blist t s)) else set (blist t s'))"
  using assms
proof (rule insort_cases)
  fix it assume "it \<in> set (blist t s)" "insort_binding s b t = remove_binding_from_all_lists it
         (set_blist s (insert_after it b (blist t s))
           ((if s = GUEST then invalidate_binding_cache t else t)
              \<lparr>heap := (heap t)(b := (heap t b)\<lparr>covered := Some it\<rparr>)\<rparr>))"
  then show ?thesis by (auto simp: set_insert_after dest: subsetD [OF set_remove1_subset])
next
  fix l assume "set l = insert b (set (blist t s))"
    "insort_binding s b t = set_blist s l (if s = GUEST then invalidate_binding_cache t else t)"
  then show ?thesis by auto
qed

lemma bind_inv_insort2:
  assumes "bind_inv t" "b \<notin> set (blist t GUEST)" "b \<notin> set (blist t HOST)" "b < next_addr t"
  shows "bind_inv (insort_binding2 b t)"
proof -
  define t1 where "t1 = t\<lparr>heap := (heap t)(b := (heap t b)\<lparr>need_substitution :=
                (compare_paths (hpath t b) (gpath t b) \<noteq> PATHS_ARE_EQUAL)\<rparr>)\<rparr>"
  have t1: "bind_inv t1" unfolding t1_def using assms(1) by (rule bind_inv_heap) simp
  have "b \<notin> set (blist t1 GUEST)" "b < next_addr t1" using assms by (simp_all add: t1_def)
  with t1 have t2: "bind_inv (insort_binding GUEST b t1)" by (intro bind_inv_insort) auto
  have "distinct (blist t1 GUEST)" using t1 by (simp add: bind_inv_def)
  from insort_blist [of b t1 GUEST HOST, OF _ this] assms
  have "b \<notin> set (blist (insort_binding GUEST b t1) HOST)" by (auto simp: t1_def)
  moreover have "b < next_addr (insort_binding GUEST b t1)" using assms(4) by (simp add: t1_def)
  ultimately have "bind_inv (insort_binding HOST b (insort_binding GUEST b t1))"
    by (intro bind_inv_insort [OF t2]) simp_all
  then show ?thesis unfolding insort_binding2_def Let_def t1_def .
qed

lemma bind_inv_insort4:
  assumes "bind_inv t" "insort_binding4 hp gp k t = (b, t')"
  shows "bind_inv t'" "b = next_addr t"
proof -
  define x where "x = zero_binding\<lparr>host_path := hp, guest_path := gp, mount_kind := k\<rparr>"
  define t1 where "t1 = t\<lparr>heap := (heap t)(next_addr t := x), next_addr := next_addr t + 1\<rparr>"
  have new: "next_addr t \<notin> linked t" using assms(1) by (auto simp: bind_inv_def)
  have eq: "b = next_addr t" "t' = insort_binding2 (next_addr t) t1"
    using assms(2) by (auto simp: insort_binding4_def alloc_binding_def x_def t1_def)
  have "sort_by_desc_length t1 (blist t GUEST) = sort_by_desc_length t (blist t GUEST)"
    using new by (intro sort_by_desc_length_cong) (auto simp: t1_def linked_def)
  moreover have "last (blist t GUEST) \<noteq> next_addr t" if "blist t GUEST \<noteq> []"
    using new that last_in_set by (fastforce simp: linked_def)
  ultimately have "bind_inv t1"
    using assms(1) unfolding bind_inv_def t1_def linked_def by (auto simp: less_Suc_eq)
  with new eq show "bind_inv t'" "b = next_addr t"
    by (auto intro!: bind_inv_insort2 simp: linked_def t1_def)
qed

section \<open>A guest lookup is a longest-prefix lookup\<close>

lemma find_sorted_max:
  assumes "sorted (map f es)" "List.find P es = Some b"
  shows "b \<in> set es \<and> P b \<and> (\<forall>c\<in>set es. P c \<longrightarrow> f b \<le> f c)"
  using assms
proof (induction es)
  case (Cons e es)
  then show ?case by (cases "P e") auto
qed simp

lemma find_desc_length:
  assumes "List.find P (sort_by_desc_length t l) = Some b"
  shows "b \<in> set l \<and> P b \<and> (\<forall>c\<in>set l. P c \<longrightarrow> length (gpath t c) \<le> length (gpath t b))"
proof -
  from find_sorted_max [OF _ assms, of "\<lambda>b. - int (length (gpath t b))"]
  show ?thesis by (simp add: sort_by_desc_length_def)
qed

lemma find_None_sort: "List.find P (sort_by_desc_length t l) = None \<longleftrightarrow> (\<forall>b\<in>set l. \<not> P b)"
  by (auto simp: find_None_iff sort_by_desc_length_def)

lemma length_body_prefix: "prefix xs ys \<Longrightarrow> length (body xs) \<le> length (body ys)"
  by (auto simp: prefix_def)

lemma length_render_less:
  assumes "strict_prefix xs ys" "list_all comp_ok ys"
  shows "length (render xs) < length (render ys)"
proof -
  obtain c cs where ys: "ys = xs @ c # cs" using assms(1) by (auto elim: strict_prefixE')
  with assms(2) have "c \<noteq> []" by (auto simp: comp_ok_def)
  with ys show ?thesis by (cases "xs = []") (auto simp: render_def)
qed

lemma guest_prefix_test_render:
  assumes "list_all comp_ok xs" "list_all comp_ok ys"
  shows "guest_prefix_test (render xs) (render ys) \<longleftrightarrow> prefix xs ys"
proof (cases "xs = []")
  case True
  have "length (render ys) \<ge> 1" by (cases ys) auto
  with True show ?thesis
    by (cases ys) (auto simp: guest_prefix_test_def)
next
  case False
  then obtain x xs' where x: "xs = x # xs'" by (cases xs) auto
  then have l1: "length (render xs) > 1" using assms(1) by (cases x) (auto simp: comp_ok_def)
  show ?thesis
  proof (cases "ys = []")
    case True
    with l1 False show ?thesis by (auto simp: guest_prefix_test_def)
  next
    case ys: False
    show ?thesis
    proof (cases "length (body xs) \<le> length (body ys)")
      case True
      have t: "take (length (body xs)) (body ys) = body xs \<longleftrightarrow>
          (\<forall>k<length (body xs). body xs ! k = body ys ! k)"
        using True by (auto simp: list_eq_iff_nth_eq)
      have h: "c_at (body xs) 0 = c_at (body ys) 0" by (metis c_at_render_0 render_body False ys)
      have l: "1 < length (body xs)" using l1 by (simp add: render_body False)
      show ?thesis
        unfolding guest_prefix_test_def render_body [OF False] render_body [OF ys] t
          body_prefix_iff [OF assms True, symmetric]
        using True h l by (cases "length (body xs) < length (body ys)") (simp_all add: conj_commute)
    next
      case len: False
      then have "\<not> prefix xs ys" using length_body_prefix [of xs ys] by blast
      with len show ?thesis by (simp add: guest_prefix_test_def render_body False ys)
    qed
  qed
qed

lemma prefix_length_order:
  assumes "prefix xs ys" "prefix zs ys" "list_all comp_ok ys" "length (render zs) \<le> length (render xs)"
  shows "length zs \<le> length xs"
proof (rule ccontr)
  assume n: "\<not> length zs \<le> length xs"
  with assms(1,2) have "prefix xs zs" using prefix_length_prefix by (metis nat_le_linear)
  with n have "strict_prefix xs zs" by (auto simp: strict_prefix_def)
  moreover have "list_all comp_ok zs" using assms(2,3) by (auto simp: prefix_def)
  ultimately show False using length_render_less assms(4) by fastforce
qed

abbreviation gcomps :: "tracee \<Rightarrow> nat \<Rightarrow> string list" where
  "gcomps t b \<equiv> comps (gpath t b)"

abbreviation hcomps :: "tracee \<Rightarrow> nat \<Rightarrow> string list" where
  "hcomps t b \<equiv> comps (hpath t b)"

lemma get_binding_guest:
  assumes "bind_inv t" "\<forall>b\<in>set (blist t GUEST). canonical (gpath t b)" "plain p"
  shows "case fst (get_binding t GUEST p) of
      None \<Rightarrow> \<forall>b\<in>set (blist t GUEST). \<not> prefix (gcomps t b) (comps p)
    | Some b \<Rightarrow> b \<in> set (blist t GUEST) \<and> prefix (gcomps t b) (comps p) \<and>
        (\<forall>c\<in>set (blist t GUEST). prefix (gcomps t c) (comps p) \<longrightarrow> length (gcomps t c) \<le> length (gcomps t b))"
proof -
  let ?G = "set (blist t GUEST)"
  have p: "list_all comp_ok (comps p)" "p = render (comps p)" using assms(3) by (auto simp: plain_def)
  have g: "list_all comp_ok (gcomps t b)" "gpath t b = render (gcomps t b)" if "b \<in> ?G" for b
    using canonical_ok assms(2) that by auto
  have test: "guest_prefix_test (gpath t b) p \<longleftrightarrow> prefix (gcomps t b) (comps p)" if "b \<in> ?G" for b
    using guest_prefix_test_render [OF g(1) [OF that] p(1)]
    unfolding g(2) [OF that, symmetric] p(2) [symmetric] .
  have scan: "(let ref = side_path GUEST (heap t b); cmp = compare_paths2 ref (length ref) p (length p)
      in cmp = PATHS_ARE_EQUAL \<or> cmp = PATH1_IS_PREFIX) \<longleftrightarrow> prefix (gcomps t b) (comps p)"
    if "b \<in> ?G" for b
    using compare_paths2_render [OF g(1) [OF that] p(1)]
    unfolding g(2) [OF that, symmetric] p(2) [symmetric] by (simp add: side_path_def Let_def)
  have p0: "c_at p 0 = slash" by (subst p(2)) simp
  obtain r t1 where f: "find_best_prefix t p = (r, t1)" by fastforce
  note fs = find_best_prefix_spec [OF assms(1) f]
  show ?thesis
  proof (cases r)
    case None
    have "scan_bindings t1 GUEST p = None"
    proof (cases "guest t = None \<or> blist t GUEST = []")
      case True
      then have "blist t GUEST = []" by (auto simp: blist_def)
      then show ?thesis unfolding scan_same [OF fs(2)] by (simp add: scan_bindings_def)
    next
      case False
      with None fs(3) have "\<forall>b\<in>?G. \<not> guest_prefix_test (gpath t b) p" by (simp add: find_None_sort)
      then have "\<forall>b\<in>?G. \<not> prefix (gcomps t b) (comps p)" using test by blast
      then have "scan_bindings t GUEST p = None"
        unfolding scan_bindings_def find_None_iff using scan by blast
      then show ?thesis unfolding scan_same [OF fs(2)] .
    qed
    moreover have "\<forall>b\<in>?G. \<not> prefix (gcomps t b) (comps p)"
    proof (cases "guest t = None \<or> blist t GUEST = []")
      case True
      then have "blist t GUEST = []" by (auto simp: blist_def)
      then show ?thesis by simp
    next
      case False
      with None fs(3) test show ?thesis by (simp add: find_None_sort)
    qed
    ultimately show ?thesis using None p0 f by (simp add: get_binding_def)
  next
    case (Some b)
    with fs(3) have "List.find (\<lambda>b. guest_prefix_test (gpath t b) p)
        (sort_by_desc_length t (blist t GUEST)) = Some b" by (auto split: if_splits)
    from find_desc_length [OF this] have b: "b \<in> ?G" "guest_prefix_test (gpath t b) p"
      "\<forall>c\<in>?G. guest_prefix_test (gpath t c) p \<longrightarrow> length (gpath t c) \<le> length (gpath t b)" by auto
    have "length (gcomps t c) \<le> length (gcomps t b)" if "c \<in> ?G" "prefix (gcomps t c) (comps p)" for c
    proof (rule prefix_length_order [OF _ that(2) p(1)])
      show "prefix (gcomps t b) (comps p)" using b test by blast
      show "length (render (gcomps t c)) \<le> length (render (gcomps t b))"
        using b that test g(2) by metis
    qed
    with b test Some p0 f show ?thesis by (simp add: get_binding_def)
  qed
qed

section \<open>The order of the host list\<close>

text \<open>
  A host lookup takes the first binding that contains the path, so it is a longest-prefix lookup
  only when no binding stands before one it strictly contains.
\<close>

definition host_ordered :: "tracee \<Rightarrow> bool" where
  "host_ordered t \<longleftrightarrow> sorted_wrt (\<lambda>a b. \<not> strict_prefix (hcomps t a) (hcomps t b)) (blist t HOST)"

lemma scan_host_test:
  assumes "canonical (hpath t b)" "plain p"
  shows "(let ref = side_path HOST (heap t b); cmp = compare_paths2 ref (length ref) p (length p)
      in cmp = PATHS_ARE_EQUAL \<or> cmp = PATH1_IS_PREFIX) \<longleftrightarrow> prefix (hcomps t b) (comps p)"
proof -
  note h = canonical_ok [OF assms(1)] and p = assms(2) [unfolded plain_def]
  show ?thesis
    using compare_paths2_render [OF conjunct1 [OF h] conjunct1 [OF p]]
    unfolding h [THEN conjunct2, symmetric] p [THEN conjunct2, symmetric]
    by (simp add: side_path_def Let_def)
qed

lemma find_first:
  "List.find P xs = Some x \<Longrightarrow> \<exists>as bs. xs = as @ x # bs \<and> P x \<and> (\<forall>a\<in>set as. \<not> P a)"
proof (induction xs)
  case (Cons y ys)
  show ?case
  proof (cases "P y")
    case True
    with Cons.prems show ?thesis by (intro exI [of _ "[]"] exI [of _ ys]) simp
  next
    case False
    with Cons obtain as bs where "ys = as @ x # bs" "P x" "\<forall>a\<in>set as. \<not> P a" by auto
    with False show ?thesis by (intro exI [of _ "y # as"] exI [of _ bs]) auto
  qed
qed simp

lemma get_binding_host:
  assumes "host_ordered t" "\<forall>b\<in>set (blist t HOST). canonical (hpath t b)" "plain p"
  shows "case fst (get_binding t HOST p) of
      None \<Rightarrow> \<forall>b\<in>set (blist t HOST). \<not> prefix (hcomps t b) (comps p)
    | Some b \<Rightarrow> b \<in> set (blist t HOST) \<and> prefix (hcomps t b) (comps p) \<and>
        (\<forall>c\<in>set (blist t HOST). prefix (hcomps t c) (comps p) \<longrightarrow> length (hcomps t c) \<le> length (hcomps t b))"
proof -
  let ?P = "\<lambda>b. prefix (hcomps t b) (comps p)"
  have p0: "c_at p 0 = slash" using assms(3) [unfolded plain_def] c_at_render_0 [of "comps p"] by simp
  have "scan_bindings t HOST p = List.find ?P (blist t HOST)"
    unfolding scan_bindings_def using scan_host_test assms(2,3) by (intro find_cong) auto
  with p0 have g: "fst (get_binding t HOST p) = List.find ?P (blist t HOST)"
    by (simp add: get_binding_def)
  show ?thesis
  proof (cases "List.find ?P (blist t HOST)")
    case None
    then have "\<forall>b\<in>set (blist t HOST). \<not> ?P b" unfolding find_None_iff by blast
    then show ?thesis unfolding g None by simp
  next
    case (Some b)
    from find_first [OF Some] obtain as bs where l: "blist t HOST = as @ b # bs" and b: "?P b"
      and as: "\<forall>a\<in>set as. \<not> ?P a" by blast
    have "length (hcomps t c) \<le> length (hcomps t b)" if c: "c \<in> set (blist t HOST)" "?P c" for c
    proof (rule ccontr)
      assume n: "\<not> length (hcomps t c) \<le> length (hcomps t b)"
      with b c(2) have sp: "strict_prefix (hcomps t b) (hcomps t c)"
        using prefix_length_prefix [of "hcomps t b" "comps p" "hcomps t c"]
        by (auto simp: strict_prefix_def)
      from c as l n have "c \<in> set bs" by auto
      with assms(1) sp show False unfolding host_ordered_def l by (auto simp: sorted_wrt_append)
    qed
    with Some b l show ?thesis unfolding g by simp
  qed
qed

text \<open>
  What \<open>insort_binding\<close> does on the host list. Its loop takes for \<open>prev\<close> the last binding that
  the new one contains (or the one with an equal path), and for \<open>next\<close> the first binding that
  contains the new one, but never the head of the list: \<open>next\<close> starts as the head, and the test
  for "not found yet" is \<open>next == head\<close>.
\<close>

lemma host_scan:
  "insort_scan t HOST b f prev nxt l = Place p n \<Longrightarrow>
    \<exists>pre post. l = pre @ post \<and> (\<forall>x\<in>set pre. order_cmp t HOST b x \<noteq> PATHS_ARE_EQUAL) \<and>
      (post \<noteq> [] \<longrightarrow> order_cmp t HOST b (hd post) = PATHS_ARE_EQUAL \<and> p = Some (hd post)) \<and>
      (post = [] \<longrightarrow> p = (case List.find (\<lambda>x. order_cmp t HOST b x = PATH1_IS_PREFIX) (rev pre) of
                          None \<Rightarrow> prev | Some x \<Rightarrow> Some x)) \<and>
      (nxt = f \<longrightarrow> n = (case List.find (\<lambda>x. order_cmp t HOST b x = PATH2_IS_PREFIX \<and> Some x \<noteq> f) pre of
                          None \<Rightarrow> f | Some x \<Rightarrow> Some x)) \<and> (nxt \<noteq> f \<longrightarrow> n = nxt)"
proof (induction l arbitrary: prev nxt)
  case Nil
  then show ?case by (intro exI [of _ "[]"]) simp
next
  case (Cons it its)
  show ?case
  proof (cases "order_cmp t HOST b it = PATHS_ARE_EQUAL")
    case True
    with Cons.prems show ?thesis by (intro exI [of _ "[]"] exI [of _ "it # its"]) (simp add: Let_def)
  next
    case False
    let ?p = "if order_cmp t HOST b it = PATH1_IS_PREFIX then Some it else prev"
    let ?n = "if order_cmp t HOST b it = PATH2_IS_PREFIX \<and> nxt = f then Some it else nxt"
    from False Cons.prems have "insort_scan t HOST b f ?p ?n its = Place p n" by (simp add: Let_def)
    from Cons.IH [OF this] obtain pre post where
      l: "its = pre @ post" and ne: "\<forall>x\<in>set pre. order_cmp t HOST b x \<noteq> PATHS_ARE_EQUAL"
      and po: "post \<noteq> [] \<longrightarrow> order_cmp t HOST b (hd post) = PATHS_ARE_EQUAL \<and> p = Some (hd post)"
      and pe: "post = [] \<longrightarrow> p = (case List.find (\<lambda>x. order_cmp t HOST b x = PATH1_IS_PREFIX) (rev pre) of
                          None \<Rightarrow> ?p | Some x \<Rightarrow> Some x)"
      and nf: "?n = f \<longrightarrow> n = (case List.find (\<lambda>x. order_cmp t HOST b x = PATH2_IS_PREFIX \<and> Some x \<noteq> f) pre of
                          None \<Rightarrow> f | Some x \<Rightarrow> Some x)" and nn: "?n \<noteq> f \<longrightarrow> n = ?n" by blast
    have app: "List.find P (xs @ [y]) = (case List.find P xs of None \<Rightarrow> if P y then Some y else None | Some x \<Rightarrow> Some x)"
      for P xs and y :: nat by (induction xs) auto
    have pe': "post = [] \<longrightarrow> p = (case List.find (\<lambda>x. order_cmp t HOST b x = PATH1_IS_PREFIX) (rev (it # pre)) of
        None \<Rightarrow> prev | Some x \<Rightarrow> Some x)"
      using pe by (simp add: app split: option.split)
    have nf': "nxt = f \<longrightarrow> n = (case List.find (\<lambda>x. order_cmp t HOST b x = PATH2_IS_PREFIX \<and> Some x \<noteq> f) (it # pre) of
        None \<Rightarrow> f | Some x \<Rightarrow> Some x)"
      using nf nn by (cases "order_cmp t HOST b it = PATH2_IS_PREFIX"; cases "Some it = f") simp_all
    have nn': "nxt \<noteq> f \<longrightarrow> n = nxt" using nn by simp
    from False ne have ne': "\<forall>x\<in>set (it # pre). order_cmp t HOST b x \<noteq> PATHS_ARE_EQUAL" by simp
    show ?thesis
      using l ne' po pe' nf' nn' by (intro exI [of _ "it # pre"] exI [of _ post] conjI) simp_all
  qed
qed

lemma insert_after_split: "e \<notin> set pre \<Longrightarrow> insert_after e b (pre @ e # post) = pre @ e # b # post"
  by (induction pre) auto

lemma insert_before_split: "e \<notin> set pre \<Longrightarrow> insert_before e b (pre @ e # post) = pre @ b # e # post"
  by (induction pre) auto

lemma order_cmp_host:
  assumes "canonical (hpath t b)" "canonical (hpath t x)"
  shows "order_cmp t HOST b x = (if hcomps t b = hcomps t x then PATHS_ARE_EQUAL
    else if prefix (hcomps t b) (hcomps t x) then PATH1_IS_PREFIX
    else if prefix (hcomps t x) (hcomps t b) then PATH2_IS_PREFIX else PATHS_ARE_NOT_COMPARABLE)"
proof -
  note b = canonical_ok [OF assms(1)] and x = canonical_ok [OF assms(2)]
  show ?thesis
    using compare_paths2_render [OF conjunct1 [OF b] conjunct1 [OF x]]
    unfolding b [THEN conjunct2, symmetric] x [THEN conjunct2, symmetric]
    by (simp add: order_cmp_def order_path_def)
qed

lemma sorted_wrt_insert:
  "sorted_wrt R (xs @ ys) \<Longrightarrow> \<forall>a\<in>set xs. R a b \<Longrightarrow> \<forall>c\<in>set ys. R b c \<Longrightarrow> sorted_wrt R (xs @ b # ys)"
  by (auto simp: sorted_wrt_append)

text \<open>The head of the list contains the new binding, another binding does too, and the new
  binding contains none: the case in which the insertion point is wrong.\<close>

definition head_shadows :: "tracee \<Rightarrow> nat \<Rightarrow> bool" where
  "head_shadows t b \<longleftrightarrow> blist t HOST \<noteq> [] \<and>
     strict_prefix (hcomps t (hd (blist t HOST))) (hcomps t b) \<and>
     (\<exists>x\<in>set (tl (blist t HOST)). strict_prefix (hcomps t x) (hcomps t b)) \<and>
     (\<forall>x\<in>set (blist t HOST). \<not> prefix (hcomps t b) (hcomps t x))"

lemma insort_host_ordered:
  assumes ord: "host_ordered t" and can: "\<forall>x\<in>insert b (set (blist t HOST)). canonical (hpath t x)"
    and d: "distinct (blist t HOST)" and ok: "\<not> head_shadows t b"
  shows "host_ordered (insort_binding HOST b t)"
proof -
  let ?H = "blist t HOST" and ?k = "hcomps t"
  let ?R = "\<lambda>a b. \<not> strict_prefix (?k a) (?k b)"
  let ?f = "list_first ?H"
  have cmp: "order_cmp t HOST b x = (if ?k b = ?k x then PATHS_ARE_EQUAL
    else if prefix (?k b) (?k x) then PATH1_IS_PREFIX
    else if prefix (?k x) (?k b) then PATH2_IS_PREFIX else PATHS_ARE_NOT_COMPARABLE)" if "x \<in> set ?H" for x
    using can that by (intro order_cmp_host) auto
  have ord': "sorted_wrt ?R ?H" using ord by (simp add: host_ordered_def)
  obtain p n where scan: "insort_scan t HOST b ?f None ?f ?H = Place p n"
  proof (cases "insort_scan t HOST b ?f None ?f ?H")
    case (Duplicate_of it)
    with insort_scan_cases [OF Duplicate_of] show ?thesis by simp
  qed (rule that)
  from host_scan [OF scan] obtain pre post where H: "?H = pre @ post"
    and ne: "\<forall>x\<in>set pre. order_cmp t HOST b x \<noteq> PATHS_ARE_EQUAL"
    and po: "post \<noteq> [] \<longrightarrow> order_cmp t HOST b (hd post) = PATHS_ARE_EQUAL \<and> p = Some (hd post)"
    and pe: "post = [] \<longrightarrow> p = (case List.find (\<lambda>x. order_cmp t HOST b x = PATH1_IS_PREFIX) (rev pre) of
                          None \<Rightarrow> None | Some x \<Rightarrow> Some x)"
    and nf: "n = (case List.find (\<lambda>x. order_cmp t HOST b x = PATH2_IS_PREFIX \<and> Some x \<noteq> ?f) pre of
                          None \<Rightarrow> ?f | Some x \<Rightarrow> Some x)" by blast
  have ins: "insort_binding HOST b t =
      (case p of Some q \<Rightarrow> set_blist HOST (insert_after q b ?H) t
       | None \<Rightarrow> if n \<noteq> ?f then set_blist HOST (insert_before (the n) b ?H) t else set_blist HOST (b # ?H) t)"
    using scan by (simp add: insort_binding_def split: option.split)
  consider (equal) e es where "post = e # es" | (contained) q where "post = []" "p = Some q"
    | (before) q where "post = []" "p = None" "n = Some q" "n \<noteq> ?f" | (head) "post = []" "p = None" "n = ?f"
  proof (cases post)
    case Nil
    have nq: "\<exists>q. n = Some q" if "n \<noteq> ?f"
      using nf that by (cases "List.find (\<lambda>x. order_cmp t HOST b x = PATH2_IS_PREFIX \<and> Some x \<noteq> ?f) pre") auto
    show ?thesis
    proof (cases p)
      case None
      show ?thesis
      proof (cases "n = ?f")
        case True
        show ?thesis by (rule head [OF Nil None True])
      next
        case False
        with nq obtain q where "n = Some q" by blast
        then show ?thesis by (rule before [OF Nil None _ False])
      qed
    next
      case (Some q)
      show ?thesis by (rule contained [OF Nil Some])
    qed
  next
    case (Cons e es)
    show ?thesis by (rule equal [OF Cons])
  qed
  then show ?thesis
  proof cases
    case equal
    with po cmp [of e] H have k: "?k b = ?k e" "p = Some e" by (auto split: if_splits)
    have "e \<notin> set pre" using d H equal by auto
    moreover have "sorted_wrt ?R ((pre @ [e]) @ b # es)"
      using ord' k unfolding H equal by (intro sorted_wrt_insert) (auto simp: sorted_wrt_append)
    ultimately show ?thesis using k ins H equal by (simp add: insert_after_split host_ordered_def)
  next
    case contained
    with pe have "List.find (\<lambda>x. order_cmp t HOST b x = PATH1_IS_PREFIX) (rev ?H) = Some q"
      using H by (auto split: option.splits)
    from find_first [OF this] obtain us vs where r: "rev ?H = us @ q # vs"
      and q: "order_cmp t HOST b q = PATH1_IS_PREFIX" and us: "\<forall>x\<in>set us. order_cmp t HOST b x \<noteq> PATH1_IS_PREFIX"
      by blast
    have H2: "?H = rev vs @ q # rev us" using arg_cong [OF r, of rev] by simp
    have qk: "strict_prefix (?k b) (?k q)" using q cmp [of q] H2 by (auto simp: strict_prefix_def split: if_splits)
    have usk: "\<forall>c\<in>set us. \<not> strict_prefix (?k b) (?k c)"
    proof
      fix c assume "c \<in> set us"
      with us cmp [of c] H2 show "\<not> strict_prefix (?k b) (?k c)"
        by (auto simp: strict_prefix_def split: if_splits)
    qed
    have vsk: "\<forall>a\<in>set vs. \<not> strict_prefix (?k a) (?k b)"
    proof
      fix a assume "a \<in> set vs"
      with ord' have "\<not> strict_prefix (?k a) (?k q)" unfolding H2 by (auto simp: sorted_wrt_append)
      with qk show "\<not> strict_prefix (?k a) (?k b)" using prefix_order.less_trans by blast
    qed
    have "\<not> strict_prefix (?k q) (?k b)" using qk prefix_order.less_asym by blast
    then have "sorted_wrt ?R ((rev vs @ [q]) @ b # rev us)"
      using ord' usk vsk unfolding H2 by (intro sorted_wrt_insert) auto
    moreover have "q \<notin> set (rev vs)" using d unfolding H2 by auto
    ultimately show ?thesis
      using contained ins unfolding H2 by (simp add: insert_after_split host_ordered_def)
  next
    case before
    have none: "\<forall>c\<in>set ?H. \<not> prefix (?k b) (?k c)"
      using pe before ne cmp H by (auto simp: find_None_iff split: option.splits if_splits)
    from nf before have "List.find (\<lambda>x. order_cmp t HOST b x = PATH2_IS_PREFIX \<and> Some x \<noteq> ?f) ?H = Some q"
      using H by (auto split: option.splits)
    from find_first [OF this] obtain us vs where H2: "?H = us @ q # vs"
      and q: "order_cmp t HOST b q = PATH2_IS_PREFIX" "Some q \<noteq> ?f"
      and us: "\<forall>x\<in>set us. \<not> (order_cmp t HOST b x = PATH2_IS_PREFIX \<and> Some x \<noteq> ?f)"
      by blast
    have qk: "strict_prefix (?k q) (?k b)" using q cmp [of q] H2 by (auto simp: strict_prefix_def split: if_splits)
    obtain u us' where u: "us = u # us'" using q(2) H2 by (cases us) (auto simp: list_first_def)
    have "\<not> strict_prefix (?k u) (?k b)" using ok qk none H2 u by (auto simp: head_shadows_def)
    moreover have "\<not> strict_prefix (?k a) (?k b)" if "a \<in> set us'" for a
    proof -
      have "a \<noteq> u" using d that unfolding H2 u by auto
      then have "Some a \<noteq> ?f" unfolding H2 u by (simp add: list_first_def)
      with us that u have "order_cmp t HOST b a \<noteq> PATH2_IS_PREFIX" by auto
      with cmp [of a] that none H2 u show ?thesis by (auto simp: strict_prefix_def split: if_splits)
    qed
    ultimately have "\<forall>a\<in>set us. \<not> strict_prefix (?k a) (?k b)" using u by auto
    then have "sorted_wrt ?R (us @ b # q # vs)"
      using ord' none unfolding H2 by (rule_tac sorted_wrt_insert) (auto simp: strict_prefix_def)
    moreover have "q \<notin> set us" using d unfolding H2 by auto
    ultimately show ?thesis
      using before ins unfolding H2 by (simp add: insert_before_split host_ordered_def)
  next
    case head
    have "\<forall>c\<in>set ?H. \<not> prefix (?k b) (?k c)"
      using pe head ne cmp H by (auto simp: find_None_iff split: option.splits if_splits)
    then have "sorted_wrt ?R (b # ?H)" using ord' by (auto simp: strict_prefix_def)
    with head ins show ?thesis by (simp add: host_ordered_def)
  qed
qed

section \<open>Replacing a binding and bringing it back\<close>

text \<open>The table is canonical: guest and host paths are canonical, no two guest bindings have the
  same guest path, and \<open>need_substitution\<close> says whether the two sides differ.\<close>

definition table_ok :: "tracee \<Rightarrow> bool" where
  "table_ok t \<longleftrightarrow> (\<forall>b\<in>linked t. canonical (gpath t b) \<and> canonical (hpath t b)) \<and>
     inj_on (gpath t) (set (blist t GUEST)) \<and>
     (\<forall>b\<in>linked t. need_substitution (heap t b) \<longleftrightarrow> compare_paths (hpath t b) (gpath t b) \<noteq> PATHS_ARE_EQUAL)"

lemma order_cmp_guest_equal:
  assumes "canonical (gpath t b)" "canonical (gpath t x)"
  shows "order_cmp t GUEST b x = PATHS_ARE_EQUAL \<longleftrightarrow> gpath t b = gpath t x"
proof -
  note b = canonical_ok [OF assms(1)] and x = canonical_ok [OF assms(2)]
  have "gpath t b = gpath t x \<longleftrightarrow> gcomps t b = gcomps t x"
    using b x by metis
  then show ?thesis
    using compare_paths2_render [OF conjunct1 [OF b] conjunct1 [OF x]]
    unfolding b [THEN conjunct2, symmetric] x [THEN conjunct2, symmetric]
    by (simp add: order_cmp_def order_path_def)
qed

text \<open>What an insertion in both lists does to the sets of bindings.\<close>

lemma insort2_sets:
  assumes inv: "bind_inv t" and new: "b \<notin> set (blist t GUEST)" "b \<notin> set (blist t HOST)"
    and can: "\<forall>x\<in>insert b (set (blist t GUEST)). canonical (gpath t x)"
    and inj: "inj_on (gpath t) (set (blist t GUEST))"
  defines "D \<equiv> {x \<in> set (blist t GUEST). gpath t x = gpath t b}"
  shows "set (blist (insort_binding2 b t) GUEST) = insert b (set (blist t GUEST) - D)"
    "set (blist (insort_binding2 b t) HOST) = insert b (set (blist t HOST) - D)"
    "covered (heap (insort_binding2 b t) b) = (if D = {} then covered (heap t b) else Some (the_elem D))"
    "\<And>x. x \<noteq> b \<Longrightarrow> heap (insort_binding2 b t) x = heap t x"
proof -
  define t1 where "t1 = t\<lparr>heap := (heap t)(b := (heap t b)\<lparr>need_substitution :=
                (compare_paths (hpath t b) (gpath t b) \<noteq> PATHS_ARE_EQUAL)\<rparr>)\<rparr>"
  define t2 where "t2 = insort_binding GUEST b t1"
  have i2: "insort_binding2 b t = insort_binding HOST b t2"
    unfolding insort_binding2_def Let_def t1_def [symmetric] t2_def [symmetric] ..
  have g1: "gpath t1 x = gpath t x" for x by (simp add: t1_def)
  have bl1: "blist t1 s = blist t s" for s by (simp add: t1_def)
  have dg: "distinct (blist t1 s)" for s using inv by (simp add: bl1 bind_inv_def)
  have ng: "b \<notin> set (blist t1 GUEST)" using new by (simp add: bl1)
  have eq: "order_cmp t1 GUEST b x = PATHS_ARE_EQUAL \<longleftrightarrow> x \<in> D" if "x \<in> set (blist t GUEST)" for x
    using order_cmp_guest_equal [of t1 b x] can that by (auto simp: g1 D_def)
  have R: "set (blist t2 GUEST) = insert b (set (blist t GUEST) - D) \<and>
      set (blist t2 HOST) = set (blist t HOST) - D \<and>
      covered (heap t2 b) = (if D = {} then covered (heap t b) else Some (the_elem D)) \<and>
      (\<forall>x. x \<noteq> b \<longrightarrow> heap t2 x = heap t x) \<and> (\<forall>s. distinct (blist t2 s))"
    using ng dg
  proof (cases rule: insort_cases)
    case (dup it)
    then have it: "it \<in> set (blist t GUEST)" "it \<in> D" using eq by (simp_all add: bl1)
    have D: "D = {it}"
      using inj it unfolding D_def by (auto simp: inj_on_def)
    have "it \<noteq> b" using it new by auto
    with dup it new D dg ng show ?thesis
      by (auto simp: t2_def bl1 set_insert_after distinct_insert_after t1_def)
  next
    case (placed l)
    then have "D = {}" using eq by (auto simp: D_def bl1)
    with placed dg show ?thesis by (auto simp: t2_def bl1 t1_def)
  qed
  have nh: "b \<notin> set (blist t2 HOST)" using R new by blast
  have dh: "distinct (blist t2 HOST)" using R by blast
  from nh dh have S: "set (blist (insort_binding HOST b t2) HOST) = insert b (set (blist t2 HOST)) \<and>
      blist (insort_binding HOST b t2) GUEST = blist t2 GUEST \<and> heap (insort_binding HOST b t2) = heap t2"
  proof (cases rule: insort_cases)
    case (placed l)
    then show ?thesis by simp
  qed simp
  from R S show "set (blist (insort_binding2 b t) GUEST) = insert b (set (blist t GUEST) - D)"
    "set (blist (insort_binding2 b t) HOST) = insert b (set (blist t HOST) - D)"
    "covered (heap (insort_binding2 b t) b) = (if D = {} then covered (heap t b) else Some (the_elem D))"
    "\<And>x. x \<noteq> b \<Longrightarrow> heap (insort_binding2 b t) x = heap t x"
    unfolding i2 by simp_all
qed

lemma insort2_paths [simp]:
  "gpath (insort_binding2 b t) x = gpath t x" "hpath (insort_binding2 b t) x = hpath t x"
  by (simp_all add: insort_binding2_def Let_def)

lemma insort2_need:
  "need_substitution (heap (insort_binding2 b t) x) =
    (if x = b then compare_paths (hpath t b) (gpath t b) \<noteq> PATHS_ARE_EQUAL
     else need_substitution (heap t x))"
  by (simp add: insort_binding2_def Let_def)

text \<open>Two tables with the same guest bindings answer every guest lookup alike.\<close>

lemma get_binding_guest_same:
  assumes "bind_inv t" "bind_inv t'" "set (blist t' GUEST) = set (blist t GUEST)"
    and "\<forall>b\<in>set (blist t GUEST). gpath t' b = gpath t b \<and> canonical (gpath t b)"
    and "inj_on (gpath t) (set (blist t GUEST))" "plain p"
  shows "fst (get_binding t' GUEST p) = fst (get_binding t GUEST p)"
proof -
  let ?G = "set (blist t GUEST)"
  have A: "case fst (get_binding t GUEST p) of
      None \<Rightarrow> \<forall>b\<in>?G. \<not> prefix (gcomps t b) (comps p)
    | Some b \<Rightarrow> b \<in> ?G \<and> prefix (gcomps t b) (comps p) \<and>
        (\<forall>c\<in>?G. prefix (gcomps t c) (comps p) \<longrightarrow> length (gcomps t c) \<le> length (gcomps t b))"
    using assms by (intro get_binding_guest) auto
  have B: "case fst (get_binding t' GUEST p) of
      None \<Rightarrow> \<forall>b\<in>?G. \<not> prefix (gcomps t b) (comps p)
    | Some b \<Rightarrow> b \<in> ?G \<and> prefix (gcomps t b) (comps p) \<and>
        (\<forall>c\<in>?G. prefix (gcomps t c) (comps p) \<longrightarrow> length (gcomps t c) \<le> length (gcomps t b))"
    using get_binding_guest [of t' p] assms assms(6) by (auto split: option.splits)
  show ?thesis
  proof (cases "fst (get_binding t GUEST p)")
    case None
    with A B show ?thesis by (auto split: option.splits)
  next
    case (Some b)
    with A have b: "b \<in> ?G" "prefix (gcomps t b) (comps p)"
      "\<forall>c\<in>?G. prefix (gcomps t c) (comps p) \<longrightarrow> length (gcomps t c) \<le> length (gcomps t b)" by auto
    with B obtain c where c: "fst (get_binding t' GUEST p) = Some c" "c \<in> ?G" "prefix (gcomps t c) (comps p)"
      "\<forall>d\<in>?G. prefix (gcomps t d) (comps p) \<longrightarrow> length (gcomps t d) \<le> length (gcomps t c)"
      by (cases "fst (get_binding t' GUEST p)") auto
    have "length (gcomps t b) = length (gcomps t c)" using b c by (metis le_antisym)
    then have "gcomps t b = gcomps t c" using b(2) c(3) by (metis prefix_same_cases prefix_order.antisym prefix_length_prefix order_refl)
    then have "gpath t b = gpath t c" using assms(4) b(1) c(2) canonical_ok by metis
    then have "b = c" using assms(5) b(1) c(2) by (auto simp: inj_on_def)
    with Some c show ?thesis by simp
  qed
qed

section \<open>Longest-prefix lookup as an interface\<close>

locale longest_prefix =
  fixes good :: "'c list \<Rightarrow> bool"
    and S :: "'b set"
    and key :: "'b \<Rightarrow> 'c list"
    and lookup :: "'c list \<Rightarrow> 'b option"
  assumes found: "good p \<Longrightarrow> lookup p = Some b \<Longrightarrow>
      b \<in> S \<and> prefix (key b) p \<and> (\<forall>c\<in>S. prefix (key c) p \<longrightarrow> length (key c) \<le> length (key b))"
    and not_found: "good p \<Longrightarrow> lookup p = None \<Longrightarrow> b \<in> S \<Longrightarrow> \<not> prefix (key b) p"
begin

lemma deepest:
  assumes "good p" "lookup p = Some b" "c \<in> S" "prefix (key c) p"
  shows "prefix (key c) (key b)"
  using found [OF assms(1,2)] assms(3,4) by (metis prefix_length_prefix)

text \<open>Going down the tree the bindings only get deeper.\<close>

lemma lookup_mono:
  assumes "good p" "good q" "prefix p q" "lookup p = Some b"
  shows "\<exists>c. lookup q = Some c \<and> prefix (key b) (key c)"
proof (cases "lookup q")
  case None
  with found [OF assms(1,4)] not_found [OF assms(2) None] assms(3) show ?thesis
    using prefix_order.trans by blast
next
  case (Some c)
  with found [OF assms(1,4)] assms(3) deepest [OF assms(2) Some] show ?thesis
    using prefix_order.trans by blast
qed

text \<open>A path and one below it resolve through the same key when no binding starts in between.\<close>

lemma lookup_stable:
  assumes "good p" "good q" "prefix p q" "lookup p = Some b"
    and "\<forall>c\<in>S. prefix (key c) q \<longrightarrow> prefix (key c) p"
  shows "\<exists>c. lookup q = Some c \<and> key c = key b"
proof -
  from lookup_mono [OF assms(1-4)] obtain c where c: "lookup q = Some c" "prefix (key b) (key c)" by blast
  from found [OF assms(2) c(1)] assms(5) have "c \<in> S" "prefix (key c) p" by blast+
  from deepest [OF assms(1,4) this] c show ?thesis using prefix_order.antisym by blast
qed

end

definition guest_set :: "tracee \<Rightarrow> nat set" where
  "guest_set t = (if bind_inv t \<and> table_ok t then set (blist t GUEST) else {})"

definition guest_find :: "tracee \<Rightarrow> string list \<Rightarrow> nat option" where
  "guest_find t cs = (if bind_inv t \<and> table_ok t then fst (get_binding t GUEST (render cs)) else None)"

definition host_set :: "tracee \<Rightarrow> nat set" where
  "host_set t = (if host_ordered t \<and> table_ok t then set (blist t HOST) else {})"

definition host_find :: "tracee \<Rightarrow> string list \<Rightarrow> nat option" where
  "host_find t cs = (if host_ordered t \<and> table_ok t then fst (get_binding t HOST (render cs)) else None)"

lemma get_binding_guest_render:
  assumes "bind_inv t" "table_ok t" "list_all comp_ok p"
  shows "case fst (get_binding t GUEST (render p)) of
      None \<Rightarrow> \<forall>b\<in>set (blist t GUEST). \<not> prefix (gcomps t b) p
    | Some b \<Rightarrow> b \<in> set (blist t GUEST) \<and> prefix (gcomps t b) p \<and>
        (\<forall>c\<in>set (blist t GUEST). prefix (gcomps t c) p \<longrightarrow> length (gcomps t c) \<le> length (gcomps t b))"
  using get_binding_guest [OF assms(1) _ plain_render [OF assms(3)]] assms(2)
  unfolding comps_render [OF assms(3)] by (auto simp: table_ok_def linked_def)

lemma get_binding_host_render:
  assumes "host_ordered t" "table_ok t" "list_all comp_ok p"
  shows "case fst (get_binding t HOST (render p)) of
      None \<Rightarrow> \<forall>b\<in>set (blist t HOST). \<not> prefix (hcomps t b) p
    | Some b \<Rightarrow> b \<in> set (blist t HOST) \<and> prefix (hcomps t b) p \<and>
        (\<forall>c\<in>set (blist t HOST). prefix (hcomps t c) p \<longrightarrow> length (hcomps t c) \<le> length (hcomps t b))"
  using get_binding_host [OF assms(1) _ plain_render [OF assms(3)]] assms(2)
  unfolding comps_render [OF assms(3)] by (auto simp: table_ok_def linked_def)

interpretation gtable: longest_prefix "list_all comp_ok" "guest_set t" "gcomps t" "guest_find t" for t
proof
  fix p b
  assume p: "list_all comp_ok p"
  note g = get_binding_guest_render [of t p, OF _ _ p]
  show "guest_find t p = Some b \<Longrightarrow> b \<in> guest_set t \<and> prefix (gcomps t b) p \<and>
      (\<forall>c\<in>guest_set t. prefix (gcomps t c) p \<longrightarrow> length (gcomps t c) \<le> length (gcomps t b))"
    using g by (cases "bind_inv t \<and> table_ok t") (auto simp: guest_find_def guest_set_def)
  show "guest_find t p = None \<Longrightarrow> b \<in> guest_set t \<Longrightarrow> \<not> prefix (gcomps t b) p"
    using g by (cases "bind_inv t \<and> table_ok t") (auto simp: guest_find_def guest_set_def)
qed

interpretation htable: longest_prefix "list_all comp_ok" "host_set t" "hcomps t" "host_find t" for t
proof
  fix p b
  assume p: "list_all comp_ok p"
  note g = get_binding_host_render [of t p, OF _ _ p]
  show "host_find t p = Some b \<Longrightarrow> b \<in> host_set t \<and> prefix (hcomps t b) p \<and>
      (\<forall>c\<in>host_set t. prefix (hcomps t c) p \<longrightarrow> length (hcomps t c) \<le> length (hcomps t b))"
    using g by (cases "host_ordered t \<and> table_ok t") (auto simp: host_find_def host_set_def)
  show "host_find t p = None \<Longrightarrow> b \<in> host_set t \<Longrightarrow> \<not> prefix (hcomps t b) p"
    using g by (cases "host_ordered t \<and> table_ok t") (auto simp: host_find_def host_set_def)
qed

section \<open>Sequences of operations\<close>

datatype binding_op =
  Lookup side string | Root | Substitute side string | Insert string string mount_kind
| Copy_of nat string | Remove nat | Restore nat

definition run_binding_op :: "binding_op \<Rightarrow> tracee \<Rightarrow> tracee" where
  "run_binding_op op t =
     (case op of
        Lookup s p \<Rightarrow> snd (get_binding t s p)
      | Root \<Rightarrow> snd (get_root t)
      | Substitute s p \<Rightarrow> snd (snd (substitute_binding t s p))
      | Insert h g k \<Rightarrow> snd (insort_binding4 h g k t)
      | Copy_of b g \<Rightarrow> snd (copy_binding b g t)
      | Remove b \<Rightarrow> remove_binding_from_all_lists b t
      | Restore b \<Rightarrow> remove_binding_and_restore_covered b t)"

text \<open>The callers restore only bindings whose covered layer is not linked itself.\<close>

definition op_allowed :: "tracee \<Rightarrow> binding_op \<Rightarrow> bool" where
  "op_allowed t op =
     (case op of Restore b \<Rightarrow>
        (case covered (heap t b) of None \<Rightarrow> True | Some c \<Rightarrow> c \<notin> linked t \<and> c < next_addr t)
      | _ \<Rightarrow> True)"

inductive reaches :: "tracee \<Rightarrow> tracee \<Rightarrow> bool" where
  reaches_refl: "reaches t t"
| reaches_step: "reaches t u \<Longrightarrow> op_allowed u op \<Longrightarrow> reaches t (run_binding_op op u)"

lemma bind_inv_run:
  assumes "bind_inv t" "op_allowed t op"
  shows "bind_inv (run_binding_op op t)"
proof (cases op)
  case (Lookup s p)
  with assms get_binding_spec(1) [of t s p "fst (get_binding t s p)" "snd (get_binding t s p)"]
  show ?thesis by (simp add: run_binding_op_def)
next
  case Root
  with assms get_root_spec(1) [of t "fst (get_root t)" "snd (get_root t)"] show ?thesis
    by (simp add: run_binding_op_def)
next
  case (Substitute s p)
  obtain r q t' where "substitute_binding t s p = (r, q, t')" by (metis prod_cases3)
  with Substitute assms substitute_binding_spec(1) show ?thesis by (fastforce simp: run_binding_op_def)
next
  case (Insert h g k)
  with assms bind_inv_insort4(1) [of t h g k "fst (insort_binding4 h g k t)" "snd (insort_binding4 h g k t)"]
  show ?thesis by (simp add: run_binding_op_def)
next
  case (Copy_of b g)
  obtain c u where u: "insort_binding4 (host_path (heap t b)) g (mount_kind (heap t b)) t = (c, u)" by fastforce
  have "bind_inv u" using assms bind_inv_insort4(1) [OF _ u] by blast
  then have "bind_inv (u\<lparr>heap := h\<rparr>)" if "\<forall>x. guest_path (h x) = gpath u x" for h
    using that by (intro bind_inv_heap) auto
  then show ?thesis using Copy_of u by (simp add: run_binding_op_def copy_binding_def Let_def)
next
  case (Remove b)
  with assms show ?thesis by (simp add: run_binding_op_def bind_inv_remove)
next
  case (Restore b)
  have r: "bind_inv (remove_binding_from_all_lists b t)" using assms(1) by (rule bind_inv_remove)
  show ?thesis
  proof (cases "covered (heap t b)")
    case None
    with Restore r show ?thesis by (simp add: run_binding_op_def remove_binding_and_restore_covered_def)
  next
    case (Some c)
    with assms(2) Restore have c: "c \<notin> linked t" "c < next_addr t" by (auto simp: op_allowed_def)
    then have "bind_inv (insort_binding2 c (remove_binding_from_all_lists b t))"
      by (intro bind_inv_insort2 [OF r]) (auto simp: linked_def dest: notin_set_remove1)
    with Restore Some show ?thesis by (simp add: run_binding_op_def remove_binding_and_restore_covered_def)
  qed
qed

lemma bind_inv_reaches: "reaches t u \<Longrightarrow> bind_inv t \<Longrightarrow> bind_inv u"
  by (induction rule: reaches.induct) (simp_all add: bind_inv_run)

text \<open>The table when \<open>initialize_bindings\<close> has made the lists.\<close>

definition empty_table :: tracee where
  "empty_table = \<lparr>t_pid = 1, exe = None, cwd = ''/'', cwd_alias_prefix = None, proc_uid_map = None,
     proc_gid_map = None, proc_setgroups = None, heap = (\<lambda>_. zero_binding), next_addr = 0,
     guest = Some [], host = Some [], pending = None, has_cache = False, cache_entries = None,
     cached_root = None, dircache = dirfds_start [] 16, glue = None, glue_type = None, placeholders = [],
     openat2_resolve = 0,
     openat2_oflags = 0\<rparr>"

lemma bind_inv_empty_table: "bind_inv empty_table"
  by (auto simp: bind_inv_def empty_table_def blist_def linked_def split: side.splits)

section \<open>Properties\<close>

text \<open>
  C5: in every table the operations of the program can reach from the initialised one, a lookup,
  whether it is served by the cached array or rebuilds it, sees the guest list of that moment: a
  cached array is the sorted guest list, and a cached root is the last guest binding.
\<close>

theorem binding_cache_coherent:
  assumes "reaches empty_table t"
  shows "(\<forall>es. cache_entries t = Some es \<longrightarrow> es = sort_by_desc_length t (blist t GUEST)) \<and>
    (\<forall>b. cached_root t = Some b \<longrightarrow> blist t GUEST \<noteq> [] \<longrightarrow> b = last (blist t GUEST)) \<and>
    distinct (blist t GUEST) \<and> distinct (blist t HOST)"
  using bind_inv_reaches [OF assms bind_inv_empty_table] by (simp add: bind_inv_def)

definition demo_table :: tracee where
  "demo_table = snd (insort_binding3 ''/r'' ''/'' empty_table)"

lemma demo_table_reached: "reaches empty_table demo_table"
proof -
  have "reaches empty_table (run_binding_op (Insert ''/r'' ''/'' BINDING_MOUNT_NONE) empty_table)"
    by (intro reaches.intros) (simp_all add: op_allowed_def)
  then show ?thesis by (simp add: run_binding_op_def demo_table_def insort_binding3_def)
qed

lemma demo_table_inv: "bind_inv demo_table"
  by (rule bind_inv_reaches [OF demo_table_reached bind_inv_empty_table])

lemma insort2_first:
  "blist t GUEST = [] \<Longrightarrow> blist t HOST = [] \<Longrightarrow>
   blist (insort_binding2 b t) s = (if s = PENDING then blist t PENDING else [b])"
  by (cases s) (simp_all add: insort_binding2_def insort_binding_def Let_def list_first_def)

lemma blist_empty_table: "blist empty_table s = []"
  by (cases s) (simp_all add: blist_def empty_table_def)

lemma next_empty_table: "next_addr empty_table = 0"
  by (simp add: empty_table_def)

lemma demo_table_lists:
  "(blist demo_table GUEST, blist demo_table HOST, blist demo_table PENDING) = ([0], [0], [])"
  by (simp add: demo_table_def insort_binding3_def insort_binding4_def alloc_binding_def insort2_first
      blist_empty_table next_empty_table)

lemma demo_table_binding:
  "(gpath demo_table 0, hpath demo_table 0, need_substitution (heap demo_table 0)) = (''/'', ''/r'', True)"
  using compare_paths_render [of "[''r'']" "[]"]
  by (simp add: demo_table_def insort_binding3_def insort_binding4_def alloc_binding_def
      insort2_need empty_table_def comp_ok_def)

theorem binding_cache_coherent_witness:
  "distinct (blist demo_table GUEST) \<and> distinct (blist demo_table HOST)"
  using binding_cache_coherent [OF demo_table_reached] by blast

text \<open>
  C4: a guest lookup is a longest-prefix lookup: on canonical paths \<open>get_binding\<close> returns a
  binding whose guest path is, component by component, a prefix of the path, and no binding with a
  longer one is; it returns NULL only when no binding contains the path. The order in which the
  bindings were inserted plays no part.
\<close>

theorem guest_lookup_longest:
  assumes "bind_inv t" "\<forall>b\<in>set (blist t GUEST). canonical (gpath t b)" "canonical p"
  shows "case fst (get_binding t GUEST p) of
      None \<Rightarrow> \<forall>b\<in>set (blist t GUEST). \<not> prefix (gcomps t b) (comps p)
    | Some b \<Rightarrow> b \<in> set (blist t GUEST) \<and> prefix (gcomps t b) (comps p) \<and>
        (\<forall>c\<in>set (blist t GUEST). prefix (gcomps t c) (comps p) \<longrightarrow> length (gcomps t c) \<le> length (gcomps t b))"
  by (rule get_binding_guest [OF assms(1,2) canonical_plain [OF assms(3)]])

lemma canonical_root: "canonical ''/''"
  using canonical_render [of "[]"] by simp

lemma canonical_r: "canonical ''/r''"
  using canonical_render [of "[''r'']"] by (simp add: good_comp_def comp_ok_def)

lemma comps_root: "comps ''/'' = []"
  using comps_render [of "[]"] by simp

theorem guest_lookup_longest_witness:
  "fst (get_binding demo_table GUEST ''/r'') = Some 0"
proof -
  have "\<forall>b\<in>set (blist demo_table GUEST). canonical (gpath demo_table b)"
    using demo_table_lists demo_table_binding canonical_root by simp
  from guest_lookup_longest [OF demo_table_inv this canonical_r] demo_table_lists demo_table_binding
  show ?thesis
    by (cases "fst (get_binding demo_table GUEST ''/r'')") (simp_all add: comps_root)
qed

text \<open>
  C6: mounting over a guest path and unmounting again is neutral for the guest side. When a binding
  with the same guest path is replaced (\<open>insort_binding4\<close> covers it) and the replacement is removed
  with \<open>remove_binding_and_restore_covered\<close>, both lists hold the bindings they held, with the same
  paths and the same need for substitution, and every guest lookup of a canonical path gives the
  same binding. The order of the host list may be another one: a host lookup, which takes the first
  binding that contains the path, can give another binding afterwards (\<open>covered_binding_shaded\<close> in \<open>Mount_Spec\<close>).
\<close>

theorem covered_binding_restored:
  assumes "bind_inv t" "table_ok t" "canonical gp"
    and "a \<in> set (blist t GUEST)" "a \<in> set (blist t HOST)" "gpath t a = gp"
    and "insort_binding4 hp gp kind t = (b, t1)" "t2 = remove_binding_and_restore_covered b t1"
  shows "set (blist t2 GUEST) = set (blist t GUEST) \<and> set (blist t2 HOST) = set (blist t HOST) \<and>
    (\<forall>x\<in>linked t. gpath t2 x = gpath t x \<and> hpath t2 x = hpath t x \<and>
       need_substitution (heap t2 x) = need_substitution (heap t x)) \<and>
    (\<forall>p. canonical p \<longrightarrow> fst (get_binding t2 GUEST p) = fst (get_binding t GUEST p))"
proof -
  let ?G = "set (blist t GUEST)" and ?H = "set (blist t HOST)"
  define x0 where "x0 = zero_binding\<lparr>host_path := hp, guest_path := gp, mount_kind := kind\<rparr>"
  define t0 where "t0 = t\<lparr>heap := (heap t)(next_addr t := x0), next_addr := next_addr t + 1\<rparr>"
  have b: "b = next_addr t" and t1: "t1 = insort_binding2 b t0"
    using assms(7) by (auto simp: insort_binding4_def alloc_binding_def x0_def t0_def)
  have inv1: "bind_inv t1" using bind_inv_insort4(1) [OF assms(1,7)] .
  have new: "b \<notin> linked t" using assms(1) b by (auto simp: bind_inv_def)
  then have nb: "x \<noteq> b" if "x \<in> linked t" for x using that by blast
  have old: "heap t0 x = heap t x" if "x \<in> linked t" for x using nb [OF that] b by (simp add: t0_def)
  have bl: "blist t0 s = blist t s" for s by (simp add: t0_def)
  have gb: "gpath t0 b = gp" by (simp add: t0_def b x0_def)
  have lk: "x \<in> linked t" if "x \<in> ?G \<or> x \<in> ?H" for x using that by (auto simp: linked_def)
  have can: "canonical (gpath t x)" if "x \<in> ?G" for x using assms(2) lk that by (auto simp: table_ok_def)
  have inj: "inj_on (gpath t) ?G" using assms(2) by (simp add: table_ok_def)
  have D: "{x \<in> ?G. gpath t0 x = gpath t0 b} = {a}"
    using assms(4,6) inj old lk gb by (auto simp: inj_on_def)
  have inv0: "bind_inv t0"
  proof -
    have "sort_by_desc_length t0 (blist t GUEST) = sort_by_desc_length t (blist t GUEST)"
      using old lk by (intro sort_by_desc_length_cong) auto
    moreover have "last (blist t GUEST) \<in> ?G" using assms(4) by (intro last_in_set) auto
    ultimately show ?thesis
      using assms(1,4) old lk unfolding bind_inv_def linked_def bl
      by (auto simp: t0_def less_Suc_eq)
  qed
  have s1: "set (blist t1 GUEST) = insert b (?G - {a})" "set (blist t1 HOST) = insert b (?H - {a})"
      "covered (heap t1 b) = Some a" "x \<noteq> b \<Longrightarrow> heap t1 x = heap t0 x" for x
  proof -
    have pre: "b \<notin> set (blist t0 GUEST)" "b \<notin> set (blist t0 HOST)"
      "\<forall>x\<in>insert b (set (blist t0 GUEST)). canonical (gpath t0 x)"
      "inj_on (gpath t0) (set (blist t0 GUEST))"
      using new can inj old lk gb assms(3) unfolding bl by (auto simp: linked_def inj_on_def)
    note i = insort2_sets [OF inv0 pre]
    show "set (blist t1 GUEST) = insert b (?G - {a})" "set (blist t1 HOST) = insert b (?H - {a})"
      "covered (heap t1 b) = Some a" "x \<noteq> b \<Longrightarrow> heap t1 x = heap t0 x"
      using i D unfolding t1 bl by simp_all
  qed
  define t3 where "t3 = remove_binding_from_all_lists b t1"
  have t2: "t2 = insort_binding2 a t3"
    using assms(8) s1(3) by (simp add: remove_binding_and_restore_covered_def t3_def)
  have inv3: "bind_inv t3" unfolding t3_def by (rule bind_inv_remove [OF inv1])
  have d1: "distinct (blist t1 s)" for s using inv1 by (simp add: bind_inv_def)
  have l3: "set (blist t3 GUEST) = ?G - {a}" "set (blist t3 HOST) = ?H - {a}"
    using s1 d1 new by (auto simp: t3_def linked_def)
  have h3: "heap t3 x = heap t x" if "x \<in> linked t" for x
    using s1(4) nb [OF that] old [OF that] by (simp add: t3_def)
  have al: "a \<in> linked t" using lk assms(4) by blast
  have D3: "{x \<in> set (blist t3 GUEST). gpath t3 x = gpath t3 a} = {}"
    using l3 h3 lk inj assms(4) al by (auto simp: inj_on_def)
  have pre3: "a \<notin> set (blist t3 GUEST)" "a \<notin> set (blist t3 HOST)"
      "\<forall>x\<in>insert a (set (blist t3 GUEST)). canonical (gpath t3 x)"
      "inj_on (gpath t3) (set (blist t3 GUEST))"
    using l3 can inj h3 lk assms(4) al by (auto simp: inj_on_def)
  note i3 = insort2_sets [OF inv3 pre3, unfolded D3, simplified]
  have sets: "set (blist t2 GUEST) = ?G" "set (blist t2 HOST) = ?H"
    using i3(1,2) l3 assms(4,5) unfolding t2 by auto
  have same: "gpath t2 x = gpath t x" "hpath t2 x = hpath t x"
      "need_substitution (heap t2 x) = need_substitution (heap t x)" if "x \<in> linked t" for x
    using h3 [OF that] h3 [OF al] assms(2) al unfolding t2 by (auto simp: insort2_need table_ok_def)
  have "next_addr t3 = next_addr t + 1"
    by (simp add: t3_def t1 t0_def insort_binding2_def Let_def)
  moreover have "a < next_addr t" using al assms(1) by (auto simp: bind_inv_def)
  ultimately have "bind_inv t2" unfolding t2 using pre3 by (intro bind_inv_insort2 [OF inv3]) auto
  then have "fst (get_binding t2 GUEST p) = fst (get_binding t GUEST p)" if "canonical p" for p
    using sets same can lk inj that by (intro get_binding_guest_same [OF assms(1)]) (auto simp: canonical_plain)
  with sets same show ?thesis by blast
qed

lemma demo_table_ok: "table_ok demo_table"
proof -
  have "linked demo_table = {0}" using demo_table_lists by (simp add: linked_def)
  moreover have "compare_paths ''/r'' ''/'' \<noteq> PATHS_ARE_EQUAL"
    using compare_paths_render [of "[''r'']" "[]"] by (simp add: comp_ok_def)
  ultimately show ?thesis
    using demo_table_lists demo_table_binding canonical_root canonical_r by (simp add: table_ok_def)
qed

theorem covered_binding_restored_witness:
  "set (blist (remove_binding_and_restore_covered (fst (insort_binding4 ''/x'' ''/'' BINDING_MOUNT_TMPFS demo_table))
      (snd (insort_binding4 ''/x'' ''/'' BINDING_MOUNT_TMPFS demo_table))) GUEST) = {0}"
proof -
  have a: "0 \<in> set (blist demo_table GUEST)" "0 \<in> set (blist demo_table HOST)" "gpath demo_table 0 = ''/''"
    using demo_table_lists demo_table_binding by simp_all
  from covered_binding_restored [OF demo_table_inv demo_table_ok canonical_root a _ refl,
      of "''/x''" BINDING_MOUNT_TMPFS "fst (insort_binding4 ''/x'' ''/'' BINDING_MOUNT_TMPFS demo_table)"
         "snd (insort_binding4 ''/x'' ''/'' BINDING_MOUNT_TMPFS demo_table)"]
    demo_table_lists
  show ?thesis by simp
qed

text \<open>
  C7: the host side of the table, which \<open>detranslate_path\<close> searches in list order. When no
  binding stands before one it strictly contains, a host lookup is a longest-prefix lookup; and
  \<open>insort_binding\<close> keeps that order, except when the head of the list contains the new binding, a
  later one contains it too and the new one contains none (\<open>head_shadows\<close>).
\<close>

theorem host_insertion_keeps_longest_match:
  assumes "host_ordered t" "\<forall>x\<in>insert b (set (blist t HOST)). canonical (hpath t x)"
    and "distinct (blist t HOST)" "b \<notin> set (blist t HOST)" "\<not> head_shadows t b" "canonical p"
  shows "case fst (get_binding (insort_binding HOST b t) HOST p) of
      None \<Rightarrow> \<forall>x\<in>insert b (set (blist t HOST)). \<not> prefix (hcomps t x) (comps p)
    | Some y \<Rightarrow> y \<in> insert b (set (blist t HOST)) \<and> prefix (hcomps t y) (comps p) \<and>
        (\<forall>x\<in>insert b (set (blist t HOST)). prefix (hcomps t x) (comps p) \<longrightarrow>
           length (hcomps t x) \<le> length (hcomps t y))"
proof -
  have o: "host_ordered (insort_binding HOST b t)"
    by (rule insort_host_ordered [OF assms(1-3,5)])
  have s: "set (blist (insort_binding HOST b t) HOST) = insert b (set (blist t HOST))"
    using assms(4,3) by (cases rule: insort_cases) auto
  have "\<forall>x\<in>set (blist (insort_binding HOST b t) HOST). canonical (hpath (insort_binding HOST b t) x)"
    using assms(2) unfolding s by simp
  from get_binding_host [OF o this canonical_plain [OF assms(6)]] show ?thesis unfolding s insort_heap_gpath .
qed

theorem host_insertion_keeps_longest_match_witness:
  "fst (get_binding (insort_binding HOST 1 (demo_table\<lparr>heap := (heap demo_table)(1 := zero_binding\<lparr>host_path := ''/''\<rparr>)\<rparr>))
     HOST ''/r'') \<noteq> None"
proof -
  let ?t = "demo_table\<lparr>heap := (heap demo_table)(1 := zero_binding\<lparr>host_path := ''/''\<rparr>)\<rparr>"
  have l: "blist ?t HOST = [0]" using demo_table_lists by simp
  have h: "hpath ?t 0 = ''/r''" "hpath ?t 1 = ''/''" using demo_table_binding by simp_all
  have "host_ordered ?t" using l by (simp add: host_ordered_def)
  moreover have "\<forall>x\<in>insert 1 (set (blist ?t HOST)). canonical (hpath ?t x)"
    using l h canonical_root canonical_r by simp
  moreover have "\<not> head_shadows ?t 1" using l by (simp add: head_shadows_def)
  ultimately have r: "case fst (get_binding (insort_binding HOST 1 ?t) HOST ''/r'') of
      None \<Rightarrow> \<forall>x\<in>insert 1 (set (blist ?t HOST)). \<not> prefix (hcomps ?t x) (comps ''/r'')
    | Some y \<Rightarrow> y \<in> insert 1 (set (blist ?t HOST)) \<and> prefix (hcomps ?t y) (comps ''/r'') \<and>
        (\<forall>x\<in>insert 1 (set (blist ?t HOST)). prefix (hcomps ?t x) (comps ''/r'') \<longrightarrow>
           length (hcomps ?t x) \<le> length (hcomps ?t y))"
    using l by (intro host_insertion_keeps_longest_match [OF _ _ _ _ _ canonical_r]) simp_all
  show ?thesis
  proof
    assume "fst (get_binding (insort_binding HOST 1 ?t) HOST ''/r'') = None"
    with r have "\<not> prefix (hcomps ?t 1) (comps ''/r'')" by simp
    with h show False by (simp add: comps_root)
  qed
qed

text \<open>
  The excepted case is real. With \<^verbatim>\<open>/a\<close> at the head of the host list and \<^verbatim>\<open>/\<close> behind it, a
  new binding of \<^verbatim>\<open>/a/b\<close> is put between them, and the lookup of \<^verbatim>\<open>/a/b\<close> itself finds \<^verbatim>\<open>/a\<close>.
\<close>

definition shadow_table :: tracee where
  "shadow_table = empty_table\<lparr>
     heap := (\<lambda>_. zero_binding)(0 := zero_binding\<lparr>host_path := ''/''\<rparr>,
       1 := zero_binding\<lparr>host_path := ''/a''\<rparr>, 2 := zero_binding\<lparr>host_path := ''/a/b''\<rparr>),
     next_addr := 3, host := Some [1, 0]\<rparr>"

theorem host_insertion_shadowed:
  "blist (insort_binding HOST 2 shadow_table) HOST = [1, 2, 0] \<and>
   fst (get_binding (insort_binding HOST 2 shadow_table) HOST ''/a/b'') = Some 1"
proof -
  note c = compare_paths2_render [of "[''a'', ''b'']" "[''a'']"] compare_paths2_render [of "[''a'', ''b'']" "[]"]
    compare_paths2_render [of "[''a'']" "[''a'', ''b'']"]
  have "blist (insort_binding HOST 2 shadow_table) HOST = [1, 2, 0]"
    using c by (simp add: insort_binding_def shadow_table_def blist_def set_blist_def list_first_def
        order_cmp_def order_path_def zero_binding_def comp_ok_def)
  moreover have "heap (insort_binding HOST 2 shadow_table) = heap shadow_table"
    using c by (simp add: insort_binding_def shadow_table_def blist_def set_blist_def list_first_def
        order_cmp_def order_path_def zero_binding_def comp_ok_def)
  ultimately show ?thesis
    using c by (simp add: get_binding_def scan_bindings_def side_path_def shadow_table_def
        zero_binding_def comp_ok_def)
qed

end
