(* ===== verification/Proc.thy ===== *)
theory Proc
  imports Bindings
begin

text \<open>
  Host paths seen from the guest: the symbolic links below \<^verbatim>\<open>/proc\<close> that name a traced process
  (\<^verbatim>\<open>src/path/proc.c\<close>), and \<open>detranslate_path\<close> with its helpers (\<^verbatim>\<open>src/path/path.c\<close>). The table of
  traced processes is the argument \<open>tracees\<close>, the function \<open>get_tracee\<close> without creation. A NULL
  string that is dereferenced is the error \<open>Crash\<close>.
\<close>

section \<open>Links of a process\<close>

datatype action = DEFAULT | CANONICALIZE | DONT_CANONICALIZE

definition proc_pid :: "int \<Rightarrow> string" where
  "proc_pid pid = ''/proc/'' @ decimal_int pid"

definition proc_pid_fd :: "int \<Rightarrow> string" where
  "proc_pid_fd pid = proc_pid pid @ ''/fd''"

text \<open>The three links of \<open>SUBSTITUTE\<close>, in the order of the code. \<open>get_root\<close> may fill the cache of
  the process it looks at with the value it returns; that is not threaded here.\<close>

definition substitute_link :: "tracee \<Rightarrow> string \<Rightarrow> (action \<times> string) res" where
  "substitute_link known component =
     (let emulate = (\<lambda>s. case s of
            None \<Rightarrow> Inl Crash
          | Some s \<Rightarrow> if length s \<ge> PATH_MAX then Inl EPERM else Inr (CANONICALIZE, s))
      in if component = ''exe'' then emulate (exe known)
         else if component = ''cwd'' then emulate (Some (cwd known))
         else if component = ''root'' then emulate (fst (get_root known))
         else Inr (DEFAULT, []))"

definition normalize_self :: "int \<Rightarrow> string \<Rightarrow> string res" where
  "normalize_self pid base =
     (if take 4 (drop 6 base) = ''self'' \<and> (c_at base 10 = slash \<or> c_at base 10 = NUL)
      then (let b = proc_pid pid @ drop 10 base in
            if length b \<ge> PATH_MAX then Inl EPERM else Inr b)
      else Inr base)"

text \<open>The result string counts only with \<open>CANONICALIZE\<close> and \<open>DONT_CANONICALIZE\<close>.\<close>

definition readlink_proc ::
  "(int \<Rightarrow> tracee option) \<Rightarrow> tracee \<Rightarrow> string \<Rightarrow> string \<Rightarrow> comparison \<Rightarrow> (action \<times> string) res" where
  "readlink_proc tracees t base component cmp =
     (case cmp of
        PATHS_ARE_EQUAL \<Rightarrow>
          if component \<noteq> ''self'' then Inr (DEFAULT, []) else Inr (CANONICALIZE, proc_pid (t_pid t))
      | PATH1_IS_PREFIX \<Rightarrow>
          (case normalize_self (t_pid t) base of
             Inl e \<Rightarrow> Inl e
           | Inr base \<Rightarrow>
               let pid = atoi (drop 6 base) in
               if pid = 0 then Inr (DEFAULT, [])
               else case compare_paths (proc_pid pid) base of
                      PATHS_ARE_EQUAL \<Rightarrow>
                        (case tracees pid of
                           None \<Rightarrow> Inr (DEFAULT, [])
                         | Some known \<Rightarrow> substitute_link known component)
                    | PATH1_IS_PREFIX \<Rightarrow>
                        (if compare_paths (proc_pid_fd pid) base = PATHS_ARE_EQUAL then
                           (case strtol10 component of (v, end, out_of_range) \<Rightarrow>
                              if out_of_range \<or> end = component then Inl EPERM
                              else let r = base @ slash # component in
                                   if length r \<ge> PATH_MAX then Inl EPERM
                                   else Inr (DONT_CANONICALIZE, r))
                         else Inr (DEFAULT, []))
                    | _ \<Rightarrow> Inr (DEFAULT, []))
      | _ \<Rightarrow> Inr (DEFAULT, []))"

definition last_slash :: "string \<Rightarrow> nat option" where
  "last_slash s = (if slash \<in> set s then Some (length s - 1 - length (takeWhile (\<lambda>c. c \<noteq> slash) (rev s)))
                   else None)"

text \<open>\<open>Inr None\<close> is the value 0; an error of \<open>readlink_proc\<close> is reported as 0 as well.\<close>

definition readlink_proc2 ::
  "(int \<Rightarrow> tracee option) \<Rightarrow> tracee \<Rightarrow> string \<Rightarrow> string option res" where
  "readlink_proc2 tracees t referer =
     (if length referer \<ge> PATH_MAX then Inl ENAMETOOLONG
      else if compare_paths ''/proc'' referer \<noteq> PATH1_IS_PREFIX then Inl Crash
      else case last_slash referer of
             None \<Rightarrow> Inl Crash
           | Some 0 \<Rightarrow> Inl Crash
           | Some i \<Rightarrow>
               let base = take i referer; component = drop (i + 1) referer in
               if component = [] then Inr None
               else case readlink_proc tracees t base component (compare_paths ''/proc'' base) of
                      Inr (CANONICALIZE, r) \<Rightarrow> Inr (if r = [] then None else Some r)
                    | Inl Crash \<Rightarrow> Inl Crash
                    | _ \<Rightarrow> Inr None)"

section \<open>From host paths to guest paths\<close>

definition belongs_to_guestfs :: "tracee \<Rightarrow> string \<Rightarrow> bool res \<times> tracee" where
  "belongs_to_guestfs t path =
     (case get_root t of
        (None, t) \<Rightarrow> (Inl Crash, t)
      | (Some r, t) \<Rightarrow>
          (Inr (compare_paths r path = PATHS_ARE_EQUAL \<or> compare_paths r path = PATH1_IS_PREFIX), t))"

text \<open>0 when the path is left alone, else its new length plus one.\<close>

definition normalize_cwd_alias_path :: "tracee \<Rightarrow> string \<Rightarrow> nat \<times> string \<times> tracee" where
  "normalize_cwd_alias_path t path =
     (case cwd_alias_prefix t of
        None \<Rightarrow> (0, path, t)
      | Some alias \<Rightarrow>
          if length alias = 0 then (0, path, t)
          else if \<not> prefix alias path \<or>
                  (c_at path (length alias) \<noteq> NUL \<and> c_at path (length alias) \<noteq> slash) then (0, path, t)
          else case get_binding t GUEST path of
                 (None, t) \<Rightarrow> (0, path, t)
               | (Some b, t) \<Rightarrow>
                   if gpath t b \<noteq> alias then (0, path, t)
                   else if c_at path (length alias) = NUL then (2, ''/'', t)
                   else (length path - length alias + 1, drop (length alias) path, t))"

definition detranslate_root :: "tracee \<Rightarrow> string \<Rightarrow> bool \<Rightarrow> nat res \<times> string \<times> tracee" where
  "detranslate_root t path has_referrer =
     (case get_root t of
        (None, t) \<Rightarrow> (Inl Crash, path, t)
      | (Some root, t) \<Rightarrow>
          (case compare_paths root path of
             PATH1_IS_PREFIX \<Rightarrow>
               (let prefix_len = (if length root = 1 then 0 else length root)
                in (Inr (length path - prefix_len + 1), drop prefix_len path, t))
           | PATHS_ARE_EQUAL \<Rightarrow> (Inr 2, ''/'', t)
           | _ \<Rightarrow> (if has_referrer then Inr 0 else Inl EPERM, path, t)))"

definition detranslate_follow :: "tracee \<Rightarrow> string \<Rightarrow> bool \<Rightarrow> nat res \<times> string \<times> tracee" where
  "detranslate_follow t path has_referrer =
     (case substitute_binding t HOST path of
        (Inr 0, path, t) \<Rightarrow> (Inr 0, path, t)
      | (Inr _, path, t) \<Rightarrow>
          (case normalize_cwd_alias_path t path of
             (status, path, t) \<Rightarrow> (Inr (if status \<noteq> 0 then status else length path + 1), path, t))
      | (Inl Crash, path, t) \<Rightarrow> (Inl Crash, path, t)
      | (Inl _, path, t) \<Rightarrow> detranslate_root t path has_referrer)"

definition follows_binding :: "tracee \<Rightarrow> string \<Rightarrow> string \<Rightarrow> bool res \<times> tracee" where
  "follows_binding t path referrer =
     (case belongs_to_guestfs t referrer of
        (Inl e, t) \<Rightarrow> (Inl e, t)
      | (Inr True, t) \<Rightarrow> (Inr True, t)
      | (Inr False, t) \<Rightarrow>
          (case get_path_binding t HOST path of
             (b_to, t) \<Rightarrow>
               (case get_path_binding t HOST referrer of
                  (b_from, t) \<Rightarrow>
                    (case (b_to, b_from) of
                       (Some x, Some y) \<Rightarrow> (Inr (compare_paths x y = PATHS_ARE_EQUAL), t)
                     | _ \<Rightarrow> (Inr True, t)))))"

definition detranslate_path ::
  "(int \<Rightarrow> tracee option) \<Rightarrow> tracee \<Rightarrow> string \<Rightarrow> string option \<Rightarrow> nat res \<times> string \<times> tracee" where
  "detranslate_path tracees t path referrer =
     (if length path \<ge> PATH_MAX then (Inl ENAMETOOLONG, path, t)
      else if c_at path 0 \<noteq> slash then (Inr 0, path, t)
      else if is_proc_path path then (Inr (length path + 1), path, t)
      else case referrer of
             None \<Rightarrow> detranslate_follow t path False
           | Some ref \<Rightarrow>
               if compare_paths ''/proc/'' ref = PATH1_IS_PREFIX then
                 (case readlink_proc2 tracees t ref of
                    Inl e \<Rightarrow> (Inl e, path, t)
                  | Inr (Some r) \<Rightarrow> (Inr (length r + 1), r, t)
                  | Inr None \<Rightarrow> detranslate_follow t path True)
               else
                 (case follows_binding t path ref of
                    (Inl e, t) \<Rightarrow> (Inl e, path, t)
                  | (Inr True, t) \<Rightarrow> detranslate_follow t path True
                  | (Inr False, t) \<Rightarrow> detranslate_root t path True))"

section \<open>The writable map files of a process\<close>

datatype map_slot = UID_MAP | GID_MAP | SETGROUPS

definition proc_map_slot :: "tracee \<Rightarrow> string \<Rightarrow> map_slot option" where
  "proc_map_slot t path =
     (let entry = (if prefix ''/proc/self/'' path then Some (drop 11 path)
                   else if prefix (proc_pid (t_pid t) @ ''/'') path
                   then Some (drop (length (proc_pid (t_pid t)) + 1) path) else None)
      in case entry of
           None \<Rightarrow> None
         | Some e \<Rightarrow>
             if e = ''uid_map'' then Some UID_MAP
             else if e = ''gid_map'' then Some GID_MAP
             else if e = ''setgroups'' then Some SETGROUPS else None)"

definition map_file :: "map_slot \<Rightarrow> tracee \<Rightarrow> string option" where
  "map_file s t = (case s of UID_MAP \<Rightarrow> proc_uid_map t | GID_MAP \<Rightarrow> proc_gid_map t | SETGROUPS \<Rightarrow> proc_setgroups t)"

definition set_map_file :: "map_slot \<Rightarrow> string option \<Rightarrow> tracee \<Rightarrow> tracee" where
  "set_map_file s f t =
     (case s of UID_MAP \<Rightarrow> t\<lparr>proc_uid_map := f\<rparr> | GID_MAP \<Rightarrow> t\<lparr>proc_gid_map := f\<rparr>
      | SETGROUPS \<Rightarrow> t\<lparr>proc_setgroups := f\<rparr>)"

end
