(* ===== verification/Canon.thy ===== *)
theory Canon
  imports Proc
begin

text \<open>
  \<open>canonicalize\<close> of \<^verbatim>\<open>src/path/canon.c\<close>, with \<open>substitute_binding_stat\<close> and \<open>build_glue\<close>
  (\<^verbatim>\<open>src/path/glue.c\<close>). The kernel, the file systems and the extensions are the fields of
  \<open>fs_env\<close>: each call takes a world of any type and returns the next one, so that a file may change
  between two calls. One turn of the loop is \<open>canon_step\<close>; the loop and the recursion through
  symbolic links are \<open>canon_loop\<close> and \<open>canonicalize\<close>, which reads its buffer up to the first NUL.
\<close>

section \<open>What lies outside\<close>

text \<open>
  \<open>host_path_hook\<close> is \<open>notify_extensions\<close> with the event \<open>HOST_PATH\<close>, \<open>stale_mode\<close> the contents of
  the local \<open>statl.st_mode\<close> when \<open>lstat(2)\<close> has failed and left it unset, \<open>junk\<close> the bytes of a
  local buffer that \<open>join_paths\<close> left without a terminator, \<open>max_symlinks\<close> is \<open>MAXSYMLINKS\<close>.
\<close>

record 'w fs_env =
  tracees :: "int \<Rightarrow> tracee option"
  host_path_hook :: "string \<Rightarrow> bool \<Rightarrow> 'w \<Rightarrow> (unit res \<times> string) \<times> 'w"
  f2fs_skip :: "string \<Rightarrow> 'w \<Rightarrow> bool \<times> 'w"
  k_lstat :: "string \<Rightarrow> 'w \<Rightarrow> file_type res \<times> 'w"
  k_readlink :: "string \<Rightarrow> 'w \<Rightarrow> string res \<times> 'w"
  k_mkdir :: "string \<Rightarrow> nat \<Rightarrow> 'w \<Rightarrow> unit res \<times> 'w"
  k_mknod :: "string \<Rightarrow> nat \<Rightarrow> file_type \<Rightarrow> 'w \<Rightarrow> unit res \<times> 'w"
  temp_directory :: "'w \<Rightarrow> string option \<times> 'w"
  dont_pollute :: bool
  stale_mode :: "'w \<Rightarrow> file_type option"
  junk :: string
  max_symlinks :: nat

definition RESOLVE_NO_MAGICLINKS :: word_t where "RESOLVE_NO_MAGICLINKS = 2"
definition RESOLVE_NO_SYMLINKS :: word_t where "RESOLVE_NO_SYMLINKS = 4"
definition O_PATH :: word_t where "O_PATH = 0x200000"
definition O_NOFOLLOW :: word_t where "O_NOFOLLOW = 0x8000"

section \<open>Glue\<close>

definition glue_bind ::
  "file_type \<Rightarrow> string \<Rightarrow> tracee \<Rightarrow> 'w \<Rightarrow> file_type option res \<times> tracee \<times> 'w" where
  "glue_bind type guestp t w =
     (let g = the (glue t) in
      if length g \<ge> PATH_MAX \<or> length guestp \<ge> PATH_MAX then (Inr None, t, w)
      else (Inr (Some type), snd (insort_binding3 g guestp t), w))"

text \<open>The mode 493 is octal 755.\<close>

definition glue_make ::
  "'w fs_env \<Rightarrow> string \<Rightarrow> string \<Rightarrow> finality \<Rightarrow> tracee \<Rightarrow> 'w \<Rightarrow> file_type option res \<times> tracee \<times> 'w" where
  "glue_make env guestp hostp fin t w =
     (let cmp = compare_paths (the (glue t)) hostp;
          in_glue = (cmp = PATHS_ARE_EQUAL \<or> cmp = PATH1_IS_PREFIX);
          type = (if IS_FINAL fin then the (glue_type t) else S_IFDIR);
          mode = (if IS_FINAL fin then (if in_glue then 493 else 0) else 493)
      in if dont_pollute env \<and> \<not> in_glue then glue_bind type guestp t w
         else case (if type = S_IFDIR then k_mkdir env hostp mode w
                    else k_mknod env hostp mode type w) of
           (status, w) \<Rightarrow>
             let t = (if isl status \<or> in_glue then t
                      else t\<lparr>placeholders := placeholders t @ [hostp]\<rparr>)
             in if \<not> isl status \<or> status = Inl EEXIST \<or> IS_FINAL fin then (Inr (Some type), t, w)
                else if in_glue then (Inr None, t, w)
                else glue_bind type guestp t w)"

definition build_glue ::
  "'w fs_env \<Rightarrow> string \<Rightarrow> string \<Rightarrow> finality \<Rightarrow> tracee \<Rightarrow> 'w \<Rightarrow> file_type option res \<times> tracee \<times> 'w" where
  "build_glue env guestp hostp fin t w =
     (if glue_type t = None then (Inl Crash, t, w)
      else case glue t of
        Some _ \<Rightarrow> glue_make env guestp hostp fin t w
      | None \<Rightarrow>
          (case temp_directory env w of
             (None, w) \<Rightarrow> (Inr None, t, w)
           | (Some d, w) \<Rightarrow> glue_make env guestp hostp fin (t\<lparr>glue := Some d\<rparr>) w))"

section \<open>The type of a guest path\<close>

definition android_ro_dirs :: "string list" where
  "android_ro_dirs = [''/linkerconfig'', ''/system'', ''/vendor'']"

definition stat_host :: "'w fs_env \<Rightarrow> string \<Rightarrow> 'w \<Rightarrow> file_type res \<times> 'w" where
  "stat_host env hostp w =
     (case f2fs_skip env hostp w of
        (True, w) \<Rightarrow> (Inl ENOENT, w)
      | (False, w) \<Rightarrow>
          (case k_lstat env hostp w of
             (Inl EACCES, w) \<Rightarrow>
               (if hostp \<in> set android_ro_dirs then (Inr S_IFDIR, w) else (Inl EACCES, w))
           | (r, w) \<Rightarrow> (r, w)))"

text \<open>What \<open>substitute_binding_stat\<close> makes of the result of \<open>lstat\<close>, \<open>failed\<close> when it was an error.\<close>

definition judge_mode :: "finality \<Rightarrow> bool \<Rightarrow> file_type option \<Rightarrow> bool res" where
  "judge_mode fin failed mode =
     (if \<not> IS_FINAL fin \<and> mode \<noteq> Some S_IFDIR \<and> mode \<noteq> Some S_IFLNK
      then Inl (if failed then ENOENT else ENOTDIR)
      else Inr (mode = Some S_IFLNK))"

definition substitute_binding_stat ::
  "'w fs_env \<Rightarrow> finality \<Rightarrow> nat \<Rightarrow> string \<Rightarrow> tracee \<Rightarrow> 'w \<Rightarrow> bool res \<times> string \<times> tracee \<times> 'w" where
  "substitute_binding_stat env fin level guestp t w =
     (case substitute_binding t GUEST guestp of
        (Inl e, hostp, t) \<Rightarrow> (Inl e, hostp, t, w)
      | (Inr _, hostp, t) \<Rightarrow>
          (case host_path_hook env hostp (IS_FINAL fin \<and> level = 0) w of
             ((Inl e, hostp), w) \<Rightarrow> (Inl e, hostp, t, w)
           | ((Inr _, hostp), w) \<Rightarrow>
               (case stat_host env hostp w of
                  (Inr mode, w) \<Rightarrow> (judge_mode fin False (Some mode), hostp, t, w)
                | (Inl _, w) \<Rightarrow>
                    if glue_type t \<noteq> None then
                      (case build_glue env guestp hostp fin t w of
                         (Inl e, t, w) \<Rightarrow> (Inl e, hostp, t, w)
                       | (Inr None, t, w) \<Rightarrow> (Inl EPERM, hostp, t, w)
                       | (Inr (Some mode), t, w) \<Rightarrow> (judge_mode fin False (Some mode), hostp, t, w))
                    else (judge_mode fin True (stale_mode env w), hostp, t, w))))"

section \<open>One component\<close>

datatype canon_out =
  Fail errno            \<comment> \<open>return a negative status\<close>
| Return string         \<comment> \<open>return 0 with this guest path\<close>
| Next string finality  \<comment> \<open>go on with this guest path\<close>
| Follow string         \<comment> \<open>\<open>canon_symlink\<close>: canonicalize this target first\<close>

definition append_comp :: "string \<Rightarrow> string \<Rightarrow> finality \<Rightarrow> canon_out" where
  "append_comp guestp cname fin =
     (case join2 guestp cname of Inl e \<Rightarrow> Fail e | Inr g \<Rightarrow> Next g fin)"

text \<open>\<open>readlink(2)\<close> of the host link, and its target seen from the guest.\<close>

definition follow_link ::
  "'w fs_env \<Rightarrow> nat \<Rightarrow> string \<Rightarrow> string \<Rightarrow> finality \<Rightarrow> string \<Rightarrow> tracee \<Rightarrow> 'w \<Rightarrow> canon_out \<times> tracee \<times> 'w" where
  "follow_link env level guestp cname fin hostp t w =
     (case k_readlink env hostp w of
        (Inl e, w) \<Rightarrow>
          (case k_lstat env hostp w of
             (Inr mode, w) \<Rightarrow>
               (if mode \<noteq> S_IFLNK then (append_comp guestp cname fin, t, w) else (Fail e, t, w))
           | (Inl _, w) \<Rightarrow> (Fail e, t, w))
      | (Inr target, w) \<Rightarrow>
          (case detranslate_path (tracees env) t (take (PATH_MAX - 1) target) (Some hostp) of
             (Inl e, _, t) \<Rightarrow> (Fail e, t, w)
           | (Inr _, target, t) \<Rightarrow>
               (case host_path_hook env target (IS_FINAL fin \<and> level = 0) w of
                  ((Inl e, _), w) \<Rightarrow> (Fail e, t, w)
                | ((Inr _, target), w) \<Rightarrow> (Follow target, t, w))))"

text \<open>The restrictions of \<open>openat2\<close>: what to do at a symbolic link, if anything.\<close>

definition openat2_check ::
  "tracee \<Rightarrow> nat \<Rightarrow> string \<Rightarrow> string \<Rightarrow> finality \<Rightarrow> string \<Rightarrow> canon_out option" where
  "openat2_check t level guestp cname fin scratch =
     (let resolve = openat2_resolve t in
      if resolve = 0 then None
      else if resolve AND RESOLVE_NO_SYMLINKS \<noteq> 0 then
        (if \<not> (IS_FINAL fin \<and> level = 0 \<and> openat2_oflags t AND O_PATH \<noteq> 0 \<and>
               openat2_oflags t AND O_NOFOLLOW \<noteq> 0)
         then Some (Fail ELOOP) else Some (append_comp guestp cname fin))
      else if resolve AND RESOLVE_NO_MAGICLINKS \<noteq> 0 \<and>
              (compare_paths ''/proc'' scratch = PATHS_ARE_EQUAL \<or>
               compare_paths ''/proc'' scratch = PATH1_IS_PREFIX)
      then Some (Fail ELOOP) else None)"

definition canon_link ::
  "'w fs_env \<Rightarrow> nat \<Rightarrow> string \<Rightarrow> string \<Rightarrow> finality \<Rightarrow> string \<Rightarrow> tracee \<Rightarrow> 'w \<Rightarrow> canon_out \<times> tracee \<times> 'w" where
  "canon_link env level guestp cname fin hostp t w =
     (let cmp = compare_paths ''/proc'' guestp in
      if cmp = PATHS_ARE_EQUAL \<or> cmp = PATH1_IS_PREFIX then
        (case readlink_proc (tracees env) t guestp cname cmp of
           Inl e \<Rightarrow> (Fail e, t, w)
         | Inr (CANONICALIZE, r) \<Rightarrow> (Follow r, t, w)
         | Inr (DONT_CANONICALIZE, r) \<Rightarrow>
             (if fin = FINAL_NORMAL then (Return r, t, w)
              else follow_link env level guestp cname fin hostp t w)
         | Inr (DEFAULT, _) \<Rightarrow> follow_link env level guestp cname fin hostp t w)
      else follow_link env level guestp cname fin hostp t w)"

definition canon_step ::
  "'w fs_env \<Rightarrow> bool \<Rightarrow> nat \<Rightarrow> string \<Rightarrow> string \<Rightarrow> finality \<Rightarrow> tracee \<Rightarrow> 'w \<Rightarrow> canon_out \<times> tracee \<times> 'w" where
  "canon_step env deref_final level guestp cname fin t w =
     (if cname = ''.'' then (Next guestp (if IS_FINAL fin then FINAL_DOT else fin), t, w)
      else if cname = ''..'' then
        (Next (pop_component guestp) (if IS_FINAL fin then FINAL_SLASH else fin), t, w)
      else case join2 guestp cname of
        Inl e \<Rightarrow> (Fail e, t, w)
      | Inr scratch \<Rightarrow>
          (case substitute_binding_stat env fin level scratch t w of
             (Inl e, hostp, t, w) \<Rightarrow> (Fail e, t, w)
           | (Inr link, hostp, t, w) \<Rightarrow>
               (case (if link then openat2_check t level guestp cname fin scratch else None) of
                  Some out \<Rightarrow> (out, t, w)
                | None \<Rightarrow>
                    if \<not> link \<or> (fin = FINAL_NORMAL \<and> \<not> deref_final)
                    then (append_comp guestp cname fin, t, w)
                    else canon_link env level guestp cname fin hostp t w)))"

section \<open>The whole path\<close>

text \<open>At the outermost level the finality is written back. The status of \<open>join_paths\<close> is not
  looked at.\<close>

definition canon_finish :: "'w fs_env \<Rightarrow> nat \<Rightarrow> finality \<Rightarrow> string \<Rightarrow> string" where
  "canon_finish env level fin guestp =
     (if level \<noteq> 0 then guestp
      else case fin of
        FINAL_SLASH \<Rightarrow> join_buffer (junk env) [] [Some guestp, Some []]
      | FINAL_DOT \<Rightarrow> join_buffer (junk env) [] [Some guestp, Some ''.'']
      | _ \<Rightarrow> guestp)"

text \<open>
  Every call of \<open>canonicalize\<close> returns: a link raises the level, which is bounded by
  \<open>MAXSYMLINKS\<close>, and within a level the cursor moves on.
\<close>

definition canon_rank :: "'w fs_env \<Rightarrow> nat \<Rightarrow> bool \<Rightarrow> nat" where
  "canon_rank env level entry =
     (if entry then (if level > max_symlinks env then 0 else 2 * (max_symlinks env + 1 - level) + 2)
      else 2 * (max_symlinks env + 1 - level) + 1)"

function (sequential)
  canonicalize ::
    "'w fs_env \<Rightarrow> string \<Rightarrow> bool \<Rightarrow> string \<Rightarrow> nat \<Rightarrow> tracee \<Rightarrow> 'w \<Rightarrow> string res \<times> tracee \<times> 'w" and
  canon_loop ::
    "'w fs_env \<Rightarrow> string \<Rightarrow> bool \<Rightarrow> string \<Rightarrow> nat \<Rightarrow> nat \<Rightarrow> tracee \<Rightarrow> 'w \<Rightarrow> string res \<times> tracee \<times> 'w"
where
  "canonicalize env buf deref_final guestp level t w =
     (let user_path = c_str buf in
      if level > max_symlinks env then (Inl ELOOP, t, w)
      else if length user_path \<ge> PATH_MAX then (Inl ENAMETOOLONG, t, w)
      else if c_at user_path 0 = slash \<or> (c_at guestp 0 \<noteq> slash \<and> level = 0)
      then canon_loop env user_path deref_final ''/'' level 0 t w
      else if c_at guestp 0 \<noteq> slash then (Inl EINVAL, t, w)
      else canon_loop env user_path deref_final guestp level 0 t w)"
| "canon_loop env cursor deref_final guestp level followed t w =
     (case next_component cursor of
        Inl e \<Rightarrow> (Inl e, t, w)
      | Inr (cname, fin, rest) \<Rightarrow>
          (case canon_step env deref_final level guestp cname fin t w of
             (Fail e, t, w) \<Rightarrow> (Inl e, t, w)
           | (Return g, t, w) \<Rightarrow> (Inr g, t, w)
           | (Next g fin', t, w) \<Rightarrow>
               (if fin = NOT_FINAL then canon_loop env rest deref_final g level followed t w
                else (Inr (canon_finish env level fin' g), t, w))
           | (Follow target, t, w) \<Rightarrow>
               (case canonicalize env target True guestp (level + (followed + 1)) t w of
                  (Inl e, t, w) \<Rightarrow> (Inl e, t, w)
                | (Inr g, t, w) \<Rightarrow>
                    (case substitute_binding_stat env fin level g t w of
                       (Inl e, _, t, w) \<Rightarrow> (Inl e, t, w)
                     | (Inr _, _, t, w) \<Rightarrow>
                         if fin = NOT_FINAL
                         then canon_loop env rest deref_final g level (followed + 1) t w
                         else (Inr (canon_finish env level fin g), t, w)))))"
  by pat_completeness auto

termination
  by (relation "measures
        [\<lambda>x. case x of Inl (env, _, _, _, level, _, _) \<Rightarrow> canon_rank env level True
              | Inr (env, _, _, _, level, _, _, _) \<Rightarrow> canon_rank env level False,
         \<lambda>x. case x of Inl _ \<Rightarrow> 0 | Inr (_, cursor, _, _, _, _, _, _) \<Rightarrow> length cursor]")
     (auto simp: canon_rank_def next_component_decreases)

declare canonicalize.simps [simp del] canon_loop.simps [simp del]

end
