(* ===== verification/Canon_Spec.thy ===== *)
theory Canon_Spec
  imports Canon Binding_Spec
begin

text \<open>
  What \<open>canonicalize\<close> guarantees, whatever the file systems, the extensions and the other
  processes do: the path it returns is canonical, up to the final \<^verbatim>\<open>/.\<close> it adds, and it has no
  component \<^verbatim>\<open>..\<close> left; and the binding table is coherent afterwards.
\<close>

section \<open>Decimal numbers are components\<close>

lemma of_char_digit: "d < 10 \<Longrightarrow> (of_char (char_of (48 + d) :: char) :: nat) = 48 + d"
  by simp

lemma is_digit_char_of: "d < 10 \<Longrightarrow> is_digit (char_of (48 + d :: nat))"
  by (simp add: is_digit_def)

lemma decimal_digits: "\<forall>c\<in>set (decimal n). is_digit c"
proof (induction n rule: decimal.induct)
  case (1 n)
  show ?case
    using 1 is_digit_char_of [of n] is_digit_char_of [of "n mod 10"]
    by (subst decimal.simps) (auto simp del: of_char_of)
qed

lemma decimal_nonempty [simp]: "decimal n \<noteq> []"
  by (subst decimal.simps) simp

lemma length_decimal: "n < 10 ^ Suc k \<Longrightarrow> length (decimal n) \<le> Suc k"
proof (induction k arbitrary: n)
  case 0
  then show ?case by (subst decimal.simps) simp
next
  case (Suc k)
  then have "n div 10 < 10 ^ Suc k" by (simp add: less_mult_imp_div_less mult.commute)
  from Suc.IH [OF this] show ?case by (subst decimal.simps) simp
qed

lemma digit_plain: "is_digit c \<Longrightarrow> c \<noteq> slash \<and> c \<noteq> NUL \<and> c \<noteq> CHR ''.''"
  by (auto simp: is_digit_def)

lemma decimal_int_good: "good_comp (decimal_int i)"
proof -
  have d: "slash \<notin> set (decimal n) \<and> NUL \<notin> set (decimal n) \<and> CHR ''.'' \<notin> set (decimal n)" for n
    using decimal_digits [of n] digit_plain by blast
  have nd: "decimal n \<noteq> ''.''" "decimal n \<noteq> ''..''" for n using d [of n] by auto
  show ?thesis using d nd by (auto simp: decimal_int_def good_comp_def comp_ok_def)
qed

lemma length_decimal_int: "\<bar>i\<bar> < 10 ^ 10 \<Longrightarrow> length (decimal_int i) \<le> 11"
  using length_decimal [of "nat (- i)" 9] length_decimal [of "nat i" 9]
  by (auto simp: decimal_int_def nat_less_iff)

section \<open>The invariant of the guest path\<close>

definition cinv :: "string \<Rightarrow> bool" where
  "cinv g \<longleftrightarrow> canonical g \<and> length g + 1 < PATH_MAX"

lemma cinv_root [simp]: "cinv ''/''"
  using canonical_root by (simp add: cinv_def PATH_MAX_def)

lemma cinv_first: "cinv g \<Longrightarrow> c_at g 0 = slash"
  using canonical_ok c_at_render_0 unfolding cinv_def by metis

lemma canonical_pop: "canonical g \<Longrightarrow> canonical (pop_component g)"
proof -
  assume "canonical g"
  then obtain cs where cs: "list_all good_comp cs" "g = render cs" by (auto simp: canonical_def)
  then have "pop_component g = render (butlast cs)" by (simp add: pop_component_render list_all_good_ok)
  moreover have "list_all good_comp (butlast cs)" using cs(1) by (auto simp: list_all_iff dest: in_set_butlastD)
  ultimately show ?thesis by simp
qed

lemma skip_back_le: "skip_back P p n \<le> n"
  by (induction P p n rule: skip_back.induct) auto

lemma length_pop: "length (pop_component g) \<le> length g"
  by (simp add: pop_component_def)

lemma cinv_pop: "cinv g \<Longrightarrow> cinv (pop_component g)"
  using canonical_pop length_pop [of g] by (auto simp: cinv_def)

lemma join2_Nil: "length g + 1 < PATH_MAX \<Longrightarrow> join2 g [] = Inr g"
  by (cases g) (auto simp: join_paths_def join_step_def Let_def)

lemma cinv_join:
  assumes "cinv g" "join2 g c = Inr g'" "c = [] \<or> good_comp c"
  shows "cinv g'"
proof (cases "c = []")
  case True
  with assms join2_Nil show ?thesis by (auto simp: cinv_def)
next
  case False
  with assms(3) have c: "good_comp c" by simp
  from assms(1) obtain cs where cs: "list_all good_comp cs" "g = render cs" by (auto simp: cinv_def canonical_def)
  from join2_render_comp_Inr [OF list_all_good_ok [OF cs(1)] good_comp_ok [OF c]] assms(2) cs(2)
  have g': "g' = render (cs @ [c])" by simp
  have "list_all good_comp (cs @ [c])" using cs(1) c by simp
  with g' have "canonical g'" using canonical_render by blast
  with join_paths_length [OF assms(2)] show ?thesis by (simp add: cinv_def)
qed

section \<open>Links below the proc file system\<close>

lemma proc_pid_render: "proc_pid pid = render [''proc'', decimal_int pid]"
  by (simp add: proc_pid_def)

lemma proc_pid_fd_render: "proc_pid_fd pid = render [''proc'', decimal_int pid, ''fd'']"
  by (simp add: proc_pid_fd_def proc_pid_def)

lemma good_proc: "good_comp ''proc''" "good_comp ''fd''"
  by (simp_all add: good_comp_def comp_ok_def)

lemma proc_prefix:
  assumes "list_all good_comp cs" "compare_paths ''/proc'' (render cs) = PATH1_IS_PREFIX"
  shows "\<exists>c rest. cs = ''proc'' # c # rest"
proof -
  have "compare_paths (render [''proc'']) (render cs) = PATH1_IS_PREFIX" using assms(2) by simp
  then have "prefix [''proc''] cs" "cs \<noteq> [''proc'']"
    using compare_paths_render [of "[''proc'']" cs] good_proc assms(1)
    by (auto simp: list_all_good_ok good_comp_ok split: if_splits)
  then show ?thesis by (cases cs; cases "tl cs") auto
qed

lemma normalize_self_canonical:
  assumes "canonical base" "compare_paths ''/proc'' base = PATH1_IS_PREFIX" "normalize_self pid base = Inr b"
  shows "canonical b"
proof (cases "b = base")
  case False
  from assms(1) obtain cs where cs: "list_all good_comp cs" "base = render cs" by (auto simp: canonical_def)
  with assms(2) proc_prefix obtain c rest where r: "cs = ''proc'' # c # rest" by blast
  then have base: "base = ''/proc/'' @ c @ body rest" using cs(2) by simp
  have c: "slash \<notin> set c" "NUL \<notin> set c" using cs(1) r by (auto simp: good_comp_def comp_ok_def)
  from assms(3) False have self: "take 4 (drop 6 base) = ''self''" "c_at base 10 = slash \<or> c_at base 10 = NUL"
    and b: "b = proc_pid pid @ drop 10 base"
    by (auto simp: normalize_self_def Let_def split: if_splits)
  have d6: "drop 6 base = c @ body rest" using base by simp
  have "length c = 4"
  proof (rule ccontr)
    assume ne: "length c \<noteq> 4"
    then consider "length c < 4" | "4 < length c" by linarith
    then show False
    proof cases
      case 1
      have "take 4 (c @ body rest) = c @ take (4 - length c) (body rest)" using 1 by simp
      moreover have "length (take 4 (c @ body rest)) = 4" using self(1) d6 by simp
      ultimately have "slash \<in> set (take 4 (c @ body rest))" using 1 by (cases rest; cases "4 - length c") auto
      with self(1) d6 show False by simp
    next
      case 2
      have "c_at base 10 = c ! 4" unfolding base using 2 by (simp add: c_at_def nth_append)
      with c 2 self(2) show False by (metis nth_mem)
    qed
  qed
  then have "drop 10 base = body rest" unfolding base by simp
  with b have "b = render (''proc'' # decimal_int pid # rest)" by (simp add: proc_pid_def)
  moreover have "list_all good_comp (''proc'' # decimal_int pid # rest)"
    using cs(1) r decimal_int_good good_proc by simp
  ultimately show ?thesis using canonical_render by blast
qed (use assms(1) in simp)

lemma canonical_compare_equal:
  assumes "canonical p" "canonical q"
  shows "compare_paths p q = PATHS_ARE_EQUAL \<longleftrightarrow> p = q"
proof -
  note p = canonical_ok [OF assms(1)] and q = canonical_ok [OF assms(2)]
  have "comps p = comps q \<longleftrightarrow> p = q" using p q by metis
  then show ?thesis
    using compare_paths_render [OF conjunct1 [OF p] conjunct1 [OF q]]
    unfolding p [THEN conjunct2, symmetric] q [THEN conjunct2, symmetric] by auto
qed

lemma atoi_bound: "\<bar>atoi s\<bar> < 10 ^ 10"
proof -
  obtain v a b where "strtol10 s = (v, a, b)" by (metis prod_cases3)
  moreover have "- (2 ^ 31) \<le> sint (word_of_int v :: 32 word)" "sint (word_of_int v :: 32 word) < 2 ^ 31"
    using sint_greater_eq [of "word_of_int v :: 32 word"] sint_less [of "word_of_int v :: 32 word"] by simp_all
  ultimately show ?thesis by (simp add: atoi_def)
qed

lemma substitute_link_dont: "substitute_link k c \<noteq> Inr (DONT_CANONICALIZE, r)"
  unfolding substitute_link_def Let_def by (simp split: option.split)

lemma readlink_proc_dont:
  assumes "readlink_proc trs t base c cmp = Inr (DONT_CANONICALIZE, r)"
  shows "\<exists>b. cmp = PATH1_IS_PREFIX \<and> normalize_self (t_pid t) base = Inr b \<and>
    compare_paths (proc_pid_fd (atoi (drop 6 b))) b = PATHS_ARE_EQUAL \<and> r = b @ slash # c \<and> c \<noteq> []"
proof -
  have cmp: "cmp = PATH1_IS_PREFIX"
    using assms by (cases cmp) (simp_all add: readlink_proc_def split: if_splits)
  obtain b where b: "normalize_self (t_pid t) base = Inr b"
    using assms cmp by (cases "normalize_self (t_pid t) base") (simp_all add: readlink_proc_def)
  let ?pid = "atoi (drop 6 b)"
  have nz: "?pid \<noteq> 0" using assms cmp b by (auto simp: readlink_proc_def)
  have p1: "compare_paths (proc_pid ?pid) b = PATH1_IS_PREFIX"
  proof (cases "compare_paths (proc_pid ?pid) b")
    case PATHS_ARE_EQUAL
    with assms cmp b nz show ?thesis
      by (cases "trs ?pid") (simp_all add: readlink_proc_def Let_def substitute_link_dont)
  qed (use assms cmp b nz in \<open>simp_all add: readlink_proc_def Let_def\<close>)
  obtain v e o' where st: "strtol10 c = (v, e, o')" by (metis prod_cases3)
  have "readlink_proc trs t base c cmp =
      (if compare_paths (proc_pid_fd ?pid) b = PATHS_ARE_EQUAL then
         (if o' \<or> e = c then Inl EPERM
          else if length (b @ slash # c) \<ge> PATH_MAX then Inl EPERM
          else Inr (DONT_CANONICALIZE, b @ slash # c))
       else Inr (DEFAULT, []))"
    unfolding readlink_proc_def cmp comparison.case b sum.case Let_def if_not_P [OF nz] p1 st prod.case ..
  with assms have "(if compare_paths (proc_pid_fd ?pid) b = PATHS_ARE_EQUAL then
         (if o' \<or> e = c then Inl EPERM
          else if length (b @ slash # c) \<ge> PATH_MAX then Inl EPERM
          else Inr (DONT_CANONICALIZE, b @ slash # c))
       else Inr (DEFAULT, [])) = (Inr (DONT_CANONICALIZE, r) :: (action \<times> string) res)" by simp
  then have "compare_paths (proc_pid_fd ?pid) b = PATHS_ARE_EQUAL \<and> r = b @ slash # c \<and> e \<noteq> c"
    by (simp split: if_split_asm)
  moreover have "strtol10 [] = (0, [], False)" by (simp add: strtol10_def c_at_def)
  then have "c = [] \<Longrightarrow> e = c" using st by simp
  ultimately show ?thesis using cmp b by blast
qed

text \<open>The path that \<open>DONT_CANONICALIZE\<close> returns at once is canonical.\<close>

lemma readlink_proc_return:
  assumes "cinv base" "c = [] \<or> good_comp c" "length c < NAME_MAX" "cmp = compare_paths ''/proc'' base"
    and "readlink_proc trs t base c cmp = Inr (DONT_CANONICALIZE, r)"
  shows "cinv r"
proof -
  from readlink_proc_dont [OF assms(5)] obtain b where cmp: "cmp = PATH1_IS_PREFIX"
    and b: "normalize_self (t_pid t) base = Inr b"
    and eq: "compare_paths (proc_pid_fd (atoi (drop 6 b))) b = PATHS_ARE_EQUAL"
    and r: "r = b @ slash # c" and "c \<noteq> []" by blast
  then have c: "good_comp c" using assms(2) by blast
  have cb: "canonical b"
    using normalize_self_canonical [OF _ _ b] assms(1,4) cmp by (simp add: cinv_def)
  let ?pid = "atoi (drop 6 b)"
  have can: "canonical (proc_pid_fd n)" for n
    unfolding proc_pid_fd_render using good_proc decimal_int_good by (intro canonical_render) simp
  from canonical_compare_equal [OF can cb] eq have bb: "proc_pid_fd ?pid = b" by (rule iffD1)
  obtain n where n: "b = proc_pid_fd n" "\<bar>n\<bar> < 10 ^ 10"
    using bb [symmetric] atoi_bound by (rule that)
  have rr: "r = render [''proc'', decimal_int n, ''fd'', c]"
    unfolding r n(1) by (simp add: proc_pid_fd_render)
  have "list_all good_comp [''proc'', decimal_int n, ''fd'', c]"
    using good_proc decimal_int_good c by simp
  then have "canonical r" unfolding rr by (rule canonical_render)
  moreover have "length (decimal_int n) \<le> 11" by (rule length_decimal_int [OF n(2)])
  ultimately show ?thesis using assms(3) unfolding cinv_def rr PATH_MAX_def NAME_MAX_def by simp
qed

section \<open>The binding table is left coherent\<close>

lemma same_table_trans: "same_table t u \<Longrightarrow> same_table u v \<Longrightarrow> same_table t v"
  by (simp add: same_table_def)

lemma same_table_refl [simp]: "same_table t t"
  by (simp add: same_table_def)

lemma belongs_spec:
  "bind_inv t \<Longrightarrow> belongs_to_guestfs t p = (r, t') \<Longrightarrow> bind_inv t' \<and> same_table t t'"
  using get_root_spec by (auto simp: belongs_to_guestfs_def split: prod.splits option.splits)

lemma normalize_alias_spec:
  assumes "bind_inv t" "normalize_cwd_alias_path t p = (n, q, t')"
  shows "bind_inv t' \<and> same_table t t'"
proof -
  obtain r u where g: "get_binding t GUEST p = (r, u)" by fastforce
  from assms(2) g have "t' = t \<or> t' = u"
    by (auto simp: normalize_cwd_alias_path_def split: option.splits if_splits)
  with get_binding_spec [OF assms(1) g] assms(1) show ?thesis by auto
qed

lemma detranslate_root_spec:
  assumes "bind_inv t" "detranslate_root t p b = (n, q, t')"
  shows "bind_inv t' \<and> same_table t t'"
proof -
  obtain r u where g: "get_root t = (r, u)" by fastforce
  from assms(2) g have "t' = u"
    by (auto simp: detranslate_root_def Let_def split: option.splits comparison.splits)
  with get_root_spec(1,2) [OF assms(1) g] show ?thesis by simp
qed

lemma detranslate_follow_spec:
  assumes "bind_inv t" "detranslate_follow t p b = (n, q, t')"
  shows "bind_inv t' \<and> same_table t t'"
proof -
  obtain r p1 u where g: "substitute_binding t HOST p = (r, p1, u)" by (metis prod_cases3)
  note u = substitute_binding_spec [OF assms(1) g]
  obtain m p2 v where n: "normalize_cwd_alias_path u p1 = (m, p2, v)" by (metis prod_cases3)
  have "t' = u \<or> t' = v \<or> (\<exists>n q. detranslate_root u p1 b = (n, q, t'))"
  proof (cases r)
    case (Inl e)
    with assms(2) g show ?thesis by (cases e) (auto simp: detranslate_follow_def)
  next
    case (Inr k)
    with assms(2) g n show ?thesis by (cases k) (auto simp: detranslate_follow_def)
  qed
  then show ?thesis
    using u normalize_alias_spec [OF u(1) n] detranslate_root_spec [OF u(1)] same_table_trans by metis
qed

lemma get_path_binding_spec:
  assumes "bind_inv t" "get_path_binding t s p = (r, t')"
  shows "bind_inv t' \<and> same_table t t'"
proof -
  obtain b u where g: "get_binding t s p = (b, u)" by fastforce
  from assms(2) g have "t' = u" by (auto simp: get_path_binding_def split: option.splits)
  with get_binding_spec [OF assms(1) g] show ?thesis by simp
qed

lemma follows_spec:
  assumes "bind_inv t" "follows_binding t p f = (r, t')"
  shows "bind_inv t' \<and> same_table t t'"
proof -
  obtain r1 u where b: "belongs_to_guestfs t f = (r1, u)" by fastforce
  note u = belongs_spec [OF assms(1) b]
  obtain r2 v where v: "get_path_binding u HOST p = (r2, v)" by fastforce
  note v' = get_path_binding_spec [OF conjunct1 [OF u] v]
  obtain r3 x where x: "get_path_binding v HOST f = (r3, x)" by fastforce
  note x' = get_path_binding_spec [OF conjunct1 [OF v'] x]
  have "t' = u \<or> t' = x"
    using assms(2) b v x
    by (auto simp: follows_binding_def split: sum.splits bool.splits option.splits)
  with u v' x' show ?thesis using same_table_trans by metis
qed

lemma detranslate_path_spec:
  assumes "bind_inv t" "detranslate_path trs t p f = (n, q, t')"
  shows "bind_inv t' \<and> same_table t t'"
proof -
  have "t' = t \<or> (\<exists>b n q. detranslate_follow t p b = (n, q, t')) \<or>
     (\<exists>f r u. follows_binding t p f = (r, u) \<and>
        (t' = u \<or> (\<exists>n q. detranslate_follow u p True = (n, q, t')) \<or>
         (\<exists>n q. detranslate_root u p True = (n, q, t'))))"
    using assms(2) unfolding detranslate_path_def
    by (auto split: if_splits option.splits sum.splits prod.splits bool.splits) blast+
  then consider "t' = t" | b n q where "detranslate_follow t p b = (n, q, t')"
    | g r u where "follows_binding t p g = (r, u)"
        "t' = u \<or> (\<exists>n q. detranslate_follow u p True = (n, q, t')) \<or> (\<exists>n q. detranslate_root u p True = (n, q, t'))"
    by blast
  then show ?thesis
  proof cases
    case 1
    with assms(1) show ?thesis by simp
  next
    case 2
    with assms(1) show ?thesis by (rule detranslate_follow_spec)
  next
    case 3
    note u = follows_spec [OF assms(1) 3(1)]
    from 3(2) have "bind_inv t' \<and> same_table u t'"
    proof (elim disjE exE)
      assume "t' = u" with u show ?thesis by simp
    next
      fix n q assume "detranslate_follow u p True = (n, q, t')"
      then show ?thesis by (rule detranslate_follow_spec [OF conjunct1 [OF u]])
    next
      fix n q assume "detranslate_root u p True = (n, q, t')"
      then show ?thesis by (rule detranslate_root_spec [OF conjunct1 [OF u]])
    qed
    with u same_table_trans show ?thesis by blast
  qed
qed

lemma bind_inv_glue [simp]:
  "bind_inv (t\<lparr>glue := g\<rparr>) = bind_inv t" "bind_inv (t\<lparr>placeholders := l\<rparr>) = bind_inv t"
proof -
  have b: "blist (t\<lparr>glue := g\<rparr>) s = blist t s" "blist (t\<lparr>placeholders := l\<rparr>) s = blist t s" for s
    by (cases s; simp add: blist_def)+
  show "bind_inv (t\<lparr>glue := g\<rparr>) = bind_inv t" "bind_inv (t\<lparr>placeholders := l\<rparr>) = bind_inv t"
    by (simp_all add: bind_inv_def linked_def b sort_by_desc_length_def)
qed

lemma bind_inv_insort3: "bind_inv t \<Longrightarrow> bind_inv (snd (insort_binding3 h g t))"
  unfolding insort_binding3_def using bind_inv_insort4(1) by (metis surjective_pairing)

lemma glue_make_inv:
  assumes "bind_inv t" "glue_make env gp hp fin t w = (r, t', w')"
  shows "bind_inv t'"
proof -
  have gb: "bind_inv u'" if "bind_inv u" "glue_bind ty g u x = (r, u', x')" for ty g u x r u' x'
    using that bind_inv_insort3 by (auto simp: glue_bind_def Let_def split: if_splits)
  let ?type = "if IS_FINAL fin then the (glue_type t) else S_IFDIR"
  let ?in = "compare_paths (the (glue t)) hp = PATHS_ARE_EQUAL \<or> compare_paths (the (glue t)) hp = PATH1_IS_PREFIX"
  let ?mode = "if IS_FINAL fin then (if ?in then 493 else 0) else 493"
  obtain st v where k: "(if ?type = S_IFDIR then k_mkdir env hp ?mode w
      else k_mknod env hp ?mode ?type w) = (st, v)" by fastforce
  show ?thesis
    using assms gb k unfolding glue_make_def Let_def
    by (auto split: if_splits prod.splits)
qed

lemma build_glue_inv:
  assumes "bind_inv t" "build_glue env gp hp fin t w = (r, t', w')"
  shows "bind_inv t'"
proof -
  obtain d v where d: "temp_directory env w = (d, v)" by fastforce
  have "t' = t \<or> (\<exists>g v. glue_make env gp hp fin (t\<lparr>glue := g\<rparr>) v = (r, t', w'))"
  proof (cases "glue_type t = None \<or> (glue t = None \<and> d = None)")
    case True
    with assms(2) d show ?thesis by (auto simp: build_glue_def split: if_splits option.splits)
  next
    case False
    then have nt: "glue_type t \<noteq> None" and gd: "glue t \<noteq> None \<or> d \<noteq> None" by auto
    show ?thesis
    proof (cases "glue t")
      case None
      with gd obtain x where "d = Some x" by blast
      with None nt d assms(2) show ?thesis unfolding build_glue_def if_not_P [OF nt] by auto
    next
      case (Some g)
      then have "t\<lparr>glue := Some g\<rparr> = t" by simp
      moreover have "glue_make env gp hp fin t w = (r, t', w')"
        using Some assms(2) unfolding build_glue_def if_not_P [OF nt] by simp
      ultimately show ?thesis by metis
    qed
  qed
  then show ?thesis
  proof (elim disjE exE)
    fix g v assume g: "glue_make env gp hp fin (t\<lparr>glue := g\<rparr>) v = (r, t', w')"
    have "bind_inv (t\<lparr>glue := g\<rparr>)" using assms(1) by simp
    from glue_make_inv [OF this g] show ?thesis .
  qed (use assms(1) in simp)
qed

lemma substitute_stat_inv:
  assumes "bind_inv t" "substitute_binding_stat env fin level p t w = (r, h, t', w')"
  shows "bind_inv t'"
proof -
  obtain r1 p1 u where s: "substitute_binding t GUEST p = (r1, p1, u)" by (metis prod_cases3)
  note u = substitute_binding_spec(1) [OF assms(1) s]
  have "t' = u \<or> (\<exists>gp hp w r w'. build_glue env gp hp fin u w = (r, t', w'))"
    using assms(2) s unfolding substitute_binding_stat_def
    by (auto split: sum.splits prod.splits if_splits option.splits)
  then show ?thesis
  proof (elim disjE exE)
    assume "t' = u" with u show ?thesis by simp
  next
    fix gp hp x s y assume "build_glue env gp hp fin u x = (s, t', y)"
    with u show ?thesis by (rule build_glue_inv)
  qed
qed

text \<open>What one turn of the loop may leave behind.\<close>

definition out_ok :: "canon_out \<Rightarrow> bool" where
  "out_ok out = (case out of Fail _ \<Rightarrow> True | Return g \<Rightarrow> cinv g | Next g _ \<Rightarrow> cinv g | Follow _ \<Rightarrow> True)"

lemma append_comp_ok: "cinv g \<Longrightarrow> c = [] \<or> good_comp c \<Longrightarrow> out_ok (append_comp g c fin)"
  using cinv_join by (auto simp: append_comp_def out_ok_def split: sum.splits)

lemma follow_link_ok:
  assumes "cinv g" "c = [] \<or> good_comp c" "bind_inv t" "follow_link env level g c fin h t w = (out, t', w')"
  shows "out_ok out \<and> bind_inv t'"
proof -
  have f: "out_ok (Fail e)" "out_ok (Follow s)" for e s by (simp_all add: out_ok_def)
  have a: "out_ok (append_comp g c fin)" using append_comp_ok assms(1,2) by blast
  obtain r v where k: "k_readlink env h w = (r, v)" by fastforce
  show ?thesis
  proof (cases r)
    case (Inl e)
    obtain r2 v2 where "k_lstat env h v = (r2, v2)" by fastforce
    with k Inl assms(3,4) f a show ?thesis
      by (cases r2) (auto simp: follow_link_def split: if_splits)
  next
    case (Inr target)
    obtain n q u where d: "detranslate_path (tracees env) t (take (PATH_MAX - 1) target) (Some h) = (n, q, u)"
      by (metis prod_cases3)
    note u = detranslate_path_spec [OF assms(3) d]
    obtain s q2 v2 where h: "host_path_hook env q (IS_FINAL fin \<and> level = 0) v = ((s, q2), v2)"
      by (metis surj_pair)
    from k Inr d h assms(4) u f show ?thesis
      by (cases n; cases s) (auto simp: follow_link_def)
  qed
qed

lemma canon_link_ok:
  assumes "cinv g" "c = [] \<or> good_comp c" "length c < NAME_MAX" "bind_inv t"
    and "canon_link env level g c fin h t w = (out, t', w')"
  shows "out_ok out \<and> bind_inv t'"
proof -
  note fl = follow_link_ok [OF assms(1) _ assms(4), of c env level fin h w out t' w']
  let ?cmp = "compare_paths ''/proc'' g"
  show ?thesis
  proof (cases "?cmp = PATHS_ARE_EQUAL \<or> ?cmp = PATH1_IS_PREFIX")
    case False
    with assms(5) fl assms(2) show ?thesis by (auto simp: canon_link_def)
  next
    case True
    show ?thesis
    proof (cases "readlink_proc (tracees env) t g c ?cmp")
      case (Inl e)
      with True assms(4,5) show ?thesis by (auto simp: canon_link_def out_ok_def)
    next
      case (Inr a)
      obtain act r where a: "a = (act, r)" by (cases a) auto
      have ret: "act = DONT_CANONICALIZE \<Longrightarrow> cinv r"
        using readlink_proc_return [OF assms(1,2,3) refl] Inr a by blast
      from True Inr a assms(2,4,5) ret fl show ?thesis
        by (cases act; cases "fin = FINAL_NORMAL") (auto simp: canon_link_def out_ok_def)
    qed
  qed
qed

lemma canon_step_ok:
  assumes "cinv g" "slash \<notin> set c" "NUL \<notin> set c" "length c < NAME_MAX" "bind_inv t"
    and "canon_step env d level g c fin t w = (out, t', w')"
  shows "out_ok out \<and> bind_inv t'"
proof -
  consider "c = ''.''" | "c = ''..''" | (name) "c \<noteq> ''.''" "c \<noteq> ''..''" by blast
  then show ?thesis
  proof cases
    case 1
    with assms(1,5,6) show ?thesis by (auto simp: canon_step_def out_ok_def)
  next
    case 2
    with assms(1,5,6) cinv_pop show ?thesis by (auto simp: canon_step_def out_ok_def)
  next
    case name
    then have c: "c = [] \<or> good_comp c" using assms(2,3) by (auto simp: good_comp_def comp_ok_def)
    note ap = append_comp_ok [OF assms(1) c]
    show ?thesis
    proof (cases "join2 g c")
      case (Inl e)
      with name assms(5,6) show ?thesis by (auto simp: canon_step_def out_ok_def)
    next
      case (Inr scratch)
      obtain r h u v where s: "substitute_binding_stat env fin level scratch t w = (r, h, u, v)"
        by (metis prod_cases4)
      note u = substitute_stat_inv [OF assms(5) s]
      show ?thesis
      proof (cases r)
        case (Inl e)
        with name Inr s assms(6) u show ?thesis by (auto simp: canon_step_def out_ok_def)
      next
        case (Inr link)
        let ?oc = "if link then openat2_check u level g c fin scratch else None"
        have oc: "out_ok o'" if "?oc = Some o'" for o'
          using that ap by (auto simp: openat2_check_def Let_def out_ok_def split: if_splits)
        have cs: "canon_step env d level g c fin t w = (case ?oc of Some o' \<Rightarrow> (o', u, v)
            | None \<Rightarrow> if \<not> link \<or> (fin = FINAL_NORMAL \<and> \<not> d) then (append_comp g c fin, u, v)
                    else canon_link env level g c fin h u v)"
          using name \<open>join2 g c = Inr scratch\<close> s Inr by (simp add: canon_step_def)
        show ?thesis
        proof (cases ?oc)
          case (Some o')
          with cs assms(6) oc u show ?thesis by simp
        next
          case None
          show ?thesis
          proof (cases "\<not> link \<or> (fin = FINAL_NORMAL \<and> \<not> d)")
            case True
            with None cs assms(6) ap u show ?thesis by simp
          next
            case False
            from cs None have "canon_step env d level g c fin t w =
                (if \<not> link \<or> (fin = FINAL_NORMAL \<and> \<not> d) then (append_comp g c fin, u, v)
                 else canon_link env level g c fin h u v)" by simp
            also have "\<dots> = canon_link env level g c fin h u v" using False by (rule if_not_P)
            finally have "canon_link env level g c fin h u v = (out, t', w')" using assms(6) by simp
            then show ?thesis by (rule canon_link_ok [OF assms(1) c assms(4) u])
          qed
        qed
      qed
    qed
  qed
qed

section \<open>The whole path\<close>

text \<open>What the outermost call returns: a canonical path, the path with \<^verbatim>\<open>/.\<close> after it when the
  last component was a dot, and with unspecified bytes after it when that does not fit.\<close>

definition final_form :: "string \<Rightarrow> string \<Rightarrow> bool" where
  "final_form junk_bytes g \<longleftrightarrow> (\<exists>c. cinv c \<and>
     (g = c \<or> (c \<noteq> ''/'' \<and> g = c @ ''/.'') \<or> (c = ''/'' \<and> g = ''/.'') \<or>
      (PATH_MAX \<le> length c + 3 \<and> g = c @ junk_bytes)))"

lemma finish_slash: "length g + 1 < PATH_MAX \<Longrightarrow> canon_finish env 0 FINAL_SLASH g = g"
  by (cases g) (auto simp: canon_finish_def join_step_def Let_def)

lemma finish_dot:
  assumes "cinv g"
  shows "final_form (junk env) (canon_finish env 0 FINAL_DOT g)"
proof -
  from assms obtain cs where cs: "list_all good_comp cs" "g = render cs" by (auto simp: cinv_def canonical_def)
  have g: "g \<noteq> []" "length g + 1 < PATH_MAX" using assms cs by (auto simp: cinv_def)
  have first: "join_step [] (Some g) = Inr g" using g by (rule join_step_first)
  have "join_step g (Some ''.'') = (if length g + 1 + (if cs = [] then 0 else 1) + 1 \<ge> PATH_MAX
      then Inl ENAMETOOLONG else Inr (render (cs @ [''.''])))"
    using join_step_render [OF list_all_good_ok [OF cs(1)], of "''.''"] cs(2) by (simp add: comp_ok_def)
  moreover have "render (cs @ [''.'']) = (if cs = [] then ''/.'' else g @ ''/.'')"
    using cs(2) by (simp add: render_def)
  ultimately have s: "join_step g (Some ''.'') = (if length g + 1 + (if cs = [] then 0 else 1) + 1 \<ge> PATH_MAX
      then Inl ENAMETOOLONG else Inr (if cs = [] then ''/.'' else g @ ''/.''))" by simp
  have "canon_finish env 0 FINAL_DOT g = (case join_step g (Some ''.'') of
      Inl _ \<Rightarrow> g @ junk env | Inr r \<Rightarrow> r)"
    using g first by (simp add: canon_finish_def split: sum.split)
  moreover have "cs \<noteq> [] \<Longrightarrow> g \<noteq> ''/''"
    using length_render_1 [OF list_all_good_ok [OF cs(1)]] cs(2) by auto
  ultimately show ?thesis
    using assms cs(2) unfolding s final_form_def by (intro exI [of _ g]) (auto simp: PATH_MAX_def)
qed

lemma finish_ok:
  assumes "cinv g"
  shows "if level = 0 then final_form (junk env) (canon_finish env level fin g)
    else cinv (canon_finish env level fin g)"
proof (cases "level = 0")
  case True
  have "final_form (junk env) g" using assms by (auto simp: final_form_def)
  moreover have "canon_finish env 0 NOT_FINAL g = g" "canon_finish env 0 FINAL_NORMAL g = g"
    by (simp_all add: canon_finish_def)
  moreover have "canon_finish env 0 FINAL_SLASH g = g"
    using assms by (intro finish_slash) (simp add: cinv_def)
  ultimately show ?thesis using True finish_dot [OF assms, of env] by (cases fin) simp_all
next
  case False
  with assms show ?thesis by (simp add: canon_finish_def)
qed

definition canon_ok :: "'w fs_env \<Rightarrow> nat \<Rightarrow> string res \<times> tracee \<times> 'w \<Rightarrow> bool" where
  "canon_ok env level out = (case out of (r, t, w) \<Rightarrow> bind_inv t \<and>
     (\<forall>g. r = Inr g \<longrightarrow> (if level = 0 then final_form (junk env) g else cinv g)))"

lemma cinv_final: "cinv g \<Longrightarrow> final_form j g"
  by (auto simp: final_form_def)

lemma canon_invariant:
  "(cinv g \<or> (level = 0 \<and> c_at g 0 \<noteq> slash) \<or> c_at (c_str buf) 0 = slash \<longrightarrow> bind_inv t \<longrightarrow>
      canon_ok env level (canonicalize env buf d g level t w))"
  "(cinv g \<longrightarrow> NUL \<notin> set cursor \<longrightarrow> bind_inv t \<longrightarrow>
      canon_ok env level (canon_loop env cursor d g level n t w))"
proof (induction env buf d g level t w and env cursor d g level n t w rule: canonicalize_canon_loop.induct)
  case (1 env buf d g level t w)
  show ?case
  proof (intro impI)
    assume pre: "cinv g \<or> (level = 0 \<and> c_at g 0 \<noteq> slash) \<or> c_at (c_str buf) 0 = slash" and b: "bind_inv t"
    let ?u = "c_str buf"
    have l: "canon_ok env level (canon_loop env ?u d ''/'' level 0 t w)"
      if "\<not> max_symlinks env < level" "\<not> PATH_MAX \<le> length ?u" "c_at ?u 0 = slash \<or> c_at g 0 \<noteq> slash \<and> level = 0"
      using "1.IH"(1) [OF refl that] b by simp
    have l2: "canon_ok env level (canon_loop env ?u d g level 0 t w)"
      if "\<not> max_symlinks env < level" "\<not> PATH_MAX \<le> length ?u"
        "\<not> (c_at ?u 0 = slash \<or> c_at g 0 \<noteq> slash \<and> level = 0)" "\<not> c_at g 0 \<noteq> slash"
      using "1.IH"(2) [OF refl that] b pre that by auto
    show "canon_ok env level (canonicalize env buf d g level t w)"
      using l l2 b by (subst canonicalize.simps) (auto simp: Let_def canon_ok_def)
  qed
next
  case (2 env cursor d g level n t w)
  show ?case
  proof (intro impI)
    assume g: "cinv g" and c: "NUL \<notin> set cursor" and b: "bind_inv t"
    have fail: "canon_ok env level (Inl e, u, v)" if "bind_inv u" for e u v
      using that by (simp add: canon_ok_def)
    show "canon_ok env level (canon_loop env cursor d g level n t w)"
    proof (cases "next_component cursor")
      case (Inl e)
      with b fail show ?thesis by (subst canon_loop.simps) simp
    next
      case (Inr nc)
      obtain cn fin rest where nc: "nc = (cn, fin, rest)" by (cases nc) auto
      with Inr have nx: "next_component cursor = Inr (cn, fin, rest)" by simp
      note cp = next_component_comp [OF nx c]
      obtain out u v where st: "canon_step env d level g cn fin t w = (out, u, v)" by (metis prod_cases3)
      from canon_step_ok [OF g cp(1,2,4) b st] have out: "out_ok out" and u: "bind_inv u" by auto
      show ?thesis
      proof (cases out)
        case (Fail e)
        with nx st u fail show ?thesis by (subst canon_loop.simps) simp
      next
        case (Return r)
        with out have "cinv r" by (simp add: out_ok_def)
        with Return nx st u show ?thesis
          by (subst canon_loop.simps) (simp add: canon_ok_def cinv_final)
      next
        case (Next g1 fin1)
        with out have g1: "cinv g1" by (simp add: out_ok_def)
        have "fin = NOT_FINAL \<Longrightarrow> canon_ok env level (canon_loop env rest d g1 level n u v)"
          using "2.IH"(1) [OF Inr nc [symmetric] refl st [symmetric] Next refl] g1 cp(3) u
          by auto
        moreover have "canon_ok env level (Inr (canon_finish env level fin1 g1), u, v)"
          using finish_ok [OF g1, of level env fin1] u by (auto simp: canon_ok_def)
        ultimately show ?thesis using nx st Next by (subst canon_loop.simps) simp
      next
        case (Follow target)
        obtain r x y where ca: "canonicalize env target True g (level + (n + 1)) u v = (r, x, y)"
          by (metis prod_cases3)
        have ih: "canon_ok env (level + (n + 1)) (r, x, y)"
          using "2.IH"(2) [OF Inr nc [symmetric] refl st [symmetric] Follow refl] g u
          unfolding ca by blast
        show ?thesis
        proof (cases r)
          case (Inl e)
          with nx st Follow ca ih show ?thesis
            by (subst canon_loop.simps) (simp add: canon_ok_def)
        next
          case (Inr g1)
          have g1: "cinv g1" and x: "bind_inv x" using ih Inr by (simp_all add: canon_ok_def)
          obtain r2 h x2 y2 where sb: "substitute_binding_stat env fin level g1 x y = (r2, h, x2, y2)"
            by (metis prod_cases4)
          note x2 = substitute_stat_inv [OF x sb]
          show ?thesis
          proof (cases r2)
            case (Inl e)
            with nx st Follow ca \<open>r = Inr g1\<close> sb x2 show ?thesis
              by (subst canon_loop.simps) (simp add: canon_ok_def)
          next
            case (Inr b2)
            have "fin = NOT_FINAL \<Longrightarrow> canon_ok env level (canon_loop env rest d g1 level (n + 1) x2 y2)"
              using "2.IH"(3) [OF \<open>next_component cursor = Inr nc\<close> nc [symmetric] refl st [symmetric] Follow refl
                  ca [symmetric] \<open>r = Inr g1\<close> refl sb [symmetric] Inr refl refl] g1 cp(3) x2
              by auto
            moreover have "canon_ok env level (Inr (canon_finish env level fin g1), x2, y2)"
              using finish_ok [OF g1, of level env fin] x2 by (auto simp: canon_ok_def)
            ultimately show ?thesis
              using nx st Follow ca \<open>r = Inr g1\<close> sb Inr by (subst canon_loop.simps) simp
          qed
        qed
      qed
    qed
  qed
qed

section \<open>Properties\<close>

text \<open>A file system where every host path is a directory, and the smallest one: no extension, no
  link, and nothing can be made.\<close>

definition plain_env :: "unit fs_env" where
  "plain_env = \<lparr>tracees = (\<lambda>_. None), host_path_hook = (\<lambda>p b w. ((Inr (), p), w)),
     f2fs_skip = (\<lambda>p w. (False, w)), k_lstat = (\<lambda>p w. (Inr S_IFDIR, w)),
     k_readlink = (\<lambda>p w. (Inl EINVAL, w)), k_mkdir = (\<lambda>p m w. (Inl EACCES, w)),
     k_mknod = (\<lambda>p m f w. (Inl EACCES, w)), temp_directory = (\<lambda>w. (None, w)), dont_pollute = False,
     stale_mode = (\<lambda>w. None), junk = [], max_symlinks = 40\<rparr>"

text \<open>
  C2: \<open>canonicalize\<close> of an absolute path, with a coherent binding table and whatever the file
  systems, the symbolic links, the other tracees and the extensions answer, leaves the table
  coherent, glue bindings included, and returns an error or a path of one of three forms
  (\<open>final_form\<close>): a canonical path, absolute, with no empty component, no dot and no dot-dot, so that
  it cannot step out of the guest root; such a path with the final \<^verbatim>\<open>/.\<close> of the original put back;
  or, only where the canonical path is within three bytes of \<open>PATH_MAX\<close> and the final dot or slash
  does not fit, the canonical path followed by what the buffer holds behind it.
\<close>

theorem canonicalize_canonical:
  assumes "bind_inv t" "c_at (c_str buf) 0 = slash" "canonicalize env buf d g 0 t w = (r, t', w')"
  shows "bind_inv t' \<and> (\<forall>p. r = Inr p \<longrightarrow> final_form (junk env) p)"
  using canon_invariant(1) [of g 0 buf t env d w] assms by (auto simp: canon_ok_def)

lemma pop_root: "pop_component ''/'' = ''/''"
  by (simp add: pop_component_def c_at_def)

lemma canonicalize_dotdot:
  "canonicalize plain_env ''/../../.'' True ''/'' 0 t () = (Inr ''/.'', t, ())"
  by (simp add: canonicalize.simps canon_loop.simps next_component_def NAME_MAX_def PATH_MAX_def c_at_def
      c_str_def canon_step_def pop_root canon_finish_def IS_FINAL_def plain_env_def join_step_def Let_def)

theorem canonicalize_canonical_witness:
  "case canonicalize plain_env ''/../../.'' True ''/'' 0 empty_table () of
     (r, t', w') \<Rightarrow> r = Inr ''/.'' \<and> bind_inv t' \<and> final_form [] ''/.''"
proof -
  have "junk plain_env = []" by (simp add: plain_env_def)
  moreover have "c_at (c_str ''/../../.'') 0 = slash" by (simp add: c_str_def c_at_def)
  ultimately show ?thesis
    using canonicalize_canonical [OF bind_inv_empty_table _ canonicalize_dotdot] by (simp add: canonicalize_dotdot)
qed

end
