(* ===== verification/Translate.thy ===== *)
theory Translate
  imports Canon
begin

text \<open>
  Path translation (\<^verbatim>\<open>src/path/path.c\<close>): \<open>translate_path\<close> with the pass-through of \<^verbatim>\<open>/proc\<close>, the fast
  path through the descriptor cache, the alias of the old root, \<open>which\<close>, and the initialisation of
  the binding table (\<^verbatim>\<open>src/path/binding.c\<close>), which needs all of them. \<open>AT_FDCWD\<close> is \<open>None\<close>. A
  translation returns the contents of its result buffer, or the error.
\<close>

section \<open>What lies outside\<close>

text \<open>
  \<open>guest_path_hook\<close> and \<open>translated_path_hook\<close> are \<open>notify_extensions\<close> with \<open>GUEST_PATH\<close> (the
  status is positive when it is \<open>Inr True\<close>) and \<open>TRANSLATED_PATH\<close>; \<open>k_fd_link\<close> is the target of
  \<^verbatim>\<open>/proc/<pid>/fd/<fd>\<close>; \<open>temp_file\<close> makes a file for an emulated map.
\<close>

record 'w tr_env =
  fs :: "'w fs_env"
  guest_path_hook :: "string \<Rightarrow> string \<Rightarrow> 'w \<Rightarrow> (bool res \<times> string) \<times> 'w"
  translated_path_hook :: "string \<Rightarrow> 'w \<Rightarrow> (unit res \<times> string) \<times> 'w"
  k_fd_link :: "int \<Rightarrow> int \<Rightarrow> 'w \<Rightarrow> string option \<times> 'w"
  temp_file :: "'w \<Rightarrow> string option \<times> 'w"
  fdk :: fd_kernel

definition readlink_proc_pid_fd :: "'w tr_env \<Rightarrow> int \<Rightarrow> int \<Rightarrow> 'w \<Rightarrow> string res \<times> 'w" where
  "readlink_proc_pid_fd env pid fd w =
     (case k_fd_link env pid fd w of
        (None, w) \<Rightarrow> (Inl EBADF, w)
      | (Some s, w) \<Rightarrow> (if length s \<ge> PATH_MAX then Inl ENAMETOOLONG else Inr (c_str s), w))"

definition getcwd2 :: "tracee \<Rightarrow> string res" where
  "getcwd2 t = (if length (cwd t) \<ge> PATH_MAX then Inl ENAMETOOLONG else Inr (cwd t))"

section \<open>The old root alias\<close>

text \<open>Two bindings with the same host side.\<close>

definition same_host :: "tracee \<Rightarrow> nat \<Rightarrow> nat \<Rightarrow> bool" where
  "same_host t a b \<longleftrightarrow>
     compare_paths2 (hpath t a) (length (hpath t a)) (hpath t b) (length (hpath t b)) = PATHS_ARE_EQUAL"

definition refresh_cwd_alias_prefix :: "tracee \<Rightarrow> tracee" where
  "refresh_cwd_alias_prefix t =
     (case get_binding t GUEST ''/oldroot'' of
        (alias_binding, t) \<Rightarrow>
          (case get_binding t GUEST ''/'' of
             (root_binding, t) \<Rightarrow>
               (case (alias_binding, root_binding) of
                  (Some a, Some r) \<Rightarrow>
                    (if gpath t a \<noteq> ''/oldroot'' \<or> gpath t r \<noteq> ''/'' \<or> \<not> same_host t a r
                     then t\<lparr>cwd_alias_prefix := None\<rparr>
                     else t\<lparr>cwd_alias_prefix := Some ''/oldroot''\<rparr>)
                | _ \<Rightarrow> t\<lparr>cwd_alias_prefix := None\<rparr>)))"

text \<open>The loop over the guest bindings: the deepest host side that contains the path, the first
  one among equals.\<close>

fun best_rebase :: "tracee \<Rightarrow> string \<Rightarrow> string \<Rightarrow> nat option \<Rightarrow> nat list \<Rightarrow> nat option" where
  "best_rebase t alias hp best [] = best"
| "best_rebase t alias hp best (b # bs) =
     (let cmp = compare_paths2 (hpath t b) (length (hpath t b)) hp (length hp);
          best_len = (case best of None \<Rightarrow> 0 | Some x \<Rightarrow> length (hpath t x))
      in if need_substitution (heap t b) \<and> \<not> path_has_prefix (gpath t b) alias \<and>
            (cmp = PATHS_ARE_EQUAL \<or> cmp = PATH1_IS_PREFIX) \<and> length (hpath t b) > best_len
         then best_rebase t alias hp (Some b) bs
         else best_rebase t alias hp best bs)"

definition rebase_cwd_alias :: "tracee \<Rightarrow> bool res \<times> tracee" where
  "rebase_cwd_alias t =
     (case cwd_alias_prefix t of
        None \<Rightarrow> (Inr False, t)
      | Some alias \<Rightarrow>
          if \<not> path_has_prefix (cwd t) alias then (Inr False, t)
          else case get_binding t GUEST alias of
            (ab, t) \<Rightarrow>
              (case get_binding t GUEST ''/'' of
                 (rb, t) \<Rightarrow>
                   let ab = (case ab of None \<Rightarrow> None | Some a \<Rightarrow> if gpath t a \<noteq> alias then None else Some a)
                   in case rb of
                        None \<Rightarrow> (Inr False, t)
                      | Some r \<Rightarrow>
                          if gpath t r \<noteq> ''/'' then (Inr False, t)
                          else if (case ab of None \<Rightarrow> False | Some a \<Rightarrow> \<not> same_host t a r) then (Inr False, t)
                          else if ab = None \<and> alias \<noteq> ''/oldroot'' then (Inr False, t)
                          else if length (cwd t) \<ge> PATH_MAX then (Inl ENAMETOOLONG, t)
                          else (case substitute_binding t GUEST (cwd t) of
                                  (Inl Crash, _, t) \<Rightarrow> (Inl Crash, t)
                                | (Inl _, _, t) \<Rightarrow> (Inr False, t)
                                | (Inr _, hp, t) \<Rightarrow>
                                    (case best_rebase t alias hp None (blist t GUEST) of
                                       None \<Rightarrow> (Inr False, t)
                                     | Some b \<Rightarrow>
                                         (case substitute_path_prefix hp (length (hpath t b)) (gpath t b)
                                                 (length (gpath t b)) of
                                            Inl e \<Rightarrow> (Inl e, t)
                                          | Inr (n, gp) \<Rightarrow>
                                              if n \<ge> PATH_MAX then (Inl ENAMETOOLONG, t)
                                              else if gp = cwd t then (Inr False, t)
                                              else (Inr True, t\<lparr>cwd := gp\<rparr>))))))"

section \<open>The proc pass-through\<close>

definition finish_passthrough :: "'w tr_env \<Rightarrow> string \<Rightarrow> tracee \<Rightarrow> 'w \<Rightarrow> string res \<times> tracee \<times> 'w" where
  "finish_passthrough env result t w =
     (case translated_path_hook env result w of
        ((Inl e, result), w) \<Rightarrow> (Inl e, t, w)
      | ((Inr _, result), w) \<Rightarrow> (Inr result, t, w))"

definition is_proc_fd_number :: "string \<Rightarrow> int option" where
  "is_proc_fd_number path =
     (if prefix ''/proc/self/fd/'' path then
        (case strtol10 (drop 14 path) of
           (n, end, _) \<Rightarrow> if drop 14 path \<noteq> [] \<and> end = [] \<and> 0 \<le> n then Some n else None)
      else None)"

definition translate_proc_passthrough ::
  "'w tr_env \<Rightarrow> string \<Rightarrow> tracee \<Rightarrow> 'w \<Rightarrow> string res \<times> tracee \<times> 'w" where
  "translate_proc_passthrough env path t w =
     (case get_binding t GUEST path of
        (b, t) \<Rightarrow>
          if (case b of None \<Rightarrow> False | Some b \<Rightarrow> is_proc_path (gpath t b) \<and> gpath t b \<noteq> ''/proc'') then
            (case substitute_binding t GUEST (take (PATH_MAX - 1) path) of
               (Inl e, _, t) \<Rightarrow> (Inl e, t, w)
             | (Inr _, result, t) \<Rightarrow> finish_passthrough env result t w)
          else if path = ''/proc/self/mountinfo'' \<or> path = ''/proc/thread-self/mountinfo'' then
            (let r = proc_pid (t_pid t) @ ''/mountinfo'' in
             if length r \<ge> PATH_MAX then (Inl ENAMETOOLONG, t, w) else finish_passthrough env r t w)
          else case is_proc_fd_number path of
            Some n \<Rightarrow>
              (let r = proc_pid_fd (t_pid t) @ slash # decimal_int n in
               if length r \<ge> PATH_MAX then (Inl ENAMETOOLONG, t, w) else finish_passthrough env r t w)
          | None \<Rightarrow>
              (case proc_map_slot t path of
                 None \<Rightarrow> finish_passthrough env (take (PATH_MAX - 1) path) t w
               | Some s \<Rightarrow>
                   (case (if map_file s t = None then temp_file env w else (map_file s t, w)) of
                      (f, w) \<Rightarrow>
                        let t = set_map_file s f t in
                        case f of
                          None \<Rightarrow> (Inl ENOMEM, t, w)
                        | Some tmp \<Rightarrow>
                            if length tmp \<ge> PATH_MAX then (Inl ENAMETOOLONG, t, w)
                            else finish_passthrough env tmp t w)))"

section \<open>The fast path through the descriptor cache\<close>

text \<open>
  The result buffer is the buffer that holds \<open>proc_path\<close>: \<open>translate_path\<close> passes one array for
  both. The caller looks only at whether the status is 0 (\<open>True\<close>), and goes on with the buffer.
\<close>

definition with_dircache :: "(dirfds \<Rightarrow> dirfds) \<Rightarrow> tracee \<Rightarrow> tracee" where
  "with_dircache f t = t\<lparr>dircache := f (dircache t)\<rparr>"

definition try_dirfd_component_fast ::
  "'w tr_env \<Rightarrow> int \<Rightarrow> string \<Rightarrow> string \<Rightarrow> tracee \<Rightarrow> 'w \<Rightarrow> bool \<times> string \<times> tracee \<times> 'w" where
  "try_dirfd_component_fast env dir_fd user_path proc_path t w =
     (case dirfd_cache_slot (t_pid t) dir_fd (dircache t) of
        (slot, d) \<Rightarrow>
          let t = t\<lparr>dircache := d\<rparr> in
          case slot of
            None \<Rightarrow> (False, proc_path, t, w)
          | Some i \<Rightarrow>
              let s = slots d ! i; guest_dir = s_guest_dir s in
              if s_proc_path s \<noteq> proc_path then (False, proc_path, t, w)
              else case join2 guest_dir user_path of
                Inl _ \<Rightarrow> (False, proc_path, t, w)
              | Inr guest_full \<Rightarrow>
                  (case get_binding t GUEST guest_dir of
                     (dir_binding, t) \<Rightarrow>
                       (case get_binding t GUEST guest_full of
                          (full_binding, t) \<Rightarrow>
                            if full_binding \<noteq> dir_binding then (False, proc_path, t, w)
                            else case f2fs_skip (fs env) guest_dir w of
                              (True, w) \<Rightarrow> (False, proc_path, t, w)
                            | (False, w) \<Rightarrow>
                                (case guest_path_hook env guest_dir user_path w of
                                   ((Inl _, result), w) \<Rightarrow> (False, result, t, w)
                                 | ((Inr True, result), w) \<Rightarrow>
                                     (case translated_path_hook env result w of
                                        ((_, result), w) \<Rightarrow> (True, result, t, w))
                                 | ((Inr False, _), w) \<Rightarrow>
                                     if is_proc_path guest_full \<or>
                                        proc_path_after_alias (cwd_alias_prefix t) guest_full \<noteq> None
                                     then (False, guest_full, t, w)
                                     else case substitute_binding t GUEST guest_full of
                                       (Inl _, result, t) \<Rightarrow> (False, result, t, w)
                                     | (Inr _, result, t) \<Rightarrow>
                                         (case translated_path_hook env result w of
                                            ((_, result), w) \<Rightarrow> (True, result, t, w))))))"

section \<open>Translating a path\<close>

definition translate_guest ::
  "'w tr_env \<Rightarrow> string \<Rightarrow> bool \<Rightarrow> string \<Rightarrow> tracee \<Rightarrow> 'w \<Rightarrow> string res \<times> tracee \<times> 'w" where
  "translate_guest env guestp deref_final result t w =
     (case canonicalize (fs env) guestp deref_final result 0 t w of
        (Inl e, t, w) \<Rightarrow> (Inl e, t, w)
      | (Inr result, t, w) \<Rightarrow>
          (case substitute_binding t GUEST result of
             (Inl e, _, t) \<Rightarrow> (Inl e, t, w)
           | (Inr _, result, t) \<Rightarrow>
               (case translated_path_hook env result w of
                  ((_, result), w) \<Rightarrow> (Inr result, t, w))))"

text \<open>From the base directory on.\<close>

definition translate_from ::
  "'w tr_env \<Rightarrow> string \<Rightarrow> string \<Rightarrow> bool \<Rightarrow> tracee \<Rightarrow> 'w \<Rightarrow> string res \<times> tracee \<times> 'w" where
  "translate_from env base user_path deref_final t w =
     (case guest_path_hook env base user_path w of
        ((Inl e, _), w) \<Rightarrow> (Inl e, t, w)
      | ((Inr True, result), w) \<Rightarrow>
          (case translated_path_hook env result w of ((_, result), w) \<Rightarrow> (Inr result, t, w))
      | ((Inr False, result), w) \<Rightarrow>
          (case join2 result user_path of
             Inl e \<Rightarrow> (Inl e, t, w)
           | Inr guestp \<Rightarrow>
               if is_proc_path guestp then translate_proc_passthrough env guestp t w
               else case proc_path_after_alias (cwd_alias_prefix t) guestp of
                 Some p \<Rightarrow> translate_proc_passthrough env p t w
               | None \<Rightarrow> translate_guest env guestp deref_final result t w))"

definition translate_at ::
  "'w tr_env \<Rightarrow> int \<Rightarrow> string \<Rightarrow> bool \<Rightarrow> tracee \<Rightarrow> 'w \<Rightarrow> string res \<times> tracee \<times> 'w" where
  "translate_at env dir_fd user_path deref_final t w =
     (case readlink_proc_pid_fd env (t_pid t) dir_fd w of
        (Inl e, w) \<Rightarrow> (Inl e, t, w)
      | (Inr result, w) \<Rightarrow>
          if c_at result 0 \<noteq> slash then (Inl ENOTDIR, t, w)
          else if result = ''/proc'' then translate_from env result user_path deref_final t w
          else case (if \<not> deref_final \<and> is_single_path_component (Some user_path)
                     then try_dirfd_component_fast env dir_fd user_path result t w
                     else (False, result, t, w)) of
            (True, result, t, w) \<Rightarrow> (Inr result, t, w)
          | (False, fd_proc_path, t, w) \<Rightarrow>
              (case detranslate_path (tracees (fs env)) t fd_proc_path None of
                 (Inl e, _, t) \<Rightarrow> (Inl e, t, w)
               | (Inr _, result, t) \<Rightarrow>
                   translate_from env result user_path deref_final
                     (with_dircache (remember_translated_dirfd (t_pid t) dir_fd fd_proc_path result) t) w))"

definition translate_path ::
  "'w tr_env \<Rightarrow> int option \<Rightarrow> string \<Rightarrow> bool \<Rightarrow> tracee \<Rightarrow> 'w \<Rightarrow> string res \<times> tracee \<times> 'w" where
  "translate_path env dir_fd user_path deref_final t w =
     (if is_proc_path user_path then translate_proc_passthrough env user_path t w
      else case proc_path_after_alias (cwd_alias_prefix t) user_path of
        Some p \<Rightarrow> translate_proc_passthrough env p t w
      | None \<Rightarrow>
          if c_at user_path 0 = slash then translate_from env ''/'' user_path deref_final t w
          else case dir_fd of
            Some fd \<Rightarrow> translate_at env fd user_path deref_final t w
          | None \<Rightarrow>
              (case getcwd2 t of
                 Inl e \<Rightarrow> (Inl e, t, w)
               | Inr base \<Rightarrow> translate_from env base user_path deref_final t w))"

definition is_proc_fd_mountinfo :: "'w tr_env \<Rightarrow> tracee \<Rightarrow> int option \<Rightarrow> string \<Rightarrow> 'w \<Rightarrow> bool \<times> 'w" where
  "is_proc_fd_mountinfo env t dir_fd user_path w =
     (case dir_fd of
        None \<Rightarrow> (False, w)
      | Some fd \<Rightarrow>
          if user_path \<noteq> ''self/mountinfo'' \<and> user_path \<noteq> ''thread-self/mountinfo'' then (False, w)
          else case readlink_proc_pid_fd env (t_pid t) fd w of
                 (Inl _, w) \<Rightarrow> (False, w)
               | (Inr p, w) \<Rightarrow> (p = ''/proc'', w))"

section \<open>The host descriptor of a directory\<close>

definition populate_dirfd_cache :: "'w tr_env \<Rightarrow> int \<Rightarrow> tracee \<Rightarrow> 'w \<Rightarrow> nat option \<times> tracee \<times> 'w" where
  "populate_dirfd_cache env dir_fd t w =
     (case readlink_proc_pid_fd env (t_pid t) dir_fd w of
        (Inl _, w) \<Rightarrow> (None, t, w)
      | (Inr proc_path, w) \<Rightarrow>
          if c_at proc_path 0 \<noteq> slash \<or> proc_path = ''/proc'' then (None, t, w)
          else case detranslate_path (tracees (fs env)) t proc_path None of
            (Inl _, _, t) \<Rightarrow> (None, t, w)
          | (Inr _, guest_dir, t) \<Rightarrow>
              (case dirfd_cache_slot (t_pid t) dir_fd
                      (remember_translated_dirfd (t_pid t) dir_fd proc_path guest_dir (dircache t)) of
                 (slot, d) \<Rightarrow> (slot, t\<lparr>dircache := d\<rparr>, w)))"

text \<open>\<open>nofollow\<close> and \<open>empty_path\<close> are \<open>AT_SYMLINK_NOFOLLOW\<close> and \<open>AT_EMPTY_PATH\<close> in the flags; the
  result is \<open>None\<close> where the caller takes the slow path.\<close>

definition lookup_cached_host_dirfd ::
  "'w tr_env \<Rightarrow> int option \<Rightarrow> string \<Rightarrow> bool \<Rightarrow> bool \<Rightarrow> tracee \<Rightarrow> 'w \<Rightarrow> (int \<times> string) option \<times> tracee \<times> 'w" where
  "lookup_cached_host_dirfd env dirfd user_path nofollow empty_path t w =
     (case dirfd of
        None \<Rightarrow> (None, t, w)
      | Some fd \<Rightarrow>
          if fd < 0 \<or> \<not> nofollow \<or> empty_path \<or> \<not> is_single_path_component (Some user_path)
          then (None, t, w)
          else case dirfd_cache_slot (t_pid t) fd (dircache t) of
            (slot, d) \<Rightarrow>
              (case (case slot of
                       None \<Rightarrow> (None, d)
                     | Some i \<Rightarrow>
                         if s_host_fd (slots d ! i) < 0 then (Some i, d)
                         else case host_dirfd_still_valid (fdk env) i (t_pid t) fd d of
                           (True, d) \<Rightarrow> (Some i, d)
                         | (False, d) \<Rightarrow> (None, forget_translated_dirfd (t_pid t) fd d)) of
                 (slot, d) \<Rightarrow>
                   (case (case slot of
                            None \<Rightarrow> populate_dirfd_cache env fd (t\<lparr>dircache := d\<rparr>) w
                          | Some i \<Rightarrow> (Some i, t\<lparr>dircache := d\<rparr>, w)) of
                      (None, t, w) \<Rightarrow> (None, t, w)
                    | (Some i, t, w) \<Rightarrow>
                        let s = slots (dircache t) ! i in
                        if s_proc_path s = [] \<or> s_proc_path s = ''/proc'' \<or> is_proc_path (s_guest_dir s) \<or>
                           proc_path_after_alias (cwd_alias_prefix t) (s_guest_dir s) \<noteq> None
                        then (None, t, w)
                        else case f2fs_skip (fs env) (s_guest_dir s) w of
                          (True, w) \<Rightarrow> (None, t, w)
                        | (False, w) \<Rightarrow>
                            (case join2 (s_guest_dir s) user_path of
                               Inl _ \<Rightarrow> (None, t, w)
                             | Inr guest_full \<Rightarrow>
                                 (case get_binding t GUEST (s_guest_dir s) of
                                    (dir_binding, t) \<Rightarrow>
                                      (case get_binding t GUEST guest_full of
                                         (full_binding, t) \<Rightarrow>
                                           if full_binding \<noteq> dir_binding then (None, t, w)
                                           else case ensure_host_dirfd (fdk env) i (t_pid t) fd (dircache t) of
                                             (host_fd, d) \<Rightarrow>
                                               let t = t\<lparr>dircache := d\<rparr> in
                                               if host_fd < 0 then (None, t, w)
                                               else case join2 (s_proc_path (slots d ! i)) user_path of
                                                 Inl _ \<Rightarrow> (None, t, w)
                                               | Inr hp \<Rightarrow> (Some (host_fd, hp), t, w)))))))"

section \<open>Finding a command\<close>

text \<open>\<open>k_stat\<close> gives the type of the file and whether its owner may execute it.\<close>

definition host_stat ::
  "('w \<Rightarrow> string \<Rightarrow> (file_type \<times> bool) option) \<Rightarrow> 'w \<Rightarrow> string res \<Rightarrow> (file_type \<times> bool) option" where
  "host_stat k_stat w p = (case p of Inl _ \<Rightarrow> None | Inr p \<Rightarrow> k_stat w p)"

text \<open>
  The \<open>do ... while\<close> loop over the directories of \<open>PATH\<close>. The cursor is advanced past the
  separator before it is tested, so after the last directory it is advanced past the terminator:
  the argument is the memory from the cursor on, the string, its terminator and what lies behind.
  For an empty directory the dot is written at index 0 and the separator over it, at index
  \<open>len = 0\<close>.
\<close>

function which_in ::
  "'w tr_env \<Rightarrow> ('w \<Rightarrow> string \<Rightarrow> (file_type \<times> bool) option) \<Rightarrow> string \<Rightarrow> string \<Rightarrow> tracee \<Rightarrow> 'w
     \<Rightarrow> string option \<times> tracee \<times> 'w" where
  "which_in env k_stat command mem t w =
     (let d = takeWhile (\<lambda>c. c \<noteq> CHR '':'' \<and> c \<noteq> NUL) mem;
          rest = drop (length d + 1) mem
      in if length d \<ge> PATH_MAX then
           (if c_at rest 0 = NUL then (None, t, w) else which_in env k_stat command rest t w)
         else case translate_path env None (d @ slash # command) True t w of
           (r, t, w) \<Rightarrow>
             if host_stat k_stat w r = Some (S_IFREG, True)
             then ((case r of Inl _ \<Rightarrow> None | Inr p \<Rightarrow> Some p), t, w)
             else if c_at rest 0 = NUL then (None, t, w)
             else which_in env k_stat command rest t w)"
  by pat_completeness auto
termination
  by (relation "measure (\<lambda>(env, k, c, mem, t, w). length mem)") (auto simp: c_at_def split: if_splits)

declare which_in.simps [simp del]

datatype which_result = Found string | Not_found | Refused errno

definition which ::
  "'w tr_env \<Rightarrow> ('w \<Rightarrow> string \<Rightarrow> (file_type \<times> bool) option) \<Rightarrow> string option \<Rightarrow> string \<Rightarrow> string \<Rightarrow> tracee \<Rightarrow> 'w
     \<Rightarrow> which_result \<times> tracee \<times> 'w" where
  "which env k_stat paths behind command t w =
     (let explicit = (slash \<in> set command);
          search = (\<lambda>t w. case paths of
              None \<Rightarrow> (Not_found, t, w)
            | Some [] \<Rightarrow> (Not_found, t, w)
            | Some ps \<Rightarrow>
                (case which_in env k_stat command (ps @ NUL # behind) t w of
                   (Some p, t, w) \<Rightarrow> (Found p, t, w)
                 | (None, t, w) \<Rightarrow> (Not_found, t, w)))
      in case translate_path env None command True t w of
           (r, t, w) \<Rightarrow>
             (case host_stat k_stat w r of
                None \<Rightarrow> (if explicit then (Not_found, t, w) else search t w)
              | Some (type, executable) \<Rightarrow>
                  if explicit \<and> type \<noteq> S_IFREG then (Refused EACCES, t, w)
                  else if explicit \<and> \<not> executable then (Refused EACCES, t, w)
                  else (case translate_path env None command False t w of
                          (r2, t, w) \<Rightarrow>
                            if explicit
                            then (Found (case r2 of Inr p \<Rightarrow> p | Inl _ \<Rightarrow> junk (fs env)), t, w)
                            else search t w)))"

section \<open>The initial binding table\<close>

definition initial_glue_type :: "file_type res \<Rightarrow> file_type" where
  "initial_glue_type st =
     (case st of Inl _ \<Rightarrow> S_IFREG
      | Inr m \<Rightarrow> if m = S_IFBLK \<or> m = S_IFCHR \<or> m = S_IFLNK then S_IFREG else m)"

text \<open>A trailing exclamation mark on the guest path asks not to follow a final link.\<close>

definition initialize_binding :: "'w fs_env \<Rightarrow> nat \<Rightarrow> tracee \<Rightarrow> 'w \<Rightarrow> tracee \<times> 'w" where
  "initialize_binding env b t w =
     (if compare_paths (gpath t b) ''/'' = PATHS_ARE_EQUAL then (insort_binding2 b t, w)
      else
        let path = gpath t b;
            deref = \<not> (length path > 0 \<and> last path = CHR ''!'');
            path = (if deref then path else butlast path);
            t = t\<lparr>heap := (heap t)(b := (heap t b)\<lparr>guest_path := ''/''\<rparr>)\<rparr>
        in case k_lstat env (hpath t b) w of
             (st, w) \<Rightarrow>
               let t = t\<lparr>glue_type := Some (initial_glue_type st)\<rparr>;
                   deref = (if st = Inr S_IFDIR then False else deref)
               in case canonicalize env path deref ''/'' 0 t w of
                    (Inl _, t, w) \<Rightarrow> (t, w)
                  | (Inr g, t, w) \<Rightarrow>
                      let t = t\<lparr>heap := (heap t)(b := (heap t b)\<lparr>guest_path := chop_finality g\<rparr>),
                                glue_type := None\<rparr>
                      in (insort_binding2 b t, w))"

text \<open>One binding of the tracee that \<open>reconf\<close> names, as seen below the new binding.\<close>

definition induce_at :: "string \<Rightarrow> tracee \<Rightarrow> string \<Rightarrow> nat \<Rightarrow> tracee \<Rightarrow> tracee" where
  "induce_at path old_tracee new_guest old t =
     (if compare_paths path (gpath old_tracee old) \<noteq> PATH1_IS_PREFIX then t
      else
        let pre = (if length path = 1 then 0 else length path) in
        case join2 new_guest (drop pre (gpath old_tracee old)) of
          Inl _ \<Rightarrow> t
        | Inr p \<Rightarrow>
            (case alloc_binding (zero_binding\<lparr>host_path := hpath old_tracee old, guest_path := p\<rparr>) t of
               (ind, t) \<Rightarrow> insort_binding2 ind t))"

definition add_induced_bindings ::
  "(int \<Rightarrow> tracee option) \<Rightarrow> nat \<Rightarrow> tracee option \<Rightarrow> tracee \<Rightarrow> tracee option \<times> tracee" where
  "add_induced_bindings trs b reconf t =
     (case reconf of
        None \<Rightarrow> (None, t)
      | Some rc \<Rightarrow>
          (case detranslate_path trs rc (hpath t b) None of
             (Inl _, _, rc) \<Rightarrow> (Some rc, t)
           | (Inr _, path, rc) \<Rightarrow>
               (Some rc, fold (induce_at path rc (gpath t b)) (blist rc GUEST) t)))"

fun initialize_all ::
  "'w fs_env \<Rightarrow> nat list \<Rightarrow> tracee option \<Rightarrow> tracee \<Rightarrow> 'w \<Rightarrow> tracee option \<times> tracee \<times> 'w" where
  "initialize_all env [] rc t w = (rc, t, w)"
| "initialize_all env (b # bs) rc t w =
     (case initialize_binding env b t w of
        (t, w) \<Rightarrow>
          (case add_induced_bindings (tracees env) b rc t of
             (rc, t) \<Rightarrow> initialize_all env bs rc t w))"

definition initialize_bindings ::
  "'w fs_env \<Rightarrow> tracee option \<Rightarrow> tracee \<Rightarrow> 'w \<Rightarrow> unit res \<times> tracee option \<times> tracee \<times> 'w" where
  "initialize_bindings env rc t w =
     (case get_root t of
        (None, t) \<Rightarrow> (Inl Crash, rc, t, w)
      | (Some _, t) \<Rightarrow>
          if pending t = None then (Inl Crash, rc, t, w)
          else
            let t = t\<lparr>guest := Some [], host := Some [], has_cache := False, cache_entries := None,
                      cached_root := None\<rparr>
            in case initialize_all env (rev (blist t PENDING)) rc t w of
                 (rc, t, w) \<Rightarrow>
                   let t = build_guest_binding_cache t
                   in (Inr (), rc, (remove_bindings PENDING t)\<lparr>pending := None\<rparr>, w))"

end
