(* ===== verification/Translate_Spec.thy ===== *)
theory Translate_Spec
  imports Translate Canon_Spec Dirfd_Spec
begin

text \<open>
  Containment and round trip of path translation. A translated path lies below the host side of
  the deepest binding of its guest path, with no component \<^verbatim>\<open>..\<close> after it; translating it back
  gives the guest path. The exceptions the code has are stated as such.
\<close>

section \<open>Without glue, canonicalization changes nothing but caches\<close>

lemma substitute_stat_same:
  assumes "bind_inv t" "glue_type t = None" "substitute_binding_stat env fin level p t w = (r, h, t', w')"
  shows "same_table t t'"
proof -
  obtain r1 p1 u where s: "substitute_binding t GUEST p = (r1, p1, u)" by (metis prod_cases3)
  note u = substitute_binding_spec(2) [OF assms(1) s]
  then have g: "glue_type u = None" using assms(2) by (simp add: same_table_def)
  have "t' = u"
    using assms(3) s g unfolding substitute_binding_stat_def
    by (auto split: sum.splits prod.splits if_splits option.splits)
  with u show ?thesis by simp
qed

lemma follow_link_same:
  assumes "bind_inv t" "follow_link env level g c fin h t w = (out, t', w')"
  shows "same_table t t'"
proof -
  obtain r v where k: "k_readlink env h w = (r, v)" by fastforce
  show ?thesis
  proof (cases r)
    case (Inl e)
    obtain r2 v2 where "k_lstat env h v = (r2, v2)" by fastforce
    with k Inl assms show ?thesis by (cases r2) (auto simp: follow_link_def split: if_splits)
  next
    case (Inr target)
    obtain n q u where d: "detranslate_path (tracees env) t (take (PATH_MAX - 1) target) (Some h) = (n, q, u)"
      by (metis prod_cases3)
    obtain s q2 v2 where h: "host_path_hook env q (IS_FINAL fin \<and> level = 0) v = ((s, q2), v2)"
      by (metis surj_pair)
    from k Inr d h assms detranslate_path_spec [OF assms(1) d] show ?thesis
      by (cases n; cases s) (auto simp: follow_link_def)
  qed
qed

lemma canon_link_same:
  assumes "bind_inv t" "canon_link env level g c fin h t w = (out, t', w')"
  shows "same_table t t'"
proof -
  have "t' = t \<or> follow_link env level g c fin h t w = (out, t', w')"
    using assms(2) unfolding canon_link_def Let_def
    by (auto split: if_splits sum.splits prod.splits action.splits)
  with follow_link_same [OF assms(1)] show ?thesis by auto
qed

lemma canon_step_same:
  assumes "bind_inv t" "glue_type t = None" "canon_step env d level g c fin t w = (out, t', w')"
  shows "same_table t t'"
proof (cases "c = ''.'' \<or> c = ''..'' \<or> isl (join2 g c)")
  case True
  with assms(3) show ?thesis by (auto simp: canon_step_def split: if_splits sum.splits)
next
  case False
  then obtain scratch where sc: "join2 g c = Inr scratch" by (cases "join2 g c") auto
  obtain r h u v where s: "substitute_binding_stat env fin level scratch t w = (r, h, u, v)"
    by (metis prod_cases4)
  note su = substitute_stat_same [OF assms(1,2) s] and u = substitute_stat_inv [OF assms(1) s]
  have "t' = u \<or> (\<exists>out. canon_link env level g c fin h u v = (out, t', w'))"
    using assms(3) False sc s by (auto simp: canon_step_def split: sum.splits option.splits if_splits)
  then show ?thesis
  proof (elim disjE exE)
    assume "t' = u" with su show ?thesis by simp
  next
    fix out assume "canon_link env level g c fin h u v = (out, t', w')"
    from canon_link_same [OF u this] show ?thesis by (rule same_table_trans [OF su])
  qed
qed

lemma canon_link_inv:
  assumes "bind_inv t" "canon_link env level g c fin h t w = (out, t', w')"
  shows "bind_inv t'"
proof -
  obtain r v where k: "k_readlink env h w = (r, v)" by fastforce
  have f: "bind_inv t'" if "follow_link env level g c fin h t w = (out, t', w')"
  proof (cases r)
    case (Inl e)
    obtain r2 v2 where "k_lstat env h v = (r2, v2)" by fastforce
    with k Inl assms(1) that show ?thesis by (cases r2) (auto simp: follow_link_def split: if_splits)
  next
    case (Inr target)
    obtain n q u where d: "detranslate_path (tracees env) t (take (PATH_MAX - 1) target) (Some h) = (n, q, u)"
      by (metis prod_cases3)
    obtain s q2 v2 where h: "host_path_hook env q (IS_FINAL fin \<and> level = 0) v = ((s, q2), v2)"
      by (metis surj_pair)
    from k Inr d h that detranslate_path_spec [OF assms(1) d] show ?thesis
      by (cases n; cases s) (auto simp: follow_link_def)
  qed
  have "t' = t \<or> follow_link env level g c fin h t w = (out, t', w')"
    using assms(2) unfolding canon_link_def Let_def
    by (auto split: if_splits sum.splits prod.splits action.splits)
  with f assms(1) show ?thesis by auto
qed

lemma canon_step_inv:
  assumes "bind_inv t" "canon_step env d level g c fin t w = (out, t', w')"
  shows "bind_inv t'"
proof (cases "c = ''.'' \<or> c = ''..'' \<or> isl (join2 g c)")
  case True
  with assms show ?thesis by (auto simp: canon_step_def split: if_splits sum.splits)
next
  case False
  then obtain scratch where sc: "join2 g c = Inr scratch" by (cases "join2 g c") auto
  obtain r h u v where s: "substitute_binding_stat env fin level scratch t w = (r, h, u, v)"
    by (metis prod_cases4)
  note u = substitute_stat_inv [OF assms(1) s]
  have "t' = u \<or> (\<exists>out. canon_link env level g c fin h u v = (out, t', w'))"
    using assms(2) False sc s by (auto simp: canon_step_def split: sum.splits option.splits if_splits)
  then show ?thesis
  proof (elim disjE exE)
    assume "t' = u" with u show ?thesis by simp
  next
    fix out assume "canon_link env level g c fin h u v = (out, t', w')"
    then show ?thesis by (rule canon_link_inv [OF u])
  qed
qed

lemma canon_same:
  "(bind_inv t \<longrightarrow> glue_type t = None \<longrightarrow> (case canonicalize env buf d g level t w of
      (r, t', w') \<Rightarrow> bind_inv t' \<and> same_table t t'))"
  "(bind_inv t \<longrightarrow> glue_type t = None \<longrightarrow> (case canon_loop env cursor d g level n t w of
      (r, t', w') \<Rightarrow> bind_inv t' \<and> same_table t t'))"
proof (induction env buf d g level t w and env cursor d g level n t w rule: canonicalize_canon_loop.induct)
  case (1 env buf d g level t w)
  then show ?case by (subst canonicalize.simps) (auto simp: Let_def)
next
  case (2 env cursor d g level n t w)
  show ?case
  proof (intro impI)
    assume b: "bind_inv t" and gl: "glue_type t = None"
    show "case canon_loop env cursor d g level n t w of (r, t', w') \<Rightarrow> bind_inv t' \<and> same_table t t'"
    proof (cases "next_component cursor")
      case (Inl e)
      with b show ?thesis by (subst canon_loop.simps) simp
    next
      case (Inr nc)
      obtain cn fin rest where nc: "nc = (cn, fin, rest)" by (cases nc) auto
      with Inr have nx: "next_component cursor = Inr (cn, fin, rest)" by simp
      obtain out u v where st: "canon_step env d level g cn fin t w = (out, u, v)" by (metis prod_cases3)
      note su = canon_step_same [OF b gl st]
      have u: "bind_inv u" by (rule canon_step_inv [OF b st])
      have gu: "glue_type u = None" using su gl by (simp add: same_table_def)
      show ?thesis
      proof (cases out)
        case (Fail e)
        with nx st u su show ?thesis by (subst canon_loop.simps) simp
      next
        case (Return r)
        with nx st u su show ?thesis by (subst canon_loop.simps) simp
      next
        case (Next g1 fin1)
        have "fin = NOT_FINAL \<Longrightarrow> case canon_loop env rest d g1 level n u v of
            (r, t', w') \<Rightarrow> bind_inv t' \<and> same_table u t'"
          using "2.IH"(1) [OF Inr nc [symmetric] refl st [symmetric] Next refl] u gu by auto
        with nx st Next u su show ?thesis
          by (subst canon_loop.simps) (auto dest: same_table_trans [OF su])
      next
        case (Follow target)
        obtain r x y where ca: "canonicalize env target True g (level + (n + 1)) u v = (r, x, y)"
          by (metis prod_cases3)
        have x: "bind_inv x" "same_table u x"
          using "2.IH"(2) [OF Inr nc [symmetric] refl st [symmetric] Follow refl] u gu unfolding ca by auto
        note sx = same_table_trans [OF su x(2)]
        have gx: "glue_type x = None" using sx gl by (simp add: same_table_def)
        show ?thesis
        proof (cases r)
          case (Inl e)
          with nx st Follow ca x sx show ?thesis by (subst canon_loop.simps) simp
        next
          case (Inr g1)
          obtain r2 h x2 y2 where sb: "substitute_binding_stat env fin level g1 x y = (r2, h, x2, y2)"
            by (metis prod_cases4)
          note x2 = substitute_stat_inv [OF x(1) sb]
          note s2 = same_table_trans [OF sx substitute_stat_same [OF x(1) gx sb]]
          have g2: "glue_type x2 = None" using s2 gl by (simp add: same_table_def)
          show ?thesis
          proof (cases r2)
            case (Inl e)
            with nx st Follow ca \<open>r = Inr g1\<close> sb x2 s2 show ?thesis
              by (subst canon_loop.simps) simp
          next
            case (Inr b2)
            have "fin = NOT_FINAL \<Longrightarrow> case canon_loop env rest d g1 level (n + 1) x2 y2 of
                (r, t', w') \<Rightarrow> bind_inv t' \<and> same_table x2 t'"
              using "2.IH"(3) [OF \<open>next_component cursor = Inr nc\<close> nc [symmetric] refl st [symmetric] Follow refl
                  ca [symmetric] \<open>r = Inr g1\<close> refl sb [symmetric] Inr refl refl] x2 g2 by auto
            then show ?thesis
              using nx st Follow ca \<open>r = Inr g1\<close> sb Inr x2 s2
              by (subst canon_loop.simps) (auto dest: same_table_trans [OF s2])
          qed
        qed
      qed
    qed
  qed
qed

section \<open>Both sides of a binding\<close>

text \<open>The host path of a list of guest components, and the guest path of host components: the
  prefix of the deepest binding is replaced by its other side.\<close>

definition host_side :: "tracee \<Rightarrow> nat \<Rightarrow> string list \<Rightarrow> string list" where
  "host_side t b ds = hcomps t b @ drop (length (gcomps t b)) ds"

definition guest_side :: "tracee \<Rightarrow> nat \<Rightarrow> string list \<Rightarrow> string list" where
  "guest_side t b ds = gcomps t b @ drop (length (hcomps t b)) ds"

lemma need_iff:
  assumes "table_ok t" "b \<in> linked t"
  shows "need_substitution (heap t b) \<longleftrightarrow> hcomps t b \<noteq> gcomps t b"
proof -
  have c: "canonical (gpath t b)" "canonical (hpath t b)" using assms by (auto simp: table_ok_def)
  note g = canonical_ok [OF c(1)] and h = canonical_ok [OF c(2)]
  have "compare_paths (hpath t b) (gpath t b) = PATHS_ARE_EQUAL \<longleftrightarrow> hcomps t b = gcomps t b"
    using compare_paths_render [OF conjunct1 [OF h] conjunct1 [OF g]]
    unfolding g [THEN conjunct2, symmetric] h [THEN conjunct2, symmetric] by simp
  with assms show ?thesis by (auto simp: table_ok_def)
qed

lemma substitute_side:
  assumes os: "list_all comp_ok os" and ns: "list_all comp_ok ns" and ds: "list_all comp_ok ds"
    and pre: "prefix os ds" and ne: "os \<noteq> ns"
  defines "new \<equiv> render (ns @ drop (length os) ds)"
  shows "substitute_path_prefix (render ds) (length (render os)) (render ns) (length (render ns)) =
    (if length new \<ge> PATH_MAX \<and> ns \<noteq> [] then Inl ENAMETOOLONG else Inr (length new, new))"
proof -
  from pre obtain cs where cs: "ds = os @ cs" by (auto simp: prefix_def)
  have "os \<noteq> [] \<or> ns \<noteq> []" using ne by blast
  from substitute_render [OF this ds [unfolded cs] ns] show ?thesis by (simp add: new_def cs)
qed

lemma same_side: "prefix os ds \<Longrightarrow> render (os @ drop (length os) ds) = render ds"
  by (auto simp: prefix_def)

lemma substitute_binding_guest:
  assumes inv: "bind_inv t" and ok: "table_ok t" and ds: "list_all comp_ok ds"
    and s: "substitute_binding t GUEST (render ds) = (r, h, t')"
  shows "case guest_find t ds of
      None \<Rightarrow> r = Inl ENOENT \<and> h = render ds
    | Some b \<Rightarrow> \<exists>k. r = Inr k \<and> (h = render (host_side t b ds) \<or>
        (PATH_MAX \<le> length (render (host_side t b ds)) \<and> h = render ds))"
proof -
  obtain o1 u where g: "get_binding t GUEST (render ds) = (o1, u)" by fastforce
  have gf: "guest_find t ds = o1" using inv ok g by (simp add: guest_find_def)
  have u: "heap u = heap t" using get_binding_spec(2) [OF inv g] by (simp add: same_table_def)
  show ?thesis
  proof (cases o1)
    case None
    with g s gf show ?thesis by (simp add: substitute_binding_def)
  next
    case (Some b)
    from gtable.found [OF ds gf [unfolded Some]] have b: "b \<in> set (blist t GUEST)" "prefix (gcomps t b) ds"
      using inv ok by (auto simp: guest_set_def)
    then have lk: "b \<in> linked t" by (auto simp: linked_def)
    note nd = need_iff [OF ok lk]
    have c: "canonical (gpath t b)" "canonical (hpath t b)" using ok lk by (auto simp: table_ok_def)
    note gc = canonical_ok [OF c(1)] and hc = canonical_ok [OF c(2)]
    show ?thesis
    proof (cases "hcomps t b = gcomps t b")
      case True
      then have "r = Inr 0" "h = render ds"
        using s g Some nd u by (auto simp: substitute_binding_def)
      with True same_side [OF b(2)] gf Some show ?thesis by (simp add: host_side_def)
    next
      case False
      note sub = substitute_side [OF conjunct1 [OF gc] conjunct1 [OF hc] ds b(2) False [symmetric],
          unfolded gc [THEN conjunct2, symmetric] hc [THEN conjunct2, symmetric]]
      from s g Some nd u False sub show ?thesis
        unfolding gf by (auto simp: substitute_binding_def host_side_def Let_def split: if_splits)
    qed
  qed
qed

lemma substitute_binding_host:
  assumes ord: "host_ordered t" and ok: "table_ok t" and ds: "list_all comp_ok ds"
    and s: "substitute_binding t HOST (render ds) = (r, h, t')"
  shows "case host_find t ds of
      None \<Rightarrow> r = Inl ENOENT \<and> h = render ds
    | Some b \<Rightarrow> r = Inr (if hcomps t b = gcomps t b then 0 else 1) \<and> (h = render (guest_side t b ds) \<or>
        (PATH_MAX \<le> length (render (guest_side t b ds)) \<and> h = render ds))"
proof -
  obtain o1 u where g: "get_binding t HOST (render ds) = (o1, u)" by fastforce
  have gf: "host_find t ds = o1" using ord ok g by (simp add: host_find_def)
  have u: "heap u = heap t" using g by (auto simp: get_binding_def split: if_splits)
  show ?thesis
  proof (cases o1)
    case None
    with g s gf show ?thesis by (simp add: substitute_binding_def)
  next
    case (Some b)
    from htable.found [OF ds gf [unfolded Some]] have b: "b \<in> set (blist t HOST)" "prefix (hcomps t b) ds"
      using ord ok by (auto simp: host_set_def)
    then have lk: "b \<in> linked t" by (auto simp: linked_def)
    note nd = need_iff [OF ok lk]
    have c: "canonical (gpath t b)" "canonical (hpath t b)" using ok lk by (auto simp: table_ok_def)
    note gc = canonical_ok [OF c(1)] and hc = canonical_ok [OF c(2)]
    show ?thesis
    proof (cases "hcomps t b = gcomps t b")
      case True
      then have "r = Inr 0" "h = render ds"
        using s g Some nd u by (auto simp: substitute_binding_def)
      with True same_side [OF b(2)] gf Some show ?thesis by (simp add: guest_side_def)
    next
      case False
      note sub = substitute_side [OF conjunct1 [OF hc] conjunct1 [OF gc] ds b(2) False,
          unfolded gc [THEN conjunct2, symmetric] hc [THEN conjunct2, symmetric]]
      from s g Some nd u False sub show ?thesis
        unfolding gf by (auto simp: substitute_binding_def guest_side_def Let_def split: if_splits)
    qed
  qed
qed

lemma table_ok_same: "same_table t u \<Longrightarrow> table_ok t \<Longrightarrow> table_ok u"
  by (simp add: same_table_def table_ok_def linked_def)

lemma guest_find_same:
  assumes "bind_inv t" "bind_inv u" "same_table t u" "table_ok t" "list_all comp_ok ds"
  shows "guest_find u ds = guest_find t ds"
proof -
  have "fst (get_binding u GUEST (render ds)) = fst (get_binding t GUEST (render ds))"
    using assms plain_render [OF assms(5)]
    by (intro get_binding_guest_same) (auto simp: same_table_def table_ok_def linked_def)
  with assms table_ok_same [OF assms(3,4)] show ?thesis by (simp add: guest_find_def)
qed

lemma sides_same: "same_table t u \<Longrightarrow> host_side u b ds = host_side t b ds"
  by (simp add: host_side_def same_table_def)

section \<open>Containment\<close>

text \<open>
  What a translated path looks like: the components \<open>cs\<close> of the canonical guest path, a final dot
  when the original had one, below the host side of the deepest binding; or, where the replaced
  path does not fit in \<open>PATH_MAX\<close>, the guest path as it was; or a path on which the final dot did
  not fit.
\<close>

definition contained :: "tracee \<Rightarrow> string \<Rightarrow> bool" where
  "contained t h \<longleftrightarrow> (\<exists>cs dot b. list_all good_comp cs \<and> (dot = [] \<or> dot = [''.'']) \<and>
     guest_find t (cs @ dot) = Some b \<and> h = render (host_side t b (cs @ dot)))"

definition overlong :: "tracee \<Rightarrow> string \<Rightarrow> bool" where
  "overlong t h \<longleftrightarrow> (\<exists>cs dot b. list_all good_comp cs \<and> (dot = [] \<or> dot = [''.'']) \<and>
     guest_find t (cs @ dot) = Some b \<and> PATH_MAX \<le> length (render (host_side t b (cs @ dot))) \<and>
     h = render (cs @ dot))"

lemma final_form_cases:
  assumes "final_form j g"
  obtains cs dot where "list_all good_comp cs" "dot = [] \<or> dot = [''.'']" "g = render (cs @ dot)"
  | c where "cinv c" "PATH_MAX \<le> length c + 3" "g = c @ j"
proof -
  from assms obtain c where c: "cinv c"
    and g: "g = c \<or> (c \<noteq> ''/'' \<and> g = c @ ''/.'') \<or> (c = ''/'' \<and> g = ''/.'') \<or> (PATH_MAX \<le> length c + 3 \<and> g = c @ j)"
    unfolding final_form_def by blast
  obtain cs where cs: "list_all good_comp cs" "c = render cs" using c by (auto simp: cinv_def canonical_def)
  from g consider "g = c" | "g = c @ ''/.''" "c \<noteq> ''/''" | "g = ''/.''" "c = ''/''"
    | "PATH_MAX \<le> length c + 3" "g = c @ j" by blast
  then show thesis
  proof cases
    case 1
    with cs show thesis by (intro that(1) [of cs "[]"]) simp_all
  next
    case 2
    then have "cs \<noteq> []" using cs by auto
    with 2 cs show thesis by (intro that(1) [of cs "[''.'']"]) (simp_all add: render_def)
  next
    case 3
    with cs show thesis by (intro that(1) [of "[]" "[''.'']"]) simp_all
  next
    case 4
    with c show thesis by (intro that(2)) simp_all
  qed
qed

definition dot_cut :: "string \<Rightarrow> tracee \<Rightarrow> string \<Rightarrow> bool" where
  "dot_cut junk_bytes t h \<longleftrightarrow> (\<exists>c u. cinv c \<and> PATH_MAX \<le> length c + 3 \<and> bind_inv u \<and> same_table t u \<and>
     h = fst (snd (substitute_binding u GUEST (c @ junk_bytes))))"

text \<open>Extensions that leave paths alone; they may keep a state of their own.\<close>

definition silent :: "'w tr_env \<Rightarrow> bool" where
  "silent env \<longleftrightarrow> (\<forall>b p w. \<exists>w'. guest_path_hook env b p w = ((Inr False, b), w')) \<and>
     (\<forall>h w. \<exists>w'. translated_path_hook env h w = ((Inr (), h), w'))"

lemma translate_guest_contained:
  assumes inv: "bind_inv t" and ok: "table_ok t" and gl: "glue_type t = None" and env: "silent env"
    and start: "c_at base 0 \<noteq> slash \<or> c_at (c_str guestp) 0 = slash"
    and tr: "translate_guest env guestp d base t w = (Inr h, t', w')"
  shows "contained t h \<or> overlong t h \<or> dot_cut (junk (fs env)) t h"
proof -
  obtain r u v where ca: "canonicalize (fs env) guestp d base 0 t w = (r, u, v)" by (metis prod_cases3)
  with tr obtain g where g: "r = Inr g" by (cases r) (auto simp: translate_guest_def)
  have ff: "final_form (junk (fs env)) g"
    using canon_invariant(1) [of base 0 guestp t "fs env" d w] start inv ca g by (auto simp: canon_ok_def)
  have u: "bind_inv u" "same_table t u"
    using canon_same(1) [of t "fs env" guestp d base 0 w] inv gl ca by auto
  obtain r2 h2 x where s: "substitute_binding u GUEST g = (r2, h2, x)" by (metis prod_cases3)
  obtain y where hook: "translated_path_hook env h2 v = ((Inr (), h2), y)" using env unfolding silent_def by blast
  from tr ca g s hook obtain k where r2: "r2 = Inr k" and h: "h = h2"
    by (cases r2) (auto simp: translate_guest_def)
  note oku = table_ok_same [OF u(2) ok]
  from ff show ?thesis
  proof (cases rule: final_form_cases)
    case (1 cs dot)
    have ds: "list_all comp_ok (cs @ dot)"
      using list_all_good_ok [OF 1(1)] 1(2) by (auto simp: comp_ok_def)
    note sb = substitute_binding_guest [OF u(1) oku ds, of r2 h2 x] and gf = guest_find_same [OF inv u(1,2) ok ds]
    from sb s 1(3) r2 obtain b where b: "guest_find u (cs @ dot) = Some b"
      by (cases "guest_find u (cs @ dot)") auto
    with sb s 1(3) r2 h sides_same [OF u(2)] have
      "h = render (host_side t b (cs @ dot)) \<or>
       (PATH_MAX \<le> length (render (host_side t b (cs @ dot))) \<and> h = render (cs @ dot))" by auto
    with b gf 1(1,2) show ?thesis unfolding contained_def overlong_def by metis
  next
    case (2 c)
    with s u h have "dot_cut (junk (fs env)) t h" unfolding dot_cut_def by (metis fst_conv snd_conv)
    then show ?thesis by blast
  qed
qed

lemma c_str_first: "c_at (c_str p) 0 = c_at p 0"
  by (cases p) (auto simp: c_str_def c_at_def)

lemma join_step_first_char: "c_at r 0 = slash \<Longrightarrow> join_step r p = Inr r' \<Longrightarrow> c_at r' 0 = slash"
  by (cases r; cases p) (auto simp: join_step_def Let_def c_at_def split: list.splits if_splits)

lemma join2_first_char:
  assumes "c_at a 0 = slash" "join2 a b = Inr r"
  shows "c_at r 0 = slash"
proof -
  obtain r1 where r1: "join_step [] (Some a) = Inr r1" "join_step r1 (Some b) = Inr r"
    using assms(2) by (auto simp: join_paths_def split: sum.splits)
  have "c_at r1 0 = slash" using r1(1) assms(1) by (cases a) (auto simp: join_step_def Let_def split: if_splits)
  with r1(2) show ?thesis by (rule join_step_first_char [rotated])
qed

text \<open>The directory a path is relative to: the root, the working directory, or the directory of a
  descriptor, as the kernel names it, in the guest.\<close>

definition base_of :: "'w tr_env \<Rightarrow> int option \<Rightarrow> string \<Rightarrow> tracee \<Rightarrow> 'w \<Rightarrow> string" where
  "base_of env dir_fd p t w =
     (if c_at p 0 = slash then ''/''
      else case dir_fd of
        None \<Rightarrow> cwd t
      | Some fd \<Rightarrow>
          (case readlink_proc_pid_fd env (t_pid t) fd w of
             (Inl _, _) \<Rightarrow> []
           | (Inr dir, _) \<Rightarrow>
               if dir = ''/proc'' then dir else fst (snd (detranslate_path (tracees (fs env)) t dir None))))"

lemma with_dircache_frame:
  "bind_inv (with_dircache f t) = bind_inv t" "same_table t (with_dircache f t)"
  "cwd_alias_prefix (with_dircache f t) = cwd_alias_prefix t" "glue_type (with_dircache f t) = glue_type t"
proof -
  have b: "blist (with_dircache f t) s = blist t s" for s by (cases s) (simp_all add: with_dircache_def blist_def)
  then show "bind_inv (with_dircache f t) = bind_inv t"
    by (simp add: bind_inv_def linked_def sort_by_desc_length_def) (simp add: with_dircache_def)
  from b show "same_table t (with_dircache f t)" by (simp add: same_table_def) (simp add: with_dircache_def)
qed (simp_all add: with_dircache_def)

lemma contained_same:
  assumes "bind_inv t" "bind_inv u" "same_table t u" "table_ok t"
    and "contained u h \<or> overlong u h \<or> dot_cut j u h"
  shows "contained t h \<or> overlong t h \<or> dot_cut j t h"
proof -
  have gf: "guest_find u (cs @ dot) = guest_find t (cs @ dot)"
    if "list_all good_comp cs" "dot = [] \<or> dot = [''.'']" for cs dot
    using guest_find_same [OF assms(1-4)] list_all_good_ok [OF that(1)] that(2) by (auto simp: comp_ok_def)
  from assms(5) consider "contained u h" | "overlong u h" | "dot_cut j u h" by blast
  then show ?thesis
  proof cases
    case 1 then show ?thesis unfolding contained_def sides_same [OF assms(3)] using gf by metis
  next
    case 2 then show ?thesis unfolding overlong_def sides_same [OF assms(3)] using gf by metis
  next
    case 3 then show ?thesis unfolding dot_cut_def using same_table_trans [OF assms(3)] by blast
  qed
qed

text \<open>From the base on.\<close>

lemma translate_from_contained:
  assumes "bind_inv t" "table_ok t" "glue_type t = None" "cwd_alias_prefix t = None" "silent env"
    and "\<forall>q. join2 base p = Inr q \<longrightarrow> \<not> is_proc_path q"
    and "translate_from env base p d t w = (Inr h, t', w')"
  shows "contained t h \<or> overlong t h \<or> dot_cut (junk (fs env)) t h"
proof -
  have pa: "proc_path_after_alias None q = None" for q by (simp add: proc_path_after_alias_def)
  obtain v where hk: "guest_path_hook env base p w = ((Inr False, base), v)"
    using assms(5) unfolding silent_def by blast
  from hk pa assms(4,6,7) obtain q where q: "join2 base p = Inr q"
    and tr: "translate_guest env q d base t v = (Inr h, t', w')"
    by (cases "join2 base p") (auto simp: translate_from_def split: if_splits)
  have "c_at base 0 \<noteq> slash \<or> c_at (c_str q) 0 = slash"
    using join2_first_char [OF _ q] c_str_first by metis
  from translate_guest_contained [OF assms(1,2,3,5) this tr] show ?thesis .
qed

lemma translate_at_contained:
  assumes "bind_inv t" "table_ok t" "glue_type t = None" "cwd_alias_prefix t = None" "silent env"
    and "\<forall>q. join2 (base_of env (Some fd) p t w) p = Inr q \<longrightarrow> \<not> is_proc_path q" "c_at p 0 \<noteq> slash"
    and "d \<or> \<not> is_single_path_component (Some p)"
    and "translate_at env fd p d t w = (Inr h, t', w')"
  shows "contained t h \<or> overlong t h \<or> dot_cut (junk (fs env)) t h"
proof -
  from assms(9) obtain dir v where l: "readlink_proc_pid_fd env (t_pid t) fd w = (Inr dir, v)"
    by (auto simp: translate_at_def split: prod.splits sum.splits)
  show ?thesis
  proof (cases "dir = ''/proc''")
    case True
    with l assms(9) have "translate_from env ''/proc'' p d t v = (Inr h, t', w')"
      by (simp add: translate_at_def c_at_def)
    moreover have "base_of env (Some fd) p t w = ''/proc''" using l True assms(7) by (simp add: base_of_def)
    ultimately show ?thesis using translate_from_contained [OF assms(1-5)] assms(6) by simp
  next
    case False
    obtain r g u where de: "detranslate_path (tracees (fs env)) t dir None = (r, g, u)" by (metis prod_cases3)
    have g: "base_of env (Some fd) p t w = g" using l False assms(7) de by (simp add: base_of_def)
    define f where "f = remember_translated_dirfd (t_pid u) fd dir g"
    from assms(9) l False de assms(8) have tr: "translate_from env g p d (with_dircache f u) v = (Inr h, t', w')"
      by (auto simp: translate_at_def f_def split: if_splits sum.splits)
    have u: "bind_inv u" "same_table t u" using detranslate_path_spec [OF assms(1) de] by simp_all
    let ?u = "with_dircache f u"
    have x: "bind_inv ?u" "same_table t ?u" using u with_dircache_frame same_table_trans by metis+
    have "glue_type ?u = None" "cwd_alias_prefix ?u = None" using x(2) assms(3,4) by (simp_all add: same_table_def)
    from translate_from_contained [OF x(1) table_ok_same [OF x(2) assms(2)] this assms(5) assms(6) [unfolded g] tr]
    show ?thesis by (rule contained_same [OF assms(1) x assms(2)])
  qed
qed

section \<open>Properties\<close>

text \<open>
  C1: translation stays inside the bindings. A path that is outside \<^verbatim>\<open>/proc\<close>, as it is
  written and as it is joined to its base, absolute, relative to the working directory or relative
  to a directory descriptor (for a descriptor: a path whose final link is followed or that has
  several components, so that the fast path of the descriptor cache is not taken), with the old
  root alias off, no glue and no extension that changes paths, is translated to the host side of the
  deepest binding that contains its canonical form, followed by components none of which is dot-dot,
  whatever symbolic links the file systems hold and however they change during the walk.
  There are two more outcomes, both of them of paths at the length limit: where the replaced path
  does not fit in \<open>PATH_MAX\<close>, the guest path itself is the result (\<open>overlong\<close>); where the
  canonical path is within three bytes of \<open>PATH_MAX\<close>, so that the final dot or slash cannot be put
  back, what is substituted is the canonical path followed by what the buffer holds behind it
  (\<open>dot_cut\<close>).
\<close>

theorem translate_path_contained:
  assumes "bind_inv t" "table_ok t" "glue_type t = None" "cwd_alias_prefix t = None" "silent env"
    and "\<not> is_proc_path p" "\<forall>q. join2 (base_of env dir_fd p t w) p = Inr q \<longrightarrow> \<not> is_proc_path q"
    and "dir_fd = None \<or> d \<or> \<not> is_single_path_component (Some p)"
    and "translate_path env dir_fd p d t w = (Inr h, t', w')"
  shows "contained t h \<or> overlong t h \<or> dot_cut (junk (fs env)) t h"
proof (cases "c_at p 0 \<noteq> slash \<and> dir_fd \<noteq> None")
  case True
  then obtain fd where fd: "dir_fd = Some fd" by auto
  with assms(4,6,9) True have "translate_at env fd p d t w = (Inr h, t', w')"
    by (auto simp: translate_path_def proc_path_after_alias_def)
  from translate_at_contained [OF assms(1-5) _ _ _ this] assms(7,8) fd True show ?thesis by simp
next
  case False
  then have "translate_from env (base_of env dir_fd p t w) p d t w = (Inr h, t', w')"
    using assms(4,6,9)
    by (auto simp: translate_path_def base_of_def getcwd2_def proc_path_after_alias_def split: if_splits)
  from translate_from_contained [OF assms(1-5,7) this] show ?thesis .
qed

definition plain_tr :: "unit tr_env" where
  "plain_tr = \<lparr>fs = plain_env, guest_path_hook = (\<lambda>b p w. ((Inr False, b), w)),
     translated_path_hook = (\<lambda>p w. ((Inr (), p), w)), k_fd_link = (\<lambda>p f w. (None, w)),
     temp_file = (\<lambda>w. (None, w)), fdk = undefined\<rparr>"

lemma silent_plain: "silent plain_tr"
  by (simp add: silent_def plain_tr_def)

lemma set_blist_frame:
  "cwd_alias_prefix (set_blist s l t) = cwd_alias_prefix t" "glue_type (set_blist s l t) = glue_type t"
  "cwd (set_blist s l t) = cwd t" "t_pid (set_blist s l t) = t_pid t"
  by (cases s; simp add: set_blist_def)+

lemma invalidate_frame:
  "cwd_alias_prefix (invalidate_binding_cache t) = cwd_alias_prefix t"
  "glue_type (invalidate_binding_cache t) = glue_type t" "cwd (invalidate_binding_cache t) = cwd t"
  "t_pid (invalidate_binding_cache t) = t_pid t"
  by (simp_all add: invalidate_binding_cache_def)

lemma remove_frame:
  "cwd_alias_prefix (remove_binding_from_all_lists b t) = cwd_alias_prefix t"
  "glue_type (remove_binding_from_all_lists b t) = glue_type t"
  "cwd (remove_binding_from_all_lists b t) = cwd t" "t_pid (remove_binding_from_all_lists b t) = t_pid t"
  by (simp_all add: remove_binding_from_all_lists_def unlink_from_def set_blist_frame invalidate_frame)

lemma insort_frame:
  "cwd_alias_prefix (insort_binding s b t) = cwd_alias_prefix t \<and>
   glue_type (insort_binding s b t) = glue_type t \<and> cwd (insort_binding s b t) = cwd t \<and>
   t_pid (insort_binding s b t) = t_pid t"
proof -
  define u where "u = (if s = GUEST then invalidate_binding_cache t else t)"
  have u: "cwd_alias_prefix u = cwd_alias_prefix t" "glue_type u = glue_type t" "cwd u = cwd t" "t_pid u = t_pid t"
    by (simp_all add: u_def invalidate_frame)
  let ?p = "insort_scan u s b (list_first (blist u s)) None (list_first (blist u s)) (blist u s)"
  show ?thesis
  proof (cases ?p)
    case (Duplicate_of it)
    then show ?thesis unfolding insort_binding_def Let_def u_def [symmetric]
      by (simp add: remove_frame set_blist_frame u)
  next
    case (Place p n)
    then show ?thesis unfolding insort_binding_def Let_def u_def [symmetric]
      by (cases p) (simp_all add: set_blist_frame u)
  qed
qed

lemma demo_frame:
  "cwd_alias_prefix demo_table = None" "glue_type demo_table = None" "cwd demo_table = ''/''" "t_pid demo_table = 1"
  by (simp_all add: demo_table_def insort_binding3_def insort_binding4_def alloc_binding_def
      insort_binding2_def Let_def insort_frame empty_table_def)

lemma demo_linked: "linked demo_table = {0}"
  using demo_table_lists by (simp add: linked_def)

lemma demo_sides: "gcomps demo_table 0 = []" "hcomps demo_table 0 = [''r'']"
  using demo_table_binding comps_root comps_render [of "[''r'']"] by (simp_all add: comp_ok_def)

lemma demo_guest_find: "list_all comp_ok ds \<Longrightarrow> guest_find demo_table ds = Some 0"
  using gtable.not_found [of ds demo_table 0] gtable.found [of ds demo_table]
    demo_table_lists demo_table_inv demo_table_ok demo_sides
  by (cases "guest_find demo_table ds") (auto simp: guest_set_def)

lemma demo_dot:
  "\<exists>k t'. substitute_binding demo_table GUEST ''/.'' = (Inr k, ''/r/.'', t')"
proof -
  obtain r h t' where s: "substitute_binding demo_table GUEST ''/.'' = (r, h, t')" by (metis prod_cases3)
  have ds: "list_all comp_ok [''.'']" by (simp add: comp_ok_def)
  have "substitute_binding demo_table GUEST (render [''.'']) = (r, h, t')" using s by simp
  from substitute_binding_guest [OF demo_table_inv demo_table_ok ds this] obtain k where
    "r = Inr k" "h = ''/r/.''"
    unfolding demo_guest_find [OF ds] option.case host_side_def demo_sides
    by (auto simp: PATH_MAX_def)
  with s show ?thesis by blast
qed

lemma demo_translate: "\<exists>t'. translate_path plain_tr None ''/../../.'' True demo_table () = (Inr ''/r/.'', t', ())"
proof -
  from demo_dot obtain k t' where "substitute_binding demo_table GUEST ''/.'' = (Inr k, ''/r/.'', t')" by blast
  then show ?thesis
    by (simp add: translate_path_def is_proc_path_def c_at_def proc_path_after_alias_def translate_from_def
        plain_tr_def join_paths_def join_step_def PATH_MAX_def translate_guest_def canonicalize_dotdot demo_frame)
qed

theorem translate_path_contained_witness:
  "contained demo_table ''/r/.'' \<or> overlong demo_table ''/r/.'' \<or> dot_cut [] demo_table ''/r/.''"
proof -
  obtain t' where tr: "translate_path plain_tr None ''/../../.'' True demo_table () = (Inr ''/r/.'', t', ())"
    using demo_translate by blast
  have j: "join2 (base_of plain_tr None ''/../../.'' demo_table ()) ''/../../.'' = Inr ''/../../.''"
    by (simp add: base_of_def c_at_def join_paths_def join_step_def PATH_MAX_def)
  have p: "\<not> is_proc_path ''/../../.''" by (simp add: is_proc_path_def c_at_def)
  have "junk (fs plain_tr) = []" by (simp add: plain_tr_def plain_env_def)
  with translate_path_contained [OF demo_table_inv demo_table_ok demo_frame(2,1) silent_plain p _ _ tr] j p
  show ?thesis by simp
qed


lemma demo_host_find: "list_all comp_ok ds \<Longrightarrow> host_find demo_table (''r'' # ds) = Some 0"
proof -
  assume ds: "list_all comp_ok ds"
  have o: "host_ordered demo_table" using demo_table_lists by (simp add: host_ordered_def)
  have r: "list_all comp_ok (''r'' # ds)" using ds by (simp add: comp_ok_def)
  from htable.not_found [OF r, of demo_table 0] htable.found [OF r, of demo_table] o
  show ?thesis using demo_table_lists demo_table_ok demo_sides
    by (cases "host_find demo_table (''r'' # ds)") (auto simp: host_set_def)
qed


section \<open>The proc pass-through\<close>

lemma passthrough_verbatim:
  assumes "length p < PATH_MAX" "silent env"
    and "\<forall>b. fst (get_binding t GUEST p) = Some b \<longrightarrow> \<not> is_proc_path (gpath t b) \<or> gpath t b = ''/proc''"
    and "bind_inv t" "p \<noteq> ''/proc/self/mountinfo''" "p \<noteq> ''/proc/thread-self/mountinfo''"
    and "is_proc_fd_number p = None" "proc_map_slot t p = None"
  shows "\<exists>t' w'. translate_proc_passthrough env p t w = (Inr p, t', w') \<and> same_table t t'"
proof -
  obtain b u where g: "get_binding t GUEST p = (b, u)" by fastforce
  note u = get_binding_spec(2) [OF assms(4) g]
  then have hp: "heap u = heap t" "t_pid u = t_pid t" by (simp_all add: same_table_def)
  obtain w' where hk: "translated_path_hook env p w = ((Inr (), p), w')"
    using assms(2) unfolding silent_def by blast
  have m: "proc_map_slot u p = None" using assms(8) by (simp only: proc_map_slot_def hp)
  have tk: "take (PATH_MAX - 1) p = p" using assms(1) by (simp add: PATH_MAX_def)
  have nb: "\<not> (case b of None \<Rightarrow> False | Some b \<Rightarrow> is_proc_path (gpath u b) \<and> gpath u b \<noteq> ''/proc'')"
    using assms(3) g hp by (cases b) auto
  have "translate_proc_passthrough env p t w = finish_passthrough env p u w"
    unfolding translate_proc_passthrough_def g prod.case if_not_P [OF nb]
    using assms(5-7) m tk by simp
  then show ?thesis using hk u by (simp add: finish_passthrough_def)
qed

text \<open>
  A path that begins with \<^verbatim>\<open>/proc/\<close> is handed to the host as it stands, unless it is one of
  the emulated files or a binding below \<^verbatim>\<open>/proc\<close> contains it: it is not made canonical, so a
  dot-dot in it walks out of the guest (the instance: \<^verbatim>\<open>/proc/../etc/passwd\<close> names a host file).
\<close>

theorem proc_passthrough_verbatim:
  assumes "is_proc_path p" "length p < PATH_MAX" "silent env"
    and "\<forall>b. fst (get_binding t GUEST p) = Some b \<longrightarrow> \<not> is_proc_path (gpath t b) \<or> gpath t b = ''/proc''"
    and "bind_inv t" "p \<noteq> ''/proc/self/mountinfo''" "p \<noteq> ''/proc/thread-self/mountinfo''"
    and "is_proc_fd_number p = None" "proc_map_slot t p = None"
  shows "\<exists>t' w'. translate_path env fd p d t w = (Inr p, t', w') \<and> same_table t t'"
  using passthrough_verbatim [OF assms(2-9)] assms(1) by (simp add: translate_path_def)

lemma demo_get_binding:
  assumes "list_all comp_ok ds"
  shows "fst (get_binding demo_table GUEST (render ds)) = Some 0"
  using demo_guest_find [OF assms] demo_table_inv demo_table_ok by (simp add: guest_find_def)

theorem proc_passthrough_verbatim_witness:
  "\<exists>t' w'. translate_path plain_tr None ''/proc/../etc/passwd'' True demo_table ()
     = (Inr ''/proc/../etc/passwd'', t', w') \<and> same_table demo_table t'"
proof (rule proc_passthrough_verbatim [OF _ _ silent_plain _ demo_table_inv])
  show "is_proc_path ''/proc/../etc/passwd''" by (simp add: is_proc_path_def c_at_def)
  have "fst (get_binding demo_table GUEST (render [''proc'', ''..'', ''etc'', ''passwd''])) = Some 0"
    by (rule demo_get_binding) (simp add: comp_ok_def)
  then show "\<forall>b. fst (get_binding demo_table GUEST ''/proc/../etc/passwd'') = Some b \<longrightarrow>
      \<not> is_proc_path (gpath demo_table b) \<or> gpath demo_table b = ''/proc''"
    using demo_table_binding by (simp add: is_proc_path_def c_at_def)
  have p1: "proc_pid (t_pid demo_table) = ''/proc/1''"
    using char_of_char [of "CHR ''1''", where 'a = nat]
    by (simp add: demo_frame proc_pid_def decimal_int_def decimal.simps)
  show "proc_map_slot demo_table ''/proc/../etc/passwd'' = None"
    by (simp add: proc_map_slot_def p1)
qed (simp_all add: PATH_MAX_def is_proc_fd_number_def)

section \<open>The descriptor of a directory below proc\<close>

lemma root_lookup:
  assumes "bind_inv t" "table_ok t" "set (blist t GUEST) = {b}" "gpath t b = ''/''" "list_all comp_ok ds"
  shows "fst (get_binding t GUEST (render ds)) = Some b"
proof -
  from get_binding_guest_render [OF assms(1,2,5)] have
    "case fst (get_binding t GUEST (render ds)) of None \<Rightarrow> \<not> prefix (gcomps t b) ds | Some c \<Rightarrow> c = b"
    using assms(3) by (auto split: option.splits)
  moreover have "gcomps t b = []" using assms(4) comps_root by simp
  ultimately show ?thesis by (auto split: option.splits)
qed

lemma proc_dir_passthrough:
  assumes "silent env" "bind_inv t" "table_ok t" "set (blist t GUEST) = {b}" "gpath t b = ''/''"
    and "p = ''/proc/7/stat'' \<or> p = ''/proc/7/stat/stat''"
  shows "\<exists>t' w'. translate_proc_passthrough env p t w = (Inr p, t', w')"
proof -
  have r: "p = render [''proc'', ''7'', ''stat''] \<or> p = render [''proc'', ''7'', ''stat'', ''stat'']"
    using assms(6) by simp
  have "fst (get_binding t GUEST p) = Some b"
    using r root_lookup [OF assms(2-5), of "[''proc'', ''7'', ''stat'']"]
      root_lookup [OF assms(2-5), of "[''proc'', ''7'', ''stat'', ''stat'']"]
    by (elim disjE) (simp_all add: comp_ok_def)
  then have g: "\<forall>c. fst (get_binding t GUEST p) = Some c \<longrightarrow> \<not> is_proc_path (gpath t c) \<or> gpath t c = ''/proc''"
    using assms(5) by (simp add: is_proc_path_def c_at_def)
  have "CHR ''m'' \<notin> set p" "CHR ''g'' \<notin> set p" using assms(6) by auto
  then have "CHR ''m'' \<notin> set (drop n p)" "CHR ''g'' \<notin> set (drop n p)" for n
    by (blast dest: in_set_dropD)+
  then have d: "drop n p \<noteq> ''uid_map''" "drop n p \<noteq> ''gid_map''" "drop n p \<noteq> ''setgroups''" for n
    by (metis list.set_intros(1,2))+
  have m: "proc_map_slot t p = None"
    by (simp add: proc_map_slot_def d split: option.split)
  have n: "length p < PATH_MAX" "p \<noteq> ''/proc/self/mountinfo''" "p \<noteq> ''/proc/thread-self/mountinfo''"
    "is_proc_fd_number p = None"
    using assms(6) by (elim disjE; simp add: PATH_MAX_def is_proc_fd_number_def)+
  from passthrough_verbatim [OF n(1) assms(1) g assms(2) n(2-4) m] show ?thesis by blast
qed

lemma inv_dircache [simp]:
  "bind_inv (t\<lparr>dircache := d\<rparr>) = bind_inv t" "table_ok (t\<lparr>dircache := d\<rparr>) = table_ok t"
  "blist (t\<lparr>dircache := d\<rparr>) s = blist t s"
proof -
  have b: "blist (t\<lparr>dircache := d\<rparr>) s = blist t s" for s by (cases s; simp add: blist_def)
  show "bind_inv (t\<lparr>dircache := d\<rparr>) = bind_inv t" "table_ok (t\<lparr>dircache := d\<rparr>) = table_ok t"
    "blist (t\<lparr>dircache := d\<rparr>) s = blist t s"
    by (simp_all add: bind_inv_def table_ok_def linked_def b sort_by_desc_length_def)
qed

text \<open>A table with the root binding alone.\<close>

definition root_table :: "nat \<Rightarrow> tracee \<Rightarrow> bool" where
  "root_table b t \<longleftrightarrow> bind_inv t \<and> table_ok t \<and> set (blist t GUEST) = {b} \<and> gpath t b = ''/'' \<and>
     cwd_alias_prefix t = None"

lemma root_table_dircache [simp]: "root_table b (t\<lparr>dircache := d\<rparr>) = root_table b t"
  by (simp add: root_table_def)

lemma root_table_get:
  assumes "root_table b t" "list_all comp_ok ds"
  shows "\<exists>u. get_binding t GUEST (render ds) = (Some b, u) \<and> root_table b u"
proof -
  obtain c u where g: "get_binding t GUEST (render ds) = (c, u)" by fastforce
  note u = get_binding_spec [OF _ g]
  have t: "bind_inv t" "table_ok t" "set (blist t GUEST) = {b}" "gpath t b = ''/''" "cwd_alias_prefix t = None"
    using assms(1) by (simp_all add: root_table_def)
  have "c = Some b" using root_lookup [OF t(1-4) assms(2)] g by simp
  moreover have "root_table b u"
    using u [OF t(1)] table_ok_same [OF u(2) [OF t(1)] t(2)] t
    by (simp add: root_table_def same_table_def)
  ultimately show ?thesis using g by simp
qed

lemma proc_from:
  assumes "silent env" "root_table b t" "q = ''/proc/7'' \<or> q = ''/proc/7/stat''"
  shows "\<exists>t' w'. translate_from env q ''stat'' False t w = (Inr (q @ ''/stat''), t', w')"
proof -
  obtain v where h: "guest_path_hook env q ''stat'' w = ((Inr False, q), v)"
    using assms(1) unfolding silent_def by blast
  have t: "bind_inv t" "table_ok t" "set (blist t GUEST) = {b}" "gpath t b = ''/''"
    using assms(2) by (simp_all add: root_table_def)
  have "q @ ''/stat'' = ''/proc/7/stat'' \<or> q @ ''/stat'' = ''/proc/7/stat/stat''" using assms(3) by auto
  from proc_dir_passthrough [OF assms(1) t this] obtain t' w' where
    p: "translate_proc_passthrough env (q @ ''/stat'') t v = (Inr (q @ ''/stat''), t', w')" by blast
  have "join2 q ''stat'' = Inr (q @ ''/stat'')" "is_proc_path (q @ ''/stat'')"
    using assms(3) by (elim disjE; simp add: join_paths_def join_step_def PATH_MAX_def is_proc_path_def c_at_def)+
  then have "translate_from env q ''stat'' False t w = translate_proc_passthrough env (q @ ''/stat'') t v"
    using h by (simp add: translate_from_def)
  with p show ?thesis by metis
qed

lemma proc_fast:
  assumes "silent env" "root_table b t" "\<forall>p v. f2fs_skip (fs env) p v = (False, v)"
    and "dlookup (dircache t) (t_pid t) fd = (if cached then Some (''/proc/7'', ''/proc/7'') else None)"
  shows "\<exists>t' w'. try_dirfd_component_fast env fd ''stat'' ''/proc/7'' t w =
    (False, if cached then ''/proc/7/stat'' else ''/proc/7'', t', w') \<and> root_table b t'"
proof -
  obtain slot d where sl: "dirfd_cache_slot (t_pid t) fd (dircache t) = (slot, d)" by fastforce
  have t1: "root_table b (t\<lparr>dircache := d\<rparr>)" using assms(2) by simp
  show ?thesis
  proof (cases slot)
    case None
    with assms(4) sl have "\<not> cached" by (auto simp: dlookup_def split: if_splits)
    with None sl t1 show ?thesis by (simp add: try_dirfd_component_fast_def)
  next
    case (Some i)
    with assms(4) sl have c: "cached" "s_proc_path (slots d ! i) = ''/proc/7''" "s_guest_dir (slots d ! i) = ''/proc/7''"
      by (auto simp: dlookup_def split: if_splits)
    obtain t2 where t2: "get_binding (t\<lparr>dircache := d\<rparr>) GUEST ''/proc/7'' = (Some b, t2)" "root_table b t2"
      using root_table_get [OF t1, of "[''proc'', ''7'']"] by (auto simp: comp_ok_def)
    obtain t3 where t3: "get_binding t2 GUEST ''/proc/7/stat'' = (Some b, t3)" "root_table b t3"
      using root_table_get [OF t2(2), of "[''proc'', ''7'', ''stat'']"] by (auto simp: comp_ok_def)
    obtain v where h: "guest_path_hook env ''/proc/7'' ''stat'' w = ((Inr False, ''/proc/7''), v)"
      using assms(1) unfolding silent_def by blast
    have j: "join2 ''/proc/7'' ''stat'' = Inr ''/proc/7/stat''"
      by (simp add: join_paths_def join_step_def PATH_MAX_def)
    have "try_dirfd_component_fast env fd ''stat'' ''/proc/7'' t w = (False, ''/proc/7/stat'', t3, v)"
      using Some sl c(2,3) t2(1) t3(1) assms(3) h j
      by (simp add: try_dirfd_component_fast_def Let_def is_proc_path_def c_at_def)
    with c(1) t3(2) show ?thesis by simp
  qed
qed

lemma translate_at_proc:
  assumes "silent env" "root_table b t" "\<forall>v. k_fd_link env (t_pid t) fd v = (Some ''/proc/7'', v)"
    and "\<forall>p v. f2fs_skip (fs env) p v = (False, v)"
    and "dlookup (dircache t) (t_pid t) fd = (if cached then Some (''/proc/7'', ''/proc/7'') else None)"
  shows "\<exists>t' w'. translate_at env fd ''stat'' False t w =
    (Inr (if cached then ''/proc/7/stat/stat'' else ''/proc/7/stat''), t', w')"
proof -
  obtain q where q: "q = (if cached then ''/proc/7/stat'' else ''/proc/7'')" by blast
  then have qc: "q = ''/proc/7'' \<or> q = ''/proc/7/stat''"
    and out: "q @ ''/stat'' = (if cached then ''/proc/7/stat/stat'' else ''/proc/7/stat'')" by simp_all
  have rl: "readlink_proc_pid_fd env (t_pid t) fd w = (Inr ''/proc/7'', w)"
    using assms(3) by (simp add: readlink_proc_pid_fd_def PATH_MAX_def c_str_def)
  obtain u v where f: "try_dirfd_component_fast env fd ''stat'' ''/proc/7'' t w = (False, q, u, v)"
    and u: "root_table b u" using proc_fast [OF assms(1,2,4,5)] q by blast
  have dt: "detranslate_path trs u q None = (Inr (length q + 1), q, u)" for trs
    using qc by (elim disjE) (simp_all add: detranslate_path_def PATH_MAX_def is_proc_path_def c_at_def)
  have u2: "root_table b (with_dircache (remember_translated_dirfd (t_pid u) fd q q) u)"
    using u by (simp add: with_dircache_def)
  have sc: "is_single_path_component (Some ''stat'')"
    by (simp add: is_single_path_component_def c_at_def)
  have "translate_at env fd ''stat'' False t w =
      translate_from env q ''stat'' False (with_dircache (remember_translated_dirfd (t_pid u) fd q q) u) v"
    unfolding translate_at_def rl prod.case sum.case
    using f dt sc by (simp add: c_at_def)
  moreover from proc_from [OF assms(1) u2 qc] obtain t' w' where
    "translate_from env q ''stat'' False (with_dircache (remember_translated_dirfd (t_pid u) fd q q) u) v =
      (Inr (q @ ''/stat''), t', w')" by blast
  ultimately show ?thesis unfolding out by simp
qed

text \<open>
  \<open>try_dirfd_component_fast\<close> writes the joined path into the result buffer before it gives
  up on a path below \<^verbatim>\<open>/proc\<close>, and its caller goes on with that buffer as if it still held the
  path of the descriptor. So the lookup of \<^verbatim>\<open>stat\<close> relative to an open \<^verbatim>\<open>/proc/7\<close> is right as
  long as the descriptor is not in the cache, and appends the name twice once it is.
\<close>

theorem fast_path_proc_directory:
  assumes "silent env" "root_table b t" "\<forall>v. k_fd_link env (t_pid t) fd v = (Some ''/proc/7'', v)"
    and "\<forall>p v. f2fs_skip (fs env) p v = (False, v)"
    and "dlookup (dircache t) (t_pid t) fd = (if cached then Some (''/proc/7'', ''/proc/7'') else None)"
  shows "\<exists>t' w'. translate_path env (Some fd) ''stat'' False t w =
    (Inr (if cached then ''/proc/7/stat/stat'' else ''/proc/7/stat''), t', w')"
proof -
  have "cwd_alias_prefix t = None" using assms(2) by (simp add: root_table_def)
  then have "translate_path env (Some fd) ''stat'' False t w = translate_at env fd ''stat'' False t w"
    by (simp add: translate_path_def is_proc_path_def c_at_def proc_path_after_alias_def)
  with translate_at_proc [OF assms] show ?thesis by simp
qed

definition proc_tr :: "unit tr_env" where
  "proc_tr = plain_tr\<lparr>k_fd_link := (\<lambda>p f w. (Some ''/proc/7'', w))\<rparr>"

lemma demo_root_table: "root_table 0 demo_table"
  using demo_table_inv demo_table_ok demo_table_lists demo_table_binding demo_frame
  by (simp add: root_table_def)

text \<open>The second of two identical lookups.\<close>

theorem fast_path_proc_directory_witness:
  "\<exists>t' w'. translate_path proc_tr (Some 3) ''stat'' False
     (demo_table\<lparr>dircache := remember_translated_dirfd 1 3 ''/proc/7'' ''/proc/7'' demo_cache\<rparr>) ()
     = (Inr ''/proc/7/stat/stat'', t', w')"
proof -
  have l: "dlookup (remember_translated_dirfd 1 3 ''/proc/7'' ''/proc/7'' demo_cache) 1 3
      = Some (''/proc/7'', ''/proc/7'')"
    using entries_remember [OF demo_cache_ok, of 3 "''/proc/7''" "''/proc/7''" 1]
      dlookup_entries [OF dok_remember [OF demo_cache_ok]] by (simp add: PATH_MAX_def)
  have s: "silent proc_tr" by (simp add: silent_def proc_tr_def plain_tr_def)
  show ?thesis
    using fast_path_proc_directory [OF s, of 0 "demo_table\<lparr>dircache :=
      remember_translated_dirfd 1 3 ''/proc/7'' ''/proc/7'' demo_cache\<rparr>" 3 True "()"] l demo_root_table
    by (simp add: demo_frame proc_tr_def plain_tr_def plain_env_def)
qed

end
