(* ===== verification/Sysnum_Spec.thy ===== *)
theory Sysnum_Spec
  imports Sysnum
begin

text \<open>
  The table of system call numbers read in both directions: a number that \<open>detranslate_sysnum\<close>
  returns belongs to the system call, different system calls have different numbers.
\<close>

section \<open>System call numbers\<close>

lemma index_from_cases:
  "index_from xs i s = SYSCALL_AVOIDER \<or>
   (\<exists>k<length xs. index_from xs i s = of_nat (i + k) \<and> xs ! k = s)"
proof (induction xs i s rule: index_from.induct)
  case (2 x xs i s)
  show ?case
  proof (cases "x = s")
    case True
    then show ?thesis by (intro disjI2 exI [of _ 0]) simp
  next
    case False
    with 2 consider "index_from xs (Suc i) s = SYSCALL_AVOIDER"
      | k where "k < length xs" "index_from xs (Suc i) s = of_nat (Suc i + k)" "xs ! k = s" by blast
    then show ?thesis
    proof cases
      case 2
      with False show ?thesis by (intro disjI2 exI [of _ "Suc k"]) simp
    qed (use False in simp)
  qed
qed simp

lemma sysnums_arm64_length: "length sysnums_arm64 = sysnums_length"
  by (simp add: sysnums_arm64_def)

lemma detranslate_bound:
  assumes "detranslate_sysnum s \<noteq> SYSCALL_AVOIDER"
  shows "\<exists>k. k < sysnums_length \<and> detranslate_sysnum s = of_nat k \<and> sysnums_arm64 ! k = s"
proof -
  have "detranslate_sysnum s = index_from sysnums_arm64 0 s"
    using assms by (simp add: detranslate_sysnum_def split: if_split_asm)
  with assms index_from_cases [of sysnums_arm64 0 s] sysnums_arm64_length show ?thesis by auto
qed

lemma sysnum_unat:
  "k < sysnums_length \<Longrightarrow> unat (of_nat k :: word_t) = k"
  by (simp add: sysnums_length_def unat_of_nat)

lemma detranslate_small: "detranslate_sysnum s \<noteq> SYSCALL_AVOIDER \<Longrightarrow> unat (detranslate_sysnum s) \<le> UINT32_MAX"
  using detranslate_bound [of s] sysnum_unat by (fastforce simp: sysnums_length_def UINT32_MAX_def)

lemma byte_nat: "n < 256 \<Longrightarrow> unat (of_nat n :: byte) = n"
  by (simp add: unat_of_nat)

lemma u32_nat: "n < 2 ^ 32 \<Longrightarrow> unat (of_nat n :: u32) = n"
  by (simp add: unat_of_nat)

lemma sysnum_u32_inj:
  assumes "detranslate_sysnum s \<noteq> SYSCALL_AVOIDER" "detranslate_sysnum s' \<noteq> SYSCALL_AVOIDER"
    and "(ucast (detranslate_sysnum s) :: u32) = ucast (detranslate_sysnum s')"
  shows "s = s'"
proof -
  from detranslate_bound [OF assms(1)] obtain k where k: "k < sysnums_length"
    "detranslate_sysnum s = of_nat k" "sysnums_arm64 ! k = s" by blast
  from detranslate_bound [OF assms(2)] obtain k' where k': "k' < sysnums_length"
    "detranslate_sysnum s' = of_nat k'" "sysnums_arm64 ! k' = s'" by blast
  have "(of_nat k :: u32) = of_nat k'"
    using assms(3) k k' by (simp add: unsigned_of_nat take_bit_nat_eq_self sysnums_length_def)
  then have "unat (of_nat k :: u32) = unat (of_nat k' :: u32)" by simp
  with k(1) k'(1) have "k = k'" by (simp add: u32_nat sysnums_length_def)
  with k(3) k'(3) show ?thesis by simp
qed

lemma index_from_found:
  "s \<in> set xs \<Longrightarrow> \<exists>j. j < length xs \<and> index_from xs i s = of_nat (i + j)"
proof (induction xs arbitrary: i)
  case (Cons x xs)
  show ?case
  proof (cases "x = s")
    case True
    then show ?thesis by (intro exI [of _ 0]) simp
  next
    case False
    with Cons.prems have "s \<in> set xs" by simp
    from Cons.IH [OF this, of "Suc i"] obtain j where
      "j < length xs" "index_from xs (Suc i) s = of_nat (Suc i + j)" by blast
    with False show ?thesis by (intro exI [of _ "Suc j"]) simp
  qed
qed simp

lemma index_from_first:
  "k < length xs \<Longrightarrow> xs ! k = s \<Longrightarrow> (\<forall>j<k. xs ! j \<noteq> s) \<Longrightarrow> index_from xs i s = of_nat (i + k)"
proof (induction xs arbitrary: i k)
  case (Cons x xs)
  show ?case
  proof (cases k)
    case 0
    with Cons.prems show ?thesis by simp
  next
    case (Suc m)
    have "x \<noteq> s" using Cons.prems Suc by (metis nth_Cons_0 zero_less_Suc)
    moreover have "index_from xs (Suc i) s = of_nat (Suc i + m)"
      using Cons.prems Suc by (intro Cons.IH) auto
    ultimately show ?thesis using Suc by simp
  qed
qed simp

lemma table_nth: "k < sysnums_length \<Longrightarrow> sysnums_arm64 ! k = (case map_of sysnum_entries k of None \<Rightarrow> [] | Some s \<Rightarrow> s)"
  by (simp add: sysnums_arm64_def)

lemma detranslate_first:
  assumes "k < sysnums_length" "map_of sysnum_entries k = Some s" "s \<noteq> []"
    and "\<forall>j<k. map_of sysnum_entries j \<noteq> Some s"
  shows "detranslate_sysnum s = of_nat k"
proof -
  have "\<forall>j<k. sysnums_arm64 ! j \<noteq> s"
    using assms(1,3,4) by (auto simp: table_nth split: option.split)
  then show ?thesis
    using index_from_first [of k sysnums_arm64 s 0] assms(1-3) sysnums_arm64_length
    by (simp add: table_nth detranslate_sysnum_def)
qed

lemma sysnum_of_table:
  "map_of sysnum_entries k = Some s \<Longrightarrow> k < sysnums_length \<Longrightarrow> translate_sysnum (of_nat k) = s"
  by (simp add: translate_sysnum_def sysnum_unat sysnums_arm64_length table_nth)

lemma number_of_lsetxattr: "detranslate_sysnum ''lsetxattr'' = 6"
proof -
  have "map_of sysnum_entries 6 = Some ''lsetxattr''"
    unfolding sysnum_entries_def map_of_Cons_code by simp
  moreover have "\<forall>j<6. map_of sysnum_entries j \<noteq> Some ''lsetxattr''"
    unfolding sysnum_entries_def map_of_Cons_code by (simp add: numeral_eq_Suc less_Suc_eq all_conj_distrib)
  ultimately show ?thesis using detranslate_first [of 6 "''lsetxattr''"] by (simp add: sysnums_length_def)
qed

lemma detranslate_known:
  assumes "k < sysnums_length" "map_of sysnum_entries k = Some s" "s \<noteq> []"
  shows "detranslate_sysnum s \<noteq> SYSCALL_AVOIDER"
proof -
  have "sysnums_arm64 ! k = s" using assms by (simp add: table_nth)
  then have "s \<in> set sysnums_arm64" using assms(1) sysnums_arm64_length nth_mem [of k sysnums_arm64] by simp
  from index_from_found [OF this, of 0] obtain j where j: "j < sysnums_length" "detranslate_sysnum s = of_nat j"
    using assms(3) sysnums_arm64_length by (auto simp: detranslate_sysnum_def)
  then have "unat (detranslate_sysnum s) = j" by (simp add: sysnum_unat)
  moreover have "unat SYSCALL_AVOIDER = 2 ^ 64 - 1" 
    by (simp add: SYSCALL_AVOIDER_def unsigned_minus_1_eq_mask mask_eq_exp_minus_1)
  ultimately show ?thesis using j(1) by (auto simp: sysnums_length_def)
qed

text \<open>
  translating a number back and forth gives the same system call: what \<open>detranslate_sysnum\<close> returns,
  unless it is the number that stands for no system call, \<open>translate_sysnum\<close> maps to the same one.
\<close>

theorem sysnum_roundtrip:
  assumes "detranslate_sysnum s \<noteq> SYSCALL_AVOIDER"
  shows "translate_sysnum (detranslate_sysnum s) = s"
proof -
  from detranslate_bound [OF assms] obtain k where k: "k < sysnums_length"
    "detranslate_sysnum s = of_nat k" "sysnums_arm64 ! k = s" by blast
  then show ?thesis by (simp add: translate_sysnum_def sysnum_unat sysnums_arm64_length)
qed

theorem sysnum_roundtrip_witness: "translate_sysnum 6 = ''lsetxattr''"
  using sysnum_roundtrip [of "''lsetxattr''"] unfolding number_of_lsetxattr
  by (simp add: SYSCALL_AVOIDER_def)

end
