(* ===== verification/Seccomp.thy ===== *)
theory Seccomp
  imports Sysnum
begin

text \<open>
  The construction of the seccomp filter (\<^verbatim>\<open>src/syscall/seccomp.c\<close>). The program is the list of its
  instructions, built from the four shapes the code uses; \<open>fp_len\<close> is the \<open>unsigned short\<close> in
  which the length and, meanwhile, the start of a section is kept. Allocations succeed.
\<close>

section \<open>Programs\<close>

datatype bpf =
  BPF_LD u32            \<comment> \<open>\<open>BPF_LD | BPF_W | BPF_ABS\<close>\<close>
| BPF_JEQ u32 byte byte \<comment> \<open>\<open>BPF_JMP | BPF_JEQ | BPF_K\<close>, the jumps when equal and when not\<close>
| BPF_JA u32            \<comment> \<open>\<open>BPF_JMP | BPF_JA | BPF_K\<close>\<close>
| BPF_RET u32           \<comment> \<open>\<open>BPF_RET | BPF_K\<close>\<close>

record sock_fprog =
  fp_filter :: "bpf list"
  fp_len :: "16 word"

type_synonym filtered_sysnum = "sysnum \<times> word_t"

definition SECCOMP_RET_KILL :: u32 where "SECCOMP_RET_KILL = 0"
definition SECCOMP_RET_TRACE :: u32 where "SECCOMP_RET_TRACE = 0x7ff00000"
definition SECCOMP_RET_ALLOW :: u32 where "SECCOMP_RET_ALLOW = 0x7fff0000"
definition SECCOMP_RET_USER_NOTIF :: u32 where "SECCOMP_RET_USER_NOTIF = 0x7fc00000"
definition AUDIT_ARCH_AARCH64 :: u32 where "AUDIT_ARCH_AARCH64 = 0xc00000b7"
definition FILTER_SYSEXIT :: word_t where "FILTER_SYSEXIT = 1"
definition STAT_SHIM_RAW_TAG :: u32 where "STAT_SHIM_RAW_TAG = 0x4e50524f"

text \<open>\<open>offsetof\<close> in \<open>struct seccomp_data\<close>.\<close>

definition off_nr :: u32 where "off_nr = 0"
definition off_arch :: u32 where "off_arch = 4"
definition off_arg :: "nat \<Rightarrow> u32" where "off_arg i = 16 + 8 * of_nat i"

definition IOCTL_ARGS1_STMTS :: nat where "IOCTL_ARGS1_STMTS = 16"

definition fcntl_traced_cmds :: "u32 list" where "fcntl_traced_cmds = [0, 1030]"

definition FCNTL_ARGS1_STMTS :: nat where "FCNTL_ARGS1_STMTS = 2 + 2 * length fcntl_traced_cmds"

definition ioctl_cmds :: "u32 list" where
  "ioctl_cmds = [0x5404, 0x802c542a, 0x402c542b, 0x402c542c, 0x402c542d, 0x40049409, 0x8933]"

definition new_program_filter :: sock_fprog where
  "new_program_filter = \<lparr>fp_filter = [], fp_len = 0\<rparr>"

definition add_statements :: "bpf list \<Rightarrow> sock_fprog \<Rightarrow> sock_fprog res" where
  "add_statements stmts p = Inr (p\<lparr>fp_filter := fp_filter p @ stmts\<rparr>)"

definition add_syscall_ret :: "word_t \<Rightarrow> u32 \<Rightarrow> sock_fprog \<Rightarrow> sock_fprog res" where
  "add_syscall_ret sc ret p =
     (if unat sc > UINT32_MAX then Inl ERANGE
      else add_statements [BPF_JEQ (ucast sc) 0 1, BPF_RET ret] p)"

text \<open>The flags are an \<open>int\<close>: the low half of the \<open>word_t\<close>.\<close>

definition add_trace_syscall :: "word_t \<Rightarrow> word_t \<Rightarrow> sock_fprog \<Rightarrow> sock_fprog res" where
  "add_trace_syscall sc flag p = add_syscall_ret sc (SECCOMP_RET_TRACE + ucast flag) p"

definition add_trace_syscall_args1 :: "word_t \<Rightarrow> word_t \<Rightarrow> u32 list \<Rightarrow> sock_fprog \<Rightarrow> sock_fprog res" where
  "add_trace_syscall_args1 sc flag args1 p =
     (if unat sc > UINT32_MAX then Inl ERANGE
      else let skip = 1 + 2 * length args1 in
        add_statements
          ([BPF_JEQ (ucast sc) 0 (of_nat skip), BPF_LD (off_arg 1)] @
           concat (map (\<lambda>a. [BPF_JEQ a 0 1, BPF_RET (SECCOMP_RET_TRACE + ucast flag)]) args1)) p)"

definition add_notif_syscall_flag :: "word_t \<Rightarrow> nat \<Rightarrow> u32 \<Rightarrow> sock_fprog \<Rightarrow> sock_fprog res" where
  "add_notif_syscall_flag sc arg_index tag p =
     (if unat sc > UINT32_MAX \<or> arg_index > 5 then Inl ERANGE
      else add_statements
        [BPF_LD off_nr, BPF_JEQ (ucast sc) 0 4, BPF_LD (off_arg arg_index + 4), BPF_JEQ tag 0 1,
         BPF_RET SECCOMP_RET_ALLOW, BPF_RET SECCOMP_RET_USER_NOTIF] p)"

definition is_user_notif_sysnum :: "sysnum \<Rightarrow> bool" where
  "is_user_notif_sysnum s \<longleftrightarrow> s = ''newfstatat'' \<or> s = ''fstatat64'' \<or> s = ''statx''"

definition is_stat_shim_sysnum :: "sysnum \<Rightarrow> bool \<Rightarrow> bool" where
  "is_stat_shim_sysnum s link2symlink \<longleftrightarrow>
     s = ''newfstatat'' \<or> s = ''fstatat64'' \<or> s = ''statx'' \<or>
     (\<not> link2symlink \<and> (s = ''fstat'' \<or> s = ''fstat64''))"

section \<open>Sections\<close>

text \<open>\<open>used\<close> is a difference of \<open>size_t\<close>.\<close>

definition end_arch_section :: "nat \<Rightarrow> nat \<Rightarrow> sock_fprog \<Rightarrow> sock_fprog res" where
  "end_arch_section nb_traced extra p =
     (case add_statements [BPF_RET SECCOMP_RET_ALLOW] p of
        Inl e \<Rightarrow> Inl e
      | Inr p \<Rightarrow>
          (let used = word_of_int (int (length (fp_filter p)) - uint (fp_len p)) :: word_t;
               expected = of_nat (1 + nb_traced * 2 + extra)
           in if used \<noteq> expected then Inl ERANGE else Inr p))"

definition start_arch_section :: "u32 \<Rightarrow> nat \<Rightarrow> nat \<Rightarrow> sock_fprog \<Rightarrow> sock_fprog res" where
  "start_arch_section arch nb_traced extra p =
     (let sec_len = 1 + nb_traced * 2 + extra in
      if sec_len > UINT32_MAX - 1 then Inl ERANGE
      else case add_statements [BPF_LD off_arch, BPF_JEQ arch 1 0, BPF_JA (of_nat (sec_len + 1)), BPF_LD off_nr] p of
        Inl e \<Rightarrow> Inl e
      | Inr p \<Rightarrow> Inr (p\<lparr>fp_len := of_nat (length (fp_filter p))\<rparr>))"

definition finalize_program_filter :: "sock_fprog \<Rightarrow> sock_fprog res" where
  "finalize_program_filter p =
     (case add_statements [BPF_RET SECCOMP_RET_KILL] p of
        Inl e \<Rightarrow> Inl e
      | Inr p \<Rightarrow> Inr (p\<lparr>fp_len := of_nat (length (fp_filter p))\<rparr>))"

section \<open>The filter of a list of system calls\<close>

record filter_opts =
  user_notif :: bool
  stat_shim :: bool
  link2symlink :: bool

text \<open>The counting pass: the pair of \<open>n_trace\<close> and the sum of the extra statements.\<close>

definition count_one :: "filter_opts \<Rightarrow> filtered_sysnum \<Rightarrow> nat \<times> nat \<Rightarrow> nat \<times> nat" where
  "count_one o1 = (\<lambda>(s, flags) (n, extra).
     if detranslate_sysnum s = SYSCALL_AVOIDER then (n, extra)
     else if stat_shim o1 \<and> is_stat_shim_sysnum s (link2symlink o1) then
       (if user_notif o1 \<and> is_user_notif_sysnum s then (n + 1, extra + (6 - 2)) else (n, extra))
     else if s = ''ioctl'' then (n + 1, extra + (IOCTL_ARGS1_STMTS - 2))
     else if s = ''fcntl'' \<or> s = ''fcntl64'' then (n + 1, extra + (FCNTL_ARGS1_STMTS - 2))
     else (n + 1, extra))"

definition emit_one :: "filter_opts \<Rightarrow> filtered_sysnum \<Rightarrow> sock_fprog \<Rightarrow> sock_fprog res" where
  "emit_one o1 = (\<lambda>(s, flags) p.
     let sc = detranslate_sysnum s in
     if sc = SYSCALL_AVOIDER then Inr p
     else if stat_shim o1 \<and> is_stat_shim_sysnum s (link2symlink o1) then
       (if user_notif o1 \<and> is_user_notif_sysnum s
        then add_notif_syscall_flag sc (if s = ''statx'' then 2 else 3) STAT_SHIM_RAW_TAG p else Inr p)
     else if s = ''ioctl'' then add_trace_syscall_args1 sc flags ioctl_cmds p
     else if s = ''fcntl'' \<or> s = ''fcntl64'' then add_trace_syscall_args1 sc flags fcntl_traced_cmds p
     else if user_notif o1 \<and> is_user_notif_sysnum s then add_syscall_ret sc SECCOMP_RET_USER_NOTIF p
     else add_trace_syscall sc flags p)"

fun emit_all :: "filter_opts \<Rightarrow> filtered_sysnum list \<Rightarrow> sock_fprog \<Rightarrow> sock_fprog res" where
  "emit_all o1 [] p = Inr p"
| "emit_all o1 (x # xs) p = (case emit_one o1 x p of Inl e \<Rightarrow> Inl e | Inr p \<Rightarrow> emit_all o1 xs p)"

text \<open>The part of \<open>set_seccomp_filters\<close> before the first \<open>prctl\<close>, for the one architecture.\<close>

definition build_filter :: "filter_opts \<Rightarrow> filtered_sysnum list \<Rightarrow> sock_fprog res" where
  "build_filter o1 sysnums =
     (case fold (count_one o1) sysnums (0, 0) of
        (n, extra) \<Rightarrow>
          (case start_arch_section AUDIT_ARCH_AARCH64 n extra new_program_filter of
             Inl e \<Rightarrow> Inl e
           | Inr p \<Rightarrow>
               (case emit_all o1 sysnums p of
                  Inl e \<Rightarrow> Inl e
                | Inr p \<Rightarrow>
                    (case end_arch_section n extra p of
                       Inl e \<Rightarrow> Inl e
                     | Inr p \<Rightarrow> finalize_program_filter p))))"

text \<open>The kernel: \<open>set_no_new_privs\<close> and \<open>load_filter\<close> are \<open>prctl\<close>, \<open>load_listener\<close> is the
  \<open>seccomp\<close> call that returns a descriptor. The result carries the listener.\<close>

record seccomp_kernel =
  set_no_new_privs :: "unit res"
  load_filter :: "sock_fprog \<Rightarrow> unit res"
  load_listener :: "sock_fprog \<Rightarrow> int res"

definition set_seccomp_filters :: "seccomp_kernel \<Rightarrow> filter_opts \<Rightarrow> filtered_sysnum list \<Rightarrow> int option res" where
  "set_seccomp_filters k o1 sysnums =
     (case build_filter o1 sysnums of
        Inl e \<Rightarrow> Inl e
      | Inr p \<Rightarrow>
          (case set_no_new_privs k of
             Inl e \<Rightarrow> Inl e
           | Inr _ \<Rightarrow>
               if user_notif o1
               then (case load_listener k p of Inl e \<Rightarrow> Inl e | Inr fd \<Rightarrow> Inr (Some fd))
               else (case load_filter k p of Inl e \<Rightarrow> Inl e | Inr _ \<Rightarrow> Inr None)))"

section \<open>Which system calls\<close>

definition proot_sysnums :: "bool \<Rightarrow> (sysnum \<times> word_t) list" where
  "proot_sysnums android =
     [(''accept'', FILTER_SYSEXIT), (''accept4'', FILTER_SYSEXIT), (''access'', 0),
      (''acct'', 0), (''bind'', 0), (''brk'', FILTER_SYSEXIT), (''chdir'', FILTER_SYSEXIT),
      (''close'', 0), (''close_range'', 0), (''chmod'', 0), (''chown'', 0), (''chown32'', 0),
      (''chroot'', 0), (''clone'', 0), (''clone3'', 0), (''connect'', 0), (''creat'', 0),
      (''execve'', FILTER_SYSEXIT), (''execveat'', FILTER_SYSEXIT), (''faccessat'', 0),
      (''faccessat2'', FILTER_SYSEXIT), (''fchdir'', FILTER_SYSEXIT), (''fchmodat'', 0),
      (''fchmodat2'', 0), (''fchownat'', 0), (''fstatat64'', 0), (''futimesat'', 0),
      (''getcwd'', FILTER_SYSEXIT), (''getpeername'', FILTER_SYSEXIT),
      (''getsockname'', FILTER_SYSEXIT), (''getxattr'', 0), (''inotify_add_watch'', 0)]
     @ (if android then [(''ioctl'', FILTER_SYSEXIT)] else [])
     @ [(''lchown'', 0), (''lchown32'', 0), (''lgetxattr'', 0), (''link'', 0), (''linkat'', 0),
      (''listxattr'', 0), (''llistxattr'', 0), (''lremovexattr'', 0), (''lsetxattr'', 0),
      (''lstat'', 0), (''lstat64'', 0)]
     @ (if android then [(''memfd_create'', 0)] else [])
     @ [(''mkdir'', 0), (''mkdirat'', 0), (''mknod'', 0), (''mknodat'', 0),
      (''mount'', FILTER_SYSEXIT), (''mount_setattr'', 0), (''name_to_handle_at'', 0),
      (''newfstatat'', 0), (''oldlstat'', 0), (''oldstat'', 0), (''open'', 0), (''openat'', 0),
      (''openat2'', 0), (''pivot_root'', FILTER_SYSEXIT), (''prctl'', 0),
      (''prlimit64'', FILTER_SYSEXIT), (''ptrace'', FILTER_SYSEXIT),
      (''readlink'', FILTER_SYSEXIT), (''readlinkat'', FILTER_SYSEXIT), (''removexattr'', 0),
      (''rename'', FILTER_SYSEXIT), (''renameat'', FILTER_SYSEXIT),
      (''renameat2'', FILTER_SYSEXIT), (''rmdir'', 0), (''setrlimit'', FILTER_SYSEXIT),
      (''setxattr'', 0), (''socketcall'', FILTER_SYSEXIT), (''stat'', 0), (''stat64'', 0),
      (''statfs'', FILTER_SYSEXIT), (''statfs64'', FILTER_SYSEXIT), (''statx'', FILTER_SYSEXIT),
      (''swapoff'', 0), (''swapon'', 0), (''symlink'', 0), (''symlinkat'', 0), (''truncate'', 0),
      (''truncate64'', 0), (''umount'', FILTER_SYSEXIT), (''umount2'', FILTER_SYSEXIT),
      (''unshare'', FILTER_SYSEXIT), (''setns'', FILTER_SYSEXIT), (''uname'', FILTER_SYSEXIT),
      (''unlink'', 0), (''unlinkat'', 0), (''uselib'', 0), (''utime'', FILTER_SYSEXIT),
      (''utimensat'', 0), (''utimes'', 0), (''wait4'', FILTER_SYSEXIT),
      (''waitpid'', FILTER_SYSEXIT)]"

definition netlink_sysnums :: "(sysnum \<times> word_t) list" where
  "netlink_sysnums =
     [(''close'', 0), (''recvfrom'', 0), (''recvmsg'', 0), (''sendmsg'', 0), (''sendto'', 0),
      (''socket'', FILTER_SYSEXIT)]"

fun merge_one :: "filtered_sysnum list \<Rightarrow> filtered_sysnum \<Rightarrow> filtered_sysnum list" where
  "merge_one [] x = [x]"
| "merge_one ((s, f) # l) x = (if s = fst x then (s, f OR snd x) # l else (s, f) # merge_one l x)"

definition merge_filtered_sysnums :: "filtered_sysnum list \<Rightarrow> filtered_sysnum list \<Rightarrow> filtered_sysnum list" where
  "merge_filtered_sysnums new l = foldl merge_one l new"

text \<open>The lists of the extensions, \<open>None\<close> for NULL, and whether the host blocks \<open>AF_NETLINK\<close>.\<close>

definition filtered_list :: "bool \<Rightarrow> bool \<Rightarrow> filtered_sysnum list option list \<Rightarrow> filtered_sysnum list" where
  "filtered_list android blocks exts =
     (let l = merge_filtered_sysnums (proot_sysnums android) [];
          l = (if blocks then merge_filtered_sysnums netlink_sysnums l else l)
      in fold (\<lambda>e l. case e of None \<Rightarrow> l | Some new \<Rightarrow> merge_filtered_sysnums new l) exts l)"

definition enable_syscall_filtering ::
  "seccomp_kernel \<Rightarrow> bool \<Rightarrow> bool \<Rightarrow> filter_opts \<Rightarrow> filtered_sysnum list option list \<Rightarrow> int res" where
  "enable_syscall_filtering k android blocks o1 exts =
     (case set_seccomp_filters k o1 (filtered_list android blocks exts) of
        Inl e \<Rightarrow> Inl e
      | Inr listener \<Rightarrow>
          Inr (if user_notif o1 then (case listener of Some fd \<Rightarrow> fd | None \<Rightarrow> -1) else 0))"

end
