(* ===== verification/Seccomp_Spec.thy ===== *)
theory Seccomp_Spec
  imports Seccomp Sysnum_Spec
begin

text \<open>
  What the filter does when the kernel runs it. The machine is classic BPF restricted to the
  instructions the filter uses, with the documented layout of \<open>struct seccomp_data\<close> on a
  little-endian host; it is the specification the program is compared with.
\<close>

section \<open>The machine\<close>

record seccomp_data =
  d_nr :: u32
  d_arch :: u32
  d_args :: "word_t list"

definition load_abs :: "seccomp_data \<Rightarrow> u32 \<Rightarrow> u32" where
  "load_abs d off =
     (if off = 0 then d_nr d else if off = 4 then d_arch d
      else let n = unat off - 16; a = d_args d ! (n div 8)
           in if n mod 8 = 0 then ucast a else ucast (drop_bit 32 a))"

text \<open>The program counter runs off the end only in a program the kernel would not load.\<close>

function run :: "bpf list \<Rightarrow> seccomp_data \<Rightarrow> u32 \<Rightarrow> u32 option" where
  "run [] d acc = None"
| "run (BPF_LD off # is) d acc = run is d (load_abs d off)"
| "run (BPF_JEQ k jt jf # is) d acc = run (drop (unat (if acc = k then jt else jf)) is) d acc"
| "run (BPF_JA k # is) d acc = run (drop (unat k) is) d acc"
| "run (BPF_RET v # is) d acc = Some v"
  by pat_completeness auto
termination by (relation "measure (\<lambda>(is, d, acc). length is)") auto

section \<open>The verdict\<close>

text \<open>What one entry of the list makes of a call: a verdict, or the accumulator it goes on with.\<close>

definition entry_verdict :: "filter_opts \<Rightarrow> seccomp_data \<Rightarrow> filtered_sysnum \<Rightarrow> u32 \<Rightarrow> u32 + u32" where
  "entry_verdict o1 d = (\<lambda>(s, flags) acc.
     let sc = detranslate_sysnum s; by_arg = (\<lambda>cmds.
           if acc \<noteq> ucast sc then Inr acc
           else if load_abs d (off_arg 1) \<in> set cmds then Inl (SECCOMP_RET_TRACE + ucast flags)
           else Inr (load_abs d (off_arg 1)))
     in if sc = SYSCALL_AVOIDER then Inr acc
        else if stat_shim o1 \<and> is_stat_shim_sysnum s (link2symlink o1) then
          (if \<not> (user_notif o1 \<and> is_user_notif_sysnum s) then Inr acc
           else if d_nr d \<noteq> ucast sc then Inr (d_nr d)
           else if load_abs d (off_arg (if s = ''statx'' then 2 else 3) + 4) = STAT_SHIM_RAW_TAG
           then Inl SECCOMP_RET_ALLOW else Inl SECCOMP_RET_USER_NOTIF)
        else if s = ''ioctl'' then by_arg ioctl_cmds
        else if s = ''fcntl'' \<or> s = ''fcntl64'' then by_arg fcntl_traced_cmds
        else if acc \<noteq> ucast sc then Inr acc
        else if user_notif o1 \<and> is_user_notif_sysnum s then Inl SECCOMP_RET_USER_NOTIF
        else Inl (SECCOMP_RET_TRACE + ucast flags))"

fun verdict :: "filter_opts \<Rightarrow> seccomp_data \<Rightarrow> filtered_sysnum list \<Rightarrow> u32 \<Rightarrow> u32" where
  "verdict o1 d [] acc = SECCOMP_RET_ALLOW"
| "verdict o1 d (x # xs) acc =
     (case entry_verdict o1 d x acc of Inl r \<Rightarrow> r | Inr acc \<Rightarrow> verdict o1 d xs acc)"

section \<open>The code of an entry\<close>

text \<open>The statements an entry adds, and their number as the counting pass has it.\<close>

definition args1_code :: "word_t \<Rightarrow> word_t \<Rightarrow> u32 list \<Rightarrow> bpf list" where
  "args1_code sc flag cmds =
     [BPF_JEQ (ucast sc) 0 (of_nat (1 + 2 * length cmds)), BPF_LD (off_arg 1)] @
     concat (map (\<lambda>a. [BPF_JEQ a 0 1, BPF_RET (SECCOMP_RET_TRACE + ucast flag)]) cmds)"

definition entry_code :: "filter_opts \<Rightarrow> filtered_sysnum \<Rightarrow> bpf list" where
  "entry_code o1 = (\<lambda>(s, flags).
     let sc = detranslate_sysnum s in
     if sc = SYSCALL_AVOIDER then []
     else if stat_shim o1 \<and> is_stat_shim_sysnum s (link2symlink o1) then
       (if user_notif o1 \<and> is_user_notif_sysnum s then
          [BPF_LD off_nr, BPF_JEQ (ucast sc) 0 4, BPF_LD (off_arg (if s = ''statx'' then 2 else 3) + 4),
           BPF_JEQ STAT_SHIM_RAW_TAG 0 1, BPF_RET SECCOMP_RET_ALLOW, BPF_RET SECCOMP_RET_USER_NOTIF]
        else [])
     else if s = ''ioctl'' then args1_code sc flags ioctl_cmds
     else if s = ''fcntl'' \<or> s = ''fcntl64'' then args1_code sc flags fcntl_traced_cmds
     else if user_notif o1 \<and> is_user_notif_sysnum s
     then [BPF_JEQ (ucast sc) 0 1, BPF_RET SECCOMP_RET_USER_NOTIF]
     else [BPF_JEQ (ucast sc) 0 1, BPF_RET (SECCOMP_RET_TRACE + ucast flags)])"

lemma emit_one_code:
  "emit_one o1 x p = Inr (p\<lparr>fp_filter := fp_filter p @ entry_code o1 x\<rparr>)"
proof -
  obtain s f where x: "x = (s, f)" by fastforce
  obtain sc where sc: "detranslate_sysnum s = sc" by blast
  have small: "sc \<noteq> SYSCALL_AVOIDER \<Longrightarrow> \<not> UINT32_MAX < unat sc" using detranslate_small [of s] sc by simp
  show ?thesis
    unfolding x emit_one_def entry_code_def prod.case sc Let_def
    using small
    by (simp add: add_notif_syscall_flag_def add_trace_syscall_args1_def
        add_trace_syscall_def add_syscall_ret_def add_statements_def args1_code_def)
qed

lemma emit_all_code:
  "emit_all o1 xs p = Inr (p\<lparr>fp_filter := fp_filter p @ concat (map (entry_code o1) xs)\<rparr>)"
  by (induction xs arbitrary: p) (simp_all add: emit_one_code)

text \<open>A list of commands: the first that is equal ends the program.\<close>

lemma run_cmds:
  "run (concat (map (\<lambda>a. [BPF_JEQ a 0 1, BPF_RET v]) cmds) @ rest) d acc =
    (if acc \<in> set cmds then Some v else run rest d acc)"
  by (induction cmds) auto

lemma run_args1:
  assumes "length cmds \<le> 100"
  shows "run (args1_code sc flag cmds @ rest) d acc =
    (if acc \<noteq> ucast sc then run rest d acc
     else if load_abs d (off_arg 1) \<in> set cmds then Some (SECCOMP_RET_TRACE + ucast flag)
     else run rest d (load_abs d (off_arg 1)))"
proof -
  obtain n where n: "n = 1 + 2 * length cmds" by blast
  have skip: "unat (of_nat n :: byte) = n" using assms n by (intro byte_nat) simp
  let ?c = "concat (map (\<lambda>a. [BPF_JEQ a 0 1, BPF_RET (SECCOMP_RET_TRACE + ucast flag)]) cmds)"
  have "length ?c = 2 * length cmds" by (induction cmds) simp_all
  then have d: "drop n (BPF_LD (off_arg 1) # ?c @ rest) = rest" by (simp add: n)
  have "run (args1_code sc flag cmds @ rest) d acc =
      (if acc = ucast sc then run (?c @ rest) d (load_abs d (off_arg 1)) else run (drop n (BPF_LD (off_arg 1) # ?c @ rest)) d acc)"
    unfolding args1_code_def n [symmetric] by (simp add: skip)
  then show ?thesis unfolding d run_cmds by simp
qed

lemma run_entry:
  "run (entry_code o1 x @ rest) d acc =
    (case entry_verdict o1 d x acc of Inl r \<Rightarrow> Some r | Inr acc \<Rightarrow> run rest d acc)"
proof -
  obtain s f where x: "x = (s, f)" by fastforce
  obtain sc where sc: "detranslate_sysnum s = sc" by blast
  have nr: "load_abs d off_nr = d_nr d" by (simp add: load_abs_def off_nr_def)
  have k: "length ioctl_cmds \<le> 100" "length fcntl_traced_cmds \<le> 100"
    by (simp_all add: ioctl_cmds_def fcntl_traced_cmds_def)
  show ?thesis
    unfolding x entry_code_def entry_verdict_def prod.case sc Let_def
    by (cases "sc = SYSCALL_AVOIDER"; cases "user_notif o1"; cases "is_user_notif_sysnum s")
      (simp_all add: nr run_args1 k)
qed

lemma run_entries:
  "run (concat (map (entry_code o1) xs) @ BPF_RET SECCOMP_RET_ALLOW # rest) d acc = Some (verdict o1 d xs acc)"
  by (induction xs arbitrary: acc) (simp_all add: run_entry split: sum.split)

text \<open>The counting pass counts what the second pass adds.\<close>

definition entry_count :: "filter_opts \<Rightarrow> filtered_sysnum \<Rightarrow> nat \<times> nat" where
  "entry_count o1 x = count_one o1 x (0, 0)"

lemma count_one_add:
  "count_one o1 x (n, e) = (n + fst (entry_count o1 x), e + snd (entry_count o1 x))"
  by (cases x) (simp add: entry_count_def count_one_def)

lemma entry_count_code:
  "length (entry_code o1 x) = fst (entry_count o1 x) * 2 + snd (entry_count o1 x)"
proof -
  have len: "length (args1_code sc flag cmds) = 2 + 2 * length cmds" for sc flag cmds
    unfolding args1_code_def by (induction cmds) simp_all
  have k: "length ioctl_cmds = 7" "length fcntl_traced_cmds = 2"
    by (simp_all add: ioctl_cmds_def fcntl_traced_cmds_def)
  obtain s f where x: "x = (s, f)" by fastforce
  show ?thesis
    by (simp add: x entry_count_def count_one_def entry_code_def Let_def len k IOCTL_ARGS1_STMTS_def
        FCNTL_ARGS1_STMTS_def)
qed

lemma entry_count_bound: "length (entry_code o1 x) \<le> 16"
proof -
  obtain s f where x: "x = (s, f)" by fastforce
  show ?thesis
    unfolding entry_count_code by (simp add: x entry_count_def count_one_def IOCTL_ARGS1_STMTS_def
        FCNTL_ARGS1_STMTS_def fcntl_traced_cmds_def)
qed

lemma count_all:
  "fold (count_one o1) xs (n, e) = (n', e') \<Longrightarrow>
     n' * 2 + e' = n * 2 + e + length (concat (map (entry_code o1) xs))"
  by (induction xs arbitrary: n e) (auto simp: count_one_add entry_count_code algebra_simps dest!: sym)

lemma entries_bound: "length (concat (map (entry_code o1) xs)) \<le> 16 * length xs"
  by (induction xs) (auto intro: add_mono entry_count_bound)

lemma build_filter_runs:
  assumes "length xs < 2 ^ 27"
  shows "\<exists>p. build_filter o1 xs = Inr p \<and>
    (\<forall>d. run (fp_filter p) d 0 =
      Some (if d_arch d = AUDIT_ARCH_AARCH64 then verdict o1 d xs (d_nr d) else SECCOMP_RET_KILL))"
proof -
  obtain n e where ne: "fold (count_one o1) xs (0, 0) = (n, e)" by fastforce
  let ?c = "concat (map (entry_code o1) xs)"
  from count_all [OF ne] have len: "n * 2 + e = length ?c" by simp
  with entries_bound [of o1 xs] assms have le: "n * 2 + e < 2 ^ 31" by simp
  obtain k where k: "k = 1 + n * 2 + e" by blast
  have start: "start_arch_section AUDIT_ARCH_AARCH64 n e new_program_filter =
      Inr \<lparr>fp_filter = [BPF_LD off_arch, BPF_JEQ AUDIT_ARCH_AARCH64 1 0, BPF_JA (of_nat (k + 1)), BPF_LD off_nr],
           fp_len = 4\<rparr>"
    using le by (simp add: start_arch_section_def Let_def UINT32_MAX_def add_statements_def new_program_filter_def k)
  let ?p = "BPF_LD off_arch # BPF_JEQ AUDIT_ARCH_AARCH64 1 0 # BPF_JA (of_nat (k + 1)) # BPF_LD off_nr #
    ?c @ [BPF_RET SECCOMP_RET_ALLOW, BPF_RET SECCOMP_RET_KILL]"
  let ?q = "[BPF_LD off_arch, BPF_JEQ AUDIT_ARCH_AARCH64 1 0, BPF_JA (of_nat (k + 1)), BPF_LD off_nr] @ ?c"
  have "int (length (?q @ [BPF_RET SECCOMP_RET_ALLOW])) - uint (4 :: 16 word) = int (1 + n * 2 + e)"
    by (simp add: len)
  then have "(word_of_int (int (length (?q @ [BPF_RET SECCOMP_RET_ALLOW])) - uint (4 :: 16 word)) :: word_t) =
      of_nat (1 + n * 2 + e)" by (metis of_int_of_nat_eq)
  then have "end_arch_section n e \<lparr>fp_filter = ?q, fp_len = 4\<rparr> =
      Inr \<lparr>fp_filter = ?q @ [BPF_RET SECCOMP_RET_ALLOW], fp_len = 4\<rparr>"
    by (simp add: end_arch_section_def add_statements_def del: length_append of_nat_add)
  then obtain l where b: "build_filter o1 xs = Inr \<lparr>fp_filter = ?p, fp_len = l\<rparr>"
    unfolding build_filter_def ne prod.case start sum.case emit_all_code
    by (simp add: finalize_program_filter_def add_statements_def)
  have j: "unat (of_nat (k + 1) :: u32) = k + 1"
    using le by (intro u32_nat) (simp add: k)
  have d: "drop (k + 1) (BPF_LD off_nr # ?c @ [BPF_RET SECCOMP_RET_ALLOW, BPF_RET SECCOMP_RET_KILL]) =
      [BPF_RET SECCOMP_RET_KILL]"
    using len by (simp add: k)
  have "run ?p d 0 = Some (if d_arch d = AUDIT_ARCH_AARCH64 then verdict o1 d xs (d_nr d) else SECCOMP_RET_KILL)" for d
  proof -
    have a: "load_abs d off_arch = d_arch d" "load_abs d off_nr = d_nr d"
      by (simp_all add: load_abs_def off_arch_def off_nr_def)
    let ?t = "BPF_LD off_nr # ?c @ [BPF_RET SECCOMP_RET_ALLOW, BPF_RET SECCOMP_RET_KILL]"
    have t: "run ?t d acc = Some (verdict o1 d xs (d_nr d))" for acc by (simp add: a run_entries)
    have "run ?p d 0 = (if d_arch d = AUDIT_ARCH_AARCH64 then run ?t d (d_arch d)
        else run (drop (k + 1) ?t) d (d_arch d))"
      using j by (simp add: a del: of_nat_add)
    then show ?thesis unfolding d t by simp
  qed
  with b show ?thesis by auto
qed

section \<open>What the verdict means\<close>

lemma verdict_skip:
  assumes "\<forall>x\<in>set xs. detranslate_sysnum (fst x) = SYSCALL_AVOIDER \<or> ucast (detranslate_sysnum (fst x)) \<noteq> d_nr d"
  shows "verdict o1 d (xs @ ys) (d_nr d) = verdict o1 d ys (d_nr d)"
  using assms
proof (induction xs)
  case (Cons x xs)
  obtain s f where x: "x = (s, f)" by fastforce
  obtain sc where sc: "detranslate_sysnum s = sc" by blast
  have "sc = SYSCALL_AVOIDER \<or> d_nr d \<noteq> ucast sc" using Cons.prems by (auto simp: x sc)
  then have "entry_verdict o1 d x (d_nr d) = Inr (d_nr d)"
    unfolding x entry_verdict_def prod.case sc Let_def by (cases "sc = SYSCALL_AVOIDER") simp_all
  with Cons show ?case by simp
qed simp

lemma merge_one_names: "set (map fst (merge_one l x)) = insert (fst x) (set (map fst l))"
  by (induction l x rule: merge_one.induct) auto

lemma merge_one_distinct: "distinct (map fst l) \<Longrightarrow> distinct (map fst (merge_one l x))"
proof (induction l x rule: merge_one.induct)
  case (2 s f l x)
  then show ?case using merge_one_names [of l x] by (cases "s = fst x") auto
qed simp

text \<open>An entry is in a list with at least these flags.\<close>

definition requested :: "filtered_sysnum list \<Rightarrow> filtered_sysnum \<Rightarrow> bool" where
  "requested l x \<longleftrightarrow> (\<exists>f. (fst x, f) \<in> set l \<and> f AND snd x = snd x)"

lemma or_covers: "(a OR b) AND b = (b :: word_t)"
  by (rule bit_word_eqI) (auto simp: bit_simps)

lemma or_keeps: "a AND c = c \<Longrightarrow> (a OR b) AND c = (c :: word_t)"
proof -
  assume a: "a AND c = c"
  have "(a OR b) AND c = (a AND c) OR (b AND c)" by (rule bit_word_eqI) (auto simp: bit_simps)
  also have "\<dots> = c" unfolding a by (rule bit_word_eqI) (auto simp: bit_simps)
  finally show ?thesis .
qed

lemma merge_one_self: "requested (merge_one l x) x"
proof (induction l x rule: merge_one.induct)
  case (1 x)
  show ?case unfolding requested_def by (intro exI [of _ "snd x"]) simp
next
  case (2 s f l x)
  then show ?case using or_covers [of f "snd x"] by (auto simp: requested_def)
qed

lemma merge_one_keeps: "requested l y \<Longrightarrow> requested (merge_one l x) y"
proof (induction l x rule: merge_one.induct)
  case (2 s f l x)
  then show ?case using or_keeps [of f "snd y" "snd x"] by (auto simp: requested_def)
qed (simp add: requested_def)

lemma merge_distinct: "distinct (map fst l) \<Longrightarrow> distinct (map fst (merge_filtered_sysnums new l))"
  unfolding merge_filtered_sysnums_def by (induction new arbitrary: l) (simp_all add: merge_one_distinct)

lemma merge_keeps: "requested l y \<Longrightarrow> requested (merge_filtered_sysnums new l) y"
  unfolding merge_filtered_sysnums_def by (induction new arbitrary: l) (simp_all add: merge_one_keeps)

lemma merge_new: "y \<in> set new \<Longrightarrow> requested (merge_filtered_sysnums new l) y"
proof (induction new arbitrary: l)
  case (Cons x new)
  then show ?case
    using merge_keeps [OF merge_one_self [of l x], of new]
    by (auto simp: merge_filtered_sysnums_def)
qed simp

text \<open>The lists whose requests must be honoured.\<close>

definition sources :: "bool \<Rightarrow> bool \<Rightarrow> filtered_sysnum list option list \<Rightarrow> filtered_sysnum list" where
  "sources android blocks exts = proot_sysnums android @ (if blocks then netlink_sysnums else []) @
     concat (map (\<lambda>e. case e of None \<Rightarrow> [] | Some l \<Rightarrow> l) exts)"

lemma ext_fold:
  "distinct (map fst l) \<Longrightarrow> (\<forall>y\<in>S. requested l y) \<Longrightarrow>
   distinct (map fst (fold (\<lambda>e l. case e of None \<Rightarrow> l | Some new \<Rightarrow> merge_filtered_sysnums new l) exts l)) \<and>
   (\<forall>y\<in>S \<union> set (concat (map (\<lambda>e. case e of None \<Rightarrow> [] | Some l \<Rightarrow> l) exts)).
      requested (fold (\<lambda>e l. case e of None \<Rightarrow> l | Some new \<Rightarrow> merge_filtered_sysnums new l) exts l) y)"
proof (induction exts arbitrary: l S)
  case (Cons e exts)
  show ?case
  proof (cases e)
    case None
    with Cons show ?thesis by simp
  next
    case (Some new)
    have "distinct (map fst (merge_filtered_sysnums new l))" using Cons.prems merge_distinct by blast
    moreover have "\<forall>y\<in>S \<union> set new. requested (merge_filtered_sysnums new l) y"
      using Cons.prems merge_keeps merge_new by blast
    ultimately show ?thesis using Cons.IH [of _ "S \<union> set new"] Some by (simp add: Un_assoc)
  qed
qed simp

lemma filtered_list_ok:
  "distinct (map fst (filtered_list android blocks exts)) \<and>
   (\<forall>y\<in>set (sources android blocks exts). requested (filtered_list android blocks exts) y)"
proof -
  let ?a = "merge_filtered_sysnums (proot_sysnums android) []"
  let ?b = "if blocks then merge_filtered_sysnums netlink_sysnums ?a else ?a"
  have "distinct (map fst ?a)" by (rule merge_distinct) simp
  then have d: "distinct (map fst ?b)" using merge_distinct by simp
  have "\<forall>y\<in>set (proot_sysnums android). requested ?a y" using merge_new by blast
  then have r: "\<forall>y\<in>set (proot_sysnums android) \<union> set (if blocks then netlink_sysnums else []). requested ?b y"
    using merge_new merge_keeps by auto
  show ?thesis
    using ext_fold [OF d r, of exts] unfolding filtered_list_def sources_def Let_def
    by (simp add: Un_assoc)
qed

lemma merge_one_length: "length (merge_one l x) \<le> Suc (length l)"
  by (induction l x rule: merge_one.induct) auto

lemma merge_length: "length (merge_filtered_sysnums new l) \<le> length new + length l"
  unfolding merge_filtered_sysnums_def
proof (induction new arbitrary: l)
  case (Cons x new)
  have "length (foldl merge_one (merge_one l x) new) \<le> length new + length (merge_one l x)" by (rule Cons.IH)
  with merge_one_length [of l x] show ?case by simp
qed simp

section \<open>Properties\<close>

text \<open>
  C9: the filter the kernel loads does what the list of system calls asks for: the program is
  always built, whatever the options; for a call of another architecture it kills the process, and for
  one of this architecture it returns the verdict of the list, entry by entry, with all jumps
  landing where they should.
\<close>

theorem filter_program_correct:
  assumes "length xs < 2 ^ 27"
  shows "\<exists>p. build_filter o1 xs = Inr p \<and>
    (\<forall>d. run (fp_filter p) d 0 =
      Some (if d_arch d = AUDIT_ARCH_AARCH64 then verdict o1 d xs (d_nr d) else SECCOMP_RET_KILL))"
  by (rule build_filter_runs [OF assms])

definition no_opts :: filter_opts where
  "no_opts = \<lparr>user_notif = False, stat_shim = False, link2symlink = False\<rparr>"

theorem filter_program_correct_witness:
  "\<exists>p. build_filter no_opts [(''getcwd'', 1), (''ioctl'', 1)] = Inr p \<and>
    (\<forall>d. run (fp_filter p) d 0 = Some (if d_arch d = AUDIT_ARCH_AARCH64
       then verdict no_opts d [(''getcwd'', 1), (''ioctl'', 1)] (d_nr d) else SECCOMP_RET_KILL))"
  by (rule filter_program_correct) simp

text \<open>What the filter has to answer, \<open>out\<close>, to a system call that a list asks for, with the flags \<open>g\<close>:
  a call that the stat shim serves goes to the listener unless the shim made it itself (and is left
  alone when there is no listener), \<open>ioctl\<close> and \<open>fcntl\<close> are traced for the commands the tracer
  handles, and every other call is traced, or goes to the listener when that serves it.\<close>

definition answered :: "filter_opts \<Rightarrow> seccomp_data \<Rightarrow> sysnum \<Rightarrow> word_t \<Rightarrow> u32 option \<Rightarrow> bool" where
  "answered o1 d s g out \<longleftrightarrow>
     (if stat_shim o1 \<and> is_stat_shim_sysnum s (link2symlink o1) then
        user_notif o1 \<and> is_user_notif_sysnum s \<longrightarrow>
          out = Some (if load_abs d (off_arg (if s = ''statx'' then 2 else 3) + 4) = STAT_SHIM_RAW_TAG
                      then SECCOMP_RET_ALLOW else SECCOMP_RET_USER_NOTIF)
      else if s = ''ioctl'' then
        load_abs d (off_arg 1) \<in> set ioctl_cmds \<longrightarrow> out = Some (SECCOMP_RET_TRACE + ucast g)
      else if s = ''fcntl'' \<or> s = ''fcntl64'' then
        load_abs d (off_arg 1) \<in> set fcntl_traced_cmds \<longrightarrow> out = Some (SECCOMP_RET_TRACE + ucast g)
      else out = Some (if user_notif o1 \<and> is_user_notif_sysnum s then SECCOMP_RET_USER_NOTIF
                       else SECCOMP_RET_TRACE + ucast g))"

lemma entry_answered:
  assumes "detranslate_sysnum s \<noteq> SYSCALL_AVOIDER" "d_nr d = ucast (detranslate_sysnum s)"
  shows "answered o1 d s g (Some (verdict o1 d ((s, g) # ys) (d_nr d)))"
proof -
  obtain sc where sc: "detranslate_sysnum s = sc" by blast
  note a = assms [unfolded sc]
  show ?thesis
    unfolding answered_def verdict.simps entry_verdict_def prod.case sc Let_def if_not_P [OF a(1)]
    using a(2) by (auto split: if_splits)
qed

text \<open>
  C10: nothing that was asked for slips through. A system call of this architecture that the list
  of the tracer, the netlink list or an extension names, with a number in the table, gets from the
  filter what \<open>answered\<close> says, with a set of flags \<open>g\<close> that holds those every one of these lists gave
  it: it is traced with them, save \<open>ioctl\<close> and \<open>fcntl\<close> with a command the tracer does not handle
  (which need not be traced), the calls of the stat family when a listener serves them (which go to
  the listener), and the calls of the stat shim.
\<close>

theorem requested_call_traced:
  assumes "(s, f) \<in> set (sources android blocks exts)" "detranslate_sysnum s \<noteq> SYSCALL_AVOIDER"
    and "length (filtered_list android blocks exts) < 2 ^ 27"
    and "d_arch d = AUDIT_ARCH_AARCH64" "d_nr d = ucast (detranslate_sysnum s)"
  shows "\<exists>p g. build_filter o1 (filtered_list android blocks exts) = Inr p \<and> g AND f = f \<and>
    answered o1 d s g (run (fp_filter p) d 0)"
proof -
  let ?l = "filtered_list android blocks exts"
  have dl: "distinct (map fst ?l)" and rq: "requested ?l (s, f)"
    using filtered_list_ok assms(1) by blast+
  from rq obtain g where g: "(s, g) \<in> set ?l" "g AND f = f" by (auto simp: requested_def)
  then obtain xs ys where l: "?l = xs @ (s, g) # ys" by (meson split_list)
  have "\<forall>x\<in>set xs. detranslate_sysnum (fst x) = SYSCALL_AVOIDER \<or> ucast (detranslate_sysnum (fst x)) \<noteq> d_nr d"
  proof
    fix x assume x: "x \<in> set xs"
    have "fst x \<noteq> s" using dl x unfolding l by auto
    then show "detranslate_sysnum (fst x) = SYSCALL_AVOIDER \<or> ucast (detranslate_sysnum (fst x)) \<noteq> d_nr d"
      using sysnum_u32_inj [of "fst x" s] assms(2,5) by auto
  qed
  then have v: "verdict o1 d ?l (d_nr d) = verdict o1 d ((s, g) # ys) (d_nr d)" unfolding l by (rule verdict_skip)
  from build_filter_runs [OF assms(3), of o1] obtain p where p: "build_filter o1 ?l = Inr p"
    "\<forall>d. run (fp_filter p) d 0 =
      Some (if d_arch d = AUDIT_ARCH_AARCH64 then verdict o1 d ?l (d_nr d) else SECCOMP_RET_KILL)" by blast
  have "answered o1 d s g (run (fp_filter p) d 0)"
    using p(2) [rule_format, of d] assms(4) entry_answered [OF assms(2,5)] unfolding v by simp
  with p(1) g(2) show ?thesis by blast
qed

definition call_of :: "sysnum \<Rightarrow> word_t list \<Rightarrow> seccomp_data" where
  "call_of s as = \<lparr>d_nr = ucast (detranslate_sysnum s), d_arch = AUDIT_ARCH_AARCH64, d_args = as\<rparr>"

theorem requested_call_traced_witness:
  "\<exists>p g. build_filter no_opts (filtered_list False False []) = Inr p \<and> g AND FILTER_SYSEXIT = FILTER_SYSEXIT \<and>
    run (fp_filter p) (call_of ''getcwd'' []) 0 = Some (SECCOMP_RET_TRACE + ucast g)"
proof -
  have s: "(''getcwd'', FILTER_SYSEXIT) \<in> set (sources False False [])"
    by (simp add: sources_def proot_sysnums_def)
  have k: "detranslate_sysnum ''getcwd'' \<noteq> SYSCALL_AVOIDER"
    by (rule detranslate_known [of 17]) (simp_all add: sysnums_length_def sysnum_entries_def)
  have "length (filtered_list False False []) \<le> length (proot_sysnums False)"
    using merge_length [of "proot_sysnums False" "[]"] by (simp add: filtered_list_def)
  also have "\<dots> < 2 ^ 27" by (simp add: proot_sysnums_def)
  finally have l: "length (filtered_list False False []) < 2 ^ 27" .
  from requested_call_traced [OF s k l, of "call_of ''getcwd'' []" no_opts]
  show ?thesis by (simp add: answered_def is_user_notif_sysnum_def no_opts_def call_of_def)
qed

text \<open>
  The argument leaks into the comparison of numbers. The code for \<open>fcntl\<close> leaves the command
  in the accumulator when it is none of the traced ones, and the entries that follow compare it
  with their own numbers: \<open>F_SETLK\<close> (6) is traced as if it were \<open>lsetxattr\<close>, with its flags.
\<close>

theorem filter_argument_leak:
  "6 \<notin> set fcntl_traced_cmds \<and>
   verdict no_opts (call_of ''fcntl'' [3, 6, 0, 0, 0, 0]) [(''fcntl'', FILTER_SYSEXIT), (''lsetxattr'', 0)]
     (ucast (detranslate_sysnum ''fcntl'')) = SECCOMP_RET_TRACE"
proof -
  have k: "detranslate_sysnum ''fcntl'' \<noteq> SYSCALL_AVOIDER"
    by (rule detranslate_known [of 25]) (simp_all add: sysnums_length_def sysnum_entries_def)
  obtain sc where sc: "detranslate_sysnum ''fcntl'' = sc" by blast
  have a: "load_abs (call_of ''fcntl'' [3, 6, 0, 0, 0, 0]) (off_arg 1) = 6"
    by (simp add: load_abs_def off_arg_def call_of_def)
  have "entry_verdict no_opts (call_of ''fcntl'' [3, 6, 0, 0, 0, 0]) (''fcntl'', FILTER_SYSEXIT) (ucast sc) = Inr 6"
    using k [unfolded sc] unfolding entry_verdict_def prod.case sc Let_def a
    by (simp add: no_opts_def fcntl_traced_cmds_def)
  moreover have "entry_verdict no_opts (call_of ''fcntl'' [3, 6, 0, 0, 0, 0]) (''lsetxattr'', 0) 6 = Inl SECCOMP_RET_TRACE"
    unfolding entry_verdict_def prod.case number_of_lsetxattr Let_def
    by (simp add: no_opts_def SYSCALL_AVOIDER_def is_user_notif_sysnum_def)
  ultimately show ?thesis unfolding sc by (simp add: fcntl_traced_cmds_def)
qed

end
