(* ===== verification/Thread.thy ===== *)
theory Thread
  imports Sysnum
begin

text \<open>
  The registers of a tracee (\<^verbatim>\<open>src/tracee/reg.cpp\<close>), the chain of system calls that is run in its name
  (\<^verbatim>\<open>src/syscall/chain.c\<close>) and the emulated heap (\<^verbatim>\<open>src/syscall/heap.c\<close>). Several names of a register
  stand for the same one: the first argument and the result are both \<open>x0\<close>. The register file is
  indexed by the number of the register, 31 for the stack pointer and 32 for the program counter.
\<close>

section \<open>Registers\<close>

datatype reg = SYSARG_NUM | SYSARG_1 | SYSARG_2 | SYSARG_3 | SYSARG_4 | SYSARG_5 | SYSARG_6
  | SYSARG_RESULT | STACK_POINTER | INSTR_POINTER | RTLD_FINI | STATE_FLAGS | USERARG_1

fun get_reg_offset :: "reg \<Rightarrow> nat" where
  "get_reg_offset SYSARG_NUM = 8"
| "get_reg_offset SYSARG_1 = 0"
| "get_reg_offset SYSARG_2 = 1"
| "get_reg_offset SYSARG_3 = 2"
| "get_reg_offset SYSARG_4 = 3"
| "get_reg_offset SYSARG_5 = 4"
| "get_reg_offset SYSARG_6 = 5"
| "get_reg_offset SYSARG_RESULT = 0"
| "get_reg_offset STACK_POINTER = 31"
| "get_reg_offset INSTR_POINTER = 32"
| "get_reg_offset USERARG_1 = 0"
| "get_reg_offset RTLD_FINI = 0"
| "get_reg_offset STATE_FLAGS = 0"

datatype reg_version = CURRENT | ORIGINAL | MODIFIED | ORIGINAL_SECCOMP_REWRITE

datatype workaround = SYSNUM_WORKAROUND_INACTIVE | SYSNUM_WORKAROUND_PROCESS_FAULTY_CALL
  | SYSNUM_WORKAROUND_PROCESS_REPLACED_CALL

text \<open>\<open>restart_how\<close> is a request of \<open>ptrace(2)\<close>; 0 stands for one that is not chosen yet.\<close>

datatype restart = RESTART_UNSET | PTRACE_CONT | PTRACE_SYSCALL | PTRACE_SINGLESTEP | PTRACE_SINGLEBLOCK

datatype seccomp_mode = DISABLED | DISABLING | ENABLED

datatype sigstop_mode = SIGSTOP_IGNORED | SIGSTOP_ALLOWED | SIGSTOP_PENDING

text \<open>\<open>kregs\<close> is the register file the kernel holds for the tracee, \<open>knum\<close> the number of the system call it is
  about to execute (the register set \<open>NT_ARM_SYSTEM_CALL\<close>, separate from \<open>x8\<close>). \<open>status\<close> is 0 while the
  next stop is the entry of a system call.\<close>

record thread =
  th_pid :: int
  regs :: "reg_version \<Rightarrow> nat \<Rightarrow> word_t"
  regs_were_changed :: bool
  restore_original_regs :: bool
  restore_after_seccomp :: bool
  kregs :: "nat \<Rightarrow> word_t"
  knum :: word_t
  status :: int
  restart_how :: restart
  chained :: "(sysnum \<times> word_t list) list option"
  force_final_result :: bool
  final_result :: word_t
  workaround_state :: workaround
  has_exe :: bool
  voided_cancelled :: bool
  pokedata_cancelled :: bool
  pokedata_relaunched :: bool
  last_restart_how :: restart
  seccomp :: seccomp_mode
  sysexit_pending :: bool
  already_handled_enter :: bool
  skip_next_signal :: bool
  restore_sysarg1 :: bool
  suppressed_signal :: int
  sigstop :: sigstop_mode

definition peek_reg :: "reg_version \<Rightarrow> reg \<Rightarrow> thread \<Rightarrow> word_t" where
  "peek_reg v r t = regs t v (get_reg_offset r)"

definition poke_reg :: "reg \<Rightarrow> word_t \<Rightarrow> thread \<Rightarrow> thread" where
  "poke_reg r x t =
     (if peek_reg CURRENT r t = x then t
      else t\<lparr>regs := (regs t)(CURRENT := (regs t CURRENT)(get_reg_offset r := x)),
             regs_were_changed := True\<rparr>)"

definition save_current_regs :: "reg_version \<Rightarrow> thread \<Rightarrow> thread" where
  "save_current_regs v t =
     (let t = (if v = ORIGINAL then t\<lparr>regs_were_changed := False\<rparr> else t)
      in t\<lparr>regs := (regs t)(v := regs t CURRENT)\<rparr>)"

text \<open>The answers of \<open>ptrace(2)\<close>, which may depend on the state of the tracee.\<close>

record ptracer =
  get_regs_error :: "thread \<Rightarrow> errno option"
  set_nr_error :: "thread \<Rightarrow> errno option"
  set_regs_error :: "thread \<Rightarrow> errno option"

definition fetch_regs :: "ptracer \<Rightarrow> thread \<Rightarrow> errno option \<times> thread" where
  "fetch_regs k t =
     (case get_regs_error k t of Some e \<Rightarrow> (Some e, t)
      | None \<Rightarrow> (None, t\<lparr>regs := (regs t)(CURRENT := kregs t)\<rparr>))"

text \<open>The registers that are restored from an older version: not the one that holds the result.\<close>

definition restored_regs :: "reg list" where
  "restored_regs = filter (\<lambda>r. get_reg_offset r \<noteq> get_reg_offset SYSARG_RESULT)
     [SYSARG_NUM, SYSARG_1, SYSARG_2, SYSARG_3, SYSARG_4, SYSARG_5, SYSARG_6, STACK_POINTER]"

definition restore_regs :: "reg_version \<Rightarrow> thread \<Rightarrow> thread" where
  "restore_regs v t =
     t\<lparr>regs := (regs t)(CURRENT := fold (\<lambda>r f. f(get_reg_offset r := peek_reg v r t)) restored_regs (regs t CURRENT))\<rparr>"

definition push_regset :: "ptracer \<Rightarrow> thread \<Rightarrow> errno option \<times> thread" where
  "push_regset k t =
     (case set_regs_error k t of Some e \<Rightarrow> (Some e, t) | None \<Rightarrow> (None, t\<lparr>kregs := regs t CURRENT\<rparr>))"

definition push_specific_regs :: "ptracer \<Rightarrow> bool \<Rightarrow> thread \<Rightarrow> errno option \<times> thread" where
  "push_specific_regs k including_sysnum t =
     (if \<not> regs_were_changed t \<and> \<not> (restore_original_regs t \<and> restore_after_seccomp t) then (None, t)
      else
        let t = (if restore_original_regs t
                 then restore_regs (if restore_after_seccomp t then ORIGINAL_SECCOMP_REWRITE else ORIGINAL)
                        (t\<lparr>restore_after_seccomp := False\<rparr>)
                 else t)
        in if including_sysnum \<and> peek_reg CURRENT SYSARG_NUM t \<noteq> peek_reg ORIGINAL SYSARG_NUM t then
             (case set_nr_error k t of Some e \<Rightarrow> (Some e, t)
              | None \<Rightarrow> push_regset k (t\<lparr>knum := peek_reg CURRENT SYSARG_NUM t\<rparr>))
           else push_regset k t)"

definition get_sysnum :: "reg_version \<Rightarrow> thread \<Rightarrow> sysnum" where
  "get_sysnum v t = translate_sysnum (peek_reg v SYSARG_NUM t)"

definition set_sysnum :: "sysnum \<Rightarrow> thread \<Rightarrow> thread" where
  "set_sysnum s t = poke_reg SYSARG_NUM (detranslate_sysnum s) t"

definition sysarg_regs :: "reg list" where
  "sysarg_regs = [SYSARG_1, SYSARG_2, SYSARG_3, SYSARG_4, SYSARG_5, SYSARG_6]"

text \<open>A sequence of \<open>poke_reg\<close>, in the order of the list.\<close>

definition poke_regs :: "(reg \<times> word_t) list \<Rightarrow> thread \<Rightarrow> thread" where
  "poke_regs l t = fold (\<lambda>(r, x). poke_reg r x) l t"

section \<open>Chained system calls\<close>

definition SYSTRAP_SIZE :: word_t where "SYSTRAP_SIZE = 4"

definition register_chained_syscall_internal :: "sysnum \<Rightarrow> word_t list \<Rightarrow> bool \<Rightarrow> thread \<Rightarrow> thread" where
  "register_chained_syscall_internal s args at_front t =
     (let l = (case chained t of None \<Rightarrow> [] | Some l \<Rightarrow> l)
      in t\<lparr>chained := Some (if at_front then (s, args) # l else l @ [(s, args)])\<rparr>)"

definition register_chained_syscall :: "sysnum \<Rightarrow> word_t list \<Rightarrow> thread \<Rightarrow> thread" where
  "register_chained_syscall s args t = register_chained_syscall_internal s args False t"

definition force_chain_final_result :: "word_t \<Rightarrow> thread \<Rightarrow> thread" where
  "force_chain_final_result r t = t\<lparr>force_final_result := True, final_result := r\<rparr>"

text \<open>\<open>Inl Crash\<close> is the failed assertion.\<close>

definition chain_next_syscall :: "thread \<Rightarrow> thread res" where
  "chain_next_syscall t =
     (case chained t of
        None \<Rightarrow> Inl Crash
      | Some [] \<Rightarrow>
          (let t = t\<lparr>chained := None\<rparr>;
               t = (if force_final_result t then poke_reg SYSARG_RESULT (final_result t) t else t)
           in Inr (t\<lparr>force_final_result := False, final_result := 0\<rparr>))
      | Some ((s, args) # l) \<Rightarrow>
          (let t = t\<lparr>restore_original_regs := False, chained := Some l\<rparr>;
               t = poke_regs (zip sysarg_regs args) t;
               t = poke_reg SYSARG_NUM (detranslate_sysnum s) t;
               t = poke_reg INSTR_POINTER (peek_reg CURRENT INSTR_POINTER t - SYSTRAP_SIZE) t
           in Inr (t\<lparr>restart_how := PTRACE_SYSCALL\<rparr>)))"

definition restart_original_syscall :: "thread \<Rightarrow> thread" where
  "restart_original_syscall t =
     register_chained_syscall (get_sysnum ORIGINAL t) (map (\<lambda>r. peek_reg ORIGINAL r t) sysarg_regs) t"

definition restart_current_syscall_as_chained :: "thread \<Rightarrow> thread res" where
  "restart_current_syscall_as_chained t =
     (if workaround_state t \<noteq> SYSNUM_WORKAROUND_INACTIVE then Inl Crash
      else Inr (register_chained_syscall_internal (get_sysnum CURRENT t)
             (map (\<lambda>r. peek_reg CURRENT r t) sysarg_regs) True
             (t\<lparr>workaround_state := SYSNUM_WORKAROUND_PROCESS_FAULTY_CALL\<rparr>)))"

section \<open>The emulated heap\<close>

record heap =
  heap_base :: word_t
  heap_size :: word_t
  heap_disabled :: bool

definition mmap_sysnum :: sysnum where
  "mmap_sysnum = (if detranslate_sysnum ''mmap2'' \<noteq> SYSCALL_AVOIDER then ''mmap2'' else ''mmap'')"

text \<open>\<open>bss_end\<close> is the end of the last mapping of the program, \<open>pg\<close> the page size. The flag values
  are those of \<open>PROT_READ | PROT_WRITE\<close> and \<open>MAP_PRIVATE | MAP_ANONYMOUS\<close>.\<close>

definition translate_brk_enter :: "word_t \<Rightarrow> word_t \<Rightarrow> heap \<Rightarrow> thread \<Rightarrow> thread" where
  "translate_brk_enter bss_end pg h t =
     (if heap_disabled h then t
      else let new_brk = peek_reg CURRENT SYSARG_1 t in
        if heap_base h = 0 then
          (if new_brk \<noteq> 0 then t
           else poke_regs [(SYSARG_1, bss_end), (SYSARG_2, pg), (SYSARG_3, 3), (SYSARG_4, 0x22),
                           (SYSARG_5, -1), (SYSARG_6, 0)] (set_sysnum mmap_sysnum t))
        else if new_brk < heap_base h then set_sysnum PR_void t
        else
          let new_size = new_brk - heap_base h in
          poke_regs [(SYSARG_1, heap_base h - pg), (SYSARG_2, heap_size h + pg), (SYSARG_3, new_size + pg),
                     (SYSARG_4, 0), (SYSARG_5, 0)] (set_sysnum ''mremap'' t))"

definition is_error :: "word_t \<Rightarrow> bool" where
  "is_error r \<longleftrightarrow> sint r < 0 \<and> sint r > -4096"

definition translate_brk_exit :: "word_t \<Rightarrow> heap \<Rightarrow> thread \<Rightarrow> (heap \<times> thread) res" where
  "translate_brk_exit pg h t =
     (if heap_disabled h then Inr (h, t)
      else if pg = 0 then Inl Crash
      else
        let s = get_sysnum MODIFIED t;
            result = peek_reg CURRENT SYSARG_RESULT t;
            old_brk = heap_base h + heap_size h
        in if s = PR_void then Inr (h, poke_reg SYSARG_RESULT old_brk t)
           else if s = ''mmap'' \<or> s = ''mmap2'' then
             (if is_error result then Inr (h, poke_reg SYSARG_RESULT 0 t)
              else Inr (h\<lparr>heap_base := result + pg, heap_size := 0\<rparr>, poke_reg SYSARG_RESULT (result + pg) t))
           else if s = ''mremap'' then
             (if is_error result \<or> heap_base h \<noteq> result + pg
              then Inr (h, poke_reg SYSARG_RESULT old_brk t)
              else let size = peek_reg MODIFIED SYSARG_3 t - pg
                   in Inr (h\<lparr>heap_size := size\<rparr>, poke_reg SYSARG_RESULT (heap_base h + size) t))
           else if s = ''brk'' then
             Inr (if result = peek_reg ORIGINAL SYSARG_1 t then h\<lparr>heap_disabled := True\<rparr> else h, t)
           else Inl Crash)"

end
