(* ===== verification/Thread_Spec.thy ===== *)
theory Thread_Spec
  imports Thread Sysnum_Spec
begin

text \<open>
  Facts on the register file that the proofs about the stages of a system call share, and the heap: the
  emulation of \<open>brk\<close> implements a break that moves inside a mapping which is never displaced.
\<close>

section \<open>Registers\<close>

lemma peek_poke [reg_simps]:
  "peek_reg v r (poke_reg r' x t) =
     (if v = CURRENT \<and> get_reg_offset r = get_reg_offset r' then x else peek_reg v r t)"
  by (auto simp: peek_reg_def poke_reg_def)

lemma poke_current [reg_simps]:
  "regs (poke_reg r x t) CURRENT = (regs t CURRENT)(get_reg_offset r := x)"
  by (auto simp: poke_reg_def peek_reg_def)

lemma poke_other [reg_simps]: "v \<noteq> CURRENT \<Longrightarrow> regs (poke_reg r x t) v = regs t v"
  by (simp add: poke_reg_def)

lemma poke_regs_Nil [reg_simps]: "poke_regs [] t = t"
  by (simp add: poke_regs_def)

lemma poke_regs_Cons [reg_simps]: "poke_regs ((r, x) # l) t = poke_regs l (poke_reg r x t)"
  by (simp add: poke_regs_def)

text \<open>Writing a register changes nothing but the current registers and the flag.\<close>

definition same_control :: "thread \<Rightarrow> thread \<Rightarrow> bool" where
  "same_control t t' \<longleftrightarrow> (\<exists>f b. t' = t\<lparr>regs := f, regs_were_changed := b\<rparr>)"

lemma same_control_refl [simp, reg_simps]: "same_control t t"
  unfolding same_control_def by (intro exI [of _ "regs t"] exI [of _ "regs_were_changed t"]) simp

lemma same_control_trans: "same_control t t' \<Longrightarrow> same_control t' t'' \<Longrightarrow> same_control t t''"
proof -
  assume "same_control t t'" "same_control t' t''"
  then obtain f b f' b' where "t' = t\<lparr>regs := f, regs_were_changed := b\<rparr>"
    "t'' = t'\<lparr>regs := f', regs_were_changed := b'\<rparr>" unfolding same_control_def by blast
  then have "t'' = t\<lparr>regs := f', regs_were_changed := b'\<rparr>" by simp
  then show ?thesis unfolding same_control_def by blast
qed

lemma same_controlD [simp]:
  assumes "same_control t t'"
  shows "th_pid t' = th_pid t" "restore_original_regs t' = restore_original_regs t"
    "restore_after_seccomp t' = restore_after_seccomp t" "kregs t' = kregs t" "knum t' = knum t"
    "status t' = status t" "restart_how t' = restart_how t" "chained t' = chained t"
    "force_final_result t' = force_final_result t" "final_result t' = final_result t"
    "workaround_state t' = workaround_state t" "has_exe t' = has_exe t"
    "voided_cancelled t' = voided_cancelled t" "pokedata_cancelled t' = pokedata_cancelled t"
    "pokedata_relaunched t' = pokedata_relaunched t"
proof -
  from assms obtain f b where "t' = t\<lparr>regs := f, regs_were_changed := b\<rparr>" unfolding same_control_def by blast
  then show "th_pid t' = th_pid t" "restore_original_regs t' = restore_original_regs t"
    "restore_after_seccomp t' = restore_after_seccomp t" "kregs t' = kregs t" "knum t' = knum t"
    "status t' = status t" "restart_how t' = restart_how t" "chained t' = chained t"
    "force_final_result t' = force_final_result t" "final_result t' = final_result t"
    "workaround_state t' = workaround_state t" "has_exe t' = has_exe t"
    "voided_cancelled t' = voided_cancelled t" "pokedata_cancelled t' = pokedata_cancelled t"
    "pokedata_relaunched t' = pokedata_relaunched t" by simp_all
qed

lemma poke_control: "same_control t (poke_reg r x t)"
proof (cases "peek_reg CURRENT r t = x")
  case False
  then show ?thesis unfolding poke_reg_def same_control_def by (simp only: if_False) blast
qed (simp add: poke_reg_def)

lemmas poke_fields [reg_simps] = same_controlD [OF poke_control]

lemma poke_regs_control: "same_control t (poke_regs l t)"
proof (induction l arbitrary: t)
  case (Cons a l)
  obtain r x where "a = (r, x)" by (cases a)
  with Cons [of "poke_reg r x t"] show ?case by (metis poke_control poke_regs_Cons same_control_trans)
qed (simp add: reg_simps)

lemmas poke_regs_fields [reg_simps] = same_controlD [OF poke_regs_control]

lemma poke_regs_other [reg_simps]: "v \<noteq> CURRENT \<Longrightarrow> regs (poke_regs l t) v = regs t v"
  by (induction l arbitrary: t) (auto simp: reg_simps)

lemma peek_saved [reg_simps]:
  "peek_reg w r (save_current_regs v t) = (if w = v then peek_reg CURRENT r t else peek_reg w r t)"
  by (simp add: peek_reg_def save_current_regs_def Let_def)

lemma set_get_sysnum:
  assumes "detranslate_sysnum s \<noteq> SYSCALL_AVOIDER"
  shows "translate_sysnum (peek_reg CURRENT SYSARG_NUM (set_sysnum s t)) = s"
proof -
  from detranslate_bound [OF assms] obtain k where "k < sysnums_length"
    "detranslate_sysnum s = of_nat k" "sysnums_arm64 ! k = s" by blast
  then show ?thesis
    by (simp add: set_sysnum_def reg_simps translate_sysnum_def sysnum_unat sysnums_arm64_length)
qed

lemma avoider_is_void [simp]: "translate_sysnum SYSCALL_AVOIDER = PR_void"
  by (simp add: translate_sysnum_def SYSCALL_AVOIDER_def sysnums_arm64_length sysnums_length_def
      unsigned_minus_1_eq_mask mask_eq_exp_minus_1)

lemma detranslate_void [simp]: "detranslate_sysnum PR_void = SYSCALL_AVOIDER"
  by (simp add: detranslate_sysnum_def)

section \<open>The heap\<close>

text \<open>One call of \<open>brk\<close>: the entry, the kernel's answer \<open>r\<close> to what the entry left in the registers, the exit.\<close>

definition brk_asked :: "word_t \<Rightarrow> word_t \<Rightarrow> heap \<Rightarrow> thread \<Rightarrow> thread" where
  "brk_asked bss_end pg h t =
     save_current_regs MODIFIED (translate_brk_enter bss_end pg h (save_current_regs ORIGINAL t))"

definition brk_call :: "word_t \<Rightarrow> word_t \<Rightarrow> (thread \<Rightarrow> word_t) \<Rightarrow> heap \<Rightarrow> thread \<Rightarrow> (heap \<times> thread) res" where
  "brk_call bss_end pg kern h t =
     (let t = brk_asked bss_end pg h t
      in translate_brk_exit pg h (poke_reg SYSARG_RESULT (kern t) t))"

lemma entry_numbers:
  "map_of sysnum_entries 216 = Some ''mremap''" "map_of sysnum_entries 222 = Some ''mmap''"
  "map_of sysnum_entries 214 = Some ''brk''"
  unfolding sysnum_entries_def map_of_Cons_code by simp_all

lemma number_of_mremap: "detranslate_sysnum ''mremap'' \<noteq> SYSCALL_AVOIDER"
  by (rule detranslate_known [of 216]) (simp_all add: sysnums_length_def entry_numbers)

lemma number_of_mmap: "detranslate_sysnum ''mmap'' \<noteq> SYSCALL_AVOIDER"
  by (rule detranslate_known [of 222]) (simp_all add: sysnums_length_def entry_numbers)

lemma number_of_brk: "detranslate_sysnum ''brk'' \<noteq> SYSCALL_AVOIDER"
  by (rule detranslate_known [of 214]) (simp_all add: sysnums_length_def entry_numbers)

lemma no_mmap2: "detranslate_sysnum ''mmap2'' = SYSCALL_AVOIDER"
proof (rule ccontr)
  assume "detranslate_sysnum ''mmap2'' \<noteq> SYSCALL_AVOIDER"
  from detranslate_bound [OF this] obtain k where k: "k < sysnums_length" "sysnums_arm64 ! k = ''mmap2''" by blast
  then have "map_of sysnum_entries k = Some ''mmap2''" by (auto simp: table_nth split: option.split_asm)
  then have "(k, ''mmap2'') \<in> set sysnum_entries" by (rule map_of_SomeD)
  then show False by (simp add: sysnum_entries_def)
qed

lemma mmap_sysnum_eq: "mmap_sysnum = ''mmap''"
  by (simp add: mmap_sysnum_def no_mmap2)

text \<open>The abstract break: the end of the heap, which moves to \<open>x\<close> when it lies above the base and the system grants it.\<close>

definition brk_spec :: "word_t \<Rightarrow> word_t \<Rightarrow> word_t \<Rightarrow> bool \<Rightarrow> word_t" where
  "brk_spec b cur x granted = (if x < b \<or> \<not> granted then cur else x)"

definition heap_end :: "heap \<Rightarrow> word_t" where
  "heap_end h = heap_base h + heap_size h"

text \<open>What the kernel is asked: to resize the mapping of the heap and of the page below it, in place.\<close>

definition remap_request :: "word_t \<Rightarrow> heap \<Rightarrow> word_t \<Rightarrow> thread \<Rightarrow> bool" where
  "remap_request pg h x t \<longleftrightarrow>
     get_sysnum CURRENT t = ''mremap'' \<and>
     map (\<lambda>r. peek_reg CURRENT r t) [SYSARG_1, SYSARG_2, SYSARG_3, SYSARG_4] =
       [heap_base h - pg, heap_size h + pg, x - heap_base h + pg, 0]"

definition brk_granted :: "word_t \<Rightarrow> heap \<Rightarrow> word_t \<Rightarrow> bool" where
  "brk_granted pg h r \<longleftrightarrow> \<not> is_error r \<and> r = heap_base h - pg"

lemma asked_below:
  assumes "\<not> heap_disabled h" "heap_base h \<noteq> 0" "peek_reg CURRENT SYSARG_1 t < heap_base h"
  shows "get_sysnum MODIFIED (brk_asked b pg h t) = PR_void"
  using assms by (simp add: brk_asked_def translate_brk_enter_def get_sysnum_def set_sysnum_def reg_simps Let_def)

lemma asked_above:
  assumes "\<not> heap_disabled h" "heap_base h \<noteq> 0" "\<not> peek_reg CURRENT SYSARG_1 t < heap_base h"
  shows "get_sysnum MODIFIED (brk_asked b pg h t) = ''mremap''"
    and "remap_request pg h (peek_reg CURRENT SYSARG_1 t) (brk_asked b pg h t)"
    and "peek_reg MODIFIED SYSARG_3 (brk_asked b pg h t) = peek_reg CURRENT SYSARG_1 t - heap_base h + pg"
  using assms set_get_sysnum [OF number_of_mremap]
  by (simp_all add: brk_asked_def translate_brk_enter_def get_sysnum_def set_sysnum_def reg_simps Let_def
      remap_request_def)

text \<open>
  C14: the emulated break refines the abstract one. On an initialised heap a call answers with the end of the
  heap, which is the requested address when that lies at or above the base and the kernel resizes the
  mapping where it is, and the old one otherwise; the base never moves.
\<close>

theorem brk_refines:
  assumes "\<not> heap_disabled h" "heap_base h \<noteq> 0" "pg \<noteq> 0"
  shows "\<exists>h' t'. brk_call b pg kern h t = Inr (h', t') \<and>
      heap_end h' = brk_spec (heap_base h) (heap_end h) (peek_reg CURRENT SYSARG_1 t)
                      (brk_granted pg h (kern (brk_asked b pg h t))) \<and>
      peek_reg CURRENT SYSARG_RESULT t' = heap_end h' \<and>
      heap_base h' = heap_base h \<and> \<not> heap_disabled h' \<and>
      (heap_base h \<le> peek_reg CURRENT SYSARG_1 t \<longrightarrow>
        remap_request pg h (peek_reg CURRENT SYSARG_1 t) (brk_asked b pg h t))"
proof -
  let ?x = "peek_reg CURRENT SYSARG_1 t" and ?a = "brk_asked b pg h t"
  obtain r where r: "kern ?a = r" by blast
  have "\<exists>h' t'. brk_call b pg kern h t = Inr (h', t') \<and>
      heap_end h' = brk_spec (heap_base h) (heap_end h) ?x (brk_granted pg h (kern ?a)) \<and>
      peek_reg CURRENT SYSARG_RESULT t' = heap_end h' \<and>
      heap_base h' = heap_base h \<and> \<not> heap_disabled h'"
  proof (cases "?x < heap_base h")
    case True
    with assms asked_below [OF assms(1,2) True, of b pg] show ?thesis
      by (simp add: brk_call_def translate_brk_exit_def get_sysnum_def reg_simps Let_def brk_spec_def heap_end_def)
  next
    case False
    note [simp] = asked_above [OF assms(1,2) False, of b pg]
    show ?thesis
    proof (cases "brk_granted pg h r")
      case True
      then have "\<not> is_error r" "heap_base h = r + pg" by (auto simp: brk_granted_def)
      with assms False True r show ?thesis
        using asked_above [OF assms(1,2) False, of b pg]
        by (simp add: brk_call_def translate_brk_exit_def get_sysnum_def reg_simps Let_def brk_spec_def heap_end_def)
    next
      case refused: False
      then have "is_error r \<or> heap_base h \<noteq> r + pg" by (auto simp: brk_granted_def)
      with assms False refused r show ?thesis
        using asked_above [OF assms(1,2) False, of b pg]
        by (simp add: brk_call_def translate_brk_exit_def get_sysnum_def reg_simps Let_def brk_spec_def heap_end_def)
    qed
  qed
  moreover have "heap_base h \<le> ?x \<longrightarrow> remap_request pg h ?x ?a"
    using asked_above(2) [OF assms(1,2), of t pg b] by (simp add: linorder_not_less)
  ultimately show ?thesis by blast
qed

text \<open>A tracee whose registers are all zero but those given.\<close>

definition demo_thread :: "(nat \<times> word_t) list \<Rightarrow> thread" where
  "demo_thread l =
     \<lparr>th_pid = 1, regs = (\<lambda>v i. case map_of l i of None \<Rightarrow> 0 | Some x \<Rightarrow> x), regs_were_changed = False,
      restore_original_regs = False, restore_after_seccomp = False,
      kregs = (\<lambda>i. case map_of l i of None \<Rightarrow> 0 | Some x \<Rightarrow> x), knum = (case map_of l 8 of None \<Rightarrow> 0 | Some x \<Rightarrow> x),
      status = 0, restart_how = PTRACE_SYSCALL, chained = None, force_final_result = False, final_result = 0,
      workaround_state = SYSNUM_WORKAROUND_INACTIVE, has_exe = True, voided_cancelled = False,
      pokedata_cancelled = False, pokedata_relaunched = False, last_restart_how = RESTART_UNSET,
      seccomp = ENABLED, sysexit_pending = False, already_handled_enter = False, skip_next_signal = False,
      restore_sysarg1 = False, suppressed_signal = 0, sigstop = SIGSTOP_ALLOWED\<rparr>"

theorem brk_refines_witness:
  "\<exists>h' t'. brk_call 0 0x1000 (\<lambda>_. 0x4000) \<lparr>heap_base = 0x5000, heap_size = 0x100, heap_disabled = False\<rparr>
       (demo_thread [(0, 0x6000)]) = Inr (h', t') \<and>
     heap_end h' = 0x6000 \<and> peek_reg CURRENT SYSARG_RESULT t' = 0x6000"
proof -
  let ?h = "\<lparr>heap_base = 0x5000, heap_size = 0x100, heap_disabled = False\<rparr> :: heap"
  let ?t = "demo_thread [(0, 0x6000)]"
  have "brk_spec (heap_base ?h) (heap_end ?h) (peek_reg CURRENT SYSARG_1 ?t) (brk_granted 0x1000 ?h 0x4000) = 0x6000"
    by (simp add: brk_spec_def brk_granted_def is_error_def peek_reg_def demo_thread_def word_less_nat_alt)
  with brk_refines [of ?h "0x1000" 0 "\<lambda>_. 0x4000" ?t] show ?thesis by (simp only: heap.simps) fastforce
qed

end
