(* ===== verification/Stage.thy ===== *)
theory Stage
  imports Thread
begin

text \<open>
  The two stages of a system call (\<^verbatim>\<open>src/syscall/syscall.c\<close>): what the tracer does at the entry and at the
  exit of a system call of a tracee, and the system calls it performs itself. The handlers of the
  individual calls, the extensions and the memory of the tracee are parameters.
\<close>

section \<open>System calls performed by the tracer\<close>

definition svc_safe_sysnums :: "sysnum list" where
  "svc_safe_sysnums = [''gettimeofday'', ''clock_gettime'', ''clock_getres'', ''time'', ''sched_yield'',
     ''sched_get_priority_max'', ''sched_get_priority_min'', ''getrandom'', ''sysinfo'']"

definition is_svc_safe_syscall :: "sysnum \<Rightarrow> bool" where
  "is_svc_safe_syscall s \<longleftrightarrow> s \<in> set svc_safe_sysnums"

text \<open>A call the tracer makes: its arguments, and for each of the two local buffers the address of the
  tracee (0 for none) and the number of bytes that are copied there. \<open>buf_bytes\<close> is the size of the
  first buffer.\<close>

record svc_plan =
  svc_args :: "word_t list"
  orig_ptr1 :: word_t
  wb_size1 :: nat
  orig_ptr2 :: word_t
  wb_size2 :: nat

record buffers =
  svc_buf1 :: word_t
  svc_buf2 :: word_t

definition buf_bytes :: nat where "buf_bytes = 128"
definition sysinfo_bytes :: nat where "sysinfo_bytes = 112"

definition svc_first :: "buffers \<Rightarrow> nat \<Rightarrow> svc_plan \<Rightarrow> svc_plan" where
  "svc_first b n p =
     (if svc_args p ! 0 = 0 then p
      else p\<lparr>svc_args := (svc_args p)[0 := svc_buf1 b], orig_ptr1 := svc_args p ! 0, wb_size1 := n\<rparr>)"

definition svc_second :: "buffers \<Rightarrow> nat \<Rightarrow> svc_plan \<Rightarrow> svc_plan" where
  "svc_second b n p =
     (if svc_args p ! 1 = 0 then p
      else p\<lparr>svc_args := (svc_args p)[1 := svc_buf2 b], orig_ptr2 := svc_args p ! 1, wb_size2 := n\<rparr>)"

text \<open>The \<open>switch\<close> over the number; \<open>None\<close> is \<open>svc_ok == false\<close>. The length of \<open>getrandom\<close> is compared as a
  signed number.\<close>

definition plan_svc :: "buffers \<Rightarrow> sysnum \<Rightarrow> word_t list \<Rightarrow> svc_plan option" where
  "plan_svc b s args =
     (let p = \<lparr>svc_args = args, orig_ptr1 = 0, wb_size1 = 0, orig_ptr2 = 0, wb_size2 = 0\<rparr>
      in if s = ''gettimeofday'' then Some (svc_second b 8 (svc_first b 16 p))
         else if s = ''clock_gettime'' \<or> s = ''clock_getres'' then
           (if s = ''clock_gettime'' \<and> (args ! 0 = 2 \<or> args ! 0 = 3) then None
            else Some (svc_second b 16 p))
         else if s = ''getrandom'' then
           (if sint (args ! 1) > int buf_bytes then None else Some (svc_first b (unat (args ! 1)) p))
         else if s = ''sysinfo'' then Some (svc_first b sysinfo_bytes p)
         else Some p)"

section \<open>Handlers\<close>

text \<open>\<open>enter_h\<close> and \<open>exit_h\<close> are \<open>translate_syscall_enter\<close> and \<open>translate_syscall_exit\<close>; \<open>chained_enter_h\<close> and
  \<open>chained_exit_h\<close> the notification of the extensions. \<open>svc_call\<close> is the kernel as the tracer calls it: the
  result and what it put in the two buffers. \<open>write_h\<close> is \<open>write_data\<close>.\<close>

record handlers =
  enter_h :: "thread \<Rightarrow> int \<times> thread"
  exit_h :: "thread \<Rightarrow> thread"
  chained_enter_h :: "thread \<Rightarrow> int \<times> thread"
  chained_exit_h :: "thread \<Rightarrow> thread"
  svc_call :: "word_t \<Rightarrow> word_t list \<Rightarrow> int \<times> (nat \<Rightarrow> byte) \<times> (nat \<Rightarrow> byte)"
  write_h :: "word_t \<Rightarrow> byte list \<Rightarrow> thread \<Rightarrow> thread"
  bufs :: buffers

definition svc_write :: "handlers \<Rightarrow> word_t \<Rightarrow> nat \<Rightarrow> (nat \<Rightarrow> byte) \<Rightarrow> thread \<Rightarrow> thread" where
  "svc_write H p n b t = (if p \<noteq> 0 \<and> n > 0 then write_h H p (map b [0..<n]) t else t)"

definition perform_svc :: "handlers \<Rightarrow> sysnum \<Rightarrow> svc_plan \<Rightarrow> thread \<Rightarrow> thread" where
  "perform_svc H s p t =
     (let (ret, b1, b2) = svc_call H (detranslate_sysnum s) (svc_args p);
          n1 = (if s = ''getrandom'' then nat ret else wb_size1 p);
          t = (if ret \<ge> 0 then svc_write H (orig_ptr2 p) (wb_size2 p) b2 (svc_write H (orig_ptr1 p) n1 b1 t) else t);
          t = set_sysnum PR_void (poke_reg SYSARG_RESULT (word_of_int ret) t)
      in save_current_regs MODIFIED (save_current_regs ORIGINAL t))"

section \<open>The entry stage\<close>

definition current_sysargs :: "thread \<Rightarrow> word_t list" where
  "current_sysargs t = map (\<lambda>r. peek_reg CURRENT r t) sysarg_regs"

definition translate_requested :: "handlers \<Rightarrow> thread \<Rightarrow> int \<times> thread" where
  "translate_requested H t =
     (let t = save_current_regs ORIGINAL t;
          (st, t) = enter_h H t
      in (st, save_current_regs MODIFIED t))"

text \<open>The translation of a call the tracee requested, the detour of the safe calls included.\<close>

definition enter_requested :: "handlers \<Rightarrow> thread \<Rightarrow> int \<times> thread" where
  "enter_requested H t =
     (let s = get_sysnum CURRENT t in
      if is_svc_safe_syscall s then
        (let (ext, t) = chained_enter_h H t in
         if ext = 0 then
           (case plan_svc (bufs H) s (current_sysargs t) of
              Some p \<Rightarrow> (0, perform_svc H s p t)
            | None \<Rightarrow> translate_requested H t)
         else translate_requested H t)
      else translate_requested H t)"

definition enter_chained :: "handlers \<Rightarrow> thread \<Rightarrow> int \<times> thread" where
  "enter_chained H t =
     (let (st, t) = (if workaround_state t \<noteq> SYSNUM_WORKAROUND_PROCESS_REPLACED_CALL then chained_enter_h H t else (0, t))
      in (st, t\<lparr>restart_how := PTRACE_SYSCALL\<rparr>))"

definition note_status :: "int \<Rightarrow> thread \<Rightarrow> thread" where
  "note_status st t =
     (if st < 0 then (poke_reg SYSARG_RESULT (word_of_int st) (set_sysnum PR_void t))\<lparr>status := st\<rparr>
      else t\<lparr>status := 1\<rparr>)"

text \<open>Whether the function goes on to push the registers, the status it hid, and the tracee.\<close>

definition enter_stage :: "ptracer \<Rightarrow> handlers \<Rightarrow> thread \<Rightarrow> bool \<times> int \<times> thread" where
  "enter_stage k H t =
     (let t = t\<lparr>restore_original_regs := False, voided_cancelled := False\<rparr> in
      if pokedata_relaunched t then
        (False, 0, t\<lparr>pokedata_relaunched := False, status := 1, restart_how := PTRACE_SYSCALL\<rparr>)
      else
        let (st, t) = (if chained t = None then enter_requested H t else enter_chained H t);
            t = note_status st t
        in if pokedata_cancelled t then
             let t = t\<lparr>pokedata_cancelled := False, pokedata_relaunched := True, restart_how := PTRACE_SYSCALL, status := 0\<rparr>;
                 t = poke_reg INSTR_POINTER (peek_reg CURRENT INSTR_POINTER t - SYSTRAP_SIZE) t
             in (False, 0, snd (push_specific_regs k False t))
           else if restart_how t = PTRACE_CONT then
             (True, status t, poke_reg STACK_POINTER (peek_reg ORIGINAL STACK_POINTER t) (t\<lparr>status := 0\<rparr>))
           else (True, 0, t))"

section \<open>The exit stage\<close>

definition exit_workaround :: "handlers \<Rightarrow> thread \<Rightarrow> thread" where
  "exit_workaround H t =
     (if chained t = None \<or> workaround_state t = SYSNUM_WORKAROUND_PROCESS_REPLACED_CALL
      then exit_h H (t\<lparr>workaround_state := SYSNUM_WORKAROUND_INACTIVE\<rparr>)
      else if workaround_state t = SYSNUM_WORKAROUND_PROCESS_FAULTY_CALL
      then t\<lparr>workaround_state := SYSNUM_WORKAROUND_PROCESS_REPLACED_CALL\<rparr>
      else chained_exit_h H t)"

definition exit_stage :: "handlers \<Rightarrow> thread \<Rightarrow> (bool \<times> thread) res" where
  "exit_stage H t =
     (let t = t\<lparr>restore_original_regs := True\<rparr> in
      if pokedata_relaunched t then Inr (False, t)
      else
        let t = (exit_workaround H t)\<lparr>status := 0, pokedata_cancelled := False\<rparr>
        in if chained t = None then Inr (True, t)
           else (case chain_next_syscall t of Inl e \<Rightarrow> Inl e | Inr t \<Rightarrow> Inr (True, t)))"

section \<open>Both stages\<close>

text \<open>The number of the call could not be replaced: the call is made to fail, and a replacement is chained.\<close>

definition sysnum_not_replaced :: "ptracer \<Rightarrow> int \<Rightarrow> thread \<Rightarrow> thread res" where
  "sysnum_not_replaced k hidden t =
     (if peek_reg ORIGINAL SYSARG_NUM t = peek_reg CURRENT SYSARG_NUM t then Inr t
      else
        let r = (if peek_reg CURRENT SYSARG_NUM t \<noteq> SYSCALL_AVOIDER then restart_current_syscall_as_chained t
                 else if hidden \<noteq> 0 then Inr (t\<lparr>status := hidden, restart_how := PTRACE_SYSCALL\<rparr>)
                 else Inr t)
        in (case r of Inl e \<Rightarrow> Inl e
            | Inr t \<Rightarrow>
               (let t = poke_regs (map (\<lambda>r. (r, -1)) sysarg_regs) t;
                    t = (if get_sysnum ORIGINAL t = ''brk'' then poke_reg SYSARG_1 0 t else t)
                in Inr (snd (push_specific_regs k False t)))))"

definition is_voided_syscall :: "reg_version \<Rightarrow> thread \<Rightarrow> bool" where
  "is_voided_syscall v t \<longleftrightarrow> peek_reg v SYSARG_NUM t = SYSCALL_AVOIDER \<and> peek_reg ORIGINAL SYSARG_NUM t \<noteq> SYSCALL_AVOIDER"

definition kernel_cancels_voided_syscall :: bool where
  "kernel_cancels_voided_syscall \<longleftrightarrow> sint SYSCALL_AVOIDER < 0"

definition push_stage :: "ptracer \<Rightarrow> bool \<Rightarrow> int \<Rightarrow> thread \<Rightarrow> thread res" where
  "push_stage k is_enter hidden t =
     (let override = (is_enter \<and> chained t = None);
          (err, t) = push_specific_regs k override t;
          pushed = (override \<and> err = None);
          r = (if err \<noteq> None \<and> override then sysnum_not_replaced k hidden t else Inr t)
      in (case r of Inl e \<Rightarrow> Inl e
          | Inr t \<Rightarrow> Inr (if is_enter
               then t\<lparr>voided_cancelled := (pushed \<and> kernel_cancels_voided_syscall \<and> is_voided_syscall CURRENT t)\<rparr>
               else t)))"

definition translate_syscall :: "ptracer \<Rightarrow> handlers \<Rightarrow> thread \<Rightarrow> thread res" where
  "translate_syscall k H t =
     (let is_enter = (status t = 0) in
      if \<not> has_exe t then Inl Crash
      else (case fetch_regs k t of
        (Some e, t) \<Rightarrow> Inr t
      | (None, t) \<Rightarrow>
         (if is_enter then
            (case enter_stage k H t of (go, hidden, t) \<Rightarrow> if go then push_stage k True hidden t else Inr t)
          else
            (case exit_stage H t of Inl e \<Rightarrow> Inl e
             | Inr (go, t) \<Rightarrow> if go then push_stage k False 0 t else Inr t))))"

end
