(* ===== verification/Stage_Spec.thy ===== *)
theory Stage_Spec
  imports Stage Thread_Spec
begin

text \<open>
  What a system call of a tracee looks like from outside: which registers it finds changed when the call is
  over, what the kernel executes when the tracer refuses or replaces a call, and the calls that are run in
  its name before it goes on.
\<close>

section \<open>Handlers that behave\<close>

text \<open>The registers that a handler may write: the number and the arguments of the call, the stack pointer.\<close>

definition writable_regs :: "nat set" where "writable_regs = {0, 1, 2, 3, 4, 5, 8, 31}"

text \<open>A handler works through \<open>poke_reg\<close>: it keeps the versions of the registers that are not current, records
  a change, and leaves the control state alone.\<close>

definition pokes :: "thread \<Rightarrow> thread \<Rightarrow> bool" where
  "pokes t t' \<longleftrightarrow> same_control t t' \<and> (\<forall>v. v \<noteq> CURRENT \<longrightarrow> regs t' v = regs t v) \<and>
     (\<forall>i. i \<notin> writable_regs \<longrightarrow> regs t' CURRENT i = regs t CURRENT i) \<and>
     (regs_were_changed t \<longrightarrow> regs_were_changed t') \<and>
     (\<not> regs_were_changed t' \<longrightarrow> regs t' CURRENT = regs t CURRENT)"

lemma pokes_refl [simp]: "pokes t t"
  by (simp add: pokes_def)

lemma pokes_trans: "pokes t t' \<Longrightarrow> pokes t' t'' \<Longrightarrow> pokes t t''"
  unfolding pokes_def by (metis same_control_trans)

lemma pokesD:
  assumes "pokes t t'"
  shows "same_control t t'" "v \<noteq> CURRENT \<Longrightarrow> regs t' v = regs t v"
    "i \<notin> writable_regs \<Longrightarrow> regs t' CURRENT i = regs t CURRENT i"
    "regs_were_changed t \<Longrightarrow> regs_were_changed t'"
    "\<not> regs_were_changed t' \<Longrightarrow> regs t' CURRENT = regs t CURRENT"
  using assms by (auto simp: pokes_def)

lemma poke_pokes: "get_reg_offset r \<in> writable_regs \<Longrightarrow> pokes t (poke_reg r x t)"
  unfolding pokes_def using poke_control [of t r x] by (auto simp: poke_reg_def peek_reg_def)

lemma poke_arg_pokes [simp]:
  "pokes t (poke_reg SYSARG_NUM x t)" "pokes t (poke_reg SYSARG_1 x t)" "pokes t (poke_reg SYSARG_2 x t)"
  "pokes t (poke_reg SYSARG_RESULT x t)" "pokes t (set_sysnum s t)"
  by (auto simp: set_sysnum_def writable_regs_def intro!: poke_pokes)

section \<open>The kernel's side\<close>

text \<open>The kernel executes the pending call and stops at its exit: only the result register changes.\<close>

definition kernel_exit :: "word_t \<Rightarrow> thread \<Rightarrow> thread" where
  "kernel_exit r t = t\<lparr>kregs := (kregs t)(0 := r)\<rparr>"

text \<open>The tracee executes the trap instruction at its program counter: the number is read from \<open>x8\<close>.\<close>

definition kernel_enter :: "thread \<Rightarrow> thread" where
  "kernel_enter t = t\<lparr>knum := kregs t 8, kregs := (kregs t)(32 := kregs t 32 + SYSTRAP_SIZE)\<rparr>"

definition ptrace_works :: "ptracer \<Rightarrow> bool" where
  "ptrace_works k \<longleftrightarrow> (\<forall>t. get_regs_error k t = None) \<and> (\<forall>t. set_nr_error k t = None) \<and> (\<forall>t. set_regs_error k t = None)"

text \<open>The flags a tracee has between two calls of its own.\<close>

definition idle :: "thread \<Rightarrow> bool" where
  "idle t \<longleftrightarrow> chained t = None \<and> has_exe t \<and> restore_after_seccomp t = False \<and> restart_how t = PTRACE_SYSCALL \<and>
     workaround_state t = SYSNUM_WORKAROUND_INACTIVE \<and> \<not> pokedata_cancelled t \<and> \<not> pokedata_relaunched t"

lemma fetch_works:
  "ptrace_works k \<Longrightarrow> fetch_regs k t = (None, t\<lparr>regs := (regs t)(CURRENT := kregs t)\<rparr>)"
  by (simp add: fetch_regs_def ptrace_works_def)

lemma restored_current [reg_simps]:
  "regs (restore_regs v t) CURRENT i = (if i \<in> writable_regs - {0} then regs t v i else regs t CURRENT i)"
  by (simp add: restore_regs_def restored_regs_def peek_reg_def writable_regs_def)

lemma restored_other [reg_simps]: "w \<noteq> CURRENT \<Longrightarrow> regs (restore_regs v t) w = regs t w"
  by (simp add: restore_regs_def)

lemma restored_control: "same_control t (restore_regs v t)"
  unfolding same_control_def restore_regs_def
  by (intro exI [of _ "(regs t)(CURRENT := fold (\<lambda>r f. f(get_reg_offset r := peek_reg v r t)) restored_regs (regs t CURRENT))"]
      exI [of _ "regs_were_changed t"]) simp

lemma restored_flag [reg_simps]: "regs_were_changed (restore_regs v t) = regs_were_changed t"
  by (simp add: restore_regs_def)

lemmas restored_fields [reg_simps] = same_controlD [OF restored_control]

text \<open>What a push that works leaves in the kernel and in the tracee.\<close>

definition before_push :: "thread \<Rightarrow> thread" where
  "before_push t = (if restore_original_regs t then restore_regs ORIGINAL t else t)"

lemma before_push_fields [reg_simps]:
  "same_control t (before_push t)" "w \<noteq> CURRENT \<Longrightarrow> regs (before_push t) w = regs t w"
  "regs_were_changed (before_push t) = regs_were_changed t"
  by (simp_all add: before_push_def restored_control reg_simps)

lemma push_works:
  assumes "ptrace_works k" "\<not> restore_after_seccomp t"
  shows "push_specific_regs k incl t =
    (None, if regs_were_changed t then
       (before_push t)\<lparr>knum := (if incl \<and> peek_reg CURRENT SYSARG_NUM (before_push t) \<noteq> peek_reg ORIGINAL SYSARG_NUM (before_push t)
                            then peek_reg CURRENT SYSARG_NUM (before_push t) else knum t),
             kregs := regs (before_push t) CURRENT\<rparr>
     else t)"
proof -
  have [simp]: "t\<lparr>restore_after_seccomp := False\<rparr> = t" using assms(2) by simp
  have [simp]: "knum (before_push t) = knum t" using before_push_fields(1) [of t] by simp
  show ?thesis
  proof (cases "regs_were_changed t")
    case True
    let ?b = "before_push t"
    have "(if restore_original_regs t
           then restore_regs (if restore_after_seccomp t then ORIGINAL_SECCOMP_REWRITE else ORIGINAL)
                  (t\<lparr>restore_after_seccomp := False\<rparr>)
           else t) = ?b" using assms(2) by (simp add: before_push_def)
    then show ?thesis using True assms
      by (simp add: push_specific_regs_def push_regset_def ptrace_works_def Let_def peek_reg_def)
  qed (use assms in \<open>simp add: push_specific_regs_def\<close>)
qed

lemma push_works_regs:
  assumes "ptrace_works k" "\<not> restore_after_seccomp t"
  shows "\<exists>n. snd (push_specific_regs k incl t) =
    (if regs_were_changed t then (before_push t)\<lparr>knum := n, kregs := regs (before_push t) CURRENT\<rparr> else t)"
  unfolding push_works [OF assms] snd_conv by blast

section \<open>The registers after a call\<close>

text \<open>The state the handler of the entry sees, and the state after it.\<close>

definition fetched :: "thread \<Rightarrow> thread" where
  "fetched t = t\<lparr>regs := (regs t)(CURRENT := kregs t)\<rparr>"

lemma fetched_fields [reg_simps]:
  "regs (fetched t) CURRENT = kregs t" "v \<noteq> CURRENT \<Longrightarrow> regs (fetched t) v = regs t v"
  "same_control t (fetched t)" "regs_were_changed (fetched t) = regs_were_changed t"
proof -
  have "fetched t = t\<lparr>regs := (regs t)(CURRENT := kregs t), regs_were_changed := regs_were_changed t\<rparr>"
    by (simp add: fetched_def)
  then show "same_control t (fetched t)" unfolding same_control_def by blast
qed (simp_all add: fetched_def)

lemma translate_syscall_works:
  assumes "ptrace_works k" "has_exe t"
  shows "translate_syscall k H t =
    (if status t = 0 then
       (case enter_stage k H (fetched t) of (go, hidden, t) \<Rightarrow> if go then push_stage k True hidden t else Inr t)
     else (case exit_stage H (fetched t) of Inl e \<Rightarrow> Inl e
           | Inr (go, t) \<Rightarrow> if go then push_stage k False 0 t else Inr t))"
  using assms by (simp add: translate_syscall_def fetch_works fetched_def Let_def)

lemma push_stage_works:
  assumes "ptrace_works k" "\<not> restore_after_seccomp t"
  shows "\<exists>v. push_stage k e h t = Inr ((snd (push_specific_regs k (e \<and> chained t = None) t))\<lparr>voided_cancelled := v\<rparr>)"
proof -
  obtain p where p: "push_specific_regs k (e \<and> chained t = None) t = (None, p)"
    using push_works [OF assms, of "e \<and> chained t = None"] by simp
  show ?thesis
  proof (cases e)
    case True
    with p show ?thesis by (intro exI) (simp add: push_stage_def Let_def)
  next
    case False
    with p have "push_stage k e h t = Inr (p\<lparr>voided_cancelled := voided_cancelled p\<rparr>)"
      by (simp add: push_stage_def Let_def)
    with p show ?thesis by (intro exI [of _ "voided_cancelled p"]) simp
  qed
qed

text \<open>The tracee as the handler of the entry finds it.\<close>

definition prepared :: "thread \<Rightarrow> thread" where
  "prepared t = save_current_regs ORIGINAL ((fetched t)\<lparr>restore_original_regs := False, voided_cancelled := False\<rparr>)"

lemma prepared_fields [reg_simps]:
  "regs (prepared t) CURRENT = kregs t" "regs (prepared t) ORIGINAL = kregs t"
  "regs_were_changed (prepared t) = False" "restore_original_regs (prepared t) = False"
  "chained (prepared t) = chained t" "has_exe (prepared t) = has_exe t" "kregs (prepared t) = kregs t"
  "knum (prepared t) = knum t" "restart_how (prepared t) = restart_how t"
  "restore_after_seccomp (prepared t) = restore_after_seccomp t"
  "workaround_state (prepared t) = workaround_state t" "pokedata_cancelled (prepared t) = pokedata_cancelled t"
  "pokedata_relaunched (prepared t) = pokedata_relaunched t"
  by (simp_all add: prepared_def save_current_regs_def fetched_def)

lemma saved_fields [reg_simps]:
  "regs (save_current_regs MODIFIED t) CURRENT = regs t CURRENT"
  "regs (save_current_regs MODIFIED t) ORIGINAL = regs t ORIGINAL"
  "regs_were_changed (save_current_regs MODIFIED t) = regs_were_changed t"
  "same_control t (save_current_regs MODIFIED t)"
proof -
  show "same_control t (save_current_regs MODIFIED t)"
    unfolding same_control_def
    by (intro exI [of _ "(regs t)(MODIFIED := regs t CURRENT)"] exI [of _ "regs_were_changed t"])
      (simp add: save_current_regs_def)
qed (simp_all add: save_current_regs_def)

lemma note_status_pokes:
  "\<exists>u. pokes t u \<and> note_status st t = u\<lparr>status := (if st < 0 then st else 1)\<rparr>"
proof (cases "st < 0")
  case True
  have "pokes t (poke_reg SYSARG_RESULT (word_of_int st) (set_sysnum PR_void t))"
    by (rule pokes_trans [of _ "set_sysnum PR_void t"]) simp_all
  with True show ?thesis by (intro exI conjI) (simp_all add: note_status_def)
qed (intro exI [of _ t], simp add: note_status_def)

text \<open>The tracee after the handler, ready to be pushed.\<close>

definition handled :: "int \<Rightarrow> thread \<Rightarrow> thread" where
  "handled st s = note_status st (save_current_regs MODIFIED s)"

lemma enter_shape:
  assumes "ptrace_works k" "idle t" "status t = 0" "\<not> is_svc_safe_syscall (translate_sysnum (kregs t 8))"
    and "enter_h H (prepared t) = (st, s)" "pokes (prepared t) s"
  shows "translate_syscall k H t = push_stage k True 0 (handled st s)"
proof -
  let ?f = "(fetched t)\<lparr>restore_original_regs := False, voided_cancelled := False\<rparr>"
  have ctl: "same_control t (fetched t)" by (rule fetched_fields)
  have "chained ?f = None" "pokedata_relaunched ?f = False" "get_sysnum CURRENT ?f = translate_sysnum (kregs t 8)"
    using assms(2) same_controlD [OF ctl] by (simp_all add: idle_def get_sysnum_def peek_reg_def fetched_def)
  then have req: "enter_requested H ?f = (st, save_current_regs MODIFIED s)"
    using assms(4,5) by (simp add: enter_requested_def translate_requested_def prepared_def Let_def)
  obtain u where u: "pokes (save_current_regs MODIFIED s) u" "handled st s = u\<lparr>status := (if st < 0 then st else 1)\<rparr>"
    unfolding handled_def using note_status_pokes by blast
  have "same_control (prepared t) (save_current_regs MODIFIED s)"
    using pokesD(1) [OF assms(6)] saved_fields(4) same_control_trans by blast
  then have "same_control (prepared t) u" using pokesD(1) [OF u(1)] same_control_trans by blast
  from same_controlD [OF this] u(2) assms(2) have "pokedata_cancelled (handled st s) = False" "restart_how (handled st s) = PTRACE_SYSCALL"
    by (simp_all add: reg_simps idle_def)
  then have "enter_stage k H (fetched t) = (True, 0, handled st s)"
    using req \<open>chained ?f = None\<close> \<open>pokedata_relaunched ?f = False\<close>
    by (simp add: enter_stage_def Let_def handled_def)
  then show ?thesis
    using assms(1-3) by (simp add: translate_syscall_works idle_def)
qed

lemma handled_facts:
  assumes "pokes (prepared t) s"
  obtains u where "handled st s = u\<lparr>status := (if st < 0 then st else 1)\<rparr>"
    "regs u ORIGINAL = kregs t" "same_control (prepared t) u" "\<And>i. i \<notin> writable_regs \<Longrightarrow> regs u CURRENT i = kregs t i"
    "regs_were_changed u \<or> regs u CURRENT = kregs t"
proof -
  obtain u where u: "pokes (save_current_regs MODIFIED s) u" "handled st s = u\<lparr>status := (if st < 0 then st else 1)\<rparr>"
    unfolding handled_def using note_status_pokes by blast
  note p = pokesD [OF assms] and q = pokesD [OF u(1)]
  show thesis
  proof (rule that [OF u(2)])
    show "regs u ORIGINAL = kregs t" using p(2) [of ORIGINAL] q(2) [of ORIGINAL] by (simp add: reg_simps)
    show "same_control (prepared t) u" using p(1) q(1) saved_fields(4) same_control_trans by blast
    show "regs u CURRENT i = kregs t i" if "i \<notin> writable_regs" for i
      using p(3) [OF that] q(3) [OF that] by (simp add: reg_simps)
    show "regs_were_changed u \<or> regs u CURRENT = kregs t"
    proof (cases "regs_were_changed u")
      case False
      then have "regs u CURRENT = regs s CURRENT" "\<not> regs_were_changed s" using q(4,5) by (auto simp: reg_simps)
      then show ?thesis using p(5) by (simp add: reg_simps)
    qed simp
  qed
qed

lemma enter_result:
  assumes "ptrace_works k" "idle t" "status t = 0" "\<not> is_svc_safe_syscall (translate_sysnum (kregs t 8))"
    and "enter_h H (prepared t) = (st, s)" "pokes (prepared t) s"
  obtains t1 where "translate_syscall k H t = Inr t1" "idle t1" "status t1 = (if st < 0 then st else 1)"
    "regs t1 ORIGINAL = kregs t" "\<And>i. i \<notin> writable_regs \<Longrightarrow> kregs t1 i = kregs t i"
    "regs_were_changed t1 \<or> kregs t1 = kregs t"
    "regs_were_changed t1 = regs_were_changed (handled st s)"
    "regs_were_changed t1 \<Longrightarrow> kregs t1 = regs (handled st s) CURRENT"
proof -
  from handled_facts [OF assms(6), of st] obtain u where u: "handled st s = u\<lparr>status := (if st < 0 then st else 1)\<rparr>"
    "regs u ORIGINAL = kregs t" "same_control (prepared t) u" "\<And>i. i \<notin> writable_regs \<Longrightarrow> regs u CURRENT i = kregs t i"
    "regs_were_changed u \<or> regs u CURRENT = kregs t" by metis
  note [simp] = same_controlD [OF u(3)] prepared_fields
  let ?h = "handled st s"
  have rel: "\<not> restore_after_seccomp ?h" and rest: "\<not> restore_original_regs ?h" and ch: "chained ?h = None"
    using u(1) assms(2) by (simp_all add: idle_def)
  have bp: "before_push ?h = ?h" using rest by (simp add: before_push_def)
  from push_stage_works [OF assms(1) rel] obtain v where
    "push_stage k True 0 ?h = Inr ((snd (push_specific_regs k (True \<and> chained ?h = None) ?h))\<lparr>voided_cancelled := v\<rparr>)"
    by blast
  moreover obtain n where
    "snd (push_specific_regs k (True \<and> chained ?h = None) ?h) =
       (if regs_were_changed ?h then ?h\<lparr>knum := n, kregs := regs ?h CURRENT\<rparr> else ?h)"
    using push_works_regs [OF assms(1) rel, of "True \<and> chained ?h = None"] unfolding bp by blast
  ultimately obtain t1 where t1: "translate_syscall k H t = Inr t1"
    "t1 = (if regs_were_changed ?h then ?h\<lparr>knum := n, kregs := regs ?h CURRENT\<rparr> else ?h)\<lparr>voided_cancelled := v\<rparr>"
    using enter_shape [OF assms(1-6)] by simp
  show thesis
    using u(2-5) assms(2) by (intro that [OF t1(1)]) (auto simp: t1(2) u(1) idle_def)
qed

text \<open>The tracee as the handler of the exit finds it.\<close>

definition leaving :: "thread \<Rightarrow> thread" where
  "leaving t = (fetched t)\<lparr>restore_original_regs := True, workaround_state := SYSNUM_WORKAROUND_INACTIVE\<rparr>"

lemma leaving_fields [reg_simps]:
  "regs (leaving t) CURRENT = kregs t" "v \<noteq> CURRENT \<Longrightarrow> regs (leaving t) v = regs t v"
  "regs_were_changed (leaving t) = regs_were_changed t" "restore_original_regs (leaving t) = True"
  "chained (leaving t) = chained t" "has_exe (leaving t) = has_exe t" "kregs (leaving t) = kregs t"
  "knum (leaving t) = knum t" "restart_how (leaving t) = restart_how t"
  "restore_after_seccomp (leaving t) = restore_after_seccomp t"
  "workaround_state (leaving t) = SYSNUM_WORKAROUND_INACTIVE" "pokedata_cancelled (leaving t) = pokedata_cancelled t"
  "pokedata_relaunched (leaving t) = pokedata_relaunched t"
  by (simp_all add: leaving_def fetched_def)

lemma exit_result:
  assumes "ptrace_works k" "idle t" "status t \<noteq> 0" "pokes (leaving t) (exit_h H (leaving t))"
  obtains t2 where "translate_syscall k H t = Inr t2" "idle t2" "status t2 = 0"
    "regs_were_changed (exit_h H (leaving t)) \<or> kregs t2 = kregs t"
    "\<And>i. regs_were_changed (exit_h H (leaving t)) \<Longrightarrow> kregs t2 i =
       (if i \<in> writable_regs - {0} then regs t ORIGINAL i else regs (exit_h H (leaving t)) CURRENT i)"
proof -
  obtain x where x: "exit_h H (leaving t) = x" by blast
  note p = pokesD [OF assms(4) [unfolded x]]
  let ?y = "x\<lparr>status := 0, pokedata_cancelled := False\<rparr>"
  note [simp] = same_controlD [OF p(1)] leaving_fields
  have "exit_stage H (fetched t) = Inr (True, ?y)"
    using assms(2) x by (simp add: exit_stage_def exit_workaround_def leaving_def [symmetric] idle_def Let_def fetched_def)
       (simp add: leaving_def fetched_def)
  with assms have tr: "translate_syscall k H t = push_stage k False 0 ?y"
    by (simp add: translate_syscall_works idle_def)
  have rel: "\<not> restore_after_seccomp ?y" using assms(2) by (simp add: idle_def)
  have bp: "before_push ?y = restore_regs ORIGINAL ?y" by (simp add: before_push_def)
  from push_stage_works [OF assms(1) rel] obtain v where
    "push_stage k False 0 ?y = Inr ((snd (push_specific_regs k (False \<and> chained ?y = None) ?y))\<lparr>voided_cancelled := v\<rparr>)"
    by blast
  moreover obtain n where
    "snd (push_specific_regs k (False \<and> chained ?y = None) ?y) =
       (if regs_were_changed ?y then (restore_regs ORIGINAL ?y)\<lparr>knum := n, kregs := regs (restore_regs ORIGINAL ?y) CURRENT\<rparr> else ?y)"
    using push_works_regs [OF assms(1) rel, of "False \<and> chained ?y = None"] unfolding bp by blast
  ultimately obtain t2 where t2: "translate_syscall k H t = Inr t2"
    "t2 = (if regs_were_changed ?y then (restore_regs ORIGINAL ?y)\<lparr>knum := n, kregs := regs (restore_regs ORIGINAL ?y) CURRENT\<rparr> else ?y)\<lparr>voided_cancelled := v\<rparr>"
    using tr by simp
  show thesis
    using assms(2) x p(2) [of ORIGINAL] by (intro that [OF t2(1)]) (auto simp: t2(2) idle_def reg_simps)
qed

text \<open>
  C11: a system call of a tracee is transparent. Whatever the handlers of its entry and its exit write in the
  number, the arguments and the stack pointer, and whatever the kernel answers, after the exit the kernel
  holds for the tracee the registers it had at the entry, except the one of the result.
\<close>

theorem syscall_transparent:
  assumes "ptrace_works k" "idle t" "status t = 0" "\<not> is_svc_safe_syscall (translate_sysnum (kregs t 8))"
    and "\<And>t. pokes t (snd (enter_h H t))" "\<And>t. pokes t (exit_h H t)"
  shows "\<exists>t1 t2. translate_syscall k H t = Inr t1 \<and> status t1 \<noteq> 0 \<and>
           translate_syscall k H (kernel_exit r t1) = Inr t2 \<and> idle t2 \<and> status t2 = 0 \<and>
           (\<forall>i. i \<noteq> 0 \<longrightarrow> kregs t2 i = kregs t i)"
proof -
  obtain st s where h: "enter_h H (prepared t) = (st, s)" by (cases "enter_h H (prepared t)")
  with assms(5) [of "prepared t"] have p: "pokes (prepared t) s" by simp
  from enter_result [OF assms(1-4) h p] obtain t1 where t1:
    "translate_syscall k H t = Inr t1" "idle t1" "status t1 = (if st < 0 then st else 1)"
    "regs t1 ORIGINAL = kregs t" "\<And>i. i \<notin> writable_regs \<Longrightarrow> kregs t1 i = kregs t i"
    "regs_were_changed t1 \<or> kregs t1 = kregs t" by metis
  let ?k = "kernel_exit r t1"
  have k: "idle ?k" "status ?k \<noteq> 0" "regs ?k = regs t1" "\<And>i. i \<noteq> 0 \<Longrightarrow> kregs ?k i = kregs t1 i"
    "regs_were_changed ?k = regs_were_changed t1"
    using t1(2,3) by (auto simp: kernel_exit_def idle_def)
  let ?x = "exit_h H (leaving ?k)"
  note x = pokesD [OF assms(6) [of "leaving ?k"]]
  from exit_result [OF assms(1) k(1,2) assms(6)] obtain t2 where t2:
    "translate_syscall k H ?k = Inr t2" "idle t2" "status t2 = 0"
    "regs_were_changed ?x \<or> kregs t2 = kregs ?k"
    "\<And>i. regs_were_changed ?x \<Longrightarrow> kregs t2 i =
       (if i \<in> writable_regs - {0} then regs ?k ORIGINAL i else regs ?x CURRENT i)" by metis
  have "kregs t2 i = kregs t i" if "i \<noteq> 0" for i
  proof (cases "regs_were_changed ?x")
    case True
    with t2(5) [OF True, of i] x(3) [of i] t1(4,5) k(3,4) that show ?thesis by (auto simp: reg_simps)
  next
    case False
    then have "\<not> regs_were_changed t1" using x(4) k(5) by (auto simp: reg_simps)
    with False t2(4) t1(6) k(4) [OF that] show ?thesis by simp
  qed
  with t1(1,3) t2(1-3) show ?thesis by (intro exI conjI) auto
qed

text \<open>A kernel that grants every request, and handlers that replace the second argument.\<close>

definition demo_ptracer :: ptracer where
  "demo_ptracer = \<lparr>get_regs_error = \<lambda>_. None, set_nr_error = \<lambda>_. None, set_regs_error = \<lambda>_. None\<rparr>"

definition demo_handlers :: "int \<Rightarrow> handlers" where
  "demo_handlers st =
     \<lparr>enter_h = (\<lambda>t. (st, poke_reg SYSARG_2 7 t)), exit_h = (\<lambda>t. t),
      chained_enter_h = (\<lambda>t. (0, t)), chained_exit_h = (\<lambda>t. t),
      svc_call = (\<lambda>_ _. (0, \<lambda>_. 0, \<lambda>_. 0)), write_h = (\<lambda>_ _ t. t), bufs = \<lparr>svc_buf1 = 0x100, svc_buf2 = 0x200\<rparr>\<rparr>"

lemma demo_works [simp]: "ptrace_works demo_ptracer"
  by (simp add: ptrace_works_def demo_ptracer_def)

lemma demo_kregs [simp]: "kregs (demo_thread l) i = (case map_of l i of None \<Rightarrow> 0 | Some x \<Rightarrow> x)"
  by (simp add: demo_thread_def)

lemma demo_thread_idle [simp]: "idle (demo_thread l)" "status (demo_thread l) = 0"
  by (simp_all add: idle_def demo_thread_def)

lemma sysnum_read: "translate_sysnum 63 = ''read''"
proof -
  have "map_of sysnum_entries 63 = Some ''read''" unfolding sysnum_entries_def map_of_Cons_code by simp
  from sysnum_of_table [OF this] show ?thesis by (simp add: sysnums_length_def)
qed

lemma sysnum_sched_yield: "translate_sysnum 124 = ''sched_yield''"
proof -
  have "map_of sysnum_entries 124 = Some ''sched_yield''" unfolding sysnum_entries_def map_of_Cons_code by simp
  from sysnum_of_table [OF this] show ?thesis by (simp add: sysnums_length_def)
qed

theorem syscall_transparent_witness:
  "\<exists>t1 t2. translate_syscall demo_ptracer (demo_handlers 0) (demo_thread [(8, 63), (1, 5)]) = Inr t1 \<and>
     translate_syscall demo_ptracer (demo_handlers 0) (kernel_exit 9 t1) = Inr t2 \<and> kregs t2 1 = 5 \<and> kregs t2 8 = 63"
proof -
  let ?t = "demo_thread [(8, 63), (1, 5)]" and ?H = "demo_handlers 0"
  have "\<not> is_svc_safe_syscall (translate_sysnum (kregs ?t 8))"
    by (simp add: sysnum_read is_svc_safe_syscall_def svc_safe_sysnums_def)
  moreover have "\<And>t. pokes t (snd (enter_h ?H t))" "\<And>t. pokes t (exit_h ?H t)"
    by (simp_all add: demo_handlers_def)
  ultimately obtain t1 t2 where "translate_syscall demo_ptracer ?H ?t = Inr t1"
    "translate_syscall demo_ptracer ?H (kernel_exit 9 t1) = Inr t2" "\<forall>i. i \<noteq> 0 \<longrightarrow> kregs t2 i = kregs ?t i"
    using syscall_transparent [of demo_ptracer ?t ?H 9] by auto
  moreover from this(3) have "kregs t2 1 = 5" "kregs t2 8 = 63" by simp_all
  ultimately show ?thesis by blast
qed

section \<open>Calls that are refused\<close>

text \<open>The argument of a call that is made to fail: all ones, but 0 for \<open>brk\<close>.\<close>

definition poisoned :: "word_t \<Rightarrow> nat \<Rightarrow> word_t" where
  "poisoned number i = (if translate_sysnum number = ''brk'' \<and> i = 0 then 0 else -1)"

lemma all_ones [reg_simps]:
  "i < 6 \<Longrightarrow> regs (poke_regs (map (\<lambda>r. (r, -1)) sysarg_regs) t) CURRENT i = -1"
  by (auto simp: sysarg_regs_def reg_simps numeral_eq_Suc less_Suc_eq)

lemma all_ones_changed:
  "regs_were_changed t \<Longrightarrow> regs_were_changed (poke_regs (map (\<lambda>r. (r, -1)) sysarg_regs) t)"
  by (simp add: sysarg_regs_def reg_simps poke_reg_def)

lemma refused_handled:
  assumes "pokes (prepared t) s" "st < 0" "kregs t 8 \<noteq> SYSCALL_AVOIDER"
  shows "peek_reg CURRENT SYSARG_NUM (handled st s) = SYSCALL_AVOIDER"
    "peek_reg ORIGINAL SYSARG_NUM (handled st s) = kregs t 8"
    "regs (handled st s) CURRENT 0 = word_of_int st"
    "regs_were_changed (handled st s)"
proof -
  from handled_facts [OF assms(1), of st] obtain u where u: "handled st s = u\<lparr>status := (if st < 0 then st else 1)\<rparr>"
    "regs u ORIGINAL = kregs t" "regs_were_changed u \<or> regs u CURRENT = kregs t" by metis
  show n: "peek_reg CURRENT SYSARG_NUM (handled st s) = SYSCALL_AVOIDER"
    and "regs (handled st s) CURRENT 0 = word_of_int st"
    using assms(2) by (simp_all add: handled_def note_status_def set_sysnum_def poke_current peek_reg_def)
  show "peek_reg ORIGINAL SYSARG_NUM (handled st s) = kregs t 8" using u(1,2) by (simp add: peek_reg_def)
  have "regs u CURRENT 8 = SYSCALL_AVOIDER" using n u(1) by (simp add: peek_reg_def)
  then have "regs_were_changed u" using u(3) assms(3) by metis
  then show "regs_were_changed (handled st s)" using u(1) by simp
qed

lemma avoider_negative: "sint SYSCALL_AVOIDER < 0"
  by (simp add: SYSCALL_AVOIDER_def)

lemma not_replaced_shape:
  assumes "\<And>u. set_regs_error k u = None" "regs_were_changed h" "\<not> restore_original_regs h" "\<not> restore_after_seccomp h"
    and "peek_reg CURRENT SYSARG_NUM h = SYSCALL_AVOIDER" "peek_reg ORIGINAL SYSARG_NUM h = n" "n \<noteq> SYSCALL_AVOIDER"
  obtains u where "sysnum_not_replaced k 0 h = Inr u" "same_control h (u\<lparr>kregs := kregs h\<rparr>)"
    "\<And>i. i < 6 \<Longrightarrow> kregs u i = poisoned n i"
proof -
  let ?a = "poke_regs (map (\<lambda>r. (r, -1)) sysarg_regs) h"
  let ?b = "if get_sysnum ORIGINAL ?a = ''brk'' then poke_reg SYSARG_1 0 ?a else ?a"
  have c: "same_control h ?b" using poke_regs_control [of h "map (\<lambda>r. (r, -1)) sysarg_regs"]
    by (auto intro: same_control_trans poke_control)
  have ch: "regs_were_changed ?b" using all_ones_changed [OF assms(2)] by (simp add: poke_reg_def)
  have "get_sysnum ORIGINAL ?a = translate_sysnum n"
    using assms(6) by (simp add: get_sysnum_def peek_reg_def reg_simps)
  then have v: "regs ?b CURRENT i = poisoned n i" if "i < 6" for i
    using that all_ones [OF that, of h] by (simp add: poisoned_def poke_current)
  obtain b where b: "?b = b" by blast
  note c = c [unfolded b] and ch = ch [unfolded b] and v = v [unfolded b]
  have "push_specific_regs k False b = (None, b\<lparr>kregs := regs b CURRENT\<rparr>)"
    using ch assms(1,3) same_controlD(2) [OF c] by (simp add: push_specific_regs_def push_regset_def Let_def)
  then have s: "sysnum_not_replaced k 0 h = Inr (b\<lparr>kregs := regs b CURRENT\<rparr>)"
    using assms(5-7) b by (simp only: sysnum_not_replaced_def Let_def) simp
  have "b\<lparr>kregs := regs b CURRENT, kregs := kregs h\<rparr> = b"
    using same_controlD(4) [OF c] by simp
  with c have "same_control h (b\<lparr>kregs := regs b CURRENT, kregs := kregs h\<rparr>)" by (simp only:)
  then show thesis using v by (intro that [OF s]) simp_all
qed

text \<open>
  C13: a refused call does not happen. When the handler of the entry reports an error, the kernel is given
  the number of no call and the error as the result, and the call counts as cancelled; when it does not let
  the number be replaced, the call is made with arguments that are all ones, with 0 for \<open>brk\<close>.
\<close>

theorem refused_call:
  assumes "\<And>u. get_regs_error k u = None" "\<And>u. set_regs_error k u = None" "\<And>u. set_nr_error k u = e"
    and "idle t" "status t = 0" "\<not> is_svc_safe_syscall (translate_sysnum (kregs t 8))" "kregs t 8 \<noteq> SYSCALL_AVOIDER"
    and "enter_h H (prepared t) = (st, s)" "pokes (prepared t) s" "st < 0"
  shows "\<exists>t1. translate_syscall k H t = Inr t1 \<and> status t1 = st \<and>
    (if e = None then knum t1 = SYSCALL_AVOIDER \<and> kregs t1 0 = word_of_int st \<and> voided_cancelled t1
     else knum t1 = knum t \<and> (\<forall>i. i < 6 \<longrightarrow> kregs t1 i = poisoned (kregs t 8) i) \<and> \<not> voided_cancelled t1)"
proof -
  from handled_facts [OF assms(9), of st] obtain u where u: "handled st s = u\<lparr>status := (if st < 0 then st else 1)\<rparr>"
    "same_control (prepared t) u" by metis
  obtain h where h: "handled st s = h" by blast
  have st: "status h = st" using u(1) h assms(10) by simp
  note [simp] = same_controlD [OF u(2)] prepared_fields
  note r = refused_handled [OF assms(9,10,7), unfolded h]
  have ctl: "restore_after_seccomp h = False" "restore_original_regs h = False" "chained h = None" "knum h = knum t"
    using u(1) h assms(4) by (simp_all add: idle_def)
  have shape: "translate_syscall k H t = push_stage k True 0 h"
  proof -
    let ?k = "k\<lparr>set_nr_error := \<lambda>_. None\<rparr>"
    have "ptrace_works ?k" using assms(1,2) by (simp add: ptrace_works_def)
    have go: "enter_stage k H (fetched t) = (True, 0, h)"
    proof -
      let ?f = "(fetched t)\<lparr>restore_original_regs := False, voided_cancelled := False\<rparr>"
      have ctl: "same_control t (fetched t)" by (rule fetched_fields)
      have f: "chained ?f = None" "pokedata_relaunched ?f = False" "get_sysnum CURRENT ?f = translate_sysnum (kregs t 8)"
        using assms(4) same_controlD [OF ctl] by (simp_all add: idle_def get_sysnum_def peek_reg_def fetched_def)
      then have "enter_requested H ?f = (st, save_current_regs MODIFIED s)"
        using assms(6,8) by (simp add: enter_requested_def translate_requested_def prepared_def Let_def)
      moreover have "pokedata_cancelled h = False" "restart_how h = PTRACE_SYSCALL"
        using u(1) h assms(4) by (simp_all add: idle_def)
      ultimately show ?thesis using f h by (simp add: enter_stage_def Let_def handled_def)
    qed
    have "fetch_regs k t = (None, fetched t)" using assms(1) by (simp add: fetch_regs_def fetched_def)
    with go assms(4,5) show ?thesis by (simp add: translate_syscall_def idle_def Let_def)
  qed
  show ?thesis
  proof (cases e)
    case None
    have p: "push_specific_regs k True h = (None, h\<lparr>knum := SYSCALL_AVOIDER, kregs := regs h CURRENT\<rparr>)"
      using r ctl assms(2,3,7) None by (simp add: push_specific_regs_def push_regset_def Let_def peek_reg_def)
    have "push_stage k True 0 h = Inr (h\<lparr>knum := SYSCALL_AVOIDER, kregs := regs h CURRENT, voided_cancelled := True\<rparr>)"
      using p ctl r assms(7) avoider_negative
      by (simp add: push_stage_def Let_def is_voided_syscall_def kernel_cancels_voided_syscall_def peek_reg_def)
    with shape st r(3) None show ?thesis by simp
  next
    case (Some e')
    have p: "push_specific_regs k True h = (Some e', h)"
      using r ctl assms(3,7) Some by (simp add: push_specific_regs_def Let_def)
    from not_replaced_shape [OF assms(2) r(4) _ _ r(1,2) assms(7)] ctl obtain v where v:
      "sysnum_not_replaced k 0 h = Inr v" "same_control h (v\<lparr>kregs := kregs h\<rparr>)"
      "\<And>i. i < 6 \<Longrightarrow> kregs v i = poisoned (kregs t 8) i" by blast
    have "push_stage k True 0 h = Inr (v\<lparr>voided_cancelled := False\<rparr>)"
      using p ctl v(1) by (simp add: push_stage_def Let_def)
    moreover have "status v = st" "knum v = knum t"
      using same_controlD(5,6) [OF v(2)] st ctl(4) by simp_all
    ultimately show ?thesis using shape v(3) Some by simp
  qed
qed

theorem refused_call_witness:
  "\<exists>t1. translate_syscall demo_ptracer (demo_handlers (-13)) (demo_thread [(8, 63)]) = Inr t1 \<and> status t1 = -13 \<and>
     knum t1 = SYSCALL_AVOIDER \<and> kregs t1 0 = -13 \<and> voided_cancelled t1"
proof -
  let ?t = "demo_thread [(8, 63)]" and ?H = "demo_handlers (-13)"
  have "\<not> is_svc_safe_syscall (translate_sysnum (kregs ?t 8))"
    by (simp add: sysnum_read is_svc_safe_syscall_def svc_safe_sysnums_def)
  moreover have "enter_h ?H (prepared ?t) = (-13, poke_reg SYSARG_2 7 (prepared ?t))" by (simp add: demo_handlers_def)
  moreover have "kregs ?t 8 \<noteq> SYSCALL_AVOIDER" by (simp add: SYSCALL_AVOIDER_def)
  ultimately obtain t1 where "translate_syscall demo_ptracer ?H ?t = Inr t1" "status t1 = -13"
    "knum t1 = SYSCALL_AVOIDER \<and> kregs t1 0 = word_of_int (-13) \<and> voided_cancelled t1"
    using refused_call [of demo_ptracer None ?t ?H "-13" "poke_reg SYSARG_2 7 (prepared ?t)"]
    by (auto simp: demo_ptracer_def)
  then show ?thesis by auto
qed

section \<open>Calls performed by the tracer\<close>

lemma unat_sint:
  assumes "0 \<le> sint (w :: word_t)"
  shows "int (unat w) = sint w"
proof -
  have nb: "\<not> bit (uint w) 63" using assms by (simp add: sint_uint)
  have "uint w < 2 ^ 64" using uint_bounded [of w] by simp
  then have "uint w = take_bit (Suc 63) (uint w)" by (simp add: take_bit_int_eq_self)
  then have "uint w = take_bit 63 (uint w)" using nb by (simp only: take_bit_Suc_from_most) simp
  then show ?thesis using nb by (simp add: sint_uint signed_take_bit_eq_if_positive)
qed

text \<open>What the kernel writes for the calls of the list, as they are documented: the address it is given and the number of
  bytes, nothing where the address is null.\<close>

definition kernel_writes :: "sysnum \<Rightarrow> word_t list \<Rightarrow> (word_t \<times> nat) list" where
  "kernel_writes s a =
     (if s = ''gettimeofday'' then [(a ! 0, 16), (a ! 1, 8)]
      else if s = ''clock_gettime'' \<or> s = ''clock_getres'' then [(a ! 1, 16)]
      else if s = ''time'' then [(a ! 0, 8)]
      else if s = ''getrandom'' then [(a ! 0, unat (a ! 1))]
      else if s = ''sysinfo'' then [(a ! 0, sysinfo_bytes)]
      else [])"

text \<open>The write of \<open>n\<close> bytes that the tracee asked for at \<open>x\<close> is made at \<open>y\<close> instead: in a buffer of the tracer, which
  is large enough, and \<open>n\<close> bytes of which are to be copied to \<open>x\<close>.\<close>

definition redirected :: "buffers \<Rightarrow> svc_plan \<Rightarrow> word_t \<times> nat \<Rightarrow> word_t \<times> nat \<Rightarrow> bool" where
  "redirected b p = (\<lambda>(x, n) (y, n'). n' = n \<and>
     (if x = 0 then y = 0
      else (y = svc_buf1 b \<and> n \<le> buf_bytes \<and> orig_ptr1 p = x \<and> wb_size1 p = n) \<or>
           (y = svc_buf2 b \<and> n \<le> 32 \<and> orig_ptr2 p = x \<and> wb_size2 p = n)))"

text \<open>\<open>time\<close>, whose address the tracer does not replace, has no number.\<close>

lemma no_time: "translate_sysnum n \<noteq> ''time''"
proof -
  have "list_all (\<lambda>e. snd e \<noteq> ''time'') sysnum_entries" by code_simp
  then have "map_of sysnum_entries k \<noteq> Some ''time''" for k unfolding list_all_iff by (metis map_of_SomeD snd_conv)
  then have "sysnums_arm64 ! k \<noteq> ''time''" if "k < sysnums_length" for k
    using that by (auto simp: table_nth split: option.splits)
  then show ?thesis by (simp add: translate_sysnum_def sysnums_arm64_length)
qed

lemma svc_redirected:
  assumes "plan_svc b s args = Some p" "is_svc_safe_syscall s" "s \<noteq> ''time''"
    and "length args = 6" "s = ''getrandom'' \<Longrightarrow> 0 \<le> sint (args ! 1)"
  shows "list_all2 (redirected b p) (kernel_writes s args) (kernel_writes s (svc_args p))"
proof -
  have l: "unat (args ! 1) \<le> buf_bytes" if "s = ''getrandom''"
  proof -
    have "int (unat (args ! 1)) = sint (args ! 1)" using unat_sint assms(5) that by blast
    moreover have "\<not> int buf_bytes < sint (args ! 1)" using assms(1) that by (auto simp: plan_svc_def)
    ultimately have "int (unat (args ! 1)) \<le> int buf_bytes" by linarith
    then show ?thesis by (simp only: of_nat_le_iff)
  qed
  let ?p = "\<lparr>svc_args = args, orig_ptr1 = 0, wb_size1 = 0, orig_ptr2 = 0, wb_size2 = 0\<rparr>"
  note w = kernel_writes_def redirected_def svc_first_def svc_second_def
  have "s \<in> {''gettimeofday'', ''clock_gettime'', ''clock_getres'', ''getrandom'', ''sysinfo'',
      ''sched_yield'', ''sched_get_priority_max'', ''sched_get_priority_min''}"
    using assms(2,3) unfolding is_svc_safe_syscall_def svc_safe_sysnums_def list.set insert_iff empty_iff by argo
  then consider (day) "s = ''gettimeofday''" | (clock) "s = ''clock_gettime'' \<or> s = ''clock_getres''"
    | (random) "s = ''getrandom''" | (info) "s = ''sysinfo''"
    | (none) "s = ''sched_yield'' \<or> s = ''sched_get_priority_max'' \<or> s = ''sched_get_priority_min''"
    unfolding insert_iff empty_iff by argo
  then show ?thesis
  proof cases
    case day
    then have "p = svc_second b 8 (svc_first b 16 ?p)" using assms(1) by (simp add: plan_svc_def)
    with day assms(4) show ?thesis by (simp add: w buf_bytes_def)
  next
    case clock
    then have "p = svc_second b 16 ?p" using assms(1) by (auto simp: plan_svc_def split: if_splits)
    with clock assms(4) show ?thesis by (auto simp: w)
  next
    case random
    then have "p = svc_first b (unat (args ! 1)) ?p" using assms(1) by (auto simp: plan_svc_def split: if_splits)
    with random assms(4) l show ?thesis by (simp add: w)
  next
    case info
    then have "p = svc_first b sysinfo_bytes ?p" using assms(1) by (simp add: plan_svc_def)
    with info assms(4) show ?thesis by (simp add: w buf_bytes_def sysinfo_bytes_def)
  next
    case none
    then show ?thesis by (auto simp: w)
  qed
qed

text \<open>
  C15: a call that the tracer performs itself does not touch memory outside its two buffers of 128 and 32 bytes. For
  every call of the list that has a number, each address the kernel is to write to is replaced by a buffer of the tracer
  that is large enough for what the kernel writes there, never the address of the tracee; and the same number of
  bytes of that buffer is noted to be copied to the address that the tracee gave. The length of \<open>getrandom\<close> must
  not be negative as a signed number.
\<close>

theorem svc_buffer_bounds:
  assumes "plan_svc b (translate_sysnum k) args = Some p" "is_svc_safe_syscall (translate_sysnum k)"
    and "length args = 6" "translate_sysnum k = ''getrandom'' \<Longrightarrow> 0 \<le> sint (args ! 1)"
  shows "list_all2 (redirected b p) (kernel_writes (translate_sysnum k) args) (kernel_writes (translate_sysnum k) (svc_args p))"
  using svc_redirected [OF assms(1,2) no_time assms(3,4)] .

lemma sysnum_getrandom: "translate_sysnum 278 = ''getrandom''"
proof -
  have "map_of sysnum_entries 278 = Some ''getrandom''" unfolding sysnum_entries_def map_of_Cons_code by simp
  from sysnum_of_table [OF this] show ?thesis by (simp add: sysnums_length_def)
qed

theorem svc_buffer_bounds_witness:
  "\<exists>p. plan_svc \<lparr>svc_buf1 = 1, svc_buf2 = 2\<rparr> (translate_sysnum 278) [0x1000, 64, 0, 0, 0, 0] = Some p \<and>
     kernel_writes (translate_sysnum 278) (svc_args p) = [(1, 64)] \<and> orig_ptr1 p = 0x1000 \<and> wb_size1 p = 64"
proof -
  let ?b = "\<lparr>svc_buf1 = 1, svc_buf2 = 2\<rparr> :: buffers" and ?a = "[0x1000, 64, 0, 0, 0, 0] :: word_t list"
  have f: "translate_sysnum 278 = ''getrandom''" by (rule sysnum_getrandom)
  have "plan_svc ?b ''getrandom'' ?a \<noteq> None" by (simp add: plan_svc_def buf_bytes_def)
  then obtain p where p: "plan_svc ?b (translate_sysnum 278) ?a = Some p" unfolding f by blast
  have "is_svc_safe_syscall (translate_sysnum 278)" by (simp add: f is_svc_safe_syscall_def svc_safe_sysnums_def)
  from svc_buffer_bounds [OF p this] have "list_all2 (redirected ?b p) (kernel_writes ''getrandom'' ?a) (kernel_writes ''getrandom'' (svc_args p))"
    by (simp add: f)
  then have "redirected ?b p (0x1000, 64) (svc_args p ! 0, unat (svc_args p ! 1))" by (simp add: kernel_writes_def)
  then show ?thesis using p by (auto simp: f redirected_def kernel_writes_def)
qed

text \<open>
  A negative length passes the test that limits \<open>getrandom\<close> to the buffer of 128 bytes: the kernel is told to
  fill $2^{64}-1$ bytes at the address of that buffer, in the memory of the tracer.
\<close>

theorem svc_getrandom_overflow:
  "\<exists>p. plan_svc b ''getrandom'' [0x1000, -1, 0, 0, 0, 0] = Some p \<and>
     svc_args p ! 0 = svc_buf1 b \<and> unat (svc_args p ! 1) = 2 ^ 64 - 1 \<and> buf_bytes < unat (svc_args p ! 1)"
  by (simp add: plan_svc_def svc_first_def buf_bytes_def Let_def unsigned_minus_1_eq_mask mask_eq_exp_minus_1)

text \<open>
  The result of a call the tracer performed itself is lost. The versions of the registers are saved
  after the result and the number of no call were written, so nothing is left to push: the kernel holds
  the registers and the number it had and makes the call again.
\<close>

theorem svc_result_dropped:
  assumes "ptrace_works k" "idle t" "status t = 0" "is_svc_safe_syscall (translate_sysnum (kregs t 8))"
    and "\<And>u. chained_enter_h H u = (0, u)" "\<And>p b u. write_h H p b u = u"
    and "plan_svc (bufs H) (translate_sysnum (kregs t 8)) (map (\<lambda>r. kregs t (get_reg_offset r)) sysarg_regs) = Some p"
  shows "\<exists>t1. translate_syscall k H t = Inr t1 \<and> status t1 = 1 \<and> kregs t1 = kregs t \<and> knum t1 = knum t \<and>
    peek_reg ORIGINAL SYSARG_RESULT t1 = word_of_int (fst (svc_call H (detranslate_sysnum (translate_sysnum (kregs t 8))) (svc_args p)))"
proof -
  let ?f = "(fetched t)\<lparr>restore_original_regs := False, voided_cancelled := False\<rparr>"
  obtain ret b1 b2 where sv: "svc_call H (detranslate_sysnum (translate_sysnum (kregs t 8))) (svc_args p) = (ret, b1, b2)"
    by (metis prod_cases3)
  define q where "q = set_sysnum PR_void (poke_reg SYSARG_RESULT (word_of_int ret) ?f)"
  define z where "z = save_current_regs MODIFIED (save_current_regs ORIGINAL q)"
  have c: "same_control ?f q" unfolding q_def set_sysnum_def by (rule same_control_trans [OF poke_control poke_control])
  note [simp] = same_controlD [OF c] same_controlD [OF fetched_fields(3)]
  have f: "chained ?f = None" "pokedata_relaunched ?f = False" "get_sysnum CURRENT ?f = translate_sysnum (kregs t 8)"
    "current_sysargs ?f = map (\<lambda>r. kregs t (get_reg_offset r)) sysarg_regs"
    using assms(2) by (simp_all add: idle_def get_sysnum_def peek_reg_def current_sysargs_def fetched_fields)
  then have "enter_requested H ?f = (0, z)"
    using assms(4-7) sv by (simp add: enter_requested_def perform_svc_def svc_write_def q_def z_def Let_def)
  moreover have z: "regs_were_changed z = False" "chained z = None" "pokedata_cancelled z = False"
    "restart_how z = PTRACE_SYSCALL" "kregs z = kregs t" "knum z = knum t" "restore_original_regs z = False"
    using assms(2) by (simp_all add: z_def save_current_regs_def idle_def)
  ultimately have "enter_stage k H (fetched t) = (True, 0, z\<lparr>status := 1\<rparr>)"
    using f by (simp add: enter_stage_def note_status_def Let_def)
  then have "translate_syscall k H t = push_stage k True 0 (z\<lparr>status := 1\<rparr>)"
    using assms(1-3) by (simp add: translate_syscall_works idle_def)
  moreover have "push_specific_regs k True (z\<lparr>status := 1\<rparr>) = (None, z\<lparr>status := 1\<rparr>)"
    using z by (simp add: push_specific_regs_def)
  ultimately obtain v where v: "translate_syscall k H t = Inr (z\<lparr>status := 1, voided_cancelled := v\<rparr>)"
    using z by (auto simp: push_stage_def Let_def)
  have "peek_reg ORIGINAL SYSARG_RESULT z = word_of_int ret"
    by (simp add: z_def q_def save_current_regs_def peek_reg_def set_sysnum_def poke_current)
  with z sv show ?thesis
    by (intro exI [of _ "z\<lparr>status := 1, voided_cancelled := v\<rparr>"] conjI v) (simp_all add: peek_reg_def)
qed

theorem svc_result_dropped_witness:
  "\<exists>t1. translate_syscall demo_ptracer (demo_handlers 0) (demo_thread [(8, 124), (0, 77)]) = Inr t1 \<and>
     kregs t1 0 = 77 \<and> knum t1 = 124 \<and> peek_reg ORIGINAL SYSARG_RESULT t1 = 0"
proof -
  let ?t = "demo_thread [(8, 124), (0, 77)]" and ?H = "demo_handlers 0"
  let ?a = "map (\<lambda>r. kregs ?t (get_reg_offset r)) sysarg_regs"
  have n: "translate_sysnum (kregs ?t 8) = ''sched_yield''" by (simp add: sysnum_sched_yield)
  then have s: "is_svc_safe_syscall (translate_sysnum (kregs ?t 8))"
    by (simp add: is_svc_safe_syscall_def svc_safe_sysnums_def)
  have p: "plan_svc (bufs ?H) (translate_sysnum (kregs ?t 8)) ?a =
      Some \<lparr>svc_args = ?a, orig_ptr1 = 0, wb_size1 = 0, orig_ptr2 = 0, wb_size2 = 0\<rparr>"
    unfolding n by (simp add: plan_svc_def)
  obtain t1 where "translate_syscall demo_ptracer ?H ?t = Inr t1" "kregs t1 = kregs ?t" "knum t1 = knum ?t"
    "peek_reg ORIGINAL SYSARG_RESULT t1 = 0"
    using svc_result_dropped [OF _ _ _ s _ _ p, of demo_ptracer] by (auto simp: demo_handlers_def)
  then show ?thesis by (intro exI [of _ t1]) (simp add: demo_thread_def)
qed

section \<open>Chained calls\<close>

text \<open>A tracee at the exit of a call while calls are chained.\<close>

definition chaining :: "(sysnum \<times> word_t list) list \<Rightarrow> thread \<Rightarrow> bool" where
  "chaining l t \<longleftrightarrow> chained t = Some l \<and> has_exe t \<and> \<not> restore_after_seccomp t \<and> status t \<noteq> 0 \<and>
     workaround_state t = SYSNUM_WORKAROUND_INACTIVE \<and> \<not> pokedata_cancelled t \<and> \<not> pokedata_relaunched t"

text \<open>The tracer and the kernel in turn: the exit of a call, the entry of the next one, its execution by the
  kernel (\<open>sys\<close>). The result is the tracee after the last exit and the calls the kernel executed.\<close>

fun chain_run :: "ptracer \<Rightarrow> handlers \<Rightarrow> (word_t \<Rightarrow> word_t list \<Rightarrow> word_t) \<Rightarrow> nat \<Rightarrow> thread \<Rightarrow>
    (thread \<times> (word_t \<times> word_t list) list) option" where
  "chain_run k H sys 0 t = None"
| "chain_run k H sys (Suc n) t =
     (case translate_syscall k H t of Inl _ \<Rightarrow> None
      | Inr t \<Rightarrow>
         if chained t = None then Some (t, [])
         else (case translate_syscall k H (kernel_enter t) of Inl _ \<Rightarrow> None
           | Inr t \<Rightarrow>
              let number = knum t; args = map (\<lambda>r. kregs t (get_reg_offset r)) sysarg_regs in
              map_option (\<lambda>(t', calls). (t', (number, args) # calls))
                (chain_run k H sys n (kernel_exit (sys number args) t))))"

lemma six:
  assumes "length (args :: 'a list) = 6"
  obtains a b c d e f where "args = [a, b, c, d, e, f]"
  using assms by (auto simp: numeral_eq_Suc length_Suc_conv)

lemma pushed_arguments:
  assumes "length args = 6"
  shows "map (\<lambda>r. regs (poke_regs (zip sysarg_regs args) t) CURRENT (get_reg_offset r)) sysarg_regs = args"
    and "i \<ge> 6 \<Longrightarrow> regs (poke_regs (zip sysarg_regs args) t) CURRENT i = regs t CURRENT i"
proof -
  from assms obtain a b c d e f where args: "args = [a, b, c, d, e, f]" by (rule six)
  show "map (\<lambda>r. regs (poke_regs (zip sysarg_regs args) t) CURRENT (get_reg_offset r)) sysarg_regs = args"
    by (simp add: args sysarg_regs_def poke_regs_Cons poke_regs_Nil poke_current)
  show "i \<ge> 6 \<Longrightarrow> regs (poke_regs (zip sysarg_regs args) t) CURRENT i = regs t CURRENT i"
    by (simp add: args sysarg_regs_def poke_regs_Cons poke_regs_Nil poke_current)
qed

text \<open>The tracee at the exit, before the next call is inserted.\<close>

definition departing :: "thread \<Rightarrow> thread" where
  "departing t = (fetched t)\<lparr>restore_original_regs := True, status := 0, pokedata_cancelled := False\<rparr>"

lemma departing_fields [reg_simps]:
  "regs (departing t) CURRENT = kregs t" "v \<noteq> CURRENT \<Longrightarrow> regs (departing t) v = regs t v"
  "regs_were_changed (departing t) = regs_were_changed t" "chained (departing t) = chained t"
  "has_exe (departing t) = has_exe t" "kregs (departing t) = kregs t" "status (departing t) = 0"
  "restore_after_seccomp (departing t) = restore_after_seccomp t" "restore_original_regs (departing t) = True"
  "workaround_state (departing t) = workaround_state t" "pokedata_cancelled (departing t) = False"
  "pokedata_relaunched (departing t) = pokedata_relaunched t"
  "force_final_result (departing t) = force_final_result t" "final_result (departing t) = final_result t"
  by (simp_all add: departing_def fetched_def)

lemma chain_exit_shape:
  assumes "ptrace_works k" "chaining l t" "\<And>u. chained_exit_h H u = u" "chain_next_syscall (departing t) = Inr z"
  shows "translate_syscall k H t = push_stage k False 0 z"
proof -
  have "exit_stage H (fetched t) = Inr (True, z)"
    using assms by (simp add: exit_stage_def exit_workaround_def chaining_def fetched_def departing_def Let_def)
  with assms(1,2) show ?thesis by (simp add: translate_syscall_works chaining_def)
qed

lemma chain_step:
  assumes "ptrace_works k" "chaining ((s, args) # l) t" "length args = 6"
    and "\<And>u. chained_exit_h H u = u" "\<And>u. chained_enter_h H u = (0, u)"
  obtains t1 t2 where "translate_syscall k H t = Inr t1" "chained t1 = Some l"
    "translate_syscall k H (kernel_enter t1) = Inr t2" "knum t2 = detranslate_sysnum s"
    "map (\<lambda>r. kregs t2 (get_reg_offset r)) sysarg_regs = args"
    "\<And>i. i \<notin> {0, 1, 2, 3, 4, 5, 8} \<Longrightarrow> kregs t2 i = kregs t i" "chaining l t2" "regs_were_changed t2"
    "regs t2 ORIGINAL = regs t ORIGINAL" "force_final_result t2 = force_final_result t" "final_result t2 = final_result t"
proof -
  define a where "a = poke_regs (zip sysarg_regs args) ((departing t)\<lparr>restore_original_regs := False, chained := Some l\<rparr>)"
  define b where "b = poke_reg SYSARG_NUM (detranslate_sysnum s) a"
  define c where "c = poke_reg INSTR_POINTER (peek_reg CURRENT INSTR_POINTER b - SYSTRAP_SIZE) b"
  let ?d = "(departing t)\<lparr>restore_original_regs := False, chained := Some l\<rparr>" and ?z = "c\<lparr>restart_how := PTRACE_SYSCALL\<rparr>"
  have "chain_next_syscall (departing t) = Inr ?z"
    using assms(2) by (simp add: chain_next_syscall_def chaining_def departing_fields a_def b_def c_def Let_def)
  from chain_exit_shape [OF assms(1,2,4) this] have tr: "translate_syscall k H t = push_stage k False 0 ?z" .
  have ctl: "same_control ?d c" unfolding a_def b_def c_def
    by (intro same_control_trans [OF _ poke_control] poke_regs_control)
  note [simp] = same_controlD [OF ctl] departing_fields
  have pc: "regs c CURRENT = (regs b CURRENT)(32 := regs b CURRENT 32 - 4)" "regs_were_changed c"
    by (simp_all add: c_def poke_current peek_reg_def SYSTRAP_SIZE_def poke_reg_def)
  have rb: "regs b CURRENT = (regs a CURRENT)(8 := detranslate_sysnum s)" by (simp add: b_def poke_current)
  have ra: "map (\<lambda>r. regs a CURRENT (get_reg_offset r)) sysarg_regs = args"
    "\<And>i. i \<ge> 6 \<Longrightarrow> regs a CURRENT i = kregs t i"
    using pushed_arguments(1) [OF assms(3), of ?d] pushed_arguments(2) [OF assms(3)] by (simp_all add: a_def)
  have rc: "map (\<lambda>r. regs c CURRENT (get_reg_offset r)) sysarg_regs = args" "regs c CURRENT 8 = detranslate_sysnum s"
    "regs c CURRENT 32 = kregs t 32 - 4" "\<And>i. i \<notin> {0, 1, 2, 3, 4, 5, 8, 32} \<Longrightarrow> regs c CURRENT i = kregs t i"
    using ra by (auto simp: pc rb sysarg_regs_def)
  have ro: "regs c ORIGINAL = regs t ORIGINAL" by (simp add: a_def b_def c_def poke_other poke_regs_other)
  have "push_specific_regs k False ?z = (None, ?z\<lparr>kregs := regs c CURRENT\<rparr>)"
    using assms(1,2) pc(2) by (simp add: push_specific_regs_def push_regset_def ptrace_works_def chaining_def Let_def)
  then have t1: "translate_syscall k H t = Inr (?z\<lparr>kregs := regs c CURRENT\<rparr>)" (is "_ = Inr ?t1")
    using tr by (simp add: push_stage_def Let_def)
  let ?e = "fetched (kernel_enter ?t1)"
  let ?f = "?e\<lparr>restore_original_regs := False, voided_cancelled := False, restart_how := PTRACE_SYSCALL, status := 1\<rparr>"
  have e: "chained ?e = Some l" "pokedata_relaunched ?e = False" "pokedata_cancelled ?e = False" "status ?e = 0"
    "regs ?e CURRENT = (regs c CURRENT)(32 := kregs t 32)" "regs_were_changed ?e" "regs ?e ORIGINAL = regs t ORIGINAL"
    "kregs ?e = (regs c CURRENT)(32 := kregs t 32)" "knum ?e = detranslate_sysnum s"
    using assms(2) pc(2) ro rc(2,3) by (simp_all add: kernel_enter_def fetched_def chaining_def SYSTRAP_SIZE_def)
  have en: "enter_stage k H ?e = (True, 0, ?f)"
    using e assms(2,5) by (simp add: enter_stage_def enter_chained_def note_status_def chaining_def Let_def)
  have pf: "push_specific_regs k False ?f = (None, ?f)"
  proof -
    have "?f\<lparr>kregs := regs ?f CURRENT\<rparr> = ?f" using e(5,8) by simp
    then show ?thesis using assms(1,2) e(6)
      by (simp add: push_specific_regs_def push_regset_def ptrace_works_def chaining_def Let_def fetched_def kernel_enter_def)
  qed
  have k: "has_exe (kernel_enter ?t1)" "status (kernel_enter ?t1) = 0" and cf: "chained ?f = Some l"
    using assms(2) e(1) by (simp_all add: kernel_enter_def chaining_def)
  obtain f where f: "?f = f" by blast
  have "push_stage k True 0 f = Inr (f\<lparr>voided_cancelled := False\<rparr>)"
    using pf cf unfolding f by (simp add: push_stage_def Let_def)
  then have t2: "translate_syscall k H (kernel_enter ?t1) = Inr (?f\<lparr>voided_cancelled := False\<rparr>)"
    by (simp only: translate_syscall_works [OF assms(1) k(1)] k(2) en f prod.case if_True HOL.simp_thms)
  show thesis
  proof (rule that [OF t1 _ t2])
    show "map (\<lambda>r. kregs (?f\<lparr>voided_cancelled := False\<rparr>) (get_reg_offset r)) sysarg_regs = args"
      using rc(1) e(8) by (simp add: sysarg_regs_def)
    show "kregs (?f\<lparr>voided_cancelled := False\<rparr>) i = kregs t i" if "i \<notin> {0, 1, 2, 3, 4, 5, 8}" for i
      using that rc(4) [of i] e(8) by simp
  qed (use assms(2) e in \<open>simp_all add: chaining_def fetched_def kernel_enter_def\<close>)
qed

lemma chain_last:
  assumes "ptrace_works k" "chaining [] t" "regs_were_changed t" "\<And>u. chained_exit_h H u = u"
  obtains t1 where "translate_syscall k H t = Inr t1" "chained t1 = None" "status t1 = 0"
    "\<And>i. kregs t1 i = (if i = 0 then (if force_final_result t then final_result t else kregs t 0)
                      else if i \<in> writable_regs then regs t ORIGINAL i else kregs t i)"
proof -
  let ?d = "(departing t)\<lparr>chained := None\<rparr>"
  define a where "a = (if force_final_result t then poke_reg SYSARG_RESULT (final_result t) ?d else ?d)"
  let ?z = "a\<lparr>force_final_result := False, final_result := 0\<rparr>"
  have "chain_next_syscall (departing t) = Inr ?z"
    using assms(2) by (simp add: chain_next_syscall_def chaining_def departing_fields a_def Let_def)
  from chain_exit_shape [OF assms(1,2,4) this] have tr: "translate_syscall k H t = push_stage k False 0 ?z" .
  have ctl: "same_control ?d a" by (simp add: a_def poke_control)
  note [simp] = same_controlD [OF ctl] departing_fields
  have ch: "regs_were_changed a" using assms(3) by (simp add: a_def poke_reg_def)
  have ra: "regs a CURRENT i = (if i = 0 \<and> force_final_result t then final_result t else kregs t i)" for i
    by (simp add: a_def poke_current)
  have ro: "regs a ORIGINAL = regs t ORIGINAL" by (simp add: a_def poke_other)
  let ?r = "restore_regs ORIGINAL ?z"
  have rel: "\<not> restore_after_seccomp ?z" using assms(2) by (simp add: chaining_def)
  have bp: "before_push ?z = ?r" by (simp add: before_push_def)
  have chz: "regs_were_changed ?z" using ch by simp
  obtain n where "push_specific_regs k False ?z = (None, ?r\<lparr>knum := n, kregs := regs ?r CURRENT\<rparr>)"
    using push_works [OF assms(1) rel, of False] chz unfolding bp by simp
  then have t1: "translate_syscall k H t = Inr (?r\<lparr>knum := n, kregs := regs ?r CURRENT\<rparr>)"
    using tr by (simp add: push_stage_def Let_def)
  show thesis
  proof (rule that [OF t1])
    show "kregs (?r\<lparr>knum := n, kregs := regs ?r CURRENT\<rparr>) i =
      (if i = 0 then (if force_final_result t then final_result t else kregs t 0)
       else if i \<in> writable_regs then regs t ORIGINAL i else kregs t i)" for i
      using ra [of i] ro by (cases "i = 0") (simp_all add: restored_current)
  qed (simp_all add: restored_fields)
qed

text \<open>
  C12: chained calls are executed one after the other, in the order they were registered, and nothing else
  happens in between. After as many rounds as there are calls, and one more, the chain is empty, the
  result is the forced one or that of the last call, and the tracee continues behind its own call with the
  arguments it had given.
\<close>

theorem chain_executes_in_order:
  assumes "ptrace_works k" "chaining l t" "\<forall>(s, args) \<in> set l. length args = 6"
    and "\<And>u. chained_exit_h H u = u" "\<And>u. chained_enter_h H u = (0, u)"
    and "regs_were_changed t \<or> l \<noteq> []" "length l < n"
  shows "\<exists>t'. chain_run k H sys n t = Some (t', map (\<lambda>(s, args). (detranslate_sysnum s, args)) l) \<and>
      chained t' = None \<and> status t' = 0 \<and>
      kregs t' 0 = (if force_final_result t then final_result t
                    else foldl (\<lambda>_ (s, args). sys (detranslate_sysnum s) args) (kregs t 0) l) \<and>
      (\<forall>i. i \<noteq> 0 \<longrightarrow> kregs t' i = (if i \<in> writable_regs then regs t ORIGINAL i else kregs t i))"
  using assms(2,3,6,7)
proof (induction l arbitrary: t n)
  case Nil
  then obtain m where n: "n = Suc m" by (cases n) auto
  from chain_last [OF assms(1) Nil.prems(1) _ assms(4)] Nil.prems(3) obtain t1 where
    "translate_syscall k H t = Inr t1" "chained t1 = None" "status t1 = 0"
    "\<And>i. kregs t1 i = (if i = 0 then (if force_final_result t then final_result t else kregs t 0)
                      else if i \<in> writable_regs then regs t ORIGINAL i else kregs t i)" by blast
  then show ?case by (simp add: n)
next
  case (Cons a l)
  obtain s args where a: "a = (s, args)" by (cases a)
  with Cons.prems(2) have len: "length args = 6" and rest: "\<forall>(s, args) \<in> set l. length args = 6" by auto
  from Cons.prems(4) obtain m where n: "n = Suc m" "length l < m" by (cases n) auto
  from chain_step [OF assms(1) Cons.prems(1) [unfolded a] len assms(4,5)] obtain t1 t2 where s:
    "translate_syscall k H t = Inr t1" "chained t1 = Some l"
    "translate_syscall k H (kernel_enter t1) = Inr t2" "knum t2 = detranslate_sysnum s"
    "map (\<lambda>r. kregs t2 (get_reg_offset r)) sysarg_regs = args"
    "\<And>i. i \<notin> {0, 1, 2, 3, 4, 5, 8} \<Longrightarrow> kregs t2 i = kregs t i" "chaining l t2" "regs_were_changed t2"
    "regs t2 ORIGINAL = regs t ORIGINAL" "force_final_result t2 = force_final_result t" "final_result t2 = final_result t"
    by metis
  let ?r = "sys (detranslate_sysnum s) args" and ?x = "kernel_exit (sys (detranslate_sysnum s) args) t2"
  have x: "chaining l ?x" "regs_were_changed ?x" "regs ?x = regs t2" "force_final_result ?x = force_final_result t"
    "final_result ?x = final_result t" "kregs ?x 0 = ?r" "\<And>i. i \<noteq> 0 \<Longrightarrow> kregs ?x i = kregs t2 i"
    using s(7,8,10,11) by (simp_all add: kernel_exit_def chaining_def)
  from Cons.IH [OF x(1) rest _ n(2)] x(2) obtain t' where t':
    "chain_run k H sys m ?x = Some (t', map (\<lambda>(s, args). (detranslate_sysnum s, args)) l)"
    "chained t' = None" "status t' = 0"
    "kregs t' 0 = (if force_final_result ?x then final_result ?x
                   else foldl (\<lambda>_ (s, args). sys (detranslate_sysnum s) args) (kregs ?x 0) l)"
    "\<forall>i. i \<noteq> 0 \<longrightarrow> kregs t' i = (if i \<in> writable_regs then regs ?x ORIGINAL i else kregs ?x i)" by blast
  have "chain_run k H sys n t = Some (t', (detranslate_sysnum s, args) # map (\<lambda>(s, args). (detranslate_sysnum s, args)) l)"
    using s(1-5) t'(1) by (simp add: n(1) Let_def)
  moreover have "kregs t' i = (if i \<in> writable_regs then regs t ORIGINAL i else kregs t i)" if "i \<noteq> 0" for i
    using t'(5) that x(3,7) s(6) [of i] s(9) by (auto simp: writable_regs_def)
  ultimately show ?case using t'(2-4) x(4-6) by (simp add: a)
qed

theorem chain_executes_in_order_witness:
  "\<exists>t'. chain_run demo_ptracer (demo_handlers 0) (\<lambda>_ args. args ! 1) 3
        ((demo_thread [(1, 5)])\<lparr>chained := Some [(''close'', [3, 0, 0, 0, 0, 0]), (''read'', [4, 8, 0, 0, 0, 0])], status := 1\<rparr>) =
      Some (t', [(detranslate_sysnum ''close'', [3, 0, 0, 0, 0, 0]), (detranslate_sysnum ''read'', [4, 8, 0, 0, 0, 0])]) \<and>
    kregs t' 0 = 8 \<and> kregs t' 1 = 5"
proof -
  let ?l = "[(''close'', [3, 0, 0, 0, 0, 0]), (''read'', [4, 8, 0, 0, 0, 0])] :: (sysnum \<times> word_t list) list"
  let ?t = "(demo_thread [(1, 5)])\<lparr>chained := Some ?l, status := 1\<rparr>"
  have "chaining ?l ?t" by (simp add: chaining_def demo_thread_def)
  then have "\<exists>t'. chain_run demo_ptracer (demo_handlers 0) (\<lambda>_ args. args ! 1) 3 ?t =
        Some (t', map (\<lambda>(s, args). (detranslate_sysnum s, args)) ?l) \<and>
      chained t' = None \<and> status t' = 0 \<and>
      kregs t' 0 = (if force_final_result ?t then final_result ?t
                    else foldl (\<lambda>_ (s, args). args ! 1) (kregs ?t 0) ?l) \<and>
      (\<forall>i. i \<noteq> 0 \<longrightarrow> kregs t' i = (if i \<in> writable_regs then regs ?t ORIGINAL i else kregs ?t i))"
    by (rule chain_executes_in_order [OF demo_works]) (simp_all add: demo_handlers_def)
  then obtain t' where t': "chain_run demo_ptracer (demo_handlers 0) (\<lambda>_ args. args ! 1) 3 ?t =
        Some (t', map (\<lambda>(s, args). (detranslate_sysnum s, args)) ?l)"
    "kregs t' 0 = (if force_final_result ?t then final_result ?t
                    else foldl (\<lambda>_ (s, args). args ! 1) (kregs ?t 0) ?l)"
    "\<forall>i. i \<noteq> 0 \<longrightarrow> kregs t' i = (if i \<in> writable_regs then regs ?t ORIGINAL i else kregs ?t i)" by blast
  from t'(3) have "kregs t' 1 = 5" by (simp add: demo_thread_def writable_regs_def)
  moreover from t'(2) have "kregs t' 0 = 8" by (simp add: demo_thread_def)
  ultimately show ?thesis using t'(1) by simp
qed

end
