(* ===== verification/Memory.thy ===== *)
theory Memory
  imports Prelude
begin

text \<open>
  The memory of a tracee as the tracer reads and writes it (\<^verbatim>\<open>src/tracee/mem.cpp\<close>): whole words through
  \<open>ptrace(2)\<close>, a trailing part of a word through a read of the whole word, and one transfer by
  \<open>process_vm_readv\<close> or \<open>process_vm_writev\<close> from 32768 bytes on. A byte that is not mapped is \<open>None\<close>;
  \<open>ptrace\<close> answers \<open>EIO\<close> for a word that is not mapped as a whole.
\<close>

type_synonym memory = "word_t \<Rightarrow> byte option"

definition VM_FAST_THRESHOLD :: nat where "VM_FAST_THRESHOLD = 32768"

definition peek_bytes :: "memory \<Rightarrow> word_t \<Rightarrow> nat \<Rightarrow> byte list option" where
  "peek_bytes m a n = those (map (\<lambda>i. m (a + of_nat i)) [0..<n])"

definition poke_bytes :: "memory \<Rightarrow> word_t \<Rightarrow> byte list \<Rightarrow> memory" where
  "poke_bytes m a bs = (\<lambda>x. if unat (x - a) < length bs then Some (bs ! unat (x - a)) else m x)"

text \<open>\<open>PTRACE_PEEKDATA\<close> and \<open>PTRACE_POKEDATA\<close>.\<close>

definition ptrace_peek :: "memory \<Rightarrow> word_t \<Rightarrow> byte list res" where
  "ptrace_peek m a = (case peek_bytes m a 8 of None \<Rightarrow> Inl EIO | Some bs \<Rightarrow> Inr bs)"

definition ptrace_poke :: "memory \<Rightarrow> word_t \<Rightarrow> byte list \<Rightarrow> memory res" where
  "ptrace_poke m a bs = (case peek_bytes m a 8 of None \<Rightarrow> Inl EIO | Some _ \<Rightarrow> Inr (poke_bytes m a bs))"

function write_words :: "memory \<Rightarrow> word_t \<Rightarrow> byte list \<Rightarrow> errno option \<times> memory" where
  "write_words m a bs =
     (if bs = [] then (None, m)
      else if length bs < 8 then
        (case ptrace_peek m a of Inl e \<Rightarrow> (Some e, m)
         | Inr w \<Rightarrow> (case ptrace_poke m a (bs @ drop (length bs) w) of Inl e \<Rightarrow> (Some e, m) | Inr m \<Rightarrow> (None, m)))
      else (case ptrace_poke m a (take 8 bs) of Inl e \<Rightarrow> (Some e, m)
            | Inr m \<Rightarrow> write_words m (a + 8) (drop 8 bs)))"
  by pat_completeness auto
termination by (relation "measure (\<lambda>(m, a, bs). length bs)") auto

function read_words :: "memory \<Rightarrow> word_t \<Rightarrow> nat \<Rightarrow> byte list res" where
  "read_words m a n =
     (if n = 0 then Inr []
      else (case ptrace_peek m a of Inl e \<Rightarrow> Inl e
        | Inr w \<Rightarrow> if n < 8 then Inr (take n w)
            else (case read_words m (a + 8) (n - 8) of Inl e \<Rightarrow> Inl e | Inr r \<Rightarrow> Inr (w @ r))))"
  by pat_completeness auto
termination by (relation "measure (\<lambda>(m, a, n). n)") auto

declare write_words.simps [simp del] read_words.simps [simp del]

definition write_data :: "memory \<Rightarrow> word_t \<Rightarrow> byte list \<Rightarrow> errno option \<times> memory" where
  "write_data m a bs =
     (if length bs \<ge> VM_FAST_THRESHOLD \<and> peek_bytes m a (length bs) \<noteq> None then (None, poke_bytes m a bs)
      else write_words m a bs)"

definition read_data :: "memory \<Rightarrow> word_t \<Rightarrow> nat \<Rightarrow> byte list res" where
  "read_data m a n =
     (if n \<ge> VM_FAST_THRESHOLD then
        (case peek_bytes m a n of Some bs \<Rightarrow> Inr bs | None \<Rightarrow> read_words m a n)
      else read_words m a n)"

section \<open>Numbers in memory\<close>

text \<open>Little endian.\<close>

definition le_bytes :: "nat \<Rightarrow> nat \<Rightarrow> byte list" where
  "le_bytes n v = map (\<lambda>i. of_nat (v div 256 ^ i)) [0..<n]"

fun le_value :: "byte list \<Rightarrow> nat" where
  "le_value [] = 0"
| "le_value (b # bs) = unat b + 256 * le_value bs"

section \<open>Facts\<close>

lemma those_map_Some: "(\<And>i. i \<in> set xs \<Longrightarrow> f i = Some (g i)) \<Longrightarrow> those (map f xs) = Some (map g xs)"
  by (induction xs) auto

lemma those_map_None: "i \<in> set xs \<Longrightarrow> f i = None \<Longrightarrow> those (map f xs) = None"
  by (induction xs) (auto split: option.split)

lemma those_length: "those l = Some bs \<Longrightarrow> length bs = length l"
  by (induction l arbitrary: bs) (auto split: option.split_asm)

lemma those_nth: "those l = Some bs \<Longrightarrow> i < length l \<Longrightarrow> l ! i = Some (bs ! i)"
  by (induction l arbitrary: bs i) (auto split: option.split_asm simp: nth_Cons')

lemma peek_bytes_length: "peek_bytes m a n = Some bs \<Longrightarrow> length bs = n"
  unfolding peek_bytes_def by (drule those_length) simp

lemma peek_bytes_mapped: "(\<exists>bs. peek_bytes m a n = Some bs) \<longleftrightarrow> (\<forall>i<n. m (a + of_nat i) \<noteq> None)"
proof
  assume "\<exists>bs. peek_bytes m a n = Some bs"
  then show "\<forall>i<n. m (a + of_nat i) \<noteq> None" unfolding peek_bytes_def by (auto dest: those_nth)
next
  assume *: "\<forall>i<n. m (a + of_nat i) \<noteq> None"
  have "peek_bytes m a n = Some (map (\<lambda>i. the (m (a + of_nat i))) [0..<n])"
    unfolding peek_bytes_def by (rule those_map_Some) (use * in auto)
  then show "\<exists>bs. peek_bytes m a n = Some bs" by blast
qed

lemma unat_offset: "i < 2 ^ 64 \<Longrightarrow> unat (a + of_nat i - a :: word_t) = i"
  by (simp add: unat_of_nat)

lemma unat_index: "i < 2 ^ 64 \<Longrightarrow> unat (of_nat i :: word_t) = i"
  by (simp add: unat_of_nat)

lemma unat_8: "unat (8 :: word_t) = 8"
  using unat_index [of 8] by simp

lemma offset_step:
  assumes "8 \<le> unat (x - a :: word_t)"
  shows "unat (x - (a + 8)) = unat (x - a) - 8"
proof -
  have "x - (a + 8) = (x - a) - 8" by simp
  then show ?thesis using assms unat_sub_if' [of "x - a" 8] by (simp only: unat_8) simp
qed

lemma offset_wrap:
  assumes "unat (x - a :: word_t) < 8"
  shows "2 ^ 64 - 8 \<le> unat (x - (a + 8))"
proof -
  have "x - (a + 8) = (x - a) - 8" by simp
  then show ?thesis using assms unat_sub_if' [of "x - a" 8] by (simp only: unat_8) simp
qed

text \<open>A word and what follows it.\<close>

lemma poke_split:
  assumes "8 \<le> length bs" "length bs < 2 ^ 64 - 8"
  shows "poke_bytes (poke_bytes m a (take 8 bs)) (a + 8) (drop 8 bs) = poke_bytes m a bs"
proof
  fix x
  show "poke_bytes (poke_bytes m a (take 8 bs)) (a + 8) (drop 8 bs) x = poke_bytes m a bs x"
  proof (cases "unat (x - a) < 8")
    case True
    have "\<not> unat (x - (a + 8)) < length bs - 8" using offset_wrap [OF True] assms by linarith
    with True assms show ?thesis by (simp add: poke_bytes_def)
  next
    case False
    then have "8 \<le> unat (x - a)" by simp
    from offset_step [OF this] False assms show ?thesis
      by (auto simp: poke_bytes_def nth_append)
  qed
qed

lemma poke_mapped: "m x \<noteq> None \<Longrightarrow> poke_bytes m a bs x \<noteq> None"
  by (simp add: poke_bytes_def)

lemma peek_poked:
  assumes "length bs < 2 ^ 64"
  shows "peek_bytes (poke_bytes m a bs) a (length bs) = Some bs"
proof -
  have "peek_bytes (poke_bytes m a bs) a (length bs) = Some (map (\<lambda>i. bs ! i) [0..<length bs])"
    unfolding peek_bytes_def using assms by (intro those_map_Some) (simp add: poke_bytes_def unat_index)
  then show ?thesis by (simp add: map_nth)
qed

text \<open>What a successful write did, and that all the words it touched were mapped.\<close>

definition word_span :: "nat \<Rightarrow> nat" where "word_span n = (n + 7) div 8 * 8"

lemma word_span_step: "8 \<le> n \<Longrightarrow> word_span n = 8 + word_span (n - 8)"
proof -
  assume "8 \<le> n"
  then have "(n + 7) div 8 = Suc ((n - 8 + 7) div 8)" by (subst le_div_geq) auto
  then show ?thesis by (simp add: word_span_def)
qed

lemma word_span_small: "0 < n \<Longrightarrow> n < 8 \<Longrightarrow> word_span n = 8"
proof -
  assume "0 < n" "n < 8"
  then have "(n + 7) div 8 = 1" by (simp add: div_nat_eqI)
  then show ?thesis by (simp add: word_span_def)
qed

definition span_mapped :: "memory \<Rightarrow> word_t \<Rightarrow> nat \<Rightarrow> bool" where
  "span_mapped m a n \<longleftrightarrow> (\<forall>i<word_span n. m (a + of_nat i) \<noteq> None)"

lemma span_mapped_step:
  assumes "8 \<le> n"
  shows "span_mapped m a n \<longleftrightarrow> (\<exists>bs. peek_bytes m a 8 = Some bs) \<and> span_mapped m (a + 8) (n - 8)"
proof
  assume s: "span_mapped m a n"
  have "m (a + 8 + of_nat i) \<noteq> None" if "i < word_span (n - 8)" for i
  proof -
    have "m (a + of_nat (8 + i)) \<noteq> None"
      using s that word_span_step [OF assms] unfolding span_mapped_def by (metis add_less_cancel_left)
    then show ?thesis by (simp add: add.assoc)
  qed
  with s show "(\<exists>bs. peek_bytes m a 8 = Some bs) \<and> span_mapped m (a + 8) (n - 8)"
    using word_span_step [OF assms] by (auto simp: span_mapped_def peek_bytes_mapped)
next
  assume s: "(\<exists>bs. peek_bytes m a 8 = Some bs) \<and> span_mapped m (a + 8) (n - 8)"
  have "m (a + of_nat i) \<noteq> None" if "i < word_span n" for i
  proof (cases "i < 8")
    case False
    with that have "i - 8 < word_span (n - 8)" using word_span_step [OF assms] by simp
    with s have "m (a + 8 + of_nat (i - 8)) \<noteq> None" by (simp add: span_mapped_def)
    moreover have "(of_nat i :: word_t) = 8 + of_nat (i - 8)" using False by (simp add: of_nat_diff)
    ultimately show ?thesis by (simp add: add.assoc)
  qed (use s in \<open>simp add: peek_bytes_mapped\<close>)
  then show "span_mapped m a n" by (simp add: span_mapped_def)
qed

lemma peek_bytes_nth:
  assumes "peek_bytes m a n = Some w" "i < n"
  shows "m (a + of_nat i) = Some (w ! i)"
  using those_nth [OF assms(1) [unfolded peek_bytes_def], of i] assms(2) by simp

lemma word_span_le: "word_span n \<le> n + 7"
  by (simp add: word_span_def)

lemma write_words_done:
  assumes "write_words m a bs = (None, m')" "length bs < 2 ^ 64 - 8"
  shows "m' = poke_bytes m a bs \<and> span_mapped m a (length bs)"
  using assms
proof (induction m a bs rule: write_words.induct)
  case (1 m a bs)
  consider "bs = []" | "bs \<noteq> []" "length bs < 8" | "8 \<le> length bs" by linarith
  then show ?case
  proof cases
    case 1
    with "1.prems" show ?thesis
      by (subst (asm) write_words.simps) (simp add: poke_bytes_def span_mapped_def word_span_def)
  next
    case 2
    then obtain w where w: "peek_bytes m a 8 = Some w" "m' = poke_bytes m a (bs @ drop (length bs) w)"
      using "1.prems"(1)
      by (subst (asm) write_words.simps) (auto simp: ptrace_peek_def ptrace_poke_def split: option.split_asm)
    have len: "length w = 8" using peek_bytes_length [OF w(1)] .
    have "poke_bytes m a (bs @ drop (length bs) w) x = poke_bytes m a bs x" for x
    proof (cases "length bs \<le> unat (x - a) \<and> unat (x - a) < 8")
      case True
      have "x = a + of_nat (unat (x - a))" by simp
      with True peek_bytes_nth [OF w(1), of "unat (x - a)"] have "m x = Some (w ! unat (x - a))" by simp
      with True len show ?thesis by (simp add: poke_bytes_def nth_append)
    qed (use len 2 in \<open>auto simp: poke_bytes_def nth_append\<close>)
    then have "poke_bytes m a (bs @ drop (length bs) w) = poke_bytes m a bs" ..
    moreover have "span_mapped m a (length bs)"
      using w(1) word_span_small [of "length bs"] 2 peek_bytes_mapped [of m a 8] by (simp add: span_mapped_def)
    ultimately show ?thesis using w(2) by simp
  next
    case 3
    then have ne: "bs \<noteq> []" and nl: "\<not> length bs < 8" by auto
    from "1.prems"(1) 3 obtain w where w: "peek_bytes m a 8 = Some w"
      "write_words (poke_bytes m a (take 8 bs)) (a + 8) (drop 8 bs) = (None, m')"
      by (auto simp: write_words.simps [of m a bs] ptrace_poke_def split: option.split_asm if_split_asm)
    have "ptrace_poke m a (take 8 bs) = Inr (poke_bytes m a (take 8 bs))" using w(1) by (simp add: ptrace_poke_def)
    from "1.IH" [OF ne nl this] w(2) "1.prems"(2)
    have *: "m' = poke_bytes (poke_bytes m a (take 8 bs)) (a + 8) (drop 8 bs)"
      "span_mapped (poke_bytes m a (take 8 bs)) (a + 8) (length bs - 8)" by simp_all
    have "span_mapped m (a + 8) (length bs - 8)"
      unfolding span_mapped_def
    proof (intro allI impI)
      fix i assume i: "i < word_span (length bs - 8)"
      have "8 + i < 2 ^ 64"
        using i word_span_step [OF 3] word_span_le [of "length bs"] "1.prems"(2) by linarith
      then have "unat (of_nat (8 + i) :: word_t) = 8 + i" by (rule unat_index)
      then have "unat (a + 8 + of_nat i - a) = 8 + i" by simp
      moreover have "poke_bytes m a (take 8 bs) (a + 8 + of_nat i) \<noteq> None" using *(2) i by (simp add: span_mapped_def)
      ultimately show "m (a + 8 + of_nat i) \<noteq> None" by (simp add: poke_bytes_def)
    qed
    with w(1) 3 * poke_split [OF 3 "1.prems"(2)] show ?thesis using span_mapped_step [OF 3] by simp
  qed
qed

lemma read_words_mapped:
  assumes "span_mapped m a n" "peek_bytes m a n = Some bs"
  shows "read_words m a n = Inr bs"
  using assms
proof (induction m a n arbitrary: bs rule: read_words.induct)
  case (1 m a n)
  consider "n = 0" | "n \<noteq> 0" "n < 8" | "8 \<le> n" by linarith
  then show ?case
  proof cases
    case 1
    with "1.prems" show ?thesis by (subst read_words.simps) (simp add: peek_bytes_def)
  next
    case 2
    then have "word_span n = 8" by (simp add: word_span_small)
    with "1.prems"(1) have "\<exists>w. peek_bytes m a 8 = Some w" unfolding peek_bytes_mapped span_mapped_def by simp
    then obtain w where w: "peek_bytes m a 8 = Some w" ..
    have "take n w = bs"
    proof (rule nth_equalityI)
      show "length (take n w) = length bs" using peek_bytes_length [OF w] peek_bytes_length [OF "1.prems"(2)] 2 by simp
      fix i assume "i < length (take n w)"
      then show "take n w ! i = bs ! i"
        using peek_bytes_nth [OF w, of i] peek_bytes_nth [OF "1.prems"(2), of i] 2 by simp
    qed
    with w 2 show ?thesis by (subst read_words.simps) (simp add: ptrace_peek_def)
  next
    case 3
    from "1.prems"(1) 3 obtain w where w: "peek_bytes m a 8 = Some w" and s: "span_mapped m (a + 8) (n - 8)"
      by (auto simp: span_mapped_step)
    have lb: "length bs = n" and lw: "length w = 8"
      using peek_bytes_length [OF "1.prems"(2)] peek_bytes_length [OF w] by simp_all
    have tw: "take 8 bs = w"
    proof (rule nth_equalityI)
      show "length (take 8 bs) = length w" using lb lw 3 by simp
      fix i assume "i < length (take 8 bs)"
      then show "take 8 bs ! i = w ! i"
        using peek_bytes_nth [OF w, of i] peek_bytes_nth [OF "1.prems"(2), of i] lb by simp
    qed
    have "peek_bytes m (a + 8) (n - 8) = Some (map (\<lambda>i. bs ! (8 + i)) [0..<n - 8])"
      unfolding peek_bytes_def
    proof (rule those_map_Some)
      fix i assume "i \<in> set [0..<n - 8]"
      then show "m (a + 8 + of_nat i) = Some (bs ! (8 + i))"
        using peek_bytes_nth [OF "1.prems"(2), of "8 + i"] by (simp add: add.assoc)
    qed
    moreover have "map (\<lambda>i. bs ! (8 + i)) [0..<n - 8] = drop 8 bs"
      using lb by (intro nth_equalityI) auto
    ultimately have "peek_bytes m (a + 8) (n - 8) = Some (drop 8 bs)" by simp
    have ptr: "ptrace_peek m a = Inr w" using w by (simp add: ptrace_peek_def)
    have "read_words m (a + 8) (n - 8) = Inr (drop 8 bs)"
      by (rule "1.IH" [OF _ ptr _ s]) (use 3 \<open>peek_bytes m (a + 8) (n - 8) = Some (drop 8 bs)\<close> in auto)
    with ptr 3 tw show ?thesis by (subst read_words.simps) auto
  qed
qed

lemma write_read_roundtrip_fact:
  assumes "write_data m a bs = (None, m')" "length bs < 2 ^ 64 - 8"
  shows "read_data m' a (length bs) = Inr bs \<and> (\<forall>x. length bs \<le> unat (x - a) \<longrightarrow> m' x = m x)"
proof -
  have m': "m' = poke_bytes m a bs \<and> (VM_FAST_THRESHOLD \<le> length bs \<or> span_mapped m a (length bs))"
    using assms write_words_done [of m a bs m'] by (auto simp: write_data_def split: if_split_asm)
  have p: "peek_bytes m' a (length bs) = Some bs" using m' assms(2) by (simp add: peek_poked)
  have "read_data m' a (length bs) = Inr bs"
  proof (cases "VM_FAST_THRESHOLD \<le> length bs")
    case False
    with m' have "span_mapped m' a (length bs)" by (auto simp: span_mapped_def poke_bytes_def)
    from read_words_mapped [OF this p] False show ?thesis by (simp add: read_data_def)
  qed (use p in \<open>simp add: read_data_def\<close>)
  then show ?thesis using m' by (simp add: poke_bytes_def)
qed

text \<open>
  What was written is read back, and nothing else changed. When \<open>write_data\<close> reports success, \<open>read_data\<close>
  of the same range returns the bytes that were written, and every other byte of the tracee is as before,
  including those of the word that holds the last bytes.
\<close>

theorem write_read_roundtrip:
  assumes "write_data m a bs = (None, m')" "length bs < 2 ^ 64 - 8"
  shows "read_data m' a (length bs) = Inr bs \<and> (\<forall>x. length bs \<le> unat (x - a) \<longrightarrow> m' x = m x)"
  using write_read_roundtrip_fact [OF assms] .

lemma write_words_error: "write_words m a bs = (Some e, m') \<Longrightarrow> e = EIO"
proof (induction m a bs rule: write_words.induct)
  case (1 m a bs)
  consider "bs = []" | "bs \<noteq> []" "length bs < 8" | "8 \<le> length bs" by linarith
  then show ?case
  proof cases
    case 3
    then have ne: "bs \<noteq> []" and nl: "\<not> length bs < 8" by auto
    show ?thesis
    proof (cases "ptrace_poke m a (take 8 bs)")
      case (Inl e')
      with "1.prems" ne nl show ?thesis
        by (auto simp: write_words.simps [of m a bs] ptrace_poke_def split: option.split_asm)
    next
      case (Inr m2)
      with "1.prems" ne nl have "write_words m2 (a + 8) (drop 8 bs) = (Some e, m')"
        by (simp add: write_words.simps [of m a bs])
      from "1.IH" [OF ne nl Inr this] show ?thesis .
    qed
  qed (use "1.prems" in \<open>auto simp: write_words.simps [of m a bs] write_words.simps [of m a "[]"] ptrace_peek_def ptrace_poke_def split: option.split_asm\<close>)
qed

lemma write_data_error: "write_data m a bs = (Some e, m') \<Longrightarrow> e = EIO"
  by (auto simp: write_data_def dest: write_words_error split: if_split_asm)

text \<open>Memory that is mapped everywhere.\<close>

definition total_memory :: "memory \<Rightarrow> bool" where
  "total_memory m \<longleftrightarrow> (\<forall>x. m x \<noteq> None)"

lemma total_peek: "total_memory m \<Longrightarrow> \<exists>w. peek_bytes m a n = Some w"
  by (simp add: peek_bytes_mapped total_memory_def)

lemma total_poke: "total_memory m \<Longrightarrow> total_memory (poke_bytes m a bs)"
  by (simp add: total_memory_def poke_bytes_def)

lemma total_write_words: "total_memory m \<Longrightarrow> fst (write_words m a bs) = None \<and> total_memory (snd (write_words m a bs))"
proof (induction m a bs rule: write_words.induct)
  case (1 m a bs)
  obtain w where w: "peek_bytes m a 8 = Some w" using total_peek [OF "1.prems"] by blast
  consider "bs = []" | "bs \<noteq> []" "length bs < 8" | "bs \<noteq> []" "\<not> length bs < 8" by linarith
  then show ?case
  proof cases
    case 3
    have p: "ptrace_poke m a (take 8 bs) = Inr (poke_bytes m a (take 8 bs))" using w by (simp add: ptrace_poke_def)
    from "1.IH" [OF 3 p total_poke [OF "1.prems"]] 3 p show ?thesis by (simp add: write_words.simps [of m a bs])
  qed (use "1.prems" w in \<open>simp_all add: write_words.simps [of m a bs] write_words.simps [of m a "[]"] ptrace_peek_def ptrace_poke_def total_poke\<close>)
qed

lemma total_write: "total_memory m \<Longrightarrow> \<exists>m'. write_data m a bs = (None, m') \<and> total_memory m'"
  using total_write_words [of m a bs] total_poke [of m a bs]
  by (cases "write_words m a bs") (auto simp: write_data_def)

text \<open>What a read needs of the memory.\<close>

lemma read_words_length: "read_words m a n = Inr bs \<Longrightarrow> length bs = n"
proof (induction m a n arbitrary: bs rule: read_words.induct)
  case (1 m a n)
  show ?case
  proof (cases "n = 0")
    case False
    with "1.prems" obtain w where w: "ptrace_peek m a = Inr w"
      by (cases "ptrace_peek m a") (auto simp: read_words.simps [of m a n])
    then have lw: "length w = 8" by (auto simp: ptrace_peek_def dest: peek_bytes_length split: option.split_asm)
    show ?thesis
    proof (cases "n < 8")
      case True
      with "1.prems" False w lw show ?thesis by (auto simp: read_words.simps [of m a n])
    next
      case large: False
      with "1.prems" False w obtain r where r: "read_words m (a + 8) (n - 8) = Inr r" "bs = w @ r"
        by (cases "read_words m (a + 8) (n - 8)") (auto simp: read_words.simps [of m a n])
      from "1.IH" [OF False w large r(1)] r(2) lw large show ?thesis by simp
    qed
  qed (use "1.prems" in \<open>simp add: read_words.simps [of m a 0]\<close>)
qed

lemma read_data_length: "read_data m a n = Inr bs \<Longrightarrow> length bs = n"
  by (auto simp: read_data_def dest: read_words_length peek_bytes_length split: if_split_asm option.split_asm)

lemma read_8: "read_data m a 8 = ptrace_peek m a"
  by (auto simp: read_data_def VM_FAST_THRESHOLD_def read_words.simps [of m a 8] read_words.simps [of m "a + 8" 0] split: sum.split)

lemma peek_same:
  assumes "\<And>i. i < n \<Longrightarrow> m' (a + of_nat i) = m (a + of_nat i)"
  shows "peek_bytes m' a n = peek_bytes m a n"
  unfolding peek_bytes_def using assms by (intro arg_cong [where f = those] map_cong) auto

text \<open>Seven bytes at the end of a page: the trailing bytes are reached through the word that holds them.\<close>

definition demo_page :: memory where
  "demo_page x = (if x < 16 then Some 0 else None)"

lemma upt_8: "[0..<8] = [0, 1, 2, 3, 4, 5, 6, 7]" "[0..<4] = [0, 1, 2, 3]"
  by (simp_all add: upt_rec)

lemma demo_page_peek:
  "peek_bytes demo_page 3 8 = Some [0, 0, 0, 0, 0, 0, 0, 0]" "peek_bytes demo_page 12 8 = None"
  "peek_bytes demo_page 12 4 = Some [0, 0, 0, 0]"
  by (simp_all add: peek_bytes_def demo_page_def upt_8)

theorem write_read_roundtrip_witness:
  "\<exists>m'. write_data demo_page 3 [1, 2, 3] = (None, m') \<and> read_data m' 3 3 = Inr [1, 2, 3] \<and> m' 6 = Some 0"
proof -
  obtain m' where w: "write_data demo_page 3 [1, 2, 3] = (None, m')"
    by (simp add: write_data_def VM_FAST_THRESHOLD_def write_words.simps ptrace_peek_def ptrace_poke_def demo_page_peek)
  have "unat (6 - 3 :: word_t) = 3" using unat_index [of 3] by simp
  with write_read_roundtrip [OF w] have "read_data m' 3 3 = Inr [1, 2, 3]" "m' 6 = demo_page 6"
    by (simp_all add: numeral_3_eq_3)
  with w show ?thesis by (simp add: demo_page_def)
qed

text \<open>
  A range that is mapped can be refused. The last bytes of a range are reached through a whole word,
  so a range whose tail lies within seven bytes of the end of the mapping is reported as an error.
\<close>

theorem mapped_range_refused:
  "peek_bytes demo_page 12 4 = Some [0, 0, 0, 0] \<and> read_data demo_page 12 4 = Inl EIO \<and>
   write_data demo_page 12 [1, 2, 3, 4] = (Some EIO, demo_page)"
  by (simp add: write_data_def read_data_def VM_FAST_THRESHOLD_def write_words.simps read_words.simps
      ptrace_peek_def demo_page_peek)

end
