(* ===== verification/Ipc.thy ===== *)
theory Ipc
  imports Thread Memory
begin

text \<open>
  The state of the SysV IPC emulation (\<^verbatim>\<open>src/extension/sysvipc/sysvipc_internal.h\<close>) and what its parts
  share: object identifiers, the search for a slot, waking a waiting tracee (\<^verbatim>\<open>sysvipc.c\<close>). A status
  is an \<open>int\<close> as in the sources, an error its negated number.
\<close>

section \<open>Identifiers\<close>

abbreviation (input) err :: "errno \<Rightarrow> int" where "err e \<equiv> - errno_num e"

definition int_arg :: "word_t \<Rightarrow> int" where
  "int_arg w = sint (ucast w :: u32)"

text \<open>\<open>LOOKUP_IPC_OBJECT\<close>: the low 12 bits hold the index plus one, the next 16 the generation, which is
  compared with the generation of the object as a signed number.\<close>

definition id_slot :: "word_t \<Rightarrow> nat" where
  "id_slot w = unat ((ucast w :: u32) AND 0xFFF)"

definition id_generation :: "word_t \<Rightarrow> int" where
  "id_generation w = uint (drop_bit 12 (ucast w :: u32) AND 0xFFFF)"

definition lookup_object :: "('a \<Rightarrow> bool) \<Rightarrow> ('a \<Rightarrow> 16 word) \<Rightarrow> 'a list \<Rightarrow> word_t \<Rightarrow> nat option" where
  "lookup_object ok gen objs w =
     (let k = id_slot w in
      if k = 0 \<or> k > length objs then None
      else if \<not> ok (objs ! (k - 1)) \<or> sint (gen (objs ! (k - 1))) \<noteq> id_generation w then None
      else Some (k - 1))"

definition object_id :: "nat \<Rightarrow> 16 word \<Rightarrow> int" where
  "object_id idx gen = sint ((of_nat (idx + 1) :: u32) OR push_bit 12 (word_of_int (sint gen)))"

text \<open>The loop of the three \<open>get\<close> calls: the object with the key, else the first slot that is free, else none.\<close>

datatype slot = Existing nat | Unused nat | Grow

fun find_slot :: "('a \<Rightarrow> bool) \<Rightarrow> ('a \<Rightarrow> bool) \<Rightarrow> 'a list \<Rightarrow> nat \<Rightarrow> nat option \<Rightarrow> slot" where
  "find_slot ok match [] i unused = (case unused of Some u \<Rightarrow> Unused u | None \<Rightarrow> Grow)"
| "find_slot ok match (x # xs) i unused =
     (if ok x then (if match x then Existing i else find_slot ok match xs (Suc i) unused)
      else find_slot ok match xs (Suc i) (case unused of None \<Rightarrow> Some i | Some u \<Rightarrow> Some u))"

definition key_matches :: "word_t \<Rightarrow> u32 \<Rightarrow> bool" where
  "key_matches key k \<longleftrightarrow> key \<noteq> 0 \<and> k = ucast key"

definition IPC_CREAT :: word_t where "IPC_CREAT = 0x200"
definition IPC_EXCL :: word_t where "IPC_EXCL = 0x400"
definition IPC_NOWAIT :: u32 where "IPC_NOWAIT = 0x800"
definition SYSVIPC_IPC_64 :: u32 where "SYSVIPC_IPC_64 = 0x100"

definition flag_set :: "'a::len word \<Rightarrow> 'a word \<Rightarrow> bool" where
  "flag_set w f \<longleftrightarrow> w AND f \<noteq> 0"

definition ipc_command :: "word_t \<Rightarrow> int" where
  "ipc_command w = sint ((ucast w :: u32) AND NOT SYSVIPC_IPC_64)"

section \<open>Objects\<close>

record msg_item =
  mtype :: int
  mtext :: "byte list"

record msg_stats =
  msg_qnum :: word_t
  msg_cbytes :: word_t
  msg_qbytes :: word_t
  msg_lspid :: int
  msg_lrpid :: int
  msg_stime :: int
  msg_rtime :: int

record msg_queue =
  q_key :: u32
  q_generation :: "16 word"
  q_valid :: bool
  items :: "msg_item list"
  stats :: msg_stats

text \<open>\<open>sems\<close> is \<open>None\<close> after it has been freed.\<close>

record sem_set =
  s_key :: u32
  s_generation :: "16 word"
  s_valid :: bool
  sems :: "16 word list option"
  nsems :: int

text \<open>A mapping is owned by a process and listed with its segment; \<open>map_addr\<close> and \<open>map_size\<close> are 0 while it is
  pending. The mappings of all segments and processes are kept in one list in the order of the list of
  the process; a segment's list is the part with its index.\<close>

record shm_map =
  map_owner :: nat
  map_addr :: word_t
  map_size :: word_t
  map_space :: nat
  shm_index :: nat

record shm_seg =
  m_key :: u32
  m_generation :: "16 word"
  m_valid :: bool
  rmid_pending :: bool
  m_fd :: int
  m_mode :: word_t
  m_segsz :: word_t
  m_cpid :: int
  m_nattch :: word_t

record ipc_space =
  queues :: "msg_queue list"
  semaphores :: "sem_set list"
  shms :: "shm_seg list"

section \<open>Tracees\<close>

datatype wait_reason = WR_NOT_WAITING | WR_WAIT_QUEUE_RECV | WR_WAIT_SEMOP | WR_WAIT_SHMAT_HELPER_BUSY

datatype wait_state = WSTATE_NOT_WAITING | WSTATE_RESTARTED_INTO_PPOLL_CANCELED
  | WSTATE_RESTARTED_INTO_PPOLL | WSTATE_ENTERED_PPOLL | WSTATE_SIGNALED_PPOLL | WSTATE_ENTERED_GETPID

datatype chain_state = CSTATE_NOT_CHAINED | CSTATE_SINGLE | CSTATE_SHMAT_SOCKET | CSTATE_SHMAT_CONNECT
  | CSTATE_SHMAT_RECVMSG | CSTATE_SHMAT_MMAP | CSTATE_MSGRCV_RETRY

record sembuf =
  sem_num :: nat
  sem_op :: int
  sem_flg :: u32

text \<open>\<open>stop_sent\<close> says that a \<open>SIGSTOP\<close> the event loop is to swallow was sent.\<close>

record ipc_config =
  thr :: thread
  space :: nat
  process :: nat
  wait_reason :: wait_reason
  wait_state :: wait_state
  chain_state :: chain_state
  status_after_wait :: int
  waiting_object_index :: nat
  msgrcv_msgp :: word_t
  msgrcv_msgsz :: word_t
  msgrcv_msgtyp :: int
  msgrcv_msgflg :: u32
  semop_sops :: "sembuf list option"
  shmat_guest_buf :: word_t
  shmat_socket_fd :: int
  shmat_mem_fd :: int
  stop_sent :: bool

text \<open>A configuration without a wait.\<close>

definition fresh_config :: "thread \<Rightarrow> nat \<Rightarrow> nat \<Rightarrow> ipc_config" where
  "fresh_config t n p =
     \<lparr>thr = t, space = n, process = p, wait_reason = WR_NOT_WAITING, wait_state = WSTATE_NOT_WAITING,
      chain_state = CSTATE_NOT_CHAINED, status_after_wait = 0, waiting_object_index = 0, msgrcv_msgp = 0,
      msgrcv_msgsz = 0, msgrcv_msgtyp = 0, msgrcv_msgflg = 0, semop_sops = None, shmat_guest_buf = 0,
      shmat_socket_fd = 0, shmat_mem_fd = 0, stop_sent = False\<rparr>"

text \<open>The tracees that have a configuration are kept in the order of the list of tracees; \<open>mem\<close> is indexed by
  the identifier of a tracee, \<open>clock\<close> is what \<open>time(2)\<close> returns, \<open>pgids\<close> the group of a process,
  \<open>helper_fds\<close> the descriptors of segments the helper process holds open.\<close>

record ipc =
  configs :: "ipc_config list"
  spaces :: "nat \<Rightarrow> ipc_space"
  mappings :: "shm_map list"
  pgids :: "nat \<Rightarrow> int"
  mem :: "int \<Rightarrow> memory"
  clock :: int
  helper_fds :: "int list"

definition arg :: "reg \<Rightarrow> ipc_config \<Rightarrow> word_t" where
  "arg r c = peek_reg CURRENT r (thr c)"

definition pid_of :: "ipc_config \<Rightarrow> int" where
  "pid_of c = th_pid (thr c)"

definition set_config :: "nat \<Rightarrow> ipc_config \<Rightarrow> ipc \<Rightarrow> ipc" where
  "set_config i c s = s\<lparr>configs := (configs s)[i := c]\<rparr>"

definition set_space :: "nat \<Rightarrow> ipc_space \<Rightarrow> ipc \<Rightarrow> ipc" where
  "set_space n x s = s\<lparr>spaces := (spaces s)(n := x)\<rparr>"

definition map_thread :: "(thread \<Rightarrow> thread) \<Rightarrow> ipc_config \<Rightarrow> ipc_config" where
  "map_thread f c = c\<lparr>thr := f (thr c)\<rparr>"

text \<open>Reading and writing the memory of a tracee, with the status of the sources.\<close>

definition read_mem :: "ipc_config \<Rightarrow> word_t \<Rightarrow> nat \<Rightarrow> ipc \<Rightarrow> byte list res" where
  "read_mem c a n s = read_data (mem s (pid_of c)) a n"

definition write_mem :: "ipc_config \<Rightarrow> word_t \<Rightarrow> byte list \<Rightarrow> ipc \<Rightarrow> int \<times> ipc" where
  "write_mem c a bs s =
     (case write_data (mem s (pid_of c)) a bs of
        (e, m) \<Rightarrow> ((case e of None \<Rightarrow> 0 | Some e \<Rightarrow> err e), s\<lparr>mem := (mem s)(pid_of c := m)\<rparr>))"

section \<open>Waking a tracee\<close>

text \<open>The assertion on \<open>wait_reason\<close> is checked by every caller.\<close>

definition wake_tracee :: "int \<Rightarrow> ipc_config \<Rightarrow> ipc_config" where
  "wake_tracee st c =
     (let c = c\<lparr>wait_reason := WR_NOT_WAITING, status_after_wait := st\<rparr>
      in if wait_state c = WSTATE_ENTERED_PPOLL then c\<lparr>wait_state := WSTATE_SIGNALED_PPOLL, stop_sent := True\<rparr>
         else if wait_state c = WSTATE_RESTARTED_INTO_PPOLL then c\<lparr>wait_state := WSTATE_RESTARTED_INTO_PPOLL_CANCELED\<rparr>
         else c)"

definition waits_for :: "wait_reason \<Rightarrow> nat \<Rightarrow> nat \<Rightarrow> ipc_config \<Rightarrow> bool" where
  "waits_for r n k c \<longleftrightarrow> space c = n \<and> wait_reason c = r \<and> waiting_object_index c = k"

text \<open>\<open>IPC_RMID\<close> wakes all that wait for the object.\<close>

definition wake_all_removed :: "wait_reason \<Rightarrow> nat \<Rightarrow> nat \<Rightarrow> ipc_config list \<Rightarrow> ipc_config list" where
  "wake_all_removed r n k = map (\<lambda>c. if waits_for r n k c then wake_tracee (err EIDRM) c else c)"

end
