(* ===== verification/Ipc_Sem.thy ===== *)
theory Ipc_Sem
  imports Ipc
begin

text \<open>Semaphores (\<^verbatim>\<open>src/extension/sysvipc/sysvipc_sem.c\<close>). Allocations do not fail.\<close>

definition SYSVIPC_MAX_SEMS :: nat where "SYSVIPC_MAX_SEMS = 512"
definition SYSVIPC_MAX_NSEMS :: nat where "SYSVIPC_MAX_NSEMS = 512"
definition SYSVIPC_MAX_NSOPS :: nat where "SYSVIPC_MAX_NSOPS = 512"
definition SYSVIPC_MAX_SEMVAL :: nat where "SYSVIPC_MAX_SEMVAL = 0x7000"

text \<open>The loop of \<open>sem_check\<close> over the operations, on a copy of the values: a status, 1 for "has to wait", and the copy.\<close>

fun try_sops :: "int \<Rightarrow> sembuf list \<Rightarrow> 16 word list \<Rightarrow> int \<times> 16 word list" where
  "try_sops n [] vals = (0, vals)"
| "try_sops n (sop # sops) vals =
     (if int (sem_num sop) \<ge> n then (err EFBIG, vals)
      else let v = vals ! sem_num sop in
        if sem_op sop = 0 then
          (if v \<noteq> 0 then (if flag_set (sem_flg sop) IPC_NOWAIT then (err EAGAIN, vals) else (1, vals))
           else try_sops n sops vals)
        else let new_val = int (unat v) + sem_op sop in
          if new_val < 0 then (if flag_set (sem_flg sop) IPC_NOWAIT then (err EAGAIN, vals) else (1, vals))
          else if new_val > int SYSVIPC_MAX_SEMVAL then (err ERANGE, vals)
          else try_sops n sops (vals[sem_num sop := word_of_int new_val]))"

text \<open>The values are copied back only when every operation went through.\<close>

definition sem_check :: "int \<Rightarrow> sembuf list \<Rightarrow> 16 word list \<Rightarrow> int \<times> 16 word list" where
  "sem_check n sops vals =
     (if n > int SYSVIPC_MAX_NSEMS then (err EFBIG, vals)
      else case try_sops n sops vals of (st, new_vals) \<Rightarrow> (st, if st = 0 then new_vals else vals))"

definition new_sem_set :: "word_t \<Rightarrow> int \<Rightarrow> sem_set" where
  "new_sem_set key n =
     \<lparr>s_key = ucast key, s_generation = 0, s_valid = True, sems = Some (replicate (nat n) 0), nsems = n\<rparr>"

definition sysvipc_semget :: "nat \<Rightarrow> ipc \<Rightarrow> int \<times> ipc" where
  "sysvipc_semget i s =
     (let c = configs s ! i; x = spaces s (space c); key = arg SYSARG_1 c;
          n = int_arg (arg SYSARG_2 c); flg = ucast (ucast (arg SYSARG_3 c) :: u32) in
      if n \<le> 0 \<or> n > int SYSVIPC_MAX_NSEMS then (err EINVAL, s)
      else (case find_slot s_valid (\<lambda>o'. key_matches key (s_key o')) (semaphores x) 0 None of
        Existing k \<Rightarrow>
          (if flag_set flg IPC_CREAT \<and> flag_set flg IPC_EXCL then (err EEXIST, s)
           else if nsems (semaphores x ! k) < n then (err EINVAL, s)
           else (object_id k (s_generation (semaphores x ! k)), s))
      | Unused k \<Rightarrow>
          (if \<not> flag_set flg IPC_CREAT then (err ENOENT, s)
           else (object_id k 0, set_space (space c) (x\<lparr>semaphores := (semaphores x)[k := new_sem_set key n]\<rparr>) s))
      | Grow \<Rightarrow>
          (if \<not> flag_set flg IPC_CREAT then (err ENOENT, s)
           else if length (semaphores x) \<ge> SYSVIPC_MAX_SEMS then (err ENOSPC, s)
           else (object_id (length (semaphores x)) 0,
                 set_space (space c) (x\<lparr>semaphores := semaphores x @ [new_sem_set key n]\<rparr>) s))))"

text \<open>A \<open>struct SysVIpcSembuf\<close> has three 16-bit members.\<close>

fun decode_sops :: "byte list \<Rightarrow> sembuf list" where
  "decode_sops (a # b # c # d # e # f # l) =
     \<lparr>sem_num = le_value [a, b], sem_op = sint (of_nat (le_value [c, d]) :: 16 word),
      sem_flg = word_of_int (sint (of_nat (le_value [e, f]) :: 16 word))\<rparr> # decode_sops l"
| "decode_sops _ = []"

text \<open>The pass over the other tracees: one after the other, once, each on the values its predecessors left.\<close>

fun wake_semop_waiters :: "nat \<Rightarrow> nat \<Rightarrow> nat \<Rightarrow> int \<Rightarrow> nat \<Rightarrow> ipc_config list \<Rightarrow> 16 word list \<Rightarrow> ipc_config list \<times> 16 word list" where
  "wake_semop_waiters self n k ns i [] vals = ([], vals)"
| "wake_semop_waiters self n k ns i (c # cs) vals =
     (if i \<noteq> self \<and> waits_for WR_WAIT_SEMOP n k c then
        (case sem_check ns (case semop_sops c of None \<Rightarrow> [] | Some l \<Rightarrow> l) vals of
           (st, vals) \<Rightarrow>
             let c = (if st \<noteq> 1 then wake_tracee st (c\<lparr>semop_sops := None\<rparr>) else c);
                 (cs, vals) = wake_semop_waiters self n k ns (Suc i) cs vals
             in (c # cs, vals))
      else let (cs, vals) = wake_semop_waiters self n k ns (Suc i) cs vals in (c # cs, vals))"

definition set_sems :: "nat \<Rightarrow> nat \<Rightarrow> 16 word list option \<Rightarrow> ipc \<Rightarrow> ipc" where
  "set_sems n k v s =
     (let x = spaces s n
      in set_space n (x\<lparr>semaphores := (semaphores x)[k := (semaphores x ! k)\<lparr>sems := v\<rparr>]\<rparr>) s)"

definition semop_on :: "nat \<Rightarrow> nat \<Rightarrow> sembuf list \<Rightarrow> ipc \<Rightarrow> int \<times> ipc" where
  "semop_on i k sops s =
     (let c = (configs s ! i)\<lparr>wait_reason := WR_WAIT_SEMOP, waiting_object_index := k, semop_sops := Some sops\<rparr>;
          o' = semaphores (spaces s (space c)) ! k;
          (st, vals) = sem_check (nsems o') sops (case sems o' of None \<Rightarrow> [] | Some v \<Rightarrow> v);
          (cs, vals) = wake_semop_waiters i (space c) k (nsems o') 0 ((configs s)[i := c]) vals;
          s = set_sems (space c) k (Some vals) (s\<lparr>configs := cs\<rparr>)
      in if st = 1 then (0, s)
         else (st, set_config i (c\<lparr>semop_sops := None, wait_reason := WR_NOT_WAITING\<rparr>) s))"

definition sysvipc_semop :: "nat \<Rightarrow> ipc \<Rightarrow> int \<times> ipc" where
  "sysvipc_semop i s =
     (let c = configs s ! i; x = spaces s (space c) in
      case lookup_object s_valid s_generation (semaphores x) (arg SYSARG_1 c) of
        None \<Rightarrow> (err EINVAL, s)
      | Some k \<Rightarrow>
         (let n = unat (arg SYSARG_3 c) in
          if n = 0 \<or> n > SYSVIPC_MAX_NSOPS then (err EINVAL, s)
          else (case read_mem c (arg SYSARG_2 c) (6 * n) s of
              Inl e \<Rightarrow> (err e, s)
            | Inr bs \<Rightarrow>
               (if \<exists>sop \<in> set (decode_sops bs). int (sem_num sop) \<ge> nsems (semaphores x ! k) then (err EFBIG, s)
                else semop_on i k (decode_sops bs) s))))"

definition sysvipc_semop_timedout :: "nat \<Rightarrow> ipc \<Rightarrow> ipc" where
  "sysvipc_semop_timedout i s =
     set_config i ((configs s ! i)\<lparr>semop_sops := None, wait_reason := WR_NOT_WAITING\<rparr>) s"

text \<open>A \<open>struct SysVIpcSeminfo\<close> is ten numbers of 32 bits.\<close>

definition seminfo_bytes :: "bool \<Rightarrow> ipc_space \<Rightarrow> byte list" where
  "seminfo_bytes full x =
     concat (map (le_bytes 4)
       [0, SYSVIPC_MAX_SEMS, SYSVIPC_MAX_SEMS * SYSVIPC_MAX_NSEMS, 0, SYSVIPC_MAX_NSEMS, SYSVIPC_MAX_NSOPS, 0,
        if full then length (semaphores x) else 0, SYSVIPC_MAX_SEMVAL,
        if full then sum_list (map (\<lambda>o'. nat (nsems o')) (filter s_valid (semaphores x))) else 0])"

definition remove_sem_set :: "nat \<Rightarrow> nat \<Rightarrow> ipc \<Rightarrow> ipc" where
  "remove_sem_set n k s =
     (let s = s\<lparr>configs := wake_all_removed WR_WAIT_SEMOP n k (configs s)\<rparr>;
          x = spaces s n; o' = semaphores x ! k
      in set_space n (x\<lparr>semaphores := (semaphores x)[k :=
           o'\<lparr>s_valid := False, s_generation := s_generation o' + 1, sems := None\<rparr>]\<rparr>) s)"

definition sysvipc_semctl :: "nat \<Rightarrow> ipc \<Rightarrow> int \<times> ipc" where
  "sysvipc_semctl i s =
     (let c = configs s ! i; x = spaces s (space c) in
      case lookup_object s_valid s_generation (semaphores x) (arg SYSARG_1 c) of
        None \<Rightarrow> (err EINVAL, s)
      | Some k \<Rightarrow>
         (let o' = semaphores x ! k; vals = (case sems o' of None \<Rightarrow> [] | Some v \<Rightarrow> v);
              num = int_arg (arg SYSARG_2 c); cmd = ipc_command (arg SYSARG_3 c); a = arg SYSARG_4 c;
              bad = (num < 0 \<or> num \<ge> nsems o') in
          if cmd = 12 then
            (if bad then (err EINVAL, s) else (int (unat (vals ! nat num)), s))
          else if cmd = 16 then
            (if bad then (err EINVAL, s)
             else if unat a > SYSVIPC_MAX_SEMVAL then (err ERANGE, s)
             else (0, set_sems (space c) k (Some (vals[nat num := ucast a])) s))
          else if cmd = 13 then write_mem c a (concat (map (\<lambda>v. le_bytes 2 (unat v)) vals)) s
          else if cmd = 0 then (0, remove_sem_set (space c) k s)
          else if cmd = 3 \<or> cmd = 19 then write_mem c a (seminfo_bytes (cmd = 19) x) s
          else (err EINVAL, s)))"

end
