(* ===== verification/Ipc_Msg.thy ===== *)
theory Ipc_Msg
  imports Ipc
begin

text \<open>
  Message queues (\<^verbatim>\<open>src/extension/sysvipc/sysvipc_msg.c\<close>). Allocations do not fail. The layout of
  \<open>struct msqid_ds\<close> belongs to the C library and is a parameter (\<open>layout\<close>).
\<close>

definition SYSVIPC_MAX_MSG_SIZE :: nat where "SYSVIPC_MAX_MSG_SIZE = 0xFFFF"
definition SYSVIPC_DEFAULT_QBYTES :: word_t where "SYSVIPC_DEFAULT_QBYTES = 65536"
definition MSG_NOERROR :: u32 where "MSG_NOERROR = 0x1000"
definition MSG_EXCEPT :: u32 where "MSG_EXCEPT = 0x2000"
definition MSG_COPY :: u32 where "MSG_COPY = 0x4000"

text \<open>The type of a message is a \<open>long\<close>; \<open>msg_match\<close> takes it as an \<open>int\<close>.\<close>

definition as_int :: "int \<Rightarrow> int" where
  "as_int v = sint (word_of_int v :: u32)"

definition msg_match :: "int \<Rightarrow> int \<Rightarrow> u32 \<Rightarrow> bool" where
  "msg_match sender_type receiver_filter receiver_flag =
     (let matched = (receiver_filter = 0 \<or> sender_type = receiver_filter \<or>
            (receiver_filter < 0 \<and> sender_type \<le> as_int (- receiver_filter)))
      in if flag_set receiver_flag MSG_EXCEPT then \<not> matched else matched)"

definition set_queue :: "nat \<Rightarrow> nat \<Rightarrow> msg_queue \<Rightarrow> ipc \<Rightarrow> ipc" where
  "set_queue n k q s = (let x = spaces s n in set_space n (x\<lparr>queues := (queues x)[k := q]\<rparr>) s)"

definition queue_at :: "ipc \<Rightarrow> nat \<Rightarrow> nat \<Rightarrow> msg_queue" where
  "queue_at s n k = queues (spaces s n) ! k"

text \<open>\<open>msg_deliver\<close>: the status, and the queue with the statistics of the delivery.\<close>

definition msg_deliver :: "ipc_config \<Rightarrow> msg_queue \<Rightarrow> msg_item \<Rightarrow> ipc \<Rightarrow> int \<times> msg_queue \<times> ipc" where
  "msg_deliver c q m s =
     (let recv_len = unat (msgrcv_msgsz c); len = length (mtext m) in
      if len > recv_len \<and> \<not> flag_set (msgrcv_msgflg c) MSG_NOERROR then (err E2BIG, q, s)
      else
        let len = (if len > recv_len then recv_len else len);
            (st, s) = write_mem c (msgrcv_msgp c) (le_bytes 8 (nat (mtype m mod 2 ^ 64))) s
        in if st < 0 then (st, q, s)
           else let (st, s) = write_mem c (msgrcv_msgp c + 8) (take len (mtext m)) s
             in if st < 0 then (st, q, s)
                else (int len, q\<lparr>stats := (stats q)\<lparr>msg_lrpid := pid_of c, msg_rtime := clock s\<rparr>\<rparr>, s))"

text \<open>The index of the message that is received.\<close>

fun first_match :: "(msg_item \<Rightarrow> bool) \<Rightarrow> msg_item list \<Rightarrow> nat option" where
  "first_match f [] = None"
| "first_match f (m # ms) = (if f m then Some 0 else map_option Suc (first_match f ms))"

definition select_message :: "ipc_config \<Rightarrow> msg_item list \<Rightarrow> nat option" where
  "select_message c ms =
     (if flag_set (msgrcv_msgflg c) MSG_COPY then
        (if 0 \<le> msgrcv_msgtyp c \<and> msgrcv_msgtyp c < int (length ms) then Some (nat (msgrcv_msgtyp c)) else None)
      else first_match (\<lambda>m. msg_match (as_int (mtype m)) (msgrcv_msgtyp c) (msgrcv_msgflg c)) ms)"

definition remove_nth :: "nat \<Rightarrow> 'a list \<Rightarrow> 'a list" where
  "remove_nth j xs = take j xs @ drop (Suc j) xs"

definition take_message :: "nat \<Rightarrow> msg_queue \<Rightarrow> msg_queue" where
  "take_message j q =
     q\<lparr>stats := (stats q)\<lparr>msg_qnum := msg_qnum (stats q) - 1,
                            msg_cbytes := msg_cbytes (stats q) - of_nat (length (mtext (items q ! j)))\<rparr>,
       items := remove_nth j (items q)\<rparr>"

text \<open>The test of a negative size is made on an unsigned number and never holds.\<close>

definition do_msgrcv :: "nat \<Rightarrow> nat \<Rightarrow> ipc \<Rightarrow> int \<times> ipc" where
  "do_msgrcv i k s =
     (let c = configs s ! i; q = queue_at s (space c) k; flg = msgrcv_msgflg c in
      if flag_set flg (NOT (IPC_NOWAIT OR MSG_NOERROR OR MSG_COPY OR MSG_EXCEPT)) then (err EINVAL, s)
      else if flag_set flg MSG_COPY \<and> (\<not> flag_set flg IPC_NOWAIT \<or> flag_set flg MSG_EXCEPT) then (err EINVAL, s)
      else (case select_message c (items q) of
        None \<Rightarrow>
          (if flag_set flg IPC_NOWAIT then (err ENOMSG, s)
           else (0, set_config i (c\<lparr>wait_reason := WR_WAIT_QUEUE_RECV, waiting_object_index := k\<rparr>) s))
      | Some j \<Rightarrow>
          (case msg_deliver c q (items q ! j) s of
             (st, q, s) \<Rightarrow>
               (st, set_queue (space c) k (if st \<ge> 0 \<and> \<not> flag_set flg MSG_COPY then take_message j q else q) s))))"

definition new_queue :: "word_t \<Rightarrow> msg_queue" where
  "new_queue key =
     \<lparr>q_key = ucast key, q_generation = 0, q_valid = True, items = [],
      stats = \<lparr>msg_qnum = 0, msg_cbytes = 0, msg_qbytes = SYSVIPC_DEFAULT_QBYTES, msg_lspid = 0, msg_lrpid = 0,
                msg_stime = 0, msg_rtime = 0\<rparr>\<rparr>"

definition sysvipc_msgget :: "nat \<Rightarrow> ipc \<Rightarrow> int \<times> ipc" where
  "sysvipc_msgget i s =
     (let c = configs s ! i; x = spaces s (space c); key = arg SYSARG_1 c; flg = arg SYSARG_2 c in
      case find_slot q_valid (\<lambda>q. key_matches key (q_key q)) (queues x) 0 None of
        Existing k \<Rightarrow>
          (if flag_set flg IPC_CREAT \<and> flag_set flg IPC_EXCL then (err EEXIST, s)
           else (object_id k (q_generation (queues x ! k)), s))
      | Unused k \<Rightarrow>
          (if \<not> flag_set flg IPC_CREAT then (err ENOENT, s)
           else (object_id k 0, set_space (space c) (x\<lparr>queues := (queues x)[k := new_queue key]\<rparr>) s))
      | Grow \<Rightarrow>
          (if \<not> flag_set flg IPC_CREAT then (err ENOENT, s)
           else (object_id (length (queues x)) 0, set_space (space c) (x\<lparr>queues := queues x @ [new_queue key]\<rparr>) s)))"

text \<open>The first tracee that waits for a message of this type is told to try again; the message itself is queued.\<close>

fun wake_receiver :: "nat \<Rightarrow> nat \<Rightarrow> int \<Rightarrow> ipc_config list \<Rightarrow> ipc_config list" where
  "wake_receiver n k ty [] = []"
| "wake_receiver n k ty (c # cs) =
     (if waits_for WR_WAIT_QUEUE_RECV n k c \<and> msg_match (as_int ty) (msgrcv_msgtyp c) (msgrcv_msgflg c)
      then wake_tracee (err EAGAIN) (c\<lparr>chain_state := CSTATE_MSGRCV_RETRY\<rparr>) # cs
      else c # wake_receiver n k ty cs)"

definition put_message :: "msg_item \<Rightarrow> msg_queue \<Rightarrow> msg_queue" where
  "put_message m q =
     q\<lparr>items := items q @ [m],
       stats := (stats q)\<lparr>msg_qnum := msg_qnum (stats q) + 1,
                            msg_cbytes := msg_cbytes (stats q) + of_nat (length (mtext m))\<rparr>\<rparr>"

definition send_message :: "nat \<Rightarrow> nat \<Rightarrow> msg_item \<Rightarrow> ipc \<Rightarrow> ipc" where
  "send_message i k m s =
     (let c = configs s ! i; q = queue_at s (space c) k;
          q = q\<lparr>stats := (stats q)\<lparr>msg_lspid := pid_of c, msg_stime := clock s\<rparr>\<rparr>;
          s = s\<lparr>configs := wake_receiver (space c) k (mtype m) (configs s)\<rparr>
      in set_queue (space c) k (put_message m q) s)"

definition sysvipc_msgsnd :: "nat \<Rightarrow> ipc \<Rightarrow> int \<times> ipc" where
  "sysvipc_msgsnd i s =
     (let c = configs s ! i in
      case lookup_object q_valid q_generation (queues (spaces s (space c))) (arg SYSARG_1 c) of
        None \<Rightarrow> (err EINVAL, s)
      | Some k \<Rightarrow>
         (let len = unat (arg SYSARG_3 c); p = arg SYSARG_2 c in
          if len = 0 \<or> len > SYSVIPC_MAX_MSG_SIZE then (err EINVAL, s)
          else (case read_mem c p 8 s of
              Inl e \<Rightarrow> (err e, s)
            | Inr ty \<Rightarrow>
               (let ty = sint (of_nat (le_value ty) :: word_t) in
                if ty < 1 then (err EINVAL, s)
                else (case read_mem c (p + 8) len s of
                    Inl e \<Rightarrow> (err e, s)
                  | Inr bs \<Rightarrow> (0, send_message i k \<lparr>mtype = ty, mtext = bs\<rparr> s))))))"

definition sysvipc_msgrcv :: "nat \<Rightarrow> ipc \<Rightarrow> int \<times> ipc" where
  "sysvipc_msgrcv i s =
     (let c = configs s ! i in
      case lookup_object q_valid q_generation (queues (spaces s (space c))) (arg SYSARG_1 c) of
        None \<Rightarrow> (err EINVAL, s)
      | Some k \<Rightarrow>
         do_msgrcv i k (set_config i
           (c\<lparr>msgrcv_msgp := arg SYSARG_2 c, msgrcv_msgsz := word_of_int (int_arg (arg SYSARG_3 c)),
              msgrcv_msgtyp := int_arg (arg SYSARG_4 c), msgrcv_msgflg := ucast (arg SYSARG_5 c)\<rparr>) s))"

text \<open>The three assertions stop the tracer.\<close>

definition sysvipc_msgrcv_retry :: "nat \<Rightarrow> ipc \<Rightarrow> (int \<times> ipc) res" where
  "sysvipc_msgrcv_retry i s =
     (let c = configs s ! i; k = waiting_object_index c; qs = queues (spaces s (space c)) in
      if chain_state c \<noteq> CSTATE_MSGRCV_RETRY then Inl Crash
      else if status_after_wait c \<noteq> err EAGAIN then
        Inr (status_after_wait c, set_config i (c\<lparr>chain_state := CSTATE_NOT_CHAINED\<rparr>) s)
      else if k \<ge> length qs \<or> \<not> q_valid (qs ! k) then Inl Crash
      else
        let (st, s) = do_msgrcv i k s; c = configs s ! i;
            (st, c) = (if wait_reason c \<noteq> WR_NOT_WAITING then (err EINTR, c\<lparr>wait_reason := WR_NOT_WAITING\<rparr>) else (st, c))
        in Inr (st, set_config i (c\<lparr>chain_state := CSTATE_NOT_CHAINED\<rparr>) s))"

definition remove_queue :: "nat \<Rightarrow> nat \<Rightarrow> ipc \<Rightarrow> ipc" where
  "remove_queue n k s =
     (let s = s\<lparr>configs := wake_all_removed WR_WAIT_QUEUE_RECV n k (configs s)\<rparr>; q = queue_at s n k
      in set_queue n k (q\<lparr>q_valid := False, q_generation := q_generation q + 1, items := []\<rparr>) s)"

definition sysvipc_msgctl :: "(msg_stats \<Rightarrow> byte list) \<Rightarrow> nat \<Rightarrow> ipc \<Rightarrow> int \<times> ipc" where
  "sysvipc_msgctl layout i s =
     (let c = configs s ! i in
      case lookup_object q_valid q_generation (queues (spaces s (space c))) (arg SYSARG_1 c) of
        None \<Rightarrow> (err EINVAL, s)
      | Some k \<Rightarrow>
         (let cmd = ipc_command (arg SYSARG_2 c) in
          if cmd = 0 then (0, remove_queue (space c) k s)
          else if cmd = 2 then write_mem c (arg SYSARG_3 c) (layout (stats (queue_at s (space c) k))) s
          else (err EINVAL, s)))"

end
