(* ===== verification/Ipc_Shm.thy ===== *)
theory Ipc_Shm
  imports Ipc
begin

text \<open>
  Shared memory (\<^verbatim>\<open>src/extension/sysvipc/sysvipc_shm.c\<close>). The helper process, which owns the descriptors
  of the segments, is seen through its answers: the descriptor it allocates and whether a request
  reaches it. A place that is declared unreachable and an assertion that fails are \<open>Inl Crash\<close>.
\<close>

definition SYSVIPC_MAX_SHM_SIZE :: nat where "SYSVIPC_MAX_SHM_SIZE = 100 * 4096"

text \<open>What is not under the control of the emulation: the answer to an allocation, whether requests arrive,
  the address of the helper's socket, the size of a page, and the upper half of a variable of which
  only the lower half is set.\<close>

record shm_env =
  alloc_fd :: int
  helper_reached :: bool
  helper_addr :: "byte list"
  page_size :: word_t
  junk_half :: u32

definition sockaddr_un_size :: nat where "sockaddr_un_size = 110"

section \<open>The message that carries the descriptor\<close>

definition recvmsg_block :: "word_t \<Rightarrow> byte list" where
  "recvmsg_block g =
     replicate 50 0 @ le_bytes 8 (unat (g + 90)) @ le_bytes 8 1 @ le_bytes 8 (unat g) @ le_bytes 8 20 @
     replicate 8 0 @ le_bytes 8 (unat (g + 106)) @ le_bytes 8 1 @ replicate 4 0"

text \<open>The address of the message header; the control data is at the start of the buffer.\<close>

definition msghdr_ptr :: "word_t \<Rightarrow> word_t" where "msghdr_ptr g = g + 34"

definition sysvipc_shm_recvmsg_pointers :: "ipc_config \<Rightarrow> word_t \<Rightarrow> bool \<Rightarrow> ipc \<Rightarrow> int \<times> ipc" where
  "sysvipc_shm_recvmsg_pointers c g do_write s =
     (if do_write then write_mem c g (recvmsg_block g) s else (0, s))"

section \<open>Segments and mappings\<close>

definition seg_maps :: "ipc \<Rightarrow> nat \<Rightarrow> nat \<Rightarrow> shm_map list" where
  "seg_maps s n k = filter (\<lambda>m. map_space m = n \<and> shm_index m = k) (mappings s)"

definition set_seg :: "nat \<Rightarrow> nat \<Rightarrow> shm_seg \<Rightarrow> ipc \<Rightarrow> ipc" where
  "set_seg n k g s = (let x = spaces s n in set_space n (x\<lparr>shms := (shms x)[k := g]\<rparr>) s)"

definition seg_at :: "ipc \<Rightarrow> nat \<Rightarrow> nat \<Rightarrow> shm_seg" where
  "seg_at s n k = shms (spaces s n) ! k"

definition sysvipc_do_rmid :: "nat \<Rightarrow> nat \<Rightarrow> ipc \<Rightarrow> ipc" where
  "sysvipc_do_rmid n k s =
     (let g = seg_at s n k
      in set_seg n k (g\<lparr>m_valid := False, rmid_pending := False, m_generation := m_generation g + 1, m_fd := -1\<rparr>)
           (s\<lparr>helper_fds := removeAll (m_fd g) (helper_fds s)\<rparr>))"

text \<open>The destructor of a mapping; the mapping has been unlinked before.\<close>

definition segment_released :: "nat \<Rightarrow> nat \<Rightarrow> ipc \<Rightarrow> ipc" where
  "segment_released n k s =
     (if rmid_pending (seg_at s n k) \<and> seg_maps s n k = [] then sysvipc_do_rmid n k s else s)"

definition free_map :: "nat \<Rightarrow> ipc \<Rightarrow> ipc" where
  "free_map j s =
     (let m = mappings s ! j
      in segment_released (map_space m) (shm_index m) (s\<lparr>mappings := take j (mappings s) @ drop (Suc j) (mappings s)\<rparr>))"

fun find_map :: "(shm_map \<Rightarrow> bool) \<Rightarrow> shm_map list \<Rightarrow> nat option" where
  "find_map f [] = None"
| "find_map f (m # ms) = (if f m then Some 0 else map_option Suc (find_map f ms))"

definition new_seg :: "word_t \<Rightarrow> word_t \<Rightarrow> word_t \<Rightarrow> int \<Rightarrow> int \<Rightarrow> shm_seg" where
  "new_seg key sz flg fd pg =
     \<lparr>m_key = ucast key, m_generation = 0, m_valid = True, rmid_pending = False, m_fd = fd, m_mode = flg AND 0x1FF,
      m_segsz = sz, m_cpid = pg, m_nattch = 0\<rparr>"

text \<open>A slot that was cleared before the helper refused to allocate.\<close>

definition failed_seg :: "int \<Rightarrow> shm_seg" where
  "failed_seg fd =
     \<lparr>m_key = 0, m_generation = 0, m_valid = False, rmid_pending = False, m_fd = fd, m_mode = 0,
      m_segsz = 0, m_cpid = 0, m_nattch = 0\<rparr>"

definition sysvipc_shmget :: "shm_env \<Rightarrow> nat \<Rightarrow> ipc \<Rightarrow> int \<times> ipc" where
  "sysvipc_shmget e i s =
     (let c = configs s ! i; x = spaces s (space c); key = arg SYSARG_1 c; sz = arg SYSARG_2 c; flg = arg SYSARG_3 c;
          fd = (if helper_reached e then alloc_fd e else -1); g = new_seg key sz flg fd (pgids s (process c)) in
      case find_slot m_valid (\<lambda>g. key_matches key (m_key g)) (shms x) 0 None of
        Existing k \<Rightarrow>
          (if flag_set flg IPC_CREAT \<and> flag_set flg IPC_EXCL then (err EEXIST, s)
           else if sz \<noteq> 0 \<and> sz \<noteq> m_segsz (shms x ! k) then (err EINVAL, s)
           else (object_id k (m_generation (shms x ! k)), s))
      | slot \<Rightarrow>
          (if \<not> flag_set flg IPC_CREAT then (err ENOENT, s)
           else if unat sz > SYSVIPC_MAX_SHM_SIZE then (err EINVAL, s)
           else
             let k = (case slot of Unused k \<Rightarrow> k | _ \<Rightarrow> length (shms x));
                 put = (\<lambda>g. if k < length (shms x) then (shms x)[k := g] else shms x @ [g])
             in if fd < 0 then (err ENOSPC, set_space (space c) (x\<lparr>shms := put (failed_seg fd)\<rparr>) s)
                else (object_id k 0,
                      set_space (space c) (x\<lparr>shms := put g\<rparr>) (s\<lparr>helper_fds := fd # helper_fds s\<rparr>))))"

section \<open>Attaching\<close>

text \<open>The tracee waits while another one is past the creation of its socket.\<close>

definition helper_busy :: "ipc_config \<Rightarrow> bool" where
  "helper_busy c \<longleftrightarrow> chain_state c \<in> {CSTATE_SHMAT_CONNECT, CSTATE_SHMAT_RECVMSG, CSTATE_SHMAT_MMAP}"

definition sysvipc_shmat :: "nat \<Rightarrow> ipc \<Rightarrow> int \<times> ipc" where
  "sysvipc_shmat i s =
     (let c = configs s ! i; n = space c in
      case lookup_object m_valid m_generation (shms (spaces s n)) (arg SYSARG_1 c) of
        None \<Rightarrow> (err EINVAL, s)
      | Some k \<Rightarrow>
         (let c = c\<lparr>waiting_object_index := k\<rparr>;
              m = \<lparr>map_owner = process c, map_addr = 0, map_size = 0, map_space = n, shm_index = k\<rparr>;
              s = (set_config i c s)\<lparr>mappings := m # mappings s\<rparr>
          in if \<exists>oc \<in> set (configs s). helper_busy oc
             then (0, set_config i (c\<lparr>wait_reason := WR_WAIT_SHMAT_HELPER_BUSY\<rparr>) s)
             else (0, set_config i (map_thread (poke_regs [(SYSARG_1, 1), (SYSARG_2, 5), (SYSARG_3, 0)] \<circ> set_sysnum ''socket'')
                        (c\<lparr>chain_state := CSTATE_SHMAT_SOCKET\<rparr>)) s)))"

text \<open>The first tracee that waits for the helper goes on with its socket.\<close>

fun wake_pending_shmat :: "ipc_config list \<Rightarrow> ipc_config list" where
  "wake_pending_shmat [] = []"
| "wake_pending_shmat (c # cs) =
     (if wait_reason c = WR_WAIT_SHMAT_HELPER_BUSY
      then (map_thread (register_chained_syscall ''socket'' [1, 5, 0, 0, 0, 0]) (wake_tracee 0 c))\<lparr>chain_state := CSTATE_SHMAT_SOCKET\<rparr> # cs
      else c # wake_pending_shmat cs)"

definition pending_map :: "ipc_config \<Rightarrow> shm_map \<Rightarrow> bool" where
  "pending_map c m \<longleftrightarrow> map_owner m = process c \<and> map_size m = 0 \<and> shm_index m = waiting_object_index c \<and> map_space m = space c"

text \<open>The end of a chain: the mapping that failed is dropped, or completed, and the next tracee is let in.\<close>

definition shmat_failed :: "nat \<Rightarrow> ipc \<Rightarrow> ipc res" where
  "shmat_failed i s =
     (case find_map (pending_map (configs s ! i)) (mappings s) of
        None \<Rightarrow> Inl Crash
      | Some j \<Rightarrow> (let s = free_map j s in Inr (s\<lparr>configs := wake_pending_shmat (configs s)\<rparr>)))"

definition fail_close_socket :: "nat \<Rightarrow> ipc \<Rightarrow> (int \<times> ipc) res" where
  "fail_close_socket i s =
     (let c = configs s ! i;
          c = (map_thread (force_chain_final_result (- 12) \<circ>
                 register_chained_syscall ''close'' [word_of_int (shmat_socket_fd c), 0, 0, 0, 0, 0]) c)
              \<lparr>chain_state := CSTATE_NOT_CHAINED\<rparr>
      in case shmat_failed i (set_config i c s) of Inl e \<Rightarrow> Inl e | Inr s \<Rightarrow> Inr (1, s))"

definition fail_dont_close :: "nat \<Rightarrow> ipc \<Rightarrow> (int \<times> ipc) res" where
  "fail_dont_close i s =
     (case shmat_failed i (set_config i ((configs s ! i)\<lparr>chain_state := CSTATE_NOT_CHAINED\<rparr>) s) of
        Inl e \<Rightarrow> Inl e | Inr s \<Rightarrow> Inr (err ENOMEM, s))"

definition chain_call :: "nat \<Rightarrow> sysnum \<Rightarrow> word_t list \<Rightarrow> chain_state \<Rightarrow> ipc_config \<Rightarrow> ipc \<Rightarrow> (int \<times> ipc) res" where
  "chain_call i num args st c s =
     Inr (1, set_config i ((map_thread (register_chained_syscall num args) c)\<lparr>chain_state := st\<rparr>) s)"

definition shmat_socket :: "shm_env \<Rightarrow> nat \<Rightarrow> ipc \<Rightarrow> (int \<times> ipc) res" where
  "shmat_socket e i s =
     (let c = configs s ! i; c = c\<lparr>shmat_socket_fd := int_arg (arg SYSARG_RESULT c)\<rparr>; s = set_config i c s;
          g = arg STACK_POINTER c - of_nat sockaddr_un_size in
      if shmat_socket_fd c < 0 \<or> g = 0 then fail_dont_close i s
      else (case write_mem c g (helper_addr e) s of (st, s) \<Rightarrow>
        if st < 0 then fail_dont_close i s
        else chain_call i ''connect'' [word_of_int (shmat_socket_fd c), g, of_nat sockaddr_un_size, 0, 0, 0]
               CSTATE_SHMAT_CONNECT (c\<lparr>shmat_guest_buf := g\<rparr>) s))"

definition shmat_connect :: "shm_env \<Rightarrow> nat \<Rightarrow> ipc \<Rightarrow> (int \<times> ipc) res" where
  "shmat_connect e i s =
     (let c = configs s ! i in
      if int_arg (arg SYSARG_RESULT c) \<noteq> 0 then fail_close_socket i s
      else (case sysvipc_shm_recvmsg_pointers c (shmat_guest_buf c) True s of (st, s) \<Rightarrow>
        if st < 0 then fail_close_socket i s
        else if \<not> helper_reached e then fail_close_socket i s
        else chain_call i ''recvmsg'' [word_of_int (shmat_socket_fd c), msghdr_ptr (shmat_guest_buf c), 0, 0, 0, 0]
               CSTATE_SHMAT_RECVMSG c s))"

definition page_round :: "word_t \<Rightarrow> word_t \<Rightarrow> word_t" where
  "page_round p x = (x + (p - 1)) AND NOT (p - 1)"

definition shmat_recvmsg :: "shm_env \<Rightarrow> nat \<Rightarrow> ipc \<Rightarrow> (int \<times> ipc) res" where
  "shmat_recvmsg e i s =
     (let c = configs s ! i; b = shmat_guest_buf c in
      case read_mem c b 16 s of Inl _ \<Rightarrow> fail_close_socket i s
      | Inr h \<Rightarrow>
         if le_value (take 4 (drop 8 h)) \<noteq> 1 \<or> le_value (drop 12 h) \<noteq> 1 then fail_close_socket i s
         else (case read_mem c (b + 16) 4 s of Inl _ \<Rightarrow> fail_close_socket i s
           | Inr f \<Rightarrow>
              (let fd = word_cat (junk_half e) (of_nat (le_value f) :: u32) :: word_t in
               if unat fd > 0xFFFF then fail_close_socket i s
               else
                 let n = space c; k = waiting_object_index c; c = c\<lparr>shmat_mem_fd := int_arg fd\<rparr>
                 in chain_call i mmap_sysnum
                      [0, page_round (page_size e) (m_segsz (seg_at s n k)), 3, 1, word_of_int (shmat_mem_fd c), 0]
                      CSTATE_SHMAT_MMAP c s)))"

definition shmat_mmap :: "nat \<Rightarrow> ipc \<Rightarrow> (int \<times> ipc) res" where
  "shmat_mmap i s =
     (let c = configs s ! i; addr = arg SYSARG_RESULT c in
      if addr = -1 then fail_close_socket i s
      else (case find_map (pending_map c) (mappings s) of None \<Rightarrow> Inl Crash
        | Some j \<Rightarrow>
           (let m = (mappings s ! j)\<lparr>map_addr := addr, map_size := arg SYSARG_2 c\<rparr>;
                c = (map_thread (force_chain_final_result addr \<circ>
                       register_chained_syscall ''close'' [word_of_int (shmat_socket_fd c), 0, 0, 0, 0, 0] \<circ>
                       register_chained_syscall ''close'' [word_of_int (shmat_mem_fd c), 0, 0, 0, 0, 0]) c)
                    \<lparr>chain_state := CSTATE_NOT_CHAINED\<rparr>;
                s = (set_config i c s)\<lparr>mappings := (mappings s)[j := m]\<rparr>
            in Inr (1, s\<lparr>configs := wake_pending_shmat (configs s)\<rparr>))))"

definition sysvipc_shmat_chain :: "shm_env \<Rightarrow> nat \<Rightarrow> ipc \<Rightarrow> (int \<times> ipc) res" where
  "sysvipc_shmat_chain e i s =
     (let c = configs s ! i in
      if \<not> m_valid (seg_at s (space c) (waiting_object_index c)) then Inl Crash
      else case chain_state c of
        CSTATE_SHMAT_SOCKET \<Rightarrow> shmat_socket e i s
      | CSTATE_SHMAT_CONNECT \<Rightarrow> shmat_connect e i s
      | CSTATE_SHMAT_RECVMSG \<Rightarrow> shmat_recvmsg e i s
      | CSTATE_SHMAT_MMAP \<Rightarrow> shmat_mmap i s
      | _ \<Rightarrow> Inl Crash)"

section \<open>Detaching, control, processes\<close>

definition sysvipc_shmdt :: "nat \<Rightarrow> ipc \<Rightarrow> int \<times> ipc" where
  "sysvipc_shmdt i s =
     (let c = configs s ! i in
      case find_map (\<lambda>m. map_owner m = process c \<and> map_addr m = arg SYSARG_1 c) (mappings s) of
        None \<Rightarrow> (err EINVAL, s)
      | Some j \<Rightarrow>
         (let c = (map_thread (poke_reg SYSARG_2 (map_size (mappings s ! j)) \<circ> set_sysnum ''munmap'') c)\<lparr>chain_state := CSTATE_SINGLE\<rparr>
          in (0, free_map j (set_config i c s))))"

definition sysvipc_shm_update_stats :: "nat \<Rightarrow> nat \<Rightarrow> ipc \<Rightarrow> ipc" where
  "sysvipc_shm_update_stats n k s =
     set_seg n k ((seg_at s n k)\<lparr>m_nattch := of_nat (length (seg_maps s n k))\<rparr>) s"

definition sysvipc_shmctl :: "(shm_seg \<Rightarrow> byte list) \<Rightarrow> nat \<Rightarrow> ipc \<Rightarrow> int \<times> ipc" where
  "sysvipc_shmctl layout i s =
     (let c = configs s ! i; n = space c in
      case lookup_object m_valid m_generation (shms (spaces s n)) (arg SYSARG_1 c) of
        None \<Rightarrow> (err EINVAL, s)
      | Some k \<Rightarrow>
         (let cmd = int_arg (arg SYSARG_2 c) in
          if cmd = 0 \<or> cmd = 0x100 then
            (0, if seg_maps s n k = [] then sysvipc_do_rmid n k s
                else set_seg n k ((seg_at s n k)\<lparr>rmid_pending := True\<rparr>) s)
          else if cmd = 2 then
            (let s = sysvipc_shm_update_stats n k s in write_mem c (arg SYSARG_3 c) (layout (seg_at s n k)) s)
          else (err EINVAL, s)))"

lemma find_map_less: "find_map f ms = Some j \<Longrightarrow> j < length ms"
  by (induction f ms arbitrary: j rule: find_map.induct) (auto split: if_split_asm)

lemma free_map_mappings:
  "mappings (free_map j s) = take j (mappings s) @ drop (Suc j) (mappings s)"
  by (simp add: free_map_def segment_released_def sysvipc_do_rmid_def set_seg_def set_space_def Let_def)

lemma free_map_shorter: "find_map f (mappings s) = Some j \<Longrightarrow> length (mappings (free_map j s)) < length (mappings s)"
  by (drule find_map_less) (simp add: free_map_mappings)

text \<open>The mappings of a new process are those of its parent, in the same order.\<close>

definition sysvipc_shm_inherit_process :: "nat \<Rightarrow> nat \<Rightarrow> ipc \<Rightarrow> ipc" where
  "sysvipc_shm_inherit_process parent child s =
     s\<lparr>mappings := map (\<lambda>m. m\<lparr>map_owner := child\<rparr>) (filter (\<lambda>m. map_owner m = parent) (mappings s)) @ mappings s\<rparr>"

function sysvipc_shm_remove_mappings_from_process :: "nat \<Rightarrow> ipc \<Rightarrow> ipc" where
  "sysvipc_shm_remove_mappings_from_process p s =
     (case find_map (\<lambda>m. map_owner m = p) (mappings s) of
        None \<Rightarrow> s
      | Some j \<Rightarrow> sysvipc_shm_remove_mappings_from_process p (free_map j s))"
  by pat_completeness auto
termination
  by (relation "measure (\<lambda>(p, s). length (mappings s))") (auto dest: free_map_shorter)

declare sysvipc_shm_remove_mappings_from_process.simps [simp del]

end
