(* ===== verification/Sigsys.thy ===== *)
theory Sigsys
  imports Thread Memory
begin

text \<open>
  System calls that a filter of the parent traps (\<^verbatim>\<open>src/tracee/seccomp.c\<close>): the tracer answers them,
  or replaces them by a call the filter lets pass and restarts the tracee on its trap instruction. The
  extensions, the emulation of mounts, \<open>statx\<close> and \<open>statfs\<close> are parameters.
\<close>

section \<open>Restarting and answering\<close>

definition restart_syscall_after_seccomp :: "ptracer \<Rightarrow> thread \<Rightarrow> thread" where
  "restart_syscall_after_seccomp k t =
     (let t = t\<lparr>restore_after_seccomp := True, restart_how := PTRACE_SYSCALL\<rparr>;
          t = poke_reg INSTR_POINTER (peek_reg CURRENT INSTR_POINTER t - SYSTRAP_SIZE) t
      in snd (push_specific_regs k False t))"

definition set_result_after_seccomp :: "ptracer \<Rightarrow> word_t \<Rightarrow> thread \<Rightarrow> thread" where
  "set_result_after_seccomp k r t = snd (push_specific_regs k False (poke_reg SYSARG_RESULT r t))"

section \<open>Lowering a call\<close>

definition AT_FDCWD :: word_t where "AT_FDCWD = -100"
definition AT_SYMLINK_NOFOLLOW :: word_t where "AT_SYMLINK_NOFOLLOW = 0x100"
definition AT_REMOVEDIR :: word_t where "AT_REMOVEDIR = 0x200"

text \<open>\<open>TRANSFORM_TO_AT_SYS\<close> is a macro: its arguments are expressions that are evaluated where they are used,
  the path after the first argument was overwritten.\<close>

definition TRANSFORM_TO_AT_SYS :: "sysnum \<Rightarrow> (thread \<Rightarrow> word_t) \<Rightarrow> (thread \<Rightarrow> word_t) \<Rightarrow> (thread \<Rightarrow> thread) \<Rightarrow> thread \<Rightarrow> thread" where
  "TRANSFORM_TO_AT_SYS new_sys fd path rest t =
     (let t = set_sysnum new_sys t; t = poke_reg SYSARG_1 (fd t) t; t = poke_reg SYSARG_2 (path t) t
      in rest t)"

definition cur :: "reg \<Rightarrow> thread \<Rightarrow> word_t" where
  "cur r t = peek_reg CURRENT r t"

text \<open>\<open>poke_reg(tracee, r, e)\<close> with an expression.\<close>

definition poke_expr :: "reg \<Rightarrow> (thread \<Rightarrow> word_t) \<Rightarrow> thread \<Rightarrow> thread" where
  "poke_expr r e t = poke_reg r (e t) t"

definition transform_simple_syscall :: "sysnum \<Rightarrow> word_t \<Rightarrow> word_t \<Rightarrow> word_t \<Rightarrow> thread \<Rightarrow> thread" where
  "transform_simple_syscall new_sys arg4 arg5 arg6 t =
     (let t = set_sysnum new_sys t;
          t = (if arg4 \<noteq> -1 then poke_reg SYSARG_4 arg4 t else t);
          t = (if arg5 \<noteq> -1 then poke_reg SYSARG_5 arg5 t else t)
      in if arg6 \<noteq> -1 then poke_reg SYSARG_6 arg6 t else t)"

text \<open>The calls that are only rewritten; \<open>None\<close> for the others.\<close>

definition lowered :: "sysnum \<Rightarrow> (thread \<Rightarrow> thread) option" where
  "lowered s =
     (let fd = (\<lambda>_. AT_FDCWD); path = cur SYSARG_1 in
      if s = ''open'' then Some (TRANSFORM_TO_AT_SYS ''openat'' fd path
          (poke_expr SYSARG_4 (cur SYSARG_3) \<circ> poke_expr SYSARG_3 (cur SYSARG_2)))
      else if s = ''symlink'' then Some (TRANSFORM_TO_AT_SYS ''symlinkat'' path fd
          (poke_expr SYSARG_3 (cur SYSARG_2)))
      else if s = ''link'' then Some (TRANSFORM_TO_AT_SYS ''linkat'' fd path
          (poke_reg SYSARG_5 0 \<circ> poke_expr SYSARG_4 (cur SYSARG_2) \<circ> poke_reg SYSARG_3 AT_FDCWD))
      else if s = ''chmod'' then Some (TRANSFORM_TO_AT_SYS ''fchmodat'' fd path
          (poke_reg SYSARG_4 0 \<circ> poke_expr SYSARG_3 (cur SYSARG_2)))
      else if s = ''chown'' \<or> s = ''lchown'' \<or> s = ''chown32'' \<or> s = ''lchown32'' then
        Some (TRANSFORM_TO_AT_SYS ''fchownat'' fd path
          (poke_reg SYSARG_5 (if s = ''lchown'' \<or> s = ''lchown32'' then AT_SYMLINK_NOFOLLOW else 0) \<circ>
           poke_expr SYSARG_4 (cur SYSARG_3) \<circ> poke_expr SYSARG_3 (cur SYSARG_2)))
      else if s = ''unlink'' \<or> s = ''rmdir'' then Some (TRANSFORM_TO_AT_SYS ''unlinkat'' fd path
          (poke_reg SYSARG_3 (if s = ''rmdir'' then AT_REMOVEDIR else 0)))
      else if s = ''stat'' \<or> s = ''lstat'' then Some (TRANSFORM_TO_AT_SYS ''newfstatat'' fd path
          (poke_reg SYSARG_4 (if s = ''lstat'' then AT_SYMLINK_NOFOLLOW else 0) \<circ> poke_expr SYSARG_3 (cur SYSARG_2)))
      else if s = ''access'' then Some (TRANSFORM_TO_AT_SYS ''faccessat'' fd path
          (poke_reg SYSARG_4 0 \<circ> poke_expr SYSARG_3 (cur SYSARG_2)))
      else if s = ''mkdir'' then Some (TRANSFORM_TO_AT_SYS ''mkdirat'' fd path
          (poke_expr SYSARG_3 (cur SYSARG_2)))
      else if s = ''rename'' then Some (TRANSFORM_TO_AT_SYS ''renameat'' fd path
          (poke_expr SYSARG_4 (cur SYSARG_2) \<circ> poke_reg SYSARG_3 AT_FDCWD))
      else if s = ''accept'' then Some (transform_simple_syscall ''accept4'' 0 (-1) (-1))
      else if s = ''faccessat2'' then Some (\<lambda>t. let flags = cur SYSARG_4 t
          in poke_reg SYSARG_4 (flags AND AT_SYMLINK_NOFOLLOW) (set_sysnum ''faccessat'' t))
      else if s = ''send'' then Some (transform_simple_syscall ''sendto'' (-1) 0 0)
      else if s = ''recv'' then Some (transform_simple_syscall ''recvfrom'' (-1) 0 0)
      else if s = ''waitpid'' then Some (transform_simple_syscall ''wait4'' 0 (-1) (-1))
      else if s = ''pipe'' then Some (transform_simple_syscall ''pipe2'' 0 (-1) (-1))
      else if s = ''dup2'' then Some (transform_simple_syscall ''dup3'' 0 (-1) (-1))
      else if s = ''epoll_wait'' then Some (transform_simple_syscall ''epoll_pwait'' (-1) 0 0)
      else None)"

section \<open>Arguments in memory\<close>

text \<open>The assertion of \<open>alloc_mem\<close>, that the tracee is at the entry of a call, holds in both callers below.\<close>

definition ARM64_RED_ZONE :: nat where "ARM64_RED_ZONE = 128"

definition alloc_mem :: "nat \<Rightarrow> thread \<Rightarrow> word_t \<times> thread" where
  "alloc_mem n t =
     (let sp = cur STACK_POINTER t;
          n = (if sp = peek_reg ORIGINAL STACK_POINTER t then n + ARM64_RED_ZONE else n)
      in if n > 0 \<and> unat sp \<le> n then (0, t)
         else (sp - of_nat n, poke_reg STACK_POINTER (sp - of_nat n) t))"

type_synonym tracee_mem = "thread \<times> memory"

definition set_sysarg_data :: "byte list \<Rightarrow> reg \<Rightarrow> tracee_mem \<Rightarrow> errno option \<times> tracee_mem" where
  "set_sysarg_data bs r tm =
     (let (t, m) = tm; (p, t) = alloc_mem (length bs) t in
      if p = 0 then (Some EFAULT, t, m)
      else (case write_data m p bs of
          (Some e, m) \<Rightarrow> (Some e, t, m)
        | (None, m) \<Rightarrow> (None, poke_reg r p t, m)))"

definition neg_errno :: "errno \<Rightarrow> word_t" where
  "neg_errno e = word_of_int (- errno_num e)"

text \<open>\<open>struct open_how\<close>: flags, mode, resolve.\<close>

definition lower_openat2_to_openat :: "tracee_mem \<Rightarrow> (errno + word_t) \<times> thread" where
  "lower_openat2_to_openat tm =
     (let (t, m) = tm; n = min (unat (cur SYSARG_4 t)) 24 in
      case read_data m (cur SYSARG_3 t) n of Inl e \<Rightarrow> (Inl e, t)
      | Inr bs \<Rightarrow>
         (let how = bs @ replicate (24 - n) 0;
              w = (\<lambda>i. of_nat (le_value (take 8 (drop i how))) :: word_t)
          in (Inr (w 16), poke_reg SYSARG_4 (w 8) (poke_reg SYSARG_3 (w 0) (set_sysnum ''openat'' t)))))"

section \<open>The handler\<close>

text \<open>What the handler asks of others. \<open>emulated\<close> are the calls on mounts with the status they return.\<close>

record sigsys_env =
  sigsys_ext :: "thread \<Rightarrow> int \<times> thread"
  emulated :: "sysnum \<Rightarrow> thread \<Rightarrow> int \<times> thread"
  process_group :: word_t
  handled_call :: "sysnum \<Rightarrow> tracee_mem \<Rightarrow> word_t \<times> tracee_mem"
  tracer_ids :: "sysnum \<Rightarrow> (u32 \<times> u32 \<times> u32) option"

definition timespec_bytes :: "nat \<Rightarrow> nat \<Rightarrow> byte list" where
  "timespec_bytes sec nsec = le_bytes 8 sec @ le_bytes 8 nsec"

text \<open>\<open>poll\<close> and \<open>select\<close>: the timeout is converted and put on the stack of the tracee.\<close>

definition with_timeout :: "ptracer \<Rightarrow> sysnum \<Rightarrow> byte list option \<Rightarrow> word_t \<Rightarrow> word_t \<Rightarrow> tracee_mem \<Rightarrow> tracee_mem" where
  "with_timeout k new_sys ts arg5 arg6 tm =
     (let (t, m) = tm in
      case ts of
        None \<Rightarrow> (restart_syscall_after_seccomp k (transform_simple_syscall new_sys 0 arg5 arg6 t), m)
      | Some bs \<Rightarrow>
         (let (p, t) = alloc_mem (length bs) t in
          case write_data m p bs of
            (Some e, m) \<Rightarrow> (set_result_after_seccomp k (neg_errno EFAULT) t, m)
          | (None, m) \<Rightarrow> (restart_syscall_after_seccomp k (transform_simple_syscall new_sys p arg5 arg6 t), m)))"

text \<open>\<open>utimes\<close> and \<open>utime\<close>: \<open>width\<close> bytes are read and converted; the new argument is then overwritten.\<close>

definition with_times :: "ptracer \<Rightarrow> nat \<Rightarrow> (byte list \<Rightarrow> byte list) \<Rightarrow> tracee_mem \<Rightarrow> tracee_mem" where
  "with_times k width convert tm =
     (let (t, m) = tm; path = cur SYSARG_1 t; tp = cur SYSARG_2 t;
          finish = (\<lambda>(t, m). (restart_syscall_after_seccomp k
             (TRANSFORM_TO_AT_SYS ''utimensat'' (\<lambda>_. AT_FDCWD) (\<lambda>_. path)
               (poke_reg SYSARG_4 0 \<circ> poke_reg SYSARG_3 tp) t), m))
      in if tp = 0 then finish (t, m)
         else (case read_data m tp width of
             Inl _ \<Rightarrow> (set_result_after_seccomp k (neg_errno EFAULT) t, m)
           | Inr bs \<Rightarrow>
              (case set_sysarg_data (convert bs) SYSARG_2 (t, m) of
                 (Some e, t, m) \<Rightarrow> (set_result_after_seccomp k (neg_errno e) t, m)
               | (None, tm) \<Rightarrow> finish tm)))"

definition long_at :: "nat \<Rightarrow> byte list \<Rightarrow> nat" where
  "long_at i bs = le_value (take 8 (drop (8 * i) bs))"

definition usec_to_nsec :: "nat \<Rightarrow> nat" where
  "usec_to_nsec u = u * 1000 mod 2 ^ 64"

text \<open>The switch. When the time of \<open>select\<close> cannot be read, the error depends on a variable that was not set;
  it is taken as \<open>EFAULT\<close>.\<close>

definition handle_seccomp_event_common :: "ptracer \<Rightarrow> sigsys_env \<Rightarrow> tracee_mem \<Rightarrow> tracee_mem" where
  "handle_seccomp_event_common k E tm =
     (let (t, m) = tm; (st, t) = sigsys_ext E t; result = (\<lambda>r t. (set_result_after_seccomp k r t, m)) in
      if st < 0 then result (word_of_int st) t
      else if st = 1 then result 0 t
      else if st > 1 then result (cur SYSARG_RESULT t) t
      else
        let s = get_sysnum CURRENT t in
        case lowered s of Some f \<Rightarrow> (restart_syscall_after_seccomp k (f t), m)
        | None \<Rightarrow>
          if s = ''openat2'' then
            (case lower_openat2_to_openat (t, m) of
               (Inl e, t) \<Rightarrow> result (neg_errno e) t
             | (Inr _, t) \<Rightarrow> (restart_syscall_after_seccomp k t, m))
          else if s = ''setgroups'' \<or> s = ''setgroups32'' then result 0 t
          else if s = ''mount'' \<or> s = ''pivot_root'' \<or> s = ''umount'' \<or> s = ''umount2'' \<or> s = ''unshare'' then
            result 0 (snd (emulated E s t))
          else if s = ''mount_setattr'' then (let (r, t) = emulated E s t in result (word_of_int r) t)
          else if s = ''setns'' then result 0 t
          else if s = ''getpgrp'' then result (process_group E) t
          else if s = ''time'' \<or> s = ''statx'' \<or> s = ''statfs'' then
            (let (r, t, m) = handled_call E s (t, m) in (set_result_after_seccomp k r t, m))
          else if s = ''set_robust_list'' then result (neg_errno ENOSYS) t
          else if s = ''utimes'' then
            with_times k 32 (\<lambda>b. timespec_bytes (long_at 0 b) (usec_to_nsec (long_at 1 b)) @
                                timespec_bytes (long_at 2 b) (usec_to_nsec (long_at 3 b))) (t, m)
          else if s = ''utime'' then
            with_times k 16 (\<lambda>b. timespec_bytes (long_at 0 b) 0 @ timespec_bytes (long_at 1 b) 0) (t, m)
          else if s = ''select'' then
            (if cur SYSARG_5 t = 0 then with_timeout k ''pselect6'' None 0 (-1) (t, m)
             else (case read_data m (cur SYSARG_5 t) 16 of
                 Inl _ \<Rightarrow> result (neg_errno EFAULT) t
               | Inr b \<Rightarrow>
                  (let usec = sint (of_nat (long_at 1 b) :: word_t) in
                   if usec < 0 then result (neg_errno EINVAL) t
                   else if usec \<ge> 1000000 then result (neg_errno EFAULT) t
                   else with_timeout k ''pselect6'' (Some (timespec_bytes (long_at 0 b) (nat usec * 1000))) 0 (-1) (t, m))))
          else if s = ''poll'' then
            (let ms = sint (ucast (cur SYSARG_3 t) :: u32) in
             if ms < 0 then with_timeout k ''ppoll'' None 0 0 (t, m)
             else with_timeout k ''ppoll'' (Some (timespec_bytes (nat ms div 1000) (nat ms mod 1000 * 1000000))) 0 0 (t, m))
          else if s = ''ftruncate'' then
            (if detranslate_sysnum ''ftruncate64'' = SYSCALL_AVOIDER then result (neg_errno ENOSYS) t
             else (restart_syscall_after_seccomp k
                    (poke_expr SYSARG_3 (cur SYSARG_2) (poke_reg SYSARG_2 0 (set_sysnum ''ftruncate64'' t))), m))
          else if s = ''setresuid'' \<or> s = ''setresgid'' then
            (case tracer_ids E s of None \<Rightarrow> result (neg_errno EPERM) t
             | Some (r, e, sv) \<Rightarrow>
                (let differs = (\<lambda>a x. (ucast a :: u32) \<noteq> -1 \<and> (ucast a :: u32) \<noteq> x) in
                 result (if differs (cur SYSARG_1 t) r \<or> differs (cur SYSARG_2 t) e \<or> differs (cur SYSARG_3 t) sv
                         then neg_errno EPERM else 0) t))
          else result (neg_errno ENOSYS) t)"

text \<open>The first argument, which shares its register with the result, is taken from the entry of the call when a
  result was written before the trap was seen.\<close>

definition SIGSYS :: int where "SIGSYS = 31"

definition handle_seccomp_event :: "ptracer \<Rightarrow> sigsys_env \<Rightarrow> tracee_mem \<Rightarrow> int \<times> tracee_mem" where
  "handle_seccomp_event k E tm =
     (let (t, m) = tm in
      case fetch_regs k t of (Some e, t) \<Rightarrow> (SIGSYS, t\<lparr>restore_sysarg1 := False\<rparr>, m)
      | (None, t) \<Rightarrow>
         (let t = (if restore_sysarg1 t \<and> get_sysnum ORIGINAL t = get_sysnum CURRENT t
                   then poke_reg SYSARG_1 (peek_reg ORIGINAL SYSARG_1 t) t else t);
              t = save_current_regs ORIGINAL_SECCOMP_REWRITE (t\<lparr>restore_sysarg1 := False, status := 0, restore_original_regs := False\<rparr>)
          in (0, handle_seccomp_event_common k E (t, m))))"

definition fix_and_restart_enosys_syscall :: "ptracer \<Rightarrow> sigsys_env \<Rightarrow> tracee_mem \<Rightarrow> tracee_mem" where
  "fix_and_restart_enosys_syscall k E tm =
     (let (t, m) = tm;
          t = t\<lparr>status := 0, restore_original_regs := False, regs := (regs t)(CURRENT := regs t ORIGINAL)\<rparr>
      in handle_seccomp_event_common k E (save_current_regs ORIGINAL_SECCOMP_REWRITE t, m))"

end
