(* ===== verification/Ipc_Main.thy ===== *)
theory Ipc_Main
  imports Ipc_Sem Ipc_Msg Ipc_Shm Sigsys
begin

text \<open>
  The extension that emulates SysV IPC (\<^verbatim>\<open>src/extension/sysvipc/sysvipc.c\<close>): which call is served, how a
  tracee is made to wait in \<open>ppoll\<close>, and how it gets its result. The layouts of the two status
  structures belong to the C library.
\<close>

record ipc_env =
  kernel :: ptracer
  shm :: shm_env
  msqid_layout :: "msg_stats \<Rightarrow> byte list"
  shmid_layout :: "shm_seg \<Rightarrow> byte list"

definition on_thread :: "nat \<Rightarrow> (thread \<Rightarrow> thread) \<Rightarrow> ipc \<Rightarrow> ipc" where
  "on_thread i f s = set_config i (map_thread f (configs s ! i)) s"

definition on_config :: "nat \<Rightarrow> (ipc_config \<Rightarrow> ipc_config) \<Rightarrow> ipc \<Rightarrow> ipc" where
  "on_config i f s = set_config i (f (configs s ! i)) s"

text \<open>The calls that are served; \<open>None\<close> for any other.\<close>

definition serve :: "ipc_env \<Rightarrow> sysnum \<Rightarrow> nat \<Rightarrow> ipc \<Rightarrow> (int \<times> ipc) option" where
  "serve E num i s =
     (if num = ''msgget'' then Some (sysvipc_msgget i s)
      else if num = ''msgsnd'' then Some (sysvipc_msgsnd i s)
      else if num = ''msgrcv'' then Some (sysvipc_msgrcv i s)
      else if num = ''msgctl'' then Some (sysvipc_msgctl (msqid_layout E) i s)
      else if num = ''semget'' then Some (sysvipc_semget i s)
      else if num = ''semtimedop'' \<or> num = ''semop'' then Some (sysvipc_semop i s)
      else if num = ''semctl'' then Some (sysvipc_semctl i s)
      else if num = ''shmget'' then Some (sysvipc_shmget (shm E) i s)
      else if num = ''shmat'' then Some (sysvipc_shmat i s)
      else if num = ''shmdt'' then Some (sysvipc_shmdt i s)
      else if num = ''shmctl'' then Some (sysvipc_shmctl (shmid_layout E) i s)
      else None)"

definition call_timeout :: "sysnum \<Rightarrow> ipc_config \<Rightarrow> word_t" where
  "call_timeout num c = (if num = ''semtimedop'' then arg SYSARG_4 c else 0)"

text \<open>After the call was served: it continues as another call of the tracee, or the tracee waits, or the status
  is the result, which a tracee that is at the entry of its call gets at the exit of \<open>getpid\<close>.\<close>

definition conclude :: "ipc_env \<Rightarrow> bool \<Rightarrow> word_t \<Rightarrow> nat \<Rightarrow> int \<times> ipc \<Rightarrow> int \<times> ipc" where
  "conclude E from_sigsys timeout i r =
     (let (st, s) = r; c = configs s ! i; resume = map_thread (\<lambda>t. t\<lparr>restart_how := PTRACE_SYSCALL\<rparr>);
          restart = map_thread (restart_syscall_after_seccomp (kernel E)) in
      if chain_state c \<noteq> CSTATE_NOT_CHAINED then
        (let s = on_config i (\<lambda>c. resume (if chain_state c = CSTATE_SINGLE then c\<lparr>chain_state := CSTATE_NOT_CHAINED\<rparr> else c)) s
         in if from_sigsys then (2, on_config i restart s) else (1, s))
      else if wait_reason c \<noteq> WR_NOT_WAITING then
        (let s = on_config i (\<lambda>c. resume (map_thread (set_sysnum ''ppoll'' \<circ>
                   poke_regs [(SYSARG_1, 0), (SYSARG_2, 0), (SYSARG_3, timeout), (SYSARG_4, 0)]) c)) s
         in if from_sigsys then (2, on_config i (\<lambda>c. restart (c\<lparr>wait_state := WSTATE_RESTARTED_INTO_PPOLL\<rparr>)) s)
            else (1, on_config i (\<lambda>c. c\<lparr>wait_state := WSTATE_ENTERED_PPOLL\<rparr>) s))
      else if from_sigsys then
        (2, on_thread i (set_result_after_seccomp (kernel E) (word_of_int st)) s)
      else
        (1, on_config i (\<lambda>c. resume (map_thread (set_sysnum ''getpid'')
              (c\<lparr>status_after_wait := st, wait_state := WSTATE_ENTERED_GETPID\<rparr>))) s))"

definition sysvipc_syscall_common :: "ipc_env \<Rightarrow> bool \<Rightarrow> nat \<Rightarrow> ipc \<Rightarrow> (int \<times> ipc) res" where
  "sysvipc_syscall_common E from_sigsys i s =
     (let c = configs s ! i; num = get_sysnum CURRENT (thr c) in
      if wait_state c \<noteq> WSTATE_NOT_WAITING then Inl Crash
      else (case serve E num i s of
          None \<Rightarrow> Inr (0, s)
        | Some r \<Rightarrow> Inr (conclude E from_sigsys (call_timeout num c) i r)))"

section \<open>The events\<close>

definition answer :: "nat \<Rightarrow> (int \<times> ipc) res \<Rightarrow> (ipc_config \<Rightarrow> ipc_config) \<Rightarrow> (int \<times> ipc) res" where
  "answer i r f = (case r of Inl e \<Rightarrow> Inl e | Inr (st, s) \<Rightarrow> Inr (1, on_config i (\<lambda>c. f (map_thread (poke_reg SYSARG_RESULT (word_of_int st)) c)) s))"

text \<open>The status that was kept for the tracee, or the outcome of a second attempt to receive.\<close>

definition kept_status :: "nat \<Rightarrow> ipc \<Rightarrow> (int \<times> ipc) res" where
  "kept_status i s =
     (let c = configs s ! i
      in if chain_state c = CSTATE_MSGRCV_RETRY then sysvipc_msgrcv_retry i s else Inr (status_after_wait c, s))"

definition syscall_enter_start :: "ipc_env \<Rightarrow> nat \<Rightarrow> ipc \<Rightarrow> (int \<times> ipc) res" where
  "syscall_enter_start E i s =
     (case wait_state (configs s ! i) of
        WSTATE_NOT_WAITING \<Rightarrow> sysvipc_syscall_common E False i s
      | WSTATE_RESTARTED_INTO_PPOLL \<Rightarrow>
          Inr (1, on_config i (\<lambda>c. map_thread (\<lambda>t. t\<lparr>restart_how := PTRACE_SYSCALL\<rparr>) (c\<lparr>wait_state := WSTATE_ENTERED_PPOLL\<rparr>)) s)
      | WSTATE_RESTARTED_INTO_PPOLL_CANCELED \<Rightarrow>
          answer i (kept_status i s) (\<lambda>c. (map_thread (set_sysnum PR_void) c)\<lparr>wait_state := WSTATE_NOT_WAITING\<rparr>)
      | _ \<Rightarrow> Inr (0, s))"

definition syscall_exit_start :: "ipc_env \<Rightarrow> nat \<Rightarrow> ipc \<Rightarrow> (int \<times> ipc) res" where
  "syscall_exit_start E i s =
     (let c = configs s ! i in
      if chain_state c = CSTATE_SHMAT_SOCKET \<or> helper_busy c then sysvipc_shmat_chain (shm E) i s
      else case wait_state c of
        WSTATE_ENTERED_PPOLL \<Rightarrow>
          (let s = on_config i (\<lambda>c. c\<lparr>wait_state := WSTATE_NOT_WAITING\<rparr>) s;
               s = (if wait_reason c = WR_WAIT_SEMOP then sysvipc_semop_timedout i s else s);
               s = on_config i (\<lambda>c. c\<lparr>wait_reason := WR_NOT_WAITING\<rparr>) s;
               st = int_arg (arg SYSARG_RESULT c)
           in Inr (if st = err EFAULT \<or> st = err EINTR then 1 else err EINTR, s))
      | WSTATE_SIGNALED_PPOLL \<Rightarrow> answer i (kept_status i (on_config i (\<lambda>c. c\<lparr>wait_state := WSTATE_NOT_WAITING\<rparr>) s)) id
      | WSTATE_ENTERED_GETPID \<Rightarrow> answer i (kept_status i (on_config i (\<lambda>c. c\<lparr>wait_state := WSTATE_NOT_WAITING\<rparr>) s)) id
      | _ \<Rightarrow> Inr (0, s))"

definition syscall_chained_enter :: "nat \<Rightarrow> ipc \<Rightarrow> int \<times> ipc" where
  "syscall_chained_enter i s =
     (if wait_state (configs s ! i) = WSTATE_RESTARTED_INTO_PPOLL_CANCELED
      then (0, on_config i (\<lambda>c. (map_thread (poke_reg SYSARG_3 1) c)\<lparr>wait_state := WSTATE_SIGNALED_PPOLL\<rparr>) s)
      else (0, s))"

definition syscall_chained_exit :: "ipc_env \<Rightarrow> nat \<Rightarrow> ipc \<Rightarrow> (int \<times> ipc) res" where
  "syscall_chained_exit E i s =
     (let c = configs s ! i in
      if wait_state c = WSTATE_SIGNALED_PPOLL then Inr (0, on_config i (\<lambda>c. c\<lparr>wait_state := WSTATE_NOT_WAITING\<rparr>) s)
      else if chain_state c = CSTATE_SHMAT_SOCKET \<or> helper_busy c then
        (case sysvipc_shmat_chain (shm E) i s of Inl e \<Rightarrow> Inl e | Inr (_, s) \<Rightarrow> Inr (0, s))
      else Inr (0, s))"

definition syscall_enter_end :: "int \<Rightarrow> nat \<Rightarrow> ipc \<Rightarrow> int \<times> ipc" where
  "syscall_enter_end st i s =
     (let c = configs s ! i in
      if st = 0 \<and> get_sysnum CURRENT (thr c) = ''execve''
      then (0, sysvipc_shm_remove_mappings_from_process (process c) s) else (0, s))"

text \<open>\<open>INITIALIZATION\<close> gives the tracee a space and a process of its own (\<open>n\<close> and \<open>p\<close> are new), \<open>INHERIT_CHILD\<close>
  the space of its parent, and its process as well when it is a thread of it.\<close>

definition initialization :: "thread \<Rightarrow> nat \<Rightarrow> nat \<Rightarrow> ipc \<Rightarrow> ipc" where
  "initialization t n p s =
     s\<lparr>configs := fresh_config t n p # configs s, pgids := (pgids s)(p := th_pid t),
        spaces := (spaces s)(n := \<lparr>queues = [], semaphores = [], shms = []\<rparr>)\<rparr>"

definition inherit_child :: "thread \<Rightarrow> bool \<Rightarrow> nat \<Rightarrow> nat \<Rightarrow> ipc \<Rightarrow> ipc" where
  "inherit_child t clone_thread parent p s =
     (let pc = configs s ! parent in
      if clone_thread then s\<lparr>configs := fresh_config t (space pc) (process pc) # configs s\<rparr>
      else sysvipc_shm_inherit_process (process pc) p
             (s\<lparr>configs := fresh_config t (space pc) p # configs s, pgids := (pgids s)(p := th_pid t)\<rparr>))"

section \<open>Steps\<close>

text \<open>What may happen to the emulation: an event of a tracee, a new tracee, or a change of what is outside: the
  registers, the memory and the clock.\<close>

definition outside :: "(nat \<Rightarrow> thread) \<Rightarrow> (int \<Rightarrow> memory) \<Rightarrow> int \<Rightarrow> ipc \<Rightarrow> ipc" where
  "outside ts ms now s =
     s\<lparr>configs := map (\<lambda>i. (configs s ! i)\<lparr>thr := ts i\<rparr>) [0..<length (configs s)], mem := ms, clock := now\<rparr>"

inductive ipc_step :: "ipc \<Rightarrow> ipc \<Rightarrow> bool" where
  enter: "i < length (configs s) \<Longrightarrow> syscall_enter_start E i s = Inr (st, s') \<Longrightarrow> ipc_step s s'"
| sigsys: "i < length (configs s) \<Longrightarrow> sysvipc_syscall_common E True i s = Inr (st, s') \<Longrightarrow> ipc_step s s'"
| exit: "i < length (configs s) \<Longrightarrow> syscall_exit_start E i s = Inr (st, s') \<Longrightarrow> ipc_step s s'"
| chained_enter: "i < length (configs s) \<Longrightarrow> syscall_chained_enter i s = (st, s') \<Longrightarrow> ipc_step s s'"
| chained_exit: "i < length (configs s) \<Longrightarrow> syscall_chained_exit E i s = Inr (st, s') \<Longrightarrow> ipc_step s s'"
| enter_end: "i < length (configs s) \<Longrightarrow> syscall_enter_end v i s = (st, s') \<Longrightarrow> ipc_step s s'"
| child: "parent < length (configs s) \<Longrightarrow> (\<forall>m \<in> set (mappings s). map_owner m \<noteq> p) \<Longrightarrow>
    ipc_step s (inherit_child t thread_of parent p s)"
| outside: "ipc_step s (outside ts ms now s)"

text \<open>The states of one session: it starts with one tracee and an empty space.\<close>

definition ipc_start :: "thread \<Rightarrow> ipc" where
  "ipc_start t =
     initialization t 0 0 \<lparr>configs = [], spaces = (\<lambda>_. \<lparr>queues = [], semaphores = [], shms = []\<rparr>), mappings = [],
       pgids = (\<lambda>_. 0), mem = (\<lambda>_ _. None), clock = 0, helper_fds = []\<rparr>"

inductive ipc_reachable :: "ipc \<Rightarrow> bool" where
  start: "ipc_reachable (ipc_start t)"
| step: "ipc_reachable s \<Longrightarrow> ipc_step s s' \<Longrightarrow> ipc_reachable s'"

end
