(* ===== verification/Ipc_Sem_Spec.thy ===== *)
theory Ipc_Sem_Spec
  imports Ipc_Sem Thread_Spec
begin

text \<open>
  Semaphores: an array of operations is applied as a whole or not at all, every unit that is added or taken
  is accounted for, and the single pass over the waiting tracees can leave one asleep.
\<close>

section \<open>An array of operations\<close>

text \<open>What an array of operations adds to a semaphore.\<close>

definition sum_ops :: "nat \<Rightarrow> sembuf list \<Rightarrow> int" where
  "sum_ops j sops = sum_list (map sem_op (filter (\<lambda>o'. sem_num o' = j) sops))"

lemma sum_ops_simps [simp]:
  "sum_ops j [] = 0"
  "sum_ops j (x # l) = (if sem_num x = j then sem_op x else 0) + sum_ops j l"
  by (simp_all add: sum_ops_def)

definition bounded_vals :: "16 word list \<Rightarrow> bool" where
  "bounded_vals vals \<longleftrightarrow> (\<forall>v \<in> set vals. unat v \<le> SYSVIPC_MAX_SEMVAL)"

lemma unat_16: "0 \<le> x \<Longrightarrow> x \<le> int SYSVIPC_MAX_SEMVAL \<Longrightarrow> int (unat (word_of_int x :: 16 word)) = x"
  by (simp add: SYSVIPC_MAX_SEMVAL_def unsigned_of_int take_bit_int_eq_self)

lemma bounded_update: "unat w \<le> SYSVIPC_MAX_SEMVAL \<Longrightarrow> bounded_vals vals \<Longrightarrow> bounded_vals (vals[k := w])"
  unfolding bounded_vals_def using set_update_subset_insert [of vals k w] by blast

lemma try_sops_effect:
  assumes "try_sops n sops vals = (st, vals')" "n = int (length vals)" "bounded_vals vals"
  shows "length vals' = length vals \<and> bounded_vals vals' \<and>
    (st = 0 \<longrightarrow> (\<forall>j < length vals. int (unat (vals' ! j)) = int (unat (vals ! j)) + sum_ops j sops))"
  using assms
proof (induction n sops vals rule: try_sops.induct)
  case (2 n sop sops vals)
  let ?k = "sem_num sop" and ?v = "vals ! sem_num sop"
  show ?case
  proof (cases "int ?k \<ge> n")
    case in_range: False
    show ?thesis
    proof (cases "sem_op sop = 0")
      case True
      with 2 in_range show ?thesis by (auto simp: Let_def split: if_split_asm)
    next
      case False
      let ?x = "int (unat ?v) + sem_op sop"
      show ?thesis
      proof (cases "?x < 0 \<or> ?x > int SYSVIPC_MAX_SEMVAL")
        case True
        with 2 in_range False show ?thesis by (auto simp: Let_def errno_num.simps split: if_split_asm)
      next
        case ok: False
        let ?u = "vals[?k := word_of_int ?x]"
        have u: "int (unat (word_of_int ?x :: 16 word)) = ?x" using ok by (intro unat_16) auto
        then have "unat (word_of_int ?x :: 16 word) \<le> SYSVIPC_MAX_SEMVAL" using ok by linarith
        then have b: "bounded_vals ?u" using 2(5) by (intro bounded_update)
        have "try_sops n sops ?u = (st, vals')" using 2(3) in_range False ok by (simp add: Let_def)
        with 2(2) [OF in_range refl False refl] ok b 2(4)
        have ih: "length vals' = length ?u" "bounded_vals vals'"
          "st = 0 \<Longrightarrow> j < length ?u \<Longrightarrow> int (unat (vals' ! j)) = int (unat (?u ! j)) + sum_ops j sops" for j by simp_all
        have "int (unat (vals' ! j)) = int (unat (vals ! j)) + sum_ops j (sop # sops)" if "st = 0" "j < length vals" for j
          using ih(3) [OF that(1), of j] that(2) u by (cases "?k = j") simp_all
        with ih(1,2) show ?thesis by simp
      qed
    qed
  qed (use 2 in \<open>auto simp: errno_num.simps\<close>)
qed auto

lemma semop_atomic_fact:
  assumes "sem_check (int (length vals)) sops vals = (st, vals')" "bounded_vals vals"
  shows "length vals' = length vals \<and> bounded_vals vals' \<and>
    (if st = 0 then \<forall>j < length vals. int (unat (vals' ! j)) = int (unat (vals ! j)) + sum_ops j sops
     else vals' = vals)"
proof (cases "int (length vals) > int SYSVIPC_MAX_NSEMS")
  case True
  with assms show ?thesis by (auto simp: sem_check_def errno_num.simps)
next
  case False
  obtain r v where t: "try_sops (int (length vals)) sops vals = (r, v)" by fastforce
  from try_sops_effect [OF t refl assms(2)] t assms False show ?thesis
    by (auto simp: sem_check_def split: if_split_asm)
qed

text \<open>
  C17: an array of operations is atomic. When \<open>sem_check\<close> reports success, every semaphore has changed by
  exactly what the array adds to it and stays between 0 and the largest value; in every other case, that
  of a wait included, no semaphore has changed.
\<close>

theorem semop_atomic:
  assumes "sem_check (int (length vals)) sops vals = (st, vals')" "bounded_vals vals"
  shows "length vals' = length vals \<and> bounded_vals vals' \<and>
    (if st = 0 then \<forall>j < length vals. int (unat (vals' ! j)) = int (unat (vals ! j)) + sum_ops j sops
     else vals' = vals)"
  using semop_atomic_fact [OF assms] .

definition demo_sop :: "nat \<Rightarrow> int \<Rightarrow> sembuf" where
  "demo_sop k v = \<lparr>sem_num = k, sem_op = v, sem_flg = 0\<rparr>"

theorem semop_atomic_witness:
  "sem_check 2 [demo_sop 0 3, demo_sop 1 (-1)] [0, 1] = (0, [3, 0]) \<and>
   int (unat ([3, 0 :: 16 word] ! 0)) = sum_ops 0 [demo_sop 0 3, demo_sop 1 (-1)]"
proof -
  have c: "sem_check (int (length [0, 1 :: 16 word])) [demo_sop 0 3, demo_sop 1 (-1)] [0, 1] = (0, [3, 0])"
    by (simp add: sem_check_def SYSVIPC_MAX_NSEMS_def demo_sop_def SYSVIPC_MAX_SEMVAL_def)
  have "bounded_vals [0, 1]" by (simp add: bounded_vals_def SYSVIPC_MAX_SEMVAL_def)
  from semop_atomic [OF c this] have "\<forall>j<2. int (unat ([3, 0 :: 16 word] ! j)) =
      int (unat ([0, 1 :: 16 word] ! j)) + sum_ops j [demo_sop 0 3, demo_sop 1 (-1)]"
    by (simp only: if_True refl) simp
  then have "int (unat ([3, 0 :: 16 word] ! 0)) = int (unat ([0, 1 :: 16 word] ! 0)) + sum_ops 0 [demo_sop 0 3, demo_sop 1 (-1)]"
    by (elim allE [of _ 0]) simp
  with c show ?thesis by simp
qed

section \<open>A call and the tracees it wakes\<close>

definition waiting_ops :: "ipc_config \<Rightarrow> sembuf list" where
  "waiting_ops c = (case semop_sops c of None \<Rightarrow> [] | Some l \<Rightarrow> l)"

text \<open>What a tracee that was waiting adds to a semaphore when its wait ends with success.\<close>

definition gain :: "nat \<Rightarrow> ipc_config \<Rightarrow> ipc_config \<Rightarrow> int" where
  "gain j c c' =
     (if wait_reason c = WR_WAIT_SEMOP \<and> wait_reason c' = WR_NOT_WAITING \<and> status_after_wait c' = 0
      then sum_ops j (waiting_ops c) else 0)"

definition total_gain :: "nat \<Rightarrow> ipc_config list \<Rightarrow> ipc_config list \<Rightarrow> int" where
  "total_gain j cs cs' = sum_list (map (\<lambda>(c, c'). gain j c c') (zip cs cs'))"

lemma total_gain_simps [simp]:
  "total_gain j [] [] = 0" "total_gain j (c # cs) (c' # cs') = gain j c c' + total_gain j cs cs'"
  by (simp_all add: total_gain_def)

lemma gain_same [simp]: "gain j c c = 0"
  by (auto simp: gain_def)

lemma wake_fields [simp]:
  "wait_reason (wake_tracee st c) = WR_NOT_WAITING" "status_after_wait (wake_tracee st c) = st"
  "thr (wake_tracee st c) = thr c" "space (wake_tracee st c) = space c" "process (wake_tracee st c) = process c"
  "chain_state (wake_tracee st c) = chain_state c" "semop_sops (wake_tracee st c) = semop_sops c"
  by (simp_all add: wake_tracee_def Let_def)

lemma wake_semop_effect:
  assumes "wake_semop_waiters self n k (int (length vals)) i cs vals = (cs', vals')" "bounded_vals vals"
  shows "length cs' = length cs \<and> length vals' = length vals \<and> bounded_vals vals' \<and>
    (self \<in> {i..<i + length cs} \<longrightarrow> cs' ! (self - i) = cs ! (self - i)) \<and>
    (\<forall>j < length vals. int (unat (vals' ! j)) = int (unat (vals ! j)) + total_gain j cs cs')"
  using assms
proof (induction cs arbitrary: i vals cs' vals')
  case (Cons c cs)
  let ?n = "int (length vals)"
  let ?turn = "i \<noteq> self \<and> waits_for WR_WAIT_SEMOP n k c"
  obtain st u where u: "sem_check ?n (waiting_ops c) vals = (st, u)" by fastforce
  note at = semop_atomic_fact [OF u Cons.prems(2)]
  define w where "w = (if ?turn then u else vals)"
  define d where "d = (if ?turn \<and> st \<noteq> 1 then wake_tracee st (c\<lparr>semop_sops := None\<rparr>) else c)"
  obtain cs2 v2 where r: "wake_semop_waiters self n k (int (length w)) (Suc i) cs w = (cs2, v2)" by fastforce
  have w: "length w = length vals" "bounded_vals w" using at Cons.prems(2) by (auto simp: w_def)
  have res: "cs' = d # cs2" "vals' = v2"
    using Cons.prems(1) u r w(1) by (auto simp: w_def d_def waiting_ops_def Let_def split: if_split_asm)
  have step: "int (unat (w ! j)) = int (unat (vals ! j)) + gain j c d" if "j < length vals" for j
  proof (cases "?turn \<and> st = 0")
    case True
    then have "wait_reason c = WR_WAIT_SEMOP" by (simp add: waits_for_def)
    with True at that show ?thesis by (simp add: w_def d_def gain_def waiting_ops_def)
  next
    case False
    then have "w = vals" using at by (auto simp: w_def)
    moreover from False have "gain j c d = 0" by (auto simp: d_def gain_def)
    ultimately show ?thesis by simp
  qed
  from Cons.IH [OF r w(2)] w(1)
  have ih: "length cs2 = length cs" "length v2 = length vals" "bounded_vals v2"
    "self \<in> {Suc i..<Suc i + length cs} \<longrightarrow> cs2 ! (self - Suc i) = cs ! (self - Suc i)"
    "\<And>j. j < length vals \<Longrightarrow> int (unat (v2 ! j)) = int (unat (w ! j)) + total_gain j cs cs2" by auto
  have "(d # cs2) ! (self - i) = (c # cs) ! (self - i)" if "self \<in> {i..<i + length (c # cs)}"
  proof (cases "self = i")
    case False
    with that have "self - i = Suc (self - Suc i)" "self \<in> {Suc i..<Suc i + length cs}" by auto
    with ih(4) show ?thesis by simp
  qed (simp add: d_def)
  with ih step res show ?case by simp
qed simp

text \<open>The same tracees, but the one at a position, which has nothing to gain before and after.\<close>

lemma total_gain_update:
  assumes "length cs' = length cs" "i < length cs" "wait_reason (cs ! i) = WR_NOT_WAITING"
    and "cs' ! i = d"
  shows "total_gain j (cs[i := d]) cs' = total_gain j cs (cs'[i := e])"
  using assms
proof (induction cs arbitrary: cs' i)
  case (Cons c cs)
  then obtain c' r where r: "cs' = c' # r" by (cases cs') auto
  show ?case
  proof (cases i)
    case 0
    with Cons.prems r show ?thesis by (simp add: gain_def)
  next
    case (Suc m)
    with Cons.prems r Cons.IH [of r m] show ?thesis by simp
  qed
qed simp

text \<open>
  C16: no unit is lost or made up. After a call on a set of semaphores, each one has changed by what the
  call added to it, if the call succeeded, and by what the tracees that were waiting and were woken with
  success added; the values stay within their bounds.
\<close>

theorem semop_conserves:
  assumes "semop_on i k sops s = (st, s')" "i < length (configs s)" "c = configs s ! i"
    and "wait_reason c = WR_NOT_WAITING" "k < length (semaphores (spaces s (space c)))"
    and "semaphores (spaces s (space c)) ! k = o'" "sems o' = Some vals" "nsems o' = int (length vals)" "bounded_vals vals"
  shows "\<exists>vals'. sems (semaphores (spaces s' (space c)) ! k) = Some vals' \<and> length vals' = length vals \<and> bounded_vals vals' \<and>
    (\<forall>j < length vals. int (unat (vals' ! j)) = int (unat (vals ! j)) +
       (if wait_reason (configs s' ! i) = WR_NOT_WAITING \<and> st = 0 then sum_ops j sops else 0) +
       total_gain j (configs s) (configs s'))"
proof -
  let ?d = "c\<lparr>wait_reason := WR_WAIT_SEMOP, waiting_object_index := k, semop_sops := Some sops\<rparr>"
  let ?e = "?d\<lparr>semop_sops := None, wait_reason := WR_NOT_WAITING\<rparr>"
  obtain r u where u: "sem_check (int (length vals)) sops vals = (r, u)" by fastforce
  note at = semop_atomic_fact [OF u assms(9)]
  then have lu: "length u = length vals" and bu: "bounded_vals u" by simp_all
  obtain cs v where w: "wake_semop_waiters i (space c) k (int (length u)) 0 ((configs s)[i := ?d]) u = (cs, v)" by fastforce
  note eff = wake_semop_effect [OF w bu]
  have cs: "length cs = length (configs s)" "cs ! i = ?d" "length v = length vals" "bounded_vals v"
    "\<And>j. j < length vals \<Longrightarrow> int (unat (v ! j)) = int (unat (u ! j)) + total_gain j ((configs s)[i := ?d]) cs"
    using eff assms(2) lu by auto
  define z where "z = set_sems (space c) k (Some v) (s\<lparr>configs := cs\<rparr>)"
  have z: "configs z = cs" "sems (semaphores (spaces z (space c)) ! k) = Some v"
    using assms(5) by (simp_all add: z_def set_sems_def set_space_def Let_def)
  have sp: "space ?d = space c" by simp
  have "semop_on i k sops s = (if r = 1 then (0, z) else (r, set_config i ?e z))"
    unfolding semop_on_def Let_def assms(3) [symmetric]
    by (simp only: sp assms(6-8) option.case u w [unfolded lu] prod.case z_def)
  then have res: "(st, s') = (if r = 1 then (0, z) else (r, set_config i ?e z))" using assms(1) by simp
  have first: "int (unat (u ! j)) = int (unat (vals ! j)) + (if r = 0 then sum_ops j sops else 0)" if "j < length vals" for j
    using at that by (cases "r = 0") simp_all
  show ?thesis
  proof (cases "r = 1")
    case True
    then have s': "s' = z" "st = 0" using res by simp_all
    have "total_gain j ((configs s)[i := ?d]) cs = total_gain j (configs s) cs" for j
      using total_gain_update [of cs "configs s" i ?d j ?d] cs(1,2) assms(2-4) list_update_id [of cs i] by simp
    with cs(3-5) first True s' z cs(2) show ?thesis by (intro exI [of _ v]) simp
  next
    case False
    then have s': "s' = set_config i ?e z" "st = r" using res by simp_all
    have "total_gain j ((configs s)[i := ?d]) cs = total_gain j (configs s) (cs[i := ?e])" for j
      using total_gain_update [of cs "configs s" i ?d j ?e] cs(1,2) assms(2-4) by simp
    with cs(3-5) first False s' z cs(1,2) assms(2) show ?thesis
      by (intro exI [of _ v]) (simp add: set_config_def)
  qed
qed

section \<open>A tracee that sleeps on\<close>

definition demo_space :: "sem_set list \<Rightarrow> ipc_space" where
  "demo_space l = \<lparr>queues = [], semaphores = l, shms = []\<rparr>"

definition demo_ipc :: "ipc_config list \<Rightarrow> ipc_space \<Rightarrow> ipc" where
  "demo_ipc cs x =
     \<lparr>configs = cs, spaces = (\<lambda>_. x), mappings = [], pgids = (\<lambda>_. 1), mem = (\<lambda>_ _. Some 0), clock = 5, helper_fds = []\<rparr>"

definition demo_set :: "16 word list \<Rightarrow> sem_set" where
  "demo_set l = \<lparr>s_key = 7, s_generation = 0, s_valid = True, sems = Some l, nsems = int (length l)\<rparr>"

definition demo_waiter :: "sembuf list \<Rightarrow> ipc_config" where
  "demo_waiter l = (fresh_config (demo_thread []) 0 0)\<lparr>wait_reason := WR_WAIT_SEMOP, semop_sops := Some l, wait_state := WSTATE_ENTERED_PPOLL\<rparr>"

theorem semop_conserves_witness:
  "\<exists>vals'. sems (semaphores (spaces (snd (semop_on 0 0 [demo_sop 0 1]
       (demo_ipc [fresh_config (demo_thread []) 0 0] (demo_space [demo_set [4]])))) 0) ! 0) = Some vals' \<and> unat (vals' ! 0) = 5"
proof -
  let ?c = "fresh_config (demo_thread []) 0 0"
  let ?s = "demo_ipc [?c] (demo_space [demo_set [4]])"
  obtain st s' where r: "semop_on 0 0 [demo_sop 0 1] ?s = (st, s')" by fastforce
  have c: "sem_check 1 [demo_sop 0 1] [4] = (0, [5])"
    by (simp add: sem_check_def SYSVIPC_MAX_NSEMS_def demo_sop_def SYSVIPC_MAX_SEMVAL_def)
  have st: "st = 0" "wait_reason (configs s' ! 0) = WR_NOT_WAITING" "status_after_wait (configs s' ! 0) = 0"
    using r c by (auto simp: semop_on_def demo_ipc_def demo_space_def demo_set_def fresh_config_def set_config_def
        set_sems_def set_space_def Let_def)
  have "\<exists>vals'. sems (semaphores (spaces s' 0) ! 0) = Some vals' \<and> length vals' = length [4 :: 16 word] \<and> bounded_vals vals' \<and>
    (\<forall>j < length [4 :: 16 word]. int (unat (vals' ! j)) = int (unat ([4 :: 16 word] ! j)) +
       (if wait_reason (configs s' ! 0) = WR_NOT_WAITING \<and> st = 0 then sum_ops j [demo_sop 0 1] else 0) +
       total_gain j (configs ?s) (configs s'))"
    using semop_conserves [OF r, of ?c "demo_set [4]" "[4]"]
    by (simp del: of_nat_unat add: demo_ipc_def demo_space_def demo_set_def fresh_config_def bounded_vals_def SYSVIPC_MAX_SEMVAL_def)
  then obtain vals' where v: "sems (semaphores (spaces s' 0) ! 0) = Some vals'"
    "int (unat (vals' ! 0)) = int (unat (4 :: 16 word)) + 1 + total_gain 0 (configs ?s) (configs s')"
    using st by (auto simp: demo_sop_def)
  have "total_gain 0 (configs ?s) (configs s') = 0"
    by (cases "configs s'") (auto simp: demo_ipc_def total_gain_def gain_def fresh_config_def)
  with v(2) have "uint (vals' ! 0) = 5" by simp
  then have "unat (vals' ! 0) = 5" by (simp only: unat_eq_nat_uint nat_numeral)
  with v(1) r show ?thesis by (intro exI [of _ vals'] conjI) (simp_all only: snd_conv)
qed

text \<open>
  A tracee can sleep although its operations would succeed. A call adds a unit for which a second tracee
  waits, whose own operations add the unit a first one waits for; the pass over the tracees has passed the
  first one by then, and nothing wakes it.
\<close>

theorem semop_lost_wakeup:
  "\<exists>st s'. semop_on 0 0 [demo_sop 0 1]
       (demo_ipc [fresh_config (demo_thread []) 0 0, demo_waiter [demo_sop 1 (-1)], demo_waiter [demo_sop 0 (-1), demo_sop 1 1]]
         (demo_space [demo_set [0, 0]])) = (st, s') \<and>
     wait_reason (configs s' ! 2) = WR_NOT_WAITING \<and> wait_reason (configs s' ! 1) = WR_WAIT_SEMOP \<and>
     (\<exists>vals. sems (semaphores (spaces s' 0) ! 0) = Some vals \<and>
       fst (sem_check 2 (waiting_ops (configs s' ! 1)) vals) = 0)"
proof -
  let ?w1 = "demo_waiter [demo_sop 1 (-1)]" and ?w2 = "demo_waiter [demo_sop 0 (-1), demo_sop 1 1]"
  let ?s = "demo_ipc [fresh_config (demo_thread []) 0 0, ?w1, ?w2] (demo_space [demo_set [0, 0]])"
  have c: "sem_check 2 [demo_sop 0 1] [0, 0] = (0, [1, 0])"
    "sem_check 2 [demo_sop 1 (-1)] [1, 0] = (1, [1, 0])"
    "sem_check 2 [demo_sop 0 (-1), demo_sop 1 1] [1, 0] = (0, [0, 1])"
    "sem_check 2 [demo_sop 1 (-1)] [0, 1] = (0, [0, 0])"
    by (simp_all add: sem_check_def SYSVIPC_MAX_NSEMS_def demo_sop_def SYSVIPC_MAX_SEMVAL_def flag_set_def)
  obtain st s' where r: "semop_on 0 0 [demo_sop 0 1] ?s = (st, s')" by fastforce
  have "configs s' ! 1 = ?w1" "wait_reason (configs s' ! 2) = WR_NOT_WAITING"
    "sems (semaphores (spaces s' 0) ! 0) = Some [0, 1]"
    using r c by (auto simp: semop_on_def demo_ipc_def demo_space_def demo_set_def fresh_config_def demo_waiter_def
        waits_for_def set_config_def set_sems_def set_space_def Let_def)
  moreover have "waiting_ops ?w1 = [demo_sop 1 (-1)]" "wait_reason ?w1 = WR_WAIT_SEMOP"
    by (simp_all add: waiting_ops_def demo_waiter_def fresh_config_def)
  ultimately show ?thesis using r c(4) by (intro exI [of _ st] exI [of _ s']) simp
qed

end
