(* ===== verification/Ipc_Msg_Spec.thy ===== *)
theory Ipc_Msg_Spec
  imports Ipc_Msg Thread_Spec
begin

text \<open>
  Message queues: which message is received, the statistics of a queue, a message that arrives as it was
  sent, and the receiver that stops the tracer.
\<close>

section \<open>The message that is received\<close>

lemma first_match_Some:
  "first_match f ms = Some j \<Longrightarrow> j < length ms \<and> f (ms ! j) \<and> (\<forall>i<j. \<not> f (ms ! i))"
proof (induction ms arbitrary: j)
  case (Cons m ms)
  show ?case
  proof (cases "f m")
    case False
    with Cons.prems obtain l where l: "first_match f ms = Some l" "j = Suc l" by auto
    from Cons.IH [OF l(1)] False show ?thesis by (auto simp: l(2) less_Suc_eq_0_disj)
  qed (use Cons.prems in auto)
qed simp

lemma first_match_None: "first_match f ms = None \<longleftrightarrow> (\<forall>m \<in> set ms. \<not> f m)"
  by (induction ms) auto

definition matches :: "ipc_config \<Rightarrow> msg_item \<Rightarrow> bool" where
  "matches c m \<longleftrightarrow> msg_match (as_int (mtype m)) (msgrcv_msgtyp c) (msgrcv_msgflg c)"

text \<open>The statistics of a queue count its messages and their bytes.\<close>

definition stats_ok :: "msg_queue \<Rightarrow> bool" where
  "stats_ok q \<longleftrightarrow> msg_qnum (stats q) = of_nat (length (items q)) \<and>
     msg_cbytes (stats q) = of_nat (sum_list (map (length \<circ> mtext) (items q)))"

lemma remove_nth_split: "j < length xs \<Longrightarrow> xs = take j xs @ xs ! j # drop (Suc j) xs"
  by (rule id_take_nth_drop)

lemma stats_ok_take: "stats_ok q \<Longrightarrow> j < length (items q) \<Longrightarrow> stats_ok (take_message j q)"
proof -
  assume s: "stats_ok q" and j: "j < length (items q)"
  let ?xs = "items q"
  have "sum_list (map (length \<circ> mtext) ?xs) =
      sum_list (map (length \<circ> mtext) (remove_nth j ?xs)) + length (mtext (?xs ! j))"
    by (subst remove_nth_split [OF j]) (simp add: remove_nth_def)
  moreover have "length ?xs = Suc (length (remove_nth j ?xs))" using j by (simp add: remove_nth_def)
  ultimately show ?thesis using s by (simp add: stats_ok_def take_message_def)
qed

lemma stats_ok_put: "stats_ok q \<Longrightarrow> stats_ok (put_message m q)"
  by (simp add: stats_ok_def put_message_def)

lemma stats_ok_same: "items q' = items q \<Longrightarrow> msg_qnum (stats q') = msg_qnum (stats q) \<Longrightarrow>
    msg_cbytes (stats q') = msg_cbytes (stats q) \<Longrightarrow> stats_ok q' = stats_ok q"
  by (simp add: stats_ok_def)

lemma write_mem_frame:
  assumes "write_mem c a bs s = (st, s')"
  shows "configs s' = configs s" "spaces s' = spaces s" "clock s' = clock s" "mappings s' = mappings s"
    "helper_fds s' = helper_fds s" "pgids s' = pgids s"
  using assms by (auto simp: write_mem_def split: prod.split_asm)

lemma deliver_frame:
  assumes "msg_deliver c q m s = (st, q', s')"
  shows "items q' = items q" "q_valid q' = q_valid q" "q_generation q' = q_generation q" "q_key q' = q_key q"
    "stats_ok q' = stats_ok q" "configs s' = configs s" "spaces s' = spaces s"
    "0 \<le> st \<Longrightarrow> st = int (min (length (mtext m)) (unat (msgrcv_msgsz c)))"
    "mappings s' = mappings s" "helper_fds s' = helper_fds s"
proof -
  let ?small = "length (mtext m) > unat (msgrcv_msgsz c) \<and> \<not> flag_set (msgrcv_msgflg c) MSG_NOERROR"
  let ?len = "if length (mtext m) > unat (msgrcv_msgsz c) then unat (msgrcv_msgsz c) else length (mtext m)"
  obtain st1 s1 where w1: "write_mem c (msgrcv_msgp c) (le_bytes 8 (nat (mtype m mod 2 ^ 64))) s = (st1, s1)" by fastforce
  obtain st2 s2 where w2: "write_mem c (msgrcv_msgp c + 8) (take ?len (mtext m)) s1 = (st2, s2)" by fastforce
  note f1 = write_mem_frame [OF w1] and f2 = write_mem_frame [OF w2]
  have "msg_deliver c q m s = (if ?small then (err E2BIG, q, s) else if st1 < 0 then (st1, q, s1) else if st2 < 0 then (st2, q, s2)
      else (int ?len, q\<lparr>stats := (stats q)\<lparr>msg_lrpid := pid_of c, msg_rtime := clock s2\<rparr>\<rparr>, s2))"
    by (simp only: msg_deliver_def Let_def w1 w2 prod.case)
  then have r: "(st, q', s') = (if ?small then (err E2BIG, q, s) else if st1 < 0 then (st1, q, s1) else if st2 < 0 then (st2, q, s2)
      else (int ?len, q\<lparr>stats := (stats q)\<lparr>msg_lrpid := pid_of c, msg_rtime := clock s2\<rparr>\<rparr>, s2))"
    using assms by (simp only:)
  then show "items q' = items q" "q_valid q' = q_valid q" "q_generation q' = q_generation q" "q_key q' = q_key q"
    "configs s' = configs s" "spaces s' = spaces s" "mappings s' = mappings s" "helper_fds s' = helper_fds s"
    using f1 f2 by (auto split: if_split_asm)
  show "stats_ok q' = stats_ok q"
    using r by (intro stats_ok_same) (auto split: if_split_asm)
  show "0 \<le> st \<Longrightarrow> st = int (min (length (mtext m)) (unat (msgrcv_msgsz c)))"
    using r by (auto simp: errno_num.simps min_def split: if_split_asm)
qed

lemma queue_at_set:
  "k < length (queues (spaces s n)) \<Longrightarrow> queue_at (set_queue n k q s) n k = q"
  by (simp add: queue_at_def set_queue_def set_space_def Let_def)

text \<open>
  C18: the oldest message that matches is received, and nothing else is taken. When a tracee asks for a message
  of a queue that holds one it accepts and the call succeeds, the queue loses the first such message and
  keeps the others in their order, its statistics stay right, and the result is the length of the text,
  cut to the size of the buffer.
\<close>

theorem msgrcv_oldest_match:
  assumes "do_msgrcv i k s = (st, s')" "0 \<le> st" "c = configs s ! i" "q = queue_at s (space c) k"
    and "k < length (queues (spaces s (space c)))" "\<not> flag_set (msgrcv_msgflg c) MSG_COPY"
    and "\<exists>m \<in> set (items q). matches c m"
  shows "\<exists>older m newer. items q = older @ m # newer \<and> (\<forall>m' \<in> set older. \<not> matches c m') \<and> matches c m \<and>
    items (queue_at s' (space c) k) = older @ newer \<and>
    (stats_ok q \<longrightarrow> stats_ok (queue_at s' (space c) k)) \<and>
    st = int (min (length (mtext m)) (unat (msgrcv_msgsz c)))"
proof -
  have "select_message c (items q) = first_match (matches c) (items q)"
    using assms(6) by (simp add: select_message_def matches_def [abs_def])
  moreover have "first_match (matches c) (items q) \<noteq> None" using assms(7) by (auto simp: first_match_None)
  ultimately obtain j where j: "select_message c (items q) = Some j" "first_match (matches c) (items q) = Some j" by auto
  note f = first_match_Some [OF j(2)]
  obtain st1 q1 s1 where d: "msg_deliver c q (items q ! j) s = (st1, q1, s1)" by (metis prod_cases3)
  note fr = deliver_frame [OF d]
  have flags: "\<not> flag_set (msgrcv_msgflg c) (NOT (IPC_NOWAIT OR MSG_NOERROR OR MSG_COPY OR MSG_EXCEPT))"
  proof
    assume "flag_set (msgrcv_msgflg c) (NOT (IPC_NOWAIT OR MSG_NOERROR OR MSG_COPY OR MSG_EXCEPT))"
    with assms(1-4) have "st = err EINVAL" by (simp add: do_msgrcv_def Let_def)
    with assms(2) show False by simp
  qed
  have "do_msgrcv i k s = (st1, set_queue (space c) k (if st1 \<ge> 0 then take_message j q1 else q1) s1)"
    unfolding do_msgrcv_def Let_def assms(3,4) [symmetric] using flags assms(6) j(1) d by simp
  with assms(1,2) have r: "st = st1" "s' = set_queue (space c) k (take_message j q1) s1" by auto
  have "queue_at s' (space c) k = take_message j q1" using r(2) fr(7) assms(5) by (simp add: queue_at_set)
  moreover have "items (take_message j q1) = take j (items q) @ drop (Suc j) (items q)"
    by (simp add: take_message_def remove_nth_def fr(1))
  moreover have "stats_ok q \<longrightarrow> stats_ok (take_message j q1)" using fr(1,5) f stats_ok_take by metis
  moreover have "\<forall>m' \<in> set (take j (items q)). \<not> matches c m'" using f by (auto simp: in_set_conv_nth)
  ultimately show ?thesis
    using remove_nth_split [of j "items q"] f fr(8) r(1) assms(2)
    by (intro exI [of _ "take j (items q)"] exI [of _ "items q ! j"] exI [of _ "drop (Suc j) (items q)"]) simp
qed

section \<open>A message arrives\<close>

definition demo_receiver :: "int \<Rightarrow> ipc_config" where
  "demo_receiver ty =
     (fresh_config (demo_thread []) 0 0)\<lparr>msgrcv_msgp := 0x100, msgrcv_msgsz := 64, msgrcv_msgtyp := ty\<rparr>"

definition demo_queue :: "msg_item list \<Rightarrow> msg_queue" where
  "demo_queue l =
     \<lparr>q_key = 7, q_generation = 0, q_valid = True, items = l,
      stats = \<lparr>msg_qnum = of_nat (length l), msg_cbytes = of_nat (sum_list (map (length \<circ> mtext) l)), msg_qbytes = 65536,
                msg_lspid = 0, msg_lrpid = 0, msg_stime = 0, msg_rtime = 0\<rparr>\<rparr>"

definition demo_msgs :: "ipc_config list \<Rightarrow> msg_item list \<Rightarrow> ipc" where
  "demo_msgs cs l =
     \<lparr>configs = cs, spaces = (\<lambda>_. \<lparr>queues = [demo_queue l], semaphores = [], shms = []\<rparr>), mappings = [],
      pgids = (\<lambda>_. 1), mem = (\<lambda>_ _. Some 0), clock = 5, helper_fds = []\<rparr>"

definition demo_msg :: "int \<Rightarrow> nat \<Rightarrow> msg_item" where
  "demo_msg ty n = \<lparr>mtype = ty, mtext = replicate n 1\<rparr>"

lemma total_write_mem:
  assumes "total_memory (mem s (pid_of c))"
  shows "\<exists>m. write_mem c a bs s = (0, s\<lparr>mem := (mem s)(pid_of c := m)\<rparr>) \<and> total_memory m"
  using total_write [OF assms, of a bs] by (auto simp: write_mem_def)

lemma deliver_total:
  assumes "total_memory (mem s (pid_of c))" "length (mtext m) \<le> unat (msgrcv_msgsz c)"
  shows "fst (msg_deliver c q m s) = int (length (mtext m))"
proof -
  obtain bs where bs: "le_bytes 8 (nat (mtype m mod 2 ^ 64)) = bs" by blast
  obtain m1 where w1: "write_mem c (msgrcv_msgp c) bs s = (0, s\<lparr>mem := (mem s)(pid_of c := m1)\<rparr>)" and t1: "total_memory m1"
    using total_write_mem [OF assms(1)] by blast
  let ?s1 = "s\<lparr>mem := (mem s)(pid_of c := m1)\<rparr>"
  have "total_memory (mem ?s1 (pid_of c))" using t1 by simp
  from total_write_mem [OF this] obtain s2 where w2: "write_mem c (msgrcv_msgp c + 8) (mtext m) ?s1 = (0, s2)" by blast
  have "\<not> length (mtext m) > unat (msgrcv_msgsz c)" using assms(2) by simp
  then show ?thesis unfolding msg_deliver_def bs by (simp add: w1 w2 Let_def del: fun_upd_apply)
qed

theorem msgrcv_oldest_match_witness:
  "\<exists>st s'. do_msgrcv 0 0 (demo_msgs [demo_receiver 2] [demo_msg 1 3, demo_msg 2 5, demo_msg 2 7]) = (st, s') \<and>
     items (queue_at s' 0 0) = [demo_msg 1 3, demo_msg 2 7] \<and> st = 5"
proof -
  let ?l = "[demo_msg 1 3, demo_msg 2 5, demo_msg 2 7]" and ?c = "demo_receiver 2"
  let ?s = "demo_msgs [?c] ?l"
  obtain st s' where r: "do_msgrcv 0 0 ?s = (st, s')" by fastforce
  have m: "\<not> matches ?c (demo_msg 1 3)" "matches ?c (demo_msg 2 n)" for n
    by (simp_all add: matches_def msg_match_def demo_receiver_def fresh_config_def demo_msg_def as_int_def flag_set_def)
  have q: "queue_at ?s 0 0 = demo_queue ?l" "configs ?s ! 0 = ?c" "space ?c = 0"
    by (simp_all add: queue_at_def demo_msgs_def demo_receiver_def fresh_config_def)
  have f: "\<not> flag_set (msgrcv_msgflg ?c) x" for x by (simp add: demo_receiver_def fresh_config_def flag_set_def)
  have "select_message ?c ?l = Some 1"
    using m f by (simp add: select_message_def matches_def)
  moreover have "fst (msg_deliver ?c (demo_queue ?l) (demo_msg 2 5) ?s) = 5"
    by (subst deliver_total) (simp_all add: demo_msgs_def total_memory_def demo_msg_def demo_receiver_def unat_index)
  moreover obtain a b d where "msg_deliver ?c (demo_queue ?l) (demo_msg 2 5) ?s = (a, b, d)" by (metis prod_cases3)
  ultimately have st: "st = 5"
    using r q f by (simp add: do_msgrcv_def Let_def demo_queue_def)
  have k: "0 < length (queues (spaces ?s (space ?c)))" by (simp add: demo_msgs_def)
  have "\<exists>older m newer. items (demo_queue ?l) = older @ m # newer \<and> (\<forall>m' \<in> set older. \<not> matches ?c m') \<and> matches ?c m \<and>
    items (queue_at s' (space ?c) 0) = older @ newer \<and>
    (stats_ok (demo_queue ?l) \<longrightarrow> stats_ok (queue_at s' (space ?c) 0)) \<and>
    st = int (min (length (mtext m)) (unat (msgrcv_msgsz ?c)))"
    by (rule msgrcv_oldest_match [OF r _ _ _ k]) (use st q f m in \<open>auto simp: demo_queue_def\<close>)
  then obtain older x newer where o: "?l = older @ x # newer" "\<forall>m' \<in> set older. \<not> matches ?c m'" "matches ?c x"
    "items (queue_at s' 0 0) = older @ newer"
    using q(3) by (auto simp: demo_queue_def)
  have "older = [demo_msg 1 3]"
  proof (cases older)
    case Nil
    with o(1,3) m(1) show ?thesis by simp
  next
    case (Cons y ys)
    with o(1,2) m(2) show ?thesis by (cases ys) auto
  qed
  with o(1,4) r st show ?thesis by (intro exI [of _ st] exI [of _ s']) simp
qed

lemma wake_receiver_other: "wait_reason (cs ! j) = WR_NOT_WAITING \<Longrightarrow> j < length cs \<Longrightarrow> wake_receiver n k ty cs ! j = cs ! j"
proof (induction cs arbitrary: j)
  case (Cons c cs)
  then show ?case by (cases j) (auto simp: waits_for_def)
qed simp

lemma wake_receiver_length [simp]: "length (wake_receiver n k ty cs) = length cs"
  by (induction cs) auto

lemma write_mem_ok:
  assumes "write_mem c a bs s = (e, s')" "\<not> e < 0" "mem s (pid_of c) = m"
    and "\<And>m'. write_data m a bs = (None, m') \<Longrightarrow> mem s' (pid_of c) = m' \<Longrightarrow> thesis"
  shows thesis
proof (cases "write_data m a bs")
  case (Pair r m')
  show ?thesis
  proof (cases r)
    case None
    with Pair assms(1,3) show ?thesis by (intro assms(4) [of m']) (auto simp: write_mem_def)
  next
    case (Some x)
    with Pair assms(1-3) write_data_error [of m a bs x m'] show ?thesis by (auto simp: write_mem_def)
  qed
qed

text \<open>Eight bytes that are read as a type and written as one.\<close>

lemma le_bytes_value: "length bs = n \<Longrightarrow> le_bytes n (le_value bs) = bs"
proof (induction n arbitrary: bs)
  case (Suc n)
  then obtain b cs where bs: "bs = b # cs" "length cs = n" by (cases bs) auto
  have "le_bytes (Suc n) v = of_nat v # le_bytes n (v div 256)" for v
    unfolding le_bytes_def upt_conv_Cons [OF zero_less_Suc] map_Suc_upt [symmetric] by (simp add: div_mult2_eq)
  moreover have "unat b < 256" using unsigned_less [of b] by simp
  moreover have "(of_nat (256 * v) :: byte) = 0" for v by (subst word_of_nat_eq_0_iff) simp
  ultimately show ?case using Suc.IH [OF bs(2)] bs(1) by simp
qed (simp add: le_bytes_def)

lemma le_value_small: "le_value bs < 256 ^ length bs"
proof (induction bs)
  case (Cons b bs)
  have "unat b < 256" using unsigned_less [of b] by simp
  with Cons show ?case by simp
qed simp

lemma type_bytes:
  assumes "length bs = 8"
  shows "le_bytes 8 (nat (sint (of_nat (le_value bs) :: word_t) mod 2 ^ 64)) = bs"
proof -
  have "le_value bs < 2 ^ 64" using le_value_small [of bs] assms by simp
  then have u: "unat (of_nat (le_value bs) :: word_t) = le_value bs" by (simp add: unat_index)
  have "sint w mod 2 ^ 64 = uint w" for w :: word_t
    by (simp add: uint_sint take_bit_eq_mod)
  with u have "nat (sint (of_nat (le_value bs) :: word_t) mod 2 ^ 64) = le_value bs" by simp
  then show ?thesis using le_bytes_value [OF assms] by simp
qed

lemma read_words_error: "read_words m a n = Inl e \<Longrightarrow> e = EIO"
proof (induction m a n rule: read_words.induct)
  case (1 m a n)
  show ?case
  proof (cases "ptrace_peek m a")
    case (Inl e')
    with "1.prems" show ?thesis
      by (auto simp: read_words.simps [of m a n] ptrace_peek_def split: if_split_asm option.split_asm)
  next
    case (Inr w)
    with "1.prems" have n: "n \<noteq> 0" "\<not> n < 8" by (auto simp: read_words.simps [of m a n] split: if_split_asm)
    with Inr "1.prems" have "read_words m (a + 8) (n - 8) = Inl e"
      by (auto simp: read_words.simps [of m a n] split: sum.split_asm)
    from "1.IH" [OF n(1) Inr n(2) this] show ?thesis .
  qed
qed

lemma read_data_error: "read_data m a n = Inl e \<Longrightarrow> e = EIO"
  by (auto simp: read_data_def dest: read_words_error split: if_split_asm option.split_asm)

text \<open>What a delivery leaves in the memory of the receiver.\<close>

lemma deliver_memory:
  assumes "msg_deliver c q m s = (st, q', s')" "0 \<le> st" "length (mtext m) < 2 ^ 63"
  shows "read_data (mem s' (pid_of c)) (msgrcv_msgp c) 8 = Inr (le_bytes 8 (nat (mtype m mod 2 ^ 64))) \<and>
    read_data (mem s' (pid_of c)) (msgrcv_msgp c + 8) (nat st) = Inr (take (nat st) (mtext m))"
proof -
  obtain bs where bs: "le_bytes 8 (nat (mtype m mod 2 ^ 64)) = bs" by blast
  have lb: "length bs = 8" using bs by (auto simp: le_bytes_def)
  let ?len = "if length (mtext m) > unat (msgrcv_msgsz c) then unat (msgrcv_msgsz c) else length (mtext m)"
  let ?t = "take ?len (mtext m)"
  obtain e1 s2 where w1: "write_mem c (msgrcv_msgp c) bs s = (e1, s2)" by fastforce
  obtain e2 s3 where w2: "write_mem c (msgrcv_msgp c + 8) ?t s2 = (e2, s3)" by fastforce
  have "msg_deliver c q m s = (if length (mtext m) > unat (msgrcv_msgsz c) \<and> \<not> flag_set (msgrcv_msgflg c) MSG_NOERROR then (err E2BIG, q, s)
      else if e1 < 0 then (e1, q, s2) else if e2 < 0 then (e2, q, s3)
      else (int ?len, q\<lparr>stats := (stats q)\<lparr>msg_lrpid := pid_of c, msg_rtime := clock s3\<rparr>\<rparr>, s3))"
    by (simp only: msg_deliver_def Let_def bs w1 w2 prod.case)
  then have e: "\<not> e1 < 0" "\<not> e2 < 0" "s' = s3" and st: "st = int ?len"
    using assms(1,2) by (auto simp: errno_num.simps split: if_split_asm)
  have t: "take (nat st) (mtext m) = ?t" "length ?t = nat st" "length ?t < 2 ^ 63" using st assms(3) by auto
  from write_mem_ok [OF w1 e(1) refl] obtain m1 where m1: "write_data (mem s (pid_of c)) (msgrcv_msgp c) bs = (None, m1)" "mem s2 (pid_of c) = m1"
    by blast
  from write_mem_ok [OF w2 e(2) m1(2)] obtain m2 where m2: "write_data m1 (msgrcv_msgp c + 8) ?t = (None, m2)" "mem s3 (pid_of c) = m2"
    by blast
  have "read_data m1 (msgrcv_msgp c) 8 = Inr bs" using write_read_roundtrip_fact [OF m1(1)] lb by simp
  moreover have "read_data m2 (msgrcv_msgp c) 8 = read_data m1 (msgrcv_msgp c) 8"
  proof -
    have "m2 (msgrcv_msgp c + of_nat x) = m1 (msgrcv_msgp c + of_nat x)" if "x < 8" for x
    proof -
      have "unat (msgrcv_msgp c + of_nat x - msgrcv_msgp c) < 8" using that by (simp add: unat_index)
      from offset_wrap [OF this]
      have "length ?t \<le> unat (msgrcv_msgp c + of_nat x - (msgrcv_msgp c + 8))"
        by (rule order_trans [rotated]) (use t(3) in simp)
      then show ?thesis using write_read_roundtrip_fact [OF m2(1)] t(3) by simp
    qed
    then show ?thesis unfolding read_8 ptrace_peek_def by (subst peek_same) auto
  qed
  moreover have "read_data m2 (msgrcv_msgp c + 8) (length ?t) = Inr ?t"
    by (rule conjunct1 [OF write_read_roundtrip_fact [OF m2(1)]]) (rule less_trans [OF t(3)], simp)
  then have "read_data m2 (msgrcv_msgp c + 8) (nat st) = Inr (take (nat st) (mtext m))" unfolding t(1) t(2) .
  ultimately show ?thesis using m2(2) e(3) bs by simp
qed

text \<open>What a send that succeeds has read, and the queue it leaves.\<close>

lemma msgsnd_done:
  assumes "sysvipc_msgsnd i s = (0, s1)" "a = configs s ! i" "space a = n"
  obtains k ty bs where "lookup_object q_valid q_generation (queues (spaces s n)) (arg SYSARG_1 a) = Some k"
    "read_data (mem s (pid_of a)) (arg SYSARG_2 a) 8 = Inr ty"
    "read_data (mem s (pid_of a)) (arg SYSARG_2 a + 8) (unat (arg SYSARG_3 a)) = Inr bs"
    "unat (arg SYSARG_3 a) \<le> SYSVIPC_MAX_MSG_SIZE"
    "s1 = send_message i k \<lparr>mtype = sint (of_nat (le_value ty) :: word_t), mtext = bs\<rparr> s"
proof -
  let ?len = "unat (arg SYSARG_3 a)" and ?p = "arg SYSARG_2 a" and ?m = "mem s (pid_of a)"
  note d = sysvipc_msgsnd_def [of i s, unfolded Let_def read_mem_def, folded assms(2), unfolded assms(3)]
  have ne: "err e \<noteq> 0" if "read_data m x l = Inl e" for e m x l using read_data_error [OF that] by simp
  from assms(1) obtain k where k: "lookup_object q_valid q_generation (queues (spaces s n)) (arg SYSARG_1 a) = Some k"
    unfolding d by (cases "lookup_object q_valid q_generation (queues (spaces s n)) (arg SYSARG_1 a)") auto
  have l: "?len \<noteq> 0" "?len \<le> SYSVIPC_MAX_MSG_SIZE" using assms(1) unfolding d k by (auto split: if_splits)
  obtain ty where ty: "read_data ?m ?p 8 = Inr ty"
    using assms(1) l ne unfolding d k by (cases "read_data ?m ?p 8") auto
  obtain bs where bs: "read_data ?m (?p + 8) ?len = Inr bs"
    using assms(1) l ne unfolding d k option.case ty sum.case
    by (cases "read_data ?m (?p + 8) ?len") (auto split: if_splits)
  show thesis
    using assms(1) l unfolding d k option.case ty sum.case bs by (intro that [OF k ty bs l(2)]) (auto split: if_splits)
qed

lemma lookup_object_less: "lookup_object ok gen objs w = Some k \<Longrightarrow> k < length objs"
  by (auto simp: lookup_object_def Let_def split: if_splits)

lemma lookup_object_same:
  assumes "length ys = length xs" "\<And>l. l < length xs \<Longrightarrow> ok (ys ! l) = ok (xs ! l) \<and> gen (ys ! l) = gen (xs ! l)"
  shows "lookup_object ok gen ys w = lookup_object ok gen xs w"
proof (cases "id_slot w = 0 \<or> id_slot w > length xs")
  case False
  then have "id_slot w - 1 < length xs" by auto
  from assms(2) [OF this] False assms(1) show ?thesis by (simp add: lookup_object_def Let_def)
qed (simp add: lookup_object_def assms(1) Let_def)

lemma first_match_last: "(\<forall>x \<in> set xs. \<not> f x) \<Longrightarrow> f m \<Longrightarrow> first_match f (xs @ [m]) = Some (length xs)"
  by (induction xs) auto

text \<open>What a message queue holds after a send, and the object that a number names.\<close>

lemma send_message_after:
  assumes "space (configs s ! i) = n" "k < length (queues (spaces s n))"
  shows "items (queue_at (send_message i k m s) n k) = items (queue_at s n k) @ [m]"
    "mem (send_message i k m s) = mem s"
    "lookup_object q_valid q_generation (queues (spaces (send_message i k m s) n)) w =
       lookup_object q_valid q_generation (queues (spaces s n)) w"
proof -
  obtain q where q: "queues (spaces (send_message i k m s) n) = (queues (spaces s n))[k := q]"
    "items q = items (queue_at s n k) @ [m]" "q_valid q = q_valid (queue_at s n k)" "q_generation q = q_generation (queue_at s n k)"
    using assms by (simp add: send_message_def set_queue_def set_space_def put_message_def queue_at_def Let_def)
  then show "items (queue_at (send_message i k m s) n k) = items (queue_at s n k) @ [m]"
    using assms(2) by (simp add: queue_at_def)
  show "mem (send_message i k m s) = mem s" by (simp add: send_message_def set_queue_def set_space_def Let_def)
  show "lookup_object q_valid q_generation (queues (spaces (send_message i k m s) n)) w =
       lookup_object q_valid q_generation (queues (spaces s n)) w"
  proof (rule lookup_object_same)
    show "q_valid (queues (spaces (send_message i k m s) n) ! l) = q_valid (queues (spaces s n) ! l) \<and>
      q_generation (queues (spaces (send_message i k m s) n) ! l) = q_generation (queues (spaces s n) ! l)"
      if "l < length (queues (spaces s n))" for l
      using q that by (cases "l = k") (simp_all add: queue_at_def)
  qed (simp add: q(1))
qed

text \<open>
  C19: what is sent is what arrives. A tracee sends a message, another one that does not wait asks the same
  queue for a message of a type that this one has and no older one of the queue has (or for any, from an empty
  queue). When both calls succeed, the receiver finds, behind the address it gave, the eight bytes of the type and,
  after them, the text that the sender had at the address that it gave, cut to the size of the buffer; the
  result is the length of what was copied, and the queue holds what it held before.
\<close>

theorem msg_roundtrip:
  assumes "sysvipc_msgsnd i s = (0, s1)" "sysvipc_msgrcv j s1 = (st, s2)" "0 \<le> st"
    and "a = configs s ! i" "c = configs s ! j" "j < length (configs s)" "wait_reason c = WR_NOT_WAITING"
    and "space a = n" "space c = n" "lookup_object q_valid q_generation (queues (spaces s n)) (arg SYSARG_1 c) = Some k"
    and "lookup_object q_valid q_generation (queues (spaces s n)) (arg SYSARG_1 a) = Some k"
    and "flg = ucast (arg SYSARG_5 c)" "\<not> flag_set flg MSG_COPY" "read_data (mem s (pid_of a)) (arg SYSARG_2 a) 8 = Inr ty"
    and "msg_match (as_int (sint (of_nat (le_value ty) :: word_t))) (int_arg (arg SYSARG_4 c)) flg"
    and "\<forall>x \<in> set (items (queue_at s n k)). \<not> msg_match (as_int (mtype x)) (int_arg (arg SYSARG_4 c)) flg"
  shows "\<exists>bs. read_data (mem s (pid_of a)) (arg SYSARG_2 a + 8) (unat (arg SYSARG_3 a)) = Inr bs \<and>
    st = int (min (unat (arg SYSARG_3 a)) (unat (word_of_int (int_arg (arg SYSARG_3 c)) :: word_t))) \<and>
    read_data (mem s2 (pid_of c)) (arg SYSARG_2 c) 8 = Inr ty \<and>
    read_data (mem s2 (pid_of c)) (arg SYSARG_2 c + 8) (nat st) = Inr (take (nat st) bs) \<and>
    items (queue_at s2 n k) = items (queue_at s n k)"
proof -
  from msgsnd_done [OF assms(1,4,8)] assms(11,14) obtain bs
    where bs: "read_data (mem s (pid_of a)) (arg SYSARG_2 a + 8) (unat (arg SYSARG_3 a)) = Inr bs"
      and small: "unat (arg SYSARG_3 a) \<le> SYSVIPC_MAX_MSG_SIZE"
      and s1: "s1 = send_message i k \<lparr>mtype = sint (of_nat (le_value ty) :: word_t), mtext = bs\<rparr> s"
    by (metis option.inject sum.inject(2))
  define m where "m = \<lparr>mtype = sint (of_nat (le_value ty) :: word_t), mtext = bs\<rparr>"
  define c' where "c' = c\<lparr>msgrcv_msgp := arg SYSARG_2 c, msgrcv_msgsz := word_of_int (int_arg (arg SYSARG_3 c)),
    msgrcv_msgtyp := int_arg (arg SYSARG_4 c), msgrcv_msgflg := flg\<rparr>"
  have c' [simp]: "space c' = n" "pid_of c' = pid_of c" "msgrcv_msgp c' = arg SYSARG_2 c" "msgrcv_msgflg c' = flg"
    "msgrcv_msgsz c' = word_of_int (int_arg (arg SYSARG_3 c))" "msgrcv_msgtyp c' = int_arg (arg SYSARG_4 c)"
    using assms(9) by (simp_all add: c'_def pid_of_def)
  note k = lookup_object_less [OF assms(10)]
  have na: "space (configs s ! i) = n" using assms(4,8) by simp
  note after = send_message_after [OF na k, of m, folded s1 [folded m_def]]
  have cj: "configs s1 ! j = c" "length (configs s1) = length (configs s)"
    using assms(5-7) by (simp_all add: s1 send_message_def set_queue_def set_space_def Let_def wake_receiver_other)
  define t where "t = set_config j c' s1"
  have t: "configs t ! j = c'" "spaces t = spaces s1" "mem t = mem s"
    using cj assms(6) after(2) by (simp_all add: t_def set_config_def)
  have rcv: "do_msgrcv j k t = (st, s2)"
    using assms(2,9,10,12) after(3) cj(1) by (simp add: sysvipc_msgrcv_def Let_def t_def c'_def)
  have q: "queue_at t n k = queue_at s1 n k" by (simp add: queue_at_def t)
  have sel: "select_message c' (items (queue_at t n k)) = Some (length (items (queue_at s n k)))"
    unfolding q after(1) using assms(13,15,16) by (simp add: select_message_def m_def first_match_last)
  have flags: "\<not> flag_set flg (NOT (IPC_NOWAIT OR MSG_NOERROR OR MSG_COPY OR MSG_EXCEPT))"
    using rcv assms(3) by (auto simp: do_msgrcv_def t Let_def split: if_splits)
  obtain st1 q1 s3 where d: "msg_deliver c' (queue_at t n k) m t = (st1, q1, s3)" by (metis prod_cases3)
  have "do_msgrcv j k t = (st1, set_queue n k (if st1 \<ge> 0 then take_message (length (items (queue_at s n k))) q1 else q1) s3)"
    unfolding do_msgrcv_def Let_def t(1) c'(1) using flags assms(13) sel d by (simp add: q after(1))
  with rcv assms(3) have r: "st = st1" "s2 = set_queue n k (take_message (length (items (queue_at s n k))) q1) s3" by auto
  have lb: "length bs = unat (arg SYSARG_3 a)" using read_data_length [OF bs] .
  have "length (mtext m) < 2 ^ 63" using small lb by (simp add: m_def SYSVIPC_MAX_MSG_SIZE_def)
  note mem = deliver_memory [OF d assms(3) [unfolded r(1)] this] and fr = deliver_frame [OF d]
  have m2: "mem s2 = mem s3" by (simp add: r(2) set_queue_def set_space_def Let_def)
  have "length ty = 8" using read_data_length [OF assms(14)] .
  then have "le_bytes 8 (nat (mtype m mod 2 ^ 64)) = ty" using type_bytes by (simp add: m_def)
  moreover have "items (queue_at s2 n k) = items (queue_at s n k)"
  proof -
    have "k < length (queues (spaces s3 n))" using k fr(7) s1 na
      by (simp add: t send_message_def set_queue_def set_space_def Let_def)
    from queue_at_set [OF this] fr(1) after(1) q show ?thesis by (simp add: r(2) take_message_def remove_nth_def)
  qed
  moreover have "st = int (min (length bs) (unat (msgrcv_msgsz c')))" using fr(8) assms(3) r(1) by (simp add: m_def)
  ultimately show ?thesis using bs mem lb by (simp add: m2 m_def r(1))
qed

text \<open>The sender, process 1, has the type 7 at \<^verbatim>\<open>0x200\<close> and three bytes behind it; the receiver is process 2.\<close>

definition sender_memory :: memory where
  "sender_memory = (\<lambda>x. Some (if x = 0x200 then 7 else if x = 0x208 then 1 else if x = 0x209 then 2 else if x = 0x20A then 3 else 0))"

definition demo_exchange :: ipc where
  "demo_exchange = (demo_msgs [fresh_config (demo_thread [(0, 1), (1, 0x200), (2, 3), (3, 0)]) 0 0,
     fresh_config ((demo_thread [(0, 1), (1, 0x100), (2, 64), (3, 7), (4, 0)])\<lparr>th_pid := 2\<rparr>) 0 0] [demo_msg 5 1])
     \<lparr>mem := (\<lambda>p. if p = 1 then sender_memory else (\<lambda>_. Some 0))\<rparr>"

lemma demo_exchange_memory:
  "read_data (mem demo_exchange 1) 0x200 8 = Inr [7, 0, 0, 0, 0, 0, 0, 0]" "read_data (mem demo_exchange 1) 0x208 3 = Inr [1, 2, 3]"
proof -
  have m: "mem demo_exchange 1 = sender_memory" by (simp add: demo_exchange_def)
  have p: "ptrace_peek sender_memory 0x200 = Inr [7, 0, 0, 0, 0, 0, 0, 0]" "ptrace_peek sender_memory 0x208 = Inr [1, 2, 3, 0, 0, 0, 0, 0]"
    by (simp_all add: ptrace_peek_def peek_bytes_def sender_memory_def upt_rec [of _ 8])
  then show "read_data (mem demo_exchange 1) 0x200 8 = Inr [7, 0, 0, 0, 0, 0, 0, 0]" by (simp only: m read_8)
  from p show "read_data (mem demo_exchange 1) 0x208 3 = Inr [1, 2, 3]"
    by (simp add: m read_data_def VM_FAST_THRESHOLD_def read_words.simps [of _ _ 3])
qed

lemma demo_exchange_lookup: "lookup_object q_valid q_generation (queues (spaces demo_exchange 0)) 1 = Some 0"
  by (simp add: lookup_object_def demo_exchange_def demo_msgs_def demo_queue_def id_slot_def id_generation_def)

lemma demo_exchange_configs:
  "configs demo_exchange ! 0 = fresh_config (demo_thread [(0, 1), (1, 0x200), (2, 3), (3, 0)]) 0 0"
  "configs demo_exchange ! Suc 0 = fresh_config ((demo_thread [(0, 1), (1, 0x100), (2, 64), (3, 7), (4, 0)])\<lparr>th_pid := 2\<rparr>) 0 0"
  by (simp_all add: demo_exchange_def demo_msgs_def)

lemma msgsnd_succeeds:
  assumes "a = configs s ! i" "lookup_object q_valid q_generation (queues (spaces s (space a))) (arg SYSARG_1 a) = Some k"
    and "0 < unat (arg SYSARG_3 a)" "unat (arg SYSARG_3 a) \<le> SYSVIPC_MAX_MSG_SIZE"
    and "read_data (mem s (pid_of a)) (arg SYSARG_2 a) 8 = Inr ty" "1 \<le> sint (of_nat (le_value ty) :: word_t)"
    and "read_data (mem s (pid_of a)) (arg SYSARG_2 a + 8) (unat (arg SYSARG_3 a)) = Inr bs"
  shows "sysvipc_msgsnd i s = (0, send_message i k \<lparr>mtype = sint (of_nat (le_value ty) :: word_t), mtext = bs\<rparr> s)"
  using assms(2-7) unfolding sysvipc_msgsnd_def Let_def read_mem_def assms(1) [symmetric] by simp

lemma demo_exchange_sent: "sysvipc_msgsnd 0 demo_exchange = (0, send_message 0 0 \<lparr>mtype = 7, mtext = [1, 2, 3]\<rparr> demo_exchange)"
proof -
  let ?a = "configs demo_exchange ! 0"
  have a: "space ?a = 0" "pid_of ?a = 1" "arg SYSARG_1 ?a = 1" "arg SYSARG_2 ?a = 0x200" "arg SYSARG_3 ?a = 3"
    by (simp_all add: demo_exchange_configs fresh_config_def arg_def demo_thread_def peek_reg_def pid_of_def)
  show ?thesis
    using msgsnd_succeeds [OF refl, of demo_exchange 0 0 "[7, 0, 0, 0, 0, 0, 0, 0]" "[1, 2, 3]"] a demo_exchange_lookup demo_exchange_memory
    by (simp add: SYSVIPC_MAX_MSG_SIZE_def)
qed

theorem msg_roundtrip_witness:
  "\<exists>s1 s2. sysvipc_msgsnd 0 demo_exchange = (0, s1) \<and> sysvipc_msgrcv 1 s1 = (3, s2) \<and>
     read_data (mem s2 2) 0x100 8 = Inr [7, 0, 0, 0, 0, 0, 0, 0] \<and> read_data (mem s2 2) 0x108 3 = Inr [1, 2, 3] \<and>
     items (queue_at s2 0 0) = [demo_msg 5 1]"
proof -
  let ?m = "\<lparr>mtype = 7, mtext = [1, 2, 3]\<rparr>" and ?a = "configs demo_exchange ! 0" and ?c = "configs demo_exchange ! 1"
  let ?s = "send_message 0 0 ?m demo_exchange"
  have a: "space ?a = 0" "pid_of ?a = 1" "arg SYSARG_1 ?a = 1" "arg SYSARG_2 ?a = 0x200" "arg SYSARG_3 ?a = 3"
    by (simp_all add: demo_exchange_configs fresh_config_def arg_def demo_thread_def peek_reg_def pid_of_def)
  have c: "space ?c = 0" "pid_of ?c = 2" "wait_reason ?c = WR_NOT_WAITING" "arg SYSARG_1 ?c = 1" "arg SYSARG_2 ?c = 0x100"
    "arg SYSARG_3 ?c = 64" "int_arg (arg SYSARG_4 ?c) = 7" "ucast (arg SYSARG_5 ?c) = (0 :: u32)"
    by (simp_all add: demo_exchange_configs fresh_config_def arg_def demo_thread_def peek_reg_def pid_of_def int_arg_def)
  have n: "length (configs demo_exchange) = 2" "length (queues (spaces demo_exchange 0)) = 1" "items (queue_at demo_exchange 0 0) = [demo_msg 5 1]"
    by (simp_all add: demo_exchange_def demo_msgs_def queue_at_def demo_queue_def)
  note after = send_message_after [OF a(1), of 0 ?m, unfolded n, simplified]
  obtain st s2 where r: "sysvipc_msgrcv 1 ?s = (st, s2)" by fastforce
  define c' where "c' = ?c\<lparr>msgrcv_msgp := 0x100, msgrcv_msgsz := 64, msgrcv_msgtyp := 7, msgrcv_msgflg := 0\<rparr>"
  define t where "t = set_config 1 c' ?s"
  have cj: "configs ?s ! 1 = ?c"
    using c(3) n(1) by (simp add: send_message_def set_queue_def set_space_def Let_def wake_receiver_other)
  have t: "configs t ! Suc 0 = c'" "queue_at t 0 0 = queue_at ?s 0 0" "mem t = mem demo_exchange" "space c' = 0" "pid_of c' = 2"
    using n(1) after(2) c by (simp_all add: t_def set_config_def queue_at_def c'_def pid_of_def send_message_def set_queue_def set_space_def Let_def)
  have d: "do_msgrcv 1 0 t = (st, s2)"
    using r c demo_exchange_lookup after(3) cj
    by (simp add: sysvipc_msgrcv_def Let_def t_def c'_def int_arg_def)
  have "select_message c' (items (queue_at t 0 0)) = Some 1"
    by (simp add: t after(1) n select_message_def c'_def flag_set_def msg_match_def demo_msg_def as_int_def)
  moreover have "fst (msg_deliver c' (queue_at t 0 0) ?m t) = 3"
    by (subst deliver_total) (simp_all add: t demo_exchange_def total_memory_def c'_def sender_memory_def)
  moreover have "\<not> flag_set (msgrcv_msgflg c') x" for x by (simp add: c'_def flag_set_def)
  moreover obtain x y z where "msg_deliver c' (queue_at t 0 0) ?m t = (x, y, z)" by (metis prod_cases3)
  ultimately have st: "st = 3" using d by (simp add: do_msgrcv_def Let_def t after(1) n)
  show ?thesis
    using msg_roundtrip [OF demo_exchange_sent r _ refl refl _ c(3) a(1) c(1)] st r demo_exchange_sent demo_exchange_lookup
      demo_exchange_memory a c n by (simp add: flag_set_def msg_match_def demo_msg_def as_int_def)
qed

section \<open>A receiver that stops the tracer\<close>

text \<open>
  A queue that is removed between a send and the retry of its receiver stops the tracer. The send tells
  the receiver to try again and forgets that it waits, so the removal does not tell it that the queue is
  gone, and the retry fails the assertion that the queue is valid.
\<close>

theorem msgrcv_retry_crash:
  assumes "j < length (configs s)" "c = configs s ! j" "waits_for WR_WAIT_QUEUE_RECV n k c" "matches c m"
    and "\<forall>l<j. \<not> (waits_for WR_WAIT_QUEUE_RECV n k (configs s ! l) \<and> matches (configs s ! l) m)"
    and "space (configs s ! i) = n" "k < length (queues (spaces s n))"
  shows "sysvipc_msgrcv_retry j (remove_queue n k (send_message i k m s)) = Inl Crash"
proof -
  let ?t = "send_message i k m s"
  have "wake_receiver n k (mtype m) cs ! j = wake_tracee (err EAGAIN) ((cs ! j)\<lparr>chain_state := CSTATE_MSGRCV_RETRY\<rparr>)"
    if "j < length cs" "waits_for WR_WAIT_QUEUE_RECV n k (cs ! j)" "matches (cs ! j) m"
      "\<forall>l<j. \<not> (waits_for WR_WAIT_QUEUE_RECV n k (cs ! l) \<and> matches (cs ! l) m)" for cs
    using that
  proof (induction cs arbitrary: j)
    case (Cons x cs)
    show ?case
    proof (cases j)
      case 0
      with Cons.prems show ?thesis by (simp add: matches_def)
    next
      case (Suc l)
      with Cons.prems have "\<not> (waits_for WR_WAIT_QUEUE_RECV n k x \<and> matches x m)" by auto
      then have "wake_receiver n k (mtype m) (x # cs) = x # wake_receiver n k (mtype m) cs" by (auto simp: matches_def)
      moreover have "\<forall>l'<l. \<not> (waits_for WR_WAIT_QUEUE_RECV n k (cs ! l') \<and> matches (cs ! l') m)"
        using Cons.prems(4) Suc by auto
      ultimately show ?thesis using Cons.IH [of l] Cons.prems(1-3) Suc by (simp del: wake_receiver.simps)
    qed
  qed simp
  then have "wake_receiver n k (mtype m) (configs s) ! j = wake_tracee (err EAGAIN) (c\<lparr>chain_state := CSTATE_MSGRCV_RETRY\<rparr>)"
    using assms(1-5) by simp
  then have cj: "configs ?t ! j = wake_tracee (err EAGAIN) (c\<lparr>chain_state := CSTATE_MSGRCV_RETRY\<rparr>)"
    and len: "length (configs ?t) = length (configs s)"
    using assms(6) by (simp_all add: send_message_def set_queue_def set_space_def Let_def wake_receiver_length)
  let ?d = "wake_tracee (err EAGAIN) (c\<lparr>chain_state := CSTATE_MSGRCV_RETRY\<rparr>)"
  have d: "wait_reason ?d = WR_NOT_WAITING" "chain_state ?d = CSTATE_MSGRCV_RETRY" "status_after_wait ?d = err EAGAIN"
    "space ?d = n" "waiting_object_index ?d = k"
    using assms(3) by (simp_all add: wake_tracee_def waits_for_def Let_def)
  let ?u = "remove_queue n k ?t"
  have "configs ?u ! j = ?d"
    using cj len assms(1) d(1) by (simp add: remove_queue_def set_queue_def set_space_def wake_all_removed_def waits_for_def Let_def)
  moreover have "\<not> q_valid (queues (spaces ?u n) ! k)"
    using assms(6,7) by (simp add: remove_queue_def set_queue_def set_space_def send_message_def Let_def)
  ultimately show ?thesis using d by (simp add: sysvipc_msgrcv_retry_def Let_def)
qed

theorem msgrcv_retry_crash_witness:
  "sysvipc_msgrcv_retry 1 (remove_queue 0 0 (send_message 0 0 (demo_msg 7 3)
     (demo_msgs [demo_receiver 0, (demo_receiver 0)\<lparr>wait_reason := WR_WAIT_QUEUE_RECV, wait_state := WSTATE_ENTERED_PPOLL\<rparr>] []))) = Inl Crash"
proof -
  let ?w = "(demo_receiver 0)\<lparr>wait_reason := WR_WAIT_QUEUE_RECV, wait_state := WSTATE_ENTERED_PPOLL\<rparr>"
  let ?s = "demo_msgs [demo_receiver 0, ?w] []"
  have "waits_for WR_WAIT_QUEUE_RECV 0 0 ?w" "matches ?w (demo_msg 7 3)" "\<not> waits_for WR_WAIT_QUEUE_RECV 0 0 (demo_receiver 0)"
    by (simp_all add: waits_for_def demo_receiver_def fresh_config_def matches_def msg_match_def flag_set_def)
  then show ?thesis
    by (intro msgrcv_retry_crash [of 1 ?s ?w]) (simp_all add: demo_msgs_def demo_receiver_def fresh_config_def)
qed

end
