(* ===== verification/Ipc_Spec.thy ===== *)
theory Ipc_Spec
  imports Ipc_Main Ipc_Sem_Spec Ipc_Msg_Spec
begin

text \<open>
  What holds of the emulation in every state it can reach: the values of the semaphores are bounded, the
  statistics of the queues are right, a shared segment lives exactly as long as it is needed. And how a
  tracee that waits comes to its result.
\<close>

section \<open>What an operation leaves alone\<close>

definition sem_view :: "ipc \<Rightarrow> nat \<Rightarrow> sem_set list" where "sem_view s = (\<lambda>n. semaphores (spaces s n))"
definition queue_view :: "ipc \<Rightarrow> nat \<Rightarrow> msg_queue list" where "queue_view s = (\<lambda>n. queues (spaces s n))"
definition shm_view :: "ipc \<Rightarrow> nat \<Rightarrow> shm_seg list" where "shm_view s = (\<lambda>n. shms (spaces s n))"

text \<open>The same objects, as far as semaphores, queues or shared memory are concerned.\<close>

definition same_sems :: "ipc \<Rightarrow> ipc \<Rightarrow> bool" where
  "same_sems s s' \<longleftrightarrow> sem_view s' = sem_view s"

definition same_queues :: "ipc \<Rightarrow> ipc \<Rightarrow> bool" where
  "same_queues s s' \<longleftrightarrow> queue_view s' = queue_view s"

definition same_shms :: "ipc \<Rightarrow> ipc \<Rightarrow> bool" where
  "same_shms s s' \<longleftrightarrow> shm_view s' = shm_view s \<and> mappings s' = mappings s"

lemmas same_defs = same_sems_def same_queues_def same_shms_def sem_view_def queue_view_def shm_view_def

lemma same_refl [simp]: "same_sems s s" "same_queues s s" "same_shms s s"
  by (simp_all add: same_defs)

lemma same_trans:
  "same_sems s s' \<Longrightarrow> same_sems s' s'' \<Longrightarrow> same_sems s s''"
  "same_queues s s' \<Longrightarrow> same_queues s' s'' \<Longrightarrow> same_queues s s''"
  "same_shms s s' \<Longrightarrow> same_shms s' s'' \<Longrightarrow> same_shms s s''"
  by (simp_all add: same_sems_def same_queues_def same_shms_def)

lemma same_config [simp]:
  "same_sems s (set_config i c s)" "same_queues s (set_config i c s)" "same_shms s (set_config i c s)"
  "same_sems s (on_config i f s)" "same_queues s (on_config i f s)" "same_shms s (on_config i f s)"
  "same_sems s (on_thread i g s)" "same_queues s (on_thread i g s)" "same_shms s (on_thread i g s)"
  "same_sems s (s\<lparr>configs := cs\<rparr>)" "same_queues s (s\<lparr>configs := cs\<rparr>)" "same_shms s (s\<lparr>configs := cs\<rparr>)"
  by (simp_all add: same_defs set_config_def on_config_def on_thread_def)

lemma same_config_right [simp]:
  "same_sems s (set_config i c s') = same_sems s s'" "same_queues s (set_config i c s') = same_queues s s'"
  "same_shms s (set_config i c s') = same_shms s s'"
  "same_sems s (on_config i f s') = same_sems s s'" "same_queues s (on_config i f s') = same_queues s s'"
  "same_shms s (on_config i f s') = same_shms s s'"
  by (simp_all add: same_defs set_config_def on_config_def)

lemma same_write:
  assumes "write_mem c a bs s = (st, s')"
  shows "same_sems s s'" "same_queues s s'" "same_shms s s'"
  using write_mem_frame [OF assms] by (simp_all add: same_defs)

lemma same_set_queue: "same_sems s (set_queue n k q s)" "same_shms s (set_queue n k q s)"
  by (auto simp: same_defs set_queue_def set_space_def Let_def)

lemma same_set_sems: "same_queues s (set_sems n k v s)" "same_shms s (set_sems n k v s)"
  by (auto simp: same_defs set_sems_def set_space_def Let_def)

lemma same_set_seg: "same_queues s (set_seg n k g s)" "same_sems s (set_seg n k g s)"
  by (auto simp: same_defs set_seg_def set_space_def Let_def)

section \<open>Messages\<close>

text \<open>The ways \<open>do_msgrcv\<close> may end.\<close>

lemma do_msgrcv_cases:
  assumes "do_msgrcv i k s = (st, s')"
  obtains (unchanged) "s' = s"
  | (waits) "st = 0" "s' = set_config i ((configs s ! i)\<lparr>wait_reason := WR_WAIT_QUEUE_RECV, waiting_object_index := k\<rparr>) s"
  | (delivered) j q1 s1 where "j < length (items (queue_at s (space (configs s ! i)) k))"
      "msg_deliver (configs s ! i) (queue_at s (space (configs s ! i)) k) (items (queue_at s (space (configs s ! i)) k) ! j) s = (st, q1, s1)"
      "s' = set_queue (space (configs s ! i)) k
         (if st \<ge> 0 \<and> \<not> flag_set (msgrcv_msgflg (configs s ! i)) MSG_COPY then take_message j q1 else q1) s1"
proof -
  obtain c where c: "configs s ! i = c" by blast
  obtain q where q: "queue_at s (space c) k = q" by blast
  let ?A = "flag_set (msgrcv_msgflg c) (NOT (IPC_NOWAIT OR MSG_NOERROR OR MSG_COPY OR MSG_EXCEPT))"
  let ?B = "flag_set (msgrcv_msgflg c) MSG_COPY \<and> (\<not> flag_set (msgrcv_msgflg c) IPC_NOWAIT \<or> flag_set (msgrcv_msgflg c) MSG_EXCEPT)"
  show thesis
  proof (cases "?A \<or> ?B")
    case True
    with assms have "s' = s" unfolding do_msgrcv_def Let_def c q by (auto split: if_split_asm)
    then show ?thesis by (rule unchanged)
  next
    case False
    show ?thesis
    proof (cases "select_message c (items q)")
      case None
      from False have n: "?A = False" "?B = False" by blast+
      have "(if flag_set (msgrcv_msgflg c) IPC_NOWAIT then (err ENOMSG, s)
           else (0, set_config i (c\<lparr>wait_reason := WR_WAIT_QUEUE_RECV, waiting_object_index := k\<rparr>) s)) = (st, s')"
        using assms unfolding do_msgrcv_def Let_def c q by (simp only: n if_False None option.case)
      then show ?thesis using unchanged waits c by (cases "flag_set (msgrcv_msgflg c) IPC_NOWAIT") simp_all
    next
      case (Some j)
      have j: "j < length (items q)"
        using Some first_match_Some by (auto simp: select_message_def split: if_split_asm)
      obtain st1 q1 s1 where d: "msg_deliver c q (items q ! j) s = (st1, q1, s1)" by (metis prod_cases3)
      from False have n: "?A = False" "?B = False" by blast+
      have "(st1, set_queue (space c) k (if st1 \<ge> 0 \<and> \<not> flag_set (msgrcv_msgflg c) MSG_COPY then take_message j q1 else q1) s1) = (st, s')"
        using assms unfolding do_msgrcv_def Let_def c q by (simp only: n if_False Some option.case d prod.case)
      with d j show ?thesis by (intro delivered [of j q1 s1]) (auto simp: c q)
    qed
  qed
qed

lemma same_do_msgrcv:
  assumes "do_msgrcv i k s = (st, s')"
  shows "same_sems s s'" "same_shms s s'"
proof -
  have "same_sems s s' \<and> same_shms s s'"
    using assms
  proof (cases rule: do_msgrcv_cases)
    case (delivered j q1 s1)
    from deliver_frame(7,9) [OF delivered(2)] have "same_sems s s1" "same_shms s s1" by (simp_all add: same_defs)
    with delivered(3) show ?thesis using same_set_queue same_trans by metis
  qed simp_all
  then show "same_sems s s'" "same_shms s s'" by simp_all
qed

text \<open>A queue that is valid: the statistics are right, the generation is the first, the messages are proper.\<close>

definition queue_ok :: "msg_queue \<Rightarrow> bool" where
  "queue_ok q \<longleftrightarrow> (q_valid q \<longrightarrow> q_generation q = 0 \<and> stats_ok q \<and>
     (\<forall>m \<in> set (items q). 1 \<le> mtype m \<and> 0 < length (mtext m) \<and> length (mtext m) \<le> SYSVIPC_MAX_MSG_SIZE))"

definition queues_ok :: "ipc \<Rightarrow> bool" where
  "queues_ok s \<longleftrightarrow> (\<forall>n. \<forall>q \<in> set (queue_view s n). queue_ok q)"

lemma queues_ok_same: "same_queues s s' \<Longrightarrow> queues_ok s \<Longrightarrow> queues_ok s'"
  by (simp add: queues_ok_def same_queues_def)

lemma set_update_cases: "x \<in> set (xs[k := y]) \<Longrightarrow> x = y \<or> x \<in> set xs"
  using set_update_subset_insert [of xs k y] by blast

lemma queues_ok_set: "queues_ok s \<Longrightarrow> queue_ok q \<Longrightarrow> queues_ok (set_queue n k q s)"
  by (auto simp: queues_ok_def queue_view_def set_queue_def set_space_def Let_def dest!: set_update_cases)

lemma queue_ok_at: "queues_ok s \<Longrightarrow> k < length (queues (spaces s n)) \<Longrightarrow> queue_ok (queue_at s n k)"
  unfolding queues_ok_def queue_view_def queue_at_def using nth_mem by blast

lemma queue_ok_take: "queue_ok q \<Longrightarrow> j < length (items q) \<Longrightarrow> queue_ok (take_message j q)"
  using stats_ok_take [of q j] in_set_takeD [of _ j "items q"] in_set_dropD [of _ "Suc j" "items q"]
  by (auto simp: queue_ok_def take_message_def remove_nth_def)

lemma queues_ok_do_msgrcv:
  assumes "do_msgrcv i k s = (st, s')" "queues_ok s" "k < length (queues (spaces s (space (configs s ! i))))"
  shows "queues_ok s'"
  using assms(1)
proof (cases rule: do_msgrcv_cases)
  case (delivered j q1 s1)
  note f = deliver_frame [OF delivered(2)]
  have "queue_ok (queue_at s (space (configs s ! i)) k)" by (rule queue_ok_at [OF assms(2,3)])
  then have q1: "queue_ok q1" using f by (simp add: queue_ok_def)
  moreover have "queue_ok (take_message j q1)" by (rule queue_ok_take [OF q1]) (simp add: f(1) delivered(1))
  moreover have "queues_ok s1" using f(7) assms(2) by (simp add: queues_ok_def queue_view_def)
  ultimately show ?thesis using delivered(3) queues_ok_set by auto
qed (use assms(2) queues_ok_same in \<open>auto intro: queues_ok_same [of s]\<close>)

lemma lookup_length: "lookup_object ok gen objs w = Some k \<Longrightarrow> k < length objs \<and> ok (objs ! k) \<and> sint (gen (objs ! k)) = id_generation w"
  by (auto simp: lookup_object_def Let_def split: if_split_asm)

lemma find_slot_suffix:
  assumes "\<forall>j. u = Some j \<longrightarrow> j < length pre \<and> \<not> ok (pre ! j)"
  shows "case find_slot ok match xs (length pre) u of
      Existing k \<Rightarrow> k < length (pre @ xs) \<and> ok ((pre @ xs) ! k)
    | Unused k \<Rightarrow> k < length (pre @ xs) \<and> \<not> ok ((pre @ xs) ! k) | Grow \<Rightarrow> True"
  using assms
proof (induction xs arbitrary: pre u)
  case Nil
  then show ?case by (auto split: option.split)
next
  case (Cons x xs)
  let ?u = "if ok x then u else case u of None \<Rightarrow> Some (length pre) | Some u \<Rightarrow> Some u"
  have u: "\<forall>j. ?u = Some j \<longrightarrow> j < length (pre @ [x]) \<and> \<not> ok ((pre @ [x]) ! j)"
    using Cons.prems by (auto simp: nth_append split: option.split if_split_asm)
  show ?case
  proof (cases "ok x \<and> match x")
    case False
    then have e: "find_slot ok match (x # xs) (length pre) u = find_slot ok match xs (length (pre @ [x])) ?u" by auto
    show ?thesis unfolding e using Cons.IH [OF u] by (simp only: append_assoc append_Cons append_Nil)
  qed simp
qed

lemma find_slot_bound:
  "find_slot ok match xs 0 None = Existing k \<Longrightarrow> k < length xs \<and> ok (xs ! k)"
  "find_slot ok match xs 0 None = Unused k \<Longrightarrow> k < length xs \<and> \<not> ok (xs ! k)"
  using find_slot_suffix [where u = None and pre = "[]" and ok = ok and match = match and xs = xs] by auto

lemma queue_ok_new: "queue_ok (new_queue key)"
  by (simp add: queue_ok_def new_queue_def stats_ok_def)

lemma msgget_ok:
  assumes "sysvipc_msgget i s = (st, s')" "queues_ok s"
  shows "queues_ok s' \<and> same_sems s s' \<and> same_shms s s'"
proof -
  let ?c = "configs s ! i" and ?key = "arg SYSARG_1 (configs s ! i)"
  consider "s' = s" | k where "s' = set_space (space ?c) ((spaces s (space ?c))\<lparr>queues := (queues (spaces s (space ?c)))[k := new_queue ?key]\<rparr>) s"
    | "s' = set_space (space ?c) ((spaces s (space ?c))\<lparr>queues := queues (spaces s (space ?c)) @ [new_queue ?key]\<rparr>) s"
    using assms(1) unfolding sysvipc_msgget_def Let_def
    by (cases "find_slot q_valid (\<lambda>q. key_matches ?key (q_key q)) (queues (spaces s (space ?c))) 0 None") (auto split: if_split_asm)
  then show ?thesis
  proof cases
    case 2
    with assms(2) show ?thesis
      by (auto simp: queues_ok_def queue_view_def same_defs set_space_def queue_ok_new dest!: set_update_cases)
  next
    case 3
    with assms(2) show ?thesis
      by (auto simp: queues_ok_def queue_view_def same_defs set_space_def queue_ok_new)
  qed (use assms(2) in simp)
qed

lemma send_ok:
  assumes "queues_ok s" "space (configs s ! i) = n" "k < length (queues (spaces s n))"
    and "1 \<le> mtype m" "0 < length (mtext m)" "length (mtext m) \<le> SYSVIPC_MAX_MSG_SIZE"
  shows "queues_ok (send_message i k m s) \<and> same_sems s (send_message i k m s) \<and> same_shms s (send_message i k m s)"
proof -
  let ?q = "queue_at s n k" and ?s = "s\<lparr>configs := wake_receiver n k (mtype m) (configs s)\<rparr>"
  let ?r = "put_message m (?q\<lparr>stats := (stats ?q)\<lparr>msg_lspid := pid_of (configs s ! i), msg_stime := clock s\<rparr>\<rparr>)"
  have "send_message i k m s = set_queue n k ?r ?s"
    using assms(2) by (simp add: send_message_def Let_def)
  moreover have "queue_ok ?r"
  proof -
    have q: "queue_ok ?q" by (rule queue_ok_at [OF assms(1,3)])
    show ?thesis unfolding queue_ok_def
    proof (intro impI conjI ballI)
      assume v: "q_valid ?r"
      with q show "q_generation ?r = 0" by (simp add: queue_ok_def put_message_def)
      show "stats_ok ?r" by (rule stats_ok_put) (use q v in \<open>simp add: queue_ok_def put_message_def stats_ok_def\<close>)
      fix x assume "x \<in> set (items ?r)"
      with q v assms(4-6) show "1 \<le> mtype x" "0 < length (mtext x)" "length (mtext x) \<le> SYSVIPC_MAX_MSG_SIZE"
        by (auto simp: queue_ok_def put_message_def)
    qed
  qed
  moreover have "queues_ok ?s" by (rule queues_ok_same [OF same_config(11) assms(1)])
  ultimately show ?thesis
    using queues_ok_set [of ?s ?r n k] same_trans(1) [OF same_config(10) same_set_queue(1)]
      same_trans(3) [OF same_config(12) same_set_queue(2)] by simp
qed

lemma msgsnd_ok:
  assumes "sysvipc_msgsnd i s = (st, s')" "queues_ok s"
  shows "queues_ok s' \<and> same_sems s s' \<and> same_shms s s'"
proof -
  obtain c where c: "configs s ! i = c" by blast
  show ?thesis
  proof (cases "lookup_object q_valid q_generation (queues (spaces s (space c))) (arg SYSARG_1 c)")
    case None
    with assms c show ?thesis by (simp add: sysvipc_msgsnd_def)
  next
    case (Some k)
    let ?len = "unat (arg SYSARG_3 c)"
    obtain ty where ty: "read_mem c (arg SYSARG_2 c) 8 s = ty" by blast
    obtain bs where bs: "read_mem c (arg SYSARG_2 c + 8) ?len s = bs" by blast
    have "s' = s \<or> (\<exists>ty b. s' = send_message i k \<lparr>mtype = ty, mtext = b\<rparr> s \<and> 1 \<le> ty \<and> bs = Inr b \<and> 0 < ?len \<and> ?len \<le> SYSVIPC_MAX_MSG_SIZE)"
      using assms(1) unfolding sysvipc_msgsnd_def Let_def c Some option.case ty bs
      by (cases ty; cases bs) (auto split: if_split_asm)
    moreover have "length b = ?len" if "bs = Inr b" for b
      using bs that read_data_length unfolding read_mem_def by blast
    ultimately consider "s' = s" | t b where "s' = send_message i k \<lparr>mtype = t, mtext = b\<rparr> s" "1 \<le> t" "0 < length b" "length b \<le> SYSVIPC_MAX_MSG_SIZE"
      by metis
    then show ?thesis
    proof cases
      case (2 t b)
      from send_ok [OF assms(2) _ lookup_length [OF Some, THEN conjunct1], of i "\<lparr>mtype = t, mtext = b\<rparr>"] 2 c
      show ?thesis by simp
    qed (use assms(2) in simp)
  qed
qed

lemma msgrcv_ok:
  assumes "sysvipc_msgrcv i s = (st, s')" "queues_ok s" "i < length (configs s)"
  shows "queues_ok s' \<and> same_sems s s' \<and> same_shms s s'"
proof -
  obtain c where c: "configs s ! i = c" by blast
  show ?thesis
  proof (cases "lookup_object q_valid q_generation (queues (spaces s (space c))) (arg SYSARG_1 c)")
    case None
    with assms c show ?thesis by (simp add: sysvipc_msgrcv_def)
  next
    case (Some k)
    let ?d = "c\<lparr>msgrcv_msgp := arg SYSARG_2 c, msgrcv_msgsz := word_of_int (int_arg (arg SYSARG_3 c)),
              msgrcv_msgtyp := int_arg (arg SYSARG_4 c), msgrcv_msgflg := ucast (arg SYSARG_5 c)\<rparr>"
    have r: "do_msgrcv i k (set_config i ?d s) = (st, s')"
      using assms(1) c Some by (simp add: sysvipc_msgrcv_def)
    have "configs (set_config i ?d s) ! i = ?d" using assms(3) by (simp add: set_config_def)
    moreover have "k < length (queues (spaces s (space c)))" using lookup_length [OF Some] by simp
    ultimately have "queues_ok s'"
      using queues_ok_do_msgrcv [OF r queues_ok_same [OF same_config(2) assms(2)]] by (simp add: set_config_def)
    with same_do_msgrcv [OF r] show ?thesis using same_trans same_config(1,3) by blast
  qed
qed

lemma msgrcv_retry_ok:
  assumes "sysvipc_msgrcv_retry i s = Inr (st, s')" "queues_ok s"
  shows "queues_ok s' \<and> same_sems s s' \<and> same_shms s s'"
proof -
  obtain c where c: "configs s ! i = c" by blast
  obtain st1 s1 where d: "do_msgrcv i (waiting_object_index c) s = (st1, s1)" by fastforce
  have "(\<exists>d. s' = set_config i d s) \<or> (waiting_object_index c < length (queues (spaces s (space c))) \<and> (\<exists>d. s' = set_config i d s1))"
    using assms(1) unfolding sysvipc_msgrcv_retry_def Let_def c d by (auto split: if_split_asm)
  then show ?thesis
  proof
    assume "\<exists>d. s' = set_config i d s"
    then show ?thesis using queues_ok_same [OF same_config(2) assms(2)] by auto
  next
    assume *: "waiting_object_index c < length (queues (spaces s (space c))) \<and> (\<exists>d. s' = set_config i d s1)"
    then have "queues_ok s1" using queues_ok_do_msgrcv [OF d assms(2)] c by simp
    with * same_do_msgrcv [OF d] show ?thesis using queues_ok_same [OF same_config(2)] by auto
  qed
qed

lemma remove_queue_ok:
  assumes "queues_ok s"
  shows "queues_ok (remove_queue n k s) \<and> same_sems s (remove_queue n k s) \<and> same_shms s (remove_queue n k s)"
proof -
  let ?s = "s\<lparr>configs := wake_all_removed WR_WAIT_QUEUE_RECV n k (configs s)\<rparr>"
  let ?q = "(queue_at ?s n k)\<lparr>q_valid := False, q_generation := q_generation (queue_at ?s n k) + 1, items := []\<rparr>"
  have e: "remove_queue n k s = set_queue n k ?q ?s" by (simp add: remove_queue_def Let_def)
  have "queue_ok ?q" by (simp add: queue_ok_def)
  then show ?thesis unfolding e
    using queues_ok_set [OF queues_ok_same [OF same_config(11) assms]] same_trans(1) [OF same_config(10) same_set_queue(1)]
      same_trans(3) [OF same_config(12) same_set_queue(2)] by blast
qed

lemma msgctl_ok:
  assumes "sysvipc_msgctl l i s = (st, s')" "queues_ok s"
  shows "queues_ok s' \<and> same_sems s s' \<and> same_shms s s'"
proof -
  obtain c where c: "configs s ! i = c" by blast
  consider "s' = s" | k where "s' = remove_queue (space c) k s" | a bs where "write_mem c a bs s = (st, s')"
    using assms(1) unfolding sysvipc_msgctl_def Let_def c
    by (cases "lookup_object q_valid q_generation (queues (spaces s (space c))) (arg SYSARG_1 c)") (auto split: if_split_asm)
  then show ?thesis
  proof cases
    case 2
    with remove_queue_ok [OF assms(2)] show ?thesis by simp
  next
    case 3
    with same_write [OF 3] queues_ok_same assms(2) show ?thesis by blast
  qed (use assms(2) in simp)
qed

section \<open>Semaphores\<close>

definition sem_ok :: "sem_set \<Rightarrow> bool" where
  "sem_ok o' \<longleftrightarrow> (s_valid o' \<longrightarrow> s_generation o' = 0 \<and>
     (\<exists>v. sems o' = Some v \<and> nsems o' = int (length v) \<and> bounded_vals v))"

definition sems_ok :: "ipc \<Rightarrow> bool" where
  "sems_ok s \<longleftrightarrow> (\<forall>n. \<forall>o' \<in> set (sem_view s n). sem_ok o')"

lemma sems_ok_same: "same_sems s s' \<Longrightarrow> sems_ok s \<Longrightarrow> sems_ok s'"
  by (simp add: sems_ok_def same_sems_def)

lemma sem_ok_new: "0 < n \<Longrightarrow> sem_ok (new_sem_set key n)"
  by (simp add: sem_ok_def new_sem_set_def bounded_vals_def)

lemma semget_ok:
  assumes "sysvipc_semget i s = (st, s')" "sems_ok s"
  shows "sems_ok s' \<and> same_queues s s' \<and> same_shms s s'"
proof -
  let ?c = "configs s ! i" and ?key = "arg SYSARG_1 (configs s ! i)" and ?n = "int_arg (arg SYSARG_2 (configs s ! i))"
  let ?x = "spaces s (space ?c)"
  consider "s' = s" | k where "s' = set_space (space ?c) (?x\<lparr>semaphores := (semaphores ?x)[k := new_sem_set ?key ?n]\<rparr>) s" "0 < ?n"
    | "s' = set_space (space ?c) (?x\<lparr>semaphores := semaphores ?x @ [new_sem_set ?key ?n]\<rparr>) s" "0 < ?n"
    using assms(1) unfolding sysvipc_semget_def Let_def
    by (cases "find_slot s_valid (\<lambda>o'. key_matches ?key (s_key o')) (semaphores ?x) 0 None") (auto split: if_split_asm)
  then show ?thesis
  proof cases
    case 2
    with assms(2) show ?thesis
      by (auto simp: sems_ok_def sem_view_def same_defs set_space_def sem_ok_new dest!: set_update_cases)
  next
    case 3
    with assms(2) show ?thesis
      by (auto simp: sems_ok_def sem_view_def same_defs set_space_def sem_ok_new)
  qed (use assms(2) in simp)
qed

lemma sems_ok_set:
  assumes "sems_ok s" "sem_ok ((semaphores (spaces s n) ! k)\<lparr>sems := v\<rparr>)"
  shows "sems_ok (set_sems n k v s)"
  using assms by (auto simp: sems_ok_def sem_view_def set_sems_def set_space_def Let_def dest!: set_update_cases)

lemma sem_ok_at: "sems_ok s \<Longrightarrow> k < length (semaphores (spaces s n)) \<Longrightarrow> sem_ok (semaphores (spaces s n) ! k)"
  unfolding sems_ok_def sem_view_def using nth_mem by blast

lemma semop_on_ok:
  assumes "semop_on i k sops s = (st, s')" "sems_ok s" "c = configs s ! i" "k < length (semaphores (spaces s (space c)))"
    and "s_valid (semaphores (spaces s (space c)) ! k)"
  shows "sems_ok s' \<and> same_queues s s' \<and> same_shms s s'"
proof -
  let ?d = "c\<lparr>wait_reason := WR_WAIT_SEMOP, waiting_object_index := k, semop_sops := Some sops\<rparr>"
  obtain o' where o': "semaphores (spaces s (space c)) ! k = o'" by blast
  from sem_ok_at [OF assms(2,4)] assms(5) o' obtain vals where vals: "s_generation o' = 0" "sems o' = Some vals"
    "nsems o' = int (length vals)" "bounded_vals vals" "s_valid o'" by (auto simp: sem_ok_def)
  obtain r u where u: "sem_check (int (length vals)) sops vals = (r, u)" by fastforce
  from semop_atomic_fact [OF u vals(4)] have lu: "length u = length vals" and bu: "bounded_vals u" by simp_all
  obtain cs v where w: "wake_semop_waiters i (space c) k (int (length u)) 0 ((configs s)[i := ?d]) u = (cs, v)" by fastforce
  from wake_semop_effect [OF w bu] lu have v: "length v = length vals" "bounded_vals v" by simp_all
  define z where "z = set_sems (space c) k (Some v) (s\<lparr>configs := cs\<rparr>)"
  have sp: "space ?d = space c" by simp
  have "semop_on i k sops s = (if r = 1 then (0, z) else (r, set_config i (?d\<lparr>semop_sops := None, wait_reason := WR_NOT_WAITING\<rparr>) z))"
    unfolding semop_on_def Let_def assms(3) [symmetric]
    by (simp only: sp o' vals(2,3) option.case u w [unfolded lu] prod.case z_def)
  with assms(1) have s': "s' = z \<or> (\<exists>d. s' = set_config i d z)" by (auto split: if_split_asm)
  have "sems_ok z" unfolding z_def
  proof (rule sems_ok_set)
    show "sems_ok (s\<lparr>configs := cs\<rparr>)" by (rule sems_ok_same [OF same_config(10) assms(2)])
    show "sem_ok ((semaphores (spaces (s\<lparr>configs := cs\<rparr>) (space c)) ! k)\<lparr>sems := Some v\<rparr>)"
      using o' vals v by (simp add: sem_ok_def)
  qed
  moreover have "same_queues s z" "same_shms s z" unfolding z_def
    using same_trans(2) [OF same_config(11) same_set_sems(1)] same_trans(3) [OF same_config(12) same_set_sems(2)] by blast+
  ultimately show ?thesis using s' sems_ok_same [OF same_config(1)] by auto
qed

lemma semop_ok:
  assumes "sysvipc_semop i s = (st, s')" "sems_ok s"
  shows "sems_ok s' \<and> same_queues s s' \<and> same_shms s s'"
proof -
  obtain c where c: "configs s ! i = c" by blast
  show ?thesis
  proof (cases "lookup_object s_valid s_generation (semaphores (spaces s (space c))) (arg SYSARG_1 c)")
    case None
    with assms c show ?thesis by (simp add: sysvipc_semop_def)
  next
    case (Some k)
    obtain bs where bs: "read_mem c (arg SYSARG_2 c) (6 * unat (arg SYSARG_3 c)) s = bs" by blast
    have "s' = s \<or> (\<exists>l st. semop_on i k l s = (st, s'))"
      using assms(1) unfolding sysvipc_semop_def Let_def c Some option.case bs by (cases bs) (auto split: if_split_asm)
    then show ?thesis using semop_on_ok [OF _ assms(2) c [symmetric]] lookup_length [OF Some] assms(2) by auto
  qed
qed

lemma remove_sem_set_ok:
  assumes "sems_ok s"
  shows "sems_ok (remove_sem_set n k s) \<and> same_queues s (remove_sem_set n k s) \<and> same_shms s (remove_sem_set n k s)"
  using assms
  by (auto simp: remove_sem_set_def same_defs set_space_def sems_ok_def sem_view_def sem_ok_def Let_def dest!: set_update_cases)

lemma bounded_setval: "unat a \<le> SYSVIPC_MAX_SEMVAL \<Longrightarrow> unat (ucast (a :: word_t) :: 16 word) \<le> SYSVIPC_MAX_SEMVAL"
proof -
  assume *: "unat a \<le> SYSVIPC_MAX_SEMVAL"
  have "unat (ucast a :: 16 word) \<le> unat a" by (simp add: unsigned_ucast_eq take_bit_nat_less_eq_self)
  with * show ?thesis by (rule order_trans [rotated])
qed

lemma semctl_ok:
  assumes "sysvipc_semctl i s = (st, s')" "sems_ok s"
  shows "sems_ok s' \<and> same_queues s s' \<and> same_shms s s'"
proof -
  obtain c where c: "configs s ! i = c" by blast
  show ?thesis
  proof (cases "lookup_object s_valid s_generation (semaphores (spaces s (space c))) (arg SYSARG_1 c)")
    case None
    with assms c show ?thesis by (simp add: sysvipc_semctl_def)
  next
    case (Some k)
    note l = lookup_length [OF Some]
    obtain o' where o': "semaphores (spaces s (space c)) ! k = o'" by blast
    from sem_ok_at [OF assms(2)] l o' obtain vals where vals: "s_generation o' = 0" "sems o' = Some vals"
      "nsems o' = int (length vals)" "bounded_vals vals" "s_valid o'" by (fastforce simp: sem_ok_def)
    let ?a = "arg SYSARG_4 c"
    consider "s' = s" | "s' = remove_sem_set (space c) k s" | a bs where "write_mem c a bs s = (st, s')"
      | j where "s' = set_sems (space c) k (Some (vals[j := ucast ?a])) s" "unat ?a \<le> SYSVIPC_MAX_SEMVAL"
      using assms(1) unfolding sysvipc_semctl_def Let_def c Some option.case o' vals(2)
      by (auto split: if_split_asm)
    then show ?thesis
    proof cases
      case 2
      with remove_sem_set_ok [OF assms(2)] show ?thesis by simp
    next
      case 3
      with same_write [OF 3] sems_ok_same assms(2) show ?thesis by blast
    next
      case (4 j)
      have "sem_ok ((semaphores (spaces s (space c)) ! k)\<lparr>sems := Some (vals[j := ucast ?a])\<rparr>)"
        using vals o' bounded_update [OF bounded_setval [OF 4(2)] vals(4)] by (simp add: sem_ok_def)
      from sems_ok_set [OF assms(2) this] 4(1) same_set_sems show ?thesis by simp
    qed (use assms(2) in simp)
  qed
qed

end
