(* ===== verification/Ipc_Shm_Spec.thy ===== *)
theory Ipc_Shm_Spec
  imports Ipc_Spec
begin

text \<open>
  Shared memory keeps its objects in order: every mapping belongs to a segment that exists, and a segment that
  is marked for removal still has a mapping, so that it goes with the last of them. The lemmas follow the
  operations of \<open>Ipc_Shm\<close>.
\<close>

section \<open>The invariant\<close>

definition seg_ok :: "shm_map list \<Rightarrow> nat \<Rightarrow> nat \<Rightarrow> shm_seg \<Rightarrow> bool" where
  "seg_ok ms n k g \<longleftrightarrow> (m_valid g \<longrightarrow> m_generation g = 0) \<and>
     (rmid_pending g \<longrightarrow> m_valid g \<and> (\<exists>m \<in> set ms. map_space m = n \<and> shm_index m = k))"

definition map_ok :: "(nat \<Rightarrow> shm_seg list) \<Rightarrow> shm_map \<Rightarrow> bool" where
  "map_ok v m \<longleftrightarrow> shm_index m < length (v (map_space m)) \<and> m_valid (v (map_space m) ! shm_index m)"

definition shms_ok :: "ipc \<Rightarrow> bool" where
  "shms_ok s \<longleftrightarrow>
     (\<forall>n k. k < length (shm_view s n) \<longrightarrow> seg_ok (mappings s) n k (shm_view s n ! k)) \<and>
     (\<forall>m \<in> set (mappings s). map_ok (shm_view s) m)"

definition keeps_shms :: "ipc \<Rightarrow> ipc \<Rightarrow> bool" where
  "keeps_shms s s' \<longleftrightarrow> same_sems s s' \<and> same_queues s s' \<and> (shms_ok s \<longrightarrow> shms_ok s')"

lemma shms_ok_same: "same_shms s s' \<Longrightarrow> shms_ok s \<Longrightarrow> shms_ok s'"
  by (simp add: shms_ok_def same_shms_def)

lemma keeps_same: "same_sems s s' \<Longrightarrow> same_queues s s' \<Longrightarrow> same_shms s s' \<Longrightarrow> keeps_shms s s'"
  using shms_ok_same by (simp add: keeps_shms_def)

lemma keeps_refl [simp]: "keeps_shms s s"
  by (simp add: keeps_shms_def)

lemma keeps_trans: "keeps_shms s s' \<Longrightarrow> keeps_shms s' s'' \<Longrightarrow> keeps_shms s s''"
  unfolding keeps_shms_def using same_trans(1,2) by blast

lemma keeps_config [simp]:
  "keeps_shms s (set_config i c s)" "keeps_shms s (on_config i f s)" "keeps_shms s (on_thread i g s)"
  "keeps_shms s (s\<lparr>configs := cs\<rparr>)"
  by (simp_all add: keeps_same)

lemma keeps_configs [intro]:
  "keeps_shms s s' \<Longrightarrow> keeps_shms s (set_config i c s')" "keeps_shms s s' \<Longrightarrow> keeps_shms s (on_config i f s')"
  "keeps_shms s s' \<Longrightarrow> keeps_shms s (s'\<lparr>configs := cs\<rparr>)"
  by (rule keeps_trans, assumption, simp)+

lemma keeps_write: "write_mem c a bs s = (st, s') \<Longrightarrow> keeps_shms s s'"
  using same_write keeps_same by blast

lemma seg_maps_empty: "seg_maps s n k = [] \<longleftrightarrow> (\<forall>m \<in> set (mappings s). map_space m = n \<longrightarrow> shm_index m \<noteq> k)"
  by (auto simp: seg_maps_def filter_empty_conv)

lemma shm_view_set_seg: "shm_view (set_seg n k g s) = (shm_view s)(n := (shm_view s n)[k := g])"
  by (auto simp: shm_view_def set_seg_def set_space_def Let_def)

lemma mappings_set_seg [simp]: "mappings (set_seg n k g s) = mappings s"
  by (simp add: set_seg_def set_space_def Let_def)

lemma seg_at_view: "seg_at s n k = shm_view s n ! k"
  by (simp add: seg_at_def shm_view_def)

text \<open>All is in order, but for one segment that is replaced by a proper one.\<close>

lemma shms_ok_set_seg:
  assumes "\<And>n' k'. k' < length (shm_view s n') \<Longrightarrow> (n', k') \<noteq> (n, k) \<Longrightarrow> seg_ok (mappings s) n' k' (shm_view s n' ! k')"
    and "\<And>m. m \<in> set (mappings s) \<Longrightarrow> map_ok (shm_view s) m"
    and "seg_ok (mappings s) n k g" "m_valid g \<or> seg_maps s n k = []"
  shows "shms_ok (set_seg n k g s)"
  unfolding shms_ok_def
proof (intro conjI allI impI ballI)
  fix n' k' assume "k' < length (shm_view (set_seg n k g s) n')"
  then have l: "k' < length (shm_view s n')" by (auto simp: shm_view_set_seg split: if_split_asm)
  show "seg_ok (mappings (set_seg n k g s)) n' k' (shm_view (set_seg n k g s) n' ! k')"
  proof (cases "(n', k') = (n, k)")
    case True
    with l assms(3) show ?thesis by (simp add: shm_view_set_seg)
  next
    case False
    then have "shm_view (set_seg n k g s) n' ! k' = shm_view s n' ! k'" by (auto simp: shm_view_set_seg)
    with assms(1) [OF l False] show ?thesis by simp
  qed
next
  fix m assume m: "m \<in> set (mappings (set_seg n k g s))"
  with assms(2) have "map_ok (shm_view s) m" by simp
  with m assms(4) show "map_ok (shm_view (set_seg n k g s)) m"
    by (cases "map_space m = n \<and> shm_index m = k") (auto simp: map_ok_def shm_view_set_seg seg_maps_empty nth_list_update)
qed

lemma shms_okD:
  "shms_ok s \<Longrightarrow> k < length (shm_view s n) \<Longrightarrow> seg_ok (mappings s) n k (shm_view s n ! k)"
  "shms_ok s \<Longrightarrow> m \<in> set (mappings s) \<Longrightarrow> map_ok (shm_view s) m"
  by (simp_all add: shms_ok_def)

section \<open>Removal\<close>

lemma do_rmid_ok:
  assumes "\<And>n' k'. k' < length (shm_view s n') \<Longrightarrow> (n', k') \<noteq> (n, k) \<Longrightarrow> seg_ok (mappings s) n' k' (shm_view s n' ! k')"
    and "\<And>m. m \<in> set (mappings s) \<Longrightarrow> map_ok (shm_view s) m" "seg_maps s n k = []"
  shows "shms_ok (sysvipc_do_rmid n k s)"
proof -
  let ?s = "s\<lparr>helper_fds := removeAll (m_fd (seg_at s n k)) (helper_fds s)\<rparr>"
  have v: "shm_view ?s = shm_view s" "seg_maps ?s n k = seg_maps s n k" "mappings ?s = mappings s"
    by (simp_all add: shm_view_def seg_maps_def)
  show ?thesis unfolding sysvipc_do_rmid_def Let_def
    by (rule shms_ok_set_seg) (use assms in \<open>simp_all add: v seg_ok_def\<close>)
qed

lemma same_do_rmid: "same_sems s (sysvipc_do_rmid n k s)" "same_queues s (sysvipc_do_rmid n k s)"
  by (auto simp: same_defs sysvipc_do_rmid_def set_seg_def set_space_def Let_def)

lemma in_without_nth: "j < length xs \<Longrightarrow> x \<in> set xs \<Longrightarrow> x \<in> set (take j xs @ drop (Suc j) xs) \<or> x = xs ! j"
proof -
  assume j: "j < length xs" and x: "x \<in> set xs"
  obtain l where l: "l < length xs" "x = xs ! l" using x by (auto simp: in_set_conv_nth)
  consider "l < j" | "l = j" | "j < l" by arith
  then show ?thesis
  proof cases
    case 1
    with l j show ?thesis by (auto simp: in_set_conv_nth intro!: exI [of _ l])
  next
    case 3
    with l have "x = drop (Suc j) xs ! (l - Suc j)" "l - Suc j < length (drop (Suc j) xs)" by auto
    then show ?thesis by (metis UnI2 nth_mem set_append)
  qed (use l in simp)
qed

lemma without_nth_in: "x \<in> set (take j xs @ drop (Suc j) xs) \<Longrightarrow> x \<in> set xs"
  by (auto dest: in_set_takeD in_set_dropD)

lemma keeps_free_map:
  assumes "j < length (mappings s)"
  shows "keeps_shms s (free_map j s)"
proof -
  let ?m = "mappings s ! j" and ?s = "s\<lparr>mappings := take j (mappings s) @ drop (Suc j) (mappings s)\<rparr>"
  let ?n = "map_space ?m" and ?k = "shm_index ?m"
  have f: "free_map j s = segment_released ?n ?k ?s" by (simp add: free_map_def Let_def)
  have v: "shm_view ?s = shm_view s" by (simp add: shm_view_def)
  have same: "same_sems s ?s" "same_queues s ?s" by (simp_all add: same_defs)
  have ok: "shms_ok (free_map j s)" if s: "shms_ok s"
  proof -
    have others: "seg_ok (mappings ?s) n' k' (shm_view ?s n' ! k')"
      if "k' < length (shm_view ?s n')" "(n', k') \<noteq> (?n, ?k)" for n' k'
    proof -
      let ?g = "shm_view s n' ! k'"
      from shms_okD(1) [OF s] that(1) v have g: "seg_ok (mappings s) n' k' ?g" by simp
      have "\<exists>m \<in> set (mappings ?s). map_space m = n' \<and> shm_index m = k'" if p: "rmid_pending ?g"
      proof -
        from g p obtain m where m: "m \<in> set (mappings s)" "map_space m = n'" "shm_index m = k'" by (auto simp: seg_ok_def)
        with \<open>(n', k') \<noteq> (?n, ?k)\<close> have "m \<noteq> ?m" by auto
        with in_without_nth [OF assms m(1)] m show ?thesis by auto
      qed
      with g show ?thesis unfolding v seg_ok_def by simp
    qed
    have maps: "map_ok (shm_view ?s) m" if "m \<in> set (mappings ?s)" for m
    proof -
      from that have "m \<in> set (take j (mappings s) @ drop (Suc j) (mappings s))" by simp
      from shms_okD(2) [OF s without_nth_in [OF this]] show ?thesis unfolding v .
    qed
    show ?thesis
    proof (cases "rmid_pending (seg_at ?s ?n ?k) \<and> seg_maps ?s ?n ?k = []")
      case True
      then have "free_map j s = sysvipc_do_rmid ?n ?k ?s" unfolding f segment_released_def by (rule if_P)
      with do_rmid_ok [OF others maps] True show ?thesis by simp
    next
      case False
      then have e: "free_map j s = ?s" unfolding f segment_released_def by (rule if_not_P)
      have "seg_ok (mappings ?s) ?n ?k (shm_view ?s ?n ! ?k)" if "?k < length (shm_view ?s ?n)"
        using shms_okD(1) [OF s] that False unfolding v seg_ok_def seg_maps_empty seg_at_view by auto
      with others maps show ?thesis unfolding e shms_ok_def by (metis prod.inject)
    qed
  qed
  have "same_sems s (free_map j s)" "same_queues s (free_map j s)"
    unfolding f segment_released_def using same same_trans(1,2) same_do_rmid by (auto split: if_split)
  with ok show ?thesis by (simp add: keeps_shms_def)
qed

lemma find_map_holds: "find_map f ms = Some j \<Longrightarrow> j < length ms \<and> f (ms ! j)"
  by (induction f ms arbitrary: j rule: find_map.induct) (auto split: if_split_asm)

lemma find_map_none: "find_map f ms = None \<Longrightarrow> m \<in> set ms \<Longrightarrow> \<not> f m"
  by (induction f ms rule: find_map.induct) (auto split: if_split_asm)

lemma keeps_remove_mappings: "keeps_shms s (sysvipc_shm_remove_mappings_from_process p s)"
proof (induction p s rule: sysvipc_shm_remove_mappings_from_process.induct)
  case (1 p s)
  show ?case
  proof (cases "find_map (\<lambda>m. map_owner m = p) (mappings s)")
    case (Some j)
    with 1 keeps_free_map [of j s] find_map_holds [OF Some] keeps_trans show ?thesis
      by (subst sysvipc_shm_remove_mappings_from_process.simps) auto
  qed (subst sysvipc_shm_remove_mappings_from_process.simps, simp)
qed

text \<open>The process that executes another program, or ends, is left without mappings.\<close>

lemma remove_mappings_all: "m \<in> set (mappings (sysvipc_shm_remove_mappings_from_process p s)) \<Longrightarrow> map_owner m \<noteq> p"
proof (induction p s rule: sysvipc_shm_remove_mappings_from_process.induct)
  case (1 p s)
  show ?case
  proof (cases "find_map (\<lambda>m. map_owner m = p) (mappings s)")
    case None
    with 1 have "m \<in> set (mappings s)" by (simp add: sysvipc_shm_remove_mappings_from_process.simps [of p s])
    with find_map_none [OF None] show ?thesis .
  next
    case (Some j)
    with 1 show ?thesis by (simp add: sysvipc_shm_remove_mappings_from_process.simps [of p s])
  qed
qed

section \<open>The calls\<close>

lemma set_space_put:
  assumes "shms_ok s" "\<not> rmid_pending g" "m_valid g \<longrightarrow> m_generation g = 0"
    and "k < length (shm_view s n) \<longrightarrow> \<not> m_valid (shm_view s n ! k)" "k \<le> length (shm_view s n)"
    and "shm_view s' = (shm_view s)(n := (if k < length (shm_view s n) then (shm_view s n)[k := g] else shm_view s n @ [g]))"
    and "mappings s' = mappings s"
  shows "shms_ok s'"
proof -
  have old: "k' < length (shm_view s n) \<Longrightarrow> k' \<noteq> k \<Longrightarrow> k' < length (shm_view s' n) \<and> shm_view s' n ! k' = shm_view s n ! k'" for k'
    using assms(6) by (simp add: nth_append)
  have new: "shm_view s' n ! k = g" using assms(5,6) by (cases "k < length (shm_view s n)") (auto simp: nth_append)
  have len: "k' < length (shm_view s' n) \<Longrightarrow> k' < length (shm_view s n) \<or> k' = k" for k'
    using assms(5,6) by (auto split: if_split_asm)
  have other: "n' \<noteq> n \<Longrightarrow> shm_view s' n' = shm_view s n'" for n' using assms(6) by simp
  show ?thesis unfolding shms_ok_def assms(7)
  proof (intro conjI allI impI ballI)
    fix n' k' assume k': "k' < length (shm_view s' n')"
    show "seg_ok (mappings s) n' k' (shm_view s' n' ! k')"
    proof (cases "n' = n \<and> k' = k")
      case True
      with new assms(2,3) show ?thesis by (simp add: seg_ok_def)
    next
      case False
      with k' len other have l: "k' < length (shm_view s n')" by metis
      with False old other have "shm_view s' n' ! k' = shm_view s n' ! k'" by metis
      with shms_okD(1) [OF assms(1) l] show ?thesis by simp
    qed
  next
    fix m assume "m \<in> set (mappings s)"
    from shms_okD(2) [OF assms(1) this] have m: "shm_index m < length (shm_view s (map_space m))" "m_valid (shm_view s (map_space m) ! shm_index m)"
      by (auto simp: map_ok_def)
    show "map_ok (shm_view s') m"
    proof (cases "map_space m = n")
      case True
      with m assms(4) have "shm_index m \<noteq> k" by auto
      with old True m show ?thesis unfolding map_ok_def by auto
    qed (use m other in \<open>auto simp: map_ok_def\<close>)
  qed
qed

lemma shmget_ok:
  assumes "sysvipc_shmget e i s = (st, s')"
  shows "keeps_shms s s'"
proof -
  obtain c where c: "configs s ! i = c" by blast
  let ?n = "space c" and ?x = "spaces s (space c)"
  define slot where "slot = find_slot m_valid (\<lambda>g. key_matches (arg SYSARG_1 c) (m_key g)) (shms ?x) 0 None"
  define k where "k = (case slot of Unused k \<Rightarrow> k | _ \<Rightarrow> length (shms ?x))"
  define put where "put = (\<lambda>g. if k < length (shms ?x) then (shms ?x)[k := g] else shms ?x @ [g])"
  have "s' = s \<or> (\<forall>j. slot \<noteq> Existing j) \<and> (\<exists>g fds. \<not> rmid_pending g \<and> m_generation g = 0 \<and>
      s' = set_space ?n (?x\<lparr>shms := put g\<rparr>) (s\<lparr>helper_fds := fds\<rparr>))"
  proof -
    have "s = s\<lparr>helper_fds := helper_fds s\<rparr>" by simp
    moreover have "\<not> rmid_pending (failed_seg fd)" "m_generation (failed_seg fd) = 0"
      "\<not> rmid_pending (new_seg a b d fd f)" "m_generation (new_seg a b d fd f) = 0" for a b d fd f
      by (simp_all add: failed_seg_def new_seg_def)
    ultimately show ?thesis
      using assms unfolding sysvipc_shmget_def Let_def c slot_def [symmetric] put_def k_def
      by (cases slot) (simp_all only: slot.case split: if_split_asm, (blast | metis prod.inject slot.distinct)+)
  qed
  then show ?thesis
  proof
    assume "(\<forall>j. slot \<noteq> Existing j) \<and> (\<exists>g fds. \<not> rmid_pending g \<and> m_generation g = 0 \<and>
      s' = set_space ?n (?x\<lparr>shms := put g\<rparr>) (s\<lparr>helper_fds := fds\<rparr>))"
    then obtain g fds where g: "\<not> rmid_pending g" "m_generation g = 0" "\<forall>j. slot \<noteq> Existing j"
      "s' = set_space ?n (?x\<lparr>shms := put g\<rparr>) (s\<lparr>helper_fds := fds\<rparr>)" by blast
    have k: "k < length (shms ?x) \<longrightarrow> \<not> m_valid (shms ?x ! k)" "k \<le> length (shms ?x)"
      using g(3) find_slot_bound(2) [of m_valid "\<lambda>g. key_matches (arg SYSARG_1 c) (m_key g)" "shms ?x" k]
      unfolding k_def slot_def [symmetric] by (cases slot; force)+
    have "shms_ok s'" if "shms_ok s"
      by (rule set_space_put [OF that g(1), of k ?n])
        (use g k in \<open>auto simp: shm_view_def set_space_def put_def fun_eq_iff\<close>)
    moreover have "same_sems s s'" "same_queues s s'" using g(4) by (auto simp: same_defs set_space_def)
    ultimately show ?thesis by (simp add: keeps_shms_def)
  qed simp
qed

lemma shmat_ok:
  assumes "sysvipc_shmat i s = (st, s')"
  shows "keeps_shms s s'"
proof -
  obtain c where c: "configs s ! i = c" by blast
  show ?thesis
  proof (cases "lookup_object m_valid m_generation (shms (spaces s (space c))) (arg SYSARG_1 c)")
    case None
    with assms c show ?thesis by (simp add: sysvipc_shmat_def)
  next
    case (Some k)
    let ?m = "\<lparr>map_owner = process c, map_addr = 0, map_size = 0, map_space = space c, shm_index = k\<rparr>"
    have s': "mappings s' = ?m # mappings s" "spaces s' = spaces s"
      using assms unfolding sysvipc_shmat_def Let_def c Some
      by (auto simp: set_config_def split: if_split_asm)
    have l: "k < length (shms (spaces s (space c)))" "m_valid (shms (spaces s (space c)) ! k)"
      using lookup_length [OF Some] by simp_all
    have "shms_ok s'" if "shms_ok s"
      using that s' l by (fastforce simp: shms_ok_def seg_ok_def map_ok_def shm_view_def)
    moreover have "same_sems s s'" "same_queues s s'" using s' by (auto simp: same_defs)
    ultimately show ?thesis by (simp add: keeps_shms_def)
  qed
qed

lemma shmat_failed_ok: "shmat_failed i s = Inr s' \<Longrightarrow> keeps_shms s s'"
  unfolding shmat_failed_def Let_def
  using keeps_free_map find_map_holds by (fastforce split: option.split_asm)

lemma fail_ok:
  "fail_close_socket i s = Inr (st, s') \<Longrightarrow> keeps_shms s s'"
  "fail_dont_close i s = Inr (st, s') \<Longrightarrow> keeps_shms s s'"
  unfolding fail_close_socket_def fail_dont_close_def Let_def
  using shmat_failed_ok keeps_trans [OF keeps_config(1)] by (fastforce split: sum.split_asm)+

lemma chain_call_ok: "chain_call i num as st c s = Inr (r, s') \<Longrightarrow> keeps_shms s s'"
  by (auto simp: chain_call_def)

lemma shmat_socket_ok:
  assumes "shmat_socket e i s = Inr (st, s')"
  shows "keeps_shms s s'"
proof -
  obtain c where c: "configs s ! i = c" by blast
  let ?d = "c\<lparr>shmat_socket_fd := int_arg (arg SYSARG_RESULT c)\<rparr>"
  let ?g = "arg STACK_POINTER c - of_nat sockaddr_un_size"
  obtain st1 s1 where w: "write_mem ?d ?g (helper_addr e) (set_config i ?d s) = (st1, s1)" by fastforce
  have k1: "keeps_shms s s1" using keeps_trans [OF keeps_config(1) keeps_write [OF w]] .
  have g: "arg STACK_POINTER ?d = arg STACK_POINTER c" by (simp add: arg_def)
  have "fail_dont_close i (set_config i ?d s) = Inr (st, s') \<or> fail_dont_close i s1 = Inr (st, s') \<or>
      (\<exists>n as q d. chain_call i n as q d s1 = Inr (st, s'))"
    using assms unfolding shmat_socket_def Let_def c g w prod.case by (simp only: split: if_split_asm) blast+
  then show ?thesis
    by (elim disjE exE) (rule keeps_trans [OF keeps_config(1) fail_ok(2)] keeps_trans [OF k1 fail_ok(2)] keeps_trans [OF k1 chain_call_ok], assumption)+
qed

lemma shmat_connect_ok:
  assumes "shmat_connect e i s = Inr (st, s')"
  shows "keeps_shms s s'"
proof -
  obtain c where c: "configs s ! i = c" by blast
  obtain st1 s1 where w: "sysvipc_shm_recvmsg_pointers c (shmat_guest_buf c) True s = (st1, s1)" by fastforce
  have k1: "keeps_shms s s1" using w keeps_write unfolding sysvipc_shm_recvmsg_pointers_def if_True by blast
  have "fail_close_socket i s = Inr (st, s') \<or> fail_close_socket i s1 = Inr (st, s') \<or>
      (\<exists>n as q d. chain_call i n as q d s1 = Inr (st, s'))"
    using assms unfolding shmat_connect_def Let_def c w prod.case by (simp only: split: if_split_asm) blast+
  then show ?thesis
    by (elim disjE exE) (rule fail_ok(1) keeps_trans [OF k1 fail_ok(1)] keeps_trans [OF k1 chain_call_ok], assumption)+
qed

lemma shmat_recvmsg_ok:
  assumes "shmat_recvmsg e i s = Inr (st, s')"
  shows "keeps_shms s s'"
proof -
  have "fail_close_socket i s = Inr (st, s') \<or> (\<exists>n as q d. chain_call i n as q d s = Inr (st, s'))"
    using assms unfolding shmat_recvmsg_def Let_def
    by (simp only: split: sum.split_asm if_split_asm) blast+
  then show ?thesis using fail_ok(1) chain_call_ok by blast
qed

lemma shms_ok_moved:
  assumes "shms_ok s" "j < length (mappings s)" "map_space m = map_space (mappings s ! j)" "shm_index m = shm_index (mappings s ! j)"
  shows "shms_ok (s\<lparr>mappings := (mappings s)[j := m]\<rparr>)"
proof -
  have v: "shm_view (s\<lparr>mappings := (mappings s)[j := m]\<rparr>) = shm_view s" by (simp add: shm_view_def)
  have old: "map_ok (shm_view s) x" if "x \<in> set ((mappings s)[j := m])" for x
  proof (cases "x = m")
    case True
    with shms_okD(2) [OF assms(1) nth_mem [OF assms(2)]] assms(3,4) show ?thesis by (simp add: map_ok_def)
  next
    case False
    with that set_update_cases have "x \<in> set (mappings s)" by fast
    then show ?thesis by (rule shms_okD(2) [OF assms(1)])
  qed
  have "\<exists>y \<in> set ((mappings s)[j := m]). map_space y = map_space x \<and> shm_index y = shm_index x" if x: "x \<in> set (mappings s)" for x
  proof -
    obtain l where l: "l < length (mappings s)" "x = mappings s ! l" using x by (auto simp: in_set_conv_nth)
    then have "(mappings s)[j := m] ! l \<in> set ((mappings s)[j := m])" by (metis length_list_update nth_mem)
    moreover have "map_space ((mappings s)[j := m] ! l) = map_space x \<and> shm_index ((mappings s)[j := m] ! l) = shm_index x"
      using l assms(3,4) by (cases "l = j") simp_all
    ultimately show ?thesis by blast
  qed
  then have "seg_ok (mappings s) n k g \<Longrightarrow> seg_ok ((mappings s)[j := m]) n k g" for n k g
    unfolding seg_ok_def by metis
  with assms(1) old show ?thesis unfolding shms_ok_def v by simp
qed

lemma shmat_mmap_ok:
  assumes "shmat_mmap i s = Inr (st, s')"
  shows "keeps_shms s s'"
proof -
  obtain c where c: "configs s ! i = c" by blast
  show ?thesis
  proof (cases "arg SYSARG_RESULT c = -1")
    case True
    with assms c fail_ok(1) show ?thesis by (simp add: shmat_mmap_def)
  next
    case False
    with assms c obtain j where j: "find_map (pending_map c) (mappings s) = Some j"
      by (cases "find_map (pending_map c) (mappings s)") (simp_all add: shmat_mmap_def)
    let ?m = "(mappings s ! j)\<lparr>map_addr := arg SYSARG_RESULT c, map_size := arg SYSARG_2 c\<rparr>"
    have e: "\<exists>cs. s' = (s\<lparr>mappings := (mappings s)[j := ?m]\<rparr>)\<lparr>configs := cs\<rparr>"
      using assms False j c by (auto simp: shmat_mmap_def Let_def set_config_def)
    have "shms_ok (s\<lparr>mappings := (mappings s)[j := ?m]\<rparr>)" if "shms_ok s"
      by (rule shms_ok_moved [OF that]) (use find_map_less [OF j] in simp_all)
    then have "keeps_shms s (s\<lparr>mappings := (mappings s)[j := ?m]\<rparr>)" by (simp add: keeps_shms_def same_defs)
    with e show ?thesis by auto
  qed
qed

lemma shmat_chain_ok: "sysvipc_shmat_chain e i s = Inr (st, s') \<Longrightarrow> keeps_shms s s'"
  unfolding sysvipc_shmat_chain_def Let_def
  by (auto split: if_split_asm chain_state.split_asm
      intro: shmat_socket_ok shmat_connect_ok shmat_recvmsg_ok shmat_mmap_ok)

lemma shmdt_ok:
  assumes "sysvipc_shmdt i s = (st, s')"
  shows "keeps_shms s s'"
proof -
  let ?f = "\<lambda>m. map_owner m = process (configs s ! i) \<and> map_addr m = arg SYSARG_1 (configs s ! i)"
  show ?thesis
  proof (cases "find_map ?f (mappings s)")
    case (Some j)
    with assms have "\<exists>c. s' = free_map j (set_config i c s)"
      by (auto simp: sysvipc_shmdt_def Let_def)
    then obtain c where "s' = free_map j (set_config i c s)" by blast
    moreover have "j < length (mappings (set_config i c s))" using find_map_less [OF Some] by (simp add: set_config_def)
    ultimately show ?thesis using keeps_trans [OF keeps_config(1) keeps_free_map] by simp
  qed (use assms in \<open>simp add: sysvipc_shmdt_def\<close>)
qed

lemma shmctl_ok:
  assumes "sysvipc_shmctl l i s = (st, s')"
  shows "keeps_shms s s'"
proof -
  obtain c where c: "configs s ! i = c" by blast
  let ?n = "space c"
  show ?thesis
  proof (cases "lookup_object m_valid m_generation (shms (spaces s ?n)) (arg SYSARG_1 c)")
    case None
    with assms c show ?thesis by (simp add: sysvipc_shmctl_def)
  next
    case (Some k)
    have v: "k < length (shm_view s ?n)" "m_valid (shm_view s ?n ! k)"
      using lookup_length [OF Some] by (simp_all add: shm_view_def)
    note at = seg_at_view [of s ?n k]
    have set_seg: "keeps_shms s (set_seg ?n k g s)"
      if "m_valid g" "m_generation g = m_generation (seg_at s ?n k)" "rmid_pending g \<longrightarrow> rmid_pending (seg_at s ?n k) \<or> seg_maps s ?n k \<noteq> []" for g
    proof -
      have "shms_ok (set_seg ?n k g s)" if s: "shms_ok s"
        by (rule shms_ok_set_seg)
          (use shms_okD [OF s] v at \<open>m_valid g\<close> that \<open>m_generation g = _\<close> \<open>rmid_pending g \<longrightarrow> _\<close> in \<open>auto simp: seg_ok_def seg_maps_empty\<close>)
      with same_set_seg show ?thesis by (simp add: keeps_shms_def)
    qed
    have rm: "keeps_shms s (sysvipc_do_rmid ?n k s)" if "seg_maps s ?n k = []"
      using do_rmid_ok [OF _ _ that] shms_okD same_do_rmid by (auto simp: keeps_shms_def)
    consider "s' = s" | "s' = sysvipc_do_rmid ?n k s" "seg_maps s ?n k = []"
      | "s' = set_seg ?n k ((seg_at s ?n k)\<lparr>rmid_pending := True\<rparr>) s" "seg_maps s ?n k \<noteq> []"
      | a bs where "write_mem c a bs (sysvipc_shm_update_stats ?n k s) = (st, s')"
      using assms unfolding sysvipc_shmctl_def Let_def c Some by (auto split: if_split_asm)
    then show ?thesis
    proof cases
      case 3
      with set_seg v at show ?thesis by simp
    next
      case 4
      have "keeps_shms s (sysvipc_shm_update_stats ?n k s)"
        unfolding sysvipc_shm_update_stats_def by (rule set_seg) (use v at in simp_all)
      from keeps_trans [OF this keeps_write [OF 4]] show ?thesis .
    qed (use rm in simp_all)
  qed
qed

lemma inherit_ok: "keeps_shms s (sysvipc_shm_inherit_process p q s)"
proof -
  let ?ms = "map (\<lambda>m. m\<lparr>map_owner := q\<rparr>) (filter (\<lambda>m. map_owner m = p) (mappings s)) @ mappings s"
  have v: "shm_view (sysvipc_shm_inherit_process p q s) = shm_view s" "mappings (sysvipc_shm_inherit_process p q s) = ?ms"
    by (simp_all add: sysvipc_shm_inherit_process_def shm_view_def)
  have "shms_ok (sysvipc_shm_inherit_process p q s)" if s: "shms_ok s"
  proof -
    have "seg_ok (mappings s) n k g \<Longrightarrow> seg_ok ?ms n k g" for n k g by (auto simp: seg_ok_def)
    moreover have "map_ok (shm_view s) m" if "m \<in> set ?ms" for m
      using that shms_okD(2) [OF s] by (auto simp: map_ok_def)
    ultimately show ?thesis using s unfolding shms_ok_def v by blast
  qed
  then show ?thesis by (simp add: keeps_shms_def same_defs sysvipc_shm_inherit_process_def)
qed

end
