(* ===== verification/Ipc_Reach.thy ===== *)
theory Ipc_Reach
  imports Ipc_Shm_Spec
begin

text \<open>
  What holds of the emulation in every state it can reach, by rule induction over the steps of \<open>Ipc_Main\<close>: the
  objects are well formed, a segment lives exactly as long as it is needed, and an identifier is nothing but
  the place of the object.
\<close>

section \<open>The invariant of the steps\<close>

definition ipc_ok :: "ipc \<Rightarrow> bool" where
  "ipc_ok s \<longleftrightarrow> sems_ok s \<and> queues_ok s \<and> shms_ok s"

lemma ipc_okI:
  "ipc_ok s \<Longrightarrow> keeps_shms s s' \<Longrightarrow> ipc_ok s'"
  "ipc_ok s \<Longrightarrow> queues_ok s' \<and> same_sems s s' \<and> same_shms s s' \<Longrightarrow> ipc_ok s'"
  "ipc_ok s \<Longrightarrow> sems_ok s' \<and> same_queues s s' \<and> same_shms s s' \<Longrightarrow> ipc_ok s'"
  using sems_ok_same queues_ok_same shms_ok_same by (auto simp: ipc_ok_def keeps_shms_def)

lemma ipc_ok_config [simp]:
  "ipc_ok (set_config i c s) = ipc_ok s" "ipc_ok (on_config i f s) = ipc_ok s" "ipc_ok (on_thread i g s) = ipc_ok s"
  "ipc_ok (s\<lparr>configs := cs\<rparr>) = ipc_ok s"
  by (simp_all add: ipc_ok_def sems_ok_def queues_ok_def shms_ok_def sem_view_def queue_view_def shm_view_def
      set_config_def on_config_def on_thread_def)

lemma serve_ok:
  assumes "serve E num i s = Some (st, s')" "ipc_ok s" "i < length (configs s)"
  shows "ipc_ok s'"
proof -
  have ok: "sems_ok s" "queues_ok s" using assms(2) by (simp_all add: ipc_ok_def)
  note q = ipc_okI(2) [OF assms(2)] and m = ipc_okI(3) [OF assms(2)] and h = ipc_okI(1) [OF assms(2)]
  from assms(1) show ?thesis
    unfolding serve_def
    by (elim if_SomeE)
      (rule q [OF msgget_ok [OF _ ok(2)]] q [OF msgsnd_ok [OF _ ok(2)]] q [OF msgrcv_ok [OF _ ok(2) assms(3)]] q [OF msgctl_ok [OF _ ok(2)]]
        m [OF semget_ok [OF _ ok(1)]] m [OF semop_ok [OF _ ok(1)]] m [OF semctl_ok [OF _ ok(1)]]
        h [OF shmget_ok] h [OF shmat_ok] h [OF shmdt_ok] h [OF shmctl_ok], assumption | simp)+
qed

lemma conclude_ok: "conclude E b w i (st, s) = (st', s') \<Longrightarrow> ipc_ok s \<Longrightarrow> ipc_ok s'"
  unfolding conclude_def Let_def by (simp only: split: if_split_asm prod.split_asm) (auto split: if_split_asm)

lemma common_ok:
  assumes "sysvipc_syscall_common E b i s = Inr (st, s')" "ipc_ok s" "i < length (configs s)"
  shows "ipc_ok s'"
proof (cases "serve E (get_sysnum CURRENT (thr (configs s ! i))) i s")
  case None
  with assms show ?thesis by (simp add: sysvipc_syscall_common_def Let_def split: if_split_asm)
next
  case (Some r)
  obtain st1 s1 where r: "r = (st1, s1)" by fastforce
  from serve_ok [OF _ assms(2,3)] Some r have "ipc_ok s1" by simp
  moreover obtain w where "conclude E b w i (st1, s1) = (st, s')"
    using assms(1) Some r by (simp add: sysvipc_syscall_common_def Let_def split: if_split_asm)
  ultimately show ?thesis using conclude_ok by blast
qed

lemma kept_ok:
  assumes "kept_status i s = Inr (st, s')" "ipc_ok s"
  shows "ipc_ok s'"
proof (cases "chain_state (configs s ! i) = CSTATE_MSGRCV_RETRY")
  case True
  with assms(1) have r: "sysvipc_msgrcv_retry i s = Inr (st, s')" by (simp add: kept_status_def)
  from assms(2) have "queues_ok s" by (simp add: ipc_ok_def)
  from ipc_okI(2) [OF assms(2) msgrcv_retry_ok [OF r this]] show ?thesis .
qed (use assms in \<open>simp add: kept_status_def\<close>)

lemma answer_ok: "answer i (kept_status i s) f = Inr (st, s') \<Longrightarrow> ipc_ok s \<Longrightarrow> ipc_ok s'"
  unfolding answer_def using kept_ok by (cases "kept_status i s") (auto split: prod.split_asm)

lemma enter_ok:
  assumes "syscall_enter_start E i s = Inr (st, s')" "ipc_ok s" "i < length (configs s)"
  shows "ipc_ok s'"
  using assms common_ok answer_ok unfolding syscall_enter_start_def
  by (cases "wait_state (configs s ! i)") auto

lemma chain_ok: "sysvipc_shmat_chain e i s = Inr (st, s') \<Longrightarrow> ipc_ok s \<Longrightarrow> ipc_ok s'"
  using ipc_okI(1) shmat_chain_ok by blast

lemma exit_ok:
  assumes "syscall_exit_start E i s = Inr (st, s')" "ipc_ok s"
  shows "ipc_ok s'"
proof (cases "chain_state (configs s ! i) = CSTATE_SHMAT_SOCKET \<or> helper_busy (configs s ! i)")
  case True
  with assms chain_ok show ?thesis by (auto simp: syscall_exit_start_def Let_def)
next
  case False
  have a: "\<And>s f. answer i (kept_status i s) f = Inr (st, s') \<Longrightarrow> ipc_ok s \<Longrightarrow> ipc_ok s'" by (rule answer_ok)
  note e = assms(1) [unfolded syscall_exit_start_def Let_def if_not_P [OF False]]
  show ?thesis
  proof (cases "wait_state (configs s ! i)")
    case WSTATE_ENTERED_PPOLL
    with e assms(2) show ?thesis by (auto simp: sysvipc_semop_timedout_def split: if_split_asm)
  next
    case WSTATE_SIGNALED_PPOLL
    from a [OF e [unfolded WSTATE_SIGNALED_PPOLL wait_state.case]] assms(2) show ?thesis by simp
  next
    case WSTATE_ENTERED_GETPID
    from a [OF e [unfolded WSTATE_ENTERED_GETPID wait_state.case]] assms(2) show ?thesis by simp
  qed (use e assms(2) in simp_all)
qed

lemma ipc_ok_step: "ipc_step s s' \<Longrightarrow> ipc_ok s \<Longrightarrow> ipc_ok s'"
proof (induction rule: ipc_step.induct)
  case (enter i s E st s')
  then show ?case using enter_ok by blast
next
  case (sigsys i s E st s')
  then show ?case using common_ok by blast
next
  case (exit i s E st s')
  then show ?case using exit_ok by blast
next
  case (chained_enter i s st s')
  then show ?case by (auto simp: syscall_chained_enter_def split: if_split_asm)
next
  case (chained_exit i s E st s')
  show ?case
  proof (cases "sysvipc_shmat_chain (shm E) i s")
    case Inl
    with chained_exit(2,3) show ?thesis by (auto simp: syscall_chained_exit_def Let_def split: if_split_asm)
  next
    case (Inr r)
    with chain_ok [of "shm E" i s] chained_exit(2,3) show ?thesis
      by (cases r) (auto simp: syscall_chained_exit_def Let_def split: if_split_asm)
  qed
next
  case (enter_end i s v st s')
  have "ipc_ok (sysvipc_shm_remove_mappings_from_process (process (configs s ! i)) s)"
    by (rule ipc_okI(1) [OF enter_end(3) keeps_remove_mappings])
  with enter_end show ?case by (auto simp: syscall_enter_end_def Let_def split: if_split_asm)
next
  case (child parent s p t thread_of)
  have k: "ipc_ok (s\<lparr>configs := cs, pgids := g\<rparr>) = ipc_ok s" for cs g
    by (simp add: ipc_ok_def sems_ok_def queues_ok_def shms_ok_def sem_view_def queue_view_def shm_view_def)
  show ?case
  proof (cases thread_of)
    case False
    with k child(3) ipc_okI(1) [OF _ inherit_ok] show ?thesis by (simp add: inherit_child_def Let_def)
  qed (use child(3) in \<open>simp add: inherit_child_def Let_def\<close>)
next
  case (outside s ts ms now)
  then show ?case
    by (simp add: outside_def ipc_ok_def sems_ok_def queues_ok_def shms_ok_def sem_view_def queue_view_def shm_view_def)
qed

lemma ipc_ok_reachable: "ipc_reachable s \<Longrightarrow> ipc_ok s"
proof (induction rule: ipc_reachable.induct)
  case (start t)
  show ?case
    by (simp add: ipc_start_def initialization_def ipc_ok_def sems_ok_def queues_ok_def shms_ok_def sem_view_def
        queue_view_def shm_view_def)
qed (use ipc_ok_step in blast)

section \<open>What it means for the objects\<close>

lemma reachable_queue:
  assumes "ipc_reachable s" "k < length (queues (spaces s n))" "q_valid (queues (spaces s n) ! k)"
  shows "q_generation (queues (spaces s n) ! k) = 0 \<and> stats_ok (queues (spaces s n) ! k)"
proof -
  from ipc_ok_reachable [OF assms(1)] have "queues_ok s" by (simp add: ipc_ok_def)
  from queue_ok_at [OF this assms(2)] assms(3) show ?thesis by (simp add: queue_ok_def queue_at_def)
qed

lemma reachable_sem:
  assumes "ipc_reachable s" "k < length (semaphores (spaces s n))" "s_valid (semaphores (spaces s n) ! k)"
  shows "s_generation (semaphores (spaces s n) ! k) = 0 \<and> (\<exists>v. sems (semaphores (spaces s n) ! k) = Some v \<and>
      nsems (semaphores (spaces s n) ! k) = int (length v) \<and> bounded_vals v)"
proof -
  from ipc_ok_reachable [OF assms(1)] have "sems_ok s" by (simp add: ipc_ok_def)
  from sem_ok_at [OF this assms(2)] assms(3) show ?thesis by (simp add: sem_ok_def)
qed

lemma reachable_seg:
  assumes "ipc_reachable s" "k < length (shms (spaces s n))"
  shows "seg_ok (mappings s) n k (shms (spaces s n) ! k)"
proof -
  from ipc_ok_reachable [OF assms(1)] have "shms_ok s" by (simp add: ipc_ok_def)
  from shms_okD(1) [OF this, of k n] assms(2) show ?thesis by (simp add: shm_view_def)
qed

text \<open>Sessions for the witnesses: calls that were trapped, one after the other.\<close>

lemma trapped_call:
  assumes "i < length (configs s)" "wait_state (configs s ! i) = WSTATE_NOT_WAITING"
    and "serve E (get_sysnum CURRENT (thr (configs s ! i))) i s = Some (st, s1)"
  shows "\<exists>s2. ipc_step s s2 \<and> spaces s2 = spaces s1 \<and> mappings s2 = mappings s1 \<and>
    (chain_state (configs s1 ! i) = CSTATE_NOT_CHAINED \<and> wait_reason (configs s1 ! i) = WR_NOT_WAITING \<longrightarrow>
       (\<exists>f. s2 = on_thread i f s1))"
proof -
  obtain w where "sysvipc_syscall_common E True i s = Inr (conclude E True w i (st, s1))"
    using assms(2,3) by (simp add: sysvipc_syscall_common_def Let_def)
  moreover obtain st2 s2 where c: "conclude E True w i (st, s1) = (st2, s2)" by fastforce
  ultimately have "ipc_step s s2" using assms(1) by (intro ipc_step.sigsys) auto
  moreover have "spaces s2 = spaces s1 \<and> mappings s2 = mappings s1"
    using c unfolding conclude_def Let_def by (auto simp: on_config_def on_thread_def set_config_def split: if_split_asm)
  moreover have "chain_state (configs s1 ! i) = CSTATE_NOT_CHAINED \<and> wait_reason (configs s1 ! i) = WR_NOT_WAITING \<longrightarrow>
       (\<exists>f. s2 = on_thread i f s1)"
    using c unfolding conclude_def Let_def by auto
  ultimately show ?thesis by blast
qed

definition caller :: "word_t \<Rightarrow> word_t \<Rightarrow> word_t \<Rightarrow> word_t \<Rightarrow> thread" where
  "caller num a b c = demo_thread [(8, num), (0, a), (1, b), (2, c)]"

lemma caller_regs:
  "get_sysnum CURRENT (caller num a b c) = translate_sysnum num"
  "peek_reg CURRENT SYSARG_1 (caller num a b c) = a" "peek_reg CURRENT SYSARG_2 (caller num a b c) = b"
  "peek_reg CURRENT SYSARG_3 (caller num a b c) = c"
  by (simp_all add: get_sysnum_def peek_reg_def caller_def demo_thread_def)

lemma sysnum_of_ipc: "translate_sysnum 190 = ''semget''" "translate_sysnum 194 = ''shmget''" "translate_sysnum 196 = ''shmat''"
proof -
  have "map_of sysnum_entries 190 = Some ''semget''" "map_of sysnum_entries 194 = Some ''shmget''"
    "map_of sysnum_entries 196 = Some ''shmat''" unfolding sysnum_entries_def map_of_Cons_code by simp_all
  from this [THEN sysnum_of_table] show "translate_sysnum 190 = ''semget''" "translate_sysnum 194 = ''shmget''" "translate_sysnum 196 = ''shmat''"
    by (simp_all add: sysnums_length_def)
qed

lemma fresh_fields [simp]:
  "space (fresh_config t n p) = n" "chain_state (fresh_config t n p) = CSTATE_NOT_CHAINED" "thr (fresh_config t n p) = t"
  "wait_reason (fresh_config t n p) = WR_NOT_WAITING" "wait_state (fresh_config t n p) = WSTATE_NOT_WAITING"
  by (simp_all add: fresh_config_def)

lemma start_fields [simp]:
  "configs (ipc_start t) = [fresh_config t 0 0]" "spaces (ipc_start t) 0 = \<lparr>queues = [], semaphores = [], shms = []\<rparr>" "mappings (ipc_start t) = []"
  by (simp_all add: ipc_start_def initialization_def)

lemma sem_session: "\<exists>s. ipc_reachable s \<and> semaphores (spaces s 0) = [new_sem_set 0 1]"
proof -
  let ?s = "ipc_start (caller 190 0 1 0x200)"
  obtain st s1 where g: "sysvipc_semget 0 ?s = (st, s1)" and s1: "semaphores (spaces s1 0) = [new_sem_set 0 1]"
    by (simp add: sysvipc_semget_def arg_def caller_regs int_arg_def SYSVIPC_MAX_NSEMS_def SYSVIPC_MAX_SEMS_def flag_set_def
        IPC_CREAT_def IPC_EXCL_def set_space_def Let_def)
  obtain E :: ipc_env where True by blast
  have "serve E ''semget'' 0 ?s = Some (st, s1)" using g by (simp add: serve_def)
  with trapped_call [of 0 ?s E st s1] obtain s2 where "ipc_step ?s s2" "spaces s2 = spaces s1"
    by (auto simp: caller_regs sysnum_of_ipc)
  then show ?thesis using s1(1) ipc_reachable.step [OF ipc_reachable.start] by metis
qed

lemma shm_session:
  "\<exists>s. ipc_reachable s \<and> mappings s = [\<lparr>map_owner = 0, map_addr = 0, map_size = 0, map_space = 0, shm_index = 0\<rparr>]"
proof -
  let ?s = "ipc_start (caller 194 0 4096 0x200)"
  define E where "E = \<lparr>kernel = demo_ptracer, shm = \<lparr>alloc_fd = 5, helper_reached = True, helper_addr = [], page_size = 4096, junk_half = 0\<rparr>,
     msqid_layout = (\<lambda>_. []), shmid_layout = (\<lambda>_. [])\<rparr>"
  obtain st s1 g where g: "sysvipc_shmget (shm E) 0 ?s = (st, s1)" and s1: "spaces s1 0 = \<lparr>queues = [], semaphores = [], shms = [g]\<rparr>"
    "m_valid g" "m_generation g = 0" "configs s1 = configs ?s" "mappings s1 = []"
    by (simp add: sysvipc_shmget_def arg_def caller_regs SYSVIPC_MAX_SHM_SIZE_def flag_set_def E_def new_seg_def
        IPC_CREAT_def IPC_EXCL_def set_space_def Let_def)
  have "serve E ''shmget'' 0 ?s = Some (st, s1)" using g by (simp add: serve_def)
  with trapped_call [of 0 ?s E st s1] s1 obtain s2 f where s2: "ipc_step ?s s2" "s2 = on_thread 0 f s1"
    by (auto simp: caller_regs sysnum_of_ipc)
  define s3 where "s3 = outside (\<lambda>_. caller 196 1 0 0) (\<lambda>_ _. None) 0 s2"
  have r3: "ipc_reachable s3"
    unfolding s3_def using ipc_reachable.step [OF ipc_reachable.step [OF ipc_reachable.start s2(1)] ipc_step.outside] .
  have c3: "configs s3 = [fresh_config (caller 196 1 0 0) 0 0]" "spaces s3 = spaces s1" "mappings s3 = []"
    using s1 s2(2) by (simp_all add: s3_def outside_def on_thread_def map_thread_def set_config_def fresh_config_def)
  obtain st' s4 where a: "sysvipc_shmat 0 s3 = (st', s4)" and s4: "mappings s4 = [\<lparr>map_owner = 0, map_addr = 0, map_size = 0, map_space = 0, shm_index = 0\<rparr>]"
    by (simp add: sysvipc_shmat_def c3 s1 arg_def caller_regs lookup_object_def id_slot_def id_generation_def helper_busy_def
        set_config_def Let_def fresh_config_def)
  have "serve E ''shmat'' 0 s3 = Some (st', s4)" using a by (simp add: serve_def)
  with trapped_call [of 0 s3 E st' s4] obtain s5 where s5: "ipc_step s3 s5" "mappings s5 = mappings s4"
    by (auto simp: caller_regs sysnum_of_ipc c3)
  with ipc_reachable.step [OF r3] s4 show ?thesis by metis
qed

text \<open>
  C20: in every state of a session, a message queue that exists counts its messages and their bytes, and a
  semaphore set that exists has as many values as it says, none of them above the largest value.
\<close>

theorem ipc_objects_well_formed:
  assumes "ipc_reachable s"
  shows "(\<forall>q \<in> set (queues (spaces s n)). q_valid q \<longrightarrow>
       msg_qnum (stats q) = of_nat (length (items q)) \<and>
       msg_cbytes (stats q) = of_nat (sum_list (map (\<lambda>m. length (mtext m)) (items q)))) \<and>
     (\<forall>o' \<in> set (semaphores (spaces s n)). s_valid o' \<longrightarrow>
       (\<exists>v. sems o' = Some v \<and> nsems o' = int (length v) \<and> (\<forall>x \<in> set v. unat x \<le> SYSVIPC_MAX_SEMVAL)))"
proof (intro conjI ballI impI)
  fix q assume "q \<in> set (queues (spaces s n))" and v: "q_valid q"
  then obtain k where "k < length (queues (spaces s n))" "q = queues (spaces s n) ! k" by (auto simp: in_set_conv_nth)
  with v reachable_queue [OF assms] have "stats_ok q" by simp
  then show "msg_qnum (stats q) = of_nat (length (items q))"
    "msg_cbytes (stats q) = of_nat (sum_list (map (\<lambda>m. length (mtext m)) (items q)))"
    by (simp_all add: stats_ok_def comp_def)
next
  fix o' assume "o' \<in> set (semaphores (spaces s n))" and v: "s_valid o'"
  then obtain k where "k < length (semaphores (spaces s n))" "o' = semaphores (spaces s n) ! k" by (auto simp: in_set_conv_nth)
  with v reachable_sem [OF assms] show "\<exists>v. sems o' = Some v \<and> nsems o' = int (length v) \<and> (\<forall>x \<in> set v. unat x \<le> SYSVIPC_MAX_SEMVAL)"
    by (simp add: bounded_vals_def)
qed

theorem ipc_objects_well_formed_witness:
  "\<exists>s o' v. ipc_reachable s \<and> o' \<in> set (semaphores (spaces s 0)) \<and> sems o' = Some v \<and> (\<forall>x \<in> set v. unat x \<le> SYSVIPC_MAX_SEMVAL)"
proof -
  from sem_session obtain s where s: "ipc_reachable s" "semaphores (spaces s 0) = [new_sem_set 0 1]" by blast
  from ipc_objects_well_formed [OF s(1), of 0] s(2)
  obtain v where "sems (new_sem_set 0 1) = Some v" "\<forall>x \<in> set v. unat x \<le> SYSVIPC_MAX_SEMVAL"
    by (simp add: new_sem_set_def)
  with s show ?thesis by auto
qed

text \<open>
  C21: a shared segment that was removed while it was attached still exists and is attached, so it disappears
  with its last mapping, and every mapping belongs to a segment that exists.
\<close>

theorem shm_segment_lifetime:
  assumes "ipc_reachable s"
  shows "(\<forall>m \<in> set (mappings s). shm_index m < length (shms (spaces s (map_space m))) \<and> m_valid (seg_at s (map_space m) (shm_index m))) \<and>
     (\<forall>k < length (shms (spaces s n)). rmid_pending (seg_at s n k) \<longrightarrow> m_valid (seg_at s n k) \<and> seg_maps s n k \<noteq> [])"
proof -
  from ipc_ok_reachable [OF assms] have "shms_ok s" by (simp add: ipc_ok_def)
  then show ?thesis using reachable_seg [OF assms, of _ n]
    by (auto simp: shms_ok_def map_ok_def shm_view_def seg_at_def seg_ok_def seg_maps_empty)
qed

lemma id_of_index:
  assumes "k < 4095"
  shows "id_slot (of_nat (k + 1)) = k + 1" "id_generation (of_nat (k + 1)) = 0"
proof -
  obtain x where x: "(ucast (of_nat (k + 1) :: word_t) :: u32) = x" by blast
  have w: "unat (of_nat (k + 1) :: word_t) = k + 1" by (rule unat_index) (use assms in simp)
  have u: "unat x = k + 1"
    using w assms unfolding x [symmetric] unsigned_ucast_eq by (simp add: take_bit_eq_mod del: of_nat_add of_nat_Suc)
  have "(0xFFF :: u32) = mask 12" by (simp add: mask_eq_exp_minus_1)
  then have "unat (x AND 0xFFF) = unat x mod 2 ^ 12"
    by (simp only: take_bit_eq_mask [symmetric] unsigned_take_bit_eq) (simp only: take_bit_eq_mod)
  with u assms show "id_slot (of_nat (k + 1)) = k + 1"
    unfolding id_slot_def x by simp
  have "unat (drop_bit 12 x) = drop_bit 12 (unat x)" by (rule unat_drop_bit_eq)
  also have "\<dots> = 0" unfolding u using assms by (simp add: drop_bit_eq_div)
  finally have "unat (drop_bit 12 x) = 0" .
  then have "drop_bit 12 x = 0" by (simp only: unat_eq_0)
  then show "id_generation (of_nat (k + 1)) = 0" unfolding id_generation_def x by simp
qed

theorem shm_segment_lifetime_witness:
  "\<exists>s. ipc_reachable s \<and> length (mappings s) = 1 \<and> m_valid (seg_at s 0 0)"
proof -
  from shm_session obtain s where s: "ipc_reachable s"
    "mappings s = [\<lparr>map_owner = 0, map_addr = 0, map_size = 0, map_space = 0, shm_index = 0\<rparr>]" by blast
  from shm_segment_lifetime [OF s(1), of 0] s(2) have "m_valid (seg_at s 0 0)" by simp
  with s show ?thesis by auto
qed

text \<open>
  An identifier is nothing but the place of the object. The counter that was to tell an object from its
  predecessor is reset with the object, so the identifier of a removed queue, set or segment is accepted for
  the next one in its place.
\<close>

theorem identifiers_reused:
  assumes "ipc_reachable s" "k < 4095"
  shows "(k < length (queues (spaces s n)) \<and> q_valid (queues (spaces s n) ! k) \<longrightarrow>
       lookup_object q_valid q_generation (queues (spaces s n)) (of_nat (k + 1)) = Some k) \<and>
     (k < length (semaphores (spaces s n)) \<and> s_valid (semaphores (spaces s n) ! k) \<longrightarrow>
       lookup_object s_valid s_generation (semaphores (spaces s n)) (of_nat (k + 1)) = Some k) \<and>
     (k < length (shms (spaces s n)) \<and> m_valid (shms (spaces s n) ! k) \<longrightarrow>
       lookup_object m_valid m_generation (shms (spaces s n)) (of_nat (k + 1)) = Some k)"
proof -
  obtain w :: word_t where w: "of_nat (k + 1) = w" by blast
  with id_of_index [OF assms(2)] have "id_slot w = k + 1" "id_generation w = 0" by (simp_all only:)
  then show ?thesis unfolding w
    using reachable_queue [OF assms(1), of k n] reachable_sem [OF assms(1), of k n] reachable_seg [OF assms(1), of k n]
    by (auto simp: lookup_object_def seg_ok_def)
qed

theorem identifiers_reused_witness:
  "\<exists>s. ipc_reachable s \<and> lookup_object s_valid s_generation (semaphores (spaces s 0)) 1 = Some 0"
proof -
  from sem_session obtain s where s: "ipc_reachable s" "semaphores (spaces s 0) = [new_sem_set 0 1]" by blast
  have "s_valid (new_sem_set 0 1)" by (simp add: new_sem_set_def)
  with identifiers_reused [OF s(1), of 0 0] s(2)
  have "lookup_object s_valid s_generation (semaphores (spaces s 0)) 1 = Some 0" by simp
  with s(1) show ?thesis by blast
qed

end
