(* ===== verification/Creds.thy ===== *)
theory Creds
  imports Sigsys
begin

text \<open>
  The emulated identity of a tracee (\<^verbatim>\<open>src/extension/fake_id0\<close>, as it is built without \<open>USERLAND\<close>): the calls
  that set and read user and group ids, the results that are disguised, the permissions that are
  overridden for an emulated superuser.
\<close>

section \<open>Identities\<close>

text \<open>\<open>Config\<close> holds the same four ids twice, for the user and for the group; the macros of the sources are
  expanded for both.\<close>

record ids =
  real_id :: u32
  eff_id :: u32
  saved_id :: u32
  fs_id :: u32

record creds =
  uids :: ids
  gids :: ids
  cfg_umask :: u32

text \<open>What \<open>getuid(2)\<close> and the like tell the tracer about itself.\<close>

record host_ids =
  own_uid :: u32
  own_euid :: u32
  own_gid :: u32
  own_egid :: u32

definition is_root :: "creds \<Rightarrow> bool" where
  "is_root c \<longleftrightarrow> eff_id (uids c) = 0"

definition unset_id :: "u32 \<Rightarrow> bool" where "unset_id v \<longleftrightarrow> v = -1"

definition unchanged_id :: "u32 \<Rightarrow> u32 \<Rightarrow> bool" where "unchanged_id v x \<longleftrightarrow> unset_id v \<or> v = x"

definition equals_any_id :: "u32 \<Rightarrow> ids \<Rightarrow> bool" where
  "equals_any_id v i \<longleftrightarrow> v = real_id i \<or> v = eff_id i \<or> v = saved_id i"

text \<open>\<open>root\<close> is whether the emulated effective user is 0, for groups as well; \<open>own\<close> and \<open>eown\<close> are the ids of the
  tracer.\<close>

definition SETXID :: "bool \<Rightarrow> u32 \<Rightarrow> u32 \<Rightarrow> u32 \<Rightarrow> ids \<Rightarrow> ids res" where
  "SETXID root own eown v i =
     (let allowed = (root \<or> equals_any_id v i);
          allowed = (if allowed then True
                     else if v = eown \<and> eff_id i = eown then True
                     else eff_id i \<noteq> 0 \<and> v = own)
      in if \<not> allowed then Inl EPERM
         else (let i = (if root then i\<lparr>real_id := v, saved_id := v\<rparr> else i)
               in Inr (i\<lparr>eff_id := v, fs_id := v\<rparr>)))"

definition SETREXID :: "bool \<Rightarrow> u32 \<Rightarrow> u32 \<Rightarrow> ids \<Rightarrow> ids res" where
  "SETREXID root r e i =
     (let same_e = unchanged_id e (eff_id i); same_r = unchanged_id r (real_id i);
          allowed = (root \<or> (same_e \<and> same_r) \<or>
            (r = eff_id i \<and> (e = real_id i \<or> same_e)) \<or>
            (e = real_id i \<and> (r = eff_id i \<or> same_r)) \<or>
            (e = saved_id i \<and> same_r))
      in if \<not> allowed then Inl EPERM
         else
           let i = (if unset_id e then i
                    else (if e \<noteq> real_id i then i\<lparr>saved_id := e\<rparr> else i)\<lparr>eff_id := e, fs_id := e\<rparr>);
               i = (if unset_id r then i
                    else (if unset_id e then i else i\<lparr>saved_id := e\<rparr>)\<lparr>real_id := r\<rparr>)
           in Inr i)"

definition SETRESXID :: "bool \<Rightarrow> u32 \<Rightarrow> u32 \<Rightarrow> u32 \<Rightarrow> ids \<Rightarrow> ids res" where
  "SETRESXID root r e s i =
     (let ok = (\<lambda>v. unset_id v \<or> equals_any_id v i) in
      if \<not> (root \<or> (ok r \<and> ok e \<and> ok s)) then Inl EPERM
      else
        let i = (if unset_id r then i else i\<lparr>real_id := r\<rparr>);
            i = (if unset_id e then i else i\<lparr>eff_id := e, fs_id := e\<rparr>);
            i = (if unset_id s then i else i\<lparr>saved_id := s\<rparr>)
        in Inr i)"

text \<open>The result is the old id, whether it was changed or not.\<close>

definition SETFSXID :: "bool \<Rightarrow> u32 \<Rightarrow> ids \<Rightarrow> u32 \<times> ids" where
  "SETFSXID root v i =
     (fs_id i, if root \<or> v = fs_id i \<or> equals_any_id v i then i\<lparr>fs_id := v\<rparr> else i)"

section \<open>The calls that set ids\<close>

definition arg_id :: "reg_version \<Rightarrow> reg \<Rightarrow> thread \<Rightarrow> u32" where
  "arg_id v r t = ucast (peek_reg v r t)"

definition on_uids :: "(ids \<Rightarrow> ids res) \<Rightarrow> creds \<Rightarrow> creds res" where
  "on_uids f c = (case f (uids c) of Inl e \<Rightarrow> Inl e | Inr i \<Rightarrow> Inr (c\<lparr>uids := i\<rparr>))"

definition on_gids :: "(ids \<Rightarrow> ids res) \<Rightarrow> creds \<Rightarrow> creds res" where
  "on_gids f c = (case f (gids c) of Inl e \<Rightarrow> Inl e | Inr i \<Rightarrow> Inr (c\<lparr>gids := i\<rparr>))"

text \<open>\<open>None\<close> for any other call.\<close>

definition set_ids :: "host_ids \<Rightarrow> reg_version \<Rightarrow> sysnum \<Rightarrow> thread \<Rightarrow> creds \<Rightarrow> creds res option" where
  "set_ids h v s t c =
     (let root = is_root c; a1 = arg_id v SYSARG_1 t; a2 = arg_id v SYSARG_2 t; a3 = arg_id v SYSARG_3 t in
      if s = ''setuid'' \<or> s = ''setuid32'' then Some (on_uids (SETXID root (own_uid h) (own_euid h) a1) c)
      else if s = ''setgid'' \<or> s = ''setgid32'' then Some (on_gids (SETXID root (own_gid h) (own_egid h) a1) c)
      else if s = ''setreuid'' \<or> s = ''setreuid32'' then Some (on_uids (SETREXID root a1 a2) c)
      else if s = ''setregid'' \<or> s = ''setregid32'' then Some (on_gids (SETREXID root a1 a2) c)
      else if s = ''setresuid'' \<or> s = ''setresuid32'' then Some (on_uids (SETRESXID root a1 a2 a3) c)
      else if s = ''setresgid'' \<or> s = ''setresgid32'' then Some (on_gids (SETRESXID root a1 a2 a3) c)
      else None)"

text \<open>A tracee with its memory and identity; a status is an \<open>int\<close> as in the sources.\<close>

type_synonym fake = "thread \<times> memory \<times> creds"

definition set_ids_call :: "host_ids \<Rightarrow> reg_version \<Rightarrow> sysnum \<Rightarrow> fake \<Rightarrow> (int \<times> fake) option" where
  "set_ids_call h v s f =
     (let (t, m, c) = f in
      case set_ids h v s t c of None \<Rightarrow> None
      | Some (Inl e) \<Rightarrow> Some (- errno_num e, f)
      | Some (Inr c) \<Rightarrow> Some (0, poke_reg SYSARG_RESULT 0 t, m, c))"

definition set_fsids_call :: "sysnum \<Rightarrow> fake \<Rightarrow> (int \<times> fake) option" where
  "set_fsids_call s f =
     (let (t, m, c) = f; v = arg_id ORIGINAL SYSARG_1 t in
      if s = ''setfsuid'' \<or> s = ''setfsuid32'' then
        (let (old, i) = SETFSXID (is_root c) v (uids c) in Some (0, poke_reg SYSARG_RESULT (ucast old) t, m, c\<lparr>uids := i\<rparr>))
      else if s = ''setfsgid'' \<or> s = ''setfsgid32'' then
        (let (old, i) = SETFSXID (is_root c) v (gids c) in Some (0, poke_reg SYSARG_RESULT (ucast old) t, m, c\<lparr>gids := i\<rparr>))
      else None)"

section \<open>The calls that read ids\<close>

definition get_ids_call :: "sysnum \<Rightarrow> fake \<Rightarrow> (int \<times> fake) option" where
  "get_ids_call s f =
     (let (t, m, c) = f; answer = (\<lambda>v :: u32. Some (0, poke_reg SYSARG_RESULT (ucast v) t, m, c)) in
      if s = ''getuid'' \<or> s = ''getuid32'' then answer (real_id (uids c))
      else if s = ''getgid'' \<or> s = ''getgid32'' then answer (real_id (gids c))
      else if s = ''geteuid'' \<or> s = ''geteuid32'' then answer (eff_id (uids c))
      else if s = ''getegid'' \<or> s = ''getegid32'' then answer (eff_id (gids c))
      else None)"

text \<open>\<open>POKE_MEM_ID\<close>, one after the other, until one fails.\<close>

fun poke_ids :: "(reg \<times> u32) list \<Rightarrow> thread \<Rightarrow> memory \<Rightarrow> int \<times> memory" where
  "poke_ids [] t m = (0, m)"
| "poke_ids ((r, v) # l) t m =
     (case write_data m (peek_reg ORIGINAL r t) (le_bytes 4 (unat v)) of
        (Some e, m) \<Rightarrow> (- errno_num e, m)
      | (None, m) \<Rightarrow> poke_ids l t m)"

definition handle_getresid_exit_end :: "ids \<Rightarrow> fake \<Rightarrow> int \<times> fake" where
  "handle_getresid_exit_end i f =
     (let (t, m, c) = f;
          (st, m) = poke_ids [(SYSARG_1, real_id i), (SYSARG_2, eff_id i), (SYSARG_3, saved_id i)] t m
      in (st, t, m, c))"

section \<open>Results that are disguised\<close>

text \<open>The low 32 bits of the result are compared, as an \<open>int\<close>.\<close>

definition result_int :: "thread \<Rightarrow> int" where
  "result_int t = sint (ucast (peek_reg CURRENT SYSARG_RESULT t) :: u32)"

definition is_perm_error :: "thread \<Rightarrow> bool" where
  "is_perm_error t \<longleftrightarrow> result_int t = - errno_num EPERM \<or> result_int t = - errno_num EACCES"

definition handle_perm_err_exit_end :: "bool \<Rightarrow> fake \<Rightarrow> int \<times> fake" where
  "handle_perm_err_exit_end even_if_not_root f =
     (let (t, m, c) = f in
      if \<not> is_perm_error t then (0, f)
      else if even_if_not_root \<or> is_root c then (0, poke_reg SYSARG_RESULT 0 t, m, c)
      else (0, f))"

definition handle_socket_exit_end :: "fake \<Rightarrow> int \<times> fake" where
  "handle_socket_exit_end f =
     (let (t, m, c) = f in
      if is_perm_error t \<and> peek_reg ORIGINAL SYSARG_1 t = 16 \<and> peek_reg ORIGINAL SYSARG_3 t = 9 \<and> is_root c
      then (- errno_num EPROTONOSUPPORT, f) else (0, f))"

text \<open>A file of the tracer's own user is shown as one of the emulated user. The id that is read is undefined
  when the read fails: \<open>junk\<close>. Errors of the write are ignored.\<close>

definition STAT_UID :: word_t where "STAT_UID = 24"
definition STAT_GID :: word_t where "STAT_GID = 28"

definition disguise_id :: "u32 \<Rightarrow> u32 \<Rightarrow> u32 \<Rightarrow> word_t \<Rightarrow> memory \<Rightarrow> memory" where
  "disguise_id junk own shown a m =
     (let v = (case read_data m a 4 of Inl _ \<Rightarrow> junk | Inr bs \<Rightarrow> of_nat (le_value bs))
      in if v = own then snd (write_data m a (le_bytes 4 (unat shown))) else m)"

definition handle_stat_exit_end :: "host_ids \<Rightarrow> u32 \<Rightarrow> reg \<Rightarrow> fake \<Rightarrow> int \<times> fake" where
  "handle_stat_exit_end h junk r f =
     (let (t, m, c) = f; a = peek_reg ORIGINAL r t in
      if peek_reg CURRENT SYSARG_RESULT t \<noteq> 0 then (0, f)
      else (0, t, disguise_id junk (own_gid h) (saved_id (gids c)) (a + STAT_GID)
                    (disguise_id junk (own_uid h) (saved_id (uids c)) (a + STAT_UID) m), c))"

text \<open>The ids of a peer: those of the tracee with that number, when there is one.\<close>

definition handle_getsockopt_exit_end :: "(int \<Rightarrow> creds option) \<Rightarrow> fake \<Rightarrow> int \<times> fake" where
  "handle_getsockopt_exit_end config_of f =
     (let (t, m, c) = f; a = peek_reg ORIGINAL SYSARG_4 t;
          int_of = (\<lambda>r. sint (ucast (peek_reg ORIGINAL r t) :: u32)) in
      if int_of SYSARG_2 \<noteq> 1 \<or> int_of SYSARG_3 \<noteq> 17 \<or> peek_reg CURRENT SYSARG_RESULT t \<noteq> 0 then (0, f)
      else (case read_data m a 12 of Inl _ \<Rightarrow> (0, f)
        | Inr bs \<Rightarrow>
           (case config_of (sint (of_nat (le_value (take 4 bs)) :: u32)) of None \<Rightarrow> (0, f)
            | Some p \<Rightarrow>
               (0, t, snd (write_data m a (take 4 bs @ le_bytes 4 (unat (eff_id (uids p))) @ le_bytes 4 (unat (eff_id (gids p))))), c))))"

section \<open>The entry of a call\<close>

text \<open>A file is given to the tracer's own user instead of the emulated one.\<close>

definition handle_chown_enter_end :: "host_ids \<Rightarrow> reg \<Rightarrow> reg \<Rightarrow> fake \<Rightarrow> int \<times> fake" where
  "handle_chown_enter_end h ur gr f =
     (let (t, m, c) = f;
          t' = (if arg_id ORIGINAL ur t = real_id (uids c) then poke_reg ur (ucast (own_uid h)) t else t);
          t' = (if arg_id ORIGINAL gr t = real_id (gids c) then poke_reg gr (ucast (own_gid h)) t' else t')
      in (0, t', m, c))"

text \<open>\<open>sendmsg\<close>: the credentials that are passed along are replaced by those of the tracer. A \<open>struct cmsghdr\<close>
  has 16 bytes, a \<open>struct ucred\<close> 12, a \<open>struct msghdr\<close> 56 with the control data at 32 and its length at 40.\<close>

definition MAX_CONTROLLEN :: nat where "MAX_CONTROLLEN = 1024"

definition field :: "nat \<Rightarrow> nat \<Rightarrow> byte list \<Rightarrow> nat" where
  "field n i bs = le_value (take n (drop i bs))"

definition overwrite :: "nat \<Rightarrow> byte list \<Rightarrow> byte list \<Rightarrow> byte list" where
  "overwrite i new bs = take i bs @ new @ drop (i + length new) bs"

definition align8 :: "nat \<Rightarrow> nat" where
  "align8 n = (n + 7) div 8 * 8"

function cmsg_walk :: "host_ids \<Rightarrow> nat \<Rightarrow> nat \<Rightarrow> byte list \<Rightarrow> bool \<Rightarrow> byte list \<times> bool" where
  "cmsg_walk h n pos buf modified =
     (if pos + 16 > n then (buf, modified)
      else
        let len = field 8 pos buf in
        if len < 16 \<or> len > n - pos then (buf, modified)
        else
          let credentials = (field 4 (pos + 8) buf = 1 \<and> field 4 (pos + 12) buf = 2 \<and> len = 28);
              buf = (if credentials then overwrite (pos + 20) (le_bytes 4 (unat (own_uid h)) @ le_bytes 4 (unat (own_gid h))) buf else buf)
          in cmsg_walk h n (align8 (pos + len)) buf (modified \<or> credentials))"
  by pat_completeness auto
termination
  by (relation "measure (\<lambda>(h, n, pos, buf, modified). n - pos)") (auto simp: align8_def)

declare cmsg_walk.simps [simp del]

definition handle_sendmsg_enter_end :: "host_ids \<Rightarrow> sysnum \<Rightarrow> fake \<Rightarrow> int \<times> fake" where
  "handle_sendmsg_enter_end h s f =
     (let (t, m, c) = f; socketcall = (s = ''socketcall'');
          args = (if socketcall then read_data m (cur SYSARG_2 t) 24 else Inr []);
          hdr = (case args of Inl e \<Rightarrow> Inl e
                 | Inr l \<Rightarrow> read_data m (if socketcall then of_nat (field 8 8 l) else cur SYSARG_2 t) 56)
      in if socketcall \<and> cur SYSARG_1 t \<noteq> 16 then (0, f)
         else (case hdr of Inl e \<Rightarrow> (- errno_num e, f)
           | Inr msg \<Rightarrow>
              (let control = of_nat (field 8 32 msg) :: word_t; n = field 8 40 msg in
               if control = 0 \<or> n = 0 \<or> n > MAX_CONTROLLEN then (0, f)
               else (case read_data m control n of Inl e \<Rightarrow> (- errno_num e, f)
                 | Inr cmsg \<Rightarrow>
                    (case cmsg_walk h n 0 cmsg False of (cmsg, modified) \<Rightarrow>
                       if \<not> modified then (0, f)
                       else
                         let (p, t) = alloc_mem n t in
                         if p = 0 then (- errno_num ENOMEM, t, m, c)
                         else (case write_data m p cmsg of (Some _, m) \<Rightarrow> (- errno_num ENOMEM, t, m, c)
                           | (None, m) \<Rightarrow>
                              (let (q, t) = alloc_mem 56 t in
                               if q = 0 then (- errno_num ENOMEM, t, m, c)
                               else (case write_data m q (overwrite 32 (le_bytes 8 (unat p)) msg) of
                                   (Some _, m) \<Rightarrow> (- errno_num ENOMEM, t, m, c)
                                 | (None, m) \<Rightarrow>
                                    (if \<not> socketcall then (0, poke_reg SYSARG_2 q t, m, c)
                                     else (case set_sysarg_data (overwrite 8 (le_bytes 8 (unat q)) (projr args)) SYSARG_2 (t, m) of
                                         (Some e, t, m) \<Rightarrow> (- errno_num e, t, m, c)
                                       | (None, t, m) \<Rightarrow> (0, t, m, c)))))))))))"

text \<open>The calls that set ids are not made at all; those on groups are left to the kernel.\<close>

definition set_id_sysnums :: "sysnum list" where
  "set_id_sysnums =
     [''setuid'', ''setuid32'', ''setgid'', ''setgid32'', ''setreuid'', ''setreuid32'', ''setregid'', ''setregid32'',
      ''setresuid'', ''setresuid32'', ''setresgid'', ''setresgid32'', ''setfsuid'', ''setfsuid32'', ''setfsgid'', ''setfsgid32'']"

definition chown_sysnums :: "sysnum list" where
  "chown_sysnums = [''chown'', ''chown32'', ''lchown'', ''lchown32'', ''fchown'', ''fchown32'']"

definition handle_sysenter_end :: "host_ids \<Rightarrow> fake \<Rightarrow> int \<times> fake" where
  "handle_sysenter_end h f =
     (let (t, m, c) = f; s = get_sysnum ORIGINAL t in
      if s = ''sendmsg'' \<or> s = ''socketcall'' then handle_sendmsg_enter_end h s f
      else if s \<in> set set_id_sysnums then (0, set_sysnum PR_void t, m, c)
      else if s = ''fchownat'' then handle_chown_enter_end h SYSARG_3 SYSARG_4 f
      else if s \<in> set chown_sysnums then handle_chown_enter_end h SYSARG_2 SYSARG_3 f
      else (0, f))"

section \<open>The exit of a call\<close>

text \<open>What the handlers ask of others: the emulation of \<open>chroot\<close>, which reads the identity and changes the
  bindings of the tracee, is told whether it serves a trapped call.\<close>

record fake_env =
  own_ids :: host_ids
  stat_junk :: u32
  chroot_call :: "bool \<Rightarrow> creds \<Rightarrow> thread \<times> memory \<Rightarrow> int \<times> thread \<times> memory"
  config_of_pid :: "int \<Rightarrow> creds option"

definition call_chroot :: "fake_env \<Rightarrow> bool \<Rightarrow> fake \<Rightarrow> int \<times> fake" where
  "call_chroot E from_sigsys f =
     (let (t, m, c) = f; (st, t, m) = chroot_call E from_sigsys c (t, m) in (st, t, m, c))"

definition perm_sysnums :: "sysnum list" where
  "perm_sysnums =
     [''setdomainname'', ''sethostname'', ''setgroups'', ''setgroups32'', ''mknod'', ''mknodat'', ''capset'', ''chmod'', ''chown'',
      ''fchmod'', ''fchown'', ''lchown'', ''chown32'', ''fchown32'', ''lchown32'', ''fchmodat'', ''fchownat'']"

definition stat_sysnums :: "sysnum list" where
  "stat_sysnums = [''stat64'', ''lstat64'', ''fstat64'', ''stat'', ''lstat'', ''fstat'']"

definition other_exit_end :: "fake_env \<Rightarrow> sysnum \<Rightarrow> fake \<Rightarrow> int \<times> fake" where
  "other_exit_end E s f =
     (let (t, m, c) = f in
      if s = ''getresuid'' \<or> s = ''getresuid32'' then handle_getresid_exit_end (uids c) f
      else if s = ''getresgid'' \<or> s = ''getresgid32'' then handle_getresid_exit_end (gids c) f
      else if s \<in> set perm_sysnums then handle_perm_err_exit_end False f
      else if s = ''setxattr'' \<or> s = ''lsetxattr'' \<or> s = ''fsetxattr'' then handle_perm_err_exit_end True f
      else if s = ''socket'' then handle_socket_exit_end f
      else if s = ''fstatat64'' \<or> s = ''newfstatat'' then handle_stat_exit_end (own_ids E) (stat_junk E) SYSARG_3 f
      else if s \<in> set stat_sysnums then handle_stat_exit_end (own_ids E) (stat_junk E) SYSARG_2 f
      else if s = ''chroot'' then call_chroot E False f
      else if s = ''getsockopt'' then handle_getsockopt_exit_end (config_of_pid E) f
      else (0, f))"

definition handle_sysexit_end :: "fake_env \<Rightarrow> fake \<Rightarrow> int \<times> fake" where
  "handle_sysexit_end E f =
     (let s = get_sysnum ORIGINAL (fst f) in
      case set_ids_call (own_ids E) ORIGINAL s f of Some r \<Rightarrow> r
      | None \<Rightarrow> (case set_fsids_call s f of Some r \<Rightarrow> r
        | None \<Rightarrow> (case get_ids_call s f of Some r \<Rightarrow> r
          | None \<Rightarrow> other_exit_end E s f)))"

section \<open>Trapped calls\<close>

text \<open>The event \<open>SIGSYS_OCC\<close>: 0 for a call of others, 1 or -1.\<close>

definition handle_sigsys :: "fake_env \<Rightarrow> fake \<Rightarrow> int \<times> fake" where
  "handle_sigsys E f =
     (let s = get_sysnum CURRENT (fst f);
          r = (case set_ids_call (own_ids E) CURRENT s f of Some r \<Rightarrow> Some r
               | None \<Rightarrow> (if s = ''chroot'' then Some (call_chroot E True f) else None))
      in case r of None \<Rightarrow> (0, f) | Some (st, f) \<Rightarrow> (if st < 0 then -1 else 1, f))"

section \<open>Programs and files\<close>

text \<open>The auxiliary vector of a new program.\<close>

definition adjust_elf_auxv :: "creds \<Rightarrow> (word_t \<times> word_t) list \<Rightarrow> (word_t \<times> word_t) list" where
  "adjust_elf_auxv c =
     map (\<lambda>(ty, v). (ty, if ty = 11 then ucast (real_id (uids c)) else if ty = 12 then ucast (eff_id (uids c))
            else if ty = 13 then ucast (real_id (gids c)) else if ty = 14 then ucast (eff_id (gids c)) else v))"

definition S_ISUID :: u32 where "S_ISUID = 0x800"
definition S_ISGID :: u32 where "S_ISGID = 0x400"

text \<open>\<open>mode\<close> is that of the executable, if it can be read; \<open>nosuid\<close> whether its binding is mounted so.\<close>

definition exec_ids :: "bool \<Rightarrow> u32 option \<Rightarrow> creds \<Rightarrow> creds" where
  "exec_ids nosuid mode c =
     (if nosuid then c
      else case mode of None \<Rightarrow> c
      | Some w \<Rightarrow>
         (let c = (if w AND S_ISUID \<noteq> 0 then c\<lparr>uids := (uids c)\<lparr>eff_id := 0, saved_id := 0\<rparr>\<rparr> else c)
          in if w AND S_ISGID \<noteq> 0 then c\<lparr>gids := (gids c)\<lparr>eff_id := 0, saved_id := 0\<rparr>\<rparr> else c))"

text \<open>Whether \<open>handle_sysexit_start\<close> has anything to do.\<close>

definition exec_done :: "thread \<Rightarrow> bool" where
  "exec_done t \<longleftrightarrow> \<not> (result_int t < 0 \<or> status t < 0 \<or> get_sysnum ORIGINAL t \<noteq> ''execve'')"

definition handle_sysexit_start :: "bool \<Rightarrow> u32 option \<Rightarrow> fake \<Rightarrow> fake" where
  "handle_sysexit_start nosuid mode f =
     (let (t, m, c) = f in if exec_done t then (t, m, exec_ids nosuid mode c) else f)"

text \<open>\<open>override_permissions\<close>: an emulated superuser may read and write what belongs to the tracer. The result is
  the mode that is set, and the mode that is set again when the call is over. A file is left alone when
  nothing is missing, or when its status is asked for.\<close>

definition final_stat_sysnums :: "sysnum list" where
  "final_stat_sysnums =
     [''fstatat64'', ''lstat'', ''lstat64'', ''newfstatat'', ''oldlstat'', ''oldstat'', ''stat'', ''stat64'', ''statfs'', ''statfs64'']"

definition override_permissions :: "thread \<Rightarrow> bool \<Rightarrow> bool \<Rightarrow> u32 \<Rightarrow> (u32 \<times> u32) option" where
  "override_permissions t is_final is_dir mode =
     (let perms = mode AND 0x1FF; new_mode = perms OR 0x180; new_mode = (if is_dir then new_mode OR 0x40 else new_mode);
          s = get_sysnum ORIGINAL t in
      if new_mode = perms then None
      else if \<not> is_final then Some (new_mode, mode)
      else if s = ''chmod'' then Some (new_mode, arg_id ORIGINAL SYSARG_2 t)
      else if s = ''fchmodat'' then Some (new_mode, arg_id ORIGINAL SYSARG_3 t)
      else if s \<in> set final_stat_sysnums then None
      else Some (new_mode, mode))"

text \<open>\<open>INITIALIZATION\<close> takes \<open>uid:gid\<close>, either of which may be missing or out of range.\<close>

definition parse_ids :: "host_ids \<Rightarrow> string option \<Rightarrow> u32 \<times> u32" where
  "parse_ids h arg =
     (case arg of None \<Rightarrow> (own_uid h, own_gid h)
      | Some s \<Rightarrow>
         (let (u, _, over) = strtol10 s; rest = dropWhile (\<lambda>c. c \<noteq> CHR '':'') s;
              (g, _, gover) = strtol10 (tl rest)
          in (if over then own_uid h else word_of_int u,
              if rest = [] \<or> gover then own_gid h else word_of_int g)))"

definition initial_creds :: "host_ids \<Rightarrow> string option \<Rightarrow> creds" where
  "initial_creds h arg =
     (let (u, g) = parse_ids h arg; all = (\<lambda>v. \<lparr>real_id = v, eff_id = v, saved_id = v, fs_id = v\<rparr>)
      in \<lparr>uids = all u, gids = all g, cfg_umask = 0x12\<rparr>)"

text \<open>\<open>statx\<close>: the ids are replaced when they were asked for.\<close>

definition fake_id0_handle_statx_syscall :: "host_ids \<Rightarrow> creds \<Rightarrow> bool \<Rightarrow> bool \<Rightarrow> u32 \<times> u32 \<Rightarrow> (u32 \<times> u32) \<times> bool" where
  "fake_id0_handle_statx_syscall h c has_uid has_gid st =
     (let (u, g) = st; du = (has_uid \<and> u = own_uid h); dg = (has_gid \<and> g = own_gid h)
      in ((if du then saved_id (uids c) else u, if dg then saved_id (gids c) else g), du \<or> dg))"

end
