(* ===== verification/Creds_Spec.thy ===== *)
theory Creds_Spec
  imports Creds Stage_Spec
begin

text \<open>
  The emulated identity against the rules of the kernel, and what no sequence of calls can do: give a tracee
  that is not the emulated superuser the id 0.
\<close>

section \<open>The rules of the kernel\<close>

text \<open>\<open>setuid\<close>, \<open>setreuid\<close>, \<open>setresuid\<close> and \<open>setfsuid\<close> as \<^verbatim>\<open>kernel/sys.c\<close> has them; \<open>cap\<close> is the capability.\<close>

definition kernel_setid :: "bool \<Rightarrow> u32 \<Rightarrow> ids \<Rightarrow> ids res" where
  "kernel_setid cap v i =
     (if v = -1 then Inl EINVAL
      else if cap then Inr \<lparr>real_id = v, eff_id = v, saved_id = v, fs_id = v\<rparr>
      else if v = real_id i \<or> v = saved_id i then Inr (i\<lparr>eff_id := v, fs_id := v\<rparr>)
      else Inl EPERM)"

definition kernel_setreid :: "bool \<Rightarrow> u32 \<Rightarrow> u32 \<Rightarrow> ids \<Rightarrow> ids res" where
  "kernel_setreid cap r e i =
     (if (r \<noteq> -1 \<and> r \<noteq> real_id i \<and> r \<noteq> eff_id i \<and> \<not> cap) \<or>
         (e \<noteq> -1 \<and> e \<noteq> real_id i \<and> e \<noteq> eff_id i \<and> e \<noteq> saved_id i \<and> \<not> cap) then Inl EPERM
      else
        let e' = (if e = -1 then eff_id i else e)
        in Inr \<lparr>real_id = (if r = -1 then real_id i else r), eff_id = e',
                saved_id = (if r \<noteq> -1 \<or> (e \<noteq> -1 \<and> e \<noteq> real_id i) then e' else saved_id i), fs_id = e'\<rparr>)"

definition kernel_setresid :: "bool \<Rightarrow> u32 \<Rightarrow> u32 \<Rightarrow> u32 \<Rightarrow> ids \<Rightarrow> ids res" where
  "kernel_setresid cap r e s i =
     (let known = (\<lambda>v. v = -1 \<or> v = real_id i \<or> v = eff_id i \<or> v = saved_id i);
          e' = (if e = -1 then eff_id i else e) in
      if \<not> cap \<and> \<not> (known r \<and> known e \<and> known s) then Inl EPERM
      else Inr \<lparr>real_id = (if r = -1 then real_id i else r), eff_id = e',
                saved_id = (if s = -1 then saved_id i else s), fs_id = e'\<rparr>)"

text \<open>The old id is the result, whether it was changed or not.\<close>

definition kernel_setfsid :: "bool \<Rightarrow> u32 \<Rightarrow> ids \<Rightarrow> u32 \<times> ids" where
  "kernel_setfsid cap v i =
     (fs_id i, if v \<noteq> -1 \<and> (v = real_id i \<or> v = eff_id i \<or> v = saved_id i \<or> v = fs_id i \<or> cap) then i\<lparr>fs_id := v\<rparr> else i)"

lemmas id_defs = SETXID_def SETREXID_def SETRESXID_def SETFSXID_def kernel_setid_def kernel_setreid_def
  kernel_setresid_def unset_id_def unchanged_id_def equals_any_id_def Let_def

lemma ids_eqI:
  "real_id (i :: ids) = real_id j \<Longrightarrow> eff_id i = eff_id j \<Longrightarrow> saved_id i = saved_id j \<Longrightarrow> fs_id i = fs_id j \<Longrightarrow> i = j"
  by (rule ids.equality) simp_all

lemma setreid_allowed:
  assumes "\<not> (r = eff_id i \<and> e = saved_id i)"
  shows "(let same_e = unchanged_id e (eff_id i); same_r = unchanged_id r (real_id i) in
       (same_e \<and> same_r) \<or> (r = eff_id i \<and> (e = real_id i \<or> same_e)) \<or>
       (e = real_id i \<and> (r = eff_id i \<or> same_r)) \<or> (e = saved_id i \<and> same_r)) \<longleftrightarrow>
     (r = -1 \<or> r = real_id i \<or> r = eff_id i) \<and> (e = -1 \<or> e = real_id i \<or> e = eff_id i \<or> e = saved_id i)"
  using assms unfolding Let_def unchanged_id_def unset_id_def by blast

text \<open>\<open>setreuid\<close> when it is accepted: the kernel accepts it as well, and only the saved id may be another one.\<close>

lemma setreid_shape:
  assumes "fs_id i = eff_id i"
  shows "SETREXID root r e i = Inl EPERM \<or>
    (\<exists>j. kernel_setreid root r e i = Inr j \<and>
       SETREXID root r e i = Inr (if r \<noteq> -1 \<and> e = -1 then j\<lparr>saved_id := saved_id i\<rparr> else j))"
proof (cases "SETREXID root r e i = Inl EPERM")
  case False
  let ?e = "if e = -1 then eff_id i else e"
  let ?k = "\<lparr>real_id = (if r = -1 then real_id i else r), eff_id = ?e,
      saved_id = (if r \<noteq> -1 \<or> (e \<noteq> -1 \<and> e \<noteq> real_id i) then ?e else saved_id i), fs_id = ?e\<rparr> :: ids"
  let ?i = "if unset_id e then i else (if e \<noteq> real_id i then i\<lparr>saved_id := e\<rparr> else i)\<lparr>eff_id := e, fs_id := e\<rparr>"
  let ?j = "if unset_id r then ?i else (if unset_id e then ?i else ?i\<lparr>saved_id := e\<rparr>)\<lparr>real_id := r\<rparr>"
  have j: "SETREXID root r e i = Inr ?j" using False unfolding SETREXID_def Let_def by (simp split: if_split_asm)
  have "?j = (if r \<noteq> -1 \<and> e = -1 then ?k\<lparr>saved_id := saved_id i\<rparr> else ?k)"
    using assms by (cases "r = -1"; cases "e = -1"; intro ids_eqI) (simp_all add: unset_id_def)
  moreover have "root \<or> (r = -1 \<or> r = real_id i \<or> r = eff_id i) \<and> (e = -1 \<or> e = real_id i \<or> e = eff_id i \<or> e = saved_id i)"
    using False unfolding SETREXID_def Let_def unchanged_id_def unset_id_def by (auto split: if_split_asm)
  then have "kernel_setreid root r e i = Inr ?k" unfolding kernel_setreid_def Let_def by (cases root) auto
  ultimately show ?thesis using j by simp
qed simp

lemma setreid_refused:
  assumes "SETREXID root r e i = Inl EPERM" "root \<or> \<not> (r = eff_id i \<and> e = saved_id i)"
  shows "kernel_setreid root r e i = Inl EPERM"
  using assms setreid_allowed [of r i e] unfolding SETREXID_def kernel_setreid_def Let_def
  by (cases root) (auto split: if_split_asm)

lemma setresid_follows:
  assumes "fs_id i = eff_id i"
  shows "SETRESXID root r e s i = kernel_setresid root r e s i"
proof -
  let ?i = "if unset_id r then i else i\<lparr>real_id := r\<rparr>"
  let ?j = "if unset_id e then ?i else ?i\<lparr>eff_id := e, fs_id := e\<rparr>"
  let ?k = "if unset_id s then ?j else ?j\<lparr>saved_id := s\<rparr>"
  let ?e = "if e = -1 then eff_id i else e"
  have "?k = \<lparr>real_id = (if r = -1 then real_id i else r), eff_id = ?e, saved_id = (if s = -1 then saved_id i else s), fs_id = ?e\<rparr>"
    using assms by (cases "r = -1"; cases "e = -1"; cases "s = -1"; intro ids_eqI) (simp_all add: unset_id_def)
  moreover have "(unset_id v \<or> equals_any_id v i) = (v = -1 \<or> v = real_id i \<or> v = eff_id i \<or> v = saved_id i)" for v
    by (simp add: unset_id_def equals_any_id_def)
  ultimately show ?thesis
    unfolding SETRESXID_def kernel_setresid_def Let_def by (simp only: de_Morgan_disj)
qed

text \<open>
  C22: the emulated calls follow the kernel. When the file system id is the effective one, each of the calls has the result
  of the kernel, the ids or the error, with exceptions that are all stated. For \<open>setuid\<close>: the id -1, which the kernel refuses
  as no id; and, without privilege, the effective id or the id of the tracer, which are accepted where the
  kernel answers \<open>EPERM\<close>. For \<open>setreuid\<close>: a new real id with the effective id left alone, where the saved id is kept while the
  kernel sets it to the effective one; and, without privilege, the effective id as the real one with the saved id as the effective
  one, which is refused. For \<open>setresuid\<close> none. For \<open>setfsuid\<close>, whatever the file system id was: the id -1.
\<close>

theorem set_ids_follow_kernel:
  assumes "fs_id i = eff_id i"
  shows "(SETXID root own eown v i = kernel_setid root v i \<or>
      v = -1 \<and> kernel_setid root v i = Inl EINVAL \<or>
      \<not> root \<and> (v = eff_id i \<or> v = own) \<and> SETXID root own eown v i = Inr (i\<lparr>eff_id := v, fs_id := v\<rparr>) \<and>
        kernel_setid root v i = Inl EPERM) \<and>
    (SETREXID root r e i = kernel_setreid root r e i \<or>
      r \<noteq> -1 \<and> e = -1 \<and>
        (\<exists>j. kernel_setreid root r e i = Inr j \<and> SETREXID root r e i = Inr (j\<lparr>saved_id := saved_id i\<rparr>)) \<or>
      \<not> root \<and> r = eff_id i \<and> e = saved_id i \<and> SETREXID root r e i = Inl EPERM) \<and>
    SETRESXID root r e s i = kernel_setresid root r e s i \<and>
    (SETFSXID root v i' = kernel_setfsid root v i' \<or> v = -1)"
proof (intro conjI)
  show "SETXID root own eown v i = kernel_setid root v i \<or>
      v = -1 \<and> kernel_setid root v i = Inl EINVAL \<or>
      \<not> root \<and> (v = eff_id i \<or> v = own) \<and> SETXID root own eown v i = Inr (i\<lparr>eff_id := v, fs_id := v\<rparr>) \<and>
        kernel_setid root v i = Inl EPERM"
    by (cases i; cases root) (auto simp: id_defs)
  show "SETREXID root r e i = kernel_setreid root r e i \<or>
      r \<noteq> -1 \<and> e = -1 \<and>
        (\<exists>j. kernel_setreid root r e i = Inr j \<and> SETREXID root r e i = Inr (j\<lparr>saved_id := saved_id i\<rparr>)) \<or>
      \<not> root \<and> r = eff_id i \<and> e = saved_id i \<and> SETREXID root r e i = Inl EPERM"
  proof (cases "SETREXID root r e i = Inl EPERM")
    case True
    with setreid_refused [OF True] show ?thesis by (cases "root \<or> \<not> (r = eff_id i \<and> e = saved_id i)") simp_all
  next
    case False
    with setreid_shape [OF assms, of root r e] show ?thesis by (cases "r \<noteq> -1 \<and> e = -1") auto
  qed
  show "SETRESXID root r e s i = kernel_setresid root r e s i" using assms by (rule setresid_follows)
  show "SETFSXID root v i' = kernel_setfsid root v i' \<or> v = -1"
    by (auto simp: SETFSXID_def kernel_setfsid_def equals_any_id_def)
qed

theorem set_ids_follow_kernel_witness:
  "SETRESXID False 5 (-1) 7 \<lparr>real_id = 7, eff_id = 5, saved_id = 6, fs_id = 5\<rparr> =
     Inr \<lparr>real_id = 5, eff_id = 5, saved_id = 7, fs_id = 5\<rparr>"
proof -
  let ?i = "\<lparr>real_id = 7, eff_id = 5, saved_id = 6, fs_id = 5\<rparr> :: ids"
  have "fs_id ?i = eff_id ?i" by simp
  from set_ids_follow_kernel [OF this] have "SETRESXID False 5 (-1) 7 ?i = kernel_setresid False 5 (-1) 7 ?i" by blast
  then show ?thesis by (simp add: kernel_setresid_def)
qed

section \<open>Privilege\<close>

definition id_set :: "ids \<Rightarrow> u32 set" where
  "id_set i = {real_id i, eff_id i, saved_id i, fs_id i}"

lemma SETXID_ids:
  "SETXID False own eown v i = Inr j \<Longrightarrow> id_set j \<subseteq> id_set i \<union> {own}"
  by (auto simp: SETXID_def id_set_def equals_any_id_def Let_def split: if_split_asm)

lemma SETREXID_ids:
  assumes "SETREXID False r e i = Inr j"
  shows "id_set j \<subseteq> id_set i"
proof -
  have ok: "(unset_id r \<or> r \<in> id_set i) \<and> (unset_id e \<or> e \<in> id_set i)"
    using assms by (auto simp: SETREXID_def unchanged_id_def id_set_def Let_def split: if_split_asm)
  have "id_set j \<subseteq> id_set i \<union> (if unset_id r then {} else {r}) \<union> (if unset_id e then {} else {e})"
    using assms by (auto simp: SETREXID_def id_set_def Let_def split: if_split_asm)
  with ok show ?thesis by (auto split: if_split_asm)
qed

lemma SETRESXID_ids:
  assumes "SETRESXID False r e s i = Inr j"
  shows "id_set j \<subseteq> id_set i"
proof -
  have ok: "(unset_id r \<or> r \<in> id_set i) \<and> (unset_id e \<or> e \<in> id_set i) \<and> (unset_id s \<or> s \<in> id_set i)"
    using assms by (auto simp: SETRESXID_def equals_any_id_def id_set_def Let_def split: if_split_asm)
  let ?i = "if unset_id r then i else i\<lparr>real_id := r\<rparr>"
  let ?j = "if unset_id e then ?i else ?i\<lparr>eff_id := e, fs_id := e\<rparr>"
  have "j = (if unset_id s then ?j else ?j\<lparr>saved_id := s\<rparr>)"
    using assms unfolding SETRESXID_def Let_def by (simp split: if_split_asm)
  moreover have "id_set (i\<lparr>real_id := r\<rparr>) \<subseteq> id_set i \<union> {r}" "id_set (k\<lparr>eff_id := e, fs_id := e\<rparr>) \<subseteq> id_set k \<union> {e}"
    "id_set (k\<lparr>saved_id := s\<rparr>) \<subseteq> id_set k \<union> {s}" for k by (auto simp: id_set_def)
  ultimately show ?thesis using ok by (simp split: if_split_asm) (blast+)?
qed

lemma SETFSXID_ids: "SETFSXID False v i = (old, j) \<Longrightarrow> id_set j \<subseteq> id_set i"
  by (auto simp: SETFSXID_def id_set_def equals_any_id_def split: if_split_asm)

text \<open>What the events may do to the identity: nothing a call of an unprivileged tracee can use.\<close>

definition ids_contained :: "host_ids \<Rightarrow> creds \<Rightarrow> creds \<Rightarrow> bool" where
  "ids_contained h c c' \<longleftrightarrow> (\<not> is_root c \<longrightarrow> id_set (uids c') \<subseteq> id_set (uids c) \<union> {own_uid h} \<and>
     id_set (gids c') \<subseteq> id_set (gids c) \<union> {own_gid h})"

lemma ids_contained_refl [simp]: "ids_contained h c c"
  by (auto simp: ids_contained_def)

lemma on_ids_contained:
  assumes "\<And>i j. f i = Inr j \<Longrightarrow> \<not> is_root c \<Longrightarrow> id_set j \<subseteq> id_set i \<union> X"
  shows "on_uids f c = Inr c' \<Longrightarrow> X \<subseteq> {own_uid h} \<Longrightarrow> ids_contained h c c'"
    "on_gids f c = Inr c' \<Longrightarrow> X \<subseteq> {own_gid h} \<Longrightarrow> ids_contained h c c'"
  using assms by (fastforce simp: on_uids_def on_gids_def ids_contained_def split: sum.split_asm)+

lemma set_ids_contained:
  assumes "set_ids h v s t c = Some (Inr c')"
  shows "ids_contained h c c'"
proof -
  note u = on_ids_contained(1) [where X = "{own_uid h}"] and g = on_ids_contained(2) [where X = "{own_gid h}"]
  have u0: "on_uids (SETXID (is_root c) (own_uid h) (own_euid h) a) c = Inr c' \<Longrightarrow> ids_contained h c c'" for a
    by (rule u) (use SETXID_ids in auto)
  have g0: "on_gids (SETXID (is_root c) (own_gid h) (own_egid h) a) c = Inr c' \<Longrightarrow> ids_contained h c c'" for a
    by (rule g) (use SETXID_ids in auto)
  have u1: "on_uids (SETREXID (is_root c) a b) c = Inr c' \<Longrightarrow> ids_contained h c c'" for a b
    by (rule u [where f = "SETREXID (is_root c) a b"]) (auto intro: SETREXID_ids [THEN subsetD])
  have g1: "on_gids (SETREXID (is_root c) a b) c = Inr c' \<Longrightarrow> ids_contained h c c'" for a b
    by (rule g [where f = "SETREXID (is_root c) a b"]) (auto intro: SETREXID_ids [THEN subsetD])
  have u2: "on_uids (SETRESXID (is_root c) a b d) c = Inr c' \<Longrightarrow> ids_contained h c c'" for a b d
    by (rule u [where f = "SETRESXID (is_root c) a b d"]) (auto intro: SETRESXID_ids [THEN subsetD])
  have g2: "on_gids (SETRESXID (is_root c) a b d) c = Inr c' \<Longrightarrow> ids_contained h c c'" for a b d
    by (rule g [where f = "SETRESXID (is_root c) a b d"]) (auto intro: SETRESXID_ids [THEN subsetD])
  show ?thesis
    using assms unfolding set_ids_def Let_def
    by (elim if_SomeE) (rule u0 g0 u1 g1 u2 g2, assumption | simp)+
qed

lemma sendmsg_creds: "handle_sendmsg_enter_end h s (t, m, c) = (st, t', m', c') \<Longrightarrow> c' = c"
  unfolding handle_sendmsg_enter_end_def Let_def prod.case
  by (simp only: split: if_split_asm sum.split_asm prod.split_asm option.split_asm) simp_all

lemma enter_creds: "handle_sysenter_end h (t, m, c) = (st, t', m', c') \<Longrightarrow> c' = c"
  unfolding handle_sysenter_end_def Let_def prod.case
  using sendmsg_creds by (simp only: handle_chown_enter_end_def Let_def prod.case split: if_split_asm) blast+

lemma set_ids_call_contained: "set_ids_call h v s (t, m, c) = Some (st, t', m', c') \<Longrightarrow> ids_contained h c c'"
  unfolding set_ids_call_def Let_def prod.case
  using set_ids_contained by (auto split: option.split_asm sum.split_asm)

lemma set_fsids_call_contained:
  assumes "set_fsids_call s (t, m, c) = Some (st, t', m', c')"
  shows "ids_contained h c c'"
proof -
  have "c' = c\<lparr>uids := snd (SETFSXID (is_root c) (arg_id ORIGINAL SYSARG_1 t) (uids c))\<rparr> \<or>
        c' = c\<lparr>gids := snd (SETFSXID (is_root c) (arg_id ORIGINAL SYSARG_1 t) (gids c))\<rparr>"
  proof -
    obtain ou iu og ig where u: "SETFSXID (is_root c) (arg_id ORIGINAL SYSARG_1 t) (uids c) = (ou, iu)"
      and g: "SETFSXID (is_root c) (arg_id ORIGINAL SYSARG_1 t) (gids c) = (og, ig)" by fastforce
    show ?thesis
      using assms unfolding set_fsids_call_def Let_def prod.case u g snd_conv
      by (elim if_SomeE) simp_all
  qed
  moreover have "x \<in> id_set (snd (SETFSXID False v i)) \<Longrightarrow> x \<in> id_set i" for x v i
    using SETFSXID_ids [THEN subsetD] by (metis prod.collapse)
  ultimately show ?thesis by (auto simp: ids_contained_def)
qed

lemma get_ids_call_creds: "get_ids_call s (t, m, c) = Some (st, t', m', c') \<Longrightarrow> c' = c"
  unfolding get_ids_call_def Let_def prod.case by (elim if_SomeE) simp_all

lemma other_exit_creds:
  assumes "other_exit_end E s (t, m, c) = (st, t', m', c')"
  shows "c' = c"
proof -
  have a: "handle_getresid_exit_end i (t, m, c) = (st, t', m', c') \<Longrightarrow> c' = c" for i
    by (auto simp: handle_getresid_exit_end_def Let_def split: prod.split_asm)
  have b: "handle_perm_err_exit_end x (t, m, c) = (st, t', m', c') \<Longrightarrow> c' = c" for x
    by (auto simp: handle_perm_err_exit_end_def Let_def split: if_split_asm)
  have d: "handle_socket_exit_end (t, m, c) = (st, t', m', c') \<Longrightarrow> c' = c"
    by (auto simp: handle_socket_exit_end_def Let_def split: if_split_asm)
  have e: "handle_stat_exit_end h k r (t, m, c) = (st, t', m', c') \<Longrightarrow> c' = c" for h k r
    by (auto simp: handle_stat_exit_end_def Let_def split: if_split_asm)
  have f: "call_chroot E x (t, m, c) = (st, t', m', c') \<Longrightarrow> c' = c" for x
    by (auto simp: call_chroot_def Let_def split: prod.split_asm)
  have g: "handle_getsockopt_exit_end q (t, m, c) = (st, t', m', c') \<Longrightarrow> c' = c" for q
    by (auto simp: handle_getsockopt_exit_end_def Let_def split: if_split_asm sum.split_asm option.split_asm)
  show ?thesis
    using assms a b d e f g unfolding other_exit_end_def Let_def prod.case
    by (simp only: split: if_split_asm) blast+
qed

lemma exit_contained:
  assumes "handle_sysexit_end E (t, m, c) = (st, t', m', c')"
  shows "ids_contained (own_ids E) c c'"
proof -
  let ?s = "get_sysnum ORIGINAL t"
  consider "set_ids_call (own_ids E) ORIGINAL ?s (t, m, c) = Some (st, t', m', c')"
    | "set_fsids_call ?s (t, m, c) = Some (st, t', m', c')" | "get_ids_call ?s (t, m, c) = Some (st, t', m', c')"
    | "other_exit_end E ?s (t, m, c) = (st, t', m', c')"
    using assms unfolding handle_sysexit_end_def Let_def fst_conv by (auto split: option.split_asm)
  then show ?thesis
  proof cases
    case 1
    then show ?thesis by (rule set_ids_call_contained)
  next
    case 2
    then show ?thesis by (rule set_fsids_call_contained)
  next
    case 3
    from get_ids_call_creds [OF 3] show ?thesis by simp
  next
    case 4
    from other_exit_creds [OF 4] show ?thesis by simp
  qed
qed

lemma trapped_contained:
  assumes "handle_sigsys E (t, m, c) = (st, t', m', c')"
  shows "ids_contained (own_ids E) c c'"
proof -
  let ?s = "get_sysnum CURRENT t"
  consider "c' = c" | r where "set_ids_call (own_ids E) CURRENT ?s (t, m, c) = Some (r, t', m', c')"
    | r where "call_chroot E True (t, m, c) = (r, t', m', c')"
    using assms unfolding handle_sigsys_def Let_def fst_conv
    by (cases "set_ids_call (own_ids E) CURRENT ?s (t, m, c)") (auto split: if_split_asm prod.split_asm)
  then show ?thesis
  proof cases
    case 3
    then have "c' = c" by (auto simp: call_chroot_def Let_def split: prod.split_asm)
    then show ?thesis by simp
  next
    case 2
    then show ?thesis by (rule set_ids_call_contained)
  qed simp
qed

text \<open>What one tracee may do to its identity by calls that are made or trapped, with any registers and memory.\<close>

inductive creds_step :: "fake_env \<Rightarrow> creds \<Rightarrow> creds \<Rightarrow> bool" for E where
  enter: "handle_sysenter_end (own_ids E) (t, m, c) = (st, t', m', c') \<Longrightarrow> creds_step E c c'"
| exit: "handle_sysexit_end E (t, m, c) = (st, t', m', c') \<Longrightarrow> creds_step E c c'"
| trapped: "handle_sigsys E (t, m, c) = (st, t', m', c') \<Longrightarrow> creds_step E c c'"

inductive creds_steps :: "fake_env \<Rightarrow> creds \<Rightarrow> creds \<Rightarrow> bool" for E where
  none: "creds_steps E c c"
| step: "creds_steps E c c' \<Longrightarrow> creds_step E c' c'' \<Longrightarrow> creds_steps E c c''"

lemma creds_step_contained: "creds_step E c c' \<Longrightarrow> ids_contained (own_ids E) c c'"
proof (induction rule: creds_step.induct)
  case (enter t m c st t' m' c')
  from enter_creds [OF enter] show ?case by simp
next
  case (exit t m c st t' m' c')
  from exit_contained [OF exit] show ?case .
next
  case (trapped t m c st t' m' c')
  from trapped_contained [OF trapped] show ?case .
qed

text \<open>
  C23: who is not the superuser does not become one. A tracee none of whose user ids is 0, under a tracer whose own user id is
  not 0, is not the emulated superuser after any sequence of calls, entered, left or trapped, with any registers and memory; its
  user ids stay among those it had and the one of the tracer, its group ids likewise. This is not about tracees that start as the
  emulated superuser, which is what the extension does by default, nor about running a set-uid program.
\<close>

theorem no_privilege_gain:
  assumes "creds_steps E c c'" "0 \<notin> id_set (uids c)" "own_uid (own_ids E) \<noteq> 0"
  shows "\<not> is_root c' \<and> id_set (uids c') \<subseteq> id_set (uids c) \<union> {own_uid (own_ids E)} \<and>
    id_set (gids c') \<subseteq> id_set (gids c) \<union> {own_gid (own_ids E)}"
  using assms
proof (induction rule: creds_steps.induct)
  case (none c)
  then show ?case by (auto simp: is_root_def id_set_def)
next
  case (step c c' c'')
  then have *: "\<not> is_root c'" "id_set (uids c') \<subseteq> id_set (uids c) \<union> {own_uid (own_ids E)}"
    "id_set (gids c') \<subseteq> id_set (gids c) \<union> {own_gid (own_ids E)}" by blast+
  with creds_step_contained [OF step.hyps(2)] have
    "id_set (uids c'') \<subseteq> id_set (uids c) \<union> {own_uid (own_ids E)}" "id_set (gids c'') \<subseteq> id_set (gids c) \<union> {own_gid (own_ids E)}"
    by (auto simp: ids_contained_def)
  moreover from this(1) step.prems have "\<not> is_root c''" by (auto simp: is_root_def id_set_def)
  ultimately show ?case by blast
qed

definition user_ids :: "u32 \<Rightarrow> ids" where
  "user_ids v = \<lparr>real_id = v, eff_id = v, saved_id = v, fs_id = v\<rparr>"

definition demo_fake_env :: fake_env where
  "demo_fake_env = \<lparr>own_ids = \<lparr>own_uid = 10123, own_euid = 10123, own_gid = 10123, own_egid = 10123\<rparr>, stat_junk = 0,
     chroot_call = (\<lambda>_ _ tm. (0, tm)), config_of_pid = (\<lambda>_. None)\<rparr>"

lemma sysnum_setuid: "translate_sysnum 146 = ''setuid''"
proof -
  have "map_of sysnum_entries 146 = Some ''setuid''" unfolding sysnum_entries_def map_of_Cons_code by simp
  from sysnum_of_table [OF this] show ?thesis by (simp add: sysnums_length_def)
qed

text \<open>A user whose call \<open>setuid(0)\<close> was refused is the same user, and not the superuser.\<close>

theorem no_privilege_gain_witness:
  "\<exists>c'. creds_steps demo_fake_env \<lparr>uids = user_ids 1000, gids = user_ids 1000, cfg_umask = 0x12\<rparr> c' \<and> \<not> is_root c'"
proof -
  let ?c = "\<lparr>uids = user_ids 1000, gids = user_ids 1000, cfg_umask = 0x12\<rparr>"
  let ?t = "demo_thread [(8, 146), (0, 0)]"
  have "get_sysnum CURRENT ?t = ''setuid''"
    using sysnum_setuid by (simp add: get_sysnum_def peek_reg_def demo_thread_def)
  then have "handle_sigsys demo_fake_env (?t, (\<lambda>_. None), ?c) = (-1, ?t, (\<lambda>_. None), ?c)"
    by (simp add: handle_sigsys_def set_ids_call_def set_ids_def on_uids_def SETXID_def is_root_def equals_any_id_def user_ids_def
        demo_fake_env_def arg_id_def peek_reg_def demo_thread_def Let_def)
  then have "creds_step demo_fake_env ?c ?c" by (rule creds_step.trapped)
  with creds_steps.none have steps: "creds_steps demo_fake_env ?c ?c" by (rule creds_steps.step)
  have "0 \<notin> id_set (uids ?c)" "own_uid (own_ids demo_fake_env) \<noteq> 0" by (simp_all add: id_set_def user_ids_def demo_fake_env_def)
  from no_privilege_gain [OF steps this] steps show ?thesis by blast
qed

section \<open>Credentials that are passed\<close>

lemma overwrite_length [simp]: "i + length new \<le> length bs \<Longrightarrow> length (overwrite i new bs) = length bs"
  by (simp add: overwrite_def)

lemma overwrite_outside: "i + length new \<le> length bs \<Longrightarrow> k < i \<or> i + length new \<le> k \<Longrightarrow> k < length bs \<Longrightarrow> overwrite i new bs ! k = bs ! k"
  by (auto simp: overwrite_def nth_append)

text \<open>Where a message of the control data starts, when the walk begins at \<open>pos\<close>.\<close>

definition credentials_at :: "nat \<Rightarrow> nat \<Rightarrow> byte list \<Rightarrow> nat \<Rightarrow> bool" where
  "credentials_at n pos buf p \<longleftrightarrow> pos \<le> p \<and> p + 28 \<le> n \<and> field 8 p buf = 28 \<and> field 4 (p + 8) buf = 1 \<and> field 4 (p + 12) buf = 2"

lemma field_same: "(\<And>k. i \<le> k \<Longrightarrow> k < i + n \<Longrightarrow> bs ! k = cs ! k) \<Longrightarrow> length bs = length cs \<Longrightarrow> field n i bs = field n i cs"
  unfolding field_def by (rule arg_cong [where f = le_value]) (auto simp: list_eq_iff_nth_eq)

lemma sendmsg_walk_bounds_fact:
  assumes "cmsg_walk h (length buf) pos buf modified = (buf', modified')"
  shows "length buf' = length buf \<and>
    (\<forall>k < length buf. buf' ! k \<noteq> buf ! k \<longrightarrow> (\<exists>p. credentials_at (length buf) pos buf p \<and> p + 20 \<le> k \<and> k < p + 28))"
proof -
  have "length buf = n \<Longrightarrow> cmsg_walk h n pos buf modified = (buf', modified') \<Longrightarrow> length buf' = n \<and>
    (\<forall>k < n. buf' ! k \<noteq> buf ! k \<longrightarrow> (\<exists>p. credentials_at n pos buf p \<and> p + 20 \<le> k \<and> k < p + 28))" for n
  proof (induction h n pos buf modified rule: cmsg_walk.induct)
    case (1 h n pos buf modified)
    let ?len = "field 8 pos buf"
    let ?cred = "field 4 (pos + 8) buf = 1 \<and> field 4 (pos + 12) buf = 2 \<and> ?len = 28"
    let ?ids = "le_bytes 4 (unat (own_uid h)) @ le_bytes 4 (unat (own_gid h))"
    let ?buf = "if ?cred then overwrite (pos + 20) ?ids buf else buf"
    show ?case
    proof (cases "pos + 16 > n \<or> ?len < 16 \<or> ?len > n - pos")
      case True
      then have "cmsg_walk h n pos buf modified = (buf, modified)"
        unfolding cmsg_walk.simps [of h n pos buf modified] Let_def by (simp only: if_True if_False split: if_split) blast
      with "1.prems"(2) have "buf' = buf" by simp
      with "1.prems"(1) show ?thesis by simp
    next
      case False
      then have n: "(pos + 16 > n) = False" "(?len < 16 \<or> ?len > n - pos) = False" by blast+
      have go: "cmsg_walk h n (align8 (pos + ?len)) ?buf (modified \<or> ?cred) = (buf', modified')"
        using "1.prems"(2) unfolding cmsg_walk.simps [of h n pos buf modified] Let_def n if_False .
      have fit: "?cred \<longrightarrow> pos + 28 \<le> n" using False by auto
      have ids: "length ?ids = 8" by (simp add: le_bytes_def)
      have len: "length ?buf = n" using "1.prems"(1) fit ids by (auto simp: overwrite_def)
      have same: "k < n \<Longrightarrow> k < pos + 20 \<or> pos + 28 \<le> k \<or> \<not> ?cred \<Longrightarrow> ?buf ! k = buf ! k" for k
        using "1.prems"(1) fit ids overwrite_outside [of "pos + 20" ?ids buf k] by auto
      have next_pos: "pos + ?len \<le> align8 (pos + ?len)" by (simp add: align8_def)
      have IH: "length buf' = n \<and> (\<forall>k < n. buf' ! k \<noteq> ?buf ! k \<longrightarrow>
          (\<exists>p. credentials_at n (align8 (pos + ?len)) ?buf p \<and> p + 20 \<le> k \<and> k < p + 28))"
        by (rule "1.IH" [OF _ refl _ refl refl len go]) (use n in blast)+
      have earlier: "credentials_at n pos buf p" if "credentials_at n (align8 (pos + ?len)) ?buf p" for p
      proof -
        from that False next_pos have p: "pos + ?len \<le> p" "p + 28 \<le> n" "pos \<le> p" by (auto simp: credentials_at_def)
        have eq: "field m (p + j) ?buf = field m (p + j) buf" if "j + m \<le> 28" for m j
        proof (rule field_same)
          fix k assume "p + j \<le> k" "k < p + j + m"
          with p that have "k < n" "?cred \<longrightarrow> pos + 28 \<le> k" by auto
          with same show "?buf ! k = buf ! k" by blast
        qed (use len "1.prems"(1) in simp)
        from eq [of 0 8] eq [of 8 4] eq [of 12 4] that p show ?thesis unfolding credentials_at_def by simp
      qed
      have here: "credentials_at n pos buf pos" if ?cred
        using that fit by (auto simp: credentials_at_def)
      show ?thesis
      proof (intro conjI allI impI)
        show "length buf' = n" using IH by blast
        fix k assume k: "k < n" "buf' ! k \<noteq> buf ! k"
        show "\<exists>p. credentials_at n pos buf p \<and> p + 20 \<le> k \<and> k < p + 28"
        proof (cases "buf' ! k = ?buf ! k")
          case True
          with k same have "?cred \<and> pos + 20 \<le> k \<and> k < pos + 28" by (metis not_less)
          with here show ?thesis by blast
        next
          case False
          with IH k(1) earlier show ?thesis by blast
        qed
      qed
    qed
  qed
  with assms show ?thesis by blast
qed

text \<open>
  the walk over the control data of \<open>sendmsg\<close> ends, stays inside the buffer whatever the lengths in it
  are, and changes nothing but the ids of credentials that are really there.
\<close>

theorem sendmsg_walk_bounds:
  assumes "cmsg_walk h (length buf) pos buf modified = (buf', modified')"
  shows "length buf' = length buf \<and>
    (\<forall>k < length buf. buf' ! k \<noteq> buf ! k \<longrightarrow> (\<exists>p. credentials_at (length buf) pos buf p \<and> p + 20 \<le> k \<and> k < p + 28))"
  using sendmsg_walk_bounds_fact [OF assms] .

definition demo_cmsg :: "byte list" where
  "demo_cmsg = [28, 0, 0, 0, 0, 0, 0, 0, 1, 0, 0, 0, 2, 0, 0, 0, 9, 0, 0, 0, 7, 0, 0, 0, 7, 0, 0, 0]"

theorem sendmsg_walk_bounds_witness:
  "\<exists>buf. cmsg_walk (own_ids demo_fake_env) 28 0 demo_cmsg False = (buf, True) \<and> length buf = 28 \<and> take 20 buf = take 20 demo_cmsg"
proof -
  let ?h = "own_ids demo_fake_env"
  obtain buf where w: "cmsg_walk ?h (length demo_cmsg) 0 demo_cmsg False = (buf, True)"
    by (simp add: demo_cmsg_def cmsg_walk.simps field_def align8_def Let_def)
  from sendmsg_walk_bounds [OF w] have len: "length buf = 28" and
    ch: "\<And>k. k < 28 \<Longrightarrow> buf ! k \<noteq> demo_cmsg ! k \<Longrightarrow> 20 \<le> k" by (auto simp: demo_cmsg_def credentials_at_def)
  have "take 20 buf = take 20 demo_cmsg"
  proof (rule nth_equalityI)
    show "length (take 20 buf) = length (take 20 demo_cmsg)" using len by (simp add: demo_cmsg_def)
    fix i assume "i < length (take 20 buf)"
    then have "i < 20" by simp
    with ch [of i] have "buf ! i = demo_cmsg ! i" by linarith
    with \<open>i < 20\<close> show "take 20 buf ! i = take 20 demo_cmsg ! i" by simp
  qed
  moreover have "length demo_cmsg = 28" by (simp add: demo_cmsg_def)
  ultimately show ?thesis using w len by metis
qed

end
