(* ===== verification/Neon.thy ===== *)
theory Neon
  imports Memory
begin

text \<open>
  The vector routines of the memory component (\<^verbatim>\<open>src/tracee/mem.cpp\<close>): the search for the end of a string and the
  copy, which work on sixteen bytes at a time from the first aligned address on. They are shown to do what their
  names say, so that the other theories use lists of bytes.
\<close>

definition NEON_VEC_BYTES :: nat where "NEON_VEC_BYTES = 16"

definition neon_align :: "nat \<Rightarrow> nat \<Rightarrow> nat" where
  "neon_align p n = min n ((NEON_VEC_BYTES - p mod NEON_VEC_BYTES) mod NEON_VEC_BYTES)"

fun first_zero :: "byte list \<Rightarrow> nat \<Rightarrow> nat option" where
  "first_zero [] i = None"
| "first_zero (b # bs) i = (if b = 0 then Some i else first_zero bs (i + 1))"

function neon_vectors :: "byte list \<Rightarrow> nat \<Rightarrow> nat" where
  "neon_vectors bs i =
     (if length bs < NEON_VEC_BYTES then (case first_zero bs i of Some j \<Rightarrow> j | None \<Rightarrow> i + length bs)
      else (case (if 0 \<in> set (take NEON_VEC_BYTES bs) then first_zero (take NEON_VEC_BYTES bs) i else None) of
          Some j \<Rightarrow> j
        | None \<Rightarrow> neon_vectors (drop NEON_VEC_BYTES bs) (i + NEON_VEC_BYTES)))"
  by pat_completeness auto
termination by (relation "measure (\<lambda>(bs, i). length bs)") (auto simp: NEON_VEC_BYTES_def)

declare neon_vectors.simps [simp del]

definition neon_find_zero_fast :: "nat \<Rightarrow> byte list \<Rightarrow> nat" where
  "neon_find_zero_fast p bs =
     (let k = neon_align p (length bs) in
      case first_zero (take k bs) 0 of Some j \<Rightarrow> j | None \<Rightarrow> neon_vectors (drop k bs) k)"

definition zero_at :: "byte list \<Rightarrow> nat" where
  "zero_at bs = length (takeWhile (\<lambda>b. b \<noteq> 0) bs)"

lemma first_zero_at: "first_zero bs i = (if 0 \<in> set bs then Some (i + zero_at bs) else None)"
  by (induction bs arbitrary: i) (auto simp: zero_at_def)

lemma zero_at_none: "0 \<notin> set bs \<Longrightarrow> zero_at bs = length bs"
  by (metis (mono_tags, lifting) takeWhile_eq_all_conv zero_at_def)

lemma zero_at_append: "zero_at (xs @ ys) = (if 0 \<in> set xs then zero_at xs else length xs + zero_at ys)"
  unfolding zero_at_def
  by (auto simp: takeWhile_tail) (metis (mono_tags, lifting) length_append takeWhile_append2)

lemma zero_at_split: "zero_at bs = (if 0 \<in> set (take k bs) then zero_at (take k bs) else length (take k bs) + zero_at (drop k bs))"
  using zero_at_append [of "take k bs" "drop k bs"] by simp

lemma neon_vectors_zero: "neon_vectors bs i = i + zero_at bs"
proof (induction bs i rule: neon_vectors.induct)
  case (1 bs i)
  show ?case
  proof (cases "length bs < NEON_VEC_BYTES")
    case True
    then show ?thesis by (subst neon_vectors.simps) (simp add: first_zero_at zero_at_none)
  next
    case False
    with 1 show ?thesis
      by (subst neon_vectors.simps, subst zero_at_split [of bs NEON_VEC_BYTES]) (auto simp: first_zero_at)
  qed
qed

lemma neon_find_zero_fast_correct: "neon_find_zero_fast p bs = zero_at bs"
  unfolding neon_find_zero_fast_def Let_def
  by (subst zero_at_split [of bs "neon_align p (length bs)"]) (simp add: first_zero_at neon_vectors_zero neon_align_def)

text \<open>What the copy writes: the first bytes up to a vector of the destination, blocks of four vectors, vectors, the rest.\<close>

function neon_copy_vectors :: "nat \<Rightarrow> byte list \<Rightarrow> byte list \<times> byte list" where
  "neon_copy_vectors k bs =
     (if k = 0 \<or> length bs < k then ([], bs)
      else (let (out, rest) = neon_copy_vectors k (drop k bs) in (take k bs @ out, rest)))"
  by pat_completeness auto
termination by (relation "measure (\<lambda>(k, bs). length bs)") auto

declare neon_copy_vectors.simps [simp del]

definition neon_memcpy_fast :: "nat \<Rightarrow> byte list \<Rightarrow> byte list" where
  "neon_memcpy_fast d bs =
     (let k = neon_align d (length bs);
          (blocks, bs') = neon_copy_vectors (4 * NEON_VEC_BYTES) (drop k bs);
          (vectors, rest) = neon_copy_vectors NEON_VEC_BYTES bs'
      in take k bs @ blocks @ vectors @ rest)"

lemma neon_copy_vectors_append: "neon_copy_vectors k bs = (out, rest) \<Longrightarrow> out @ rest = bs"
proof (induction k bs arbitrary: out rest rule: neon_copy_vectors.induct)
  case (1 k bs)
  then show ?case by (subst (asm) neon_copy_vectors.simps) (fastforce split: if_splits prod.splits)
qed

lemma neon_memcpy_fast_correct: "neon_memcpy_fast d bs = bs"
  unfolding neon_memcpy_fast_def Let_def
  by (simp split: prod.split) (metis append_assoc append_take_drop_id neon_copy_vectors_append)

end
