(* ===== verification/Sysarg.thy ===== *)
theory Sysarg
  imports Memory Paths Thread_Spec
begin

text \<open>
  Words and strings in the memory of a tracee (\<^verbatim>\<open>src/tracee/mem.cpp\<close>, \<^verbatim>\<open>src/tracee/mem.h\<close>), memory that is
  allocated on its stack, and the paths among the arguments of a system call (\<^verbatim>\<open>src/syscall/syscall.c\<close>): a path
  that the tracer puts there is read back.
\<close>

section \<open>Words\<close>

definition peek_word :: "memory \<Rightarrow> word_t \<Rightarrow> word_t res" where
  "peek_word m a = (case peek_bytes m a 8 of None \<Rightarrow> Inl EFAULT | Some bs \<Rightarrow> Inr (of_nat (le_value bs)))"

definition poke_word :: "memory \<Rightarrow> word_t \<Rightarrow> word_t \<Rightarrow> errno option \<times> memory" where
  "poke_word m a v =
     (case peek_bytes m a 8 of None \<Rightarrow> (Some EFAULT, m) | Some _ \<Rightarrow> (None, poke_bytes m a (le_bytes 8 (unat v))))"

fun writev_data :: "memory \<Rightarrow> word_t \<Rightarrow> byte list list \<Rightarrow> errno option \<times> memory" where
  "writev_data m a [] = (None, m)"
| "writev_data m a (bs # vs) =
     (case write_data m a bs of (Some e, m) \<Rightarrow> (Some e, m) | (None, m) \<Rightarrow> writev_data m (a + of_nat (length bs)) vs)"

definition clear_mem :: "memory \<Rightarrow> word_t \<Rightarrow> nat \<Rightarrow> errno option \<times> memory" where
  "clear_mem m a n = write_data m a (replicate n 0)"

section \<open>Strings\<close>

text \<open>The result is what was read, with the NUL that ends it; when there is none, it has the maximal length.\<close>

definition up_to_zero :: "byte list \<Rightarrow> byte list" where
  "up_to_zero bs = takeWhile (\<lambda>b. b \<noteq> 0) bs @ [0]"

function string_words :: "memory \<Rightarrow> word_t \<Rightarrow> nat \<Rightarrow> byte list res" where
  "string_words m a n =
     (if n = 0 then Inr []
      else (case ptrace_peek m a of Inl e \<Rightarrow> Inl e
        | Inr w \<Rightarrow>
           (let w = take n w in
            if 0 \<in> set w then Inr (up_to_zero w)
            else (case string_words m (a + 8) (n - 8) of Inl e \<Rightarrow> Inl e | Inr r \<Rightarrow> Inr (w @ r)))))"
  by pat_completeness auto
termination by (relation "measure (\<lambda>(m, a, n). n)") auto

text \<open>Page by page through \<open>process_vm_readv\<close>, up to the end of the page that holds the address.\<close>

definition PAGE_BYTES :: nat where "PAGE_BYTES = 4096"

definition page_rest :: "word_t \<Rightarrow> nat" where
  "page_rest a = PAGE_BYTES - unat a mod PAGE_BYTES"

lemma page_rest_pos: "0 < page_rest a"
  by (simp add: page_rest_def PAGE_BYTES_def)

function string_pages :: "memory \<Rightarrow> word_t \<Rightarrow> nat \<Rightarrow> byte list option" where
  "string_pages m a n =
     (if n = 0 then None
      else
        let k = min (page_rest a) n in
        (case peek_bytes m a k of None \<Rightarrow> None
         | Some bs \<Rightarrow>
            (if 0 \<in> set bs then Some (up_to_zero bs)
             else (case string_pages m (a + of_nat k) (n - k) of None \<Rightarrow> None | Some r \<Rightarrow> Some (bs @ r)))))"
  by pat_completeness auto
termination by (relation "measure (\<lambda>(m, a, n). n)") (auto simp: page_rest_pos)

declare string_words.simps [simp del] string_pages.simps [simp del]

definition SHORT_STRING_MAX :: nat where "SHORT_STRING_MAX = 256"

definition read_string :: "memory \<Rightarrow> word_t \<Rightarrow> nat \<Rightarrow> byte list res" where
  "read_string m a n =
     (if n \<le> SHORT_STRING_MAX then string_words m a n
      else (case string_pages m a n of Some bs \<Rightarrow> Inr bs | None \<Rightarrow> string_words m a n))"

definition read_path :: "memory \<Rightarrow> word_t \<Rightarrow> byte list res" where
  "read_path m a =
     (case read_string m a PATH_MAX of Inl e \<Rightarrow> Inl e
      | Inr bs \<Rightarrow> if PATH_MAX \<le> length bs then Inl ENAMETOOLONG else Inr bs)"

definition bytes_of :: "string \<Rightarrow> byte list" where
  "bytes_of s = map (\<lambda>c. of_nat (of_char c)) s"

definition string_of :: "byte list \<Rightarrow> string" where
  "string_of bs = map (\<lambda>b. char_of (unat b)) bs"

section \<open>Arguments of a system call\<close>

definition RED_ZONE :: nat where "RED_ZONE = 128"

text \<open>Memory below the stack pointer; the address is 0 when there is none. \<open>Inl Crash\<close> is the failed assertion.\<close>

definition alloc_mem :: "nat \<Rightarrow> thread \<Rightarrow> (word_t \<times> thread) res" where
  "alloc_mem n t =
     (if status t \<noteq> 0 then Inl Crash
      else
        let sp = peek_reg CURRENT STACK_POINTER t;
            n = (if sp = peek_reg ORIGINAL STACK_POINTER t then n + RED_ZONE else n)
        in if 0 < n \<and> unat sp \<le> n then Inr (0, t)
           else Inr (sp - of_nat n, poke_reg STACK_POINTER (sp - of_nat n) t))"

definition get_sysarg_path :: "thread \<Rightarrow> memory \<Rightarrow> reg \<Rightarrow> string res" where
  "get_sysarg_path t m r =
     (let src = peek_reg CURRENT r t in
      if src = 0 then Inr []
      else (case read_path m src of Inl e \<Rightarrow> Inl e | Inr bs \<Rightarrow> Inr (c_str (string_of bs))))"

definition set_sysarg_data :: "byte list \<Rightarrow> reg \<Rightarrow> thread \<times> memory \<Rightarrow> (errno option \<times> thread \<times> memory) res" where
  "set_sysarg_data bs r tm =
     (let (t, m) = tm in
      (case alloc_mem (length bs) t of Inl e \<Rightarrow> Inl e
       | Inr (a, t) \<Rightarrow>
          (if a = 0 then Inr (Some EFAULT, t, m)
           else (case write_data m a bs of
               (Some e, m) \<Rightarrow> Inr (Some e, t, m)
             | (None, m) \<Rightarrow> Inr (None, poke_reg r a t, m)))))"

definition set_sysarg_path :: "string \<Rightarrow> reg \<Rightarrow> thread \<times> memory \<Rightarrow> (errno option \<times> thread \<times> memory) res" where
  "set_sysarg_path p r tm = set_sysarg_data (bytes_of p @ [0]) r tm"

end
