(* ===== verification/Sysarg_Spec.thy ===== *)
theory Sysarg_Spec
  imports Sysarg
begin

text \<open>
  A path that is put in an argument of a system call is the path that is read from it, whatever pages hold it.
\<close>

section \<open>Strings in memory\<close>

definition holds :: "memory \<Rightarrow> word_t \<Rightarrow> byte list \<Rightarrow> bool" where
  "holds m a bs \<longleftrightarrow> (\<forall>i<length bs. m (a + of_nat i) = Some (bs ! i))"

lemma holds_peek: "peek_bytes m a (length bs) = Some bs \<longleftrightarrow> holds m a bs"
proof
  assume "peek_bytes m a (length bs) = Some bs"
  then show "holds m a bs" unfolding holds_def by (auto dest: peek_bytes_nth)
next
  assume h: "holds m a bs"
  then have "\<exists>w. peek_bytes m a (length bs) = Some w" unfolding peek_bytes_mapped holds_def by simp
  then obtain w where w: "peek_bytes m a (length bs) = Some w" ..
  have "w = bs"
    by (rule nth_equalityI) (use peek_bytes_length [OF w] peek_bytes_nth [OF w] h in \<open>auto simp: holds_def\<close>)
  with w show "peek_bytes m a (length bs) = Some bs" by simp
qed

lemma holds_append: "holds m a (xs @ ys) \<longleftrightarrow> holds m a xs \<and> holds m (a + of_nat (length xs)) ys"
proof
  assume h: "holds m a (xs @ ys)"
  have "m (a + of_nat i) = Some (xs ! i)" if "i < length xs" for i
    using h that unfolding holds_def by (metis length_append nth_append trans_less_add1)
  moreover have "m (a + of_nat (length xs) + of_nat i) = Some (ys ! i)" if "i < length ys" for i
    using h [unfolded holds_def, rule_format, of "length xs + i"] that by (simp add: nth_append add.assoc)
  ultimately show "holds m a xs \<and> holds m (a + of_nat (length xs)) ys" by (simp add: holds_def)
next
  assume h: "holds m a xs \<and> holds m (a + of_nat (length xs)) ys"
  show "holds m a (xs @ ys)"
    unfolding holds_def
  proof (intro allI impI)
    fix i assume i: "i < length (xs @ ys)"
    show "m (a + of_nat i) = Some ((xs @ ys) ! i)"
    proof (cases "i < length xs")
      case True
      with h show ?thesis by (simp add: holds_def nth_append)
    next
      case False
      then have w: "a + of_nat i = a + of_nat (length xs) + of_nat (i - length xs)" by (simp add: of_nat_diff)
      have "i - length xs < length ys" using i False by simp
      with h have "m (a + of_nat (length xs) + of_nat (i - length xs)) = Some (ys ! (i - length xs))" by (simp only: holds_def)
      with False show ?thesis unfolding w by (simp add: nth_append)
    qed
  qed
qed

lemma peek_take:
  assumes "peek_bytes m a n = Some w" "k \<le> n"
  shows "peek_bytes m a k = Some (take k w)"
proof -
  have "length (take k w) = k" using peek_bytes_length [OF assms(1)] assms(2) by simp
  moreover have "holds m a (take k w)"
    unfolding holds_def using peek_bytes_nth [OF assms(1)] peek_bytes_length [OF assms(1)] assms(2) by simp
  ultimately show ?thesis using holds_peek [of m a "take k w"] by simp
qed

text \<open>A part of the memory that begins like the string: either the string ends in it, or it is all of the string.\<close>

lemma zero_split:
  assumes "holds m a (s @ [0])" "0 \<notin> set s" "peek_bytes m a k = Some w"
  shows "0 \<in> set w \<Longrightarrow> up_to_zero w = s @ [0]"
    and "0 \<notin> set w \<Longrightarrow> k \<le> length s \<and> w = take k s \<and> holds m (a + of_nat k) (drop k s @ [0])"
proof -
  have len: "length w = k" by (rule peek_bytes_length [OF assms(3)])
  have same: "w ! i = (s @ [0]) ! i" if "i < k" "i \<le> length s" for i
    using peek_bytes_nth [OF assms(3) that(1)] assms(1) that(2) by (simp add: holds_def)
  have short: "k \<le> length s \<Longrightarrow> w = take k s"
    by (rule nth_equalityI) (use len same in \<open>auto simp: nth_append\<close>)
  have long: "take (Suc (length s)) w = s @ [0]" if "length s < k"
    by (rule nth_equalityI) (use that len same in \<open>auto simp: less_Suc_eq_le\<close>)
  show "up_to_zero w = s @ [0]" if z: "0 \<in> set w"
  proof -
    have "length s < k"
    proof (rule ccontr)
      assume "\<not> length s < k"
      then have "w = take k s" using short by simp
      with z assms(2) show False using in_set_takeD [of 0 k s] by simp
    qed
    from long [OF this] have "w = (s @ [0]) @ drop (Suc (length s)) w" by (metis append_take_drop_id)
    then have "takeWhile (\<lambda>b. b \<noteq> 0) w = s" using takeWhile_append_stop [of s "\<lambda>b. b \<noteq> 0" 0] assms(2) by (metis append.assoc append_Cons append_Nil)
    then show ?thesis by (simp add: up_to_zero_def)
  qed
  show "k \<le> length s \<and> w = take k s \<and> holds m (a + of_nat k) (drop k s @ [0])" if z: "0 \<notin> set w"
  proof -
    have k: "k \<le> length s"
    proof (rule ccontr)
      assume "\<not> k \<le> length s"
      then have "w ! length s = 0" "length s < length w" using same [of "length s"] len by simp_all
      with z show False by (metis nth_mem)
    qed
    have "take k s @ drop k s @ [0] = s @ [0]" by (metis append.assoc append_take_drop_id)
    then have "holds m a (take k s @ drop k s @ [0])" using assms(1) by (simp only:)
    then have "holds m (a + of_nat k) (drop k s @ [0])" using k unfolding holds_append [of m a "take k s"] by simp
    with k short show ?thesis by simp
  qed
qed

lemma pages_string:
  assumes "string_pages m a n = Some r" "holds m a (s @ [0])" "0 \<notin> set s" "length s < n"
  shows "r = s @ [0]"
  using assms
proof (induction m a n arbitrary: s r rule: string_pages.induct)
  case (1 m a n)
  let ?k = "min (page_rest a) n"
  from "1.prems"(1,4) obtain w where w: "peek_bytes m a ?k = Some w"
    by (auto simp: string_pages.simps [of m a n] Let_def split: option.splits)
  have n: "n \<noteq> 0" using "1.prems"(4) by simp
  show ?case
  proof (cases "0 \<in> set w")
    case True
    with w n "1.prems"(1) zero_split(1) [OF "1.prems"(2,3) w True] show ?thesis
      by (simp add: string_pages.simps [of m a n])
  next
    case False
    note z = zero_split(2) [OF "1.prems"(2,3) w False]
    have "(case string_pages m (a + of_nat ?k) (n - ?k) of None \<Rightarrow> None | Some r \<Rightarrow> Some (w @ r)) = Some r"
      using "1.prems"(1) n w False unfolding string_pages.simps [of m a n] Let_def by simp
    then obtain q where q: "string_pages m (a + of_nat ?k) (n - ?k) = Some q" "r = w @ q"
      by (auto split: option.splits)
    have "q = drop ?k s @ [0]"
      by (rule "1.IH" [OF n refl w False q(1)]) (use z "1.prems"(3,4) in \<open>auto dest: in_set_dropD\<close>)
    with q(2) z show ?thesis by simp
  qed
qed

lemma words_string:
  assumes "span_mapped m a (Suc (length s))" "holds m a (s @ [0])" "0 \<notin> set s" "length s < n"
  shows "string_words m a n = Inr (s @ [0])"
  using assms
proof (induction m a n arbitrary: s rule: string_words.induct)
  case (1 m a n)
  have n: "n \<noteq> 0" using "1.prems"(4) by simp
  have "8 \<le> word_span (Suc (length s))" by (simp add: word_span_def)
  with "1.prems"(1) have "\<exists>v. peek_bytes m a 8 = Some v" unfolding peek_bytes_mapped span_mapped_def by simp
  then obtain v where v: "peek_bytes m a 8 = Some v" ..
  let ?k = "min 8 n"
  have len: "length v = 8" by (rule peek_bytes_length [OF v])
  have w: "peek_bytes m a ?k = Some (take n v)"
    using peek_take [OF v, of ?k] len by (cases "n \<le> 8") (simp_all add: min_def)
  have p: "ptrace_peek m a = Inr v" using v by (simp add: ptrace_peek_def)
  show ?case
  proof (cases "0 \<in> set (take n v)")
    case True
    with p n zero_split(1) [OF "1.prems"(2,3) w True] show ?thesis by (simp add: string_words.simps [of m a n])
  next
    case False
    note z = zero_split(2) [OF "1.prems"(2,3) w False]
    have k: "?k = 8" using z "1.prems"(4) by (simp add: min_def split: if_split_asm)
    with z have 8: "8 \<le> length s" by simp
    have "span_mapped m (a + 8) (Suc (length (drop 8 s)))"
      using "1.prems"(1) span_mapped_step [of "Suc (length s)" m a] 8 by (simp add: Suc_diff_le [of 8 "length s", symmetric])
    then have "string_words m (a + 8) (n - 8) = Inr (drop 8 s @ [0])"
      by (intro "1.IH" [OF n p refl False]) (use z k "1.prems"(3,4) 8 in \<open>auto dest: in_set_dropD\<close>)
    with p n False z k show ?thesis by (simp add: string_words.simps [of m a n])
  qed
qed

lemma read_string_written:
  assumes "span_mapped m a (Suc (length s))" "holds m a (s @ [0])" "0 \<notin> set s" "length s < n"
  shows "read_string m a n = Inr (s @ [0])"
  using words_string [OF assms] pages_string [OF _ assms(2-4)]
  by (auto simp: read_string_def split: option.split)

section \<open>Paths among the arguments\<close>

lemma written_holds:
  assumes "write_data m a bs = (None, m')" "length bs < VM_FAST_THRESHOLD"
  shows "m' = poke_bytes m a bs" "holds m' a bs" "span_mapped m' a (length bs)"
proof -
  have d: "m' = poke_bytes m a bs \<and> span_mapped m a (length bs)"
    using assms write_words_done [of m a bs m'] by (simp add: write_data_def VM_FAST_THRESHOLD_def)
  then show "m' = poke_bytes m a bs" ..
  show "holds m' a bs"
    unfolding holds_def using d assms(2) by (simp add: poke_bytes_def unat_index VM_FAST_THRESHOLD_def)
  show "span_mapped m' a (length bs)" using d by (auto simp: span_mapped_def poke_bytes_def)
qed

lemma alloc_below:
  assumes "alloc_mem n t = Inr (a, t')" "a \<noteq> 0"
  shows "unat a + n \<le> unat (peek_reg CURRENT STACK_POINTER t)" "t' = poke_reg STACK_POINTER a t"
proof -
  let ?sp = "peek_reg CURRENT STACK_POINTER t"
  let ?n = "if ?sp = peek_reg ORIGINAL STACK_POINTER t then n + RED_ZONE else n"
  from assms have c: "\<not> (0 < ?n \<and> unat ?sp \<le> ?n)" "a = ?sp - of_nat ?n" "t' = poke_reg STACK_POINTER a t"
    by (auto simp: alloc_mem_def Let_def split: if_split_asm)
  show "t' = poke_reg STACK_POINTER a t" by (rule c(3))
  show "unat a + n \<le> unat ?sp"
  proof (cases "?n = 0")
    case True
    then show ?thesis using c(2) by (simp split: if_split_asm)
  next
    case False
    with c(1) have less: "?n < unat ?sp" by auto
    then have "unat (of_nat ?n :: word_t) = ?n" by (intro unat_index) (use unsigned_less [of ?sp, where 'a = nat] in simp)
    then have "unat a = unat ?sp - ?n" unfolding c(2) using less by (subst unat_sub) (simp_all add: word_le_nat_alt)
    with less show ?thesis by auto
  qed
qed

lemma unat_byte_char: "unat (of_nat (of_char c) :: byte) = of_char c"
  by (simp add: unat_of_nat)

lemma string_of_bytes: "string_of (bytes_of p) = p"
  unfolding string_of_def bytes_of_def by (induction p) (simp_all add: unat_byte_char)

lemma char_of_zero: "char_of (0 :: nat) = NUL"
  by (simp add: char_of_def)

lemma bytes_of_zero: "0 \<in> set (bytes_of p) \<longleftrightarrow> NUL \<in> set p"
proof -
  have "(of_nat (of_char c) :: byte) = 0 \<longleftrightarrow> c = NUL" for c
  proof
    assume "(of_nat (of_char c) :: byte) = 0"
    then have "(of_char c :: nat) = 0" using unat_byte_char [of c] by simp
    then show "c = NUL" using char_of_char [of c, where 'a = nat] char_of_zero by simp
  qed simp
  then show ?thesis unfolding bytes_of_def by (induction p) auto
qed

text \<open>
  C29: a path that the tracer gives to a system call is the path the call finds. When \<open>set_sysarg_path\<close> puts a path
  in an argument, the string that argument points to is this path, wherever the pages of the stack begin and end,
  and nothing at or above the stack pointer of the tracee is changed.
\<close>

theorem sysarg_path_roundtrip:
  assumes "set_sysarg_path p r (t, m) = Inr (None, t', m')" "NUL \<notin> set p" "length p + 1 < PATH_MAX"
  shows "get_sysarg_path t' m' r = Inr p \<and>
    (\<forall>x. unat (peek_reg CURRENT STACK_POINTER t) \<le> unat x \<longrightarrow> m' x = m x)"
proof -
  let ?bs = "bytes_of p @ [0]"
  have len: "length ?bs = length p + 1" by (simp add: bytes_of_def)
  from assms(1) obtain a u where a: "alloc_mem (length ?bs) t = Inr (a, u)" "a \<noteq> 0" "write_data m a ?bs = (None, m')"
    "t' = poke_reg r a u"
    by (auto simp: set_sysarg_path_def set_sysarg_data_def split: sum.splits prod.splits option.splits if_split_asm)
  have fits: "length ?bs < VM_FAST_THRESHOLD" using assms(3) len by (simp add: PATH_MAX_def VM_FAST_THRESHOLD_def)
  note w = written_holds [OF a(3) fits]
  have "read_string m' a PATH_MAX = Inr ?bs"
    by (rule read_string_written) (use w assms(2,3) len in \<open>simp_all add: bytes_of_zero\<close>)
  then have "read_path m' a = Inr ?bs" using assms(3) len by (simp add: read_path_def)
  moreover have "peek_reg CURRENT r t' = a" by (simp add: a(4) peek_poke)
  moreover have "c_str (string_of ?bs) = p"
  proof -
    have "string_of ?bs = p @ [NUL]" using string_of_bytes [of p] char_of_zero by (simp add: string_of_def)
    moreover have "c_str (p @ [NUL]) = p" using assms(2) unfolding c_str_def by (subst takeWhile_append2) auto
    ultimately show ?thesis by simp
  qed
  ultimately have "get_sysarg_path t' m' r = Inr p" using a(2) by (simp add: get_sysarg_path_def)
  moreover have "m' x = m x" if "unat (peek_reg CURRENT STACK_POINTER t) \<le> unat x" for x
  proof -
    have "unat a + length ?bs \<le> unat x" using alloc_below(1) [OF a(1,2)] that by simp
    then have "unat (x - a) = unat x - unat a" by (intro unat_sub) (simp add: word_le_nat_alt)
    with \<open>unat a + length ?bs \<le> unat x\<close> have "\<not> unat (x - a) < length ?bs" by linarith
    then show ?thesis unfolding w(1) poke_bytes_def by (simp only: if_False)
  qed
  ultimately show ?thesis by blast
qed

text \<open>The path \<^verbatim>\<open>/a\<close> in the first argument; the stack begins at 4096 and all memory is mapped.\<close>

definition stack_thread :: thread where
  "stack_thread = \<lparr>th_pid = 7, regs = (\<lambda>_ _. 4096), regs_were_changed = False, restore_original_regs = False,
     restore_after_seccomp = False, kregs = (\<lambda>_. 0), knum = 0, status = 0, restart_how = RESTART_UNSET, chained = None,
     force_final_result = False, final_result = 0, workaround_state = SYSNUM_WORKAROUND_INACTIVE, has_exe = True,
     voided_cancelled = False, pokedata_cancelled = False, pokedata_relaunched = False, last_restart_how = RESTART_UNSET,
     seccomp = DISABLED, sysexit_pending = False, already_handled_enter = False, skip_next_signal = False,
     restore_sysarg1 = False, suppressed_signal = 0, sigstop = SIGSTOP_IGNORED\<rparr>"

theorem sysarg_path_roundtrip_witness:
  "\<exists>t' m'. set_sysarg_path ''/a'' SYSARG_1 (stack_thread, \<lambda>_. Some 7) = Inr (None, t', m') \<and>
     get_sysarg_path t' m' SYSARG_1 = Inr ''/a''"
proof -
  have total: "total_memory (\<lambda>_. Some 7)" by (simp add: total_memory_def)
  have a: "alloc_mem (length (bytes_of ''/a'' @ [0])) stack_thread =
      Inr (3965, poke_reg STACK_POINTER 3965 stack_thread)"
    by (simp add: alloc_mem_def stack_thread_def peek_reg_def bytes_of_def RED_ZONE_def)
  obtain m' where w: "write_data (\<lambda>_. Some 7) 3965 (bytes_of ''/a'' @ [0]) = (None, m')"
    using total_write [OF total] by blast
  have s: "set_sysarg_path ''/a'' SYSARG_1 (stack_thread, \<lambda>_. Some 7) =
      Inr (None, poke_reg SYSARG_1 3965 (poke_reg STACK_POINTER 3965 stack_thread), m')"
    unfolding set_sysarg_path_def set_sysarg_data_def Let_def prod.case a sum.case w option.case by simp
  from sysarg_path_roundtrip [OF this] s show ?thesis by (auto simp: PATH_MAX_def)
qed

end
