(* ===== verification/Aoxp.thy ===== *)
theory Aoxp
  imports Sysarg
begin

text \<open>
  The arrays of pointers to strings that \<open>execve(2)\<close> takes, as the tracer changes them (\<^verbatim>\<open>src/execve/aoxp.c\<close>): an
  entry is the address of a string in the memory of the tracee, or a string of the tracer that is still to be
  copied there.
\<close>

record xpointer =
  remote :: word_t
  local :: "byte list option"

type_synonym xarray = "xpointer list"

definition null_xpointer :: xpointer where
  "null_xpointer = \<lparr>remote = 0, local = None\<rparr>"

definition ARG_LIMIT :: nat where "ARG_LIMIT = 131072"

section \<open>Entries\<close>

text \<open>A string that was read is kept with its address. The result is \<open>None\<close> for a NULL pointer.\<close>

definition read_xpointee_as_string :: "memory \<Rightarrow> xarray \<Rightarrow> nat \<Rightarrow> (byte list option \<times> xarray) res" where
  "read_xpointee_as_string m arr i =
     (if length arr \<le> i then Inl ERANGE
      else if local (arr ! i) \<noteq> None then Inr (local (arr ! i), arr)
      else if remote (arr ! i) = 0 then Inr (None, arr)
      else (case read_string m (remote (arr ! i)) ARG_LIMIT of Inl e \<Rightarrow> Inl e
        | Inr bs \<Rightarrow>
            if ARG_LIMIT \<le> length bs then Inl ENAMETOOLONG
            else (let s = Some (takeWhile (\<lambda>b. b \<noteq> 0) bs) in Inr (s, arr[i := (arr ! i)\<lparr>local := s\<rparr>]))))"

definition sizeof_xpointee_as_string :: "memory \<Rightarrow> xarray \<Rightarrow> nat \<Rightarrow> (nat \<times> xarray) res" where
  "sizeof_xpointee_as_string m arr i =
     (case read_xpointee_as_string m arr i of Inl e \<Rightarrow> Inl e
      | Inr (None, arr) \<Rightarrow> Inr (0, arr) | Inr (Some s, arr) \<Rightarrow> Inr (length s + 1, arr))"

text \<open>Both comparisons: with a whole string, and with the name of a variable.\<close>

definition compare_xpointee_generic :: "memory \<Rightarrow> xarray \<Rightarrow> nat \<Rightarrow> byte list option \<Rightarrow> (bool \<times> xarray) res" where
  "compare_xpointee_generic m arr i ref =
     (case read_xpointee_as_string m arr i of Inl e \<Rightarrow> Inl e | Inr (s, arr) \<Rightarrow> Inr (s = ref, arr))"

definition is_env_name :: "byte list \<Rightarrow> byte list \<Rightarrow> bool" where
  "is_env_name variable name \<longleftrightarrow>
     length name < length variable \<and> variable ! length name = 61 \<and> take (length name) variable = name"

definition compare_xpointee_env :: "memory \<Rightarrow> xarray \<Rightarrow> nat \<Rightarrow> byte list \<Rightarrow> (bool \<times> xarray) res" where
  "compare_xpointee_env m arr i ref =
     (case read_xpointee_as_string m arr i of Inl e \<Rightarrow> Inl e
      | Inr (None, arr) \<Rightarrow> Inr (False, arr) | Inr (Some s, arr) \<Rightarrow> Inr (is_env_name s ref, arr))"

function find_from :: "(xarray \<Rightarrow> nat \<Rightarrow> (bool \<times> xarray) res) \<Rightarrow> nat \<Rightarrow> nat \<Rightarrow> xarray \<Rightarrow> (nat \<times> xarray) res" where
  "find_from cmp n i arr =
     (if n \<le> i then Inl ENOENT
      else (case cmp arr i of Inl e \<Rightarrow> Inl e
        | Inr (True, arr) \<Rightarrow> Inr (i, arr) | Inr (False, arr) \<Rightarrow> find_from cmp n (i + 1) arr))"
  by pat_completeness auto
termination by (relation "measure (\<lambda>(cmp, n, i, arr). n - i)") auto

declare find_from.simps [simp del]

definition find_xpointee :: "(xarray \<Rightarrow> nat \<Rightarrow> (bool \<times> xarray) res) \<Rightarrow> xarray \<Rightarrow> (nat \<times> xarray) res" where
  "find_xpointee cmp arr = find_from cmp (length arr) 0 arr"

definition write_xpointee_as_string :: "nat \<Rightarrow> byte list \<Rightarrow> xarray \<Rightarrow> xarray res" where
  "write_xpointee_as_string i s arr =
     (if length arr \<le> i then Inl ERANGE else Inr (arr[i := \<lparr>remote = 0, local = Some s\<rparr>]))"

fun write_xpointees :: "nat \<Rightarrow> byte list list \<Rightarrow> xarray \<Rightarrow> xarray res" where
  "write_xpointees i [] arr = Inr arr"
| "write_xpointees i (s # ss) arr =
     (case write_xpointee_as_string i s arr of Inl e \<Rightarrow> Inl e | Inr arr \<Rightarrow> write_xpointees (i + 1) ss arr)"

text \<open>\<open>n\<close> new entries before the one at the index. The code never asks to remove entries.\<close>

definition resize_array_of_xpointers :: "nat \<Rightarrow> nat \<Rightarrow> xarray \<Rightarrow> xarray" where
  "resize_array_of_xpointers i n arr = take i arr @ replicate n null_xpointer @ drop i arr"

section \<open>From and to the tracee\<close>

text \<open>Up to the NULL pointer, or \<open>limit\<close> entries. The allocator refuses an array of more than \<open>FETCH_MAX\<close> entries.\<close>

definition FETCH_MAX :: nat where "FETCH_MAX = 0x1000000"

fun fetch_from :: "memory \<Rightarrow> nat \<Rightarrow> nat \<Rightarrow> nat \<Rightarrow> word_t \<Rightarrow> xarray res" where
  "fetch_from m limit i 0 a = Inl ENOMEM"
| "fetch_from m limit i (Suc n) a =
     (case peek_word m a of Inl e \<Rightarrow> Inl e
      | Inr p \<Rightarrow>
         (let x = \<lparr>remote = p, local = None\<rparr> in
          if (limit \<noteq> 0 \<and> i + 1 < limit) \<or> (limit = 0 \<and> p \<noteq> 0) then
            (case fetch_from m limit (i + 1) n (a + 8) of Inl e \<Rightarrow> Inl e | Inr xs \<Rightarrow> Inr (x # xs))
          else Inr [x]))"

definition fetch_array_of_xpointers :: "reg \<Rightarrow> nat \<Rightarrow> thread \<Rightarrow> memory \<Rightarrow> xarray res" where
  "fetch_array_of_xpointers r limit t m = fetch_from m limit 0 FETCH_MAX (peek_reg CURRENT r t)"

definition is_new :: "xpointer \<Rightarrow> bool" where
  "is_new x \<longleftrightarrow> local x \<noteq> None \<and> remote x = 0"

definition new_strings :: "xarray \<Rightarrow> byte list list" where
  "new_strings arr = map (\<lambda>x. the (local x) @ [0]) (filter is_new arr)"

fun place_strings :: "word_t \<Rightarrow> xarray \<Rightarrow> xarray" where
  "place_strings a [] = []"
| "place_strings a (x # xs) =
     (if is_new x then x\<lparr>remote := a\<rparr> # place_strings (a + of_nat (length (the (local x)) + 1)) xs
      else x # place_strings a xs)"

definition word_bytes :: "word_t \<Rightarrow> byte list" where
  "word_bytes v = le_bytes 8 (unat v)"

definition push_array_of_xpointers :: "reg \<Rightarrow> xarray \<Rightarrow> thread \<times> memory \<Rightarrow> (errno option \<times> thread \<times> memory) res" where
  "push_array_of_xpointers r arr tm =
     (let (t, m) = tm; n = 8 * length arr in
      if \<not> list_ex is_new arr then Inr (None, t, m)
      else (case alloc_mem (n + sum_list (map length (new_strings arr))) t of Inl e \<Rightarrow> Inl e
        | Inr (base, t) \<Rightarrow>
           (if base = 0 then Inr (Some E2BIG, t, m)
            else
              let pod = map remote (place_strings (base + of_nat n) arr) in
              (case writev_data m base (concat (map word_bytes pod) # new_strings arr) of
                 (Some e, m) \<Rightarrow> Inr (Some e, t, m)
               | (None, m) \<Rightarrow> Inr (None, poke_reg r base t, m)))))"

end
