(* ===== verification/Aoxp_Spec.thy ===== *)
theory Aoxp_Spec
  imports Aoxp Sysarg_Spec
begin

text \<open>
  An array of pointers that is put back into the memory of the tracee is found there: the same strings, in the same
  places of the vector.
\<close>

section \<open>Words and pieces in memory\<close>

lemma le_value_bytes: "le_value (le_bytes n v) = v mod 256 ^ n"
proof (induction n arbitrary: v)
  case (Suc n)
  have "le_bytes (Suc n) v = of_nat v # le_bytes n (v div 256)"
    unfolding le_bytes_def upt_conv_Cons [OF zero_less_Suc] map_Suc_upt [symmetric] by (simp add: div_mult2_eq)
  then have "le_value (le_bytes (Suc n) v) = v mod 256 + 256 * (v div 256 mod 256 ^ n)"
    using Suc by (simp add: unat_of_nat)
  also have "\<dots> = v mod 256 ^ Suc n" by (simp add: mod_mult2_eq)
  finally show ?case .
qed (simp add: le_bytes_def)

lemma word_bytes_length [simp]: "length (word_bytes v) = 8"
  by (simp add: word_bytes_def le_bytes_def)

lemma word_of_bytes: "of_nat (le_value (word_bytes v)) = v"
proof -
  have "(256 :: nat) ^ 8 = 2 ^ 64" by simp
  then have "le_value (word_bytes v) = unat v"
    unfolding word_bytes_def le_value_bytes using unsigned_less [of v, where 'a = nat] by simp
  then show ?thesis by simp
qed

lemma peek_word_held: "holds m a (word_bytes v) \<Longrightarrow> peek_word m a = Inr v"
  using holds_peek [of m a "word_bytes v"] by (simp add: peek_word_def word_of_bytes)

lemma words_length: "length (concat (map word_bytes ws)) = 8 * length ws"
  by (induction ws) simp_all

lemma poke_append:
  assumes "length xs + length ys < 2 ^ 64"
  shows "poke_bytes (poke_bytes m a xs) (a + of_nat (length xs)) ys = poke_bytes m a (xs @ ys)"
proof
  fix x
  let ?d = "unat (x - a)" and ?n = "length xs"
  have e: "x - (a + of_nat ?n) = (x - a) - of_nat ?n" by simp
  have u: "unat (of_nat ?n :: word_t) = ?n" using assms by (intro unat_index) simp
  show "poke_bytes (poke_bytes m a xs) (a + of_nat ?n) ys x = poke_bytes m a (xs @ ys) x"
  proof (cases "?n \<le> ?d")
    case True
    then have "unat (x - (a + of_nat ?n)) = ?d - ?n" unfolding e using u by (subst unat_sub) (simp_all add: word_le_nat_alt)
    with True show ?thesis by (auto simp: poke_bytes_def nth_append)
  next
    case False
    then have "unat (x - (a + of_nat ?n)) = ?d + 2 ^ 64 - ?n"
      unfolding e using u unat_sub_if' [of "x - a" "of_nat ?n"] by simp
    with False assms have "\<not> unat (x - (a + of_nat ?n)) < length ys" by linarith
    with False show ?thesis by (auto simp: poke_bytes_def nth_append)
  qed
qed

lemma write_data_done:
  assumes "write_data m a bs = (None, m')" "length bs < 2 ^ 64 - 8"
  shows "m' = poke_bytes m a bs"
  using assms write_words_done [of m a bs m'] by (auto simp: write_data_def split: if_split_asm)

lemma writev_done:
  assumes "writev_data m a vs = (None, m')" "length (concat vs) < 2 ^ 64 - 8"
  shows "m' = poke_bytes m a (concat vs)"
  using assms
proof (induction vs arbitrary: m a)
  case Nil
  then show ?case by (simp add: poke_bytes_def)
next
  case (Cons bs vs)
  from Cons.prems obtain m1 where w: "write_data m a bs = (None, m1)" "writev_data m1 (a + of_nat (length bs)) vs = (None, m')"
    by (auto split: prod.splits option.splits)
  have "m1 = poke_bytes m a bs" by (rule write_data_done [OF w(1)]) (use Cons.prems(2) in simp)
  moreover have "m' = poke_bytes m1 (a + of_nat (length bs)) (concat vs)" by (rule Cons.IH [OF w(2)]) (use Cons.prems(2) in simp)
  ultimately show ?case using poke_append [of bs "concat vs" m a] Cons.prems(2) by simp
qed

lemma span_poke: "span_mapped m a n \<Longrightarrow> span_mapped (poke_bytes m b bs) a n"
  by (auto simp: span_mapped_def poke_bytes_def)

text \<open>Every piece that is short enough for whole words lies in mapped words.\<close>

lemma writev_spans:
  assumes "writev_data m a (us @ bs # vs) = (None, m')" "length (concat (us @ bs # vs)) < 2 ^ 64 - 8"
    and "length bs < VM_FAST_THRESHOLD"
  shows "span_mapped m' (a + of_nat (length (concat us))) (length bs)"
  using assms
proof (induction us arbitrary: m a)
  case Nil
  then obtain m1 where w: "write_data m a bs = (None, m1)" "writev_data m1 (a + of_nat (length bs)) vs = (None, m')"
    by (auto split: prod.splits option.splits)
  have "m' = poke_bytes m1 (a + of_nat (length bs)) (concat vs)"
    by (rule writev_done [OF w(2)]) (use Nil.prems(2) in simp)
  with written_holds(3) [OF w(1) assms(3)] show ?case by (simp add: span_poke)
next
  case (Cons u us)
  from Cons.prems obtain m1 where w: "write_data m a u = (None, m1)" "writev_data m1 (a + of_nat (length u)) (us @ bs # vs) = (None, m')"
    by (auto split: prod.splits option.splits)
  have "span_mapped m' (a + of_nat (length u) + of_nat (length (concat us))) (length bs)"
    by (rule Cons.IH [OF w(2)]) (use Cons.prems(2,3) in simp_all)
  then show ?case by (simp add: add.assoc)
qed

lemma poked_holds: "length bs < 2 ^ 64 \<Longrightarrow> holds (poke_bytes m a bs) a bs"
  using peek_poked holds_peek by blast

lemma holds_first: "holds m a (b # bs) \<Longrightarrow> holds m a [b]"
  using holds_append [of m a "[b]" bs] by simp

section \<open>Fetching a vector\<close>

lemma fetch_held:
  assumes "holds m a (concat (map word_bytes (ws @ [0])))" "0 \<notin> set ws" "length ws < n"
  shows "fetch_from m 0 i n a = Inr (map (\<lambda>w. \<lparr>remote = w, local = None\<rparr>) (ws @ [0]))"
  using assms
proof (induction ws arbitrary: a i n)
  case Nil
  then obtain k where "n = Suc k" by (cases n) auto
  with Nil peek_word_held [of m a 0] show ?case by simp
next
  case (Cons w ws)
  then obtain k where k: "n = Suc k" "length ws < k" by (cases n) auto
  from Cons.prems(1) have h: "holds m a (word_bytes w)" "holds m (a + 8) (concat (map word_bytes (ws @ [0])))"
    by (simp_all add: holds_append)
  from Cons.IH [OF h(2) _ k(2)] Cons.prems(2) k(1) peek_word_held [OF h(1)] show ?case by simp
qed

section \<open>The round trip\<close>

lemma place_lengths [simp]: "length (place_strings a xs) = length xs"
  by (induction a xs rule: place_strings.induct) auto

lemma place_append: "place_strings a (xs @ ys) = place_strings a xs @ place_strings (a + of_nat (length (concat (new_strings xs)))) ys"
  by (induction a xs rule: place_strings.induct) (auto simp: new_strings_def add.assoc)

lemma place_old: "\<not> is_new x \<Longrightarrow> i < length xs \<Longrightarrow> xs ! i = x \<Longrightarrow> place_strings a xs ! i = x"
  by (induction a xs arbitrary: i rule: place_strings.induct) (auto simp: nth_Cons split: nat.splits)

text \<open>The vector that \<open>execve\<close> takes: NULL at its end and nowhere else.\<close>

definition is_vector :: "xarray \<Rightarrow> bool" where
  "is_vector arr \<longleftrightarrow> (\<exists>xs. arr = xs @ [null_xpointer] \<and> (\<forall>x \<in> set xs. remote x \<noteq> 0 \<or> local x \<noteq> None))"

definition short_strings :: "xarray \<Rightarrow> bool" where
  "short_strings arr \<longleftrightarrow> (\<forall>x \<in> set arr. is_new x \<longrightarrow> 0 \<notin> set (the (local x)) \<and> length (the (local x)) + 1 < VM_FAST_THRESHOLD)"

text \<open>Where a new string is put, and its piece among those that are written.\<close>

lemma new_strings_append: "new_strings (xs @ ys) = new_strings xs @ new_strings ys"
  by (simp add: new_strings_def)

lemma placed:
  assumes "i < length arr" "is_new (arr ! i)"
  shows "place_strings a arr ! i = (arr ! i)\<lparr>remote := a + of_nat (length (concat (new_strings (take i arr))))\<rparr>"
    and "new_strings arr = new_strings (take i arr) @ (the (local (arr ! i)) @ [0]) # new_strings (drop (Suc i) arr)"
proof -
  have arr: "arr = take i arr @ arr ! i # drop (Suc i) arr" by (rule id_take_nth_drop [OF assms(1)])
  have "place_strings a arr = place_strings a (take i arr) @
      place_strings (a + of_nat (length (concat (new_strings (take i arr))))) (arr ! i # drop (Suc i) arr)"
    by (subst arr) (rule place_append)
  then have "place_strings a arr ! i =
      place_strings (a + of_nat (length (concat (new_strings (take i arr))))) (arr ! i # drop (Suc i) arr) ! 0"
    using assms(1) by (simp add: nth_append)
  then show "place_strings a arr ! i = (arr ! i)\<lparr>remote := a + of_nat (length (concat (new_strings (take i arr))))\<rparr>"
    using assms(2) by simp
  have "new_strings (arr ! i # drop (Suc i) arr) = (the (local (arr ! i)) @ [0]) # new_strings (drop (Suc i) arr)"
    using assms(2) by (simp add: new_strings_def)
  then show "new_strings arr = new_strings (take i arr) @ (the (local (arr ! i)) @ [0]) # new_strings (drop (Suc i) arr)"
    by (metis arr new_strings_append)
qed

lemma new_strings_bound:
  assumes "short_strings arr"
  shows "length (concat (new_strings arr)) \<le> length arr * VM_FAST_THRESHOLD"
  using assms
proof (induction arr)
  case (Cons x arr)
  from Cons.prems have "short_strings arr" "is_new x \<longrightarrow> length (the (local x)) + 1 < VM_FAST_THRESHOLD"
    by (simp_all add: short_strings_def)
  with Cons.IH show ?case by (auto simp: new_strings_def)
qed (simp add: new_strings_def)

lemma sum_lengths: "sum_list (map length vs) = length (concat vs)"
  by (simp add: length_concat)

text \<open>What a push did.\<close>

lemma pushed:
  assumes "push_array_of_xpointers r arr (t, m) = Inr (None, t', m')" "list_ex is_new arr" "short_strings arr" "length arr < FETCH_MAX"
  obtains base where "base \<noteq> 0" "peek_reg CURRENT r t' = base"
    "unat base + (8 * length arr + length (concat (new_strings arr))) \<le> unat (peek_reg CURRENT STACK_POINTER t)"
    "8 * length arr + length (concat (new_strings arr)) < 2 ^ 64 - 8"
    "writev_data m base (concat (map word_bytes (map remote (place_strings (base + of_nat (8 * length arr)) arr))) # new_strings arr) = (None, m')"
proof -
  let ?n = "8 * length arr"
  from assms(1,2) obtain base u where b: "alloc_mem (?n + sum_list (map length (new_strings arr))) t = Inr (base, u)" "base \<noteq> 0"
    "writev_data m base (concat (map word_bytes (map remote (place_strings (base + of_nat ?n) arr))) # new_strings arr) = (None, m')"
    "t' = poke_reg r base u"
    unfolding push_array_of_xpointers_def Let_def prod.case
    by (simp only: if_not_P not_not if_False split: sum.splits prod.splits option.splits if_split_asm) auto
  have "length (concat (new_strings arr)) \<le> FETCH_MAX * VM_FAST_THRESHOLD"
    using new_strings_bound [OF assms(3)] assms(4) by (meson le_trans less_imp_le mult_le_mono1)
  then have "?n + length (concat (new_strings arr)) < 2 ^ 64 - 8" using assms(4) by (simp add: FETCH_MAX_def VM_FAST_THRESHOLD_def)
  then show thesis
    using b alloc_below(1) [OF b(1,2)] by (intro that [of base]) (simp_all add: peek_poke sum_lengths)
qed

lemma entry_word:
  assumes "i < length arr"
  shows "map remote (place_strings a arr) ! i =
    (if is_new (arr ! i) then a + of_nat (length (concat (new_strings (take i arr)))) else remote (arr ! i))"
  using assms placed(1) [OF assms] place_old [OF _ assms refl] by simp

lemma entry_nonzero:
  assumes "i < length arr" "is_new (arr ! i)" "base \<noteq> 0" "unat base + (n + length (concat (new_strings arr))) < 2 ^ 64"
  shows "base + of_nat n + of_nat (length (concat (new_strings (take i arr)))) \<noteq> (0 :: word_t)"
proof -
  let ?k = "n + length (concat (new_strings (take i arr)))"
  have "?k \<le> n + length (concat (new_strings arr))" using placed(2) [OF assms(1,2)] by simp
  then have "unat base + ?k < 2 ^ 64" using assms(4) by simp
  then have "unat (base + of_nat ?k) = unat base + ?k" by (simp add: unat_word_ariths unat_of_nat)
  moreover have "0 < unat base" using assms(3) by (simp add: unat_gt_0)
  ultimately have "base + of_nat ?k \<noteq> 0" by (metis add_gr_0 less_irrefl unat_0)
  then show ?thesis by (simp add: add.assoc)
qed

lemma vector_words:
  assumes "is_vector arr" "base \<noteq> 0" "unat base + (n + length (concat (new_strings arr))) < 2 ^ 64"
  shows "\<exists>ws. map remote (place_strings (base + of_nat n) arr) = ws @ [0] \<and> 0 \<notin> set ws"
proof -
  let ?ps = "map remote (place_strings (base + of_nat n) arr)"
  from assms(1) obtain xs where xs: "arr = xs @ [null_xpointer]" "\<forall>x \<in> set xs. remote x \<noteq> 0 \<or> local x \<noteq> None"
    by (auto simp: is_vector_def)
  have null: "\<not> is_new null_xpointer" "remote null_xpointer = 0" by (simp_all add: is_new_def null_xpointer_def)
  define ws where "ws = butlast ?ps"
  have "?ps ! (length arr - 1) = 0" using entry_word [of "length arr - 1" arr] null xs(1) by simp
  moreover have "?ps \<noteq> []" using xs(1) by (metis length_0_conv length_map place_lengths snoc_eq_iff_butlast)
  ultimately have ps: "?ps = ws @ [0]"
    unfolding ws_def by (metis append_butlast_last_id last_conv_nth length_map place_lengths)
  have "0 \<notin> set ws"
  proof
    assume "0 \<in> set ws"
    then obtain i where i: "i < length ws" "ws ! i = 0" by (auto simp: in_set_conv_nth)
    have "length ws = length xs" using arg_cong [OF ps, of length] xs(1) by simp
    then have "?ps ! i = 0" "i < length xs" "i < length arr" using i xs(1) unfolding ps by (simp_all add: nth_append)
    then show False
      using entry_word [of i arr "base + of_nat n"] entry_nonzero [of i arr base n] assms(2,3) xs
      by (auto simp: nth_append is_new_def split: if_split_asm)
  qed
  with ps show ?thesis by blast
qed

text \<open>A piece of what was written, read as a string.\<close>

lemma piece_read:
  assumes w: "writev_data m base (pod # new_strings arr) = (None, m')" "length pod + length (concat (new_strings arr)) < 2 ^ 64 - 8"
    and i: "i < length arr" "is_new (arr ! i)" and s: "short_strings arr"
  shows "read_string m' (base + of_nat (length pod) + of_nat (length (concat (new_strings (take i arr))))) ARG_LIMIT =
    Inr (the (local (arr ! i)) @ [0])"
proof -
  let ?s = "the (local (arr ! i))" and ?pre = "new_strings (take i arr)"
  let ?a = "base + of_nat (length pod) + of_nat (length (concat ?pre))"
  note pl = placed(2) [OF i]
  have s: "0 \<notin> set ?s" "length ?s + 1 < VM_FAST_THRESHOLD" using s i nth_mem [OF i(1)] by (auto simp: short_strings_def)
  have "m' = poke_bytes m base (pod @ concat (new_strings arr))" using writev_done [OF w(1)] w(2) by simp
  then have "holds m' (base + of_nat (length pod)) (concat (new_strings arr))"
    using poked_holds [of "pod @ concat (new_strings arr)" m base] w(2) by (simp add: holds_append)
  then have "holds m' ?a (?s @ [0])" unfolding pl by (auto simp: holds_append dest: holds_first)
  moreover have "span_mapped m' ?a (Suc (length ?s))"
    using writev_spans [of m base "pod # ?pre" "?s @ [0]" "new_strings (drop (Suc i) arr)" m'] w s(2) pl
    by (simp add: add.assoc)
  ultimately show ?thesis
    using s by (intro read_string_written) (simp_all add: ARG_LIMIT_def VM_FAST_THRESHOLD_def)
qed

lemma vector_roundtrip_fact:
  assumes "push_array_of_xpointers r arr (t, m) = Inr (None, t', m')"
    and "is_vector arr" "list_ex is_new arr" "short_strings arr" "length arr < FETCH_MAX"
  shows "\<exists>ys. fetch_array_of_xpointers r 0 t' m' = Inr ys \<and> length ys = length arr \<and>
    (\<forall>i < length arr. if is_new (arr ! i) then (\<exists>zs. read_xpointee_as_string m' ys i = Inr (local (arr ! i), zs))
       else remote (ys ! i) = remote (arr ! i)) \<and>
    (\<forall>x. unat (peek_reg CURRENT STACK_POINTER t) \<le> unat x \<longrightarrow> m' x = m x)"
proof -
  let ?n = "8 * length arr" and ?ss = "new_strings arr"
  obtain base where b: "base \<noteq> 0" "peek_reg CURRENT r t' = base"
    "unat base + (?n + length (concat ?ss)) \<le> unat (peek_reg CURRENT STACK_POINTER t)" "?n + length (concat ?ss) < 2 ^ 64 - 8"
    "writev_data m base (concat (map word_bytes (map remote (place_strings (base + of_nat ?n) arr))) # ?ss) = (None, m')"
    by (rule pushed [OF assms(1,3,4,5)])
  define ps where "ps = map remote (place_strings (base + of_nat ?n) arr)"
  define pod where "pod = concat (map word_bytes ps)"
  note w = b(5) [folded ps_def, folded pod_def]
  have len: "length ps = length arr" by (simp add: ps_def)
  have lpod: "length pod = ?n" by (simp add: pod_def len words_length)
  have m': "m' = poke_bytes m base (pod @ concat ?ss)" using writev_done [OF w] b(4) lpod by simp
  have room: "unat base + (?n + length (concat ?ss)) < 2 ^ 64"
    using b(3) unsigned_less [of "peek_reg CURRENT STACK_POINTER t", where 'a = nat] by simp
  obtain ws where ws: "ps = ws @ [0]" "0 \<notin> set ws" using vector_words [OF assms(2) b(1) room] by (auto simp: ps_def)
  have "holds m' base pod"
    using poked_holds [of "pod @ concat ?ss" m base] b(4) lpod unfolding m' holds_append by simp
  then have "fetch_from m' 0 0 FETCH_MAX base = Inr (map (\<lambda>w. \<lparr>remote = w, local = None\<rparr>) ps)"
    unfolding ws(1) by (intro fetch_held) (use ws len assms(5) in \<open>auto simp: pod_def\<close>)
  then have f: "fetch_array_of_xpointers r 0 t' m' = Inr (map (\<lambda>w. \<lparr>remote = w, local = None\<rparr>) ps)"
    using b(2) by (simp add: fetch_array_of_xpointers_def)
  have read: "\<exists>zs. read_xpointee_as_string m' (map (\<lambda>w. \<lparr>remote = w, local = None\<rparr>) ps) i = Inr (local (arr ! i), zs)"
    if i: "i < length arr" "is_new (arr ! i)" for i
  proof -
    let ?s = "the (local (arr ! i))"
    have s: "0 \<notin> set ?s" "length ?s + 1 < VM_FAST_THRESHOLD" "local (arr ! i) = Some ?s"
      using assms(4) i nth_mem [OF i(1)] by (auto simp: short_strings_def is_new_def)
    have "takeWhile (\<lambda>b. b \<noteq> 0) (?s @ [0]) = ?s" using s(1) by (subst takeWhile_append2) auto
    then show ?thesis
      using piece_read [OF w _ i assms(4)] b(4) lpod entry_word [OF i(1)] entry_nonzero [OF i b(1) room] i len s
      by (simp add: read_xpointee_as_string_def ARG_LIMIT_def VM_FAST_THRESHOLD_def ps_def Let_def)
  qed
  have keep: "m' x = m x" if "unat (peek_reg CURRENT STACK_POINTER t) \<le> unat x" for x
  proof -
    have le: "unat base + length (pod @ concat ?ss) \<le> unat x" using b(3) that lpod by simp
    then have "unat (x - base) = unat x - unat base" by (intro unat_sub) (simp add: word_le_nat_alt)
    with le have "\<not> unat (x - base) < length (pod @ concat ?ss)" by linarith
    then show ?thesis unfolding m' poke_bytes_def by (simp only: if_False)
  qed
  have old: "ps ! i = remote (arr ! i)" if "i < length arr" "\<not> is_new (arr ! i)" for i
    using entry_word [OF that(1)] that(2) by (simp add: ps_def)
  show ?thesis
    using f read keep old len by (intro exI [of _ "map (\<lambda>w. \<lparr>remote = w, local = None\<rparr>) ps"]) simp
qed

text \<open>
  C30: a vector that the tracer changed is the vector that the call finds. After \<open>push_array_of_xpointers\<close> the argument
  points to a vector that ends where the old one ended; an entry that was not changed is the pointer it was, one that
  was changed points to its new string, whatever pages hold it. Nothing at or above the stack pointer of the tracee
  is changed.
\<close>

theorem vector_roundtrip:
  assumes "push_array_of_xpointers r arr (t, m) = Inr (None, t', m')"
    and "is_vector arr" "list_ex is_new arr" "short_strings arr" "length arr < FETCH_MAX"
  shows "\<exists>ys. fetch_array_of_xpointers r 0 t' m' = Inr ys \<and> length ys = length arr \<and>
    (\<forall>i < length arr. if is_new (arr ! i) then (\<exists>zs. read_xpointee_as_string m' ys i = Inr (local (arr ! i), zs))
       else remote (ys ! i) = remote (arr ! i)) \<and>
    (\<forall>x. unat (peek_reg CURRENT STACK_POINTER t) \<le> unat x \<longrightarrow> m' x = m x)"
  by (rule vector_roundtrip_fact [OF assms])

lemma total_writev: "total_memory m \<Longrightarrow> \<exists>m'. writev_data m a vs = (None, m') \<and> total_memory m'"
proof (induction vs arbitrary: m a)
  case (Cons bs vs)
  from total_write [OF Cons.prems] obtain m1 where "write_data m a bs = (None, m1)" "total_memory m1" by blast
  with Cons.IH show ?case by simp
qed simp

text \<open>A vector with the new string \<^verbatim>\<open>/\<close> and an old pointer.\<close>

theorem vector_roundtrip_witness:
  "\<exists>t' m' ys zs. push_array_of_xpointers SYSARG_2 [\<lparr>remote = 0, local = Some [47]\<rparr>, \<lparr>remote = 9, local = None\<rparr>, null_xpointer]
       (stack_thread, \<lambda>_. Some 7) = Inr (None, t', m') \<and>
     fetch_array_of_xpointers SYSARG_2 0 t' m' = Inr ys \<and> read_xpointee_as_string m' ys 0 = Inr (Some [47], zs) \<and> remote (ys ! 1) = 9"
proof -
  let ?arr = "[\<lparr>remote = 0, local = Some [47]\<rparr>, \<lparr>remote = 9, local = None\<rparr>, null_xpointer] :: xarray"
  have total: "total_memory (\<lambda>_. Some 7)" by (simp add: total_memory_def)
  have v: "is_vector ?arr" unfolding is_vector_def by (rule exI [of _ "butlast ?arr"]) simp
  have n: "list_ex is_new ?arr" "short_strings ?arr" "length ?arr < FETCH_MAX"
    by (simp_all add: is_new_def short_strings_def FETCH_MAX_def VM_FAST_THRESHOLD_def null_xpointer_def)
  have s: "sum_list (map length (new_strings ?arr)) = 2" by (simp add: new_strings_def is_new_def null_xpointer_def)
  have a: "alloc_mem (8 * length ?arr + sum_list (map length (new_strings ?arr))) stack_thread =
      Inr (3942, poke_reg STACK_POINTER 3942 stack_thread)"
    unfolding s by (simp add: alloc_mem_def stack_thread_def peek_reg_def RED_ZONE_def)
  obtain m' where w: "writev_data (\<lambda>_. Some 7) 3942 (concat (map word_bytes (map remote (place_strings (3942 + of_nat (8 * length ?arr)) ?arr))) # new_strings ?arr) = (None, m')"
    using total_writev [OF total] by blast
  have p: "push_array_of_xpointers SYSARG_2 ?arr (stack_thread, \<lambda>_. Some 7) =
      Inr (None, poke_reg SYSARG_2 3942 (poke_reg STACK_POINTER 3942 stack_thread), m')"
    unfolding push_array_of_xpointers_def Let_def prod.case a sum.case w option.case using n(1) by simp
  from vector_roundtrip [OF p v n] obtain ys where ys: "fetch_array_of_xpointers SYSARG_2 0 (poke_reg SYSARG_2 3942 (poke_reg STACK_POINTER 3942 stack_thread)) m' = Inr ys"
    "\<forall>i < length ?arr. if is_new (?arr ! i) then (\<exists>zs. read_xpointee_as_string m' ys i = Inr (local (?arr ! i), zs)) else remote (ys ! i) = remote (?arr ! i)"
    by blast
  from ys(2) [rule_format, of 0] obtain zs where "read_xpointee_as_string m' ys 0 = Inr (Some [47], zs)" by (auto simp: is_new_def)
  moreover have "remote (ys ! 1) = 9" using ys(2) [rule_format, of 1] by (simp add: is_new_def)
  ultimately show ?thesis using p ys(1) by blast
qed

end
