(* ===== verification/Shebang.thy ===== *)
theory Shebang
  imports Aoxp Translate
begin

text \<open>
  Scripts: the first line that names an interpreter (\<^verbatim>\<open>src/execve/shebang.c\<close>), the check of a program before it is
  executed (\<^verbatim>\<open>src/execve/enter.c\<close>), and the arguments that an interpreter is given.
\<close>

section \<open>The check of a program\<close>

text \<open>\<open>k_access\<close> is \<open>access(2)\<close> for a file that is executed, \<open>k_head\<close> the first \<open>BINPRM_BUF_SIZE\<close> bytes of a file.\<close>

record 'w exec_env =
  paths :: "'w tr_env"
  k_access :: "string \<Rightarrow> 'w \<Rightarrow> errno option"
  k_head :: "string \<Rightarrow> 'w \<Rightarrow> string res"

definition BINPRM_BUF_SIZE :: nat where "BINPRM_BUF_SIZE = 256"

definition translate_procfd_exec :: "int \<Rightarrow> string \<Rightarrow> string option res" where
  "translate_procfd_exec n user =
     (let fd = drop 14 user; target = ''/proc/'' @ decimal_int n @ ''/fd/'' @ fd in
      if \<not> prefix ''/proc/self/fd/'' user \<or> fd = [] \<or> \<not> list_all is_digit fd then Inr None
      else if PATH_MAX \<le> length target then Inl ENAMETOOLONG
      else Inr (Some target))"

definition check_exec :: "'w exec_env \<Rightarrow> string \<Rightarrow> tracee \<Rightarrow> 'w \<Rightarrow> string res \<times> tracee \<times> 'w" where
  "check_exec E target t w =
     (case k_access E target w of
        Some e \<Rightarrow> (Inl (if e = ENOENT then ENOENT else EACCES), t, w)
      | None \<Rightarrow> (case k_lstat (fs (paths E)) target w of
            (Inl _, w) \<Rightarrow> (Inl EPERM, t, w)
          | (Inr _, w) \<Rightarrow> (Inr target, t, w)))"

definition translate_and_check_exec :: "'w exec_env \<Rightarrow> string \<Rightarrow> tracee \<Rightarrow> 'w \<Rightarrow> string res \<times> tracee \<times> 'w" where
  "translate_and_check_exec E user t w =
     (if user = [] then (Inl ENOEXEC, t, w)
      else (case translate_procfd_exec (t_pid t) user of
          Inl e \<Rightarrow> (Inl e, t, w)
        | Inr (Some target) \<Rightarrow> check_exec E target t w
        | Inr None \<Rightarrow>
           (case translate_path (paths E) None user True t w of
              (Inl e, t, w) \<Rightarrow> (Inl e, t, w)
            | (Inr target, t, w) \<Rightarrow> check_exec E target t w)))"

section \<open>The first line\<close>

definition is_blank :: "char \<Rightarrow> bool" where
  "is_blank c \<longleftrightarrow> c = CHR '' '' \<or> c = CHR 0x09"

definition is_eol :: "char \<Rightarrow> bool" where
  "is_eol c \<longleftrightarrow> c = CHR 0x0A \<or> c = CHR 0x0D"

text \<open>The interpreter and its argument, which is empty when there is none; \<open>None\<close> for a file that is no script.\<close>

definition shebang_argument :: "string \<Rightarrow> string" where
  "shebang_argument s =
     rev (dropWhile is_blank (rev (take (BINPRM_BUF_SIZE - 1) (takeWhile (\<lambda>c. \<not> is_eol c) (dropWhile is_blank s)))))"

definition parse_shebang :: "string \<Rightarrow> (string \<times> string) option" where
  "parse_shebang buf =
     (if length buf < 2 \<or> take 2 buf \<noteq> ''#!'' then None
      else
        let s = dropWhile is_blank (drop 2 buf);
            user = take (PATH_MAX - 1) (takeWhile (\<lambda>c. \<not> is_blank c \<and> \<not> is_eol c) s);
            rest = drop (length user) s
        in Some (c_str user, if rest = [] \<or> is_eol (hd rest) then [] else c_str (shebang_argument rest)))"

definition extract_shebang :: "'w exec_env \<Rightarrow> string \<Rightarrow> 'w \<Rightarrow> (string \<times> string) option res" where
  "extract_shebang E target w =
     (case k_head E target w of Inl e \<Rightarrow> Inl e | Inr buf \<Rightarrow> Inr (parse_shebang (take BINPRM_BUF_SIZE buf)))"

section \<open>The arguments of the interpreter\<close>

definition interpreter_args :: "string \<Rightarrow> string \<Rightarrow> string \<Rightarrow> byte list list" where
  "interpreter_args user argument old =
     (if argument = [] then [bytes_of user, bytes_of old] else [bytes_of user, bytes_of argument, bytes_of old])"

definition put_interpreter :: "string \<Rightarrow> string \<Rightarrow> string \<Rightarrow> xarray \<Rightarrow> xarray res" where
  "put_interpreter user argument old argv =
     write_xpointees 0 (interpreter_args user argument old)
       (resize_array_of_xpointers 0 (if argument = [] then 1 else 2) argv)"

text \<open>\<open>n\<close> turns are left. The result is the program, as the host and the tracee name it, with the arguments when
  they changed.\<close>

fun shebang_loop ::
  "'w exec_env \<Rightarrow> xarray res \<Rightarrow> nat \<Rightarrow> string \<Rightarrow> xarray option \<Rightarrow> tracee \<Rightarrow> 'w \<Rightarrow>
     (string \<times> string \<times> xarray option) res \<times> tracee \<times> 'w" where
  "shebang_loop E args 0 user argv t w = (Inl ELOOP, t, w)"
| "shebang_loop E args (Suc n) user argv t w =
     (case translate_and_check_exec E user t w of
        (Inl e, t, w) \<Rightarrow> (Inl e, t, w)
      | (Inr target, t, w) \<Rightarrow>
         (case extract_shebang E target w of
            Inl e \<Rightarrow> (Inl e, t, w)
          | Inr None \<Rightarrow> (Inr (target, user, argv), t, w)
          | Inr (Some (interpreter, argument)) \<Rightarrow>
             (case translate_and_check_exec E interpreter t w of
                (Inl e, t, w) \<Rightarrow> (Inl e, t, w)
              | (Inr _, t, w) \<Rightarrow>
                 (case (case argv of None \<Rightarrow> args | Some a \<Rightarrow> Inr a) of
                    Inl e \<Rightarrow> (Inl e, t, w)
                  | Inr a \<Rightarrow>
                     (case put_interpreter interpreter argument user a of
                        Inl e \<Rightarrow> (Inl e, t, w)
                      | Inr a \<Rightarrow> shebang_loop E args n interpreter (Some a) t w)))))"

text \<open>The result is the error, or the program and whether it is the interpreter of a script; the arguments are
  put back last.\<close>

definition expand_shebang ::
  "'w exec_env \<Rightarrow> string \<Rightarrow> tracee \<Rightarrow> thread \<times> memory \<Rightarrow> 'w \<Rightarrow>
     (string \<times> string \<times> bool) res \<times> tracee \<times> (thread \<times> memory) \<times> 'w" where
  "expand_shebang E user t tm w =
     (case shebang_loop E (fetch_array_of_xpointers SYSARG_2 0 (fst tm) (snd tm)) (max_symlinks (fs (paths E))) user None t w of
        (Inl e, t, w) \<Rightarrow> (Inl e, t, tm, w)
      | (Inr (target, user, None), t, w) \<Rightarrow> (Inr (target, user, False), t, tm, w)
      | (Inr (target, user, Some argv), t, w) \<Rightarrow>
         (case push_array_of_xpointers SYSARG_2 argv tm of
            Inl e \<Rightarrow> (Inl e, t, tm, w)
          | Inr (Some e, tm) \<Rightarrow> (Inl e, t, tm, w)
          | Inr (None, tm) \<Rightarrow> (Inr (target, user, True), t, tm, w)))"

end
