(* ===== verification/Shebang_Spec.thy ===== *)
theory Shebang_Spec
  imports Shebang Aoxp_Spec Translate_Spec
begin

text \<open>
  Scripts are read as the kernel reads them, and their interpreters get the arguments the kernel would give them.
\<close>

section \<open>The first line, as the kernel reads it\<close>

text \<open>
  \<open>load_script\<close> of the kernel, for a line that ends within the buffer: blanks are removed at both ends, the
  interpreter is the first word and its argument the rest of the line.
\<close>

definition trim :: "string \<Rightarrow> string" where
  "trim s = rev (dropWhile is_blank (rev (dropWhile is_blank s)))"

definition kernel_script :: "string \<Rightarrow> (string \<times> string) option res" where
  "kernel_script buf =
     (if length buf < 2 \<or> take 2 buf \<noteq> ''#!'' then Inr None
      else
        let s = trim (takeWhile (\<lambda>c. c \<noteq> CHR 0x0A) (drop 2 buf));
            name = takeWhile (\<lambda>c. \<not> is_blank c) s
        in if s = [] then Inl ENOEXEC else Inr (Some (name, dropWhile is_blank (drop (length name) s))))"

lemma dropWhile_rev_snoc: "\<not> P x \<Longrightarrow> rev (dropWhile P (rev (xs @ [x]))) = xs @ [x]"
  by simp

text \<open>Removing blanks at the end of a list: what is left of a part that has others than blanks.\<close>

definition rstrip :: "string \<Rightarrow> string" where
  "rstrip s = rev (dropWhile is_blank (rev s))"

lemma rstrip_blanks: "list_all is_blank s \<Longrightarrow> rstrip s = []"
  by (simp add: rstrip_def list_all_iff)

lemma rstrip_append: "rstrip (xs @ ys) = (if list_all is_blank ys then rstrip xs else xs @ rstrip ys)"
proof (induction ys rule: rev_induct)
  case (snoc y ys)
  have s: "rstrip (zs @ [y]) = (if is_blank y then rstrip zs else zs @ [y])" for zs by (simp add: rstrip_def)
  have "rstrip (xs @ ys @ [y]) = (if is_blank y then rstrip (xs @ ys) else xs @ ys @ [y])" using s [of "xs @ ys"] by simp
  with snoc s [of ys] show ?case by (auto simp: list_all_iff)
qed (simp add: rstrip_def)

lemma rstrip_no_blank: "s \<noteq> [] \<Longrightarrow> \<not> is_blank (last s) \<Longrightarrow> rstrip s = s"
  by (cases s rule: rev_cases) (simp_all add: rstrip_def)

lemma takeWhile_cut: "takeWhile P (takeWhile Q s) = takeWhile (\<lambda>c. P c \<and> Q c) s"
  by (induction s) auto

lemma dropWhile_takeWhile: "(\<And>c. P c \<Longrightarrow> Q c) \<Longrightarrow> dropWhile P (takeWhile Q s) = takeWhile Q (dropWhile P s)"
  by (induction s) auto

lemma drop_word: "(\<And>c. Q c \<Longrightarrow> P c) \<Longrightarrow> drop (length (takeWhile Q s)) (takeWhile P s) = takeWhile P (drop (length (takeWhile Q s)) s)"
  by (induction s) auto

lemma takeWhile_stricter:
  "CHR 0x0D \<notin> set (takeWhile (\<lambda>c. c \<noteq> CHR 0x0A) s) \<Longrightarrow> takeWhile (\<lambda>c. c \<noteq> CHR 0x0A) s = takeWhile (\<lambda>c. \<not> is_eol c) s"
  by (induction s) (auto simp: is_eol_def split: if_split_asm)

lemma c_str_part: "NUL \<notin> set s \<Longrightarrow> set r \<subseteq> set s \<Longrightarrow> c_str r = r"
  by (rule c_str_id) blast

lemma rstrip_subset: "set (rstrip s) \<subseteq> set s"
  unfolding rstrip_def using set_dropWhileD by fastforce

lemma rstrip_length: "length (rstrip s) \<le> length s"
  unfolding rstrip_def by (metis length_dropWhile_le length_rev)

text \<open>The word and the rest of a line without line ends in it.\<close>

lemma line_parts:
  assumes "\<forall>c \<in> set l. \<not> is_eol c" "l \<noteq> [] \<longrightarrow> \<not> is_blank (hd l)"
  defines "word \<equiv> takeWhile (\<lambda>c. \<not> is_blank c) l"
  shows "takeWhile (\<lambda>c. \<not> is_blank c) (rstrip l) = word"
    and "dropWhile is_blank (drop (length word) (rstrip l)) = rstrip (dropWhile is_blank (drop (length word) l))"
    and "rstrip l = [] \<longleftrightarrow> l = []"
proof -
  define rest where "rest = drop (length word) l"
  have l: "l = word @ rest" unfolding word_def rest_def by (metis append_take_drop_id takeWhile_eq_take)
  have word: "\<forall>c \<in> set word. \<not> is_blank c" unfolding word_def by (auto dest: set_takeWhileD)
  have wne: "l \<noteq> [] \<Longrightarrow> word \<noteq> []" using assms(2) unfolding word_def by (cases l) auto
  have rest: "rest \<noteq> [] \<Longrightarrow> is_blank (hd rest)"
    unfolding rest_def word_def dropWhile_eq_drop [symmetric] using hd_dropWhile [of "\<lambda>c. \<not> is_blank c" l] by blast
  have r: "rstrip l = word @ (if list_all is_blank rest then [] else rstrip rest)"
  proof (cases "word = []")
    case True
    then have "l = []" using wne by blast
    with True show ?thesis by (simp add: rstrip_def rest_def)
  next
    case False
    then have "rstrip word = word" using word by (intro rstrip_no_blank) auto
    then show ?thesis unfolding l by (simp add: rstrip_append)
  qed
  show "rstrip l = [] \<longleftrightarrow> l = []" using r wne by (auto simp: rstrip_def)
  have tail: "rest = [] \<or> (\<exists>b bs. rest = b # bs \<and> is_blank b)" using rest by (cases rest) auto
  have strip_hd: "\<not> list_all is_blank rest \<Longrightarrow> rstrip rest \<noteq> [] \<and> is_blank (hd (rstrip rest))"
  proof -
    assume nb: "\<not> list_all is_blank rest"
    with tail obtain b bs where b: "rest = [b] @ bs" "is_blank b" "\<not> list_all is_blank bs" by auto
    then have "rstrip rest = b # rstrip bs" by (simp only: rstrip_append) simp
    with b show ?thesis by simp
  qed
  show "takeWhile (\<lambda>c. \<not> is_blank c) (rstrip l) = word"
  proof (cases "list_all is_blank rest")
    case True
    then show ?thesis using r word by simp
  next
    case False
    obtain b bs where "rstrip rest = b # bs" "is_blank b" using strip_hd [OF False] by (cases "rstrip rest") auto
    then show ?thesis using r False takeWhile_append_stop [of word "\<lambda>c. \<not> is_blank c" b bs] word by simp
  qed
  show "dropWhile is_blank (drop (length word) (rstrip l)) = rstrip (dropWhile is_blank (drop (length word) l))"
  proof (cases "list_all is_blank rest")
    case True
    then have d: "dropWhile is_blank rest = []" by (simp add: list_all_iff)
    have "drop (length word) (rstrip l) = []" using r True by simp
    then show ?thesis unfolding rest_def [symmetric] d by (simp add: rstrip_def)
  next
    case False
    define bl where "bl = takeWhile is_blank rest"
    define re where "re = dropWhile is_blank rest"
    have e: "rest = bl @ re" by (simp add: bl_def re_def)
    have "list_all is_blank bl" unfolding bl_def list_all_iff by (auto dest: set_takeWhileD)
    with False e have nre: "\<not> list_all is_blank re" by simp
    then have rr: "rstrip rest = bl @ rstrip re" unfolding e by (simp add: rstrip_append)
    have "re \<noteq> []" using nre by auto
    then have "re \<noteq> []" "\<not> is_blank (hd re)" using hd_dropWhile [of is_blank rest] unfolding re_def by blast+
    then obtain c cs where c: "re = [c] @ cs" "\<not> is_blank c" by (cases re) auto
    then have "rstrip re = c # (if list_all is_blank cs then [] else rstrip cs)" by (simp only: rstrip_append) (simp add: rstrip_def)
    then have "dropWhile is_blank (bl @ rstrip re) = rstrip re"
      using \<open>list_all is_blank bl\<close> c by (simp add: list_all_iff)
    then show ?thesis using r False rr unfolding rest_def [symmetric] re_def [symmetric] by simp
  qed
qed

lemma blank_not_eol: "is_blank c \<Longrightarrow> \<not> is_eol c"
  by (auto simp: is_blank_def is_eol_def)

text \<open>
  C31: a script is read as the kernel reads it. For a file whose first bytes, as many as the buffer holds, contain no NUL and a
  first line that ends among them and has no carriage return, the interpreter and the argument are those that the
  kernel takes; a line that the kernel refuses gives an empty name, which is refused with the same error. The
  conditions are needed: a carriage return ends the line here and belongs to it for the kernel.
\<close>

theorem shebang_as_kernel:
  assumes "length buf \<le> BINPRM_BUF_SIZE" "CHR 0x0A \<in> set (drop 2 buf)"
    and "CHR 0x0D \<notin> set (takeWhile (\<lambda>c. c \<noteq> CHR 0x0A) (drop 2 buf))" "NUL \<notin> set buf"
  shows "case kernel_script buf of
      Inl e \<Rightarrow> parse_shebang buf = Some ([], []) \<and> translate_and_check_exec E [] t w = (Inl e, t, w)
    | Inr r \<Rightarrow> parse_shebang buf = r"
proof (cases "length buf < 2 \<or> take 2 buf \<noteq> ''#!''")
  case True
  then show ?thesis by (simp add: kernel_script_def parse_shebang_def)
next
  case False
  define line where "line = takeWhile (\<lambda>c. c \<noteq> CHR 0x0A) (drop 2 buf)"
  define l where "l = dropWhile is_blank line"
  define s where "s = dropWhile is_blank (drop 2 buf)"
  let ?noteol = "\<lambda>c. \<not> is_eol c" and ?nb = "\<lambda>c. \<not> is_blank c"
  let ?word = "takeWhile ?nb l"
  have line: "line = takeWhile ?noteol (drop 2 buf)"
    unfolding line_def by (rule takeWhile_stricter [OF assms(3)])
  have l: "l = takeWhile ?noteol s" unfolding l_def line s_def using blank_not_eol by (rule dropWhile_takeWhile)
  have noeol: "\<forall>c \<in> set l. ?noteol c" unfolding l by (auto dest: set_takeWhileD)
  have hd: "l \<noteq> [] \<longrightarrow> \<not> is_blank (hd l)" unfolding l_def using hd_dropWhile by blast
  note parts = line_parts [OF noeol hd]
  have user: "takeWhile (\<lambda>c. ?nb c \<and> ?noteol c) s = ?word" unfolding l takeWhile_cut ..
  have short: "length ?word \<le> PATH_MAX - 1"
  proof -
    have "length ?word \<le> length s" unfolding user [symmetric] by (rule length_takeWhile_le)
    also have "\<dots> \<le> length (drop 2 buf)" unfolding s_def by (rule length_dropWhile_le)
    finally show ?thesis using assms(1) by (simp add: BINPRM_BUF_SIZE_def PATH_MAX_def)
  qed
  let ?rest = "drop (length ?word) s"
  have rest: "takeWhile ?noteol ?rest = drop (length ?word) l"
    using drop_word [of "\<lambda>c. ?nb c \<and> ?noteol c" ?noteol s] unfolding user l [symmetric] by simp
  have argument: "shebang_argument ?rest = rstrip (dropWhile is_blank (drop (length ?word) l))"
  proof -
    have "length (dropWhile is_blank (drop (length ?word) l)) \<le> length buf - 2"
    proof -
      have "length (dropWhile is_blank (drop (length ?word) l)) \<le> length l" by (rule order_trans [OF length_dropWhile_le]) simp
      also have "\<dots> \<le> length (drop 2 buf)" unfolding l s_def by (rule order_trans [OF length_takeWhile_le length_dropWhile_le])
      finally show ?thesis by simp
    qed
    then have "length (dropWhile is_blank (drop (length ?word) l)) \<le> BINPRM_BUF_SIZE - 1" using assms(1) by simp
    moreover have "takeWhile ?noteol (dropWhile is_blank ?rest) = dropWhile is_blank (drop (length ?word) l)"
      unfolding rest [symmetric] using blank_not_eol by (rule dropWhile_takeWhile [symmetric])
    ultimately show ?thesis by (simp add: shebang_argument_def rstrip_def)
  qed
  have ends: "?rest = [] \<or> is_eol (hd ?rest) \<longleftrightarrow> drop (length ?word) l = []"
    unfolding rest [symmetric] by (cases ?rest) auto
  have nul: "NUL \<notin> set l" "set (rstrip (dropWhile is_blank (drop (length ?word) l))) \<subseteq> set l"
  proof -
    show "NUL \<notin> set l" unfolding l s_def using assms(4) by (auto dest!: set_takeWhileD set_dropWhileD in_set_dropD)
    show "set (rstrip (dropWhile is_blank (drop (length ?word) l))) \<subseteq> set l"
      using rstrip_subset by (meson in_set_dropD set_dropWhileD subset_iff)
  qed
  have cs: "c_str ?word = ?word" by (rule c_str_part [OF nul(1)]) (auto dest: set_takeWhileD)
  have ca: "c_str (rstrip (dropWhile is_blank (drop (length ?word) l))) = rstrip (dropWhile is_blank (drop (length ?word) l))"
    by (rule c_str_part [OF nul])
  have t: "take (PATH_MAX - 1) ?word = ?word" using short by simp
  have parse: "parse_shebang buf = Some (c_str ?word, if ?rest = [] \<or> is_eol (hd ?rest) then [] else c_str (shebang_argument ?rest))"
    unfolding parse_shebang_def Let_def s_def [symmetric] user t if_not_P [OF False] by (rule refl)
  have p: "parse_shebang buf = Some (?word, rstrip (dropWhile is_blank (drop (length ?word) l)))"
    unfolding parse ends cs argument ca by (simp add: rstrip_def)
  have trim: "trim line = rstrip l" by (simp add: trim_def rstrip_def l_def)
  show ?thesis
  proof (cases "l = []")
    case True
    then have "kernel_script buf = Inl ENOEXEC" using False trim parts(3) by (simp add: kernel_script_def line_def [symmetric])
    with p True show ?thesis by (simp add: rstrip_def translate_and_check_exec_def)
  next
    case no: False
    then have "kernel_script buf = Inr (Some (?word, rstrip (dropWhile is_blank (drop (length ?word) l))))"
      using False trim parts by (simp add: kernel_script_def line_def [symmetric] Let_def)
    with p show ?thesis by simp
  qed
qed

text \<open>The script \<^verbatim>\<open>#! /bin/sh  -e \<close>, followed by a line of its text.\<close>

definition demo_script :: string where
  "demo_script = ''#! /bin/sh  -e '' @ [CHR 0x0A] @ ''ls''"

theorem shebang_as_kernel_witness:
  "kernel_script demo_script = Inr (Some (''/bin/sh'', ''-e'')) \<and> parse_shebang demo_script = Some (''/bin/sh'', ''-e'')"
proof -
  have k: "kernel_script demo_script = Inr (Some (''/bin/sh'', ''-e''))"
    by (simp add: kernel_script_def demo_script_def trim_def is_blank_def)
  have d: "length demo_script \<le> BINPRM_BUF_SIZE" "CHR 0x0A \<in> set (drop 2 demo_script)"
    "CHR 0x0D \<notin> set (takeWhile (\<lambda>c. c \<noteq> CHR 0x0A) (drop 2 demo_script))" "NUL \<notin> set demo_script"
    by (simp_all add: demo_script_def BINPRM_BUF_SIZE_def)
  from shebang_as_kernel [OF d, of undefined undefined undefined] k show ?thesis by simp
qed

section \<open>The arguments\<close>

definition new_entry :: "byte list \<Rightarrow> xpointer" where
  "new_entry s = \<lparr>remote = 0, local = Some s\<rparr>"

text \<open>The arguments that a chain of interpreters gets before those of the script: each interpreter with its argument,
  the last one first, then the script.\<close>

fun chain_args :: "string \<Rightarrow> (string \<times> string) list \<Rightarrow> byte list list" where
  "chain_args user [] = [bytes_of user]"
| "chain_args user ((interpreter, argument) # cs) =
     chain_args interpreter cs @ (if argument = [] then [] else [bytes_of argument]) @ [bytes_of user]"

text \<open>The chain of interpreters that begins at a program: each is a program that can be executed, and each but the
  last is a script that names the next one.\<close>

inductive runs_chain ::
  "'w exec_env \<Rightarrow> string \<Rightarrow> tracee \<Rightarrow> 'w \<Rightarrow> (string \<times> string) list \<Rightarrow> string \<times> string \<Rightarrow> tracee \<times> 'w \<Rightarrow> bool" for E where
  program: "runs_chain E user t w [] (target, user) (t', w')"
    if "translate_and_check_exec E user t w = (Inr target, t', w')" "extract_shebang E target w' = Inr None"
| script: "runs_chain E user t w ((interpreter, argument) # cs) r s"
    if "translate_and_check_exec E user t w = (Inr target, t1, w1)"
      "extract_shebang E target w1 = Inr (Some (interpreter, argument))"
      "translate_and_check_exec E interpreter t1 w1 = (Inr target', t2, w2)"
      "runs_chain E interpreter t2 w2 cs r s"

lemma put_interpreter_new:
  "put_interpreter interpreter argument user (x # xs) =
     Inr (map new_entry (bytes_of interpreter # (if argument = [] then [] else [bytes_of argument]) @ [bytes_of user]) @ xs)"
  by (simp add: put_interpreter_def interpreter_args_def resize_array_of_xpointers_def write_xpointee_as_string_def
      null_xpointer_def new_entry_def numeral_2_eq_2)

text \<open>The loop follows a chain of interpreters, within its bound, and builds their arguments.\<close>

lemma shebang_loop_chain:
  assumes "shebang_loop E (Inr (x # xs)) n user argv t w = (Inr (target, u, argv'), t', w')"
    and "argv = None \<or> argv = Some (y # ys)"
  shows "\<exists>cs. runs_chain E user t w cs (target, u) (t', w') \<and> length cs < n \<and>
    (cs = [] \<longrightarrow> argv' = argv) \<and>
    (cs \<noteq> [] \<longrightarrow> argv' = Some (map new_entry (chain_args user cs) @ (if argv = None then xs else ys)))"
  using assms
proof (induction n arbitrary: user argv t w y ys)
  case (Suc n)
  from Suc.prems(1) obtain h t1 w1 where c: "translate_and_check_exec E user t w = (Inr h, t1, w1)"
    by (auto split: prod.splits sum.splits)
  from Suc.prems(1) c obtain sb where sb: "extract_shebang E h w1 = Inr sb" by (auto split: sum.splits)
  show ?case
  proof (cases sb)
    case None
    with Suc.prems(1) c sb have "target = h" "u = user" "argv' = argv" "t' = t1" "w' = w1" by auto
    with runs_chain.program [OF c] sb None show ?thesis by (intro exI [of _ "[]"]) simp
  next
    case (Some ia)
    obtain i a where ia: "ia = (i, a)" by force
    from Suc.prems(1) c sb Some ia obtain h2 t2 w2 where c2: "translate_and_check_exec E i t1 w1 = (Inr h2, t2, w2)"
      by (auto split: prod.splits sum.splits)
    let ?old = "if argv = None then xs else ys"
    let ?new = "map new_entry (bytes_of i # (if a = [] then [] else [bytes_of a]) @ [bytes_of user])"
    have put: "\<exists>z. (case argv of None \<Rightarrow> Inr (x # xs) | Some a \<Rightarrow> Inr a) = Inr (z # ?old)" using Suc.prems(2) by (cases argv) auto
    then have loop: "shebang_loop E (Inr (x # xs)) n i (Some (?new @ ?old)) t2 w2 = (Inr (target, u, argv'), t', w')"
      using Suc.prems(1) c sb Some ia c2 by (auto simp: put_interpreter_new)
    obtain z zs where z: "?new = z # zs" "zs = map new_entry ((if a = [] then [] else [bytes_of a]) @ [bytes_of user])" "z = new_entry (bytes_of i)"
      by simp
    have "\<exists>cs. runs_chain E i t2 w2 cs (target, u) (t', w') \<and> length cs < n \<and>
        (cs = [] \<longrightarrow> argv' = Some (?new @ ?old)) \<and> (cs \<noteq> [] \<longrightarrow> argv' = Some (map new_entry (chain_args i cs) @ (zs @ ?old)))"
      using Suc.IH [OF loop, of z "zs @ ?old"] z by simp
    then obtain cs where cs: "runs_chain E i t2 w2 cs (target, u) (t', w')" "length cs < n"
      "cs = [] \<longrightarrow> argv' = Some (?new @ ?old)" "cs \<noteq> [] \<longrightarrow> argv' = Some (map new_entry (chain_args i cs) @ zs @ ?old)" by blast
    have "runs_chain E user t w ((i, a) # cs) (target, u) (t', w')"
      using runs_chain.script [OF c _ c2 cs(1)] sb Some ia by simp
    moreover have "argv' = Some (map new_entry (chain_args user ((i, a) # cs)) @ ?old)"
      using cs(3,4) z by (cases "cs = []") auto
    ultimately show ?thesis using cs(2) by (intro exI [of _ "(i, a) # cs"]) simp
  qed
qed simp

lemma c_str_length: "length (c_str s) \<le> length s"
  by (simp add: c_str_def length_takeWhile_le)

lemma parse_parts:
  assumes "parse_shebang buf = Some (i, a)" "length buf \<le> BINPRM_BUF_SIZE"
  shows "NUL \<notin> set i" "NUL \<notin> set a" "length i \<le> PATH_MAX" "length a \<le> PATH_MAX"
proof -
  let ?s = "dropWhile is_blank (drop 2 buf)"
  obtain v r where p: "i = c_str (take (PATH_MAX - 1) v)" "a = [] \<or> a = c_str (shebang_argument r)"
    using assms(1) by (auto simp: parse_shebang_def Let_def split: if_split_asm)
  show "NUL \<notin> set i" "NUL \<notin> set a" using p by auto
  show "length i \<le> PATH_MAX" unfolding p(1) by (rule order_trans [OF c_str_length]) simp
  have "length (shebang_argument r) \<le> BINPRM_BUF_SIZE - 1"
    unfolding shebang_argument_def by (simp, rule order_trans [OF length_dropWhile_le]) simp
  then show "length a \<le> PATH_MAX"
    using p(2) c_str_length [of "shebang_argument r"] by (auto simp: BINPRM_BUF_SIZE_def PATH_MAX_def)
qed

lemma extract_parts:
  assumes "extract_shebang E h w = Inr (Some (i, a))"
  shows "NUL \<notin> set i" "NUL \<notin> set a" "length i \<le> PATH_MAX" "length a \<le> PATH_MAX"
proof -
  obtain buf where b: "parse_shebang (take BINPRM_BUF_SIZE buf) = Some (i, a)"
    using assms by (auto simp: extract_shebang_def split: sum.splits)
  have l: "length (take BINPRM_BUF_SIZE buf) \<le> BINPRM_BUF_SIZE" by simp
  show "NUL \<notin> set i" "NUL \<notin> set a" "length i \<le> PATH_MAX" "length a \<le> PATH_MAX" by (rule parse_parts [OF b l])+
qed

definition fits :: "byte list \<Rightarrow> bool" where
  "fits s \<longleftrightarrow> 0 \<notin> set s \<and> length s + 1 < VM_FAST_THRESHOLD"

lemma fits_string: "NUL \<notin> set s \<Longrightarrow> length s \<le> PATH_MAX \<Longrightarrow> fits (bytes_of s)"
  by (simp add: fits_def bytes_of_zero PATH_MAX_def VM_FAST_THRESHOLD_def) (simp add: bytes_of_def)

lemma chain_fits: "runs_chain E user t w cs r s \<Longrightarrow> NUL \<notin> set user \<Longrightarrow> length user \<le> PATH_MAX \<Longrightarrow> \<forall>b \<in> set (chain_args user cs). fits b"
proof (induction rule: runs_chain.induct)
  case (script user t w target t1 w1 interpreter argument target' t2 w2 cs r s)
  note p = extract_parts [OF script.hyps(2)]
  have "fits (bytes_of user)" "fits (bytes_of argument)" using script.prems p by (simp_all add: fits_string)
  with script.IH [OF p(1,3)] show ?case by auto
qed (simp add: fits_string)

lemma chain_length: "length (chain_args user cs) \<le> 2 * length cs + 1"
  by (induction user cs rule: chain_args.induct) auto

lemma fetched_words:
  assumes "fetch_from m 0 i n a = Inr xs"
  shows "\<exists>ws. xs = map (\<lambda>w. \<lparr>remote = w, local = None\<rparr>) (ws @ [0]) \<and> 0 \<notin> set ws"
  using assms
proof (induction n arbitrary: i a xs)
  case (Suc n)
  from Suc.prems obtain p where p: "peek_word m a = Inr p" by (auto split: sum.splits)
  show ?case
  proof (cases "p = 0")
    case True
    with Suc.prems p show ?thesis by (intro exI [of _ "[]"]) simp
  next
    case False
    with Suc.prems p obtain ys where "fetch_from m 0 (i + 1) n (a + 8) = Inr ys" "xs = \<lparr>remote = p, local = None\<rparr> # ys"
      by (auto simp: Let_def split: sum.splits)
    with Suc.IH obtain ws where "xs = map (\<lambda>w. \<lparr>remote = w, local = None\<rparr>) ((p # ws) @ [0])" "0 \<notin> set ws" by force
    with False show ?thesis by (intro exI [of _ "p # ws"]) auto
  qed
qed simp

lemma new_vector:
  fixes ws :: "word_t list"
  assumes "\<forall>b \<in> set bs. fits b" "bs \<noteq> []"
  defines "arr \<equiv> map new_entry bs @ map (\<lambda>w. \<lparr>remote = w, local = None\<rparr>) (ws @ [0])"
  assumes "0 \<notin> set ws"
  shows "is_vector arr" "list_ex is_new arr" "short_strings arr"
proof -
  have "arr = (map new_entry bs @ map (\<lambda>w. \<lparr>remote = w, local = None\<rparr>) ws) @ [null_xpointer]" by (simp add: arr_def null_xpointer_def)
  moreover have "\<forall>x \<in> set (map new_entry bs @ map (\<lambda>w. \<lparr>remote = w, local = None\<rparr>) ws). remote x \<noteq> 0 \<or> local x \<noteq> None"
    using assms(4) by (auto simp: new_entry_def)
  ultimately show "is_vector arr" unfolding is_vector_def by blast
  show "list_ex is_new arr" using assms(2) by (cases bs) (simp_all add: arr_def new_entry_def is_new_def)
  show "short_strings arr" using assms(1) by (auto simp: arr_def short_strings_def new_entry_def is_new_def fits_def)
qed

text \<open>
  C32: a script is run by its interpreter with the arguments the kernel would give it. When \<open>expand_shebang\<close> finds that
  the program is a script, there is a chain of interpreters, shorter than the limit, that leads from it to a
  program that is none; the vector of arguments in the memory of the tracee then begins with the last interpreter
  and goes back along the chain, each with its argument if it has one, down to the script; after it come the
  arguments the caller gave, without their first.
\<close>

theorem script_arguments:
  assumes "expand_shebang E user ft (t, m) w = (Inr (target, u, True), ft', (t', m'), w')"
    and "fetch_array_of_xpointers SYSARG_2 0 t m = Inr (x # y # rest)"
    and "NUL \<notin> set user" "length user < PATH_MAX" "length rest + 2 * max_symlinks (fs (paths E)) + 4 < FETCH_MAX"
  shows "\<exists>cs ys. runs_chain E user ft w cs (target, u) (ft', w') \<and> cs \<noteq> [] \<and> length cs < max_symlinks (fs (paths E)) \<and>
    fetch_array_of_xpointers SYSARG_2 0 t' m' = Inr ys \<and>
    (\<forall>i < length (chain_args user cs). \<exists>zs. read_xpointee_as_string m' ys i = Inr (Some (chain_args user cs ! i), zs)) \<and>
    map remote (drop (length (chain_args user cs)) ys) = map remote (y # rest)"
proof -
  let ?max = "max_symlinks (fs (paths E))"
  from assms(1,2) obtain argv where l: "shebang_loop E (Inr (x # y # rest)) ?max user None ft w = (Inr (target, u, Some argv), ft', w')"
    and p: "push_array_of_xpointers SYSARG_2 argv (t, m) = Inr (None, t', m')"
    by (auto simp: expand_shebang_def split: prod.splits sum.splits option.splits)
  from shebang_loop_chain [OF l, of undefined undefined] obtain cs where cs: "runs_chain E user ft w cs (target, u) (ft', w')"
    "length cs < ?max" "cs \<noteq> []" "argv = map new_entry (chain_args user cs) @ y # rest"
    by (auto simp: neq_Nil_conv)
  let ?bs = "chain_args user cs"
  have fit: "\<forall>b \<in> set ?bs. fits b" by (rule chain_fits [OF cs(1)]) (use assms(3,4) in simp_all)
  have ne: "?bs \<noteq> []" by (cases cs) auto
  obtain vs where vs: "x # y # rest = map (\<lambda>w. \<lparr>remote = w, local = None\<rparr>) (vs @ [0])" "0 \<notin> set vs"
    using fetched_words assms(2) unfolding fetch_array_of_xpointers_def by meson
  then obtain v ws where "vs = v # ws" by (cases vs) auto
  with vs have ws: "y # rest = map (\<lambda>w. \<lparr>remote = w, local = None\<rparr>) (ws @ [0])" "0 \<notin> set ws" by auto
  note arr = new_vector [OF fit ne ws(2), folded ws(1), folded cs(4)]
  have len: "length argv < FETCH_MAX" using chain_length [of user cs] cs(2,4) assms(5) by simp
  from vector_roundtrip_fact [OF p arr len] obtain ys where ys: "fetch_array_of_xpointers SYSARG_2 0 t' m' = Inr ys" "length ys = length argv"
    "\<forall>i < length argv. if is_new (argv ! i) then (\<exists>zs. read_xpointee_as_string m' ys i = Inr (local (argv ! i), zs)) else remote (ys ! i) = remote (argv ! i)"
    by blast
  have news: "\<exists>zs. read_xpointee_as_string m' ys i = Inr (Some (?bs ! i), zs)" if "i < length ?bs" for i
  proof -
    have "argv ! i = new_entry (?bs ! i)" "i < length argv" using that by (simp_all add: cs(4) nth_append)
    with ys(3) show ?thesis by (force simp: new_entry_def is_new_def)
  qed
  have olds: "map remote (drop (length ?bs) ys) = map remote (y # rest)"
  proof (rule nth_equalityI)
    show "length (map remote (drop (length ?bs) ys)) = length (map remote (y # rest))" using ys(2) by (simp add: cs(4))
    fix i assume i: "i < length (map remote (drop (length ?bs) ys))"
    then have a: "argv ! (length ?bs + i) = (y # rest) ! i" "length ?bs + i < length argv" "i < length (y # rest)"
      using ys(2) by (simp_all add: cs(4) nth_append)
    then have "\<not> is_new (argv ! (length ?bs + i))" unfolding a(1) ws(1) by (auto simp: is_new_def nth_append)
    with ys(3) a have "remote (ys ! (length ?bs + i)) = remote ((y # rest) ! i)" by (metis (full_types))
    then show "map remote (drop (length ?bs) ys) ! i = map remote (y # rest) ! i"
      unfolding nth_map [OF a(3)] using i by simp
  qed
  show ?thesis using cs(1-3) ys(1) news olds by blast
qed

text \<open>The descriptor 3 is a script for the descriptor 4; the caller gives one argument.\<close>

definition script_env :: "unit exec_env" where
  "script_env = \<lparr>paths = plain_tr, k_access = (\<lambda>_ _. None),
     k_head = (\<lambda>h _. Inr (if h = ''/proc/1/fd/3'' then ''#!/proc/self/fd/4'' @ [CHR 0x0A] else ''x''))\<rparr>"

lemma script_checks:
  "translate_and_check_exec script_env ''/proc/self/fd/3'' empty_table () = (Inr ''/proc/1/fd/3'', empty_table, ())"
  "translate_and_check_exec script_env ''/proc/self/fd/4'' empty_table () = (Inr ''/proc/1/fd/4'', empty_table, ())"
  by (simp_all add: translate_and_check_exec_def translate_procfd_exec_def check_exec_def script_env_def plain_tr_def
      plain_env_def empty_table_def decimal_int_def decimal.simps is_digit_def PATH_MAX_def char_of_def bit_0)

lemma script_heads:
  "extract_shebang script_env ''/proc/1/fd/3'' () = Inr (Some (''/proc/self/fd/4'', []))"
  "extract_shebang script_env ''/proc/1/fd/4'' () = Inr None"
  by (simp_all add: extract_shebang_def script_env_def parse_shebang_def BINPRM_BUF_SIZE_def PATH_MAX_def is_blank_def
      is_eol_def c_str_def)

definition argv_memory :: memory where
  "argv_memory = poke_bytes (\<lambda>_. Some 7) 4096 (concat (map word_bytes ([8] @ [0])))"

lemma argv_fetched: "fetch_array_of_xpointers SYSARG_2 0 stack_thread argv_memory = Inr [\<lparr>remote = 8, local = None\<rparr>, null_xpointer]"
proof -
  have "holds argv_memory 4096 (concat (map word_bytes ([8] @ [0])))" unfolding argv_memory_def by (rule poked_holds) simp
  from fetch_held [OF this, of FETCH_MAX 0] show ?thesis
    by (simp add: fetch_array_of_xpointers_def stack_thread_def peek_reg_def null_xpointer_def FETCH_MAX_def)
qed

theorem script_arguments_witness:
  "\<exists>t' m' ys zs. expand_shebang script_env ''/proc/self/fd/3'' empty_table (stack_thread, argv_memory) () =
       (Inr (''/proc/1/fd/4'', ''/proc/self/fd/4'', True), empty_table, (t', m'), ()) \<and>
     fetch_array_of_xpointers SYSARG_2 0 t' m' = Inr ys \<and>
     read_xpointee_as_string m' ys 0 = Inr (Some (bytes_of ''/proc/self/fd/4''), zs)"
proof -
  let ?arr = "[new_entry (bytes_of ''/proc/self/fd/4''), new_entry (bytes_of ''/proc/self/fd/3''), null_xpointer]"
  have max: "max_symlinks (fs (paths script_env)) = 40" by (simp add: script_env_def plain_tr_def plain_env_def)
  have "\<exists>n. (40 :: nat) = Suc (Suc n)" by (rule exI [of _ 38]) simp
  then obtain n where "(40 :: nat) = Suc (Suc n)" ..
  with max have n: "max_symlinks (fs (paths script_env)) = Suc (Suc n)" by (rule trans)
  have loop: "shebang_loop script_env (Inr [\<lparr>remote = 8, local = None\<rparr>, null_xpointer]) (max_symlinks (fs (paths script_env))) ''/proc/self/fd/3'' None empty_table () =
      (Inr (''/proc/1/fd/4'', ''/proc/self/fd/4'', Some ?arr), empty_table, ())"
    unfolding n by (simp add: script_checks script_heads put_interpreter_new)
  have total: "total_memory argv_memory" unfolding argv_memory_def by (rule total_poke) (simp add: total_memory_def)
  have s: "sum_list (map length (new_strings ?arr)) = 32"
    by (simp add: new_strings_def new_entry_def is_new_def null_xpointer_def bytes_of_def)
  have a: "alloc_mem (8 * length ?arr + sum_list (map length (new_strings ?arr))) stack_thread =
      Inr (3912, poke_reg STACK_POINTER 3912 stack_thread)"
    unfolding s by (simp add: alloc_mem_def stack_thread_def peek_reg_def RED_ZONE_def)
  obtain m' where w: "writev_data argv_memory 3912 (concat (map word_bytes (map remote (place_strings (3912 + of_nat (8 * length ?arr)) ?arr))) # new_strings ?arr) = (None, m')"
    using total_writev [OF total] by blast
  let ?t = "poke_reg SYSARG_2 3912 (poke_reg STACK_POINTER 3912 stack_thread)"
  have p: "push_array_of_xpointers SYSARG_2 ?arr (stack_thread, argv_memory) = Inr (None, ?t, m')"
    unfolding push_array_of_xpointers_def Let_def prod.case a sum.case w option.case by (simp add: new_entry_def is_new_def)
  have x: "expand_shebang script_env ''/proc/self/fd/3'' empty_table (stack_thread, argv_memory) () =
      (Inr (''/proc/1/fd/4'', ''/proc/self/fd/4'', True), empty_table, (?t, m'), ())"
    unfolding expand_shebang_def fst_conv snd_conv argv_fetched loop by (simp add: p)
  from script_arguments [OF x argv_fetched] obtain cs ys where ys: "cs \<noteq> []"
    "runs_chain script_env ''/proc/self/fd/3'' empty_table () cs (''/proc/1/fd/4'', ''/proc/self/fd/4'') (empty_table, ())"
    "fetch_array_of_xpointers SYSARG_2 0 ?t m' = Inr ys"
    "\<forall>i < length (chain_args ''/proc/self/fd/3'' cs). \<exists>zs. read_xpointee_as_string m' ys i = Inr (Some (chain_args ''/proc/self/fd/3'' cs ! i), zs)"
    by (auto simp: max FETCH_MAX_def PATH_MAX_def)
  have one: "cs' = []" if "runs_chain script_env ''/proc/self/fd/4'' t2 w2 cs' r s" "t2 = empty_table" for t2 w2 cs' r s
    using that by cases (auto simp: script_checks script_heads)
  from ys(2) have "cs = [(''/proc/self/fd/4'', [])]"
  proof cases
    case program
    with ys(1) show ?thesis by blast
  next
    case (script h t1 w1 i a h' t2 w2 cs')
    have h: "h = ''/proc/1/fd/3''" "t1 = empty_table" using script(2) by (simp_all only: script_checks prod.inject sum.inject)
    have u: "w1 = ()" "w2 = ()" by simp_all
    have i: "i = ''/proc/self/fd/4''" "a = []" using script(3) unfolding h u by (simp_all only: script_heads option.inject prod.inject sum.inject)
    have "t2 = empty_table" using script(4) unfolding i h u by (simp only: script_checks prod.inject)
    then have "cs' = []" using one script(5) unfolding i by blast
    then show ?thesis using script(1) unfolding i by (simp only:)
  qed
  then have "chain_args ''/proc/self/fd/3'' cs = [bytes_of ''/proc/self/fd/4'', bytes_of ''/proc/self/fd/3'']"
    by (simp only: chain_args.simps) simp
  with ys(4) have "\<exists>zs. read_xpointee_as_string m' ys 0 = Inr (Some (bytes_of ''/proc/self/fd/4''), zs)"
    by (metis length_Cons nth_Cons_0 zero_less_Suc)
  with x ys(3) show ?thesis by blast
qed

text \<open>A caller that gives no arguments at all loses the end of the vector: the script takes its place.\<close>

theorem empty_vector_overwritten:
  "put_interpreter interpreter argument user [null_xpointer] =
     Inr (map new_entry (bytes_of interpreter # (if argument = [] then [] else [bytes_of argument]) @ [bytes_of user]))"
  by (simp add: put_interpreter_new)

end
