(* ===== verification/Elf.thy ===== *)
theory Elf
  imports Shebang
begin

text \<open>
  The headers of an ELF file (\<^verbatim>\<open>src/execve/elf.h\<close>, \<^verbatim>\<open>src/execve/elf.c\<close>): a file is opened and checked, its program
  headers are walked, and a program for the machine of the tracer is told from one for another machine.
\<close>

section \<open>The structures\<close>

type_synonym u16 = "16 word"

record elf_header =
  e_ident :: "byte list"
  e_type :: u16
  e_machine :: u16
  e_version :: u32
  e_entry :: word_t
  e_phoff :: word_t
  e_shoff :: word_t
  e_flags :: u32
  e_ehsize :: u16
  e_phentsize :: u16
  e_phnum :: u16
  e_shentsize :: u16
  e_shnum :: u16
  e_shstrndx :: u16

record program_header =
  p_type :: u32
  p_flags :: u32
  p_offset :: word_t
  p_vaddr :: word_t
  p_paddr :: word_t
  p_filesz :: word_t
  p_memsz :: word_t
  p_align :: word_t

definition SIZEOF_ELF_HEADER :: nat where "SIZEOF_ELF_HEADER = 64"
definition SIZEOF_PROGRAM_HEADER :: nat where "SIZEOF_PROGRAM_HEADER = 56"

definition ET_EXEC :: u16 where "ET_EXEC = 2"
definition ET_DYN :: u16 where "ET_DYN = 3"
definition PF_X :: u32 where "PF_X = 1"
definition PF_W :: u32 where "PF_W = 2"
definition PF_R :: u32 where "PF_R = 4"
definition PT_LOAD :: u32 where "PT_LOAD = 1"
definition PT_DYNAMIC :: u32 where "PT_DYNAMIC = 2"
definition PT_INTERP :: u32 where "PT_INTERP = 3"
definition PT_GNU_STACK :: u32 where "PT_GNU_STACK = 0x6474e551"

text \<open>The field of \<open>n\<close> bytes at offset \<open>i\<close> of the bytes that were read.\<close>

definition field :: "byte list \<Rightarrow> nat \<Rightarrow> nat \<Rightarrow> 'a :: len word" where
  "field bs i n = of_nat (le_value (take n (drop i bs)))"

definition elf_header_of :: "byte list \<Rightarrow> elf_header" where
  "elf_header_of bs =
     \<lparr>e_ident = take 16 bs, e_type = field bs 16 2, e_machine = field bs 18 2, e_version = field bs 20 4,
      e_entry = field bs 24 8, e_phoff = field bs 32 8, e_shoff = field bs 40 8, e_flags = field bs 48 4,
      e_ehsize = field bs 52 2, e_phentsize = field bs 54 2, e_phnum = field bs 56 2, e_shentsize = field bs 58 2,
      e_shnum = field bs 60 2, e_shstrndx = field bs 62 2\<rparr>"

definition program_header_of :: "byte list \<Rightarrow> program_header" where
  "program_header_of bs =
     \<lparr>p_type = field bs 0 4, p_flags = field bs 4 4, p_offset = field bs 8 8, p_vaddr = field bs 16 8,
      p_paddr = field bs 24 8, p_filesz = field bs 32 8, p_memsz = field bs 40 8, p_align = field bs 48 8\<rparr>"

definition position_independent :: "elf_header \<Rightarrow> bool" where
  "position_independent h \<longleftrightarrow> e_type h = ET_DYN"

section \<open>Opening\<close>

text \<open>An open file: its bytes, or the error of every read. \<open>k_open\<close> is \<open>open(2)\<close> for reading; \<open>seek_limit\<close> is the
  largest offset that \<open>lseek(2)\<close> accepts.\<close>

type_synonym open_file = "byte list res"

record 'w elf_env = "'w exec_env" +
  k_open :: "string \<Rightarrow> 'w \<Rightarrow> open_file res"
  seek_limit :: nat

definition pread :: "open_file \<Rightarrow> nat \<Rightarrow> nat \<Rightarrow> byte list res" where
  "pread f pos n = (case f of Inl e \<Rightarrow> Inl e | Inr bs \<Rightarrow> Inr (take n (drop pos bs)))"

definition check_elf_ident :: "elf_header \<Rightarrow> bool" where
  "check_elf_ident h \<longleftrightarrow> take 4 (e_ident h) = [0x7F, 0x45, 0x4C, 0x46]"

definition is_class64 :: "elf_header \<Rightarrow> bool" where
  "is_class64 h \<longleftrightarrow> e_ident h ! 4 = 2"

definition open_elf :: "('w, 'e) elf_env_scheme \<Rightarrow> string \<Rightarrow> 'w \<Rightarrow> (elf_header \<times> open_file) res" where
  "open_elf E path w =
     (if PATH_MAX \<le> length path then Inl ENAMETOOLONG
      else (case k_open E path w of Inl e \<Rightarrow> Inl e
        | Inr f \<Rightarrow>
           (case pread f 0 SIZEOF_ELF_HEADER of Inl e \<Rightarrow> Inl e
            | Inr bs \<Rightarrow>
               (let h = elf_header_of bs in
                if length bs < SIZEOF_ELF_HEADER then Inl ENOEXEC
                else if \<not> check_elf_ident h \<or> \<not> is_class64 h then Inl ENOEXEC
                else Inr (h, f)))))"

section \<open>Program headers\<close>

text \<open>\<open>n\<close> headers from a position on. The callback returns an error, or whether it wants to see no more; it works on a
  state of its own.\<close>

fun program_headers_from ::
  "open_file \<Rightarrow> (program_header \<Rightarrow> 's \<Rightarrow> bool res \<times> 's) \<Rightarrow> nat \<Rightarrow> nat \<Rightarrow> 's \<Rightarrow> bool res \<times> 's" where
  "program_headers_from f cb pos 0 s = (Inr False, s)"
| "program_headers_from f cb pos (Suc n) s =
     (case pread f pos SIZEOF_PROGRAM_HEADER of
        Inl e \<Rightarrow> (Inl e, s)
      | Inr bs \<Rightarrow>
          (if length bs \<noteq> SIZEOF_PROGRAM_HEADER then (Inl ENOTSUP, s)
           else (case cb (program_header_of bs) s of
               (Inl e, s) \<Rightarrow> (Inl e, s)
             | (Inr True, s) \<Rightarrow> (Inr True, s)
             | (Inr False, s) \<Rightarrow> program_headers_from f cb (pos + SIZEOF_PROGRAM_HEADER) n s)))"

definition iterate_program_headers ::
  "('w, 'e) elf_env_scheme \<Rightarrow> elf_header \<Rightarrow> open_file \<Rightarrow> (program_header \<Rightarrow> 's \<Rightarrow> bool res \<times> 's) \<Rightarrow> 's \<Rightarrow> bool res \<times> 's" where
  "iterate_program_headers E h f cb s =
     (if e_phnum h = 0 \<or> unat (e_phentsize h) \<noteq> SIZEOF_PROGRAM_HEADER then (Inl ENOTSUP, s)
      else if seek_limit E < unat (e_phoff h) then (Inl EINVAL, s)
      else program_headers_from f cb (unat (e_phoff h)) (unat (e_phnum h)) s)"

section \<open>Programs for the machine of the tracer\<close>

definition HOST_ELF_MACHINE :: "u16 list" where "HOST_ELF_MACHINE = [183]"

text \<open>\<open>force\<close> is whether every program is taken for a foreign one. The answer for the last path is remembered.\<close>

definition is_host_elf ::
  "('w, 'e) elf_env_scheme \<Rightarrow> bool \<Rightarrow> bool \<Rightarrow> string \<Rightarrow> 'w \<Rightarrow> string \<times> bool \<Rightarrow> bool \<times> (string \<times> bool)" where
  "is_host_elf E force has_qemu path w cache =
     (if force \<or> \<not> has_qemu then (False, cache)
      else if path = fst cache then (snd cache, cache)
      else
        let kept = take (PATH_MAX - 1) path;
            r = (case open_elf E path w of Inl e \<Rightarrow> False | Inr (h, f) \<Rightarrow> e_machine h \<in> set HOST_ELF_MACHINE)
        in (r, (kept, r)))"

end
