(* ===== verification/Load.thy ===== *)
theory Load
  imports Elf
begin

text \<open>
  What a program needs to be loaded (\<^verbatim>\<open>src/execve/execve.h\<close>, \<^verbatim>\<open>src/execve/enter.c\<close>): the mappings of its segments
  and of those of its interpreter, and the addresses where both are put.
\<close>

section \<open>Mappings\<close>

record mapping =
  m_addr :: word_t
  m_length :: word_t
  m_clear_length :: word_t
  m_prot :: word_t
  m_flags :: word_t
  m_fd :: word_t
  m_offset :: word_t

definition PROT_READ :: word_t where "PROT_READ = 1"
definition PROT_WRITE :: word_t where "PROT_WRITE = 2"
definition PROT_EXEC :: word_t where "PROT_EXEC = 4"
definition MAP_PRIVATE :: word_t where "MAP_PRIVATE = 2"
definition MAP_FIXED :: word_t where "MAP_FIXED = 0x10"
definition MAP_ANONYMOUS :: word_t where "MAP_ANONYMOUS = 0x20"

text \<open>\<open>pg\<close> is the size of a page, a power of two; the mask takes an address to the start of its page.\<close>

definition page_mask :: "word_t \<Rightarrow> word_t" where
  "page_mask pg = NOT (pg - 1)"

definition segment_prot :: "program_header \<Rightarrow> word_t" where
  "segment_prot ph =
     (if p_flags ph AND PF_R \<noteq> 0 then PROT_READ else 0) OR
     (if p_flags ph AND PF_W \<noteq> 0 then PROT_WRITE else 0) OR
     (if p_flags ph AND PF_X \<noteq> 0 then PROT_EXEC else 0)"

text \<open>The mapping of the file, and one of zeros for what follows it in memory.\<close>

definition file_mapping :: "word_t \<Rightarrow> program_header \<Rightarrow> mapping" where
  "file_mapping pg ph =
     (let start = p_vaddr ph AND page_mask pg;
          stop = (p_vaddr ph + p_filesz ph + pg) AND page_mask pg
      in \<lparr>m_addr = start, m_length = stop - start,
          m_clear_length = (if p_filesz ph < p_memsz ph then stop - p_vaddr ph - p_filesz ph else 0),
          m_prot = segment_prot ph, m_flags = MAP_PRIVATE OR MAP_FIXED, m_fd = -1, m_offset = p_offset ph AND page_mask pg\<rparr>)"

definition map_segment :: "word_t \<Rightarrow> program_header \<Rightarrow> mapping list \<Rightarrow> mapping list" where
  "map_segment pg ph ms =
     (let m = file_mapping pg ph;
          new_start = (p_vaddr ph + p_filesz ph + pg) AND page_mask pg;
          new_end = (p_vaddr ph + p_memsz ph + pg) AND page_mask pg
      in if p_filesz ph < p_memsz ph \<and> new_start < new_end then
           ms @ [m, \<lparr>m_addr = new_start, m_length = new_end - new_start, m_clear_length = 0, m_prot = m_prot m,
                     m_flags = MAP_PRIVATE OR MAP_ANONYMOUS OR MAP_FIXED, m_fd = -1, m_offset = 0\<rparr>]
         else ms @ [m])"

section \<open>What is known of a program\<close>

text \<open>\<open>li_interp\<close> are the paths of the interpreter, of the host and of the guest.\<close>

record load_info =
  li_host :: string
  li_user :: string
  li_raw :: "string option"
  mappings :: "mapping list"
  header :: elf_header
  executable_stack :: bool
  li_interp :: "(string \<times> string) option"

definition HOST_ROOTFS :: string where "HOST_ROOTFS = ''/host-rootfs''"

text \<open>The largest block that the allocator gives.\<close>

definition MAX_TALLOC_SIZE :: nat where "MAX_TALLOC_SIZE = 0x10000000"

text \<open>The name of the interpreter is read from the file. A size of \<open>2\<^sup>6\<^sup>4 - 1\<close> passes the test on the number of bytes
  that were read, which is -1, and a byte before the buffer is overwritten.\<close>

definition interp_name :: "open_file \<Rightarrow> program_header \<Rightarrow> string res" where
  "interp_name f ph =
     (let n = unat (p_filesz ph) in
      if n = 2 ^ 64 - 1 then Inl Crash
      else if MAX_TALLOC_SIZE \<le> n + 1 then Inl ENOMEM
      else (case (if 2 ^ 63 \<le> unat (p_offset ph) then Inl EINVAL else pread f (unat (p_offset ph)) n) of
          Inl e \<Rightarrow> Inl EIO
        | Inr bs \<Rightarrow> (if length bs \<noteq> n then Inl EIO else Inr (c_str (string_of bs)))))"

definition add_interp ::
  "('w, 'e) elf_env_scheme \<Rightarrow> bool \<Rightarrow> open_file \<Rightarrow> program_header \<Rightarrow> load_info \<times> tracee \<times> 'w \<Rightarrow> bool res \<times> load_info \<times> tracee \<times> 'w" where
  "add_interp E has_qemu f ph s =
     (let (info, t, w) = s in
      if li_interp info \<noteq> None then (Inl EINVAL, info, t, w)
      else (case interp_name f ph of Inl e \<Rightarrow> (Inl e, info, t, w)
        | Inr name \<Rightarrow>
           (let user = (if has_qemu \<and> c_at name 0 = slash then HOST_ROOTFS @ name else name) in
            (case translate_and_check_exec (exec_env.truncate E) user t w of
               (Inl e, t, w) \<Rightarrow> (Inl e, info, t, w)
             | (Inr target, t, w) \<Rightarrow> (Inr False, info\<lparr>li_interp := Some (target, user)\<rparr>, t, w)))))"

definition ph_callback ::
  "('w, 'e) elf_env_scheme \<Rightarrow> word_t \<Rightarrow> bool \<Rightarrow> open_file \<Rightarrow> program_header \<Rightarrow> load_info \<times> tracee \<times> 'w \<Rightarrow>
     bool res \<times> load_info \<times> tracee \<times> 'w" where
  "ph_callback E pg has_qemu f ph s =
     (let (info, t, w) = s in
      if p_type ph = PT_LOAD then (Inr False, info\<lparr>mappings := map_segment pg ph (mappings info)\<rparr>, t, w)
      else if p_type ph = PT_INTERP then add_interp E has_qemu f ph s
      else if p_type ph = PT_GNU_STACK then (Inr False, info\<lparr>executable_stack := (p_flags ph AND PF_X \<noteq> 0)\<rparr>, t, w)
      else (Inr False, s))"

definition extract_load_info ::
  "('w, 'e) elf_env_scheme \<Rightarrow> word_t \<Rightarrow> bool \<Rightarrow> load_info \<Rightarrow> tracee \<Rightarrow> 'w \<Rightarrow> load_info res \<times> tracee \<times> 'w" where
  "extract_load_info E pg has_qemu info t w =
     (case open_elf E (li_host info) w of Inl e \<Rightarrow> (Inl e, t, w)
      | Inr (h, f) \<Rightarrow>
         (if e_type h \<noteq> ET_EXEC \<and> e_type h \<noteq> ET_DYN then (Inl ENOEXEC, t, w)
          else (case iterate_program_headers E h f (ph_callback E pg has_qemu f) (info\<lparr>header := h\<rparr>, t, w) of
              (Inl e, info, t, w) \<Rightarrow> (Inl e, t, w)
            | (Inr stopped, info, t, w) \<Rightarrow> (Inr info, t, w))))"

section \<open>Where a program is put\<close>

definition EXEC_PIC_ADDRESS :: word_t where "EXEC_PIC_ADDRESS = 0x3000000000"
definition INTERP_PIC_ADDRESS :: word_t where "INTERP_PIC_ADDRESS = 0x3f00000000"

definition apply_load_base :: "word_t \<Rightarrow> load_info \<Rightarrow> load_info" where
  "apply_load_base base info =
     (if mappings info = [] then info
      else info\<lparr>mappings := map (\<lambda>m. m\<lparr>m_addr := m_addr m + base\<rparr>) (mappings info),
                header := (header info)\<lparr>e_entry := e_entry (header info) + base\<rparr>\<rparr>)"

definition place_at :: "word_t \<Rightarrow> load_info \<Rightarrow> load_info" where
  "place_at base info =
     (if position_independent (header info) \<and> m_addr (hd (mappings info)) = 0 then apply_load_base base info else info)"

definition compute_load_addresses :: "load_info \<times> load_info option \<Rightarrow> load_info \<times> load_info option" where
  "compute_load_addresses p =
     (let (main, interp) = p in
      if mappings main = [] then (main, interp)
      else (place_at EXEC_PIC_ADDRESS main,
            (case interp of None \<Rightarrow> None
             | Some i \<Rightarrow> Some (if mappings i = [] then i else place_at INTERP_PIC_ADDRESS i))))"

end
