(* ===== verification/Ldso.thy ===== *)
theory Ldso
  imports Load
begin

text \<open>
  The environment of a program that is executed (\<^verbatim>\<open>src/execve/ldso.c\<close>): the variables of the dynamic linker that go
  to a runner, the library paths of the host, and the variables of the stat shim.
\<close>

section \<open>Writing without looking at the result\<close>

definition new_pointer :: "byte list \<Rightarrow> xpointer" where
  "new_pointer s = \<lparr>remote = 0, local = Some s\<rparr>"

fun overwrite_xpointees :: "nat \<Rightarrow> byte list list \<Rightarrow> xarray \<Rightarrow> xarray" where
  "overwrite_xpointees i [] arr = arr"
| "overwrite_xpointees i (s # ss) arr = overwrite_xpointees (i + 1) ss (arr[i := new_pointer s])"

definition insert_xpointees :: "nat \<Rightarrow> byte list list \<Rightarrow> xarray \<Rightarrow> xarray" where
  "insert_xpointees i ss arr = overwrite_xpointees i ss (resize_array_of_xpointers i (length ss) arr)"

section \<open>Variables for a runner\<close>

definition passthru_names :: "string list" where
  "passthru_names =
     [''LD_LIBRARY_PATH'', ''LD_PRELOAD'', ''LD_BIND_NOW'', ''LD_TRACE_LOADED_OBJECTS'', ''LD_AOUT_LIBRARY_PATH'',
      ''LD_AOUT_PRELOAD'', ''LD_AUDIT'', ''LD_BIND_NOT'', ''LD_DEBUG'', ''LD_DEBUG_OUTPUT'', ''LD_DYNAMIC_WEAK'',
      ''LD_HWCAP_MASK'', ''LD_KEEPDIR'', ''LD_NOWARN'', ''LD_ORIGIN_PATH'', ''LD_POINTER_GUARD'', ''LD_PROFILE'',
      ''LD_PROFILE_OUTPUT'', ''LD_SHOW_AUXV'', ''LD_USE_LOAD_BIAS'', ''LD_VERBOSE'', ''LD_WARN'']"

definition is_var :: "byte list \<Rightarrow> string \<Rightarrow> bool" where
  "is_var env name \<longleftrightarrow> is_env_name env (bytes_of name)"

text \<open>The paths that were set for the host stand for those of the guest.\<close>

definition guest_value :: "(byte list \<times> byte list) option \<Rightarrow> byte list \<Rightarrow> byte list" where
  "guest_value saved env =
     (case saved of None \<Rightarrow> env
      | Some (hostv, guestv) \<Rightarrow> if is_var env ''LD_LIBRARY_PATH'' \<and> env = hostv then guestv else env)"

text \<open>\<open>n\<close> variables are left, the next one is \<open>i\<close>. The result are both vectors and whether a library path was seen.\<close>

fun passthru_from ::
  "memory \<Rightarrow> (byte list \<times> byte list) option \<Rightarrow> byte list \<Rightarrow> nat \<Rightarrow> nat \<Rightarrow> nat \<Rightarrow> xarray \<Rightarrow> xarray \<Rightarrow> bool \<Rightarrow>
     (xarray \<times> xarray \<times> bool) res" where
  "passthru_from m saved def offset i 0 envp argv seen = Inr (envp, argv, seen)"
| "passthru_from m saved def offset i (Suc n) envp argv seen =
     (case read_xpointee_as_string m envp i of Inl e \<Rightarrow> Inl e
      | Inr (None, envp) \<Rightarrow> passthru_from m saved def offset (i + 1) n envp argv seen
      | Inr (Some env, envp) \<Rightarrow>
         (if take 3 env \<noteq> bytes_of ''LD_'' then passthru_from m saved def offset (i + 1) n envp argv seen
          else
            let env = guest_value saved env;
                seen = (seen \<or> is_var env ''LD_LIBRARY_PATH'')
            in if list_ex (is_var env) passthru_names then
                 passthru_from m saved def offset (i + 1) n (envp[i := new_pointer []])
                   (insert_xpointees offset [def, env] argv) seen
               else passthru_from m saved def offset (i + 1) n envp argv seen))"

definition ldso_env_passthru ::
  "memory \<Rightarrow> (byte list \<times> byte list) option \<Rightarrow> string \<Rightarrow> string \<Rightarrow> nat \<Rightarrow> xarray \<Rightarrow> xarray \<Rightarrow> (xarray \<times> xarray) res" where
  "ldso_env_passthru m saved def undef offset envp argv =
     (case passthru_from m saved (bytes_of def) offset 0 (length envp) envp argv False of Inl e \<Rightarrow> Inl e
      | Inr (envp, argv, seen) \<Rightarrow>
          Inr (envp, if seen then argv else insert_xpointees offset [bytes_of undef, bytes_of ''LD_LIBRARY_PATH''] argv))"

section \<open>Library paths of the host\<close>

text \<open>The part up to the next colon, and what follows it.\<close>

function path_parts :: "string \<Rightarrow> string list" where
  "path_parts s =
     (let a = takeWhile (\<lambda>c. c \<noteq> CHR '':'') s; r = dropWhile (\<lambda>c. c \<noteq> CHR '':'') s in
      if r = [] then [a] else a # path_parts (tl r))"
  by pat_completeness auto
termination
proof (relation "measure length", goal_cases)
  case (2 s x r)
  have "length r \<le> length s" using 2 by (simp add: length_dropWhile_le)
  moreover have "0 < length r" using 2 by simp
  ultimately have "length (tl r) < length s" by (cases r) simp_all
  then show ?case by (simp only: in_measure)
qed simp

declare path_parts.simps [simp del]

fun add_parts :: "string \<Rightarrow> string list \<Rightarrow> errno option \<times> string" where
  "add_parts out [] = (None, out)"
| "add_parts out (p # ps) =
     (let absolute = (c_at p 0 = slash); need = 1 + length p + (if absolute then length HOST_ROOTFS else 0) in
      if ARG_LIMIT \<le> length out + need then (Some ENOEXEC, out)
      else add_parts (out @ (if out = [] then [] else '':'') @ (if absolute then HOST_ROOTFS else []) @ p) ps)"

definition add_host_ldso_paths :: "string \<Rightarrow> string \<Rightarrow> errno option \<times> string" where
  "add_host_ldso_paths out ps = add_parts out (path_parts ps)"

section \<open>The paths that a program asks for\<close>

text \<open>The first header of a type; with an address, the one whose segment has it, or the last one that was seen.\<close>

definition find_program_header ::
  "u32 \<Rightarrow> word_t \<Rightarrow> program_header \<Rightarrow> program_header \<Rightarrow> bool res \<times> program_header" where
  "find_program_header type addr ph found =
     (if p_type ph \<noteq> type then (Inr False, found)
      else if addr = -1 then (Inr True, ph)
      else (let start = p_vaddr ph; stop = p_vaddr ph + p_memsz ph in
            (Inr (start < stop \<and> start \<le> addr \<and> addr \<le> stop), ph)))"

record dynamic_entry =
  d_tag :: word_t
  d_val :: word_t

definition DT_STRTAB :: word_t where "DT_STRTAB = 5"
definition DT_RPATH :: word_t where "DT_RPATH = 15"
definition DT_RUNPATH :: word_t where "DT_RUNPATH = 29"
definition SIZEOF_DYNAMIC :: nat where "SIZEOF_DYNAMIC = 16"

text \<open>Entries of the dynamic section, until one cannot be read. \<open>stale\<close> is what the buffer holds already: only that is
  left of an entry behind the end of the file.\<close>

fun read_entries :: "nat \<Rightarrow> byte list \<Rightarrow> open_file \<Rightarrow> word_t \<Rightarrow> nat \<Rightarrow> dynamic_entry list \<times> bool" where
  "read_entries limit stale f pos 0 = ([], True)"
| "read_entries limit stale f pos (Suc n) =
     (if limit < unat pos then ([], False)
      else (case pread f (unat pos) SIZEOF_DYNAMIC of Inl e \<Rightarrow> ([], False)
        | Inr bs \<Rightarrow>
           (let b = bs @ drop (length bs) stale; e = \<lparr>d_tag = field b 0 8, d_val = field b 8 8\<rparr>;
                (es, all) = read_entries limit b f (pos + of_nat SIZEOF_DYNAMIC) n
            in (e # es, all))))"

definition add_xpaths :: "nat \<Rightarrow> open_file \<Rightarrow> word_t \<Rightarrow> string option \<Rightarrow> string option" where
  "add_xpaths limit f pos xp =
     (if limit < unat pos then xp
      else (case pread f (unat pos) 1023 of Inl e \<Rightarrow> xp
        | Inr [] \<Rightarrow> xp
        | Inr bs \<Rightarrow> (let s = c_str (string_of bs) in Some (case xp of None \<Rightarrow> s | Some x \<Rightarrow> x @ '':'' @ s))))"

fun add_rpaths :: "nat \<Rightarrow> open_file \<Rightarrow> word_t \<Rightarrow> dynamic_entry list \<Rightarrow> string option \<times> string option \<Rightarrow> string option \<times> string option" where
  "add_rpaths limit f stroff [] xps = xps"
| "add_rpaths limit f stroff (e # es) (rp, runp) =
     add_rpaths limit f stroff es
       (if d_tag e = DT_RPATH then add_xpaths limit f (stroff + d_val e) rp else rp,
        if d_tag e = DT_RUNPATH then add_xpaths limit f (stroff + d_val e) runp else runp)"

definition string_table :: "dynamic_entry list \<Rightarrow> word_t" where
  "string_table es = fold (\<lambda>e s. if d_tag e = DT_STRTAB then d_val e else s) es (-1)"

definition read_ldso_rpaths ::
  "('w, 'e) elf_env_scheme \<Rightarrow> byte list \<Rightarrow> program_header \<Rightarrow> elf_header \<Rightarrow> open_file \<Rightarrow> string option \<times> string option" where
  "read_ldso_rpaths E stale seg0 h f =
     (case iterate_program_headers E h f (find_program_header PT_DYNAMIC (-1)) seg0 of
        (Inr True, dyn) \<Rightarrow>
          (let doff = p_offset dyn; n = unat (p_filesz dyn) div SIZEOF_DYNAMIC;
               (es, all) = read_entries (seek_limit E) stale f doff n
           in if unat (p_filesz dyn) mod SIZEOF_DYNAMIC \<noteq> 0 \<or> \<not> all \<or> string_table es = -1 then (None, None)
              else (case iterate_program_headers E h f (find_program_header PT_LOAD (string_table es)) dyn of
                  (Inl e, seg) \<Rightarrow> (None, None)
                | (Inr found, seg) \<Rightarrow>
                    add_rpaths (seek_limit E) f (p_offset seg + (string_table es - p_vaddr seg)) es (None, None)))
      | _ \<Rightarrow> (None, None))"

text \<open>\<open>init_ld\<close> is the library path of the tracer, kept from the first call on; \<open>guest\<close> and \<open>host\<close> are the values that the
  tracee remembers. The entries are compared by the name of the variable.\<close>

definition ldso_parts :: "string option \<times> string option \<Rightarrow> string \<Rightarrow> string" where
  "ldso_parts xps init =
     (let (rp, runp) = xps;
          out = (if rp \<noteq> None \<and> runp = None then snd (add_host_ldso_paths [] (the rp)) else []);
          out = (if init \<noteq> [] then snd (add_host_ldso_paths out init) else out);
          out = (case runp of None \<Rightarrow> out | Some p \<Rightarrow> snd (add_host_ldso_paths out p))
      in snd (add_host_ldso_paths out ''/lib64:/usr/lib64:/lib:/usr/lib:/system/lib64''))"

record ldso_state =
  init_ld :: "string option"
  ld_guest :: "byte list option"
  ld_host :: "byte list option"

definition rebuild_host_ldso_paths ::
  "('w, 'e) elf_env_scheme \<Rightarrow> byte list \<Rightarrow> program_header \<Rightarrow> (string \<Rightarrow> string option) \<Rightarrow> memory \<Rightarrow> string \<Rightarrow> 'w \<Rightarrow> ldso_state \<Rightarrow>
     xarray \<Rightarrow> (ldso_state \<times> xarray) res" where
  "rebuild_host_ldso_paths E stale seg0 getenv m path w s envp =
     (case open_elf E path w of Inl e \<Rightarrow> Inl e
      | Inr (h, f) \<Rightarrow>
         (let ild = (case init_ld s of Some p \<Rightarrow> p
                     | None \<Rightarrow> (case getenv ''LD_LIBRARY_PATH'' of Some p \<Rightarrow> p | None \<Rightarrow> ''/''));
              final = bytes_of (take (ARG_LIMIT - 1) (''LD_LIBRARY_PATH='' @ ldso_parts (read_ldso_rpaths E stale seg0 h f) ild));
              (i, envp) = (case find_xpointee (\<lambda>arr i. compare_xpointee_env m arr i (bytes_of ''LD_LIBRARY_PATH'')) envp of
                  Inl e \<Rightarrow> (length envp, envp) | Inr r \<Rightarrow> r);
              saved = (if i = length envp \<or> ld_guest s \<noteq> None then ld_guest s
                       else (case read_xpointee_as_string m envp i of Inl e \<Rightarrow> None | Inr (v, arr) \<Rightarrow> v));
              envp = (if i = length envp then resize_array_of_xpointers i 1 envp else envp)
          in Inr (s\<lparr>init_ld := Some ild, ld_guest := saved,
                    ld_host := (case ld_host s of None \<Rightarrow> Some final | Some x \<Rightarrow> Some x)\<rparr>,
                  envp[i := new_pointer final])))"

section \<open>The stat shim\<close>

definition upsert_env_entry :: "memory \<Rightarrow> xarray \<Rightarrow> string \<Rightarrow> byte list \<Rightarrow> xarray res" where
  "upsert_env_entry m envp name entry =
     (let terminator = (if 0 < length envp then length envp - 1 else 0) in
      case find_xpointee (\<lambda>arr i. compare_xpointee_env m arr i (bytes_of name)) envp of
        Inr (i, envp) \<Rightarrow> write_xpointee_as_string i entry envp
      | Inl e \<Rightarrow>
          (if e \<noteq> ENOENT then Inl e
           else write_xpointee_as_string terminator entry (resize_array_of_xpointers terminator 1 envp)))"

definition shim_names :: "string list" where
  "shim_names =
     [''NEOPROOT_STATSHIM_ROOTFS'', ''NEOPROOT_STATSHIM_BINDS'', ''NEOPROOT_STATSHIM_L2S'', ''NEOPROOT_STATSHIM_NOTIF'',
      ''NEOPROOT_STATSHIM_UID_REAL'', ''NEOPROOT_STATSHIM_UID_FAKE'', ''NEOPROOT_STATSHIM_GID_REAL'',
      ''NEOPROOT_STATSHIM_GID_FAKE'']"

definition ENTRY_MAX :: nat where "ENTRY_MAX = PATH_MAX + 64"

fun inject_names :: "memory \<Rightarrow> (string \<Rightarrow> string option) \<Rightarrow> string list \<Rightarrow> xarray \<Rightarrow> xarray res" where
  "inject_names m getenv [] envp = Inr envp"
| "inject_names m getenv (n # ns) envp =
     (case getenv n of None \<Rightarrow> inject_names m getenv ns envp
      | Some v \<Rightarrow>
         (let entry = n @ ''='' @ v in
          if ENTRY_MAX \<le> length entry then Inl ENAMETOOLONG
          else (case upsert_env_entry m envp n (bytes_of entry) of Inl e \<Rightarrow> Inl e
            | Inr envp \<Rightarrow> inject_names m getenv ns envp)))"

text \<open>The preload of the caller is looked up, but its value is taken only when the read returns more than 0, which it
  never does: the rest of the new entry is empty.\<close>

definition inject_preload :: "memory \<Rightarrow> string \<Rightarrow> xarray \<Rightarrow> xarray res" where
  "inject_preload m lib envp =
     (let envp = (case find_xpointee (\<lambda>arr i. compare_xpointee_env m arr i (bytes_of ''LD_PRELOAD'')) envp of
            Inl e \<Rightarrow> envp | Inr (i, arr) \<Rightarrow> arr);
          rest = []; entry = ''LD_PRELOAD='' @ lib @ (if rest \<noteq> [] then '' '' else []) @ rest in
      if sublist lib rest then Inr envp
      else if ENTRY_MAX \<le> length entry then Inl ENAMETOOLONG
      else upsert_env_entry m envp ''LD_PRELOAD'' (bytes_of entry))"

definition ldso_inject_stat_shim_env :: "memory \<Rightarrow> (string \<Rightarrow> string option) \<Rightarrow> string option \<Rightarrow> xarray \<Rightarrow> xarray res" where
  "ldso_inject_stat_shim_env m getenv lib envp =
     (case lib of None \<Rightarrow> Inr envp
      | Some lib \<Rightarrow>
         (case inject_preload m lib envp of Inl e \<Rightarrow> Inl e
          | Inr envp \<Rightarrow> inject_names m getenv shim_names envp))"

end
