(* ===== verification/Loader.thy ===== *)
theory Loader
  imports Load "HOL-Library.Monad_Syntax"
begin

text \<open>
  The load script: what the tracer writes below the stack of a tracee that executed the loader
  (\<^verbatim>\<open>src/execve/exit.c\<close>, \<^verbatim>\<open>src/loader/script.h\<close>), and the loader that carries it out (\<^verbatim>\<open>src/loader/loader.cpp\<close>).
\<close>

section \<open>Writing the script\<close>

definition LOAD_ACTION_OPEN_NEXT :: word_t where "LOAD_ACTION_OPEN_NEXT = 0"
definition LOAD_ACTION_OPEN :: word_t where "LOAD_ACTION_OPEN = 1"
definition LOAD_ACTION_MMAP_FILE :: word_t where "LOAD_ACTION_MMAP_FILE = 2"
definition LOAD_ACTION_MMAP_ANON :: word_t where "LOAD_ACTION_MMAP_ANON = 3"
definition LOAD_ACTION_MAKE_STACK_EXEC :: word_t where "LOAD_ACTION_MAKE_STACK_EXEC = 4"
definition LOAD_ACTION_START_TRACED :: word_t where "LOAD_ACTION_START_TRACED = 5"
definition LOAD_ACTION_START :: word_t where "LOAD_ACTION_START = 6"

text \<open>The words of a statement, the action first.\<close>

definition transcript_mapping :: "mapping \<Rightarrow> word_t list" where
  "transcript_mapping m =
     [if m_flags m AND MAP_ANONYMOUS \<noteq> 0 then LOAD_ACTION_MMAP_ANON else LOAD_ACTION_MMAP_FILE,
      m_addr m, m_length m, m_prot m, m_offset m, m_clear_length m]"

definition transcript_mappings :: "mapping list \<Rightarrow> word_t list" where
  "transcript_mappings ms = concat (map transcript_mapping ms)"

text \<open>The script for given addresses of the two names and of the raw path.\<close>

definition load_script :: "word_t \<Rightarrow> word_t \<Rightarrow> load_info \<Rightarrow> load_info option \<Rightarrow> word_t \<Rightarrow> word_t \<Rightarrow> word_t \<Rightarrow> word_t list" where
  "load_script pg sp main interp addr1 addr2 addr3 =
     (let exec_stack = (executable_stack main \<or> (case interp of None \<Rightarrow> False | Some i \<Rightarrow> executable_stack i));
          h = header main;
          entry = (case interp of None \<Rightarrow> e_entry h | Some i \<Rightarrow> e_entry (header i))
      in [LOAD_ACTION_OPEN, addr1] @ transcript_mappings (mappings main) @
         (case interp of None \<Rightarrow> [] | Some i \<Rightarrow> [LOAD_ACTION_OPEN_NEXT, addr2] @ transcript_mappings (mappings i)) @
         (if exec_stack then [LOAD_ACTION_MAKE_STACK_EXEC, sp AND page_mask pg] else []) @
         [LOAD_ACTION_START, sp, entry, e_phoff h + m_addr (hd (mappings main)), ucast (e_phentsize h), ucast (e_phnum h),
          e_entry h, addr3])"

definition c_bytes :: "string \<Rightarrow> byte list" where
  "c_bytes s = bytes_of s @ [0]"

text \<open>The names, and how many bytes follow them. The raw path is \<open>None\<close> when it is the user path itself.\<close>

definition script_strings :: "load_info \<Rightarrow> load_info option \<Rightarrow> byte list" where
  "script_strings main interp =
     c_bytes (li_user main) @ (case interp of None \<Rightarrow> [] | Some i \<Rightarrow> c_bytes (li_user i)) @
     (case li_raw main of None \<Rightarrow> [] | Some r \<Rightarrow> c_bytes r)"

definition script_padding :: "word_t \<Rightarrow> word_t \<Rightarrow> word_t" where
  "script_padding sp n = (16 - ((sp - n) mod 16)) mod 16"

text \<open>A program without a segment makes the tracer follow a NULL pointer.\<close>

definition transfer_load_script ::
  "word_t \<Rightarrow> load_info \<Rightarrow> load_info option \<Rightarrow> thread \<times> memory \<Rightarrow> (errno option \<times> thread \<times> memory) res" where
  "transfer_load_script pg main interp tm =
     (let (t, m) = tm; sp = peek_reg CURRENT STACK_POINTER t in
      if sp = 0 then Inr (Some EINVAL, t, m)
      else if mappings main = [] then Inl Crash
      else
        let strings = script_strings main interp;
            pad = script_padding sp (of_nat (length strings));
            total = of_nat (length strings) + pad;
            addr1 = sp - total;
            addr2 = addr1 + of_nat (length (c_bytes (li_user main)));
            addr3 = (if li_raw main = None then addr1
                     else addr2 + (case interp of None \<Rightarrow> 0 | Some i \<Rightarrow> of_nat (length (c_bytes (li_user i)))));
            buf = concat (map word_bytes (load_script pg sp main interp addr1 addr2 addr3)) @ strings @ replicate (unat pad) 0;
            new_sp = sp - of_nat (length buf);
            t = poke_reg USERARG_1 new_sp (poke_reg STACK_POINTER new_sp t)
        in if MAX_TALLOC_SIZE \<le> length buf then Inr (Some ENOMEM, fst tm, m)
           else (case write_data m new_sp buf of
              (Some e, m) \<Rightarrow> Inr (Some e, t, m)
            | (None, m) \<Rightarrow> Inr (None, (save_current_regs ORIGINAL t)\<lparr>regs_were_changed := True\<rparr>, m)))"

section \<open>The loader\<close>

text \<open>Its memory with what may be written, the file that is open, and its variables. The kernel: the bytes of a file that is
  opened, and the result of a mapping; \<open>ld_page\<close> is the size of a page.\<close>

record loader =
  mem :: memory
  writable :: "word_t \<Rightarrow> bool"
  opened :: "byte list option"
  at_base :: word_t
  reset_at_base :: bool
  cursor :: word_t

record ld_kernel =
  ld_open :: "string \<Rightarrow> byte list option"
  ld_mmap :: "word_t \<Rightarrow> word_t \<Rightarrow> word_t \<Rightarrow> byte list option \<Rightarrow> word_t \<Rightarrow> word_t"
  ld_page :: nat

datatype outcome = Started word_t word_t loader | Exited

definition word_at :: "loader \<Rightarrow> word_t \<Rightarrow> word_t option" where
  "word_at s a = map_option (\<lambda>bs. of_nat (le_value bs)) (peek_bytes (mem s) a 8)"

definition store_word :: "word_t \<Rightarrow> word_t \<Rightarrow> loader \<Rightarrow> loader option" where
  "store_word a v s =
     (if \<forall>i < (8 :: nat). mem s (a + of_nat i) \<noteq> None \<and> writable s (a + of_nat i)
      then Some (s\<lparr>mem := poke_bytes (mem s) a (word_bytes v)\<rparr>) else None)"

text \<open>The string at an address, of less than \<open>n\<close> bytes.\<close>

fun user_string :: "memory \<Rightarrow> word_t \<Rightarrow> nat \<Rightarrow> byte list option" where
  "user_string m a 0 = None"
| "user_string m a (Suc n) =
     (case m a of None \<Rightarrow> None
      | Some b \<Rightarrow> if b = 0 then Some [] else map_option ((#) b) (user_string m (a + 1) n))"

text \<open>A mapping of a file: zeros up to the end of the last page of the file, nothing behind it.\<close>

definition file_byte :: "nat \<Rightarrow> byte list \<Rightarrow> nat \<Rightarrow> byte option" where
  "file_byte pg bs i =
     (if i < length bs then Some (bs ! i) else if i < (length bs + pg - 1) div pg * pg then Some 0 else None)"

definition put_mapping :: "word_t \<Rightarrow> word_t \<Rightarrow> word_t \<Rightarrow> (nat \<Rightarrow> byte option) \<Rightarrow> loader \<Rightarrow> loader" where
  "put_mapping a n prot bytes s =
     s\<lparr>mem := (\<lambda>x. if x - a < n then bytes (unat (x - a)) else mem s x),
       writable := (\<lambda>x. if x - a < n then prot AND PROT_WRITE \<noteq> 0 else writable s x)\<rparr>"

definition CLEAR_MAX :: word_t where "CLEAR_MAX = 0x200000"

definition clear :: "word_t \<Rightarrow> word_t \<Rightarrow> loader \<Rightarrow> loader option" where
  "clear a b s =
     (if b \<le> a \<or> CLEAR_MAX < b - a then Some s
      else if \<forall>i < unat (b - a). mem s (a + of_nat i) \<noteq> None \<and> writable s (a + of_nat i)
        then Some (s\<lparr>mem := (\<lambda>x. if a \<le> x \<and> x < b then Some 0 else mem s x)\<rparr>)
      else None)"

text \<open>The end of the strings of the environment; \<open>n\<close> words are looked at. The first word is not.\<close>

fun skip_envp :: "loader \<Rightarrow> nat \<Rightarrow> word_t \<Rightarrow> word_t option" where
  "skip_envp s 0 sp = None"
| "skip_envp s (Suc n) sp = do { v \<leftarrow> word_at s (sp + 8); if v = 0 then Some (sp + 16) else skip_envp s n (sp + 8) }"

definition AT_NULL :: word_t where "AT_NULL = 0"
definition AT_PHDR :: word_t where "AT_PHDR = 3"
definition AT_PHENT :: word_t where "AT_PHENT = 4"
definition AT_PHNUM :: word_t where "AT_PHNUM = 5"
definition AT_BASE :: word_t where "AT_BASE = 7"
definition AT_ENTRY :: word_t where "AT_ENTRY = 9"
definition AT_EXECFN :: word_t where "AT_EXECFN = 31"

text \<open>The new value of an entry; the words of the statement are read when they are needed.\<close>

definition patched_value :: "loader \<Rightarrow> word_t \<Rightarrow> word_t \<Rightarrow> word_t option option" where
  "patched_value s execfn type =
     (if type = AT_PHDR then map_option Some (word_at s (cursor s + 24))
      else if type = AT_PHENT then map_option Some (word_at s (cursor s + 32))
      else if type = AT_PHNUM then map_option Some (word_at s (cursor s + 40))
      else if type = AT_ENTRY then map_option Some (word_at s (cursor s + 48))
      else if type = AT_BASE then Some (Some (at_base s))
      else if type = AT_EXECFN then Some (Some execfn)
      else Some None)"

fun patch_auxv :: "nat \<Rightarrow> word_t \<Rightarrow> word_t \<Rightarrow> loader \<Rightarrow> loader option" where
  "patch_auxv 0 execfn sp s = None"
| "patch_auxv (Suc n) execfn sp s =
     do {
       type \<leftarrow> word_at s sp;
       v \<leftarrow> patched_value s execfn type;
       s \<leftarrow> (case v of None \<Rightarrow> Some s | Some v \<Rightarrow> store_word (sp + 8) v s);
       next \<leftarrow> word_at s (sp + 16);
       if next = AT_NULL then Some s else patch_auxv n execfn (sp + 16) s
     }"

text \<open>A step gives the state that the loop goes on with, or how it ends. \<open>None\<close> is a signal that ends the process, or a
  loop that needs more than \<open>n\<close> turns. \<open>AT_EXECFN\<close> becomes the first argument; \<open>basename\<close> reads its string.\<close>

definition load_open :: "ld_kernel \<Rightarrow> loader \<Rightarrow> (loader + outcome) option" where
  "load_open k s =
     do {
       a \<leftarrow> word_at s (cursor s + 8);
       Some (case user_string (mem s) a PATH_MAX of
           None \<Rightarrow> Inr Exited
         | Some path \<Rightarrow> (case ld_open k (string_of path) of
               None \<Rightarrow> Inr Exited
             | Some f \<Rightarrow> Inl (s\<lparr>opened := Some f, reset_at_base := True, cursor := cursor s + 16\<rparr>)))
     }"

definition note_base :: "word_t \<Rightarrow> loader \<Rightarrow> loader" where
  "note_base a s = (if reset_at_base s then s\<lparr>at_base := a, reset_at_base := False\<rparr> else s)"

definition load_mmap_file :: "ld_kernel \<Rightarrow> loader \<Rightarrow> (loader + outcome) option" where
  "load_mmap_file k s =
     do {
       a \<leftarrow> word_at s (cursor s + 8);
       n \<leftarrow> word_at s (cursor s + 16);
       prot \<leftarrow> word_at s (cursor s + 24);
       off \<leftarrow> word_at s (cursor s + 32);
       let status = ld_mmap k a n prot (opened s) off;
       let s = (if status = a then put_mapping a n prot
           (\<lambda>i. file_byte (ld_page k) (case opened s of None \<Rightarrow> [] | Some bs \<Rightarrow> bs) (unat off + i)) s else s);
       a \<leftarrow> word_at s (cursor s + 8);
       if status \<noteq> a then Some (Inr Exited)
       else do {
         cl \<leftarrow> word_at s (cursor s + 40);
         n \<leftarrow> word_at s (cursor s + 16);
         s \<leftarrow> (if cl \<noteq> 0 then clear (a + n - cl) (a + n) s else Some s);
         a \<leftarrow> word_at s (cursor s + 8);
         Some (Inl ((note_base a s)\<lparr>cursor := cursor s + 48\<rparr>))
       }
     }"

definition load_mmap_anon :: "ld_kernel \<Rightarrow> loader \<Rightarrow> (loader + outcome) option" where
  "load_mmap_anon k s =
     do {
       a \<leftarrow> word_at s (cursor s + 8);
       n \<leftarrow> word_at s (cursor s + 16);
       prot \<leftarrow> word_at s (cursor s + 24);
       let status = ld_mmap k a n prot None 0;
       let s = (if status = a then put_mapping a n prot (\<lambda>_. Some 0) s else s);
       a \<leftarrow> word_at s (cursor s + 8);
       Some (if status \<noteq> a then Inr Exited else Inl (s\<lparr>cursor := cursor s + 48\<rparr>))
     }"

definition load_start :: "nat \<Rightarrow> bool \<Rightarrow> loader \<Rightarrow> outcome option" where
  "load_start n traced s =
     do {
       sp \<leftarrow> word_at s (cursor s + 8);
       argc \<leftarrow> word_at s sp;
       execfn \<leftarrow> word_at s (sp + 8);
       (if opened s = None then Some Exited
        else do {
          auxv \<leftarrow> skip_envp s n (sp + 8 * (argc + 1));
          s \<leftarrow> patch_auxv n execfn auxv s;
          name \<leftarrow> (if execfn = 0 then Some [] else user_string (mem s) execfn n);
          sp \<leftarrow> word_at s (cursor s + 8);
          entry \<leftarrow> word_at s (cursor s + 16);
          Some (if traced then Exited else Started sp entry s)
        })
     }"

text \<open>A file that is opened next closes the one before; closing no file fails.\<close>

definition loader_step :: "ld_kernel \<Rightarrow> nat \<Rightarrow> loader \<Rightarrow> (loader + outcome) option" where
  "loader_step k n s =
     do {
       action \<leftarrow> word_at s (cursor s);
       (if action = LOAD_ACTION_OPEN_NEXT then (if opened s = None then Some (Inr Exited) else load_open k s)
        else if action = LOAD_ACTION_OPEN then load_open k s
        else if action = LOAD_ACTION_MMAP_FILE then load_mmap_file k s
        else if action = LOAD_ACTION_MMAP_ANON then load_mmap_anon k s
        else if action = LOAD_ACTION_MAKE_STACK_EXEC then
          do { a \<leftarrow> word_at s (cursor s + 8); Some (Inl (s\<lparr>cursor := cursor s + 16\<rparr>)) }
        else if action = LOAD_ACTION_START_TRACED then map_option Inr (load_start n True s)
        else if action = LOAD_ACTION_START then map_option Inr (load_start n False s)
        else Some (Inr Exited))
     }"

fun run_loader :: "ld_kernel \<Rightarrow> nat \<Rightarrow> loader \<Rightarrow> outcome option" where
  "run_loader k 0 s = None"
| "run_loader k (Suc n) s =
     (case loader_step k n s of None \<Rightarrow> None | Some (Inr r) \<Rightarrow> Some r | Some (Inl s) \<Rightarrow> run_loader k n s)"

end
