(* ===== verification/Loader_Spec.thy ===== *)
theory Loader_Spec
  imports Loader Aoxp_Spec
begin

text \<open>
  The loader carries out the script that the tracer wrote: it makes the mappings of the program and of its
  interpreter, corrects the auxiliary vector and starts at the entry.
\<close>

section \<open>Words in memory\<close>

definition has_words :: "memory \<Rightarrow> word_t \<Rightarrow> word_t list \<Rightarrow> bool" where
  "has_words m a ws \<longleftrightarrow> holds m a (concat (map word_bytes ws))"

lemma has_words_Nil [simp]: "has_words m a []"
  by (simp add: has_words_def holds_def)

lemma has_words_append: "has_words m a (xs @ ys) \<longleftrightarrow> has_words m a xs \<and> has_words m (a + of_nat (8 * length xs)) ys"
  by (simp add: has_words_def holds_append words_length)

lemma has_words_Cons: "has_words m a (x # xs) \<longleftrightarrow> holds m a (word_bytes x) \<and> has_words m (a + 8) xs"
  using has_words_append [of m a "[x]" xs] by (simp add: has_words_def)

lemma word_at_holds: "holds (mem s) a (word_bytes v) \<Longrightarrow> word_at s a = Some v"
  using holds_peek [of "mem s" a "word_bytes v"] by (simp add: word_at_def word_of_bytes)

lemma word_at_words:
  assumes "has_words (mem s) a ws" "i < length ws"
  shows "word_at s (a + of_nat (8 * i)) = Some (ws ! i)"
proof -
  have "ws = take i ws @ ws ! i # drop (Suc i) ws" using assms(2) by (rule id_take_nth_drop)
  with assms(1) have "has_words (mem s) a (take i ws @ ws ! i # drop (Suc i) ws)" by simp
  then have "holds (mem s) (a + of_nat (8 * length (take i ws))) (word_bytes (ws ! i))"
    by (simp only: has_words_append has_words_Cons)
  then show ?thesis using assms(2) by (intro word_at_holds) simp
qed

text \<open>The words of a statement, one after the other.\<close>

lemma statement_words:
  assumes "has_words (mem s) a ws"
  shows "0 < length ws \<Longrightarrow> word_at s a = Some (ws ! 0)" "1 < length ws \<Longrightarrow> word_at s (a + 8) = Some (ws ! 1)"
    "2 < length ws \<Longrightarrow> word_at s (a + 16) = Some (ws ! 2)" "3 < length ws \<Longrightarrow> word_at s (a + 24) = Some (ws ! 3)"
    "4 < length ws \<Longrightarrow> word_at s (a + 32) = Some (ws ! 4)" "5 < length ws \<Longrightarrow> word_at s (a + 40) = Some (ws ! 5)"
    "6 < length ws \<Longrightarrow> word_at s (a + 48) = Some (ws ! 6)" "7 < length ws \<Longrightarrow> word_at s (a + 56) = Some (ws ! 7)"
  using word_at_words [OF assms, of 0] word_at_words [OF assms, of 1] word_at_words [OF assms, of 2]
    word_at_words [OF assms, of 3] word_at_words [OF assms, of 4] word_at_words [OF assms, of 5]
    word_at_words [OF assms, of 6] word_at_words [OF assms, of 7] by simp_all

section \<open>Memory that is left alone\<close>

text \<open>The addresses from \<open>lo\<close> up to \<open>hi\<close>: there both states have the same bytes, with the same rights.\<close>

definition same_above :: "word_t \<Rightarrow> word_t \<Rightarrow> loader \<Rightarrow> loader \<Rightarrow> bool" where
  "same_above lo hi s s' \<longleftrightarrow> (\<forall>x. lo \<le> x \<and> x < hi \<longrightarrow> mem s' x = mem s x \<and> writable s' x = writable s x)"

lemma same_above_refl [simp]: "same_above lo hi s s"
  by (simp add: same_above_def)

lemma same_above_trans: "same_above lo hi s s' \<Longrightarrow> same_above lo hi s' s'' \<Longrightarrow> same_above lo hi s s''"
  by (simp add: same_above_def)

definition in_range :: "word_t \<Rightarrow> word_t \<Rightarrow> word_t \<Rightarrow> nat \<Rightarrow> bool" where
  "in_range lo hi a n \<longleftrightarrow> lo \<le> a \<and> unat a + n \<le> unat hi"

lemma in_range_member:
  assumes "in_range lo hi a n" "i < n"
  shows "lo \<le> a + of_nat i" "a + of_nat i < hi"
proof -
  have "unat a + i < 2 ^ 64" using assms unsigned_less [of hi, where 'a = nat] by (simp add: in_range_def)
  then have "unat (a + of_nat i) = unat a + i" by (simp add: unat_word_ariths unat_of_nat)
  then show "lo \<le> a + of_nat i" "a + of_nat i < hi"
    using assms by (simp_all add: in_range_def word_le_nat_alt word_less_nat_alt)
qed

lemma same_above_holds:
  assumes "same_above lo hi s s'" "holds (mem s) a bs" "in_range lo hi a (length bs)"
  shows "holds (mem s') a bs"
  unfolding holds_def
proof (intro allI impI)
  fix i assume "i < length bs"
  with in_range_member [OF assms(3) this] assms(1,2) show "mem s' (a + of_nat i) = Some (bs ! i)"
    by (simp add: same_above_def holds_def)
qed

lemma same_above_words:
  assumes "same_above lo hi s s'" "has_words (mem s) a ws" "in_range lo hi a (8 * length ws)"
  shows "has_words (mem s') a ws"
  using same_above_holds [OF assms(1), of a "concat (map word_bytes ws)"] assms(2,3)
  unfolding has_words_def words_length by blast

lemma unat_plus_offset: "unat a + n < 2 ^ 64 \<Longrightarrow> unat (a + of_nat n :: word_t) = unat a + n"
  by (simp add: unat_word_ariths unat_of_nat)

lemma in_range_append:
  assumes "in_range lo hi a (n + k)"
  shows "in_range lo hi a n" "in_range lo hi (a + of_nat n) k"
proof -
  have "unat a + n < 2 ^ 64" using assms unsigned_less [of hi, where 'a = nat] by (simp add: in_range_def)
  then have u: "unat (a + of_nat n) = unat a + n" by (simp add: unat_word_ariths unat_of_nat)
  show "in_range lo hi a n" using assms by (simp add: in_range_def)
  have "lo \<le> a + of_nat n" using assms unfolding in_range_def word_le_nat_alt u by linarith
  then show "in_range lo hi (a + of_nat n) k" using assms by (simp add: in_range_def u)
qed

section \<open>Mappings\<close>

text \<open>What a mapping does when it succeeds.\<close>

definition do_mapping :: "ld_kernel \<Rightarrow> mapping \<Rightarrow> loader \<Rightarrow> loader option" where
  "do_mapping k m s =
     (if m_flags m AND MAP_ANONYMOUS \<noteq> 0 then
        (if ld_mmap k (m_addr m) (m_length m) (m_prot m) None 0 = m_addr m
         then Some (put_mapping (m_addr m) (m_length m) (m_prot m) (\<lambda>_. Some 0) s) else None)
      else if ld_mmap k (m_addr m) (m_length m) (m_prot m) (opened s) (m_offset m) = m_addr m then
        (let s = put_mapping (m_addr m) (m_length m) (m_prot m)
             (\<lambda>i. file_byte (ld_page k) (case opened s of None \<Rightarrow> [] | Some bs \<Rightarrow> bs) (unat (m_offset m) + i)) s
         in map_option (note_base (m_addr m))
              (if m_clear_length m \<noteq> 0 then clear (m_addr m + m_length m - m_clear_length m) (m_addr m + m_length m) s
               else Some s))
      else None)"

fun do_mappings :: "ld_kernel \<Rightarrow> mapping list \<Rightarrow> loader \<Rightarrow> loader option" where
  "do_mappings k [] s = Some s"
| "do_mappings k (m # ms) s = (case do_mapping k m s of None \<Rightarrow> None | Some s \<Rightarrow> do_mappings k ms s)"

text \<open>A mapping that does not touch the addresses, and clears a part of itself.\<close>

definition apart :: "word_t \<Rightarrow> word_t \<Rightarrow> mapping \<Rightarrow> bool" where
  "apart lo hi m \<longleftrightarrow> (\<forall>x. lo \<le> x \<and> x < hi \<longrightarrow> \<not> x - m_addr m < m_length m) \<and>
     unat (m_addr m) + unat (m_length m) < 2 ^ 64 \<and> m_clear_length m \<le> m_length m"

lemma note_base_other [simp]: "mem (note_base a s) = mem s" "writable (note_base a s) = writable s" "opened (note_base a s) = opened s"
  "cursor (note_base a s) = cursor s"
  by (simp_all add: note_base_def)

lemma note_base_above: "same_above lo hi s (note_base a s') = same_above lo hi s s'"
  by (simp add: same_above_def)

lemma put_same_above:
  assumes "apart lo hi m"
  shows "same_above lo hi s (put_mapping (m_addr m) (m_length m) prot f s)"
  using assms by (simp add: same_above_def put_mapping_def apart_def)

lemma clear_other:
  assumes "clear a b s = Some s'"
  shows "\<not> (a \<le> x \<and> x < b) \<Longrightarrow> mem s' x = mem s x" "writable s' = writable s" "opened s' = opened s" "at_base s' = at_base s"
    "reset_at_base s' = reset_at_base s" "cursor s' = cursor s"
  using assms by (auto simp: clear_def split: if_splits)

lemma clear_inside:
  assumes "apart lo hi m" "m_addr m + m_length m - m_clear_length m \<le> x" "x < m_addr m + m_length m"
  shows "x - m_addr m < m_length m"
proof -
  have s: "unat (m_addr m + m_length m) = unat (m_addr m) + unat (m_length m)"
    using assms(1) by (simp add: apart_def unat_word_ariths)
  have "m_clear_length m \<le> m_addr m + m_length m"
    using assms(1) s by (simp add: apart_def word_le_nat_alt)
  then have "unat (m_addr m + m_length m - m_clear_length m) = unat (m_addr m) + unat (m_length m) - unat (m_clear_length m)"
    using s unat_sub [of "m_clear_length m" "m_addr m + m_length m"] by (simp add: word_le_nat_alt)
  with assms have le: "unat (m_addr m) \<le> unat x" "unat x < unat (m_addr m) + unat (m_length m)"
    by (auto simp: word_le_nat_alt word_less_nat_alt s apart_def)
  then have "unat (x - m_addr m) = unat x - unat (m_addr m)" by (simp add: unat_sub word_le_nat_alt)
  with le show ?thesis by (simp add: word_less_nat_alt)
qed

lemma mapping_same_above:
  assumes "do_mapping k m s = Some s'" "apart lo hi m"
  shows "same_above lo hi s s'" "cursor s' = cursor s" "opened s' = opened s"
proof -
  have c: "same_above lo hi s1 s2"
    if "clear (m_addr m + m_length m - m_clear_length m) (m_addr m + m_length m) s1 = Some s2" for s1 s2
  proof -
    have "\<not> (m_addr m + m_length m - m_clear_length m \<le> x \<and> x < m_addr m + m_length m)" if "lo \<le> x" "x < hi" for x
      using clear_inside [OF assms(2), of x] assms(2) that by (auto simp: apart_def)
    with clear_other [OF that] show ?thesis by (simp add: same_above_def)
  qed
  note p = put_same_above [OF assms(2)]
  from assms(1) show "same_above lo hi s s'"
    by (auto simp: do_mapping_def Let_def note_base_above split: if_splits dest!: c intro: p same_above_trans [OF p])
  from assms(1) show "cursor s' = cursor s"
    by (auto simp: do_mapping_def Let_def put_mapping_def split: if_splits dest: clear_other(6))
  from assms(1) show "opened s' = opened s"
    by (auto simp: do_mapping_def Let_def put_mapping_def split: if_splits dest: clear_other(3))
qed

section \<open>A statement of the script\<close>

lemma step_open:
  assumes "has_words (mem s) (cursor s) [act, a]" "act = LOAD_ACTION_OPEN \<or> act = LOAD_ACTION_OPEN_NEXT \<and> opened s \<noteq> None"
    and "user_string (mem s) a PATH_MAX = Some p" "ld_open k (string_of p) = Some f"
  shows "loader_step k n s = Some (Inl (s\<lparr>opened := Some f, reset_at_base := True, cursor := cursor s + 16\<rparr>))"
proof -
  have r: "word_at s (cursor s) = Some act" "word_at s (cursor s + 8) = Some a"
    using statement_words(1,2) [OF assms(1)] by simp_all
  have "loader_step k n s = load_open k s"
    using assms(2) unfolding loader_step_def r(1) by (elim disjE) (auto simp: LOAD_ACTION_OPEN_def LOAD_ACTION_OPEN_NEXT_def)
  then show ?thesis using assms(3,4) by (simp add: load_open_def r(2))
qed

text \<open>A statement that maps a segment has the effect of the mapping, when the mapping spares the statement.\<close>

lemma step_mapping:
  assumes w: "has_words (mem s) (cursor s) (transcript_mapping m)" and d: "do_mapping k m s = Some s'" and ap: "apart lo hi m"
    and r: "in_range lo hi (cursor s) 48"
  shows "loader_step k n s = Some (Inl (s'\<lparr>cursor := cursor s + 48\<rparr>))"
proof -
  let ?c = "cursor s"
  have len: "length (transcript_mapping m) = 6" by (simp add: transcript_mapping_def)
  have read: "word_at z ?c = Some (transcript_mapping m ! 0)" "word_at z (?c + 8) = Some (m_addr m)"
    "word_at z (?c + 16) = Some (m_length m)" "word_at z (?c + 24) = Some (m_prot m)" "word_at z (?c + 32) = Some (m_offset m)"
    "word_at z (?c + 40) = Some (m_clear_length m)" if "same_above lo hi s z" for z
  proof -
    have "has_words (mem z) ?c (transcript_mapping m)"
      using same_above_words [OF that w] r unfolding len by simp
    from statement_words [OF this] show "word_at z ?c = Some (transcript_mapping m ! 0)" "word_at z (?c + 8) = Some (m_addr m)"
      "word_at z (?c + 16) = Some (m_length m)" "word_at z (?c + 24) = Some (m_prot m)" "word_at z (?c + 32) = Some (m_offset m)"
      "word_at z (?c + 40) = Some (m_clear_length m)"
      unfolding len by (simp_all add: transcript_mapping_def)
  qed
  note here = read [OF same_above_refl]
  have put: "same_above lo hi s (put_mapping (m_addr m) (m_length m) (m_prot m) f s)" for f by (rule put_same_above [OF ap])
  note after = read [OF put]
  have pc: "cursor (put_mapping a b c f z) = cursor z" for a b c f z by (simp add: put_mapping_def)
  show ?thesis
  proof (cases "m_flags m AND MAP_ANONYMOUS \<noteq> 0")
    case True
    then have act: "transcript_mapping m ! 0 = LOAD_ACTION_MMAP_ANON" by (simp add: transcript_mapping_def)
    have step: "loader_step k n s = load_mmap_anon k s"
      unfolding loader_step_def here(1) act
      by (simp add: LOAD_ACTION_OPEN_NEXT_def LOAD_ACTION_OPEN_def LOAD_ACTION_MMAP_FILE_def LOAD_ACTION_MMAP_ANON_def)
    from d True have "ld_mmap k (m_addr m) (m_length m) (m_prot m) None 0 = m_addr m"
      "s' = put_mapping (m_addr m) (m_length m) (m_prot m) (\<lambda>_. Some 0) s"
      by (auto simp: do_mapping_def split: if_splits)
    then show ?thesis unfolding step load_mmap_anon_def by (simp add: here after pc Let_def)
  next
    case False
    then have act: "transcript_mapping m ! 0 = LOAD_ACTION_MMAP_FILE" by (simp add: transcript_mapping_def)
    have step: "loader_step k n s = load_mmap_file k s"
      unfolding loader_step_def here(1) act
      by (simp add: LOAD_ACTION_OPEN_NEXT_def LOAD_ACTION_OPEN_def LOAD_ACTION_MMAP_FILE_def)
    let ?s1 = "put_mapping (m_addr m) (m_length m) (m_prot m)
             (\<lambda>i. file_byte (ld_page k) (case opened s of None \<Rightarrow> [] | Some bs \<Rightarrow> bs) (unat (m_offset m) + i)) s"
    from d False obtain z where z: "ld_mmap k (m_addr m) (m_length m) (m_prot m) (opened s) (m_offset m) = m_addr m"
      "(if m_clear_length m \<noteq> 0 then clear (m_addr m + m_length m - m_clear_length m) (m_addr m + m_length m) ?s1
        else Some ?s1) = Some z" "s' = note_base (m_addr m) z"
      by (auto simp: do_mapping_def Let_def split: if_splits)
    have "same_above lo hi s z" "cursor z = ?c"
      using mapping_same_above(1,2) [OF d ap] z(3) by (simp_all add: note_base_above)
    note last = read [OF this(1)] this(2)
    show ?thesis
    proof (cases "m_clear_length m = 0")
      case True
      with z(2) have "z = ?s1" by simp
      then show ?thesis unfolding step load_mmap_file_def z(3) by (simp add: here after pc Let_def z(1) True)
    next
      case False
      with z(2) have "clear (m_addr m + m_length m - m_clear_length m) (m_addr m + m_length m) ?s1 = Some z" by simp
      then show ?thesis unfolding step load_mmap_file_def z(3) by (simp add: here after pc Let_def z(1) last False)
    qed
  qed
qed

text \<open>The cursor plays no part in a mapping.\<close>

lemma clear_cursor: "clear a b (s\<lparr>cursor := c\<rparr>) = map_option (\<lambda>s. s\<lparr>cursor := c\<rparr>) (clear a b s)"
  by (cases s) (auto simp: clear_def cong: if_cong)

lemma do_mapping_cursor: "do_mapping k m (s\<lparr>cursor := c\<rparr>) = map_option (\<lambda>s. s\<lparr>cursor := c\<rparr>) (do_mapping k m s)"
proof -
  have p: "put_mapping a n q f (s\<lparr>cursor := c\<rparr>) = (put_mapping a n q f s)\<lparr>cursor := c\<rparr>" for a n q f
    by (cases s) (simp add: put_mapping_def cong: if_cong)
  have b: "note_base a (z\<lparr>cursor := c\<rparr>) = (note_base a z)\<lparr>cursor := c\<rparr>" for a z by (cases z) (simp add: note_base_def)
  show ?thesis
    unfolding do_mapping_def Let_def p clear_cursor by (simp add: p b option.map_comp comp_def clear_cursor)
qed

lemma do_mappings_cursor: "do_mappings k ms (s\<lparr>cursor := c\<rparr>) = map_option (\<lambda>s. s\<lparr>cursor := c\<rparr>) (do_mappings k ms s)"
  by (induction ms arbitrary: s) (auto simp: do_mapping_cursor split: option.split)

lemma mappings_same_above:
  "do_mappings k ms s = Some s' \<Longrightarrow> \<forall>m \<in> set ms. apart lo hi m \<Longrightarrow> same_above lo hi s s' \<and> cursor s' = cursor s \<and> opened s' = opened s"
proof (induction ms arbitrary: s)
  case (Cons m ms)
  then obtain z where z: "do_mapping k m s = Some z" "do_mappings k ms z = Some s'" by (auto split: option.splits)
  from mapping_same_above [OF z(1)] Cons.prems(2) Cons.IH [OF z(2)] show ?case by (auto intro: same_above_trans)
qed simp

lemma run_mappings:
  assumes "has_words (mem s) (cursor s) (transcript_mappings ms @ rest)" "do_mappings k ms s = Some s'"
    and "\<forall>m \<in> set ms. apart lo hi m" "in_range lo hi (cursor s) (48 * length ms + 8 * length rest)"
  shows "run_loader k (length ms + n) s = run_loader k n (s'\<lparr>cursor := cursor s + of_nat (48 * length ms)\<rparr>)"
  using assms
proof (induction ms arbitrary: s s')
  case Nil
  then show ?case by simp
next
  case (Cons m ms)
  let ?c = "cursor s"
  have len: "length (transcript_mapping m) = 6" by (simp add: transcript_mapping_def)
  obtain z where z: "do_mapping k m s = Some z" "do_mappings k ms z = Some s'" using Cons.prems(2) by (auto split: option.splits)
  have "has_words (mem s) ?c (transcript_mapping m @ transcript_mappings ms @ rest)"
    using Cons.prems(1) by (simp add: transcript_mappings_def)
  then have w: "has_words (mem s) ?c (transcript_mapping m)" "has_words (mem s) (?c + 48) (transcript_mappings ms @ rest)"
    unfolding has_words_append len by simp_all
  have "in_range lo hi ?c (48 + (48 * length ms + 8 * length rest))" using Cons.prems(4) by (simp add: add.assoc)
  from in_range_append [OF this] have r: "in_range lo hi ?c 48" "in_range lo hi (?c + 48) (48 * length ms + 8 * length rest)"
    by simp_all
  have tl: "length (transcript_mappings ms) = 6 * length ms"
    by (induction ms) (simp_all add: transcript_mappings_def transcript_mapping_def)
  from Cons.prems(3) have ap: "apart lo hi m" "\<forall>m \<in> set ms. apart lo hi m" by simp_all
  note same = mapping_same_above [OF z(1) ap(1)]
  have step: "loader_step k (length ms + n) s = Some (Inl (z\<lparr>cursor := ?c + 48\<rparr>))"
    by (rule step_mapping [OF w(1) z(1) ap(1) r(1)])
  have w2: "has_words (mem z) (?c + 48) (transcript_mappings ms @ rest)"
    by (rule same_above_words [OF same(1) w(2)]) (use r(2) in \<open>simp add: tl\<close>)
  have "run_loader k (length ms + n) (z\<lparr>cursor := ?c + 48\<rparr>) =
      run_loader k n ((s'\<lparr>cursor := ?c + 48\<rparr>)\<lparr>cursor := ?c + 48 + of_nat (48 * length ms)\<rparr>)"
    using Cons.IH [of "z\<lparr>cursor := ?c + 48\<rparr>" "s'\<lparr>cursor := ?c + 48\<rparr>"] w2 z(2) ap(2) r(2)
    by (simp add: do_mappings_cursor)
  then show ?case using step by (simp add: add.assoc)
qed

section \<open>The auxiliary vector\<close>

lemma other_holds:
  assumes "\<forall>x. \<not> unat (x - a) < n \<longrightarrow> m' x = m x" "holds m b bs"
    and "unat b + length bs \<le> unat a \<or> unat a + n \<le> unat b" "unat b + length bs \<le> 2 ^ 64" "unat a + n \<le> 2 ^ 64"
  shows "holds m' b bs"
  unfolding holds_def
proof (intro allI impI)
  fix i assume i: "i < length bs"
  have u: "unat (b + of_nat i) = unat b + i" using i assms(4) by (simp add: unat_word_ariths unat_of_nat)
  have "\<not> unat (b + of_nat i - a) < n"
  proof (cases "unat a \<le> unat b + i")
    case True
    then have "unat (b + of_nat i - a) = unat b + i - unat a" using u by (simp add: unat_sub word_le_nat_alt)
    with True i assms(3) show ?thesis by linarith
  next
    case False
    then have "unat (b + of_nat i - a) = 2 ^ 64 + (unat b + i) - unat a" using u by (simp add: unat_sub_if')
    with False assms(5) show ?thesis by linarith
  qed
  with assms(1,2) i show "m' (b + of_nat i) = Some (bs ! i)" by (simp add: holds_def)
qed

definition aux_words :: "(word_t \<times> word_t) list \<Rightarrow> word_t list" where
  "aux_words av = concat (map (\<lambda>(t, v). [t, v]) av)"

lemma aux_words_simps [simp]: "aux_words [] = []" "aux_words ((t, v) # av) = t # v # aux_words av"
  by (simp_all add: aux_words_def)

lemma aux_words_length [simp]: "length (aux_words av) = 2 * length av"
  by (induction av) auto

text \<open>What the loader makes of an entry, from the words of its last statement.\<close>

definition new_aux :: "word_t list \<Rightarrow> word_t \<Rightarrow> word_t \<Rightarrow> word_t \<times> word_t \<Rightarrow> word_t \<times> word_t" where
  "new_aux ws base execfn e =
     (fst e, if fst e = AT_PHDR then ws ! 3 else if fst e = AT_PHENT then ws ! 4 else if fst e = AT_PHNUM then ws ! 5
       else if fst e = AT_ENTRY then ws ! 6 else if fst e = AT_BASE then base else if fst e = AT_EXECFN then execfn else snd e)"

lemma patched_value_new:
  assumes "has_words (mem s) (cursor s) ws" "length ws = 8"
  shows "\<exists>v. patched_value s execfn t = Some v \<and>
     (case v of None \<Rightarrow> new_aux ws (at_base s) execfn (t, u) = (t, u) | Some x \<Rightarrow> new_aux ws (at_base s) execfn (t, u) = (t, x))"
  using statement_words(4-7) [OF assms(1)] assms(2) by (auto simp: patched_value_def new_aux_def)

text \<open>The rest of a loader that only changed some memory.\<close>

definition only_mem :: "loader \<Rightarrow> loader \<Rightarrow> bool" where
  "only_mem s s' \<longleftrightarrow> (\<exists>m. s' = s\<lparr>mem := m\<rparr>)"

lemma only_mem_refl [simp]: "only_mem s s"
  unfolding only_mem_def by (rule exI [of _ "mem s"]) simp

lemma only_mem_fields: "only_mem s s' \<Longrightarrow> writable s' = writable s \<and> opened s' = opened s \<and> cursor s' = cursor s \<and> at_base s' = at_base s"
  by (auto simp: only_mem_def)

lemma only_mem_trans: "only_mem s s' \<Longrightarrow> only_mem s' s'' \<Longrightarrow> only_mem s s''"
  by (auto simp: only_mem_def)

lemma patch_entry:
  assumes st: "has_words (mem s) (cursor s) ws" "length ws = 8"
    and w: "has_words (mem s) a [t, u]" and wr: "\<forall>i<16. writable s (a + of_nat i)" and b: "unat a + 16 \<le> 2 ^ 64"
  shows "\<exists>v s'. patched_value s execfn t = Some v \<and> (case v of None \<Rightarrow> Some s | Some v \<Rightarrow> store_word (a + 8) v s) = Some s' \<and>
     has_words (mem s') a [t, snd (new_aux ws (at_base s) execfn (t, u))] \<and> only_mem s s' \<and>
     (\<forall>x. \<not> unat (x - a) < 16 \<longrightarrow> mem s' x = mem s x)"
proof -
  obtain v where v: "patched_value s execfn t = Some v"
    "case v of None \<Rightarrow> new_aux ws (at_base s) execfn (t, u) = (t, u) | Some x \<Rightarrow> new_aux ws (at_base s) execfn (t, u) = (t, x)"
    using patched_value_new [OF st] by blast
  show ?thesis
  proof (cases v)
    case None
    with v w show ?thesis by (intro exI [of _ v] exI [of _ s]) simp
  next
    case (Some x)
    from w have h: "holds (mem s) a (word_bytes t)" "holds (mem s) (a + 8) (word_bytes u)" by (simp_all add: has_words_Cons)
    have ok: "\<forall>i < (8 :: nat). mem s (a + 8 + of_nat i) \<noteq> None \<and> writable s (a + 8 + of_nat i)"
    proof (intro allI impI)
      fix i :: nat assume "i < 8"
      with h(2) wr [rule_format, of "8 + i"] show "mem s (a + 8 + of_nat i) \<noteq> None \<and> writable s (a + 8 + of_nat i)"
        by (simp add: holds_def add.assoc)
    qed
    let ?m = "poke_bytes (mem s) (a + 8) (word_bytes x)"
    have u8: "unat (a + 8) = unat a + 8" using b by (simp add: unat_word_ariths)
    have diff: "\<forall>y. \<not> unat (y - (a + 8)) < 8 \<longrightarrow> ?m y = mem s y" by (simp add: poke_bytes_def)
    have t: "holds ?m a (word_bytes t)"
      by (rule other_holds [OF diff h(1)]) (use u8 b in simp_all)
    have x: "holds ?m (a + 8) (word_bytes x)" by (rule poked_holds) simp
    have "?m y = mem s y" if "\<not> unat (y - a) < 16" for y
    proof -
      have "unat (y - (a + 8)) = unat (y - a) - 8" using that by (intro offset_step) simp
      with that have "\<not> unat (y - (a + 8)) < 8" by linarith
      with diff show ?thesis by blast
    qed
    then show ?thesis
      using v ok t x Some
      by (intro exI [of _ v] exI [of _ "s\<lparr>mem := ?m\<rparr>"]) (auto simp: store_word_def has_words_Cons only_mem_def)
  qed
qed

lemma patch_auxv_entries:
  assumes "has_words (mem s) (cursor s) ws" "length ws = 8" "unat (cursor s) + 64 \<le> unat a"
    and "has_words (mem s) a (aux_words av @ [0])" "av \<noteq> []" "\<forall>e \<in> set av. fst e \<noteq> 0"
    and "\<forall>i < 16 * length av. writable s (a + of_nat i)" "unat a + 16 * length av + 8 \<le> 2 ^ 64" "length av \<le> n"
  shows "\<exists>s'. patch_auxv n execfn a s = Some s' \<and> only_mem s s' \<and>
     has_words (mem s') a (aux_words (map (new_aux ws (at_base s) execfn) av) @ [0]) \<and>
     (\<forall>x. \<not> unat (x - a) < 16 * length av \<longrightarrow> mem s' x = mem s x)"
  using assms
proof (induction av arbitrary: a s n)
  case Nil
  then show ?case by simp
next
  case (Cons e av)
  obtain t u where e: "e = (t, u)" by (cases e)
  from Cons.prems(9) obtain n' where n: "n = Suc n'" by (cases n) auto
  let ?len = "length av"
  have b16: "unat a + 16 \<le> 2 ^ 64" "unat a + 16 + 16 * ?len + 8 \<le> 2 ^ 64" using Cons.prems(8) by simp_all
  then have u16: "unat (a + 16) = unat a + 16" by (simp add: unat_word_ariths)
  from Cons.prems(4) have w: "has_words (mem s) a [t, u]" "has_words (mem s) (a + 16) (aux_words av @ [0])"
    using has_words_append [of "mem s" a "[t, u]" "aux_words av @ [0]"] by (simp_all add: e)
  have wr: "\<forall>i<16. writable s (a + of_nat i)" using Cons.prems(7) by auto
  from patch_entry [OF Cons.prems(1,2) w(1) wr b16(1), of execfn] obtain v s1 where s1:
    "patched_value s execfn t = Some v" "(case v of None \<Rightarrow> Some s | Some v \<Rightarrow> store_word (a + 8) v s) = Some s1"
    "has_words (mem s1) a [t, snd (new_aux ws (at_base s) execfn (t, u))]" "only_mem s s1"
    "\<forall>x. \<not> unat (x - a) < 16 \<longrightarrow> mem s1 x = mem s x" by blast
  note f1 = only_mem_fields [OF s1(4)]
  have type: "word_at s a = Some t" using w(1) by (intro word_at_holds) (simp add: has_words_Cons)
  have rest: "has_words (mem s1) (a + 16) (aux_words av @ [0])"
    unfolding has_words_def
    by (rule other_holds [OF s1(5) w(2) [unfolded has_words_def]]) (use b16 u16 in \<open>simp_all add: words_length del: map_append concat_append\<close>)
  have stm: "has_words (mem s1) (cursor s1) ws"
    unfolding has_words_def
    by (rule other_holds [OF s1(5)]) (use Cons.prems(1-3) f1 b16(1) in \<open>simp_all add: words_length has_words_def\<close>)
  have new: "new_aux ws (at_base s) execfn e = (t, snd (new_aux ws (at_base s) execfn (t, u)))"
    by (simp add: e new_aux_def)
  show ?case
  proof (cases av)
    case Nil
    with rest have nx: "word_at s1 (a + 16) = Some 0" by (intro word_at_holds) (simp add: has_words_Cons)
    have p: "patch_auxv n execfn a s = Some s1" unfolding n by (simp add: type s1(1,2) nx AT_NULL_def)
    have "has_words (mem s1) a (aux_words (map (new_aux ws (at_base s) execfn) (e # av)) @ [0])"
      using has_words_append [of "mem s1" a "[t, snd (new_aux ws (at_base s) execfn (t, u))]" "[0]"] s1(3) rest Nil new by simp
    with p s1(4,5) Nil show ?thesis by auto
  next
    case (Cons e2 av2)
    note more = this
    obtain t2 u2 where e2: "e2 = (t2, u2)" by (cases e2)
    have nx: "word_at s1 (a + 16) = Some t2" using rest more e2 by (intro word_at_holds) (simp add: has_words_Cons)
    have t2: "t2 \<noteq> AT_NULL" using Cons.prems(6) more e2 by (auto simp: AT_NULL_def)
    have "\<forall>i < 16 * ?len. writable s1 (a + 16 + of_nat i)"
    proof (intro allI impI)
      fix i assume "i < 16 * ?len"
      with Cons.prems(7) [rule_format, of "16 + i"] f1 show "writable s1 (a + 16 + of_nat i)" by (simp add: add.assoc)
    qed
    from Cons.IH [OF stm Cons.prems(2) _ rest _ _ this, of n'] obtain s' where s':
      "patch_auxv n' execfn (a + 16) s1 = Some s'" "only_mem s1 s'"
      "has_words (mem s') (a + 16) (aux_words (map (new_aux ws (at_base s1) execfn) av) @ [0])"
      "\<forall>x. \<not> unat (x - (a + 16)) < 16 * ?len \<longrightarrow> mem s' x = mem s1 x"
      using Cons.prems(3,6,8,9) u16 f1 more n by auto
    have p: "patch_auxv n execfn a s = Some s'" unfolding n by (simp add: type s1(1,2) nx t2 s'(1))
    have first: "has_words (mem s') a [t, snd (new_aux ws (at_base s) execfn (t, u))]"
      unfolding has_words_def
      by (rule other_holds [OF s'(4) s1(3) [unfolded has_words_def]]) (use b16 u16 in \<open>simp_all add: words_length\<close>)
    have "mem s' x = mem s x" if "\<not> unat (x - a) < 16 * length (e # av)" for x
    proof -
      have "unat (x - (a + 16)) = unat (x - a) - 16"
        using that unat_sub_if' [of "x - a" 16] by (simp add: diff_diff_eq)
      with that s1(5) s'(4) show ?thesis by simp
    qed
    moreover have "has_words (mem s') a (aux_words (map (new_aux ws (at_base s) execfn) (e # av)) @ [0])"
      using has_words_append [of "mem s'" a "[t, snd (new_aux ws (at_base s) execfn (t, u))]"
          "aux_words (map (new_aux ws (at_base s) execfn) av) @ [0]"] first s'(3) f1 new by simp
    ultimately show ?thesis using p only_mem_trans [OF s1(4) s'(2)] by blast
  qed
qed

lemma skip_envp_end:
  "has_words (mem s) (a + 8) (es @ [0]) \<Longrightarrow> 0 \<notin> set es \<Longrightarrow> length es < n \<Longrightarrow> skip_envp s n a = Some (a + 16 + of_nat (8 * length es))"
proof (induction es arbitrary: a n)
  case Nil
  then have "word_at s (a + 8) = Some 0" by (intro word_at_holds) (simp add: has_words_Cons)
  with Nil.prems(3) show ?case by (cases n) auto
next
  case (Cons e es)
  then obtain n' where n: "n = Suc n'" by (cases n) auto
  from Cons.prems(1) have w: "word_at s (a + 8) = Some e" "has_words (mem s) (a + 8 + 8) (es @ [0])"
    by (auto simp: has_words_Cons intro: word_at_holds)
  from Cons.IH [OF w(2), of n'] Cons.prems(2,3) w(1) show ?case unfolding n by (simp add: algebra_simps)
qed

section \<open>The end of the script\<close>

text \<open>The stack that a program finds: arguments, environment, auxiliary vector.\<close>

definition stack_words :: "word_t list \<Rightarrow> word_t list \<Rightarrow> (word_t \<times> word_t) list \<Rightarrow> word_t list" where
  "stack_words argv envp av = of_nat (length argv) # argv @ [0] @ envp @ [0] @ aux_words av @ [0]"

definition aux_at :: "word_t \<Rightarrow> word_t list \<Rightarrow> word_t list \<Rightarrow> word_t" where
  "aux_at sp argv envp = sp + of_nat (8 * (length argv + length envp + 3))"

text \<open>What the loader needs of the stack: it is whole and may be written, and the vector has entries.\<close>

definition good_stack :: "loader \<Rightarrow> word_t \<Rightarrow> word_t list \<Rightarrow> word_t list \<Rightarrow> (word_t \<times> word_t) list \<Rightarrow> bool" where
  "good_stack s sp argv envp av \<longleftrightarrow>
     has_words (mem s) sp (stack_words argv envp av) \<and> argv \<noteq> [] \<and> hd argv \<noteq> 0 \<and> 0 \<notin> set envp \<and> av \<noteq> [] \<and> (\<forall>e \<in> set av. fst e \<noteq> 0) \<and>
     (\<forall>i < 8 * length (stack_words argv envp av). writable s (sp + of_nat i)) \<and>
     unat sp + 8 * length (stack_words argv envp av) < 2 ^ 64"

lemma stack_words_length: "length (stack_words argv envp av) = length argv + length envp + 2 * length av + 4"
  by (simp add: stack_words_def)

lemma user_string_held:
  "holds m a (bs @ [0]) \<Longrightarrow> 0 \<notin> set bs \<Longrightarrow> length bs < n \<Longrightarrow> user_string m a n = Some bs"
proof (induction bs arbitrary: a n)
  case Nil
  then show ?case by (cases n) (auto simp: holds_def)
next
  case (Cons b bs)
  then obtain n' where n: "n = Suc n'" by (cases n) auto
  from Cons.prems(1) holds_append [of m a "[b]" "bs @ [0]"] have "m a = Some b" "holds m (a + 1) (bs @ [0])"
    by (auto simp: holds_def)
  with Cons show ?case by (simp add: n)
qed

lemma load_start_runs:
  assumes st: "has_words (mem s) (cursor s) ws" "length ws = 8" "ws ! 1 = sp" "unat (cursor s) + 64 \<le> unat sp"
    and g: "good_stack s sp argv envp av" and fd: "opened s \<noteq> None"
    and name: "holds (mem s) (hd argv) (nm @ [0])" "0 \<notin> set nm"
      "unat (aux_at sp argv envp) + 16 * length av \<le> unat (hd argv)" "unat (hd argv) + length nm + 1 < 2 ^ 64"
    and n: "length envp < n" "length av \<le> n" "length nm < n"
  shows "\<exists>s'. load_start n False s = Some (Started sp (ws ! 2) s') \<and> only_mem s s' \<and>
     has_words (mem s') sp (stack_words argv envp (map (new_aux ws (at_base s) (hd argv)) av)) \<and>
     (\<forall>x. \<not> unat (x - aux_at sp argv envp) < 16 * length av \<longrightarrow> mem s' x = mem s x)"
proof -
  let ?aux = "aux_at sp argv envp" and ?a = "length argv" and ?e = "length envp" and ?v = "length av"
  let ?head = "of_nat ?a # argv @ [0] @ envp @ [0]"
  have b: "unat sp + 8 * (?a + ?e + 2 * ?v + 4) < 2 ^ 64" using g by (simp add: good_stack_def stack_words_length)
  have uaux: "unat ?aux = unat sp + 8 * (?a + ?e + 3)"
    unfolding aux_at_def using b by (simp add: unat_word_ariths unat_of_nat)
  have sw: "stack_words argv envp x = ?head @ aux_words x @ [0]" for x by (simp add: stack_words_def)
  have hl: "length ?head = ?a + ?e + 3" by simp
  have w: "has_words (mem s) sp ?head" "has_words (mem s) ?aux (aux_words av @ [0])"
    using g unfolding good_stack_def sw has_words_append [of _ _ ?head] hl by (simp_all add: aux_at_def)
  have argc: "word_at s sp = Some (of_nat ?a)" using statement_words(1) [OF w(1)] by simp
  have execfn: "word_at s (sp + 8) = Some (hd argv)"
    using statement_words(2) [OF w(1)] g by (cases argv) (simp_all add: good_stack_def)
  have env: "has_words (mem s) (sp + 8 * (of_nat ?a + 1) + 8) (envp @ [0])"
    using w(1) has_words_append [of "mem s" sp "of_nat ?a # argv @ [0]" "envp @ [0]"] by (simp add: algebra_simps)
  have skip: "skip_envp s n (sp + 8 * (of_nat ?a + 1)) = Some ?aux"
    using skip_envp_end [OF env _ n(1)] g by (simp add: good_stack_def aux_at_def algebra_simps)
  have "\<forall>i < 16 * ?v. writable s (?aux + of_nat i)"
  proof (intro allI impI)
    fix i assume "i < 16 * ?v"
    then have "8 * (?a + ?e + 3) + i < 8 * length (stack_words argv envp av)" by (simp add: stack_words_length)
    with g have "writable s (sp + of_nat (8 * (?a + ?e + 3) + i))" unfolding good_stack_def by blast
    then show "writable s (?aux + of_nat i)" by (simp add: aux_at_def add.assoc)
  qed
  from patch_auxv_entries [OF st(1,2) _ w(2) _ _ this _ n(2), of "hd argv"] obtain s' where s':
    "patch_auxv n (hd argv) ?aux s = Some s'" "only_mem s s'"
    "has_words (mem s') ?aux (aux_words (map (new_aux ws (at_base s) (hd argv)) av) @ [0])"
    "\<forall>x. \<not> unat (x - ?aux) < 16 * ?v \<longrightarrow> mem s' x = mem s x"
    using g uaux b st(4) by (auto simp: good_stack_def)
  have top: "unat ?aux + 16 * ?v \<le> 2 ^ 64" using uaux b by simp
  have head: "has_words (mem s') sp ?head"
    unfolding has_words_def
    by (rule other_holds [OF s'(4) w(1) [unfolded has_words_def] _ _ top])
       (use uaux b in \<open>simp_all add: words_length del: map_append concat_append\<close>)
  have stm: "has_words (mem s') (cursor s') ws"
    unfolding has_words_def
    by (rule other_holds [OF s'(4) _ _ _ top])
       (use st uaux b only_mem_fields [OF s'(2)] in \<open>simp_all add: words_length has_words_def\<close>)
  have str: "holds (mem s') (hd argv) (nm @ [0])"
    by (rule other_holds [OF s'(4) name(1) _ _ top]) (use name(3,4) in simp_all)
  have "load_start n False s = Some (Started sp (ws ! 2) s')"
    using statement_words(2) [OF st(1)] statement_words(2,3) [OF stm] st(2,3) argc execfn skip s'(1) fd
      user_string_held [OF str name(2) n(3)] g
    by (simp add: load_start_def good_stack_def)
  moreover have "has_words (mem s') sp (stack_words argv envp (map (new_aux ws (at_base s) (hd argv)) av))"
    unfolding sw has_words_append [of _ _ ?head] hl using head s'(3) by (simp add: aux_at_def)
  ultimately show ?thesis using s'(2,4) by blast
qed

section \<open>The whole script\<close>

text \<open>What the script is for: both files are opened and their segments mapped, in this order.\<close>

definition map_file :: "ld_kernel \<Rightarrow> load_info \<Rightarrow> loader \<Rightarrow> loader option" where
  "map_file k info s =
     do { f \<leftarrow> ld_open k (li_user info); do_mappings k (mappings info) (s\<lparr>opened := Some f, reset_at_base := True\<rparr>) }"

definition map_program :: "ld_kernel \<Rightarrow> load_info \<Rightarrow> load_info option \<Rightarrow> loader \<Rightarrow> loader option" where
  "map_program k main interp s =
     do { s \<leftarrow> map_file k main s; (case interp of None \<Rightarrow> Some s | Some i \<Rightarrow> map_file k i s) }"

definition name_ok :: "load_info \<Rightarrow> bool" where
  "name_ok info \<longleftrightarrow> NUL \<notin> set (li_user info) \<and> length (li_user info) < PATH_MAX"

lemma run_file:
  assumes w: "has_words (mem s) (cursor s) ([act, a] @ transcript_mappings (mappings info) @ rest)"
    and act: "act = LOAD_ACTION_OPEN \<or> act = LOAD_ACTION_OPEN_NEXT \<and> opened s \<noteq> None"
    and nm: "holds (mem s) a (c_bytes (li_user info))" "name_ok info"
    and d: "map_file k info s = Some s'" and ap: "\<forall>m \<in> set (mappings info). apart lo hi m"
    and r: "in_range lo hi (cursor s) (16 + (48 * length (mappings info) + 8 * length rest))"
  shows "run_loader k (Suc (length (mappings info)) + n) s =
      run_loader k n (s'\<lparr>cursor := cursor s + 16 + of_nat (48 * length (mappings info))\<rparr>)"
    and "has_words (mem s') (cursor s + 16 + of_nat (48 * length (mappings info))) rest" and "same_above lo hi s s'"
    and "opened s' \<noteq> None"
proof -
  let ?ms = "mappings info" and ?c = "cursor s + 16"
  obtain f where f: "ld_open k (li_user info) = Some f" "do_mappings k ?ms (s\<lparr>opened := Some f, reset_at_base := True\<rparr>) = Some s'"
    using d by (auto simp: map_file_def bind_eq_Some_conv)
  let ?s1 = "s\<lparr>opened := Some f, reset_at_base := True, cursor := ?c\<rparr>"
  have tl: "length (transcript_mappings ms) = 6 * length ms" for ms
    by (induction ms) (simp_all add: transcript_mappings_def transcript_mapping_def)
  have w1: "has_words (mem s) (cursor s) [act, a]" "has_words (mem s) ?c (transcript_mappings ?ms @ rest)"
    using w unfolding has_words_append [of _ _ "[act, a]"] by simp_all
  have "length (bytes_of (li_user info)) = length (li_user info)" by (simp add: bytes_of_def)
  then have "user_string (mem s) a PATH_MAX = Some (bytes_of (li_user info))"
    using nm user_string_held [of "mem s" a "bytes_of (li_user info)" PATH_MAX]
    by (simp add: c_bytes_def name_ok_def bytes_of_zero)
  from step_open [OF w1(1) act this] f(1) have step: "loader_step k m s = Some (Inl ?s1)" for m
    by (simp add: string_of_bytes)
  have d1: "do_mappings k ?ms ?s1 = Some (s'\<lparr>cursor := ?c\<rparr>)"
    using do_mappings_cursor [of k ?ms ?c "s\<lparr>opened := Some f, reset_at_base := True\<rparr>"] f(2) by simp
  from in_range_append [OF r] have r1: "in_range lo hi ?c (48 * length ?ms + 8 * length rest)" by simp
  have "run_loader k (length ?ms + n) ?s1 = run_loader k n (s'\<lparr>cursor := ?c\<rparr>\<lparr>cursor := ?c + of_nat (48 * length ?ms)\<rparr>)"
    using run_mappings [of ?s1 ?ms rest k "s'\<lparr>cursor := ?c\<rparr>" lo hi n] w1(2) d1 ap r1 by simp
  then show "run_loader k (Suc (length ?ms) + n) s = run_loader k n (s'\<lparr>cursor := ?c + of_nat (48 * length ?ms)\<rparr>)"
    by (simp add: step)
  have same: "same_above lo hi ?s1 (s'\<lparr>cursor := ?c\<rparr>) \<and> opened (s'\<lparr>cursor := ?c\<rparr>) = opened ?s1"
    using mappings_same_above [OF d1 ap] by blast
  then show sa: "same_above lo hi s s'" and "opened s' \<noteq> None" by (simp_all add: same_above_def)
  have "has_words (mem s) (?c + of_nat (48 * length ?ms)) rest"
    using w1(2) unfolding has_words_append tl by simp
  then show "has_words (mem s') (?c + of_nat (48 * length ?ms)) rest"
    using same_above_words [OF sa] in_range_append(2) [OF r1] by blast
qed

definition script_turns :: "load_info \<Rightarrow> load_info option \<Rightarrow> nat" where
  "script_turns main interp =
     Suc (length (mappings main)) + (case interp of None \<Rightarrow> 0 | Some i \<Rightarrow> Suc (length (mappings i))) +
     (if executable_stack main \<or> (case interp of None \<Rightarrow> False | Some i \<Rightarrow> executable_stack i) then 1 else 0)"

definition entry_point :: "load_info \<Rightarrow> load_info option \<Rightarrow> word_t" where
  "entry_point main interp = (case interp of None \<Rightarrow> e_entry (header main) | Some i \<Rightarrow> e_entry (header i))"

definition start_words :: "word_t \<Rightarrow> load_info \<Rightarrow> load_info option \<Rightarrow> word_t \<Rightarrow> word_t list" where
  "start_words sp main interp addr3 =
     [LOAD_ACTION_START, sp, entry_point main interp, e_phoff (header main) + m_addr (hd (mappings main)),
      ucast (e_phentsize (header main)), ucast (e_phnum (header main)), e_entry (header main), addr3]"

definition stack_exec_words :: "word_t \<Rightarrow> word_t \<Rightarrow> load_info \<Rightarrow> load_info option \<Rightarrow> word_t list" where
  "stack_exec_words pg sp main interp =
     (if executable_stack main \<or> (case interp of None \<Rightarrow> False | Some i \<Rightarrow> executable_stack i)
      then [LOAD_ACTION_MAKE_STACK_EXEC, sp AND page_mask pg] else [])"

lemma load_script_parts:
  "load_script pg sp main interp addr1 addr2 addr3 =
     [LOAD_ACTION_OPEN, addr1] @ transcript_mappings (mappings main) @
     (case interp of None \<Rightarrow> [] | Some i \<Rightarrow> [LOAD_ACTION_OPEN_NEXT, addr2] @ transcript_mappings (mappings i)) @
     stack_exec_words pg sp main interp @ start_words sp main interp addr3"
  by (simp add: load_script_def stack_exec_words_def start_words_def entry_point_def Let_def split: option.split)

text \<open>The last statements: the stack is made executable, the program starts.\<close>

lemma run_end:
  assumes "has_words (mem s) (cursor s) (stack_exec_words pg sp main interp @ start_words sp main interp addr3)"
  shows "\<exists>c. has_words (mem s) c (start_words sp main interp addr3) \<and>
     c = cursor s + of_nat (8 * length (stack_exec_words pg sp main interp)) \<and>
     run_loader k ((if stack_exec_words pg sp main interp = [] then 0 else 1) + Suc n) s =
       load_start n False (s\<lparr>cursor := c\<rparr>)"
proof -
  let ?st = "start_words sp main interp addr3" and ?x = "stack_exec_words pg sp main interp"
  have start: "run_loader k (Suc n) z = load_start n False z" if "has_words (mem z) (cursor z) ?st" for z
  proof -
    have "word_at z (cursor z) = Some LOAD_ACTION_START" using statement_words(1) [OF that] by (simp add: start_words_def)
    then have "loader_step k n z = map_option Inr (load_start n False z)"
      by (simp add: loader_step_def LOAD_ACTION_START_def LOAD_ACTION_OPEN_NEXT_def LOAD_ACTION_OPEN_def LOAD_ACTION_MMAP_FILE_def
          LOAD_ACTION_MMAP_ANON_def LOAD_ACTION_MAKE_STACK_EXEC_def LOAD_ACTION_START_TRACED_def)
    then show ?thesis by (simp split: option.split)
  qed
  show ?thesis
  proof (cases "?x = []")
    case True
    with assms start [of s] show ?thesis by simp
  next
    case False
    then have x: "?x = [LOAD_ACTION_MAKE_STACK_EXEC, sp AND page_mask pg]" by (simp add: stack_exec_words_def split: if_splits)
    from assms have w: "has_words (mem s) (cursor s) ?x" "has_words (mem s) (cursor s + 16) ?st"
      unfolding has_words_append x by simp_all
    have "loader_step k m s = Some (Inl (s\<lparr>cursor := cursor s + 16\<rparr>))" for m
      using statement_words(1,2) [OF w(1)] unfolding x
      by (simp add: loader_step_def LOAD_ACTION_OPEN_NEXT_def LOAD_ACTION_OPEN_def LOAD_ACTION_MMAP_FILE_def
          LOAD_ACTION_MMAP_ANON_def LOAD_ACTION_MAKE_STACK_EXEC_def)
    with w(2) start [of "s\<lparr>cursor := cursor s + 16\<rparr>"] show ?thesis by (simp add: x)
  qed
qed

section \<open>From the tracer to the program\<close>

definition loader_start :: "memory \<Rightarrow> (word_t \<Rightarrow> bool) \<Rightarrow> word_t \<Rightarrow> loader" where
  "loader_start m wr c = \<lparr>mem = m, writable = wr, opened = None, at_base = 0, reset_at_base = True, cursor = c\<rparr>"

text \<open>What the tracer wrote.\<close>

lemma script_written:
  assumes "transfer_load_script pg main interp (t, m) = Inr (None, t', m')"
    and sp: "sp = peek_reg CURRENT STACK_POINTER t" and lo: "lo = peek_reg CURRENT USERARG_1 t'" and below: "lo \<le> sp"
  obtains addr1 addr2 addr3 n where
    "has_words m' lo (load_script pg sp main interp addr1 addr2 addr3)" "holds m' addr1 (c_bytes (li_user main))"
    "\<And>i. interp = Some i \<Longrightarrow> holds m' addr2 (c_bytes (li_user i)) \<and> lo \<le> addr2 \<and> unat addr2 + length (c_bytes (li_user i)) \<le> unat sp"
    "unat lo + n = unat sp" "8 * length (load_script pg sp main interp addr1 addr2 addr3) \<le> n"
    "\<forall>x. \<not> unat (x - lo) < n \<longrightarrow> m' x = m x" "mappings main \<noteq> []"
proof -
  let ?str = "script_strings main interp"
  let ?u = "c_bytes (li_user main)"
  define pad where "pad = script_padding sp (of_nat (length ?str))"
  define addr1 where "addr1 = sp - (of_nat (length ?str) + pad)"
  define addr2 where "addr2 = addr1 + of_nat (length ?u)"
  define addr3 where "addr3 = (if li_raw main = None then addr1
      else addr2 + (case interp of None \<Rightarrow> 0 | Some i \<Rightarrow> of_nat (length (c_bytes (li_user i)))))"
  define ws where "ws = load_script pg sp main interp addr1 addr2 addr3"
  define buf where "buf = concat (map word_bytes ws) @ ?str @ replicate (unat pad) 0"
  have ne: "mappings main \<noteq> []" and small: "length buf < MAX_TALLOC_SIZE"
    and wr: "write_data m (sp - of_nat (length buf)) buf = (None, m')"
    and t': "t' = (save_current_regs ORIGINAL (poke_reg USERARG_1 (sp - of_nat (length buf))
        (poke_reg STACK_POINTER (sp - of_nat (length buf)) t)))\<lparr>regs_were_changed := True\<rparr>"
    using assms(1)
    unfolding transfer_load_script_def Let_def prod.case sp [symmetric] pad_def [symmetric] addr1_def [symmetric]
      addr2_def [symmetric] addr3_def [symmetric] ws_def [symmetric] buf_def [symmetric]
    by (auto split: if_splits prod.splits option.splits)
  have lo': "lo = sp - of_nat (length buf)"
    unfolding lo t' by (simp add: peek_reg_def poke_reg_def save_current_regs_def)
  have lb: "length buf < 2 ^ 64 - 8" using small by (simp add: MAX_TALLOC_SIZE_def)
  have le: "length buf \<le> unat sp"
  proof (rule ccontr)
    assume "\<not> length buf \<le> unat sp"
    then have "unat lo = 2 ^ 64 + unat sp - length buf"
      using lb by (simp add: lo' unat_sub_if' unat_of_nat)
    with below lb show False by (simp add: word_le_nat_alt)
  qed
  have ul: "unat lo + length buf = unat sp"
    using le lb unsigned_less [of sp, where 'a = nat] by (simp add: lo' unat_sub_if' unat_of_nat)
  have m': "m' = poke_bytes m lo buf" using write_data_done [OF wr lb] by (simp add: lo')
  have h: "holds m' lo buf" unfolding m' by (rule poked_holds) (use lb in simp)
  have script: "has_words m' lo ws" using h unfolding buf_def holds_append has_words_def by blast
  have strings: "holds m' (lo + of_nat (8 * length ws)) (?str @ replicate (unat pad) 0)"
    using h unfolding buf_def holds_append [of _ _ "concat (map word_bytes ws)"] words_length by blast
  have lbuf: "length buf = 8 * length ws + (length ?str + unat pad)" by (simp add: buf_def words_length)
  have a1: "lo + of_nat (8 * length ws) = addr1" by (simp add: lo' addr1_def lbuf)
  have u: "holds m' addr1 ?u" using strings unfolding a1 script_strings_def holds_append by blast
  have i: "holds m' addr2 (c_bytes (li_user i)) \<and> lo \<le> addr2 \<and> unat addr2 + length (c_bytes (li_user i)) \<le> unat sp"
    if "interp = Some i" for i
  proof -
    have "holds m' addr2 (c_bytes (li_user i))"
      using strings that unfolding a1 script_strings_def holds_append addr2_def by simp
    moreover have k: "8 * length ws + length ?u + length (c_bytes (li_user i)) \<le> length buf"
      using that by (simp add: lbuf script_strings_def)
    then have "unat addr2 = unat lo + (8 * length ws + length ?u)"
      using ul unsigned_less [of sp, where 'a = nat] lb
      by (simp add: addr2_def a1 [symmetric] unat_word_ariths unat_of_nat)
    ultimately show ?thesis using ul k by (simp add: word_le_nat_alt)
  qed
  have x: "\<forall>x. \<not> unat (x - lo) < length buf \<longrightarrow> m' x = m x" unfolding m' by (simp add: poke_bytes_def)
  show thesis
    by (rule that [of addr1 addr2 addr3 "length buf"]) (use script u i ul x ne lbuf in \<open>simp_all add: ws_def [symmetric]\<close>)
qed

definition file_mappings :: "load_info \<Rightarrow> load_info option \<Rightarrow> mapping list" where
  "file_mappings main interp = mappings main @ (case interp of None \<Rightarrow> [] | Some i \<Rightarrow> mappings i)"

lemma map_file_cursor: "map_file k i (s\<lparr>cursor := c\<rparr>) = map_option (\<lambda>s. s\<lparr>cursor := c\<rparr>) (map_file k i s)"
proof (cases "ld_open k (li_user i)")
  case (Some f)
  have e: "s\<lparr>cursor := c, opened := Some f, reset_at_base := True\<rparr> = s\<lparr>opened := Some f, reset_at_base := True, cursor := c\<rparr>"
    by (cases s) simp
  show ?thesis unfolding map_file_def Some bind.bind_lunit e do_mappings_cursor ..
qed (simp add: map_file_def)

text \<open>Both files one after the other: where the cursor is then, and what is left of the memory.\<close>

lemma run_program:
  assumes w: "has_words (mem s) (cursor s) ([LOAD_ACTION_OPEN, addr1] @ transcript_mappings (mappings main) @
      (case interp of None \<Rightarrow> [] | Some i \<Rightarrow> [LOAD_ACTION_OPEN_NEXT, addr2] @ transcript_mappings (mappings i)) @ rest)"
    and nm: "holds (mem s) addr1 (c_bytes (li_user main))" "name_ok main" "\<forall>i. interp = Some i \<longrightarrow> name_ok i"
      "\<And>i. interp = Some i \<Longrightarrow> holds (mem s) addr2 (c_bytes (li_user i)) \<and> in_range lo hi addr2 (length (c_bytes (li_user i)))"
    and d: "map_program k main interp s = Some s'" and ap: "\<forall>m \<in> set (file_mappings main interp). apart lo hi m"
    and r: "in_range lo hi (cursor s) (8 * (2 + 6 * length (mappings main) +
      (case interp of None \<Rightarrow> 0 | Some i \<Rightarrow> 2 + 6 * length (mappings i)) + length rest))"
  shows "\<exists>c. run_loader k (Suc (length (mappings main)) + (case interp of None \<Rightarrow> 0 | Some i \<Rightarrow> Suc (length (mappings i))) + n) s =
      run_loader k n (s'\<lparr>cursor := c\<rparr>) \<and> has_words (mem s') c rest \<and>
      c = cursor s + of_nat (8 * (2 + 6 * length (mappings main) + (case interp of None \<Rightarrow> 0 | Some i \<Rightarrow> 2 + 6 * length (mappings i)))) \<and>
      same_above lo hi s s' \<and> opened s' \<noteq> None"
proof (cases interp)
  case None
  have w0: "has_words (mem s) (cursor s) ([LOAD_ACTION_OPEN, addr1] @ transcript_mappings (mappings main) @ rest)"
    using w by (simp add: None)
  have d0: "map_file k main s = Some s'" using d by (simp add: map_program_def None bind_eq_Some_conv)
  have ap0: "\<forall>m \<in> set (mappings main). apart lo hi m" using ap by (simp add: file_mappings_def None)
  have r0: "in_range lo hi (cursor s) (16 + (48 * length (mappings main) + 8 * length rest))"
    using r by (simp add: None algebra_simps)
  note f = run_file [OF w0 disjI1 [OF refl] nm(1,2) d0 ap0 r0]
  show ?thesis
    by (intro exI [of _ "cursor s + 16 + of_nat (48 * length (mappings main))"]) (use f in \<open>simp add: None\<close>)
next
  case (Some i)
  let ?rest = "[LOAD_ACTION_OPEN_NEXT, addr2] @ transcript_mappings (mappings i) @ rest" and ?n = "Suc (length (mappings i)) + n"
  let ?c1 = "cursor s + 16 + of_nat (48 * length (mappings main))"
  have tl: "length (transcript_mappings ms) = 6 * length ms" for ms
    by (induction ms) (simp_all add: transcript_mappings_def transcript_mapping_def)
  have lr: "length ?rest = 2 + 6 * length (mappings i) + length rest" by (simp add: tl)
  obtain s1 where d1: "map_file k main s = Some s1" "map_file k i s1 = Some s'"
    using d by (auto simp: map_program_def Some bind_eq_Some_conv)
  have w1: "has_words (mem s) (cursor s) ([LOAD_ACTION_OPEN, addr1] @ transcript_mappings (mappings main) @ ?rest)"
    using w by (simp add: Some)
  have ap1: "\<forall>m \<in> set (mappings main). apart lo hi m" "\<forall>m \<in> set (mappings i). apart lo hi m"
    using ap by (simp_all add: file_mappings_def Some)
  have r1: "in_range lo hi (cursor s) (16 + (48 * length (mappings main) + 8 * length ?rest))"
    using r unfolding lr by (simp add: Some algebra_simps)
  note f1 = run_file [OF w1 disjI1 [OF refl] nm(1,2) d1(1) ap1(1) r1]
  let ?s1 = "s1\<lparr>cursor := ?c1\<rparr>"
  have w2: "has_words (mem ?s1) (cursor ?s1) ([LOAD_ACTION_OPEN_NEXT, addr2] @ transcript_mappings (mappings i) @ rest)"
    using f1(2) by simp
  have sa: "same_above lo hi s ?s1" using f1(3) by (simp add: same_above_def)
  have nm2: "holds (mem ?s1) addr2 (c_bytes (li_user i))" using same_above_holds [OF sa] nm(4) [OF Some] by blast
  have d2: "map_file k i ?s1 = Some (s'\<lparr>cursor := ?c1\<rparr>)"
    using d1(2) by (simp add: map_file_cursor)
  have r2: "in_range lo hi (cursor ?s1) (16 + (48 * length (mappings i) + 8 * length rest))"
  proof -
    have "in_range lo hi (cursor s) (16 + 48 * length (mappings main) + (16 + (48 * length (mappings i) + 8 * length rest)))"
      using r by (simp add: Some algebra_simps)
    from in_range_append(2) [OF this] show ?thesis by (simp add: add.assoc)
  qed
  note f2 = run_file [OF w2 _ nm2 _ d2 ap1(2) r2]
  have nx: "LOAD_ACTION_OPEN_NEXT = LOAD_ACTION_OPEN \<or> LOAD_ACTION_OPEN_NEXT = LOAD_ACTION_OPEN_NEXT \<and> opened ?s1 \<noteq> None"
    using f1(4) by simp
  have ok: "name_ok i" using nm(3) Some by simp
  let ?c2 = "?c1 + 16 + of_nat (48 * length (mappings i))"
  have "run_loader k (Suc (length (mappings main)) + ?n) s = run_loader k n (s'\<lparr>cursor := ?c2\<rparr>)"
    using f1(1) [of ?n] f2(1) [OF nx ok, of n] by (simp del: run_loader.simps)
  moreover have "has_words (mem s') ?c2 rest" "same_above lo hi ?s1 s'" "opened s' \<noteq> None"
    using f2(2-4) [OF nx ok] by (simp_all add: same_above_def)
  moreover have "same_above lo hi s s'" using same_above_trans [OF sa \<open>same_above lo hi ?s1 s'\<close>] .
  ultimately show ?thesis by (intro exI [of _ ?c2]) (simp add: Some algebra_simps del: run_loader.simps)
qed

text \<open>The auxiliary vector that the program finds.\<close>

definition program_aux :: "load_info \<Rightarrow> word_t \<Rightarrow> word_t \<Rightarrow> word_t \<times> word_t \<Rightarrow> word_t \<times> word_t" where
  "program_aux main base execfn e =
     (fst e, if fst e = AT_PHDR then e_phoff (header main) + m_addr (hd (mappings main))
       else if fst e = AT_PHENT then ucast (e_phentsize (header main))
       else if fst e = AT_PHNUM then ucast (e_phnum (header main))
       else if fst e = AT_ENTRY then e_entry (header main)
       else if fst e = AT_BASE then base else if fst e = AT_EXECFN then execfn else snd e)"

lemma new_aux_program: "new_aux (start_words sp main interp addr3) = program_aux main"
  by (intro ext) (simp add: new_aux_def program_aux_def start_words_def)

lemma loader_runs_fact:
  assumes tr: "transfer_load_script pg main interp (t, m) = Inr (None, t', m')"
    and sp: "sp = peek_reg CURRENT STACK_POINTER t" and lo: "lo = peek_reg CURRENT USERARG_1 t'" "lo \<le> sp"
    and names: "name_ok main" "\<forall>i. interp = Some i \<longrightarrow> name_ok i"
    and ap: "\<forall>p \<in> set (file_mappings main interp). apart lo hi p"
    and mp: "map_program k main interp (loader_start m' wr lo) = Some s2"
    and g: "good_stack (loader_start m wr lo) sp argv envp av"
    and nm: "holds m (hd argv) (nm @ [0])" "0 \<notin> set nm" "unat (aux_at sp argv envp) + 16 * length av + 8 \<le> unat (hd argv)"
      "unat (hd argv) + length nm + 1 \<le> unat hi"
    and n: "length envp < n" "length av \<le> n" "length nm < n"
  shows "\<exists>s'. run_loader k (script_turns main interp + Suc n) (loader_start m' wr lo) = Some (Started sp (entry_point main interp) s') \<and>
     has_words (mem s') sp (stack_words argv envp (map (program_aux main (at_base s2) (hd argv)) av)) \<and>
     (\<forall>x. \<not> unat (x - aux_at sp argv envp) < 16 * length av \<longrightarrow> mem s' x = mem s2 x)"
proof -
  let ?ini = "loader_start m' wr lo"
  have f0 [simp]: "mem ?ini = m'" "cursor ?ini = lo" "writable ?ini = wr" "mem (loader_start m wr lo) = m" "writable (loader_start m wr lo) = wr"
    by (simp_all add: loader_start_def)
  obtain addr1 addr2 addr3 l where
    w: "has_words m' lo (load_script pg sp main interp addr1 addr2 addr3)" and h: "holds m' addr1 (c_bytes (li_user main))"
    and h2: "\<And>i. interp = Some i \<Longrightarrow> holds m' addr2 (c_bytes (li_user i)) \<and> lo \<le> addr2 \<and> unat addr2 + length (c_bytes (li_user i)) \<le> unat sp"
    and l: "unat lo + l = unat sp" "8 * length (load_script pg sp main interp addr1 addr2 addr3) \<le> l"
    and same: "\<forall>x. \<not> unat (x - lo) < l \<longrightarrow> m' x = m x" and ne: "mappings main \<noteq> []"
    using script_written [OF tr sp lo] by blast
  let ?x = "stack_exec_words pg sp main interp" and ?st = "start_words sp main interp addr3"
  let ?k = "2 + 6 * length (mappings main) + (case interp of None \<Rightarrow> 0 | Some i \<Rightarrow> 2 + 6 * length (mappings i))"
  have tl: "length (transcript_mappings ms) = 6 * length ms" for ms
    by (induction ms) (simp_all add: transcript_mappings_def transcript_mapping_def)
  have sl: "length (load_script pg sp main interp addr1 addr2 addr3) = ?k + length (?x @ ?st)"
    by (simp add: load_script_parts tl split: option.split)
  let ?len = "length argv + length envp + 2 * length av + 4"
  have gs: "unat sp + 8 * ?len < 2 ^ 64" using g by (simp add: good_stack_def stack_words_length)
  have uaux: "unat (aux_at sp argv envp) = unat sp + 8 * (length argv + length envp + 3)"
    unfolding aux_at_def using gs by (simp add: unat_word_ariths unat_of_nat)
  have top: "unat sp + 8 * ?len \<le> unat (hd argv)" using nm(3) uaux by simp
  have hi: "unat hi < 2 ^ 64" using unsigned_less [of hi, where 'a = nat] by simp
  have reg: "in_range lo hi a b" if "lo \<le> a" "unat a + b \<le> unat (hd argv) + length nm + 1" for a b
    using that nm(4) by (simp add: in_range_def)
  have r: "in_range lo hi (cursor ?ini) (8 * (?k + length (?x @ ?st)))"
    by (rule reg) (use l sl top in \<open>simp_all del: length_append\<close>)
  have i2: "holds (mem ?ini) addr2 (c_bytes (li_user i)) \<and> in_range lo hi addr2 (length (c_bytes (li_user i)))" if "interp = Some i" for i
    using h2 [OF that] top by (auto intro!: reg)
  have w': "has_words (mem ?ini) (cursor ?ini) ([LOAD_ACTION_OPEN, addr1] @ transcript_mappings (mappings main) @
      (case interp of None \<Rightarrow> [] | Some i \<Rightarrow> [LOAD_ACTION_OPEN_NEXT, addr2] @ transcript_mappings (mappings i)) @ ?x @ ?st)"
    using w by (simp add: load_script_parts)
  have hm: "holds (mem ?ini) addr1 (c_bytes (li_user main))" using h by simp
  from run_program [OF w' hm names(1,2) i2 mp ap r, of "(if ?x = [] then 0 else 1) + Suc n"]
  obtain c where "run_loader k (Suc (length (mappings main)) + (case interp of None \<Rightarrow> 0 | Some i \<Rightarrow> Suc (length (mappings i))) +
        ((if ?x = [] then 0 else 1) + Suc n)) ?ini = run_loader k ((if ?x = [] then 0 else 1) + Suc n) (s2\<lparr>cursor := c\<rparr>) \<and>
      has_words (mem s2) c (?x @ ?st) \<and> c = cursor ?ini + of_nat (8 * ?k) \<and> same_above lo hi ?ini s2 \<and> opened s2 \<noteq> None" ..
  then have c: "run_loader k (Suc (length (mappings main)) + (case interp of None \<Rightarrow> 0 | Some i \<Rightarrow> Suc (length (mappings i))) +
        ((if ?x = [] then 0 else 1) + Suc n)) ?ini = run_loader k ((if ?x = [] then 0 else 1) + Suc n) (s2\<lparr>cursor := c\<rparr>)"
      "has_words (mem s2) c (?x @ ?st)" "c = lo + of_nat (8 * ?k)" "same_above lo hi ?ini s2" "opened s2 \<noteq> None"
    unfolding f0 by blast+
  let ?s = "s2\<lparr>cursor := c\<rparr>"
  have "has_words (mem ?s) (cursor ?s) (?x @ ?st)" using c(2) by simp
  from run_end [OF this, of k n] obtain c2 where c2: "has_words (mem ?s) c2 ?st"
      "c2 = cursor ?s + of_nat (8 * length ?x)"
      "run_loader k ((if ?x = [] then 0 else 1) + Suc n) ?s = load_start n False (?s\<lparr>cursor := c2\<rparr>)"
    by (elim exE conjE)
  let ?z = "?s\<lparr>cursor := c2\<rparr>"
  have uc: "unat c2 + 64 \<le> unat sp"
  proof -
    have st8: "length ?st = 8" by (simp add: start_words_def)
    then have le: "8 * (?k + length ?x) + 64 \<le> l" using l(2) unfolding sl by simp
    have "cursor ?s = c" by simp
    then have "c2 = c + of_nat (8 * length ?x)" using c2(2) by (simp only:)
    then have e: "c2 = lo + of_nat (8 * (?k + length ?x))"
      using c(3) by (simp only: distrib_left of_nat_add add.assoc)
    have "unat lo + 8 * (?k + length ?x) < 2 ^ 64" using le l(1) gs by linarith
    then have "unat c2 = unat lo + 8 * (?k + length ?x)"
      unfolding e by (rule unat_plus_offset)
    with le l(1) show ?thesis by linarith
  qed
  have keep: "mem s2 y = m y \<and> writable s2 y = wr y" if "sp \<le> y" "y < hi" for y
  proof -
    have "unat lo \<le> unat y" using that lo(2) by (simp add: word_le_nat_alt)
    then have "unat (y - lo) = unat y - unat lo" by (simp add: unat_sub word_le_nat_alt)
    then have "\<not> unat (y - lo) < l" using that(1) l(1) by (simp add: word_le_nat_alt)
    with same c(4) that lo(2) show ?thesis by (auto simp: same_above_def)
  qed
  have keeps: "same_above sp hi (loader_start m wr lo) ?z" using keep by (simp add: same_above_def)
  have regs: "in_range sp hi a b" if "sp \<le> a" "unat a + b \<le> unat (hd argv) + length nm + 1" for a b
    using that nm(4) by (simp add: in_range_def)
  have sw: "in_range sp hi sp (8 * length (stack_words argv envp av))"
    by (rule regs) (use top in \<open>simp_all add: stack_words_length\<close>)
  have gz: "good_stack ?z sp argv envp av"
    unfolding good_stack_def
  proof (intro conjI)
    show "has_words (mem ?z) sp (stack_words argv envp av)"
      by (rule same_above_words [OF keeps _ sw]) (use g in \<open>simp add: good_stack_def\<close>)
    show "\<forall>i<8 * length (stack_words argv envp av). writable ?z (sp + of_nat i)"
      using in_range_member [OF sw] keep g by (auto simp: good_stack_def)
  qed (use g in \<open>simp_all add: good_stack_def\<close>)
  have sh: "sp \<le> hd argv" using top by (simp add: word_le_nat_alt)
  have nz: "holds (mem ?z) (hd argv) (nm @ [0])"
    by (rule same_above_holds [OF keeps]) (use nm(1) sh in \<open>auto intro!: regs\<close>)
  have ex: "\<exists>s'. load_start n False ?z = Some (Started sp (?st ! 2) s') \<and> only_mem ?z s' \<and>
     has_words (mem s') sp (stack_words argv envp (map (new_aux ?st (at_base ?z) (hd argv)) av)) \<and>
     (\<forall>x. \<not> unat (x - aux_at sp argv envp) < 16 * length av \<longrightarrow> mem s' x = mem ?z x)"
  proof (rule load_start_runs [OF _ _ _ _ gz _ nz nm(2)])
    show "has_words (mem ?z) (cursor ?z) ?st" using c2(1) by simp
    show "length ?st = 8" "?st ! 1 = sp" by (simp_all add: start_words_def)
    show "unat (cursor ?z) + 64 \<le> unat sp" "opened ?z \<noteq> None" using uc c(5) by simp_all
    show "unat (aux_at sp argv envp) + 16 * length av \<le> unat (hd argv)" "unat (hd argv) + length nm + 1 < 2 ^ 64"
      using nm(3,4) hi by linarith+
  qed (use n in simp_all)
  obtain s' where s': "load_start n False ?z = Some (Started sp (?st ! 2) s')"
     "has_words (mem s') sp (stack_words argv envp (map (new_aux ?st (at_base ?z) (hd argv)) av))"
     "\<forall>x. \<not> unat (x - aux_at sp argv envp) < 16 * length av \<longrightarrow> mem s' x = mem ?z x"
    using ex by (elim exE conjE)
  have turns: "script_turns main interp + Suc n = Suc (length (mappings main)) + (case interp of None \<Rightarrow> 0 | Some i \<Rightarrow> Suc (length (mappings i))) +
        ((if ?x = [] then 0 else 1) + Suc n)"
    by (simp add: script_turns_def stack_exec_words_def)
  have "?st ! 2 = entry_point main interp" by (simp add: start_words_def)
  then have "run_loader k (script_turns main interp + Suc n) ?ini = Some (Started sp (entry_point main interp) s')"
    using c(1) c2(3) s'(1) unfolding turns by (simp only:)
  moreover have "has_words (mem s') sp (stack_words argv envp (map (program_aux main (at_base s2) (hd argv)) av))"
    using s'(2) by (simp add: new_aux_program)
  moreover have "\<forall>x. \<not> unat (x - aux_at sp argv envp) < 16 * length av \<longrightarrow> mem s' x = mem s2 x" using s'(3) by simp
  ultimately show ?thesis by blast
qed

text \<open>
  C33: the loader does what the tracer planned. When \<open>transfer_load_script\<close> wrote the script of a program and of its
  interpreter below the stack of a tracee, the loader that finds it there opens both files in turn and makes exactly
  their mappings in this order (\<open>map_program\<close>), and then starts at the entry of the interpreter, or of the program when it
  has none, with the stack the kernel had made: its words are as before but for the entries of the auxiliary vector that describe
  the program, which are the ones of the real program (\<open>program_aux\<close>), and no other byte of the memory differs from what the
  mappings made of it. It needs a whole and writable stack with an argument, and that no mapping covers the script or
  the stack. The turns of the loader are those of the statements, and as many more as the longest of its inner loops takes.
\<close>

theorem loader_runs_script:
  assumes "transfer_load_script pg main interp (t, m) = Inr (None, t', m')"
    and "sp = peek_reg CURRENT STACK_POINTER t" "lo = peek_reg CURRENT USERARG_1 t'" "lo \<le> sp"
    and "name_ok main" "\<forall>i. interp = Some i \<longrightarrow> name_ok i"
    and "\<forall>p \<in> set (file_mappings main interp). apart lo hi p"
    and "map_program k main interp (loader_start m' wr lo) = Some s2"
    and "good_stack (loader_start m wr lo) sp argv envp av"
    and "holds m (hd argv) (nm @ [0])" "0 \<notin> set nm" "unat (aux_at sp argv envp) + 16 * length av + 8 \<le> unat (hd argv)"
      "unat (hd argv) + length nm + 1 \<le> unat hi"
    and "length envp < n" "length av \<le> n" "length nm < n"
  shows "\<exists>s'. run_loader k (script_turns main interp + Suc n) (loader_start m' wr lo) = Some (Started sp (entry_point main interp) s') \<and>
     has_words (mem s') sp (stack_words argv envp (map (program_aux main (at_base s2) (hd argv)) av)) \<and>
     (\<forall>x. \<not> unat (x - aux_at sp argv envp) < 16 * length av \<longrightarrow> mem s' x = mem s2 x)"
  using assms by (rule loader_runs_fact)

definition demo_header :: elf_header where
  "demo_header = (elf_header_of [])\<lparr>e_type := ET_EXEC, e_entry := 0x10010, e_phnum := 1, e_phentsize := 56, e_phoff := 64\<rparr>"

definition demo_main :: load_info where
  "demo_main = \<lparr>li_host = ''/r/a'', li_user = ''/a'', li_raw = None,
     mappings = [\<lparr>m_addr = 0x10000, m_length = 0x1000, m_clear_length = 0, m_prot = PROT_READ, m_flags = MAP_PRIVATE OR MAP_FIXED,
                  m_fd = -1, m_offset = 0\<rparr>],
     header = demo_header, executable_stack = False, li_interp = None\<rparr>"

definition demo_ld :: ld_kernel where
  "demo_ld = \<lparr>ld_open = (\<lambda>_. Some [1, 2, 3]), ld_mmap = (\<lambda>a _ _ _ _. a), ld_page = 4096\<rparr>"

definition demo_stack :: memory where
  "demo_stack = poke_bytes (poke_bytes (\<lambda>_. Some 7) 4096 (concat (map word_bytes (stack_words [4160] [] [(AT_PHDR, 0)])))) 4160 [97, 0]"

theorem loader_runs_script_witness:
  "\<exists>t' m' s'. transfer_load_script 4096 demo_main None (stack_thread, demo_stack) = Inr (None, t', m') \<and>
     run_loader demo_ld 5 (loader_start m' (\<lambda>_. True) (peek_reg CURRENT USERARG_1 t')) = Some (Started 4096 0x10010 s') \<and>
     has_words (mem s') 4096 (stack_words [4160] [] [(AT_PHDR, 0x10040)])"
proof -
  have sw: "length (concat (map word_bytes (stack_words [4160] [] [(AT_PHDR, 0)]))) = 56"
    unfolding words_length stack_words_length by simp
  have h: "has_words (poke_bytes (\<lambda>_. Some 7) 4096 (concat (map word_bytes (stack_words [4160] [] [(AT_PHDR, 0)])))) 4096
      (stack_words [4160] [] [(AT_PHDR, 0)])"
    unfolding has_words_def by (rule poked_holds) (simp add: sw)
  have stk: "has_words demo_stack 4096 (stack_words [4160] [] [(AT_PHDR, 0)])"
    unfolding has_words_def demo_stack_def
    by (rule other_holds [OF _ h [unfolded has_words_def], of 4160 2]) (simp_all add: poke_bytes_def sw)
  have nm: "holds demo_stack 4160 [97, 0]" unfolding demo_stack_def by (rule poked_holds) simp
  have total: "total_memory demo_stack" unfolding demo_stack_def by (intro total_poke) (simp add: total_memory_def)
  let ?str = "script_strings demo_main None"
  have str: "length ?str = 3" by (simp add: script_strings_def demo_main_def c_bytes_def bytes_of_def)
  have pad: "script_padding 4096 (of_nat (length ?str)) = 3" unfolding str by (simp add: script_padding_def)
  define ws where "ws = load_script 4096 4096 demo_main None 4090 4093 4090"
  have ws: "length ws = 16"
    by (simp add: ws_def load_script_def demo_main_def demo_header_def transcript_mappings_def transcript_mapping_def)
  define buf where "buf = concat (map word_bytes ws) @ ?str @ replicate (unat (3 :: word_t)) 0"
  have buf: "length buf = 134" by (simp add: buf_def words_length ws str)
  obtain m' where wr: "write_data demo_stack 3962 buf = (None, m')" using total_write [OF total] by blast
  define t' where "t' = (save_current_regs ORIGINAL (poke_reg USERARG_1 3962 (poke_reg STACK_POINTER 3962 stack_thread)))\<lparr>regs_were_changed := True\<rparr>"
  have sp: "peek_reg CURRENT STACK_POINTER stack_thread = 4096" by (simp add: stack_thread_def peek_reg_def)
  have lu: "length (c_bytes (li_user demo_main)) = 3" "li_raw demo_main = None" "mappings demo_main \<noteq> []"
    by (simp_all add: demo_main_def c_bytes_def bytes_of_def)
  have addr: "(4096 :: word_t) - (of_nat (length ?str) + 3) = 4090" "(4090 :: word_t) + of_nat (length (c_bytes (li_user demo_main))) = 4093"
    by (simp_all add: str lu)
  have nb: "(4096 :: word_t) - of_nat (length buf) = 3962" by (simp add: buf)
  have tr: "transfer_load_script 4096 demo_main None (stack_thread, demo_stack) = Inr (None, t', m')"
    unfolding transfer_load_script_def Let_def prod.case sp pad addr lu(2) option.case simp_thms if_True ws_def [symmetric]
      buf_def [symmetric] nb wr t'_def
    using lu(3) by (simp add: buf MAX_TALLOC_SIZE_def)
  have lo: "peek_reg CURRENT USERARG_1 t' = 3962" by (simp add: t'_def peek_reg_def poke_reg_def save_current_regs_def)
  let ?ini = "loader_start m' (\<lambda>_. True) 3962"
  have "\<exists>s2. map_program demo_ld demo_main None ?ini = Some s2"
    by (simp add: map_program_def map_file_def demo_ld_def demo_main_def do_mapping_def MAP_PRIVATE_def MAP_FIXED_def MAP_ANONYMOUS_def Let_def)
  then obtain s2 where mp: "map_program demo_ld demo_main None ?ini = Some s2" ..
  have apart: "\<forall>p \<in> set (file_mappings demo_main None). apart 3962 8192 p"
  proof -
    have "\<not> x - 0x10000 < (0x1000 :: word_t)" if "x < 8192" for x
    proof -
      have "unat x < 8192" using that by (simp add: word_less_nat_alt)
      then have "unat (x - 0x10000) = 2 ^ 64 + unat x - 0x10000" by (simp add: unat_sub_if')
      then show ?thesis by (simp add: word_less_nat_alt)
    qed
    then show ?thesis by (simp add: file_mappings_def demo_main_def apart_def)
  qed
  have good: "good_stack (loader_start demo_stack (\<lambda>_. True) 3962) 4096 [4160] [] [(AT_PHDR, 0)]"
    using stk by (simp add: good_stack_def loader_start_def AT_PHDR_def stack_words_length)
  have "\<exists>s'. run_loader demo_ld (script_turns demo_main None + Suc 2) ?ini = Some (Started 4096 (entry_point demo_main None) s') \<and>
     has_words (mem s') 4096 (stack_words [4160] [] (map (program_aux demo_main (at_base s2) (hd [4160])) [(AT_PHDR, 0)])) \<and>
     (\<forall>x. \<not> unat (x - aux_at 4096 [4160] []) < 16 * length [(AT_PHDR, 0 :: word_t)] \<longrightarrow> mem s' x = mem s2 x)"
    by (rule loader_runs_script [OF tr sp [symmetric] lo [symmetric] _ _ _ apart mp good, of "[97]"])
       (simp_all add: nm, simp_all add: name_ok_def demo_main_def PATH_MAX_def aux_at_def)
  moreover have "script_turns demo_main None + Suc 2 = 5" by (simp add: script_turns_def demo_main_def)
  moreover have "entry_point demo_main None = 0x10010" by (simp add: entry_point_def demo_main_def demo_header_def)
  moreover have "map (program_aux demo_main (at_base s2) (hd [4160])) [(AT_PHDR, 0)] = [(AT_PHDR, 0x10040)]"
    by (simp add: program_aux_def demo_main_def demo_header_def)
  ultimately show ?thesis using tr lo by auto
qed

text \<open>
  The padding that is to align the stack of the loader to sixteen bytes has the wrong sign: the remainder is taken away
  twice.
\<close>

lemma padding_doubles: "(sp - (n + script_padding sp n)) mod 16 = (2 * ((sp - n) mod 16)) mod 16"
proof -
  define x where "x = sp - n"
  have uint_numeral_16: "uint (16 :: word_t) = 16" by simp
  have um: "uint (a mod 16) = uint a mod 16" for a :: word_t by (simp add: uint_mod)
  have us: "uint (a - b) mod 16 = (uint a - uint b) mod 16" for a b :: word_t
    unfolding uint_word_ariths by (rule mod_mod_cancel) simp
  have ut: "uint (2 * a) mod 16 = (2 * uint a) mod 16" for a :: word_t
    unfolding uint_word_ariths by (subst mod_mod_cancel) simp_all
  have "uint ((x - (16 - x mod 16) mod 16) mod 16) = (uint x - uint ((16 - x mod 16) mod 16)) mod 16"
    by (simp only: um us)
  also have "\<dots> = (uint x - (16 - uint x mod 16) mod 16) mod 16" by (simp only: um us uint_numeral_16)
  also have "\<dots> = (2 * (uint x mod 16)) mod 16"
  proof -
    have "(uint x - (16 - uint x mod 16) mod 16) mod 16 = (uint x - (16 - uint x mod 16)) mod 16" by (rule mod_diff_right_eq)
    also have "\<dots> = ((uint x + uint x mod 16) - 16) mod 16" by (simp add: algebra_simps)
    also have "\<dots> = (uint x + uint x mod 16) mod 16" by simp
    also have "\<dots> = (uint x mod 16 + uint x mod 16) mod 16" by (simp only: mod_add_left_eq)
    finally show ?thesis by simp
  qed
  also have "\<dots> = uint ((2 * (x mod 16)) mod 16)" by (simp add: um ut)
  finally have "(x - (16 - x mod 16) mod 16) mod 16 = (2 * (x mod 16)) mod 16" by (simp only: word_uint_eq_iff)
  then show ?thesis by (simp add: x_def script_padding_def diff_diff_eq)
qed

end
