(* ===== verification/Load_Spec.thy ===== *)
theory Load_Spec
  imports Loader_Spec
begin

text \<open>
  The mappings of a program put the bytes of its segments where the program headers say, and zeros behind them.
\<close>

section \<open>Pages\<close>

definition page_down :: "nat \<Rightarrow> nat \<Rightarrow> nat" where
  "page_down P n = n - n mod P"

lemma page_down_le: "page_down P n \<le> n"
  by (simp add: page_down_def)

lemma page_next: "0 < P \<Longrightarrow> n < page_down P (n + P) \<and> page_down P (n + P) \<le> n + P"
proof -
  assume "0 < P"
  then have "n mod P < P" by simp
  then show ?thesis by (simp add: page_down_def)
qed

lemma unat_power: "j < 64 \<Longrightarrow> unat (2 ^ j :: word_t) = 2 ^ j"
proof -
  assume "j < 64"
  then have "(2 :: nat) ^ j < 2 ^ 64" by (rule power_strict_increasing) simp
  then have "unat (of_nat (2 ^ j) :: word_t) = 2 ^ j" by (rule unat_index)
  then show ?thesis by simp
qed

lemma unat_page_mask:
  assumes "pg = 2 ^ j" "j < 64"
  shows "unat (a AND page_mask pg) = page_down (unat pg) (unat a)"
proof -
  have P: "unat pg = 2 ^ j" using assms by (simp add: unat_power)
  have "a AND NOT (mask j) = a AND NOT (take_bit j a)" by (auto simp: bit_eq_iff bit_simps)
  also have "\<dots> = a - take_bit j a" by (rule disjunctive_diff_eq_and_not [symmetric]) (auto simp: bit_eq_iff bit_simps)
  finally have "a AND page_mask pg = a - take_bit j a" using assms by (simp add: page_mask_def mask_eq_exp_minus_1)
  moreover have t: "unat (take_bit j a) = unat a mod 2 ^ j" unfolding unsigned_take_bit_eq by (simp add: take_bit_eq_mod)
  moreover have "take_bit j a \<le> a" by (simp add: word_le_nat_alt t)
  ultimately show ?thesis by (simp add: page_down_def P unat_sub)
qed

section \<open>The mappings of one segment\<close>

text \<open>A segment that a linker makes: inside the address space and the file, at the same place of a page in both, not larger in the
  file than in memory.\<close>

definition segment_ok :: "word_t \<Rightarrow> byte list \<Rightarrow> program_header \<Rightarrow> bool" where
  "segment_ok pg bs ph \<longleftrightarrow> p_filesz ph \<le> p_memsz ph \<and> unat (p_vaddr ph) + unat (p_memsz ph) + unat pg < 2 ^ 64 \<and>
     unat (p_vaddr ph) mod unat pg = unat (p_offset ph) mod unat pg \<and> unat (p_offset ph) + unat (p_filesz ph) \<le> length bs"

definition page_size :: "word_t \<Rightarrow> bool" where
  "page_size pg \<longleftrightarrow> (\<exists>j<64. pg = 2 ^ j) \<and> unat pg \<le> unat CLEAR_MAX"

lemma page_size_mask: "page_size pg \<Longrightarrow> unat (a AND page_mask pg) = page_down (unat pg) (unat a)"
  unfolding page_size_def using unat_page_mask by blast

lemma page_size_pos: "page_size pg \<Longrightarrow> 0 < unat pg"
  by (auto simp: page_size_def unat_power)

text \<open>The numbers of a file mapping.\<close>

lemma file_mapping_numbers:
  assumes pg: "page_size pg" and ok: "segment_ok pg bs ph"
  defines "v \<equiv> unat (p_vaddr ph)" and "f \<equiv> unat (p_filesz ph)" and "P \<equiv> unat pg"
  shows "unat (m_addr (file_mapping pg ph)) = page_down P v"
    and "unat (m_length (file_mapping pg ph)) = page_down P (v + f + P) - page_down P v"
    and "m_addr (file_mapping pg ph) + m_length (file_mapping pg ph) = (p_vaddr ph + p_filesz ph + pg) AND page_mask pg"
    and "unat ((p_vaddr ph + p_filesz ph + pg) AND page_mask pg) = page_down P (v + f + P)"
    and "unat (m_offset (file_mapping pg ph)) = page_down P (unat (p_offset ph))"
    and "page_down P v \<le> v" "v + f < page_down P (v + f + P)" "page_down P (v + f + P) \<le> v + f + P"
proof -
  have fm: "f \<le> unat (p_memsz ph)" using ok by (simp add: segment_ok_def f_def word_le_nat_alt)
  have b: "v + f + P < 2 ^ 64" using ok fm by (simp add: segment_ok_def v_def P_def)
  have s: "unat (p_vaddr ph + p_filesz ph + pg) = v + f + P"
    using b by (simp add: v_def f_def P_def unat_word_ariths)
  show "unat (m_addr (file_mapping pg ph)) = page_down P v"
    by (simp add: file_mapping_def Let_def page_size_mask [OF pg] v_def P_def)
  show e: "unat ((p_vaddr ph + p_filesz ph + pg) AND page_mask pg) = page_down P (v + f + P)"
    unfolding page_size_mask [OF pg] s P_def ..
  show n: "v + f < page_down P (v + f + P)" "page_down P (v + f + P) \<le> v + f + P" "page_down P v \<le> v"
    using page_next [OF page_size_pos [OF pg], of "v + f"] page_down_le by (simp_all add: P_def)
  have "p_vaddr ph AND page_mask pg \<le> (p_vaddr ph + p_filesz ph + pg) AND page_mask pg"
    unfolding word_le_nat_alt e unfolding page_size_mask [OF pg] P_def [symmetric] v_def [symmetric] using n by linarith
  from unat_sub [OF this] show "unat (m_length (file_mapping pg ph)) = page_down P (v + f + P) - page_down P v"
    unfolding e by (simp add: file_mapping_def Let_def page_size_mask [OF pg, of "p_vaddr ph"] v_def P_def)
  show "m_addr (file_mapping pg ph) + m_length (file_mapping pg ph) = (p_vaddr ph + p_filesz ph + pg) AND page_mask pg"
    by (simp add: file_mapping_def Let_def)
  show "unat (m_offset (file_mapping pg ph)) = page_down P (unat (p_offset ph))"
    by (simp add: file_mapping_def Let_def page_size_mask [OF pg] P_def)
qed

text \<open>An address inside a range.\<close>

lemma unat_diff_ge: "unat b \<le> unat a \<Longrightarrow> unat (a - b :: word_t) = unat a - unat b"
  by (simp add: unat_sub word_le_nat_alt)

lemma file_part:
  assumes pg: "page_size pg" and ok: "segment_ok pg bs ph" and x: "unat x = unat (p_vaddr ph) + i" "i < unat (p_filesz ph)"
  shows "x - m_addr (file_mapping pg ph) < m_length (file_mapping pg ph)"
    and "unat (m_offset (file_mapping pg ph)) + unat (x - m_addr (file_mapping pg ph)) = unat (p_offset ph) + i"
proof -
  let ?m = "file_mapping pg ph"
  note n = file_mapping_numbers [OF pg ok]
  have d: "unat (x - m_addr ?m) = unat x - page_down (unat pg) (unat (p_vaddr ph))"
    unfolding n(1) [symmetric] by (rule unat_diff_ge) (use x(1) n(1,6) in simp)
  show "x - m_addr ?m < m_length ?m" unfolding word_less_nat_alt d n(2) using x n(6,7) by linarith
  have "page_down (unat pg) (unat (p_vaddr ph)) = unat (p_vaddr ph) - unat (p_vaddr ph) mod unat pg"
    "page_down (unat pg) (unat (p_offset ph)) = unat (p_offset ph) - unat (p_offset ph) mod unat pg"
    "unat (p_vaddr ph) mod unat pg \<le> unat (p_vaddr ph)" "unat (p_offset ph) mod unat pg \<le> unat (p_offset ph)"
    by (simp_all add: page_down_def)
  moreover have "unat (p_vaddr ph) mod unat pg = unat (p_offset ph) mod unat pg" using ok by (simp add: segment_ok_def)
  ultimately show "unat (m_offset ?m) + unat (x - m_addr ?m) = unat (p_offset ph) + i" unfolding d n(5) x(1) by linarith
qed

lemma outside_part:
  assumes pg: "page_size pg" and ok: "segment_ok pg bs ph" and x: "unat x < page_down (unat pg) (unat (p_vaddr ph))"
  shows "\<not> x - m_addr (file_mapping pg ph) < m_length (file_mapping pg ph)"
proof -
  let ?m = "file_mapping pg ph"
  note n = file_mapping_numbers [OF pg ok]
  have "page_down (unat pg) (unat (p_vaddr ph) + unat (p_filesz ph) + unat pg) < 2 ^ 64"
    unfolding n(4) [symmetric] using unsigned_less [of "(p_vaddr ph + p_filesz ph + pg) AND page_mask pg", where 'a = nat] by simp
  moreover have "unat (x - m_addr ?m) = 2 ^ 64 + unat x - page_down (unat pg) (unat (p_vaddr ph))"
    using x by (simp add: unat_sub_if' n(1))
  ultimately show ?thesis unfolding word_less_nat_alt n(2) using x by linarith
qed

text \<open>What the mapping of the file leaves in memory.\<close>

lemma not_anonymous: "(MAP_PRIVATE OR MAP_FIXED) AND MAP_ANONYMOUS = 0"
  by (simp add: MAP_PRIVATE_def MAP_FIXED_def MAP_ANONYMOUS_def)

lemma anonymous: "(MAP_PRIVATE OR MAP_ANONYMOUS OR MAP_FIXED) AND MAP_ANONYMOUS \<noteq> 0"
  by (simp add: MAP_PRIVATE_def MAP_FIXED_def MAP_ANONYMOUS_def)

lemma file_image:
  assumes pg: "page_size pg" and ok: "segment_ok pg bs ph" and d: "do_mapping k (file_mapping pg ph) s = Some s'" and o: "opened s = Some bs"
  shows "opened s' = Some bs"
    and "unat x = unat (p_vaddr ph) + i \<Longrightarrow> i < unat (p_filesz ph) \<Longrightarrow> mem s' x = Some (bs ! (unat (p_offset ph) + i))"
    and "p_filesz ph < p_memsz ph \<Longrightarrow> unat x = unat (p_vaddr ph) + i \<Longrightarrow> unat (p_filesz ph) \<le> i \<Longrightarrow>
      unat x < page_down (unat pg) (unat (p_vaddr ph) + unat (p_filesz ph) + unat pg) \<Longrightarrow> mem s' x = Some 0"
    and "unat x < page_down (unat pg) (unat (p_vaddr ph)) \<Longrightarrow> mem s' x = mem s x"
proof -
  let ?m = "file_mapping pg ph" and ?v = "unat (p_vaddr ph)" and ?f = "unat (p_filesz ph)" and ?P = "unat pg"
  let ?stop = "(p_vaddr ph + p_filesz ph + pg) AND page_mask pg" and ?from = "p_vaddr ph + p_filesz ph"
  note n = file_mapping_numbers [OF pg ok]
  let ?s1 = "put_mapping (m_addr ?m) (m_length ?m) (m_prot ?m) (\<lambda>i. file_byte (ld_page k) bs (unat (m_offset ?m) + i)) s"
  have fl: "m_flags ?m AND MAP_ANONYMOUS = 0" by (simp add: file_mapping_def Let_def not_anonymous)
  obtain z where z: "(if m_clear_length ?m \<noteq> 0 then clear (m_addr ?m + m_length ?m - m_clear_length ?m) (m_addr ?m + m_length ?m) ?s1
        else Some ?s1) = Some z" "s' = note_base (m_addr ?m) z"
    using d by (auto simp: do_mapping_def Let_def fl o split: if_splits)
  have ms: "mem s' = mem z" "opened s' = opened z" using z(2) by simp_all
  have b: "?v + ?f + ?P < 2 ^ 64" using ok by (simp add: segment_ok_def word_le_nat_alt)
  have uf: "unat ?from = ?v + ?f" using b by (simp add: unat_word_ariths)
  have lt: "unat ?from < unat ?stop" unfolding uf n(4) by (rule n(7))
  have cl: "p_filesz ph < p_memsz ph \<Longrightarrow> m_clear_length ?m = ?stop - ?from" "\<not> p_filesz ph < p_memsz ph \<Longrightarrow> m_clear_length ?m = 0"
    by (simp_all add: file_mapping_def Let_def)
  have zo: "opened z = opened ?s1"
    using z(1) clear_other(3) by (auto split: if_splits)
  then show "opened s' = Some bs" by (simp add: ms put_mapping_def o)
  have cleared: "mem z = (\<lambda>y. if ?from \<le> y \<and> y < ?stop then Some 0 else mem ?s1 y)" if g: "p_filesz ph < p_memsz ph"
  proof -
    have ne: "?stop - ?from \<noteq> 0" using lt by auto
    have "unat (?stop - ?from) \<le> ?P" using lt n(8) by (simp add: unat_diff_ge uf n(4))
    then have "\<not> CLEAR_MAX < ?stop - ?from" using pg by (simp add: word_less_nat_alt page_size_def)
    moreover have "\<not> ?stop \<le> ?from" using lt by (simp add: word_le_nat_alt)
    moreover have "clear ?from ?stop ?s1 = Some z" using z(1) ne unfolding cl(1) [OF g] n(3) by simp
    ultimately show ?thesis by (auto simp: clear_def split: if_splits)
  qed
  have kept: "mem z = mem ?s1" if g: "\<not> p_filesz ph < p_memsz ph"
    using z(1) by (simp add: cl(2) [OF g])
  show "mem s' x = Some (bs ! (unat (p_offset ph) + i))" if x: "unat x = ?v + i" "i < ?f"
  proof -
    have "\<not> ?from \<le> x" using x by (simp add: word_le_nat_alt uf)
    then have "mem z x = mem ?s1 x" using cleared kept by (cases "p_filesz ph < p_memsz ph") auto
    also have "\<dots> = file_byte (ld_page k) bs (unat (p_offset ph) + i)"
      using file_part [OF pg ok x] by (simp add: put_mapping_def)
    also have "\<dots> = Some (bs ! (unat (p_offset ph) + i))" using ok x(2) by (simp add: file_byte_def segment_ok_def)
    finally show ?thesis by (simp add: ms)
  qed
  show "mem s' x = Some 0" if "p_filesz ph < p_memsz ph" "unat x = ?v + i" "?f \<le> i" "unat x < page_down ?P (?v + ?f + ?P)"
  proof -
    have "?from \<le> x" "x < ?stop" using that by (simp_all add: word_le_nat_alt word_less_nat_alt uf n(4))
    then show ?thesis by (simp add: ms cleared [OF that(1)])
  qed
  show "mem s' x = mem s x" if x: "unat x < page_down ?P ?v"
  proof -
    have "\<not> ?from \<le> x" using x n(6) by (simp add: word_le_nat_alt uf)
    then have "mem z x = mem ?s1 x" using cleared kept by (cases "p_filesz ph < p_memsz ph") auto
    also have "\<dots> = mem s x" using outside_part [OF pg ok x] by (simp add: put_mapping_def)
    finally show ?thesis by (simp add: ms)
  qed
qed

section \<open>One segment\<close>

lemma map_segment_append: "map_segment pg ph ms = ms @ map_segment pg ph []"
  by (simp add: map_segment_def Let_def)

lemma do_mappings_append: "do_mappings k (xs @ ys) s = (case do_mappings k xs s of None \<Rightarrow> None | Some s \<Rightarrow> do_mappings k ys s)"
  by (induction xs arbitrary: s) (auto split: option.split)

definition segment_byte :: "byte list \<Rightarrow> program_header \<Rightarrow> nat \<Rightarrow> byte" where
  "segment_byte bs ph i = (if i < unat (p_filesz ph) then bs ! (unat (p_offset ph) + i) else 0)"

lemma segment_image:
  assumes pg: "page_size pg" and ok: "segment_ok pg bs ph" and d: "do_mappings k (map_segment pg ph []) s = Some s'" and o: "opened s = Some bs"
  shows "opened s' = Some bs \<and>
    (\<forall>x i. unat x = unat (p_vaddr ph) + i \<longrightarrow> i < unat (p_memsz ph) \<longrightarrow> mem s' x = Some (segment_byte bs ph i)) \<and>
    (\<forall>x. unat x < page_down (unat pg) (unat (p_vaddr ph)) \<longrightarrow> mem s' x = mem s x)"
proof -
  let ?v = "unat (p_vaddr ph)" and ?f = "unat (p_filesz ph)" and ?P = "unat pg" and ?g = "unat (p_memsz ph)"
  let ?stop = "(p_vaddr ph + p_filesz ph + pg) AND page_mask pg" and ?new = "(p_vaddr ph + p_memsz ph + pg) AND page_mask pg"
  let ?more = "p_filesz ph < p_memsz ph \<and> ?stop < ?new"
  note n = file_mapping_numbers [OF pg ok]
  have b: "?v + ?g + ?P < 2 ^ 64" "?f \<le> ?g" using ok by (simp_all add: segment_ok_def word_le_nat_alt)
  have "unat (p_vaddr ph + p_memsz ph + pg) = ?v + ?g + ?P" using b by (simp add: unat_word_ariths)
  then have un: "unat ?new = page_down ?P (?v + ?g + ?P)" by (simp add: page_size_mask [OF pg])
  have gt: "?v + ?g < unat ?new" unfolding un using page_next [OF page_size_pos [OF pg]] by blast
  obtain z where z: "do_mapping k (file_mapping pg ph) s = Some z"
    using d by (auto simp: map_segment_def Let_def split: if_splits option.splits)
  note f = file_image [OF pg ok z o]
  have fm: "?v + ?g < unat ?stop \<or> \<not> p_filesz ph < p_memsz ph" if "\<not> ?more"
    using that gt by (auto simp: word_less_nat_alt)
  show ?thesis
  proof (cases ?more)
    case False
    then have "s' = z" using d z by (auto simp: map_segment_def Let_def split: if_splits)
    moreover have "mem z x = Some (segment_byte bs ph i)" if "unat x = ?v + i" "i < ?g" for x i
      using f(2) [OF that(1)] f(3) [OF _ that(1)] fm [OF False] that b(2) unfolding n(4)
      by (cases "i < ?f") (auto simp: segment_byte_def word_less_nat_alt)
    ultimately show ?thesis using f(1,4) by auto
  next
    case True
    let ?a = "\<lparr>m_addr = ?stop, m_length = ?new - ?stop, m_clear_length = 0, m_prot = m_prot (file_mapping pg ph),
                     m_flags = MAP_PRIVATE OR MAP_ANONYMOUS OR MAP_FIXED, m_fd = -1, m_offset = 0\<rparr>"
    have "do_mapping k ?a z = Some s'"
      using d z True by (auto simp: map_segment_def Let_def split: option.splits)
    then have s': "s' = put_mapping ?stop (?new - ?stop) (m_prot (file_mapping pg ph)) (\<lambda>_. Some 0) z"
      by (auto simp: do_mapping_def anonymous split: if_splits)
    have len: "unat (?new - ?stop) = unat ?new - unat ?stop" using True by (intro unat_diff_ge) (simp add: word_less_nat_alt)
    have inside: "mem s' x = Some 0" if "unat ?stop \<le> unat x" "unat x < unat ?new" for x
    proof -
      have "x - ?stop < ?new - ?stop" unfolding word_less_nat_alt len unat_diff_ge [OF that(1)] using that by linarith
      then show ?thesis by (simp add: s' put_mapping_def)
    qed
    have below: "mem s' x = mem z x" if "unat x < unat ?stop" for x
    proof -
      have "unat (x - ?stop) = 2 ^ 64 + unat x - unat ?stop" using that by (simp add: unat_sub_if')
      then have "\<not> x - ?stop < ?new - ?stop"
        unfolding word_less_nat_alt len using that unsigned_less [of ?new, where 'a = nat] by simp
      then show ?thesis by (simp add: s' put_mapping_def)
    qed
    have "mem s' x = Some (segment_byte bs ph i)" if x: "unat x = ?v + i" "i < ?g" for x i
    proof (cases "unat x < unat ?stop")
      case True
      then show ?thesis
        using f(2) [OF x(1)] f(3) [OF _ x(1)] below [OF True] \<open>?more\<close> unfolding n(4)
        by (cases "i < ?f") (auto simp: segment_byte_def)
    next
      case False
      then have "\<not> i < ?f" using x n(4,7) by simp
      then show ?thesis using inside [of x] False x gt by (simp add: segment_byte_def)
    qed
    moreover have "mem s' x = mem s x" if "unat x < page_down ?P ?v" for x
      using f(4) [OF that] below [of x] that n(4,6,7) by simp
    moreover have "opened s' = Some bs" using f(1) by (simp add: s' put_mapping_def)
    ultimately show ?thesis by blast
  qed
qed

section \<open>A program\<close>

text \<open>The segments in the order of their headers, each after the last byte of the ones before, on a page of its own.\<close>

fun segments_apart :: "word_t \<Rightarrow> program_header list \<Rightarrow> bool" where
  "segments_apart pg [] \<longleftrightarrow> True"
| "segments_apart pg (ph # phs) \<longleftrightarrow>
     (\<forall>q \<in> set phs. unat (p_vaddr ph) + unat (p_memsz ph) \<le> page_down (unat pg) (unat (p_vaddr q))) \<and> segments_apart pg phs"

definition segment_mappings :: "word_t \<Rightarrow> program_header list \<Rightarrow> mapping list" where
  "segment_mappings pg phs = fold (map_segment pg) phs []"

lemma segment_mappings_concat: "fold (map_segment pg) phs ms = ms @ concat (map (\<lambda>ph. map_segment pg ph []) phs)"
proof (induction phs arbitrary: ms)
  case (Cons ph phs)
  show ?case using Cons.IH [of "map_segment pg ph ms"] map_segment_append [of pg ph ms] by simp
qed simp

lemma segments_image:
  assumes "page_size pg" "\<forall>ph \<in> set phs. segment_ok pg bs ph" "segments_apart pg phs"
    and "do_mappings k (concat (map (\<lambda>ph. map_segment pg ph []) phs)) s = Some s'" "opened s = Some bs"
  shows "(\<forall>ph \<in> set phs. \<forall>x i. unat x = unat (p_vaddr ph) + i \<longrightarrow> i < unat (p_memsz ph) \<longrightarrow> mem s' x = Some (segment_byte bs ph i)) \<and>
    (\<forall>x. (\<forall>ph \<in> set phs. unat x < page_down (unat pg) (unat (p_vaddr ph))) \<longrightarrow> mem s' x = mem s x)"
  using assms
proof (induction phs arbitrary: s)
  case (Cons ph phs)
  obtain z where z: "do_mappings k (map_segment pg ph []) s = Some z"
    "do_mappings k (concat (map (\<lambda>ph. map_segment pg ph []) phs)) z = Some s'"
    using Cons.prems(4) by (auto simp: do_mappings_append split: option.splits)
  have ok: "segment_ok pg bs ph" using Cons.prems(2) by simp
  note one = segment_image [OF Cons.prems(1) ok z(1) Cons.prems(5)]
  have ih: "(\<forall>ph \<in> set phs. \<forall>x i. unat x = unat (p_vaddr ph) + i \<longrightarrow> i < unat (p_memsz ph) \<longrightarrow> mem s' x = Some (segment_byte bs ph i)) \<and>
    (\<forall>x. (\<forall>ph \<in> set phs. unat x < page_down (unat pg) (unat (p_vaddr ph))) \<longrightarrow> mem s' x = mem z x)"
    by (rule Cons.IH [OF Cons.prems(1) _ _ z(2)]) (use Cons.prems(2,3) one in auto)
  have "mem s' x = Some (segment_byte bs ph i)" if "unat x = unat (p_vaddr ph) + i" "i < unat (p_memsz ph)" for x i
  proof -
    have "\<forall>q \<in> set phs. unat x < page_down (unat pg) (unat (p_vaddr q))" using Cons.prems(3) that by fastforce
    with ih have "mem s' x = mem z x" by blast
    with one that show ?thesis by simp
  qed
  with ih one show ?case by auto
qed auto

text \<open>These are the mappings that are extracted from a file.\<close>

fun headers_at :: "open_file \<Rightarrow> nat \<Rightarrow> nat \<Rightarrow> program_header list" where
  "headers_at f pos 0 = []"
| "headers_at f pos (Suc n) =
     (case pread f pos SIZEOF_PROGRAM_HEADER of Inl e \<Rightarrow> []
      | Inr bs \<Rightarrow> program_header_of bs # headers_at f (pos + SIZEOF_PROGRAM_HEADER) n)"

lemma ph_callback_mappings:
  assumes "ph_callback E pg q f ph (info, t, w) = (Inr r, info', t', w')"
  shows "r = False" "mappings info' = (if p_type ph = PT_LOAD then map_segment pg ph (mappings info) else mappings info)"
  using assms by (auto simp: ph_callback_def add_interp_def Let_def PT_LOAD_def PT_INTERP_def PT_GNU_STACK_def
      split: if_splits sum.splits prod.splits)

lemma headers_mappings:
  "program_headers_from f (ph_callback E pg q f) pos n (info, t, w) = (Inr r, info', t', w') \<Longrightarrow>
   mappings info' = fold (map_segment pg) (filter (\<lambda>ph. p_type ph = PT_LOAD) (headers_at f pos n)) (mappings info)"
proof (induction n arbitrary: pos info t w)
  case (Suc n)
  obtain bs where bs: "pread f pos SIZEOF_PROGRAM_HEADER = Inr bs" "length bs = SIZEOF_PROGRAM_HEADER"
    using Suc.prems by (auto split: sum.splits if_splits)
  let ?ph = "program_header_of bs"
  obtain r1 info1 t1 w1 where cb: "ph_callback E pg q f ?ph (info, t, w) = (r1, info1, t1, w1)" by (metis prod_cases4)
  with Suc.prems bs obtain b where b: "r1 = Inr b" by (cases r1) auto
  note m = ph_callback_mappings [OF cb [unfolded b]]
  from Suc.prems have "program_headers_from f (ph_callback E pg q f) (pos + SIZEOF_PROGRAM_HEADER) n (info1, t1, w1) = (Inr r, info', t', w')"
    using bs cb b m(1) by simp
  from Suc.IH [OF this] m(2) bs(1) show ?case by simp
qed simp

lemma extracted_mappings:
  assumes "extract_load_info E pg q info t w = (Inr info', t', w')" "mappings info = []"
  shows "\<exists>h f. open_elf E (li_host info) w = Inr (h, f) \<and>
    mappings info' = segment_mappings pg (filter (\<lambda>ph. p_type ph = PT_LOAD) (headers_at f (unat (e_phoff h)) (unat (e_phnum h))))"
proof -
  obtain h f where o: "open_elf E (li_host info) w = Inr (h, f)" using assms(1) by (auto simp: extract_load_info_def split: sum.splits)
  obtain r where "iterate_program_headers E h f (ph_callback E pg q f) (info\<lparr>header := h\<rparr>, t, w) = (Inr r, info', t', w')"
    using assms(1) o by (auto simp: extract_load_info_def split: sum.splits prod.splits if_splits)
  then have "program_headers_from f (ph_callback E pg q f) (unat (e_phoff h)) (unat (e_phnum h)) (info\<lparr>header := h\<rparr>, t, w) = (Inr r, info', t', w')"
    by (auto simp: iterate_program_headers_def split: if_splits)
  from headers_mappings [OF this] o assms(2) show ?thesis by (simp add: segment_mappings_def)
qed

text \<open>
  C34: a program is loaded as its headers say. Take the loadable segments of an ELF file that is well made: they lie inside the
  file and the address space, at the same place of a page in both, in the order of their addresses with no two on one
  page. The mappings that \<open>map_segment\<close> makes of them, carried out one after the other, leave in memory every byte of every
  segment: the bytes of the file up to its size there, and zeros from there to its size in memory, although a
  mapping always takes whole pages and one page more than it needs when a segment ends with a page.
\<close>

theorem segments_loaded:
  assumes "page_size pg" "\<forall>ph \<in> set phs. segment_ok pg bs ph" "segments_apart pg phs"
    and "do_mappings k (segment_mappings pg phs) s = Some s'" "opened s = Some bs"
  shows "\<forall>ph \<in> set phs. \<forall>x i. unat x = unat (p_vaddr ph) + i \<longrightarrow> i < unat (p_memsz ph) \<longrightarrow> mem s' x = Some (segment_byte bs ph i)"
  using segments_image [OF assms(1-3) _ assms(5), of k s'] assms(4) by (simp add: segment_mappings_def segment_mappings_concat)

definition demo_segment :: program_header where
  "demo_segment = \<lparr>p_type = PT_LOAD, p_flags = PF_R OR PF_W, p_offset = 2, p_vaddr = 0x10002, p_paddr = 0, p_filesz = 1,
     p_memsz = 5000, p_align = 4096\<rparr>"

theorem segments_loaded_witness:
  "\<exists>s'. do_mappings demo_ld (segment_mappings 4096 [demo_segment])
       ((loader_start (\<lambda>_. None) (\<lambda>_. True) 0)\<lparr>opened := Some [1, 2, 3]\<rparr>) = Some s' \<and>
     mem s' 0x10002 = Some 3 \<and> mem s' 0x10003 = Some 0 \<and> mem s' 0x11000 = Some 0"
proof -
  let ?s = "(loader_start (\<lambda>_. None) (\<lambda>_. True) 0)\<lparr>opened := Some [1, 2, 3]\<rparr>"
  have pg: "page_size 4096"
    unfolding page_size_def CLEAR_MAX_def by (intro conjI exI [of _ 12]) simp_all
  have ok: "segment_ok 4096 [1, 2, 3] demo_segment" by (simp add: segment_ok_def demo_segment_def)
  have ms: "segment_mappings 4096 [demo_segment] = [\<lparr>m_addr = 0x10000, m_length = 0x1000, m_clear_length = 0xFFD, m_prot = 3,
      m_flags = 0x12, m_fd = -1, m_offset = 0\<rparr>, \<lparr>m_addr = 0x11000, m_length = 0x1000, m_clear_length = 0, m_prot = 3, m_flags = 0x32,
      m_fd = -1, m_offset = 0\<rparr>]"
    by (simp add: segment_mappings_def map_segment_def file_mapping_def segment_prot_def demo_segment_def page_mask_def Let_def
        PF_R_def PF_W_def PF_X_def PROT_READ_def PROT_WRITE_def PROT_EXEC_def MAP_PRIVATE_def MAP_FIXED_def MAP_ANONYMOUS_def)
  let ?s1 = "put_mapping 0x10000 0x1000 3 (\<lambda>i. file_byte 4096 [1, 2, 3] i) ?s"
  have "mem ?s1 (0x10003 + of_nat i) \<noteq> None \<and> writable ?s1 (0x10003 + of_nat i)" if "i < 4093" for i
  proof -
    have e: "(0x10003 + of_nat i :: word_t) - 0x10000 = of_nat (3 + i)" by simp
    have "3 + i < 2 ^ 64" using that by simp
    then have "unat ((0x10003 + of_nat i :: word_t) - 0x10000) = 3 + i" unfolding e by (rule unat_index)
    with that show ?thesis by (simp add: put_mapping_def word_less_nat_alt file_byte_def PROT_WRITE_def)
  qed
  then have "\<exists>z. clear 0x10003 0x11000 ?s1 = Some z" by (simp add: clear_def)
  then have "\<exists>s'. do_mappings demo_ld (segment_mappings 4096 [demo_segment]) ?s = Some s'"
    by (auto simp: ms do_mapping_def MAP_ANONYMOUS_def demo_ld_def Let_def)
  then obtain s' where s': "do_mappings demo_ld (segment_mappings 4096 [demo_segment]) ?s = Some s'" ..
  have "\<forall>ph \<in> set [demo_segment]. \<forall>x i. unat x = unat (p_vaddr ph) + i \<longrightarrow> i < unat (p_memsz ph) \<longrightarrow>
      mem s' x = Some (segment_byte [1, 2, 3] ph i)"
    by (rule segments_loaded [OF pg _ _ s']) (simp_all add: ok)
  then have b: "unat x = 0x10002 + i \<Longrightarrow> i < 5000 \<Longrightarrow> mem s' x = Some (segment_byte [1, 2, 3] demo_segment i)" for x i
    by (simp add: demo_segment_def)
  from b [of "0x10002" 0] b [of "0x10003" 1] b [of "0x11000" 4094] s' show ?thesis
    by (simp add: segment_byte_def demo_segment_def)
qed

end
