(* ===== verification/Auxv.thy ===== *)
theory Auxv
  imports Loader_Spec
begin

text \<open>
  The auxiliary vector on the stack of a tracee that has just executed a program (\<^verbatim>\<open>src/execve/auxv.c\<close>). An array
  ends with an entry of type \<open>AT_NULL\<close>.
\<close>

type_synonym aux_array = "(word_t \<times> word_t) list"

text \<open>An array of this many entries is too large for the allocator.\<close>

definition AUX_LIMIT :: nat where "AUX_LIMIT = 0x1000000"

definition add_elf_aux_vector :: "word_t \<Rightarrow> word_t \<Rightarrow> aux_array \<Rightarrow> aux_array res" where
  "add_elf_aux_vector type val vs =
     (if vs = [] \<or> fst (last vs) \<noteq> AT_NULL then Inl EINVAL
      else if AUX_LIMIT \<le> length vs + 1 then Inl ENOMEM
      else Inr (butlast vs @ [(type, val), (AT_NULL, 0)]))"

text \<open>The word after the NULL that ends the environment, 0 when a word cannot be read; \<open>None\<close> when \<open>n\<close> words are not enough.\<close>

fun skip_strings :: "memory \<Rightarrow> nat \<Rightarrow> word_t \<Rightarrow> word_t option" where
  "skip_strings m 0 sp = None"
| "skip_strings m (Suc n) sp =
     (case peek_word m sp of Inl e \<Rightarrow> Some 0
      | Inr v \<Rightarrow> if v = 0 then Some (sp + 8) else skip_strings m n (sp + 8))"

definition get_elf_aux_vectors_address :: "nat \<Rightarrow> thread \<Rightarrow> memory \<Rightarrow> word_t option" where
  "get_elf_aux_vectors_address n t m =
     (if \<not> (status t \<noteq> 0 \<and> get_sysnum ORIGINAL t = ''execve'') then Some 0
      else
        let sp = peek_reg CURRENT STACK_POINTER t in
        (case peek_word m sp of Inl e \<Rightarrow> Some 0
         | Inr argc \<Rightarrow> skip_strings m n (sp + (1 + argc + 1) * 8)))"

text \<open>An array that grows until the type \<open>AT_NULL\<close> is read, an error occurs, or it cannot grow.\<close>

function fetch_aux_from :: "memory \<Rightarrow> word_t \<Rightarrow> aux_array \<Rightarrow> aux_array option" where
  "fetch_aux_from m a vs =
     (case peek_word m a of Inl e \<Rightarrow> None
      | Inr type \<Rightarrow>
         (if type = AT_NULL then Some vs
          else (case peek_word m (a + 8) of Inl e \<Rightarrow> None
            | Inr val \<Rightarrow>
               (case add_elf_aux_vector type val vs of Inl e \<Rightarrow> None
                | Inr vs \<Rightarrow> fetch_aux_from m (a + 16) vs))))"
  by pat_completeness auto
termination
proof (relation "measure (\<lambda>(m, a, vs). AUX_LIMIT - length vs)", goal_cases)
  case (2 m a vs type val vs')
  then have "length vs' = length vs + 1" "length vs + 1 < AUX_LIMIT"
    by (auto simp: add_elf_aux_vector_def split: if_splits)
  then show ?case by simp
qed simp

declare fetch_aux_from.simps [simp del]

definition fetch_elf_aux_vectors :: "memory \<Rightarrow> word_t \<Rightarrow> aux_array option" where
  "fetch_elf_aux_vectors m a = (if a = 0 then None else fetch_aux_from m a [(AT_NULL, 0)])"

fun push_elf_aux_vectors :: "memory \<Rightarrow> aux_array \<Rightarrow> word_t \<Rightarrow> errno option \<times> memory" where
  "push_elf_aux_vectors m [] a = (Some Crash, m)"
| "push_elf_aux_vectors m ((type, val) # vs) a =
     (if type = AT_NULL then
        (case poke_word m a AT_NULL of (Some e, m) \<Rightarrow> (Some e, m) | (None, m) \<Rightarrow> poke_word m (a + 8) 0)
      else (case poke_word m a type of (Some e, m) \<Rightarrow> (Some e, m)
        | (None, m) \<Rightarrow> (case poke_word m (a + 8) val of (Some e, m) \<Rightarrow> (Some e, m)
            | (None, m) \<Rightarrow> push_elf_aux_vectors m vs (a + 16))))"

section \<open>The round trip\<close>

lemma poke_word_done: "poke_word m a v = (None, m') \<Longrightarrow> m' = poke_bytes m a (word_bytes v)"
  by (auto simp: poke_word_def word_bytes_def split: option.splits)

lemma poke_words:
  assumes "length xs + length ys < 2 ^ 61"
  shows "poke_bytes (poke_bytes m a (concat (map word_bytes xs))) (a + of_nat (8 * length xs)) (concat (map word_bytes ys)) =
    poke_bytes m a (concat (map word_bytes (xs @ ys)))"
  using poke_append [of "concat (map word_bytes xs)" "concat (map word_bytes ys)" m a] assms by (simp add: words_length)

lemma pushed_words:
  assumes "push_elf_aux_vectors m (vs @ [(AT_NULL, x)]) a = (None, m')" "\<forall>e \<in> set vs. fst e \<noteq> AT_NULL" "length vs < AUX_LIMIT"
  shows "m' = poke_bytes m a (concat (map word_bytes (aux_words vs @ [AT_NULL, 0])))"
  using assms
proof (induction vs arbitrary: m a)
  case Nil
  then obtain m1 where "poke_word m a AT_NULL = (None, m1)" "poke_word m1 (a + 8) 0 = (None, m')"
    by (auto split: prod.splits option.splits)
  from this [THEN poke_word_done] show ?case using poke_words [of "[AT_NULL]" "[0]" m a] by simp
next
  case (Cons e vs)
  obtain t v where e: "e = (t, v)" by (cases e)
  with Cons.prems obtain m1 m2 where m: "poke_word m a t = (None, m1)" "poke_word m1 (a + 8) v = (None, m2)"
    "push_elf_aux_vectors m2 (vs @ [(AT_NULL, x)]) (a + 16) = (None, m')"
    by (auto split: prod.splits option.splits)
  have m2: "m2 = poke_bytes m a (concat (map word_bytes [t, v]))"
    using m(1,2) [THEN poke_word_done] poke_words [of "[t]" "[v]" m a] by simp
  have "m' = poke_bytes m2 (a + 16) (concat (map word_bytes (aux_words vs @ [AT_NULL, 0])))"
    using Cons.IH [OF m(3)] Cons.prems(2,3) by simp
  then show ?case
    using poke_words [of "[t, v]" "aux_words vs @ [AT_NULL, 0]" m a] Cons.prems(3) by (simp add: m2 e AUX_LIMIT_def)
qed

lemma fetched_array:
  assumes "has_words m a (aux_words vs @ [AT_NULL])" "\<forall>e \<in> set vs. fst e \<noteq> AT_NULL" "length us + length vs + 1 < AUX_LIMIT"
  shows "fetch_aux_from m a (us @ [(AT_NULL, 0)]) = Some (us @ vs @ [(AT_NULL, 0)])"
  using assms
proof (induction vs arbitrary: a us)
  case Nil
  then have "peek_word m a = Inr AT_NULL" by (intro peek_word_held) (simp add: has_words_Cons)
  then show ?case by (subst fetch_aux_from.simps) simp
next
  case (Cons e vs)
  obtain t v where e: "e = (t, v)" by (cases e)
  from Cons.prems(1) have w: "peek_word m a = Inr t" "peek_word m (a + 8) = Inr v" "has_words m (a + 16) (aux_words vs @ [AT_NULL])"
    using has_words_append [of m a "[t, v]" "aux_words vs @ [AT_NULL]"] by (auto simp: e has_words_Cons intro: peek_word_held)
  have t: "t \<noteq> AT_NULL" using Cons.prems(2) e by simp
  have add: "add_elf_aux_vector t v (us @ [(AT_NULL, 0)]) = Inr ((us @ [(t, v)]) @ [(AT_NULL, 0)])"
    using Cons.prems(3) by (simp add: add_elf_aux_vector_def butlast_append)
  show ?case
    using Cons.IH [OF w(3), of "us @ [(t, v)]"] Cons.prems(2,3) by (subst fetch_aux_from.simps) (simp add: w t add e)
qed

text \<open>
  C35: an auxiliary vector that is pushed is the one that is fetched. When \<open>push_elf_aux_vectors\<close> writes an array whose entries before
  the last have other types than \<open>AT_NULL\<close>, \<open>fetch_elf_aux_vectors\<close> at the same address gives the array again, with the
  value of its last entry cleared, and the fetch always ends because the array it builds cannot grow for ever.
\<close>

theorem auxv_roundtrip:
  assumes "push_elf_aux_vectors m (vs @ [(AT_NULL, x)]) a = (None, m')" "\<forall>e \<in> set vs. fst e \<noteq> AT_NULL"
    and "length vs + 1 < AUX_LIMIT" "a \<noteq> 0"
  shows "fetch_elf_aux_vectors m' a = Some (vs @ [(AT_NULL, 0)])"
proof -
  have "m' = poke_bytes m a (concat (map word_bytes (aux_words vs @ [AT_NULL, 0])))"
    by (rule pushed_words [OF assms(1,2)]) (use assms(3) in simp)
  moreover have "length (concat (map word_bytes (aux_words vs @ [AT_NULL, 0]))) < 2 ^ 64"
    unfolding words_length using assms(3) by (simp add: AUX_LIMIT_def)
  ultimately have "has_words m' a (aux_words vs @ [AT_NULL] @ [0])" by (simp add: has_words_def poked_holds)
  then have "has_words m' a (aux_words vs @ [AT_NULL])"
    using has_words_append [of m' a "aux_words vs @ [AT_NULL]" "[0]"] by simp
  from fetched_array [OF this assms(2), of "[]"] assms(3,4) show ?thesis by (simp add: fetch_elf_aux_vectors_def)
qed

theorem auxv_roundtrip_witness:
  "\<exists>m'. push_elf_aux_vectors (\<lambda>_. Some 0) [(6, 4096), (AT_NULL, 0)] 64 = (None, m') \<and>
     fetch_elf_aux_vectors m' 64 = Some [(6, 4096), (AT_NULL, 0)]"
proof -
  have pk: "\<exists>bs. peek_bytes m b 8 = Some bs" if "total_memory m" for m b
    using that unfolding peek_bytes_mapped total_memory_def by simp
  have pw: "\<exists>m'. poke_word m b v = (None, m') \<and> total_memory m'" if "total_memory m" for m b v
    using pk [OF that, of b] total_poke [OF that] by (auto simp: poke_word_def)
  have t: "total_memory (\<lambda>_. Some 0)" by (simp add: total_memory_def)
  obtain m1 where m1: "poke_word (\<lambda>_. Some 0) 64 6 = (None, m1)" "total_memory m1" using pw [OF t] by blast
  obtain m2 where m2: "poke_word m1 (64 + 8) 4096 = (None, m2)" "total_memory m2" using pw [OF m1(2)] by blast
  obtain m3 where m3: "poke_word m2 (64 + 16) AT_NULL = (None, m3)" "total_memory m3" using pw [OF m2(2)] by blast
  obtain m4 where m4: "poke_word m3 (64 + 16 + 8) 0 = (None, m4)" using pw [OF m3(2)] by blast
  have p: "push_elf_aux_vectors (\<lambda>_. Some 0) ([(6, 4096)] @ [(AT_NULL, 0)]) 64 = (None, m4)"
    using m1(1) m2(1) m3(1) m4 by (simp add: AT_NULL_def)
  from auxv_roundtrip [OF p] p show ?thesis by (simp add: AT_NULL_def AUX_LIMIT_def)
qed

end
