(* ===== verification/Exec.thy ===== *)
theory Exec
  imports Ldso Auxv
begin

text \<open>
  \<open>execve(2)\<close> of a tracee: what its entry does to the path, the arguments and the environment (\<^verbatim>\<open>src/execve/enter.c\<close>), and
  what its exit does to the new process (\<^verbatim>\<open>src/execve/exit.c\<close>). The notification of a loaded program is compiled to
  false and left out.
\<close>

section \<open>State\<close>

text \<open>\<open>host_cache\<close> and \<open>loader_cache\<close> are kept by the tracer from call to call; the other fields belong to the tracee.\<close>

record exec_state =
  host_exe :: "string option"
  new_exe :: "string option"
  skip_loader :: bool
  loaded :: "(load_info \<times> load_info option) option"
  runner :: "string list option"
  stat_shim_lib :: "string option"
  ldso :: ldso_state
  host_cache :: "string \<times> bool"
  loader_cache :: "string option"
  execfn_addr :: word_t
  auxv_path :: "string option"
  seen_execve :: bool
  brk_heap :: heap

text \<open>The kernel and the environment of the tracer: \<open>k_extract\<close> writes the loader that the program contains to a temporary
  file, \<open>k_temp\<close> makes a temporary file, \<open>k_fill\<close> writes it; \<open>aux_turns\<close> bounds the search for the auxiliary vector.\<close>

record 'w exec_kernel = "'w elf_env" +
  env_var :: "string \<Rightarrow> string option"
  k_extract :: "'w \<Rightarrow> string option \<times> 'w"
  k_temp :: "'w \<Rightarrow> string option \<times> 'w"
  k_fill :: "string \<Rightarrow> byte list \<Rightarrow> 'w \<Rightarrow> bool \<times> 'w"
  page_bytes :: word_t
  stale_entry :: "byte list"
  stale_header :: program_header
  aux_turns :: nat

record 'w process =
  xs :: exec_state
  tr :: tracee
  tm :: "thread \<times> memory"
  kw :: 'w

section \<open>The loader\<close>

definition get_loader_path :: "'w exec_kernel \<Rightarrow> 'w process \<Rightarrow> string option \<times> 'w process" where
  "get_loader_path E p =
     (case loader_cache (xs p) of Some l \<Rightarrow> (Some l, p)
      | None \<Rightarrow>
         (let (l, w) = (case env_var E ''PROOT_LOADER'' of
                Some f \<Rightarrow> (if k_access E f (kw p) = None then (Some f, kw p) else k_extract E (kw p))
              | None \<Rightarrow> k_extract E (kw p))
          in (l, p\<lparr>xs := (xs p)\<lparr>loader_cache := l\<rparr>, kw := w\<rparr>)))"

section \<open>A program for another machine\<close>

text \<open>A push whose error is the result.\<close>

definition push_vector :: "reg \<Rightarrow> xarray \<Rightarrow> 'w process \<Rightarrow> unit res \<times> 'w process" where
  "push_vector r arr p =
     (case push_array_of_xpointers r arr (tm p) of
        Inl e \<Rightarrow> (Inl e, p)
      | Inr (Some e, q) \<Rightarrow> (Inl e, p\<lparr>tm := q\<rparr>)
      | Inr (None, q) \<Rightarrow> (Inr (), p\<lparr>tm := q\<rparr>))"

definition patch_env :: "'w exec_kernel \<Rightarrow> string \<Rightarrow> xarray \<Rightarrow> 'w process \<Rightarrow> unit res \<times> 'w process" where
  "patch_env E target env p =
     (case rebuild_host_ldso_paths E (stale_entry E) (stale_header E) (env_var E) (snd (tm p)) target (kw p) (ldso (xs p)) env of
        Inl e \<Rightarrow> (Inl e, p)
      | Inr (l, env) \<Rightarrow> push_vector SYSARG_3 env (p\<lparr>xs := (xs p)\<lparr>ldso := l\<rparr>\<rparr>))"

text \<open>The arguments of the runner come before \<open>-0\<close>, the old first argument and the path of the program.\<close>

definition runner_args :: "string list \<Rightarrow> string \<Rightarrow> xarray \<Rightarrow> memory \<Rightarrow> xarray res" where
  "runner_args qemu user argv m =
     (case read_xpointee_as_string m argv 0 of Inl e \<Rightarrow> Inl e
      | Inr (arg0, argv) \<Rightarrow>
         (let argv = resize_array_of_xpointers 1 (length qemu + 2) argv in
          case write_xpointees 0 (map bytes_of qemu) argv of Inl e \<Rightarrow> Inl e
          | Inr argv \<Rightarrow>
             (case arg0 of None \<Rightarrow> Inl Crash
              | Some a \<Rightarrow> write_xpointees (length qemu) [bytes_of ''-0'', a, bytes_of user] argv)))"

definition saved_paths :: "exec_state \<Rightarrow> (byte list \<times> byte list) option" where
  "saved_paths x =
     (case (ld_host (ldso x), ld_guest (ldso x)) of (Some h, Some g) \<Rightarrow> Some (h, g) | _ \<Rightarrow> None)"

definition expand_runner ::
  "'w exec_kernel \<Rightarrow> string list \<Rightarrow> string \<Rightarrow> string \<Rightarrow> 'w process \<Rightarrow> (string \<times> string) res \<times> 'w process" where
  "expand_runner E qemu target user p =
     (let (t, m) = tm p in
      case fetch_array_of_xpointers SYSARG_3 0 t m of Inl e \<Rightarrow> (Inl e, p)
      | Inr env \<Rightarrow>
         (let (native, cache) = is_host_elf E (env_var E ''PROOT_FORCE_FOREIGN_BINARY'' \<noteq> None) True target (kw p) (host_cache (xs p));
              p = p\<lparr>xs := (xs p)\<lparr>host_cache := cache\<rparr>\<rparr>
          in if native then
               (case patch_env E target env p of (Inl e, p) \<Rightarrow> (Inl e, p) | (Inr _, p) \<Rightarrow> (Inr (target, user), p))
             else
               let skip = (env_var E ''PROOT_USE_LOADER_FOR_QEMU'' = None);
                   p = p\<lparr>xs := (xs p)\<lparr>skip_loader := skip\<rparr>\<rparr>
               in (case fetch_array_of_xpointers SYSARG_2 0 t m of Inl e \<Rightarrow> (Inl e, p)
                   | Inr argv \<Rightarrow>
                      (case runner_args qemu user argv m of Inl e \<Rightarrow> (Inl e, p)
                       | Inr argv \<Rightarrow>
                          (case ldso_env_passthru m (saved_paths (xs p)) ''-E'' ''-U'' (length qemu) env argv of Inl e \<Rightarrow> (Inl e, p)
                           | Inr (env, argv) \<Rightarrow>
                              (case push_vector SYSARG_2 argv p of (Inl e, p) \<Rightarrow> (Inl e, p)
                               | (Inr _, p) \<Rightarrow>
                                  if qemu = [] then (Inl Crash, p)
                                  else
                                    let host' = take (PATH_MAX - 1) (hd qemu);
                                        user' = take (PATH_MAX - 1) (if skip then host' else HOST_ROOTFS @ host')
                                    in (case patch_env E host' env p of (Inl e, p) \<Rightarrow> (Inl e, p)
                                        | (Inr _, p) \<Rightarrow> (Inr (host', user'), p))))))))"

section \<open>The entry\<close>

definition new_load_info :: "string \<Rightarrow> string \<Rightarrow> string option \<Rightarrow> load_info" where
  "new_load_info h u r =
     \<lparr>li_host = h, li_user = u, li_raw = r, mappings = [], header = elf_header_of [], executable_stack = False, li_interp = None\<rparr>"

text \<open>The program and its interpreter are read; an interpreter of the interpreter is looked up, and forgotten.\<close>

definition load_program ::
  "'w exec_kernel \<Rightarrow> load_info \<Rightarrow> 'w process \<Rightarrow> (load_info \<times> load_info option) res \<times> 'w process" where
  "load_program E info p =
     (let q = (runner (xs p) \<noteq> None) in
      case extract_load_info E (page_bytes E) q info (tr p) (kw p) of
        (Inl e, t, w) \<Rightarrow> (Inl e, p\<lparr>tr := t, kw := w\<rparr>)
      | (Inr info, t, w) \<Rightarrow>
         (case li_interp info of
            None \<Rightarrow> (Inr (compute_load_addresses (info, None)), p\<lparr>tr := t, kw := w\<rparr>)
          | Some (h, u) \<Rightarrow>
             (case extract_load_info E (page_bytes E) q (new_load_info h u None) t w of
                (Inl e, t, w) \<Rightarrow> (Inl e, p\<lparr>tr := t, kw := w\<rparr>)
              | (Inr i, t, w) \<Rightarrow> (Inr (compute_load_addresses (info, Some (i\<lparr>li_interp := None\<rparr>))), p\<lparr>tr := t, kw := w\<rparr>))))"

definition inject_shim :: "'w exec_kernel \<Rightarrow> string \<Rightarrow> load_info option \<Rightarrow> 'w process \<Rightarrow> unit res \<times> 'w process" where
  "inject_shim E target interp p =
     (if stat_shim_lib (xs p) = None \<or> interp = None then (Inr (), p)
      else
        let (native, cache) = is_host_elf E (env_var E ''PROOT_FORCE_FOREIGN_BINARY'' \<noteq> None) (runner (xs p) \<noteq> None) target (kw p) (host_cache (xs p));
            p = p\<lparr>xs := (xs p)\<lparr>host_cache := cache\<rparr>\<rparr>
        in if native then (Inr (), p)
           else (case fetch_array_of_xpointers SYSARG_3 0 (fst (tm p)) (snd (tm p)) of Inl e \<Rightarrow> (Inl e, p)
             | Inr env \<Rightarrow>
                (case ldso_inject_stat_shim_env (snd (tm p)) (env_var E) (stat_shim_lib (xs p)) env of Inl e \<Rightarrow> (Inl e, p)
                 | Inr env \<Rightarrow> push_vector SYSARG_3 env p)))"

definition note_executable :: "'w exec_kernel \<Rightarrow> string \<Rightarrow> 'w process \<Rightarrow> 'w process" where
  "note_executable E target p =
     (let (r, guest_exe, t) = detranslate_path (tracees (fs (paths E))) (tr p) target None
      in p\<lparr>xs := (xs p)\<lparr>host_exe := Some target, new_exe := Some guest_exe, skip_loader := False\<rparr>, tr := t\<rparr>)"

text \<open>The path of the loader takes the place of that of the program, which is kept in \<open>loaded\<close>.\<close>

definition prepare_program :: "'w exec_kernel \<Rightarrow> string \<Rightarrow> string \<Rightarrow> string option \<Rightarrow> 'w process \<Rightarrow> unit res \<times> 'w process" where
  "prepare_program E target user raw p =
     (let info = new_load_info target user (Some (case raw of Some r \<Rightarrow> r | None \<Rightarrow> user));
          p = p\<lparr>xs := (xs p)\<lparr>loaded := Some (info, None)\<rparr>\<rparr>
      in case load_program E info p of (Inl e, p) \<Rightarrow> (Inl e, p)
      | (Inr (main, interp), p) \<Rightarrow>
         (let p = p\<lparr>xs := (xs p)\<lparr>loaded := Some (main, interp)\<rparr>\<rparr> in
          case get_loader_path E p of (None, p) \<Rightarrow> (Inl ENOENT, p)
          | (Some l, p) \<Rightarrow>
             (case inject_shim E target interp p of (Inl e, p) \<Rightarrow> (Inl e, p)
              | (Inr _, p) \<Rightarrow>
                 (case set_sysarg_path l SYSARG_1 (tm p) of Inl e \<Rightarrow> (Inl e, p)
                  | Inr (Some e, q) \<Rightarrow> (Inl e, p\<lparr>tm := q\<rparr>)
                  | Inr (None, q) \<Rightarrow> (Inr (), p\<lparr>tm := q\<rparr>)))))"

definition translate_execve_enter :: "'w exec_kernel \<Rightarrow> 'w process \<Rightarrow> unit res \<times> 'w process" where
  "translate_execve_enter E p =
     (case get_sysarg_path (fst (tm p)) (snd (tm p)) SYSARG_1 of Inl e \<Rightarrow> (Inl e, p)
      | Inr user \<Rightarrow>
         (let (l, p) = get_loader_path E p in
          if l = Some user then (Inr (), p)
          else (case expand_shebang (exec_env.truncate E) user (tr p) (tm p) (kw p) of
              (Inl e, t, q, w) \<Rightarrow> (Inl (if e = EISDIR then EACCES else e), p\<lparr>tr := t, tm := q, kw := w\<rparr>)
            | (Inr (target, user', script), t, q, w) \<Rightarrow>
               (let raw = (if \<not> script \<and> runner (xs p) = None then None else Some user);
                    p = note_executable E target (p\<lparr>tr := t, tm := q, kw := w\<rparr>)
                in case runner (xs p) of
                     None \<Rightarrow> prepare_program E target user' raw p
                   | Some qemu \<Rightarrow>
                      (case expand_runner E qemu target user' p of (Inl e, p) \<Rightarrow> (Inl e, p)
                       | (Inr (target, user'), p) \<Rightarrow> prepare_program E target user' raw p)))))"

section \<open>The exit\<close>

definition capture_execfn_addr :: "'w process \<Rightarrow> 'w process" where
  "capture_execfn_addr p =
     (let (t, m) = tm p; sp = peek_reg CURRENT STACK_POINTER t in
      case (if sp = 0 then Inr 0 else peek_word m sp) of Inl e \<Rightarrow> p
      | Inr argc \<Rightarrow>
         (if 0 < argc \<and> argc < 4096 then
            p\<lparr>xs := (xs p)\<lparr>execfn_addr := (case peek_word m (sp + 8) of Inl e \<Rightarrow> 0 | Inr a \<Rightarrow> a)\<rparr>\<rparr>
          else p))"

fun patch_execfn :: "word_t \<Rightarrow> aux_array \<Rightarrow> aux_array" where
  "patch_execfn a [] = []"
| "patch_execfn a ((type, val) # vs) =
     (if type = AT_NULL then (type, val) # vs
      else if type = AT_EXECFN then (type, a) # vs
      else (type, val) # patch_execfn a vs)"

definition aux_file_bytes :: "aux_array \<Rightarrow> byte list" where
  "aux_file_bytes vs = concat (map word_bytes (aux_words (takeWhile (\<lambda>e. fst e \<noteq> AT_NULL) vs)))"

text \<open>A file with the vector is bound over that of the process. Whatever fails is ignored.\<close>

definition bind_proc_pid_auxv :: "'w exec_kernel \<Rightarrow> 'w process \<Rightarrow> 'w process option" where
  "bind_proc_pid_auxv E p =
     (case get_elf_aux_vectors_address (aux_turns E) (fst (tm p)) (snd (tm p)) of None \<Rightarrow> None
      | Some a \<Rightarrow>
         (case (if a = 0 then None else fetch_elf_aux_vectors (snd (tm p)) a) of None \<Rightarrow> Some p
          | Some vs \<Rightarrow>
             (let vs = (if execfn_addr (xs p) \<noteq> 0 then patch_execfn (execfn_addr (xs p)) vs else vs);
                  name = ''/proc/'' @ decimal_int (t_pid (tr p)) @ ''/auxv'';
                  (b, t) = get_binding (tr p) GUEST name;
                  t = (case b of None \<Rightarrow> t
                       | Some b \<Rightarrow> if compare_paths (guest_path (tracee.heap t b)) name = PATHS_ARE_EQUAL
                            then remove_binding_from_all_lists b t else t);
                  (f, w) = k_temp E (kw p);
                  p = p\<lparr>tr := t, kw := w\<rparr>
              in case f of None \<Rightarrow> Some p
              | Some f \<Rightarrow>
                 (let (ok, w) = k_fill E f (aux_file_bytes vs) w in
                  if \<not> ok then Some (p\<lparr>kw := w\<rparr>)
                  else Some (p\<lparr>xs := (xs p)\<lparr>auxv_path := Some f\<rparr>, tr := snd (insort_binding4 f name BINDING_MOUNT_INTERNAL t), kw := w\<rparr>)))))"

text \<open>\<open>None\<close>: the tracer does not come back. Its own errors are ignored at the exit.\<close>

definition translate_execve_exit :: "'w exec_kernel \<Rightarrow> 'w process \<Rightarrow> 'w process option" where
  "translate_execve_exit E p =
     (if skip_loader (xs p) then
        Some (p\<lparr>xs := (xs p)\<lparr>seen_execve := True\<rparr>, tm := ((fst (tm p))\<lparr>restore_original_regs := False\<rparr>, snd (tm p))\<rparr>)
      else if sint (ucast (peek_reg CURRENT SYSARG_RESULT (fst (tm p))) :: u32) < 0 then Some p
      else
        case bind_proc_pid_auxv E (capture_execfn_addr (p\<lparr>xs := (xs p)\<lparr>seen_execve := True\<rparr>\<rparr>)) of None \<Rightarrow> None
        | Some p \<Rightarrow>
           (let p = p\<lparr>tr := (case new_exe (xs p) of None \<Rightarrow> tr p | Some e \<Rightarrow> (tr p)\<lparr>exe := Some e\<rparr>),
                      xs := (xs p)\<lparr>brk_heap := \<lparr>heap_base = 0, heap_size = 0, heap_disabled = False\<rparr>\<rparr>\<rparr>
            in case loaded (xs p) of None \<Rightarrow> None
            | Some (main, interp) \<Rightarrow>
               (case transfer_load_script (page_bytes E) main interp (tm p) of
                  Inl e \<Rightarrow> None
                | Inr (r, q) \<Rightarrow> Some (p\<lparr>tm := q\<rparr>))))"

end
