(* ===== verification/Procfd.thy ===== *)
theory Procfd
  imports Translate
begin

text \<open>
  The guest names of descriptors (\<^verbatim>\<open>src/syscall/exit.c\<close>): a hundred and twenty-eight slots that remember under which
  path a process has opened a descriptor, the host path the kernel reported then, and the binding and the attributes
  of the mount it was opened through. A binding is its address, as in \<open>Bindings\<close>; that a slot keeps the object
  alive is not part of the state. Every operation also has its effect on the cache of \<open>Dirfd\<close>.
\<close>

section \<open>Slots\<close>

definition PROC_FD_PATH_CACHE_SIZE :: nat where "PROC_FD_PATH_CACHE_SIZE = 128"

record fd_slot =
  f_pid :: int
  f_fd :: int
  f_path :: string
  f_host :: string
  f_binding :: "nat option"
  f_has_attributes :: bool
  f_readonly :: bool
  f_flags :: word_t

record proc_fds =
  fslots :: "fd_slot list"
  fnext :: nat

definition zero_fd_slot :: fd_slot where
  "zero_fd_slot = \<lparr>f_pid = 0, f_fd = 0, f_path = [], f_host = [], f_binding = None, f_has_attributes = False,
     f_readonly = False, f_flags = 0\<rparr>"

definition proc_fds_start :: proc_fds where
  "proc_fds_start = \<lparr>fslots = replicate PROC_FD_PATH_CACHE_SIZE zero_fd_slot, fnext = 0\<rparr>"

definition is_slot_of :: "int \<Rightarrow> int \<Rightarrow> fd_slot \<Rightarrow> bool" where
  "is_slot_of pid fd s \<longleftrightarrow> f_pid s = pid \<and> f_fd s = fd"

fun slot_index :: "(fd_slot \<Rightarrow> bool) \<Rightarrow> nat \<Rightarrow> fd_slot list \<Rightarrow> nat option" where
  "slot_index P i [] = None"
| "slot_index P i (s # ss) = (if P s then Some i else slot_index P (Suc i) ss)"

section \<open>Remembering\<close>

text \<open>A path is \<open>None\<close> for NULL.\<close>

definition remember_slot ::
  "int \<Rightarrow> int \<Rightarrow> string \<Rightarrow> string \<Rightarrow> nat option \<Rightarrow> bool \<Rightarrow> bool \<Rightarrow> word_t \<Rightarrow> fd_slot" where
  "remember_slot pid fd path hostp b has ro flags =
     \<lparr>f_pid = pid, f_fd = fd, f_path = take (PATH_MAX - 1) path, f_host = take (PATH_MAX - 1) hostp, f_binding = b,
      f_has_attributes = has, f_readonly = ro, f_flags = flags\<rparr>"

definition remember_proc_fd_path ::
  "int \<Rightarrow> int \<Rightarrow> string option \<Rightarrow> string \<Rightarrow> nat option \<Rightarrow> bool \<Rightarrow> bool \<Rightarrow> word_t \<Rightarrow> proc_fds \<Rightarrow> proc_fds" where
  "remember_proc_fd_path pid fd path hostp b has ro flags d =
     (case path of None \<Rightarrow> d
      | Some path \<Rightarrow>
          if fd < 0 \<or> c_at path 0 \<noteq> slash then d
          else case slot_index (is_slot_of pid fd) 0 (fslots d) of
            Some i \<Rightarrow> d\<lparr>fslots := (fslots d)[i := remember_slot pid fd path hostp b has ro flags]\<rparr>
          | None \<Rightarrow>
              d\<lparr>fslots := (fslots d)[fnext d := remember_slot pid fd path hostp b has ro flags],
                fnext := (fnext d + 1) mod PROC_FD_PATH_CACHE_SIZE\<rparr>)"

section \<open>Forgetting\<close>

text \<open>What a slot that is forgotten keeps is not looked at again: its host path and its attributes.\<close>

definition forget_slot :: "fd_slot \<Rightarrow> fd_slot" where
  "forget_slot s = s\<lparr>f_pid := 0, f_fd := -1, f_path := [], f_has_attributes := False, f_binding := None\<rparr>"

definition forget_slots :: "(fd_slot \<Rightarrow> bool) \<Rightarrow> proc_fds \<Rightarrow> proc_fds" where
  "forget_slots P d = d\<lparr>fslots := map (\<lambda>s. if P s then forget_slot s else s) (fslots d)\<rparr>"

definition forget_proc_fd_path :: "int \<Rightarrow> int \<Rightarrow> proc_fds \<times> dirfds \<Rightarrow> proc_fds \<times> dirfds" where
  "forget_proc_fd_path pid fd = map_prod (forget_slots (is_slot_of pid fd)) (forget_translated_dirfd pid fd)"

definition in_fd_range :: "int \<Rightarrow> nat \<Rightarrow> nat \<Rightarrow> fd_slot \<Rightarrow> bool" where
  "in_fd_range pid first lst s \<longleftrightarrow> f_pid s = pid \<and> f_fd s \<ge> 0 \<and> first \<le> nat (f_fd s) \<and> nat (f_fd s) \<le> lst"

definition forget_proc_fd_paths_range :: "int \<Rightarrow> nat \<Rightarrow> nat \<Rightarrow> proc_fds \<times> dirfds \<Rightarrow> proc_fds \<times> dirfds" where
  "forget_proc_fd_paths_range pid first lst =
     map_prod (forget_slots (in_fd_range pid first lst)) (forget_translated_dirfds_range pid first lst)"

definition clear_proc_fd_paths :: "int \<Rightarrow> proc_fds \<times> dirfds \<Rightarrow> proc_fds \<times> dirfds" where
  "clear_proc_fd_paths pid = map_prod (forget_slots (\<lambda>s. f_pid s = pid)) (clear_translated_dirfds pid)"

section \<open>Looking up\<close>

definition recall_slot :: "int \<Rightarrow> int \<Rightarrow> (fd_slot \<Rightarrow> bool) \<Rightarrow> proc_fds \<Rightarrow> fd_slot option" where
  "recall_slot pid fd P d = List.find (\<lambda>s. is_slot_of pid fd s \<and> P s) (fslots d)"

definition recall_proc_fd_path :: "int \<Rightarrow> int \<Rightarrow> proc_fds \<Rightarrow> string option" where
  "recall_proc_fd_path pid fd d = map_option f_path (recall_slot pid fd (\<lambda>s. f_path s \<noteq> []) d)"

definition recall_proc_fd_binding :: "'w tr_env \<Rightarrow> int \<Rightarrow> int \<Rightarrow> proc_fds \<Rightarrow> 'w \<Rightarrow> nat option \<times> 'w" where
  "recall_proc_fd_binding E pid fd d w =
     (case readlink_proc_pid_fd E pid fd w of
        (Inl e, w) \<Rightarrow> (None, w)
      | (Inr hostp, w) \<Rightarrow> (Option.bind (recall_slot pid fd (\<lambda>s. f_host s = hostp) d) f_binding, w))"

definition recall_proc_fd_mount_attributes :: "int \<Rightarrow> int \<Rightarrow> proc_fds \<Rightarrow> (bool \<times> word_t) option" where
  "recall_proc_fd_mount_attributes pid fd d =
     map_option (\<lambda>s. (f_readonly s, f_flags s)) (recall_slot pid fd f_has_attributes d)"

section \<open>Copying\<close>

text \<open>The slots are read one after the other while those of the child are written.\<close>

definition inherit_slot :: "int \<Rightarrow> int \<Rightarrow> nat \<Rightarrow> proc_fds \<Rightarrow> proc_fds" where
  "inherit_slot parent child i d =
     (let s = fslots d ! i in
      if f_pid s = parent
      then remember_proc_fd_path child (f_fd s) (Some (f_path s)) (f_host s) (f_binding s) (f_has_attributes s)
             (f_readonly s) (f_flags s) d
      else d)"

definition inherit_proc_fd_paths :: "int \<Rightarrow> int \<Rightarrow> proc_fds \<times> dirfds \<Rightarrow> proc_fds \<times> dirfds" where
  "inherit_proc_fd_paths parent child p =
     map_prod (fold (inherit_slot parent child) [0..<PROC_FD_PATH_CACHE_SIZE]) (inherit_translated_dirfds parent child)
       (clear_proc_fd_paths child p)"

definition copy_proc_fd_path :: "int \<Rightarrow> int \<Rightarrow> int \<Rightarrow> proc_fds \<times> dirfds \<Rightarrow> proc_fds \<times> dirfds" where
  "copy_proc_fd_path pid source target p =
     (case recall_proc_fd_path pid source (fst p) of
        Some path \<Rightarrow>
          (case recall_slot pid source (\<lambda>_. True) (fst p) of None \<Rightarrow> map_prod id (copy_translated_dirfd pid source target) p
           | Some s \<Rightarrow>
              map_prod (remember_proc_fd_path pid target (Some path) (f_host s) (f_binding s) (f_has_attributes s)
                          (f_readonly s) (f_flags s))
                (copy_translated_dirfd pid source target) p)
      | None \<Rightarrow> map_prod id (copy_translated_dirfd pid source target) (forget_proc_fd_path pid target p))"

section \<open>A new root\<close>

text \<open>\<open>pivot_root\<close>: what was below the new root loses its prefix, the rest moves below \<open>put_old\<close>.\<close>

definition rebase_path :: "string \<Rightarrow> string \<Rightarrow> string \<Rightarrow> string res" where
  "rebase_path new_root put_old path =
     (if compare_paths new_root path = PATHS_ARE_EQUAL \<or> compare_paths new_root path = PATH1_IS_PREFIX then
        (let suffix = drop (if length new_root = 1 then 0 else length new_root) path
         in Inr (if c_at suffix 0 = NUL then ''/'' else suffix))
      else join2 put_old path)"

definition rebase_slot :: "int \<Rightarrow> string \<Rightarrow> string \<Rightarrow> fd_slot \<Rightarrow> fd_slot" where
  "rebase_slot pid new_root put_old s =
     (if f_pid s \<noteq> pid then s
      else case rebase_path new_root put_old (f_path s) of Inl e \<Rightarrow> s | Inr p \<Rightarrow> s\<lparr>f_path := p\<rparr>)"

definition rebase_proc_fd_paths :: "int \<Rightarrow> string \<Rightarrow> string \<Rightarrow> proc_fds \<Rightarrow> proc_fds" where
  "rebase_proc_fd_paths pid new_root put_old d = d\<lparr>fslots := map (rebase_slot pid new_root put_old) (fslots d)\<rparr>"

section \<open>References to descriptors\<close>

fun nonnegative_int :: "string \<Rightarrow> int \<Rightarrow> int option" where
  "nonnegative_int [] v = Some v"
| "nonnegative_int (c # cs) v =
     (let digit = int (of_char c) - 48 in
      if digit < 0 \<or> digit > 9 \<or> v > (2147483647 - digit) div 10 then None
      else nonnegative_int cs (v * 10 + digit))"

definition parse_nonnegative_int :: "string \<Rightarrow> int option" where
  "parse_nonnegative_int text = (if text = [] then None else nonnegative_int text 0)"

definition parse_proc_fd_reference :: "tracee \<Rightarrow> string \<Rightarrow> int option" where
  "parse_proc_fd_reference t path =
     (let alias = (case cwd_alias_prefix t of None \<Rightarrow> None
            | Some a \<Rightarrow> (if prefix (a @ ''/proc/self/fd/'') path then Some (drop (length a + 14) path) else None))
      in if prefix ''/proc/self/fd/'' path then parse_nonnegative_int (drop 14 path)
      else case alias of Some text \<Rightarrow> parse_nonnegative_int text
      | None \<Rightarrow>
          if prefix ''/proc/'' path then
            (let pid_text = takeWhile (\<lambda>c. c \<noteq> slash) (drop 6 path);
                 rest = drop (length pid_text) (drop 6 path)
             in if prefix ''/fd/'' rest \<and> parse_nonnegative_int pid_text = Some (t_pid t)
                then parse_nonnegative_int (drop 4 rest) else None)
          else None)"

end
