(* ===== verification/Procfd_Spec.thy ===== *)
theory Procfd_Spec
  imports Procfd Translate_Spec
begin

text \<open>
  What the names of descriptors promise: whatever processes open, close, duplicate and inherit, a name that is found is the
  one the descriptor was opened under. The cache may forget, it is never stale.
\<close>

section \<open>Good tables\<close>

type_synonym fd_name = "string \<times> string \<times> nat option \<times> bool \<times> bool \<times> word_t"

definition fd_name :: "fd_slot \<Rightarrow> fd_name" where
  "fd_name s = (f_path s, f_host s, f_binding s, f_has_attributes s, f_readonly s, f_flags s)"

definition slot_good :: "fd_slot \<Rightarrow> bool" where
  "slot_good s \<longleftrightarrow> f_pid s \<noteq> 0 \<longrightarrow>
     0 \<le> f_fd s \<and> c_at (f_path s) 0 = slash \<and> length (f_path s) < PATH_MAX \<and> length (f_host s) < PATH_MAX"

definition one_slot_each :: "fd_slot list \<Rightarrow> bool" where
  "one_slot_each l \<longleftrightarrow> (\<forall>i j. i < length l \<longrightarrow> j < length l \<longrightarrow> f_pid (l ! i) \<noteq> 0 \<longrightarrow>
     f_pid (l ! i) = f_pid (l ! j) \<longrightarrow> f_fd (l ! i) = f_fd (l ! j) \<longrightarrow> i = j)"

definition fds_ok :: "proc_fds \<Rightarrow> bool" where
  "fds_ok d \<longleftrightarrow> length (fslots d) = PROC_FD_PATH_CACHE_SIZE \<and> fnext d < PROC_FD_PATH_CACHE_SIZE \<and>
     (\<forall>s \<in> set (fslots d). slot_good s) \<and> one_slot_each (fslots d)"

text \<open>Every slot holds the name its descriptor has.\<close>

definition true_names :: "(int \<times> int \<Rightarrow> fd_name option) \<Rightarrow> proc_fds \<Rightarrow> bool" where
  "true_names m d \<longleftrightarrow> (\<forall>s \<in> set (fslots d). f_pid s \<noteq> 0 \<longrightarrow> m (f_pid s, f_fd s) = Some (fd_name s))"

lemma fds_ok_start: "fds_ok proc_fds_start"
  by (auto simp: fds_ok_def proc_fds_start_def PROC_FD_PATH_CACHE_SIZE_def slot_good_def zero_fd_slot_def one_slot_each_def)

lemma true_names_start: "true_names m proc_fds_start"
  by (auto simp: true_names_def proc_fds_start_def zero_fd_slot_def)

lemma slot_index_Some:
  "slot_index P k l = Some i \<Longrightarrow> k \<le> i \<and> i - k < length l \<and> P (l ! (i - k))"
  by (induction l arbitrary: k) (auto split: if_splits simp: nth_Cons' dest!: meta_spec, force+)

lemma slot_index_None: "slot_index P k l = None \<longleftrightarrow> (\<forall>s \<in> set l. \<not> P s)"
  by (induction l arbitrary: k) auto

section \<open>Operations\<close>

lemma remember_cases:
  assumes "fds_ok d"
  obtains "remember_proc_fd_path pid fd path h b has ro fl d = d" "path = None \<or> fd < 0 \<or> c_at (the path) 0 \<noteq> slash"
  | p i where "path = Some p" "0 \<le> fd" "c_at p 0 = slash" "i < PROC_FD_PATH_CACHE_SIZE"
      "fslots (remember_proc_fd_path pid fd path h b has ro fl d) = (fslots d)[i := remember_slot pid fd p h b has ro fl]"
      "fnext (remember_proc_fd_path pid fd path h b has ro fl d) < PROC_FD_PATH_CACHE_SIZE"
      "is_slot_of pid fd (fslots d ! i) \<or> (\<forall>s \<in> set (fslots d). \<not> is_slot_of pid fd s)"
proof (cases path)
  case (Some p)
  have l: "length (fslots d) = PROC_FD_PATH_CACHE_SIZE" "fnext d < PROC_FD_PATH_CACHE_SIZE"
    using assms by (simp_all add: fds_ok_def)
  show ?thesis
  proof (cases "fd < 0 \<or> c_at p 0 \<noteq> slash")
    case True
    with Some that(1) show ?thesis by (auto simp: remember_proc_fd_path_def)
  next
    case False
    show ?thesis
    proof (cases "slot_index (is_slot_of pid fd) 0 (fslots d)")
      case None
      have "\<forall>s \<in> set (fslots d). \<not> is_slot_of pid fd s" using None by (simp add: slot_index_None)
      with Some False l None show ?thesis
        by (intro that(2) [of p "fnext d"]) (simp_all add: remember_proc_fd_path_def PROC_FD_PATH_CACHE_SIZE_def)
    next
      case (Some i)
      from slot_index_Some [OF this] Some False l \<open>path = _\<close> show ?thesis
        by (intro that(2) [of p i]) (auto simp: remember_proc_fd_path_def)
    qed
  qed
qed (auto simp: remember_proc_fd_path_def that(1))

lemma PATH_MAX_gt_2: "2 < PATH_MAX"
  by (simp add: PATH_MAX_def)

lemma c_at_take [simp]: "0 < n \<Longrightarrow> c_at (take n p) 0 = c_at p 0"
  by (simp add: c_at_def)

lemma slot_good_remember: "0 \<le> fd \<Longrightarrow> c_at p 0 = slash \<Longrightarrow> slot_good (remember_slot pid fd p h b has ro fl)"
  using PATH_MAX_gt_2 by (auto simp: slot_good_def remember_slot_def min_def)

lemma in_update_cases: "s \<in> set (l[i := x]) \<Longrightarrow> i < length l \<Longrightarrow> s = x \<or> (\<exists>j < length l. j \<noteq> i \<and> s = l ! j)"
  by (auto simp: in_set_conv_nth nth_list_update split: if_splits)

lemma fds_ok_remember:
  assumes "fds_ok d"
  shows "fds_ok (remember_proc_fd_path pid fd path h b has ro fl d)"
  using assms
proof (cases rule: remember_cases [of d pid fd path h b has ro fl])
  case (2 p i)
  let ?x = "remember_slot pid fd p h b has ro fl"
  have l: "length (fslots d) = PROC_FD_PATH_CACHE_SIZE" and g: "\<forall>s \<in> set (fslots d). slot_good s" and o: "one_slot_each (fslots d)"
    using assms by (simp_all add: fds_ok_def)
  have key: "f_pid ?x = pid" "f_fd ?x = fd" by (simp_all add: remember_slot_def)
  have "slot_good s" if "s \<in> set ((fslots d)[i := ?x])" for s
    using set_update_subset_insert [of "fslots d" i ?x] that g slot_good_remember [OF 2(2,3)] by blast
  moreover have "one_slot_each ((fslots d)[i := ?x])"
    unfolding one_slot_each_def
  proof (intro allI impI)
    fix j k
    assume jk: "j < length ((fslots d)[i := ?x])" "k < length ((fslots d)[i := ?x])" "f_pid ((fslots d)[i := ?x] ! j) \<noteq> 0"
      "f_pid ((fslots d)[i := ?x] ! j) = f_pid ((fslots d)[i := ?x] ! k)" "f_fd ((fslots d)[i := ?x] ! j) = f_fd ((fslots d)[i := ?x] ! k)"
    have no: "a = i" if "a < length (fslots d)" "f_pid (fslots d ! a) = pid" "f_fd (fslots d ! a) = fd" "pid \<noteq> 0" for a
      using 2(4,7) that o l unfolding one_slot_each_def is_slot_of_def by (metis nth_mem)
    show "j = k"
    proof (cases "j = i \<or> k = i")
      case True
      with jk no [of j] no [of k] key l 2(4) show ?thesis by (auto simp: nth_list_update split: if_splits)
    next
      case False
      with jk o show ?thesis by (auto simp: one_slot_each_def)
    qed
  qed
  ultimately show ?thesis using 2(5,6) l by (simp add: fds_ok_def)
qed (use assms in simp)

lemma true_names_remember:
  assumes "fds_ok d" "true_names m d" "path = Some p"
    and "0 \<le> fd \<and> c_at p 0 = slash \<Longrightarrow> pid \<noteq> 0 \<Longrightarrow> m' (pid, fd) = Some (fd_name (remember_slot pid fd p h b has ro fl))"
    and "\<And>q n. (q, n) \<noteq> (pid, fd) \<or> \<not> (0 \<le> fd \<and> c_at p 0 = slash) \<Longrightarrow> m' (q, n) = m (q, n)"
  shows "true_names m' (remember_proc_fd_path pid fd path h b has ro fl d)"
  using assms(1)
proof (cases rule: remember_cases [of d pid fd path h b has ro fl])
  case 1
  with assms show ?thesis by (auto simp: true_names_def)
next
  case (2 q i)
  let ?x = "remember_slot pid fd p h b has ro fl"
  have q: "q = p" using 2(1) assms(3) by simp
  have l: "i < length (fslots d)" using assms(1) 2(4) by (simp add: fds_ok_def)
  have o: "one_slot_each (fslots d)" using assms(1) by (simp add: fds_ok_def)
  show ?thesis
    unfolding true_names_def 2(5) q
  proof (intro ballI impI)
    fix s assume "s \<in> set ((fslots d)[i := ?x])" "f_pid s \<noteq> 0"
    from in_update_cases [OF this(1) l]
    show "m' (f_pid s, f_fd s) = Some (fd_name s)"
    proof
      assume "s = ?x"
      with assms(4) 2(2,3) \<open>f_pid s \<noteq> 0\<close> q show ?thesis by (auto simp: remember_slot_def)
    next
      assume "\<exists>j < length (fslots d). j \<noteq> i \<and> s = fslots d ! j"
      then obtain j where j: "j < length (fslots d)" "j \<noteq> i" "s = fslots d ! j" by blast
      have "(f_pid s, f_fd s) \<noteq> (pid, fd)"
        using j 2(7) o l \<open>f_pid s \<noteq> 0\<close> unfolding one_slot_each_def is_slot_of_def by (metis nth_mem prod.inject)
      with assms(5) [of "f_pid s" "f_fd s"] assms(2) j \<open>f_pid s \<noteq> 0\<close> show ?thesis by (simp add: true_names_def)
    qed
  qed
qed

lemma fds_ok_forget: "fds_ok d \<Longrightarrow> fds_ok (forget_slots P d)"
  by (auto simp: fds_ok_def forget_slots_def one_slot_each_def slot_good_def forget_slot_def nth_map split: if_splits)

lemma true_names_forget:
  "true_names m d \<Longrightarrow> (\<And>s. f_pid s \<noteq> 0 \<Longrightarrow> \<not> P s \<Longrightarrow> m' (f_pid s, f_fd s) = m (f_pid s, f_fd s)) \<Longrightarrow> true_names m' (forget_slots P d)"
  by (auto simp: true_names_def forget_slots_def forget_slot_def split: if_splits)


section \<open>Inheriting, copying, a new root\<close>

lemma fd_name_remember_slot:
  "slot_good s \<Longrightarrow> f_pid s \<noteq> 0 \<Longrightarrow>
    fd_name (remember_slot q n (f_path s) (f_host s) (f_binding s) (f_has_attributes s) (f_readonly s) (f_flags s)) = fd_name s"
  by (auto simp: slot_good_def fd_name_def remember_slot_def)

text \<open>What may be remembered for the child is what the parent has.\<close>

lemma inherit_fold:
  assumes "fds_ok d" "true_names m d" "p \<noteq> 0" "\<And>n. m (c, n) = m (p, n)" "\<forall>i \<in> set is. i < PROC_FD_PATH_CACHE_SIZE"
  shows "fds_ok (fold (inherit_slot p c) is d) \<and> true_names m (fold (inherit_slot p c) is d)"
  using assms(1,2,5)
proof (induction "is" arbitrary: d)
  case (Cons i "is")
  let ?s = "fslots d ! i"
  have i: "?s \<in> set (fslots d)" using Cons.prems by (simp add: fds_ok_def)
  have "fds_ok (inherit_slot p c i d) \<and> true_names m (inherit_slot p c i d)"
  proof (cases "f_pid ?s = p")
    case True
    have g: "slot_good ?s" using i Cons.prems(1) by (simp add: fds_ok_def)
    have "m (c, f_fd ?s) = Some (fd_name ?s)"
      using Cons.prems(2) i True assms(3,4) by (auto simp: true_names_def)
    with true_names_remember [OF Cons.prems(1,2) refl, of "f_fd ?s" "f_path ?s" c m] fds_ok_remember [OF Cons.prems(1)]
      fd_name_remember_slot [OF g] True assms(3)
    show ?thesis by (simp add: inherit_slot_def Let_def)
  qed (simp add: inherit_slot_def Let_def Cons.prems)
  with Cons show ?case by simp
qed simp

lemma compare_prefix_char:
  assumes "compare_paths r p = PATHS_ARE_EQUAL \<or> compare_paths r p = PATH1_IS_PREFIX" "r \<noteq> []" "last r \<noteq> slash"
  shows "c_at p (length r) = slash \<or> c_at p (length r) = NUL"
proof -
  have l: "c_at r (length r - 1) \<noteq> slash" using assms(2,3) by (simp add: last_conv_nth)
  have "length p \<noteq> 0" using assms(1) by (auto simp: compare_paths_def compare_paths2_def)
  with assms(1,2) l show ?thesis
    by (auto simp: compare_paths_def compare_paths2_def Let_def split: if_splits option.splits)
qed

lemma c_at_drop: "c_at (drop n p) k = c_at p (n + k)"
  by (auto simp: c_at_def)

lemma rebase_path_good:
  assumes "rebase_path r put p = Inr q" "r = ''/'' \<or> r \<noteq> [] \<and> last r \<noteq> slash" "c_at put 0 = slash"
    "c_at p 0 = slash" "length p < PATH_MAX"
  shows "c_at q 0 = slash \<and> length q < PATH_MAX"
proof (cases "compare_paths r p = PATHS_ARE_EQUAL \<or> compare_paths r p = PATH1_IS_PREFIX")
  case True
  show ?thesis
  proof (cases "r = ''/''")
    case True
    with assms \<open>compare_paths r p = _ \<or> _\<close> PATH_MAX_gt_2 show ?thesis by (auto simp: rebase_path_def Let_def split: if_splits)
  next
    case False
    with assms have r: "r \<noteq> []" "last r \<noteq> slash" by auto
    have q: "q = (let s = drop (if length r = 1 then 0 else length r) p in if c_at s 0 = NUL then ''/'' else s)"
      using assms(1) True by (auto simp: rebase_path_def Let_def)
    have "c_at (drop (if length r = 1 then 0 else length r) p) 0 \<in> {slash, NUL}"
      using compare_prefix_char [OF True r] assms(4) by (simp add: c_at_drop)
    with assms(5) PATH_MAX_gt_2 show ?thesis unfolding q by (auto simp: Let_def)
  qed
next
  case False
  then have j: "join2 put p = Inr q" using assms(1) by (simp add: rebase_path_def)
  from join_paths_length [OF this] have "length q < PATH_MAX" by simp
  moreover have "c_at q 0 = slash" using j assms(3) join2_first_char by blast
  ultimately show ?thesis by simp
qed


section \<open>The names as they are\<close>

text \<open>What processes do to their descriptors, and the table of all names it would leave if no slot were ever given away.\<close>

datatype fd_op =
  Opened int int string string "nat option" bool bool word_t | Closed int int | Closed_range int nat nat
| Executed int | Duplicated int int int | Forked int int | Pivoted int string string

definition run_fd_op :: "fd_op \<Rightarrow> proc_fds \<times> dirfds \<Rightarrow> proc_fds \<times> dirfds" where
  "run_fd_op op p =
     (case op of
        Opened pid fd path h b has ro fl \<Rightarrow> map_prod (remember_proc_fd_path pid fd (Some path) h b has ro fl) id p
      | Closed pid fd \<Rightarrow> forget_proc_fd_path pid fd p
      | Closed_range pid a z \<Rightarrow> forget_proc_fd_paths_range pid a z p
      | Executed pid \<Rightarrow> clear_proc_fd_paths pid p
      | Duplicated pid s t \<Rightarrow> copy_proc_fd_path pid s t p
      | Forked parent child \<Rightarrow> inherit_proc_fd_paths parent child p
      | Pivoted pid root put \<Rightarrow> map_prod (rebase_proc_fd_paths pid root put) id p)"

definition rebase_name :: "string \<Rightarrow> string \<Rightarrow> fd_name \<Rightarrow> fd_name" where
  "rebase_name root put v = (case rebase_path root put (fst v) of Inl e \<Rightarrow> v | Inr p \<Rightarrow> (p, snd v))"

definition all_names :: "fd_op \<Rightarrow> (int \<times> int \<Rightarrow> fd_name option) \<Rightarrow> int \<times> int \<Rightarrow> fd_name option" where
  "all_names op m =
     (case op of
        Opened pid fd path h b has ro fl \<Rightarrow>
          (if fd < 0 \<or> c_at path 0 \<noteq> slash then m
           else m((pid, fd) \<mapsto> (take (PATH_MAX - 1) path, take (PATH_MAX - 1) h, b, has, ro, fl)))
      | Closed pid fd \<Rightarrow> m((pid, fd) := None)
      | Closed_range pid a z \<Rightarrow> (\<lambda>(q, n). if q = pid \<and> int a \<le> n \<and> n \<le> int z then None else m (q, n))
      | Executed pid \<Rightarrow> (\<lambda>(q, n). if q = pid then None else m (q, n))
      | Duplicated pid s t \<Rightarrow> m((pid, t) := m (pid, s))
      | Forked parent child \<Rightarrow> (\<lambda>(q, n). if q = child then m (parent, n) else m (q, n))
      | Pivoted pid root put \<Rightarrow> (\<lambda>(q, n). if q = pid then map_option (rebase_name root put) (m (q, n)) else m (q, n)))"

text \<open>The new root of \<open>pivot_root\<close> and the place of the old one are canonical; a process has a number.\<close>

definition fd_op_ok :: "fd_op \<Rightarrow> bool" where
  "fd_op_ok op =
     (case op of Pivoted pid root put \<Rightarrow> (root = ''/'' \<or> root \<noteq> [] \<and> last root \<noteq> slash) \<and> c_at put 0 = slash
      | Forked parent child \<Rightarrow> parent \<noteq> 0
      | _ \<Rightarrow> True)"

lemma fd_name_simps [simp]:
  "fd_name (remember_slot pid fd p h b has ro fl) = (take (PATH_MAX - 1) p, take (PATH_MAX - 1) h, b, has, ro, fl)"
  by (simp add: fd_name_def remember_slot_def)

lemma recall_slot_Some:
  assumes "recall_slot pid fd P d = Some s"
  shows "s \<in> set (fslots d)" "f_pid s = pid" "f_fd s = fd" "P s"
  using assms by (auto simp: recall_slot_def is_slot_of_def find_Some_iff)

lemma recall_slot_absent:
  assumes "recall_slot pid fd P d = None" "s \<in> set (fslots d)" "P s"
  shows "\<not> is_slot_of pid fd s"
  using assms by (auto simp: recall_slot_def find_None_iff)

lemma sound_copy:
  assumes ok: "fds_ok (fst p)" and t: "true_names m (fst p)"
  shows "fds_ok (fst (copy_proc_fd_path pid s t p)) \<and> true_names (m((pid, t) := m (pid, s))) (fst (copy_proc_fd_path pid s t p))"
proof (cases "pid = 0")
  case True
  have eq: "true_names (m((pid, t) := m (pid, s))) d = true_names m d" for d
    using True by (auto simp: true_names_def)
  have r: "true_names m (remember_proc_fd_path 0 fd (Some q) h b has ro fl (fst p))" for fd q h b has ro fl
    by (rule true_names_remember [OF ok t refl]) auto
  show ?thesis unfolding eq unfolding True using ok t r
    by (cases p; cases "recall_proc_fd_path 0 s (fst p)"; cases "recall_slot 0 s (\<lambda>_. True) (fst p)")
      (auto simp: copy_proc_fd_path_def forget_proc_fd_path_def fds_ok_forget fds_ok_remember intro!: true_names_forget [of m])
next
  case False
  obtain d e where p: "p = (d, e)" by (cases p)
  show ?thesis
  proof (cases "recall_proc_fd_path pid s d")
    case None
    then show ?thesis using ok t unfolding p
      by (auto simp: copy_proc_fd_path_def forget_proc_fd_path_def fds_ok_forget is_slot_of_def intro!: true_names_forget [of m])
  next
    case (Some path)
    then obtain x where x: "recall_slot pid s (\<lambda>s. f_path s \<noteq> []) d = Some x" "path = f_path x"
      by (auto simp: recall_proc_fd_path_def)
    then obtain y where y: "recall_slot pid s (\<lambda>_. True) d = Some y"
      using recall_slot_absent recall_slot_Some [OF x(1)] by (metis is_slot_of_def not_Some_eq)
    have m: "m (pid, s) = Some (fd_name x)" "m (pid, s) = Some (fd_name y)"
      using t recall_slot_Some [OF x(1)] recall_slot_Some [OF y] False by (auto simp: true_names_def p)
    have g: "slot_good y" using recall_slot_Some [OF y] ok by (simp add: fds_ok_def p)
    have path: "path = f_path y" using m x(2) by (simp add: fd_name_def)
    let ?r = "remember_proc_fd_path pid t (Some path) (f_host y) (f_binding y) (f_has_attributes y) (f_readonly y) (f_flags y)"
    have "true_names (m((pid, t) := m (pid, s))) (?r d)"
    proof (cases "0 \<le> t")
      case True
      have c: "c_at path 0 = slash" using g recall_slot_Some(2) [OF y] False path by (simp add: slot_good_def)
      have v: "m (pid, s) = Some (fd_name (remember_slot pid t path (f_host y) (f_binding y) (f_has_attributes y) (f_readonly y) (f_flags y)))"
        using m(2) fd_name_remember_slot [OF g, of pid t] recall_slot_Some(2) [OF y] False path by simp
      show ?thesis
        using ok \<open>true_names m (fst p)\<close> c True v by (intro true_names_remember [of d m]) (auto simp: p)
    next
      case False
      with ok \<open>true_names m (fst p)\<close> show ?thesis
        by (auto simp: remember_proc_fd_path_def true_names_def fds_ok_def slot_good_def p)
    qed
    moreover have "fds_ok (?r d)" using ok by (simp add: p fds_ok_remember)
    moreover have "fst (copy_proc_fd_path pid s t p) = ?r d" by (simp add: copy_proc_fd_path_def p Some y)
    ultimately show ?thesis by simp
  qed
qed

lemma rebase_keeps:
  assumes ok: "fds_ok d" and t: "true_names m d"
    and r: "root = ''/'' \<or> root \<noteq> [] \<and> last root \<noteq> slash" "c_at put 0 = slash"
  shows "fds_ok (rebase_proc_fd_paths pid root put d) \<and>
    true_names (\<lambda>(q, n). if q = pid then map_option (rebase_name root put) (m (q, n)) else m (q, n)) (rebase_proc_fd_paths pid root put d)"
proof -
  let ?f = "rebase_slot pid root put"
  have key: "f_pid (?f s) = f_pid s" "f_fd (?f s) = f_fd s" for s
    by (simp_all add: rebase_slot_def split: sum.split)
  have good: "slot_good (?f s)" if "slot_good s" for s
    using rebase_path_good [OF _ r, of "f_path s"] that by (auto simp: slot_good_def rebase_slot_def split: sum.split)
  have name: "fd_name (?f s) = (if f_pid s = pid then rebase_name root put (fd_name s) else fd_name s)" for s
    by (simp add: fd_name_def rebase_name_def rebase_slot_def split: sum.split)
  have d: "fslots (rebase_proc_fd_paths pid root put d) = map ?f (fslots d)" "fnext (rebase_proc_fd_paths pid root put d) = fnext d"
    by (simp_all add: rebase_proc_fd_paths_def)
  have "fds_ok (rebase_proc_fd_paths pid root put d)"
    using ok unfolding fds_ok_def d one_slot_each_def by (auto simp: key good)
  moreover have "true_names (\<lambda>(q, n). if q = pid then map_option (rebase_name root put) (m (q, n)) else m (q, n))
      (rebase_proc_fd_paths pid root put d)"
    using t unfolding true_names_def d by (simp add: key name) (auto simp: fd_name_def)
  ultimately show ?thesis ..
qed

lemma sound_step:
  assumes ok: "fds_ok (fst p)" and t: "true_names m (fst p)" and op: "fd_op_ok op"
  shows "fds_ok (fst (run_fd_op op p)) \<and> true_names (all_names op m) (fst (run_fd_op op p))"
proof (cases op)
  case (Opened pid fd path h b has ro fl)
  have "true_names (all_names op m) (remember_proc_fd_path pid fd (Some path) h b has ro fl (fst p))"
    by (rule true_names_remember [OF ok t refl]) (auto simp: all_names_def Opened)
  with ok show ?thesis unfolding Opened by (cases p) (simp add: run_fd_op_def fds_ok_remember)
next
  case (Duplicated pid s u)
  show ?thesis unfolding Duplicated using sound_copy [OF ok t] by (simp add: run_fd_op_def all_names_def)
next
  case (Forked parent child)
  let ?m = "\<lambda>(q, n). if q = child then m (parent, n) else m (q, n)"
  obtain d e where p: "p = (d, e)" by (cases p)
  have "true_names ?m (forget_slots (\<lambda>s. f_pid s = child) d)"
    using t unfolding p by (intro true_names_forget) auto
  moreover have "fds_ok (forget_slots (\<lambda>s. f_pid s = child) d)" using ok unfolding p by (simp add: fds_ok_forget)
  ultimately show ?thesis
    using inherit_fold [of "forget_slots (\<lambda>s. f_pid s = child) d" ?m parent child] op unfolding Forked p
    by (simp add: run_fd_op_def all_names_def inherit_proc_fd_paths_def clear_proc_fd_paths_def fd_op_ok_def)
next
  case (Pivoted pid root put)
  show ?thesis unfolding Pivoted using rebase_keeps [OF ok t] op unfolding Pivoted
    by (cases p) (simp add: run_fd_op_def all_names_def fd_op_ok_def)
next
  case (Closed pid fd)
  show ?thesis unfolding Closed using ok t
    by (cases p) (auto simp: run_fd_op_def all_names_def forget_proc_fd_path_def fds_ok_forget is_slot_of_def intro!: true_names_forget [of m])
next
  case (Closed_range pid a z)
  show ?thesis unfolding Closed_range using ok t
    by (cases p) (auto simp: run_fd_op_def all_names_def forget_proc_fd_paths_range_def fds_ok_forget in_fd_range_def
      intro!: true_names_forget [of m])
next
  case (Executed pid)
  show ?thesis unfolding Executed using ok t
    by (cases p) (auto simp: run_fd_op_def all_names_def clear_proc_fd_paths_def fds_ok_forget intro!: true_names_forget [of m])
qed

lemma sound_run:
  "fds_ok (fst p) \<Longrightarrow> true_names m (fst p) \<Longrightarrow> \<forall>op \<in> set ops. fd_op_ok op \<Longrightarrow>
    fds_ok (fst (fold run_fd_op ops p)) \<and> true_names (fold all_names ops m) (fst (fold run_fd_op ops p))"
proof (induction ops arbitrary: p m)
  case (Cons op ops)
  from sound_step [of p m op] Cons.IH [of "run_fd_op op p" "all_names op m"] Cons.prems show ?case by simp
qed simp

section \<open>The table as an interface\<close>

definition name_lookup :: "proc_fds \<Rightarrow> int \<Rightarrow> int \<Rightarrow> fd_name option" where
  "name_lookup d pid fd = (if pid = 0 then None else map_option fd_name (recall_slot pid fd (\<lambda>_. True) d))"

lemma name_lookup_Some:
  assumes "fds_ok d"
  shows "name_lookup d pid fd = Some v \<longleftrightarrow>
    pid \<noteq> 0 \<and> (\<exists>s \<in> set (fslots d). f_pid s = pid \<and> f_fd s = fd \<and> fd_name s = v)"
proof -
  have same: "fd_name s = fd_name s'"
    if "pid \<noteq> 0" "s \<in> set (fslots d)" "s' \<in> set (fslots d)" "is_slot_of pid fd s" "is_slot_of pid fd s'" for s s'
  proof -
    note h = that
    obtain i j where "i < length (fslots d)" "fslots d ! i = s" "j < length (fslots d)" "fslots d ! j = s'"
      using h(2,3) by (auto simp: in_set_conv_nth)
    moreover have "one_slot_each (fslots d)" using assms by (simp add: fds_ok_def)
    ultimately have "i = j" using h(1,4,5) by (auto simp: one_slot_each_def is_slot_of_def)
    with \<open>fslots d ! i = s\<close> \<open>fslots d ! j = s'\<close> show ?thesis by simp
  qed
  show ?thesis
  proof (cases "recall_slot pid fd (\<lambda>_. True) d")
    case None
    from recall_slot_absent [OF this] show ?thesis by (auto simp: name_lookup_def None is_slot_of_def)
  next
    case (Some s)
    note r = recall_slot_Some [OF Some]
    have "name_lookup d pid fd = (if pid = 0 then None else Some (fd_name s))" by (simp add: name_lookup_def Some)
    moreover have "fd_name s' = fd_name s" if "pid \<noteq> 0" "s' \<in> set (fslots d)" "f_pid s' = pid" "f_fd s' = fd" for s'
      using that r by (intro same) (simp_all add: is_slot_of_def)
    ultimately show ?thesis using r(1-3) by (metis option.inject option.distinct(1))
  qed
qed

interpretation names: fd_table fds_ok name_lookup "\<lambda>pid fd. forget_slots (is_slot_of pid fd)"
  "\<lambda>pid fd (p, h, b, has, ro, fl). remember_proc_fd_path pid fd (Some p) h b has ro fl"
proof
  fix t :: proc_fds and pid fd q n :: int and v x :: fd_name
  assume t: "fds_ok t"
  show f: "fds_ok (forget_slots (is_slot_of pid fd) t)" using t by (rule fds_ok_forget)
  obtain p h b has ro fl where v: "v = (p, h, b, has, ro, fl)" by (cases v)
  let ?r = "remember_proc_fd_path pid fd (Some p) h b has ro fl t"
  have r: "fds_ok ?r" using t by (rule fds_ok_remember)
  then show "fds_ok ((case v of (p, h, b, has, ro, fl) \<Rightarrow> remember_proc_fd_path pid fd (Some p) h b has ro fl) t)"
    by (simp add: v)
  have "name_lookup (forget_slots (is_slot_of pid fd) t) q n = Some y \<longleftrightarrow> \<not> (q = pid \<and> n = fd) \<and> name_lookup t q n = Some y" for y
    unfolding name_lookup_Some [OF f] name_lookup_Some [OF t]
    by (auto simp: forget_slots_def is_slot_of_def forget_slot_def)
  then show "name_lookup (forget_slots (is_slot_of pid fd) t) q n = (if q = pid \<and> n = fd then None else name_lookup t q n)"
    by (metis not_Some_eq)
  assume ne: "q \<noteq> pid \<or> n \<noteq> fd"
    and s: "name_lookup ((case v of (p, h, b, has, ro, fl) \<Rightarrow> remember_proc_fd_path pid fd (Some p) h b has ro fl) t) q n = Some x"
  then have "name_lookup ?r q n = Some x" by (simp add: v)
  from t this show "name_lookup t q n = Some x"
  proof (cases rule: remember_cases [of t pid fd "Some p" h b has ro fl])
    case (2 p' i)
    from \<open>name_lookup ?r q n = Some x\<close> obtain s where s: "q \<noteq> 0" "s \<in> set (fslots ?r)" "f_pid s = q" "f_fd s = n" "fd_name s = x"
      unfolding name_lookup_Some [OF r] by blast
    have "s \<in> set (fslots t)"
    proof -
      have "f_pid s \<noteq> pid \<or> f_fd s \<noteq> fd" using ne s(3,4) by simp
      then have "s \<noteq> remember_slot pid fd p' h b has ro fl" by (auto simp: remember_slot_def)
      with s(2) show ?thesis
        using set_update_subset_insert [of "fslots t" i "remember_slot pid fd p' h b has ro fl"] unfolding 2(5) by blast
    qed
    with s show ?thesis unfolding name_lookup_Some [OF t] by blast
  qed simp
qed

section \<open>Properties\<close>

text \<open>
  C37: the names of descriptors are never stale. After any sequence of opening, closing, duplicating, executing, forking and
  pivoting, a name, the attributes or the host path that the cache finds for a descriptor of a process are those of a table that
  never gives a slot away: a name is forgotten when its slot is needed, but never that of another descriptor or of an
  earlier file, and each descriptor has one slot at most.
\<close>

theorem fd_names_never_stale:
  assumes "\<forall>op \<in> set ops. fd_op_ok op" "pid \<noteq> 0"
    and "fst (fold run_fd_op ops (proc_fds_start, e)) = d" "fold all_names ops (\<lambda>_. None) = m"
  shows "one_slot_each (fslots d) \<and>
    (\<forall>path. recall_proc_fd_path pid fd d = Some path \<longrightarrow> (\<exists>v. m (pid, fd) = Some (path, v))) \<and>
    (\<forall>ro fl. recall_proc_fd_mount_attributes pid fd d = Some (ro, fl) \<longrightarrow> (\<exists>p h b. m (pid, fd) = Some (p, h, b, True, ro, fl))) \<and>
    (\<forall>b w'. recall_proc_fd_binding E pid fd d w = (Some b, w') \<longrightarrow>
      (\<exists>p h v. m (pid, fd) = Some (p, h, Some b, v) \<and> fst (readlink_proc_pid_fd E pid fd w) = Inr h))"
proof -
  have s: "fds_ok d" "true_names m d"
    using sound_run [of "(proc_fds_start, e)" "\<lambda>_. None" ops] assms(1) fds_ok_start true_names_start
    by (simp_all add: assms(3,4) [symmetric])
  have found: "m (pid, fd) = Some (fd_name s)" if "recall_slot pid fd P d = Some s" for P s
    using recall_slot_Some [OF that] s(2) assms(2) by (auto simp: true_names_def)
  have "\<exists>v. m (pid, fd) = Some (path, v)" if "recall_proc_fd_path pid fd d = Some path" for path
    using that found by (fastforce simp: recall_proc_fd_path_def fd_name_def)
  moreover have "\<exists>p h b. m (pid, fd) = Some (p, h, b, True, ro, fl)" if "recall_proc_fd_mount_attributes pid fd d = Some (ro, fl)" for ro fl
    using that found recall_slot_Some(4) by (fastforce simp: recall_proc_fd_mount_attributes_def fd_name_def)
  moreover have "\<exists>p h v. m (pid, fd) = Some (p, h, Some b, v) \<and> fst (readlink_proc_pid_fd E pid fd w) = Inr h"
    if "recall_proc_fd_binding E pid fd d w = (Some b, w')" for b w'
    using that found recall_slot_Some(4)
    by (fastforce simp: recall_proc_fd_binding_def fd_name_def bind_eq_Some_conv split: prod.splits sum.splits)
  ultimately show ?thesis using s(1) by (simp add: fds_ok_def)
qed

lemma fd_names_never_stale_witness:
  "let ops = [Opened 5 3 ''/a'' ''/h/a'' (Some 1) True True 2, Opened 5 4 ''/b'' ''/h/b'' None False False 0, Closed 5 4];
       d = fst (fold run_fd_op ops (proc_fds_start, dirfds_start [] 0)); m = fold all_names ops (\<lambda>_. None)
   in one_slot_each (fslots d) \<and> recall_proc_fd_path 5 3 d = Some ''/a'' \<and> (\<exists>v. m (5, 3) = Some (''/a'', v))"
proof -
  let ?ops = "[Opened 5 3 ''/a'' ''/h/a'' (Some 1) True True 2, Opened 5 4 ''/b'' ''/h/b'' None False False 0, Closed 5 4]"
  let ?d = "fst (fold run_fd_op ?ops (proc_fds_start, dirfds_start [] 0))"
  have "recall_proc_fd_path 5 3 ?d = Some ''/a''"
    by code_simp
  moreover have ok: "\<forall>op \<in> set ?ops. fd_op_ok op" by (simp add: fd_op_ok_def)
  note fd_names_never_stale [OF ok _ refl refl, of 5 "dirfds_start [] 0" 3]
  ultimately show ?thesis unfolding Let_def by (metis zero_neq_numeral)
qed

end
