(* ===== verification/Mount.thy ===== *)
theory Mount
  imports Procfd Sysarg
begin

text \<open>
  Mounts (\<^verbatim>\<open>src/syscall/enter.c\<close>): \<open>mount(2)\<close>, \<open>umount(2)\<close>, \<open>mount_setattr(2)\<close> and \<open>pivot_root(2)\<close> are not passed on, they
  change the binding table. A source or a target may be named by a descriptor; then what the cache of \<open>Procfd\<close> remembers of it decides.
  The functions that return nothing in C have the result \<open>Inr ()\<close> whether they did something or not, and
  \<open>Inl Crash\<close> where the tracer fails an assertion or does not come back.
\<close>

definition MS_RDONLY :: word_t where "MS_RDONLY = 1"
definition MS_NOSUID :: word_t where "MS_NOSUID = 2"
definition MS_NODEV :: word_t where "MS_NODEV = 4"
definition MS_REMOUNT :: word_t where "MS_REMOUNT = 32"
definition MS_BIND :: word_t where "MS_BIND = 4096"
definition MS_REC :: word_t where "MS_REC = 16384"
definition AT_SYMLINK_NOFOLLOW :: word_t where "AT_SYMLINK_NOFOLLOW = 0x100"
definition AT_EMPTY_PATH :: word_t where "AT_EMPTY_PATH = 0x1000"
definition AT_RECURSIVE :: word_t where "AT_RECURSIVE = 0x8000"

definition has_flag :: "word_t \<Rightarrow> word_t \<Rightarrow> bool" where
  "has_flag w f \<longleftrightarrow> and w f \<noteq> 0"

text \<open>The argument of type \<open>int\<close> that names a directory; \<open>AT_FDCWD\<close> is \<open>None\<close>.\<close>

definition reg_int :: "word_t \<Rightarrow> int" where
  "reg_int w = sint (ucast w :: u32)"

definition dir_arg :: "int \<Rightarrow> int option" where
  "dir_arg fd = (if fd = -100 then None else Some fd)"

section \<open>Checks\<close>

definition check_bind_readonly :: "tracee \<Rightarrow> string \<Rightarrow> unit res \<times> tracee" where
  "check_bind_readonly t guestp =
     (case get_binding t GUEST guestp of
        (Some b, t) \<Rightarrow> (if readonly (heap t b) then Inl EROFS else Inr (), t)
      | (None, t) \<Rightarrow> (Inr (), t))"

text \<open>\<open>k_stat\<close> is the type of the file behind a path of the host, links followed.\<close>

definition check_bind_nodev ::
  "(string \<Rightarrow> 'w \<Rightarrow> file_type option \<times> 'w) \<Rightarrow> string \<Rightarrow> string \<Rightarrow> tracee \<Rightarrow> 'w \<Rightarrow> unit res \<times> tracee \<times> 'w" where
  "check_bind_nodev k_stat hostp guestp t w =
     (case (if c_at guestp 0 = slash then get_binding t GUEST guestp else get_binding t HOST hostp) of
        (None, t) \<Rightarrow> (Inr (), t, w)
      | (Some b, t) \<Rightarrow>
          if \<not> has_flag (mount_flags (heap t b)) MS_NODEV then (Inr (), t, w)
          else (case k_stat hostp w of
                  (Some S_IFCHR, w) \<Rightarrow> (Inl EACCES, t, w) | (Some S_IFBLK, w) \<Rightarrow> (Inl EACCES, t, w)
                | (_, w) \<Rightarrow> (Inr (), t, w)))"

section \<open>Names of files\<close>

definition host_path_of_dirfd :: "'w tr_env \<Rightarrow> int \<Rightarrow> tracee \<Rightarrow> 'w \<Rightarrow> string res \<times> tracee \<times> 'w" where
  "host_path_of_dirfd E dirfd t w =
     (if dirfd = -100 then
        (case getcwd2 t of Inl e \<Rightarrow> (Inl e, t, w)
         | Inr g \<Rightarrow> (case substitute_binding t GUEST g of (Inl e, _, t) \<Rightarrow> (Inl e, t, w) | (Inr _, h, t) \<Rightarrow> (Inr h, t, w)))
      else (case readlink_proc_pid_fd E (t_pid t) dirfd w of (r, w) \<Rightarrow> (r, t, w)))"

definition guest_canonicalize :: "'w tr_env \<Rightarrow> string \<Rightarrow> tracee \<Rightarrow> 'w \<Rightarrow> string res \<times> tracee \<times> 'w" where
  "guest_canonicalize E user_path t w =
     (case (if c_at user_path 0 = slash then Inr ''/'' else getcwd2 t) of Inl e \<Rightarrow> (Inl e, t, w)
      | Inr base \<Rightarrow>
          (case canonicalize (fs E) user_path True base 0 t w of
             (Inl e, t, w) \<Rightarrow> (Inl e, t, w) | (Inr g, t, w) \<Rightarrow> (Inr (chop_finality g), t, w)))"

definition parse_tracee_proc_fd :: "tracee \<Rightarrow> string \<Rightarrow> int option" where
  "parse_tracee_proc_fd t path =
     (let number =
        (if prefix ''/proc/self/fd/'' path then Some (drop 14 path)
         else if prefix ''/proc/'' path then
           (case strtol10 (drop 6 path) of (pid, rest, _) \<Rightarrow>
              if rest = drop 6 path \<or> pid \<noteq> t_pid t \<or> \<not> prefix ''/fd/'' rest then None else Some (drop 4 rest))
         else None)
      in case number of None \<Rightarrow> None
      | Some n \<Rightarrow>
          (case strtol10 n of (v, rest, out_of_range) \<Rightarrow>
             if out_of_range \<or> rest = n \<or> rest \<noteq> [] \<or> v < 0 \<or> v > 2147483647 then None else Some v))"

definition resolve_tracee_proc_fd :: "'w tr_env \<Rightarrow> tracee \<Rightarrow> string \<Rightarrow> 'w \<Rightarrow> string option \<times> 'w" where
  "resolve_tracee_proc_fd E t path w =
     (case parse_tracee_proc_fd t path of None \<Rightarrow> (None, w)
      | Some fd \<Rightarrow> (case readlink_proc_pid_fd E (t_pid t) fd w of (Inl e, w) \<Rightarrow> (None, w) | (Inr h, w) \<Rightarrow> (Some h, w)))"

definition detranslate_mount_target_in_current_root :: "string \<Rightarrow> tracee \<Rightarrow> string option \<times> tracee" where
  "detranslate_mount_target_in_current_root hostp t =
     (case get_root t of (None, t) \<Rightarrow> (None, t)
      | (Some root, t) \<Rightarrow>
          if compare_paths root hostp \<noteq> PATH1_IS_PREFIX \<and> compare_paths root hostp \<noteq> PATHS_ARE_EQUAL then (None, t)
          else
            let suffix = drop (if length root = 1 then 0 else length root) hostp;
                suffix = (if suffix = [] then ''/'' else suffix)
            in (if length suffix \<ge> PATH_MAX then None else Some suffix, t))"

definition guest_path_is_oldroot :: "string \<Rightarrow> bool" where
  "guest_path_is_oldroot path = prefix ''/oldroot/'' path"

definition guest_paths_same_current_root :: "tracee \<Rightarrow> string \<Rightarrow> string \<Rightarrow> bool" where
  "guest_paths_same_current_root t left right \<longleftrightarrow>
     compare_paths left right = PATHS_ARE_EQUAL \<or>
     (cwd_alias_prefix t = Some ''/oldroot'' \<and>
      ((guest_path_is_oldroot left \<and> compare_paths (drop 8 left) right = PATHS_ARE_EQUAL) \<or>
       (guest_path_is_oldroot right \<and> compare_paths left (drop 8 right) = PATHS_ARE_EQUAL)))"

definition collapse_oldroot_tmpfs_target :: "string \<Rightarrow> string \<Rightarrow> string" where
  "collapse_oldroot_tmpfs_target fstype guestp =
     (if fstype \<noteq> ''tmpfs'' \<or> \<not> guest_path_is_oldroot guestp then guestp
      else if length (drop 8 guestp) < PATH_MAX then drop 8 guestp else guestp)"

text \<open>The directories above a name below \<^verbatim>\<open>/oldroot\<close>, from the innermost one, up to one that is bound.\<close>

lemma last_slash_less: "last_slash p = Some i \<Longrightarrow> i < length p"
  using length_pos_if_in_set [of slash p] by (auto simp: last_slash_def split: if_splits)

function oldroot_binding :: "tracee \<Rightarrow> string \<Rightarrow> string res \<times> tracee" where
  "oldroot_binding t guestp =
     (case get_binding t GUEST guestp of (b, t) \<Rightarrow>
        if (case b of None \<Rightarrow> False | Some b \<Rightarrow> compare_paths (gpath t b) guestp \<noteq> PATHS_ARE_NOT_COMPARABLE) then
          (case join2 (hpath t (the b)) (drop (length (gpath t (the b))) guestp) of
             Inl e \<Rightarrow> (Inl ENAMETOOLONG, t) | Inr h \<Rightarrow> (Inr h, t))
        else (case last_slash guestp of None \<Rightarrow> (Inl ENOENT, t)
          | Some i \<Rightarrow> if i = 0 then (Inl ENOENT, t) else oldroot_binding t (take i guestp)))"
  by pat_completeness auto
termination by (relation "measure (\<lambda>(t, g). length g)") (auto dest: last_slash_less)

declare oldroot_binding.simps [simp del]

definition translate_oldroot_fd_path :: "tracee \<Rightarrow> string \<Rightarrow> string res \<times> tracee" where
  "translate_oldroot_fd_path t relative_path =
     (case join2 ''/oldroot'' relative_path of Inl e \<Rightarrow> (Inl ENAMETOOLONG, t) | Inr g \<Rightarrow> oldroot_binding t g)"

section \<open>Bindings below the source\<close>

record recursive_binding =
  r_host :: string
  r_suffix :: string
  r_kind :: mount_kind
  r_readonly :: bool
  r_source_readonly :: bool
  r_flags :: word_t
  r_source_flags :: word_t

definition snapshot_recursive_bindings :: "'w tr_env \<Rightarrow> string \<Rightarrow> tracee \<Rightarrow> recursive_binding list res \<times> tracee" where
  "snapshot_recursive_bindings E source_host t =
     (case detranslate_path (tracees (fs E)) t (take (PATH_MAX - 1) source_host) None of
        (Inl e, _, t) \<Rightarrow> (if e = Crash then Inl Crash else Inr [], t)
      | (Inr _, g, t) \<Rightarrow>
          (let g = chop_finality g
           in (Inr (map (\<lambda>b. let x = heap t b in
                 \<lparr>r_host = take (PATH_MAX - 1) (host_path x),
                  r_suffix = take (PATH_MAX - 1) (drop (if length g = 1 then 0 else length g) (guest_path x)),
                  r_kind = mount_kind x, r_readonly = readonly x, r_source_readonly = source_readonly x,
                  r_flags = mount_flags x, r_source_flags = source_mount_flags x\<rparr>)
               (filter (\<lambda>b. compare_paths g (gpath t b) = PATH1_IS_PREFIX) (blist t GUEST))), t)))"

definition set_attributes :: "bool \<Rightarrow> bool \<Rightarrow> word_t \<Rightarrow> word_t \<Rightarrow> nat \<Rightarrow> tracee \<Rightarrow> tracee" where
  "set_attributes ro source_ro flags source_flags b t =
     t\<lparr>heap := (heap t)(b := (heap t b)\<lparr>readonly := ro, source_readonly := source_ro, mount_flags := flags,
        source_mount_flags := source_flags\<rparr>)\<rparr>"

definition replay_binding :: "string \<Rightarrow> recursive_binding \<Rightarrow> tracee \<Rightarrow> tracee" where
  "replay_binding target r t =
     (case join2 target (r_suffix r) of Inl e \<Rightarrow> t
      | Inr g \<Rightarrow>
          (case insort_binding4 (r_host r) g (r_kind r) t of
             (b, t) \<Rightarrow> set_attributes (r_readonly r) (r_source_readonly r) (r_flags r) (r_source_flags r) b t))"

section \<open>The source of a mount\<close>

record mount_source =
  ms_host :: string
  ms_kind :: mount_kind
  ms_fd :: "int option"
  ms_guest :: "string option"
  ms_binding :: "nat option"
  ms_readonly :: bool
  ms_flags :: word_t

definition ignored :: "errno \<Rightarrow> 'a option res" where
  "ignored e = (if e = Crash then Inl Crash else Inr None)"

text \<open>The binding a source that is named by a descriptor was opened through.\<close>

definition fd_source_binding ::
  "'w tr_env \<Rightarrow> proc_fds \<Rightarrow> int \<Rightarrow> string \<Rightarrow> tracee \<Rightarrow> 'w \<Rightarrow> nat option res \<times> tracee \<times> 'w" where
  "fd_source_binding E d fd hostp t w =
     (let (b, w) = recall_proc_fd_binding E (t_pid t) fd d w;
          remembered = recall_proc_fd_path (t_pid t) fd d;
          (b, t) = (case remembered of None \<Rightarrow> (b, t)
            | Some r \<Rightarrow>
                if guest_path_is_oldroot r \<and> cwd_alias_prefix t = Some ''/oldroot'' then
                  (case get_binding t GUEST (take (PATH_MAX - 1) (drop 8 r)) of (Some c, t) \<Rightarrow> (Some c, t) | (None, t) \<Rightarrow> (b, t))
                else (b, t));
          (c, t) = (case (b, remembered) of
              (None, Some r) \<Rightarrow>
                (case substitute_binding t GUEST r of
                   (Inl e, _, t) \<Rightarrow> (ignored e, t)
                 | (Inr _, h, t) \<Rightarrow>
                     if h = hostp then (case get_binding t GUEST r of (c, t) \<Rightarrow> (Inr c, t)) else (Inr None, t))
            | _ \<Rightarrow> (Inr b, t))
      in case c of Inl e \<Rightarrow> (Inl e, t, w)
         | Inr (Some b) \<Rightarrow> (Inr (Some b), t, w)
         | Inr None \<Rightarrow> (case get_binding t HOST hostp of (c, t) \<Rightarrow> (Inr c, t, w)))"

text \<open>A binding from outside the root keeps the attributes of its origin.\<close>

definition source_attributes :: "nat option \<Rightarrow> tracee \<Rightarrow> (bool \<times> word_t) \<times> tracee" where
  "source_attributes b t =
     (case b of None \<Rightarrow> ((False, 0), t)
      | Some b \<Rightarrow>
          (case get_root t of (root, t) \<Rightarrow>
             let x = heap t b;
                 origin = (case root of None \<Rightarrow> False | Some r \<Rightarrow> compare_paths r (host_path x) = PATHS_ARE_NOT_COMPARABLE)
             in ((if origin then (source_readonly x, source_mount_flags x) else (readonly x, mount_flags x)), t)))"

definition bind_source :: "'w tr_env \<Rightarrow> proc_fds \<Rightarrow> string \<Rightarrow> tracee \<Rightarrow> 'w \<Rightarrow> mount_source option res \<times> tracee \<times> 'w" where
  "bind_source E d src t w =
     (case (case resolve_tracee_proc_fd E t src w of (Some h, w) \<Rightarrow> (Inr h, t, w)
        | (None, w) \<Rightarrow> translate_path E None src True t w) of
        (Inl e, t, w) \<Rightarrow> (ignored e, t, w)
      | (Inr h, t, w) \<Rightarrow>
          (let fd = parse_tracee_proc_fd t src in
           case (case fd of
               Some fd \<Rightarrow> (case fd_source_binding E d fd h t w of (Inl e, t, w) \<Rightarrow> (Inl e, t, w) | (Inr b, t, w) \<Rightarrow> (Inr (None, b), t, w))
             | None \<Rightarrow>
                 (case guest_canonicalize E src t w of
                    (Inl e, t, w) \<Rightarrow> (if e = Crash then Inl Crash else Inr (None, None), t, w)
                  | (Inr g, t, w) \<Rightarrow> (case get_binding t GUEST g of (b, t) \<Rightarrow> (Inr (Some g, b), t, w)))) of
             (Inl e, t, w) \<Rightarrow> (Inl e, t, w)
           | (Inr (g, b), t, w) \<Rightarrow>
               (let (attrs, t) = source_attributes b t;
                    attrs = (case Option.bind fd (\<lambda>fd. recall_proc_fd_mount_attributes (t_pid t) fd d) of None \<Rightarrow> attrs | Some a \<Rightarrow> a)
                in (Inr (Some \<lparr>ms_host = h, ms_kind = BINDING_MOUNT_NONE, ms_fd = fd, ms_guest = g, ms_binding = b,
                      ms_readonly = fst attrs, ms_flags = snd attrs\<rparr>), t, w))))"

definition fixed_source :: "string \<Rightarrow> mount_kind \<Rightarrow> mount_source" where
  "fixed_source h k = \<lparr>ms_host = h, ms_kind = k, ms_fd = None, ms_guest = None, ms_binding = None, ms_readonly = False, ms_flags = 0\<rparr>"

definition mount_source ::
  "'w tr_env \<Rightarrow> proc_fds \<Rightarrow> string \<Rightarrow> string \<Rightarrow> word_t \<Rightarrow> tracee \<Rightarrow> 'w \<Rightarrow> mount_source option res \<times> tracee \<times> 'w" where
  "mount_source E d src fstype flags t w =
     (if has_flag flags MS_BIND then bind_source E d src t w
      else if fstype = ''proc'' then (Inr (Some (fixed_source ''/proc'' BINDING_MOUNT_NONE)), t, w)
      else if fstype = ''sysfs'' then (Inr (Some (fixed_source ''/sys'' BINDING_MOUNT_NONE)), t, w)
      else if fstype = ''devtmpfs'' then (Inr (Some (fixed_source ''/dev'' BINDING_MOUNT_NONE)), t, w)
      else if fstype = ''devpts'' then (Inr (Some (fixed_source ''/dev/pts'' BINDING_MOUNT_NONE)), t, w)
      else if fstype = ''tmpfs'' then
        (case temp_directory (fs E) w of
           (None, w) \<Rightarrow> (Inr None, t, w)
         | (Some dir, w) \<Rightarrow> (Inr (Some (fixed_source (take (PATH_MAX - 1) dir) BINDING_MOUNT_TMPFS)), t, w))
      else (Inr None, t, w))"

section \<open>The target\<close>

definition strip_slashes :: "string \<Rightarrow> string" where
  "strip_slashes p = (case p of [] \<Rightarrow> [] | c # cs \<Rightarrow> c # rev (dropWhile (\<lambda>x. x = slash) (rev cs)))"

definition mount_target :: "'w tr_env \<Rightarrow> string \<Rightarrow> string \<Rightarrow> tracee \<Rightarrow> 'w \<Rightarrow> string option res \<times> tracee \<times> 'w" where
  "mount_target E target fstype t w =
     (case resolve_tracee_proc_fd E t target w of
        (Some h, w) \<Rightarrow>
          (let h = chop_finality h in
           case detranslate_mount_target_in_current_root h t of
             (Some g, t) \<Rightarrow> (Inr (Some g), t, w)
           | (None, t) \<Rightarrow>
               (case detranslate_path (tracees (fs E)) t h None of
                  (Inl e, _, t) \<Rightarrow> (ignored e, t, w)
                | (Inr _, g, t) \<Rightarrow> (Inr (Some (collapse_oldroot_tmpfs_target fstype g)), t, w)))
      | (None, w) \<Rightarrow>
          (case guest_canonicalize E target t w of (Inl e, t, w) \<Rightarrow> (ignored e, t, w) | (Inr g, t, w) \<Rightarrow> (Inr (Some g), t, w)))"

text \<open>The first binding of a chain of covered ones that satisfies \<open>P\<close>. There are \<open>n\<close> objects, so a chain with more
  of them has no end: \<open>None\<close>.\<close>

fun covered_find :: "(binding \<Rightarrow> bool) \<Rightarrow> nat \<Rightarrow> tracee \<Rightarrow> nat option \<Rightarrow> nat option option" where
  "covered_find P n t None = Some None"
| "covered_find P 0 t (Some b) = (if P (heap t b) then Some (Some b) else None)"
| "covered_find P (Suc n) t (Some b) = (if P (heap t b) then Some (Some b) else covered_find P n t (covered (heap t b)))"

definition same_path_binding :: "string \<Rightarrow> tracee \<Rightarrow> nat option \<Rightarrow> nat option option" where
  "same_path_binding g t target =
     (case List.find (\<lambda>b. gpath t b = g) (blist t GUEST) of
        Some b \<Rightarrow> Some (Some b)
      | None \<Rightarrow> covered_find (\<lambda>x. guest_path x = g) (next_addr t) t target)"

section \<open>Where the attributes come from\<close>

text \<open>Whether a source that is named by a descriptor was remembered under the name of the target.\<close>

definition remembered_is_target ::
  "'w tr_env \<Rightarrow> proc_fds \<Rightarrow> int \<Rightarrow> string \<Rightarrow> tracee \<Rightarrow> 'w \<Rightarrow> bool res \<times> tracee \<times> 'w" where
  "remembered_is_target E d fd g t w =
     (case recall_proc_fd_path (t_pid t) fd d of None \<Rightarrow> (Inr False, t, w)
      | Some r \<Rightarrow>
          if guest_paths_same_current_root t r g then (Inr True, t, w)
          else (case guest_canonicalize E r t w of
                  (Inl e, t, w) \<Rightarrow> (if e = Crash then Inl Crash else Inr False, t, w)
                | (Inr rg, t, w) \<Rightarrow> (Inr (guest_paths_same_current_root t rg g), t, w)))"

text \<open>A mount of a place onto itself keeps the attributes of the origin of that place.\<close>

definition mount_attributes ::
  "'w tr_env \<Rightarrow> proc_fds \<Rightarrow> mount_source \<Rightarrow> string \<Rightarrow> nat option \<Rightarrow> nat option \<Rightarrow> tracee \<Rightarrow> 'w \<Rightarrow> (bool \<times> word_t) res \<times> tracee \<times> 'w" where
  "mount_attributes E d src g target tmpfs t w =
     (let same = (case ms_guest src of None \<Rightarrow> False | Some s \<Rightarrow> guest_paths_same_current_root t s g);
          origin = (\<lambda>b. (source_readonly (heap t b), source_mount_flags (heap t b)));
          attrs = (case tmpfs of Some b \<Rightarrow> if same then origin b else (ms_readonly src, ms_flags src)
            | None \<Rightarrow> (ms_readonly src, ms_flags src))
      in case (case ms_fd src of Some fd \<Rightarrow> if same then (Inr True, t, w) else remembered_is_target E d fd g t w
          | None \<Rightarrow> (Inr same, t, w)) of
        (Inl e, t, w) \<Rightarrow> (Inl e, t, w)
      | (Inr same, t, w) \<Rightarrow>
          (let attrs = (case (same, ms_binding src, target) of
                 (True, Some b, _) \<Rightarrow> (source_readonly (heap t b), source_mount_flags (heap t b))
               | (True, None, Some b) \<Rightarrow> (source_readonly (heap t b), source_mount_flags (heap t b))
               | _ \<Rightarrow> attrs)
           in case (ms_fd src, if g = ''/tmp'' then get_root t else (None, t)) of
                (Some fd, (Some root, t)) \<Rightarrow>
                  (case recall_proc_fd_path (t_pid t) fd d of
                     Some r \<Rightarrow>
                       (Inr (if compare_paths r g = PATHS_ARE_EQUAL \<and> take (PATH_MAX - 1) (root @ ''/tmp'') = ms_host src
                             then (False, 0) else attrs), t, w)
                   | None \<Rightarrow> (Inr attrs, t, w))
              | (Some _, (None, t)) \<Rightarrow> (Inr attrs, t, w)
              | (None, _) \<Rightarrow> (Inr attrs, t, w)))"

section \<open>mount\<close>

definition emulate_mount ::
  "'w tr_env \<Rightarrow> proc_fds \<Rightarrow> string \<Rightarrow> string \<Rightarrow> string \<Rightarrow> word_t \<Rightarrow> tracee \<Rightarrow> 'w \<Rightarrow> unit res \<times> tracee \<times> 'w" where
  "emulate_mount E d src_user target_user fstype flags t w =
     (if has_flag flags MS_REMOUNT then (Inr (), t, w)
      else case mount_source E d src_user fstype flags t w of
        (Inl e, t, w) \<Rightarrow> (Inl e, t, w)
      | (Inr None, t, w) \<Rightarrow> (Inr (), t, w)
      | (Inr (Some src), t, w) \<Rightarrow>
          (let src = src\<lparr>ms_host := strip_slashes (chop_finality (ms_host src))\<rparr> in
           case mount_target E target_user fstype t w of
             (Inl e, t, w) \<Rightarrow> (Inl e, t, w)
           | (Inr None, t, w) \<Rightarrow> (Inr (), t, w)
           | (Inr (Some g), t, w) \<Rightarrow>
               (case get_binding t GUEST g of (target, t) \<Rightarrow>
                 (case Option.bind (same_path_binding g t target) (covered_find (\<lambda>x. mount_kind x = BINDING_MOUNT_TMPFS) (next_addr t) t) of
                    None \<Rightarrow> (Inl Crash, t, w)
                  | Some tmpfs \<Rightarrow>
                      (case mount_attributes E d src g target tmpfs t w of
                         (Inl e, t, w) \<Rightarrow> (Inl e, t, w)
                       | (Inr (ro, fl), t, w) \<Rightarrow>
                           (case (if has_flag flags MS_BIND \<and> has_flag flags MS_REC then snapshot_recursive_bindings E (ms_host src) t else (Inr [], t)) of
                              (Inl e, t) \<Rightarrow> (Inl e, t, w)
                            | (Inr nested, t) \<Rightarrow>
                                (case insort_binding4 (ms_host src) g (ms_kind src) t of (b, t) \<Rightarrow>
                                   (case rebase_cwd_alias (refresh_cwd_alias_prefix
                                           (fold (replay_binding g) nested (set_attributes ro ro fl fl b t))) of
                                      (Inl Crash, t) \<Rightarrow> (Inl Crash, t, w) | (_, t) \<Rightarrow> (Inr (), t, w)))))))))"

section \<open>umount\<close>

definition emulate_umount :: "'w tr_env \<Rightarrow> string \<Rightarrow> tracee \<Rightarrow> 'w \<Rightarrow> unit res \<times> tracee \<times> 'w" where
  "emulate_umount E target_user t w =
     (case guest_canonicalize E target_user t w of
        (Inl e, t, w) \<Rightarrow> (if e = Crash then Inl Crash else Inr (), t, w)
      | (Inr g, t, w) \<Rightarrow>
          if g = ''/'' then (Inr (), t, w)
          else (case get_binding t GUEST g of
              (None, t) \<Rightarrow> (Inr (), t, w)
            | (Some b, t) \<Rightarrow>
                (Inr (), if gpath t b \<noteq> g then t else remove_binding_and_restore_covered b t, w)))"

section \<open>pivot_root\<close>

text \<open>Where the old root is to be seen below the new one.\<close>

definition put_old_below :: "string \<Rightarrow> string \<Rightarrow> string option" where
  "put_old_below new_root put_old =
     (let n = length new_root;
          after = drop (if n = 1 then 0 else n) put_old
      in if n > 0 \<and> take n put_old = new_root \<and> (c_at put_old n = slash \<or> new_root = ''/'') \<and>
            c_at after 0 = slash \<and> c_at after 1 \<noteq> NUL
         then Some (take (PATH_MAX - 1) after) else None)"

text \<open>What happens to a binding of the old root.\<close>

definition pivot_binding :: "string \<Rightarrow> string option \<Rightarrow> nat \<Rightarrow> nat \<Rightarrow> tracee \<Rightarrow> tracee" where
  "pivot_binding new_root put_old root b t =
     (let g = gpath t b; n = length new_root;
          alias = (\<lambda>c t. case put_old of None \<Rightarrow> t
             | Some p \<Rightarrow> if length (p @ g) < PATH_MAX then snd (copy_binding c (p @ g) t) else t)
      in if b = root \<or> g = ''/'' then t
         else if g = new_root then
           remove_binding_from_all_lists b (case covered (heap t b) of None \<Rightarrow> t | Some c \<Rightarrow> alias c t)
         else if n > 0 \<and> length g > n \<and> take n g = new_root \<and> c_at g n = slash then
           remove_binding_from_all_lists b (snd (copy_binding b (drop n g) t))
         else (case put_old of None \<Rightarrow> t
           | Some p \<Rightarrow> if prefix p g \<and> (c_at g (length p) = NUL \<or> c_at g (length p) = slash) then t else alias b t))"

definition emulate_pivot_root ::
  "'w tr_env \<Rightarrow> proc_fds \<Rightarrow> string \<Rightarrow> string \<Rightarrow> tracee \<Rightarrow> 'w \<Rightarrow> unit res \<times> tracee \<times> proc_fds \<times> 'w" where
  "emulate_pivot_root E d new_root_user put_old_user t w =
     (let quiet = (\<lambda>e t w. (if e = Crash then Inl Crash else Inr (), t, d, w)) in
      case translate_path E None new_root_user True t w of
        (Inl e, t, w) \<Rightarrow> quiet e t w
      | (Inr hostp, t, w) \<Rightarrow>
          (case guest_canonicalize E new_root_user t w of
             (Inl e, t, w) \<Rightarrow> quiet e t w
           | (Inr new_root, t, w) \<Rightarrow>
               (let (nb, t) = get_binding t GUEST new_root;
                    x = (case nb of None \<Rightarrow> zero_binding | Some b \<Rightarrow> heap t b)
                in if new_root_user = ''.'' \<and> put_old_user = ''.'' \<and> new_root = ''/newroot'' then
                     (case rebase_cwd_alias t of (Inl Crash, t) \<Rightarrow> (Inl Crash, t, d, w) | (_, t) \<Rightarrow> (Inr (), t, d, w))
                   else (case canonicalize (fs E) put_old_user True (if c_at put_old_user 0 = slash then ''/'' else new_root) 0 t w of
                       (Inl e, t, w) \<Rightarrow> quiet e t w
                     | (Inr old, t, w) \<Rightarrow>
                         (case get_binding t GUEST ''/'' of
                            (None, t) \<Rightarrow> (Inr (), t, d, w)
                          | (Some root, t) \<Rightarrow>
                              (let old_host = take (PATH_MAX - 1) (hpath t root);
                                   put_old = put_old_below new_root old;
                                   snapshot = blist t GUEST;
                                   d = (case put_old of None \<Rightarrow> d | Some p \<Rightarrow> rebase_proc_fd_paths (t_pid t) new_root p d);
                                   (nr, t) = insort_binding3 (chop_finality hostp) ''/'' (remove_binding_from_all_lists root t);
                                   t = set_attributes (readonly x) (source_readonly x) (mount_flags x) (source_mount_flags x) nr t;
                                   t = (case put_old of None \<Rightarrow> t | Some p \<Rightarrow> snd (insort_binding3 old_host p t));
                                   t = fold (pivot_binding new_root put_old root) snapshot t
                               in case rebase_cwd_alias (refresh_cwd_alias_prefix t) of
                                    (Inl Crash, t) \<Rightarrow> (Inl Crash, t, d, w) | (_, t) \<Rightarrow> (Inr (), t, d, w)))))))"

section \<open>mount_setattr\<close>

text \<open>The attributes beyond those that are known must be zero.\<close>

fun rest_is_zero :: "memory \<Rightarrow> word_t \<Rightarrow> nat list \<Rightarrow> unit res" where
  "rest_is_zero m a [] = Inr ()"
| "rest_is_zero m a (k # ks) =
     (case read_data m (a + of_nat k) 1 of Inl e \<Rightarrow> Inl EFAULT
      | Inr bs \<Rightarrow> if bs \<noteq> [0] then Inl E2BIG else rest_is_zero m a ks)"

definition read_mount_attributes :: "thread \<Rightarrow> memory \<Rightarrow> (word_t \<times> word_t) res" where
  "read_mount_attributes t m =
     (let flags = peek_reg CURRENT SYSARG_3 t; a = peek_reg CURRENT SYSARG_4 t; size = peek_reg CURRENT SYSARG_5 t in
      if has_flag flags (not (or AT_EMPTY_PATH (or AT_RECURSIVE AT_SYMLINK_NOFOLLOW))) \<or> size < 32 then Inl EINVAL
      else if size > 4096 then Inl E2BIG
      else case read_data m a 32 of Inl e \<Rightarrow> Inl EFAULT
        | Inr bs \<Rightarrow>
            (let field = (\<lambda>i. of_nat (le_value (take 8 (drop i bs))) :: word_t) in
             case rest_is_zero m a [32..<unat size] of Inl e \<Rightarrow> Inl e
             | Inr _ \<Rightarrow>
                 if has_flag (or (field 0) (field 8)) (not (or MS_RDONLY (or MS_NOSUID MS_NODEV))) \<or> field 16 \<noteq> 0 \<or> field 24 \<noteq> 0
                 then Inl ENOTSUP else Inr (field 0, field 8)))"

text \<open>The guest path that is meant. \<open>left\<close> is what a canonicalization that fails leaves in its buffer.\<close>

definition setattr_target ::
  "'w tr_env \<Rightarrow> (string \<Rightarrow> string) \<Rightarrow> proc_fds \<Rightarrow> int \<Rightarrow> string \<Rightarrow> word_t \<Rightarrow> tracee \<Rightarrow> 'w \<Rightarrow> (string \<times> string) res \<times> tracee \<times> 'w" where
  "setattr_target E left d dirfd path flags t w =
     (if path = [] then
        (if \<not> has_flag flags AT_EMPTY_PATH then (Inl ENOENT, t, w)
         else case host_path_of_dirfd E dirfd t w of
             (Inl e, t, w) \<Rightarrow> (Inl e, t, w)
           | (Inr h, t, w) \<Rightarrow>
               (case recall_proc_fd_path (t_pid t) dirfd d of None \<Rightarrow> (Inr (h, []), t, w)
                | Some r \<Rightarrow>
                    (case translate_path E None r True t w of
                       (Inl e, t, w) \<Rightarrow> (if e = Crash then Inl Crash else Inr (h, []), t, w)
                     | (Inr rh, t, w) \<Rightarrow>
                         if rh \<noteq> h then (Inr (h, []), t, w)
                         else (case guest_canonicalize E r t w of
                             (Inl e, t, w) \<Rightarrow> (if e = Crash then Inl Crash else Inr (h, left r), t, w)
                           | (Inr g, t, w) \<Rightarrow> (Inr (h, g), t, w)))))
      else case translate_path E (dir_arg dirfd) path (\<not> has_flag flags AT_SYMLINK_NOFOLLOW) t w of
          (Inl e, t, w) \<Rightarrow> (Inl e, t, w)
        | (Inr h, t, w) \<Rightarrow>
            if c_at path 0 = slash \<or> dirfd = -100 then
              (case guest_canonicalize E path t w of (Inl e, t, w) \<Rightarrow> (Inl e, t, w) | (Inr g, t, w) \<Rightarrow> (Inr (h, g), t, w))
            else (Inr (h, []), t, w))"

text \<open>The innermost mount that contains the path, the first one among equals.\<close>

fun innermost_mount :: "tracee \<Rightarrow> string \<Rightarrow> nat option \<Rightarrow> nat list \<Rightarrow> nat option" where
  "innermost_mount t g best [] = best"
| "innermost_mount t g best (b # bs) =
     innermost_mount t g
       (if mount_kind (heap t b) \<noteq> BINDING_MOUNT_INTERNAL \<and>
           (compare_paths (gpath t b) g = PATHS_ARE_EQUAL \<or> compare_paths (gpath t b) g = PATH1_IS_PREFIX) \<and>
           (case best of None \<Rightarrow> True | Some x \<Rightarrow> length (gpath t b) > length (gpath t x))
        then Some b else best) bs"

definition set_mount_flags :: "word_t \<Rightarrow> word_t \<Rightarrow> binding \<Rightarrow> binding" where
  "set_mount_flags aset aclr x =
     (let ro = (if has_flag aclr MS_RDONLY then False else readonly x);
          ro = (if has_flag aset MS_RDONLY then True else ro)
      in x\<lparr>readonly := ro, mount_flags := or (and (mount_flags x) (not aclr)) (and aset (not MS_RDONLY))\<rparr>)"

definition setattr_applies :: "tracee \<Rightarrow> nat \<Rightarrow> bool \<Rightarrow> nat \<Rightarrow> bool" where
  "setattr_applies t target recursive b \<longleftrightarrow>
     \<not> (gpath t target = ''/'' \<and> (gpath t b = ''/oldroot'' \<or> prefix ''/oldroot/'' (gpath t b))) \<and>
     (b = target \<or> recursive \<and> compare_paths (gpath t target) (gpath t b) = PATH1_IS_PREFIX)"

definition setattr_bindings :: "word_t \<Rightarrow> word_t \<Rightarrow> bool \<Rightarrow> nat \<Rightarrow> tracee \<Rightarrow> tracee" where
  "setattr_bindings aset aclr recursive target t =
     t\<lparr>heap := (\<lambda>b. if b \<in> List.set (blist t GUEST) \<and> setattr_applies t target recursive b
        then set_mount_flags aset aclr (heap t b) else heap t b)\<rparr>"

definition apply_emulated_mount_setattr ::
  "'w tr_env \<Rightarrow> (string \<Rightarrow> string) \<Rightarrow> proc_fds \<Rightarrow> thread \<times> memory \<Rightarrow> tracee \<Rightarrow> 'w \<Rightarrow> unit res \<times> tracee \<times> 'w" where
  "apply_emulated_mount_setattr E left d tm t w =
     (let (th, m) = tm; flags = peek_reg CURRENT SYSARG_3 th; dirfd = reg_int (peek_reg CURRENT SYSARG_1 th) in
      case read_mount_attributes th m of Inl e \<Rightarrow> (Inl e, t, w)
      | Inr (aset, aclr) \<Rightarrow>
          (case get_sysarg_path th m SYSARG_2 of Inl e \<Rightarrow> (Inl e, t, w)
           | Inr path \<Rightarrow>
               (let (path, dirfd, flags) = (case parse_tracee_proc_fd t path of
                      Some fd \<Rightarrow> ([], fd, or flags AT_EMPTY_PATH) | None \<Rightarrow> (path, dirfd, flags))
                in case setattr_target E left d dirfd path flags t w of
                   (Inl e, t, w) \<Rightarrow> (Inl e, t, w)
                 | (Inr (h, g), t, w) \<Rightarrow>
                     (case (if path = [] then (None, w)
                            else case k_lstat (fs E) h w of (Inl e, w) \<Rightarrow> (Some e, w) | (Inr _, w) \<Rightarrow> (None, w)) of
                        (Some e, w) \<Rightarrow> (Inl e, t, w)
                      | (None, w) \<Rightarrow>
                          (let (g, t) = (if g \<noteq> [] then (Inr g, t)
                                 else case detranslate_mount_target_in_current_root h t of
                                   (Some g, t) \<Rightarrow> (Inr g, t)
                                 | (None, t) \<Rightarrow> (case detranslate_path (tracees (fs E)) t h None of
                                       (Inl e, _, t) \<Rightarrow> (Inl e, t) | (Inr _, g, t) \<Rightarrow> (Inr g, t)))
                           in case g of Inl e \<Rightarrow> (Inl e, t, w)
                           | Inr g \<Rightarrow>
                               (case innermost_mount t g None (blist t GUEST) of None \<Rightarrow> (Inl EINVAL, t, w)
                                | Some target \<Rightarrow> (Inr (), setattr_bindings aset aclr (has_flag flags AT_RECURSIVE) target t, w)))))))"

section \<open>The calls\<close>

definition FSTYPE_MAX :: nat where "FSTYPE_MAX = 255"

text \<open>What cannot be read of the name of the file system is missing.\<close>

definition read_fstype :: "memory \<Rightarrow> word_t \<Rightarrow> string" where
  "read_fstype m a = (if a = 0 then [] else case read_string m a FSTYPE_MAX of Inl e \<Rightarrow> [] | Inr bs \<Rightarrow> c_str (string_of bs))"

definition apply_emulated_mount ::
  "'w tr_env \<Rightarrow> proc_fds \<Rightarrow> thread \<times> memory \<Rightarrow> tracee \<Rightarrow> 'w \<Rightarrow> unit res \<times> tracee \<times> 'w" where
  "apply_emulated_mount E d tm t w =
     (let (th, m) = tm in
      case (get_sysarg_path th m SYSARG_1, get_sysarg_path th m SYSARG_2) of
        (Inr src, Inr target) \<Rightarrow>
          emulate_mount E d src target (read_fstype m (peek_reg CURRENT SYSARG_3 th)) (peek_reg CURRENT SYSARG_4 th) t w
      | _ \<Rightarrow> (Inr (), t, w))"

definition apply_emulated_umount :: "'w tr_env \<Rightarrow> thread \<times> memory \<Rightarrow> tracee \<Rightarrow> 'w \<Rightarrow> unit res \<times> tracee \<times> 'w" where
  "apply_emulated_umount E tm t w =
     (case get_sysarg_path (fst tm) (snd tm) SYSARG_1 of Inl e \<Rightarrow> (Inr (), t, w) | Inr target \<Rightarrow> emulate_umount E target t w)"

definition apply_emulated_pivot_root ::
  "'w tr_env \<Rightarrow> proc_fds \<Rightarrow> thread \<times> memory \<Rightarrow> tracee \<Rightarrow> 'w \<Rightarrow> unit res \<times> tracee \<times> proc_fds \<times> 'w" where
  "apply_emulated_pivot_root E d tm t w =
     (let (th, m) = tm in
      case (get_sysarg_path th m SYSARG_1, get_sysarg_path th m SYSARG_2) of
        (Inr new_root, Inr put_old) \<Rightarrow> emulate_pivot_root E d new_root put_old t w
      | _ \<Rightarrow> (Inr (), t, d, w))"

end
