(* ===== verification/Mount_Spec.thy ===== *)
theory Mount_Spec
  imports Mount Aoxp_Spec Translate_Spec
begin

text \<open>What the emulated mounts promise, and what a read-only mount does not protect.\<close>

section \<open>Remounting\<close>

lemma setattr_same [simp]:
  "blist (setattr_bindings s c r b t) x = blist t x" "gpath (setattr_bindings s c r b t) y = gpath t y"
  "hpath (setattr_bindings s c r b t) y = hpath t y" "has_cache (setattr_bindings s c r b t) = has_cache t"
  "cache_entries (setattr_bindings s c r b t) = cache_entries t" "cached_root (setattr_bindings s c r b t) = cached_root t"
  "next_addr (setattr_bindings s c r b t) = next_addr t" "guest (setattr_bindings s c r b t) = guest t"
  "need_substitution (heap (setattr_bindings s c r b t) y) = need_substitution (heap t y)"
  "mount_kind (heap (setattr_bindings s c r b t) y) = mount_kind (heap t y)"
  by (cases x; simp add: setattr_bindings_def blist_def set_mount_flags_def Let_def)+

lemma bind_inv_setattr: "bind_inv (setattr_bindings s c r b t) \<longleftrightarrow> bind_inv t"
  by (auto simp: bind_inv_def linked_def sort_by_desc_length_def)

text \<open>A binding holds a path; a mount that holds it with the longest path of all is the innermost one.\<close>

definition holds_path :: "tracee \<Rightarrow> nat \<Rightarrow> string \<Rightarrow> bool" where
  "holds_path t b g \<longleftrightarrow> compare_paths (gpath t b) g = PATHS_ARE_EQUAL \<or> compare_paths (gpath t b) g = PATH1_IS_PREFIX"

definition innermost :: "tracee \<Rightarrow> string \<Rightarrow> nat \<Rightarrow> bool" where
  "innermost t g b \<longleftrightarrow> b \<in> set (blist t GUEST) \<and> mount_kind (heap t b) \<noteq> BINDING_MOUNT_INTERNAL \<and> holds_path t b g \<and>
     (\<forall>c \<in> set (blist t GUEST). mount_kind (heap t c) \<noteq> BINDING_MOUNT_INTERNAL \<longrightarrow> holds_path t c g \<longrightarrow>
        length (gpath t c) \<le> length (gpath t b))"

lemma innermost_mount_best:
  "innermost_mount t g best bs = Some b \<Longrightarrow>
     (best = Some b \<or> b \<in> set bs \<and> mount_kind (heap t b) \<noteq> BINDING_MOUNT_INTERNAL \<and> holds_path t b g) \<and>
     (\<forall>x. best = Some x \<longrightarrow> length (gpath t x) \<le> length (gpath t b)) \<and>
     (\<forall>c \<in> set bs. mount_kind (heap t c) \<noteq> BINDING_MOUNT_INTERNAL \<longrightarrow> holds_path t c g \<longrightarrow> length (gpath t c) \<le> length (gpath t b))"
proof (induction bs arbitrary: best)
  case (Cons a bs)
  show ?case
  proof (cases "mount_kind (heap t a) \<noteq> BINDING_MOUNT_INTERNAL \<and> holds_path t a g \<and>
      (case best of None \<Rightarrow> True | Some x \<Rightarrow> length (gpath t a) > length (gpath t x))")
    case True
    with Cons.prems have "innermost_mount t g (Some a) bs = Some b" by (simp add: holds_path_def)
    from Cons.IH [OF this] True show ?thesis by (auto split: option.splits)
  next
    case False
    with Cons.prems have "innermost_mount t g best bs = Some b" by (simp only: innermost_mount.simps holds_path_def if_False)
    from Cons.IH [OF this] False show ?thesis by (fastforce split: option.splits)
  qed
qed simp

lemma innermost_mount_innermost: "innermost_mount t g None (blist t GUEST) = Some b \<Longrightarrow> innermost t g b"
  using innermost_mount_best [of t g None "blist t GUEST" b] by (simp add: innermost_def)

lemma innermost_setattr [simp]: "innermost (setattr_bindings s c r a t) g b \<longleftrightarrow> innermost t g b"
  by (simp add: innermost_def holds_path_def)

lemma compare_canonical:
  assumes "canonical p" "canonical q"
  shows "compare_paths p q =
    (if comps p = comps q then PATHS_ARE_EQUAL else if prefix (comps p) (comps q) then PATH1_IS_PREFIX
     else if prefix (comps q) (comps p) then PATH2_IS_PREFIX else PATHS_ARE_NOT_COMPARABLE)"
proof -
  have "list_all comp_ok (comps p)" "list_all comp_ok (comps q)" "p = render (comps p)" "q = render (comps q)"
    using canonical_plain [OF assms(1)] canonical_plain [OF assms(2)] by (auto simp: plain_def)
  with compare_paths_render [of "comps p" "comps q"] show ?thesis by metis
qed

lemma readonly_binding_refuses:
  assumes "bind_inv t" "\<forall>b \<in> set (blist t GUEST). canonical (gpath t b)" "plain p" "target \<in> set (blist t GUEST)"
    and "prefix (gcomps t target) (comps p)"
    and "\<forall>b \<in> set (blist t GUEST). prefix (gcomps t target) (gcomps t b) \<longrightarrow> prefix (gcomps t b) (comps p) \<longrightarrow> readonly (heap t b)"
  shows "fst (check_bind_readonly t p) = Inl EROFS"
proof -
  obtain r t' where g: "get_binding t GUEST p = (r, t')" by (cases "get_binding t GUEST p")
  have h: "heap t' = heap t"
    using g by (auto simp: get_binding_def find_best_prefix_def get_binding_cache_def build_guest_binding_cache_def Let_def
      split: if_splits option.splits prod.splits)
  from get_binding_guest [OF assms(1-3)] assms(4,5)
  obtain b where b: "r = Some b" "b \<in> set (blist t GUEST)" "prefix (gcomps t b) (comps p)"
    "length (gcomps t target) \<le> length (gcomps t b)"
    unfolding g by (cases r) auto
  then have "prefix (gcomps t target) (gcomps t b)" using assms(5) prefix_length_prefix by blast
  with assms(6) b(2,3) have "readonly (heap t b)" by blast
  with g h b(1) show ?thesis by (simp add: check_bind_readonly_def)
qed

lemma below_oldroot:
  assumes "canonical g"
  shows "(g = ''/oldroot'' \<or> prefix ''/oldroot/'' g) = prefix [''oldroot''] (comps g)"
proof -
  have ok: "list_all comp_ok (comps g)" "g = render (comps g)" using canonical_plain [OF assms] by (auto simp: plain_def)
  have o: "list_all comp_ok [''oldroot'']" by (simp add: comp_ok_def)
  show ?thesis
  proof (cases "comps g")
    case Nil
    with ok(2) show ?thesis by simp
  next
    case (Cons c cs)
    have c: "comp_ok c" using ok(1) Cons by simp
    have g: "g = slash # c @ body cs" using ok(2) Cons by (simp add: render_body)
    have "takeWhile (\<lambda>x. x \<noteq> slash) (c @ body cs) = c @ takeWhile (\<lambda>x. x \<noteq> slash) (body cs)"
      using c by (intro takeWhile_append2) (auto simp: comp_ok_def)
    then have t: "takeWhile (\<lambda>x. x \<noteq> slash) (c @ body cs) = c" by (cases cs) auto
    have "c = ''oldroot''" if "c @ body cs = ''oldroot'' @ r" "r = [] \<or> hd r = slash" for r
      using t that by (cases r) auto
    moreover have "g = ''/oldroot'' \<or> prefix ''/oldroot/'' g" if "c = ''oldroot''"
      using that g by (cases cs) auto
    moreover have "c @ body cs = ''oldroot'' \<or> (\<exists>r. c @ body cs = ''oldroot'' @ slash # r)" if "g = ''/oldroot'' \<or> prefix ''/oldroot/'' g"
      using that g by (auto simp: prefix_def)
    ultimately have "(g = ''/oldroot'' \<or> prefix ''/oldroot/'' g) = (c = ''oldroot'')" by fastforce
    then show ?thesis by (auto simp: Cons)
  qed
qed

text \<open>The guest path \<open>g\<close> that a call of \<open>mount_setattr\<close> names: what its directory and path arguments resolve to, through a
  descriptor in \<^verbatim>\<open>/proc\<close> or not, and where that is only a path of the host, what it is in the guest.\<close>

definition named_by ::
  "'w tr_env \<Rightarrow> (string \<Rightarrow> string) \<Rightarrow> proc_fds \<Rightarrow> thread \<times> memory \<Rightarrow> tracee \<Rightarrow> 'w \<Rightarrow> string \<Rightarrow> bool" where
  "named_by E left d tm t w g \<longleftrightarrow>
     (\<exists>path h g0 u v. get_sysarg_path (fst tm) (snd tm) SYSARG_2 = Inr path \<and>
        (let flags = peek_reg CURRENT SYSARG_3 (fst tm); dirfd = reg_int (peek_reg CURRENT SYSARG_1 (fst tm)) in
         (case parse_tracee_proc_fd t path of
            Some fd \<Rightarrow> setattr_target E left d fd [] (or flags AT_EMPTY_PATH) t w
          | None \<Rightarrow> setattr_target E left d dirfd path flags t w) = (Inr (h, g0), u, v)) \<and>
        (if g0 \<noteq> [] then g = g0
         else case detranslate_mount_target_in_current_root h u of
           (Some g1, _) \<Rightarrow> g = g1
         | (None, u) \<Rightarrow> (\<exists>n x. detranslate_path (tracees (fs E)) u h None = (Inr n, g, x))))"

text \<open>For an absolute path, or one relative to the working directory, that is its canonical form.\<close>

lemma named_by_path:
  assumes "named_by E left d (th, m) t w g" "get_sysarg_path th m SYSARG_2 = Inr path" "path \<noteq> []"
    and "parse_tracee_proc_fd t path = None" "c_at path 0 = slash \<or> reg_int (peek_reg CURRENT SYSARG_1 th) = -100"
  shows "\<exists>h u v k x y.
    translate_path E (dir_arg (reg_int (peek_reg CURRENT SYSARG_1 th))) path
      (\<not> has_flag (peek_reg CURRENT SYSARG_3 th) AT_SYMLINK_NOFOLLOW) t w = (Inr h, u, v) \<and>
    guest_canonicalize E path u v = (Inr k, x, y) \<and> (k \<noteq> [] \<longrightarrow> g = k)"
  using assms unfolding named_by_def setattr_target_def
  by (auto simp: Let_def split: if_splits prod.splits sum.splits)

lemma apply_setattr_done:
  assumes "apply_emulated_mount_setattr E left d (th, m) t w = (Inr (), t', w')"
    and "read_mount_attributes th m = Inr (aset, aclr)"
  obtains g target u rec where "named_by E left d (th, m) t w g" "innermost_mount u g None (blist u GUEST) = Some target"
    "t' = setattr_bindings aset aclr rec target u" "has_flag (peek_reg CURRENT SYSARG_3 th) AT_RECURSIVE \<Longrightarrow> rec"
proof -
  have f: "has_flag (or f AT_EMPTY_PATH) AT_RECURSIVE = has_flag f AT_RECURSIVE" for f
    by (simp add: has_flag_def AT_EMPTY_PATH_def AT_RECURSIVE_def bit.conj_disj_distrib2)
  show ?thesis
    using assms that
    by (auto simp: apply_emulated_mount_setattr_def named_by_def Let_def f split: sum.splits option.splits prod.splits if_splits)
qed

text \<open>The check looks at the path as it was given: a relative one, or one that reaches the mount through \<^verbatim>\<open>..\<close> or a symbolic
  link, is not recognised. This is the whole protection of a read-only mount.\<close>

lemma relative_path_not_checked: "c_at p 0 \<noteq> slash \<Longrightarrow> check_bind_readonly t p = (Inr (), t)"
  by (simp add: check_bind_readonly_def get_binding_def)

text \<open>
  What this does to a binding that is covered and restored. Of the host sides \<^verbatim>\<open>/a/b\<close>, \<^verbatim>\<open>/a\<close>
  and \<^verbatim>\<open>/\<close> the first is replaced and put back: it comes back behind \<^verbatim>\<open>/a\<close>, and a host lookup of
  \<^verbatim>\<open>/a/b\<close>, which found it before, finds \<^verbatim>\<open>/a\<close>.
\<close>

definition shade_table :: tracee where
  "shade_table = empty_table\<lparr>
     heap := (\<lambda>_. zero_binding)(0 := zero_binding\<lparr>host_path := ''/'', guest_path := ''/''\<rparr>,
       1 := zero_binding\<lparr>host_path := ''/a/b'', guest_path := ''/n'', need_substitution := True\<rparr>,
       2 := zero_binding\<lparr>host_path := ''/a'', guest_path := ''/m'', need_substitution := True\<rparr>),
     next_addr := 3, guest := Some [1, 2, 0], host := Some [1, 2, 0]\<rparr>"

lemma covered_binding_shaded:
  "fst (get_binding shade_table HOST ''/a/b'') = Some 1 \<and>
   fst (get_binding (remove_binding_and_restore_covered
       (fst (insort_binding4 ''/y'' ''/n'' BINDING_MOUNT_TMPFS shade_table))
       (snd (insort_binding4 ''/y'' ''/n'' BINDING_MOUNT_TMPFS shade_table))) HOST ''/a/b'') = Some 2"
  by code_simp

section \<open>Properties\<close>

text \<open>
  C36: making a mount read-only holds for what is below it. When \<open>mount_setattr\<close> has succeeded in setting the read-only
  attribute recursively, the mount that was changed is the innermost one that holds the path the call named, and the check that
  the calls make before they write refuses every path below that mount, whatever is mounted below it. This holds for absolute
  paths without an empty component (\<open>plain\<close>), compared as they are written: the check resolves no dot-dot and no symbolic link and
  lets every relative path pass (\<open>relative_path_not_checked\<close>), so nothing is promised for a file that is reached that way. What is
  below \<^verbatim>\<open>/oldroot\<close> is exempt.
\<close>

theorem readonly_remount_enforced:
  assumes "apply_emulated_mount_setattr E left d (th, m) t w = (Inr (), t', w')"
    and "read_mount_attributes th m = Inr (aset, aclr)" "has_flag aset MS_RDONLY"
    and "has_flag (peek_reg CURRENT SYSARG_3 th) AT_RECURSIVE"
    and "bind_inv t'" "table_ok t'"
  shows "\<exists>g target. named_by E left d (th, m) t w g \<and> innermost t' g target \<and>
    (\<forall>p. plain p \<longrightarrow> prefix (gcomps t' target) (comps p) \<longrightarrow> \<not> prefix [''oldroot''] (comps p) \<longrightarrow>
       fst (check_bind_readonly t' p) = Inl EROFS)"
proof -
  from apply_setattr_done [OF assms(1,2)] assms(4)
  obtain g target u where u: "innermost_mount u g None (blist u GUEST) = Some target"
    "t' = setattr_bindings aset aclr True target u" and g: "named_by E left d (th, m) t w g" by (metis (full_types))
  have inner: "innermost t' g target" using innermost_mount_innermost [OF u(1)] u(2) by simp
  then have target: "target \<in> set (blist t' GUEST)" by (simp add: innermost_def)
  have can: "canonical (gpath u b)" if "b \<in> set (blist u GUEST)" for b
    using assms(6) that u(2) by (auto simp: table_ok_def linked_def)
  have inj: "inj_on (gpath u) (set (blist u GUEST))" using assms(6) u(2) by (simp add: table_ok_def inj_on_def)
  have "readonly (heap t' b)"
    if b: "b \<in> set (blist t' GUEST)" "prefix (gcomps t' target) (gcomps t' b)" and old: "\<not> prefix [''oldroot''] (gcomps t' b)" for b
  proof -
    have bu: "b \<in> set (blist u GUEST)" "prefix (gcomps u target) (gcomps u b)" "target \<in> set (blist u GUEST)"
      and o: "\<not> prefix [''oldroot''] (gcomps u b)" using b old target u(2) by simp_all
    have "b = target \<or> compare_paths (gpath u target) (gpath u b) = PATH1_IS_PREFIX"
      using compare_canonical [OF can [OF bu(3)] can [OF bu(1)]] bu inj can canonical_iff by (metis inj_on_eq_iff)
    moreover have "gpath u b \<noteq> ''/oldroot'' \<and> \<not> prefix ''/oldroot/'' (gpath u b)"
      using below_oldroot [OF can [OF bu(1)]] o by simp
    ultimately have "setattr_applies u target True b" by (simp add: setattr_applies_def)
    with b(1) assms(3) show ?thesis by (simp add: u(2) setattr_bindings_def set_mount_flags_def Let_def)
  qed
  moreover have "\<forall>b \<in> set (blist t' GUEST). canonical (gpath t' b)" using assms(6) by (auto simp: table_ok_def linked_def)
  ultimately have "fst (check_bind_readonly t' p) = Inl EROFS"
    if "plain p" "prefix (gcomps t' target) (comps p)" "\<not> prefix [''oldroot''] (comps p)" for p
    using target that by (intro readonly_binding_refuses [OF assms(5)] ballI impI) (auto intro: prefix_order.trans)
  with g inner show ?thesis by blast
qed

definition attributes_thread :: thread where
  "attributes_thread = demo_thread [(0, 3), (1, 0), (2, 0x9000), (3, 4096), (4, 32)]"

definition attributes_memory :: memory where
  "attributes_memory = poke_bytes (\<lambda>_. Some 0) 4096 (1 # replicate 31 0)"

definition root_env :: "unit tr_env" where
  "root_env = plain_tr\<lparr>k_fd_link := (\<lambda>p f w. (Some ''/r'', w))\<rparr>"

definition demo_rooted :: tracee where
  "demo_rooted = demo_table\<lparr>has_cache := True, cached_root := Some 0\<rparr>"

lemma demo_guest: "guest demo_table = Some [0]" "has_cache demo_table = False" "cached_root demo_table = None" "cache_entries demo_table = None"
  "next_addr demo_table = 1" "t_pid demo_table = 1"
  by (simp_all add: demo_table_def insort_binding3_def insort_binding4_def alloc_binding_def insort_binding2_def insort_binding_def
      empty_table_def blist_def set_blist_def list_first_def Let_def invalidate_binding_cache_def)

lemma demo_root: "get_root demo_table = (Some ''/r'', demo_rooted)"
proof -
  have "compare_paths ''/'' ''/'' = PATHS_ARE_EQUAL" using compare_paths_render [of "[]" "[]"] by simp
  then show ?thesis
    using demo_table_lists demo_table_binding
    by (simp add: get_root_def get_binding_cache_def root_candidate_def demo_guest demo_rooted_def blist_def)
qed

lemma demo_rooted_inv: "bind_inv demo_rooted" "table_ok demo_rooted"
proof -
  have "compare_paths ''/'' ''/'' = PATHS_ARE_EQUAL" using compare_paths_render [of "[]" "[]"] by simp
  then show "bind_inv demo_rooted"
    using demo_table_inv demo_table_lists demo_table_binding demo_guest
    by (auto simp: bind_inv_def demo_rooted_def blist_def linked_def split: side.splits)
  show "table_ok demo_rooted"
    using demo_table_ok by (simp add: table_ok_def demo_rooted_def blist_def linked_def inj_on_def)
qed

lemma le_value_zeros [simp]: "le_value (replicate n 0) = 0"
  by (induction n) simp_all

lemma demo_attributes: "read_mount_attributes attributes_thread attributes_memory = Inr (1, 0)"
proof -
  have t: "total_memory attributes_memory" unfolding attributes_memory_def by (rule total_poke) (simp add: total_memory_def)
  have p: "peek_bytes attributes_memory 4096 32 = Some (1 # replicate 31 0)"
    using peek_poked [of "1 # replicate 31 0" "\<lambda>_. Some 0" 4096] by (simp add: attributes_memory_def)
  moreover have "span_mapped attributes_memory 4096 32" using t by (simp add: span_mapped_def total_memory_def)
  ultimately have r: "read_data attributes_memory 4096 32 = Inr (1 # replicate 31 0)"
    using read_words_mapped by (simp add: read_data_def VM_FAST_THRESHOLD_def)
  show ?thesis
    by (simp add: r read_mount_attributes_def attributes_thread_def demo_thread_def peek_reg_def has_flag_def AT_EMPTY_PATH_def
      AT_RECURSIVE_def AT_SYMLINK_NOFOLLOW_def MS_RDONLY_def MS_NOSUID_def MS_NODEV_def Let_def upt_rec [of 32])
qed

theorem readonly_remount_enforced_witness:
  "\<exists>t'. apply_emulated_mount_setattr root_env id proc_fds_start (attributes_thread, attributes_memory) demo_table () = (Inr (), t', ()) \<and>
     fst (check_bind_readonly t' ''/r'') = Inl EROFS"
proof -
  let ?t = "setattr_bindings 1 0 True 0 demo_rooted"
  have l: "blist demo_rooted GUEST = [0]" "gpath demo_rooted 0 = ''/''"
    using demo_table_lists demo_table_binding by (simp_all add: demo_rooted_def blist_def)
  have c: "compare_paths ''/r'' ''/r'' = PATHS_ARE_EQUAL" "compare_paths ''/'' ''/'' = PATHS_ARE_EQUAL"
    using compare_paths_render [of "[''r'']" "[''r'']"] compare_paths_render [of "[]" "[]"] by (simp_all add: comp_ok_def)
  have k: "mount_kind (heap demo_rooted 0) \<noteq> BINDING_MOUNT_INTERNAL"
    by (simp add: demo_rooted_def demo_table_def insort_binding3_def insort_binding4_def alloc_binding_def insort_binding2_def
      insort_binding_def empty_table_def blist_def set_blist_def list_first_def Let_def invalidate_binding_cache_def zero_binding_def)
  have path: "get_sysarg_path attributes_thread m SYSARG_2 = Inr []" for m
    by (simp add: get_sysarg_path_def attributes_thread_def demo_thread_def peek_reg_def)
  have "readlink_proc_pid_fd root_env p f w = (Inr ''/r'', w)" for p f w
    by (simp add: readlink_proc_pid_fd_def root_env_def PATH_MAX_def c_str_def)
  moreover have "recall_proc_fd_path 1 3 proc_fds_start = None"
    by (simp add: recall_proc_fd_path_def recall_slot_def find_None_iff is_slot_of_def proc_fds_start_def zero_fd_slot_def)
  moreover have f: "has_flag (peek_reg CURRENT SYSARG_3 attributes_thread) AT_EMPTY_PATH"
    "has_flag (peek_reg CURRENT SYSARG_3 attributes_thread) AT_RECURSIVE"
    "reg_int (peek_reg CURRENT SYSARG_1 attributes_thread) = 3"
    by (simp_all add: has_flag_def AT_RECURSIVE_def AT_EMPTY_PATH_def attributes_thread_def demo_thread_def peek_reg_def reg_int_def)
  ultimately have "setattr_target root_env id proc_fds_start 3 [] (peek_reg CURRENT SYSARG_3 attributes_thread) demo_table () =
      (Inr (''/r'', []), demo_table, ())"
    by (simp add: setattr_target_def host_path_of_dirfd_def demo_guest)
  moreover have "parse_tracee_proc_fd demo_table [] = None" by (simp add: parse_tracee_proc_fd_def)
  ultimately have run: "apply_emulated_mount_setattr root_env id proc_fds_start (attributes_thread, attributes_memory) demo_table () = (Inr (), ?t, ())"
    using l c k
    by (simp add: apply_emulated_mount_setattr_def demo_attributes path f detranslate_mount_target_in_current_root_def demo_root PATH_MAX_def)
  have "bind_inv ?t" using demo_rooted_inv by (simp add: bind_inv_setattr)
  moreover have "table_ok ?t" using demo_rooted_inv by (simp add: table_ok_def linked_def inj_on_def)
  moreover have "has_flag 1 MS_RDONLY" "has_flag (peek_reg CURRENT SYSARG_3 attributes_thread) AT_RECURSIVE"
    by (simp_all add: f) (simp add: has_flag_def MS_RDONLY_def)
  ultimately have "fst (check_bind_readonly ?t ''/r'') = Inl EROFS"
    using readonly_remount_enforced [OF run demo_attributes] l plain_render [of "[''r'']"] comps_render [of "[''r'']"] comps_root
    by (auto simp: comp_ok_def innermost_def)
  with run show ?thesis by blast
qed

end
