(* ===== verification/Netlink.thy ===== *)
theory Netlink
  imports Sysarg
begin

text \<open>
  The emulation of \<open>NETLINK_ROUTE\<close> sockets (\<^verbatim>\<open>src/syscall/enter.c\<close>, with their creation in \<^verbatim>\<open>src/syscall/exit.c\<close>): a host
  that refuses them gets sockets of another family in their place, and the tracer answers the requests itself. A reply is a
  list of bytes, built by appending; the receiver gets it datagram by datagram. Requests to sockets that the host gave, which
  are refused because the tracee has no network namespace of its own, are turned into acknowledgements.
\<close>

section \<open>Constants of the kernel interface\<close>

definition NLMSG_HDRLEN :: nat where "NLMSG_HDRLEN = 16"
definition NLMSG_ERROR :: nat where "NLMSG_ERROR = 2"
definition NLMSG_DONE :: nat where "NLMSG_DONE = 3"
definition RTM_BASE :: nat where "RTM_BASE = 16"
definition RTM_NEWLINK :: nat where "RTM_NEWLINK = 16"
definition RTM_GETLINK :: nat where "RTM_GETLINK = 18"
definition RTM_NEWADDR :: nat where "RTM_NEWADDR = 20"
definition RTM_GETADDR :: nat where "RTM_GETADDR = 22"
definition RTM_GETROUTE :: nat where "RTM_GETROUTE = 26"
definition NLM_F_MULTI :: nat where "NLM_F_MULTI = 2"
definition NLM_F_DUMP :: "u32" where "NLM_F_DUMP = 0x300"
definition IFLA_ADDRESS :: nat where "IFLA_ADDRESS = 1"
definition IFLA_BROADCAST :: nat where "IFLA_BROADCAST = 2"
definition IFLA_IFNAME :: nat where "IFLA_IFNAME = 3"
definition IFLA_MTU :: nat where "IFLA_MTU = 4"
definition IFLA_TXQLEN :: nat where "IFLA_TXQLEN = 13"
definition IFLA_OPERSTATE :: nat where "IFLA_OPERSTATE = 16"
definition IFA_ADDRESS :: nat where "IFA_ADDRESS = 1"
definition IFA_LOCAL :: nat where "IFA_LOCAL = 2"
definition IFA_LABEL :: nat where "IFA_LABEL = 3"
definition IFF_UP :: u32 where "IFF_UP = 0x1"
definition IFF_LOOPBACK :: u32 where "IFF_LOOPBACK = 0x8"
definition IFF_RUNNING :: u32 where "IFF_RUNNING = 0x40"
definition IFF_LOWER_UP :: u32 where "IFF_LOWER_UP = 0x10000"
definition ARPHRD_ETHER :: nat where "ARPHRD_ETHER = 1"
definition ARPHRD_LOOPBACK :: nat where "ARPHRD_LOOPBACK = 772"
definition AF_UNSPEC :: nat where "AF_UNSPEC = 0"
definition AF_UNIX :: nat where "AF_UNIX = 1"
definition AF_INET :: nat where "AF_INET = 2"
definition AF_INET6 :: nat where "AF_INET6 = 10"
definition AF_NETLINK :: nat where "AF_NETLINK = 16"
definition RT_SCOPE_UNIVERSE :: nat where "RT_SCOPE_UNIVERSE = 0"
definition RT_SCOPE_LINK :: nat where "RT_SCOPE_LINK = 253"
definition RT_SCOPE_HOST :: nat where "RT_SCOPE_HOST = 254"
definition IFNAMSIZ :: nat where "IFNAMSIZ = 16"

definition MAX_FAKE_NETLINK_FDS :: nat where "MAX_FAKE_NETLINK_FDS = 8"
definition MAX_FAKE_NETLINK_REPLY :: nat where "MAX_FAKE_NETLINK_REPLY = 8192"
definition MAX_NETLINK_ROUTE_FDS :: nat where "MAX_NETLINK_ROUTE_FDS = 8"

lemmas netlink_constants = NLMSG_HDRLEN_def NLMSG_ERROR_def NLMSG_DONE_def RTM_BASE_def RTM_NEWLINK_def RTM_GETLINK_def
  RTM_NEWADDR_def RTM_GETADDR_def RTM_GETROUTE_def NLM_F_MULTI_def MAX_FAKE_NETLINK_REPLY_def

definition align4 :: "nat \<Rightarrow> nat" where "align4 n = (n + 3) div 4 * 4"

text \<open>\<open>NLMSG_ALIGN\<close> of a value of 32 bits is computed with 32 bits.\<close>

definition align4_u32 :: "nat \<Rightarrow> nat" where "align4_u32 n = (n + 3) mod 2 ^ 32 div 4 * 4"

text \<open>An unsigned number of \<open>n\<close> bytes at an offset, and a signed one of four.\<close>

definition field :: "nat \<Rightarrow> byte list \<Rightarrow> nat \<Rightarrow> nat" where
  "field n bs off = le_value (take n (drop off bs))"

definition int_field :: "byte list \<Rightarrow> nat \<Rightarrow> int" where
  "int_field bs off = sint (of_nat (field 4 bs off) :: u32)"

definition int_bytes :: "int \<Rightarrow> byte list" where
  "int_bytes i = le_bytes 4 (unat (word_of_int i :: u32))"

section \<open>State\<close>

text \<open>\<open>fs_reply\<close> holds what the buffer of a socket has of a reply (\<open>reply_len\<close> is its length).\<close>

record fake_socket =
  fs_fd :: int
  fs_reply :: "byte list"
  fs_off :: nat

record netlink =
  fake_fds :: "fake_socket list"
  pending_fake :: bool
  route_fds :: "int list"
  pending_real :: bool
  ack_pending :: bool
  ack_fd :: int
  ack_seq :: nat
  fake_netns :: bool
  probed :: "bool option"

text \<open>What the host says about its interfaces. \<open>route_dump\<close> lists the datagrams that answer a request for the routes;
  \<open>stale\<close> is what the receive buffer held before.\<close>

datatype if_address = No_address | Packet int nat "byte list" | Inet "byte list" | Inet6 "byte list" | Other_family nat

record ifaddr =
  ifa_name :: "string option"
  ifa_flags :: u32
  ifa_addr :: if_address
  ifa_netmask :: "byte list option"

record net_env =
  ifaddrs :: "ifaddr list option"
  name_index :: "string \<Rightarrow> u32"
  inet_socket :: bool
  if_mtu :: "string \<Rightarrow> u32 option"
  if_hwaddr :: "string \<Rightarrow> (nat \<times> byte list) option"
  route_socket :: bool
  route_dump :: "byte list \<Rightarrow> byte list list"
  stale :: "byte list"
  rtm_max :: nat
  android :: bool
  probe_socket :: bool
  probe_bind :: bool
  probe_send :: "errno option"

section \<open>The sockets of a tracee\<close>

text \<open>The host is probed once: \<open>probed\<close>, which the tracer keeps for all tracees, remembers whether it refused.\<close>

definition host_blocks_af_netlink :: "net_env \<Rightarrow> netlink \<Rightarrow> bool \<times> netlink" where
  "host_blocks_af_netlink E n =
     (if android E then (True, n)
      else (case probed n of Some blocked \<Rightarrow> (blocked, n)
        | None \<Rightarrow>
           (let blocked = (\<not> probe_socket E \<or> \<not> probe_bind E \<or> probe_send E = Some EACCES \<or> probe_send E = Some EPERM)
            in (blocked, n\<lparr>probed := Some blocked\<rparr>))))"

definition fake_netlink_socket :: "netlink \<Rightarrow> int \<Rightarrow> fake_socket option" where
  "fake_netlink_socket n fd = (if fd < 0 then None else List.find (\<lambda>s. fs_fd s = fd) (fake_fds n))"

definition is_fake_netlink_fd :: "netlink \<Rightarrow> int \<Rightarrow> bool" where
  "is_fake_netlink_fd n fd \<longleftrightarrow> fake_netlink_socket n fd \<noteq> None"

text \<open>The last element takes the place of the first one that satisfies \<open>P\<close>.\<close>

fun swap_out :: "('a \<Rightarrow> bool) \<Rightarrow> 'a list \<Rightarrow> 'a list" where
  "swap_out P [] = []"
| "swap_out P (x # xs) = (if P x then (if xs = [] then [] else last xs # butlast xs) else x # swap_out P xs)"

definition unmark_fake_netlink_fd :: "int \<Rightarrow> netlink \<Rightarrow> netlink" where
  "unmark_fake_netlink_fd fd n = (if fd < 0 then n else n\<lparr>fake_fds := swap_out (\<lambda>s. fs_fd s = fd) (fake_fds n)\<rparr>)"

text \<open>A change of the first socket with a descriptor.\<close>

fun update_first :: "('a \<Rightarrow> bool) \<Rightarrow> 'a \<Rightarrow> 'a list \<Rightarrow> 'a list" where
  "update_first P y [] = []"
| "update_first P y (x # xs) = (if P x then y # xs else x # update_first P y xs)"

definition set_socket :: "fake_socket \<Rightarrow> netlink \<Rightarrow> netlink" where
  "set_socket s n = n\<lparr>fake_fds := update_first (\<lambda>x. fs_fd x = fs_fd s) s (fake_fds n)\<rparr>"

definition is_netlink_route_fd :: "netlink \<Rightarrow> int \<Rightarrow> bool" where
  "is_netlink_route_fd n fd \<longleftrightarrow> 0 \<le> fd \<and> fd \<in> set (route_fds n)"

definition unmark_netlink_route_fd :: "int \<Rightarrow> netlink \<Rightarrow> netlink" where
  "unmark_netlink_route_fd fd n =
     n\<lparr>route_fds := swap_out (\<lambda>x. x = fd) (route_fds n),
       ack_pending := (ack_pending n \<and> ack_fd n \<noteq> fd)\<rparr>"

section \<open>Messages\<close>

definition nl_header :: "nat \<Rightarrow> nat \<Rightarrow> nat \<Rightarrow> nat \<Rightarrow> nat \<Rightarrow> byte list" where
  "nl_header len type flags seq pid = le_bytes 4 len @ le_bytes 2 type @ le_bytes 2 flags @ le_bytes 4 seq @ le_bytes 4 pid"

definition nl_add_attr :: "nat \<Rightarrow> nat \<Rightarrow> nat \<Rightarrow> byte list \<Rightarrow> byte list \<Rightarrow> byte list" where
  "nl_add_attr off cap type data body =
     (let dlen = length data mod 65536;
          space = align4 (4 + dlen)
      in if off + length body + space > cap then body
         else body @ le_bytes 2 (4 + dlen) @ le_bytes 2 type @ take dlen data @ replicate (space - (4 + dlen)) 0)"

definition nl_add_attrs :: "nat \<Rightarrow> nat \<Rightarrow> (nat \<times> byte list) list \<Rightarrow> byte list \<Rightarrow> byte list" where
  "nl_add_attrs off cap attrs body = fold (\<lambda>(type, data). nl_add_attr off cap type data) attrs body"

text \<open>A message is its header and its body; \<open>off\<close> is where the body begins in the reply.\<close>

definition nl_finish :: "byte list \<Rightarrow> nat \<Rightarrow> nat \<Rightarrow> nat \<Rightarrow> nat \<Rightarrow> byte list \<Rightarrow> byte list" where
  "nl_finish out type flags seq pid body = out @ nl_header (NLMSG_HDRLEN + length body) type flags seq pid @ body"

definition nl_build_link ::
  "nat \<Rightarrow> nat \<Rightarrow> nat \<Rightarrow> nat \<Rightarrow> int \<Rightarrow> nat \<Rightarrow> u32 \<Rightarrow> u32 \<Rightarrow> string \<Rightarrow> byte list \<Rightarrow> byte list \<Rightarrow> byte list" where
  "nl_build_link cap seq pid nlflags ifindex iftype ifflags mtu name hwaddr out =
     (let off = length out + NLMSG_HDRLEN in
      if off + 16 > cap then out
      else
        let ifi = [0, 0] @ le_bytes 2 iftype @ int_bytes ifindex
              @ le_bytes 4 (unat (ifflags OR (if ifflags AND IFF_RUNNING \<noteq> 0 then IFF_LOWER_UP else 0))) @ le_bytes 4 0;
            attrs = [(IFLA_IFNAME, bytes_of name @ [0]), (IFLA_MTU, le_bytes 4 (unat mtu)), (IFLA_TXQLEN, le_bytes 4 1000),
                (IFLA_OPERSTATE, [if ifflags AND IFF_UP \<noteq> 0 then 6 else 2])]
              @ (if hwaddr = [] then []
                 else [(IFLA_ADDRESS, hwaddr), (IFLA_BROADCAST, replicate (length hwaddr) (if iftype = ARPHRD_LOOPBACK then 0 else 0xff))])
        in nl_finish out RTM_NEWLINK nlflags seq pid (nl_add_attrs off cap attrs ifi))"

definition nl_build_addr ::
  "nat \<Rightarrow> nat \<Rightarrow> nat \<Rightarrow> nat \<Rightarrow> nat \<Rightarrow> int \<Rightarrow> byte list \<Rightarrow> nat \<Rightarrow> nat \<Rightarrow> string option \<Rightarrow> byte list \<Rightarrow> byte list" where
  "nl_build_addr cap seq pid nlflags family ifindex addr prefixlen scope label out =
     (let off = length out + NLMSG_HDRLEN in
      if off + 8 > cap then out
      else
        let ifa = le_bytes 1 family @ le_bytes 1 prefixlen @ [0x80] @ le_bytes 1 scope @ int_bytes ifindex;
            attrs = [(IFA_ADDRESS, addr), (IFA_LOCAL, addr)]
              @ (case label of Some l \<Rightarrow> if family = AF_INET then [(IFA_LABEL, bytes_of l @ [0])] else [] | None \<Rightarrow> [])
        in nl_finish out RTM_NEWADDR nlflags seq pid (nl_add_attrs off cap attrs ifa))"

definition nl_build_done :: "nat \<Rightarrow> nat \<Rightarrow> nat \<Rightarrow> byte list \<Rightarrow> byte list" where
  "nl_build_done cap seq pid out =
     (if length out + (NLMSG_HDRLEN + 4) > cap then out
      else nl_finish out NLMSG_DONE NLM_F_MULTI seq pid (int_bytes 0))"

definition nl_build_error :: "nat \<Rightarrow> nat \<Rightarrow> nat \<Rightarrow> int \<Rightarrow> byte list \<Rightarrow> byte list" where
  "nl_build_error cap seq pid error out =
     (if length out + (NLMSG_HDRLEN + 20) > cap then out
      else nl_finish out NLMSG_ERROR 0 seq pid (int_bytes error @ replicate 16 0))"

definition nl_build_loopback_link :: "nat \<Rightarrow> nat \<Rightarrow> nat \<Rightarrow> nat \<Rightarrow> byte list \<Rightarrow> byte list" where
  "nl_build_loopback_link cap seq pid nlflags out =
     nl_build_link cap seq pid nlflags 1 ARPHRD_LOOPBACK (IFF_UP OR IFF_LOOPBACK OR IFF_RUNNING) 65536 ''lo'' (replicate 6 0) out"

definition nl_build_loopback_addr :: "nat \<Rightarrow> nat \<Rightarrow> nat \<Rightarrow> nat \<Rightarrow> nat \<Rightarrow> byte list \<Rightarrow> byte list" where
  "nl_build_loopback_addr cap seq pid family nlflags out =
     (if family = AF_INET6
      then nl_build_addr cap seq pid nlflags AF_INET6 1 (replicate 15 0 @ [1]) 128 RT_SCOPE_HOST None out
      else nl_build_addr cap seq pid nlflags AF_INET 1 [127, 0, 0, 1] 8 RT_SCOPE_HOST (Some ''lo'') out)"

section \<open>Requests\<close>

text \<open>The last interface name among the attributes, cut to fifteen characters.\<close>

function request_name :: "byte list \<Rightarrow> nat \<Rightarrow> string option \<Rightarrow> string option" where
  "request_name req off name =
     (if off + 4 \<le> length req then
        let rlen = field 2 req off in
        if rlen < 4 \<or> off + rlen > length req then name
        else
          let dlen = rlen - 4;
              cpy = (if dlen < IFNAMSIZ then dlen else IFNAMSIZ - 1);
              name = (if field 2 req (off + 2) = IFLA_IFNAME then Some (c_str (string_of (take cpy (drop (off + 4) req)))) else name)
          in request_name req (off + align4 rlen) name
      else name)"
  by pat_completeness auto
termination by (relation "measure (\<lambda>(req, off, name). length req - off)") (auto simp: align4_def)

declare request_name.simps [simp del]

definition nl_request_is_loopback :: "byte list \<Rightarrow> bool" where
  "nl_request_is_loopback req =
     (if length req < NLMSG_HDRLEN + 16 then True
      else (case request_name req (NLMSG_HDRLEN + 16) None of
          Some name \<Rightarrow> name = ''lo''
        | None \<Rightarrow> int_field req (NLMSG_HDRLEN + 4) \<in> {0, 1}))"

text \<open>The name that is asked for (empty: none) and the index.\<close>

definition nl_request_link_target :: "byte list \<Rightarrow> string \<times> int" where
  "nl_request_link_target req =
     (if length req < NLMSG_HDRLEN + 16 then ([], 0)
      else (case request_name req (NLMSG_HDRLEN + 16) None of None \<Rightarrow> [] | Some name \<Rightarrow> name,
            int_field req (NLMSG_HDRLEN + 4)))"

section \<open>Interfaces of the host\<close>

fun leading_ones :: "nat \<Rightarrow> byte \<Rightarrow> nat" where
  "leading_ones 0 b = 0"
| "leading_ones (Suc n) b = (if b AND 0x80 \<noteq> 0 then Suc (leading_ones n (push_bit 1 b)) else 0)"

fun nl_prefixlen :: "byte list \<Rightarrow> nat" where
  "nl_prefixlen [] = 0"
| "nl_prefixlen (b # bs) = (if b = 0xff then 8 + nl_prefixlen bs else leading_ones 8 b)"

definition byte_at :: "byte list \<Rightarrow> nat \<Rightarrow> byte" where
  "byte_at bs i = (if i < length bs then bs ! i else 0)"

definition nl_addr_scope :: "nat \<Rightarrow> byte list \<Rightarrow> nat" where
  "nl_addr_scope family addr =
     (if family = AF_INET then
        (if byte_at addr 0 = 127 then RT_SCOPE_HOST
         else if byte_at addr 0 = 169 \<and> byte_at addr 1 = 254 then RT_SCOPE_LINK
         else RT_SCOPE_UNIVERSE)
      else if addr = replicate 15 0 @ [1] then RT_SCOPE_HOST
      else if byte_at addr 0 = 0xfe \<and> byte_at addr 1 AND 0xc0 = 0x80 then RT_SCOPE_LINK
      else RT_SCOPE_UNIVERSE)"

text \<open>The type, the maximal transmission unit, the address and the index of an interface.\<close>

definition interface_of :: "net_env \<Rightarrow> string \<Rightarrow> ifaddr \<Rightarrow> int \<times> nat \<times> u32 \<times> byte list" where
  "interface_of E name a =
     (let loop = (ifa_flags a AND IFF_LOOPBACK \<noteq> 0);
          index = sint (name_index E name);
          (index, iftype, hw) = (case ifa_addr a of
              Packet i hatype hwaddr \<Rightarrow>
                (if i \<noteq> 0 then i else index, hatype, if 0 < length hwaddr \<and> length hwaddr \<le> 8 then hwaddr else [])
            | _ \<Rightarrow> (index, if loop then ARPHRD_LOOPBACK else ARPHRD_ETHER, []));
          ifr = take (IFNAMSIZ - 1) name;
          mtu = (case (if inet_socket E then if_mtu E ifr else None) of Some v \<Rightarrow> v | None \<Rightarrow> if loop then 65536 else 1500)
      in (case (if inet_socket E \<and> hw = [] then if_hwaddr E ifr else None) of
            Some (t, addr) \<Rightarrow> (index, t, mtu, take 6 addr)
          | None \<Rightarrow> (index, iftype, mtu, hw)))"

fun host_links ::
  "net_env \<Rightarrow> nat \<Rightarrow> nat \<Rightarrow> nat \<Rightarrow> string \<Rightarrow> int \<Rightarrow> bool \<Rightarrow> ifaddr list \<Rightarrow> string list \<Rightarrow> byte list \<times> nat \<Rightarrow> byte list \<times> nat" where
  "host_links E cap seq pid want_name want_index dump [] seen (out, built) = (out, built)"
| "host_links E cap seq pid want_name want_index dump (a # rest) seen (out, built) =
     (case ifa_name a of None \<Rightarrow> host_links E cap seq pid want_name want_index dump rest seen (out, built)
      | Some name \<Rightarrow>
         if take IFNAMSIZ name \<in> set seen then host_links E cap seq pid want_name want_index dump rest seen (out, built)
         else
           let seen = (if length seen < 64 then seen @ [take (IFNAMSIZ - 1) name] else seen);
               (index, iftype, mtu, hw) = interface_of E name a
           in if \<not> dump \<and> (if want_name \<noteq> [] then want_name \<noteq> name else 0 < want_index \<and> index \<noteq> want_index)
              then host_links E cap seq pid want_name want_index dump rest seen (out, built)
              else if length out + 256 > cap then (out, built)
              else
                let out = nl_build_link cap seq pid (if dump then NLM_F_MULTI else 0) index iftype (ifa_flags a) mtu name hw out
                in if dump then host_links E cap seq pid want_name want_index dump rest seen (out, built + 1) else (out, built + 1))"

definition build_host_links :: "net_env \<Rightarrow> nat \<Rightarrow> nat \<Rightarrow> nat \<Rightarrow> string \<Rightarrow> int \<Rightarrow> bool \<Rightarrow> byte list \<times> nat" where
  "build_host_links E cap seq pid want_name want_index dump =
     (case ifaddrs E of None \<Rightarrow> ([], 0)
      | Some l \<Rightarrow> host_links E cap seq pid want_name want_index dump l [] ([], 0))"

definition inet_address :: "if_address \<Rightarrow> (nat \<times> byte list) option" where
  "inet_address a = (case a of Inet b \<Rightarrow> Some (AF_INET, b) | Inet6 b \<Rightarrow> Some (AF_INET6, b) | _ \<Rightarrow> None)"

fun host_addrs :: "net_env \<Rightarrow> nat \<Rightarrow> nat \<Rightarrow> nat \<Rightarrow> nat \<Rightarrow> bool \<Rightarrow> ifaddr list \<Rightarrow> byte list \<times> nat \<Rightarrow> byte list \<times> nat" where
  "host_addrs E cap seq pid want_family dump [] (out, built) = (out, built)"
| "host_addrs E cap seq pid want_family dump (a # rest) (out, built) =
     (case (ifa_name a, inet_address (ifa_addr a)) of
        (Some name, Some (family, addr)) \<Rightarrow>
          if want_family \<noteq> AF_UNSPEC \<and> family \<noteq> want_family then host_addrs E cap seq pid want_family dump rest (out, built)
          else
            let prefixlen = (case ifa_netmask a of Some bits \<Rightarrow> nl_prefixlen bits | None \<Rightarrow> if family = AF_INET then 32 else 128)
            in if length out + 256 > cap then (out, built)
               else host_addrs E cap seq pid want_family dump rest
                      (nl_build_addr cap seq pid (if dump then NLM_F_MULTI else 0) family (sint (name_index E name)) addr
                         prefixlen (nl_addr_scope family addr) (Some name) out, built + 1)
      | _ \<Rightarrow> host_addrs E cap seq pid want_family dump rest (out, built))"

definition build_host_addrs :: "net_env \<Rightarrow> nat \<Rightarrow> nat \<Rightarrow> nat \<Rightarrow> nat \<Rightarrow> bool \<Rightarrow> byte list \<times> nat" where
  "build_host_addrs E cap seq pid want_family dump =
     (case ifaddrs E of None \<Rightarrow> ([], 0) | Some l \<Rightarrow> host_addrs E cap seq pid want_family dump l ([], 0))"

section \<open>Routes\<close>

text \<open>
  The messages of a datagram, copied with the numbers of the request. \<open>len\<close> is what \<open>NLMSG_NEXT\<close> leaves: it wraps around when the
  last message is not padded, and then what follows the datagram in the buffer is read. The result says whether to stop, and whether
  the last message was the end of the dump. Reading beyond the buffer is \<open>Inl Crash\<close>.
\<close>

function relay_messages :: "nat \<Rightarrow> nat \<Rightarrow> nat \<Rightarrow> byte list \<Rightarrow> nat \<Rightarrow> nat \<Rightarrow> byte list \<Rightarrow> (byte list \<times> bool \<times> bool) res" where
  "relay_messages cap seq pid buf p len out =
     (if len < NLMSG_HDRLEN then Inr (out, False, False)
      else if p + NLMSG_HDRLEN > length buf then Inl Crash
      else
        let mlen = field 4 buf p; aligned = align4 mlen in
        if mlen < NLMSG_HDRLEN \<or> mlen > len then Inr (out, False, False)
        else if length out + aligned + 64 > cap then Inr (out, True, False)
        else if p + mlen > length buf then Inl Crash
        else
          let out = out @ take 8 (drop p buf) @ le_bytes 4 seq @ le_bytes 4 pid
                @ take (mlen - NLMSG_HDRLEN) (drop (p + NLMSG_HDRLEN) buf) @ replicate (aligned - mlen) 0
          in if field 2 buf (p + 4) = NLMSG_DONE then Inr (out, True, True)
             else relay_messages cap seq pid buf (p + aligned) ((len + 2 ^ 64 - aligned) mod 2 ^ 64) out)"
  by pat_completeness auto
termination
  by (relation "measure (\<lambda>(cap, seq, pid, buf, p, len, out). length buf - p)") (auto simp: align4_def NLMSG_HDRLEN_def)

declare relay_messages.simps [simp del]

fun relay_rounds :: "net_env \<Rightarrow> nat \<Rightarrow> nat \<Rightarrow> nat \<Rightarrow> nat \<Rightarrow> byte list list \<Rightarrow> byte list \<Rightarrow> (byte list \<times> bool) res" where
  "relay_rounds E cap seq pid 0 ds out = Inr (out, False)"
| "relay_rounds E cap seq pid (Suc n) [] out = Inr (out, False)"
| "relay_rounds E cap seq pid (Suc n) (d # ds) out =
     (let d = take 8192 d in
      if d = [] then Inr (out, False)
      else (case relay_messages cap seq pid (d @ drop (length d) (stale E)) 0 (length d) out of
          Inl e \<Rightarrow> Inl e
        | Inr (out, stop, saw_done) \<Rightarrow>
            if stop then Inr (out, saw_done) else relay_rounds E cap seq pid n ds out))"

definition relay_route_dump :: "net_env \<Rightarrow> nat \<Rightarrow> nat \<Rightarrow> nat \<Rightarrow> byte list \<Rightarrow> byte list res" where
  "relay_route_dump E cap seq pid req =
     (if \<not> route_socket E then Inr []
      else
        let family = (if length req > NLMSG_HDRLEN then byte_at req NLMSG_HDRLEN else 0);
            dreq = nl_header 28 RTM_GETROUTE 0x301 seq 0 @ family # replicate 11 0
        in (case relay_rounds E cap seq pid 64 (route_dump E dreq) [] of
              Inl e \<Rightarrow> Inl e
            | Inr (out, saw_done) \<Rightarrow>
                Inr (if out = [] \<or> saw_done then out else nl_build_done cap seq pid out)))"

section \<open>Replies\<close>

definition link_reply :: "net_env \<Rightarrow> nat \<Rightarrow> nat \<Rightarrow> nat \<Rightarrow> bool \<Rightarrow> byte list \<Rightarrow> byte list" where
  "link_reply E cap seq pid dump req =
     (let (want_name, want_index) = nl_request_link_target req;
          (out, n) = build_host_links E cap seq pid (if dump then [] else want_name) (if dump then 0 else want_index) dump;
          out = (if n \<noteq> 0 then out
            else if dump then nl_build_loopback_link cap seq pid NLM_F_MULTI []
            else if nl_request_is_loopback req then nl_build_loopback_link cap seq pid 0 []
            else nl_build_error cap seq pid (- errno_num ENODEV) [])
      in if dump then nl_build_done cap seq pid out else out)"

definition addr_reply :: "net_env \<Rightarrow> nat \<Rightarrow> nat \<Rightarrow> nat \<Rightarrow> bool \<Rightarrow> byte list \<Rightarrow> byte list" where
  "addr_reply E cap seq pid dump req =
     (let family = (if length req > NLMSG_HDRLEN then unat (byte_at req NLMSG_HDRLEN) else 0);
          want_family = (if family = AF_INET \<or> family = AF_INET6 then family else AF_UNSPEC);
          flags = (if dump then NLM_F_MULTI else 0);
          (out, n) = build_host_addrs E cap seq pid want_family dump;
          out = (if n \<noteq> 0 then out
            else
              let out = (if family = 0 \<or> family = AF_INET then nl_build_loopback_addr cap seq pid AF_INET flags [] else [])
              in if family = 0 \<or> family = AF_INET6 then nl_build_loopback_addr cap seq pid AF_INET6 flags out else out)
      in if dump then nl_build_done cap seq pid out else out)"

definition route_reply :: "net_env \<Rightarrow> nat \<Rightarrow> nat \<Rightarrow> nat \<Rightarrow> bool \<Rightarrow> byte list \<Rightarrow> byte list res" where
  "route_reply E cap seq pid dump req =
     (if dump then
        (case relay_route_dump E cap seq pid req of Inl e \<Rightarrow> Inl e
         | Inr out \<Rightarrow> Inr (if out = [] then nl_build_done cap seq pid [] else out))
      else Inr (nl_build_error cap seq pid 0 []))"

text \<open>A request that cannot be read has the number 0 and no reply but an error.\<close>

definition read_request :: "memory \<Rightarrow> word_t \<Rightarrow> word_t \<Rightarrow> byte list res" where
  "read_request m buf_addr buf_len =
     (if buf_addr = 0 \<or> unat buf_len < NLMSG_HDRLEN then Inl EINVAL else read_data m buf_addr (min (unat buf_len) 256))"

definition request_dump :: "byte list \<Rightarrow> bool" where
  "request_dump req \<longleftrightarrow> of_nat (field 2 req 6) AND NLM_F_DUMP = NLM_F_DUMP"

definition netlink_reply :: "net_env \<Rightarrow> nat \<Rightarrow> memory \<Rightarrow> word_t \<Rightarrow> word_t \<Rightarrow> byte list res" where
  "netlink_reply E pid m buf_addr buf_len =
     (let cap = MAX_FAKE_NETLINK_REPLY in
      case read_request m buf_addr buf_len of
        Inl e \<Rightarrow> Inr (nl_build_error cap 0 pid (- errno_num EINVAL) [])
      | Inr req \<Rightarrow>
          (let type = field 2 req 4;
               dump = request_dump req;
               seq = field 4 req 8
           in case (if type = RTM_GETLINK then Inr (link_reply E cap seq pid dump req)
                else if type = RTM_GETADDR then Inr (addr_reply E cap seq pid dump req)
                else if type = RTM_GETROUTE then route_reply E cap seq pid dump req
                else Inr (if dump then nl_build_done cap seq pid [] else nl_build_error cap seq pid 0 [])) of
             Inl e \<Rightarrow> Inl e
           | Inr out \<Rightarrow> Inr (if out = [] then nl_build_error cap seq pid (- errno_num EINVAL) [] else out)))"

definition build_fake_netlink_reply ::
  "net_env \<Rightarrow> nat \<Rightarrow> memory \<Rightarrow> word_t \<Rightarrow> word_t \<Rightarrow> fake_socket \<Rightarrow> fake_socket res" where
  "build_fake_netlink_reply E pid m buf_addr buf_len s =
     (case netlink_reply E pid m buf_addr buf_len of Inl e \<Rightarrow> Inl e
      | Inr out \<Rightarrow> Inr (s\<lparr>fs_reply := out, fs_off := 0\<rparr>))"

section \<open>Datagrams\<close>

function datagram_end :: "byte list \<Rightarrow> nat \<Rightarrow> nat" where
  "datagram_end reply off =
     (if off + NLMSG_HDRLEN \<le> length reply then
        let mlen = field 4 reply off in
        if mlen < NLMSG_HDRLEN \<or> off + mlen > length reply then off
        else if field 2 reply (off + 4) = NLMSG_DONE then off
        else datagram_end reply (off + align4 mlen)
      else off)"
  by pat_completeness auto
termination by (relation "measure (\<lambda>(reply, off). length reply - off)") (auto simp: align4_def NLMSG_HDRLEN_def)

declare datagram_end.simps [simp del]

definition fake_netlink_datagram_len :: "byte list \<Rightarrow> nat" where
  "fake_netlink_datagram_len reply =
     (let off = datagram_end reply 0 in if off = 0 \<or> off > length reply then length reply else off)"

definition pending_fake_netlink_datagram :: "fake_socket \<Rightarrow> byte list" where
  "pending_fake_netlink_datagram s =
     (if fs_reply s = [] then []
      else take (fake_netlink_datagram_len (drop (fs_off s) (fs_reply s))) (drop (fs_off s) (fs_reply s)))"

definition consume_fake_netlink_datagram :: "nat \<Rightarrow> fake_socket \<Rightarrow> fake_socket" where
  "consume_fake_netlink_datagram k s =
     (if fs_off s + k \<ge> length (fs_reply s) then s\<lparr>fs_reply := [], fs_off := 0\<rparr> else s\<lparr>fs_off := fs_off s + k\<rparr>)"

section \<open>Memory of the tracee\<close>

text \<open>What \<open>peek_word\<close> returns: minus one when it fails.\<close>

definition peek_value :: "memory \<Rightarrow> word_t \<Rightarrow> word_t" where
  "peek_value m a = (case peek_word m a of Inl e \<Rightarrow> - 1 | Inr v \<Rightarrow> v)"

definition peek_ok :: "memory \<Rightarrow> word_t \<Rightarrow> bool" where
  "peek_ok m a = (case peek_word m a of Inl e \<Rightarrow> False | Inr v \<Rightarrow> True)"

text \<open>What \<open>peek_word\<close> returns, and 0 when it fails.\<close>

definition peek_or_zero :: "memory \<Rightarrow> word_t \<Rightarrow> word_t" where
  "peek_or_zero m a = (case peek_word m a of Inl e \<Rightarrow> 0 | Inr v \<Rightarrow> v)"

definition peek_uint32 :: "memory \<Rightarrow> word_t \<Rightarrow> nat res" where
  "peek_uint32 m a = (case read_data m a 4 of Inl e \<Rightarrow> Inl e | Inr bs \<Rightarrow> Inr (le_value bs))"

definition poke_uint32 :: "word_t \<Rightarrow> nat \<Rightarrow> memory \<Rightarrow> errno option \<times> memory" where
  "poke_uint32 a v m = write_data m a (le_bytes 4 v)"

text \<open>The first buffer of a message: its address and length. A length that cannot be read is minus one.\<close>

definition msghdr_first_iovec :: "memory \<Rightarrow> word_t \<Rightarrow> (word_t \<times> word_t) option" where
  "msghdr_first_iovec m msghdr =
     (if msghdr = 0 then None
      else
        let iov_ptr = peek_value m (msghdr + 16);
            iov_count = (if peek_ok m (msghdr + 16) then peek_value m (msghdr + 24) else 0)
        in if iov_ptr = 0 \<or> iov_count = 0 then None
           else Some (peek_value m iov_ptr, if peek_ok m iov_ptr then peek_value m (iov_ptr + 8) else 0))"

text \<open>A \<open>sockaddr_nl\<close>: the family, two bytes, the port and the groups.\<close>

definition sockaddr_nl :: "nat \<Rightarrow> byte list" where
  "sockaddr_nl pid = le_bytes 2 AF_NETLINK @ [0, 0] @ le_bytes 4 pid @ le_bytes 4 0"

definition write_fake_netlink_sockname :: "word_t \<Rightarrow> word_t \<Rightarrow> nat \<Rightarrow> memory \<Rightarrow> errno option \<times> memory" where
  "write_fake_netlink_sockname addr_ptr size_ptr pid m =
     (if size_ptr = 0 then (Some EINVAL, m)
      else (case peek_uint32 m size_ptr of Inl e \<Rightarrow> (Some e, m)
        | Inr n \<Rightarrow>
           (case (if addr_ptr \<noteq> 0 \<and> 0 < n then write_data m addr_ptr (take n (sockaddr_nl pid)) else (None, m)) of
              (Some e, m) \<Rightarrow> (Some EFAULT, m)
            | (None, m) \<Rightarrow> poke_uint32 size_ptr 12 m)))"

text \<open>The buffers of a message are filled in their order; a buffer at address 0 is counted but not written. \<open>n\<close> is the number of
  buffers that are left, which the tracee gave and nothing bounds.\<close>

fun scatter :: "nat \<Rightarrow> word_t \<Rightarrow> byte list \<Rightarrow> nat \<Rightarrow> memory \<Rightarrow> nat \<times> memory" where
  "scatter 0 iov reply filled m = (filled, m)"
| "scatter (Suc n) iov reply filled m =
     (if filled < length reply then
        let base = peek_value m iov;
            len = (if peek_ok m iov then peek_value m (iov + 8) else 0);
            chunk = min (length reply - filled) (unat len)
        in (case (if base \<noteq> 0 \<and> 0 < chunk then write_data m base (take chunk (drop filled reply)) else (None, m)) of
              (Some e, m) \<Rightarrow> (filled, m)
            | (None, m) \<Rightarrow> scatter n (iov + 16) reply (filled + chunk) m)
      else (filled, m))"

definition scatter_fake_netlink_reply :: "word_t \<Rightarrow> word_t \<Rightarrow> byte list \<Rightarrow> memory \<Rightarrow> nat \<times> memory" where
  "scatter_fake_netlink_reply iov_ptr iov_count reply m = scatter (unat iov_count) iov_ptr reply 0 m"

section \<open>System calls\<close>

text \<open>The emulation is part of the tracee; \<open>fst\<close> of the rest are its registers.\<close>

type_synonym nl_state = "netlink \<times> thread \<times> memory"

definition fd_arg :: "reg_version \<Rightarrow> reg \<Rightarrow> thread \<Rightarrow> int" where
  "fd_arg v r t = sint (ucast (peek_reg v r t) :: u32)"

text \<open>The call is not made, and has a result.\<close>

definition void_call :: "word_t \<Rightarrow> thread \<Rightarrow> thread" where
  "void_call v t = set_sysnum PR_void (poke_reg SYSARG_RESULT v t)"

definition SOCK_DGRAM :: word_t where "SOCK_DGRAM = 2"
definition SOCK_CLOEXEC :: word_t where "SOCK_CLOEXEC = 0x80000"
definition MSG_PEEK :: u32 where "MSG_PEEK = 2"
definition MSG_TRUNC :: u32 where "MSG_TRUNC = 0x20"

definition socket_enter :: "net_env \<Rightarrow> nl_state \<Rightarrow> nl_state" where
  "socket_enter E = (\<lambda>(n, t, m).
     (if peek_reg CURRENT SYSARG_1 t = of_nat AF_NETLINK \<and> peek_reg CURRENT SYSARG_3 t = 0 then
        let (blocked, n) = host_blocks_af_netlink E n;
            (n, t) = (if blocked then
                (n\<lparr>pending_fake := True\<rparr>,
                 poke_regs [(SYSARG_1, of_nat AF_UNIX), (SYSARG_2, SOCK_DGRAM OR (peek_reg CURRENT SYSARG_2 t AND SOCK_CLOEXEC)),
                    (SYSARG_3, 0)] t)
              else (n\<lparr>pending_real := True\<rparr>, t))
        in (n, t\<lparr>sysexit_pending := True, restart_how := PTRACE_SYSCALL\<rparr>, m)
      else (n, t, m)))"

definition socket_exit :: "nl_state \<Rightarrow> nl_state" where
  "socket_exit = (\<lambda>(n, t, m).
     let fd = fd_arg CURRENT SYSARG_RESULT t;
         n = (if pending_fake n then
             (if 0 \<le> fd \<and> length (fake_fds n) < MAX_FAKE_NETLINK_FDS \<and> fd \<notin> fs_fd ` set (fake_fds n)
              then n\<lparr>fake_fds := fake_fds n @ [\<lparr>fs_fd = fd, fs_reply = [], fs_off = 0\<rparr>]\<rparr> else n)\<lparr>pending_fake := False\<rparr> else n);
         n = (if pending_real n then
             (if 0 \<le> fd \<and> length (route_fds n) < MAX_NETLINK_ROUTE_FDS \<and> fd \<notin> set (route_fds n)
              then n\<lparr>route_fds := route_fds n @ [fd]\<rparr> else n)\<lparr>pending_real := False\<rparr> else n)
     in (n, t, m))"

definition netlink_close :: "int \<Rightarrow> netlink \<Rightarrow> netlink" where
  "netlink_close fd n = unmark_netlink_route_fd fd (unmark_fake_netlink_fd fd n)"

text \<open>\<open>bind\<close> of a socket that stands for a netlink socket succeeds; \<open>None\<close>: it is another one.\<close>

definition netlink_bind :: "nl_state \<Rightarrow> nl_state option" where
  "netlink_bind = (\<lambda>(n, t, m).
     if is_fake_netlink_fd n (fd_arg CURRENT SYSARG_1 t) then Some (n, void_call 0 t, m) else None)"

definition neg_errno_opt :: "errno option \<Rightarrow> word_t" where
  "neg_errno_opt e = (case e of None \<Rightarrow> 0 | Some e \<Rightarrow> word_of_int (- errno_num e))"

definition netlink_getsockname :: "nl_state \<Rightarrow> nl_state option" where
  "netlink_getsockname = (\<lambda>(n, t, m).
     if is_fake_netlink_fd n (fd_arg CURRENT SYSARG_1 t) then
       (case write_fake_netlink_sockname (peek_reg CURRENT SYSARG_2 t) (peek_reg CURRENT SYSARG_3 t)
               (unat (word_of_int (th_pid t) :: u32)) m of
          (e, m) \<Rightarrow> Some (n, void_call (neg_errno_opt e) t, m))
     else None)"

text \<open>A request that changes the configuration of a network the tracee believes to be its own.\<close>

definition nl_type_reconfigures :: "net_env \<Rightarrow> nat \<Rightarrow> bool" where
  "nl_type_reconfigures E type \<longleftrightarrow> RTM_BASE \<le> type \<and> type \<le> rtm_max E \<and> (type - RTM_BASE) mod 4 \<noteq> 2"

definition is_netns_netlink_fd :: "netlink \<Rightarrow> int \<Rightarrow> bool" where
  "is_netns_netlink_fd n fd \<longleftrightarrow> fake_netns n \<and> is_netlink_route_fd n fd"

definition note_netns_netlink_request :: "net_env \<Rightarrow> int \<Rightarrow> word_t \<Rightarrow> word_t \<Rightarrow> memory \<Rightarrow> netlink \<Rightarrow> netlink" where
  "note_netns_netlink_request E fd buf_addr buf_len m n =
     (if \<not> is_netns_netlink_fd n fd \<or> buf_addr = 0 \<or> unat buf_len < NLMSG_HDRLEN then n
      else (case read_data m buf_addr NLMSG_HDRLEN of Inl e \<Rightarrow> n
        | Inr hdr \<Rightarrow>
            if nl_type_reconfigures E (field 2 hdr 4)
            then n\<lparr>ack_pending := True, ack_fd := fd, ack_seq := field 4 hdr 8\<rparr> else n))"

definition note_netns_netlink_reply :: "int \<Rightarrow> nl_state \<Rightarrow> nl_state" where
  "note_netns_netlink_reply fd = (\<lambda>(n, t, m).
     if \<not> ack_pending n \<or> ack_fd n \<noteq> fd then (n, t, m)
     else (n, t\<lparr>sysexit_pending := True, restart_how := PTRACE_SYSCALL\<rparr>, m))"

definition sendto_enter :: "net_env \<Rightarrow> nl_state \<Rightarrow> nl_state res" where
  "sendto_enter E = (\<lambda>(n, t, m).
     let fd = fd_arg CURRENT SYSARG_1 t; buf = peek_reg CURRENT SYSARG_2 t; len = peek_reg CURRENT SYSARG_3 t in
     case fake_netlink_socket n fd of
       Some s \<Rightarrow>
         (case build_fake_netlink_reply E (unat (word_of_int (th_pid t) :: u32)) m buf len s of Inl e \<Rightarrow> Inl e
          | Inr s \<Rightarrow> Inr (set_socket s n, void_call len t, m))
     | None \<Rightarrow> Inr (note_netns_netlink_request E fd buf len m n, t, m))"

definition sendmsg_enter :: "net_env \<Rightarrow> nl_state \<Rightarrow> nl_state res" where
  "sendmsg_enter E = (\<lambda>(n, t, m).
     let fd = fd_arg CURRENT SYSARG_1 t; msghdr = peek_reg CURRENT SYSARG_2 t in
     case fake_netlink_socket n fd of
       Some s \<Rightarrow>
         (case msghdr_first_iovec m msghdr of
            None \<Rightarrow> Inr (n, void_call 0 t, m)
          | Some (base, len) \<Rightarrow>
              (case build_fake_netlink_reply E (unat (word_of_int (th_pid t) :: u32)) m base len s of Inl e \<Rightarrow> Inl e
               | Inr s \<Rightarrow> Inr (set_socket s n, void_call len t, m)))
     | None \<Rightarrow>
         Inr (if is_netns_netlink_fd n fd then
             (case msghdr_first_iovec m msghdr of None \<Rightarrow> n
              | Some (base, len) \<Rightarrow> note_netns_netlink_request E fd base len m n) else n, t, m))"

definition recvfrom_enter :: "nl_state \<Rightarrow> nl_state" where
  "recvfrom_enter = (\<lambda>(n, t, m).
     let fd = fd_arg CURRENT SYSARG_1 t in
     case fake_netlink_socket n fd of
       None \<Rightarrow> note_netns_netlink_reply fd (n, t, m)
     | Some s \<Rightarrow>
         (let datagram = pending_fake_netlink_datagram s in
          if datagram = [] then (n, t, m)
          else
            let buf = peek_reg CURRENT SYSARG_2 t;
                flags = ucast (peek_reg CURRENT SYSARG_4 t) :: u32;
                part = take (unat (peek_reg CURRENT SYSARG_3 t)) datagram;
                (copied, m) = (if buf = 0 \<or> part = [] then (0, m)
                  else (case write_data m buf part of (Some e, m) \<Rightarrow> (0, m) | (None, m) \<Rightarrow> (length part, m)));
                n = (if flags AND MSG_PEEK = 0 then set_socket (consume_fake_netlink_datagram (length datagram) s) n else n);
                addr_ptr = peek_reg CURRENT SYSARG_5 t; size_ptr = peek_reg CURRENT SYSARG_6 t;
                m = (if addr_ptr \<noteq> 0 \<and> size_ptr \<noteq> 0 then snd (write_fake_netlink_sockname addr_ptr size_ptr 0 m) else m)
            in (n, void_call (of_nat (if flags AND MSG_TRUNC \<noteq> 0 then length datagram else copied)) t, m)))"

text \<open>The name of the sender, the flags of the message.\<close>

definition write_msg_name :: "word_t \<Rightarrow> word_t \<Rightarrow> memory \<Rightarrow> memory" where
  "write_msg_name msghdr msg_name m =
     (if msg_name = 0 \<or> msghdr = 0 then m
      else (case peek_uint32 m (msghdr + 8) of Inl e \<Rightarrow> m
        | Inr n \<Rightarrow> if 0 < n then snd (poke_uint32 (msghdr + 8) 12 (snd (write_data m msg_name (take n (sockaddr_nl 0))))) else m))"

definition recvmsg_enter :: "nl_state \<Rightarrow> nl_state" where
  "recvmsg_enter = (\<lambda>(n, t, m).
     let fd = fd_arg CURRENT SYSARG_1 t in
     case fake_netlink_socket n fd of
       None \<Rightarrow> note_netns_netlink_reply fd (n, t, m)
     | Some s \<Rightarrow>
         (let datagram = pending_fake_netlink_datagram s in
          if datagram = [] then (n, t, m)
          else
            let msghdr = peek_reg CURRENT SYSARG_2 t;
                flags = ucast (peek_reg CURRENT SYSARG_3 t) :: u32;
                msg_name = (if msghdr = 0 then 0 else peek_or_zero m msghdr);
                iov_ptr = (if msghdr = 0 then 0 else peek_or_zero m (msghdr + 16));
                iov_count = (if msghdr = 0 then 0 else peek_or_zero m (msghdr + 24));
                (scattered, m) = (if iov_ptr \<noteq> 0 \<and> 0 < iov_count then scatter_fake_netlink_reply iov_ptr iov_count datagram m else (0, m));
                n = (if flags AND MSG_PEEK = 0 then set_socket (consume_fake_netlink_datagram (length datagram) s) n else n);
                m = write_msg_name msghdr msg_name m;
                m = (if msghdr = 0 then m
                  else snd (poke_uint32 (msghdr + 48) (if scattered < length datagram then unat MSG_TRUNC else 0) m))
            in (n, void_call (of_nat (if flags AND MSG_TRUNC \<noteq> 0 then length datagram else scattered)) t, m)))"

section \<open>Refusals that become acknowledgements\<close>

text \<open>
  Where the reply has the error that answers the request with number \<open>seq\<close>. The step from message to message is computed with 32
  bits and may be 0: \<open>None\<close> is the loop that does not end.
\<close>

partial_function (option) ack_scan :: "byte list \<Rightarrow> nat \<Rightarrow> nat \<Rightarrow> nat option option" where
  "ack_scan reply seq off =
     (if off + NLMSG_HDRLEN + 4 \<le> length reply then
        let mlen = field 4 reply off in
        if mlen < NLMSG_HDRLEN then Some None
        else if field 2 reply (off + 4) = NLMSG_ERROR \<and> field 4 reply (off + 8) = seq then Some (Some off)
        else ack_scan reply seq (off + align4_u32 mlen)
      else Some None)"

definition reply_buffer :: "sysnum \<Rightarrow> thread \<Rightarrow> memory \<Rightarrow> (word_t \<times> word_t \<times> u32) option" where
  "reply_buffer s t m =
     (if s = ''recvfrom''
      then Some (peek_reg ORIGINAL SYSARG_2 t, peek_reg ORIGINAL SYSARG_3 t, ucast (peek_reg ORIGINAL SYSARG_4 t))
      else (case msghdr_first_iovec m (peek_reg ORIGINAL SYSARG_2 t) of None \<Rightarrow> None
        | Some (base, len) \<Rightarrow> Some (base, len, ucast (peek_reg ORIGINAL SYSARG_3 t))))"

definition handle_netlink_reply_exit :: "sysnum \<Rightarrow> nl_state \<Rightarrow> nl_state option" where
  "handle_netlink_reply_exit s = (\<lambda>(n, t, m).
     let result = fd_arg CURRENT SYSARG_RESULT t in
     if \<not> ack_pending n \<or> fd_arg ORIGINAL SYSARG_1 t \<noteq> ack_fd n \<or> result \<le> 0 then Some (n, t, m)
     else (case reply_buffer s t m of None \<Rightarrow> Some (n, t, m)
       | Some (buf_addr, buf_len, flags) \<Rightarrow>
          (let len = min (min (nat result) (unat buf_len)) 512 in
           if buf_addr = 0 \<or> len < NLMSG_HDRLEN + 4 then Some (n, t, m)
           else (case read_data m buf_addr len of Inl e \<Rightarrow> Some (n, t, m)
             | Inr reply \<Rightarrow>
                (case ack_scan reply (ack_seq n) 0 of None \<Rightarrow> None
                 | Some found \<Rightarrow>
                    (let m = (case found of None \<Rightarrow> m
                        | Some off \<Rightarrow>
                            (let err = int_field reply (off + NLMSG_HDRLEN) in
                             if err = - errno_num EPERM \<or> err = - errno_num EACCES
                             then snd (poke_uint32 (buf_addr + of_nat (off + NLMSG_HDRLEN)) 0 m) else m))
                     in Some (if flags AND MSG_PEEK = 0 then n\<lparr>ack_pending := False\<rparr> else n, t, m)))))))"

section \<open>Children\<close>

text \<open>A child gets the descriptors of its parent, without their pending replies.\<close>

definition inherit_netlink :: "bool \<Rightarrow> netlink \<Rightarrow> netlink \<Rightarrow> netlink" where
  "inherit_netlink stripped_newnet parent child =
     child\<lparr>fake_netns := (fake_netns parent \<or> stripped_newnet),
           fake_fds := map (\<lambda>s. \<lparr>fs_fd = fs_fd s, fs_reply = [], fs_off = 0\<rparr>) (fake_fds parent),
           route_fds := route_fds parent\<rparr>"

end
