(* ===== verification/Netlink_Spec.thy ===== *)
theory Netlink_Spec
  imports Netlink Aoxp_Spec
begin

text \<open>
  Replies of the emulated netlink sockets: a reply is a sequence of whole messages with the numbers of the request, a dump ends
  with its end message and reaches the receiver in two datagrams, and the search for the answer to a request ends unless a message
  claims a length of almost four gigabytes.
\<close>

section \<open>Fields\<close>

lemma length_le_bytes [simp]: "length (le_bytes n v) = n"
  by (simp add: le_bytes_def)

lemma length_int_bytes [simp]: "length (int_bytes i) = 4"
  by (simp add: int_bytes_def)

lemma le_value_less: "le_value bs < 256 ^ length bs"
proof (induction bs)
  case (Cons b bs)
  have "unat b < 256" using unsigned_less [of b] by simp
  with Cons show ?case by simp
qed simp

lemma field_less: "field n bs off < 256 ^ n"
  unfolding field_def by (rule less_le_trans [OF le_value_less]) (simp add: power_increasing)

lemma field_append: "off + n \<le> length a \<Longrightarrow> field n (a @ b) off = field n a off"
  by (simp add: field_def)

lemma field_drop: "field n (drop k bs) off = field n bs (k + off)"
  by (simp add: field_def add.commute)

lemma field_skip: "field n (a @ b) (length a + off) = field n b off"
  by (simp add: field_def)

section \<open>Messages\<close>

definition nl_message :: "nat \<Rightarrow> nat \<Rightarrow> byte list \<Rightarrow> bool" where
  "nl_message seq pid m \<longleftrightarrow>
     NLMSG_HDRLEN \<le> field 4 m 0 \<and> length m = align4 (field 4 m 0) \<and> field 4 m 8 = seq \<and> field 4 m 12 = pid"

definition msg_type :: "byte list \<Rightarrow> nat" where "msg_type m = field 2 m 4"

lemma align4_ge: "n \<le> align4 n"
  by (simp add: align4_def)

lemma align4_id [simp]: "n mod 4 = 0 \<Longrightarrow> align4 n = n"
  by (simp add: align4_def) presburger

lemma align4_mod [simp]: "align4 n mod 4 = 0"
  by (simp add: align4_def)

lemma message_length: "nl_message seq pid m \<Longrightarrow> NLMSG_HDRLEN \<le> field 4 m 0 \<and> field 4 m 0 \<le> length m \<and> NLMSG_HDRLEN \<le> length m"
  using align4_ge [of "field 4 m 0"] by (auto simp: nl_message_def)

text \<open>\<open>out'\<close> extends \<open>out\<close> by messages whose types satisfy \<open>P\<close>.\<close>

definition extends :: "nat \<Rightarrow> nat \<Rightarrow> (nat \<Rightarrow> bool) \<Rightarrow> byte list \<Rightarrow> byte list \<Rightarrow> bool" where
  "extends seq pid P out out' \<longleftrightarrow> (\<exists>ms. out' = out @ concat ms \<and> (\<forall>m\<in>set ms. nl_message seq pid m \<and> P (msg_type m)))"

lemma extends_refl [simp, intro]: "extends seq pid P out out"
  unfolding extends_def by (rule exI [of _ "[]"]) simp

lemma extends_trans: "extends seq pid P a b \<Longrightarrow> extends seq pid P b c \<Longrightarrow> extends seq pid P a c"
proof -
  assume "extends seq pid P a b" "extends seq pid P b c"
  then obtain x y where "b = a @ concat x" "c = b @ concat y"
    "\<forall>m\<in>set x. nl_message seq pid m \<and> P (msg_type m)" "\<forall>m\<in>set y. nl_message seq pid m \<and> P (msg_type m)"
    unfolding extends_def by blast
  then show ?thesis unfolding extends_def by (intro exI [of _ "x @ y"]) auto
qed

lemma extends_weaken: "extends seq pid P a b \<Longrightarrow> (\<And>t. P t \<Longrightarrow> Q t) \<Longrightarrow> extends seq pid Q a b"
  unfolding extends_def by blast

lemma header_fields:
  assumes "len < 2 ^ 32" "type < 2 ^ 16" "seq < 2 ^ 32" "pid < 2 ^ 32"
  shows "field 4 (nl_header len type flags seq pid @ b) 0 = len \<and> field 2 (nl_header len type flags seq pid @ b) 4 = type \<and>
    field 4 (nl_header len type flags seq pid @ b) 8 = seq \<and> field 4 (nl_header len type flags seq pid @ b) 12 = pid"
  using assms by (simp add: field_def nl_header_def le_value_bytes)

lemma length_header [simp]: "length (nl_header len type flags seq pid) = NLMSG_HDRLEN"
  by (simp add: nl_header_def NLMSG_HDRLEN_def)

lemma finish_extends:
  assumes "length body mod 4 = 0" "length body < 2 ^ 16" "type < 2 ^ 16" "P type" "seq < 2 ^ 32" "pid < 2 ^ 32"
  shows "extends seq pid P out (nl_finish out type flags seq pid body)"
proof -
  let ?m = "nl_header (NLMSG_HDRLEN + length body) type flags seq pid @ body"
  have len: "NLMSG_HDRLEN + length body < 2 ^ 32" using assms(2) by (simp add: NLMSG_HDRLEN_def)
  note h = header_fields [OF len assms(3,5,6), of flags body]
  have "(NLMSG_HDRLEN + length body) mod 4 = 0" using assms(1) by (simp add: NLMSG_HDRLEN_def) presburger
  then have "align4 (field 4 ?m 0) = length ?m" using h by (simp add: mod_add_eq)
  with h assms(4) show ?thesis unfolding extends_def nl_finish_def
    by (intro exI [of _ "[?m]"]) (simp add: nl_message_def msg_type_def)
qed

section \<open>Builders\<close>

lemma attr_length:
  "length (nl_add_attr off cap type data body) mod 4 = length body mod 4 \<and>
   (off + length body \<le> cap \<longrightarrow> off + length (nl_add_attr off cap type data body) \<le> cap) \<and>
   length (nl_add_attr off cap type data body) \<le> length body + align4 (4 + length data)"
proof -
  let ?d = "length data mod 65536"
  have "4 + ?d \<le> align4 (4 + ?d)" by (rule align4_ge)
  moreover have "align4 (4 + ?d) \<le> align4 (4 + length data)"
    by (simp add: align4_def div_le_mono)
  moreover have "(length body + align4 (4 + ?d)) mod 4 = length body mod 4"
    by (simp add: align4_def)
  moreover have "length (take ?d data) = ?d" by simp
  ultimately show ?thesis by (auto simp: nl_add_attr_def Let_def add.assoc)
qed

text \<open>\<open>fits n\<close>: the body is whole words, stays below the bound, and has at most \<open>n\<close> bytes.\<close>

definition fits :: "nat \<Rightarrow> nat \<Rightarrow> nat \<Rightarrow> byte list \<Rightarrow> bool" where
  "fits off cap n body \<longleftrightarrow> length body mod 4 = 0 \<and> off + length body \<le> cap \<and> length body \<le> n"

lemma fits_attr: "fits off cap n body \<Longrightarrow> n + align4 (4 + length data) \<le> k \<Longrightarrow> fits off cap k (nl_add_attr off cap type data body)"
  using attr_length [of off cap type data body] by (auto simp: fits_def)

lemma fits_attrs:
  "fits off cap n body \<Longrightarrow> n + sum_list (map (\<lambda>a. align4 (4 + length (snd a))) attrs) \<le> k \<Longrightarrow>
    fits off cap k (nl_add_attrs off cap attrs body)"
proof (induction attrs arbitrary: n body)
  case Nil
  then show ?case by (auto simp: nl_add_attrs_def fits_def)
next
  case (Cons a attrs)
  from Cons.IH [OF fits_attr [OF Cons.prems(1) order_refl, of "snd a" "fst a"]] Cons.prems(2) show ?case
    by (simp add: nl_add_attrs_def case_prod_unfold add.assoc)
qed

text \<open>What a builder promises: messages of the given type, within the bound, at most \<open>n\<close> bytes.\<close>

definition builds :: "nat \<Rightarrow> nat \<Rightarrow> nat \<Rightarrow> nat \<Rightarrow> (nat \<Rightarrow> bool) \<Rightarrow> byte list \<Rightarrow> byte list \<Rightarrow> bool" where
  "builds seq pid cap n P out out' \<longleftrightarrow>
     extends seq pid P out out' \<and> (length out \<le> cap \<longrightarrow> length out' \<le> cap) \<and> length out' \<le> length out + n"

lemma builds_refl [simp, intro]: "builds seq pid cap n P out out"
  by (simp add: builds_def)

lemma builds_mono: "builds seq pid cap n P out out' \<Longrightarrow> n \<le> k \<Longrightarrow> builds seq pid cap k P out out'"
  by (auto simp: builds_def)

lemma builds_finish:
  assumes "fits (length out + NLMSG_HDRLEN) cap n body" "NLMSG_HDRLEN + n \<le> k" "cap < 2 ^ 16" "type < 2 ^ 16" "P type"
    "seq < 2 ^ 32" "pid < 2 ^ 32"
  shows "builds seq pid cap k P out (nl_finish out type flags seq pid body)"
  using finish_extends [of body type P seq pid out flags] assms
  by (auto simp: builds_def fits_def nl_finish_def)

lemma link_builds:
  assumes "cap < 2 ^ 16" "seq < 2 ^ 32" "pid < 2 ^ 32" "length hwaddr \<le> 8" "P RTM_NEWLINK"
  shows "builds seq pid cap (96 + align4 (length name + 5)) P out (nl_build_link cap seq pid nlflags ifindex iftype ifflags mtu name hwaddr out)"
proof (cases "length out + NLMSG_HDRLEN + 16 > cap")
  case False
  have a: "align4 (4 + length hwaddr) \<le> 12" using assms(4) by (simp add: align4_def)
  have c: "align4 5 = 8" "align4 8 = 8" "align4 (Suc (Suc (Suc (Suc (Suc (length name)))))) = align4 (length name + 5)"
    by (simp_all add: align4_def)
  have t: "RTM_NEWLINK < 2 ^ 16" by (simp add: RTM_NEWLINK_def)
  have h: "NLMSG_HDRLEN + (80 + align4 (length name + 5)) \<le> 96 + align4 (length name + 5)" by (simp add: NLMSG_HDRLEN_def)
  show ?thesis
    unfolding nl_build_link_def Let_def if_not_P [OF False]
    by (rule builds_finish [where P = P and type = RTM_NEWLINK, OF fits_attrs [where n = 16] h assms(1) t assms(5,2,3)])
      (use False a in \<open>auto simp: fits_def bytes_of_def c add.commute [of 5]\<close>)
qed (simp add: nl_build_link_def)

lemma addr_builds:
  assumes "cap < 2 ^ 16" "seq < 2 ^ 32" "pid < 2 ^ 32" "P RTM_NEWADDR"
  shows "builds seq pid cap (24 + 2 * align4 (4 + length addr) + (case label of None \<Rightarrow> 0 | Some l \<Rightarrow> align4 (length l + 5))) P out
    (nl_build_addr cap seq pid nlflags family ifindex addr prefixlen scope label out)"
proof (cases "length out + NLMSG_HDRLEN + 8 > cap")
  case False
  let ?k = "8 + 2 * align4 (4 + length addr) + (case label of None \<Rightarrow> 0 | Some l \<Rightarrow> align4 (length l + 5))"
  have t: "RTM_NEWADDR < 2 ^ 16" by (simp add: RTM_NEWADDR_def)
  have h: "NLMSG_HDRLEN + ?k \<le> 24 + 2 * align4 (4 + length addr) + (case label of None \<Rightarrow> 0 | Some l \<Rightarrow> align4 (length l + 5))"
    by (simp add: NLMSG_HDRLEN_def)
  have c: "align4 (Suc (Suc (Suc (Suc (Suc n))))) = align4 (n + 5)" for n by (simp add: align4_def)
  show ?thesis
    unfolding nl_build_addr_def Let_def if_not_P [OF False]
    by (rule builds_finish [where P = P and type = RTM_NEWADDR, OF fits_attrs [where n = 8] h assms(1) t assms(4,2,3)])
      (use False in \<open>auto simp: fits_def bytes_of_def c add.commute [of 5] split: option.split\<close>)
qed (simp add: nl_build_addr_def)

lemma done_builds:
  assumes "cap < 2 ^ 16" "seq < 2 ^ 32" "pid < 2 ^ 32" "P NLMSG_DONE"
  shows "builds seq pid cap 20 P out (nl_build_done cap seq pid out)"
proof (cases "length out + (NLMSG_HDRLEN + 4) > cap")
  case False
  show ?thesis unfolding nl_build_done_def if_not_P [OF False]
    by (rule builds_finish [where P = P and type = NLMSG_DONE and n = 4, OF _ _ assms(1) _ assms(4,2,3)])
      (use False in \<open>simp_all add: fits_def NLMSG_DONE_def NLMSG_HDRLEN_def\<close>)
qed (simp add: nl_build_done_def)

lemma error_builds:
  assumes "cap < 2 ^ 16" "seq < 2 ^ 32" "pid < 2 ^ 32" "P NLMSG_ERROR"
  shows "builds seq pid cap 36 P out (nl_build_error cap seq pid e out)"
proof (cases "length out + (NLMSG_HDRLEN + 20) > cap")
  case False
  show ?thesis unfolding nl_build_error_def if_not_P [OF False]
    by (rule builds_finish [where P = P and type = NLMSG_ERROR and n = 20, OF _ _ assms(1) _ assms(4,2,3)])
      (use False in \<open>simp_all add: fits_def NLMSG_ERROR_def NLMSG_HDRLEN_def\<close>)
qed (simp add: nl_build_error_def)

section \<open>Interfaces\<close>

text \<open>What a part of a reply promises: whole messages of types \<open>P\<close>, and room for \<open>r\<close> more bytes if there was.\<close>

definition leaves :: "nat \<Rightarrow> nat \<Rightarrow> nat \<Rightarrow> nat \<Rightarrow> (nat \<Rightarrow> bool) \<Rightarrow> byte list \<Rightarrow> byte list \<Rightarrow> bool" where
  "leaves seq pid cap r P out out' \<longleftrightarrow> extends seq pid P out out' \<and> (length out + r \<le> cap \<longrightarrow> length out' + r \<le> cap)"

lemma leaves_refl [simp, intro]: "leaves seq pid cap r P out out"
  by (simp add: leaves_def)

lemma leaves_trans: "leaves seq pid cap r P a b \<Longrightarrow> leaves seq pid cap r P b c \<Longrightarrow> leaves seq pid cap r P a c"
  unfolding leaves_def using extends_trans by blast

lemma builds_leaves: "builds seq pid cap n P out out' \<Longrightarrow> r = 0 \<or> length out + n + r \<le> cap \<Longrightarrow> leaves seq pid cap r P out out'"
  by (auto simp: builds_def leaves_def)

text \<open>Names and addresses have the sizes that \<open>getifaddrs(3)\<close> documents.\<close>

definition proper_interface :: "ifaddr \<Rightarrow> bool" where
  "proper_interface a \<longleftrightarrow>
     (case ifa_name a of None \<Rightarrow> True | Some n \<Rightarrow> length n < IFNAMSIZ) \<and>
     (case inet_address (ifa_addr a) of None \<Rightarrow> True | Some (f, b) \<Rightarrow> length b \<le> 16)"

definition proper_host :: "net_env \<Rightarrow> bool" where
  "proper_host E \<longleftrightarrow> (case ifaddrs E of None \<Rightarrow> True | Some l \<Rightarrow> list_all proper_interface l)"

lemma interface_address: "interface_of E name a = (index, iftype, mtu, hw) \<Longrightarrow> length hw \<le> 8"
  unfolding interface_of_def Let_def by (auto split: if_address.splits option.splits if_splits)

lemma align4_mono: "m \<le> n \<Longrightarrow> align4 m \<le> align4 n"
  by (simp add: align4_def div_le_mono)

lemma host_links_leaves:
  assumes "cap < 2 ^ 16" "seq < 2 ^ 32" "pid < 2 ^ 32" "P RTM_NEWLINK"
    "r = 0 \<or> r = 20 \<and> list_all proper_interface l"
  shows "leaves seq pid cap r P out (fst (host_links E cap seq pid want_name want_index dump l seen (out, built)))"
  using assms(5)
proof (induction l arbitrary: seen out built)
  case (Cons a l)
  have IH: "leaves seq pid cap r P out (fst (host_links E cap seq pid want_name want_index dump l seen (out, built)))" for seen out built
    using Cons by auto
  show ?case
  proof (cases "ifa_name a")
    case (Some name)
    obtain index iftype mtu hw where i: "interface_of E name a = (index, iftype, mtu, hw)" by (metis prod_cases4)
    define out' where "out' = nl_build_link cap seq pid (if dump then NLM_F_MULTI else 0) index iftype (ifa_flags a) mtu name hw out"
    have step: "leaves seq pid cap r P out out'" if "length out + 256 \<le> cap"
    proof (rule builds_leaves)
      show "builds seq pid cap (96 + align4 (length name + 5)) P out out'"
        unfolding out'_def using link_builds [where P = P, OF assms(1-3) interface_address [OF i] assms(4)] .
      have "length name + 5 \<le> 20" if "r = 20" using Cons.prems that Some by (simp add: proper_interface_def IFNAMSIZ_def)
      then have "align4 (length name + 5) \<le> 20" if "r = 20" using align4_mono [of "length name + 5" 20] that by (simp add: align4_def)
      with that Cons.prems show "r = 0 \<or> length out + (96 + align4 (length name + 5)) + r \<le> cap" by auto
    qed
    show ?thesis using IH leaves_trans [OF step IH] step Some i by (auto simp: Let_def out'_def)
  qed (use IH in simp)
qed simp

lemma host_addrs_leaves:
  assumes "cap < 2 ^ 16" "seq < 2 ^ 32" "pid < 2 ^ 32" "P RTM_NEWADDR"
    "r = 0 \<or> r = 20 \<and> list_all proper_interface l"
  shows "leaves seq pid cap r P out (fst (host_addrs E cap seq pid want_family dump l (out, built)))"
  using assms(5)
proof (induction l arbitrary: out built)
  case (Cons a l)
  have IH: "leaves seq pid cap r P out (fst (host_addrs E cap seq pid want_family dump l (out, built)))" for out built
    using Cons by auto
  show ?case
  proof (cases "ifa_name a = None \<or> inet_address (ifa_addr a) = None")
    case False
    then obtain name family addr where s: "ifa_name a = Some name" "inet_address (ifa_addr a) = Some (family, addr)" by auto
    have step: "leaves seq pid cap r P out (nl_build_addr cap seq pid flags family index addr pre scope (Some name) out)"
      if "length out + 256 \<le> cap" for flags index pre scope
    proof (rule builds_leaves [OF addr_builds [where P = P, OF assms(1-4)]])
      have "length name + 5 \<le> 20 \<and> 4 + length addr \<le> 20" if "r = 20"
        using Cons.prems that s by (simp add: proper_interface_def IFNAMSIZ_def)
      then have "align4 (length name + 5) \<le> 20 \<and> align4 (4 + length addr) \<le> 20" if "r = 20"
        using align4_mono [of "length name + 5" 20] align4_mono [of "4 + length addr" 20] that by (simp add: align4_def)
      with that Cons.prems show "r = 0 \<or> length out + (24 + 2 * align4 (4 + length addr) +
          (case Some name of None \<Rightarrow> 0 | Some l \<Rightarrow> align4 (length l + 5))) + r \<le> cap" by auto
    qed
    show ?thesis using IH leaves_trans [OF step IH] s by (auto simp: Let_def)
  qed (use IH in \<open>auto split: option.split\<close>)
qed simp

section \<open>Routes\<close>

abbreviation not_done :: "nat \<Rightarrow> bool" where "not_done t \<equiv> t \<noteq> NLMSG_DONE"

definition ends_dump :: "nat \<Rightarrow> nat \<Rightarrow> byte list \<Rightarrow> bool" where
  "ends_dump seq pid out \<longleftrightarrow>
     (\<exists>out1 d. out = out1 @ d \<and> extends seq pid not_done [] out1 \<and> nl_message seq pid d \<and> msg_type d = NLMSG_DONE)"

lemma ends_dumpI: "extends seq pid not_done [] out \<Longrightarrow> nl_message seq pid d \<Longrightarrow> msg_type d = NLMSG_DONE \<Longrightarrow> ends_dump seq pid (out @ d)"
  by (auto simp: ends_dump_def)

lemma relayed_message:
  assumes "NLMSG_HDRLEN \<le> field 4 buf p" "p + field 4 buf p \<le> length buf" "seq < 2 ^ 32" "pid < 2 ^ 32"
  shows "nl_message seq pid (take 8 (drop p buf) @ le_bytes 4 seq @ le_bytes 4 pid
      @ take (field 4 buf p - NLMSG_HDRLEN) (drop (p + NLMSG_HDRLEN) buf) @ replicate (align4 (field 4 buf p) - field 4 buf p) 0) \<and>
    msg_type (take 8 (drop p buf) @ le_bytes 4 seq @ le_bytes 4 pid
      @ take (field 4 buf p - NLMSG_HDRLEN) (drop (p + NLMSG_HDRLEN) buf) @ replicate (align4 (field 4 buf p) - field 4 buf p) 0)
    = field 2 buf (p + 4) \<and>
    length (take 8 (drop p buf) @ le_bytes 4 seq @ le_bytes 4 pid
      @ take (field 4 buf p - NLMSG_HDRLEN) (drop (p + NLMSG_HDRLEN) buf) @ replicate (align4 (field 4 buf p) - field 4 buf p) 0)
    = align4 (field 4 buf p)"
    (is "nl_message seq pid ?m \<and> msg_type ?m = _ \<and> _")
proof -
  have l8: "length (take 8 (drop p buf)) = 8" using assms(1,2) by (simp add: NLMSG_HDRLEN_def)
  have f0: "field 4 ?m 0 = field 4 buf p"
    using l8 by (subst field_append) (simp_all add: field_def min_def)
  have f4: "field 2 ?m 4 = field 2 buf (p + 4)"
    using l8 by (subst field_append) (simp_all add: field_def drop_take add.commute)
  have f8: "field 4 ?m 8 = seq" using l8 assms(3) by (simp add: field_def le_value_bytes)
  have f12: "field 4 ?m 12 = pid" using l8 assms(4) by (simp add: field_def le_value_bytes)
  have lt: "length (take (field 4 buf p - NLMSG_HDRLEN) (drop (p + NLMSG_HDRLEN) buf)) = field 4 buf p - NLMSG_HDRLEN"
    using assms(2) by simp
  have "length ?m = align4 (field 4 buf p)"
    unfolding length_append l8 lt length_le_bytes length_replicate
    using assms(1) align4_ge [of "field 4 buf p"] unfolding NLMSG_HDRLEN_def by linarith
  with f0 f4 f8 f12 assms(1) show ?thesis by (simp add: nl_message_def msg_type_def)
qed

lemma extends_snoc:
  assumes "extends seq pid P a b" "nl_message seq pid m" "P (msg_type m)"
  shows "extends seq pid P a (b @ m)"
proof -
  from assms(1) obtain ms where "b = a @ concat ms" "\<forall>m\<in>set ms. nl_message seq pid m \<and> P (msg_type m)"
    unfolding extends_def by blast
  with assms(2,3) show ?thesis unfolding extends_def by (intro exI [of _ "ms @ [m]"]) auto
qed

definition relayed :: "nat \<Rightarrow> nat \<Rightarrow> byte list \<Rightarrow> nat \<Rightarrow> byte list" where
  "relayed seq pid buf p = take 8 (drop p buf) @ le_bytes 4 seq @ le_bytes 4 pid
     @ take (field 4 buf p - NLMSG_HDRLEN) (drop (p + NLMSG_HDRLEN) buf) @ replicate (align4 (field 4 buf p) - field 4 buf p) 0"

lemma relay_step:
  "\<not> (len < NLMSG_HDRLEN \<or> p + NLMSG_HDRLEN > length buf \<or> field 4 buf p < NLMSG_HDRLEN \<or> field 4 buf p > len \<or>
      length out + align4 (field 4 buf p) + 64 > cap \<or> p + field 4 buf p > length buf) \<Longrightarrow>
   relay_messages cap seq pid buf p len out =
     (if field 2 buf (p + 4) = NLMSG_DONE then Inr (out @ relayed seq pid buf p, True, True)
      else relay_messages cap seq pid buf (p + align4 (field 4 buf p)) ((len + 2 ^ 64 - align4 (field 4 buf p)) mod 2 ^ 64)
             (out @ relayed seq pid buf p))"
  by (subst relay_messages.simps) (simp add: Let_def relayed_def)

lemma relay_extends:
  assumes "relay_messages cap seq pid buf p len out = Inr (out', stop, saw)" "seq < 2 ^ 32" "pid < 2 ^ 32"
    "length out + 64 \<le> cap \<or> out = []" "extends seq pid not_done [] out"
  shows "(length out' + 64 \<le> cap \<or> out' = []) \<and>
    (if saw then stop \<and> ends_dump seq pid out' \<and> out' \<noteq> [] else extends seq pid not_done [] out')"
  using assms(1,2-5)
proof (induction cap seq pid buf p len out rule: relay_messages.induct)
  case (1 cap seq pid buf p len out)
  let ?n = "field 4 buf p"
  let ?m = "relayed seq pid buf p"
  show ?case
  proof (cases "len < NLMSG_HDRLEN \<or> p + NLMSG_HDRLEN > length buf \<or> ?n < NLMSG_HDRLEN \<or> ?n > len \<or> length out + align4 ?n + 64 > cap \<or>
      p + ?n > length buf")
    case True
    with "1.prems" show ?thesis by (subst (asm) relay_messages.simps) (auto simp: Let_def split: if_split_asm)
  next
    case False
    then have m: "nl_message seq pid ?m" "msg_type ?m = field 2 buf (p + 4)" and lm: "length ?m = align4 ?n"
      using relayed_message [of buf p seq pid, OF _ _ "1.prems"(2,3)] by (simp_all add: relayed_def)
    show ?thesis
    proof (cases "field 2 buf (p + 4) = NLMSG_DONE")
      case True
      with "1.prems"(1) [unfolded relay_step [OF False]] have "out' = out @ ?m \<and> saw \<and> stop" by simp
      moreover have "ends_dump seq pid (out @ ?m)" by (rule ends_dumpI [OF "1.prems"(5) m(1)]) (simp add: m(2) True)
      moreover have "out @ ?m \<noteq> []" using message_length [OF m(1)] by (auto simp: NLMSG_HDRLEN_def)
      moreover have "length (out @ ?m) + 64 \<le> cap" using False lm by simp
      ultimately show ?thesis by simp
    next
      case nd: False
      have r: "relay_messages cap seq pid buf (p + align4 ?n) ((len + 2 ^ 64 - align4 ?n) mod 2 ^ 64) (out @ ?m) = Inr (out', stop, saw)"
        using nd "1.prems"(1) [unfolded relay_step [OF False]] by simp
      have f: "\<not> len < NLMSG_HDRLEN" "\<not> length buf < p + NLMSG_HDRLEN" "\<not> (?n < NLMSG_HDRLEN \<or> len < ?n)"
        "\<not> cap < length out + align4 ?n + 64" "\<not> length buf < p + ?n" using False by blast+
      have e: "extends seq pid not_done [] (out @ ?m)" using extends_snoc [OF "1.prems"(5) m(1)] m(2) nd by simp
      have l: "length (out @ ?m) + 64 \<le> cap \<or> out @ ?m = []" using False lm by simp
      show ?thesis
        by (rule "1.IH" [OF f(1,2) refl refl f(3-5) refl nd r [unfolded relayed_def] "1.prems"(2,3) l [unfolded relayed_def] e [unfolded relayed_def]])
    qed
  qed
qed

lemma rounds_extend:
  assumes "relay_rounds E cap seq pid n ds out = Inr (out', saw)" "seq < 2 ^ 32" "pid < 2 ^ 32"
    "length out + 64 \<le> cap \<or> out = []" "extends seq pid not_done [] out"
  shows "(length out' + 64 \<le> cap \<or> out' = []) \<and>
    (if saw then ends_dump seq pid out' \<and> out' \<noteq> [] else extends seq pid not_done [] out')"
  using assms
proof (induction E cap seq pid n ds out rule: relay_rounds.induct)
  case (3 E cap seq pid n d ds out)
  show ?case
  proof (cases "take 8192 d = []")
    case False
    from "3.prems"(1) False obtain o1 stop sd where
      r: "relay_messages cap seq pid (take 8192 d @ drop (length (take 8192 d)) (stale E)) 0 (length (take 8192 d)) out = Inr (o1, stop, sd)"
      by (auto simp: Let_def split: sum.split_asm)
    have x: "(length o1 + 64 \<le> cap \<or> o1 = []) \<and>
        (if sd then stop \<and> ends_dump seq pid o1 \<and> o1 \<noteq> [] else extends seq pid not_done [] o1)"
      using relay_extends [OF r "3.prems"(2-5)] .
    show ?thesis
    proof (cases stop)
      case True
      with "3.prems"(1) False r have "out' = o1" "saw = sd" by (simp_all add: Let_def)
      with x show ?thesis by auto
    next
      case ns: False
      with "3.prems"(1) False r have "relay_rounds E cap seq pid n ds o1 = Inr (out', saw)" by (simp add: Let_def)
      moreover have "\<not> sd" using x ns by (auto split: if_split_asm)
      ultimately show ?thesis using "3.IH" [OF refl False r refl refl ns _ "3.prems"(2,3)] x by simp
    qed
  qed (use 3 in \<open>simp add: Let_def\<close>)
qed auto

section \<open>The reply\<close>

lemma ends_extends: "ends_dump seq pid out \<Longrightarrow> extends seq pid (\<lambda>t. True) [] out"
  unfolding ends_dump_def using extends_snoc [of seq pid "\<lambda>t. True"] extends_weaken [of seq pid not_done] by fastforce

text \<open>A reply to a dump of a request ends the dump; another one consists of whole messages.\<close>

definition good_reply :: "nat \<Rightarrow> nat \<Rightarrow> bool \<Rightarrow> byte list \<Rightarrow> bool" where
  "good_reply seq pid dump out \<longleftrightarrow>
     length out \<le> MAX_FAKE_NETLINK_REPLY \<and> out \<noteq> [] \<and> extends seq pid (\<lambda>t. True) [] out \<and> (dump \<longrightarrow> ends_dump seq pid out)"

lemma done_ends:
  assumes "extends seq pid not_done [] out" "length out + 20 \<le> cap" "seq < 2 ^ 32" "pid < 2 ^ 32"
  shows "ends_dump seq pid (nl_build_done cap seq pid out) \<and> length (nl_build_done cap seq pid out) \<le> cap \<and> nl_build_done cap seq pid out \<noteq> []"
proof -
  have b: "nl_build_done cap seq pid out = out @ nl_header 20 NLMSG_DONE NLM_F_MULTI seq pid @ int_bytes 0"
    using assms(2) by (simp add: nl_build_done_def nl_finish_def NLMSG_HDRLEN_def)
  have h: "nl_message seq pid (nl_header 20 NLMSG_DONE NLM_F_MULTI seq pid @ int_bytes 0)"
    "msg_type (nl_header 20 NLMSG_DONE NLM_F_MULTI seq pid @ int_bytes 0) = NLMSG_DONE"
    using header_fields [of 20 NLMSG_DONE seq pid NLM_F_MULTI "int_bytes 0"] assms(3,4)
    by (simp_all add: nl_message_def msg_type_def NLMSG_HDRLEN_def NLMSG_DONE_def align4_def)
  show ?thesis unfolding b using ends_dumpI [OF assms(1) h] assms(2) length_header [of 20 NLMSG_DONE NLM_F_MULTI seq pid]
    by (auto simp: NLMSG_HDRLEN_def nl_header_def le_bytes_def)
qed

text \<open>The same for a reply that may still be empty.\<close>

definition part_reply :: "nat \<Rightarrow> nat \<Rightarrow> bool \<Rightarrow> byte list \<Rightarrow> bool" where
  "part_reply seq pid dump out \<longleftrightarrow>
     length out \<le> MAX_FAKE_NETLINK_REPLY \<and> extends seq pid (\<lambda>t. True) [] out \<and> (dump \<longrightarrow> out \<noteq> [] \<and> ends_dump seq pid out)"

lemma cap_facts: "MAX_FAKE_NETLINK_REPLY = 8192" "MAX_FAKE_NETLINK_REPLY < 2 ^ 16"
  by (simp_all add: MAX_FAKE_NETLINK_REPLY_def)

lemma not_done_types [simp]: "RTM_NEWLINK \<noteq> NLMSG_DONE" "RTM_NEWADDR \<noteq> NLMSG_DONE" "NLMSG_ERROR \<noteq> NLMSG_DONE"
  by (simp_all add: netlink_constants)

lemma leaves_part:
  assumes "leaves seq pid MAX_FAKE_NETLINK_REPLY (if dump then 20 else 0) not_done [] out" "seq < 2 ^ 32" "pid < 2 ^ 32"
  shows "part_reply seq pid dump (if dump then nl_build_done MAX_FAKE_NETLINK_REPLY seq pid out else out)"
proof (cases dump)
  case True
  with assms(1) have "extends seq pid not_done [] out" "length out + 20 \<le> MAX_FAKE_NETLINK_REPLY"
    by (auto simp: leaves_def cap_facts)
  from done_ends [OF this assms(2,3)] True show ?thesis by (simp add: part_reply_def ends_extends)
next
  case False
  with assms(1) have "extends seq pid not_done [] out" "length out \<le> MAX_FAKE_NETLINK_REPLY"
    by (auto simp: leaves_def)
  with False show ?thesis by (auto simp: part_reply_def elim: extends_weaken)
qed

lemma link_reply_part:
  assumes "seq < 2 ^ 32" "pid < 2 ^ 32" "proper_host E"
  shows "part_reply seq pid dump (link_reply E MAX_FAKE_NETLINK_REPLY seq pid dump req)"
proof -
  let ?r = "if dump then 20 else 0 :: nat" and ?c = MAX_FAKE_NETLINK_REPLY
  obtain name index where t: "nl_request_link_target req = (name, index)" by fastforce
  obtain out n where l: "build_host_links E ?c seq pid (if dump then [] else name) (if dump then 0 else index) dump = (out, n)" by fastforce
  have "leaves seq pid ?c ?r not_done [] (fst (build_host_links E ?c seq pid (if dump then [] else name) (if dump then 0 else index) dump))"
    using assms(3) by (auto simp: build_host_links_def proper_host_def split: option.split
      intro!: host_links_leaves [where P = not_done, OF cap_facts(2) assms(1,2)])
  then have host: "leaves seq pid ?c ?r not_done [] out" by (simp add: l)
  have "builds seq pid ?c (96 + align4 (length ''lo'' + 5)) not_done [] (nl_build_loopback_link ?c seq pid flags [])" for flags
    unfolding nl_build_loopback_link_def by (rule link_builds [where P = not_done, OF cap_facts(2) assms(1,2)]) simp_all
  then have loop: "leaves seq pid ?c ?r not_done [] (nl_build_loopback_link ?c seq pid flags [])" for flags
    by (rule builds_leaves) (simp add: align4_def cap_facts)
  have err: "leaves seq pid ?c ?r not_done [] (nl_build_error ?c seq pid e [])" for e
    by (rule builds_leaves [OF error_builds [where P = not_done, OF cap_facts(2) assms(1,2)]]) (simp_all add: cap_facts)
  show ?thesis unfolding link_reply_def Let_def t l prod.case
    by (rule leaves_part [OF _ assms(1,2)]) (use host loop err in auto)
qed

lemma addr_reply_part:
  assumes "seq < 2 ^ 32" "pid < 2 ^ 32" "proper_host E"
  shows "part_reply seq pid dump (addr_reply E MAX_FAKE_NETLINK_REPLY seq pid dump req)"
proof -
  let ?r = "if dump then 20 else 0 :: nat" and ?c = MAX_FAKE_NETLINK_REPLY
  have host: "leaves seq pid ?c ?r not_done [] (fst (build_host_addrs E ?c seq pid family dump))" for family
    using assms(3) by (auto simp: build_host_addrs_def proper_host_def split: option.split
      intro!: host_addrs_leaves [where P = not_done, OF cap_facts(2) assms(1,2)])
  have "builds seq pid ?c 72 not_done out (nl_build_loopback_addr ?c seq pid family flags out)" for family flags out
  proof -
    have "builds seq pid ?c 72 not_done out (nl_build_addr ?c seq pid flags AF_INET6 1 (replicate 15 0 @ [1]) 128 RT_SCOPE_HOST None out)"
      by (rule builds_mono [OF addr_builds [where P = not_done, OF cap_facts(2) assms(1,2)]]) (simp_all add: align4_def)
    moreover have "builds seq pid ?c 72 not_done out (nl_build_addr ?c seq pid flags AF_INET 1 [127, 0, 0, 1] 8 RT_SCOPE_HOST (Some ''lo'') out)"
      by (rule builds_mono [OF addr_builds [where P = not_done, OF cap_facts(2) assms(1,2)]]) (simp_all add: align4_def)
    ultimately show ?thesis by (simp add: nl_build_loopback_addr_def)
  qed
  then have loop: "leaves seq pid ?c ?r not_done out (nl_build_loopback_addr ?c seq pid family flags out)" if "length out \<le> 72" for family flags out
    by (rule builds_leaves) (use that in \<open>simp add: cap_facts\<close>)
  have "length (nl_build_loopback_addr ?c seq pid family flags []) \<le> 72" for family flags
    using \<open>\<And>out flags family. builds seq pid ?c 72 not_done out (nl_build_loopback_addr ?c seq pid family flags out)\<close>
    unfolding builds_def by (metis add_0 list.size(3))
  note two = leaves_trans [OF loop loop [OF this]]
  show ?thesis unfolding addr_reply_def Let_def case_prod_unfold
    by (rule leaves_part [OF _ assms(1,2)]) (use host loop two in auto)
qed

lemma route_reply_part:
  assumes "seq < 2 ^ 32" "pid < 2 ^ 32" "route_reply E MAX_FAKE_NETLINK_REPLY seq pid dump req = Inr out"
  shows "part_reply seq pid dump out"
proof (cases dump)
  case True
  let ?c = MAX_FAKE_NETLINK_REPLY
  have empty: "part_reply seq pid True (nl_build_done ?c seq pid [])"
    using leaves_part [OF leaves_refl assms(1,2), of True] by simp
  from True assms(3) obtain o1 where o1: "relay_route_dump E ?c seq pid req = Inr o1" "out = (if o1 = [] then nl_build_done ?c seq pid [] else o1)"
    by (auto simp: route_reply_def split: sum.split_asm)
  show ?thesis
  proof (cases "o1 = []")
    case False
    with o1(1) obtain ds o2 saw where o2: "relay_rounds E ?c seq pid 64 ds [] = Inr (o2, saw)"
      "o1 = (if o2 = [] \<or> saw then o2 else nl_build_done ?c seq pid o2)"
      by (auto simp: relay_route_dump_def Let_def split: sum.split_asm if_split_asm)
    have x: "(length o2 + 64 \<le> ?c \<or> o2 = []) \<and> (if saw then ends_dump seq pid o2 \<and> o2 \<noteq> [] else extends seq pid not_done [] o2)"
      using rounds_extend [OF o2(1) assms(1,2)] by simp
    show ?thesis
    proof (cases saw)
      case True
      with x o2(2) o1(2) \<open>dump\<close> show ?thesis by (auto simp: part_reply_def ends_extends)
    next
      case ns: False
      with x o2(2) False have "extends seq pid not_done [] o2" "length o2 + 20 \<le> ?c" by auto
      from done_ends [OF this assms(1,2)] ns o2(2) o1(2) False \<open>dump\<close> show ?thesis
        by (auto simp: part_reply_def ends_extends split: if_split_asm)
    qed
  qed (use o1 empty True in simp)
next
  case False
  have "leaves seq pid MAX_FAKE_NETLINK_REPLY 0 not_done [] (nl_build_error MAX_FAKE_NETLINK_REPLY seq pid 0 [])"
    by (rule builds_leaves [OF error_builds [where P = not_done, OF cap_facts(2) assms(1,2)]]) simp_all
  with leaves_part [of seq pid False, OF _ assms(1,2)] False assms(3) show ?thesis by (auto simp: route_reply_def)
qed

lemma error_good:
  assumes "seq < 2 ^ 32" "pid < 2 ^ 32"
  shows "good_reply seq pid False (nl_build_error MAX_FAKE_NETLINK_REPLY seq pid e [])"
proof -
  have "leaves seq pid MAX_FAKE_NETLINK_REPLY 0 not_done [] (nl_build_error MAX_FAKE_NETLINK_REPLY seq pid e [])"
    by (rule builds_leaves [OF error_builds [where P = not_done, OF cap_facts(2) assms]]) simp_all
  moreover have "nl_build_error MAX_FAKE_NETLINK_REPLY seq pid e [] \<noteq> []"
    by (simp add: nl_build_error_def nl_finish_def cap_facts NLMSG_HDRLEN_def nl_header_def le_bytes_def)
  ultimately show ?thesis using leaves_part [of seq pid False, OF _ assms] by (simp add: good_reply_def part_reply_def)
qed

lemma netlink_reply_messages_fact:
  assumes "netlink_reply E pid m a n = Inr out" "pid < 2 ^ 32" "proper_host E"
  shows "case read_request m a n of
      Inl e \<Rightarrow> good_reply 0 pid False out
    | Inr req \<Rightarrow> good_reply (field 4 req 8) pid (request_dump req) out"
proof (cases "read_request m a n")
  case (Inl e)
  with assms(1) error_good [of 0 pid] assms(2) show ?thesis by (auto simp: netlink_reply_def)
next
  case (Inr req)
  let ?s = "field 4 req 8" and ?d = "request_dump req" and ?c = MAX_FAKE_NETLINK_REPLY
  have s: "?s < 2 ^ 32" using field_less [of 4 req 8] by simp
  have other: "part_reply ?s pid ?d (if ?d then nl_build_done ?c ?s pid [] else nl_build_error ?c ?s pid 0 [])"
    using leaves_part [OF leaves_refl s assms(2), of True] error_good [OF s assms(2)] by (auto simp: good_reply_def part_reply_def)
  let ?r = "if field 2 req 4 = RTM_GETLINK then Inr (link_reply E ?c ?s pid ?d req)
      else if field 2 req 4 = RTM_GETADDR then Inr (addr_reply E ?c ?s pid ?d req)
      else if field 2 req 4 = RTM_GETROUTE then route_reply E ?c ?s pid ?d req
      else Inr (if ?d then nl_build_done ?c ?s pid [] else nl_build_error ?c ?s pid 0 []) :: byte list res"
  from assms(1) Inr obtain o1 where r: "?r = Inr o1"
    and out: "out = (if o1 = [] then nl_build_error ?c ?s pid (- errno_num EINVAL) [] else o1)"
    by (simp add: netlink_reply_def Let_def split: sum.split_asm)
  have "part_reply ?s pid ?d o1"
    using r link_reply_part [OF s assms(2,3)] addr_reply_part [OF s assms(2,3)] route_reply_part [OF s assms(2)] other
    by (metis sum.inject(2))
  note o1 = this out
  show ?thesis
  proof (cases "o1 = []")
    case True
    with o1 have "\<not> ?d" by (auto simp: part_reply_def)
    with True o1 error_good [OF s assms(2)] Inr show ?thesis by (simp add: good_reply_def)
  qed (use o1 Inr in \<open>simp add: good_reply_def part_reply_def\<close>)
qed

text \<open>C38: a reply consists of whole messages. Whatever a tracee sends to an emulated netlink socket, the reply that is kept for it
  is not empty, has at most \<open>MAX_FAKE_NETLINK_REPLY\<close> bytes and is a sequence of whole, padded messages with the number of the
  request and the process as their receiver; when the request asks for a dump, the last message ends it and no other one does. This
  holds for all interfaces and routes the host may report, and for requests that cannot be read.\<close>

theorem netlink_reply_messages:
  assumes "netlink_reply E pid m a n = Inr out" "pid < 2 ^ 32" "proper_host E"
  shows "case read_request m a n of
      Inl e \<Rightarrow> good_reply 0 pid False out
    | Inr req \<Rightarrow> good_reply (field 4 req 8) pid (request_dump req) out"
  using netlink_reply_messages_fact [OF assms] .

section \<open>Datagrams\<close>

lemma datagram_skip:
  assumes "\<forall>m\<in>set ms. nl_message seq pid m \<and> not_done (msg_type m)"
  shows "datagram_end (pre @ concat ms @ rest) (length pre) = datagram_end (pre @ concat ms @ rest) (length pre + length (concat ms))"
  using assms
proof (induction ms arbitrary: pre)
  case (Cons m ms)
  then have m: "nl_message seq pid m" "not_done (msg_type m)" by auto
  let ?r = "pre @ concat (m # ms) @ rest"
  have f: "field 4 ?r (length pre) = field 4 m 0" "field 2 ?r (length pre + 4) = msg_type m"
    using message_length [OF m(1)] field_skip [of 4 pre "m @ concat ms @ rest" 0] field_skip [of 2 pre "m @ concat ms @ rest" 4]
    by (simp_all add: field_append msg_type_def NLMSG_HDRLEN_def)
  have l: "length m = align4 (field 4 m 0)" using m(1) by (simp add: nl_message_def)
  have "datagram_end ?r (length pre) = datagram_end ?r (length pre + length m)"
    using message_length [OF m(1)] m(2) f l by (subst datagram_end.simps) (simp add: Let_def)
  also have "\<dots> = datagram_end ?r (length pre + length (concat (m # ms)))"
    using Cons.IH [of "pre @ m"] Cons.prems by (simp add: add.assoc)
  finally show ?case .
qed simp

lemma datagram_of_dump:
  assumes "extends seq pid not_done [] data" "nl_message seq pid d" "msg_type d = NLMSG_DONE"
  shows "fake_netlink_datagram_len (data @ d) = (if data = [] then length d else length data)"
proof -
  from assms(1) obtain ms where ms: "data = concat ms" "\<forall>m\<in>set ms. nl_message seq pid m \<and> not_done (msg_type m)"
    unfolding extends_def by auto
  have f: "field 4 (data @ d) (length data) = field 4 d 0" "field 2 (data @ d) (length data + 4) = NLMSG_DONE"
    using assms(3) field_skip [of 4 data d 0] field_skip [of 2 data d 4] by (simp_all add: msg_type_def)
  have "datagram_end (data @ d) (length data) = length data"
    using message_length [OF assms(2)] f by (subst datagram_end.simps) (simp add: Let_def)
  with datagram_skip [OF ms(2), of "[]" d] ms(1) show ?thesis by (simp add: fake_netlink_datagram_len_def)
qed

lemma datagram_len_pos: "reply \<noteq> [] \<Longrightarrow> 0 < fake_netlink_datagram_len reply \<and> fake_netlink_datagram_len reply \<le> length reply"
  by (auto simp: fake_netlink_datagram_len_def Let_def)

lemma pending_nonempty: "pending_fake_netlink_datagram s = [] \<longleftrightarrow> fs_reply s = [] \<or> length (fs_reply s) \<le> fs_off s"
  using datagram_len_pos [of "drop (fs_off s) (fs_reply s)"]
  by (cases "length (fs_reply s) \<le> fs_off s") (auto simp: pending_fake_netlink_datagram_def)

text \<open>Receiving until nothing is left.\<close>

function drain :: "fake_socket \<Rightarrow> byte list list" where
  "drain s = (let d = pending_fake_netlink_datagram s in
     if d = [] then [] else d # drain (consume_fake_netlink_datagram (length d) s))"
  by pat_completeness auto
termination
proof (relation "measure (\<lambda>s. length (fs_reply s) - fs_off s)", simp)
  fix s :: fake_socket and d
  assume d: "d = pending_fake_netlink_datagram s" "d \<noteq> []"
  then have "\<not> (fs_reply s = [] \<or> length (fs_reply s) \<le> fs_off s)" using pending_nonempty by blast
  with d(2) show "(consume_fake_netlink_datagram (length d) s, s) \<in> measure (\<lambda>s. length (fs_reply s) - fs_off s)"
    by (cases d) (auto simp: consume_fake_netlink_datagram_def)
qed

declare drain.simps [simp del]

lemma drain_all: "concat (drain s) = drop (fs_off s) (fs_reply s)"
proof (induction s rule: drain.induct)
  case (1 s)
  let ?d = "pending_fake_netlink_datagram s" and ?r = "drop (fs_off s) (fs_reply s)"
  show ?case
  proof (cases "?d = []")
    case True
    then show ?thesis using pending_nonempty [of s] by (subst drain.simps) auto
  next
    case False
    then have ne: "fs_reply s \<noteq> []" "\<not> length (fs_reply s) \<le> fs_off s" using pending_nonempty [of s] by auto
    then have d: "?d = take (length ?d) ?r" "length ?d \<le> length ?r"
      using datagram_len_pos [of ?r] by (auto simp: pending_fake_netlink_datagram_def min_def)
    have "concat (drain s) = ?d @ concat (drain (consume_fake_netlink_datagram (length ?d) s))"
      using False by (subst drain.simps) (simp add: Let_def)
    also have "concat (drain (consume_fake_netlink_datagram (length ?d) s)) = drop (length ?d) ?r"
      using "1.IH" [OF refl False] d(2) by (auto simp: consume_fake_netlink_datagram_def add.commute)
    finally show ?thesis using d(1) by (metis append_take_drop_id)
  qed
qed

lemma drain_dump:
  assumes "ends_dump seq pid out"
  shows "\<exists>data d. out = data @ d \<and> nl_message seq pid d \<and> msg_type d = NLMSG_DONE \<and>
    drain (s\<lparr>fs_reply := out, fs_off := 0\<rparr>) = (if data = [] then [d] else [data, d])"
proof -
  from assms obtain data d where o: "out = data @ d" "extends seq pid not_done [] data" "nl_message seq pid d" "msg_type d = NLMSG_DONE"
    unfolding ends_dump_def by blast
  have ne: "d \<noteq> []" using message_length [OF o(3)] by (auto simp: NLMSG_HDRLEN_def)
  have alone: "fake_netlink_datagram_len d = length d" using datagram_of_dump [of seq pid "[]" d] o(3,4) by simp
  have last: "drain (s\<lparr>fs_reply := data @ d, fs_off := length data\<rparr>) = [d]"
    using ne alone
    by (subst drain.simps, subst drain.simps) (simp add: pending_fake_netlink_datagram_def consume_fake_netlink_datagram_def Let_def)
  have "drain (s\<lparr>fs_reply := data @ d, fs_off := 0\<rparr>) = (if data = [] then [d] else [data, d])"
  proof (cases "data = []")
    case False
    then show ?thesis using ne last datagram_of_dump [OF o(2-4)]
      by (subst drain.simps) (simp add: pending_fake_netlink_datagram_def consume_fake_netlink_datagram_def Let_def)
  qed (use last in simp)
  with o show ?thesis by blast
qed

text \<open>C39: a dump is received completely. The receiver of the answer to a dump gets the messages in one datagram, then the end of the dump
  in a datagram of its own, and then nothing: there are never more than two datagrams, and together they are the reply.\<close>

theorem dump_received:
  assumes "netlink_reply E pid m a n = Inr out" "pid < 2 ^ 32" "proper_host E" "read_request m a n = Inr req" "request_dump req"
  shows "\<exists>data d. out = data @ d \<and> nl_message (field 4 req 8) pid d \<and> msg_type d = NLMSG_DONE \<and>
    drain (s\<lparr>fs_reply := out, fs_off := 0\<rparr>) = (if data = [] then [d] else [data, d])"
  using drain_dump netlink_reply_messages_fact [OF assms(1-3)] assms(4,5) by (simp add: good_reply_def)

section \<open>The search for an acknowledgement\<close>

text \<open>The search goes on after a message that is whole and not the answer.\<close>

definition ack_continues :: "byte list \<Rightarrow> nat \<Rightarrow> nat \<Rightarrow> bool" where
  "ack_continues reply seq off \<longleftrightarrow> off + NLMSG_HDRLEN + 4 \<le> length reply \<and> NLMSG_HDRLEN \<le> field 4 reply off \<and>
     \<not> (field 2 reply (off + 4) = NLMSG_ERROR \<and> field 4 reply (off + 8) = seq)"

inductive scanned :: "byte list \<Rightarrow> nat \<Rightarrow> nat \<Rightarrow> bool" for reply seq where
  first: "scanned reply seq 0"
| later: "scanned reply seq off \<Longrightarrow> ack_continues reply seq off \<Longrightarrow> scanned reply seq (off + align4_u32 (field 4 reply off))"

lemma ack_step: "ack_continues reply seq off \<Longrightarrow> ack_scan reply seq off = ack_scan reply seq (off + align4_u32 (field 4 reply off))"
  by (subst ack_scan.simps) (auto simp: ack_continues_def Let_def)

lemma ack_stop: "\<not> ack_continues reply seq off \<Longrightarrow> ack_scan reply seq off \<noteq> None"
  by (subst ack_scan.simps) (auto simp: ack_continues_def Let_def)

lemma align4_u32_zero: "n < 2 ^ 32 \<Longrightarrow> 2 ^ 32 - 3 \<le> n \<Longrightarrow> align4_u32 n = 0"
proof -
  assume "n < 2 ^ 32" "2 ^ 32 - 3 \<le> n"
  then have "(n + 3) mod 2 ^ 32 = n + 3 - 2 ^ 32" by (simp add: mod_if)
  with \<open>n < 2 ^ 32\<close> show ?thesis by (simp add: align4_u32_def)
qed

lemma align4_u32_pos: "NLMSG_HDRLEN \<le> n \<Longrightarrow> n < 2 ^ 32 - 3 \<Longrightarrow> 0 < align4_u32 n"
  by (simp add: align4_u32_def NLMSG_HDRLEN_def)

lemma ack_loop:
  assumes "ack_continues reply seq off" "align4_u32 (field 4 reply off) = 0"
  shows "ack_scan reply seq off = None"
proof (rule ccontr)
  assume "ack_scan reply seq off \<noteq> None"
  then obtain y where y: "ack_scan reply seq off = Some y" by blast
  let ?P = "\<lambda>reply seq off y. \<not> (ack_continues reply seq off \<and> align4_u32 (field 4 reply off) = 0)"
  have "?P reply seq off y"
  proof (rule ack_scan.raw_induct [where P = ?P, OF _ y])
    fix f reply seq off y
    assume IH: "\<And>reply seq off y. f reply seq off = Some y \<Longrightarrow> ?P reply seq off y"
      and body: "(if off + NLMSG_HDRLEN + 4 \<le> length reply
         then let mlen = field 4 reply off
              in if mlen < NLMSG_HDRLEN then Some None
                 else if field 2 reply (off + 4) = NLMSG_ERROR \<and> field 4 reply (off + 8) = seq then Some (Some off)
                 else f reply seq (off + align4_u32 mlen)
         else Some None) = Some y"
    show "?P reply seq off y"
    proof
      assume c: "ack_continues reply seq off \<and> align4_u32 (field 4 reply off) = 0"
      then have "f reply seq off = Some y" using body by (simp add: ack_continues_def Let_def split: if_split_asm)
      with IH c show False by blast
    qed
  qed
  with assms show False by blast
qed

text \<open>C40: when the search ends. The search for the answer to a request in what a tracee received does not end exactly when it comes
  to a message, before the answer, that claims a length of more than \<open>2 ^ 32 - 4\<close> bytes; in every other buffer, whatever it holds,
  it ends.\<close>

theorem ack_scan_ends:
  "ack_scan reply seq 0 = None \<longleftrightarrow>
    (\<exists>off. scanned reply seq off \<and> ack_continues reply seq off \<and> 2 ^ 32 - 3 \<le> field 4 reply off)"
proof
  assume none: "ack_scan reply seq 0 = None"
  show "\<exists>off. scanned reply seq off \<and> ack_continues reply seq off \<and> 2 ^ 32 - 3 \<le> field 4 reply off"
  proof (rule ccontr)
    assume no: "\<nexists>off. scanned reply seq off \<and> ack_continues reply seq off \<and> 2 ^ 32 - 3 \<le> field 4 reply off"
    have "ack_scan reply seq off \<noteq> None" if "scanned reply seq off" for off
      using that
    proof (induction "length reply - off" arbitrary: off rule: less_induct)
      case less
      show ?case
      proof (cases "ack_continues reply seq off")
        case True
        with no less.prems have "0 < align4_u32 (field 4 reply off)" using align4_u32_pos [of "field 4 reply off"]
          by (auto simp: ack_continues_def not_le)
        with True have "length reply - (off + align4_u32 (field 4 reply off)) < length reply - off"
          by (auto simp: ack_continues_def NLMSG_HDRLEN_def)
        from less.hyps [OF this scanned.later [OF less.prems True]] ack_step [OF True] show ?thesis by simp
      qed (rule ack_stop)
    qed
    with none scanned.first show False by blast
  qed
next
  assume "\<exists>off. scanned reply seq off \<and> ack_continues reply seq off \<and> 2 ^ 32 - 3 \<le> field 4 reply off"
  then obtain off where off: "scanned reply seq off" "ack_continues reply seq off" "2 ^ 32 - 3 \<le> field 4 reply off" by blast
  have "field 4 reply off < 2 ^ 32" using field_less [of 4 reply off] by simp
  with off have "ack_scan reply seq off = None" by (intro ack_loop align4_u32_zero)
  moreover have "ack_scan reply seq 0 = ack_scan reply seq off" using off(1)
    by induction (simp_all add: ack_step)
  ultimately show "ack_scan reply seq 0 = None" by simp
qed

text \<open>Such a message: one header that is not an error, with a length of \<open>2 ^ 32 - 1\<close>.\<close>

lemma ack_scan_hangs: "ack_scan (nl_header (2 ^ 32 - 1) 16 0 7 0 @ replicate 4 0) 7 0 = None"
  using header_fields [of "2 ^ 32 - 1" 16 7 0 0 "replicate 4 0"]
  by (intro ack_loop) (simp_all add: ack_continues_def NLMSG_HDRLEN_def NLMSG_ERROR_def align4_u32_def)

section \<open>Witnesses\<close>

text \<open>A request for all links, in memory that is mapped, on a host that does not tell its interfaces.\<close>

definition example_request :: "byte list" where
  "example_request = nl_header 16 RTM_GETLINK 0x301 7 0"

definition example_memory :: memory where
  "example_memory = poke_bytes (\<lambda>x. Some 0) 0x1000 example_request"

definition example_env :: net_env where
  "example_env = \<lparr>ifaddrs = None, name_index = (\<lambda>n. 0), inet_socket = False, if_mtu = (\<lambda>n. None), if_hwaddr = (\<lambda>n. None),
     route_socket = False, route_dump = (\<lambda>r. []), stale = [], rtm_max = 99, android = True, probe_socket = False, probe_bind = False,
     probe_send = None\<rparr>"

lemma example_read: "read_request example_memory 0x1000 16 = Inr example_request"
proof -
  have l: "length example_request = 16" by (simp add: example_request_def NLMSG_HDRLEN_def)
  have "peek_bytes example_memory 0x1000 16 = Some example_request"
    using peek_poked [where bs = example_request and m = "\<lambda>x. Some 0" and a = "0x1000"] l by (simp add: example_memory_def)
  moreover have "span_mapped example_memory 0x1000 16"
    by (simp add: span_mapped_def example_memory_def poke_bytes_def)
  ultimately have "read_data example_memory 0x1000 16 = Inr example_request"
    by (simp add: read_data_def read_words_mapped VM_FAST_THRESHOLD_def)
  then show ?thesis by (simp add: read_request_def NLMSG_HDRLEN_def)
qed

lemma example_fields: "field 4 example_request 8 = 7" "field 2 example_request 4 = RTM_GETLINK" "request_dump example_request"
  by (simp_all add: example_request_def request_dump_def NLM_F_DUMP_def RTM_GETLINK_def field_def nl_header_def le_value_bytes)

lemma example_reply: "\<exists>out. netlink_reply example_env 5 example_memory 0x1000 16 = Inr out"
  by (simp add: netlink_reply_def example_read example_fields Let_def)

theorem netlink_reply_messages_witness:
  "\<exists>out. netlink_reply example_env 5 example_memory 0x1000 16 = Inr out \<and> good_reply 7 5 True out"
proof -
  obtain out where out: "netlink_reply example_env 5 example_memory 0x1000 16 = Inr out" using example_reply by blast
  have "proper_host example_env" by (simp add: proper_host_def example_env_def)
  from netlink_reply_messages [OF out _ this] show ?thesis using out by (simp add: example_read example_fields)
qed

theorem dump_received_witness:
  "\<exists>out data d. netlink_reply example_env 5 example_memory 0x1000 16 = Inr out \<and> out = data @ d \<and> msg_type d = NLMSG_DONE \<and>
    drain \<lparr>fs_fd = 3, fs_reply = out, fs_off = 0\<rparr> = (if data = [] then [d] else [data, d])"
proof -
  obtain out where out: "netlink_reply example_env 5 example_memory 0x1000 16 = Inr out" using example_reply by blast
  have "proper_host example_env" by (simp add: proper_host_def example_env_def)
  from dump_received [OF out _ this example_read example_fields(3), where s = "\<lparr>fs_fd = 3, fs_reply = [], fs_off = 0\<rparr>"]
  obtain data d where "out = data @ d" "msg_type d = NLMSG_DONE"
    "drain \<lparr>fs_fd = 3, fs_reply = out, fs_off = 0\<rparr> = (if data = [] then [d] else [data, d])" by auto
  with out show ?thesis by blast
qed

end
