(* ===== verification/Event.thy ===== *)
theory Event
  imports Stage Sigsys
begin

text \<open>
  What the tracer does when one tracee stops (\<^verbatim>\<open>src/tracee/event.c\<close>): which stops enter a system call,
  which leave one, which are skipped, and how the tracee is restarted. The order in which the kernel reports
  the event of the filter and the entry of a call is found out at the first such event.
\<close>

section \<open>Wait statuses\<close>

type_synonym wait_status = u32

definition WIFEXITED :: "wait_status \<Rightarrow> bool" where
  "WIFEXITED s \<longleftrightarrow> s AND 0x7F = 0"

definition WEXITSTATUS :: "wait_status \<Rightarrow> int" where
  "WEXITSTATUS s = uint (drop_bit 8 s AND 0xFF)"

definition WIFSIGNALED :: "wait_status \<Rightarrow> bool" where
  "WIFSIGNALED s \<longleftrightarrow> s AND 0x7F \<noteq> 0 \<and> s AND 0x7F \<noteq> 0x7F"

definition WIFSTOPPED :: "wait_status \<Rightarrow> bool" where
  "WIFSTOPPED s \<longleftrightarrow> s AND 0xFF = 0x7F"

text \<open>\<open>(status & 0xfff00) >> 8\<close>: the signal, and the event of \<open>ptrace(2)\<close> above it.\<close>

definition stop_code :: "wait_status \<Rightarrow> int" where
  "stop_code s = uint (drop_bit 8 (s AND 0xFFF00))"

definition W_STOPCODE :: "int \<Rightarrow> wait_status" where
  "W_STOPCODE c = word_of_int (c * 256 + 0x7F)"

definition SIGTRAP :: int where "SIGTRAP = 5"
definition SIGSTOP :: int where "SIGSTOP = 19"
definition SYSCALL_STOP :: int where "SYSCALL_STOP = 0x85"

definition event_code :: "int \<Rightarrow> int" where
  "event_code n = SIGTRAP + n * 256"

definition EVENT_FORK :: int where "EVENT_FORK = event_code 1"
definition EVENT_VFORK :: int where "EVENT_VFORK = event_code 2"
definition EVENT_CLONE :: int where "EVENT_CLONE = event_code 3"
definition EVENT_EXEC :: int where "EVENT_EXEC = event_code 4"
definition EVENT_VFORK_DONE :: int where "EVENT_VFORK_DONE = event_code 5"
definition EVENT_EXIT :: int where "EVENT_EXIT = event_code 6"
definition EVENT_SECCOMP :: int where "EVENT_SECCOMP = event_code 7"
definition EVENT_SECCOMP2 :: int where "EVENT_SECCOMP2 = event_code 8"

definition CLONE_VFORK :: word_t where "CLONE_VFORK = 0x4000"
definition FILTER_SYSEXIT_FLAG :: word_t where "FILTER_SYSEXIT_FLAG = 1"

section \<open>State\<close>

text \<open>The static variables of the file. \<open>seccomp_after_enter\<close> is the newer order of the kernel: the entry is
  reported first, the event of the filter after it.\<close>

record ev_globals =
  seccomp_after_enter :: bool
  seccomp_checked :: bool
  seccomp_detected :: bool
  deliver_sigtrap :: bool
  last_exit_status :: int
  root_exited :: bool

text \<open>The kernel and the handlers. \<open>event_message\<close> is \<open>PTRACE_GETEVENTMSG\<close>; \<open>seccomp_info\<close> the number of the
  call when \<open>PTRACE_GETSIGINFO\<close> reports a signal of the filter; \<open>options_work\<close> whether one of the two attempts at
  \<open>PTRACE_SETOPTIONS\<close> succeeds.\<close>

record ev_env =
  ev_ptrace :: ptracer
  ev_handlers :: handlers
  ev_sigsys :: sigsys_env
  event_message :: "thread \<Rightarrow> word_t option"
  seccomp_info :: "thread \<Rightarrow> word_t option"
  options_work :: "thread \<Rightarrow> bool"
  assume_new_seccomp :: bool

text \<open>What the rest of the tracer has to do: restart the tracee with a signal (-1 to leave it stopped); the same,
  returning before the end of the function; end it; record a new child first.\<close>

datatype outcome = Signal int | Early int | Ended | Child word_t

type_synonym ev_state = "ev_globals \<times> thread \<times> memory"

section \<open>The stops of a system call\<close>

definition sysexit_necessary :: "thread \<Rightarrow> bool" where
  "sysexit_necessary t \<longleftrightarrow> sysexit_pending t \<or> chained t \<noteq> None \<or> restore_after_seccomp t"

definition default_restart :: "thread \<Rightarrow> thread" where
  "default_restart t =
     (if restart_how t = RESTART_UNSET
      then t\<lparr>restart_how := (if seccomp t = ENABLED \<and> \<not> sysexit_necessary t then PTRACE_CONT else PTRACE_SYSCALL)\<rparr>
      else t)"

definition choose_restart :: "thread \<Rightarrow> thread" where
  "choose_restart t =
     (if seccomp t \<noteq> ENABLED then t
      else if status t = 0 then t\<lparr>restart_how := PTRACE_SYSCALL, sysexit_pending := True\<rparr>
      else t\<lparr>restart_how := PTRACE_CONT, sysexit_pending := False\<rparr>)"

text \<open>A signal that was held back while calls were chained is delivered at the end of the chain.\<close>

definition redeliver :: "thread \<Rightarrow> int \<times> thread" where
  "redeliver t =
     (if suppressed_signal t \<noteq> 0 \<and> chained t = None \<and> \<not> restore_after_seccomp t
      then (suppressed_signal t, t\<lparr>suppressed_signal := 0\<rparr>) else (0, t))"

definition translate_or_skip :: "ptracer \<Rightarrow> handlers \<Rightarrow> thread \<Rightarrow> (int \<times> thread) res" where
  "translate_or_skip k H t =
     (if already_handled_enter t then Inr (0, t\<lparr>already_handled_enter := False, restart_how := PTRACE_SYSCALL\<rparr>)
      else (case translate_syscall k H t of
          Inl e \<Rightarrow> Inl e
        | Inr t' \<Rightarrow> Inr (redeliver (if status t = 0 then t'\<lparr>skip_next_signal := (get_sysnum CURRENT t' = PR_void)\<rparr> else t'))))"

definition finish_disabling :: "thread \<Rightarrow> thread" where
  "finish_disabling t =
     (if seccomp t = DISABLING then t\<lparr>restart_how := PTRACE_SYSCALL, seccomp := DISABLED\<rparr> else t)"

definition handle_syscall_stop :: "ptracer \<Rightarrow> handlers \<Rightarrow> thread \<Rightarrow> (outcome \<times> thread) res" where
  "handle_syscall_stop k H t =
     (if \<not> has_exe t then Inr (Early 0, t\<lparr>restart_how := PTRACE_CONT\<rparr>)
      else if seccomp t = DISABLING
      then Inr (Signal 0, t\<lparr>seccomp := DISABLED, status := (if status t = 0 then 1 else status t)\<rparr>)
      else (case translate_or_skip k H (choose_restart t) of
          Inl e \<Rightarrow> Inl e
        | Inr (s, t) \<Rightarrow> Inr (Signal s, finish_disabling t)))"

text \<open>The event of the filter, with its flags. The order is found out at the first one.\<close>

definition detect_order :: "ev_globals \<times> thread \<Rightarrow> ev_globals \<times> thread" where
  "detect_order gt =
     (let (g, t) = gt in
      if seccomp_detected g then (g, t)
      else (g\<lparr>seccomp_detected := True, seccomp_after_enter := (status t \<noteq> 0)\<rparr>, t\<lparr>seccomp := ENABLED\<rparr>))"

text \<open>\<open>after_enter\<close> is the order that was known when the function was entered, \<open>necessary\<close> whether the exit of a
  call was pending then.\<close>

definition handle_seccomp_enter :: "ptracer \<Rightarrow> handlers \<Rightarrow> bool \<Rightarrow> thread \<Rightarrow> thread res" where
  "handle_seccomp_enter k H after_enter t =
     (case translate_syscall k H (t\<lparr>restart_how := PTRACE_CONT\<rparr>) of
        Inl e \<Rightarrow> Inl e
      | Inr t \<Rightarrow>
         (let t = (if get_sysnum CURRENT t = PR_void then t\<lparr>skip_next_signal := True\<rparr> else t);
              t = (if seccomp t = DISABLING then t\<lparr>restart_how := PTRACE_SYSCALL\<rparr> else t)
          in Inr (if \<not> after_enter \<and> restart_how t = PTRACE_SYSCALL \<and> \<not> voided_cancelled t
                  then t\<lparr>already_handled_enter := True\<rparr> else t)))"

definition handle_seccomp_stop ::
  "ptracer \<Rightarrow> handlers \<Rightarrow> bool \<Rightarrow> bool \<Rightarrow> word_t option \<Rightarrow> ev_globals \<times> thread \<Rightarrow> (ev_globals \<times> thread) res" where
  "handle_seccomp_stop k H after_enter necessary msg gt =
     (case msg of
        None \<Rightarrow> Inr gt
      | Some flags \<Rightarrow>
         (let (g, t) = detect_order gt;
              now = (if seccomp_detected (fst gt) then after_enter else seccomp_after_enter g);
              t = t\<lparr>skip_next_signal := False\<rparr>;
              sysexit = (flags AND FILTER_SYSEXIT_FLAG \<noteq> 0)
          in if now \<and> status t \<noteq> 0 then Inr (g, t\<lparr>restart_how := last_restart_how t\<rparr>)
             else if \<not> sysexit \<and> status t \<noteq> 0 then Inl Crash
             else if seccomp t \<noteq> ENABLED then Inr (g, t)
             else if sysexit \<or> necessary then
               (if now then
                  (case translate_syscall k H (t\<lparr>restart_how := PTRACE_SYSCALL\<rparr>) of
                     Inl e \<Rightarrow> Inl e | Inr t \<Rightarrow> Inr (g, t\<lparr>restart_how := PTRACE_SYSCALL\<rparr>))
                else Inr (g, t\<lparr>restart_how := PTRACE_SYSCALL\<rparr>))
             else (case handle_seccomp_enter k H after_enter t of Inl e \<Rightarrow> Inl e | Inr t \<Rightarrow> Inr (g, t))))"

section \<open>Signals\<close>

definition handle_sigstop :: "thread \<Rightarrow> int \<times> thread" where
  "handle_sigstop t =
     (let (s, t) = (if \<not> has_exe t then (-1, t\<lparr>sigstop := SIGSTOP_PENDING\<rparr>) else (SIGSTOP, t))
      in if sigstop t = SIGSTOP_IGNORED then (0, t\<lparr>sigstop := SIGSTOP_ALLOWED\<rparr>) else (s, t))"

definition handle_sigsys_stop :: "ev_env \<Rightarrow> thread \<times> memory \<Rightarrow> (int \<times> thread \<times> memory) res" where
  "handle_sigsys_stop E tm =
     (let (t, m) = tm in
      case seccomp_info E t of
        None \<Rightarrow> Inr (SIGSYS, t, m)
      | Some nr \<Rightarrow>
         (let t = t\<lparr>already_handled_enter := False\<rparr>;
              r = (if status t = 0 then Inr t
                   else (case translate_syscall (ev_ptrace E) (ev_handlers E) t of
                       Inl e \<Rightarrow> Inl e | Inr t \<Rightarrow> Inr (t\<lparr>restore_sysarg1 := True\<rparr>)))
          in (case r of
              Inl e \<Rightarrow> Inl e
            | Inr t \<Rightarrow>
               (let t = t\<lparr>skip_next_signal := False\<rparr> in
                if nr = SYSCALL_AVOIDER then Inr (0, t\<lparr>restore_sysarg1 := False\<rparr>, m)
                else Inr (handle_seccomp_event (ev_ptrace E) (ev_sigsys E) (t, m))))))"

definition suppress_in_chain :: "int \<Rightarrow> thread \<Rightarrow> int \<times> thread" where
  "suppress_in_chain s t =
     (if chained t \<noteq> None \<or> restore_after_seccomp t then (0, t\<lparr>suppressed_signal := s\<rparr>) else (s, t))"

section \<open>The handler\<close>

definition keep_restart :: "thread \<Rightarrow> thread" where
  "keep_restart t = (if last_restart_how t \<noteq> RESTART_UNSET then t\<lparr>restart_how := last_restart_how t\<rparr> else t)"

definition handle_stop :: "ev_env \<Rightarrow> bool \<Rightarrow> bool \<Rightarrow> int \<Rightarrow> ev_state \<Rightarrow> (outcome \<times> ev_state) res" where
  "handle_stop E after_enter necessary c s =
     (let (g, t, m) = s; k = ev_ptrace E; H = ev_handlers E;
          syscall = (\<lambda>g. case handle_syscall_stop k H t of Inl e \<Rightarrow> Inl e | Inr (out, t) \<Rightarrow> Inr (out, g, t, m)) in
      if c = SIGTRAP then
        (if deliver_sigtrap g then Inr (Signal c, s)
         else if \<not> options_work E t then Inl Crash
         else syscall (g\<lparr>deliver_sigtrap := True\<rparr>))
      else if c = SYSCALL_STOP then syscall g
      else if c = EVENT_SECCOMP \<or> c = EVENT_SECCOMP2 then
        (case handle_seccomp_stop k H after_enter necessary (event_message E t) (g, t) of
           Inl e \<Rightarrow> Inl e | Inr (g, t) \<Rightarrow> Inr (Signal 0, g, t, m))
      else if c = EVENT_VFORK then Inr (Child CLONE_VFORK, s)
      else if c = EVENT_FORK \<or> c = EVENT_CLONE then Inr (Child 0, s)
      else if c = EVENT_VFORK_DONE \<or> c = EVENT_EXEC \<or> c = EVENT_EXIT then Inr (Signal 0, g, keep_restart t, m)
      else if c = SIGSTOP then (let (sig, t) = handle_sigstop t in Inr (Signal sig, g, t, m))
      else if c = SIGSYS then
        (case handle_sigsys_stop E (t, m) of Inl e \<Rightarrow> Inl e | Inr (sig, t, m) \<Rightarrow> Inr (Signal sig, g, t, m))
      else (let (sig, t) = suppress_in_chain c t in Inr (Signal sig, g, t, m)))"

text \<open>\<open>first\<close> is the tracee with the virtual number 1. \<open>PROOT_ASSUME_NEW_SECCOMP\<close> is looked up once.\<close>

definition handle_tracee_event :: "ev_env \<Rightarrow> bool \<Rightarrow> wait_status \<Rightarrow> ev_state \<Rightarrow> (outcome \<times> ev_state) res" where
  "handle_tracee_event E first st s =
     (let (g, t, m) = s; after_enter = seccomp_after_enter g in
      if WIFEXITED st \<or> WIFSIGNALED st then
        (let g = (if WIFEXITED st then g\<lparr>last_exit_status := WEXITSTATUS st\<rparr> else g);
             g = (if first then g\<lparr>root_exited := True\<rparr> else g)
         in Inr (Ended, g, t, m))
      else
        let g = (if seccomp_checked g then g
                 else g\<lparr>seccomp_after_enter := assume_new_seccomp E, seccomp_checked := True\<rparr>);
            necessary = sysexit_necessary t;
            t = default_restart t
        in if WIFSTOPPED st then handle_stop E after_enter necessary (stop_code st) (g, t, m)
           else Inr (Signal 0, g, t, m))"

definition seccomp_event_happens_after_enter_sigtrap :: "ev_globals \<Rightarrow> bool" where
  "seccomp_event_happens_after_enter_sigtrap g \<longleftrightarrow> \<not> seccomp_after_enter g"

text \<open>The request that restarts the tracee; \<open>ok\<close> is whether \<open>ptrace(2)\<close> accepts it.\<close>

definition restart_thread :: "bool \<Rightarrow> thread \<Rightarrow> thread" where
  "restart_thread ok t =
     (let how = (if restart_how t = RESTART_UNSET then PTRACE_SYSCALL else restart_how t)
      in if ok then t\<lparr>restart_how := RESTART_UNSET, last_restart_how := how\<rparr> else t\<lparr>restart_how := how\<rparr>)"

end
