(* ===== verification/Event_Spec.thy ===== *)
theory Event_Spec
  imports Event Stage_Spec
begin

text \<open>
  The stops of a tracee and the stages of its system calls keep in step: whichever of the two orders the
  kernel has, a call is entered before it is left, and what the tracer takes for an entry is one.
\<close>

section \<open>What a stage leaves alone\<close>

definition held :: "thread \<Rightarrow> bool \<times> restart \<times> bool \<times> bool \<times> bool" where
  "held t = (has_exe t, last_restart_how t, already_handled_enter t, pokedata_cancelled t, pokedata_relaunched t)"

lemma heldD:
  assumes "held t' = held t"
  shows "has_exe t' = has_exe t" "last_restart_how t' = last_restart_how t"
    "already_handled_enter t' = already_handled_enter t"
    "pokedata_cancelled t' = pokedata_cancelled t" "pokedata_relaunched t' = pokedata_relaunched t"
  using assms by (simp_all add: held_def)

lemma held_update [simp]:
  "held (t\<lparr>status := st\<rparr>) = held t" "held (t\<lparr>restart_how := how\<rparr>) = held t" "held (t\<lparr>regs := f\<rparr>) = held t"
  "held (t\<lparr>restore_original_regs := b\<rparr>) = held t" "held (t\<lparr>voided_cancelled := b\<rparr>) = held t"
  "held (t\<lparr>regs_were_changed := b\<rparr>) = held t" "held (t\<lparr>restore_after_seccomp := b\<rparr>) = held t"
  "held (t\<lparr>kregs := r\<rparr>) = held t" "held (t\<lparr>knum := n\<rparr>) = held t" "held (t\<lparr>chained := c\<rparr>) = held t"
  "held (t\<lparr>force_final_result := b\<rparr>) = held t" "held (t\<lparr>final_result := n\<rparr>) = held t"
  "held (t\<lparr>workaround_state := w\<rparr>) = held t" "held (t\<lparr>skip_next_signal := b\<rparr>) = held t"
  "held (t\<lparr>seccomp := m\<rparr>) = held t" "held (t\<lparr>suppressed_signal := i\<rparr>) = held t"
  "held (t\<lparr>sysexit_pending := b\<rparr>) = held t"
  by (simp_all add: held_def)

lemma held_poke [simp]:
  "held (poke_reg r x t) = held t" "seccomp (poke_reg r x t) = seccomp t"
  "restart_how (poke_reg r x t) = restart_how t" "status (poke_reg r x t) = status t"
  by (simp_all add: held_def poke_reg_def)

lemma held_poke_regs [simp]:
  "held (poke_regs l t) = held t" "seccomp (poke_regs l t) = seccomp t"
  "restart_how (poke_regs l t) = restart_how t" "status (poke_regs l t) = status t"
  by (induction l arbitrary: t) (auto simp: poke_regs_def)

lemma held_sysnum [simp]:
  "held (set_sysnum s t) = held t" "seccomp (set_sysnum s t) = seccomp t"
  "restart_how (set_sysnum s t) = restart_how t" "status (set_sysnum s t) = status t"
  by (simp_all add: set_sysnum_def)

lemma held_save [simp]:
  "held (save_current_regs v t) = held t" "seccomp (save_current_regs v t) = seccomp t"
  "restart_how (save_current_regs v t) = restart_how t" "status (save_current_regs v t) = status t"
  by (simp_all add: save_current_regs_def Let_def)

lemma held_restore [simp]:
  "held (restore_regs v t) = held t" "seccomp (restore_regs v t) = seccomp t"
  "restart_how (restore_regs v t) = restart_how t" "status (restore_regs v t) = status t"
  by (simp_all add: restore_regs_def)

lemma held_push:
  assumes "ptrace_works k"
  shows "fst (push_specific_regs k incl t) = None" "held (snd (push_specific_regs k incl t)) = held t"
    "seccomp (snd (push_specific_regs k incl t)) = seccomp t"
    "restart_how (snd (push_specific_regs k incl t)) = restart_how t"
    "status (snd (push_specific_regs k incl t)) = status t"
  using assms by (simp_all add: push_specific_regs_def push_regset_def ptrace_works_def Let_def)

section \<open>Handlers\<close>

text \<open>A handler may do as it likes with the registers and ask for the exit of a call, with \<open>restart_how\<close> and
  \<open>sysexit_pending\<close>, as those of \<open>socket\<close>, \<open>recvfrom\<close>, \<open>openat2\<close> and \<open>mount_setattr\<close> do; the handler of an exit
  may give up the filter (\<open>PTRACE_TRACEME\<close>).\<close>

definition asks_only :: "thread \<Rightarrow> thread \<Rightarrow> bool" where
  "asks_only t t' \<longleftrightarrow> held t' = held t \<and> (restart_how t' = restart_how t \<or> restart_how t' = PTRACE_SYSCALL)"

definition well_behaved :: "handlers \<Rightarrow> bool" where
  "well_behaved H \<longleftrightarrow> (\<forall>t.
     asks_only t (snd (enter_h H t)) \<and> seccomp (snd (enter_h H t)) = seccomp t \<and>
     asks_only t (snd (chained_enter_h H t)) \<and> seccomp (snd (chained_enter_h H t)) = seccomp t \<and>
     asks_only t (exit_h H t) \<and> (seccomp (exit_h H t) = seccomp t \<or> seccomp t = ENABLED \<and> seccomp (exit_h H t) = DISABLING) \<and>
     asks_only t (chained_exit_h H t) \<and> seccomp (chained_exit_h H t) = seccomp t \<and>
     (\<forall>p bs. asks_only t (write_h H p bs t) \<and> seccomp (write_h H p bs t) = seccomp t))"

lemma asks_only_refl [simp]: "asks_only t t" by (simp add: asks_only_def)

lemma asks_only_trans: "asks_only t u \<Longrightarrow> asks_only u v \<Longrightarrow> asks_only t v"
  by (auto simp: asks_only_def)

lemma enter_requested_asks:
  assumes "well_behaved H" "enter_requested H t = (st, t')"
  shows "asks_only t t' \<and> seccomp t' = seccomp t"
proof -
  have w: "asks_only u (svc_write H p n b u) \<and> seccomp (svc_write H p n b u) = seccomp u" for p n b u
    using assms(1) by (simp add: svc_write_def well_behaved_def)
  have svc: "asks_only u (perform_svc H s p u) \<and> seccomp (perform_svc H s p u) = seccomp u" for s p u
  proof -
    obtain ret b1 b2 where r: "svc_call H (detranslate_sysnum s) (svc_args p) = (ret, b1, b2)" by (metis prod_cases3)
    let ?n = "if s = ''getrandom'' then nat ret else wb_size1 p"
    let ?a = "svc_write H (orig_ptr1 p) ?n b1 u"
    let ?v = "if ret \<ge> 0 then svc_write H (orig_ptr2 p) (wb_size2 p) b2 ?a else u"
    have "asks_only u ?v \<and> seccomp ?v = seccomp u"
      using w [of u "orig_ptr1 p" ?n b1] w [of ?a "orig_ptr2 p" "wb_size2 p" b2] asks_only_trans by auto
    moreover have "perform_svc H s p u = save_current_regs MODIFIED (save_current_regs ORIGINAL
        (set_sysnum PR_void (poke_reg SYSARG_RESULT (word_of_int ret) ?v)))"
      by (simp add: perform_svc_def r Let_def)
    ultimately show ?thesis by (simp add: asks_only_def)
  qed
  have req: "asks_only u (snd (translate_requested H u)) \<and> seccomp (snd (translate_requested H u)) = seccomp u" for u
  proof -
    obtain st v where v: "enter_h H (save_current_regs ORIGINAL u) = (st, v)" by force
    with assms(1) have "asks_only (save_current_regs ORIGINAL u) v \<and> seccomp v = seccomp (save_current_regs ORIGINAL u)"
      unfolding well_behaved_def by (metis snd_conv)
    then show ?thesis using v by (simp add: translate_requested_def asks_only_def)
  qed
  obtain ext u where u: "chained_enter_h H t = (ext, u)" by force
  with assms(1) have c: "asks_only t u \<and> seccomp u = seccomp t" unfolding well_behaved_def by (metis snd_conv)
  from c svc [of u] req [of u] req [of t] assms(2) show ?thesis
    unfolding enter_requested_def Let_def u
    by (auto split: if_split_asm option.splits prod.splits intro: asks_only_trans)
qed

section \<open>The two stages\<close>

text \<open>After the entry the exit is awaited exactly when the tracee is restarted to stop there.\<close>

lemma enter_translated:
  assumes "ptrace_works k" "well_behaved H" "has_exe t" "\<not> pokedata_cancelled t" "\<not> pokedata_relaunched t" "status t = 0"
    and "restart_how t = PTRACE_CONT \<or> restart_how t = PTRACE_SYSCALL"
  obtains t' where "translate_syscall k H t = Inr t'" "held t' = held t" "seccomp t' = seccomp t"
    "restart_how t' = PTRACE_CONT \<and> status t' = 0 \<or> restart_how t' = PTRACE_SYSCALL \<and> status t' \<noteq> 0"
    "restart_how t = PTRACE_SYSCALL \<Longrightarrow> restart_how t' = PTRACE_SYSCALL"
proof -
  let ?f = "(fetched t)\<lparr>restore_original_regs := False, voided_cancelled := False\<rparr>"
  have f [simp]: "held (fetched t) = held t" "seccomp (fetched t) = seccomp t" "restart_how (fetched t) = restart_how t"
    "chained (fetched t) = chained t" by (simp_all add: fetched_def)
  have rel: "\<not> pokedata_relaunched ?f" using heldD(5) [OF f(1)] assms(5) by simp
  obtain st u where u: "(if chained ?f = None then enter_requested H ?f else enter_chained H ?f) = (st, u)" by force
  have uc: "asks_only ?f u \<and> seccomp u = seccomp ?f"
  proof (cases "chained ?f = None")
    case True
    with u enter_requested_asks [OF assms(2)] show ?thesis by metis
  next
    case False
    obtain s v where v: "chained_enter_h H ?f = (s, v)" by force
    with assms(2) have "asks_only ?f v \<and> seccomp v = seccomp ?f" unfolding well_behaved_def by (metis snd_conv)
    with u v False show ?thesis by (auto simp: enter_chained_def asks_only_def split: if_split_asm)
  qed
  let ?n = "note_status st u"
  have n: "held ?n = held t" "seccomp ?n = seccomp t" "restart_how ?n = restart_how u" "status ?n \<noteq> 0"
    using uc by (simp_all add: note_status_def asks_only_def)
  have ur: "restart_how u = PTRACE_CONT \<and> restart_how t = PTRACE_CONT \<or> restart_how u = PTRACE_SYSCALL"
    using uc assms(7) by (auto simp: asks_only_def)
  have npd: "\<not> pokedata_cancelled ?n" using heldD(4) [OF n(1)] assms(4) by simp
  obtain h z where z: "enter_stage k H (fetched t) = (True, h, z)" "held z = held t" "seccomp z = seccomp t"
    "restart_how z = restart_how u" "restart_how u = PTRACE_CONT \<Longrightarrow> status z = 0" "restart_how u \<noteq> PTRACE_CONT \<Longrightarrow> status z \<noteq> 0"
  proof (cases "restart_how u = PTRACE_CONT")
    case True
    let ?z = "poke_reg STACK_POINTER (peek_reg ORIGINAL STACK_POINTER ?n) (?n\<lparr>status := 0\<rparr>)"
    have "enter_stage k H (fetched t) = (True, status ?n, ?z)"
      using rel u n(3) npd True unfolding enter_stage_def Let_def by (simp add: peek_reg_def)
    then show thesis using True n by (intro that [of "status ?n" ?z]) simp_all
  next
    case False
    have "enter_stage k H (fetched t) = (True, 0, ?n)"
      using rel u n(3) npd False unfolding enter_stage_def Let_def by simp
    then show thesis using False n by (intro that) simp_all
  qed
  obtain e p where p: "push_specific_regs k (chained z = None) z = (e, p)" by force
  with held_push [OF assms(1), of "chained z = None" z]
  have e: "e = None" "held p = held z" "seccomp p = seccomp z" "restart_how p = restart_how z" "status p = status z" by simp_all
  obtain v where "push_stage k True h z = Inr (p\<lparr>voided_cancelled := v\<rparr>)"
    using p e(1) by (simp add: push_stage_def Let_def)
  moreover have "translate_syscall k H t = push_stage k True h z"
    using z(1) assms(1,3,6) by (simp add: translate_syscall_works)
  ultimately show thesis
    using z e ur by (intro that [of "p\<lparr>voided_cancelled := v\<rparr>"]) auto
qed

lemma exit_translated:
  assumes "ptrace_works k" "well_behaved H" "has_exe t" "\<not> pokedata_cancelled t" "\<not> pokedata_relaunched t" "status t \<noteq> 0"
    and "restart_how t = PTRACE_CONT \<or> restart_how t = PTRACE_SYSCALL"
  obtains t' where "translate_syscall k H t = Inr t'"
    "held t' = held t"
    "seccomp t' = seccomp t \<or> seccomp t = ENABLED \<and> seccomp t' = DISABLING"
    "restart_how t' = restart_how t \<or> restart_how t' = PTRACE_SYSCALL" "status t' = 0"
proof -
  let ?f = "(fetched t)\<lparr>restore_original_regs := True\<rparr>"
  have f [simp]: "held (fetched t) = held t" "seccomp (fetched t) = seccomp t" "restart_how (fetched t) = restart_how t"
    "chained (fetched t) = chained t" by (simp_all add: fetched_def)
  have rel: "\<not> pokedata_relaunched ?f" using heldD(5) [OF f(1)] assms(5) by simp
  obtain x where x: "exit_workaround H ?f = x" by blast
  have xc: "asks_only ?f x \<and> (seccomp x = seccomp ?f \<or> seccomp ?f = ENABLED \<and> seccomp x = DISABLING)"
  proof -
    let ?w = "?f\<lparr>workaround_state := SYSNUM_WORKAROUND_INACTIVE\<rparr>"
    have "asks_only ?w (exit_h H ?w) \<and> (seccomp (exit_h H ?w) = seccomp ?w \<or> seccomp ?w = ENABLED \<and> seccomp (exit_h H ?w) = DISABLING)"
      "asks_only ?f (chained_exit_h H ?f) \<and> seccomp (chained_exit_h H ?f) = seccomp ?f"
      using assms(2) unfolding well_behaved_def by blast+
    then show ?thesis
      unfolding x [symmetric] exit_workaround_def by (auto simp: asks_only_def split: if_split_asm)
  qed
  let ?y = "x\<lparr>status := 0, pokedata_cancelled := False\<rparr>"
  have y: "held ?y = held t" using xc assms(4) by (auto simp: asks_only_def held_def fetched_def)
  obtain z where z: "exit_stage H (fetched t) = Inr (True, z)" "held z = held t"
    "seccomp z = seccomp x" "restart_how z = restart_how x \<or> restart_how z = PTRACE_SYSCALL" "status z = 0"
  proof (cases "chained ?y")
    case None
    then show thesis using y rel x by (intro that [of ?y]) (simp_all add: exit_stage_def Let_def)
  next
    case (Some l)
    obtain z where nz: "chain_next_syscall ?y = Inr z" "held z = held ?y" "seccomp z = seccomp ?y"
      "restart_how z = restart_how ?y \<or> restart_how z = PTRACE_SYSCALL" "status z = status ?y"
    proof (cases l)
      case Nil
      with Some show thesis
        by (intro that [of "(if force_final_result ?y then poke_reg SYSARG_RESULT (final_result ?y) (?y\<lparr>chained := None\<rparr>)
                               else ?y\<lparr>chained := None\<rparr>)\<lparr>force_final_result := False, final_result := 0\<rparr>"])
           (simp_all add: chain_next_syscall_def Let_def)
    next
      case (Cons c l')
      obtain s args where c: "c = (s, args)" by force
      let ?p = "poke_reg SYSARG_NUM (detranslate_sysnum s)
         (poke_regs (zip sysarg_regs args) (?y\<lparr>restore_original_regs := False, chained := Some l'\<rparr>))"
      let ?q = "poke_reg INSTR_POINTER (peek_reg CURRENT INSTR_POINTER ?p - SYSTRAP_SIZE) ?p"
      from Some Cons c show thesis
        by (intro that [of "?q\<lparr>restart_how := PTRACE_SYSCALL\<rparr>"]) (simp_all add: chain_next_syscall_def Let_def)
    qed
    then show thesis using Some y rel x by (intro that [of z]) (simp_all add: exit_stage_def Let_def)
  qed
  obtain e p where p: "push_specific_regs k False z = (e, p)" by force
  with held_push [OF assms(1), of False z]
  have e: "e = None" "held p = held z" "seccomp p = seccomp z" "restart_how p = restart_how z" "status p = status z" by simp_all
  have "push_stage k False 0 z = Inr p"
    using p e(1) by (simp add: push_stage_def Let_def)
  moreover have "translate_syscall k H t = push_stage k False 0 z"
    using z(1) assms(1,3,6) by (simp add: translate_syscall_works)
  ultimately show thesis
    using z e xc f by (intro that [of p]) (auto simp: asks_only_def)
qed

section \<open>The kernel\<close>

text \<open>Where a tracee was last stopped: outside any call, at the event of the filter, at the entry of a call. In the
  newer order (\<open>new\<close>) the entry is reported before the event of the filter, in the older one after it. The next
  stop depends on the request that restarted the tracee; a call that goes on with \<open>PTRACE_CONT\<close> is over without a
  stop. A call whose number was replaced by -1 at the event of the filter is skipped by the older kernel, which
  reports its exit only.\<close>

datatype phase = Outside | Filter_stop | Entry_stop

datatype stop_kind = Entry | Filter | Exit | Other

definition skipped_call :: "thread \<Rightarrow> bool" where
  "skipped_call t \<longleftrightarrow> status t \<noteq> 0 \<and> voided_cancelled t"

definition syscall_code :: "ev_globals \<Rightarrow> int" where
  "syscall_code g = (if deliver_sigtrap g then SYSCALL_STOP else SIGTRAP)"

definition is_plain_signal :: "ev_env \<Rightarrow> ev_globals \<Rightarrow> thread \<Rightarrow> int \<Rightarrow> bool" where
  "is_plain_signal E g t c \<longleftrightarrow>
     (c = SIGTRAP \<and> deliver_sigtrap g) \<or> (c = SIGSYS \<and> seccomp_info E t = None) \<or>
     (0 < c \<and> c < 128 \<and> c \<noteq> SIGTRAP \<and> c \<noteq> SIGSYS)"

text \<open>A process is made by a call whose exit is either pending or of no interest.\<close>

definition may_fork :: "thread \<Rightarrow> bool" where
  "may_fork t \<longleftrightarrow> (status t = 0 \<longleftrightarrow> seccomp t = ENABLED \<and> \<not> sysexit_necessary t)"

inductive runs_to :: "thread \<Rightarrow> phase \<Rightarrow> phase \<Rightarrow> bool" where
  stays: "runs_to t ph ph"
| call_over: "last_restart_how t = PTRACE_CONT \<Longrightarrow> runs_to t ph Outside"

inductive kernel_stop :: "ev_env \<Rightarrow> bool \<Rightarrow> ev_globals \<Rightarrow> thread \<Rightarrow> phase \<Rightarrow> stop_kind \<Rightarrow> int \<Rightarrow> phase \<Rightarrow> bool"
  for E new g t ph where
  entry: "runs_to t ph ph0 \<Longrightarrow> last_restart_how t = PTRACE_SYSCALL \<Longrightarrow>
    ph0 = Outside \<or> \<not> new \<and> ph0 = Filter_stop \<and> \<not> skipped_call t \<Longrightarrow>
    kernel_stop E new g t ph Entry (syscall_code g) Entry_stop"
| filter: "runs_to t ph ph0 \<Longrightarrow>
    (if new then ph0 = Outside \<and> last_restart_how t = PTRACE_CONT \<or> ph0 = Entry_stop else ph0 = Outside) \<Longrightarrow>
    event_message E t \<noteq> None \<Longrightarrow> c = EVENT_SECCOMP \<or> c = EVENT_SECCOMP2 \<Longrightarrow>
    kernel_stop E new g t ph Filter c Filter_stop"
| exit: "runs_to t ph ph0 \<Longrightarrow> last_restart_how t = PTRACE_SYSCALL \<Longrightarrow>
    ph0 = Entry_stop \<or> ph0 = Filter_stop \<and> (new \<or> skipped_call t) \<Longrightarrow>
    kernel_stop E new g t ph Exit (syscall_code g) Outside"
| signal: "runs_to t ph Outside \<Longrightarrow> is_plain_signal E g t c \<Longrightarrow> kernel_stop E new g t ph Other c Outside"
| event: "runs_to t ph ph0 \<Longrightarrow> c = EVENT_VFORK_DONE \<or> c = EVENT_EXEC \<or> c = EVENT_EXIT \<Longrightarrow>
    kernel_stop E new g t ph Other c ph0"
| fork: "may_fork t \<Longrightarrow> ph = Entry_stop \<or> ph = Filter_stop \<and> (new \<or> last_restart_how t = PTRACE_CONT) \<Longrightarrow>
    c = EVENT_FORK \<or> c = EVENT_VFORK \<or> c = EVENT_CLONE \<Longrightarrow> kernel_stop E new g t ph Other c ph"

text \<open>The tracee runs up to its next stop, where the kernel has other registers and a new child has read them.\<close>

definition arrived :: "(nat \<Rightarrow> word_t) \<Rightarrow> word_t \<Rightarrow> thread \<Rightarrow> thread" where
  "arrived r n t = t\<lparr>kregs := r, knum := n\<rparr>"

inductive stop_step :: "ev_env \<Rightarrow> bool \<Rightarrow> phase \<times> ev_state \<Rightarrow> phase \<times> ev_state \<Rightarrow> bool" for E new where
  stop_step: "kernel_stop E new g (arrived r n t) ph kind c ph' \<Longrightarrow> WIFSTOPPED st \<Longrightarrow> stop_code st = c \<Longrightarrow>
    handle_tracee_event E first st (g, arrived r n t, m') = Inr (out, g', t', m'') \<Longrightarrow>
    out = Signal sig \<and> sig \<noteq> -1 \<or> out = Child fl \<Longrightarrow>
    stop_step E new (ph, g, t, m) (ph', g', restart_thread True t', m'')"

inductive stop_run :: "ev_env \<Rightarrow> bool \<Rightarrow> phase \<times> ev_state \<Rightarrow> phase \<times> ev_state \<Rightarrow> bool" for E new where
  rest: "stop_run E new x x"
| step: "stop_run E new x y \<Longrightarrow> stop_step E new y z \<Longrightarrow> stop_run E new x z"

section \<open>The invariant\<close>

text \<open>What holds at every stop, and what the phase adds.\<close>

definition ready :: "bool \<Rightarrow> ev_globals \<Rightarrow> thread \<Rightarrow> bool" where
  "ready new g t \<longleftrightarrow>
     has_exe t \<and> \<not> pokedata_cancelled t \<and> \<not> pokedata_relaunched t \<and> seccomp t \<noteq> DISABLING \<and>
     (\<not> seccomp_detected g \<longrightarrow> seccomp t = DISABLED) \<and> (seccomp_detected g \<longrightarrow> seccomp_after_enter g = new \<and> seccomp_checked g) \<and>
     (seccomp_after_enter g \<longrightarrow> new)"

fun phase_ok :: "bool \<Rightarrow> phase \<Rightarrow> thread \<Rightarrow> bool" where
  "phase_ok new Outside t \<longleftrightarrow> status t = 0 \<and> \<not> already_handled_enter t"
| "phase_ok new Entry_stop t \<longleftrightarrow> status t \<noteq> 0 \<and> \<not> already_handled_enter t \<and> last_restart_how t = PTRACE_SYSCALL"
| "phase_ok new Filter_stop t \<longleftrightarrow>
     (if last_restart_how t = PTRACE_CONT then status t = 0 \<and> \<not> already_handled_enter t
      else if new \<or> skipped_call t then status t \<noteq> 0 \<and> \<not> already_handled_enter t
      else already_handled_enter t = (status t \<noteq> 0))"

definition in_step :: "bool \<Rightarrow> phase \<Rightarrow> ev_globals \<Rightarrow> thread \<Rightarrow> bool" where
  "in_step new ph g t \<longleftrightarrow> ready new g t \<and> phase_ok new ph t \<and> restart_how t = RESTART_UNSET \<and>
     (last_restart_how t = PTRACE_SYSCALL \<or> last_restart_how t = PTRACE_CONT \<and> seccomp t = ENABLED)"

lemma runs_in_step: "runs_to t ph ph0 \<Longrightarrow> in_step new ph g t \<Longrightarrow> in_step new ph0 g t"
  by (cases ph) (auto simp: in_step_def elim!: runs_to.cases)

lemma arrived_fields [simp]:
  "status (arrived r n t) = status t" "last_restart_how (arrived r n t) = last_restart_how t"
  "already_handled_enter (arrived r n t) = already_handled_enter t" "seccomp (arrived r n t) = seccomp t"
  "restart_how (arrived r n t) = restart_how t" "skipped_call (arrived r n t) = skipped_call t"
  by (simp_all add: arrived_def skipped_call_def)

lemma arrived_in_step [simp]: "in_step new ph g (arrived r n t) = in_step new ph g t"
  by (cases ph) (simp_all add: in_step_def ready_def, simp_all add: arrived_def)

text \<open>The state after the handler, before the restart: \<open>how\<close> is the request that will be made.\<close>

definition leaves_in_step :: "bool \<Rightarrow> phase \<Rightarrow> ev_globals \<Rightarrow> thread \<Rightarrow> bool" where
  "leaves_in_step new ph g t \<longleftrightarrow> ready new g t \<and> phase_ok new ph (t\<lparr>last_restart_how := restart_how t\<rparr>) \<and>
     (restart_how t = PTRACE_SYSCALL \<or> restart_how t = PTRACE_CONT \<and> seccomp t = ENABLED)"

lemma restarted_in_step:
  assumes "leaves_in_step new ph g t"
  shows "in_step new ph g (restart_thread True t)"
proof -
  have "restart_thread True t = t\<lparr>restart_how := RESTART_UNSET, last_restart_how := restart_how t\<rparr>"
    using assms by (auto simp: leaves_in_step_def restart_thread_def Let_def)
  then show ?thesis
    using assms by (cases ph) (auto simp: leaves_in_step_def in_step_def ready_def skipped_call_def)
qed

text \<open>The request of a stop that chooses none.\<close>

lemma default_fields [simp]:
  "status (default_restart t) = status t" "seccomp (default_restart t) = seccomp t"
  "last_restart_how (default_restart t) = last_restart_how t" "held (default_restart t) = held t"
  "already_handled_enter (default_restart t) = already_handled_enter t"
  "skipped_call (default_restart t) = skipped_call t" "voided_cancelled (default_restart t) = voided_cancelled t"
  by (simp_all add: default_restart_def skipped_call_def)

lemma default_how:
  "restart_how t = RESTART_UNSET \<Longrightarrow>
    restart_how (default_restart t) = (if seccomp t = ENABLED \<and> \<not> sysexit_necessary t then PTRACE_CONT else PTRACE_SYSCALL)"
  by (simp add: default_restart_def)

lemma ready_held: "held t' = held t \<Longrightarrow> seccomp t' = seccomp t \<Longrightarrow> ready new g t' = ready new g t"
  by (simp add: ready_def held_def)

section \<open>Each stop\<close>

text \<open>At the entry of a call.\<close>

lemma syscall_stop_enters:
  assumes "ptrace_works k" "well_behaved H" "ready new g t" "status t = 0" "\<not> already_handled_enter t"
    and "restart_how t = PTRACE_SYSCALL \<or> restart_how t = PTRACE_CONT \<and> seccomp t = ENABLED"
  obtains s t' where "handle_syscall_stop k H t = Inr (Signal s, t')" "leaves_in_step new Entry_stop g t'"
proof -
  let ?c = "choose_restart t"
  have c: "restart_how ?c = PTRACE_SYSCALL" "status ?c = 0" "seccomp ?c = seccomp t" "has_exe ?c" "\<not> pokedata_cancelled ?c"
    "\<not> pokedata_relaunched ?c" "\<not> already_handled_enter ?c"
    using assms(3-6) by (auto simp: choose_restart_def ready_def)
  obtain t1 where t1: "translate_syscall k H ?c = Inr t1" "held t1 = held ?c" "seccomp t1 = seccomp ?c"
    "restart_how t1 = PTRACE_SYSCALL" "status t1 \<noteq> 0"
    by (rule enter_translated [OF assms(1,2) c(4-6) c(2)]) (use c(1) in auto)
  let ?u = "t1\<lparr>skip_next_signal := (get_sysnum CURRENT t1 = PR_void)\<rparr>"
  obtain s v where v: "redeliver ?u = (s, v)" by force
  then have vf: "held v = held ?c" "seccomp v = seccomp t" "restart_how v = PTRACE_SYSCALL" "status v \<noteq> 0"
    using t1 c(3) by (auto simp: redeliver_def split: if_split_asm)
  have dis: "seccomp t \<noteq> DISABLING" "has_exe t" using assms(3) by (simp_all add: ready_def)
  have "handle_syscall_stop k H t = Inr (Signal s, v)"
    using c(2,7) t1(1) v vf(2) dis by (simp add: handle_syscall_stop_def translate_or_skip_def finish_disabling_def)
  moreover have "leaves_in_step new Entry_stop g v"
    using vf heldD [OF vf(1)] c assms(3) by (simp add: leaves_in_step_def ready_def)
  ultimately show thesis by (rule that)
qed

text \<open>At the entry of a call that was translated at the event of the filter.\<close>

lemma syscall_stop_skips:
  assumes "ready new g t" "status t \<noteq> 0" "already_handled_enter t"
  obtains t' where "handle_syscall_stop k H t = Inr (Signal 0, t')" "leaves_in_step new Entry_stop g t'"
proof -
  let ?v = "(choose_restart t)\<lparr>already_handled_enter := False, restart_how := PTRACE_SYSCALL\<rparr>"
  have f: "already_handled_enter (choose_restart t) = True" "seccomp (choose_restart t) = seccomp t"
    "has_exe (choose_restart t) = has_exe t" "status (choose_restart t) = status t"
    "pokedata_cancelled (choose_restart t) = pokedata_cancelled t" "pokedata_relaunched (choose_restart t) = pokedata_relaunched t"
    using assms(3) by (simp_all add: choose_restart_def)
  have "handle_syscall_stop k H t = Inr (Signal 0, ?v)"
    using assms(1) f by (simp add: handle_syscall_stop_def translate_or_skip_def finish_disabling_def ready_def)
  moreover have "leaves_in_step new Entry_stop g ?v"
    using assms f by (simp add: leaves_in_step_def ready_def)
  ultimately show thesis by (rule that)
qed

text \<open>At the exit of a call, which may be the one that gives up the filter.\<close>

lemma syscall_stop_exits:
  assumes "ptrace_works k" "well_behaved H" "ready new g t" "status t \<noteq> 0" "\<not> already_handled_enter t"
    and "restart_how t = PTRACE_SYSCALL \<or> restart_how t = PTRACE_CONT \<and> seccomp t = ENABLED"
  obtains s t' where "handle_syscall_stop k H t = Inr (Signal s, t')" "leaves_in_step new Outside g t'"
proof -
  let ?c = "choose_restart t"
  have c: "restart_how ?c = (if seccomp t = ENABLED then PTRACE_CONT else PTRACE_SYSCALL)" "status ?c \<noteq> 0"
    "seccomp ?c = seccomp t" "has_exe ?c" "\<not> pokedata_cancelled ?c"
    "\<not> pokedata_relaunched ?c" "\<not> already_handled_enter ?c"
    using assms(3-6) by (auto simp: choose_restart_def ready_def)
  obtain t1 where t1: "translate_syscall k H ?c = Inr t1" "held t1 = held ?c"
    "seccomp t1 = seccomp ?c \<or> seccomp ?c = ENABLED \<and> seccomp t1 = DISABLING"
    "restart_how t1 = restart_how ?c \<or> restart_how t1 = PTRACE_SYSCALL" "status t1 = 0"
    by (rule exit_translated [OF assms(1,2) c(4-6) c(2)]) (use c(1) in auto)
  obtain s v where v: "redeliver t1 = (s, v)" by force
  then have vf: "held v = held ?c" "seccomp v = seccomp t1" "restart_how v = restart_how t1" "status v = 0"
    using t1 by (auto simp: redeliver_def split: if_split_asm)
  let ?w = "finish_disabling v"
  have dis: "seccomp t \<noteq> DISABLING" "has_exe t" using assms(3) by (simp_all add: ready_def)
  have w: "held ?w = held ?c" "status ?w = 0" "seccomp ?w = seccomp t \<or> seccomp t = ENABLED \<and> seccomp ?w = DISABLED"
    "restart_how ?w = PTRACE_SYSCALL \<or> restart_how ?w = PTRACE_CONT \<and> seccomp ?w = ENABLED"
    using vf t1(3,4) c(1,3) dis by (auto simp: finish_disabling_def split: if_split_asm)
  have "handle_syscall_stop k H t = Inr (Signal s, ?w)"
    using c(2,7) t1(1) v dis by (simp add: handle_syscall_stop_def translate_or_skip_def)
  moreover have "leaves_in_step new Outside g ?w"
    using w heldD [OF w(1)] c assms(3) by (auto simp: leaves_in_step_def ready_def)
  ultimately show thesis by (rule that)
qed

text \<open>At the event of the filter.\<close>

definition filter_ready :: "bool \<Rightarrow> phase \<Rightarrow> thread \<Rightarrow> bool" where
  "filter_ready new ph0 t \<longleftrightarrow>
     (if new then ph0 = Outside \<and> last_restart_how t = PTRACE_CONT \<or> ph0 = Entry_stop else ph0 = Outside)"

lemma filter_stop_enters:
  assumes "ptrace_works k" "well_behaved H" "ready new g t" "status t = 0" "\<not> already_handled_enter t"
    and "seccomp t = ENABLED" "after \<longleftrightarrow> new"
  obtains t' where "handle_seccomp_enter k H after t = Inr t'" "leaves_in_step new Filter_stop g t'"
proof -
  let ?c = "t\<lparr>restart_how := PTRACE_CONT\<rparr>"
  have c: "restart_how ?c = PTRACE_CONT" "status ?c = 0" "has_exe ?c" "\<not> pokedata_cancelled ?c" "\<not> pokedata_relaunched ?c"
    using assms(3,4) by (simp_all add: ready_def)
  obtain t1 where t1: "translate_syscall k H ?c = Inr t1" "held t1 = held ?c" "seccomp t1 = seccomp ?c"
    "restart_how t1 = PTRACE_CONT \<and> status t1 = 0 \<or> restart_how t1 = PTRACE_SYSCALL \<and> status t1 \<noteq> 0"
    by (rule enter_translated [OF assms(1,2) c(3-5) c(2)]) (use c(1) in auto)
  let ?u = "if get_sysnum CURRENT t1 = PR_void then t1\<lparr>skip_next_signal := True\<rparr> else t1"
  have u: "held ?u = held t1" "seccomp ?u = ENABLED" "restart_how ?u = restart_how t1" "status ?u = status t1"
    "voided_cancelled ?u = voided_cancelled t1"
    using t1(3) assms(6) by auto
  let ?v = "if \<not> after \<and> restart_how ?u = PTRACE_SYSCALL \<and> \<not> voided_cancelled ?u then ?u\<lparr>already_handled_enter := True\<rparr> else ?u"
  have "handle_seccomp_enter k H after t = Inr ?v"
    using t1(1) u(2) by (simp add: handle_seccomp_enter_def Let_def)
  moreover have "leaves_in_step new Filter_stop g ?v"
    using t1(4) u heldD [OF t1(2)] heldD [OF u(1)] assms(3,5-7)
    by (auto simp: leaves_in_step_def ready_def skipped_call_def)
  ultimately show thesis by (rule that)
qed

lemma filter_stop_in_step:
  assumes "ptrace_works k" "well_behaved H" "ready new g t" "phase_ok new ph0 t" "filter_ready new ph0 t"
    and "last_restart_how t = PTRACE_SYSCALL \<or> last_restart_how t = PTRACE_CONT \<and> seccomp t = ENABLED"
    and "restart_how t = (if seccomp t = ENABLED \<and> \<not> necessary then PTRACE_CONT else PTRACE_SYSCALL)"
    and "after \<longrightarrow> new" "seccomp_detected g \<longrightarrow> after = new" "seccomp_checked g"
  obtains g' t' where "handle_seccomp_stop k H after necessary (Some flags) (g, t) = Inr (g', t')"
    "leaves_in_step new Filter_stop g' t'" "seccomp_checked g'"
proof -
  obtain g1 t1 where d: "detect_order (g, t) = (g1, t1)" by force
  let ?now = "if seccomp_detected g then after else seccomp_after_enter g1"
  let ?t = "t1\<lparr>skip_next_signal := False\<rparr>"
  have st: "status ?t = status t" "held ?t = held t" "skipped_call ?t = skipped_call t"
    "restart_how ?t = restart_how t" and g1: "seccomp_checked g1" "seccomp_detected g1"
    using d assms(10) by (auto simp: detect_order_def skipped_call_def split: if_split_asm)
  have entry: "new \<Longrightarrow> ph0 = Outside \<Longrightarrow> seccomp_detected g"
    using assms(3,5,6) by (auto simp: filter_ready_def ready_def)
  have now: "?now = new" "seccomp_after_enter g1 = new"
    using d assms(3,4,5,9) entry by (auto simp: detect_order_def filter_ready_def ready_def split: if_split_asm)
  have r: "ready new g1 ?t"
    using d assms(3) now(2) g1 by (auto simp: ready_def detect_order_def split: if_split_asm)
  have en: "seccomp_detected g \<or> seccomp ?t = ENABLED"
    using d by (auto simp: detect_order_def split: if_split_asm)
  note hd = heldD [OF st(2)]
  have out: "\<not> (new \<and> status t \<noteq> 0) \<Longrightarrow> status t = 0 \<and> \<not> already_handled_enter t"
    using assms(4,5) by (cases new; cases ph0) (auto simp: filter_ready_def)
  let ?sys = "flags AND FILTER_SYSEXIT_FLAG \<noteq> 0"
  note unf = handle_seccomp_stop_def option.case d prod.case Let_def fst_conv now(1)
  consider (later) "new" "status t \<noteq> 0" | (disabled) "\<not> (new \<and> status t \<noteq> 0)" "seccomp ?t \<noteq> ENABLED"
    | (exit) "\<not> (new \<and> status t \<noteq> 0)" "seccomp ?t = ENABLED" "?sys \<or> necessary"
    | (enter) "\<not> (new \<and> status t \<noteq> 0)" "seccomp ?t = ENABLED" "\<not> (?sys \<or> necessary)" by blast
  then show thesis
  proof cases
    case later
    then have "ph0 = Entry_stop" using assms(4,5) by (auto simp: filter_ready_def)
    with assms(4) have l: "last_restart_how ?t = PTRACE_SYSCALL" "\<not> already_handled_enter ?t" "status ?t \<noteq> 0"
      using hd later st by auto
    have "handle_seccomp_stop k H after necessary (Some flags) (g, t) = Inr (g1, ?t\<lparr>restart_how := last_restart_how ?t\<rparr>)"
      unfolding unf using later st(1) by simp
    moreover have "leaves_in_step new Filter_stop g1 (?t\<lparr>restart_how := last_restart_how ?t\<rparr>)"
      using r l later(1) by (auto simp: leaves_in_step_def ready_def)
    ultimately show thesis using g1(1) by (rule that)
  next
    case disabled
    then have z: "status t = 0" "\<not> already_handled_enter t" using out by blast+
    have e: "seccomp t \<noteq> ENABLED" using disabled(2) en d by (auto simp: detect_order_def split: if_split_asm)
    have "\<not> new" using assms(4-6) z(1) e by (auto simp: filter_ready_def)
    have "handle_seccomp_stop k H after necessary (Some flags) (g, t) = Inr (g1, ?t)"
      unfolding unf using disabled st(1) z by simp
    moreover have "leaves_in_step new Filter_stop g1 ?t"
      using r st z assms(7) e hd \<open>\<not> new\<close> by (auto simp: leaves_in_step_def skipped_call_def)
    ultimately show thesis using g1(1) by (rule that)
  next
    case exit
    then have z: "status t = 0" "\<not> already_handled_enter t" using out by blast+
    show thesis
    proof (cases new)
      case False
      have "handle_seccomp_stop k H after necessary (Some flags) (g, t) = Inr (g1, ?t\<lparr>restart_how := PTRACE_SYSCALL\<rparr>)"
        unfolding unf using exit st(1) z False by auto
      moreover have "leaves_in_step new Filter_stop g1 (?t\<lparr>restart_how := PTRACE_SYSCALL\<rparr>)"
        using r st z hd False by (auto simp: leaves_in_step_def skipped_call_def ready_def)
      ultimately show thesis using g1(1) by (rule that)
    next
      case True
      let ?c = "?t\<lparr>restart_how := PTRACE_SYSCALL\<rparr>"
      have c: "has_exe ?c" "\<not> pokedata_cancelled ?c" "\<not> pokedata_relaunched ?c" "status ?c = 0"
        using r st(1) z by (simp_all add: ready_def)
      obtain t2 where t2: "translate_syscall k H ?c = Inr t2" "held t2 = held ?c" "seccomp t2 = seccomp ?c"
        "restart_how t2 = PTRACE_SYSCALL" "status t2 \<noteq> 0"
        by (rule enter_translated [OF assms(1,2) c]) auto
      let ?w = "t2\<lparr>restart_how := PTRACE_SYSCALL\<rparr>"
      have "handle_seccomp_stop k H after necessary (Some flags) (g, t) = Inr (g1, ?w)"
        unfolding unf using exit st(1) z True t2(1) by auto
      moreover have "leaves_in_step new Filter_stop g1 ?w"
        using r t2 heldD [OF t2(2)] hd z True by (auto simp: leaves_in_step_def ready_def)
      ultimately show thesis using g1(1) by (rule that)
    qed
  next
    case enter
    then have z: "status t = 0" "\<not> already_handled_enter t" using out by blast+
    have an: "after \<longleftrightarrow> new"
      using assms(8,9) d z(1) now by (auto simp: detect_order_def split: if_split_asm)
    have "status ?t = 0" "\<not> already_handled_enter ?t" using z st(1) hd by simp_all
    from filter_stop_enters [OF assms(1,2) r this enter(2) an] obtain t2 where
      t2: "handle_seccomp_enter k H after ?t = Inr t2" "leaves_in_step new Filter_stop g1 t2" by blast
    have "handle_seccomp_stop k H after necessary (Some flags) (g, t) = Inr (g1, t2)"
      unfolding unf using enter st(1) z t2(1) by auto
    then show thesis using t2(2) g1(1) by (rule that)
  qed
qed

section \<open>The handler\<close>

lemma codes:
  "SIGTRAP \<noteq> SYSCALL_STOP" "SIGTRAP = 5" "SYSCALL_STOP = 133" "EVENT_FORK = 261" "EVENT_VFORK = 517" "EVENT_CLONE = 773"
  "EVENT_EXEC = 1029" "EVENT_VFORK_DONE = 1285" "EVENT_EXIT = 1541" "EVENT_SECCOMP = 1797" "EVENT_SECCOMP2 = 2053"
  "SIGSTOP = 19" "SIGSYS = 31"
  by (simp_all add: SIGTRAP_def SYSCALL_STOP_def event_code_def EVENT_FORK_def EVENT_VFORK_def EVENT_CLONE_def EVENT_EXEC_def
      EVENT_VFORK_DONE_def EVENT_EXIT_def EVENT_SECCOMP_def EVENT_SECCOMP2_def SIGSTOP_def SIGSYS_def)

lemma stopped_only:
  assumes "WIFSTOPPED st"
  shows "\<not> WIFEXITED st" "\<not> WIFSIGNALED st"
proof -
  have "st AND 0x7F = (st AND 0xFF) AND 0x7F" by (simp add: and.assoc)
  then have "st AND 0x7F = 0x7F" using assms by (simp add: WIFSTOPPED_def)
  then show "\<not> WIFEXITED st" "\<not> WIFSIGNALED st" by (simp_all add: WIFEXITED_def WIFSIGNALED_def)
qed

text \<open>What is assumed of the kernel and of the handlers: what \<open>ptrace(2)\<close> answers does not depend on the request that
  will restart the tracee.\<close>

definition sound_env :: "ev_env \<Rightarrow> bool \<Rightarrow> bool" where
  "sound_env E new \<longleftrightarrow> ptrace_works (ev_ptrace E) \<and> well_behaved (ev_handlers E) \<and> (\<forall>t. options_work E t) \<and>
     (assume_new_seccomp E \<longrightarrow> new) \<and>
     (\<forall>t how. event_message E (t\<lparr>restart_how := how\<rparr>) = event_message E t \<and> seccomp_info E (t\<lparr>restart_how := how\<rparr>) = seccomp_info E t)"

definition checked_globals :: "ev_env \<Rightarrow> ev_globals \<Rightarrow> ev_globals" where
  "checked_globals E g = (if seccomp_checked g then g else g\<lparr>seccomp_after_enter := assume_new_seccomp E, seccomp_checked := True\<rparr>)"

lemma stop_is_handled:
  "WIFSTOPPED st \<Longrightarrow> handle_tracee_event E first st (g, t, m) =
     handle_stop E (seccomp_after_enter g) (sysexit_necessary t) (stop_code st) (checked_globals E g, default_restart t, m)"
  using stopped_only [of st] by (simp add: handle_tracee_event_def checked_globals_def Let_def)

lemma checked_ready:
  assumes "sound_env E new" "ready new g t"
  shows "ready new (checked_globals E g) t" "seccomp_checked (checked_globals E g)"
    "seccomp_detected (checked_globals E g) = seccomp_detected g" "deliver_sigtrap (checked_globals E g) = deliver_sigtrap g"
  using assms by (auto simp: ready_def checked_globals_def sound_env_def)

text \<open>A call stop, whose code depends on whether the options were set before.\<close>

lemma syscall_code_handled:
  assumes "sound_env E new" "handle_syscall_stop (ev_ptrace E) (ev_handlers E) t = Inr (Signal s, t')"
    and "syscall_code g = c" "leaves_in_step new ph g t'"
  obtains g' where "handle_stop E a n c (g, t, m) = Inr (Signal s, g', t', m)" "leaves_in_step new ph g' t'"
proof (cases "deliver_sigtrap g")
  case True
  have "handle_stop E a n c (g, t, m) = Inr (Signal s, g, t', m)"
    using assms(2,3) True by (auto simp: handle_stop_def syscall_code_def codes)
  then show thesis using assms(4) by (rule that)
next
  case False
  have "handle_stop E a n c (g, t, m) = Inr (Signal s, g\<lparr>deliver_sigtrap := True\<rparr>, t', m)"
    using assms(1-3) False by (auto simp: handle_stop_def syscall_code_def codes sound_env_def)
  then show thesis using assms(4) by (intro that) (auto simp: leaves_in_step_def ready_def)
qed

lemma held_leaves:
  assumes "leaves_in_step new ph g t" "held t' = held t" "seccomp t' = seccomp t" "restart_how t' = restart_how t"
    "status t' = status t" "voided_cancelled t' = voided_cancelled t"
  shows "leaves_in_step new ph g t'"
proof -
  have "phase_ok new ph (t'\<lparr>last_restart_how := restart_how t'\<rparr>) = phase_ok new ph (t\<lparr>last_restart_how := restart_how t\<rparr>)"
    using assms(4-6) heldD(3) [OF assms(2)] by (cases ph) (simp_all add: skipped_call_def)
  then show ?thesis
    using assms(1,3,4) ready_held [OF assms(2,3)] by (simp add: leaves_in_step_def)
qed

text \<open>A stop that is neither the entry nor the exit of a call.\<close>

lemma signal_handled:
  assumes "sound_env E new" "is_plain_signal E g t c" "deliver_sigtrap g' = deliver_sigtrap g" "t1 = default_restart t" "has_exe t" "leaves_in_step new Outside g' t1"
  obtains s t' where "handle_stop E a n c (g', t1, m) = Inr (Signal s, g', t', m)" "leaves_in_step new Outside g' t'" "s \<noteq> -1"
proof -
  have inf: "seccomp_info E t1 = None" if "c = SIGSYS"
    using that assms(1,2,4) by (auto simp: is_plain_signal_def sound_env_def default_restart_def codes)
  consider (trap) "c = SIGTRAP" "deliver_sigtrap g" | (sys) "c = SIGSYS" | (stop) "c = SIGSTOP"
    | (other) "0 < c" "c < 128" "c \<notin> {SIGTRAP, SIGSYS, SIGSTOP}"
    using assms(2) by (auto simp: is_plain_signal_def codes)
  then show thesis
  proof cases
    case trap
    then show thesis using assms(3,6) by (intro that [of c t1]) (simp_all add: handle_stop_def codes)
  next
    case sys
    then show thesis using assms(6) inf by (intro that [of c t1]) (simp_all add: handle_stop_def codes handle_sigsys_stop_def)
  next
    case stop
    obtain s u where u: "handle_sigstop t1 = (s, u)" by force
    have x: "has_exe t1" using assms(6) by (simp add: leaves_in_step_def ready_def)
    have "handle_stop E a n c (g', t1, m) = Inr (Signal s, g', u, m)" using stop u by (simp add: handle_stop_def codes)
    moreover have "leaves_in_step new Outside g' u"
      by (rule held_leaves [OF assms(6)]) (use u x in \<open>auto simp: handle_sigstop_def held_def Let_def split: if_split_asm\<close>)
    moreover have "s \<noteq> -1" using u x by (auto simp: handle_sigstop_def codes Let_def split: if_split_asm)
    ultimately show thesis by (rule that)
  next
    case other
    obtain s u where u: "suppress_in_chain c t1 = (s, u)" by force
    have "handle_stop E a n c (g', t1, m) = Inr (Signal s, g', u, m)" using other u by (simp add: handle_stop_def codes)
    moreover have "leaves_in_step new Outside g' u"
      by (rule held_leaves [OF assms(6)]) (use u in \<open>auto simp: suppress_in_chain_def split: if_split_asm\<close>)
    moreover have "s \<noteq> -1" using u other by (auto simp: suppress_in_chain_def split: if_split_asm)
    ultimately show thesis by (rule that)
  qed
qed

text \<open>The state on which a handler starts, and what the request chosen by default makes of it.\<close>

lemma default_leaves:
  assumes "in_step new ph g t" "ready new g' t"
    and "(if seccomp t = ENABLED \<and> \<not> sysexit_necessary t then PTRACE_CONT else PTRACE_SYSCALL) = last_restart_how t \<or> ph = Outside"
  shows "leaves_in_step new ph g' (default_restart t)"
proof -
  have u: "restart_how t = RESTART_UNSET" "phase_ok new ph t" using assms(1) by (simp_all add: in_step_def)
  have "phase_ok new ph ((default_restart t)\<lparr>last_restart_how := restart_how (default_restart t)\<rparr>)"
    using u(2) assms(3) default_how [OF u(1)] by (cases ph) (auto simp: skipped_call_def default_restart_def)
  then show ?thesis
    using default_how [OF u(1)] assms(2) ready_held [OF default_fields(4) default_fields(2), of new g' t]
    by (simp add: leaves_in_step_def)
qed

lemma stop_handled:
  assumes env: "sound_env E new" and inv: "in_step new ph g t" and stop: "kernel_stop E new g t ph kind c ph'"
    and st: "WIFSTOPPED st" "stop_code st = c"
  obtains out g' t' m' where "handle_tracee_event E first st (g, t, m) = Inr (out, g', t', m')"
    "(\<exists>s. out = Signal s) \<or> (\<exists>fl. out = Child fl)" "leaves_in_step new ph' g' t'"
    "kind = Entry \<Longrightarrow> status t = 0 \<or> already_handled_enter t" "kind = Exit \<Longrightarrow> status t \<noteq> 0 \<and> \<not> already_handled_enter t"
proof -
  let ?g = "checked_globals E g" and ?t = "default_restart t"
  note env' = env [unfolded sound_env_def]
  have r: "ready new g t" "restart_how t = RESTART_UNSET" "phase_ok new ph t" using inv by (simp_all add: in_step_def)
  note cr = checked_ready [OF env r(1)] and how = default_how [OF r(2)]
  have rt: "ready new ?g ?t" using ready_held [OF default_fields(4) default_fields(2), of new ?g t] cr(1) by simp
  have how': "restart_how ?t = PTRACE_SYSCALL \<or> restart_how ?t = PTRACE_CONT \<and> seccomp ?t = ENABLED" using how by simp
  note go = stop_is_handled [OF st(1), of E first g t m, unfolded st(2)]
  have sc: "syscall_code ?g = syscall_code g" using cr(4) by (simp add: syscall_code_def)
  from stop show thesis
  proof cases
    case (entry ph0)
    note inv0 = runs_in_step [OF entry(4) inv]
    show thesis
    proof (cases "already_handled_enter t")
      case True
      with inv0 entry have nz: "status t \<noteq> 0" by (auto simp: in_step_def)
      obtain t' where t': "handle_syscall_stop (ev_ptrace E) (ev_handlers E) ?t = Inr (Signal 0, t')" "leaves_in_step new Entry_stop ?g t'"
        by (rule syscall_stop_skips [OF rt]) (use nz True in simp_all)
      obtain g' where "handle_stop E (seccomp_after_enter g) (sysexit_necessary t) c (?g, ?t, m) = Inr (Signal 0, g', t', m)"
        "leaves_in_step new Entry_stop g' t'"
        using syscall_code_handled [OF env t'(1) _ t'(2)] sc entry(2) by metis
      then show thesis using go entry True by (intro that) auto
    next
      case False
      have z: "status t = 0" using inv0 entry False by (auto simp: in_step_def split: if_split_asm)
      obtain s t' where t': "handle_syscall_stop (ev_ptrace E) (ev_handlers E) ?t = Inr (Signal s, t')" "leaves_in_step new Entry_stop ?g t'"
        by (rule syscall_stop_enters [OF _ _ rt]) (use env' z False how' in auto)
      obtain g' where "handle_stop E (seccomp_after_enter g) (sysexit_necessary t) c (?g, ?t, m) = Inr (Signal s, g', t', m)"
        "leaves_in_step new Entry_stop g' t'"
        using syscall_code_handled [OF env t'(1) _ t'(2)] sc entry(2) by metis
      then show thesis using go entry z by (intro that) auto
    qed
  next
    case (filter ph0)
    note inv0 = runs_in_step [OF filter(3) inv]
    obtain flags where fl: "event_message E ?t = Some flags"
      using filter(5) env' by (auto simp: default_restart_def)
    obtain g' t' where t': "handle_seccomp_stop (ev_ptrace E) (ev_handlers E) (seccomp_after_enter g) (sysexit_necessary t) (Some flags) (?g, ?t) = Inr (g', t')"
      "leaves_in_step new Filter_stop g' t'"
    proof (rule filter_stop_in_step [OF _ _ rt])
      show "ptrace_works (ev_ptrace E)" "well_behaved (ev_handlers E)" using env' by blast+
      show "phase_ok new ph0 ?t" using inv0 by (cases ph0) (auto simp: in_step_def)
      show "filter_ready new ph0 ?t" using filter(4) by (simp add: filter_ready_def)
      show "last_restart_how ?t = PTRACE_SYSCALL \<or> last_restart_how ?t = PTRACE_CONT \<and> seccomp ?t = ENABLED"
        using inv by (simp add: in_step_def)
      show "restart_how ?t = (if seccomp ?t = ENABLED \<and> \<not> sysexit_necessary t then PTRACE_CONT else PTRACE_SYSCALL)"
        using how by simp
      show "seccomp_after_enter g \<longrightarrow> new" "seccomp_detected ?g \<longrightarrow> seccomp_after_enter g = new"
        using r(1) cr(3) by (auto simp: ready_def)
      show "seccomp_checked ?g" by (rule cr(2))
    qed
    have "handle_stop E (seccomp_after_enter g) (sysexit_necessary t) c (?g, ?t, m) = Inr (Signal 0, g', t', m)"
      using filter(6) fl t'(1) by (auto simp: handle_stop_def codes)
    then show thesis using go filter t'(2) by (intro that) auto
  next
    case (exit ph0)
    note inv0 = runs_in_step [OF exit(4) inv]
    have z: "status t \<noteq> 0" "\<not> already_handled_enter t" using inv0 exit by (auto simp: in_step_def split: if_split_asm)
    obtain s t' where t': "handle_syscall_stop (ev_ptrace E) (ev_handlers E) ?t = Inr (Signal s, t')" "leaves_in_step new Outside ?g t'"
      by (rule syscall_stop_exits [OF _ _ rt]) (use env' z how' in auto)
    obtain g' where "handle_stop E (seccomp_after_enter g) (sysexit_necessary t) c (?g, ?t, m) = Inr (Signal s, g', t', m)"
      "leaves_in_step new Outside g' t'"
      using syscall_code_handled [OF env t'(1) _ t'(2)] sc exit(2) by metis
    then show thesis using go exit z by (intro that) auto
  next
    case signal
    note inv0 = runs_in_step [OF signal(3) inv]
    have "leaves_in_step new Outside ?g ?t" by (rule default_leaves [OF inv0 cr(1)]) simp
    moreover have "has_exe t" using r(1) by (simp add: ready_def)
    ultimately obtain s t' where
      "handle_stop E (seccomp_after_enter g) (sysexit_necessary t) c (?g, ?t, m) = Inr (Signal s, ?g, t', m)" "leaves_in_step new Outside ?g t'"
      using signal_handled [OF env signal(4) cr(4) refl] by blast
    then show thesis using go signal by (intro that) auto
  next
    case event
    note inv0 = runs_in_step [OF event(2) inv]
    let ?v = "?t\<lparr>restart_how := last_restart_how ?t\<rparr>"
    have l: "last_restart_how t \<noteq> RESTART_UNSET" using inv by (auto simp: in_step_def)
    have "handle_stop E (seccomp_after_enter g) (sysexit_necessary t) c (?g, ?t, m) = Inr (Signal 0, ?g, ?v, m)"
      using event(3) l by (auto simp: handle_stop_def codes keep_restart_def)
    moreover have "leaves_in_step new ph' ?g ?v"
      using inv0 rt ready_held [of ?v ?t new ?g] by (cases ph') (auto simp: leaves_in_step_def in_step_def skipped_call_def split: if_split_asm)
    ultimately show thesis using go event by (intro that) auto
  next
    case fork
    have "(if seccomp t = ENABLED \<and> \<not> sysexit_necessary t then PTRACE_CONT else PTRACE_SYSCALL) = last_restart_how t"
      using fork(3,4) inv r(3) by (auto simp: may_fork_def in_step_def split: if_split_asm)
    with default_leaves [OF inv cr(1)] fork(2) have "leaves_in_step new ph' ?g ?t" by simp
    moreover have "\<exists>fl. handle_stop E (seccomp_after_enter g) (sysexit_necessary t) c (?g, ?t, m) = Inr (Child fl, ?g, ?t, m)"
      using fork(5) by (auto simp: handle_stop_def codes)
    ultimately show thesis using go fork that by auto
  qed
qed

section \<open>The run of a tracee\<close>

definition started :: "ev_globals \<Rightarrow> thread \<Rightarrow> bool" where
  "started g t \<longleftrightarrow> has_exe t \<and> \<not> pokedata_cancelled t \<and> \<not> pokedata_relaunched t \<and> seccomp t = DISABLED \<and>
     status t = 0 \<and> \<not> already_handled_enter t \<and> restart_how t = RESTART_UNSET \<and> last_restart_how t = PTRACE_SYSCALL \<and>
     \<not> seccomp_detected g \<and> \<not> seccomp_after_enter g"

lemma started_in_step: "started g t \<Longrightarrow> in_step new Outside g t"
  by (simp add: started_def in_step_def ready_def)

lemma step_in_step:
  assumes "sound_env E new" "stop_step E new (ph, g, t, m) (ph', g', t', m'')" "in_step new ph g t"
  shows "in_step new ph' g' t'"
  using assms(2)
proof cases
  case (stop_step r n kind c st first m' out t1 sig fl)
  from assms(3) have "in_step new ph g (arrived r n t)" by simp
  from stop_handled [OF assms(1) this stop_step(2-4), of first m'] stop_step(5)
  have "leaves_in_step new ph' g' t1" by auto
  then show ?thesis unfolding stop_step(1) by (rule restarted_in_step)
qed

lemma run_in_step:
  assumes "sound_env E new" "stop_run E new x y" "in_step new (fst x) (fst (snd x)) (fst (snd (snd x)))"
  shows "in_step new (fst y) (fst (snd y)) (fst (snd (snd y)))"
  using assms(2,3)
proof induction
  case (step x y z)
  obtain ph g t m ph' g' t' m' where yz: "y = (ph, g, t, m)" "z = (ph', g', t', m')" by (metis prod_cases4)
  with step show ?case using step_in_step [OF assms(1)] by simp
qed simp


definition demo_ev_env :: ev_env where
  "demo_ev_env = \<lparr>ev_ptrace = demo_ptracer, ev_handlers = demo_handlers 0,
     ev_sigsys = \<lparr>sigsys_ext = (\<lambda>t. (0, t)), emulated = (\<lambda>_ t. (0, t)), process_group = 0,
       handled_call = (\<lambda>_ tm. (0, tm)), tracer_ids = (\<lambda>_. None)\<rparr>,
     event_message = (\<lambda>_. Some 1), seccomp_info = (\<lambda>_. None), options_work = (\<lambda>_. True), assume_new_seccomp = False\<rparr>"

definition demo_globals :: ev_globals where
  "demo_globals = \<lparr>seccomp_after_enter = False, seccomp_checked = False, seccomp_detected = False,
     deliver_sigtrap = True, last_exit_status = -1, root_exited = False\<rparr>"

definition fresh_thread :: thread where
  "fresh_thread = (demo_thread [(8, 63)])\<lparr>seccomp := DISABLED, restart_how := RESTART_UNSET, last_restart_how := PTRACE_SYSCALL\<rparr>"

lemma demo_sound: "sound_env demo_ev_env new"
  by (simp add: sound_env_def demo_ev_env_def well_behaved_def asks_only_def demo_handlers_def demo_works)

text \<open>A handler that always asks for the exit, as that of \<open>socket\<close> does.\<close>

definition asking_env :: ev_env where
  "asking_env = demo_ev_env\<lparr>ev_handlers := (demo_handlers 0)\<lparr>enter_h := (\<lambda>t. (0, t\<lparr>sysexit_pending := True, restart_how := PTRACE_SYSCALL\<rparr>))\<rparr>\<rparr>"

lemma asking_sound: "sound_env asking_env new"
  by (simp add: sound_env_def asking_env_def demo_ev_env_def well_behaved_def asks_only_def demo_handlers_def demo_works)


end
