(* ===== verification/Tracees.thy ===== *)
theory Tracees
  imports Event
begin

text \<open>
  The tracees and the emulation of \<open>ptrace(2)\<close> among them (\<^verbatim>\<open>src/tracee/tracee.c\<close>, \<^verbatim>\<open>src/ptrace/ptrace.c\<close>,
  \<^verbatim>\<open>src/ptrace/wait.c\<close>, the loop of \<^verbatim>\<open>src/tracee/event.c\<close>). A pointer to a tracee is an address, which is never
  used again; the list of tracees begins with the one that was inserted last.
\<close>

section \<open>State\<close>

datatype waits = DOESNT_WAIT | WAITS_IN_KERNEL | WAITS_IN_PROOT

text \<open>\<open>as_ptracer\<close> and \<open>as_ptracee\<close> of the structure \<open>Tracee\<close>, what a child takes from its parent, and the registers
  and the state of the stops (\<open>th\<close>). The list of the zombies of a tracer is kept apart.\<close>

record ptracee_side =
  tracer :: "nat option"
  proot_value :: wait_status
  proot_pending :: bool
  event_value :: wait_status
  event_pending :: bool
  tracing_started :: bool
  ignore_loader_syscalls :: bool
  ignore_syscalls :: bool
  pt_options :: word_t
  is_zombie :: bool

record task =
  addr :: nat
  vpid :: nat
  pid :: int
  running :: bool
  terminated :: bool
  killall_on_exit :: bool
  parent :: "nat option"
  is_clone :: bool
  stripped_newns :: bool
  stripped_newnet :: bool
  fake_netns :: bool
  nb_ptracees :: nat
  wait_pid :: int
  wait_options :: word_t
  waits_in :: waits
  as_ptracee :: ptracee_side
  fs_ref :: nat
  table_ref :: nat
  heap_ref :: nat
  th :: thread
  tmem :: memory

definition no_ptracee :: ptracee_side where
  "no_ptracee = \<lparr>tracer = None, proot_value = 0, proot_pending = False, event_value = 0, event_pending = False,
     tracing_started = False, ignore_loader_syscalls = False, ignore_syscalls = False, pt_options = 0, is_zombie = False\<rparr>"

text \<open>\<open>dead\<close> are the zombies of all tracers, each with its tracer. \<open>sent\<close> are the signals the tracer sent, the last
  one first. \<open>next_addr\<close> also numbers the name-spaces, binding tables and heaps.\<close>

record world =
  live :: "task list"
  dead :: "task list"
  next_addr :: nat
  next_vpid :: nat
  has_terminated :: bool
  globals :: ev_globals
  sent :: "(int \<times> int) list"

text \<open>\<open>blank\<close> is the thread of a structure that is all zero; \<open>ptrace_ok\<close> whether \<open>ptrace(2)\<close> restarts a tracee;
  \<open>killable\<close> whether \<open>kill(2)\<close> succeeds; \<open>data_request\<close> the requests that move data between a ptracee and its tracer
  (the request, the ptracee, the two arguments, the memory of the tracer), with the status returned.\<close>

record life_env =
  stops :: ev_env
  blank :: thread
  blank_memory :: memory
  ptrace_ok :: "task \<Rightarrow> bool"
  killable :: "int \<Rightarrow> bool"
  data_request :: "word_t \<Rightarrow> task \<Rightarrow> word_t \<Rightarrow> word_t \<Rightarrow> memory \<Rightarrow> int \<times> memory"
  new_status_ext :: "task \<Rightarrow> wait_status \<Rightarrow> bool"

definition andThen :: "'a res \<Rightarrow> ('a \<Rightarrow> 'b res) \<Rightarrow> 'b res" where
  "andThen r f = (case r of Inl e \<Rightarrow> Inl e | Inr x \<Rightarrow> f x)"

text \<open>A pointer that is followed: a NULL pointer, or one to a tracee that was freed, ends the program.\<close>

definition deref :: "world \<Rightarrow> nat option \<Rightarrow> task res" where
  "deref w p = (case p of None \<Rightarrow> Inl Crash
     | Some a \<Rightarrow> (case find (\<lambda>t. addr t = a) (live w) of None \<Rightarrow> Inl Crash | Some t \<Rightarrow> Inr t))"

definition on_task :: "nat \<Rightarrow> (task \<Rightarrow> task) \<Rightarrow> world \<Rightarrow> world" where
  "on_task a f w = w\<lparr>live := map (\<lambda>t. if addr t = a then f t else t) (live w)\<rparr>"

definition on_side :: "(ptracee_side \<Rightarrow> ptracee_side) \<Rightarrow> task \<Rightarrow> task" where
  "on_side f t = t\<lparr>as_ptracee := f (as_ptracee t)\<rparr>"

definition on_th :: "(thread \<Rightarrow> thread) \<Rightarrow> task \<Rightarrow> task" where
  "on_th f t = t\<lparr>th := f (th t)\<rparr>"

definition kill_sig :: "int \<Rightarrow> int \<Rightarrow> world \<Rightarrow> world" where
  "kill_sig p s w = w\<lparr>sent := (p, s) # sent w\<rparr>"

definition SIGKILL :: int where "SIGKILL = 9"
definition SIGCHLD :: int where "SIGCHLD = 17"
definition SIGUSR1 :: int where "SIGUSR1 = 10"

section \<open>Finding a tracee\<close>

definition blank_task :: "life_env \<Rightarrow> nat \<Rightarrow> int \<Rightarrow> task" where
  "blank_task E a p =
     \<lparr>addr = a, vpid = 0, pid = p, running = False, terminated = False, killall_on_exit = False, parent = None,
      is_clone = False, stripped_newns = False, stripped_newnet = False, fake_netns = False,
      nb_ptracees = 0, wait_pid = 0, wait_options = 0, waits_in = DOESNT_WAIT,
      as_ptracee = no_ptracee, fs_ref = a, table_ref = 0, heap_ref = a, th = blank E, tmem = blank_memory E\<rparr>"

definition new_tracee :: "life_env \<Rightarrow> int \<Rightarrow> world \<Rightarrow> nat \<times> world" where
  "new_tracee E p w =
     (next_addr w, w\<lparr>live := (blank_task E (next_addr w) p)\<lparr>vpid := next_vpid w\<rparr> # live w,
        next_addr := next_addr w + 1, next_vpid := next_vpid w + 1\<rparr>)"

definition get_tracee :: "life_env \<Rightarrow> task option \<Rightarrow> int \<Rightarrow> bool \<Rightarrow> world \<Rightarrow> nat option \<times> world" where
  "get_tracee E self p create w =
     (case self of
        Some c \<Rightarrow> if pid c = p then (Some (addr c), w)
          else (case find (\<lambda>t. pid t = p) (live w) of Some t \<Rightarrow> (Some (addr t), w)
            | None \<Rightarrow> if create then (let (a, w) = new_tracee E p w in (Some a, w)) else (None, w))
      | None \<Rightarrow> (case find (\<lambda>t. pid t = p) (live w) of Some t \<Rightarrow> (Some (addr t), w)
            | None \<Rightarrow> if create then (let (a, w) = new_tracee E p w in (Some a, w)) else (None, w)))"

definition WALL :: word_t where "WALL = 0x40000000"
definition WCLONE :: word_t where "WCLONE = 0x80000000"
definition WNOHANG :: word_t where "WNOHANG = 1"

definition EXPECTED_WAIT_CLONE :: "word_t \<Rightarrow> task \<Rightarrow> bool" where
  "EXPECTED_WAIT_CLONE opts t \<longleftrightarrow>
     opts AND WALL \<noteq> 0 \<or> (opts AND WCLONE \<noteq> 0 \<and> is_clone t) \<or> (opts AND WCLONE = 0 \<and> \<not> is_clone t)"

fun scan_ptracees :: "nat \<Rightarrow> int \<Rightarrow> bool \<Rightarrow> bool \<Rightarrow> word_t \<Rightarrow> task list \<Rightarrow> task option" where
  "scan_ptracees p n stopped pend opts [] = None"
| "scan_ptracees p n stopped pend opts (t # ts) =
     (if tracer (as_ptracee t) \<noteq> Some p \<or> (n \<noteq> -1 \<and> n \<noteq> pid t) \<or> \<not> EXPECTED_WAIT_CLONE opts t
      then scan_ptracees p n stopped pend opts ts
      else if \<not> stopped then Some t
      else if running t then scan_ptracees p n stopped pend opts ts
      else if event_pending (as_ptracee t) \<or> \<not> pend then Some t
      else if n = pid t then None
      else scan_ptracees p n stopped pend opts ts)"

definition get_ptracee :: "nat \<Rightarrow> int \<Rightarrow> bool \<Rightarrow> bool \<Rightarrow> word_t \<Rightarrow> world \<Rightarrow> task option" where
  "get_ptracee p n stopped pend opts w =
     (case find (\<lambda>z. tracer (as_ptracee z) = Some p \<and> (n = -1 \<or> n = pid z) \<and> EXPECTED_WAIT_CLONE opts z) (dead w) of
        Some z \<Rightarrow> Some z
      | None \<Rightarrow> scan_ptracees p n stopped pend opts (live w))"

definition get_stopped_ptracee :: "nat \<Rightarrow> int \<Rightarrow> bool \<Rightarrow> word_t \<Rightarrow> world \<Rightarrow> task option" where
  "get_stopped_ptracee p n pend opts w = get_ptracee p n True pend opts w"

definition has_ptracees :: "nat \<Rightarrow> int \<Rightarrow> word_t \<Rightarrow> world \<Rightarrow> bool" where
  "has_ptracees p n opts w \<longleftrightarrow> get_ptracee p n False False opts w \<noteq> None"

section \<open>Tracer and tracee\<close>

text \<open>A ptracee is in the list of tracees or among the zombies; whichever has the address is changed.\<close>

definition on_any :: "nat \<Rightarrow> (task \<Rightarrow> task) \<Rightarrow> world \<Rightarrow> world" where
  "on_any a f w = (on_task a f w)\<lparr>dead := map (\<lambda>t. if addr t = a then f t else t) (dead w)\<rparr>"

definition attach_to_ptracer :: "nat \<Rightarrow> nat option \<Rightarrow> world \<Rightarrow> world res" where
  "attach_to_ptracer c p w =
     andThen (deref w p) (\<lambda>t.
       Inr (on_task (addr t) (\<lambda>t. t\<lparr>nb_ptracees := nb_ptracees t + 1\<rparr>)
              (on_any c (\<lambda>t. t\<lparr>as_ptracee := no_ptracee\<lparr>tracer := p\<rparr>\<rparr>) w)))"

definition detach_from_ptracer :: "task \<Rightarrow> world \<Rightarrow> world res" where
  "detach_from_ptracer c w =
     andThen (deref w (tracer (as_ptracee c))) (\<lambda>p.
       if nb_ptracees p = 0 then Inl Crash
       else Inr (on_task (addr p) (\<lambda>t. t\<lparr>nb_ptracees := nb_ptracees t - 1\<rparr>)
                   (on_any (addr c) (on_side (\<lambda>s. s\<lparr>tracer := None\<rparr>)) w)))"

definition free_zombie :: "nat \<Rightarrow> world \<Rightarrow> world" where
  "free_zombie a w = w\<lparr>dead := filter (\<lambda>z. addr z \<noteq> a) (dead w)\<rparr>"

section \<open>Restarting and ending\<close>

definition restart_tracee :: "life_env \<Rightarrow> nat \<Rightarrow> int \<Rightarrow> world \<Rightarrow> bool \<times> world" where
  "restart_tracee E a sig w =
     (case deref w (Some a) of Inl _ \<Rightarrow> (False, w)
      | Inr t \<Rightarrow>
         (if pid t \<le> 0 \<or> terminated t \<or> wait_pid t \<noteq> 0 \<or> sig = -1 then (False, w)
          else (let ok = ptrace_ok E t in
            (ok, on_task a (\<lambda>t. (on_th (restart_thread ok) t)\<lparr>running := (if ok then True else running t)\<rparr>) w))))"

definition MAX_KILL_BATCH :: nat where "MAX_KILL_BATCH = 512"
definition MAX_BATCH :: nat where "MAX_BATCH = 256"

definition kill_all_tracees :: "world \<Rightarrow> world" where
  "kill_all_tracees w =
     fold (\<lambda>t w. if pid t > 0 then kill_sig (pid t) SIGKILL w else w) (take MAX_KILL_BATCH (live w)) w"

definition terminate_tracee :: "nat \<Rightarrow> world \<Rightarrow> world" where
  "terminate_tracee a w =
     (let w = (on_task a (\<lambda>t. t\<lparr>terminated := True\<rparr>) w)\<lparr>has_terminated := True\<rparr> in
      case deref w (Some a) of Inr t \<Rightarrow> if killall_on_exit t then kill_all_tracees w else w | Inl _ \<Rightarrow> w)"

end
