(* ===== verification/Ptrace.thy ===== *)
theory Ptrace
  imports Tracees
begin

text \<open>
  Waiting for a ptracee and telling a tracer about its events (\<^verbatim>\<open>src/ptrace/wait.c\<close>), and the requests of
  \<open>ptrace(2)\<close> (\<^verbatim>\<open>src/ptrace/ptrace.c\<close>). What \<open>handle_tracee_event\<close> does is an argument here: it is defined on
  top of these in the theory \<open>Life\<close>.
\<close>

section \<open>Waiting\<close>

definition ended_status :: "wait_status \<Rightarrow> bool" where
  "ended_status s \<longleftrightarrow> WIFEXITED s \<or> WIFSIGNALED s"

text \<open>The arguments of the wait: which ptracee, and the options.\<close>

definition wait_target :: "task \<Rightarrow> int" where
  "wait_target t = sint (ucast (peek_reg ORIGINAL SYSARG_1 (th t)) :: u32)"

definition wait_opts :: "task \<Rightarrow> word_t" where
  "wait_opts t = peek_reg ORIGINAL SYSARG_3 (th t)"

definition translate_wait_enter :: "life_env \<Rightarrow> nat \<Rightarrow> world \<Rightarrow> world res" where
  "translate_wait_enter E p w =
     (let w = on_task p (\<lambda>t. t\<lparr>waits_in := WAITS_IN_KERNEL\<rparr>) w;
          emulate = on_task p (\<lambda>t. (on_th (set_sysnum PR_void) t)\<lparr>waits_in := WAITS_IN_PROOT\<rparr>) w in
      andThen (deref w (Some p)) (\<lambda>t.
        if nb_ptracees t = 0 then Inr w
        else
          let n = wait_target t in
          if n = -1 then Inr emulate
          else (case get_tracee E (Some t) n False w of
              (None, w) \<Rightarrow> Inr w
            | (Some c, w') \<Rightarrow> andThen (deref w (Some c)) (\<lambda>c.
                if tracer (as_ptracee c) \<noteq> Some p then Inr w else Inr emulate))))"

text \<open>The result is the status of the wait: 0 when the call will be made again by the kernel.\<close>

definition poke_status :: "nat \<Rightarrow> wait_status \<Rightarrow> task \<Rightarrow> world \<Rightarrow> errno option \<times> world" where
  "poke_status p v t w =
     (let a = peek_reg ORIGINAL SYSARG_2 (th t) in
      if a = 0 then (None, w)
      else (let (e, m) = write_data (tmem t) a (le_bytes 4 (unat v)) in (e, on_task p (\<lambda>t. t\<lparr>tmem := m\<rparr>) w)))"

definition update_wait_status :: "nat \<Rightarrow> task \<Rightarrow> world \<Rightarrow> (int \<times> world) res" where
  "update_wait_status p c w =
     (let s = as_ptracee c in
      andThen (deref w (Some p)) (\<lambda>t.
        if tracer s = parent c \<and> ended_status (event_value s) then
          andThen (detach_from_ptracer c (on_task p (on_th restart_original_syscall) w)) (\<lambda>w.
            Inr (0, if is_zombie s then free_zombie (addr c) w else w))
        else
          (case poke_status p (event_value s) t w of
             (Some e, w) \<Rightarrow> Inr (- errno_num e, w)
           | (None, w) \<Rightarrow>
              (let w = on_any (addr c) (on_side (\<lambda>s. s\<lparr>event_pending := False\<rparr>)) w in
               if is_zombie s then
                 andThen (detach_from_ptracer c w) (\<lambda>w. Inr (pid c, free_zombie (addr c) w))
               else Inr (pid c, w)))))"

definition translate_wait_exit :: "nat \<Rightarrow> world \<Rightarrow> (int \<times> world) res" where
  "translate_wait_exit p w =
     andThen (deref w (Some p)) (\<lambda>t.
       if waits_in t \<noteq> WAITS_IN_PROOT then Inl Crash
       else
         let w = on_task p (\<lambda>t. t\<lparr>waits_in := DOESNT_WAIT\<rparr>) w;
             n = wait_target t; opts = wait_opts t in
         (case get_stopped_ptracee p n True opts w of
            Some c \<Rightarrow> update_wait_status p c w
          | None \<Rightarrow>
             (if nb_ptracees t = 0 then Inr (- errno_num ECHILD, w)
              else if opts AND WNOHANG \<noteq> 0 then Inr (if has_ptracees p n opts w then 0 else - errno_num ECHILD, w)
              else Inr (0, on_task p (\<lambda>t. t\<lparr>wait_pid := n, wait_options := opts\<rparr>) w))))"

section \<open>The event of a ptracee\<close>

text \<open>What the event is for the tracer: \<open>None\<close> when it is not for the tracer at all; otherwise its value, whether it
  is handled first, whether that may make it disappear, and whether it starts the tracing.\<close>

definition TRACESYSGOOD :: word_t where "TRACESYSGOOD = 1"

definition event_option :: "int \<Rightarrow> word_t option" where
  "event_option c =
     (if c = EVENT_FORK then Some 2 else if c = EVENT_VFORK then Some 4 else if c = EVENT_CLONE then Some 8
      else if c = EVENT_EXEC then Some 16 else if c = EVENT_VFORK_DONE then Some 32 else if c = EVENT_EXIT then Some 64
      else None)"

definition classify_event :: "ptracee_side \<Rightarrow> bool \<Rightarrow> wait_status \<Rightarrow> (wait_status \<times> bool \<times> bool \<times> bool) option" where
  "classify_event s in_exit ev =
     (if WIFSTOPPED ev then
        (let c = stop_code ev in
         if c = SYSCALL_STOP then
           (if ignore_syscalls s \<or> ignore_loader_syscalls s then None
            else Some (if pt_options s AND TRACESYSGOOD = 0 then ev AND NOT 0x8000 else ev, in_exit, False, False))
         else (case event_option c of
             Some opt \<Rightarrow> (if pt_options s AND opt = 0 then None else Some (ev, True, False, True))
           | None \<Rightarrow>
              (if c = EVENT_SECCOMP2 \<or> c = EVENT_SECCOMP then None
               else if c = SIGSYS then Some (ev, True, True, False)
               else Some (ev, False, False, True))))
      else Some (ev, False, False, ended_status ev))"

text \<open>The tracer is told; when it waits for this ptracee its call is completed and it is restarted. The result is
  whether the ptracee stays stopped.\<close>

definition report_event :: "life_env \<Rightarrow> nat \<Rightarrow> nat \<Rightarrow> wait_status \<Rightarrow> bool \<Rightarrow> world \<Rightarrow> (bool \<times> world) res" where
  "report_event E a p ev keep w =
     (let w = on_task a (on_side (\<lambda>s. s\<lparr>event_value := ev, event_pending := True\<rparr>)) w in
      andThen (deref w (Some p)) (\<lambda>pt. andThen (deref w (Some a)) (\<lambda>c.
        let w = kill_sig (pid pt) SIGCHLD w in
        if (wait_pid pt = -1 \<or> wait_pid pt = pid c) \<and> EXPECTED_WAIT_CLONE (wait_options pt) c then
          andThen (update_wait_status p c w) (\<lambda>(st, w).
          andThen (deref w (Some p)) (\<lambda>pt.
          andThen (if st = 0 then chain_next_syscall (th pt) else Inr (poke_reg SYSARG_RESULT (word_of_int st) (th pt))) (\<lambda>t.
            let t = snd (push_specific_regs (ev_ptrace (stops E)) True t);
                w = on_task p (\<lambda>pt. pt\<lparr>th := t, wait_pid := 0\<rparr>) w;
                (restarted, w) = restart_tracee E p 0 w
            in Inr (keep \<and> restarted, w))))
        else Inr (keep, w))))"

text \<open>The stop the tracer sees instead of a signal that disappeared.\<close>

definition syscall_status :: "word_t \<Rightarrow> wait_status" where
  "syscall_status opts = W_STOPCODE (if opts AND TRACESYSGOOD \<noteq> 0 then SYSCALL_STOP else SIGTRAP)"

definition handle_ptracee_event ::
  "life_env \<Rightarrow> (nat \<Rightarrow> wait_status \<Rightarrow> world \<Rightarrow> (int \<times> world) res) \<Rightarrow> nat \<Rightarrow> wait_status \<Rightarrow> world \<Rightarrow> (bool \<times> world) res" where
  "handle_ptracee_event E handle a ev w =
     andThen (deref w (Some a)) (\<lambda>c.
       (case tracer (as_ptracee c) of None \<Rightarrow> Inl Crash
        | Some p \<Rightarrow>
           (let w = on_task a (on_side (\<lambda>s. s\<lparr>proot_value := ev, proot_pending := True\<rparr>)) w in
            case classify_event (as_ptracee c) (status (th c) \<noteq> 0) ev of
              None \<Rightarrow> Inr (False, w)
            | Some (ev', first, may_suppress, starts) \<Rightarrow>
               (let w = (if starts then on_task a (on_side (\<lambda>s. s\<lparr>tracing_started := True\<rparr>)) w else w);
                    keep = (WIFSTOPPED ev \<or> \<not> ended_status ev) in
                if \<not> (tracing_started (as_ptracee c) \<or> starts) then Inr (False, w)
                else if \<not> first then report_event E a p ev' keep w
                else
                  andThen (handle a ev w) (\<lambda>(sig, w).
                    let w = on_task a (on_side (\<lambda>s. s\<lparr>proot_value := word_of_int sig\<rparr>)) w in
                    if \<not> may_suppress then (if sig \<noteq> 0 then Inl Crash else report_event E a p ev' keep w)
                    else if sig \<noteq> 0 then report_event E a p ev' keep w
                    else if seccomp_event_happens_after_enter_sigtrap (globals w) \<and> \<not> ignore_syscalls (as_ptracee c) then
                      report_event E a p (syscall_status (pt_options (as_ptracee c))) keep
                        (on_task a (on_side (\<lambda>s. s\<lparr>proot_value := 0\<rparr>)) w)
                    else Inr (True, snd (restart_tracee E a 0 w)))))))"

section \<open>Requests\<close>

datatype request = PTRACE_TRACEME | PTRACE_ATTACH | Resume restart | PTRACE_DETACH | PTRACE_KILL | PTRACE_SETOPTIONS | Data

definition request_of :: "word_t \<Rightarrow> request option" where
  "request_of r =
     (if r = 0 then Some PTRACE_TRACEME else if r = 16 then Some PTRACE_ATTACH
      else if r = 24 then Some (Resume PTRACE_SYSCALL) else if r = 7 then Some (Resume PTRACE_CONT)
      else if r = 9 then Some (Resume PTRACE_SINGLESTEP) else if r = 33 then Some (Resume PTRACE_SINGLEBLOCK)
      else if r = 17 then Some PTRACE_DETACH else if r = 8 then Some PTRACE_KILL
      else if r = 0x4200 then Some PTRACE_SETOPTIONS
      else if r \<in> {0x4201, 3, 1, 2, 6, 4, 5, 0x4202, 0x4203, 12, 13, 14, 15, 0x4204, 0x4205, 23} then Some Data
      else None)"

definition ptrace_traceme :: "life_env \<Rightarrow> nat \<Rightarrow> world \<Rightarrow> (int \<times> world) res" where
  "ptrace_traceme E a w =
     andThen (deref w (Some a)) (\<lambda>t.
       if tracer (as_ptracee t) \<noteq> None \<or> parent t = Some a then Inr (- errno_num EPERM, w)
       else
         andThen (attach_to_ptracer a (parent t) w) (\<lambda>w.
         andThen (deref w (parent t)) (\<lambda>p.
           let w = (if waits_in p \<noteq> WAITS_IN_KERNEL then w
                    else if killable E (pid p) then
                      kill_sig (pid p) SIGSTOP (on_task (addr p) (\<lambda>p. (on_th (\<lambda>u. u\<lparr>sigstop := SIGSTOP_IGNORED\<rparr>) p)\<lparr>waits_in := WAITS_IN_PROOT\<rparr>) w)
                    else w)
           in Inr (0, on_task a (on_th (\<lambda>u. if seccomp u = ENABLED then u\<lparr>seccomp := DISABLING\<rparr> else u)) w))))"

definition ptrace_attach :: "life_env \<Rightarrow> nat \<Rightarrow> int \<Rightarrow> world \<Rightarrow> (int \<times> world) res" where
  "ptrace_attach E p n w =
     andThen (deref w (Some p)) (\<lambda>pt.
       (case get_tracee E (Some pt) n False w of
          (None, w) \<Rightarrow> Inr (- errno_num ESRCH, w)
        | (Some c, w) \<Rightarrow>
           andThen (deref w (Some c)) (\<lambda>t.
             if tracer (as_ptracee t) \<noteq> None \<or> c = p then Inr (- errno_num EPERM, w)
             else andThen (attach_to_ptracer c (Some p) w) (\<lambda>w. Inr (0, kill_sig n SIGSTOP w)))))"

text \<open>A request that lets the ptracee go on: the event that is pending is handled, and the signal that results is
  replaced by the one that is asked for.\<close>

definition resume_ptracee ::
  "life_env \<Rightarrow> (nat \<Rightarrow> wait_status \<Rightarrow> world \<Rightarrow> (int \<times> world) res) \<Rightarrow> nat \<Rightarrow> int \<Rightarrow> int \<Rightarrow> world \<Rightarrow> (int \<times> world) res" where
  "resume_ptracee E handle a forced st w =
     andThen (deref w (Some a)) (\<lambda>c.
     andThen (if proot_pending (as_ptracee c) then handle a (proot_value (as_ptracee c)) w
              else Inr (sint (proot_value (as_ptracee c)), w)) (\<lambda>(sig, w).
       Inr (st, snd (restart_tracee E a (if forced \<noteq> -1 then forced else sig) w))))"

definition translate_ptrace_exit ::
  "life_env \<Rightarrow> (nat \<Rightarrow> wait_status \<Rightarrow> world \<Rightarrow> (int \<times> world) res) \<Rightarrow> nat \<Rightarrow> world \<Rightarrow> (int \<times> world) res" where
  "translate_ptrace_exit E handle p w =
     andThen (deref w (Some p)) (\<lambda>pt.
       let arg = (\<lambda>r. peek_reg ORIGINAL r (th pt)); request = arg SYSARG_1;
           n = sint (ucast (arg SYSARG_2) :: u32); data = arg SYSARG_4; signal = sint (ucast data :: u32) in
       if request_of request = Some PTRACE_TRACEME then ptrace_traceme E p w
       else if request_of request = Some PTRACE_ATTACH then ptrace_attach E p n w
       else (case get_stopped_ptracee p n False WALL w of
           None \<Rightarrow> Inr (- errno_num ESRCH, w)
         | Some c \<Rightarrow>
            (let a = addr c; resume = (\<lambda>f forced. resume_ptracee E handle a forced 0 (on_task a f w)) in
             if is_zombie (as_ptracee c) \<or> arg SYSARG_2 = -1 then Inr (- errno_num ESRCH, w)
             else (case request_of request of
                 Some (Resume PTRACE_SYSCALL) \<Rightarrow> resume (on_side (\<lambda>s. s\<lparr>ignore_syscalls := False\<rparr>)) signal
               | Some (Resume PTRACE_CONT) \<Rightarrow> resume (on_side (\<lambda>s. s\<lparr>ignore_syscalls := True\<rparr>)) signal
               | Some (Resume how) \<Rightarrow> resume (on_th (\<lambda>u. u\<lparr>restart_how := how\<rparr>)) signal
               | Some PTRACE_DETACH \<Rightarrow> andThen (detach_from_ptracer c w) (resume_ptracee E handle a (-1) 0)
               | Some PTRACE_KILL \<Rightarrow>
                  resume_ptracee E handle a (-1) (fst (data_request E request c (arg SYSARG_3) data (tmem pt))) w
               | Some PTRACE_SETOPTIONS \<Rightarrow> Inr (0, on_task a (on_side (\<lambda>s. s\<lparr>pt_options := data\<rparr>)) w)
               | Some Data \<Rightarrow>
                  (let (st, m) = data_request E request c (arg SYSARG_3) data (tmem pt)
                   in Inr (st, on_task p (\<lambda>pt. pt\<lparr>tmem := m\<rparr>) w))
               | _ \<Rightarrow> Inr (- errno_num ENOTSUP, w)))))"

definition translate_ptrace_enter :: "nat \<Rightarrow> world \<Rightarrow> world" where
  "translate_ptrace_enter p w = on_task p (on_th (set_sysnum PR_void)) w"

end
