(* ===== verification/Life.thy ===== *)
theory Life
  imports Ptrace
begin

text \<open>
  The life of the tracees: how a new one inherits from its parent, what becomes of the others when one ends,
  and the loop that serves the stops (\<^verbatim>\<open>src/tracee/tracee.c\<close>, \<open>event_loop\<close> of \<^verbatim>\<open>src/tracee/event.c\<close>).
\<close>

section \<open>A new child\<close>

definition CLONE_VM :: word_t where "CLONE_VM = 0x100"
definition CLONE_FS :: word_t where "CLONE_FS = 0x200"
definition CLONE_PTRACE :: word_t where "CLONE_PTRACE = 0x2000"
definition CLONE_PARENT :: word_t where "CLONE_PARENT = 0x8000"
definition CLONE_THREAD :: word_t where "CLONE_THREAD = 0x10000"

definition clone_flags_of :: "(word_t \<Rightarrow> word_t) \<Rightarrow> errno option \<Rightarrow> word_t \<Rightarrow> thread \<Rightarrow> word_t" where
  "clone_flags_of peek_word err flags t =
     (if err \<noteq> None then flags
      else if get_sysnum CURRENT t = ''clone'' then peek_reg CURRENT SYSARG_1 t
      else if get_sysnum CURRENT t = ''clone3'' then peek_word (peek_reg CURRENT SYSARG_1 t)
      else flags)"

text \<open>The option that makes the child a ptracee as well: 8 for \<open>PTRACE_O_TRACECLONE\<close>.\<close>

definition child_option :: "word_t \<Rightarrow> word_t" where
  "child_option flags =
     (if flags = 0 \<or> flags AND 0xFF = 17 then 2 else if flags AND CLONE_VFORK \<noteq> 0 then 4 else 8)"

definition inherited_options :: word_t where
  "inherited_options = 0x7F"

text \<open>\<open>fresh\<close> are the numbers of a name-space, a table and a heap of the child's own. The bindings are copied when
  a name-space of mounts was asked for, which is not made; otherwise the tables are shared.\<close>

definition inherit_from :: "nat \<Rightarrow> word_t \<Rightarrow> task \<Rightarrow> task \<Rightarrow> task" where
  "inherit_from fresh flags p c =
     (let t = th c; u = th p;
          t = t\<lparr>seccomp := seccomp u, sysexit_pending := sysexit_pending u, has_exe := has_exe u\<rparr>;
          shares = (flags AND CLONE_FS \<noteq> 0 \<and> \<not> stripped_newns p)
      in c\<lparr>th := t, heap_ref := (if flags AND CLONE_VM \<noteq> 0 then heap_ref p else fresh),
           parent := (if flags AND CLONE_PARENT \<noteq> 0 then parent p else Some (addr p)),
           is_clone := (flags AND CLONE_THREAD \<noteq> 0),
           fs_ref := (if shares then fs_ref p else fresh),
           table_ref := (if shares \<or> \<not> stripped_newns p then table_ref p else fresh),
           fake_netns := (fake_netns p \<or> stripped_newnet p)\<rparr>)"

definition attach_child :: "nat \<Rightarrow> word_t \<Rightarrow> task \<Rightarrow> world \<Rightarrow> world res" where
  "attach_child c flags p w =
     (case tracer (as_ptracee p) of None \<Rightarrow> Inr w
      | Some q \<Rightarrow>
         (let opts = pt_options (as_ptracee p) in
          if child_option flags AND opts \<noteq> 0 \<or> flags AND CLONE_PTRACE \<noteq> 0 then
            andThen (attach_to_ptracer c (Some q) w) (\<lambda>w.
              Inr (on_task c (on_side (\<lambda>s. s\<lparr>pt_options := pt_options s OR (opts AND inherited_options)\<rparr>)) w))
          else Inr w))"

text \<open>A child that stopped before it was known is restarted now, unless its tracer keeps it.\<close>

definition release_child :: "life_env \<Rightarrow> nat \<Rightarrow> world \<Rightarrow> world res" where
  "release_child E c w =
     andThen (deref w (Some c)) (\<lambda>t.
       if sigstop (th t) \<noteq> SIGSTOP_PENDING then Inr w
       else
         let w = on_task c (on_th (\<lambda>u. u\<lparr>sigstop := SIGSTOP_ALLOWED\<rparr>)) w in
         andThen
           (if tracer (as_ptracee t) = None then Inr (False, w)
            else andThen (handle_ptracee_event E (\<lambda>_ _ _. Inl Crash) c (W_STOPCODE SIGSTOP) w) (\<lambda>(keep, w).
              Inr (keep, on_task c (on_side (\<lambda>s. s\<lparr>proot_pending := False, proot_value := 0\<rparr>)) w)))
           (\<lambda>(keep, w). Inr (if keep then w else snd (restart_tracee E c 0 w))))"

definition new_child :: "life_env \<Rightarrow> nat \<Rightarrow> word_t \<Rightarrow> world \<Rightarrow> world res" where
  "new_child E a flags w =
     andThen (deref w (Some a)) (\<lambda>p.
       let (err, t) = fetch_regs (ev_ptrace (stops E)) (th p);
           peek_word = (\<lambda>x. case read_data (tmem p) x 8 of Inl _ \<Rightarrow> 0 | Inr bs \<Rightarrow> of_nat (le_value bs));
           flags = clone_flags_of peek_word err flags t;
           w = on_task a (\<lambda>p. p\<lparr>th := t\<rparr>) w in
       (case event_message (stops E) t of
          None \<Rightarrow> Inr w
        | Some n \<Rightarrow>
           (if n = 0 then Inr w
            else
              (case get_tracee E (Some (p\<lparr>th := t\<rparr>)) (sint (ucast n :: u32)) True w of
                 (None, w) \<Rightarrow> Inr w
               | (Some c, w) \<Rightarrow>
                  (let fresh = next_addr w; w = w\<lparr>next_addr := fresh + 1\<rparr>;
                       w = on_task c (inherit_from fresh flags (p\<lparr>th := t\<rparr>)) w in
                   andThen (attach_child c flags p w) (\<lambda>w.
                     release_child E c (on_task a (\<lambda>p. p\<lparr>stripped_newns := False, stripped_newnet := False\<rparr>) w)))))))"

section \<open>The handler\<close>

text \<open>\<open>handle_tracee_event\<close> with its effects on the other tracees.\<close>

definition serve_event :: "life_env \<Rightarrow> nat \<Rightarrow> wait_status \<Rightarrow> world \<Rightarrow> (int \<times> world) res" where
  "serve_event E a st w =
     (case deref w (Some a) of Inl e \<Rightarrow> Inl e
      | Inr t \<Rightarrow>
         (if pid t \<le> 0 \<or> terminated t then Inr (0, w)
          else
            andThen (handle_tracee_event (stops E) (vpid t = 1) st (globals w, th t, tmem t)) (\<lambda>(out, g, u, m).
              let w = (on_task a (\<lambda>t. t\<lparr>th := u, tmem := m\<rparr>) w)\<lparr>globals := g\<rparr>;
                  done = on_task a (on_side (\<lambda>s. s\<lparr>proot_pending := False\<rparr>)) in
              (case out of
                 Signal s \<Rightarrow> Inr (s, done w)
               | Early s \<Rightarrow> Inr (s, w)
               | Ended \<Rightarrow> Inr (0, terminate_tracee a w)
               | Child flags \<Rightarrow> andThen (new_child E a flags w) (\<lambda>w. Inr (0, done w))))))"

section \<open>The end of a tracee\<close>

text \<open>One relative of a tracee that is gone: it loses its parent; a ptracee loses its tracer, and goes on with the
  event that was pending.\<close>

definition release_relative :: "life_env \<Rightarrow> nat \<Rightarrow> nat \<Rightarrow> world \<Rightarrow> world res" where
  "release_relative E gone a w =
     (case deref w (Some a) of Inl _ \<Rightarrow> Inl Crash
      | Inr t \<Rightarrow>
         (let w = (if parent t = Some gone then on_task a (\<lambda>t. t\<lparr>parent := None\<rparr>) w else w); s = as_ptracee t in
          if tracer s \<noteq> Some gone then Inr w
          else
            let w = on_task a (on_side (\<lambda>s. s\<lparr>tracer := None\<rparr>)) w in
            andThen
              (if proot_pending s then andThen (serve_event E a (proot_value s) w) (\<lambda>(ev, w). Inr (snd (restart_tracee E a ev w)))
               else if event_pending s then Inr (snd (restart_tracee E a (sint (proot_value s)) w))
               else Inr w)
              (\<lambda>w. Inr (on_task a (\<lambda>t. t\<lparr>as_ptracee := no_ptracee\<rparr>) w))))"

fun each_task :: "(nat \<Rightarrow> world \<Rightarrow> world res) \<Rightarrow> nat list \<Rightarrow> world \<Rightarrow> world res" where
  "each_task f [] w = Inr w"
| "each_task f (a # as) w = andThen (f a w) (each_task f as)"

text \<open>A tracer that waits learns that nothing is left to wait for.\<close>

definition wake_waiting :: "life_env \<Rightarrow> nat \<Rightarrow> world \<Rightarrow> world res" where
  "wake_waiting E p w =
     andThen (deref w (Some p)) (\<lambda>t.
       if nb_ptracees t = 0 \<and> wait_pid t \<noteq> 0 then
         (let u = snd (push_specific_regs (ev_ptrace (stops E)) True (poke_reg SYSARG_RESULT (word_of_int (- errno_num ECHILD)) (th t)))
          in Inr (snd (restart_tracee E p 0 (on_task p (\<lambda>t. t\<lparr>th := u, wait_pid := 0\<rparr>) w))))
       else Inr w)"

text \<open>The event of a ptracee that ended outlives it, in a zombie.\<close>

definition leave_tracer :: "life_env \<Rightarrow> task \<Rightarrow> world \<Rightarrow> world res" where
  "leave_tracer E t w =
     (let s = as_ptracee t in
      case tracer s of None \<Rightarrow> Inr w
      | Some p \<Rightarrow>
         (if event_pending s \<and> ended_status (event_value s) then
            (let z = next_addr w;
                 zt = (blank_task E z (pid t))\<lparr>parent := parent t, is_clone := is_clone t\<rparr>;
                 w = w\<lparr>dead := zt # dead w, next_addr := z + 1\<rparr> in
             andThen (detach_from_ptracer t w) (\<lambda>w.
             andThen (attach_to_ptracer z (Some p) w) (\<lambda>w.
               Inr (on_any z (on_side (\<lambda>s. s\<lparr>event_pending := True, event_value := event_value (as_ptracee t), is_zombie := True\<rparr>)) w))))
          else andThen (detach_from_ptracer t w) (wake_waiting E p)))"

text \<open>The zombies of a tracer go with it.\<close>

definition remove_tracee :: "life_env \<Rightarrow> nat \<Rightarrow> world \<Rightarrow> world res" where
  "remove_tracee E a w =
     andThen (deref w (Some a)) (\<lambda>t.
       let w = w\<lparr>live := filter (\<lambda>u. addr u \<noteq> a) (live w)\<rparr>;
           batch = take MAX_BATCH (map addr (filter (\<lambda>u. parent u = Some a \<or> tracer (as_ptracee u) = Some a) (live w))) in
       andThen (each_task (release_relative E a) batch w) (\<lambda>w.
       andThen (leave_tracer E t w) (\<lambda>w.
         Inr (w\<lparr>dead := filter (\<lambda>z. tracer (as_ptracee z) \<noteq> Some a) (dead w)\<rparr>))))"

definition detach_address :: "nat \<Rightarrow> world \<Rightarrow> world res" where
  "detach_address a w = andThen (deref w (Some a)) (\<lambda>t. detach_from_ptracer t w)"

definition free_tracee :: "life_env \<Rightarrow> nat \<Rightarrow> world \<Rightarrow> world res" where
  "free_tracee E a w =
     andThen (deref w (Some a)) (\<lambda>t.
       andThen
         (if nb_ptracees t > 0
          then each_task detach_address (take MAX_BATCH (map addr (filter (\<lambda>u. tracer (as_ptracee u) = Some a) (live w)))) w
          else Inr w)
         (remove_tracee E a))"

definition free_terminated_tracees :: "life_env \<Rightarrow> world \<Rightarrow> world res" where
  "free_terminated_tracees E w =
     (if \<not> has_terminated w then Inr w
      else each_task (free_tracee E) (take MAX_BATCH (map addr (filter terminated (live w)))) (w\<lparr>has_terminated := False\<rparr>))"

section \<open>The loop\<close>

text \<open>One turn: \<open>None\<close> when the first tracee ended and the loop is left.\<close>

definition loop_turn :: "life_env \<Rightarrow> int \<Rightarrow> wait_status \<Rightarrow> world \<Rightarrow> world option res" where
  "loop_turn E n st w =
     andThen (free_terminated_tracees E w) (\<lambda>w.
       if root_exited (globals w) then Inr None
       else
         (case get_tracee E None n True w of
            (None, w) \<Rightarrow> Inr (Some w)
          | (Some a, w) \<Rightarrow>
             andThen (deref w (Some a)) (\<lambda>t.
               if pid t \<le> 0 \<or> terminated t then Inr (Some w)
               else
                 let w = on_task a (\<lambda>t. t\<lparr>running := False\<rparr>) w in
                 if new_status_ext E t st then Inr (Some w)
                 else
                   andThen (if tracer (as_ptracee t) = None then Inr (False, w)
                            else handle_ptracee_event E (serve_event E) a st w) (\<lambda>(keep, w).
                     if keep then Inr (Some w)
                     else andThen (serve_event E a st w) (\<lambda>(s, w). Inr (Some (snd (restart_tracee E a s w))))))))"

text \<open>\<open>unshare_file_system_namespace\<close>: a name-space and a table of the tracee's own.\<close>

definition unshare_file_system_namespace :: "nat \<Rightarrow> world \<Rightarrow> world" where
  "unshare_file_system_namespace a w =
     (on_task a (\<lambda>t. t\<lparr>fs_ref := next_addr w, table_ref := next_addr w\<rparr>) w)\<lparr>next_addr := next_addr w + 1\<rparr>"

end
