(* ===== verification/Ptrace_Count.thy ===== *)
theory Ptrace_Count
  imports Life
begin

text \<open>
  How many ptracees a tracer counts, and how attaching and detaching change it: the invariant that the
  properties of the life cycle rest on.
\<close>

section \<open>Results\<close>

lemma andThen_Inr: "andThen r f = Inr y \<longleftrightarrow> (\<exists>x. r = Inr x \<and> f x = Inr y)"
  by (cases r) (auto simp: andThen_def)

lemma andThenE:
  assumes "andThen r f = Inr y"
  obtains x where "r = Inr x" "f x = Inr y"
  using assms by (auto simp: andThen_Inr)

lemma find_addr_in: "find (\<lambda>u. addr u = a) xs = Some t \<Longrightarrow> t \<in> set xs \<and> addr t = a"
  by (induction xs) (auto split: if_split_asm)

lemma find_addr_unique: "distinct (map addr xs) \<Longrightarrow> t \<in> set xs \<Longrightarrow> find (\<lambda>u. addr u = addr t) xs = Some t"
  by (induction xs) force+

lemma deref_Inr: "deref w p = Inr t \<longleftrightarrow> p = Some (addr t) \<and> find (\<lambda>u. addr u = addr t) (live w) = Some t"
  by (auto simp: deref_def split: option.splits dest: find_addr_in)

lemma derefD: "deref w p = Inr t \<Longrightarrow> t \<in> set (live w) \<and> p = Some (addr t)"
  by (auto simp: deref_Inr dest: find_addr_in)

section \<open>Counting ptracees\<close>

abbreviation tracer_of :: "task \<Rightarrow> nat option" where
  "tracer_of t \<equiv> tracer (as_ptracee t)"

definition cnt :: "nat \<Rightarrow> task list \<Rightarrow> nat" where
  "cnt p xs = length (filter (\<lambda>t. tracer_of t = Some p) xs)"

lemma cnt_simps [simp]:
  "cnt p [] = 0" "cnt p (t # xs) = (if tracer_of t = Some p then 1 else 0) + cnt p xs" "cnt p (xs @ ys) = cnt p xs + cnt p ys"
  by (simp_all add: cnt_def)

definition upd :: "nat \<Rightarrow> (task \<Rightarrow> task) \<Rightarrow> task list \<Rightarrow> task list" where
  "upd a f = map (\<lambda>t. if addr t = a then f t else t)"

lemma upd_simps [simp]:
  "upd a f [] = []" "upd a f (t # xs) = (if addr t = a then f t else t) # upd a f xs"
  "upd a f (xs @ ys) = upd a f xs @ upd a f ys"
  by (simp_all add: upd_def)

lemma in_upd: "t \<in> set (upd a f xs) \<Longrightarrow> \<exists>u \<in> set xs. t = (if addr u = a then f u else u)"
  unfolding upd_def set_map by blast

lemma upd_absent: "a \<notin> addr ` set xs \<Longrightarrow> upd a f xs = xs"
  by (induction xs) auto

lemma cnt_absent: "(\<forall>t \<in> set xs. tracer_of t \<noteq> Some p) \<Longrightarrow> cnt p xs = 0"
  by (induction xs) auto

lemma cnt_upd:
  assumes "distinct (map addr xs)" "t \<in> set xs"
  shows "cnt p (upd (addr t) f xs) + (if tracer_of t = Some p then 1 else 0) =
    cnt p xs + (if tracer_of (f t) = Some p then 1 else 0)"
  using assms
proof (induction xs)
  case (Cons u xs)
  show ?case
  proof (cases "u = t")
    case True
    with Cons.prems have "addr t \<notin> addr ` set xs" by auto
    with True show ?thesis by (simp add: upd_absent)
  next
    case False
    with Cons have "addr u \<noteq> addr t" by force
    with Cons False show ?thesis by simp
  qed
qed simp

lemma cnt_upd_same: "(\<And>t. tracer_of (f t) = tracer_of t) \<Longrightarrow> cnt p (upd a f xs) = cnt p xs"
  by (induction xs) auto

lemma cnt_upd_le: "(\<And>t. tracer_of (f t) = tracer_of t \<or> tracer_of (f t) = None) \<Longrightarrow> cnt p (upd a f xs) \<le> cnt p xs"
proof (induction xs)
  case (Cons t xs)
  from Cons(2) [of t] Cons(1) [OF Cons(2)] show ?case by auto
qed simp

lemma upd_addrs: "(\<And>t. addr (f t) = addr t) \<Longrightarrow> map addr (upd a f xs) = map addr xs"
  by (induction xs) auto

section \<open>The invariant\<close>

definition all_tasks :: "world \<Rightarrow> task list" where
  "all_tasks w = live w @ dead w"

text \<open>\<open>owed\<close> is a tracer that counts one ptracee more: one that is being removed. \<open>G\<close> are addresses of
  tracees that were freed.\<close>

definition counted :: "nat option \<Rightarrow> nat set \<Rightarrow> world \<Rightarrow> bool" where
  "counted owed G w \<longleftrightarrow>
     distinct (map addr (all_tasks w)) \<and> (\<forall>g \<in> G. g < next_addr w \<and> g \<notin> set (map addr (all_tasks w))) \<and> (\<forall>t \<in> set (all_tasks w). addr t < next_addr w) \<and>
     (\<forall>p \<in> set (live w). cnt (addr p) (all_tasks w) + (if owed = Some (addr p) then 1 else 0) \<le> nb_ptracees p) \<and>
     (\<forall>p. next_addr w \<le> p \<longrightarrow> cnt p (all_tasks w) + (if owed = Some p then 1 else 0) = 0)"

lemma countedD:
  assumes "counted owed G w"
  shows "distinct (map addr (all_tasks w))" "g \<in> G \<Longrightarrow> g < next_addr w \<and> g \<notin> set (map addr (all_tasks w))"
    "t \<in> set (all_tasks w) \<Longrightarrow> addr t < next_addr w"
    "p \<in> set (live w) \<Longrightarrow> cnt (addr p) (all_tasks w) + (if owed = Some (addr p) then 1 else 0) \<le> nb_ptracees p"
    "next_addr w \<le> q \<Longrightarrow> cnt q (all_tasks w) + (if owed = Some q then 1 else 0) = 0"
  using assms unfolding counted_def by blast+

lemma on_task_lists: "live (on_task a f w) = upd a f (live w)" "dead (on_task a f w) = dead w" "next_addr (on_task a f w) = next_addr w"
  by (simp_all add: on_task_def upd_def)

lemma on_any_lists: "live (on_any a f w) = upd a f (live w)" "dead (on_any a f w) = upd a f (dead w)"
  "all_tasks (on_any a f w) = upd a f (all_tasks w)" "next_addr (on_any a f w) = next_addr w"
  by (simp_all add: on_any_def on_task_def upd_def all_tasks_def)

lemma deref_unique:
  assumes "counted owed G w" "t \<in> set (live w)"
  shows "deref w (Some (addr t)) = Inr t"
proof -
  have d: "distinct (map addr (live w))" using countedD(1) [OF assms(1)] by (simp add: all_tasks_def)
  from find_addr_unique [OF this assms(2)] show ?thesis by (simp add: deref_Inr)
qed

text \<open>Changes that leave the counts alone.\<close>

definition plain :: "(task \<Rightarrow> task) \<Rightarrow> bool" where
  "plain f \<longleftrightarrow> (\<forall>t. addr (f t) = addr t \<and> (tracer_of (f t) = tracer_of t \<or> tracer_of (f t) = None) \<and>
     nb_ptracees (f t) = nb_ptracees t)"

lemma plain_task:
  assumes "counted owed G w" "plain f"
  shows "counted owed G (on_task a f w)"
  unfolding counted_def
proof (intro conjI ballI allI impI)
  have ad: "\<And>t. addr (f t) = addr t" and tr: "\<And>t. tracer_of (f t) = tracer_of t \<or> tracer_of (f t) = None"
    using assms(2) by (auto simp: plain_def)
  have eq: "map addr (all_tasks (on_task a f w)) = map addr (all_tasks w)"
    using upd_addrs [of f, OF ad] by (simp add: all_tasks_def on_task_lists)
  show "distinct (map addr (all_tasks (on_task a f w)))" unfolding eq by (rule countedD(1) [OF assms(1)])
  fix g assume "g \<in> G"
  from countedD(2) [OF assms(1) this] show "g < next_addr (on_task a f w)" "g \<notin> set (map addr (all_tasks (on_task a f w)))"
    unfolding eq by (simp_all add: on_task_lists)
next
  have ad: "\<And>t. addr (f t) = addr t" using assms(2) by (auto simp: plain_def)
  have eq: "map addr (all_tasks (on_task a f w)) = map addr (all_tasks w)"
    using upd_addrs [of f, OF ad] by (simp add: all_tasks_def on_task_lists)
  fix t assume "t \<in> set (all_tasks (on_task a f w))"
  then have "addr t \<in> set (map addr (all_tasks w))" unfolding eq [symmetric] by simp
  then show "addr t < next_addr (on_task a f w)" using countedD(3) [OF assms(1)] by (auto simp: on_task_lists)
next
  have ad: "\<And>t. addr (f t) = addr t" and tr: "\<And>t. tracer_of (f t) = tracer_of t \<or> tracer_of (f t) = None"
    using assms(2) by (auto simp: plain_def)
  fix p assume "p \<in> set (live (on_task a f w))"
  then obtain q where q: "q \<in> set (live w)" "p = q \<or> p = f q" by (auto simp: on_task_lists upd_def)
  then have "addr p = addr q" "nb_ptracees p = nb_ptracees q" using assms(2) by (auto simp: plain_def)
  moreover have "cnt (addr q) (all_tasks (on_task a f w)) \<le> cnt (addr q) (all_tasks w)"
    using cnt_upd_le [of f, OF tr] by (simp add: all_tasks_def on_task_lists)
  ultimately show "cnt (addr p) (all_tasks (on_task a f w)) + (if owed = Some (addr p) then 1 else 0) \<le> nb_ptracees p"
    using countedD(4) [OF assms(1) q(1)] by simp
next
  have tr: "\<And>t. tracer_of (f t) = tracer_of t \<or> tracer_of (f t) = None" using assms(2) by (auto simp: plain_def)
  fix p assume "next_addr (on_task a f w) \<le> p"
  then have "cnt p (all_tasks w) + (if owed = Some p then 1 else 0) = 0"
    using countedD(5) [OF assms(1)] by (simp add: on_task_lists)
  moreover have "cnt p (all_tasks (on_task a f w)) \<le> cnt p (all_tasks w)"
    using cnt_upd_le [of f, OF tr] by (simp add: all_tasks_def on_task_lists)
  ultimately show "cnt p (all_tasks (on_task a f w)) + (if owed = Some p then 1 else 0) = 0" by simp
qed

lemma same_lists: "counted owed G w \<Longrightarrow> live w' = live w \<Longrightarrow> dead w' = dead w \<Longrightarrow> next_addr w \<le> next_addr w' \<Longrightarrow> counted owed G w'"
proof -
  assume c: "counted owed G w" and l: "live w' = live w" "dead w' = dead w" "next_addr w \<le> next_addr w'"
  have all: "all_tasks w' = all_tasks w" using l by (simp add: all_tasks_def)
  from c l(3) show ?thesis unfolding counted_def all l(1) by (meson order_less_le_trans order_trans)
qed

lemma plain_intros [simp]:
  "plain (on_th f)" "plain (\<lambda>t. t\<lparr>waits_in := v\<rparr>)" "plain (\<lambda>t. t\<lparr>running := b\<rparr>)" "plain (\<lambda>t. t\<lparr>tmem := m\<rparr>)"
  "plain (\<lambda>t. t\<lparr>th := u\<rparr>)" "plain (\<lambda>t. t\<lparr>th := u, tmem := m\<rparr>)" "plain (\<lambda>t. t\<lparr>th := u, wait_pid := 0\<rparr>)"
  "plain (\<lambda>t. t\<lparr>terminated := True\<rparr>)" "plain (\<lambda>t. t\<lparr>parent := q\<rparr>)" "plain (\<lambda>t. t\<lparr>as_ptracee := no_ptracee\<rparr>)"
  "plain (\<lambda>t. (on_th f t)\<lparr>waits_in := v\<rparr>)" "plain (\<lambda>t. (on_th f t)\<lparr>running := g t\<rparr>)"
  "plain (\<lambda>t. t\<lparr>stripped_newns := x, stripped_newnet := y\<rparr>)"
  by (simp_all add: plain_def on_th_def no_ptracee_def)

lemma plain_side: "(\<And>s. tracer (f s) = tracer s \<or> tracer (f s) = None) \<Longrightarrow> plain (on_side f)"
  by (simp add: plain_def on_side_def)

lemma not_owed: "counted owed G w \<Longrightarrow> counted None G w"
  unfolding counted_def by force

section \<open>Attaching and detaching\<close>

lemma cnt_to_other:
  "(\<And>t. tracer_of (f t) = Some p) \<Longrightarrow> q \<noteq> p \<Longrightarrow> cnt q (upd a f xs) \<le> cnt q xs"
  by (induction xs) auto

lemma cnt_to_same:
  "(\<And>t. tracer_of (f t) = Some p) \<Longrightarrow> distinct (map addr xs) \<Longrightarrow> cnt p (upd a f xs) \<le> cnt p xs + 1"
proof (induction xs)
  case (Cons t xs)
  show ?case
  proof (cases "addr t = a")
    case True
    with Cons.prems(2) have "a \<notin> addr ` set xs" by auto
    with True Cons.prems(1) show ?thesis by (simp add: upd_absent)
  next
    case False
    with Cons show ?thesis by simp
  qed
qed simp

text \<open>Both operations write the ptracee and move the count of the tracer.\<close>

lemma count_moves:
  assumes "counted owed G w" "\<And>t. addr (f t) = addr t" "\<And>t. nb_ptracees (f t) = nb_ptracees t"
    and "\<And>q. q \<in> set (live w) \<Longrightarrow> addr q = p \<Longrightarrow>
      cnt p (upd c f (all_tasks w)) + (if owed' = Some p then 1 else 0) \<le> g (nb_ptracees q)"
    and "\<And>q. q \<noteq> p \<Longrightarrow> cnt q (upd c f (all_tasks w)) + (if owed' = Some q then 1 else 0) \<le> cnt q (all_tasks w) + (if owed = Some q then 1 else 0)"
    and "p < next_addr w"
  shows "counted owed' G (on_task p (\<lambda>t. t\<lparr>nb_ptracees := g (nb_ptracees t)\<rparr>) (on_any c f w))"
proof -
  let ?h = "\<lambda>t. t\<lparr>nb_ptracees := g (nb_ptracees t)\<rparr>" and ?w = "on_any c f w"
  let ?v = "on_task p ?h ?w"
  have addrs: "map addr (all_tasks ?v) = map addr (all_tasks w)"
    using upd_addrs [of f, OF assms(2)] upd_addrs [of ?h] by (simp add: all_tasks_def on_task_lists on_any_lists)
  have tr: "cnt q (all_tasks ?v) = cnt q (upd c f (all_tasks w))" for q
    using cnt_upd_same [of ?h q p] by (simp add: all_tasks_def on_task_lists on_any_lists)
  have mem: "\<exists>q \<in> set (live w). addr t = addr q \<and>
      nb_ptracees t = (if addr q = p then g (nb_ptracees q) else nb_ptracees q)" if "t \<in> set (live ?v)" for t
  proof -
    from that obtain u where u: "u \<in> set (upd c f (live w))" "t = (if addr u = p then ?h u else u)"
      unfolding on_task_lists on_any_lists by (meson in_upd)
    from in_upd [OF u(1)] obtain q where q: "q \<in> set (live w)" "u = (if addr q = c then f q else q)" by blast
    then have "addr u = addr q \<and> nb_ptracees u = nb_ptracees q"
      using assms(2,3) by simp
    with u(2) show ?thesis by (intro bexI [OF _ q(1)]) simp
  qed
  show ?thesis
    unfolding counted_def
  proof (intro conjI ballI allI impI)
    show "distinct (map addr (all_tasks ?v))" unfolding addrs by (rule countedD(1) [OF assms(1)])
  next
    fix g assume "g \<in> G"
    from countedD(2) [OF assms(1) this] show "g < next_addr ?v" "g \<notin> set (map addr (all_tasks ?v))"
      unfolding addrs by (simp_all add: on_task_lists on_any_lists)
  next
    fix t assume "t \<in> set (all_tasks ?v)"
    then have "addr t \<in> set (map addr (all_tasks w))" unfolding addrs [symmetric] by simp
    then show "addr t < next_addr ?v" using countedD(3) [OF assms(1)] by (auto simp: on_task_lists on_any_lists)
  next
    fix t assume "t \<in> set (live ?v)"
    with mem obtain q where q: "q \<in> set (live w)" "addr t = addr q"
      "nb_ptracees t = (if addr q = p then g (nb_ptracees q) else nb_ptracees q)" by blast
    show "cnt (addr t) (all_tasks ?v) + (if owed' = Some (addr t) then 1 else 0) \<le> nb_ptracees t"
    proof (cases "addr q = p")
      case True
      with assms(4) [OF q(1) True] q show ?thesis by (simp add: tr)
    next
      case False
      with assms(5) [of "addr q"] countedD(4) [OF assms(1) q(1)] q show ?thesis by (simp add: tr)
    qed
  next
    fix q assume "next_addr ?v \<le> q"
    then have q: "next_addr w \<le> q" "q \<noteq> p" using assms(6) by (auto simp: on_task_lists on_any_lists)
    show "cnt q (all_tasks ?v) + (if owed' = Some q then 1 else 0) = 0"
      using assms(5) [OF q(2)] countedD(5) [OF assms(1) q(1)] unfolding tr by linarith
  qed
qed

lemma attach_counted:
  assumes "attach_to_ptracer c p w = Inr w'" "counted owed G w"
  shows "counted owed G w'"
proof -
  from assms(1) obtain t where t: "deref w p = Inr t"
    "w' = on_task (addr t) (\<lambda>t. t\<lparr>nb_ptracees := nb_ptracees t + 1\<rparr>) (on_any c (\<lambda>t. t\<lparr>as_ptracee := no_ptracee\<lparr>tracer := p\<rparr>\<rparr>) w)"
    by (auto simp: attach_to_ptracer_def andThen_Inr)
  have p: "p = Some (addr t)" using derefD [OF t(1)] by blast
  let ?f = "\<lambda>t. t\<lparr>as_ptracee := no_ptracee\<lparr>tracer := p\<rparr>\<rparr>"
  have f: "tracer_of (?f u) = Some (addr t)" for u using p by simp
  show ?thesis
    unfolding t(2)
  proof (rule count_moves [OF assms(2), where g = "\<lambda>n. n + 1"])
    fix q assume q: "q \<in> set (live w)" "addr q = addr t"
    show "cnt (addr t) (upd c ?f (all_tasks w)) + (if owed = Some (addr t) then 1 else 0) \<le> nb_ptracees q + 1"
    proof -
      have "cnt (addr t) (upd c ?f (all_tasks w)) \<le> cnt (addr t) (all_tasks w) + 1"
        by (rule cnt_to_same [OF f countedD(1) [OF assms(2)]])
      with countedD(4) [OF assms(2) q(1)] q(2) show ?thesis by (simp split: if_split_asm)
    qed
  next
    fix q assume "q \<noteq> addr t"
    from cnt_to_other [of ?f "addr t" q, OF f this]
    show "cnt q (upd c ?f (all_tasks w)) + (if owed = Some q then 1 else 0) \<le> cnt q (all_tasks w) + (if owed = Some q then 1 else 0)"
      by simp
  next
    show "addr t < next_addr w" using countedD(3) [OF assms(2)] derefD [OF t(1)] by (auto simp: all_tasks_def)
  qed simp_all
qed

lemma detach_Inr:
  assumes "detach_from_ptracer c w = Inr w'"
  obtains p where "deref w (tracer_of c) = Inr p" "tracer_of c = Some (addr p)" "0 < nb_ptracees p"
    "w' = on_task (addr p) (\<lambda>t. t\<lparr>nb_ptracees := nb_ptracees t - 1\<rparr>) (on_any (addr c) (on_side (\<lambda>s. s\<lparr>tracer := None\<rparr>)) w)"
proof -
  from assms obtain p where p: "deref w (tracer_of c) = Inr p"
    "(if nb_ptracees p = 0 then Inl Crash
      else Inr (on_task (addr p) (\<lambda>t. t\<lparr>nb_ptracees := nb_ptracees t - 1\<rparr>) (on_any (addr c) (on_side (\<lambda>s. s\<lparr>tracer := None\<rparr>)) w))) = Inr w'"
    unfolding detach_from_ptracer_def by (elim andThenE)
  then show thesis using derefD [OF p(1)] by (intro that [OF p(1)]) (auto split: if_split_asm)
qed

lemma detach_counted:
  assumes "detach_from_ptracer c w = Inr w'" "counted owed G w" "tracer_of c = Some p"
    and "(\<exists>u \<in> set (all_tasks w). addr u = addr c \<and> tracer_of u = Some p) \<and> owed' = owed \<or>
      addr c \<notin> addr ` set (all_tasks w) \<and> owed = Some p \<and> owed' = None"
  shows "counted owed' G w'"
proof -
  let ?f = "on_side (\<lambda>s. s\<lparr>tracer := None\<rparr>)"
  from assms(1,3) obtain t where t: "addr t = p" "0 < nb_ptracees t" "t \<in> set (live w)"
    "w' = on_task p (\<lambda>t. t\<lparr>nb_ptracees := nb_ptracees t - 1\<rparr>) (on_any (addr c) ?f w)"
    by (elim detach_Inr) (auto dest: derefD)
  have le: "cnt q (upd (addr c) ?f (all_tasks w)) \<le> cnt q (all_tasks w)" for q
    by (rule cnt_upd_le) (simp add: on_side_def)
  have one: "cnt p (upd (addr c) ?f (all_tasks w)) + (if owed' = Some p then 1 else 0) + 1 \<le> cnt p (all_tasks w) + (if owed = Some p then 1 else 0)"
    using assms(4)
  proof (elim disjE conjE bexE)
    fix u assume u: "u \<in> set (all_tasks w)" "addr u = addr c" "tracer_of u = Some p" "owed' = owed"
    with cnt_upd [OF countedD(1) [OF assms(2)] u(1), of p ?f] show ?thesis by (simp add: on_side_def)
  next
    assume "addr c \<notin> addr ` set (all_tasks w)" "owed = Some p" "owed' = None"
    then show ?thesis by (simp add: upd_absent)
  qed
  show ?thesis
    unfolding t(4)
  proof (rule count_moves [OF assms(2), where g = "\<lambda>n. n - 1"])
    fix q assume q: "q \<in> set (live w)" "addr q = p"
    show "cnt p (upd (addr c) ?f (all_tasks w)) + (if owed' = Some p then 1 else 0) \<le> nb_ptracees q - 1"
      using one countedD(4) [OF assms(2) q(1)] q(2) by (auto split: if_split_asm)
  next
    fix q assume "q \<noteq> p"
    then have "(if owed' = Some q then 1 else 0) \<le> (if owed = Some q then 1 else (0::nat))" using assms(4) by auto
    with le [of q] show "cnt q (upd (addr c) ?f (all_tasks w)) + (if owed' = Some q then 1 else 0) \<le> cnt q (all_tasks w) + (if owed = Some q then 1 else 0)"
      by linarith
  next
    show "p < next_addr w" using countedD(3) [OF assms(2)] t(1,3) by (auto simp: all_tasks_def)
  qed (auto simp: on_side_def)
qed

end
