(* ===== verification/Life_Spec.thy ===== *)
theory Life_Spec
  imports Ptrace_Count Event_Spec
begin

text \<open>
  The tracees in any order of events: every tracer counts its ptracees, none waits for nothing, and an event is
  reported once.
\<close>

section \<open>Each operation keeps the counts\<close>

lemma restart_counted: "counted owed G w \<Longrightarrow> counted owed G (snd (restart_tracee E a s w))"
  by (auto simp: restart_tracee_def Let_def split: sum.splits intro!: plain_task)

lemma restart_counted': "restart_tracee E a s w = (b, w') \<Longrightarrow> counted owed G w \<Longrightarrow> counted owed G w'"
  using restart_counted [of owed G w E a s] by simp

lemma kill_sig_lists [simp]: "live (kill_sig p s w) = live w" "dead (kill_sig p s w) = dead w" "next_addr (kill_sig p s w) = next_addr w"
  by (simp_all add: kill_sig_def)

lemma kill_counted: "counted owed G w \<Longrightarrow> counted owed G (kill_sig p s w)"
  by (erule same_lists) simp_all

lemma kill_all_counted: "counted owed G w \<Longrightarrow> counted owed G (kill_all_tracees w)"
proof -
  have "live (fold (\<lambda>t w. if pid t > 0 then kill_sig (pid t) SIGKILL w else w) ts v) = live v \<and>
    dead (fold (\<lambda>t w. if pid t > 0 then kill_sig (pid t) SIGKILL w else w) ts v) = dead v \<and>
    next_addr (fold (\<lambda>t w. if pid t > 0 then kill_sig (pid t) SIGKILL w else w) ts v) = next_addr v" for ts and v :: world
    by (induction ts arbitrary: v) auto
  from this [of "take MAX_KILL_BATCH (live w)" w] show "counted owed G w \<Longrightarrow> counted owed G (kill_all_tracees w)"
    unfolding kill_all_tracees_def by (elim same_lists) simp_all
qed

lemma terminate_counted: "counted owed G w \<Longrightarrow> counted owed G (terminate_tracee a w)"
proof -
  assume c: "counted owed G w"
  let ?w = "(on_task a (\<lambda>t. t\<lparr>terminated := True\<rparr>) w)\<lparr>has_terminated := True\<rparr>"
  have "counted owed G (on_task a (\<lambda>t. t\<lparr>terminated := True\<rparr>) w)" using c by (intro plain_task) simp_all
  then have "counted owed G ?w" by (elim same_lists) simp_all
  then show ?thesis
    by (auto simp: terminate_tracee_def Let_def split: sum.splits intro: kill_all_counted)
qed

text \<open>A task that stands for the one at its address, and has the same tracer.\<close>

definition stands_for :: "task \<Rightarrow> world \<Rightarrow> bool" where
  "stands_for c w \<longleftrightarrow> (\<exists>u \<in> set (all_tasks w). addr u = addr c \<and> tracer_of u = tracer_of c)"

lemma stands_for_in: "c \<in> set (all_tasks w) \<Longrightarrow> stands_for c w"
  unfolding stands_for_def by blast

lemma stands_for_deref: "deref w p = Inr c \<Longrightarrow> stands_for c w"
  by (rule stands_for_in) (use derefD in \<open>fastforce simp: all_tasks_def\<close>)

lemma stands_for_task:
  assumes "stands_for c w" "\<And>t. addr (f t) = addr t" "\<And>t. tracer_of (f t) = tracer_of t"
  shows "stands_for c (on_task a f w)" "stands_for c (on_any a f w)"
proof -
  from assms(1) obtain u where u: "u \<in> set (live w) \<union> set (dead w)" "addr u = addr c" "tracer_of u = tracer_of c"
    by (auto simp: stands_for_def all_tasks_def)
  let ?v = "if addr u = a then f u else u"
  have "u \<in> set (live w) \<Longrightarrow> ?v \<in> set (upd a f (live w))" "u \<in> set (dead w) \<Longrightarrow> ?v \<in> set (upd a f (dead w))"
    by (auto simp: upd_def)
  moreover have "addr ?v = addr c" "tracer_of ?v = tracer_of c" using u assms(2,3) by simp_all
  ultimately show "stands_for c (on_any a f w)"
    using u(1) unfolding stands_for_def all_tasks_def on_any_lists by (intro bexI [of _ ?v]) auto
  show "stands_for c (on_task a f w)"
  proof (cases "u \<in> set (live w)")
    case True
    then have "?v \<in> set (upd a f (live w))" by (auto simp: upd_def)
    with \<open>addr ?v = addr c\<close> \<open>tracer_of ?v = tracer_of c\<close> show ?thesis
      unfolding stands_for_def all_tasks_def on_task_lists by (intro bexI [of _ ?v]) auto
  next
    case False
    with u show ?thesis unfolding stands_for_def all_tasks_def on_task_lists by (intro bexI [of _ u]) auto
  qed
qed

lemma plain_any:
  assumes "counted owed G w" "\<And>s. tracer (f s) = tracer s"
  shows "counted owed G (on_any a (on_side f) w)"
proof -
  have eq: "map addr (upd a (on_side f) xs) = map addr xs" "cnt p (upd a (on_side f) xs) = cnt p xs" for p xs
    by (rule upd_addrs, simp add: on_side_def, rule cnt_upd_same, simp add: on_side_def assms(2))
  have live: "\<exists>q \<in> set (live w). addr t = addr q \<and> nb_ptracees t = nb_ptracees q"
    if "t \<in> set (upd a (on_side f) (live w))" for t
    using in_upd [OF that] by (auto simp: on_side_def split: if_split_asm)
  show ?thesis
    unfolding counted_def on_any_lists
  proof (intro conjI ballI allI impI)
    show "distinct (map addr (upd a (on_side f) (all_tasks w)))" unfolding eq by (rule countedD(1) [OF assms(1)])
    fix g assume "g \<in> G"
    from countedD(2) [OF assms(1) this] show "g < next_addr w" "g \<notin> set (map addr (upd a (on_side f) (all_tasks w)))"
      unfolding eq by simp_all
  next
    fix t assume "t \<in> set (upd a (on_side f) (all_tasks w))"
    then have "addr t \<in> set (map addr (all_tasks w))" unfolding eq(1) [of "all_tasks w", symmetric] by simp
    then show "addr t < next_addr w" using countedD(3) [OF assms(1)] by auto
  next
    fix t assume "t \<in> set (upd a (on_side f) (live w))"
    from live [OF this] show "cnt (addr t) (upd a (on_side f) (all_tasks w)) + (if owed = Some (addr t) then 1 else 0) \<le> nb_ptracees t"
      unfolding eq using countedD(4) [OF assms(1)] by force
  next
    fix p assume "next_addr w \<le> p"
    then show "cnt p (upd a (on_side f) (all_tasks w)) + (if owed = Some p then 1 else 0) = 0"
      unfolding eq by (rule countedD(5) [OF assms(1)])
  qed
qed

lemma free_zombie_counted:
  assumes "counted owed G w" shows "counted owed G (w\<lparr>dead := filter P (dead w)\<rparr>)"
proof -
  have le: "cnt p (filter P xs) \<le> cnt p xs" for p xs by (induction xs) auto
  have d: "distinct (map addr (live w @ filter P (dead w)))" "set (map addr (live w @ filter P (dead w))) \<subseteq> set (map addr (all_tasks w))"
    using countedD(1) [OF assms] by (auto simp: all_tasks_def distinct_map_filter)
  show ?thesis
    unfolding counted_def
  proof (intro conjI ballI allI impI)
    show "distinct (map addr (all_tasks (w\<lparr>dead := filter P (dead w)\<rparr>)))" using d(1) by (simp add: all_tasks_def)
    fix g assume "g \<in> G"
    from countedD(2) [OF assms this] d(2) show "g < next_addr (w\<lparr>dead := filter P (dead w)\<rparr>)"
      "g \<notin> set (map addr (all_tasks (w\<lparr>dead := filter P (dead w)\<rparr>)))" by (auto simp: all_tasks_def)
  next
    fix t assume "t \<in> set (all_tasks (w\<lparr>dead := filter P (dead w)\<rparr>))"
    then show "addr t < next_addr (w\<lparr>dead := filter P (dead w)\<rparr>)"
      using countedD(3) [OF assms, of t] by (auto simp: all_tasks_def)
  next
    fix t assume "t \<in> set (live (w\<lparr>dead := filter P (dead w)\<rparr>))"
    then show "cnt (addr t) (all_tasks (w\<lparr>dead := filter P (dead w)\<rparr>)) + (if owed = Some (addr t) then 1 else 0) \<le> nb_ptracees t"
      using countedD(4) [OF assms, of t] le [of "addr t" "dead w"] by (simp add: all_tasks_def)
  next
    fix p assume "next_addr (w\<lparr>dead := filter P (dead w)\<rparr>) \<le> p"
    then show "cnt p (all_tasks (w\<lparr>dead := filter P (dead w)\<rparr>)) + (if owed = Some p then 1 else 0) = 0"
      using countedD(5) [OF assms, of p] le [of p "dead w"] by (simp add: all_tasks_def)
  qed
qed

section \<open>Waiting\<close>

lemma wait_enter_counted:
  assumes "translate_wait_enter E p w = Inr w'" "counted owed G w"
  shows "counted owed G w'"
  using assms unfolding translate_wait_enter_def Let_def
  by (auto elim!: andThenE split: if_split_asm prod.splits option.splits intro!: plain_task simp: get_tracee_def)

lemma poke_status_counted: "poke_status p v t w = (e, w') \<Longrightarrow> counted owed G w \<Longrightarrow> counted owed G w'"
  by (auto simp: poke_status_def Let_def split: if_split_asm prod.splits intro!: plain_task)

lemma poke_status_stands: "poke_status p v t w = (e, w') \<Longrightarrow> stands_for c w \<Longrightarrow> stands_for c w'"
  by (auto simp: poke_status_def Let_def split: if_split_asm prod.splits intro!: stands_for_task)

lemma detach_present:
  assumes "detach_from_ptracer c w = Inr w'" "counted owed G w" "stands_for c w"
  shows "counted owed G w'"
proof -
  from assms(1) obtain p where p: "tracer_of c = Some p" by (elim detach_Inr) simp
  show ?thesis by (rule detach_counted [OF assms(1,2) p]) (use assms(3) p in \<open>auto simp: stands_for_def\<close>)
qed

text \<open>The four ways in which a wait status is updated.\<close>

lemma update_wait_cases:
  assumes "update_wait_status p c w = Inr (st, w')"
  obtains (hidden) v where "st = 0" "tracer_of c = parent c" "ended_status (event_value (as_ptracee c))"
      "detach_from_ptracer c (on_task p (on_th restart_original_syscall) w) = Inr v"
      "w' = (if is_zombie (as_ptracee c) then free_zombie (addr c) v else v)"
  | (fault) t e where "deref w (Some p) = Inr t" "poke_status p (event_value (as_ptracee c)) t w = (Some e, w')" "st = - errno_num e"
  | (told) t v where "deref w (Some p) = Inr t" "poke_status p (event_value (as_ptracee c)) t w = (None, v)" "\<not> is_zombie (as_ptracee c)"
      "st = pid c" "w' = on_any (addr c) (on_side (\<lambda>s. s\<lparr>event_pending := False\<rparr>)) v"
  | (gone) t v z where "deref w (Some p) = Inr t" "poke_status p (event_value (as_ptracee c)) t w = (None, v)" "is_zombie (as_ptracee c)"
      "st = pid c" "detach_from_ptracer c (on_any (addr c) (on_side (\<lambda>s. s\<lparr>event_pending := False\<rparr>)) v) = Inr z"
      "w' = free_zombie (addr c) z"
proof -
  from assms obtain t where d: "deref w (Some p) = Inr t" and r: "(if tracer_of c = parent c \<and> ended_status (event_value (as_ptracee c)) then
          andThen (detach_from_ptracer c (on_task p (on_th restart_original_syscall) w)) (\<lambda>w.
            Inr (0, if is_zombie (as_ptracee c) then free_zombie (addr c) w else w))
        else
          (case poke_status p (event_value (as_ptracee c)) t w of
             (Some e, w) \<Rightarrow> Inr (- errno_num e, w)
           | (None, w) \<Rightarrow>
              (let w = on_any (addr c) (on_side (\<lambda>s. s\<lparr>event_pending := False\<rparr>)) w in
               if is_zombie (as_ptracee c) then
                 andThen (detach_from_ptracer c w) (\<lambda>w. Inr (pid c, free_zombie (addr c) w))
               else Inr (pid c, w)))) = Inr (st, w')"
    unfolding update_wait_status_def Let_def by (elim andThenE)
  show thesis
  proof (cases "tracer_of c = parent c \<and> ended_status (event_value (as_ptracee c))")
    case True
    with r show thesis by (auto simp: andThen_Inr intro: hidden)
  next
    case False
    obtain e v where v: "poke_status p (event_value (as_ptracee c)) t w = (e, v)" by force
    show thesis
    proof (cases e)
      case (Some x)
      with r v False d show thesis by (intro fault) auto
    next
      case None
      with v have v: "poke_status p (event_value (as_ptracee c)) t w = (None, v)" by simp
      show thesis
      proof (cases "is_zombie (as_ptracee c)")
        case True
        with r v False obtain z where "detach_from_ptracer c (on_any (addr c) (on_side (\<lambda>s. s\<lparr>event_pending := False\<rparr>)) v) = Inr z"
          "st = pid c" "w' = free_zombie (addr c) z" by (auto simp: andThen_Inr Let_def)
        with d v True show thesis by (intro gone)
      next
        case no: False
        with r v False d show thesis by (intro told) (auto simp: Let_def)
      qed
    qed
  qed
qed

lemma update_wait_counted:
  assumes "update_wait_status p c w = Inr (st, w')" "counted owed G w" "stands_for c w"
  shows "counted owed G w'"
  using assms(1)
proof (cases rule: update_wait_cases)
  case (hidden v)
  have "counted owed G (on_task p (on_th restart_original_syscall) w)" by (rule plain_task [OF assms(2)]) simp
  moreover have "stands_for c (on_task p (on_th restart_original_syscall) w)"
    by (rule stands_for_task [OF assms(3)]) (simp_all add: on_th_def)
  ultimately have "counted owed G v" using detach_present [OF hidden(4) ] by blast
  then show ?thesis using hidden(5) by (auto simp: free_zombie_def intro: free_zombie_counted)
next
  case (fault t e)
  show ?thesis by (rule poke_status_counted [OF fault(2) assms(2)])
next
  case (told t v)
  show ?thesis unfolding told(5)
    by (rule plain_any [OF poke_status_counted [OF told(2) assms(2)]]) simp
next
  case (gone t v z)
  let ?u = "on_any (addr c) (on_side (\<lambda>s. s\<lparr>event_pending := False\<rparr>)) v"
  have "counted owed G ?u" by (rule plain_any [OF poke_status_counted [OF gone(2) assms(2)]]) simp
  moreover have "stands_for c ?u"
    by (rule stands_for_task(2) [OF poke_status_stands [OF gone(2) assms(3)]]) (simp_all add: on_side_def)
  ultimately have "counted owed G z" using detach_present [OF gone(5) ] by blast
  then show ?thesis unfolding gone(6) free_zombie_def by (rule free_zombie_counted)
qed

lemma get_ptracee_in:
  assumes "get_ptracee p n stopped pend opts w = Some c"
  shows "c \<in> set (all_tasks w)" "tracer_of c = Some p"
proof -
  have z: "find P xs = Some t \<Longrightarrow> t \<in> set xs \<and> P t" for P and xs :: "task list" and t by (induction xs) (auto split: if_split_asm)
  have s: "scan_ptracees p n stopped pend opts xs = Some t \<Longrightarrow> t \<in> set xs \<and> tracer_of t = Some p" for xs t
    by (induction xs) (auto split: if_split_asm)
  show "c \<in> set (all_tasks w)" "tracer_of c = Some p"
    using assms z s unfolding get_ptracee_def all_tasks_def by (auto split: option.splits dest!: z s)
qed

lemma wait_exit_cases:
  assumes "translate_wait_exit p w = Inr (st, w')"
  obtains (found) t c where "deref w (Some p) = Inr t"
      "get_stopped_ptracee p (wait_target t) True (wait_opts t) (on_task p (\<lambda>t. t\<lparr>waits_in := DOESNT_WAIT\<rparr>) w) = Some c"
      "update_wait_status p c (on_task p (\<lambda>t. t\<lparr>waits_in := DOESNT_WAIT\<rparr>) w) = Inr (st, w')"
  | (refused) "w' = on_task p (\<lambda>t. t\<lparr>waits_in := DOESNT_WAIT\<rparr>) w" "st = 0 \<or> st = - errno_num ECHILD"
  | (blocked) t where "deref w (Some p) = Inr t" "0 < nb_ptracees t" "st = 0"
      "w' = on_task p (\<lambda>u. u\<lparr>wait_pid := wait_target t, wait_options := wait_opts t\<rparr>) (on_task p (\<lambda>t. t\<lparr>waits_in := DOESNT_WAIT\<rparr>) w)"
proof -
  let ?w = "on_task p (\<lambda>t. t\<lparr>waits_in := DOESNT_WAIT\<rparr>) w"
  from assms obtain t where d: "deref w (Some p) = Inr t" and r: "(if waits_in t \<noteq> WAITS_IN_PROOT then Inl Crash
       else
         (case get_stopped_ptracee p (wait_target t) True (wait_opts t) ?w of
            Some c \<Rightarrow> update_wait_status p c ?w
          | None \<Rightarrow>
             (if nb_ptracees t = 0 then Inr (- errno_num ECHILD, ?w)
              else if wait_opts t AND WNOHANG \<noteq> 0 then Inr (if has_ptracees p (wait_target t) (wait_opts t) ?w then 0 else - errno_num ECHILD, ?w)
              else Inr (0, on_task p (\<lambda>u. u\<lparr>wait_pid := wait_target t, wait_options := wait_opts t\<rparr>) ?w)))) = Inr (st, w')"
    unfolding translate_wait_exit_def Let_def by (elim andThenE)
  show thesis
  proof (cases "get_stopped_ptracee p (wait_target t) True (wait_opts t) ?w")
    case (Some c)
    with r d show thesis by (intro found) (auto split: if_split_asm)
  next
    case None
    with r d show thesis by (auto split: if_split_asm intro: refused blocked)
  qed
qed

lemma wait_exit_counted:
  assumes "translate_wait_exit p w = Inr (st, w')" "counted owed G w"
  shows "counted owed G w'"
proof -
  have c: "counted owed G (on_task p (\<lambda>t. t\<lparr>waits_in := DOESNT_WAIT\<rparr>) w)" by (rule plain_task [OF assms(2)]) simp
  from assms(1) show ?thesis
  proof (cases rule: wait_exit_cases)
    case (found t k)
    then have "stands_for k (on_task p (\<lambda>t. t\<lparr>waits_in := DOESNT_WAIT\<rparr>) w)"
      unfolding get_stopped_ptracee_def by (intro stands_for_in) (rule get_ptracee_in)
    with found(3) c show ?thesis by (rule update_wait_counted)
  next
    case refused
    with c show ?thesis by simp
  next
    case (blocked t)
    show ?thesis unfolding blocked(4) by (rule plain_task [OF c]) (simp add: plain_def)
  qed
qed

section \<open>Events\<close>

lemma report_counted:
  assumes "report_event E a p ev keep w = Inr (b, w')" "counted owed G w"
  shows "counted owed G w'"
proof -
  let ?w = "on_task a (on_side (\<lambda>s. s\<lparr>event_value := ev, event_pending := True\<rparr>)) w"
  have c: "counted owed G ?w" using assms(2) by (intro plain_task plain_side) simp_all
  from assms(1) obtain pt k where d: "deref ?w (Some p) = Inr pt" "deref ?w (Some a) = Inr k" and r:
    "(let w = kill_sig (pid pt) SIGCHLD ?w in
        if (wait_pid pt = -1 \<or> wait_pid pt = pid k) \<and> EXPECTED_WAIT_CLONE (wait_options pt) k then
          andThen (update_wait_status p k w) (\<lambda>(st, w).
          andThen (deref w (Some p)) (\<lambda>pt.
          andThen (if st = 0 then chain_next_syscall (th pt) else Inr (poke_reg SYSARG_RESULT (word_of_int st) (th pt))) (\<lambda>t.
            let t = snd (push_specific_regs (ev_ptrace (stops E)) True t);
                w = on_task p (\<lambda>pt. pt\<lparr>th := t, wait_pid := 0\<rparr>) w;
                (restarted, w) = restart_tracee E p 0 w
            in Inr (keep \<and> restarted, w))))
        else Inr (keep, w)) = Inr (b, w')"
    unfolding report_event_def Let_def by (elim andThenE)
  let ?k = "kill_sig (pid pt) SIGCHLD ?w"
  have ck: "counted owed G ?k" by (rule kill_counted [OF c])
  have sk: "stands_for k ?k" using stands_for_deref [OF d(2)] by (simp add: stands_for_def all_tasks_def)
  show ?thesis
  proof (cases "(wait_pid pt = -1 \<or> wait_pid pt = pid k) \<and> EXPECTED_WAIT_CLONE (wait_options pt) k")
    case True
    with r obtain st v pt' t restarted where u: "update_wait_status p k ?k = Inr (st, v)"
      "restart_tracee E p 0 (on_task p (\<lambda>pt. pt\<lparr>th := snd (push_specific_regs (ev_ptrace (stops E)) True t), wait_pid := 0\<rparr>) v) = (restarted, w')"
      by (auto simp: Let_def elim!: andThenE split: prod.splits)
    let ?v = "on_task p (\<lambda>pt. pt\<lparr>th := snd (push_specific_regs (ev_ptrace (stops E)) True t), wait_pid := 0\<rparr>) v"
    have "counted owed G ?v" by (rule plain_task [OF update_wait_counted [OF u(1) ck sk]]) simp
    with u(2) show ?thesis by (rule restart_counted')
  next
    case False
    with r have "w' = ?k" by (auto simp only: Let_def if_False sum.inject prod.inject)
    with ck show ?thesis by simp
  qed
qed

text \<open>What the handler of the events is asked to keep.\<close>

definition keeps_counts :: "(nat \<Rightarrow> wait_status \<Rightarrow> world \<Rightarrow> (int \<times> world) res) \<Rightarrow> bool" where
  "keeps_counts h \<longleftrightarrow> (\<forall>a st w r w' owed G. h a st w = Inr (r, w') \<longrightarrow> counted owed G w \<longrightarrow> counted owed G w')"

lemma keeps_countsD: "keeps_counts h \<Longrightarrow> h a st w = Inr (r, w') \<Longrightarrow> counted owed G w \<Longrightarrow> counted owed G w'"
  unfolding keeps_counts_def by blast

lemma side_counted: "(\<And>s. tracer (f s) = tracer s \<or> tracer (f s) = None) \<Longrightarrow> counted owed G w \<Longrightarrow> counted owed G (on_task a (on_side f) w)"
  by (intro plain_task plain_side)

lemma ptracee_event_counted:
  assumes "handle_ptracee_event E h a ev w = Inr (b, w')" "counted owed G w" "keeps_counts h"
  shows "counted owed G w'"
proof -
  let ?w = "on_task a (on_side (\<lambda>s. s\<lparr>proot_value := ev, proot_pending := True\<rparr>)) w"
  have c: "counted owed G ?w" using assms(2) by (intro side_counted) simp_all
  from assms(1) obtain k where k: "(case tracer_of k of None \<Rightarrow> Inl Crash
      | Some p \<Rightarrow>
         (case classify_event (as_ptracee k) (status (th k) \<noteq> 0) ev of
              None \<Rightarrow> Inr (False, ?w)
            | Some (ev', first, may_suppress, starts) \<Rightarrow>
               (let w = (if starts then on_task a (on_side (\<lambda>s. s\<lparr>tracing_started := True\<rparr>)) ?w else ?w);
                    keep = (WIFSTOPPED ev \<or> \<not> ended_status ev) in
                if \<not> (tracing_started (as_ptracee k) \<or> starts) then Inr (False, w)
                else if \<not> first then report_event E a p ev' keep w
                else
                  andThen (h a ev w) (\<lambda>(sig, w).
                    let w = on_task a (on_side (\<lambda>s. s\<lparr>proot_value := word_of_int sig\<rparr>)) w in
                    if \<not> may_suppress then (if sig \<noteq> 0 then Inl Crash else report_event E a p ev' keep w)
                    else if sig \<noteq> 0 then report_event E a p ev' keep w
                    else if seccomp_event_happens_after_enter_sigtrap (globals w) \<and> \<not> ignore_syscalls (as_ptracee k) then
                      report_event E a p (syscall_status (pt_options (as_ptracee k))) keep
                        (on_task a (on_side (\<lambda>s. s\<lparr>proot_value := 0\<rparr>)) w)
                    else Inr (True, snd (restart_tracee E a 0 w)))))) = Inr (b, w')"
    unfolding handle_ptracee_event_def Let_def by (elim andThenE)
  then obtain p where p: "tracer_of k = Some p" by (cases "tracer_of k") auto
  show ?thesis
  proof (cases "classify_event (as_ptracee k) (status (th k) \<noteq> 0) ev")
    case None
    with k p c show ?thesis by auto
  next
    case (Some q)
    obtain ev' first sup starts where q: "q = (ev', first, sup, starts)" by (metis prod_cases4)
    let ?v = "if starts then on_task a (on_side (\<lambda>s. s\<lparr>tracing_started := True\<rparr>)) ?w else ?w"
    let ?keep = "WIFSTOPPED ev \<or> \<not> ended_status ev"
    have cv: "counted owed G ?v" using c by (auto intro: side_counted)
    note r = k [unfolded p Some q option.case prod.case Let_def]
    consider (no) "\<not> (tracing_started (as_ptracee k) \<or> starts)" | (now) "tracing_started (as_ptracee k) \<or> starts" "\<not> first"
      | (first) "tracing_started (as_ptracee k) \<or> starts" "first" by blast
    then show ?thesis
    proof cases
      case no
      with r cv show ?thesis by auto
    next
      case now
      with r have "report_event E a p ev' ?keep ?v = Inr (b, w')" by simp
      then show ?thesis using cv by (rule report_counted)
    next
      case first
      with r obtain sig u where u: "h a ev ?v = Inr (sig, u)" and r2: "(let w = on_task a (on_side (\<lambda>s. s\<lparr>proot_value := word_of_int sig\<rparr>)) u in
          if \<not> sup then (if sig \<noteq> 0 then Inl Crash else report_event E a p ev' ?keep w)
          else if sig \<noteq> 0 then report_event E a p ev' ?keep w
          else if seccomp_event_happens_after_enter_sigtrap (globals w) \<and> \<not> ignore_syscalls (as_ptracee k) then
            report_event E a p (syscall_status (pt_options (as_ptracee k))) ?keep (on_task a (on_side (\<lambda>s. s\<lparr>proot_value := 0\<rparr>)) w)
          else Inr (True, snd (restart_tracee E a 0 w))) = Inr (b, w')"
        by (auto simp: andThen_Inr Let_def)
      let ?u = "on_task a (on_side (\<lambda>s. s\<lparr>proot_value := word_of_int sig\<rparr>)) u"
      have cu: "counted owed G ?u" using keeps_countsD [OF assms(3) u cv] by (intro side_counted) simp_all
      have cu0: "counted owed G (on_task a (on_side (\<lambda>s. s\<lparr>proot_value := 0\<rparr>)) ?u)" by (rule side_counted [OF _ cu]) simp
      have rep: "report_event E a p x y z = Inr (b, w') \<Longrightarrow> counted owed G z \<Longrightarrow> counted owed G w'" for x y z
        by (rule report_counted)
      from r2 consider "report_event E a p ev' ?keep ?u = Inr (b, w')"
        | "report_event E a p (syscall_status (pt_options (as_ptracee k))) ?keep (on_task a (on_side (\<lambda>s. s\<lparr>proot_value := 0\<rparr>)) ?u) = Inr (b, w')"
        | "w' = snd (restart_tracee E a 0 ?u)"
        unfolding Let_def by (metis Inl_Inr_False Pair_inject sum.inject(2))
      then show ?thesis
        by cases (use rep cu cu0 restart_counted [OF cu, of E a 0] in blast)+
    qed
  qed
qed

section \<open>New tracees\<close>

lemma new_tracee_counted:
  assumes "new_tracee E n w = (a, w')" "counted owed G w"
  shows "counted owed G w'"
proof -
  have fresh: "next_addr w \<notin> set (map addr (all_tasks w))" using countedD(3) [OF assms(2)] by force
  have w': "live w' = (blank_task E (next_addr w) n)\<lparr>vpid := next_vpid w\<rparr> # live w" "dead w' = dead w" "next_addr w' = next_addr w + 1"
    using assms(1) by (auto simp: new_tracee_def)
  let ?b = "(blank_task E (next_addr w) n)\<lparr>vpid := next_vpid w\<rparr>"
  have b: "addr ?b = next_addr w" "tracer_of ?b = None" "nb_ptracees ?b = 0" by (simp_all add: blank_task_def no_ptracee_def)
  have all: "all_tasks w' = ?b # all_tasks w" using w' by (simp add: all_tasks_def)
  show ?thesis
    unfolding counted_def
  proof (intro conjI ballI allI impI)
    show "distinct (map addr (all_tasks w'))" using fresh countedD(1) [OF assms(2)] b by (simp add: all)
    fix g assume "g \<in> G"
    with countedD(2) [OF assms(2)] show "g < next_addr w'" "g \<notin> set (map addr (all_tasks w'))" using b w' by (force simp: all)+
  next
    fix t assume "t \<in> set (all_tasks w')"
    then show "addr t < next_addr w'" using countedD(3) [OF assms(2)] b w' by (force simp: all)
  next
    fix t assume "t \<in> set (live w')"
    then consider "t = ?b" | "t \<in> set (live w)" using w' by auto
    then show "cnt (addr t) (all_tasks w') + (if owed = Some (addr t) then 1 else 0) \<le> nb_ptracees t"
    proof cases
      case 1
      with countedD(5) [OF assms(2) le_refl] b show ?thesis by (simp add: all)
    next
      case 2
      with countedD(4) [OF assms(2) 2] b show ?thesis by (simp add: all)
    qed
  next
    fix p assume "next_addr w' \<le> p"
    then have "next_addr w \<le> p" using w' by simp
    from countedD(5) [OF assms(2) this] show "cnt p (all_tasks w') + (if owed = Some p then 1 else 0) = 0"
      using b by (simp add: all)
  qed
qed

end
