(* ===== verification/Life_Reach.thy ===== *)
theory Life_Reach
  imports Life_Spec
begin

text \<open>
  The worlds the loop can reach: children, ends of tracees and the requests of \<open>ptrace(2)\<close> in any order, and the
  count of the ptracees in all of them.
\<close>

section \<open>Children\<close>

lemma get_tracee_counted: "get_tracee E self n create w = (r, w') \<Longrightarrow> counted owed G w \<Longrightarrow> counted owed G w'"
  unfolding get_tracee_def
  by (cases self) (auto split: if_split_asm option.splits prod.splits intro: new_tracee_counted)

lemma inherit_plain: "plain (inherit_from fresh flags p)"
  by (simp add: plain_def inherit_from_def Let_def)

lemma attach_child_counted:
  assumes "attach_child c flags p w = Inr w'" "counted owed G w"
  shows "counted owed G w'"
proof (cases "tracer_of p")
  case None
  with assms show ?thesis by (simp add: attach_child_def)
next
  case (Some q)
  show ?thesis
  proof (cases "child_option flags AND pt_options (as_ptracee p) \<noteq> 0 \<or> flags AND CLONE_PTRACE \<noteq> 0")
    case True
    with assms(1) Some obtain v where v: "attach_to_ptracer c (Some q) w = Inr v"
      "w' = on_task c (on_side (\<lambda>s. s\<lparr>pt_options := pt_options s OR (pt_options (as_ptracee p) AND inherited_options)\<rparr>)) v"
      by (auto simp: attach_child_def Let_def andThen_Inr)
    show ?thesis unfolding v(2) by (rule side_counted [OF _ attach_counted [OF v(1) assms(2)]]) simp
  next
    case False
    with assms Some show ?thesis by (simp add: attach_child_def Let_def)
  qed
qed

lemma release_child_counted:
  assumes "release_child E c w = Inr w'" "counted owed G w"
  shows "counted owed G w'"
proof -
  from assms(1) obtain t where r: "(if sigstop (th t) \<noteq> SIGSTOP_PENDING then Inr w
       else
         andThen
           (if tracer_of t = None then Inr (False, on_task c (on_th (\<lambda>u. u\<lparr>sigstop := SIGSTOP_ALLOWED\<rparr>)) w)
            else andThen (handle_ptracee_event E (\<lambda>_ _ _. Inl Crash) c (W_STOPCODE SIGSTOP) (on_task c (on_th (\<lambda>u. u\<lparr>sigstop := SIGSTOP_ALLOWED\<rparr>)) w)) (\<lambda>(keep, w).
              Inr (keep, on_task c (on_side (\<lambda>s. s\<lparr>proot_pending := False, proot_value := 0\<rparr>)) w)))
           (\<lambda>(keep, w). Inr (if keep then w else snd (restart_tracee E c 0 w)))) = Inr w'"
    unfolding release_child_def Let_def by (elim andThenE)
  let ?w = "on_task c (on_th (\<lambda>u. u\<lparr>sigstop := SIGSTOP_ALLOWED\<rparr>)) w"
  have c: "counted owed G ?w" by (rule plain_task [OF assms(2)]) simp
  have ends: "w' = (if keep then v else snd (restart_tracee E c 0 v)) \<Longrightarrow> counted owed G v \<Longrightarrow> counted owed G w'" for keep v
    by (auto intro: restart_counted)
  have crash: "keeps_counts (\<lambda>_ _ _. Inl Crash)" by (simp add: keeps_counts_def)
  consider "sigstop (th t) \<noteq> SIGSTOP_PENDING" | "sigstop (th t) = SIGSTOP_PENDING" "tracer_of t = None"
    | "sigstop (th t) = SIGSTOP_PENDING" "tracer_of t \<noteq> None" by blast
  then show ?thesis
  proof cases
    case 1
    with r assms(2) show ?thesis by simp
  next
    case 2
    with r have "w' = (if False then ?w else snd (restart_tracee E c 0 ?w))" by (simp add: andThen_Inr)
    from ends [OF this c] show ?thesis .
  next
    case 3
    with r obtain keep v where v: "handle_ptracee_event E (\<lambda>_ _ _. Inl Crash) c (W_STOPCODE SIGSTOP) ?w = Inr (keep, v)"
      "w' = (let u = on_task c (on_side (\<lambda>s. s\<lparr>proot_pending := False, proot_value := 0\<rparr>)) v in if keep then u else snd (restart_tracee E c 0 u))"
      by (auto simp: andThen_Inr Let_def)
    have "counted owed G (on_task c (on_side (\<lambda>s. s\<lparr>proot_pending := False, proot_value := 0\<rparr>)) v)"
      by (rule side_counted [OF _ ptracee_event_counted [OF v(1) c crash]]) simp
    with v(2) show ?thesis unfolding Let_def by (rule ends)
  qed
qed

lemma next_counted: "counted owed G w \<Longrightarrow> counted owed G (w\<lparr>next_addr := next_addr w + 1\<rparr>)"
  by (erule same_lists) simp_all

lemma globals_counted: "counted owed G w \<Longrightarrow> counted owed G (w\<lparr>globals := g\<rparr>)"
  by (erule same_lists) simp_all

lemma new_child_counted:
  assumes "new_child E a flags w = Inr w'" "counted owed G w"
  shows "counted owed G w'"
proof -
  from assms(1) obtain p where p: "deref w (Some a) = Inr p"
    unfolding new_child_def Let_def by (elim andThenE)
  obtain err t where t: "fetch_regs (ev_ptrace (stops E)) (th p) = (err, t)" by force
  let ?w = "on_task a (\<lambda>p. p\<lparr>th := t\<rparr>) w"
  have cw: "counted owed G ?w" by (rule plain_task [OF assms(2)]) simp
  note r = assms(1) [unfolded new_child_def Let_def p t andThen_def sum.case prod.case]
  show ?thesis
  proof (cases "event_message (stops E) t = None \<or> event_message (stops E) t = Some 0")
    case True
    with r cw show ?thesis by auto
  next
    case False
    then obtain n where n: "event_message (stops E) t = Some n" "n \<noteq> 0" by auto
    obtain r' v where g: "get_tracee E (Some (p\<lparr>th := t\<rparr>)) (sint (ucast n :: u32)) True ?w = (r', v)" by force
    have cv: "counted owed G v" by (rule get_tracee_counted [OF g cw])
    show ?thesis
    proof (cases r')
      case None
      with r n g cv show ?thesis by auto
    next
      case (Some c)
      with r n g obtain flags z where z: "attach_child c flags p (on_task c (inherit_from (next_addr v) flags (p\<lparr>th := t\<rparr>)) (v\<lparr>next_addr := next_addr v + 1\<rparr>)) = Inr z"
        "release_child E c (on_task a (\<lambda>p. p\<lparr>stripped_newns := False, stripped_newnet := False\<rparr>) z) = Inr w'"
        by (auto split: sum.splits)
      have "counted owed G (on_task c (inherit_from (next_addr v) flags (p\<lparr>th := t\<rparr>)) (v\<lparr>next_addr := next_addr v + 1\<rparr>))"
        by (rule plain_task [OF next_counted [OF cv] inherit_plain])
      from attach_child_counted [OF z(1) this]
      have "counted owed G (on_task a (\<lambda>p. p\<lparr>stripped_newns := False, stripped_newnet := False\<rparr>) z)"
        by (rule plain_task) simp
      with z(2) show ?thesis by (rule release_child_counted)
    qed
  qed
qed

lemma serve_counted:
  assumes "serve_event E a st w = Inr (s, w')" "counted owed G w"
  shows "counted owed G w'"
proof (cases "deref w (Some a)")
  case (Inl e)
  with assms show ?thesis by (simp add: serve_event_def)
next
  case (Inr t)
  note r = assms(1) [unfolded serve_event_def Inr sum.case]
  show ?thesis
  proof (cases "pid t \<le> 0 \<or> terminated t")
    case True
    with r assms(2) show ?thesis by simp
  next
    case False
    with r obtain out g u m where r2: "(case out of
                 Signal s \<Rightarrow> Inr (s, on_task a (on_side (\<lambda>s. s\<lparr>proot_pending := False\<rparr>)) ((on_task a (\<lambda>t. t\<lparr>th := u, tmem := m\<rparr>) w)\<lparr>globals := g\<rparr>))
               | Early s \<Rightarrow> Inr (s, (on_task a (\<lambda>t. t\<lparr>th := u, tmem := m\<rparr>) w)\<lparr>globals := g\<rparr>)
               | Ended \<Rightarrow> Inr (0, terminate_tracee a ((on_task a (\<lambda>t. t\<lparr>th := u, tmem := m\<rparr>) w)\<lparr>globals := g\<rparr>))
               | Child flags \<Rightarrow> andThen (new_child E a flags ((on_task a (\<lambda>t. t\<lparr>th := u, tmem := m\<rparr>) w)\<lparr>globals := g\<rparr>))
                   (\<lambda>w. Inr (0, on_task a (on_side (\<lambda>s. s\<lparr>proot_pending := False\<rparr>)) w))) = Inr (s, w')"
      by (auto simp: andThen_Inr Let_def)
    let ?w = "(on_task a (\<lambda>t. t\<lparr>th := u, tmem := m\<rparr>) w)\<lparr>globals := g\<rparr>"
    have c: "counted owed G ?w" by (rule globals_counted [OF plain_task [OF assms(2)]]) simp
    have done_counted: "counted owed G v \<Longrightarrow> counted owed G (on_task a (on_side (\<lambda>s. s\<lparr>proot_pending := False\<rparr>)) v)" for v
      by (rule side_counted) simp_all
    show ?thesis
    proof (cases out)
      case (Child flags)
      with r2 obtain v where "new_child E a flags ?w = Inr v" "w' = on_task a (on_side (\<lambda>s. s\<lparr>proot_pending := False\<rparr>)) v"
        by (auto simp: andThen_Inr)
      with c show ?thesis by (auto intro: done_counted new_child_counted)
    qed (use r2 c in \<open>auto intro: done_counted terminate_counted\<close>)
  qed
qed

lemma serve_keeps: "keeps_counts (serve_event E)"
  unfolding keeps_counts_def using serve_counted by blast

section \<open>The end of a tracee\<close>

lemma release_relative_counted:
  assumes "release_relative E gone a w = Inr w'" "counted owed G w"
  shows "counted owed G w'"
proof -
  from assms(1) obtain t where d: "deref w (Some a) = Inr t" by (auto simp: release_relative_def split: sum.splits)
  let ?w = "if parent t = Some gone then on_task a (\<lambda>t. t\<lparr>parent := None\<rparr>) w else w"
  let ?v = "on_task a (on_side (\<lambda>s. s\<lparr>tracer := None\<rparr>)) ?w"
  note r = assms(1) [unfolded release_relative_def d sum.case Let_def]
  have c: "counted owed G ?w" using assms(2) by (auto intro: plain_task)
  have cv: "counted owed G ?v" by (rule side_counted [OF _ c]) simp
  show ?thesis
  proof (cases "tracer_of t = Some gone")
    case False
    with r c show ?thesis by simp
  next
    case True
    with r obtain u where u: "w' = on_task a (\<lambda>t. t\<lparr>as_ptracee := no_ptracee\<rparr>) u"
      "(if proot_pending (as_ptracee t) then andThen (serve_event E a (proot_value (as_ptracee t)) ?v) (\<lambda>(ev, w). Inr (snd (restart_tracee E a ev w)))
        else if event_pending (as_ptracee t) then Inr (snd (restart_tracee E a (sint (proot_value (as_ptracee t))) ?v))
        else Inr ?v) = Inr u"
      by (auto simp: andThen_Inr)
    have "counted owed G u"
    proof (cases "proot_pending (as_ptracee t)")
      case True
      with u(2) obtain ev z where "serve_event E a (proot_value (as_ptracee t)) ?v = Inr (ev, z)" "u = snd (restart_tracee E a ev z)"
        by (auto simp: andThen_Inr)
      with cv show ?thesis by (auto intro: restart_counted serve_counted)
    next
      case False
      with u(2) cv show ?thesis by (auto split: if_split_asm intro: restart_counted)
    qed
    then show ?thesis unfolding u(1) by (rule plain_task) simp
  qed
qed

lemma each_task_counted:
  assumes "each_task f as w = Inr w'" "counted owed G w"
    and "\<And>a v v'. f a v = Inr v' \<Longrightarrow> counted owed G v \<Longrightarrow> counted owed G v'"
  shows "counted owed G w'"
  using assms(1,2)
proof (induction as arbitrary: w)
  case (Cons a as)
  from Cons.prems(1) obtain v where v: "f a w = Inr v" "each_task f as v = Inr w'" by (auto simp: andThen_Inr)
  from v(2) assms(3) [OF v(1) Cons.prems(2)] show ?case by (rule Cons.IH)
qed simp

lemma wake_waiting_counted:
  assumes "wake_waiting E p w = Inr w'" "counted owed G w"
  shows "counted owed G w'"
proof -
  from assms(1) obtain t where "deref w (Some p) = Inr t" and r: "(if nb_ptracees t = 0 \<and> wait_pid t \<noteq> 0 then
      Inr (snd (restart_tracee E p 0 (on_task p (\<lambda>u. u\<lparr>th := snd (push_specific_regs (ev_ptrace (stops E)) True
        (poke_reg SYSARG_RESULT (word_of_int (- errno_num ECHILD)) (th t))), wait_pid := 0\<rparr>) w)))
      else Inr w) = (Inr w' :: world res)"
    unfolding wake_waiting_def Let_def by (elim andThenE)
  have "counted owed G (on_task p (\<lambda>t. t\<lparr>th := u, wait_pid := 0\<rparr>) w)" for u by (rule plain_task [OF assms(2)]) simp
  with r assms(2) show ?thesis by (auto split: if_split_asm intro: restart_counted)
qed

lemma zombie_counted:
  assumes "counted owed G w"
  shows "counted owed G (w\<lparr>dead := (blank_task E (next_addr w) n)\<lparr>parent := q, is_clone := b\<rparr> # dead w, next_addr := next_addr w + 1\<rparr>)"
    (is "counted _ _ ?w")
proof -
  let ?b = "(blank_task E (next_addr w) n)\<lparr>parent := q, is_clone := b\<rparr>"
  have b: "addr ?b = next_addr w" "tracer_of ?b = None" by (simp_all add: blank_task_def no_ptracee_def)
  have fresh: "next_addr w \<notin> addr ` set (all_tasks w)" using countedD(3) [OF assms] by force
  have all: "all_tasks ?w = live w @ ?b # dead w" by (simp add: all_tasks_def)
  have cnt: "cnt p (all_tasks ?w) = cnt p (all_tasks w)" for p using b by (simp add: all all_tasks_def)
  have addrs: "set (map addr (all_tasks ?w)) = insert (next_addr w) (set (map addr (all_tasks w)))" using b by (auto simp: all all_tasks_def)
  show ?thesis
    unfolding counted_def
  proof (intro conjI ballI allI impI)
    show "distinct (map addr (all_tasks ?w))" using countedD(1) [OF assms] fresh b by (auto simp: all all_tasks_def)
    fix g assume "g \<in> G"
    with countedD(2) [OF assms] show "g < next_addr ?w" "g \<notin> set (map addr (all_tasks ?w))" unfolding addrs by force+
  next
    fix t assume "t \<in> set (all_tasks ?w)"
    then have "addr t \<in> insert (next_addr w) (set (map addr (all_tasks w)))" unfolding addrs [symmetric] by simp
    then show "addr t < next_addr ?w" using countedD(3) [OF assms] by force
  next
    fix p assume "p \<in> set (live ?w)"
    then show "cnt (addr p) (all_tasks ?w) + (if owed = Some (addr p) then 1 else 0) \<le> nb_ptracees p"
      unfolding cnt using countedD(4) [OF assms, of p] by simp
  next
    fix p assume "next_addr ?w \<le> p"
    then show "cnt p (all_tasks ?w) + (if owed = Some p then 1 else 0) = 0" unfolding cnt using countedD(5) [OF assms, of p] by simp
  qed
qed

lemma leave_tracer_counted:
  assumes "leave_tracer E t w = Inr w'" "counted (tracer_of t) G w" "addr t \<in> G"
  shows "counted None G w'"
proof (cases "tracer_of t")
  case None
  with assms show ?thesis by (simp add: leave_tracer_def Let_def)
next
  case (Some p)
  show ?thesis
  proof (cases "event_pending (as_ptracee t) \<and> ended_status (event_value (as_ptracee t))")
    case True
    let ?w = "w\<lparr>dead := (blank_task E (next_addr w) (pid t))\<lparr>parent := parent t, is_clone := is_clone t\<rparr> # dead w, next_addr := next_addr w + 1\<rparr>"
    from assms(1) Some True obtain v z where v: "detach_from_ptracer t ?w = Inr v" "attach_to_ptracer (next_addr w) (Some p) v = Inr z"
      "w' = on_any (next_addr w) (on_side (\<lambda>s. s\<lparr>event_pending := True, event_value := event_value (as_ptracee t), is_zombie := True\<rparr>)) z"
      by (auto simp: leave_tracer_def Let_def andThen_Inr)
    have c: "counted (tracer_of t) G ?w" by (rule zombie_counted [OF assms(2)])
    have "addr t \<notin> addr ` set (all_tasks ?w)" using countedD(2) [OF c assms(3)] by simp
    then have "counted None G v" using Some by (intro detach_counted [OF v(1) c Some]) simp
    from attach_counted [OF v(2) this] show ?thesis unfolding v(3) by (rule plain_any) simp
  next
    case False
    with assms(1) Some obtain v where v: "detach_from_ptracer t w = Inr v" "wake_waiting E p v = Inr w'"
      by (auto simp: leave_tracer_def Let_def andThen_Inr)
    have "addr t \<notin> addr ` set (all_tasks w)" using countedD(2) [OF assms(2,3)] by simp
    then have "counted None G v" using Some by (intro detach_counted [OF v(1) assms(2) Some]) simp
    with v(2) show ?thesis by (rule wake_waiting_counted)
  qed
qed

lemma fewer_freed: "counted owed G w \<Longrightarrow> H \<subseteq> G \<Longrightarrow> counted owed H w"
  unfolding counted_def by blast

text \<open>A tracee that is taken out of the list leaves its tracer owing it.\<close>

lemma cnt_without:
  assumes "distinct (map addr xs)" "t \<in> set xs"
  shows "cnt p (filter (\<lambda>u. addr u \<noteq> addr t) xs) + (if tracer_of t = Some p then 1 else 0) = cnt p xs"
  using assms
proof (induction xs)
  case (Cons u xs)
  show ?case
  proof (cases "u = t")
    case True
    with Cons.prems have "addr t \<notin> addr ` set xs" by simp
    then have "\<forall>v \<in> set xs. addr v \<noteq> addr t" by (metis imageI)
    then have "filter (\<lambda>u. addr u \<noteq> addr t) xs = xs" by (simp add: filter_id_conv)
    with True show ?thesis by simp
  next
    case False
    with Cons.prems have "addr u \<noteq> addr t" by force
    with Cons False show ?thesis by simp
  qed
qed simp

lemma taken_out:
  assumes "counted None G w" "t \<in> set (live w)"
  shows "counted (tracer_of t) (insert (addr t) G) (w\<lparr>live := filter (\<lambda>u. addr u \<noteq> addr t) (live w)\<rparr>)" (is "counted _ _ ?w")
proof -
  have all: "all_tasks ?w = filter (\<lambda>u. addr u \<noteq> addr t) (all_tasks w)"
  proof -
    have "\<forall>v \<in> set (dead w). addr v \<noteq> addr t" using countedD(1) [OF assms(1)] assms(2) by (force simp: all_tasks_def)
    then show ?thesis by (simp add: all_tasks_def filter_id_conv)
  qed
  have mem: "t \<in> set (all_tasks w)" using assms(2) by (simp add: all_tasks_def)
  have cnt: "cnt p (all_tasks ?w) + (if tracer_of t = Some p then 1 else 0) = cnt p (all_tasks w)" for p
    unfolding all by (rule cnt_without [OF countedD(1) [OF assms(1)] mem])
  show ?thesis
    unfolding counted_def
  proof (intro conjI ballI allI impI)
    show "distinct (map addr (all_tasks ?w))" using countedD(1) [OF assms(1)] by (simp add: all distinct_map_filter)
    fix g assume "g \<in> insert (addr t) G"
    then show "g < next_addr ?w" "g \<notin> set (map addr (all_tasks ?w))"
      using countedD(2) [OF assms(1)] countedD(3) [OF assms(1) mem] by (auto simp: all)
  next
    fix u assume "u \<in> set (all_tasks ?w)"
    then show "addr u < next_addr ?w" using countedD(3) [OF assms(1)] by (simp add: all)
  next
    fix p assume "p \<in> set (live ?w)"
    then show "cnt (addr p) (all_tasks ?w) + (if tracer_of t = Some (addr p) then 1 else 0) \<le> nb_ptracees p"
      unfolding cnt using countedD(4) [OF assms(1), of p] by simp
  next
    fix p assume "next_addr ?w \<le> p"
    then show "cnt p (all_tasks ?w) + (if tracer_of t = Some p then 1 else 0) = 0"
      unfolding cnt using countedD(5) [OF assms(1), of p] by simp
  qed
qed

lemma remove_counted:
  assumes "remove_tracee E a w = Inr w'" "counted None G w"
  shows "counted None G w'"
proof -
  from assms(1) obtain t v z where d: "deref w (Some a) = Inr t" and v:
    "each_task (release_relative E a) (take MAX_BATCH (map addr (filter (\<lambda>u. parent u = Some a \<or> tracer_of u = Some a)
        (live (w\<lparr>live := filter (\<lambda>u. addr u \<noteq> a) (live w)\<rparr>))))) (w\<lparr>live := filter (\<lambda>u. addr u \<noteq> a) (live w)\<rparr>) = Inr v"
    "leave_tracer E t v = Inr z" "w' = z\<lparr>dead := filter (\<lambda>z. tracer_of z \<noteq> Some a) (dead z)\<rparr>"
    unfolding remove_tracee_def Let_def by (elim andThenE) auto
  have t: "t \<in> set (live w)" "addr t = a" using derefD [OF d] by simp_all
  have "counted (tracer_of t) (insert a G) v"
    by (rule each_task_counted [OF v(1)]) (use taken_out [OF assms(2) t(1)] t(2) in \<open>auto intro: release_relative_counted\<close>)
  from leave_tracer_counted [OF v(2) this] t(2) have "counted None (insert a G) z" by simp
  then have "counted None G z" by (rule fewer_freed) blast
  then show ?thesis unfolding v(3) by (rule free_zombie_counted)
qed

lemma free_tracee_counted:
  assumes "free_tracee E a w = Inr w'" "counted None G w"
  shows "counted None G w'"
proof -
  from assms(1) obtain t v where "deref w (Some a) = Inr t" and v: "(if nb_ptracees t > 0
          then each_task detach_address (take MAX_BATCH (map addr (filter (\<lambda>u. tracer_of u = Some a) (live w)))) w
          else Inr w) = Inr v" "remove_tracee E a v = Inr w'"
    unfolding free_tracee_def by (elim andThenE) blast
  have "detach_address b u = Inr u' \<Longrightarrow> counted None G u \<Longrightarrow> counted None G u'" for b u u'
    unfolding detach_address_def by (elim andThenE) (rule detach_present, auto intro: stands_for_deref)
  then have "counted None G v" using v(1) assms(2) by (auto split: if_split_asm intro: each_task_counted)
  with v(2) show ?thesis by (rule remove_counted)
qed

lemma free_terminated_counted:
  assumes "free_terminated_tracees E w = Inr w'" "counted None G w"
  shows "counted None G w'"
proof (cases "has_terminated w")
  case True
  have "counted None G (w\<lparr>has_terminated := False\<rparr>)" using assms(2) by (elim same_lists) simp_all
  moreover have "each_task (free_tracee E) (take MAX_BATCH (map addr (filter terminated (live w)))) (w\<lparr>has_terminated := False\<rparr>) = Inr w'"
    using assms(1) True by (simp add: free_terminated_tracees_def)
  ultimately show ?thesis by (metis each_task_counted free_tracee_counted)
next
  case False
  with assms show ?thesis by (simp add: free_terminated_tracees_def)
qed

section \<open>The loop and the requests\<close>

lemma loop_turn_counted:
  assumes "loop_turn E n st w = Inr (Some w')" "counted None G w"
  shows "counted None G w'"
proof -
  from assms(1) obtain v where v: "free_terminated_tracees E w = Inr v" "\<not> root_exited (globals v)"
    "(case get_tracee E None n True v of
        (None, w) \<Rightarrow> Inr (Some w)
      | (Some a, w) \<Rightarrow>
         andThen (deref w (Some a)) (\<lambda>t.
           if pid t \<le> 0 \<or> terminated t then Inr (Some w)
           else
             let w = on_task a (\<lambda>t. t\<lparr>running := False\<rparr>) w in
             if new_status_ext E t st then Inr (Some w)
             else
               andThen (if tracer_of t = None then Inr (False, w)
                        else handle_ptracee_event E (serve_event E) a st w) (\<lambda>(keep, w).
                 if keep then Inr (Some w)
                 else andThen (serve_event E a st w) (\<lambda>(s, w). Inr (Some (snd (restart_tracee E a s w))))))) = Inr (Some w')"
    unfolding loop_turn_def by (elim andThenE) (auto split: if_split_asm)
  have cv: "counted None G v" by (rule free_terminated_counted [OF v(1) assms(2)])
  obtain r u where g: "get_tracee E None n True v = (r, u)" by force
  have cu: "counted None G u" by (rule get_tracee_counted [OF g cv])
  show ?thesis
  proof (cases r)
    case None
    with v(3) g cu show ?thesis by simp
  next
    case (Some a)
    let ?u = "on_task a (\<lambda>t. t\<lparr>running := False\<rparr>) u"
    have cu': "counted None G ?u" by (rule plain_task [OF cu]) simp
    from v(3) g Some obtain t where t: "(if pid t \<le> 0 \<or> terminated t then Inr (Some u)
       else if new_status_ext E t st then Inr (Some ?u)
         else andThen (if tracer_of t = None then Inr (False, ?u) else handle_ptracee_event E (serve_event E) a st ?u) (\<lambda>(keep, w).
             if keep then Inr (Some w)
             else andThen (serve_event E a st w) (\<lambda>(s, w). Inr (Some (snd (restart_tracee E a s w)))))) = (Inr (Some w') :: world option res)"
      unfolding Let_def by (auto simp: andThen_Inr [of "deref u (Some a)"])
    consider "w' = u" | "w' = ?u"
      | keep y where "(if tracer_of t = None then Inr (False, ?u) else handle_ptracee_event E (serve_event E) a st ?u) = Inr (keep, y)"
        "(if keep then Inr (Some y) else andThen (serve_event E a st y) (\<lambda>(s, w). Inr (Some (snd (restart_tracee E a s w))))) = Inr (Some w')"
      using t by (auto simp: andThen_Inr split: if_split_asm)
    then show ?thesis
    proof cases
      case (3 keep y)
      have cy: "counted None G y"
      proof (cases "tracer_of t = None")
        case False
        with 3(1) have "handle_ptracee_event E (serve_event E) a st ?u = Inr (keep, y)" by simp
        then show ?thesis using cu' serve_keeps by (rule ptracee_event_counted)
      qed (use 3(1) cu' in auto)
      show ?thesis
      proof (cases keep)
        case False
        with 3(2) obtain s z where z: "serve_event E a st y = Inr (s, z)" "w' = snd (restart_tracee E a s z)"
          by (auto simp: andThen_Inr)
        show ?thesis unfolding z(2) by (rule restart_counted [OF serve_counted [OF z(1) cy]])
      qed (use 3(2) cy in auto)
    qed (use cu cu' in auto)
  qed
qed

lemma traceme_counted:
  assumes "ptrace_traceme E a w = Inr (st, w')" "counted None G w"
  shows "counted None G w'"
proof -
  have side: "counted None G (on_task p (\<lambda>p. (on_th f p)\<lparr>waits_in := x\<rparr>) v)" "counted None G (on_task p (on_th f) v)"
    if "counted None G v" for p f x v by (rule plain_task [OF that], simp)+
  from assms(1) obtain t where d: "deref w (Some a) = Inr t" and r: "(if tracer_of t \<noteq> None \<or> parent t = Some a then Inr (- errno_num EPERM, w)
       else
         andThen (attach_to_ptracer a (parent t) w) (\<lambda>w.
         andThen (deref w (parent t)) (\<lambda>p.
           let w = (if waits_in p \<noteq> WAITS_IN_KERNEL then w
                    else if killable E (pid p) then
                      kill_sig (pid p) SIGSTOP (on_task (addr p) (\<lambda>p. (on_th (\<lambda>u. u\<lparr>sigstop := SIGSTOP_IGNORED\<rparr>) p)\<lparr>waits_in := WAITS_IN_PROOT\<rparr>) w)
                    else w)
           in Inr (0, on_task a (on_th (\<lambda>u. if seccomp u = ENABLED then u\<lparr>seccomp := DISABLING\<rparr> else u)) w)))) = Inr (st, w')"
    unfolding ptrace_traceme_def by (elim andThenE)
  show ?thesis
  proof (cases "tracer_of t \<noteq> None \<or> parent t = Some a")
    case True
    with r assms(2) show ?thesis by simp
  next
    case False
    with r obtain v p where v: "attach_to_ptracer a (parent t) w = Inr v" "deref v (parent t) = Inr p"
      "Inr (0, on_task a (on_th (\<lambda>u. if seccomp u = ENABLED then u\<lparr>seccomp := DISABLING\<rparr> else u))
        (if waits_in p \<noteq> WAITS_IN_KERNEL then v
         else if killable E (pid p) then
           kill_sig (pid p) SIGSTOP (on_task (addr p) (\<lambda>p. (on_th (\<lambda>u. u\<lparr>sigstop := SIGSTOP_IGNORED\<rparr>) p)\<lparr>waits_in := WAITS_IN_PROOT\<rparr>) v)
         else v)) = (Inr (st, w') :: (int \<times> world) res)"
      unfolding Let_def if_not_P [OF False] by (elim andThenE)
    have c: "counted None G v" by (rule attach_counted [OF v(1) assms(2)])
    show ?thesis unfolding conjunct2 [OF v(3) [unfolded sum.inject prod.inject], symmetric]
      by (rule side(2)) (use c in \<open>auto intro: side kill_counted\<close>)
  qed
qed

lemma ptrace_attach_counted:
  assumes "ptrace_attach E p n w = Inr (st, w')" "counted None G w"
  shows "counted None G w'"
proof -
  obtain pt where d: "deref w (Some p) = Inr pt"
    using assms(1) by (auto simp: ptrace_attach_def andThen_Inr)
  obtain r v where g: "get_tracee E (Some pt) n False w = (r, v)" by force
  have v: "counted None G v" by (rule get_tracee_counted [OF g assms(2)])
  from assms(1) d g consider "w' = v" | c u where "attach_to_ptracer c (Some p) v = Inr u" "w' = kill_sig n SIGSTOP u"
    by (auto simp: ptrace_attach_def andThen_def split: option.splits sum.splits if_split_asm)
  then show ?thesis by cases (use v in \<open>auto intro: kill_counted attach_counted\<close>)
qed

lemma resume_counted:
  assumes "resume_ptracee E h a forced x w = Inr (st, w')" "counted owed G w" "keeps_counts h"
  shows "counted owed G w'"
proof -
  from assms(1) obtain c y where c: "deref w (Some a) = Inr c" "(if proot_pending (as_ptracee c) then h a (proot_value (as_ptracee c)) w
      else Inr (sint (proot_value (as_ptracee c)), w)) = Inr y"
      "(case y of (sig, w) \<Rightarrow> Inr (x, snd (restart_tracee E a (if forced \<noteq> -1 then forced else sig) w))) = (Inr (st, w') :: (int \<times> world) res)"
    unfolding resume_ptracee_def by (elim andThenE)
  obtain sig v where y: "y = (sig, v)" by force
  have v: "(if proot_pending (as_ptracee c) then h a (proot_value (as_ptracee c)) w
      else Inr (sint (proot_value (as_ptracee c)), w)) = Inr (sig, v)" "w' = snd (restart_tracee E a (if forced \<noteq> -1 then forced else sig) v)"
    using c(2,3) unfolding y by simp_all
  have "counted owed G v"
  proof (cases "proot_pending (as_ptracee c)")
    case True
    with v(1) have "h a (proot_value (as_ptracee c)) w = Inr (sig, v)" by simp
    with assms(3) show ?thesis using assms(2) by (rule keeps_countsD)
  qed (use v(1) assms(2) in auto)
  then show ?thesis unfolding v(2) by (rule restart_counted)
qed

lemma ptrace_exit_counted:
  assumes "translate_ptrace_exit E h p w = Inr (st, w')" "counted None G w" "keeps_counts h"
  shows "counted None G w'"
proof -
  obtain pt where d: "deref w (Some p) = Inr pt"
    using assms(1) by (auto simp: translate_ptrace_exit_def andThen_Inr Let_def)
  let ?arg = "\<lambda>r. peek_reg ORIGINAL r (th pt)"
  let ?n = "sint (ucast (?arg SYSARG_2) :: u32)" and ?sig = "sint (ucast (?arg SYSARG_4) :: u32)"
  note r = assms(1) [unfolded translate_ptrace_exit_def Let_def d andThen_def sum.case]
  have side: "counted None G (on_task a (on_side f) v)" if "counted None G v" "\<And>s. tracer (f s) = tracer s" for a f v
    by (rule side_counted [OF _ that(1)]) (simp add: that(2))
  have mem: "counted None G (on_task p (\<lambda>pt. pt\<lparr>tmem := m\<rparr>) w)" for m by (rule plain_task [OF assms(2)]) simp
  have how: "counted None G (on_task a (on_th f) w)" for a f by (rule plain_task [OF assms(2)]) simp
  consider (me) "request_of (?arg SYSARG_1) = Some PTRACE_TRACEME" | (at) "request_of (?arg SYSARG_1) = Some PTRACE_ATTACH"
    | (other) "request_of (?arg SYSARG_1) \<noteq> Some PTRACE_TRACEME" "request_of (?arg SYSARG_1) \<noteq> Some PTRACE_ATTACH" by blast
  then show ?thesis
  proof cases
    case me
    with r have "ptrace_traceme E p w = Inr (st, w')" by simp
    then show ?thesis using assms(2) by (rule traceme_counted)
  next
    case at
    with r have "ptrace_attach E p ?n w = Inr (st, w')" by simp
    then show ?thesis using assms(2) by (rule ptrace_attach_counted)
  next
    case other
    show ?thesis
    proof (cases "get_stopped_ptracee p ?n False WALL w")
      case None
      with r other assms(2) show ?thesis by simp
    next
      case (Some c)
      have c: "c \<in> set (all_tasks w)" using get_ptracee_in(1) [OF Some [unfolded get_stopped_ptracee_def]] .
      from r other Some consider "w' = w" | f forced where "resume_ptracee E h (addr c) forced 0 (on_task (addr c) f w) = Inr (st, w')" "counted None G (on_task (addr c) f w)"
        | v where "detach_from_ptracer c w = Inr v" "resume_ptracee E h (addr c) (-1) 0 v = Inr (st, w')"
        | x y where "resume_ptracee E h (addr c) x y w = Inr (st, w')"
        | f where "w' = on_task (addr c) (on_side f) w" "\<And>s. tracer (f s) = tracer s"
        | m where "w' = on_task p (\<lambda>pt. pt\<lparr>tmem := m\<rparr>) w"
      proof (cases "is_zombie (as_ptracee c) \<or> ?arg SYSARG_2 = -1")
        case False
        show thesis
        proof (cases "request_of (?arg SYSARG_1)")
          case (Some q)
          then show thesis
          proof (cases q)
            case (Resume k)
            then show thesis
              by (cases k; use r other Some False \<open>get_stopped_ptracee p ?n False WALL w = Some c\<close> side how assms(2) in \<open>fastforce intro!: that(2)\<close>)
          qed (use r other Some False \<open>get_stopped_ptracee p ?n False WALL w = Some c\<close> that in \<open>auto split: sum.splits prod.splits\<close>)
        qed (use r False other \<open>get_stopped_ptracee p ?n False WALL w = Some c\<close> that(1) in auto)
      qed (use r other Some that(1) in auto)
      then show ?thesis
      proof cases
        case (2 f forced)
        from 2(1) 2(2) assms(3) show ?thesis by (rule resume_counted)
      next
        case (3 v)
        from 3(2) detach_present [OF 3(1) assms(2) stands_for_in [OF c]] assms(3) show ?thesis by (rule resume_counted)
      next
        case (4 x y)
        from 4 assms(2,3) show ?thesis by (rule resume_counted)
      next
        case (5 f)
        show ?thesis unfolding 5(1) by (rule side [OF assms(2) 5(2)])
      qed (use assms(2) mem in auto)
    qed
  qed
qed

section \<open>Reachable worlds\<close>

text \<open>The stop of a tracee serves a wait or a request of \<open>ptrace(2)\<close> in its name, so the steps are the turns of the
  loop and the emulated calls, in any order. The first world has the tracee that was launched.\<close>

inductive life_step :: "life_env \<Rightarrow> world \<Rightarrow> world \<Rightarrow> bool" for E where
  turn: "life_step E w w'" if "loop_turn E n st w = Inr (Some w')"
| wait_entered: "life_step E w w'" if "translate_wait_enter E p w = Inr w'"
| wait_left: "life_step E w w'" if "translate_wait_exit p w = Inr (st, w')"
| request_entered: "life_step E w (translate_ptrace_enter p w)"
| request_left: "life_step E w w'" if "translate_ptrace_exit E (serve_event E) p w = Inr (st, w')"
| own_name_space: "life_step E w (unshare_file_system_namespace a w)"

definition first_world :: "life_env \<Rightarrow> int \<Rightarrow> ev_globals \<Rightarrow> world" where
  "first_world E n g =
     on_task 0 (\<lambda>t. t\<lparr>killall_on_exit := True\<rparr>)
       (snd (new_tracee E n \<lparr>live = [], dead = [], next_addr = 0, next_vpid = 1, has_terminated = False, globals = g, sent = []\<rparr>))"

inductive reachable_world :: "life_env \<Rightarrow> world \<Rightarrow> bool" for E where
  first: "reachable_world E (first_world E n g)"
| next_world: "reachable_world E w'" if "reachable_world E w" "life_step E w w'"

lemma first_counted: "counted None {} (first_world E n g)"
proof -
  have "counted None {} \<lparr>live = [], dead = [], next_addr = 0, next_vpid = 1, has_terminated = False, globals = g, sent = []\<rparr>"
    by (simp add: counted_def all_tasks_def)
  then have "counted None {} (snd (new_tracee E n \<lparr>live = [], dead = [], next_addr = 0, next_vpid = 1, has_terminated = False, globals = g, sent = []\<rparr>))"
    by (metis new_tracee_counted prod.collapse)
  then show ?thesis unfolding first_world_def by (rule plain_task) (simp add: plain_def)
qed

lemma step_counted:
  assumes "life_step E w w'" "counted None {} w"
  shows "counted None {} w'"
  using assms(1)
proof cases
  case (turn n st)
  then show ?thesis using assms(2) by (rule loop_turn_counted)
next
  case (wait_entered p)
  then show ?thesis using assms(2) by (rule wait_enter_counted)
next
  case (wait_left p st)
  then show ?thesis using assms(2) by (rule wait_exit_counted)
next
  case (request_entered p)
  show ?thesis unfolding request_entered translate_ptrace_enter_def by (rule plain_task [OF assms(2)]) simp
next
  case (request_left p st)
  then show ?thesis using assms(2) serve_keeps by (rule ptrace_exit_counted)
next
  case (own_name_space a)
  have "counted None {} (on_task a (\<lambda>t. t\<lparr>fs_ref := next_addr w, table_ref := next_addr w\<rparr>) w)"
    by (rule plain_task [OF assms(2)]) (simp add: plain_def)
  then show ?thesis unfolding own_name_space unshare_file_system_namespace_def by (elim same_lists) (simp_all add: on_task_lists)
qed

lemma reachable_counted: "reachable_world E w \<Longrightarrow> counted None {} w"
  by (induction rule: reachable_world.induct) (auto intro: first_counted step_counted)

lemma counted_once:
  assumes "t \<in> set xs" "tracer_of t = Some p" shows "0 < cnt p xs"
  using assms by (induction xs) auto

text \<open>
  C27: a tracer counts its ptracees. In every world that the loop reaches, from the first tracee through stops,
  children, ends of tracees, waits and requests of \<open>ptrace(2)\<close> in any order, the count of a tracer is at least the
  number of the tracees and zombies that have it as their tracer. So the assertion of \<open>detach_from_ptracer\<close>, that
  the count is not 0, cannot fail for a ptracee whose tracer is alive.
\<close>

theorem ptracees_are_counted:
  assumes "reachable_world E w" "p \<in> set (live w)"
  shows "length (filter (\<lambda>t. tracer (as_ptracee t) = Some (addr p)) (live w @ dead w)) \<le> nb_ptracees p \<and>
    (\<forall>t \<in> set (live w @ dead w). tracer (as_ptracee t) = Some (addr p) \<longrightarrow> (\<exists>w'. detach_from_ptracer t w = Inr w'))"
proof -
  note c = reachable_counted [OF assms(1)]
  have le: "cnt (addr p) (all_tasks w) \<le> nb_ptracees p" using countedD(4) [OF c assms(2)] by simp
  have "\<exists>w'. detach_from_ptracer t w = Inr w'" if "t \<in> set (live w @ dead w)" "tracer_of t = Some (addr p)" for t
  proof -
    have "0 < cnt (addr p) (all_tasks w)" using that by (intro counted_once) (simp_all add: all_tasks_def)
    with le have "nb_ptracees p \<noteq> 0" by simp
    with deref_unique [OF c assms(2)] that(2) show ?thesis by (simp add: detach_from_ptracer_def andThen_def)
  qed
  with le show ?thesis by (auto simp: cnt_def all_tasks_def)
qed

definition demo_life_env :: "nat \<Rightarrow> thread \<Rightarrow> life_env" where
  "demo_life_env n t = \<lparr>stops = demo_ev_env, blank = t, blank_memory = (\<lambda>_. None), ptrace_ok = (\<lambda>_. True), killable = (\<lambda>_. True),
     data_request = (\<lambda>_ _ _ _ m. (0, m)), new_status_ext = (\<lambda>_ _. True)\<rparr>"

text \<open>The first tracee, number 7, attaches to the tracee 9, which the loop saw stop.\<close>

definition attaching_thread :: thread where
  "attaching_thread = fresh_thread\<lparr>regs := (regs fresh_thread)(ORIGINAL := (\<lambda>_. 0)(0 := 16, 1 := 9))\<rparr>"

abbreviation attaching_env :: life_env where
  "attaching_env \<equiv> demo_life_env 0 attaching_thread"

lemmas life_eval = loop_turn_def first_world_def new_tracee_def free_terminated_tracees_def andThen_def get_tracee_def on_task_def
  deref_def blank_task_def no_ptracee_def demo_life_env_def demo_globals_def translate_ptrace_exit_def ptrace_attach_def
  attach_to_ptracer_def on_any_def kill_sig_def request_of_def peek_reg_def

lemma attached_world:
  "\<exists>w p. reachable_world attaching_env w \<and> live w = [p\<lparr>addr := 1, pid := 9, vpid := 2, running := False, fs_ref := 1, heap_ref := 1,
       killall_on_exit := False, nb_ptracees := 0, as_ptracee := no_ptracee\<lparr>tracer := Some 0\<rparr>\<rparr>, p] \<and> nb_ptracees p = 1 \<and> addr p = 0"
proof -
  let ?w = "first_world attaching_env 7 demo_globals"
  obtain v where v: "loop_turn attaching_env 9 0 ?w = Inr (Some v)"
      "live v = [(blank_task attaching_env 1 9)\<lparr>vpid := 2\<rparr>, (blank_task attaching_env 0 7)\<lparr>vpid := 1, killall_on_exit := True\<rparr>]"
      "dead v = []"
    by (simp add: life_eval)
  have r: "request_of (peek_reg ORIGINAL SYSARG_1 attaching_thread) = Some PTRACE_ATTACH"
    "sint (ucast (peek_reg ORIGINAL SYSARG_2 attaching_thread) :: u32) = 9"
    by (simp_all add: request_of_def peek_reg_def attaching_thread_def)
  obtain z where z: "translate_ptrace_exit attaching_env (serve_event attaching_env) 0 v = Inr (0, z)"
      "live z = [(blank_task attaching_env 1 9)\<lparr>vpid := 2, as_ptracee := no_ptracee\<lparr>tracer := Some 0\<rparr>\<rparr>,
        (blank_task attaching_env 0 7)\<lparr>vpid := 1, killall_on_exit := True, nb_ptracees := 1\<rparr>]"
    using r v(2,3) by (simp add: translate_ptrace_exit_def ptrace_attach_def andThen_def deref_def blank_task_def demo_life_env_def
      get_tracee_def attach_to_ptracer_def on_task_def on_any_def no_ptracee_def kill_sig_def)
  have "reachable_world attaching_env z"
    by (rule reachable_world.intros(2) [OF reachable_world.intros(2) [OF reachable_world.intros(1) turn [OF v(1)]] request_left [OF z(1)]])
  with z(2) show ?thesis by (intro exI conjI) (assumption, auto simp: blank_task_def)
qed

theorem ptracees_are_counted_witness:
  "\<exists>w p. reachable_world attaching_env w \<and> p \<in> set (live w) \<and> nb_ptracees p = 1 \<and>
     length (filter (\<lambda>t. tracer (as_ptracee t) = Some (addr p)) (live w @ dead w)) \<le> 1"
proof -
  from attached_world obtain w p where w: "reachable_world attaching_env w" "p \<in> set (live w)" "nb_ptracees p = 1"
    by fastforce
  from ptracees_are_counted [OF w(1,2)] w show ?thesis by auto
qed

end
