(* ===== verification/Wait_Spec.thy ===== *)
theory Wait_Spec
  imports Life_Reach
begin

text \<open>
  A tracer that waits: an event of a ptracee it waits for completes its call and is reported once; one it does not
  wait for stays pending.
\<close>

lemma find_upd:
  assumes "\<And>t. addr (f t) = addr t"
  shows "find (\<lambda>u. addr u = a) (upd b f xs) = map_option (\<lambda>t. if a = b then f t else t) (find (\<lambda>u. addr u = a) xs)"
  by (induction xs) (auto simp: assms)

lemma deref_on_task:
  assumes "deref w (Some a) = Inr t" "\<And>t. addr (f t) = addr t"
  shows "deref (on_task b f w) (Some a) = Inr (if a = b then f t else t)"
  using assms(1) by (auto simp: deref_def on_task_lists find_upd [OF assms(2)] split: option.splits)

lemma deref_on_any:
  assumes "deref w (Some a) = Inr t" "\<And>t. addr (f t) = addr t"
  shows "deref (on_any b f w) (Some a) = Inr (if a = b then f t else t)"
  using deref_on_task [OF assms, of b] by (simp add: deref_def on_any_def)

lemma deref_kill [simp]: "deref (kill_sig n s w) p = deref w p"
  by (cases p) (simp_all add: kill_sig_def deref_def)

lemma addr_side [simp]: "addr (on_side f t) = addr t" "addr (on_th g t) = addr t"
  by (simp_all add: on_side_def on_th_def)

lemma restored_keeps: "(fold (\<lambda>r f. f(get_reg_offset r := g r)) restored_regs h) (get_reg_offset SYSARG_RESULT) = h (get_reg_offset SYSARG_RESULT)"
  by (simp add: restored_regs_def)

lemma push_keeps_result: "peek_reg CURRENT SYSARG_RESULT (snd (push_specific_regs k b t)) = peek_reg CURRENT SYSARG_RESULT t"
  using restored_keeps [of "\<lambda>r. peek_reg v r u" "regs t CURRENT" for v u]
  by (auto simp: push_specific_regs_def push_regset_def restore_regs_def peek_reg_def Let_def split: option.splits)

lemma restart_waiting:
  assumes "deref w (Some p) = Inr t" "0 < pid t" "\<not> terminated t" "wait_pid t = 0" "ptrace_ok E t"
  shows "restart_tracee E p 0 w = (True, on_task p (\<lambda>t. (on_th (restart_thread True) t)\<lparr>running := True\<rparr>) w)"
  using assms by (simp add: restart_tracee_def)

lemma restart_thread_kregs: "kregs (restart_thread ok t) = kregs t"
  by (simp add: restart_thread_def Let_def)

text \<open>The registers that were pushed: the kernel holds the result.\<close>

definition result_synced :: "thread \<Rightarrow> bool" where
  "result_synced t \<longleftrightarrow> regs_were_changed t \<or> kregs t (get_reg_offset SYSARG_RESULT) = peek_reg CURRENT SYSARG_RESULT t"

lemma push_gives_result:
  assumes "ptrace_works k" "result_synced t"
  shows "kregs (snd (push_specific_regs k b t)) (get_reg_offset SYSARG_RESULT) = peek_reg CURRENT SYSARG_RESULT t"
  using assms restored_keeps [of "\<lambda>r. peek_reg v r u" "regs t CURRENT" for v u]
  by (auto simp: push_specific_regs_def push_regset_def restore_regs_def peek_reg_def ptrace_works_def result_synced_def Let_def)

lemma poke_synced: "result_synced t \<Longrightarrow> result_synced (poke_reg r x t)"
  by (auto simp: result_synced_def poke_reg_def peek_reg_def)

lemma report_completes_wait:
  assumes p: "deref w (Some p) = Inr t" "0 < pid t" "\<not> terminated t" "\<And>u. ptrace_ok E u"
    and a: "deref w (Some a) = Inr c" "a \<noteq> p" "0 < pid c" "\<not> is_zombie (as_ptracee c)"
    and waits: "wait_pid t = -1 \<or> wait_pid t = pid c" "EXPECTED_WAIT_CLONE (wait_options t) c"
    and other: "\<not> (tracer (as_ptracee c) = parent c \<and> ended_status ev)"
    and room: "peek_reg ORIGINAL SYSARG_2 (th t) = 0 \<or>
      (\<exists>m. write_data (tmem t) (peek_reg ORIGINAL SYSARG_2 (th t)) (le_bytes 4 (unat ev)) = (None, m))"
    and push: "ptrace_works (ev_ptrace (stops E))" "result_synced (th t)"
  shows "\<exists>w' t' c'. report_event E a p ev keep w = Inr (keep, w') \<and>
    deref w' (Some p) = Inr t' \<and> wait_pid t' = 0 \<and> running t' \<and>
    kregs (th t') (get_reg_offset SYSARG_RESULT) = word_of_int (pid c) \<and>
    (peek_reg ORIGINAL SYSARG_2 (th t) \<noteq> 0 \<longrightarrow>
       write_data (tmem t) (peek_reg ORIGINAL SYSARG_2 (th t)) (le_bytes 4 (unat ev)) = (None, tmem t')) \<and>
    deref w' (Some a) = Inr c' \<and> \<not> event_pending (as_ptracee c') \<and> event_value (as_ptracee c') = ev \<and> running c' = running c"
proof -
  let ?s = "peek_reg ORIGINAL SYSARG_2 (th t)"
  define m where "m = (if ?s = 0 then tmem t else snd (write_data (tmem t) ?s (le_bytes 4 (unat ev))))"
  have m: "?s \<noteq> 0 \<Longrightarrow> write_data (tmem t) ?s (le_bytes 4 (unat ev)) = (None, m)" using room by (auto simp: m_def)
  let ?f = "on_side (\<lambda>s. s\<lparr>event_value := ev, event_pending := True\<rparr>)"
  let ?c = "?f c"
  let ?w = "kill_sig (pid t) SIGCHLD (on_task a ?f w)"
  have d: "deref (on_task a ?f w) (Some p) = Inr t" "deref (on_task a ?f w) (Some a) = Inr ?c" "addr c = a"
    using deref_on_task [OF p(1), of ?f a] deref_on_task [OF a(1), of ?f a] a(2) derefD [OF a(1)] by simp_all
  define v where "v = (if ?s = 0 then ?w else on_task p (\<lambda>t. t\<lparr>tmem := m\<rparr>) ?w)"
  have status_ok: "poke_status p ev t ?w = (None, v)"
    using m by (simp add: poke_status_def v_def Let_def)
  have dv: "deref v (Some p) = Inr (t\<lparr>tmem := m\<rparr>)" "deref v (Some a) = Inr ?c"
    using deref_on_task [of ?w p t "\<lambda>t. t\<lparr>tmem := m\<rparr>" p] deref_on_task [of ?w a ?c "\<lambda>t. t\<lparr>tmem := m\<rparr>" p] d a(2)
    by (auto simp: v_def m_def)
  let ?g = "on_side (\<lambda>s. s\<lparr>event_pending := False\<rparr>)"
  let ?u = "on_any a ?g v"
  have du: "deref ?u (Some p) = Inr (t\<lparr>tmem := m\<rparr>)" "deref ?u (Some a) = Inr (?g ?c)"
    using deref_on_any [OF dv(1), of ?g a] deref_on_any [OF dv(2), of ?g a] a(2) by simp_all
  have upd: "update_wait_status p ?c ?w = Inr (pid c, ?u)"
    using d other a(4) status_ok unfolding update_wait_status_def
    by (auto simp: andThen_def on_side_def)
  let ?t = "poke_reg SYSARG_RESULT (word_of_int (pid c)) (th t)"
  let ?h = "\<lambda>q. q\<lparr>th := snd (push_specific_regs (ev_ptrace (stops E)) True ?t), wait_pid := 0\<rparr>"
  let ?x = "on_task p ?h ?u"
  have dx: "deref ?x (Some p) = Inr (?h (t\<lparr>tmem := m\<rparr>))" "deref ?x (Some a) = Inr (?g ?c)"
    using deref_on_task [OF du(1), of ?h p] deref_on_task [OF du(2), of ?h p] a(2) by simp_all
  let ?r = "\<lambda>t. (on_th (restart_thread True) t)\<lparr>running := True\<rparr>"
  have re: "restart_tracee E p 0 ?x = (True, on_task p ?r ?x)"
    by (rule restart_waiting [OF dx(1)]) (use p in simp_all)
  have de: "deref (on_task p ?r ?x) (Some p) = Inr (?r (?h (t\<lparr>tmem := m\<rparr>)))" "deref (on_task p ?r ?x) (Some a) = Inr (?g ?c)"
    using deref_on_task [OF dx(1), of ?r p] deref_on_task [OF dx(2), of ?r p] a(2) by (simp_all add: on_th_def)
  have accepts: "EXPECTED_WAIT_CLONE (wait_options t) ?c" "wait_pid t = -1 \<or> wait_pid t = pid ?c" "pid c \<noteq> 0"
    using waits a(3) by (auto simp: EXPECTED_WAIT_CLONE_def on_side_def)
  have rep: "report_event E a p ev keep w = Inr (keep, on_task p ?r ?x)"
    using d(1,2) accepts upd du(1) re by (simp add: report_event_def andThen_def Let_def)
  have result: "kregs (snd (push_specific_regs (ev_ptrace (stops E)) True ?t)) (get_reg_offset SYSARG_RESULT) = word_of_int (pid c)"
    using push_gives_result [OF push(1) poke_synced [OF push(2)]] by (simp add: peek_poke)
  show ?thesis
    using rep de result m
    by (intro exI [of _ "on_task p ?r ?x"] exI [of _ "?r (?h (t\<lparr>tmem := m\<rparr>))"] exI [of _ "?g ?c"] conjI)
      (simp_all add: on_th_def on_side_def restart_thread_kregs)
qed

text \<open>What is noted before an event is reported.\<close>

definition noted :: "nat \<Rightarrow> wait_status \<Rightarrow> bool \<Rightarrow> world \<Rightarrow> world" where
  "noted a ev starts w =
     (let w = on_task a (on_side (\<lambda>s. s\<lparr>proot_value := ev, proot_pending := True\<rparr>)) w
      in if starts then on_task a (on_side (\<lambda>s. s\<lparr>tracing_started := True\<rparr>)) w else w)"

text \<open>
  C28: an event reaches the tracer that waits for it, once. Take an event that \<open>handle_ptracee_event\<close> passes on for a
  tracee \<open>a\<close> to its tracer \<open>p\<close> (it is one the tracer asked for, the tracing has started, and when the event is handled
  first it is not suppressed), and let the tracer sit in a wait that accepts this tracee, with a writable place for the
  status (or none), where the requests of \<open>ptrace(2)\<close> succeed and its result register was pushed or is marked as changed. Then the wait
  ends: the registers the kernel holds for the tracer have the number of the tracee as the result, the status is written where
  the tracer asked, the tracer runs again and waits no more, and the event of the tracee is not pending any more; the tracee stays
  stopped exactly when it has not ended. The end of a child of the tracer is the exception: the kernel reports it.
\<close>

theorem report_serves_waiting_tracer:
  assumes event: "deref w (Some a) = Inr c0" "tracer (as_ptracee c0) = Some p"
      "classify_event (as_ptracee c0) (status (th c0) \<noteq> 0) ev = Some (ev', first, may_suppress, starts)"
      "tracing_started (as_ptracee c0) \<or> starts"
    and handled: "if first then \<exists>sig v. handle a ev (noted a ev starts w) = Inr (sig, v) \<and> may_suppress = (sig \<noteq> 0) \<and>
        u = on_task a (on_side (\<lambda>s. s\<lparr>proot_value := word_of_int sig\<rparr>)) v
      else u = noted a ev starts w"
    and p: "deref u (Some p) = Inr t" "0 < pid t" "\<not> terminated t" "\<And>u. ptrace_ok E u"
    and a: "deref u (Some a) = Inr c" "a \<noteq> p" "0 < pid c" "\<not> is_zombie (as_ptracee c)"
    and waits: "wait_pid t = -1 \<or> wait_pid t = pid c" "EXPECTED_WAIT_CLONE (wait_options t) c"
    and other: "\<not> (tracer (as_ptracee c) = parent c \<and> ended_status ev')"
    and room: "peek_reg ORIGINAL SYSARG_2 (th t) = 0 \<or>
      (\<exists>m. write_data (tmem t) (peek_reg ORIGINAL SYSARG_2 (th t)) (le_bytes 4 (unat ev')) = (None, m))"
    and push: "ptrace_works (ev_ptrace (stops E))" "result_synced (th t)"
  shows "\<exists>w' t' c'. handle_ptracee_event E handle a ev w = Inr (WIFSTOPPED ev \<or> \<not> ended_status ev, w') \<and>
    deref w' (Some p) = Inr t' \<and> wait_pid t' = 0 \<and> running t' \<and>
    kregs (th t') (get_reg_offset SYSARG_RESULT) = word_of_int (pid c) \<and>
    (peek_reg ORIGINAL SYSARG_2 (th t) \<noteq> 0 \<longrightarrow>
       write_data (tmem t) (peek_reg ORIGINAL SYSARG_2 (th t)) (le_bytes 4 (unat ev')) = (None, tmem t')) \<and>
    deref w' (Some a) = Inr c' \<and> \<not> event_pending (as_ptracee c') \<and> event_value (as_ptracee c') = ev' \<and> running c' = running c"
proof -
  let ?keep = "WIFSTOPPED ev \<or> \<not> ended_status ev"
  have "handle_ptracee_event E handle a ev w = report_event E a p ev' ?keep u"
    using event handled unfolding handle_ptracee_event_def noted_def
    by (cases first) (auto simp: andThen_def Let_def split: if_split_asm)
  with report_completes_wait [OF p a waits other room push, of ?keep] show ?thesis by simp
qed

text \<open>The tracer 7 waits for any ptracee without asking for the status; its ptracee 9 is stopped by a signal.\<close>

definition waiting_world :: world where
  "waiting_world = \<lparr>live = [(blank_task attaching_env 1 9)\<lparr>as_ptracee := no_ptracee\<lparr>tracer := Some 0\<rparr>\<rparr>,
      (blank_task attaching_env 0 7)\<lparr>nb_ptracees := 1, wait_pid := -1, th := fresh_thread\<lparr>regs := (\<lambda>_ _. 0), kregs := (\<lambda>_. 0)\<rparr>\<rparr>],
     dead = [], next_addr = 2, next_vpid = 2, has_terminated = False, globals = demo_globals, sent = []\<rparr>"

theorem report_serves_waiting_tracer_witness:
  "\<exists>w' t'. handle_ptracee_event attaching_env (\<lambda>a ev w. Inr (0, w)) 1 0x057F waiting_world = Inr (True, w') \<and> deref w' (Some 0) = Inr t' \<and>
     wait_pid t' = 0 \<and> kregs (th t') 0 = 9"
proof -
  let ?t = "(blank_task attaching_env 0 7)\<lparr>nb_ptracees := 1, wait_pid := -1, th := fresh_thread\<lparr>regs := (\<lambda>_ _. 0), kregs := (\<lambda>_. 0)\<rparr>\<rparr>"
  let ?c = "(blank_task attaching_env 1 9)\<lparr>as_ptracee := no_ptracee\<lparr>tracer := Some 0\<rparr>\<rparr>"
  let ?f = "on_side (\<lambda>s. s\<lparr>proot_value := 0x057F, proot_pending := True\<rparr>)" and ?g = "on_side (\<lambda>s. s\<lparr>tracing_started := True\<rparr>)"
  let ?u = "noted 1 0x057F True waiting_world"
  have d: "deref waiting_world (Some 0) = Inr ?t" "deref waiting_world (Some 1) = Inr ?c"
    by (simp_all add: deref_def waiting_world_def blank_task_def)
  have du: "deref ?u (Some 0) = Inr ?t" "deref ?u (Some 1) = Inr (?g (?f ?c))"
    using deref_on_task [OF deref_on_task [OF d(1), of ?f 1], of ?g 1] deref_on_task [OF deref_on_task [OF d(2), of ?f 1], of ?g 1]
    by (simp_all add: noted_def)
  have e: "\<not> ended_status 0x057F" by (simp add: ended_status_def WIFEXITED_def WIFSIGNALED_def)
  have k: "\<And>u. ptrace_ok attaching_env u" by (simp add: demo_life_env_def)
  have cl: "classify_event (as_ptracee ?c) (status (th ?c) \<noteq> 0) 0x057F = Some (0x057F, False, False, True)"
    by (simp add: classify_event_def WIFSTOPPED_def stop_code_def event_option_def codes)
  have "\<exists>w' t' c'. handle_ptracee_event attaching_env (\<lambda>a ev w. Inr (0, w)) 1 0x057F waiting_world = Inr (WIFSTOPPED 0x057F \<or> \<not> ended_status 0x057F, w') \<and>
    deref w' (Some 0) = Inr t' \<and> wait_pid t' = 0 \<and> running t' \<and>
    kregs (th t') (get_reg_offset SYSARG_RESULT) = word_of_int (pid (?g (?f ?c))) \<and>
    (peek_reg ORIGINAL SYSARG_2 (th ?t) \<noteq> 0 \<longrightarrow>
       write_data (tmem ?t) (peek_reg ORIGINAL SYSARG_2 (th ?t)) (le_bytes 4 (unat (0x057F :: wait_status))) = (None, tmem t')) \<and>
    deref w' (Some 1) = Inr c' \<and> \<not> event_pending (as_ptracee c') \<and> event_value (as_ptracee c') = 0x057F \<and> running c' = running (?g (?f ?c))"
    by (rule report_serves_waiting_tracer [OF d(2) _ cl _ _ du(1) _ _ k du(2)])
      (use e demo_works in \<open>simp_all add: blank_task_def no_ptracee_def EXPECTED_WAIT_CLONE_def peek_reg_def on_side_def result_synced_def
          demo_life_env_def demo_ev_env_def\<close>)
  then show ?thesis using e by (auto simp: blank_task_def on_side_def)
qed

end
