(* ===== verification/Spec2Isabelle.thy ===== *)
theory Spec2Isabelle
  imports Prelude Paths Path_Spec Dirfd Dirfd_Spec Bindings Binding_Spec Proc Canon Canon_Spec
    Translate Translate_Spec Sysnum Sysnum_Spec Seccomp Seccomp_Spec Thread Thread_Spec Stage Stage_Spec
    Memory Ipc Ipc_Sem Ipc_Msg Ipc_Shm Sigsys Ipc_Main Ipc_Sem_Spec Ipc_Msg_Spec Ipc_Spec Ipc_Shm_Spec Ipc_Reach Creds Creds_Spec
    Neon Sysarg Sysarg_Spec Aoxp Aoxp_Spec Shebang Shebang_Spec
    Elf Load Ldso Loader Loader_Spec Load_Spec Auxv Exec
    Procfd Procfd_Spec Mount Mount_Spec Netlink Netlink_Spec
    Event Event_Spec Tracees Ptrace Life Ptrace_Count Life_Spec Life_Reach Wait_Spec
begin

text \<open>
  neoproot runs a program in the file system of a guest without privilege: it stops the processes it traces at
  their system calls (\<open>ptrace(2)\<close>), changes paths, results and calls, and lets them go on. This development models
  the parts of it that decide what a traced process (a \<^emph>\<open>tracee\<close>) gets to see, for the one architecture it is built for
  (arm64, 64-bit words, little endian), and proves what each part promises. Definitions carry the names of the C
  functions of \<^verbatim>\<open>src/\<close> wherever HOL allows it; a branch of the code is a branch of the definition, errors included.

  \<^bold>\<open>How the parts interact.\<close> The event loop (\<open>Life\<close>) waits for stops and hands them to \<open>handle_tracee_event\<close> (\<open>Event\<close>), which
  keeps the order of the stops of a tracee, sends the ones another tracee waits for to the emulation of \<open>ptrace(2)\<close>
  (\<open>Tracees\<close>, \<open>Ptrace\<close>) and runs the two stages of a system call (\<open>Stage\<close>) on the registers (\<open>Thread\<close>). Which calls stop at
  all is decided by a filter that the tracer builds (\<open>Seccomp\<close>) from the table of numbers (\<open>Sysnum\<close>). At the entry the
  handlers read paths from the memory of the tracee (\<open>Memory\<close>, \<open>Sysarg\<close>), translate them (\<open>Translate\<close>, over \<open>Canon\<close>,
  \<open>Bindings\<close>, \<open>Proc\<close>, \<open>Dirfd\<close> and \<open>Paths\<close>) and write them back; a program that is executed has its script lines, argument
  vectors and ELF headers treated before that (\<open>Aoxp\<close>, \<open>Shebang\<close>, \<open>Elf\<close>, \<open>Load\<close>, \<open>Ldso\<close>), and the
  loader that replaces it maps its segments (\<open>Loader\<close>, \<open>Auxv\<close>). Extensions answer some calls
  themselves: identities (\<open>Creds\<close>), System V IPC (\<open>Ipc\<close>, \<open>Ipc_Sem\<close>, \<open>Ipc_Msg\<close>, \<open>Ipc_Shm\<close>, \<open>Ipc_Main\<close>), trapped calls (\<open>Sigsys\<close>).

  \<^bold>\<open>Shared vocabulary\<close> (\<open>Prelude\<close>): words, the type of errors (\<open>errno\<close>, with \<open>Crash\<close> for the branch on which the tracer itself
  fails an assertion or follows a NULL pointer), C strings as character lists without their NUL, the fragment of
  the C library the code uses, and the collections \<open>path_simps\<close> and \<open>reg_simps\<close>.

  \<^bold>\<open>Paths.\<close>
  \<^item> \<open>Paths\<close> (\<^verbatim>\<open>path/path.c\<close>, \<^verbatim>\<open>path/canon.c\<close>): comparing, joining, prefix replacement, final separators, the cursor over
    components. \<open>Path_Spec\<close> reads a path as a list of components and shows the string operations to be prefix tests,
    appending and removing on lists; the comparison in blocks of sixteen bytes agrees with a byte by byte one.
  \<^item> \<open>Dirfd\<close> (\<^verbatim>\<open>path/path.c\<close>): the cache of translated directory descriptors, with the descriptor table of the tracer.
    \<open>Dirfd_Spec\<close>: each host descriptor is open and owned by one slot, whatever the operations and their order.
  \<^item> \<open>Bindings\<close> (\<^verbatim>\<open>path/binding.c\<close>): three ordered lists of bindings on a heap of objects, the cached array, lookup,
    insertion, replacement and restoration. \<open>Binding_Spec\<close>: the cache agrees with the lists after any sequence of
    operations, the longest prefix wins, and for guest lookups a replaced binding comes back.
  \<^item> \<open>Proc\<close> (\<^verbatim>\<open>path/proc.c\<close>), \<open>Canon\<close> (\<^verbatim>\<open>path/canon.c\<close>, \<^verbatim>\<open>path/glue.c\<close>): links below \<^verbatim>\<open>/proc\<close>, symbolic links, and the missing
    directories between bindings. \<open>Canon_Spec\<close>: the result is canonical for every file system, up to the final dot that is
    put back and what happens to it at the length limit.
  \<^item> \<open>Translate\<close> (\<^verbatim>\<open>path/path.c\<close>): the translation in both directions. \<open>Translate_Spec\<close>: a translated path outside \<^verbatim>\<open>/proc\<close> stays below the
    host side of the deepest binding, length limit aside, and translating back gives the guest path.

  \<^bold>\<open>System calls.\<close>
  \<^item> \<open>Sysnum\<close> (\<^verbatim>\<open>syscall/sysnum.c\<close>), \<open>Seccomp\<close> (\<^verbatim>\<open>syscall/seccomp.c\<close>): the table and the BPF program. \<open>Seccomp_Spec\<close> runs the program
    on a machine of the documented BPF instructions and shows that its verdict is that of the lists of calls, and what
    that means for a call a list asks for.
  \<^item> \<open>Thread\<close> (\<^verbatim>\<open>tracee/reg.cpp\<close>, \<^verbatim>\<open>syscall/chain.c\<close>, \<^verbatim>\<open>syscall/heap.c\<close>): four versions of the registers, chained calls, \<open>brk\<close>.
    \<open>Stage\<close> (\<^verbatim>\<open>syscall/syscall.c\<close>): the entry and exit of a call. \<open>Stage_Spec\<close>: a call changes no register but its result,
    a refused call does not happen, chained calls run in order, a call the tracer performs itself writes to its own buffers.
    \<open>Thread_Spec\<close>: \<open>brk\<close> refines a break that grows in place.
  \<^item> \<open>Memory\<close>, \<open>Neon\<close>, \<open>Sysarg\<close> (\<^verbatim>\<open>tracee/mem.cpp\<close>, \<^verbatim>\<open>syscall/syscall.c\<close>): words, strings and blocks in the memory of a tracee, a
    partial map from addresses to bytes. \<open>Sysarg_Spec\<close>: a path that is put there is read back, and memory above the stack
    pointer is left alone.
  \<^item> \<open>Procfd\<close> (\<^verbatim>\<open>syscall/exit.c\<close>): the names of descriptors that \<^verbatim>\<open>/proc\<close> links are answered from. \<open>Procfd_Spec\<close>: the tables of
    all threads refine one partial map for each group of threads that share descriptors; a name is never stale.
  \<^item> \<open>Mount\<close> (\<^verbatim>\<open>syscall/enter.c\<close>): \<open>mount(2)\<close> and its relatives on the table of bindings, with the checks of read-only
    mounts. \<open>Mount_Spec\<close>: the mount that \<open>mount_setattr\<close> changes is the innermost one of the path that was named, and the check before
    a write refuses plain paths below a mount that was made read-only.
  \<^item> \<open>Netlink\<close> (\<^verbatim>\<open>syscall/enter.c\<close>, \<^verbatim>\<open>syscall/exit.c\<close>): the socket calls whose netlink requests the tracer answers itself: the requests
    it recognises, the replies it builds from the interfaces of the host, the datagrams it hands out, and the handlers
    of \<open>socket\<close>, \<open>bind\<close>, \<open>getsockname\<close> and of sending and receiving. \<open>Netlink_Spec\<close>: a reply is well-formed, a receiver gets it to its
    last message, and exactly which requests make the search for an acknowledgement run forever.

  \<^bold>\<open>Executing a program.\<close>
  \<^item> \<open>Aoxp\<close> (\<^verbatim>\<open>execve/aoxp.c\<close>): vectors of pointers; \<open>Aoxp_Spec\<close>: what was pushed is fetched back.
  \<^item> \<open>Shebang\<close> (\<^verbatim>\<open>execve/shebang.c\<close>, \<^verbatim>\<open>execve/enter.c\<close>): scripts; \<open>Shebang_Spec\<close>: the first line is read as the kernel reads it,
    and a chain of interpreters gets the arguments the kernel would give. The loop has the bound of the code
    (\<open>MAXSYMLINKS\<close> turns), so it always ends.
  \<^item> \<open>Elf\<close> (\<^verbatim>\<open>execve/elf.c\<close>), \<open>Load\<close> (\<^verbatim>\<open>execve/enter.c\<close>): headers, mappings of the segments, addresses of position independent
    files. \<open>Load_Spec\<close>: the mappings leave every byte of every segment in memory, zeros behind the bytes of the file.
  \<^item> \<open>Loader\<close> (\<^verbatim>\<open>execve/exit.c\<close>, \<^verbatim>\<open>loader/loader.cpp\<close>): the script the tracer writes below the stack and the loader that reads it,
    both on the memory of the tracee. \<open>Loader_Spec\<close>: the run of the loader refines \<open>map_program\<close>, the mappings in their order,
    and ends at the entry with a corrected auxiliary vector. Its fuel is a number of turns; the property names one that is enough.
  \<^item> \<open>Auxv\<close> (\<^verbatim>\<open>execve/auxv.c\<close>): the auxiliary vector and its round trip; \<open>Ldso\<close> (\<^verbatim>\<open>execve/ldso.c\<close>): the variables of the linker.
  \<^item> \<open>Exec\<close> (\<^verbatim>\<open>execve/enter.c\<close>, \<^verbatim>\<open>execve/exit.c\<close>): the entry and the exit of \<open>execve(2)\<close>, composed of the parts above.

  \<^bold>\<open>Processes.\<close>
  \<^item> \<open>Event\<close> (\<^verbatim>\<open>tracee/event.c\<close>): the stops of one tracee; \<open>Event_Spec\<close>: under both orders in which kernels report the stop of
    the filter and that of the entry, tracer and tracee stay in step.
  \<^item> \<open>Tracees\<close>, \<open>Ptrace\<close> (\<^verbatim>\<open>ptrace/ptrace.c\<close>, \<^verbatim>\<open>ptrace/wait.c\<close>), \<open>Life\<close> (\<^verbatim>\<open>tracee/tracee.c\<close>): tracees as a list of records that
    name each other by address. \<open>Ptrace_Count\<close>, \<open>Life_Spec\<close>, \<open>Life_Reach\<close>: in every reachable world a tracer counts at least
    its ptracees. \<open>Wait_Spec\<close>: an event reaches the tracer that waits for it, once.

  \<^bold>\<open>Extensions.\<close>
  \<^item> \<open>Ipc\<close>, \<open>Ipc_Sem\<close>, \<open>Ipc_Msg\<close>, \<open>Ipc_Shm\<close>, \<open>Ipc_Main\<close> (\<^verbatim>\<open>extension/sysvipc/\<close>): System V IPC as tables of objects. \<open>Ipc_Sem_Spec\<close>,
    \<open>Ipc_Msg_Spec\<close>, \<open>Ipc_Shm_Spec\<close>, \<open>Ipc_Spec\<close>, \<open>Ipc_Reach\<close>: semaphore operations are atomic and conserve their values, the
    oldest matching message is received, a segment lives while it is attached; invariants over every sequence of
    events.
  \<^item> \<open>Creds\<close> (\<^verbatim>\<open>extension/fake_id0/\<close>): emulated identities; \<open>Creds_Spec\<close>: the calls that set ids have the
    results of the kernel with exceptions that are stated, and who does not hold the id 0 does not become the superuser. \<open>Sigsys\<close> (\<^verbatim>\<open>tracee/seccomp.c\<close>): calls that an outer filter traps.

  \<^bold>\<open>Conventions.\<close> The state of the kernel that the tracer observes is a type variable \<open>'w\<close> with the system calls as functions
  on it, so that every property holds for all file systems and all answers. What the tracer allocates does not
  fail unless the size is under the control of a tracee. A loop over a list or a bounded number of turns is structural
  recursion; loops with another measure have a \<open>termination\<close> proof; a loop of \<open>Netlink\<close> that may run forever is a \<open>partial_function (option)\<close>, and
  the property says when it does; fuel occurs only where the C loop is not bounded by the code (the loader, and the
  search for the end of the environment). Several properties describe behaviour that a reader may
  not expect; those are also listed as findings with their places in the code.

  \<^bold>\<open>Not modelled.\<close> The command line and the start of the first program (\<^verbatim>\<open>cli/\<close>), the second back end
  (\<^verbatim>\<open>backend/\<close>: its own supervisor over user notifications, with threads and raw kernel structures), the preloaded library of \<^verbatim>\<open>stat-shim/\<close>, and
  the tables of handlers of \<^verbatim>\<open>syscall/enter.c\<close> and \<^verbatim>\<open>syscall/exit.c\<close> beyond what is named above: these mostly dispatch on
  the number of a call, and are parameters of \<open>Stage\<close>. Of the extensions, the ones that only rewrite the text
  of a file or of a kernel structure (mount information, the routes of \<^verbatim>\<open>extension/netlink_route/\<close>, ports, the kernel version)
  and the translation of links to symbolic links are left out, as is the store of file metadata of \<^verbatim>\<open>extension/fake_id0/\<close>, which the build does not compile.
  Locks, reference counts of the allocator and printed messages are not part of the state.
\<close>

end
